(* ===== verification/Prelude.thy ===== *)
theory Prelude
  imports Main "HOL-Library.Word"
begin

text \<open>
  Shared vocabulary of the development: machine integers of the Go sources, byte slices,
  the little-endian and varint primitives of Go's \<^verbatim>\<open>encoding/binary\<close>, and the list and
  word lemmas the component theories rely on.

  Go's \<open>int\<close> is 64 bits wide on the supported platforms; lengths and slice positions are
  \<open>nat\<close> here (they are bounded by the address space), while every conversion to a narrower
  type, such as \<^verbatim>\<open>uint32(len(values))\<close>, is written out with \<open>word_of_nat\<close>.
\<close>

unbundle bit_operations_syntax

type_synonym u8 = "8 word"
type_synonym u16 = "16 word"
type_synonym u32 = "32 word"
type_synonym u64 = "64 word"
type_synonym bytes = "u8 list"

named_theorems codec_simps \<open>unfolding facts shared by the byte-level codecs\<close>
named_theorems drop_simps \<open>facts that move a read position through a byte slice\<close>

subsection \<open>Slices\<close>

text \<open>Go's slice expression \<^verbatim>\<open>xs[i:j]\<close>; every use is guarded by a bounds check.\<close>

definition slice :: "'a list \<Rightarrow> nat \<Rightarrow> nat \<Rightarrow> 'a list" where
  "slice xs i j = take (j - i) (drop i xs)"

lemma length_slice [simp]: "j \<le> length xs \<Longrightarrow> length (slice xs i j) = j - i"
  by (simp add: slice_def)

lemma slice_0 [simp]: "slice xs 0 j = take j xs"
  by (simp add: slice_def)

text \<open>
  Reads are located by what is left of the slice: \<open>drop pos data = xs @ rest\<close> says that
  \<open>xs\<close> is read next.
\<close>

lemma slice_of_drop [drop_simps]:
  "drop pos data = xs @ rest \<Longrightarrow> slice data pos (pos + length xs) = xs"
  by (simp add: slice_def)

lemma drop_of_drop [drop_simps]:
  "drop pos data = xs @ rest \<Longrightarrow> drop (pos + length xs) data = rest"
proof -
  assume "drop pos data = xs @ rest"
  moreover have "drop (pos + length xs) data = drop (length xs) (drop pos data)"
    by (simp add: add.commute)
  ultimately show ?thesis by simp
qed

lemma length_of_drop [drop_simps]:
  "drop pos data = xs @ rest \<Longrightarrow> pos \<le> length data \<Longrightarrow>
     length data = pos + length xs + length rest"
proof -
  assume eq: "drop pos data = xs @ rest" and le: "pos \<le> length data"
  from eq have "length (drop pos data) = length xs + length rest" by simp
  with le show ?thesis by simp
qed

lemma nth_of_drop [drop_simps]:
  "drop pos data = x # rest \<Longrightarrow> data ! pos = x"
  by (metis nth_via_drop)

lemma slice_update_out: "i < a \<or> c \<le> i \<Longrightarrow> slice (s[i := b]) a c = slice s a c"
  by (rule nth_equalityI) (auto simp: slice_def)

lemma slice_update_in:
  "a \<le> i \<Longrightarrow> i < c \<Longrightarrow> slice (s[i := b]) a c = (slice s a c)[i - a := b]"
  by (simp add: slice_def drop_update_swap take_update_swap)

lemma foldl_inv: "P a \<Longrightarrow> (\<And>a x. x \<in> set xs \<Longrightarrow> P a \<Longrightarrow> P (f a x)) \<Longrightarrow> P (foldl f a xs)"
  by (induction xs arbitrary: a) simp_all

subsection \<open>Words\<close>

lemma bit_word_iff_unat: "bit w n \<longleftrightarrow> bit (unat w) n" for w :: "'a::len word"
  by (simp add: bit_unsigned_iff)

lemma bit_word_less_exp:
  fixes w :: "'a::len word"
  assumes "unat w < 2 ^ k" and "bit w n"
  shows "n < k"
proof (rule ccontr)
  assume "\<not> n < k"
  then have "(2::nat) ^ k \<le> 2 ^ n" by simp
  with assms(1) have "unat w < 2 ^ n" by (rule less_le_trans)
  then have "unat w div 2 ^ n = 0" by simp
  with assms(2) show False by (simp only: bit_word_iff_unat bit_iff_odd) simp
qed

lemma unat_drop_bit_less:
  fixes w :: "'a::len word"
  assumes "k \<le> LENGTH('a)"
  shows "unat (drop_bit k w) < 2 ^ (LENGTH('a) - k)"
proof -
  have "unat w < 2 ^ (LENGTH('a) - k) * 2 ^ k"
    using assms unsigned_less [of w, where ?'a = nat] by (simp flip: power_add)
  then have "unat w div 2 ^ k < 2 ^ (LENGTH('a) - k)"
    by (rule less_mult_imp_div_less)
  then show ?thesis unfolding unat_drop_bit_eq by (simp only: drop_bit_eq_div)
qed

subsection \<open>Little-endian integers\<close>

text \<open>
  \<^verbatim>\<open>binary.LittleEndian.AppendUint16/32/64\<close> append the low byte first;
  \<^verbatim>\<open>binary.LittleEndian.Uint16/32/64\<close> read them back.
\<close>

primrec le_bytes :: "nat \<Rightarrow> 'a::len word \<Rightarrow> bytes" where
  "le_bytes 0 w = []"
| "le_bytes (Suc n) w = ucast w # le_bytes n (drop_bit 8 w)"

primrec le_word :: "bytes \<Rightarrow> 'a::len word" where
  "le_word [] = 0"
| "le_word (b # bs) = ucast b OR push_bit 8 (le_word bs)"

definition PutUint16 :: "u16 \<Rightarrow> bytes" where "PutUint16 v = le_bytes 2 v"
definition PutUint32 :: "u32 \<Rightarrow> bytes" where "PutUint32 v = le_bytes 4 v"
definition PutUint64 :: "u64 \<Rightarrow> bytes" where "PutUint64 v = le_bytes 8 v"
definition Uint16 :: "bytes \<Rightarrow> u16" where "Uint16 bs = le_word (take 2 bs)"
definition Uint32 :: "bytes \<Rightarrow> u32" where "Uint32 bs = le_word (take 4 bs)"
definition Uint64 :: "bytes \<Rightarrow> u64" where "Uint64 bs = le_word (take 8 bs)"

lemma length_le_bytes [simp]: "length (le_bytes n w) = n"
  by (induction n arbitrary: w) auto

lemma le_word_le_bytes: "le_word (le_bytes n w) = take_bit (8 * n) w"
proof (induction n arbitrary: w)
  case 0
  show ?case by simp
next
  case (Suc n)
  have "ucast (ucast w :: u8) OR push_bit 8 (take_bit (8 * n) (drop_bit 8 w)) =
      take_bit (8 * Suc n) w"
    by (rule bit_word_eqI)
       (auto simp: bit_simps not_less le_add_diff_inverse2 nat_less_iff)
  then show ?case by (simp add: Suc.IH)
qed

lemma length_PutUint [simp]:
  "length (PutUint16 a) = 2" "length (PutUint32 b) = 4" "length (PutUint64 c) = 8"
  by (simp_all add: PutUint16_def PutUint32_def PutUint64_def)

lemma Uint16_Put [simp]: "Uint16 (PutUint16 v @ rest) = v" "Uint16 (PutUint16 v) = v"
  by (simp_all add: Uint16_def PutUint16_def le_word_le_bytes take_bit_word_eq_self)

lemma Uint32_Put [simp]: "Uint32 (PutUint32 v @ rest) = v" "Uint32 (PutUint32 v) = v"
  by (simp_all add: Uint32_def PutUint32_def le_word_le_bytes take_bit_word_eq_self)

lemma Uint64_Put [simp]: "Uint64 (PutUint64 v @ rest) = v" "Uint64 (PutUint64 v) = v"
  by (simp_all add: Uint64_def PutUint64_def le_word_le_bytes take_bit_word_eq_self)

subsection \<open>Unsigned varints\<close>

text \<open>
  \<^verbatim>\<open>binary.PutUvarint\<close> and \<^verbatim>\<open>binary.Uvarint\<close>: seven bits per byte, least significant
  group first, the high bit set on every byte but the last. \<open>Uvarint\<close> returns the value and
  the number of bytes read; 0 bytes for an unfinished varint and a negative count on overflow
  of 64 bits.
\<close>

function PutUvarint :: "u64 \<Rightarrow> bytes" where
  "PutUvarint x =
     (if 0x80 \<le> x then (ucast x OR 0x80) # PutUvarint (drop_bit 7 x) else [ucast x])"
  by pat_completeness auto
termination
proof (relation "measure unat")
  show "(drop_bit 7 x, x) \<in> measure unat" if "0x80 \<le> x" for x :: u64
  proof -
    from that have "128 \<le> unat x" by (simp add: word_le_nat_alt)
    then show ?thesis by (simp add: unat_drop_bit_eq drop_bit_eq_div unat_div)
  qed
qed simp

declare PutUvarint.simps [simp del]

fun uvarint_loop :: "nat \<Rightarrow> u64 \<Rightarrow> nat \<Rightarrow> bytes \<Rightarrow> u64 \<times> int" where
  "uvarint_loop i x s [] = (0, 0)"
| "uvarint_loop i x s (b # bs) =
     (if i = 10 then (0, - (int i + 1))
      else if b < 0x80 then
        (if i = 9 \<and> 1 < b then (0, - (int i + 1))
         else (x OR push_bit s (ucast b), int i + 1))
      else uvarint_loop (Suc i) (x OR push_bit s (ucast (b AND 0x7f))) (s + 7) bs)"

definition Uvarint :: "bytes \<Rightarrow> u64 \<times> int" where
  "Uvarint bs = uvarint_loop 0 0 0 bs"

lemma PutUvarint_not_Nil [simp]: "PutUvarint x \<noteq> []"
  by (subst PutUvarint.simps) simp

lemma length_PutUvarint_pos: "0 < length (PutUvarint x)"
  by simp

lemma bit_0x80: "bit (0x80 :: 'a::len word) n \<longleftrightarrow> n = 7 \<and> 7 < LENGTH('a)"
proof -
  have "bit ((2 :: 'a word) ^ 7) n \<longleftrightarrow> n = 7 \<and> 7 < LENGTH('a)"
    by (simp only: bit_exp_iff) auto
  then show ?thesis by simp
qed

lemma uvarint_small:
  fixes X :: u64
  assumes "drop_bit k X < 0x80"
  shows "take_bit k X OR push_bit k (ucast (ucast (drop_bit k X) :: u8)) = X"
proof -
  from assms have "unat (drop_bit k X) < 2 ^ 7" by (simp add: word_less_nat_alt)
  then have b: "bit (drop_bit k X) n \<Longrightarrow> n < 7" for n
    by (rule bit_word_less_exp)
  show ?thesis
  proof (rule bit_word_eqI)
    fix n assume n: "n < LENGTH(64)"
    have "bit X n \<Longrightarrow> k \<le> n \<Longrightarrow> n - k < 7"
      using b [of "n - k"] by (simp add: bit_simps)
    with n show "bit (take_bit k X OR push_bit k (ucast (ucast (drop_bit k X) :: u8))) n = bit X n"
      by (auto simp: bit_simps)
  qed
qed

lemma uvarint_step:
  fixes X :: u64
  shows "take_bit k X OR push_bit k (ucast ((ucast (drop_bit k X) OR 0x80 :: u8) AND 0x7f)) =
    take_bit (k + 7) X"
proof -
  have m: "(0x7f :: u8) = mask 7" by (simp add: mask_eq_exp_minus_1)
  define c where "c = (0x80 :: u8)"
  have c: "bit c n \<longleftrightarrow> n = 7" for n by (simp only: c_def bit_0x80) simp
  show ?thesis unfolding m c_def [symmetric]
    by (rule bit_word_eqI) (auto simp: bit_simps c)
qed

lemma uvarint_byte:
  fixes x :: u64
  assumes "0x80 \<le> x" shows "\<not> (ucast x OR 0x80 :: u8) < 0x80"
proof -
  have "(0x80 :: u8) \<le> ucast x OR 0x80" by (rule le_word_or1)
  then show ?thesis by simp
qed

lemma ucast_less_0x80:
  fixes x :: u64
  assumes "\<not> 0x80 \<le> x" shows "(ucast x :: u8) < 0x80"
proof -
  from assms have "unat x < 128" by (simp add: word_le_nat_alt)
  then show ?thesis by (simp add: word_less_nat_alt unsigned_ucast_eq take_bit_eq_mod)
qed

lemma uvarint_loop_Put:
  assumes "7 * i < 64"
  shows "uvarint_loop i (take_bit (7 * i) X) (7 * i) (PutUvarint (drop_bit (7 * i) X) @ rest) =
    (X, int (i + length (PutUvarint (drop_bit (7 * i) X))))"
  using assms
proof (induction "10 - i" arbitrary: i)
  case 0
  then show ?case by simp
next
  case (Suc m)
  let ?y = "drop_bit (7 * i) X"
  show ?case
  proof (cases "0x80 \<le> ?y")
    case False
    then have lt: "?y < 0x80" by simp
    have "unat ?y \<le> 1" if "i = 9"
      using that unsigned_less [of X, where ?'a = nat]
      by (simp add: drop_bit_eq_div unat_div)
    then have "\<not> (i = 9 \<and> 1 < (ucast ?y :: u8))"
      by (auto simp: word_less_nat_alt unsigned_ucast_eq take_bit_eq_mod)
    with Suc.prems show ?thesis
      using uvarint_small [OF lt] ucast_less_0x80 [OF False] False
      by (subst (1 2) PutUvarint.simps) simp
  next
    case True
    have i: "7 * Suc i < 64"
    proof (rule ccontr)
      assume "\<not> 7 * Suc i < 64"
      then have "64 - 7 * i \<le> 7" by simp
      moreover have "unat ?y < 2 ^ (64 - 7 * i)"
        using unat_drop_bit_less [of "7 * i" X] Suc.prems by simp
      ultimately have "unat ?y < 2 ^ 7"
        by (meson less_le_trans one_le_numeral power_increasing)
      with True show False by (simp add: word_le_nat_alt)
    qed
    have d: "drop_bit 7 ?y = drop_bit (7 * Suc i) X" by (simp add: add.commute)
    have "m = 10 - Suc i" using Suc.hyps(2) by simp
    note IH = Suc.hyps(1) [OF this i]
    show ?thesis
      using True i IH uvarint_byte [OF True] uvarint_step [of "7 * i" X]
      by (subst (1 2) PutUvarint.simps) (simp add: d add.commute)
  qed
qed

lemma Uvarint_Put [simp]: "Uvarint (PutUvarint x @ rest) = (x, int (length (PutUvarint x)))"
  using uvarint_loop_Put [of 0 x rest] by (simp add: Uvarint_def)

subsection \<open>The top bit of a 64-bit word\<close>

lemma and_top_bit: "v AND push_bit 63 1 = 0 \<longleftrightarrow> \<not> bit v 63" for v :: u64
proof
  assume "v AND push_bit 63 1 = 0"
  then have "\<not> bit (v AND push_bit 63 1) 63" by simp
  moreover have "bit (push_bit 63 1 :: u64) 63" by (simp only: bit_push_bit_iff) simp
  ultimately show "\<not> bit v 63" by (simp only: bit_and_iff) simp
next
  assume "\<not> bit v 63"
  then have "\<not> bit v n" if "63 \<le> n" "n < 64" for n
    using that by (cases "n = 63") auto
  then show "v AND push_bit 63 1 = 0"
    by (intro bit_word_eqI) (simp only: bit_and_iff bit_push_bit_iff bit_1_iff bit_0_eq, auto)
qed

lemma bit_xor_top: "bit (v XOR push_bit 63 1) n \<longleftrightarrow> bit v n \<noteq> (n = 63)" for v :: u64
  by (simp only: bit_xor_iff bit_push_bit_iff) (auto simp: bit_1_iff)

subsection \<open>Signed 64-bit arithmetic on integers\<close>

text \<open>
  Go's int64 operations wrap around. Where a component computes with quantities rather than with
  bits its model uses \<open>int\<close> and applies \<open>i64\<close> to every sum and difference.
\<close>

definition i64 :: "int \<Rightarrow> int" where
  "i64 x = (x + 2 ^ 63) mod 2 ^ 64 - 2 ^ 63"

lemma i64_id: "- (2 ^ 63) \<le> x \<Longrightarrow> x < 2 ^ 63 \<Longrightarrow> i64 x = x"
  by (simp add: i64_def)

lemma i64_range: "- (2 ^ 63) \<le> i64 x" "i64 x < 2 ^ 63"
proof -
  have "0 \<le> (x + 2 ^ 63) mod 2 ^ 64" "(x + 2 ^ 63) mod 2 ^ 64 < 2 ^ 64" by simp_all
  then show "- (2 ^ 63) \<le> i64 x" "i64 x < 2 ^ 63" by (simp_all add: i64_def)
qed

lemma sum_map_update:
  fixes f :: "'a \<Rightarrow> int"
  shows "i < length xs \<Longrightarrow> (\<Sum>x\<leftarrow>xs[i := y]. f x) = (\<Sum>x\<leftarrow>xs. f x) + f y - f (xs ! i)"
proof (induction xs arbitrary: i)
  case (Cons x xs)
  then show ?case by (cases i) auto
qed simp

subsection \<open>Decimal formatting\<close>

definition digit :: "nat \<Rightarrow> char" where "digit n = char_of (48 + n)"

text \<open>The verb \<open>%d\<close> of \<open>fmt\<close> on natural numbers.\<close>

fun dec :: "nat \<Rightarrow> string" where
  "dec n = (if n < 10 then [digit n] else dec (n div 10) @ [digit (n mod 10)])"

declare dec.simps [simp del]

definition undec :: "string \<Rightarrow> nat" where
  "undec s = foldl (\<lambda>a c. 10 * a + (of_char c - 48)) 0 s"

lemma of_char_digit: "n < 10 \<Longrightarrow> of_char (digit n) = 48 + n"
  by (simp add: digit_def)

lemma undec_dec [simp]: "undec (dec n) = n"
proof (induction n rule: dec.induct)
  case (1 n)
  show ?case
  proof (cases "n < 10")
    case True
    then show ?thesis by (simp add: dec.simps [of n] undec_def of_char_digit)
  next
    case False
    with 1 have "foldl (\<lambda>a c. 10 * a + (of_char c - 48)) 0 (dec (n div 10)) = n div 10" by (simp add: undec_def)
    with False show ?thesis by (simp add: dec.simps [of n] undec_def of_char_digit)
  qed
qed

lemma dec_inject [simp]: "dec m = dec n \<longleftrightarrow> m = n"
  by (metis undec_dec)

lemma set_dec: "c \<in> set (dec n) \<Longrightarrow> \<exists>k < 10. c = digit k"
proof (induction n rule: dec.induct)
  case (1 n)
  show ?case
  proof (cases "n < 10")
    case True
    with "1.prems" show ?thesis by (auto simp: dec.simps [of n])
  next
    case False
    then have "dec n = dec (n div 10) @ [digit (n mod 10)]" by (simp add: dec.simps [of n])
    with "1.prems" have "c \<in> set (dec (n div 10)) \<or> c = digit (n mod 10)" by auto
    moreover have "n mod 10 < 10" by simp
    ultimately show ?thesis using "1.IH" [OF False] by blast
  qed
qed

lemma unat_ucast_small:
  fixes x :: "'a::len word"
  shows "unat x < 2 ^ LENGTH('b) \<Longrightarrow> unat (ucast x :: 'b::len word) = unat x"
  by (simp add: unsigned_ucast_eq take_bit_nat_eq_self)

lemma append_sep_inject:
  "x \<notin> set xs \<Longrightarrow> x \<notin> set ys \<Longrightarrow> xs @ x # as = ys @ x # bs \<longleftrightarrow> xs = ys \<and> as = bs"
proof (induction xs arbitrary: ys)
  case Nil
  then show ?case by (cases ys) auto
next
  case (Cons a xs)
  then show ?case by (cases ys) auto
qed

end
