(* ===== verification/Range_Value.thy ===== *)
theory Range_Value
  imports Prelude
begin

text \<open>
  \<^verbatim>\<open>src/pkg/storage/segment/index/bsi_value.go\<close>: the map from float64 values to the signed
  64-bit integers a range index stores. A float64 is its 64-bit pattern, an int64 its two's
  complement word.
\<close>

definition RangeBSIValueInt :: u8 where "RangeBSIValueInt = 0"
definition RangeBSIValueFloat64Bits :: u8 where "RangeBSIValueFloat64Bits = 1"
definition RangeBSIValueTimestampNS :: u8 where "RangeBSIValueTimestampNS = 2"
definition RangeBSIValueBool :: u8 where "RangeBSIValueBool = 3"

definition FloatToOrderedInt64 :: "u64 \<Rightarrow> u64" where
  "FloatToOrderedInt64 bits =
     (let ordered = (if bits AND push_bit 63 1 \<noteq> 0 then NOT bits else bits XOR push_bit 63 1)
      in ordered XOR push_bit 63 1)"

definition OrderedInt64ToFloat :: "u64 \<Rightarrow> u64" where
  "OrderedInt64ToFloat v =
     (let ordered = v XOR push_bit 63 1
      in if ordered AND push_bit 63 1 = 0 then NOT ordered else ordered XOR push_bit 63 1)"

definition BoolToInt64 :: "bool \<Rightarrow> u64" where
  "BoolToInt64 v = (if v then 1 else 0)"

subsection \<open>The value of a float64\<close>

text \<open>
  IEEE 754 binary64, scaled by $2^{1074}$ so that every finite value is an integer: 52 bits of
  fraction, 11 bits of exponent, a sign bit. The infinities take the value the formula gives,
  beyond every finite one.
\<close>

definition float_magnitude :: "u64 \<Rightarrow> nat" where
  "float_magnitude bits = unat (take_bit 63 bits)"

definition magnitude_value :: "nat \<Rightarrow> nat" where
  "magnitude_value m =
     (let e = m div 2 ^ 52; f = m mod 2 ^ 52
      in if e = 0 then f else (2 ^ 52 + f) * 2 ^ (e - 1))"

definition float_value :: "u64 \<Rightarrow> int" where
  "float_value bits =
     (if bit bits 63 then - int (magnitude_value (float_magnitude bits))
      else int (magnitude_value (float_magnitude bits)))"

definition is_NaN :: "u64 \<Rightarrow> bool" where
  "is_NaN bits \<longleftrightarrow> float_magnitude bits > 2047 * 2 ^ 52"

definition is_zero :: "u64 \<Rightarrow> bool" where
  "is_zero bits \<longleftrightarrow> float_magnitude bits = 0"

text \<open>The value grows with the magnitude: within a binade and from one binade to the next.\<close>

lemma magnitude_value_split:
  "f < 2 ^ 52 \<Longrightarrow> magnitude_value (e * 2 ^ 52 + f) =
     (if e = 0 then f else (2 ^ 52 + f) * 2 ^ (e - 1))"
  by (simp add: magnitude_value_def)

lemma magnitude_value_Suc: "magnitude_value m < magnitude_value (Suc m)"
proof -
  define e f where "e = m div 2 ^ 52" and "f = m mod 2 ^ 52"
  have m: "m = e * 2 ^ 52 + f" and f: "f < 2 ^ 52"
    unfolding e_def f_def by (rule div_mult_mod_eq [symmetric]) simp
  show ?thesis
  proof (cases "Suc f < 2 ^ 52")
    case True
    have "Suc m = e * 2 ^ 52 + Suc f" by (simp add: m)
    with True f show ?thesis unfolding m by (simp only: magnitude_value_split) simp
  next
    case False
    with f have fe: "f = 2 ^ 52 - 1" by simp
    then have "Suc m = Suc e * 2 ^ 52 + 0" by (simp add: m)
    then show ?thesis
      using fe f magnitude_value_split [of 0 "Suc e"] magnitude_value_split [OF f, of e] m
      by (cases e) simp_all
  qed
qed

lemma magnitude_value_mono [simp]:
  "magnitude_value m < magnitude_value n \<longleftrightarrow> m < n"
  "magnitude_value m = magnitude_value n \<longleftrightarrow> m = n"
  using strict_mono_Suc_iff [of magnitude_value] magnitude_value_Suc
  by (auto simp: strict_mono_less strict_mono_eq)

lemma magnitude_value_0 [simp]: "magnitude_value 0 = 0"
  by (simp add: magnitude_value_def)

lemma magnitude_value_eq_0 [simp]: "magnitude_value m = 0 \<longleftrightarrow> m = 0"
  using magnitude_value_mono(2) [of m 0] by simp

subsection \<open>The encoding as an integer\<close>

lemma bit_FloatToOrderedInt64:
  "n < 64 \<Longrightarrow> bit (FloatToOrderedInt64 bits) n \<longleftrightarrow>
     (if n = 63 then bit bits 63 else bit bits n \<noteq> bit bits 63)"
  unfolding FloatToOrderedInt64_def Let_def and_top_bit
  by (cases "bit bits 63"; simp only: bit_xor_top bit_not_iff if_True if_False not_not) auto

lemma bit_OrderedInt64ToFloat:
  "n < 64 \<Longrightarrow> bit (OrderedInt64ToFloat v) n \<longleftrightarrow>
     (if n = 63 then bit v 63 else bit v n \<noteq> bit v 63)"
  unfolding OrderedInt64ToFloat_def Let_def and_top_bit bit_xor_top
  by (cases "bit v 63"; simp only: bit_xor_top bit_not_iff if_True if_False simp_thms) auto

lemma ordered_inverse [simp]:
  "OrderedInt64ToFloat (FloatToOrderedInt64 bits) = bits"
  "FloatToOrderedInt64 (OrderedInt64ToFloat v) = v"
  by (rule bit_word_eqI; auto simp: bit_OrderedInt64ToFloat bit_FloatToOrderedInt64)+

text \<open>The sign-magnitude pattern becomes a two's complement integer.\<close>

lemma FloatToOrderedInt64_word:
  "FloatToOrderedInt64 bits = (if bit bits 63 then NOT (take_bit 63 bits) else take_bit 63 bits)"
  by (rule bit_word_eqI) (auto simp: bit_FloatToOrderedInt64 bit_simps)

lemma sint_take_bit_63: "sint (take_bit 63 bits :: u64) = int (unat (take_bit 63 bits))"
proof -
  have "unat (take_bit 63 bits) < 2 ^ 63"
    by (simp add: unsigned_take_bit_eq take_bit_nat_less_exp del: power_numeral)
  then have "int (unat (take_bit 63 bits)) < 2 ^ 63" by (simp only: of_nat_less_numeral_power_cancel_iff)
  then have "uint (take_bit 63 bits) < 2 ^ 63" by (simp only: uint_nat)
  then have "signed_take_bit 63 (uint (take_bit 63 bits)) = uint (take_bit 63 bits)"
    by (intro signed_take_bit_int_eq_self) (auto intro: order_trans [of _ 0])
  then show ?thesis by (simp add: sint_uint)
qed

lemma sint_FloatToOrderedInt64:
  "sint (FloatToOrderedInt64 bits) =
     (if bit bits 63 then - int (float_magnitude bits) - 1 else int (float_magnitude bits))"
proof -
  define w where "w = take_bit 63 bits"
  have "signed_take_bit 64 (NOT (sint w)) = NOT (sint w)"
    using sint_greater_eq [of w] sint_less [of w]
    by (intro signed_take_bit_int_eq_self) (simp_all add: not_int_def)
  then show ?thesis
    using sint_take_bit_63 [of bits, folded w_def]
    by (simp add: FloatToOrderedInt64_word float_magnitude_def signed_not_eq not_int_def flip: w_def)
qed

lemma sign_magnitude_order:
  fixes m n M N :: nat
  assumes "M < N \<longleftrightarrow> m < n" and "M = N \<longleftrightarrow> m = n" and "M = 0 \<longleftrightarrow> m = 0" and "N = 0 \<longleftrightarrow> n = 0"
  shows "((if s then - int m - 1 else int m) < (if t then - int n - 1 else int n)) =
    ((if s then - int M else int M) < (if t then - int N else int N) \<or>
     (m = 0 \<and> n = 0 \<and> s \<and> \<not> t))"
  using assms by (cases s; cases t; simp) presburger+

subsection \<open>Properties\<close>

text \<open>
  The float encoding is order preserving up to the sign of zero: for any two float64
  patterns that are not NaN the signed order of their encodings is the order of the values they
  denote, with one exception: the encoding puts negative zero strictly below positive zero,
  which compare equal as floats.
\<close>

theorem float_encoding_order:
  assumes "\<not> is_NaN a" and "\<not> is_NaN b"
  shows "(FloatToOrderedInt64 a <s FloatToOrderedInt64 b) =
    (float_value a < float_value b \<or> (is_zero a \<and> is_zero b \<and> bit a 63 \<and> \<not> bit b 63))"
  unfolding word_sless_alt sint_FloatToOrderedInt64 float_value_def is_zero_def
  by (rule sign_magnitude_order) simp_all

theorem float_encoding_order_witness:
  "(FloatToOrderedInt64 (2 ^ 63) <s FloatToOrderedInt64 0) =
    (float_value (2 ^ 63) < float_value 0 \<or>
     (is_zero (2 ^ 63) \<and> is_zero 0 \<and> bit (2 ^ 63 :: u64) 63 \<and> \<not> bit (0 :: u64) 63)) \<and>
   FloatToOrderedInt64 (2 ^ 63) <s FloatToOrderedInt64 0 \<and> float_value (2 ^ 63) = float_value 0"
  using float_encoding_order [of "2 ^ 63" 0]
  by (simp add: is_NaN_def is_zero_def float_value_def float_magnitude_def bit_exp_iff take_bit_eq_mod)

text \<open>
  The float encoding is a bijection: \<open>OrderedInt64ToFloat\<close> undoes \<open>FloatToOrderedInt64\<close> on
  every bit pattern, NaNs included, and every int64 is the encoding of some pattern.
\<close>

theorem float_encoding_bijection:
  "OrderedInt64ToFloat (FloatToOrderedInt64 bits) = bits \<and>
   FloatToOrderedInt64 (OrderedInt64ToFloat v) = v"
  by simp

end
