(* ===== verification/Roaring.thy ===== *)
theory Roaring
  imports Prelude
begin

text \<open>
  The bitmaps of row numbers that the index and filter code builds are values of the
  third-party package \<^verbatim>\<open>github.com/RoaringBitmap/roaring\<close>. The model takes the operations the
  code calls as a parameter, a value of the record \<open>roaring\<close>; \<open>roaring_laws\<close> states
  their documented behaviour; \<open>rb_to_list\<close> is the order in which an iterator returns the members. The record \<open>set_roaring\<close>, bitmaps as sets, satisfies the laws.
\<close>

record 'b roaring =
  rb_new :: 'b
  rb_add :: "u32 \<Rightarrow> 'b \<Rightarrow> 'b"
  rb_add_range :: "u64 \<Rightarrow> u64 \<Rightarrow> 'b \<Rightarrow> 'b"
  rb_or :: "'b \<Rightarrow> 'b \<Rightarrow> 'b"
  rb_contains :: "'b \<Rightarrow> u32 \<Rightarrow> bool"
  rb_and :: "'b \<Rightarrow> 'b \<Rightarrow> 'b"
  rb_to_list :: "'b \<Rightarrow> u32 list"

definition roaring_laws :: "'b roaring \<Rightarrow> bool" where
  "roaring_laws R \<longleftrightarrow>
     (\<forall>x. \<not> rb_contains R (rb_new R) x) \<and>
     (\<forall>b x y. rb_contains R (rb_add R x b) y \<longleftrightarrow> y = x \<or> rb_contains R b y) \<and>
     (\<forall>b lo hi y. rb_contains R (rb_add_range R lo hi b) y \<longleftrightarrow>
        unat lo \<le> unat y \<and> unat y < unat hi \<or> rb_contains R b y) \<and>
     (\<forall>a b y. rb_contains R (rb_or R a b) y \<longleftrightarrow> rb_contains R a y \<or> rb_contains R b y) \<and>
     (\<forall>a b y. rb_contains R (rb_and R a b) y \<longleftrightarrow> rb_contains R a y \<and> rb_contains R b y) \<and>
     (\<forall>b y. y \<in> set (rb_to_list R b) \<longleftrightarrow> rb_contains R b y)"

definition set_roaring :: "u32 set roaring" where
  "set_roaring = \<lparr>rb_new = {}, rb_add = insert,
     rb_add_range = (\<lambda>lo hi b. {y. unat lo \<le> unat y \<and> unat y < unat hi} \<union> b),
     rb_or = (\<union>), rb_contains = (\<lambda>b x. x \<in> b), rb_and = (\<inter>), rb_to_list = sorted_list_of_set\<rparr>"

lemma roaring_lawsD:
  assumes "roaring_laws R"
  shows "\<not> rb_contains R (rb_new R) x"
    and "rb_contains R (rb_add R x b) y \<longleftrightarrow> y = x \<or> rb_contains R b y"
    and "rb_contains R (rb_add_range R lo hi b) y \<longleftrightarrow>
           unat lo \<le> unat y \<and> unat y < unat hi \<or> rb_contains R b y"
    and "rb_contains R (rb_or R a b) y \<longleftrightarrow> rb_contains R a y \<or> rb_contains R b y"
    and "rb_contains R (rb_and R a b) y \<longleftrightarrow> rb_contains R a y \<and> rb_contains R b y"
    and "y \<in> set (rb_to_list R b) \<longleftrightarrow> rb_contains R b y"
  using assms unfolding roaring_laws_def by (elim conjE, simp)+

lemma set_roaring_laws: "roaring_laws set_roaring"
  by (simp add: roaring_laws_def set_roaring_def)

text \<open>
  The scans all have the shape \<^verbatim>\<open>for i, x := range xs { if p(x) { bm.Add(uint32(i)) } }\<close>.
\<close>

fun add_matching :: "'b roaring \<Rightarrow> ('a \<Rightarrow> bool) \<Rightarrow> nat \<Rightarrow> 'a list \<Rightarrow> 'b \<Rightarrow> 'b" where
  "add_matching R p i [] bm = bm"
| "add_matching R p i (x # xs) bm =
     add_matching R p (Suc i) xs (if p x then rb_add R (word_of_nat i) bm else bm)"

lemma add_matching_contains:
  assumes R: "roaring_laws R" and "i + length xs \<le> 2 ^ 32"
  shows "rb_contains R (add_matching R p i xs bm) y \<longleftrightarrow>
    rb_contains R bm y \<or> (\<exists>k < length xs. unat y = i + k \<and> p (xs ! k))"
  using assms(2)
proof (induction xs arbitrary: i bm)
  case Nil
  show ?case by simp
next
  case (Cons x xs)
  let ?bm = "if p x then rb_add R (word_of_nat i) bm else bm"
  have i: "y = word_of_nat i \<longleftrightarrow> unat y = i"
    using Cons.prems by (auto simp: unat_of_nat)
  have "rb_contains R ?bm y \<longleftrightarrow> rb_contains R bm y \<or> (p x \<and> unat y = i)"
    using roaring_lawsD(2) [OF R] i by auto
  moreover have "(\<exists>k < length (x # xs). unat y = i + k \<and> p ((x # xs) ! k)) \<longleftrightarrow>
      (p x \<and> unat y = i) \<or> (\<exists>k < length xs. unat y = Suc i + k \<and> p (xs ! k))"
    unfolding list.size add_Suc_right add_0_right Ex_less_Suc2 by auto
  ultimately show ?case using Cons.IH [of "Suc i" ?bm] Cons.prems by auto
qed

lemma add_matching_new_contains:
  assumes "roaring_laws R" and "length xs \<le> 2 ^ 32"
  shows "rb_contains R (add_matching R p 0 xs (rb_new R)) y \<longleftrightarrow>
    unat y < length xs \<and> p (xs ! unat y)"
  using add_matching_contains [OF assms(1), of 0 xs p "rb_new R" y] assms roaring_lawsD(1) [OF assms(1)]
  by auto

end
