(* ===== verification/Packed_Range.thy ===== *)
theory Packed_Range
  imports Roaring
begin

text \<open>
  The packed payload of a range section entry
  (\<^verbatim>\<open>src/pkg/storage/segment/index/range_section.go\<close> and \<^verbatim>\<open>range_section_decode.go\<close>): a 12-byte
  header (row count, value count, length of the presence bitmap), one presence bit per row, and
  the offsets of the present rows from the minimum, packed with \<open>bitCount\<close> bits each. The
  encoder, the decoder into a bit-sliced index and the comparison that works on the packed form
  are modelled with their bounds checks; a read or write outside a slice is \<open>RangePanic\<close>.
\<close>

datatype range_error =
    ErrRangeSectionCorrupt
  | ErrUnsupportedRangeLayout
  | RangeNilBSI
  | RangeBitCountTooLarge
  | RangeMarshalError
  | RangeFrameTooLarge
  | RangePayloadTooLarge
  | RangeRowCountOutOfRange
  | RangeTooManyValues
  | RangeNegativeDimensions
  | RangePackedTooLarge
  | RangeRowOutsideCount
  | RangeRowsNotIncreasing
  | RangeTooManyColumns
  | RangeNameTooLong
  | RangePanic

type_synonym 'a ranged = "range_error + 'a"

text \<open>
  A slice expression \<^verbatim>\<open>s[i:j]\<close> and an index expression \<^verbatim>\<open>s[i]\<close>: a panic unless the bounds hold.
\<close>

definition with_slice :: "bytes \<Rightarrow> nat \<Rightarrow> nat \<Rightarrow> (bytes \<Rightarrow> 'a ranged) \<Rightarrow> 'a ranged" where
  "with_slice s i j k = (if i \<le> j \<and> j \<le> length s then k (slice s i j) else Inl RangePanic)"

definition with_byte :: "bytes \<Rightarrow> nat \<Rightarrow> (u8 \<Rightarrow> 'a ranged) \<Rightarrow> 'a ranged" where
  "with_byte s i k = (if i < length s then k (s ! i) else Inl RangePanic)"

lemma with_in_range:
  "i \<le> j \<Longrightarrow> j \<le> length s \<Longrightarrow> with_slice s i j k = k (slice s i j)" "n < length s \<Longrightarrow> with_byte s n f = f (s ! n)"
  by (simp_all add: with_slice_def with_byte_def)

record RangeSectionValue =
  RowID :: u32
  Offset :: u64

definition fitsUint32 :: "int \<Rightarrow> bool" where
  "fitsUint32 n \<longleftrightarrow> n \<ge> 0 \<and> n \<le> 2 ^ 32 - 1"

text \<open>The product is computed in uint64.\<close>

definition packedValueByteLen :: "int \<Rightarrow> int \<Rightarrow> nat ranged" where
  "packedValueByteLen bitCount valueCount =
     (if bitCount < 0 \<or> valueCount < 0 then Inl RangeNegativeDimensions
      else if bitCount = 0 \<or> valueCount = 0 then Inr 0
      else let bitsTotal = (bitCount * valueCount) mod 2 ^ 64 in
        if bitsTotal > 2 ^ 63 - 1 then Inl RangePackedTooLarge
        else Inr (nat ((bitsTotal + 7) div 8)))"

text \<open>\<^verbatim>\<open>xs[k] |= 1 << j\<close>; \<open>None\<close> where the index is out of range.\<close>

definition or_bit :: "bytes \<Rightarrow> nat \<Rightarrow> nat \<Rightarrow> bytes option" where
  "or_bit xs k j = (if k < length xs then Some (xs[k := xs ! k OR push_bit j 1]) else None)"

text \<open>
  \<open>packRangeValue\<close> writes into the slice \<^verbatim>\<open>payload[base:]\<close>, which shares the payload's memory,
  so the model updates the payload at \<open>base\<close> plus the index.
\<close>

fun packRangeValue_loop :: "bytes \<Rightarrow> nat \<Rightarrow> nat \<Rightarrow> nat \<Rightarrow> nat \<Rightarrow> u64 \<Rightarrow> bytes option" where
  "packRangeValue_loop dst base bitOffset b 0 v = Some dst"
| "packRangeValue_loop dst base bitOffset b (Suc n) v =
     (if drop_bit b v AND 1 = 0 then packRangeValue_loop dst base bitOffset (Suc b) n v
      else let pos = bitOffset + b in
        (case or_bit dst (base + pos div 8) (pos mod 8) of
           None \<Rightarrow> None
         | Some dst' \<Rightarrow> packRangeValue_loop dst' base bitOffset (Suc b) n v))"

definition packRangeValue :: "bytes \<Rightarrow> nat \<Rightarrow> nat \<Rightarrow> nat \<Rightarrow> u64 \<Rightarrow> bytes option" where
  "packRangeValue dst base bitOffset width v = packRangeValue_loop dst base bitOffset 0 width v"

fun packed_encode_loop ::
  "bytes \<Rightarrow> nat \<Rightarrow> nat \<Rightarrow> nat \<Rightarrow> nat \<Rightarrow> nat \<Rightarrow> u32 \<Rightarrow> RangeSectionValue list \<Rightarrow> bytes ranged"
where
  "packed_encode_loop payload pStart vStart bitCount rowCount i lastRow [] = Inr payload"
| "packed_encode_loop payload pStart vStart bitCount rowCount i lastRow (v # vs) =
     (if unat (RowID v) \<ge> rowCount then Inl RangeRowOutsideCount
      else if i > 0 \<and> RowID v \<le> lastRow then Inl RangeRowsNotIncreasing
      else (case or_bit payload (pStart + unat (RowID v) div 8) (unat (RowID v) mod 8) of
              None \<Rightarrow> Inl RangePanic
            | Some payload1 \<Rightarrow>
                (case packRangeValue payload1 vStart (i * bitCount) bitCount (Offset v) of
                   None \<Rightarrow> Inl RangePanic
                 | Some payload2 \<Rightarrow>
                     packed_encode_loop payload2 pStart vStart bitCount rowCount (Suc i) (RowID v) vs)))"

definition encodePackedRangePayload :: "nat \<Rightarrow> nat \<Rightarrow> RangeSectionValue list \<Rightarrow> bytes ranged" where
  "encodePackedRangePayload bitCount rowCount vals =
     (let presenceBytes = (rowCount + 7) div 8 in
        (case packedValueByteLen (int bitCount) (int (length vals)) of
           Inl e \<Rightarrow> Inl e
         | Inr valueBytes \<Rightarrow>
             packed_encode_loop
               (PutUint32 (word_of_nat rowCount) @ PutUint32 (word_of_nat (length vals))
                 @ PutUint32 (word_of_nat presenceBytes) @ replicate (presenceBytes + valueBytes) 0)
               12 (12 + presenceBytes) bitCount rowCount 0 0 vals))"

subsection \<open>Reading a packed payload\<close>

record rangeSectionEntryHeader =
  h_name :: bytes
  h_layout :: u8
  h_bitCount :: u8
  h_minValue :: u64
  h_maxValue :: u64
  h_valueKind :: u8
  h_payload :: bytes

record packedRangePayloadParts =
  rowCount :: nat
  presentCount :: nat
  presence :: bytes
  packed_values :: bytes

definition decodePackedRangePayloadParts ::
  "rangeSectionEntryHeader \<Rightarrow> packedRangePayloadParts ranged"
where
  "decodePackedRangePayloadParts header =
     (let payload = h_payload header in
      if length payload < 12 then Inl ErrRangeSectionCorrupt
      else with_slice payload 0 4 (\<lambda>b. let rows = unat (Uint32 b) in
        with_slice payload 4 8 (\<lambda>b. let present = unat (Uint32 b) in
        with_slice payload 8 12 (\<lambda>b. let presenceLen = unat (Uint32 b) in
        if presenceLen \<noteq> (rows + 7) div 8 then Inl ErrRangeSectionCorrupt
        else (case packedValueByteLen (int (unat (h_bitCount header))) (int present) of
                Inl e \<Rightarrow> Inl ErrRangeSectionCorrupt
              | Inr valueLen \<Rightarrow>
                  if 12 + presenceLen + valueLen \<noteq> length payload then Inl ErrRangeSectionCorrupt
                  else with_slice payload 12 (12 + presenceLen) (\<lambda>presence.
                    with_slice payload (12 + presenceLen) (length payload) (\<lambda>values.
                    Inr \<lparr>rowCount = rows, presentCount = present, presence = presence, packed_values = values\<rparr>)))))))"

text \<open>The guards make every slice expression legal.\<close>

lemma decodePackedRangePayloadParts_guarded:
  "decodePackedRangePayloadParts header =
     (let payload = h_payload header in
      if length payload < 12 then Inl ErrRangeSectionCorrupt
      else let rows = unat (Uint32 (slice payload 0 4));
               present = unat (Uint32 (slice payload 4 8));
               presenceLen = unat (Uint32 (slice payload 8 12)) in
        if presenceLen \<noteq> (rows + 7) div 8 then Inl ErrRangeSectionCorrupt
        else (case packedValueByteLen (int (unat (h_bitCount header))) (int present) of
                Inl e \<Rightarrow> Inl ErrRangeSectionCorrupt
              | Inr valueLen \<Rightarrow>
                  if 12 + presenceLen + valueLen \<noteq> length payload then Inl ErrRangeSectionCorrupt
                  else Inr \<lparr>rowCount = rows, presentCount = present,
                            presence = slice payload 12 (12 + presenceLen),
                            packed_values = drop (12 + presenceLen) payload\<rparr>))"
proof -
  have "slice xs n (length xs) = drop n xs" for xs :: bytes and n by (simp add: slice_def)
  then show ?thesis
    by (auto simp: decodePackedRangePayloadParts_def Let_def with_in_range split: sum.split)
qed

definition presence_bit :: "bytes \<Rightarrow> nat \<Rightarrow> bool" where
  "presence_bit xs p \<longleftrightarrow> xs ! (p div 8) AND push_bit (p mod 8) 1 \<noteq> 0"

fun unpackRangeValue_loop :: "bytes \<Rightarrow> nat \<Rightarrow> nat \<Rightarrow> nat \<Rightarrow> u64 \<Rightarrow> u64 option" where
  "unpackRangeValue_loop src bitOffset b 0 v = Some v"
| "unpackRangeValue_loop src bitOffset b (Suc n) v =
     (let pos = bitOffset + b in
      if pos div 8 \<ge> length src then None
      else unpackRangeValue_loop src bitOffset (Suc b) n
             (if presence_bit src pos then v OR push_bit b 1 else v))"

definition unpackRangeValue :: "bytes \<Rightarrow> nat \<Rightarrow> nat \<Rightarrow> u64 option" where
  "unpackRangeValue src bitOffset width = unpackRangeValue_loop src bitOffset 0 width 0"

text \<open>
  The loop over the rows that \<open>decodePackedRangePayload\<close> and \<open>comparePackedRangePayload\<close> share:
  \<open>f\<close> is what the body does with a present row and its offset, \<open>n\<close> the number of rows left.
\<close>

fun packed_scan ::
  "packedRangePayloadParts \<Rightarrow> nat \<Rightarrow> u64 \<Rightarrow> (u32 \<Rightarrow> u64 \<Rightarrow> 'a \<Rightarrow> 'a) \<Rightarrow> nat \<Rightarrow> nat \<Rightarrow> nat \<Rightarrow> 'a \<Rightarrow> 'a ranged"
where
  "packed_scan parts bitCount spread f rowID 0 valueIdx acc =
     (if valueIdx \<noteq> presentCount parts then Inl ErrRangeSectionCorrupt else Inr acc)"
| "packed_scan parts bitCount spread f rowID (Suc n) valueIdx acc =
     (if rowID div 8 \<ge> length (presence parts) then Inl RangePanic
      else if \<not> presence_bit (presence parts) rowID then
        packed_scan parts bitCount spread f (Suc rowID) n valueIdx acc
      else if valueIdx \<ge> presentCount parts then Inl ErrRangeSectionCorrupt
      else (case unpackRangeValue (packed_values parts) (valueIdx * bitCount) bitCount of
              None \<Rightarrow> Inl RangePanic
            | Some offset \<Rightarrow>
                if offset > spread then Inl ErrRangeSectionCorrupt
                else packed_scan parts bitCount spread f (Suc rowID) n (Suc valueIdx)
                       (f (word_of_nat rowID) offset acc)))"

text \<open>
  The bit-sliced index is a value of the third-party package
  \<^verbatim>\<open>RoaringBitmap/roaring/BitSliceIndexing\<close>: its operations are a parameter.
\<close>

record 's bsi =
  bsi_NewBSI :: "u64 \<Rightarrow> u64 \<Rightarrow> 's"
  bsi_SetValue :: "u64 \<Rightarrow> u64 \<Rightarrow> 's \<Rightarrow> 's"
  bsi_GetValue :: "'s \<Rightarrow> u64 \<Rightarrow> u64 option"
  bsi_BitCount :: "'s \<Rightarrow> nat"
  bsi_MarshalBinary :: "'s \<Rightarrow> bytes list option"
  bsi_UnmarshalBinary :: "bytes list \<Rightarrow> 's option"

datatype bsi_operation = BSI_LT | BSI_LE | BSI_EQ | BSI_GE | BSI_GT | BSI_RANGE | BSI_MIN | BSI_MAX

text \<open>\<^verbatim>\<open>bsi_builder.go\<close>.\<close>

record 's BSIBuilder =
  b_valueKind :: u8
  b_minValue :: u64
  b_bsi :: 's

definition NewBSIBuilder :: "'s bsi \<Rightarrow> u8 \<Rightarrow> u64 \<Rightarrow> u64 \<Rightarrow> 's BSIBuilder" where
  "NewBSIBuilder B kind minValue maxValue =
     \<lparr>b_valueKind = kind, b_minValue = minValue, b_bsi = bsi_NewBSI B (maxValue - minValue) 0\<rparr>"

definition BSIBuilder_Set :: "'s bsi \<Rightarrow> u32 \<Rightarrow> u64 \<Rightarrow> 's BSIBuilder \<Rightarrow> 's BSIBuilder" where
  "BSIBuilder_Set B rowID raw b =
     b\<lparr>b_bsi := bsi_SetValue B (ucast rowID) (raw - b_minValue b) (b_bsi b)\<rparr>"

definition BSIBuilder_Build :: "'s BSIBuilder \<Rightarrow> 's" where
  "BSIBuilder_Build b = b_bsi b"

definition decodePackedRangePayload :: "'s bsi \<Rightarrow> rangeSectionEntryHeader \<Rightarrow> 's ranged" where
  "decodePackedRangePayload B header =
     (case decodePackedRangePayloadParts header of
        Inl e \<Rightarrow> Inl e
      | Inr parts \<Rightarrow>
          (case packed_scan parts (unat (h_bitCount header)) (h_maxValue header - h_minValue header)
                  (\<lambda>rowID offset b. BSIBuilder_Set B rowID (h_minValue header + offset) b)
                  0 (rowCount parts) 0
                  (NewBSIBuilder B (h_valueKind header) (h_minValue header) (h_maxValue header)) of
             Inl e \<Rightarrow> Inl e
           | Inr b \<Rightarrow> Inr (BSIBuilder_Build b)))"

fun packedCompareOffset :: "u64 \<Rightarrow> bsi_operation \<Rightarrow> u64 \<Rightarrow> bool" where
  "packedCompareOffset offset BSI_GT needle = (offset > needle)"
| "packedCompareOffset offset BSI_GE needle = (offset \<ge> needle)"
| "packedCompareOffset offset BSI_LT needle = (offset < needle)"
| "packedCompareOffset offset BSI_LE needle = (offset \<le> needle)"
| "packedCompareOffset offset _ needle = False"

definition packedExistenceBitmap :: "'b roaring \<Rightarrow> packedRangePayloadParts \<Rightarrow> 'b ranged" where
  "packedExistenceBitmap R parts =
     (if presentCount parts = rowCount parts
      then Inr (rb_add_range R 0 (word_of_nat (rowCount parts)) (rb_new R))
      else if \<not> list_all (\<lambda>rowID. rowID div 8 < length (presence parts)) [0..<rowCount parts] then Inl RangePanic
      else Inr (add_matching R (presence_bit (presence parts)) 0 [0..<rowCount parts] (rb_new R)))"

text \<open>
  The answers that need no scan, for the four supported operators: \<open>Some False\<close> for the empty
  bitmap, \<open>Some True\<close> for all present rows. Values compare as int64.
\<close>

fun compare_shortcut :: "bsi_operation \<Rightarrow> u64 \<Rightarrow> u64 \<Rightarrow> u64 \<Rightarrow> bool option ranged" where
  "compare_shortcut BSI_GT raw minV maxV =
     Inr (if maxV \<le>s raw then Some False else if raw <s minV then Some True else None)"
| "compare_shortcut BSI_GE raw minV maxV =
     Inr (if maxV <s raw then Some False else if raw \<le>s minV then Some True else None)"
| "compare_shortcut BSI_LT raw minV maxV =
     Inr (if raw \<le>s minV then Some False else if maxV <s raw then Some True else None)"
| "compare_shortcut BSI_LE raw minV maxV =
     Inr (if raw <s minV then Some False else if maxV \<le>s raw then Some True else None)"
| "compare_shortcut _ raw minV maxV = Inl ErrRangeSectionCorrupt"

definition comparePackedRangePayload ::
  "'b roaring \<Rightarrow> rangeSectionEntryHeader \<Rightarrow> bsi_operation \<Rightarrow> u64 \<Rightarrow> 'b ranged"
where
  "comparePackedRangePayload R header op raw =
     (case decodePackedRangePayloadParts header of
        Inl e \<Rightarrow> Inl e
      | Inr parts \<Rightarrow>
          (case compare_shortcut op raw (h_minValue header) (h_maxValue header) of
             Inl e \<Rightarrow> Inl e
           | Inr (Some False) \<Rightarrow> Inr (rb_new R)
           | Inr (Some True) \<Rightarrow> packedExistenceBitmap R parts
           | Inr None \<Rightarrow>
               let needle = raw - h_minValue header;
                   spread = h_maxValue header - h_minValue header in
               if needle > spread then Inr (rb_new R)
               else packed_scan parts (unat (h_bitCount header)) spread
                      (\<lambda>rowID offset mask.
                         if packedCompareOffset offset op needle then rb_add R rowID mask else mask)
                      0 (rowCount parts) 0 (rb_new R)))"

subsection \<open>Bits of a byte slice\<close>

text \<open>Bit \<open>p\<close> of a slice, least significant bit of each byte first.\<close>

definition bit_at :: "bytes \<Rightarrow> nat \<Rightarrow> bool" where
  "bit_at xs p \<longleftrightarrow> bit (xs ! (p div 8)) (p mod 8)"

lemma bit_at_split [simp]: "j < 8 \<Longrightarrow> bit_at xs (8 * k + j) = bit (xs ! k) j"
  by (simp add: bit_at_def)

lemma presence_bit_iff [simp]: "presence_bit xs p \<longleftrightarrow> bit_at xs p"
proof -
  have "xs ! (p div 8) AND push_bit (p mod 8) 1 = (if bit_at xs p then push_bit (p mod 8) 1 else 0)"
    by (rule bit_word_eqI) (auto simp: bit_at_def bit_and_iff bit_exp_iff)
  moreover have "push_bit (p mod 8) 1 \<noteq> (0 :: u8)"
  proof
    assume "push_bit (p mod 8) 1 = (0 :: u8)"
    then have "bit (push_bit (p mod 8) 1 :: u8) (p mod 8) = bit (0 :: u8) (p mod 8)" by (rule arg_cong)
    then show False by (simp only: bit_push_bit_iff) (simp add: bit_1_iff)
  qed
  ultimately show ?thesis by (simp add: presence_bit_def)
qed

lemma bit_at_drop: "8 * k + p < 8 * length xs \<Longrightarrow> bit_at (drop k xs) p = bit_at xs (8 * k + p)"
  by (simp add: bit_at_def)

lemma bit_at_slice:
  "p < 8 * (j - i) \<Longrightarrow> j \<le> length xs \<Longrightarrow> bit_at (slice xs i j) p = bit_at xs (8 * i + p)"
  by (simp add: bit_at_def slice_def div_less_iff_less_mult less_diff_conv)

text \<open>\<open>ys\<close> is \<open>xs\<close> with the bits of \<open>S\<close> set, and nothing else changed.\<close>

definition sets_bits :: "bytes \<Rightarrow> nat set \<Rightarrow> bytes \<Rightarrow> bool" where
  "sets_bits xs S ys \<longleftrightarrow>
     length ys = length xs \<and> (\<forall>p < 8 * length xs. bit_at ys p \<longleftrightarrow> p \<in> S \<or> bit_at xs p)"

lemma sets_bits_empty: "sets_bits xs {} xs"
  by (simp add: sets_bits_def)

lemma sets_bits_trans: "sets_bits xs S ys \<Longrightarrow> sets_bits ys T zs \<Longrightarrow> sets_bits xs (S \<union> T) zs"
  by (auto simp: sets_bits_def)

lemma sets_bits_take:
  assumes "sets_bits xs S ys" and "\<forall>p \<in> S. 8 * k \<le> p"
  shows "take k ys = take k xs"
proof (rule nth_equalityI)
  show "length (take k ys) = length (take k xs)" using assms(1) by (simp add: sets_bits_def)
  fix i assume i: "i < length (take k ys)"
  have "ys ! i = xs ! i"
  proof (rule bit_word_eqI)
    fix j assume "j < LENGTH(8)"
    then have j: "j < 8" by simp
    then have "8 * i + j < 8 * length xs" "8 * i + j \<notin> S"
      using i assms by (fastforce simp: sets_bits_def)+
    then show "bit (ys ! i) j = bit (xs ! i) j"
      using assms(1) j unfolding sets_bits_def by (metis bit_at_split)
  qed
  then show "take k ys ! i = take k xs ! i" using i by simp
qed

lemma or_bit_spec:
  assumes "k < length xs" and "j < 8"
  shows "\<exists>ys. or_bit xs k j = Some ys \<and> sets_bits xs {8 * k + j} ys"
proof -
  let ?ys = "xs[k := xs ! k OR push_bit j 1]"
  have "bit_at ?ys p \<longleftrightarrow> p = 8 * k + j \<or> bit_at xs p" if "p < 8 * length xs" for p
  proof (cases "p div 8 = k")
    case True
    then have p: "p = 8 * k + p mod 8" by (metis mult.commute mult_div_mod_eq)
    have "bit (xs ! k OR push_bit j 1) (p mod 8) \<longleftrightarrow> bit (xs ! k) (p mod 8) \<or> p mod 8 = j"
      by (simp only: bit_or_iff bit_push_bit_iff) (auto simp: bit_1_iff)
    moreover have "p mod 8 = j \<longleftrightarrow> p = 8 * k + j" using p assms(2) by auto
    ultimately show ?thesis using True assms(1) by (auto simp: bit_at_def)
  next
    case False
    with assms show ?thesis by (auto simp: bit_at_def)
  qed
  with assms show ?thesis by (auto simp: or_bit_def sets_bits_def)
qed

subsection \<open>Packing and unpacking one value\<close>

definition value_bits :: "nat \<Rightarrow> nat \<Rightarrow> u64 \<Rightarrow> nat set" where
  "value_bits start width v = {start + b | b. b < width \<and> bit v b}"

lemma and_one_bit: "drop_bit b v AND 1 = 0 \<longleftrightarrow> \<not> bit v b" for v :: u64
  by (simp add: and_one_eq mod_2_eq_odd bit_iff_odd_drop_bit)

lemma packRangeValue_loop_spec:
  assumes "8 * base + off + b + n \<le> 8 * length dst"
  shows "\<exists>ys. packRangeValue_loop dst base off b n v = Some ys \<and>
    sets_bits dst {8 * base + off + c | c. b \<le> c \<and> c < b + n \<and> bit v c} ys"
  using assms
proof (induction n arbitrary: dst b)
  case 0
  then show ?case by (auto simp: sets_bits_def)
next
  case (Suc n)
  let ?S = "\<lambda>b n. {8 * base + off + c | c. b \<le> c \<and> c < b + n \<and> bit v c}"
  show ?case
  proof (cases "bit v b")
    case False
    then have "?S b (Suc n) = ?S (Suc b) n" using le_eq_less_or_eq by fastforce
    with Suc.IH [of "Suc b" dst] Suc.prems False show ?thesis by (simp add: and_one_bit)
  next
    case True
    let ?k = "base + (off + b) div 8" and ?j = "(off + b) mod 8"
    have pos: "8 * ?k + ?j = 8 * base + off + b" by presburger
    then have "?k < length dst" using Suc.prems by linarith
    from or_bit_spec [OF this, of ?j] obtain ys
      where ys: "or_bit dst ?k ?j = Some ys" "sets_bits dst {8 * base + off + b} ys"
      unfolding pos by auto
    then have "8 * base + off + Suc b + n \<le> 8 * length ys"
      using Suc.prems by (simp add: sets_bits_def)
    from Suc.IH [OF this] obtain zs where zs: "packRangeValue_loop ys base off (Suc b) n v = Some zs"
      "sets_bits ys (?S (Suc b) n) zs" by blast
    have "{8 * base + off + b} \<union> ?S (Suc b) n = ?S b (Suc n)" using True by fastforce
    with sets_bits_trans [OF ys(2) zs(2)] have "sets_bits dst (?S b (Suc n)) zs" by simp
    with True ys(1) zs(1) show ?thesis by (simp add: and_one_bit Let_def)
  qed
qed

lemma packRangeValue_spec:
  assumes "8 * base + off + width \<le> 8 * length dst"
  shows "\<exists>ys. packRangeValue dst base off width v = Some ys \<and>
    sets_bits dst (value_bits (8 * base + off) width v) ys"
  using packRangeValue_loop_spec [of base off 0 width dst v] assms
  by (simp add: packRangeValue_def value_bits_def)

lemma bit_or_push: "bit (v OR push_bit b 1) i \<longleftrightarrow> bit v i \<or> (i = b \<and> b < 64)" for v :: u64
  by (simp only: bit_or_iff bit_push_bit_iff) (auto simp: bit_1_iff)

lemma unpackRangeValue_loop_spec:
  assumes "off + b + n \<le> 8 * length src"
  shows "\<exists>w. unpackRangeValue_loop src off b n v = Some w \<and>
    (\<forall>i < 64. bit w i \<longleftrightarrow> bit v i \<or> (b \<le> i \<and> i < b + n \<and> bit_at src (off + i)))"
  using assms
proof (induction n arbitrary: b v)
  case 0
  then show ?case by auto
next
  case (Suc n)
  let ?v = "if bit_at src (off + b) then v OR push_bit b 1 else v"
  from Suc.IH [of "Suc b" ?v] Suc.prems obtain w
    where w: "unpackRangeValue_loop src off (Suc b) n ?v = Some w"
      "\<forall>i < 64. bit w i \<longleftrightarrow> bit ?v i \<or> (Suc b \<le> i \<and> i < Suc b + n \<and> bit_at src (off + i))"
    by auto
  have "bit ?v i \<longleftrightarrow> bit v i \<or> (i = b \<and> bit_at src (off + b))" if "i < 64" for i
    using that by (simp only: bit_or_push split: if_split) auto
  with w(2) have "bit w i \<longleftrightarrow> bit v i \<or> (b \<le> i \<and> i < b + Suc n \<and> bit_at src (off + i))"
    if "i < 64" for i using that by (cases "i = b") auto
  moreover have "\<not> (off + b) div 8 \<ge> length src" using Suc.prems by (simp add: div_less_iff_less_mult not_le)
  ultimately show ?case using w(1) by (auto simp: Let_def)
qed

lemma unpackRangeValue_spec:
  assumes "off + width \<le> 8 * length src"
  shows "\<exists>w. unpackRangeValue src off width = Some w \<and>
    (\<forall>i < 64. bit w i \<longleftrightarrow> i < width \<and> bit_at src (off + i))"
  using unpackRangeValue_loop_spec [of off 0 width src 0] assms by (simp add: unpackRangeValue_def)

subsection \<open>The encoder\<close>

text \<open>What the encoder accepts: row numbers inside the row group, strictly increasing.\<close>

definition rows_ok :: "nat \<Rightarrow> RangeSectionValue list \<Rightarrow> bool" where
  "rows_ok rows vals \<longleftrightarrow>
     sorted_wrt (\<lambda>u v. RowID u < RowID v) vals \<and> list_all (\<lambda>v. unat (RowID v) < rows) vals"

definition present_rows :: "RangeSectionValue list \<Rightarrow> nat set" where
  "present_rows vals = (\<lambda>v. unat (RowID v)) ` set vals"

lemma packed_encode_loop_spec:
  assumes "rows_ok rows vals" and "i > 0 \<longrightarrow> list_all (\<lambda>v. lastRow < RowID v) vals"
    and "8 * pStart + rows \<le> 8 * length payload"
    and "8 * vStart + (i + length vals) * bc \<le> 8 * length payload"
  shows "\<exists>ys. packed_encode_loop payload pStart vStart bc rows i lastRow vals = Inr ys \<and>
    sets_bits payload ((\<lambda>r. 8 * pStart + r) ` present_rows vals \<union>
      (\<Union>k < length vals. value_bits (8 * vStart + (i + k) * bc) bc (Offset (vals ! k)))) ys"
  using assms
proof (induction vals arbitrary: payload i lastRow)
  case Nil
  then show ?case by (simp add: present_rows_def sets_bits_def)
next
  case (Cons v vs)
  let ?r = "unat (RowID v)"
  from Cons.prems(1) have r: "?r < rows" and vs: "rows_ok rows vs" "list_all (\<lambda>w. RowID v < RowID w) vs"
    by (simp_all add: rows_ok_def list_all_iff)
  have order: "\<not> (i > 0 \<and> RowID v \<le> lastRow)" using Cons.prems(2) by (auto simp: not_le)
  have pos: "8 * (pStart + ?r div 8) + ?r mod 8 = 8 * pStart + ?r" by presburger
  have "pStart + ?r div 8 < length payload" using pos r Cons.prems(3) by linarith
  from or_bit_spec [OF this, of "?r mod 8"] obtain p1
    where p1: "or_bit payload (pStart + ?r div 8) (?r mod 8) = Some p1"
      "sets_bits payload {8 * pStart + ?r} p1"
    unfolding pos by auto
  then have l1: "length p1 = length payload" by (simp add: sets_bits_def)
  have "8 * vStart + i * bc + bc \<le> 8 * length p1"
    using Cons.prems(4) l1 by (simp add: algebra_simps)
  from packRangeValue_spec [OF this, of "Offset v"] obtain p2
    where p2: "packRangeValue p1 vStart (i * bc) bc (Offset v) = Some p2"
      "sets_bits p1 (value_bits (8 * vStart + i * bc) bc (Offset v)) p2" by blast
  then have l2: "length p2 = length payload" using l1 by (simp add: sets_bits_def)
  let ?V = "\<lambda>k. value_bits (8 * vStart + (Suc i + k) * bc) bc (Offset (vs ! k))"
  obtain ys where ys: "packed_encode_loop p2 pStart vStart bc rows (Suc i) (RowID v) vs = Inr ys"
    "sets_bits p2 ((\<lambda>r. 8 * pStart + r) ` present_rows vs \<union> (\<Union>k < length vs. ?V k)) ys"
    using Cons.IH [of "Suc i" "RowID v" p2] vs Cons.prems(3,4) l2 by auto
  have "sets_bits payload (({8 * pStart + ?r} \<union> value_bits (8 * vStart + i * bc) bc (Offset v)) \<union>
      ((\<lambda>r. 8 * pStart + r) ` present_rows vs \<union> (\<Union>k < length vs. ?V k))) ys"
    by (rule sets_bits_trans [OF sets_bits_trans [OF p1(2) p2(2)] ys(2)])
  moreover have "({8 * pStart + ?r} \<union> value_bits (8 * vStart + i * bc) bc (Offset v)) \<union>
      ((\<lambda>r. 8 * pStart + r) ` present_rows vs \<union> (\<Union>k < length vs. ?V k)) =
      (\<lambda>r. 8 * pStart + r) ` present_rows (v # vs) \<union>
      (\<Union>k < length (v # vs). value_bits (8 * vStart + (i + k) * bc) bc (Offset ((v # vs) ! k)))"
    by (simp add: present_rows_def lessThan_Suc_eq_insert_0 image_Un) blast
  ultimately show ?case using p1(1) p2(1) ys(1) r order by simp
qed

lemma packedValueByteLen_nat:
  assumes "bc < 256" and "n < 2 ^ 32"
  shows "packedValueByteLen (int bc) (int n) = Inr ((bc * n + 7) div 8)"
proof -
  have "bc * n < 256 * 2 ^ 32" using assms by (intro mult_strict_mono) auto
  then have lt: "int bc * int n < 2 ^ 40" by (simp flip: of_nat_mult)
  then have "int bc * int n mod 2 ^ 64 = int bc * int n" by (intro mod_pos_pos_trivial) simp_all
  with lt show ?thesis
    by (auto simp: packedValueByteLen_def Let_def nat_div_distrib nat_add_distrib nat_mult_distrib)
qed

text \<open>The shape of an encoded payload.\<close>

definition payload_of :: "nat \<Rightarrow> nat \<Rightarrow> RangeSectionValue list \<Rightarrow> bytes \<Rightarrow> bool" where
  "payload_of bc rows vals p \<longleftrightarrow>
     length p = 12 + (rows + 7) div 8 + (bc * length vals + 7) div 8 \<and>
     take 12 p = PutUint32 (word_of_nat rows) @ PutUint32 (word_of_nat (length vals))
       @ PutUint32 (word_of_nat ((rows + 7) div 8)) \<and>
     (\<forall>r < rows. bit_at p (96 + r) \<longleftrightarrow> r \<in> present_rows vals) \<and>
     (\<forall>k < length vals. \<forall>b < bc.
        bit_at p (8 * (12 + (rows + 7) div 8) + (k * bc + b)) = bit (Offset (vals ! k)) b)"

lemma value_bits_disjoint:
  assumes "b < bc"
  shows "s + (k * bc + b) \<in> value_bits (s + j * bc) bc w \<longleftrightarrow> k = j \<and> bit w b"
proof -
  have "k * bc + b = j * bc + c \<longleftrightarrow> k = j \<and> b = c" if "c < bc" for c
    using that assms by (metis add.commute div_mult_self3 div_less mod_less mod_mult_self3 add_0
        mult.commute not_less_zero)
  then show ?thesis using assms by (auto simp: value_bits_def add.assoc)
qed

lemma encodePackedRangePayload_spec:
  assumes "rows_ok rows vals" and "bc < 256" and "length vals < 2 ^ 32"
  shows "\<exists>p. encodePackedRangePayload bc rows vals = Inr p \<and> payload_of bc rows vals p"
proof -
  define P V where "P = (rows + 7) div 8" and "V = (bc * length vals + 7) div 8"
  define hdr where "hdr = PutUint32 (word_of_nat rows) @ PutUint32 (word_of_nat (length vals))
    @ PutUint32 (word_of_nat P)"
  define p0 where "p0 = hdr @ replicate (P + V) (0 :: u8)"
  have len: "length p0 = 12 + P + V" "length hdr = 12" by (simp_all add: p0_def hdr_def)
  have PV: "rows \<le> 8 * P" "bc * length vals \<le> 8 * V" unfolding P_def V_def by linarith+
  have zero: "\<not> bit_at p0 p" if "96 \<le> p" "p < 8 * (12 + P + V)" for p
    using that len by (auto simp: p0_def bit_at_def nth_append less_mult_imp_div_less mult.commute)
  let ?S = "(\<lambda>r. 8 * 12 + r) ` present_rows vals \<union>
      (\<Union>k < length vals. value_bits (8 * (12 + P) + (0 + k) * bc) bc (Offset (vals ! k)))"
  obtain p where p: "packed_encode_loop p0 12 (12 + P) bc rows 0 0 vals = Inr p" "sets_bits p0 ?S p"
    using packed_encode_loop_spec [OF assms(1), of 0 0 12 p0 "12 + P" bc] PV len
    by (auto simp: mult.commute)
  have enc: "encodePackedRangePayload bc rows vals = Inr p"
    using p(1) packedValueByteLen_nat [OF assms(2,3)]
    by (simp add: encodePackedRangePayload_def Let_def p0_def hdr_def P_def V_def)
  have bits: "bit_at p q \<longleftrightarrow> q \<in> ?S" if "96 \<le> q" "q < 8 * (12 + P + V)" for q
    using p(2) zero [OF that] that len by (simp add: sets_bits_def)
  have rows_lt: "r < rows" if "r \<in> present_rows vals" for r
    using that assms(1) by (auto simp: present_rows_def rows_ok_def list_all_iff)
  have "take 12 p = take 12 p0"
    by (rule sets_bits_take [OF p(2)]) (auto simp: value_bits_def)
  then have "take 12 p = hdr" by (simp add: p0_def hdr_def)
  moreover have "bit_at p (96 + r) \<longleftrightarrow> r \<in> present_rows vals" if "r < rows" for r
    using bits [of "96 + r"] PV(1) that by (auto simp: value_bits_def)
  moreover have "bit_at p (8 * (12 + P) + (k * bc + b)) = bit (Offset (vals ! k)) b"
    if kb: "k < length vals" "b < bc" for k b
  proof -
    have "k * bc + b < length vals * bc"
      using kb mult_le_mono1 [of "Suc k" "length vals" bc] by simp
    then have in_range: "8 * (12 + P) + (k * bc + b) < 8 * (12 + P + V)"
      using PV(2) by (simp add: mult.commute)
    have "8 * (12 + P) + (k * bc + b) \<notin> (\<lambda>r. 8 * 12 + r) ` present_rows vals"
      using rows_lt PV(1) by fastforce
    then have "8 * (12 + P) + (k * bc + b) \<in> ?S \<longleftrightarrow> bit (Offset (vals ! k)) b"
      using kb value_bits_disjoint [OF kb(2), of "8 * (12 + P)" k] by auto
    with bits in_range show ?thesis by simp
  qed
  moreover have "length p = 12 + P + V" using p(2) len by (simp add: sets_bits_def)
  ultimately have "payload_of bc rows vals p"
    unfolding payload_of_def by (simp add: P_def V_def hdr_def)
  with enc show ?thesis by blast
qed

subsection \<open>Reading an encoded payload back\<close>

text \<open>The values fit the entry: widths, counts and the entry's minimum and maximum.\<close>

definition packed_ok :: "rangeSectionEntryHeader \<Rightarrow> nat \<Rightarrow> RangeSectionValue list \<Rightarrow> bool" where
  "packed_ok h rows vals \<longleftrightarrow>
     rows_ok rows vals \<and> rows < 2 ^ 32 \<and>
     list_all (\<lambda>v. take_bit (unat (h_bitCount h)) (Offset v) = Offset v \<and>
                   Offset v \<le> h_maxValue h - h_minValue h) vals"

lemma rows_ok_length:
  assumes "rows_ok rows vals" and "rows < 2 ^ 32"
  shows "length vals < 2 ^ 32"
proof -
  have sorted: "sorted_wrt (\<lambda>u v. RowID u < RowID v) vals"
    and inside: "list_all (\<lambda>v. unat (RowID v) < rows) vals"
    using assms(1) by (simp_all add: rows_ok_def)
  have "sorted_wrt (<) (map (\<lambda>v. unat (RowID v)) vals)"
    using sorted by (simp add: sorted_wrt_map word_less_nat_alt)
  then have "distinct (map (\<lambda>v. unat (RowID v)) vals)"
    by (simp add: strict_sorted_iff)
  then have "length vals = card (present_rows vals)"
    by (metis distinct_card length_map list.set_map present_rows_def)
  also have "\<dots> \<le> card {..<rows}"
    using inside by (intro card_mono) (auto simp: present_rows_def list_all_iff)
  finally show ?thesis using assms(2) by simp
qed

definition parts_ok ::
  "packedRangePayloadParts \<Rightarrow> nat \<Rightarrow> nat \<Rightarrow> RangeSectionValue list \<Rightarrow> bool"
where
  "parts_ok parts bc rows vals \<longleftrightarrow>
     rowCount parts = rows \<and> presentCount parts = length vals \<and>
     length (presence parts) = (rows + 7) div 8 \<and>
     (\<forall>r < rows. bit_at (presence parts) r \<longleftrightarrow> r \<in> present_rows vals) \<and>
     (\<forall>k < length vals. unpackRangeValue (packed_values parts) (k * bc) bc = Some (Offset (vals ! k)))"

lemma decode_parts_of_payload:
  assumes ok: "packed_ok h rows vals" and p: "payload_of (unat (h_bitCount h)) rows vals (h_payload h)"
  shows "\<exists>parts. decodePackedRangePayloadParts h = Inr parts \<and>
    parts_ok parts (unat (h_bitCount h)) rows vals"
proof -
  define bc P V where "bc = unat (h_bitCount h)" and "P = (rows + 7) div 8"
    and "V = (bc * length vals + 7) div 8"
  define q where "q = h_payload h"
  note p = p [folded bc_def q_def, unfolded payload_of_def, folded P_def V_def]
  have small: "rows < 2 ^ 32" "length vals < 2 ^ 32" "P < 2 ^ 32" "bc < 256"
    using ok rows_ok_length [of rows vals] unsigned_less [of "h_bitCount h", where ?'a = nat]
    by (auto simp: packed_ok_def P_def bc_def)
  have hdr: "take 12 q = PutUint32 (word_of_nat rows) @ (PutUint32 (word_of_nat (length vals))
      @ (PutUint32 (word_of_nat P) @ []))" using p by simp
  obtain t where t: "q = take 12 q @ t" by (metis append_take_drop_id)
  have "slice q 0 4 = PutUint32 (word_of_nat rows)" "slice q 4 8 = PutUint32 (word_of_nat (length vals))"
    "slice q 8 12 = PutUint32 (word_of_nat P)"
    by (subst t; simp add: hdr slice_def)+
  then have u: "unat (Uint32 (slice q 0 4)) = rows" "unat (Uint32 (slice q 4 8)) = length vals"
    "unat (Uint32 (slice q 8 12)) = P"
    using small by (simp_all add: unat_of_nat)
  define parts where "parts = \<lparr>rowCount = rows, presentCount = length vals,
    presence = slice q 12 (12 + P), packed_values = drop (12 + P) q\<rparr>"
  have lens: "length q = 12 + P + V" using p by simp
  have PV: "rows \<le> 8 * P" "bc * length vals \<le> 8 * V" unfolding P_def V_def by linarith+
  have "decodePackedRangePayloadParts h = Inr parts"
    unfolding decodePackedRangePayloadParts_guarded Let_def q_def [symmetric] bc_def [symmetric] u
      packedValueByteLen_nat [OF small(4,2), folded V_def] P_def [symmetric]
    by (simp add: lens parts_def)
  moreover have "unpackRangeValue (packed_values parts) (k * bc) bc = Some (Offset (vals ! k))"
    if k: "k < length vals" for k
  proof -
    have kb: "k * bc + bc \<le> bc * length vals"
      using k mult_le_mono2 [of "Suc k" "length vals" bc] by (simp add: mult.commute add.commute)
    then have "k * bc + bc \<le> 8 * length (packed_values parts)" using PV lens by (simp add: parts_def)
    from unpackRangeValue_spec [OF this] obtain w
      where w: "unpackRangeValue (packed_values parts) (k * bc) bc = Some w"
        "\<forall>i < 64. bit w i \<longleftrightarrow> i < bc \<and> bit_at (packed_values parts) (k * bc + i)" by blast
    have "bit_at (packed_values parts) (k * bc + i) = bit (Offset (vals ! k)) i" if "i < bc" for i
      using p k that kb PV lens bit_at_drop [of "12 + P" "k * bc + i" q] by (simp add: parts_def)
    with w(2) have "w = take_bit bc (Offset (vals ! k))"
      by (intro bit_word_eqI) (auto simp: bit_take_bit_iff)
    also have "\<dots> = Offset (vals ! k)"
      using ok k by (simp add: packed_ok_def bc_def list_all_length)
    finally show ?thesis using w(1) by simp
  qed
  moreover have "bit_at (presence parts) r \<longleftrightarrow> r \<in> present_rows vals" if "r < rows" for r
    using p that PV lens bit_at_slice [of r "12 + P" 12 q] by (simp add: parts_def)
  ultimately show ?thesis
    using lens by (intro exI [of _ parts]) (simp add: parts_ok_def bc_def parts_def P_def)
qed

text \<open>The scan visits the encoded values in order.\<close>

lemma packed_scan_loop:
  assumes "rows_ok (rowID + n) vs" and "list_all (\<lambda>v. rowID \<le> unat (RowID v)) vs"
    and "\<forall>r. rowID \<le> r \<and> r < rowID + n \<longrightarrow> (bit_at (presence parts) r \<longleftrightarrow> r \<in> present_rows vs)"
    and "rowID + n \<le> 8 * length (presence parts)" and "rowID + n \<le> 2 ^ 32"
    and "list_all (\<lambda>v. Offset v \<le> spread) vs" and "vi + length vs = presentCount parts"
    and "\<forall>k < length vs. unpackRangeValue (packed_values parts) ((vi + k) * bc) bc = Some (Offset (vs ! k))"
  shows "packed_scan parts bc spread f rowID n vi acc =
    Inr (foldl (\<lambda>a v. f (RowID v) (Offset v) a) acc vs)"
  using assms
proof (induction n arbitrary: rowID vi acc vs)
  case 0
  then have "vs = []" by (cases vs) (auto simp: rows_ok_def)
  with 0 show ?case by simp
next
  case (Suc n)
  have inb: "\<not> rowID div 8 \<ge> length (presence parts)" using Suc.prems(4) by linarith
  show ?case
  proof (cases "bit_at (presence parts) rowID")
    case False
    then have "rowID \<notin> present_rows vs" using Suc.prems(3) by auto
    then have "list_all (\<lambda>v. Suc rowID \<le> unat (RowID v)) vs"
      using Suc.prems(2) by (auto simp: list_all_iff present_rows_def Suc_le_eq order.strict_iff_order)
    with Suc.IH [of "Suc rowID" vs vi acc] Suc.prems False inb show ?thesis by simp
  next
    case True
    then have "rowID \<in> present_rows vs" using Suc.prems(3) by auto
    then obtain v ws where vs: "vs = v # ws" by (cases vs) (auto simp: present_rows_def)
    have ws: "list_all (\<lambda>w. RowID v < RowID w) ws" "rows_ok (Suc rowID + n) ws"
      using Suc.prems(1) by (simp_all add: vs rows_ok_def list_all_iff)
    have v: "unat (RowID v) = rowID"
    proof -
      from \<open>rowID \<in> present_rows vs\<close> obtain u where "u \<in> set vs" "unat (RowID u) = rowID"
        by (auto simp: present_rows_def)
      with ws(1) Suc.prems(2) show ?thesis
        by (auto simp: vs list_all_iff word_less_nat_alt intro: le_antisym)
    qed
    have ge: "list_all (\<lambda>w. Suc rowID \<le> unat (RowID w)) ws"
      using ws(1) v by (auto simp: list_all_iff word_less_nat_alt)
    have "r \<in> present_rows vs \<longleftrightarrow> r \<in> present_rows ws" if "Suc rowID \<le> r" for r
      using that v by (auto simp: vs present_rows_def)
    then have bits: "\<forall>r. Suc rowID \<le> r \<and> r < Suc rowID + n \<longrightarrow>
        (bit_at (presence parts) r \<longleftrightarrow> r \<in> present_rows ws)"
      using Suc.prems(3) by auto
    have off: "unpackRangeValue (packed_values parts) (vi * bc) bc = Some (Offset v)"
      using Suc.prems(8) [rule_format, of 0] by (simp add: vs)
    have offs: "\<forall>k < length ws.
        unpackRangeValue (packed_values parts) ((Suc vi + k) * bc) bc = Some (Offset (ws ! k))"
      using Suc.prems(8) [rule_format, of "Suc _"] by (simp add: vs)
    have rw: "word_of_nat rowID = RowID v" using v [symmetric] by simp
    from Suc.IH [OF ws(2) ge bits _ _ _ _ offs] Suc.prems(4-7)
    have "packed_scan parts bc spread f (Suc rowID) n (Suc vi) (f (RowID v) (Offset v) acc) =
        Inr (foldl (\<lambda>a v. f (RowID v) (Offset v) a) (f (RowID v) (Offset v) acc) ws)"
      by (simp add: vs)
    with True inb off Suc.prems(6,7) show ?thesis by (simp add: vs rw not_less)
  qed
qed

lemma packed_scan_spec:
  assumes "parts_ok parts bc rows vals" and "rows_ok rows vals" and "rows < 2 ^ 32"
    and "list_all (\<lambda>v. Offset v \<le> spread) vals"
  shows "packed_scan parts bc spread f 0 (rowCount parts) 0 acc =
    Inr (foldl (\<lambda>a v. f (RowID v) (Offset v) a) acc vals)"
  using assms by (intro packed_scan_loop) (auto simp: parts_ok_def list_all_iff)

subsection \<open>Panic freedom\<close>

lemma decode_parts_lengths:
  assumes "decodePackedRangePayloadParts h = Inr parts"
  shows "rowCount parts \<le> 8 * length (presence parts)"
    and "unat (h_bitCount h) * presentCount parts \<le> 8 * length (packed_values parts)"
proof -
  define q where "q = h_payload h"
  define rows n bc where "rows = unat (Uint32 (slice q 0 4))" and "n = unat (Uint32 (slice q 4 8))"
    and "bc = unat (h_bitCount h)"
  have "bc < 256" "n < 2 ^ 32"
    using unsigned_less [of "h_bitCount h", where ?'a = nat]
      unsigned_less [of "Uint32 (slice q 4 8)", where ?'a = nat] by (simp_all add: bc_def n_def)
  then have "packedValueByteLen (int bc) (int n) = Inr ((bc * n + 7) div 8)"
    by (rule packedValueByteLen_nat)
  then have "length q = 12 + (rows + 7) div 8 + (bc * n + 7) div 8" and
    "parts = \<lparr>rowCount = rows, presentCount = n, presence = slice q 12 (12 + (rows + 7) div 8),
       packed_values = drop (12 + (rows + 7) div 8) q\<rparr>"
    using assms
    unfolding decodePackedRangePayloadParts_guarded Let_def q_def [symmetric] rows_def [symmetric]
      n_def [symmetric] bc_def [symmetric]
    by (auto split: if_splits)
  moreover have "rows \<le> 8 * ((rows + 7) div 8)" "bc * n \<le> 8 * ((bc * n + 7) div 8)" by linarith+
  ultimately show "rowCount parts \<le> 8 * length (presence parts)"
    and "unat (h_bitCount h) * presentCount parts \<le> 8 * length (packed_values parts)"
    by (simp_all add: bc_def [symmetric])
qed

lemma packed_scan_no_panic:
  assumes "rowID + n \<le> 8 * length (presence parts)"
    and "bc * presentCount parts \<le> 8 * length (packed_values parts)"
  shows "packed_scan parts bc spread f rowID n vi acc \<noteq> Inl RangePanic"
  using assms(1)
proof (induction n arbitrary: rowID vi acc)
  case 0
  show ?case by simp
next
  case (Suc n)
  have inb: "\<not> rowID div 8 \<ge> length (presence parts)" using Suc.prems by linarith
  have "\<exists>w. unpackRangeValue (packed_values parts) (vi * bc) bc = Some w" if "vi < presentCount parts"
  proof -
    have "vi * bc + bc \<le> 8 * length (packed_values parts)"
      using that assms(2) mult_le_mono2 [of "Suc vi" "presentCount parts" bc]
      by (simp add: mult.commute add.commute)
    then show ?thesis using unpackRangeValue_spec by blast
  qed
  with inb Suc show ?case by (auto simp: not_le split: option.split)
qed

lemma decode_parts_no_panic: "decodePackedRangePayloadParts h \<noteq> Inl RangePanic"
  by (auto simp: decodePackedRangePayloadParts_guarded Let_def split: sum.split)

lemma decodePackedRangePayload_no_panic: "decodePackedRangePayload B h \<noteq> Inl RangePanic"
proof (cases "decodePackedRangePayloadParts h")
  case (Inl e)
  then show ?thesis using decode_parts_no_panic [of h] by (simp add: decodePackedRangePayload_def)
next
  case (Inr parts)
  note L = decode_parts_lengths [OF Inr]
  from Inr show ?thesis
    by (auto simp: decodePackedRangePayload_def packed_scan_no_panic L split: sum.split)
qed

lemma compare_shortcut_no_panic: "compare_shortcut op raw mn mx \<noteq> Inl RangePanic"
  by (cases op) auto

lemma packedExistenceBitmap_no_panic:
  "rowCount parts \<le> 8 * length (presence parts) \<Longrightarrow> packedExistenceBitmap R parts \<noteq> Inl RangePanic"
  by (auto simp: packedExistenceBitmap_def list_all_iff)

lemma comparePackedRangePayload_no_panic: "comparePackedRangePayload R h op raw \<noteq> Inl RangePanic"
proof (cases "decodePackedRangePayloadParts h")
  case (Inl e)
  then show ?thesis using decode_parts_no_panic [of h] by (simp add: comparePackedRangePayload_def)
next
  case (Inr parts)
  note L = decode_parts_lengths [OF Inr]
  from Inr show ?thesis
    using compare_shortcut_no_panic [of op raw "h_minValue h" "h_maxValue h"]
    by (auto simp: comparePackedRangePayload_def Let_def packed_scan_no_panic packedExistenceBitmap_no_panic L
        split: sum.split option.split bool.split)
qed

subsection \<open>Decoding into a bit-sliced index\<close>

text \<open>
  Documented behaviour of the bit-sliced index: a fresh index holds nothing and has slices for
  the maximum it was created for; a value that fits the slices can be read back and setting it
  leaves the other columns and the number of slices alone, for columns that are row numbers of 32 bits, to which the
  package truncates its 64-bit column identifiers; unmarshalling a marshalled index gives the same values.
\<close>

definition bsi_laws :: "'s bsi \<Rightarrow> bool" where
  "bsi_laws B \<longleftrightarrow>
     (\<forall>mx k. bsi_GetValue B (bsi_NewBSI B mx 0) k = None) \<and>
     (\<forall>mx. unat mx < 2 ^ bsi_BitCount B (bsi_NewBSI B mx 0)) \<and>
     (\<forall>s (k :: u32) v (k' :: u32). unat v < 2 ^ bsi_BitCount B s \<longrightarrow>
        bsi_GetValue B (bsi_SetValue B (ucast k) v s) (ucast k') = (if k' = k then Some v else bsi_GetValue B s (ucast k')) \<and>
        bsi_BitCount B (bsi_SetValue B (ucast k) v s) = bsi_BitCount B s) \<and>
     (\<forall>s fs. bsi_MarshalBinary B s = Some fs \<longrightarrow>
        (\<exists>s'. bsi_UnmarshalBinary B fs = Some s' \<and> bsi_GetValue B s' = bsi_GetValue B s))"

lemma bsi_lawsD:
  fixes k k' :: u32
  assumes "bsi_laws B"
  shows "bsi_GetValue B (bsi_NewBSI B mx 0) c = None"
    and "unat mx < 2 ^ bsi_BitCount B (bsi_NewBSI B mx 0)"
    and "unat v < 2 ^ bsi_BitCount B s \<Longrightarrow>
      bsi_GetValue B (bsi_SetValue B (ucast k) v s) (ucast k') = (if k' = k then Some v else bsi_GetValue B s (ucast k'))"
    and "unat v < 2 ^ bsi_BitCount B s \<Longrightarrow> bsi_BitCount B (bsi_SetValue B (ucast k) v s) = bsi_BitCount B s"
    and "bsi_MarshalBinary B s = Some fs \<Longrightarrow>
      \<exists>s'. bsi_UnmarshalBinary B fs = Some s' \<and> bsi_GetValue B s' = bsi_GetValue B s"
  using assms unfolding bsi_laws_def by blast+

text \<open>The value of a row in a list of encoded values.\<close>

definition row_offset :: "RangeSectionValue list \<Rightarrow> u32 \<Rightarrow> u64 option" where
  "row_offset vals r = map_option Offset (find (\<lambda>v. RowID v = r) vals)"

lemma ucast_u32_eq_iff: "(ucast a :: u64) = ucast b \<longleftrightarrow> a = b" for a b :: u32
proof
  assume eq: "(ucast a :: u64) = ucast b"
  have "bit c n \<longleftrightarrow> bit (ucast c :: u64) n" if "n < 32" for c :: u32 and n
    using that by (simp add: bit_ucast_iff)
  with eq show "a = b" by (intro bit_word_eqI) simp
qed simp

lemma builder_sets:
  assumes B: "bsi_laws B" and "distinct (map RowID vs)"
    and "list_all (\<lambda>v. unat (Offset v) < 2 ^ bsi_BitCount B (b_bsi b)) vs" and "b_minValue b = mn"
  defines "b' \<equiv> foldl (\<lambda>b v. BSIBuilder_Set B (RowID v) (mn + Offset v) b) b vs"
  shows "bsi_GetValue B (b_bsi b') (ucast r) =
    (case row_offset vs r of Some x \<Rightarrow> Some x | None \<Rightarrow> bsi_GetValue B (b_bsi b) (ucast r))"
  using assms(2-4) unfolding b'_def
proof (induction vs arbitrary: b)
  case Nil
  show ?case by (simp add: row_offset_def)
next
  case (Cons v vs)
  let ?b = "BSIBuilder_Set B (RowID v) (mn + Offset v) b"
  have fits: "unat (Offset v) < 2 ^ bsi_BitCount B (b_bsi b)" using Cons.prems(2) by simp
  have b: "b_bsi ?b = bsi_SetValue B (ucast (RowID v)) (Offset v) (b_bsi b)"
    using Cons.prems(3) by (simp add: BSIBuilder_Set_def)
  have none: "RowID v = r \<Longrightarrow> row_offset vs r = None"
    using Cons.prems(1) by (auto simp: row_offset_def find_None_iff image_iff)
  have "bsi_GetValue B (b_bsi ?b) (ucast r) =
      (if r = RowID v then Some (Offset v) else bsi_GetValue B (b_bsi b) (ucast r))"
    unfolding b bsi_lawsD(3) [OF B fits] ..
  moreover have "bsi_BitCount B (b_bsi ?b) = bsi_BitCount B (b_bsi b)"
    unfolding b by (rule bsi_lawsD(4) [OF B fits])
  ultimately show ?case
    using Cons.IH [of ?b] Cons.prems none
    by (cases "r = RowID v") (simp_all add: row_offset_def BSIBuilder_Set_def split: option.split)
qed

lemma rows_ok_distinct: "rows_ok rows vals \<Longrightarrow> distinct (map RowID vals)"
  by (induction vals) (auto simp: rows_ok_def list_all_iff)

lemma decodePackedRangePayload_values:
  assumes B: "bsi_laws B" and ok: "packed_ok h rows vals"
    and p: "payload_of (unat (h_bitCount h)) rows vals (h_payload h)"
  shows "\<exists>s. decodePackedRangePayload B h = Inr s \<and>
    (\<forall>r. bsi_GetValue B s (ucast r) = row_offset vals r)"
proof -
  obtain parts where parts: "decodePackedRangePayloadParts h = Inr parts"
    "parts_ok parts (unat (h_bitCount h)) rows vals"
    using decode_parts_of_payload [OF ok p] by blast
  let ?spread = "h_maxValue h - h_minValue h"
  let ?b = "NewBSIBuilder B (h_valueKind h) (h_minValue h) (h_maxValue h)"
  let ?f = "\<lambda>b v. BSIBuilder_Set B (RowID v) (h_minValue h + Offset v) b"
  have vals: "rows_ok rows vals" "rows < 2 ^ 32" "list_all (\<lambda>v. Offset v \<le> ?spread) vals"
    using ok by (simp_all add: packed_ok_def list_all_iff)
  have bits: "unat ?spread < 2 ^ bsi_BitCount B (b_bsi ?b)"
    by (simp add: NewBSIBuilder_def bsi_lawsD(2) [OF B])
  have "list_all (\<lambda>v. unat (Offset v) < 2 ^ bsi_BitCount B (b_bsi ?b)) vals"
    using vals(3) bits by (auto simp: list_all_iff word_le_nat_alt intro: le_less_trans)
  from builder_sets [OF B rows_ok_distinct [OF vals(1)] this, of "h_minValue h"]
  have "bsi_GetValue B (b_bsi (foldl ?f ?b vals)) (ucast r) = row_offset vals r" for r
    by (simp add: NewBSIBuilder_def bsi_lawsD(1) [OF B] split: option.split)
  moreover have "decodePackedRangePayload B h = Inr (b_bsi (foldl ?f ?b vals))"
    using parts(1)
    by (simp add: decodePackedRangePayload_def BSIBuilder_Build_def packed_scan_spec [OF parts(2) vals])
  ultimately show ?thesis by blast
qed

subsection \<open>Comparing on the packed form\<close>

fun compare_holds :: "bsi_operation \<Rightarrow> int \<Rightarrow> int \<Rightarrow> bool" where
  "compare_holds BSI_GT a b = (a > b)"
| "compare_holds BSI_GE a b = (a \<ge> b)"
| "compare_holds BSI_LT a b = (a < b)"
| "compare_holds BSI_LE a b = (a \<le> b)"
| "compare_holds _ a b = False"

definition range_operation :: "bsi_operation \<Rightarrow> bool" where
  "range_operation op \<longleftrightarrow> op \<in> {BSI_GT, BSI_GE, BSI_LT, BSI_LE}"

lemma uint_diff_signed:
  fixes a b :: u64
  assumes "sint a \<le> sint b"
  shows "uint (b - a) = sint b - sint a"
proof -
  have "uint (b - a) = uint (word_of_int (sint b - sint a) :: u64)" by simp
  also have "\<dots> = (sint b - sint a) mod 2 ^ 64"
    unfolding uint_word_of_int_eq by (simp add: take_bit_eq_mod)
  finally have "uint (b - a) = (sint b - sint a) mod 2 ^ 64" .
  moreover have "0 \<le> sint b - sint a" "sint b - sint a < 2 ^ 64"
    using assms sint_less [of b] sint_greater_eq [of a] by simp_all
  ultimately show ?thesis by simp
qed

lemma sint_add_offset:
  fixes mn mx off :: u64
  assumes "sint mn \<le> sint mx" and "off \<le> mx - mn"
  shows "sint (mn + off) = sint mn + int (unat off)" and "sint (mn + off) \<le> sint mx"
proof -
  have le: "uint off \<le> sint mx - sint mn"
    using assms(2) uint_diff_signed [OF assms(1)] by (simp add: word_le_def)
  have "sint (mn + off) = sint (word_of_int (sint mn + uint off) :: u64)" by simp
  also have "\<dots> = signed_take_bit 63 (sint mn + uint off)"
    unfolding sint_sbintrunc' by simp
  also have "\<dots> = sint mn + uint off"
  proof (rule signed_take_bit_int_eq_self)
    have "- (2 ^ 63) \<le> sint mn" using sint_greater_eq [of mn] by simp
    then show "- (2 ^ 63) \<le> sint mn + uint off" by (rule order_trans) simp
    have "sint mx < 2 ^ 63" using sint_less [of mx] by simp
    moreover from le have "sint mn + uint off \<le> sint mx" by (simp only: le_diff_eq add.commute)
    ultimately show "sint mn + uint off < 2 ^ 63" by (rule le_less_trans [rotated])
  qed
  finally show "sint (mn + off) = sint mn + int (unat off)" by simp
  then show "sint (mn + off) \<le> sint mx" using le by simp
qed

text \<open>The shortcuts and the offset comparison agree with comparing the values as int64.\<close>

lemma compare_shortcut_total: "range_operation op \<Longrightarrow> \<exists>sc. compare_shortcut op raw mn mx = Inr sc"
  by (cases op) (simp_all add: range_operation_def)

lemma compare_shortcut_sound:
  assumes "compare_shortcut op raw mn mx = Inr sc"
  shows "sc = Some b \<Longrightarrow> sint mn \<le> sint v \<Longrightarrow> sint v \<le> sint mx \<Longrightarrow> compare_holds op (sint v) (sint raw) = b"
    and "sc = None \<Longrightarrow> sint mn \<le> sint raw \<and> sint raw \<le> sint mx"
proof -
  define r l h x where "r = sint raw" and "l = sint mn" and "h = sint mx" and "x = sint v"
  have "compare_shortcut op raw mn mx =
    (case op of
       BSI_GT \<Rightarrow> Inr (if h \<le> r then Some False else if r < l then Some True else None)
     | BSI_GE \<Rightarrow> Inr (if h < r then Some False else if r \<le> l then Some True else None)
     | BSI_LT \<Rightarrow> Inr (if r \<le> l then Some False else if h < r then Some True else None)
     | BSI_LE \<Rightarrow> Inr (if r < l then Some False else if h \<le> r then Some True else None)
     | _ \<Rightarrow> Inl ErrRangeSectionCorrupt)"
    by (cases op) (simp_all only: compare_shortcut.simps word_sless_alt word_sle_eq r_def l_def h_def
        bsi_operation.case)
  note cs = this [unfolded assms]
  show "sint mn \<le> sint raw \<and> sint raw \<le> sint mx" if "sc = None"
    using cs unfolding that r_def [symmetric] l_def [symmetric] h_def [symmetric]
    by (cases op) (simp_all split: if_splits)
  show "compare_holds op (sint v) (sint raw) = b" if "sc = Some b" "sint mn \<le> sint v" "sint v \<le> sint mx"
    using cs that(2,3)
    unfolding that(1) r_def [symmetric] l_def [symmetric] h_def [symmetric] x_def [symmetric]
    by (cases op) (auto split: if_splits)
qed

lemma packedCompareOffset_sound:
  assumes "range_operation op" and "sint mn \<le> sint raw" "sint raw \<le> sint mx" and "off \<le> mx - mn"
  shows "packedCompareOffset off op (raw - mn) = compare_holds op (sint (mn + off)) (sint raw)"
    and "\<not> raw - mn > mx - mn"
proof -
  have n: "int (unat (raw - mn)) = sint raw - sint mn"
    using uint_diff_signed [OF assms(2)] by simp
  have "sint (mn + off) = sint mn + int (unat off)"
    by (rule sint_add_offset(1) [of mn mx]) (use assms in simp_all)
  with n assms(1) show "packedCompareOffset off op (raw - mn) = compare_holds op (sint (mn + off)) (sint raw)"
    by (cases op) (auto simp: range_operation_def word_less_def word_le_def)
  have "int (unat (mx - mn)) = sint mx - sint mn"
    using uint_diff_signed [of mn mx] assms(2,3) by simp
  with n assms(3) show "\<not> raw - mn > mx - mn" by (simp add: word_less_def)
qed

lemma foldl_add_rows:
  assumes R: "roaring_laws R"
  shows "rb_contains R (foldl (\<lambda>m v. if p v then rb_add R (RowID v) m else m) bm vs) y \<longleftrightarrow>
    rb_contains R bm y \<or> (\<exists>v \<in> set vs. RowID v = y \<and> p v)"
  by (induction vs arbitrary: bm) (auto simp: roaring_lawsD(2) [OF R])

lemma present_rows_word: "rows_ok rows vals \<Longrightarrow> unat y \<in> present_rows vals \<longleftrightarrow> (\<exists>v \<in> set vals. RowID v = y)"
  by (auto simp: present_rows_def simp flip: word_unat_eq_iff)

lemma all_rows_present:
  assumes "rows_ok rows vals" and "length vals = rows"
  shows "present_rows vals = {..<rows}"
proof (rule card_seteq)
  show "present_rows vals \<subseteq> {..<rows}"
    using assms(1) by (auto simp: present_rows_def rows_ok_def list_all_iff)
  have "distinct (map (\<lambda>v. unat (RowID v)) vals)"
    using rows_ok_distinct [OF assms(1)] by (simp add: distinct_map inj_on_def flip: word_unat_eq_iff)
  then show "card {..<rows} \<le> card (present_rows vals)"
    using assms(2) by (metis card_lessThan distinct_card length_map list.set_map order_refl present_rows_def)
qed simp

lemma packedExistenceBitmap_rows:
  assumes R: "roaring_laws R" and parts: "parts_ok parts bc rows vals"
    and ok: "rows_ok rows vals" "rows < 2 ^ 32" and len: "rowCount parts \<le> 8 * length (presence parts)"
  shows "\<exists>bm. packedExistenceBitmap R parts = Inr bm \<and> (\<forall>y. rb_contains R bm y \<longleftrightarrow> (\<exists>v \<in> set vals. RowID v = y))"
proof -
  have rows: "unat y < rows" if "unat y \<in> present_rows vals" for y
    using that ok(1) by (auto simp: present_rows_def rows_ok_def list_all_iff)
  have "\<exists>bm. packedExistenceBitmap R parts = Inr bm \<and> (\<forall>y. rb_contains R bm y \<longleftrightarrow> unat y \<in> present_rows vals)"
  proof (cases "length vals = rows")
    case True
    have "unat (word_of_nat rows :: u64) = rows" using ok(2) by (simp add: unat_of_nat)
    with True parts show ?thesis
      by (simp add: packedExistenceBitmap_def parts_ok_def roaring_lawsD(1,3) [OF R]
          all_rows_present [OF ok(1)])
  next
    case False
    let ?bm = "add_matching R (presence_bit (presence parts)) 0 [0..<rows] (rb_new R)"
    have "list_all (\<lambda>rowID. rowID div 8 < length (presence parts)) [0..<rowCount parts]" using len by (auto simp: list_all_iff)
    with False parts have "packedExistenceBitmap R parts = Inr ?bm"
      by (simp add: packedExistenceBitmap_def parts_ok_def)
    moreover have "rb_contains R ?bm y \<longleftrightarrow> unat y < rows \<and> bit_at (presence parts) (unat y)" for y
      using add_matching_new_contains [OF R, of "[0..<rows]" "presence_bit (presence parts)" y] ok(2) by auto
    ultimately show ?thesis using parts rows by (auto simp: parts_ok_def)
  qed
  with present_rows_word [OF ok(1)] show ?thesis by blast
qed

lemma comparePackedRangePayload_rows:
  assumes R: "roaring_laws R" and ok: "packed_ok h rows vals"
    and p: "payload_of (unat (h_bitCount h)) rows vals (h_payload h)"
    and range: "sint (h_minValue h) \<le> sint (h_maxValue h)" and op: "range_operation op"
  shows "\<exists>bm. comparePackedRangePayload R h op raw = Inr bm \<and>
    (\<forall>y. rb_contains R bm y \<longleftrightarrow>
       (\<exists>v \<in> set vals. RowID v = y \<and> compare_holds op (sint (h_minValue h + Offset v)) (sint raw)))"
proof -
  define mn mx where "mn = h_minValue h" and "mx = h_maxValue h"
  obtain parts where parts: "decodePackedRangePayloadParts h = Inr parts"
    "parts_ok parts (unat (h_bitCount h)) rows vals"
    using decode_parts_of_payload [OF ok p] by blast
  have vals: "rows_ok rows vals" "rows < 2 ^ 32" "list_all (\<lambda>v. Offset v \<le> mx - mn) vals"
    using ok by (simp_all add: packed_ok_def list_all_iff mn_def mx_def)
  have off: "Offset v \<le> mx - mn" if "v \<in> set vals" for v using vals(3) that by (simp add: list_all_iff)
  have inside: "sint mn \<le> sint (mn + Offset v)" "sint (mn + Offset v) \<le> sint mx" if "v \<in> set vals" for v
    using sint_add_offset [OF range [folded mn_def mx_def] off [OF that]] by simp_all
  obtain sc where sc: "compare_shortcut op raw mn mx = Inr sc" using compare_shortcut_total [OF op] by blast
  show ?thesis
  proof (cases sc)
    case None
    note between = compare_shortcut_sound(2) [OF sc None]
    let ?f = "\<lambda>m v. if packedCompareOffset (Offset v) op (raw - mn) then rb_add R (RowID v) m else m"
    have cmp: "packedCompareOffset (Offset v) op (raw - mn) =
        compare_holds op (sint (mn + Offset v)) (sint raw)" if "v \<in> set vals" for v
      using packedCompareOffset_sound(1) [OF op _ _ off [OF that]] between by blast
    have "\<not> raw - mn > mx - mn"
      using packedCompareOffset_sound(2) [OF op, of mn raw mx 0] between by simp
    then have "comparePackedRangePayload R h op raw = Inr (foldl ?f (rb_new R) vals)"
      using parts(1) sc None
      by (simp add: comparePackedRangePayload_def packed_scan_spec [OF parts(2) vals] Let_def
          flip: mn_def mx_def)
    moreover have "rb_contains R (foldl ?f (rb_new R) vals) y \<longleftrightarrow>
        (\<exists>v \<in> set vals. RowID v = y \<and> compare_holds op (sint (mn + Offset v)) (sint raw))" for y
      using cmp by (auto simp: foldl_add_rows [OF R] roaring_lawsD(1) [OF R])
    ultimately show ?thesis unfolding mn_def by blast
  next
    case (Some b)
    have all: "compare_holds op (sint (mn + Offset v)) (sint raw) = b" if "v \<in> set vals" for v
      using compare_shortcut_sound(1) [OF sc Some] inside [OF that] by blast
    obtain bm where bm: "packedExistenceBitmap R parts = Inr bm" "\<And>y. rb_contains R bm y \<longleftrightarrow> (\<exists>v \<in> set vals. RowID v = y)"
      using packedExistenceBitmap_rows [OF R parts(2) vals(1,2) decode_parts_lengths(1) [OF parts(1)]] by blast
    have "comparePackedRangePayload R h op raw = Inr (if b then bm else rb_new R)"
      using parts(1) sc Some bm(1)
      by (simp add: comparePackedRangePayload_def flip: mn_def mx_def split: bool.split)
    moreover have "rb_contains R (if b then bm else rb_new R) y \<longleftrightarrow>
        (\<exists>v \<in> set vals. RowID v = y \<and> compare_holds op (sint (mn + Offset v)) (sint raw))" for y
      using bm(2) all by (auto simp: roaring_lawsD(1) [OF R])
    ultimately show ?thesis unfolding mn_def by blast
  qed
qed

end
