(* ===== verification/CRC32.thy ===== *)
theory CRC32
  imports Prelude
begin

text \<open>
  The IEEE CRC-32 of Go's \<^verbatim>\<open>hash/crc32\<close> (\<^verbatim>\<open>ChecksumIEEE\<close>): reflected polynomial \<open>0xEDB88320\<close>,
  initial value and final XOR all ones. The library's table-driven loop is written bit by bit.
  The lemmas show that the update is injective in the state and in the byte, so that two inputs
  of the same length which differ in one byte have different checksums.
\<close>

definition crc_poly :: u32 where "crc_poly = 0xEDB88320"

definition crc_bit :: "u32 \<Rightarrow> u32" where
  "crc_bit c = (if bit c 0 then drop_bit 1 c XOR crc_poly else drop_bit 1 c)"

definition crc_byte :: "u32 \<Rightarrow> u8 \<Rightarrow> u32" where
  "crc_byte c b = (crc_bit ^^ 8) (c XOR ucast b)"

lemma funpow_numeral: "f ^^ numeral k = f \<circ> f ^^ pred_numeral k"
  by (simp add: numeral_eq_Suc)

definition ChecksumIEEE :: "bytes \<Rightarrow> u32" where
  "ChecksumIEEE bs = NOT (foldl crc_byte (NOT 0) bs)"

lemma ChecksumIEEE_check: "ChecksumIEEE [0x31,0x32,0x33,0x34,0x35,0x36,0x37,0x38,0x39] = 0xCBF43926"
  by (simp add: ChecksumIEEE_def crc_byte_def crc_bit_def crc_poly_def funpow_numeral bit_0)

lemma xor_cancel: "c XOR x = c XOR y \<longleftrightarrow> x = y" for c :: "'a::len word"
  by (metis xor.assoc xor.left_neutral xor_self_eq)

lemma crc_bit_inj: "inj crc_bit"
proof (rule injI)
  fix c d
  assume eq: "crc_bit c = crc_bit d"
  have top: "bit (crc_bit x) 31 \<longleftrightarrow> bit x 0" for x
    using bit_imp_le_length [of x 32]
    by (auto simp: crc_bit_def crc_poly_def bit_xor_iff bit_drop_bit_eq)
  have low: "bit c 0 \<longleftrightarrow> bit d 0" using top eq by metis
  then have "drop_bit 1 c = drop_bit 1 d"
    using eq by (simp add: crc_bit_def xor.commute [of _ crc_poly] xor_cancel split: if_splits)
  then have "bit c (Suc n) = bit d (Suc n)" for n
    by (metis One_nat_def bit_drop_bit_eq comp_apply plus_1_eq_Suc)
  with low show "c = d" by (intro bit_word_eqI) (metis not0_implies_Suc)
qed

lemma crc_byte_inj:
  "crc_byte c a = crc_byte c b \<longleftrightarrow> a = b"
  "crc_byte c a = crc_byte d a \<longleftrightarrow> c = d"
proof -
  have st: "crc_byte c a = crc_byte d b \<Longrightarrow> c XOR ucast a = d XOR ucast b" for c d a b
    unfolding crc_byte_def by (rule injD [OF inj_fn [OF crc_bit_inj]])
  have "bit x n \<longleftrightarrow> bit (ucast x :: u32) n" if "n < 8" for x :: u8 and n
    using that by (simp add: bit_ucast_iff)
  then have "(ucast a :: u32) = ucast b \<Longrightarrow> a = b" by (intro bit_word_eqI) simp
  with st [of c a c b] show "crc_byte c a = crc_byte c b \<longleftrightarrow> a = b" by (auto simp: xor_cancel)
  show "crc_byte c a = crc_byte d a \<longleftrightarrow> c = d"
    using st [of c a d a] xor_cancel [of "ucast a" c d] by (auto simp: xor.commute)
qed

lemma foldl_crc_inj: "foldl crc_byte c bs = foldl crc_byte d bs \<longleftrightarrow> c = d"
  by (induction bs arbitrary: c d) (simp_all add: crc_byte_inj)

text \<open>A changed byte changes the checksum.\<close>

lemma ChecksumIEEE_update:
  assumes "i < length bs" and "b \<noteq> bs ! i"
  shows "ChecksumIEEE (bs[i := b]) \<noteq> ChecksumIEEE bs"
proof -
  have "foldl crc_byte c bs = foldl crc_byte c (take i bs @ bs ! i # drop (Suc i) bs)" for c
    using id_take_nth_drop [OF assms(1)] by simp
  moreover have "bs[i := b] = take i bs @ b # drop (Suc i) bs" using assms(1) by (rule upd_conv_take_nth_drop)
  ultimately have "foldl crc_byte c (bs[i := b]) = foldl crc_byte c bs \<longleftrightarrow> b = bs ! i" for c
    by (simp only: foldl_append foldl_Cons foldl_crc_inj crc_byte_inj(1))
  moreover have "NOT x = NOT y \<longleftrightarrow> x = y" for x y :: u32 by (metis bit.double_compl)
  ultimately show ?thesis using assms(2) by (simp add: ChecksumIEEE_def)
qed

end
