(* ===== verification/Range_Section.thy ===== *)
theory Range_Section
  imports Packed_Range CRC32
begin

text \<open>
  \<^verbatim>\<open>src/pkg/storage/segment/index/range_section.go\<close> and \<^verbatim>\<open>range_section_decode.go\<close>: the LSRB section
  of a row group. A 16-byte header (magic, reserved bytes, 16-bit entry count) and one entry per
  indexed column: name, layout, bit count, minimum, maximum, value kind, payload, and a CRC-32
  over all of it. The encoder's writer is not modelled: \<open>Finalize\<close> returns the bytes it writes.
\<close>

definition RangeBitmapMagic :: bytes where "RangeBitmapMagic = [0x4C, 0x53, 0x52, 0x42]"
definition RangeSectionHeaderSize :: nat where "RangeSectionHeaderSize = 16"
definition rangeBSILayoutBase2 :: u8 where "rangeBSILayoutBase2 = 0"
definition rangeBSILayoutPackedValue :: u8 where "rangeBSILayoutPackedValue = 2"

lemmas range_layouts = rangeBSILayoutBase2_def rangeBSILayoutPackedValue_def

subsection \<open>Encoder\<close>

record RangeSectionEncoder =
  e_start :: int
  e_n :: u16
  e_buf :: bytes

definition NewRangeSectionEncoder :: "int \<Rightarrow> RangeSectionEncoder" where
  "NewRangeSectionEncoder startOffset = \<lparr>e_start = startOffset, e_n = 0, e_buf = []\<rparr>"

definition addEntry ::
  "RangeSectionEncoder \<Rightarrow> bytes \<Rightarrow> u8 \<Rightarrow> u8 \<Rightarrow> u8 \<Rightarrow> u64 \<Rightarrow> u64 \<Rightarrow> bytes \<Rightarrow> RangeSectionEncoder ranged"
where
  "addEntry e name layout bitCount kind minValue maxValue payload =
     (if e_n e = 0xFFFF then Inl RangeTooManyColumns
      else if length name > 0xFFFF then Inl RangeNameTooLong
      else let entry = PutUint16 (word_of_nat (length name)) @ name @ [layout, bitCount]
                 @ PutUint64 minValue @ PutUint64 maxValue @ [kind]
                 @ PutUint32 (word_of_nat (length payload)) @ payload;
               crc = ChecksumIEEE entry
        in Inr (e\<lparr>e_buf := e_buf e @ entry @ PutUint32 crc, e_n := e_n e + 1\<rparr>))"

fun encode_frames :: "bytes list \<Rightarrow> bytes ranged" where
  "encode_frames [] = Inr []"
| "encode_frames (f # fs) =
     (if \<not> fitsUint32 (int (length f)) then Inl RangeFrameTooLarge
      else (case encode_frames fs of
              Inl e \<Rightarrow> Inl e
            | Inr rest \<Rightarrow> Inr (PutUint32 (word_of_nat (length f)) @ f @ rest)))"

text \<open>\<open>AddColumn\<close>; the index is a pointer that may be nil.\<close>

definition AddColumn ::
  "'s bsi \<Rightarrow> RangeSectionEncoder \<Rightarrow> bytes \<Rightarrow> u8 \<Rightarrow> u64 \<Rightarrow> u64 \<Rightarrow> 's option \<Rightarrow> RangeSectionEncoder ranged"
where
  "AddColumn B e name kind minValue maxValue idx =
     (case idx of
        None \<Rightarrow> Inl RangeNilBSI
      | Some s \<Rightarrow>
          if bsi_BitCount B s > 0xFF then Inl RangeBitCountTooLarge
          else (case bsi_MarshalBinary B s of
                  None \<Rightarrow> Inl RangeMarshalError
                | Some frames \<Rightarrow>
                    (case encode_frames frames of
                       Inl err \<Rightarrow> Inl err
                     | Inr payload \<Rightarrow>
                         if \<not> fitsUint32 (int (length payload)) then Inl RangePayloadTooLarge
                         else addEntry e name rangeBSILayoutBase2 (word_of_nat (bsi_BitCount B s))
                                kind minValue maxValue payload)))"

definition AddColumnPacked ::
  "RangeSectionEncoder \<Rightarrow> bytes \<Rightarrow> u8 \<Rightarrow> u64 \<Rightarrow> u64 \<Rightarrow> int \<Rightarrow> int \<Rightarrow> RangeSectionValue list
     \<Rightarrow> RangeSectionEncoder ranged"
where
  "AddColumnPacked e name kind minValue maxValue bitCount rows vals =
     (if bitCount < 0 \<or> bitCount > 0xFF then Inl RangeBitCountTooLarge
      else if rows < 0 \<or> \<not> fitsUint32 rows then Inl RangeRowCountOutOfRange
      else if \<not> fitsUint32 (int (length vals)) then Inl RangeTooManyValues
      else (case encodePackedRangePayload (nat bitCount) (nat rows) vals of
              Inl err \<Rightarrow> Inl err
            | Inr payload \<Rightarrow>
                if \<not> fitsUint32 (int (length payload)) then Inl RangePayloadTooLarge
                else addEntry e name rangeBSILayoutPackedValue (word_of_int bitCount)
                       kind minValue maxValue payload))"

text \<open>The bytes written, and the offset and length returned.\<close>

definition RangeSection_Finalize :: "RangeSectionEncoder \<Rightarrow> bytes \<times> int \<times> int" where
  "RangeSection_Finalize e =
     (let section = RangeBitmapMagic @ [0, 0, 0, 0] @ PutUint16 (e_n e) @ [0, 0, 0, 0, 0, 0] @ e_buf e
      in (section, e_start e, int (length section)))"

subsection \<open>Decoder\<close>

record 's RangeSectionEntry =
  r_Name :: bytes
  r_Layout :: u8
  r_BitCount :: u8
  r_MinValue :: u64
  r_MaxValue :: u64
  r_ValueKind :: u8
  r_BSI :: 's

record RangeSectionEntryMeta =
  m_Name :: bytes
  m_Layout :: u8
  m_BitCount :: u8
  m_MinValue :: u64
  m_MaxValue :: u64
  m_ValueKind :: u8

definition decodeRangeSectionHeader :: "bytes \<Rightarrow> (u16 \<times> nat) ranged" where
  "decodeRangeSectionHeader section =
     (if length section < RangeSectionHeaderSize then Inl ErrRangeSectionCorrupt
      else with_slice section 0 4 (\<lambda>magic.
        if magic \<noteq> RangeBitmapMagic then Inl ErrRangeSectionCorrupt
        else with_slice section 4 8 (\<lambda>reserved.
        if \<exists>b \<in> set reserved. b \<noteq> 0 then Inl ErrRangeSectionCorrupt
        else with_slice section 10 RangeSectionHeaderSize (\<lambda>reserved.
        if \<exists>b \<in> set reserved. b \<noteq> 0 then Inl ErrRangeSectionCorrupt
        else with_slice section 8 10 (\<lambda>b. Inr (Uint16 b, RangeSectionHeaderSize))))))"

lemma decodeRangeSectionHeader_guarded:
  "decodeRangeSectionHeader section =
     (if length section < RangeSectionHeaderSize then Inl ErrRangeSectionCorrupt
      else if slice section 0 4 \<noteq> RangeBitmapMagic then Inl ErrRangeSectionCorrupt
      else if \<exists>b \<in> set (slice section 4 8). b \<noteq> 0 then Inl ErrRangeSectionCorrupt
      else if \<exists>b \<in> set (slice section 10 RangeSectionHeaderSize). b \<noteq> 0
        then Inl ErrRangeSectionCorrupt
      else Inr (Uint16 (slice section 8 10), RangeSectionHeaderSize))"
  by (simp add: decodeRangeSectionHeader_def with_in_range RangeSectionHeaderSize_def)

definition decodeRangeSectionEntryHeader ::
  "bytes \<Rightarrow> nat \<Rightarrow> (rangeSectionEntryHeader \<times> nat) ranged"
where
  "decodeRangeSectionEntryHeader section pos =
     (let entryStart = pos in
      if pos + 2 > length section then Inl ErrRangeSectionCorrupt
      else with_slice section pos (pos + 2) (\<lambda>b. let nameLen = unat (Uint16 b); pos = pos + 2 in
      if pos + nameLen + 23 > length section then Inl ErrRangeSectionCorrupt
      else with_slice section pos (pos + nameLen) (\<lambda>name. let pos = pos + nameLen in
        with_byte section pos (\<lambda>layout. let pos = pos + 1 in
        with_byte section pos (\<lambda>bitCount. let pos = pos + 1 in
        with_slice section pos (pos + 8) (\<lambda>b. let minValue = Uint64 b; pos = pos + 8 in
        with_slice section pos (pos + 8) (\<lambda>b. let maxValue = Uint64 b; pos = pos + 8 in
        with_byte section pos (\<lambda>valueKind. let pos = pos + 1 in
        with_slice section pos (pos + 4) (\<lambda>b. let payloadLen = unat (Uint32 b); pos = pos + 4 in
      if pos + payloadLen + 4 > length section then Inl ErrRangeSectionCorrupt
      else with_slice section pos (pos + payloadLen) (\<lambda>payload. let pos = pos + payloadLen; entryEnd = pos in
        with_slice section pos (pos + 4) (\<lambda>b. let wantCRC = Uint32 b; pos = pos + 4 in
        with_slice section entryStart entryEnd (\<lambda>entry.
      if ChecksumIEEE entry \<noteq> wantCRC then Inl ErrRangeSectionCorrupt
      else if layout \<noteq> rangeBSILayoutBase2 \<and> layout \<noteq> rangeBSILayoutPackedValue
        then Inl ErrUnsupportedRangeLayout
      else Inr (\<lparr>h_name = name, h_layout = layout, h_bitCount = bitCount, h_minValue = minValue,
                 h_maxValue = maxValue, h_valueKind = valueKind, h_payload = payload\<rparr>, pos)))))))))))))"

lemma decodeRangeSectionEntryHeader_guarded:
  "decodeRangeSectionEntryHeader section pos =
     (let entryStart = pos in
      if pos + 2 > length section then Inl ErrRangeSectionCorrupt
      else let nameLen = unat (Uint16 (slice section pos (pos + 2))); pos = pos + 2 in
      if pos + nameLen + 23 > length section then Inl ErrRangeSectionCorrupt
      else let name = slice section pos (pos + nameLen); pos = pos + nameLen;
               layout = section ! pos; pos = pos + 1;
               bitCount = section ! pos; pos = pos + 1;
               minValue = Uint64 (slice section pos (pos + 8)); pos = pos + 8;
               maxValue = Uint64 (slice section pos (pos + 8)); pos = pos + 8;
               valueKind = section ! pos; pos = pos + 1;
               payloadLen = unat (Uint32 (slice section pos (pos + 4))); pos = pos + 4 in
      if pos + payloadLen + 4 > length section then Inl ErrRangeSectionCorrupt
      else let payload = slice section pos (pos + payloadLen); pos = pos + payloadLen;
               entryEnd = pos;
               wantCRC = Uint32 (slice section pos (pos + 4)); pos = pos + 4 in
      if ChecksumIEEE (slice section entryStart entryEnd) \<noteq> wantCRC then Inl ErrRangeSectionCorrupt
      else if layout \<noteq> rangeBSILayoutBase2 \<and> layout \<noteq> rangeBSILayoutPackedValue
        then Inl ErrUnsupportedRangeLayout
      else Inr (\<lparr>h_name = name, h_layout = layout, h_bitCount = bitCount, h_minValue = minValue,
                 h_maxValue = maxValue, h_valueKind = valueKind, h_payload = payload\<rparr>, pos))"
  by (simp add: decodeRangeSectionEntryHeader_def Let_def with_in_range)

function decode_frames :: "bytes \<Rightarrow> nat \<Rightarrow> bytes list ranged" where
  "decode_frames payload pos =
     (if pos \<ge> length payload then Inr []
      else if pos + 4 > length payload then Inl ErrRangeSectionCorrupt
      else with_slice payload pos (pos + 4) (\<lambda>b. let frameLen = unat (Uint32 b); pos = pos + 4 in
        if pos + frameLen > length payload then Inl ErrRangeSectionCorrupt
        else with_slice payload pos (pos + frameLen) (\<lambda>frame.
          (case decode_frames payload (pos + frameLen) of
             Inl e \<Rightarrow> Inl e
           | Inr fs \<Rightarrow> Inr (frame # fs)))))"
  by auto
termination
  by (relation "measure (\<lambda>(payload, pos). length payload - pos)") auto

declare decode_frames.simps [simp del]

lemma decode_frames_guarded:
  "decode_frames payload pos =
     (if pos \<ge> length payload then Inr []
      else if pos + 4 > length payload then Inl ErrRangeSectionCorrupt
      else let frameLen = unat (Uint32 (slice payload pos (pos + 4))); pos = pos + 4 in
        if pos + frameLen > length payload then Inl ErrRangeSectionCorrupt
        else (case decode_frames payload (pos + frameLen) of
                Inl e \<Rightarrow> Inl e
              | Inr fs \<Rightarrow> Inr (slice payload pos (pos + frameLen) # fs)))"
  by (subst decode_frames.simps) (simp add: Let_def with_in_range)

definition decodeRangeSectionFrames :: "bytes \<Rightarrow> bytes list ranged" where
  "decodeRangeSectionFrames payload = decode_frames payload 0"

definition entry_of :: "rangeSectionEntryHeader \<Rightarrow> 's \<Rightarrow> 's RangeSectionEntry" where
  "entry_of h idx =
     \<lparr>r_Name = h_name h, r_Layout = h_layout h, r_BitCount = h_bitCount h, r_MinValue = h_minValue h,
      r_MaxValue = h_maxValue h, r_ValueKind = h_valueKind h, r_BSI = idx\<rparr>"

definition decodeBase2RangeSectionEntryPayload ::
  "'s bsi \<Rightarrow> rangeSectionEntryHeader \<Rightarrow> 's RangeSectionEntry ranged"
where
  "decodeBase2RangeSectionEntryPayload B header =
     (case decodeRangeSectionFrames (h_payload header) of
        Inl e \<Rightarrow> Inl e
      | Inr frames \<Rightarrow>
          (case bsi_UnmarshalBinary B frames of
             None \<Rightarrow> Inl ErrRangeSectionCorrupt
           | Some idx \<Rightarrow> Inr (entry_of header idx)))"

definition decodePackedRangeSectionEntryPayload ::
  "'s bsi \<Rightarrow> rangeSectionEntryHeader \<Rightarrow> 's RangeSectionEntry ranged"
where
  "decodePackedRangeSectionEntryPayload B header =
     (case decodePackedRangePayload B header of
        Inl e \<Rightarrow> Inl e
      | Inr idx \<Rightarrow> Inr (entry_of header idx))"

definition decodeRangeSectionEntryPayload ::
  "'s bsi \<Rightarrow> rangeSectionEntryHeader \<Rightarrow> 's RangeSectionEntry ranged"
where
  "decodeRangeSectionEntryPayload B header =
     (if h_layout header = rangeBSILayoutBase2 then decodeBase2RangeSectionEntryPayload B header
      else if h_layout header = rangeBSILayoutPackedValue
        then decodePackedRangeSectionEntryPayload B header
      else Inl ErrUnsupportedRangeLayout)"

fun decode_entries ::
  "'s bsi \<Rightarrow> bytes \<Rightarrow> nat \<Rightarrow> nat \<Rightarrow> (bytes \<rightharpoonup> 's RangeSectionEntry) \<Rightarrow> (bytes \<rightharpoonup> 's RangeSectionEntry) ranged"
where
  "decode_entries B section pos 0 entries =
     (if pos \<noteq> length section then Inl ErrRangeSectionCorrupt else Inr entries)"
| "decode_entries B section pos (Suc n) entries =
     (case decodeRangeSectionEntryHeader section pos of
        Inl e \<Rightarrow> Inl e
      | Inr (header, next) \<Rightarrow>
          (case decodeRangeSectionEntryPayload B header of
             Inl e \<Rightarrow> Inl e
           | Inr entry \<Rightarrow> decode_entries B section next n (entries(r_Name entry \<mapsto> entry))))"


text \<open>
  The loop that \<open>DecodeRangeSectionEntry\<close>, \<open>DecodeRangeSectionEntryMeta\<close> and
  \<open>ComparePackedRangeSectionEntry\<close> share: entry by entry until the name matches; \<open>Inr None\<close> when
  the section ends without a match and without trailing bytes.
\<close>

fun find_entry ::
  "bytes \<Rightarrow> bytes \<Rightarrow> nat \<Rightarrow> nat \<Rightarrow> rangeSectionEntryHeader option ranged"
where
  "find_entry section columnName pos 0 =
     (if pos \<noteq> length section then Inl ErrRangeSectionCorrupt else Inr None)"
| "find_entry section columnName pos (Suc n) =
     (case decodeRangeSectionEntryHeader section pos of
        Inl e \<Rightarrow> Inl e
      | Inr (header, next) \<Rightarrow>
          if h_name header = columnName then Inr (Some header)
          else find_entry section columnName next n)"

definition find_column :: "bytes \<Rightarrow> bytes \<Rightarrow> rangeSectionEntryHeader option ranged" where
  "find_column section columnName =
     (case decodeRangeSectionHeader section of
        Inl e \<Rightarrow> Inl e
      | Inr (count, pos) \<Rightarrow> find_entry section columnName pos (unat count))"

definition DecodeRangeSectionEntry ::
  "'s bsi \<Rightarrow> bytes \<Rightarrow> bytes \<Rightarrow> 's RangeSectionEntry option ranged"
where
  "DecodeRangeSectionEntry B section columnName =
     (case find_column section columnName of
        Inl e \<Rightarrow> Inl e
      | Inr None \<Rightarrow> Inr None
      | Inr (Some header) \<Rightarrow>
          (case decodeRangeSectionEntryPayload B header of
             Inl e \<Rightarrow> Inl e
           | Inr entry \<Rightarrow> Inr (Some entry)))"

definition DecodeRangeSectionEntryMeta :: "bytes \<Rightarrow> bytes \<Rightarrow> RangeSectionEntryMeta option ranged" where
  "DecodeRangeSectionEntryMeta section columnName =
     (case find_column section columnName of
        Inl e \<Rightarrow> Inl e
      | Inr None \<Rightarrow> Inr None
      | Inr (Some h) \<Rightarrow>
          Inr (Some \<lparr>m_Name = h_name h, m_Layout = h_layout h, m_BitCount = h_bitCount h,
                     m_MinValue = h_minValue h, m_MaxValue = h_maxValue h,
                     m_ValueKind = h_valueKind h\<rparr>))"

text \<open>\<open>None\<close> is the result \<^verbatim>\<open>ok=false\<close>.\<close>

definition ComparePackedRangeSectionEntry ::
  "'b roaring \<Rightarrow> bytes \<Rightarrow> bytes \<Rightarrow> bsi_operation \<Rightarrow> u64 \<Rightarrow> 'b option ranged"
where
  "ComparePackedRangeSectionEntry R section columnName op raw =
     (case find_column section columnName of
        Inl e \<Rightarrow> Inl e
      | Inr None \<Rightarrow> Inr None
      | Inr (Some header) \<Rightarrow>
          if h_layout header \<noteq> rangeBSILayoutPackedValue then Inr None
          else (case comparePackedRangePayload R header op raw of
                  Inl e \<Rightarrow> Inl e
                | Inr bm \<Rightarrow> Inr (Some bm)))"

subsection \<open>One entry\<close>

text \<open>The bytes of an entry, and the headers that fit them.\<close>

definition entry_body :: "rangeSectionEntryHeader \<Rightarrow> bytes" where
  "entry_body h =
     PutUint16 (word_of_nat (length (h_name h))) @ h_name h @ [h_layout h, h_bitCount h]
       @ PutUint64 (h_minValue h) @ PutUint64 (h_maxValue h) @ [h_valueKind h]
       @ PutUint32 (word_of_nat (length (h_payload h))) @ h_payload h"

definition entry_bytes :: "rangeSectionEntryHeader \<Rightarrow> bytes" where
  "entry_bytes h = entry_body h @ PutUint32 (ChecksumIEEE (entry_body h))"

definition header_ok :: "rangeSectionEntryHeader \<Rightarrow> bool" where
  "header_ok h \<longleftrightarrow>
     length (h_name h) < 2 ^ 16 \<and> length (h_payload h) < 2 ^ 32 \<and>
     h_layout h \<in> {rangeBSILayoutBase2, rangeBSILayoutPackedValue}"

lemma length_entry_bytes: "length (entry_bytes h) = length (h_name h) + length (h_payload h) + 29"
  by (simp add: entry_bytes_def entry_body_def)

lemma decode_entry_header:
  assumes ok: "header_ok h" and pos: "pos \<le> length s" and s: "drop pos s = entry_bytes h @ rest"
  shows "decodeRangeSectionEntryHeader s pos = Inr (h, pos + length (entry_bytes h))"
proof -
  define n m where "n = length (h_name h)" and "m = length (h_payload h)"
  let ?n = "PutUint16 (word_of_nat n)" and ?m = "PutUint32 (word_of_nat m)"
  let ?c = "PutUint32 (ChecksumIEEE (entry_body h))"
  let ?tail = "?c @ rest"
  have small: "n < 2 ^ 16" "m < 2 ^ 32" using ok by (simp_all add: header_ok_def n_def m_def)
  have len: "length s = pos + n + m + 29 + length rest"
    using length_of_drop [OF s pos] by (simp add: length_entry_bytes n_def m_def)
  have d0: "drop pos s = ?n @ (h_name h @ ([h_layout h] @ ([h_bitCount h] @ (PutUint64 (h_minValue h)
      @ (PutUint64 (h_maxValue h) @ ([h_valueKind h] @ (?m @ (h_payload h @ ?tail))))))))"
    using s by (simp add: entry_bytes_def entry_body_def n_def m_def)
  note d1 = drop_of_drop [OF d0, simplified length_PutUint]
  note d2 = drop_of_drop [OF d1, folded n_def]
  note d3 = drop_of_drop [OF d2, simplified list.size]
  note d4 = drop_of_drop [OF d3, simplified list.size]
  note d5 = drop_of_drop [OF d4, simplified length_PutUint]
  note d6 = drop_of_drop [OF d5, simplified length_PutUint]
  note d7 = drop_of_drop [OF d6, simplified list.size]
  note d8 = drop_of_drop [OF d7, simplified length_PutUint]
  note d9 = drop_of_drop [OF d8, folded m_def]
  have body: "slice s pos (pos + (n + m + 25)) = entry_body h"
    using slice_of_drop [of pos s "entry_body h" "?tail"] s
    by (simp add: entry_bytes_def) (simp add: entry_body_def n_def m_def add_ac)
  have r: "slice s pos (pos + 2) = ?n" "slice s (pos + 2) (pos + 2 + n) = h_name h"
    "s ! (pos + 2 + n) = h_layout h" "s ! (pos + 2 + n + 1) = h_bitCount h"
    "slice s (pos + 2 + n + 1 + 1) (pos + 2 + n + 1 + 1 + 8) = PutUint64 (h_minValue h)"
    "slice s (pos + 2 + n + 1 + 1 + 8) (pos + 2 + n + 1 + 1 + 8 + 8) = PutUint64 (h_maxValue h)"
    "s ! (pos + 2 + n + 1 + 1 + 8 + 8) = h_valueKind h"
    "slice s (pos + 2 + n + 1 + 1 + 8 + 8 + 1) (pos + 2 + n + 1 + 1 + 8 + 8 + 1 + 4) = ?m"
    "slice s (pos + 2 + n + 1 + 1 + 8 + 8 + 1 + 4) (pos + 2 + n + 1 + 1 + 8 + 8 + 1 + 4 + m) = h_payload h"
    "slice s (pos + 2 + n + 1 + 1 + 8 + 8 + 1 + 4 + m) (pos + 2 + n + 1 + 1 + 8 + 8 + 1 + 4 + m + 4) = ?c"
    using slice_of_drop [OF d0] slice_of_drop [OF d1] nth_of_drop [of "pos + 2 + n" s]
      nth_of_drop [of "pos + 2 + n + 1" s] slice_of_drop [OF d4] slice_of_drop [OF d5]
      nth_of_drop [of "pos + 2 + n + 1 + 1 + 8 + 8" s] slice_of_drop [OF d7] slice_of_drop [OF d8]
      slice_of_drop [OF d9] d2 d3 d6
    by (simp_all add: n_def m_def)
  have b: "slice s pos (pos + 2 + n + 1 + 1 + 8 + 8 + 1 + 4 + m) = entry_body h"
    using body by (simp add: add_ac)
  have u: "unat (word_of_nat n :: u16) = n" "unat (word_of_nat m :: u32) = m"
    using small by (simp_all add: unat_of_nat)
  have lay: "\<not> (h_layout h \<noteq> rangeBSILayoutBase2 \<and> h_layout h \<noteq> rangeBSILayoutPackedValue)"
    using ok by (auto simp: header_ok_def)
  have "\<not> pos + 2 > length s" "\<not> pos + 2 + n + 23 > length s"
    "\<not> pos + 2 + n + 1 + 1 + 8 + 8 + 1 + 4 + m + 4 > length s" using len by simp_all
  note bounds = this
  have "decodeRangeSectionEntryHeader s pos = Inr (h, pos + 2 + n + 1 + 1 + 8 + 8 + 1 + 4 + m + 4)"
    unfolding decodeRangeSectionEntryHeader_guarded Let_def r Uint16_Put Uint32_Put Uint64_Put u b
    using bounds lay by (simp only: if_False not_True_eq_False simp_thms) simp
  then show ?thesis by (simp add: length_entry_bytes n_def m_def add_ac)
qed

subsection \<open>A section as a list of entries\<close>

definition section_of :: "rangeSectionEntryHeader list \<Rightarrow> bytes" where
  "section_of hs =
     RangeBitmapMagic @ [0, 0, 0, 0] @ PutUint16 (word_of_nat (length hs)) @ [0, 0, 0, 0, 0, 0]
       @ concat (map entry_bytes hs)"

lemma decode_section_header:
  assumes "length hs < 2 ^ 16"
  shows "decodeRangeSectionHeader (section_of hs) = Inr (word_of_nat (length hs), 16)"
    and "drop 16 (section_of hs) = concat (map entry_bytes hs)"
    and "unat (word_of_nat (length hs) :: u16) = length hs"
proof -
  let ?s = "section_of hs"
  have d0: "drop 0 ?s = RangeBitmapMagic @ ([0, 0, 0, 0] @ (PutUint16 (word_of_nat (length hs))
      @ ([0, 0, 0, 0, 0, 0] @ concat (map entry_bytes hs))))" by (simp add: section_of_def)
  have d4: "drop 4 ?s = [0, 0, 0, 0] @ (PutUint16 (word_of_nat (length hs))
      @ ([0, 0, 0, 0, 0, 0] @ concat (map entry_bytes hs)))" by (simp add: section_of_def RangeBitmapMagic_def)
  have d8: "drop 8 ?s = PutUint16 (word_of_nat (length hs)) @ ([0, 0, 0, 0, 0, 0]
      @ concat (map entry_bytes hs))" using drop_of_drop [OF d4] by simp
  have d10: "drop 10 ?s = [0, 0, 0, 0, 0, 0] @ concat (map entry_bytes hs)"
    using drop_of_drop [OF d8] by simp
  have sl: "slice ?s 0 4 = RangeBitmapMagic" by (simp add: section_of_def RangeBitmapMagic_def)
  have sl': "slice ?s 4 8 = [0, 0, 0, 0]"
    "slice ?s 8 10 = PutUint16 (word_of_nat (length hs))" "slice ?s 10 16 = [0, 0, 0, 0, 0, 0]"
    using slice_of_drop [OF d4] slice_of_drop [OF d8] slice_of_drop [OF d10]
    by simp_all
  have "length ?s \<ge> 16" by (simp add: section_of_def RangeBitmapMagic_def)
  then show "decodeRangeSectionHeader ?s = Inr (word_of_nat (length hs), 16)"
    unfolding decodeRangeSectionHeader_guarded RangeSectionHeaderSize_def sl sl' by simp
  show "drop 16 ?s = concat (map entry_bytes hs)" using drop_of_drop [OF d10] by simp
  show "unat (word_of_nat (length hs) :: u16) = length hs" using assms by (simp add: unat_of_nat)
qed

lemma find_entry_list:
  assumes "list_all header_ok hs" and "pos \<le> length s" and "drop pos s = concat (map entry_bytes hs)"
  shows "find_entry s name pos (length hs) = Inr (find (\<lambda>h. h_name h = name) hs)"
  using assms
proof (induction hs arbitrary: pos)
  case Nil
  then show ?case by simp
next
  case (Cons h hs)
  have d: "drop pos s = entry_bytes h @ concat (map entry_bytes hs)" using Cons.prems(3) by simp
  have "decodeRangeSectionEntryHeader s pos = Inr (h, pos + length (entry_bytes h))"
    by (rule decode_entry_header [OF _ Cons.prems(2) d]) (use Cons.prems(1) in simp)
  with Cons.IH [OF _ _ drop_of_drop [OF d]] Cons.prems(1) length_of_drop [OF d Cons.prems(2)]
  show ?case by simp
qed

lemma find_column_section:
  assumes "list_all header_ok hs" and "length hs < 2 ^ 16"
  shows "find_column (section_of hs) name = Inr (find (\<lambda>h. h_name h = name) hs)"
proof -
  note H = decode_section_header [OF assms(2)]
  have "16 \<le> length (section_of hs)" by (simp add: section_of_def RangeBitmapMagic_def)
  from find_entry_list [OF assms(1) this H(2)] H(1,3) show ?thesis by (simp add: find_column_def)
qed

lemma decode_entries_list:
  assumes "list_all header_ok hs" and "pos \<le> length s" and "drop pos s = concat (map entry_bytes hs)"
    and "list_all2 (\<lambda>h e. decodeRangeSectionEntryPayload B h = Inr e) hs es"
  shows "decode_entries B s pos (length hs) m = Inr (foldl (\<lambda>m e. m(r_Name e \<mapsto> e)) m es)"
  using assms
proof (induction hs arbitrary: pos m es)
  case Nil
  then show ?case by simp
next
  case (Cons h hs)
  from Cons.prems(4) obtain e es' where es: "es = e # es'" "decodeRangeSectionEntryPayload B h = Inr e"
    "list_all2 (\<lambda>h e. decodeRangeSectionEntryPayload B h = Inr e) hs es'"
    by (auto simp: list_all2_Cons1)
  have d: "drop pos s = entry_bytes h @ concat (map entry_bytes hs)" using Cons.prems(3) by simp
  have "decodeRangeSectionEntryHeader s pos = Inr (h, pos + length (entry_bytes h))"
    by (rule decode_entry_header [OF _ Cons.prems(2) d]) (use Cons.prems(1) in simp)
  with Cons.IH [OF _ _ drop_of_drop [OF d] es(3)] Cons.prems(1) length_of_drop [OF d Cons.prems(2)] es
  show ?case by (simp add: fun_upd_def)
qed

subsection \<open>The encoder's state machine\<close>

text \<open>
  The columns a caller added, and the encoder states it can reach by adding them one after the
  other.
\<close>

datatype 's range_column =
    PackedColumn (col_name: bytes) u8 u64 u64 int int "RangeSectionValue list"
  | Base2Column (col_name: bytes) u8 u64 u64 's

inductive encoder_of :: "'s bsi \<Rightarrow> RangeSectionEncoder \<Rightarrow> 's range_column list \<Rightarrow> bool" for B where
  encoder_new: "encoder_of B (NewRangeSectionEncoder start) []"
| encoder_packed:
    "encoder_of B e cols \<Longrightarrow> AddColumnPacked e name kind mn mx bc rows vals = Inr e' \<Longrightarrow>
     encoder_of B e' (cols @ [PackedColumn name kind mn mx bc rows vals])"
| encoder_base2:
    "encoder_of B e cols \<Longrightarrow> AddColumn B e name kind mn mx (Some s) = Inr e' \<Longrightarrow>
     encoder_of B e' (cols @ [Base2Column name kind mn mx s])"

text \<open>The entry written for a column.\<close>

fun column_entry :: "'s bsi \<Rightarrow> 's range_column \<Rightarrow> rangeSectionEntryHeader \<Rightarrow> bool" where
  "column_entry B (PackedColumn name kind mn mx bc rows vals) h \<longleftrightarrow>
     h_name h = name \<and> h_layout h = rangeBSILayoutPackedValue \<and> int (unat (h_bitCount h)) = bc \<and>
     h_minValue h = mn \<and> h_maxValue h = mx \<and> h_valueKind h = kind \<and>
     0 \<le> rows \<and> rows < 2 ^ 32 \<and> rows_ok (nat rows) vals \<and>
     payload_of (nat bc) (nat rows) vals (h_payload h)"
| "column_entry B (Base2Column name kind mn mx s) h \<longleftrightarrow>
     h_name h = name \<and> h_layout h = rangeBSILayoutBase2 \<and> unat (h_bitCount h) = bsi_BitCount B s \<and>
     h_minValue h = mn \<and> h_maxValue h = mx \<and> h_valueKind h = kind \<and>
     (\<exists>fs. bsi_MarshalBinary B s = Some fs \<and> encode_frames fs = Inr (h_payload h))"

definition encoder_inv :: "'s bsi \<Rightarrow> RangeSectionEncoder \<Rightarrow> 's range_column list \<Rightarrow> bool" where
  "encoder_inv B e cols \<longleftrightarrow>
     (\<exists>hs. e_buf e = concat (map entry_bytes hs) \<and> e_n e = word_of_nat (length hs) \<and>
       length hs < 2 ^ 16 \<and> list_all header_ok hs \<and> list_all2 (column_entry B) cols hs)"

lemma packed_encode_loop_rows_ok:
  "packed_encode_loop payload pS vS bc rows i lastRow vals = Inr p \<Longrightarrow>
     rows_ok rows vals \<and> (i > 0 \<longrightarrow> list_all (\<lambda>v. lastRow < RowID v) vals)"
proof (induction vals arbitrary: payload i lastRow)
  case Nil
  show ?case by (simp add: rows_ok_def)
next
  case (Cons v vs)
  from Cons.prems obtain payload' where
    rest: "packed_encode_loop payload' pS vS bc rows (Suc i) (RowID v) vs = Inr p"
    and v: "unat (RowID v) < rows" "i > 0 \<longrightarrow> lastRow < RowID v"
    by (auto simp: not_le split: if_splits option.splits)
  from Cons.IH [OF rest] have "rows_ok rows vs" "list_all (\<lambda>w. RowID v < RowID w) vs" by simp_all
  with v show ?case by (auto simp: rows_ok_def list_all_iff intro: less_trans)
qed

lemma addEntry_inv:
  assumes inv: "encoder_inv B e cols" and add: "addEntry e name layout bc kind mn mx payload = Inr e'"
    and lay: "layout \<in> {rangeBSILayoutBase2, rangeBSILayoutPackedValue}"
    and len: "length payload < 2 ^ 32"
    and col: "column_entry B c \<lparr>h_name = name, h_layout = layout, h_bitCount = bc, h_minValue = mn,
                h_maxValue = mx, h_valueKind = kind, h_payload = payload\<rparr>" (is "column_entry B c ?h")
  shows "encoder_inv B e' (cols @ [c])"
proof -
  obtain hs where hs: "e_buf e = concat (map entry_bytes hs)" "e_n e = word_of_nat (length hs)"
    "length hs < 2 ^ 16" "list_all header_ok hs" "list_all2 (column_entry B) cols hs"
    using inv by (auto simp: encoder_inv_def)
  have n: "e_n e \<noteq> 0xFFFF" "length name < 2 ^ 16" and
    e': "e' = e\<lparr>e_buf := e_buf e @ entry_bytes ?h, e_n := e_n e + 1\<rparr>"
    using add by (auto simp: addEntry_def Let_def entry_bytes_def entry_body_def split: if_splits)
  have "length hs \<noteq> 0xFFFF" using n(1) hs(2) by auto
  with hs n(2) lay len col show ?thesis
    unfolding encoder_inv_def e'
    by (intro exI [of _ "hs @ [?h]"]) (simp add: header_ok_def add.commute list_all2_appendI)
qed

lemma encoder_of_inv: "encoder_of B e cols \<Longrightarrow> encoder_inv B e cols"
proof (induction rule: encoder_of.induct)
  case (encoder_new start)
  show ?case by (simp add: encoder_inv_def NewRangeSectionEncoder_def)
next
  case (encoder_packed e cols name kind mn mx bc rows vals e')
  then obtain p where bc: "0 \<le> bc" "bc \<le> 255" and rows: "0 \<le> rows" "rows < 2 ^ 32"
    and n: "length vals < 2 ^ 32"
    and p: "encodePackedRangePayload (nat bc) (nat rows) vals = Inr p" "length p < 2 ^ 32"
    and add: "addEntry e name rangeBSILayoutPackedValue (word_of_int bc) kind mn mx p = Inr e'"
    by (auto simp: AddColumnPacked_def fitsUint32_def split: if_splits sum.splits)
  have ok: "rows_ok (nat rows) vals"
    using p(1) by (auto simp: encodePackedRangePayload_def Let_def dest: packed_encode_loop_rows_ok
        split: sum.splits)
  have "payload_of (nat bc) (nat rows) vals p"
    using encodePackedRangePayload_spec [OF ok, of "nat bc"] bc n p(1) by auto
  moreover have "uint (word_of_int bc :: u8) = bc"
    using bc by (simp add: uint_word_of_int_eq take_bit_int_eq_self)
  ultimately show ?case
    using bc rows ok by (intro addEntry_inv [OF encoder_packed.IH add _ p(2)]) simp_all
next
  case (encoder_base2 e cols name kind mn mx s e')
  then obtain fs p where bc: "bsi_BitCount B s \<le> 255" and fs: "bsi_MarshalBinary B s = Some fs"
    and p: "encode_frames fs = Inr p" "length p < 2 ^ 32"
    and add: "addEntry e name rangeBSILayoutBase2 (word_of_nat (bsi_BitCount B s)) kind mn mx p = Inr e'"
    by (auto simp: AddColumn_def fitsUint32_def split: if_splits sum.splits option.splits)
  show ?case
    using bc fs p(1)
    by (intro addEntry_inv [OF encoder_base2.IH add _ p(2)]) (simp_all add: unat_of_nat)
qed

subsection \<open>What a reader finds in a finalized section\<close>

definition section_bytes :: "RangeSectionEncoder \<Rightarrow> bytes" where
  "section_bytes e = fst (RangeSection_Finalize e)"

lemma find_list_all2:
  assumes "list_all2 P cs hs" and "\<And>c h. P c h \<Longrightarrow> f c = g h"
  shows "find (\<lambda>c. f c = x) cs = None \<Longrightarrow> find (\<lambda>h. g h = x) hs = None"
    and "find (\<lambda>c. f c = x) cs = Some c \<Longrightarrow> \<exists>h. find (\<lambda>h. g h = x) hs = Some h \<and> P c h"
  using assms(1) by (induction rule: list_all2_induct) (auto dest: assms(2) split: if_splits)

lemma column_entry_name: "column_entry B c h \<Longrightarrow> col_name c = h_name h"
  by (cases c) auto

lemma find_column_encoded:
  assumes "encoder_of B e cols"
  shows "find (\<lambda>c. col_name c = name) cols = None \<Longrightarrow> find_column (section_bytes e) name = Inr None"
    and "find (\<lambda>c. col_name c = name) cols = Some c \<Longrightarrow>
      \<exists>h. find_column (section_bytes e) name = Inr (Some h) \<and> column_entry B c h"
proof -
  obtain hs where hs: "e_buf e = concat (map entry_bytes hs)" "e_n e = word_of_nat (length hs)"
    "length hs < 2 ^ 16" "list_all header_ok hs" "list_all2 (column_entry B) cols hs"
    using encoder_of_inv [OF assms] by (auto simp: encoder_inv_def)
  have "section_bytes e = section_of hs"
    by (simp add: section_bytes_def RangeSection_Finalize_def Let_def section_of_def hs(1,2))
  with find_column_section [OF hs(4,3), of name]
  have fc: "find_column (section_bytes e) name = Inr (find (\<lambda>h. h_name h = name) hs)" by simp
  show "find (\<lambda>c. col_name c = name) cols = None \<Longrightarrow> find_column (section_bytes e) name = Inr None"
    using find_list_all2(1) [OF hs(5) column_entry_name] fc by simp
  show "find (\<lambda>c. col_name c = name) cols = Some c \<Longrightarrow>
      \<exists>h. find_column (section_bytes e) name = Inr (Some h) \<and> column_entry B c h"
    using find_list_all2(2) [OF hs(5) column_entry_name] fc by simp
qed

text \<open>The offsets fit the declared width and the declared minimum and maximum.\<close>

definition values_fit :: "int \<Rightarrow> u64 \<Rightarrow> u64 \<Rightarrow> RangeSectionValue list \<Rightarrow> bool" where
  "values_fit bc mn mx vals \<longleftrightarrow>
     list_all (\<lambda>v. take_bit (nat bc) (Offset v) = Offset v \<and> Offset v \<le> mx - mn) vals"

lemma column_entry_packed_ok:
  assumes "column_entry B (PackedColumn name kind mn mx bc rows vals) h" and "values_fit bc mn mx vals"
  shows "packed_ok h (nat rows) vals" "payload_of (unat (h_bitCount h)) (nat rows) vals (h_payload h)"
proof -
  have "nat bc = unat (h_bitCount h)" using assms(1) by auto
  then show "packed_ok h (nat rows) vals" "payload_of (unat (h_bitCount h)) (nat rows) vals (h_payload h)"
    using assms by (auto simp: packed_ok_def values_fit_def)
qed

text \<open>Frames: what \<open>AddColumn\<close> writes is what \<open>decodeRangeSectionFrames\<close> reads.\<close>

lemma decode_encode_frames:
  "encode_frames fs = Inr q \<Longrightarrow> pos \<le> length p \<Longrightarrow> drop pos p = q \<Longrightarrow> decode_frames p pos = Inr fs"
proof (induction fs arbitrary: q pos)
  case Nil
  then show ?case by (subst decode_frames_guarded) simp
next
  case (Cons f fs)
  then obtain q' where len: "length f < 2 ^ 32" and q': "encode_frames fs = Inr q'"
    and q: "q = PutUint32 (word_of_nat (length f)) @ (f @ q')"
    by (auto simp: fitsUint32_def split: if_splits sum.splits)
  have d0: "drop pos p = PutUint32 (word_of_nat (length f)) @ (f @ q')" using Cons.prems(3) q by simp
  have d1: "drop (pos + 4) p = f @ q'" using drop_of_drop [OF d0] by simp
  have plen: "length p = pos + 4 + length f + length q'" using length_of_drop [OF d0 Cons.prems(2)] by simp
  have "decode_frames p (pos + 4 + length f) = Inr fs"
    using Cons.IH [OF q' _ drop_of_drop [OF d1]] plen by simp
  moreover have "unat (Uint32 (slice p pos (pos + 4))) = length f"
    using slice_of_drop [OF d0] len by (simp add: unat_of_nat)
  ultimately show ?case
    using plen slice_of_drop [OF d1] by (subst decode_frames_guarded) (simp add: Let_def)
qed

subsection \<open>Single-byte corruption\<close>

text \<open>The bytes of an entry outside its two length fields.\<close>

definition checked_byte :: "rangeSectionEntryHeader \<Rightarrow> nat \<Rightarrow> bool" where
  "checked_byte h k \<longleftrightarrow>
     2 \<le> k \<and> k < length (entry_body h) \<and>
     \<not> (length (h_name h) + 21 \<le> k \<and> k < length (h_name h) + 25)"

lemma decode_entry_corrupted:
  assumes ok: "header_ok h" and pos: "pos \<le> length s" and s: "drop pos s = entry_bytes h @ rest"
    and k: "checked_byte h k" and b: "b \<noteq> s ! (pos + k)"
  shows "decodeRangeSectionEntryHeader (s[pos + k := b]) pos = Inl ErrRangeSectionCorrupt"
proof -
  define n m where "n = length (h_name h)" and "m = length (h_payload h)"
  define t where "t = s[pos + k := b]"
  let ?E = "pos + 2 + n + 1 + 1 + 8 + 8 + 1 + 4 + m"
  have k': "2 \<le> k" "k < n + m + 25" "k < n + 21 \<or> n + 25 \<le> k"
    using k by (auto simp: checked_byte_def entry_body_def n_def m_def)
  have len: "length t = pos + n + m + 29 + length rest"
    using length_of_drop [OF s pos] by (simp add: t_def length_entry_bytes n_def m_def)
  have body: "slice s pos ?E = entry_body h" "slice s ?E (?E + 4) = PutUint32 (ChecksumIEEE (entry_body h))"
    using slice_of_drop [of pos s "entry_body h" "PutUint32 (ChecksumIEEE (entry_body h)) @ rest"]
      slice_of_drop [of ?E s "PutUint32 (ChecksumIEEE (entry_body h))" rest]
      drop_of_drop [of pos s "entry_body h" "PutUint32 (ChecksumIEEE (entry_body h)) @ rest"] s
    by (simp_all add: entry_bytes_def) (simp_all add: entry_body_def n_def m_def add_ac)
  have "s ! (pos + k) = entry_body h ! k"
  proof -
    have "length (entry_body h) = n + m + 25" by (simp add: entry_body_def n_def m_def)
    then have "drop pos s ! k = entry_body h ! k" using s k' by (simp add: entry_bytes_def nth_append)
    with pos show ?thesis by simp
  qed
  then have "ChecksumIEEE ((entry_body h)[k := b]) \<noteq> ChecksumIEEE (entry_body h)"
    using k' b by (intro ChecksumIEEE_update) (simp_all add: entry_body_def n_def m_def)
  moreover have "slice t pos ?E = (entry_body h)[k := b]"
    unfolding t_def using k' body(1) by (subst slice_update_in) simp_all
  moreover have "slice t ?E (?E + 4) = PutUint32 (ChecksumIEEE (entry_body h))"
    unfolding t_def using k' body(2) by (subst slice_update_out) simp_all
  ultimately have crc: "ChecksumIEEE (slice t pos ?E) \<noteq> Uint32 (slice t ?E (?E + 4))" by simp
  have d: "drop (pos + 2 + n + 1 + 1 + 8 + 8 + 1) s = PutUint32 (word_of_nat m) @ (h_payload h @
      PutUint32 (ChecksumIEEE (entry_body h)) @ rest)"
    using drop_of_drop [of pos s "PutUint16 (word_of_nat n) @ h_name h @ [h_layout h, h_bitCount h]
      @ PutUint64 (h_minValue h) @ PutUint64 (h_maxValue h) @ [h_valueKind h]"] s
    by (simp add: entry_bytes_def entry_body_def n_def m_def add_ac)
  let ?L = "pos + 2 + n + 1 + 1 + 8 + 8 + 1"
  have "slice t pos (pos + 2) = slice s pos (pos + 2)" "slice t ?L (?L + 4) = slice s ?L (?L + 4)"
    unfolding t_def using k' by (intro slice_update_out; linarith)+
  then have "slice t pos (pos + 2) = PutUint16 (word_of_nat n)" "slice t ?L (?L + 4) = PutUint32 (word_of_nat m)"
    using slice_of_drop [of pos s "PutUint16 (word_of_nat n)"] slice_of_drop [OF d] s
    by (simp_all add: entry_bytes_def entry_body_def n_def)
  then have lens: "unat (Uint16 (slice t pos (pos + 2))) = n" "unat (Uint32 (slice t ?L (?L + 4))) = m"
    using ok by (simp_all add: header_ok_def n_def m_def unat_of_nat)
  show ?thesis
    unfolding t_def [symmetric] decodeRangeSectionEntryHeader_guarded Let_def lens using crc len by simp
qed

subsection \<open>A concrete index\<close>

text \<open>
  Instances for the parameters: an index that keeps its values in a map and 64 slices, and can
  marshal the one state \<open>s0\<close>.
\<close>

definition map_bsi :: "nat \<times> (u64 \<rightharpoonup> u64) \<Rightarrow> (nat \<times> (u64 \<rightharpoonup> u64)) bsi" where
  "map_bsi s0 = \<lparr>bsi_NewBSI = (\<lambda>mx mn. (64, Map.empty)), bsi_SetValue = (\<lambda>k v (n, m). (n, m(k \<mapsto> v))),
     bsi_GetValue = (\<lambda>(n, m). m), bsi_BitCount = fst,
     bsi_MarshalBinary = (\<lambda>s. if s = s0 then Some [[1], [2, 3]] else None),
     bsi_UnmarshalBinary = (\<lambda>fs. if fs = [[1], [2, 3]] then Some s0 else None)\<rparr>"

lemma map_bsi_laws: "bsi_laws (map_bsi s0)"
  using unsigned_less [where ?'a = nat and ?'b = 64]
  by (auto simp: bsi_laws_def map_bsi_def ucast_u32_eq_iff)

lemma AddColumnPacked_first:
  assumes "0 \<le> bc" "bc \<le> 255" "0 \<le> rows" "rows < 2 ^ 16" "rows_ok (nat rows) vals" "length name < 2 ^ 16"
  shows "\<exists>e. encoder_of B e [PackedColumn name kind mn mx bc rows vals]"
proof -
  have n: "length vals < 2 ^ 32" using rows_ok_length [OF assms(5)] assms(4) by simp
  have bc: "nat bc < 256" using assms(2) by linarith
  obtain p where p: "encodePackedRangePayload (nat bc) (nat rows) vals = Inr p"
    "payload_of (nat bc) (nat rows) vals p"
    using encodePackedRangePayload_spec [OF assms(5) bc n] by blast
  have "length vals = card (set (map RowID vals))"
    using distinct_card [OF rows_ok_distinct [OF assms(5)]] by simp
  also have "\<dots> = card (present_rows vals)"
    by (simp add: present_rows_def card_image inj_on_def image_comp [symmetric] flip: image_image word_unat_eq_iff)
  also have "\<dots> \<le> card {..<nat rows}"
    using assms(5) by (intro card_mono) (auto simp: present_rows_def rows_ok_def list_all_iff)
  finally have "nat bc * length vals \<le> 255 * 2 ^ 16" using assms(2,4) by (intro mult_le_mono) auto
  moreover have "length p = 12 + (nat rows + 7) div 8 + (nat bc * length vals + 7) div 8"
    using p(2) by (simp add: payload_of_def)
  ultimately have "length p < 2 ^ 32" using assms(4) by simp
  then have "\<exists>e'. AddColumnPacked (NewRangeSectionEncoder 0) name kind mn mx bc rows vals = Inr e'"
    using assms n p(1)
    by (simp add: AddColumnPacked_def fitsUint32_def addEntry_def NewRangeSectionEncoder_def Let_def)
  then show ?thesis using encoder_of.encoder_packed [OF encoder_of.encoder_new] by fastforce
qed

subsection \<open>Properties\<close>

text \<open>
  (C24) Packed range columns round trip: in the section finalized from any sequence of added
  columns, \<open>DecodeRangeSectionEntry\<close> finds a packed column by name and returns its metadata and
  an index that holds for every row exactly the offset that was added for it, nothing for the
  rows that were not, provided the offsets fit the declared width and the declared range.
\<close>

theorem range_packed_roundtrip:
  assumes "bsi_laws B" and "encoder_of B e cols"
    and "find (\<lambda>c. col_name c = name) cols = Some (PackedColumn name kind mn mx bc rows vals)"
    and "values_fit bc mn mx vals"
  shows "\<exists>entry. DecodeRangeSectionEntry B (section_bytes e) name = Inr (Some entry) \<and>
    r_Name entry = name \<and> r_MinValue entry = mn \<and> r_MaxValue entry = mx \<and> r_ValueKind entry = kind \<and>
    (\<forall>r. bsi_GetValue B (r_BSI entry) (ucast r) = row_offset vals r)"
proof -
  obtain h where h: "find_column (section_bytes e) name = Inr (Some h)"
    "column_entry B (PackedColumn name kind mn mx bc rows vals) h"
    using find_column_encoded(2) [OF assms(2,3)] by blast
  note ok = column_entry_packed_ok [OF h(2) assms(4)]
  obtain s where s: "decodePackedRangePayload B h = Inr s"
    "\<forall>r. bsi_GetValue B s (ucast r) = row_offset vals r"
    using decodePackedRangePayload_values [OF assms(1) ok] by blast
  have "DecodeRangeSectionEntry B (section_bytes e) name = Inr (Some (entry_of h s))"
    using h s(1) by (simp add: DecodeRangeSectionEntry_def decodeRangeSectionEntryPayload_def
        decodePackedRangeSectionEntryPayload_def range_layouts)
  with h(2) s(2) show ?thesis by (auto simp: entry_of_def)
qed

theorem range_packed_roundtrip_witness:
  "\<exists>e entry. DecodeRangeSectionEntry (map_bsi (0, Map.empty)) (section_bytes e) [97] = Inr (Some entry) \<and>
    r_Name entry = [97] \<and> r_MinValue entry = 10 \<and> r_MaxValue entry = 17 \<and> r_ValueKind entry = 0 \<and>
    (\<forall>r. bsi_GetValue (map_bsi (0, Map.empty)) (r_BSI entry) (ucast r) =
      row_offset [\<lparr>RowID = 1, Offset = 7\<rparr>, \<lparr>RowID = 4, Offset = 0\<rparr>] r)"
proof -
  let ?c = "PackedColumn [97] 0 10 17 3 5 [\<lparr>RowID = 1, Offset = 7\<rparr>, \<lparr>RowID = 4, Offset = 0\<rparr>]"
  obtain e where "encoder_of (map_bsi (0, Map.empty)) e [?c]"
    using AddColumnPacked_first [of 3 5 "[\<lparr>RowID = 1, Offset = 7\<rparr>, \<lparr>RowID = 4, Offset = 0\<rparr>]" "[97]"
        "map_bsi (0, Map.empty)" 0 10 17]
    by (auto simp: rows_ok_def)
  from range_packed_roundtrip [OF map_bsi_laws this, of "[97]"] show ?thesis
    by (simp add: values_fit_def take_bit_eq_mod) blast
qed

text \<open>
  (C7) Predicates on the packed form are exact: for the four range operators,
  \<open>ComparePackedRangeSectionEntry\<close> on a packed column returns the bitmap of exactly the rows
  whose value (minimum plus offset, as a signed 64-bit integer) satisfies the predicate, whether
  a minimum/maximum shortcut answers or the packed offsets are compared without decoding them.
\<close>

theorem range_compare_exact:
  assumes "roaring_laws R" and "encoder_of B e cols"
    and "find (\<lambda>c. col_name c = name) cols = Some (PackedColumn name kind mn mx bc rows vals)"
    and "values_fit bc mn mx vals" and "mn \<le>s mx" and "range_operation op"
  shows "\<exists>bm. ComparePackedRangeSectionEntry R (section_bytes e) name op raw = Inr (Some bm) \<and>
    (\<forall>y. rb_contains R bm y =
      (\<exists>v \<in> set vals. RowID v = y \<and> compare_holds op (sint (mn + Offset v)) (sint raw)))"
proof -
  obtain h where h: "find_column (section_bytes e) name = Inr (Some h)"
    "column_entry B (PackedColumn name kind mn mx bc rows vals) h"
    using find_column_encoded(2) [OF assms(2,3)] by blast
  note ok = column_entry_packed_ok [OF h(2) assms(4)]
  have m: "h_minValue h = mn" "h_maxValue h = mx" "h_layout h = rangeBSILayoutPackedValue"
    using h(2) by simp_all
  have "sint (h_minValue h) \<le> sint (h_maxValue h)" using assms(5) by (simp add: m word_sle_eq)
  from comparePackedRangePayload_rows [OF assms(1) ok this assms(6), of raw] h(1) show ?thesis
    by (auto simp: ComparePackedRangeSectionEntry_def m)
qed

theorem range_compare_exact_witness:
  "\<exists>e bm. ComparePackedRangeSectionEntry set_roaring (section_bytes e) [97] BSI_GE 12 = Inr (Some bm) \<and>
    (\<forall>y. rb_contains set_roaring bm y = (y = 1))"
proof -
  let ?c = "PackedColumn [97] 0 10 17 3 5 [\<lparr>RowID = 1, Offset = 7\<rparr>, \<lparr>RowID = 4, Offset = 0\<rparr>]"
  obtain e where e: "encoder_of (map_bsi (0, Map.empty)) e [?c]"
    using AddColumnPacked_first [of 3 5 "[\<lparr>RowID = 1, Offset = 7\<rparr>, \<lparr>RowID = 4, Offset = 0\<rparr>]" "[97]"
        "map_bsi (0, Map.empty)" 0 10 17]
    by (auto simp: rows_ok_def)
  have "find (\<lambda>c. col_name c = [97]) [?c] = Some ?c" by simp
  from range_compare_exact [OF set_roaring_laws e this, of BSI_GE 12] show ?thesis
    by (simp add: values_fit_def take_bit_eq_mod range_operation_def word_sle_eq) blast
qed

text \<open>
  Serialized index columns round trip: a column added as a bit-sliced index is read back by
  \<open>DecodeRangeSectionEntry\<close> with its metadata and an index with the same values; its frames
  survive the length-prefixed framing. A name that was never added is reported as absent by all
  readers rather than as an error.
\<close>

theorem range_base2_roundtrip:
  assumes "bsi_laws B" and "encoder_of B e cols"
    and "find (\<lambda>c. col_name c = name) cols = Some (Base2Column name kind mn mx s)"
    and "find (\<lambda>c. col_name c = absent) cols = None"
  shows "\<exists>entry. DecodeRangeSectionEntry B (section_bytes e) name = Inr (Some entry) \<and>
    r_MinValue entry = mn \<and> r_MaxValue entry = mx \<and> r_ValueKind entry = kind \<and>
    unat (r_BitCount entry) = bsi_BitCount B s \<and>
    bsi_GetValue B (r_BSI entry) = bsi_GetValue B s \<and>
    DecodeRangeSectionEntry B (section_bytes e) absent = Inr None \<and>
    DecodeRangeSectionEntryMeta (section_bytes e) absent = Inr None \<and>
    ComparePackedRangeSectionEntry R (section_bytes e) absent op raw = Inr None"
proof -
  obtain h where h: "find_column (section_bytes e) name = Inr (Some h)"
    "column_entry B (Base2Column name kind mn mx s) h"
    using find_column_encoded(2) [OF assms(2,3)] by blast
  then obtain fs where fs: "bsi_MarshalBinary B s = Some fs" "encode_frames fs = Inr (h_payload h)" by auto
  obtain s' where s': "bsi_UnmarshalBinary B fs = Some s'" "bsi_GetValue B s' = bsi_GetValue B s"
    using bsi_lawsD(5) [OF assms(1) fs(1)] by blast
  have "DecodeRangeSectionEntry B (section_bytes e) name = Inr (Some (entry_of h s'))"
    using h s'(1) decode_encode_frames [OF fs(2), of 0 "h_payload h"]
    by (simp add: DecodeRangeSectionEntry_def decodeRangeSectionEntryPayload_def
        decodeBase2RangeSectionEntryPayload_def decodeRangeSectionFrames_def)
  with h(2) s'(2) find_column_encoded(1) [OF assms(2,4)] show ?thesis
    by (auto simp: entry_of_def DecodeRangeSectionEntry_def DecodeRangeSectionEntryMeta_def
        ComparePackedRangeSectionEntry_def)
qed

theorem range_base2_roundtrip_witness:
  "\<exists>e entry. DecodeRangeSectionEntry (map_bsi (8, [3 \<mapsto> 9])) (section_bytes e) [97] = Inr (Some entry) \<and>
    r_MinValue entry = 10 \<and> r_MaxValue entry = 99 \<and> r_ValueKind entry = 0 \<and>
    unat (r_BitCount entry) = bsi_BitCount (map_bsi (8, [3 \<mapsto> 9])) (8, [3 \<mapsto> 9]) \<and>
    bsi_GetValue (map_bsi (8, [3 \<mapsto> 9])) (r_BSI entry) = bsi_GetValue (map_bsi (8, [3 \<mapsto> 9])) (8, [3 \<mapsto> 9]) \<and>
    DecodeRangeSectionEntry (map_bsi (8, [3 \<mapsto> 9])) (section_bytes e) [98] = Inr None \<and>
    DecodeRangeSectionEntryMeta (section_bytes e) [98] = Inr None \<and>
    ComparePackedRangeSectionEntry set_roaring (section_bytes e) [98] BSI_LT 5 = Inr None"
proof -
  let ?B = "map_bsi (8, [3 \<mapsto> 9])" and ?c = "Base2Column [97] 0 10 99 (8, [3 \<mapsto> 9 :: u64])"
  have "\<exists>e'. AddColumn ?B (NewRangeSectionEncoder 0) [97] 0 10 99 (Some (8, [3 \<mapsto> 9])) = Inr e'"
    by (simp add: AddColumn_def map_bsi_def fitsUint32_def addEntry_def NewRangeSectionEncoder_def Let_def)
  then obtain e where e: "encoder_of ?B e [?c]"
    using encoder_of.encoder_base2 [OF encoder_of.encoder_new] by fastforce
  have "find (\<lambda>c. col_name c = [97]) [?c] = Some ?c" "find (\<lambda>c. col_name c = [98]) [?c] = None"
    by simp_all
  from range_base2_roundtrip [OF map_bsi_laws e this] show ?thesis by blast
qed


text \<open>
  The checksum catches every single-byte corruption: if one byte of a well-formed entry
  other than the bytes of its two length fields is replaced by a different one,
  \<open>decodeRangeSectionEntryHeader\<close> rejects the entry as corrupt.
\<close>

theorem range_corruption_detected:
  assumes "header_ok h" and "pos \<le> length s" and "drop pos s = entry_bytes h @ rest"
    and "checked_byte h k" and "b \<noteq> s ! (pos + k)"
  shows "decodeRangeSectionEntryHeader (s[pos + k := b]) pos = Inl ErrRangeSectionCorrupt"
  using assms by (rule decode_entry_corrupted)

theorem range_corruption_detected_witness:
  "decodeRangeSectionEntryHeader
     ((entry_bytes \<lparr>h_name = [97], h_layout = 2, h_bitCount = 0, h_minValue = 5, h_maxValue = 5,
        h_valueKind = 0, h_payload = replicate 12 0\<rparr>)[0 + 4 := 9]) 0 = Inl ErrRangeSectionCorrupt"
  by (rule range_corruption_detected [where rest = "[]" and
        h = "\<lparr>h_name = [97], h_layout = 2, h_bitCount = 0, h_minValue = 5, h_maxValue = 5,
               h_valueKind = 0, h_payload = replicate 12 0\<rparr>"])
     (simp_all add: header_ok_def range_layouts checked_byte_def entry_bytes_def entry_body_def
      nth_append nth_Cons')

end
