(* ===== verification/Memory_Governor.thy ===== *)
theory Memory_Governor
  imports Prelude
begin

text \<open>
  \<^verbatim>\<open>src/pkg/memgov/classes.go\<close>, \<^verbatim>\<open>pressure.go\<close> and \<^verbatim>\<open>governor.go\<close>: the process-wide memory
  governor. Its state is the record \<open>governor\<close>; every method is a function on it. \<open>Reserve\<close>
  releases its lock while the pressure callbacks run, so callbacks and other goroutines may
  change the governor in between: the parameter \<open>run\<close> gives for a callback, the bytes still
  wanted and the governor state the bytes it reports as freed and the state afterwards. The clock
  is the parameter \<open>now\<close>, in minutes. Amounts are int64 values with wrap-around.
\<close>

subsection \<open>Classes\<close>

datatype MemoryClass =
    ClassNonRevocable
  | ClassRevocable
  | ClassSpillable
  | ClassPageCache
  | ClassMetadata
  | ClassTempIO

fun MemoryClass_String :: "MemoryClass \<Rightarrow> string" where
  "MemoryClass_String ClassNonRevocable = ''non-revocable''"
| "MemoryClass_String ClassRevocable = ''revocable''"
| "MemoryClass_String ClassSpillable = ''spillable''"
| "MemoryClass_String ClassPageCache = ''page-cache''"
| "MemoryClass_String ClassMetadata = ''metadata''"
| "MemoryClass_String ClassTempIO = ''temp-io''"

definition all_classes :: "MemoryClass list" where
  "all_classes = [ClassNonRevocable, ClassRevocable, ClassSpillable, ClassPageCache, ClassMetadata,
     ClassTempIO]"

lemma set_all_classes [simp]: "set all_classes = UNIV"
proof -
  have "c \<in> set all_classes" for c by (cases c) (simp_all add: all_classes_def)
  then show ?thesis by auto
qed

record ClassStats =
  cs_Allocated :: int
  cs_Peak :: int
  cs_Peak60s :: int
  cs_Peak24h :: int
  cs_Limit :: int

record TotalStats =
  ts_Allocated :: int
  ts_Peak :: int
  ts_Limit :: int
  ts_ReserveEvents :: int
  ts_ReleaseEvents :: int
  ts_PressureEvents :: int
  ts_ByClass :: "MemoryClass \<Rightarrow> ClassStats"

subsection \<open>Rolling peaks\<close>

record peakBucket =
  pb_minute :: int
  pb_peak :: int

type_synonym rollingPeakWindow = "int \<Rightarrow> peakBucket"

definition window_buckets :: int where "window_buckets = 24 * 60"

definition empty_window :: rollingPeakWindow where
  "empty_window = (\<lambda>_. \<lparr>pb_minute = 0, pb_peak = 0\<rparr>)"

text \<open>Go's remainder of a negative minute is negative or zero, hence the correction.\<close>

definition go_rem :: "int \<Rightarrow> int \<Rightarrow> int" where
  "go_rem a b = sgn a * (\<bar>a\<bar> mod b)"

definition record_peak :: "rollingPeakWindow \<Rightarrow> int \<Rightarrow> int \<Rightarrow> rollingPeakWindow" where
  "record_peak w minute v =
     (let r = go_rem minute window_buckets;
          idx = (if r < 0 then r + window_buckets else r);
          b = w idx in
      if pb_minute b \<noteq> minute then w(idx := \<lparr>pb_minute = minute, pb_peak = v\<rparr>)
      else if v > pb_peak b then w(idx := b\<lparr>pb_peak := v\<rparr>)
      else w)"

definition maxSince :: "rollingPeakWindow \<Rightarrow> int \<Rightarrow> int \<Rightarrow> int" where
  "maxSince w nowMinute windowMinutes =
     (let cutoff = nowMinute - windowMinutes + 1 in
      foldl (\<lambda>mx i. let b = w i in
               if pb_minute b < cutoff \<or> pb_minute b > nowMinute then mx
               else if pb_peak b > mx then pb_peak b else mx)
        0 [0..window_buckets - 1])"

subsection \<open>Pressure registry\<close>

type_synonym 'cb pressureRegistry = "MemoryClass \<Rightarrow> 'cb list"

definition revocationOrder :: "MemoryClass list" where
  "revocationOrder =
     [ClassRevocable, ClassPageCache, ClassSpillable, ClassMetadata, ClassTempIO]"

definition newPressureRegistry :: "'cb pressureRegistry" where
  "newPressureRegistry = (\<lambda>_. [])"

definition register_callback :: "'cb pressureRegistry \<Rightarrow> MemoryClass \<Rightarrow> 'cb \<Rightarrow> 'cb pressureRegistry" where
  "register_callback pr class cb = pr(class := pr class @ [cb])"

text \<open>
  The inner loop runs the callbacks of one class while bytes are still wanted; \<open>'s\<close> is the
  state the callbacks act on.
\<close>

fun invoke_class ::
  "('cb \<Rightarrow> int \<Rightarrow> 's \<Rightarrow> int \<times> 's) \<Rightarrow> 'cb list \<Rightarrow> int \<Rightarrow> int \<Rightarrow> 's \<Rightarrow> int \<times> int \<times> 's"
where
  "invoke_class run [] totalFreed remaining s = (totalFreed, remaining, s)"
| "invoke_class run (cb # cbs) totalFreed remaining s =
     (if remaining \<le> 0 then (totalFreed, remaining, s)
      else (case run cb remaining s of
              (freed, s') \<Rightarrow>
                if freed > 0
                then invoke_class run cbs (i64 (totalFreed + freed)) (i64 (remaining - freed)) s'
                else invoke_class run cbs totalFreed remaining s'))"

fun invoke_snapshot ::
  "('cb \<Rightarrow> int \<Rightarrow> 's \<Rightarrow> int \<times> 's) \<Rightarrow> 'cb list list \<Rightarrow> int \<Rightarrow> int \<Rightarrow> 's \<Rightarrow> int \<times> 's"
where
  "invoke_snapshot run [] totalFreed remaining s = (totalFreed, s)"
| "invoke_snapshot run (cbs # rest) totalFreed remaining s =
     (if remaining \<le> 0 then (totalFreed, s)
      else (case invoke_class run cbs totalFreed remaining s of
              (totalFreed', remaining', s') \<Rightarrow> invoke_snapshot run rest totalFreed' remaining' s'))"

definition pressure_invoke ::
  "('cb \<Rightarrow> int \<Rightarrow> 's \<Rightarrow> int \<times> 's) \<Rightarrow> 'cb pressureRegistry \<Rightarrow> int \<Rightarrow> 's \<Rightarrow> int \<times> 's"
where
  "pressure_invoke run pr target s =
     (let snapshot = filter (\<lambda>cbs. cbs \<noteq> []) (map pr revocationOrder)
      in invoke_snapshot run snapshot 0 target s)"

subsection \<open>The governor\<close>

datatype gov_error = ErrMemoryPressure | ErrClosed | ErrQueryBudgetExceeded

record 'cb governor =
  g_limit :: int
  g_allocated :: "MemoryClass \<Rightarrow> int"
  g_peak :: "MemoryClass \<Rightarrow> int"
  g_limits :: "MemoryClass \<Rightarrow> int"
  g_totalAllocated :: int
  g_totalPeak :: int
  g_pressure :: "'cb pressureRegistry"
  g_classPeakHistory :: "MemoryClass \<Rightarrow> rollingPeakWindow"
  g_totalPeakHistory :: rollingPeakWindow
  g_reserveCount :: int
  g_releaseCount :: int
  g_pressureCount :: int

record GovernorConfig =
  TotalLimit :: int
  ClassLimits :: "MemoryClass \<Rightarrow> int"

definition NewGovernor :: "GovernorConfig \<Rightarrow> 'cb governor" where
  "NewGovernor cfg =
     \<lparr>g_limit = TotalLimit cfg, g_allocated = (\<lambda>_. 0), g_peak = (\<lambda>_. 0), g_limits = ClassLimits cfg,
      g_totalAllocated = 0, g_totalPeak = 0, g_pressure = newPressureRegistry,
      g_classPeakHistory = (\<lambda>_. empty_window), g_totalPeakHistory = empty_window,
      g_reserveCount = 0, g_releaseCount = 0, g_pressureCount = 0\<rparr>"

definition recordRollingPeakLocked :: "int \<Rightarrow> MemoryClass \<Rightarrow> 'cb governor \<Rightarrow> 'cb governor" where
  "recordRollingPeakLocked now class g =
     g\<lparr>g_classPeakHistory := (g_classPeakHistory g)(class :=
         record_peak (g_classPeakHistory g class) now (g_allocated g class)),
       g_totalPeakHistory := record_peak (g_totalPeakHistory g) now (g_totalAllocated g)\<rparr>"

text \<open>The admission block that \<open>Reserve\<close> and \<open>TryReserve\<close> both end with.\<close>

definition admit :: "int \<Rightarrow> MemoryClass \<Rightarrow> int \<Rightarrow> 'cb governor \<Rightarrow> 'cb governor" where
  "admit now class n g =
     (let a = i64 (g_allocated g class + n);
          g = g\<lparr>g_allocated := (g_allocated g)(class := a)\<rparr>;
          g = (if a > g_peak g class then g\<lparr>g_peak := (g_peak g)(class := a)\<rparr> else g);
          t = i64 (g_totalAllocated g + n);
          g = g\<lparr>g_totalAllocated := t\<rparr>;
          g = (if t > g_totalPeak g then g\<lparr>g_totalPeak := t\<rparr> else g)
      in recordRollingPeakLocked now class g)"

definition over_class_limit :: "MemoryClass \<Rightarrow> int \<Rightarrow> 'cb governor \<Rightarrow> bool" where
  "over_class_limit class n g \<longleftrightarrow>
     g_limits g class > 0 \<and> i64 (g_allocated g class + n) > g_limits g class"

definition over_total_limit :: "int \<Rightarrow> 'cb governor \<Rightarrow> bool" where
  "over_total_limit n g \<longleftrightarrow> g_limit g > 0 \<and> i64 (g_totalAllocated g + n) > g_limit g"

definition Reserve ::
  "('cb \<Rightarrow> int \<Rightarrow> 'cb governor \<Rightarrow> int \<times> 'cb governor) \<Rightarrow> int \<Rightarrow> MemoryClass \<Rightarrow> int \<Rightarrow> 'cb governor
     \<Rightarrow> 'cb governor \<times> gov_error option"
where
  "Reserve run now class n g =
     (if n \<le> 0 then (g, None)
      else let g = g\<lparr>g_reserveCount := i64 (g_reserveCount g + 1)\<rparr> in
        if over_class_limit class n g then (g, Some ErrMemoryPressure)
        else if over_total_limit n g then
          let deficit = i64 (g_totalAllocated g + n - g_limit g);
              g = g\<lparr>g_pressureCount := i64 (g_pressureCount g + 1)\<rparr> in
          (case pressure_invoke run (g_pressure g) deficit g of
             (freed, g) \<Rightarrow>
               if over_total_limit n g then (g, Some ErrMemoryPressure)
               else (admit now class n g, None))
        else (admit now class n g, None))"

definition TryReserve :: "int \<Rightarrow> MemoryClass \<Rightarrow> int \<Rightarrow> 'cb governor \<Rightarrow> 'cb governor \<times> bool" where
  "TryReserve now class n g =
     (if n \<le> 0 then (g, True)
      else if over_class_limit class n g then (g, False)
      else if over_total_limit n g then (g, False)
      else (admit now class n g, True))"

definition Release :: "MemoryClass \<Rightarrow> int \<Rightarrow> 'cb governor \<Rightarrow> 'cb governor" where
  "Release class n g =
     (if n \<le> 0 then g
      else let a = i64 (g_allocated g class - n); t = i64 (g_totalAllocated g - n) in
        g\<lparr>g_releaseCount := i64 (g_releaseCount g + 1),
          g_allocated := (g_allocated g)(class := if a < 0 then 0 else a),
          g_totalAllocated := if t < 0 then 0 else t\<rparr>)"

definition ClassUsage :: "int \<Rightarrow> MemoryClass \<Rightarrow> 'cb governor \<Rightarrow> ClassStats" where
  "ClassUsage now class g =
     \<lparr>cs_Allocated = g_allocated g class, cs_Peak = g_peak g class,
      cs_Peak60s = maxSince (g_classPeakHistory g class) now 1,
      cs_Peak24h = maxSince (g_classPeakHistory g class) now (24 * 60),
      cs_Limit = g_limits g class\<rparr>"

definition TotalUsage :: "int \<Rightarrow> 'cb governor \<Rightarrow> TotalStats" where
  "TotalUsage now g =
     \<lparr>ts_Allocated = g_totalAllocated g, ts_Peak = g_totalPeak g, ts_Limit = g_limit g,
      ts_ReserveEvents = g_reserveCount g, ts_ReleaseEvents = g_releaseCount g,
      ts_PressureEvents = g_pressureCount g, ts_ByClass = (\<lambda>c. ClassUsage now c g)\<rparr>"

definition OnPressure :: "MemoryClass \<Rightarrow> 'cb \<Rightarrow> 'cb governor \<Rightarrow> 'cb governor" where
  "OnPressure class cb g = g\<lparr>g_pressure := register_callback (g_pressure g) class cb\<rparr>"

subsection \<open>The accounting invariant\<close>

definition class_sum :: "(MemoryClass \<Rightarrow> int) \<Rightarrow> int" where
  "class_sum f = sum_list (map f all_classes)"

lemma class_sum_update: "class_sum (f(c := v)) = class_sum f - f c + v"
  by (cases c) (simp_all add: class_sum_def all_classes_def)

lemma class_sum_member: "(\<And>c. 0 \<le> f c) \<Longrightarrow> f c \<le> class_sum f"
  unfolding class_sum_def by (rule member_le_sum_list) auto

lemma class_sum_const_0 [simp]: "class_sum (\<lambda>_. 0) = 0"
  by (simp add: class_sum_def all_classes_def)

text \<open>
  Every class is accounted for exactly, the total is the sum of the classes, peaks are at least
  the current values, and no configured limit is exceeded.
\<close>

definition gov_inv :: "'cb governor \<Rightarrow> bool" where
  "gov_inv g \<longleftrightarrow>
     (\<forall>c. 0 \<le> g_allocated g c \<and> g_allocated g c \<le> g_peak g c) \<and>
     g_totalAllocated g = class_sum (g_allocated g) \<and>
     g_totalAllocated g \<le> g_totalPeak g \<and> g_totalAllocated g < 2 ^ 63 \<and>
     (\<forall>c. g_limits g c > 0 \<longrightarrow> g_allocated g c \<le> g_limits g c) \<and>
     (g_limit g > 0 \<longrightarrow> g_totalAllocated g \<le> g_limit g)"

lemma gov_inv_allocated_le: "gov_inv g \<Longrightarrow> g_allocated g c \<le> g_totalAllocated g"
  using class_sum_member [of "g_allocated g" c] by (simp add: gov_inv_def)

lemma gov_inv_nonneg: "gov_inv g \<Longrightarrow> 0 \<le> g_allocated g c"
  by (simp add: gov_inv_def)

lemma admit_simps [simp]:
  "g_allocated (admit now c n g) = (g_allocated g)(c := i64 (g_allocated g c + n))"
  "g_totalAllocated (admit now c n g) = i64 (g_totalAllocated g + n)"
  "g_peak (admit now c n g) = (g_peak g)(c := max (g_peak g c) (i64 (g_allocated g c + n)))"
  "g_totalPeak (admit now c n g) = max (g_totalPeak g) (i64 (g_totalAllocated g + n))"
  "g_limits (admit now c n g) = g_limits g" "g_limit (admit now c n g) = g_limit g"
  "g_pressure (admit now c n g) = g_pressure g"
  by (auto simp: admit_def Let_def recordRollingPeakLocked_def)

lemma admit_inv:
  assumes inv: "gov_inv g" and n: "0 < n" "g_totalAllocated g + n < 2 ^ 63"
    and lim: "\<not> over_class_limit c n g" "\<not> over_total_limit n g"
  shows "gov_inv (admit now c n g)"
proof -
  have a: "0 \<le> g_allocated g c" "g_allocated g c \<le> g_totalAllocated g"
    using inv gov_inv_allocated_le [OF inv] by (simp_all add: gov_inv_def)
  have w: "i64 (g_allocated g c + n) = g_allocated g c + n"
    "i64 (g_totalAllocated g + n) = g_totalAllocated g + n"
    using a n by (auto intro!: i64_id)
  show ?thesis
    using inv n lim a w
    by (auto simp: gov_inv_def class_sum_update over_class_limit_def over_total_limit_def)
qed

lemma gov_inv_counts [simp]:
  "gov_inv (g\<lparr>g_reserveCount := x\<rparr>) = gov_inv g" "gov_inv (g\<lparr>g_pressureCount := x\<rparr>) = gov_inv g"
  "gov_inv (g\<lparr>g_releaseCount := x\<rparr>) = gov_inv g"
  by (simp_all add: gov_inv_def)

lemma over_limit_counts [simp]:
  "over_class_limit c n (g\<lparr>g_reserveCount := x\<rparr>) = over_class_limit c n g"
  "over_total_limit n (g\<lparr>g_reserveCount := x\<rparr>) = over_total_limit n g"
  "over_class_limit c n (g\<lparr>g_pressureCount := x\<rparr>) = over_class_limit c n g"
  "over_total_limit n (g\<lparr>g_pressureCount := x\<rparr>) = over_total_limit n g"
  by (simp_all add: over_class_limit_def over_total_limit_def)

lemma Release_simps:
  assumes "gov_inv g" and "0 < n" and "n \<le> g_allocated g c"
  shows "g_allocated (Release c n g) = (g_allocated g)(c := g_allocated g c - n)"
    and "g_totalAllocated (Release c n g) = g_totalAllocated g - n"
    and "g_limits (Release c n g) = g_limits g" "g_limit (Release c n g) = g_limit g"
    and "g_peak (Release c n g) = g_peak g" "g_totalPeak (Release c n g) = g_totalPeak g"
    and "g_pressure (Release c n g) = g_pressure g"
proof -
  have le: "g_allocated g c \<le> g_totalAllocated g" "g_totalAllocated g < 2 ^ 63"
    using gov_inv_allocated_le [OF assms(1)] assms(1) by (simp_all add: gov_inv_def)
  then have "i64 (g_allocated g c - n) = g_allocated g c - n"
    "i64 (g_totalAllocated g - n) = g_totalAllocated g - n"
    using assms by (auto intro!: i64_id)
  with assms le show "g_allocated (Release c n g) = (g_allocated g)(c := g_allocated g c - n)"
    and "g_totalAllocated (Release c n g) = g_totalAllocated g - n"
    and "g_limits (Release c n g) = g_limits g" "g_limit (Release c n g) = g_limit g"
    and "g_peak (Release c n g) = g_peak g" "g_totalPeak (Release c n g) = g_totalPeak g"
    and "g_pressure (Release c n g) = g_pressure g"
    by (simp_all add: Release_def Let_def)
qed

lemma Release_inv:
  assumes "gov_inv g" and "n \<le> g_allocated g c"
  shows "gov_inv (Release c n g)"
proof (cases "0 < n")
  case True
  have "g_allocated g c - n \<le> g_peak g c" "\<And>c. g_limits g c > 0 \<longrightarrow> g_allocated g c \<le> g_limits g c"
    using assms(1) True by (auto simp: gov_inv_def intro: order_trans [of _ "g_allocated g c"])
  with assms True show ?thesis
    by (auto simp: gov_inv_def Release_simps class_sum_update intro: order_trans [of _ "g_allocated g c"]
        order_trans [of _ "g_totalAllocated g"] simp del: fun_upd_apply)
       (auto intro: order_trans [of _ "g_allocated g c"])
next
  case False
  with assms(1) show ?thesis by (simp add: Release_def)
qed

lemma TryReserve_inv:
  "gov_inv g \<Longrightarrow> g_totalAllocated g + n < 2 ^ 63 \<Longrightarrow> gov_inv (fst (TryReserve now c n g))"
  by (simp add: TryReserve_def admit_inv)

subsection \<open>Reachable governors\<close>

text \<open>
  Callbacks that give memory back: what happens while the lock is open is a sequence of releases
  of bytes that are allocated.
\<close>

inductive gov_releases :: "'cb governor \<Rightarrow> 'cb governor \<Rightarrow> bool" where
  releases_refl: "gov_releases g g"
| releases_step: "gov_releases g g' \<Longrightarrow> n \<le> g_allocated g' c \<Longrightarrow> gov_releases g (Release c n g')"

definition releasing :: "('cb \<Rightarrow> int \<Rightarrow> 'cb governor \<Rightarrow> int \<times> 'cb governor) \<Rightarrow> bool" where
  "releasing run \<longleftrightarrow> (\<forall>cb t g. gov_releases g (snd (run cb t g)))"

lemma gov_releases_trans:
  assumes "gov_releases g' g''" and "gov_releases g g'" shows "gov_releases g g''"
  using assms by (induction rule: gov_releases.induct) (auto intro: gov_releases.intros)

lemma gov_releases_inv:
  assumes "gov_releases g g'" and "gov_inv g"
  shows "gov_inv g' \<and> (\<forall>c. g_allocated g' c \<le> g_allocated g c) \<and>
    g_totalAllocated g' \<le> g_totalAllocated g \<and> g_limits g' = g_limits g \<and> g_limit g' = g_limit g"
  using assms
proof (induction rule: gov_releases.induct)
  case (releases_step g g' n c)
  then have inv: "gov_inv g'" by simp
  show ?case
  proof (cases "0 < n")
    case True
    note S = Release_simps [OF inv True releases_step.hyps(2)]
    have "g_allocated (Release c n g') d \<le> g_allocated g' d" for d using True by (simp add: S)
    with releases_step.IH [OF releases_step.prems] True show ?thesis
      using Release_inv [OF inv releases_step.hyps(2)]
      by (simp add: S(2-4) del: fun_upd_apply) (blast intro: order_trans)
  next
    case False
    with releases_step show ?thesis by (simp add: Release_def)
  qed
qed simp

lemma invoke_releases:
  assumes "releasing run"
  shows "gov_releases g (snd (snd (invoke_class run cbs tf rem g)))"
    and "gov_releases g (snd (invoke_snapshot run snap tf rem g))"
proof -
  have run: "gov_releases g (snd (run cb t g))" for cb t g
    using assms by (simp add: releasing_def)
  have inner: "gov_releases g (snd (snd (invoke_class run cbs tf rem g)))" for cbs tf rem g
  proof (induction cbs arbitrary: tf rem g)
    case (Cons cb cbs)
    have "gov_releases g (snd (run cb rem g))" by (rule run)
    with Cons show ?case
      by (auto simp: case_prod_beta intro: gov_releases_trans gov_releases.releases_refl)
  qed (simp add: gov_releases.releases_refl)
  then show "gov_releases g (snd (snd (invoke_class run cbs tf rem g)))" .
  show "gov_releases g (snd (invoke_snapshot run snap tf rem g))"
  proof (induction snap arbitrary: tf rem g)
    case (Cons cbs snap)
    let ?i = "invoke_class run cbs tf rem g"
    from gov_releases_trans [OF Cons.IH [of "snd (snd ?i)" "fst ?i" "fst (snd ?i)"] inner]
    show ?case by (simp add: case_prod_beta gov_releases.releases_refl)
  qed (simp add: gov_releases.releases_refl)
qed

lemma Reserve_inv:
  assumes run: "releasing run" and inv: "gov_inv g" and fits: "g_totalAllocated g + n < 2 ^ 63"
  shows "gov_inv (fst (Reserve run now c n g))"
proof (cases "0 < n")
  case True
  define g1 where "g1 = g\<lparr>g_reserveCount := i64 (g_reserveCount g + 1)\<rparr>"
  define g2 where "g2 = g1\<lparr>g_pressureCount := i64 (g_pressureCount g1 + 1)\<rparr>"
  define d where "d = i64 (g_totalAllocated g1 + n - g_limit g1)"
  obtain f g3 where g3: "pressure_invoke run (g_pressure g2) d g2 = (f, g3)" by force
  have inv2: "gov_inv g2" using inv by (simp add: g2_def g1_def)
  have rel: "gov_releases g2 g3"
    using invoke_releases(2) [OF run, of g2 "filter (\<lambda>cbs. cbs \<noteq> []) (map (g_pressure g2) revocationOrder)" 0 d]
      g3 by (simp add: pressure_invoke_def)
  note R = gov_releases_inv [OF rel inv2]
  have eq: "g_totalAllocated g2 = g_totalAllocated g" "g_allocated g2 = g_allocated g"
    "g_limits g2 = g_limits g" by (simp_all add: g2_def g1_def)
  have "g_totalAllocated g3 + n < 2 ^ 63" using R fits eq by simp
  moreover have "\<not> over_class_limit c n g3" if "\<not> over_class_limit c n g"
  proof -
    have "0 \<le> g_allocated g3 c" "g_allocated g c + n < 2 ^ 63" "0 \<le> g_allocated g c"
      using R inv fits gov_inv_allocated_le [OF inv, of c] by (auto simp: gov_inv_def)
    then have "i64 (g_allocated g3 c + n) \<le> i64 (g_allocated g c + n)"
      using R eq True i64_id [of "g_allocated g3 c + n"] i64_id [of "g_allocated g c + n"]
      by (simp add: le_less_trans [of _ "g_allocated g c + n"])
    with that R eq show ?thesis by (auto simp: over_class_limit_def)
  qed
  ultimately have "gov_inv (admit now c n g3)" if "\<not> over_class_limit c n g" "\<not> over_total_limit n g3"
    using that R True by (intro admit_inv) simp_all
  moreover have "gov_inv (admit now c n g1)" if "\<not> over_class_limit c n g" "\<not> over_total_limit n g"
    using that inv fits True unfolding g1_def by (intro admit_inv) simp_all
  ultimately show ?thesis
    using True inv R g3
    by (auto simp: Reserve_def Let_def g1_def [symmetric] g2_def [symmetric] d_def [symmetric])
       (auto simp: g1_def)
next
  case False
  with inv show ?thesis by (simp add: Reserve_def)
qed

text \<open>
  The governors a process can reach: any interleaving of reservations, whose callbacks release
  memory, and releases of allocated bytes; sums stay below the int64 range.
\<close>

inductive gov_reachable :: "GovernorConfig \<Rightarrow> 'cb governor \<Rightarrow> bool" for cfg where
  gov_new: "gov_reachable cfg (NewGovernor cfg)"
| gov_try: "gov_reachable cfg g \<Longrightarrow> g_totalAllocated g + n < 2 ^ 63 \<Longrightarrow>
    gov_reachable cfg (fst (TryReserve now c n g))"
| gov_reserve: "gov_reachable cfg g \<Longrightarrow> g_totalAllocated g + n < 2 ^ 63 \<Longrightarrow> releasing run \<Longrightarrow>
    gov_reachable cfg (fst (Reserve run now c n g))"
| gov_release: "gov_reachable cfg g \<Longrightarrow> n \<le> g_allocated g c \<Longrightarrow> gov_reachable cfg (Release c n g)"
| gov_pressure: "gov_reachable cfg g \<Longrightarrow> gov_reachable cfg (OnPressure c cb g)"

inductive_cases gov_reachableE: "gov_reachable cfg g"

lemma gov_reachable_inv:
  "gov_reachable cfg g \<Longrightarrow> gov_inv g"
proof (induction rule: gov_reachable.induct)
  case gov_new
  show ?case by (simp add: gov_inv_def NewGovernor_def)
next
  case (gov_pressure g c cb)
  then show ?case by (auto simp: gov_inv_def OnPressure_def)
qed (simp_all add: TryReserve_inv Reserve_inv Release_inv)

lemma Reserve_limits:
  assumes run: "releasing run" and inv: "gov_inv g"
  shows "g_limit (fst (Reserve run now c n g)) = g_limit g"
    and "g_limits (fst (Reserve run now c n g)) = g_limits g"
proof -
  define g2 where "g2 = g\<lparr>g_reserveCount := i64 (g_reserveCount g + 1),
    g_pressureCount := i64 (g_pressureCount g + 1)\<rparr>"
  have "gov_inv g2" using inv by (simp add: g2_def)
  then have "g_limit (snd (pressure_invoke run pr d g2)) = g_limit g"
    "g_limits (snd (pressure_invoke run pr d g2)) = g_limits g" for pr d
    using gov_releases_inv [OF invoke_releases(2) [OF run, of g2]]
    by (simp_all add: pressure_invoke_def) (simp_all add: g2_def)
  then show "g_limit (fst (Reserve run now c n g)) = g_limit g"
    and "g_limits (fst (Reserve run now c n g)) = g_limits g"
    by (simp_all add: Reserve_def Let_def case_prod_beta g2_def)
qed

lemma Release_limits [simp]:
  "g_limit (Release c n g) = g_limit g" "g_limits (Release c n g) = g_limits g"
  by (simp_all add: Release_def Let_def)

lemma gov_reachable_limits:
  "gov_reachable cfg g \<Longrightarrow> g_limit g = TotalLimit cfg \<and> g_limits g = ClassLimits cfg"
proof (induction rule: gov_reachable.induct)
  case (gov_reserve g n run now c)
  then show ?case by (simp add: Reserve_limits gov_reachable_inv)
qed (simp_all add: NewGovernor_def TryReserve_def OnPressure_def)

subsection \<open>Order of the callbacks\<close>

text \<open>The callbacks, logging their own calls.\<close>

definition logged :: "('cb \<Rightarrow> int \<Rightarrow> 's \<Rightarrow> int \<times> 's) \<Rightarrow> 'cb \<Rightarrow> int \<Rightarrow> 's \<times> 'cb list \<Rightarrow> int \<times> 's \<times> 'cb list" where
  "logged run cb t = (\<lambda>(s, log). case run cb t s of (freed, s') \<Rightarrow> (freed, s', log @ [cb]))"

text \<open>The documented contract of a callback: it frees at most what it is asked for.\<close>

definition frees_at_most :: "('cb \<Rightarrow> int \<Rightarrow> 's \<Rightarrow> int \<times> 's) \<Rightarrow> bool" where
  "frees_at_most run \<longleftrightarrow> (\<forall>cb t s. 0 < t \<longrightarrow> fst (run cb t s) \<le> t)"

lemma i64_progress:
  assumes "0 \<le> tf" "0 < rem" "tf + rem < 2 ^ 63" "0 < f" "f \<le> rem"
  shows "i64 (tf + f) = tf + f" "i64 (rem - f) = rem - f"
  using assms by (auto intro!: i64_id)

lemma invoke_class_log:
  assumes run: "frees_at_most run" and "0 \<le> tf" "0 \<le> rem" "tf + rem < 2 ^ 63"
  shows "\<exists>k tf' rem' s'. invoke_class (logged run) cbs tf rem (s, log) = (tf', rem', s', log @ take k cbs) \<and>
    tf \<le> tf' \<and> 0 \<le> rem' \<and> tf' + rem' = tf + rem \<and> k \<le> length cbs \<and> (k < length cbs \<longrightarrow> rem' = 0)"
  using assms(2-4)
proof (induction cbs arbitrary: tf rem s log)
  case Nil
  then show ?case by simp
next
  case (Cons cb cbs)
  show ?case
  proof (cases "rem = 0")
    case True
    with Cons.prems show ?thesis by - (rule exI [of _ "0 :: nat"], simp)
  next
    case False
    obtain f s1 where f: "run cb rem s = (f, s1)" by force
    have le: "f \<le> rem" using run Cons.prems(2) False f by (metis fst_conv frees_at_most_def order_le_less)
    define tf1 rem1 where "tf1 = (if 0 < f then tf + f else tf)" and "rem1 = (if 0 < f then rem - f else rem)"
    have step: "invoke_class (logged run) (cb # cbs) tf rem (s, log) =
        invoke_class (logged run) cbs tf1 rem1 (s1, log @ [cb])"
      using False Cons.prems le f i64_progress [of tf rem f]
      by (simp add: logged_def tf1_def rem1_def)
    have t1: "tf \<le> tf1" "0 \<le> rem1" "tf1 + rem1 = tf + rem" using Cons.prems le by (auto simp: tf1_def rem1_def)
    with Cons.IH [of tf1 rem1 s1 "log @ [cb]"] Cons.prems(3) obtain k tf' rem' s' where
      "invoke_class (logged run) cbs tf1 rem1 (s1, log @ [cb]) = (tf', rem', s', (log @ [cb]) @ take k cbs)"
      "tf1 \<le> tf'" "0 \<le> rem'" "tf' + rem' = tf + rem" "k \<le> length cbs" "k < length cbs \<longrightarrow> rem' = 0"
      using Cons.prems(1) by auto
    with step t1(1) show ?thesis by (intro exI [of _ "Suc k"]) simp
  qed
qed

lemma invoke_snapshot_log:
  assumes run: "frees_at_most run" and "0 \<le> tf" "0 \<le> rem" "tf + rem < 2 ^ 63"
  shows "\<exists>k tf' s'. invoke_snapshot (logged run) snap tf rem (s, log) = (tf', s', log @ take k (concat snap)) \<and>
    tf \<le> tf' \<and> tf' \<le> tf + rem \<and> k \<le> length (concat snap) \<and>
    (k < length (concat snap) \<longrightarrow> tf' = tf + rem)"
  using assms(2-4)
proof (induction snap arbitrary: tf rem s log)
  case Nil
  then show ?case by simp
next
  case (Cons cbs snap)
  show ?case
  proof (cases "rem = 0")
    case True
    with Cons.prems show ?thesis by - (rule exI [of _ "0 :: nat"], simp)
  next
    case False
    obtain k tf1 rem1 s1 where 1: "invoke_class (logged run) cbs tf rem (s, log) = (tf1, rem1, s1, log @ take k cbs)"
      and r1: "tf \<le> tf1" "0 \<le> rem1" "tf1 + rem1 = tf + rem" "k \<le> length cbs" "k < length cbs \<longrightarrow> rem1 = 0"
      using invoke_class_log [OF run Cons.prems, of cbs s log] by blast
    show ?thesis
    proof (cases "rem1 = 0")
      case True
      then have "invoke_snapshot (logged run) (cbs # snap) tf rem (s, log) = (tf1, s1, log @ take k cbs)"
        using 1 False Cons.prems by (cases snap) simp_all
      with True r1 Cons.prems show ?thesis by (intro exI [of _ k]) simp
    next
      case False': False
      then have k: "k = length cbs" using r1 by simp
      from Cons.IH [of tf1 rem1 s1 "log @ cbs"] r1 Cons.prems obtain j tf' s' where
        "invoke_snapshot (logged run) snap tf1 rem1 (s1, log @ cbs) = (tf', s', (log @ cbs) @ take j (concat snap))"
        "tf1 \<le> tf'" "tf' \<le> tf + rem" "j \<le> length (concat snap)"
        "j < length (concat snap) \<longrightarrow> tf' = tf + rem" by auto
      with 1 k False Cons.prems r1 show ?thesis by (intro exI [of _ "length cbs + j"]) simp
    qed
  qed
qed

subsection \<open>Rolling peaks are exact\<close>

definition window_of :: "(int \<times> int) list \<Rightarrow> rollingPeakWindow" where
  "window_of hist = foldl (\<lambda>w (m, v). record_peak w m v) empty_window hist"

text \<open>
  The buckets after a history of minutes and values: no newer entry of the same bucket is lost,
  the peak of a minute is kept, and nothing is invented.
\<close>

definition window_inv :: "(int \<times> int) list \<Rightarrow> rollingPeakWindow \<Rightarrow> bool" where
  "window_inv hist w \<longleftrightarrow>
     (\<forall>(m, v) \<in> set hist. m \<le> pb_minute (w (m mod 1440)) \<and>
        (m = pb_minute (w (m mod 1440)) \<longrightarrow> v \<le> pb_peak (w (m mod 1440)))) \<and>
     (\<forall>i. w i = \<lparr>pb_minute = 0, pb_peak = 0\<rparr> \<or>
        (pb_minute (w i), pb_peak (w i)) \<in> set hist \<and> pb_minute (w i) mod 1440 = i)"

lemma record_peak_nonneg:
  assumes "0 \<le> m"
  shows "record_peak w m v =
    (let b = w (m mod 1440) in
     if pb_minute b \<noteq> m then w(m mod 1440 := \<lparr>pb_minute = m, pb_peak = v\<rparr>)
     else if v > pb_peak b then w(m mod 1440 := b\<lparr>pb_peak := v\<rparr>) else w)"
proof -
  have "go_rem m window_buckets = m mod 1440"
    using assms by (auto simp: go_rem_def window_buckets_def sgn_if)
  moreover have "\<not> m mod 1440 < 0" by (simp add: not_less)
  ultimately show ?thesis by (simp add: record_peak_def Let_def)
qed

lemma window_inv_record:
  assumes inv: "window_inv hist w" and m: "0 \<le> m" "\<forall>(m', v') \<in> set hist. m' \<le> m" and v: "0 \<le> v"
  shows "window_inv (hist @ [(m, v)]) (record_peak w m v)"
proof -
  define b where "b = w (m mod 1440)"
  have b: "b = \<lparr>pb_minute = 0, pb_peak = 0\<rparr> \<or> (pb_minute b, pb_peak b) \<in> set hist \<and> pb_minute b mod 1440 = m mod 1440"
    using inv unfolding window_inv_def b_def by blast
  then have bm: "pb_minute b \<le> m" using m by auto
  have old: "m' \<le> pb_minute (w (m' mod 1440))"
    "m' = pb_minute (w (m' mod 1440)) \<longrightarrow> v' \<le> pb_peak (w (m' mod 1440))" if "(m', v') \<in> set hist" for m' v'
    using inv that unfolding window_inv_def by blast+
  have oldi: "w i = \<lparr>pb_minute = 0, pb_peak = 0\<rparr> \<or>
      (pb_minute (w i), pb_peak (w i)) \<in> set hist \<and> pb_minute (w i) mod 1440 = i" for i
    using inv unfolding window_inv_def by blast
  let ?w = "record_peak w m v"
  have w': "?w = (if pb_minute b \<noteq> m then w(m mod 1440 := \<lparr>pb_minute = m, pb_peak = v\<rparr>)
      else if v > pb_peak b then w(m mod 1440 := b\<lparr>pb_peak := v\<rparr>) else w)"
    using record_peak_nonneg [OF m(1)] by (simp add: b_def Let_def)
  have new: "pb_minute (?w (m mod 1440)) = m" "v \<le> pb_peak (?w (m mod 1440))"
    "pb_minute b = m \<Longrightarrow> pb_peak b \<le> pb_peak (?w (m mod 1440))"
    unfolding w' using b_def by auto
  have other: "i \<noteq> m mod 1440 \<Longrightarrow> ?w i = w i" for i unfolding w' by auto
  have 1: "m' \<le> pb_minute (?w (m' mod 1440)) \<and>
      (m' = pb_minute (?w (m' mod 1440)) \<longrightarrow> v' \<le> pb_peak (?w (m' mod 1440)))"
    if "(m', v') \<in> set (hist @ [(m, v)])" for m' v'
  proof (cases "m' mod 1440 = m mod 1440")
    case True
    show ?thesis
    proof (cases "(m', v') \<in> set hist")
      case h: True
      with m(2) have "m' \<le> m" by auto
      moreover have "v' \<le> pb_peak (?w (m mod 1440))" if "m' = m"
        using old [OF h] bm new(3) that b_def by (auto intro: order_trans)
      ultimately show ?thesis using new(1) True by auto
    next
      case False
      with that new show ?thesis by auto
    qed
  next
    case False
    with that old other show ?thesis by auto
  qed
  have 2: "?w i = \<lparr>pb_minute = 0, pb_peak = 0\<rparr> \<or>
      (pb_minute (?w i), pb_peak (?w i)) \<in> set (hist @ [(m, v)]) \<and> pb_minute (?w i) mod 1440 = i" for i
    using oldi [of i] v unfolding w' by (auto simp: b_def)
  show ?thesis using 1 2 unfolding window_inv_def by blast
qed

lemma window_of_inv:
  "sorted (map fst hist) \<Longrightarrow> \<forall>(m, v) \<in> set hist. 0 \<le> m \<and> 0 \<le> v \<Longrightarrow> window_inv hist (window_of hist)"
proof (induction hist rule: rev_induct)
  case Nil
  show ?case by (simp add: window_inv_def window_of_def empty_window_def)
next
  case (snoc x hist)
  obtain m v where x: "x = (m, v)" by force
  have "\<forall>(m', v') \<in> set hist. m' \<le> m" using snoc.prems(1) by (auto simp: x sorted_append)
  then have "window_inv (hist @ [(m, v)]) (record_peak (window_of hist) m v)"
    using snoc by (intro window_inv_record) (auto simp: x sorted_append)
  then show ?case by (simp add: window_of_def x)
qed

text \<open>The scan over the buckets is a maximum.\<close>

lemma foldl_max_bounds:
  fixes a :: int and p :: "'i \<Rightarrow> int"
  assumes f_def: "f = (\<lambda>mx i. if skip i then mx else if p i > mx then p i else mx)"
  shows "a \<le> foldl f a xs" and "i \<in> set xs \<Longrightarrow> \<not> skip i \<Longrightarrow> p i \<le> foldl f a xs"
    and "foldl f a xs = a \<or> (\<exists>i \<in> set xs. \<not> skip i \<and> foldl f a xs = p i)"
proof -
  have ge: "a \<le> foldl f a xs" for a xs
  proof (induction xs arbitrary: a)
    case (Cons x xs)
    have "a \<le> f a x" by (simp add: f_def)
    with Cons.IH [of "f a x"] show ?case by simp
  qed simp
  then show "a \<le> foldl f a xs" .
  show "p i \<le> foldl f a xs" if "i \<in> set xs" "\<not> skip i"
    using that
  proof (induction xs arbitrary: a)
    case (Cons x xs)
    have "p i \<le> foldl f (f a x) xs" if "i = x"
    proof -
      have "p i \<le> f a x" using Cons.prems(2) that by (auto simp: f_def)
      also have "\<dots> \<le> foldl f (f a x) xs" by (rule ge)
      finally show ?thesis .
    qed
    with Cons show ?case by auto
  qed simp
  show "foldl f a xs = a \<or> (\<exists>i \<in> set xs. \<not> skip i \<and> foldl f a xs = p i)"
    by (induction xs arbitrary: a) (auto simp: f_def split: if_splits)
qed

lemma maxSince_exact:
  assumes hist: "sorted (map fst hist)" "\<forall>(m, v) \<in> set hist. 0 \<le> m \<and> 0 \<le> v \<and> m \<le> now"
    and k: "1 \<le> k" "k \<le> 1440"
  shows "maxSince (window_of hist) now k = Max (insert 0 {v. \<exists>m. (m, v) \<in> set hist \<and> now - k < m})"
proof (rule Max_eqI [symmetric])
  define w where "w = window_of hist"
  define sk where "sk = (\<lambda>i. pb_minute (w i) < now - k + 1 \<or> pb_minute (w i) > now)"
  define f where "f = (\<lambda>mx i. if sk i then mx else if pb_peak (w i) > mx then pb_peak (w i) else mx)"
  have mx: "maxSince w now k = foldl f 0 [0..1439]"
    by (simp add: maxSince_def window_buckets_def f_def sk_def Let_def)
  note B = foldl_max_bounds [OF f_def, where a = 0 and xs = "[0..1439]"]
  have inv: "window_inv hist w" unfolding w_def by (rule window_of_inv [OF hist(1)]) (use hist(2) in auto)
  show "finite (insert 0 {v. \<exists>m. (m, v) \<in> set hist \<and> now - k < m})"
    by (rule finite_subset [of _ "insert 0 (snd ` set hist)"]) force+
  show "y \<le> maxSince (window_of hist) now k"
    if "y \<in> insert 0 {v. \<exists>m. (m, v) \<in> set hist \<and> now - k < m}" for y
  proof (cases "y = 0")
    case True
    with B(1) mx show ?thesis by (simp add: w_def)
  next
    case False
    with that obtain m where m: "(m, y) \<in> set hist" "now - k < m" by auto
    let ?i = "m mod 1440"
    have I: "m \<le> pb_minute (w ?i)" "m = pb_minute (w ?i) \<longrightarrow> y \<le> pb_peak (w ?i)"
      using inv m(1) unfolding window_inv_def by blast+
    have "w ?i = \<lparr>pb_minute = 0, pb_peak = 0\<rparr> \<or>
        (pb_minute (w ?i), pb_peak (w ?i)) \<in> set hist \<and> pb_minute (w ?i) mod 1440 = ?i"
      using inv unfolding window_inv_def by blast
    moreover have m0: "0 \<le> m" "m \<le> now" using hist(2) m(1) by auto
    ultimately have le: "pb_minute (w ?i) \<le> now" and "pb_minute (w ?i) = m \<or> pb_minute (w ?i) mod 1440 = ?i"
      using I(1) hist(2) by auto
    moreover have "x = m" if "x mod 1440 = ?i" "m \<le> x" "x \<le> now" for x
    proof -
      from that(1) obtain q where "x - m = 1440 * q" by (auto simp: mod_eq_dvd_iff dvd_def)
      moreover from this that m(2) k have "0 \<le> 1440 * q" "1440 * q < 1440" by linarith+
      ultimately show ?thesis by simp
    qed
    ultimately have "pb_minute (w ?i) = m" using I(1) by blast
    with le have "\<not> sk ?i" "y \<le> pb_peak (w ?i)" using m(2) I(2) by (auto simp: sk_def)
    moreover have "?i \<in> set [0..1439]" by simp
    ultimately show ?thesis using B(2) mx by (fastforce simp: w_def)
  qed
  show "maxSince (window_of hist) now k \<in> insert 0 {v. \<exists>m. (m, v) \<in> set hist \<and> now - k < m}"
  proof (cases "maxSince w now k = 0")
    case False
    with B(3) mx obtain i where "\<not> sk i" "maxSince w now k = pb_peak (w i)" by auto
    moreover from this False have "(pb_minute (w i), pb_peak (w i)) \<in> set hist"
      using inv unfolding window_inv_def by (metis peakBucket.select_convs(2))
    ultimately show ?thesis by (auto simp: sk_def w_def)
  qed (simp add: w_def)
qed

subsection \<open>Properties\<close>

text \<open>
  (C27) Limits and accounting of the memory governor. In every state reached by reservations
  (blocking or not), releases and registrations of callbacks in any order, provided the callbacks do
  nothing with the governor but release bytes that are allocated, releases are of bytes allocated in their class,
  and the total with the request stays below $2^{63}$: the total is the sum of the classes, no class is negative,
  no configured class limit and no configured total limit is exceeded, and the recorded peaks are at
  least the current values. Without these conditions the limits fail: \<open>class_limit_overrun\<close> has a
  callback under which another reservation is made, \<open>limit_check_wraps\<close> a request near $2^{63}$.
\<close>

theorem governor_accounting:
  assumes "gov_reachable cfg g"
  shows "g_totalAllocated g = class_sum (g_allocated g) \<and> 0 \<le> g_allocated g c \<and>
    (ClassLimits cfg c \<le> 0 \<or> g_allocated g c \<le> ClassLimits cfg c) \<and>
    (TotalLimit cfg \<le> 0 \<or> g_totalAllocated g \<le> TotalLimit cfg) \<and>
    g_allocated g c \<le> g_peak g c \<and> g_totalAllocated g \<le> g_totalPeak g"
  using gov_reachable_inv [OF assms] gov_reachable_limits [OF assms]
  unfolding gov_inv_def by (auto simp flip: not_less)

text \<open>
  With a total limit of 100 and a limit of 40 on the spillable class: 80 bytes of page cache, then a
  reservation of 30 spillable bytes, which is over the total until the page cache's callback has
  released 20.
\<close>

theorem governor_accounting_witness:
  "\<exists>g :: unit governor. gov_reachable \<lparr>TotalLimit = 100, ClassLimits = (\<lambda>_. 0)(ClassSpillable := 40)\<rparr> g \<and>
    g_allocated g ClassPageCache = 60 \<and> g_allocated g ClassSpillable = 30 \<and>
    g_totalAllocated g = class_sum (g_allocated g) \<and> g_allocated g ClassSpillable \<le> 40 \<and> g_totalAllocated g \<le> 100"
proof -
  let ?cfg = "\<lparr>TotalLimit = 100, ClassLimits = (\<lambda>_. 0)(ClassSpillable := 40)\<rparr>"
  let ?run = "\<lambda>(cb :: unit) (t :: int) g. (20 :: int, Release ClassPageCache (min 20 (g_allocated g ClassPageCache)) g)"
  define g1 :: "unit governor" where "g1 = fst (TryReserve 0 ClassPageCache 80 (OnPressure ClassPageCache () (NewGovernor ?cfg)))"
  define g2 where "g2 = fst (Reserve ?run 0 ClassSpillable 30 g1)"
  note defs = NewGovernor_def OnPressure_def over_class_limit_def over_total_limit_def register_callback_def newPressureRegistry_def
  have g1: "g_allocated g1 = (\<lambda>_. 0)(ClassPageCache := 80)" "g_totalAllocated g1 = 80" "g_limit g1 = 100"
    "g_limits g1 = (\<lambda>_. 0)(ClassSpillable := 40)" "g_pressure g1 = (\<lambda>_. [])(ClassPageCache := [()])"
    by (auto simp: g1_def TryReserve_def defs i64_def Let_def fun_eq_iff)
  have r1: "gov_reachable ?cfg g1" unfolding g1_def
    by (rule gov_reachable.gov_try [OF gov_reachable.gov_pressure [OF gov_reachable.gov_new]]) (simp add: defs)
  have "releasing ?run"
    by (auto simp: releasing_def intro: gov_releases.releases_step [OF gov_releases.releases_refl])
  then have r2: "gov_reachable ?cfg g2" unfolding g2_def
    by (intro gov_reachable.gov_reserve [OF r1]) (simp_all add: g1)
  have "g_allocated g2 ClassPageCache = 60" "g_allocated g2 ClassSpillable = 30"
    by (simp_all add: g2_def Reserve_def over_class_limit_def over_total_limit_def g1 i64_def Let_def
        pressure_invoke_def revocationOrder_def Release_def)
  with r2 governor_accounting [OF r2, of ClassSpillable] show ?thesis by auto
qed

text \<open>
  Pressure callbacks that honour their documented contract cannot help: the contract of
  \<open>PressureCallback\<close> forbids calling back into the governor, but \<open>Reserve\<close> re-checks the total
  that only \<open>Release\<close> lowers. If no callback changes the governor, a reservation beyond the total
  limit fails whatever the callbacks report as freed, and the allocations stay as they were.
\<close>

theorem reserve_needs_release:
  assumes "\<forall>cb t g. snd (run cb t g) = g" and "0 < n" and "over_total_limit n g"
  shows "snd (Reserve run now c n g) = Some ErrMemoryPressure \<and>
    g_allocated (fst (Reserve run now c n g)) = g_allocated g"
proof -
  have ic: "snd (snd (invoke_class run cbs tf rem g)) = g" for cbs tf rem g
    using assms(1) by (induction cbs arbitrary: tf rem) (simp_all add: case_prod_beta)
  have "snd (invoke_snapshot run snap tf rem g) = g" for snap tf rem g
    using ic by (induction snap arbitrary: tf rem) (simp_all add: case_prod_beta)
  then show ?thesis
    using assms(2,3) by (simp add: Reserve_def Let_def case_prod_beta pressure_invoke_def)
qed

theorem reserve_needs_release_witness:
  "snd (Reserve (\<lambda>cb t g. (t, g)) 0 ClassSpillable 50
      ((NewGovernor \<lparr>TotalLimit = 10, ClassLimits = (\<lambda>_. 0)\<rparr>)\<lparr>g_pressure := (\<lambda>_. [7 :: nat])\<rparr>))
    = Some ErrMemoryPressure \<and>
   g_allocated (fst (Reserve (\<lambda>cb t g. (t, g)) 0 ClassSpillable 50
      ((NewGovernor \<lparr>TotalLimit = 10, ClassLimits = (\<lambda>_. 0)\<rparr>)\<lparr>g_pressure := (\<lambda>_. [7 :: nat])\<rparr>)))
    = g_allocated ((NewGovernor \<lparr>TotalLimit = 10, ClassLimits = (\<lambda>_. 0)\<rparr>)\<lparr>g_pressure := (\<lambda>_. [7 :: nat])\<rparr>)"
  by (rule reserve_needs_release) (simp_all add: over_total_limit_def NewGovernor_def i64_def)

text \<open>
  A class limit can be overrun during reclamation: \<open>Reserve\<close> re-checks only the total limit
  after the callbacks ran with the lock open. With a limit of 10 bytes on the spillable class, a
  reservation of 8 bytes whose callback frees page cache while another goroutine reserves 8
  spillable bytes is admitted, and the class ends at 16 bytes.
\<close>

theorem class_limit_overrun:
  "\<exists>(run :: unit \<Rightarrow> int \<Rightarrow> unit governor \<Rightarrow> int \<times> unit governor) g.
     g_limits g ClassSpillable = 10 \<and> g_allocated g ClassSpillable = 0 \<and>
     (\<forall>cb t g'. snd (run cb t g') = fst (TryReserve 0 ClassSpillable 8 (Release ClassPageCache 20 g'))) \<and>
     snd (Reserve run 0 ClassSpillable 8 g) = None \<and>
     g_allocated (fst (Reserve run 0 ClassSpillable 8 g)) ClassSpillable = 16"
proof -
  let ?g = "(NewGovernor \<lparr>TotalLimit = 30, ClassLimits = (\<lambda>_. 0)(ClassSpillable := 10)\<rparr>)
    \<lparr>g_allocated := (\<lambda>_. 0)(ClassPageCache := 25), g_totalAllocated := 25,
     g_pressure := (\<lambda>_. [])(ClassPageCache := [()])\<rparr>"
  let ?run = "\<lambda>(cb :: unit) (t :: int) g. (20, fst (TryReserve 0 ClassSpillable 8 (Release ClassPageCache 20 g)))"
  show ?thesis
    by (rule exI [of _ ?run], rule exI [of _ ?g])
       (simp add: Reserve_def Let_def over_class_limit_def over_total_limit_def NewGovernor_def i64_def
        pressure_invoke_def revocationOrder_def Release_def TryReserve_def)
qed

text \<open>
  The limit checks wrap: the sums in \<open>TryReserve\<close> are int64 sums, so once one byte is
  allocated a request of the largest int64 passes both limit checks, is admitted and leaves a
  negative total.
\<close>

theorem limit_check_wraps:
  "\<exists>g :: unit governor. g_limit g = 100 \<and> g_totalAllocated g = 1 \<and>
     snd (TryReserve 0 ClassSpillable (2 ^ 63 - 1) g) \<and>
     g_totalAllocated (fst (TryReserve 0 ClassSpillable (2 ^ 63 - 1) g)) = - (2 ^ 63)"
proof -
  let ?g = "(NewGovernor \<lparr>TotalLimit = 100, ClassLimits = (\<lambda>_. 100)\<rparr>)
    \<lparr>g_allocated := (\<lambda>_. 0)(ClassSpillable := 1), g_totalAllocated := 1\<rparr>"
  show ?thesis
    by (rule exI [of _ ?g])
       (simp add: over_class_limit_def over_total_limit_def NewGovernor_def i64_def TryReserve_def)
qed

text \<open>
  Revocation order: under pressure the registered callbacks run strictly in the order
  revocable, page cache, spillable, metadata, temporary I/O and within a class in registration
  order, callbacks of the non-revocable class never; the run stops as soon as the target is
  reached, and if not all callbacks ran then exactly the target was freed.
\<close>

theorem revocation_order:
  assumes "frees_at_most run" and "0 \<le> target" and "target < 2 ^ 63"
  shows "\<exists>k freed s'. pressure_invoke (logged run) pr target (s, []) =
      (freed, s', take k (concat (map pr revocationOrder))) \<and> 0 \<le> freed \<and> freed \<le> target \<and>
      (length (concat (map pr revocationOrder)) \<le> k \<or> freed = target)"
proof -
  let ?snap = "filter (\<lambda>cbs. cbs \<noteq> []) (map pr revocationOrder)"
  have "concat ?snap = concat (map pr revocationOrder)"
    by (simp add: revocationOrder_def)
  with invoke_snapshot_log [OF assms(1), of 0 target ?snap s "[]"] assms(2,3)
  obtain k freed s' where "pressure_invoke (logged run) pr target (s, []) =
      (freed, s', take k (concat (map pr revocationOrder)))" "0 \<le> freed" "freed \<le> target"
    "k < length (concat (map pr revocationOrder)) \<longrightarrow> freed = target"
    unfolding pressure_invoke_def Let_def by auto
  then show ?thesis by (intro exI [of _ k] exI [of _ freed] exI [of _ s']) auto
qed

theorem revocation_order_witness:
  "\<exists>k freed s'. pressure_invoke (logged (\<lambda>cb t s. (min 3 t, s))) (\<lambda>c. [c]) 7 ((), []) =
      (freed, s', take k (concat (map (\<lambda>c. [c]) revocationOrder))) \<and> 0 \<le> freed \<and> freed \<le> 7 \<and>
      (length (concat (map (\<lambda>c. [c]) revocationOrder)) \<le> k \<or> freed = 7)"
  by (rule revocation_order) (simp_all add: frees_at_most_def)

text \<open>
  Rolling peaks are exact: for any history of recorded minutes in non-decreasing order,
  \<open>maxSince\<close> over a window of up to 24 hours is the largest value recorded in the minutes of the
  window, 0 if there is none, although only one bucket per minute of the day is kept.
\<close>

theorem rolling_peak_exact:
  assumes "sorted (map fst hist)" and "\<forall>(m, v) \<in> set hist. 0 \<le> m \<and> 0 \<le> v \<and> m \<le> now"
    and "1 \<le> k" and "k \<le> 1440"
  shows "maxSince (window_of hist) now k = Max (insert 0 {v. \<exists>m. (m, v) \<in> set hist \<and> now - k < m})"
  using assms by (rule maxSince_exact)

theorem rolling_peak_exact_witness:
  "maxSince (window_of [(5, 9), (1445, 4)]) 1446 2 =
     Max (insert 0 {v. \<exists>m. (m, v) \<in> set [(5, 9), (1445, 4 :: int)] \<and> (1446 :: int) - 2 < m})"
  by (rule rolling_peak_exact) simp_all

end
