(* ===== verification/Memory_Budget.thy ===== *)
theory Memory_Budget
  imports Memory_Governor
begin

text \<open>
  \<^verbatim>\<open>src/pkg/memgov/lease.go\<close>, \<^verbatim>\<open>operator.go\<close>, \<^verbatim>\<open>account.go\<close>, \<^verbatim>\<open>adapter.go\<close> and
  \<^verbatim>\<open>budget_adapter.go\<close>: per-query budgets, per-operator memory and the accounts operators use, all
  on top of the governor. A budget or operator is a record together with the governor it
  reserves from. Leases are objects: a budget keeps all leases ever created for it in the list
  \<open>qb_heap\<close> (operators in \<open>om_heap\<close>), a lease is named by its index there, and \<open>qb_leases\<close> holds the
  names of the tracked ones. \<open>Borrow\<close> and the like take and drop their lock twice; what other
  goroutines do between the two critical sections is the parameter \<open>env\<close>.
\<close>

subsection \<open>Leases\<close>

record Lease =
  l_class :: MemoryClass
  l_bytes :: int
  l_released :: bool

definition releasedLease :: "MemoryClass \<Rightarrow> Lease" where
  "releasedLease class = \<lparr>l_class = class, l_bytes = 0, l_released = True\<rparr>"

text \<open>\<open>Bytes\<close> and \<open>IsReleased\<close>; \<open>None\<close> is the nil lease.\<close>

definition Lease_Bytes :: "Lease option \<Rightarrow> int" where
  "Lease_Bytes l = (case l of None \<Rightarrow> 0 | Some l \<Rightarrow> l_bytes l)"

definition Lease_IsReleased :: "Lease option \<Rightarrow> bool" where
  "Lease_IsReleased l = (case l of None \<Rightarrow> True | Some l \<Rightarrow> l_released l)"

text \<open>Subtraction with a floor at zero, as the trackers do it.\<close>

definition sub_floor :: "int \<Rightarrow> int \<Rightarrow> int" where
  "sub_floor a n = (let r = i64 (a - n) in if r < 0 then 0 else r)"

text \<open>
  \<open>Lease.Release\<close> on the lease with name \<open>i\<close>: the compare-and-swap, the return to the governor
  and the owner's \<open>onRelease\<close> hook, the function \<open>on\<close>.
\<close>

definition release_lease ::
  "(MemoryClass \<Rightarrow> int \<Rightarrow> 'o \<Rightarrow> 'o) \<Rightarrow> Lease list \<Rightarrow> nat \<Rightarrow> 'o \<Rightarrow> 'cb governor
     \<Rightarrow> Lease list \<times> 'o \<times> 'cb governor"
where
  "release_lease on heap i owner g =
     (if i \<ge> length heap then (heap, owner, g)
      else let l = heap ! i in
        if l_released l then (heap, owner, g)
        else (heap[i := l\<lparr>l_released := True\<rparr>], on (l_class l) (l_bytes l) owner,
              if l_bytes l > 0 then Release (l_class l) (l_bytes l) g else g))"

subsection \<open>Query budgets\<close>

record queryBudget =
  qb_leases :: "nat list"
  qb_closed :: bool
  qb_byClass :: "MemoryClass \<Rightarrow> int"
  qb_peak :: "MemoryClass \<Rightarrow> int"
  qb_heap :: "Lease list"

definition NewQueryBudget :: queryBudget where
  "NewQueryBudget = \<lparr>qb_leases = [], qb_closed = False, qb_byClass = (\<lambda>_. 0), qb_peak = (\<lambda>_. 0),
     qb_heap = []\<rparr>"

definition qb_onRelease :: "MemoryClass \<Rightarrow> int \<Rightarrow> (MemoryClass \<Rightarrow> int) \<Rightarrow> (MemoryClass \<Rightarrow> int)" where
  "qb_onRelease class n byClass = byClass(class := sub_floor (byClass class) n)"

definition qb_Release :: "nat \<Rightarrow> queryBudget \<times> 'cb governor \<Rightarrow> queryBudget \<times> 'cb governor" where
  "qb_Release i = (\<lambda>(qb, g).
     case release_lease qb_onRelease (qb_heap qb) i (qb_byClass qb) g of
       (heap, byClass, g') \<Rightarrow> (qb\<lparr>qb_heap := heap, qb_byClass := byClass\<rparr>, g'))"

text \<open>
  The second critical section of \<open>Borrow\<close> and \<open>TryBorrow\<close>: the new lease is released again if
  the budget was closed meanwhile, tracked otherwise.
\<close>

definition qb_track ::
  "MemoryClass \<Rightarrow> int \<Rightarrow> queryBudget \<times> 'cb governor \<Rightarrow> queryBudget \<times> 'cb governor \<times> nat option"
where
  "qb_track class n = (\<lambda>(qb, g).
     let i = length (qb_heap qb);
         qb = qb\<lparr>qb_heap := qb_heap qb @ [\<lparr>l_class = class, l_bytes = n, l_released = False\<rparr>]\<rparr> in
     if qb_closed qb then (case qb_Release i (qb, g) of (qb', g') \<Rightarrow> (qb', g', None))
     else let b = i64 (qb_byClass qb class + n);
              qb = qb\<lparr>qb_leases := qb_leases qb @ [i], qb_byClass := (qb_byClass qb)(class := b)\<rparr>;
              qb = (if b > qb_peak qb class then qb\<lparr>qb_peak := (qb_peak qb)(class := b)\<rparr> else qb)
       in (qb, g, Some i))"

definition Borrow ::
  "('cb \<Rightarrow> int \<Rightarrow> 'cb governor \<Rightarrow> int \<times> 'cb governor) \<Rightarrow> int
     \<Rightarrow> (queryBudget \<times> 'cb governor \<Rightarrow> queryBudget \<times> 'cb governor)
     \<Rightarrow> MemoryClass \<Rightarrow> int \<Rightarrow> queryBudget \<times> 'cb governor
     \<Rightarrow> queryBudget \<times> 'cb governor \<times> (gov_error + nat)"
where
  "Borrow run now env class n = (\<lambda>(qb, g).
     if n \<le> 0 then (qb\<lparr>qb_heap := qb_heap qb @ [releasedLease class]\<rparr>, g, Inr (length (qb_heap qb)))
     else if qb_closed qb then (qb, g, Inl ErrClosed)
     else (case Reserve run now class n g of
             (g', Some err) \<Rightarrow> (qb, g', Inl err)
           | (g', None) \<Rightarrow>
               (case qb_track class n (env (qb, g')) of
                  (qb', g'', None) \<Rightarrow> (qb', g'', Inl ErrClosed)
                | (qb', g'', Some i) \<Rightarrow> (qb', g'', Inr i))))"

definition TryBorrow ::
  "int \<Rightarrow> (queryBudget \<times> 'cb governor \<Rightarrow> queryBudget \<times> 'cb governor)
     \<Rightarrow> MemoryClass \<Rightarrow> int \<Rightarrow> queryBudget \<times> 'cb governor \<Rightarrow> queryBudget \<times> 'cb governor \<times> nat option"
where
  "TryBorrow now env class n = (\<lambda>(qb, g).
     if n \<le> 0 then (qb\<lparr>qb_heap := qb_heap qb @ [releasedLease class]\<rparr>, g, Some (length (qb_heap qb)))
     else if qb_closed qb then (qb, g, None)
     else (case TryReserve now class n g of
             (g', False) \<Rightarrow> (qb, g', None)
           | (g', True) \<Rightarrow> qb_track class n (env (qb, g'))))"

definition PinnedBytes :: "queryBudget \<Rightarrow> int" where
  "PinnedBytes qb = qb_byClass qb ClassNonRevocable"

definition RevocableBytes :: "queryBudget \<Rightarrow> int" where
  "RevocableBytes qb = i64 (qb_byClass qb ClassRevocable + qb_byClass qb ClassSpillable)"

definition qb_Close :: "queryBudget \<times> 'cb governor \<Rightarrow> queryBudget \<times> 'cb governor" where
  "qb_Close = (\<lambda>(qb, g).
     if qb_closed qb then (qb, g)
     else let leases = qb_leases qb in
       (case fold qb_Release leases (qb\<lparr>qb_closed := True, qb_leases := []\<rparr>, g) of
          (qb', g') \<Rightarrow> (qb'\<lparr>qb_byClass := (\<lambda>_. 0)\<rparr>, g')))"

subsection \<open>Operator memory\<close>

record operatorMemory =
  om_reserved :: int
  om_leases :: "nat list"
  om_pinned :: int
  om_revocable :: int
  om_used :: int
  om_maxUsed :: int
  om_closed :: bool
  om_heap :: "Lease list"

definition NewOperatorMemory :: operatorMemory where
  "NewOperatorMemory = \<lparr>om_reserved = 0, om_leases = [], om_pinned = 0, om_revocable = 0,
     om_used = 0, om_maxUsed = 0, om_closed = False, om_heap = []\<rparr>"

definition om_Reserve ::
  "('cb \<Rightarrow> int \<Rightarrow> 'cb governor \<Rightarrow> int \<times> 'cb governor) \<Rightarrow> int
     \<Rightarrow> (operatorMemory \<times> 'cb governor \<Rightarrow> operatorMemory \<times> 'cb governor)
     \<Rightarrow> int \<Rightarrow> operatorMemory \<times> 'cb governor \<Rightarrow> operatorMemory \<times> 'cb governor \<times> gov_error option"
where
  "om_Reserve run now env n = (\<lambda>(om, g).
     if n \<le> 0 then (om, g, None)
     else if om_closed om then (om, g, Some ErrClosed)
     else (case Reserve run now ClassNonRevocable n g of
             (g', Some err) \<Rightarrow> (om, g', Some err)
           | (g', None) \<Rightarrow>
               (case env (om, g') of
                  (om, g) \<Rightarrow>
                    if om_closed om then (om, Release ClassNonRevocable n g, Some ErrClosed)
                    else let u = i64 (om_used om + n) in
                      (om\<lparr>om_reserved := i64 (om_reserved om + n), om_pinned := i64 (om_pinned om + n),
                          om_used := u, om_maxUsed := max u (om_maxUsed om)\<rparr>, g, None))))"

text \<open>The \<open>onRelease\<close> hook of an operator's leases; the trackers are revocable and used.\<close>

definition om_onRelease :: "MemoryClass \<Rightarrow> int \<Rightarrow> int \<times> int \<Rightarrow> int \<times> int" where
  "om_onRelease class n = (\<lambda>(revocable, used). (sub_floor revocable n, sub_floor used n))"

definition om_ReleaseLease :: "nat \<Rightarrow> operatorMemory \<times> 'cb governor \<Rightarrow> operatorMemory \<times> 'cb governor" where
  "om_ReleaseLease i = (\<lambda>(om, g).
     case release_lease om_onRelease (om_heap om) i (om_revocable om, om_used om) g of
       (heap, (revocable, used), g') \<Rightarrow>
         (om\<lparr>om_heap := heap, om_revocable := revocable, om_used := used\<rparr>, g'))"

definition TryGrow ::
  "('cb \<Rightarrow> int \<Rightarrow> 'cb governor \<Rightarrow> int \<times> 'cb governor) \<Rightarrow> int
     \<Rightarrow> (operatorMemory \<times> 'cb governor \<Rightarrow> operatorMemory \<times> 'cb governor)
     \<Rightarrow> int \<Rightarrow> operatorMemory \<times> 'cb governor \<Rightarrow> operatorMemory \<times> 'cb governor \<times> (gov_error + nat)"
where
  "TryGrow run now env n = (\<lambda>(om, g).
     if n \<le> 0 then (om\<lparr>om_heap := om_heap om @ [releasedLease ClassSpillable]\<rparr>, g, Inr (length (om_heap om)))
     else if om_closed om then (om, g, Inl ErrClosed)
     else (case Reserve run now ClassSpillable n g of
             (g', Some err) \<Rightarrow> (om, g', Inl err)
           | (g', None) \<Rightarrow>
               (case env (om, g') of
                  (om, g) \<Rightarrow>
                    let i = length (om_heap om);
                        om = om\<lparr>om_heap := om_heap om @ [\<lparr>l_class = ClassSpillable, l_bytes = n, l_released = False\<rparr>]\<rparr> in
                    if om_closed om then
                      (case om_ReleaseLease i (om, g) of (om', g'') \<Rightarrow> (om', g'', Inl ErrClosed))
                    else let u = i64 (om_used om + n) in
                      (om\<lparr>om_leases := om_leases om @ [i], om_revocable := i64 (om_revocable om + n),
                          om_used := u, om_maxUsed := max u (om_maxUsed om)\<rparr>, g, Inr i))))"

definition om_Release :: "int \<Rightarrow> operatorMemory \<times> 'cb governor \<Rightarrow> operatorMemory \<times> 'cb governor" where
  "om_Release n = (\<lambda>(om, g).
     if n \<le> 0 then (om, g)
     else let n = (if n > om_reserved om then om_reserved om else n) in
       (om\<lparr>om_reserved := i64 (om_reserved om - n), om_pinned := sub_floor (om_pinned om) n,
           om_used := sub_floor (om_used om) n\<rparr>, Release ClassNonRevocable n g))"

text \<open>
  The closure that \<open>SetOnRevoke\<close> registers with the governor: \<open>revokeFn\<close> is the operator's own
  callback, which may act on the operator's leases.
\<close>

definition om_revoke ::
  "(int \<Rightarrow> operatorMemory \<times> 'cb governor \<Rightarrow> int \<times> operatorMemory \<times> 'cb governor) option
     \<Rightarrow> int \<Rightarrow> operatorMemory \<times> 'cb governor \<Rightarrow> int \<times> operatorMemory \<times> 'cb governor"
where
  "om_revoke revokeFn target s =
     (case revokeFn of
        None \<Rightarrow> (0, s)
      | Some f \<Rightarrow>
          (case f target s of
             (freed, om, g) \<Rightarrow>
               if freed > 0
               then (freed, om\<lparr>om_revocable := sub_floor (om_revocable om) freed,
                               om_used := sub_floor (om_used om) freed\<rparr>, g)
               else (freed, om, g)))"

definition om_Close :: "operatorMemory \<times> 'cb governor \<Rightarrow> operatorMemory \<times> 'cb governor" where
  "om_Close = (\<lambda>(om, g).
     if om_closed om then (om, g)
     else let leases = om_leases om; reserved = om_reserved om in
       (case fold om_ReleaseLease leases (om\<lparr>om_closed := True, om_leases := [], om_reserved := 0\<rparr>, g) of
          (om', g') \<Rightarrow>
            (om'\<lparr>om_pinned := 0, om_revocable := 0, om_used := 0\<rparr>,
             if reserved > 0 then Release ClassNonRevocable reserved g' else g')))"

subsection \<open>Outstanding bytes\<close>

definition held_by :: "MemoryClass \<Rightarrow> Lease \<Rightarrow> int" where
  "held_by c l = (if \<not> l_released l \<and> l_class l = c then l_bytes l else 0)"

definition held :: "Lease list \<Rightarrow> MemoryClass \<Rightarrow> int" where
  "held heap c = sum_list (map (held_by c) heap)"

definition leases_ok :: "Lease list \<Rightarrow> bool" where
  "leases_ok heap \<longleftrightarrow> (\<forall>l \<in> set heap. 0 \<le> l_bytes l \<and> (l_released l \<or> 0 < l_bytes l))"

lemma held_append [simp]: "held (heap @ [l]) c = held heap c + held_by c l"
  by (simp add: held_def)

lemma held_Nil [simp]: "held [] c = 0"
  by (simp add: held_def)

lemma held_by_nonneg: "leases_ok heap \<Longrightarrow> l \<in> set heap \<Longrightarrow> 0 \<le> held_by c l"
  by (auto simp: leases_ok_def held_by_def)

lemma held_nonneg: "leases_ok heap \<Longrightarrow> 0 \<le> held heap c"
  unfolding held_def by (rule sum_list_nonneg) (auto simp: held_by_nonneg)

lemma held_member: "leases_ok heap \<Longrightarrow> l \<in> set heap \<Longrightarrow> held_by c l \<le> held heap c"
  unfolding held_def by (rule member_le_sum_list) (auto simp: held_by_nonneg)

lemma held_update:
  "i < length heap \<Longrightarrow> held (heap[i := l]) c = held heap c + held_by c l - held_by c (heap ! i)"
  unfolding held_def by (rule sum_map_update)

lemma held_released: "\<forall>l \<in> set heap. l_released l \<Longrightarrow> held heap c = 0"
  by (induction heap) (simp_all add: held_def held_by_def)

lemma leases_ok_update:
  "leases_ok heap \<Longrightarrow> i < length heap \<Longrightarrow> leases_ok (heap[i := (heap ! i)\<lparr>l_released := True\<rparr>])"
  by (auto simp: leases_ok_def set_conv_nth nth_list_update)

lemma sub_floor_id: "0 \<le> n \<Longrightarrow> n \<le> a \<Longrightarrow> a < 2 ^ 63 \<Longrightarrow> sub_floor a n = a - n"
  by (simp add: sub_floor_def i64_id Let_def)

text \<open>
  Releasing a lease: the governor and the outstanding bytes go down by the same amount, so what
  the governor holds besides this owner's leases, \<open>base\<close>, stays.
\<close>

definition covers :: "(MemoryClass \<Rightarrow> int) \<Rightarrow> Lease list \<Rightarrow> 'cb governor \<Rightarrow> bool" where
  "covers base heap g \<longleftrightarrow>
     gov_inv g \<and> leases_ok heap \<and> (\<forall>c. 0 \<le> base c \<and> g_allocated g c = base c + held heap c)"

lemma covers_bounds:
  assumes "covers base heap g"
  shows "0 \<le> held heap c" "held heap c < 2 ^ 63"
proof -
  have "held heap c \<le> g_allocated g c" "g_allocated g c < 2 ^ 63"
    using assms gov_inv_allocated_le [of g c] by (auto simp: covers_def gov_inv_def)
  then show "held heap c < 2 ^ 63" by simp
  show "0 \<le> held heap c" using assms by (simp add: covers_def held_nonneg)
qed

lemma release_lease_covers:
  assumes "covers base heap g" and "release_lease on heap i owner g = (heap', owner', g')"
  shows "covers base heap' g'"
    and "(heap', owner') = (heap, owner) \<or>
      (i < length heap \<and> \<not> l_released (heap ! i) \<and> heap' = heap[i := (heap ! i)\<lparr>l_released := True\<rparr>] \<and>
       owner' = on (l_class (heap ! i)) (l_bytes (heap ! i)) owner \<and>
       (\<forall>c. held heap' c = held heap c - held_by c (heap ! i)))"
proof -
  have *: "covers base heap' g' \<and> ((heap', owner') = (heap, owner) \<or>
      (i < length heap \<and> \<not> l_released (heap ! i) \<and> heap' = heap[i := (heap ! i)\<lparr>l_released := True\<rparr>] \<and>
       owner' = on (l_class (heap ! i)) (l_bytes (heap ! i)) owner \<and>
       (\<forall>c. held heap' c = held heap c - held_by c (heap ! i))))"
  proof (cases "i < length heap \<and> \<not> l_released (heap ! i)")
    case False
    with assms show ?thesis by (auto simp: release_lease_def Let_def split: if_splits)
  next
    case True
    define l where "l = heap ! i"
    have l: "l \<in> set heap" "\<not> l_released l" using True by (auto simp: l_def)
    have ok: "leases_ok heap" and inv: "gov_inv g" using assms(1) by (simp_all add: covers_def)
    have n: "0 < l_bytes l" using ok l by (auto simp: leases_ok_def)
    have heap': "heap' = heap[i := l\<lparr>l_released := True\<rparr>]" "owner' = on (l_class l) (l_bytes l) owner"
      "g' = Release (l_class l) (l_bytes l) g"
      using assms(2) True n by (auto simp: release_lease_def Let_def l_def)
    have held': "held heap' c = held heap c - held_by c l" for c
      using True unfolding heap' by (simp add: held_update l_def held_by_def)
    have own: "held_by (l_class l) l = l_bytes l" using l by (simp add: held_by_def)
    have "held_by (l_class l) l \<le> held heap (l_class l)" by (rule held_member [OF ok l(1)])
    then have le: "l_bytes l \<le> g_allocated g (l_class l)"
      using assms(1) own by (auto simp: covers_def intro: order_trans)
    have "g_allocated g' c = base c + held heap' c" for c
      using assms(1) Release_simps(1) [OF inv n le] held' own
      by (auto simp: heap'(3) covers_def held_by_def)
    then have "covers base heap' g'"
      using assms(1) Release_inv [OF inv le] leases_ok_update [OF ok] True
      by (simp add: covers_def heap' l_def)
    with True held' show ?thesis by (auto simp: heap' l_def)
  qed
  then show "covers base heap' g'" by blast
  from * show "(heap', owner') = (heap, owner) \<or>
      (i < length heap \<and> \<not> l_released (heap ! i) \<and> heap' = heap[i := (heap ! i)\<lparr>l_released := True\<rparr>] \<and>
       owner' = on (l_class (heap ! i)) (l_bytes (heap ! i)) owner \<and>
       (\<forall>c. held heap' c = held heap c - held_by c (heap ! i)))" by blast
qed

text \<open>A pass over a list marks every element of the list and keeps earlier marks.\<close>

lemma fold_marks:
  assumes "\<And>i j s. M s j \<Longrightarrow> M (f i s) j" and "\<And>i s. P i s \<Longrightarrow> M (f i s) i"
    and "\<And>i j s. P j s \<Longrightarrow> P j (f i s)"
  shows "P j s \<Longrightarrow> M s j \<or> j \<in> set is \<Longrightarrow> M (fold f is s) j"
proof (induction "is" arbitrary: s)
  case (Cons i "is")
  from Cons.prems assms have "M (f i s) j \<or> j \<in> set is" "P j (f i s)" by auto
  then show ?case using Cons.IH by simp
qed simp

subsection \<open>Query budgets account exactly\<close>

definition qb_core :: "(MemoryClass \<Rightarrow> int) \<Rightarrow> queryBudget \<times> 'cb governor \<Rightarrow> bool" where
  "qb_core base = (\<lambda>(qb, g). covers base (qb_heap qb) g \<and> (\<forall>c. qb_byClass qb c = held (qb_heap qb) c))"

definition qb_tracked :: "queryBudget \<Rightarrow> bool" where
  "qb_tracked qb \<longleftrightarrow> (\<forall>i < length (qb_heap qb). l_released (qb_heap qb ! i) \<or> i \<in> set (qb_leases qb))"

definition qb_inv :: "(MemoryClass \<Rightarrow> int) \<Rightarrow> queryBudget \<times> 'cb governor \<Rightarrow> bool" where
  "qb_inv base s \<longleftrightarrow> qb_core base s \<and> qb_tracked (fst s) \<and> (qb_closed (fst s) \<longrightarrow> qb_leases (fst s) = [])"

lemma qb_Release_fields:
  "qb_closed (fst (qb_Release i s)) = qb_closed (fst s)" "qb_leases (fst (qb_Release i s)) = qb_leases (fst s)"
  by (simp_all add: qb_Release_def case_prod_beta)

lemma qb_Release_core:
  assumes "qb_core base s"
  shows "qb_core base (qb_Release i s)"
proof -
  obtain qb g where s: "s = (qb, g)" by force
  obtain heap' bc' g' where r: "release_lease qb_onRelease (qb_heap qb) i (qb_byClass qb) g = (heap', bc', g')"
    by (metis prod_cases3)
  have cov: "covers base (qb_heap qb) g" and tr: "\<And>c. qb_byClass qb c = held (qb_heap qb) c"
    using assms by (simp_all add: s qb_core_def)
  note R = release_lease_covers [OF cov r]
  have "bc' c = held heap' c" for c
  proof (cases "(heap', bc') = (qb_heap qb, qb_byClass qb)")
    case True
    with tr show ?thesis by simp
  next
    case False
    define l where "l = qb_heap qb ! i"
    have i: "i < length (qb_heap qb)" "\<not> l_released l" "bc' = qb_onRelease (l_class l) (l_bytes l) (qb_byClass qb)"
      "held heap' c = held (qb_heap qb) c - held_by c l" for c
      using R(2) False by (auto simp: l_def)
    have ok: "leases_ok (qb_heap qb)" using cov by (simp add: covers_def)
    have "l \<in> set (qb_heap qb)" using i(1) by (simp add: l_def)
    then have "0 \<le> l_bytes l" "held_by (l_class l) l \<le> held (qb_heap qb) (l_class l)"
      using ok held_member by (auto simp: leases_ok_def)
    then have "sub_floor (held (qb_heap qb) (l_class l)) (l_bytes l) = held (qb_heap qb) (l_class l) - l_bytes l"
      using covers_bounds [OF cov] i(2) by (intro sub_floor_id) (auto simp: held_by_def)
    then show ?thesis using i tr by (auto simp: qb_onRelease_def held_by_def)
  qed
  with R(1) show ?thesis by (simp add: s qb_core_def qb_Release_def r)
qed

lemma qb_Release_heap:
  "length (qb_heap (fst (qb_Release i s))) = length (qb_heap (fst s))"
  "l_released (qb_heap (fst s) ! j) \<Longrightarrow> l_released (qb_heap (fst (qb_Release i s)) ! j)"
  "i < length (qb_heap (fst s)) \<Longrightarrow> l_released (qb_heap (fst (qb_Release i s)) ! i)"
  by (auto simp: qb_Release_def release_lease_def case_prod_beta Let_def nth_list_update)

lemma qb_Release_idem: "qb_Release i (qb_Release i s) = qb_Release i s"
  by (cases s) (auto simp: qb_Release_def release_lease_def Let_def)

lemma fold_qb_Release:
  assumes "qb_core base s"
  shows "qb_core base (fold qb_Release is s)"
    and "qb_closed (fst (fold qb_Release is s)) = qb_closed (fst s)"
    and "qb_leases (fst (fold qb_Release is s)) = qb_leases (fst s)"
    and "length (qb_heap (fst (fold qb_Release is s))) = length (qb_heap (fst s))"
  using assms
  by (induction "is" arbitrary: s) (simp_all add: qb_Release_core qb_Release_fields qb_Release_heap(1))

lemma fold_qb_Release_released:
  "j < length (qb_heap (fst s)) \<Longrightarrow> l_released (qb_heap (fst s) ! j) \<or> j \<in> set is \<Longrightarrow>
     l_released (qb_heap (fst (fold qb_Release is s)) ! j)"
  by (rule fold_marks [where P = "\<lambda>j s. j < length (qb_heap (fst s))" and
        M = "\<lambda>s j. l_released (qb_heap (fst s) ! j)"])
     (simp_all add: qb_Release_heap)

lemma qb_Close_inv:
  assumes "qb_inv base s"
  shows "qb_inv base (qb_Close s)" and "\<forall>l \<in> set (qb_heap (fst (qb_Close s))). l_released l"
    and "qb_closed (fst (qb_Close s))"
proof -
  obtain qb g where s: "s = (qb, g)" by force
  have *: "qb_inv base (qb_Close s) \<and> (\<forall>l \<in> set (qb_heap (fst (qb_Close s))). l_released l) \<and>
      qb_closed (fst (qb_Close s))"
  proof (cases "qb_closed qb")
    case True
    then have "qb_Close s = s" by (simp add: s qb_Close_def)
    with True assms show ?thesis by (auto simp: s qb_inv_def qb_tracked_def in_set_conv_nth)
  next
    case False
    define s1 where "s1 = (qb\<lparr>qb_closed := True, qb_leases := []\<rparr>, g)"
    obtain qb2 g2 where f: "fold qb_Release (qb_leases qb) s1 = (qb2, g2)" by force
    have core: "qb_core base s1" using assms by (simp add: qb_inv_def qb_core_def s s1_def)
    note F = fold_qb_Release [OF core, where ?is = "qb_leases qb", unfolded f fst_conv]
      fold_qb_Release_released [where ?is = "qb_leases qb" and s = s1, unfolded f fst_conv]
    have rel: "\<forall>l \<in> set (qb_heap qb2). l_released l"
    proof
      fix l assume "l \<in> set (qb_heap qb2)"
      then obtain j where "j < length (qb_heap qb2)" "l = qb_heap qb2 ! j" by (auto simp: in_set_conv_nth)
      with F(4) F(5) [of j] assms show "l_released l" by (auto simp: s s1_def qb_inv_def qb_tracked_def)
    qed
    have cl: "qb_Close s = (qb2\<lparr>qb_byClass := (\<lambda>_. 0)\<rparr>, g2)"
      using False f by (simp add: qb_Close_def s s1_def Let_def)
    from F(1-3) rel show ?thesis
      by (auto simp: cl qb_inv_def qb_core_def qb_tracked_def held_released s1_def)
  qed
  then show "qb_inv base (qb_Close s)" and "\<forall>l \<in> set (qb_heap (fst (qb_Close s))). l_released l"
    and "qb_closed (fst (qb_Close s))" by blast+
qed

text \<open>Callbacks that keep to their contract leave the governor alone.\<close>

definition quiet :: "('cb \<Rightarrow> int \<Rightarrow> 'cb governor \<Rightarrow> int \<times> 'cb governor) \<Rightarrow> bool" where
  "quiet run \<longleftrightarrow> (\<forall>cb t g. snd (run cb t g) = g)"

lemma quiet_releasing: "quiet run \<Longrightarrow> releasing run"
  by (simp add: quiet_def releasing_def gov_releases.releases_refl)

lemma quiet_invoke:
  assumes "quiet run"
  shows "snd (pressure_invoke run pr t g) = g"
proof -
  have ic: "snd (snd (invoke_class run cbs tf rem g)) = g" for cbs tf rem
    using assms by (induction cbs arbitrary: tf rem) (simp_all add: case_prod_beta quiet_def)
  have "snd (invoke_snapshot run snap tf rem g) = g" for snap tf rem
    using ic by (induction snap arbitrary: tf rem) (simp_all add: case_prod_beta)
  then show ?thesis by (simp add: pressure_invoke_def)
qed

lemma Reserve_quiet:
  assumes "quiet run" and "0 < n" and "Reserve run now c n g = (g', r)"
  shows "r = None \<Longrightarrow> g_allocated g' = (g_allocated g)(c := i64 (g_allocated g c + n))"
    and "r \<noteq> None \<Longrightarrow> g_allocated g' = g_allocated g"
  using assms(2,3)
  by (auto simp: Reserve_def Let_def case_prod_beta quiet_invoke [OF assms(1)] split: if_splits)

text \<open>What a successful reservation of \<open>n\<close> bytes does, blocking or not.\<close>

definition admitted :: "MemoryClass \<Rightarrow> int \<Rightarrow> 'cb governor \<Rightarrow> 'cb governor \<Rightarrow> bool" where
  "admitted c n g g' \<longleftrightarrow> gov_inv g' \<and> g_allocated g' = (g_allocated g)(c := g_allocated g c + n)"

lemma i64_alloc:
  assumes "gov_inv g" and "0 < n" and "g_totalAllocated g + n < 2 ^ 63"
  shows "i64 (g_allocated g c + n) = g_allocated g c + n"
  using assms(2,3) gov_inv_allocated_le [OF assms(1), of c] gov_inv_nonneg [OF assms(1), of c]
  by (auto intro!: i64_id)

lemma Reserve_admitted:
  assumes "quiet run" and "gov_inv g" and "0 < n" and "g_totalAllocated g + n < 2 ^ 63"
    and "Reserve run now c n g = (g', r)"
  shows "r = None \<Longrightarrow> admitted c n g g'" and "r \<noteq> None \<Longrightarrow> gov_inv g' \<and> g_allocated g' = g_allocated g"
  using Reserve_quiet [OF assms(1,3,5)] Reserve_inv [OF quiet_releasing [OF assms(1)] assms(2,4), of now c]
    i64_alloc [OF assms(2-4), of c] assms(5)
  by (auto simp: admitted_def)

lemma TryReserve_admitted:
  assumes "gov_inv g" and "0 < n" and "g_totalAllocated g + n < 2 ^ 63"
    and "TryReserve now c n g = (g', b)"
  shows "b \<Longrightarrow> admitted c n g g'" and "\<not> b \<Longrightarrow> g' = g"
  using TryReserve_inv [OF assms(1,3), of now c] assms(2,4) i64_alloc [OF assms(1-3), of c]
  by (auto simp: admitted_def TryReserve_def split: if_splits)

lemma covers_admitted:
  assumes "covers base heap g" and "admitted c n g g'" and "0 < n"
  shows "covers base (heap @ [\<lparr>l_class = c, l_bytes = n, l_released = False\<rparr>]) g'"
  using assms by (auto simp: covers_def admitted_def held_by_def leases_ok_def)

text \<open>The second critical section, when nothing happened in between and when the budget was closed.\<close>

lemma qb_track_open:
  assumes inv: "qb_inv base (qb, g)" and adm: "admitted c n g g'" and n: "0 < n" and op: "\<not> qb_closed qb"
    and t: "qb_track c n (qb, g') = (qb', g'', r)"
  shows "qb_inv base (qb', g'')" and "r = Some (length (qb_heap qb))"
proof -
  let ?heap = "qb_heap qb @ [\<lparr>l_class = c, l_bytes = n, l_released = False\<rparr>]"
  have cov: "covers base (qb_heap qb) g" and bc: "\<And>d. qb_byClass qb d = held (qb_heap qb) d"
    using inv by (simp_all add: qb_inv_def qb_core_def)
  have cov': "covers base ?heap g'" by (rule covers_admitted [OF cov adm n])
  have "i64 (held (qb_heap qb) c + n) = held (qb_heap qb) c + n"
    using covers_bounds [OF cov', of c] covers_bounds(1) [OF cov, of c] n
    by (intro i64_id) (simp_all add: held_by_def)
  then have "qb_heap qb' = ?heap" "g'' = g'" "qb_byClass qb' = (qb_byClass qb)(c := held (qb_heap qb) c + n)"
    "qb_leases qb' = qb_leases qb @ [length (qb_heap qb)]" "\<not> qb_closed qb'" "r = Some (length (qb_heap qb))"
    using t op bc by (auto simp: qb_track_def Let_def split: if_splits)
  with inv cov' show "qb_inv base (qb', g'')" and "r = Some (length (qb_heap qb))"
    by (auto simp: qb_inv_def qb_core_def held_by_def qb_tracked_def nth_append less_Suc_eq)
qed

lemma qb_track_closed:
  assumes "0 < n" and "qb_closed qb" and "qb_track c n (qb, g) = (qb', g', r)"
  shows "r = None" and "g' = Release c n g"
  using assms by (auto simp: qb_track_def Let_def qb_Release_def release_lease_def)

lemma qb_inv_released_lease:
  "qb_inv base (qb, g) \<Longrightarrow> qb_inv base (qb\<lparr>qb_heap := qb_heap qb @ [releasedLease c]\<rparr>, g)"
  by (auto simp: qb_inv_def qb_core_def covers_def leases_ok_def releasedLease_def held_by_def
      qb_tracked_def nth_append less_Suc_eq)

lemma qb_inv_gov:
  "qb_inv base (qb, g) \<Longrightarrow> gov_inv g' \<Longrightarrow> g_allocated g' = g_allocated g \<Longrightarrow> qb_inv base (qb, g')"
  by (auto simp: qb_inv_def qb_core_def covers_def)

lemma Borrow_inv:
  assumes inv: "qb_inv base s" and run: "quiet run" and fits: "g_totalAllocated (snd s) + n < 2 ^ 63"
    and b: "Borrow run now id c n s = (qb', g', r)"
  shows "qb_inv base (qb', g')"
proof -
  obtain qb g where s: "s = (qb, g)" by force
  obtain g1 e where R: "Reserve run now c n g = (g1, e)" by force
  have gi: "gov_inv g" using inv by (simp add: s qb_inv_def qb_core_def covers_def)
  show ?thesis
  proof (cases "0 < n \<and> \<not> qb_closed qb")
    case False
    with inv b show ?thesis by (auto simp: s Borrow_def intro: qb_inv_released_lease split: if_splits)
  next
    case True
    note A = Reserve_admitted [OF run gi _ _ R] 
    show ?thesis
    proof (cases e)
      case None
      obtain qb2 g2 r2 where t: "qb_track c n (qb, g1) = (qb2, g2, r2)" by (metis prod_cases3)
      have adm: "admitted c n g g1" using A(1) True fits None by (simp add: s)
      from qb_track_open [OF inv [unfolded s] adm _ _ t] True b R None t show ?thesis
        by (auto simp: s Borrow_def)
    next
      case (Some err)
      with A(2) True fits b R inv show ?thesis
        by (auto simp: s Borrow_def intro: qb_inv_gov)
    qed
  qed
qed

lemma TryBorrow_inv:
  assumes inv: "qb_inv base s" and fits: "g_totalAllocated (snd s) + n < 2 ^ 63"
    and b: "TryBorrow now id c n s = (qb', g', r)"
  shows "qb_inv base (qb', g')"
proof -
  obtain qb g where s: "s = (qb, g)" by force
  obtain g1 e where R: "TryReserve now c n g = (g1, e)" by force
  have gi: "gov_inv g" using inv by (simp add: s qb_inv_def qb_core_def covers_def)
  show ?thesis
  proof (cases "0 < n \<and> \<not> qb_closed qb")
    case False
    with inv b show ?thesis by (auto simp: s TryBorrow_def intro: qb_inv_released_lease split: if_splits)
  next
    case True
    note A = TryReserve_admitted [OF gi _ _ R]
    show ?thesis
    proof (cases e)
      case e: True
      obtain qb2 g2 r2 where t: "qb_track c n (qb, g1) = (qb2, g2, r2)" by (metis prod_cases3)
      have adm: "admitted c n g g1" using A(1) True fits e by (simp add: s)
      from qb_track_open [OF inv [unfolded s] adm _ _ t] True b R e t show ?thesis
        by (auto simp: s TryBorrow_def)
    next
      case False
      with A(2) True fits b R inv show ?thesis by (auto simp: s TryBorrow_def)
    qed
  qed
qed

text \<open>
  The budgets of one query over a governor \<open>g0\<close>: borrowing, releasing any lease any number of
  times, closing, in any order.
\<close>

inductive budget_reachable :: "'cb governor \<Rightarrow> queryBudget \<times> 'cb governor \<Rightarrow> bool" for g0 where
  budget_new: "gov_inv g0 \<Longrightarrow> budget_reachable g0 (NewQueryBudget, g0)"
| budget_borrow: "budget_reachable g0 s \<Longrightarrow> quiet run \<Longrightarrow> g_totalAllocated (snd s) + n < 2 ^ 63 \<Longrightarrow>
    Borrow run now id c n s = (qb', g', r) \<Longrightarrow> budget_reachable g0 (qb', g')"
| budget_try: "budget_reachable g0 s \<Longrightarrow> g_totalAllocated (snd s) + n < 2 ^ 63 \<Longrightarrow>
    TryBorrow now id c n s = (qb', g', r) \<Longrightarrow> budget_reachable g0 (qb', g')"
| budget_release: "budget_reachable g0 s \<Longrightarrow> budget_reachable g0 (qb_Release i s)"
| budget_close: "budget_reachable g0 s \<Longrightarrow> budget_reachable g0 (qb_Close s)"

lemma qb_Release_inv: "qb_inv base s \<Longrightarrow> qb_inv base (qb_Release i s)"
  using qb_Release_heap(1) [of i s] qb_Release_heap(2) [of s _ i] by (auto simp: qb_inv_def qb_Release_core qb_Release_fields qb_tracked_def)

lemma budget_reachable_inv: "budget_reachable g0 s \<Longrightarrow> qb_inv (g_allocated g0) s"
proof (induction rule: budget_reachable.induct)
  case budget_new
  then show ?case
    by (simp add: qb_inv_def qb_core_def covers_def NewQueryBudget_def leases_ok_def qb_tracked_def
        gov_inv_nonneg)
qed (simp_all add: Borrow_inv TryBorrow_inv qb_Release_inv qb_Close_inv)

subsection \<open>Operators account exactly\<close>

text \<open>
  \<open>base\<close> is what the governor holds for others; the operator's reservation is charged to the
  non-revocable class, its leases to the spillable class.
\<close>

definition om_base :: "(MemoryClass \<Rightarrow> int) \<Rightarrow> int \<Rightarrow> MemoryClass \<Rightarrow> int" where
  "om_base base r = base(ClassNonRevocable := base ClassNonRevocable + r)"

definition om_core :: "(MemoryClass \<Rightarrow> int) \<Rightarrow> int \<Rightarrow> operatorMemory \<times> 'cb governor \<Rightarrow> bool" where
  "om_core base r = (\<lambda>(om, g).
     (\<forall>c. 0 \<le> base c) \<and> 0 \<le> r \<and> covers (om_base base r) (om_heap om) g \<and>
     (\<forall>l \<in> set (om_heap om). l_class l = ClassSpillable) \<and>
     om_pinned om = r \<and> om_revocable om = held (om_heap om) ClassSpillable \<and>
     om_used om = om_pinned om + om_revocable om \<and> om_used om \<le> om_maxUsed om)"

definition om_tracked :: "operatorMemory \<Rightarrow> bool" where
  "om_tracked om \<longleftrightarrow> (\<forall>i < length (om_heap om). l_released (om_heap om ! i) \<or> i \<in> set (om_leases om))"

definition om_inv :: "(MemoryClass \<Rightarrow> int) \<Rightarrow> operatorMemory \<times> 'cb governor \<Rightarrow> bool" where
  "om_inv base s \<longleftrightarrow>
     om_core base (om_reserved (fst s)) s \<and> om_tracked (fst s) \<and>
     (om_closed (fst s) \<longrightarrow> om_leases (fst s) = [] \<and> om_reserved (fst s) = 0)"

text \<open>Reservation and leases together stay below what the governor holds.\<close>

lemma om_core_bounds:
  assumes "om_core base r (om, g)"
  shows "0 \<le> r" "0 \<le> om_revocable om" "om_used om \<le> g_totalAllocated g" "g_totalAllocated g < 2 ^ 63"
proof -
  have c: "covers (om_base base r) (om_heap om) g" and b: "0 \<le> base c" for c
    using assms by (simp_all add: om_core_def)
  show "0 \<le> r" using assms by (simp add: om_core_def)
  show "0 \<le> om_revocable om" using assms covers_bounds(1) [OF c] by (simp add: om_core_def)
  have inv: "gov_inv g" using c by (simp add: covers_def)
  then show "g_totalAllocated g < 2 ^ 63" by (simp add: gov_inv_def)
  have "g_allocated g ClassNonRevocable + g_allocated g ClassSpillable \<le> class_sum (g_allocated g)"
    using gov_inv_nonneg [OF inv] by (simp add: class_sum_def all_classes_def add_nonneg_nonneg)
  moreover have "r \<le> g_allocated g ClassNonRevocable" "om_revocable om \<le> g_allocated g ClassSpillable"
    using c b [of ClassNonRevocable] b [of ClassSpillable] assms held_nonneg [of "om_heap om" ClassNonRevocable]
    by (auto simp: covers_def om_base_def om_core_def)
  ultimately show "om_used om \<le> g_totalAllocated g"
    using inv assms by (simp add: gov_inv_def om_core_def)
qed

lemma om_ReleaseLease_fields:
  "om_closed (fst (om_ReleaseLease i s)) = om_closed (fst s)"
  "om_leases (fst (om_ReleaseLease i s)) = om_leases (fst s)"
  "om_reserved (fst (om_ReleaseLease i s)) = om_reserved (fst s)"
  by (simp_all add: om_ReleaseLease_def case_prod_beta)

lemma om_ReleaseLease_heap:
  "length (om_heap (fst (om_ReleaseLease i s))) = length (om_heap (fst s))"
  "l_released (om_heap (fst s) ! j) \<Longrightarrow> l_released (om_heap (fst (om_ReleaseLease i s)) ! j)"
  "i < length (om_heap (fst s)) \<Longrightarrow> l_released (om_heap (fst (om_ReleaseLease i s)) ! i)"
  by (auto simp: om_ReleaseLease_def release_lease_def case_prod_beta Let_def nth_list_update)

lemma om_ReleaseLease_core:
  assumes core: "om_core base r s"
  shows "om_core base r (om_ReleaseLease i s)"
proof -
  obtain om g where s: "s = (om, g)" by force
  obtain heap' tr g' where rel: "release_lease om_onRelease (om_heap om) i (om_revocable om, om_used om) g = (heap', tr, g')"
    by (metis prod_cases3)
  have cov: "covers (om_base base r) (om_heap om) g"
    and cls: "\<forall>l \<in> set (om_heap om). l_class l = ClassSpillable" using core by (simp_all add: s om_core_def)
  note R = release_lease_covers [OF cov rel] and B = om_core_bounds [OF core [unfolded s]]
  have tr: "fst tr = held heap' ClassSpillable \<and> snd tr = r + held heap' ClassSpillable \<and>
      snd tr \<le> om_used om \<and> (\<forall>l \<in> set heap'. l_class l = ClassSpillable)"
  proof (cases "(heap', tr) = (om_heap om, (om_revocable om, om_used om))")
    case True
    with core show ?thesis by (auto simp: s om_core_def)
  next
    case False
    define l where "l = om_heap om ! i"
    have i: "i < length (om_heap om)" "\<not> l_released l" "heap' = (om_heap om)[i := l\<lparr>l_released := True\<rparr>]"
      "tr = om_onRelease (l_class l) (l_bytes l) (om_revocable om, om_used om)"
      "held heap' ClassSpillable = held (om_heap om) ClassSpillable - held_by ClassSpillable l"
      using R(2) False by (auto simp: l_def)
    have ok: "leases_ok (om_heap om)" using cov by (simp add: covers_def)
    have l: "l \<in> set (om_heap om)" using i(1) by (simp add: l_def)
    then have n: "0 \<le> l_bytes l" "held_by ClassSpillable l = l_bytes l"
      using ok cls i(2) by (auto simp: leases_ok_def held_by_def)
    have "l_bytes l \<le> om_revocable om" using held_member [OF ok l, of ClassSpillable] n core by (auto simp: s om_core_def)
    then have "sub_floor (om_revocable om) (l_bytes l) = om_revocable om - l_bytes l"
      "sub_floor (om_used om) (l_bytes l) = om_used om - l_bytes l"
      using n B core by (auto simp: s om_core_def intro!: sub_floor_id)
    moreover have "\<forall>x \<in> set heap'. l_class x = ClassSpillable"
      using cls l set_update_subset_insert [of "om_heap om" i "l\<lparr>l_released := True\<rparr>"] by (auto simp: i(3))
    ultimately show ?thesis using i n core by (simp add: s om_core_def om_onRelease_def)
  qed
  have "om_ReleaseLease i s =
      (om\<lparr>om_heap := heap', om_revocable := fst tr, om_used := snd tr\<rparr>, g')"
    by (simp add: s om_ReleaseLease_def rel case_prod_beta)
  with tr R(1) core show ?thesis by (auto simp: s om_core_def)
qed

lemma om_ReleaseLease_inv: "om_inv base s \<Longrightarrow> om_inv base (om_ReleaseLease i s)"
  using om_ReleaseLease_heap(1) [of i s] om_ReleaseLease_heap(2) [of s _ i]
  by (auto simp: om_inv_def om_ReleaseLease_core om_ReleaseLease_fields om_tracked_def)

lemma fold_om_Release:
  assumes "om_core base r s"
  shows "om_core base r (fold om_ReleaseLease is s)"
    and "om_closed (fst (fold om_ReleaseLease is s)) = om_closed (fst s)"
    and "om_leases (fst (fold om_ReleaseLease is s)) = om_leases (fst s)"
    and "om_reserved (fst (fold om_ReleaseLease is s)) = om_reserved (fst s)"
    and "length (om_heap (fst (fold om_ReleaseLease is s))) = length (om_heap (fst s))"
  using assms
  by (induction "is" arbitrary: s)
     (simp_all add: om_ReleaseLease_core om_ReleaseLease_fields om_ReleaseLease_heap(1))

lemma fold_om_Release_released:
  "j < length (om_heap (fst s)) \<Longrightarrow> l_released (om_heap (fst s) ! j) \<or> j \<in> set is \<Longrightarrow>
     l_released (om_heap (fst (fold om_ReleaseLease is s)) ! j)"
  by (rule fold_marks [where P = "\<lambda>j s. j < length (om_heap (fst s))" and
        M = "\<lambda>s j. l_released (om_heap (fst s) ! j)"])
     (simp_all add: om_ReleaseLease_heap)

text \<open>Returning part of the reservation to the governor.\<close>

lemma covers_unreserve:
  assumes "covers (om_base base r) heap g" and "\<And>c. 0 \<le> base c" and "0 \<le> n" and "n \<le> r"
  shows "covers (om_base base (r - n)) heap (Release ClassNonRevocable n g)"
proof (cases "n = 0")
  case True
  with assms show ?thesis by (simp add: Release_def)
next
  case False
  have inv: "gov_inv g" and ok: "leases_ok heap" using assms(1) by (simp_all add: covers_def)
  have le: "n \<le> g_allocated g ClassNonRevocable"
    using assms(1,3,4) held_nonneg [OF ok, of ClassNonRevocable] assms(2) [of ClassNonRevocable]
    by (simp add: covers_def om_base_def)
  from False assms(3) have "0 < n" by simp
  with assms(1,2,4) Release_simps(1) [OF inv this le] Release_inv [OF inv le] ok show ?thesis
    by (auto simp: covers_def om_base_def)
qed

lemma om_Release_inv:
  assumes "om_inv base s"
  shows "om_inv base (om_Release n s)"
proof (cases "0 < n")
  case True
  obtain om g where s: "s = (om, g)" by force
  define k where "k = (if n > om_reserved om then om_reserved om else n)"
  have core: "om_core base (om_reserved om) (om, g)" using assms by (simp add: om_inv_def s)
  note B = om_core_bounds [OF core]
  have k: "0 \<le> k" "k \<le> om_reserved om" using B(1) True by (auto simp: k_def)
  have cov: "covers (om_base base (om_reserved om - k)) (om_heap om) (Release ClassNonRevocable k g)"
    using core k by (intro covers_unreserve) (simp_all add: om_core_def)
  have eqs: "om_pinned om = om_reserved om" "om_used om = om_reserved om + om_revocable om"
    using core by (simp_all add: om_core_def)
  have "i64 (om_reserved om - k) = om_reserved om - k" using k B eqs by (intro i64_id) simp_all
  moreover have "sub_floor (om_pinned om) k = om_pinned om - k" "sub_floor (om_used om) k = om_used om - k"
    using k B eqs by (auto intro!: sub_floor_id)
  ultimately have "om_Release n s = (om\<lparr>om_reserved := om_reserved om - k, om_pinned := om_pinned om - k,
      om_used := om_used om - k\<rparr>, Release ClassNonRevocable k g)"
    using True by (simp add: om_Release_def s k_def Let_def)
  with assms cov k core show ?thesis by (auto simp: om_inv_def om_core_def om_tracked_def s)
next
  case False
  with assms show ?thesis by (cases s) (simp add: om_Release_def)
qed

lemma om_Close_inv:
  assumes "om_inv base s"
  shows "om_inv base (om_Close s)" and "\<forall>l \<in> set (om_heap (fst (om_Close s))). l_released l"
    and "om_used (fst (om_Close s)) = 0"
proof -
  obtain om g where s: "s = (om, g)" by force
  have *: "om_inv base (om_Close s) \<and> (\<forall>l \<in> set (om_heap (fst (om_Close s))). l_released l)"
  proof (cases "om_closed om")
    case True
    then have "om_Close s = s" by (simp add: s om_Close_def)
    with True assms show ?thesis by (auto simp: s om_inv_def om_tracked_def in_set_conv_nth)
  next
    case False
    define r where "r = om_reserved om"
    define s1 where "s1 = (om\<lparr>om_closed := True, om_leases := [], om_reserved := 0\<rparr>, g)"
    obtain om2 g2 where f: "fold om_ReleaseLease (om_leases om) s1 = (om2, g2)" by force
    have core: "om_core base r s1" using assms by (simp add: om_inv_def om_core_def s s1_def r_def)
    note F = fold_om_Release [OF core, where ?is = "om_leases om", unfolded f fst_conv]
      fold_om_Release_released [where ?is = "om_leases om" and s = s1, unfolded f fst_conv]
    have rel: "\<forall>l \<in> set (om_heap om2). l_released l"
    proof
      fix l assume "l \<in> set (om_heap om2)"
      then obtain j where "j < length (om_heap om2)" "l = om_heap om2 ! j" by (auto simp: in_set_conv_nth)
      with F(5) F(6) [of j] assms show "l_released l" by (auto simp: s s1_def om_inv_def om_tracked_def)
    qed
    have r: "0 \<le> r" "\<And>c. 0 \<le> base c" "om_used om2 \<le> om_maxUsed om2" "0 \<le> om_used om2"
      using F(1) om_core_bounds [OF F(1)] by (auto simp: om_core_def)
    have "covers (om_base base (r - r)) (om_heap om2) (Release ClassNonRevocable r g2)"
      using F(1) r by (intro covers_unreserve) (simp_all add: om_core_def)
    moreover have "\<not> 0 < r \<Longrightarrow> Release ClassNonRevocable r g2 = g2" by (simp add: Release_def)
    ultimately have cl: "om_Close s = (om2\<lparr>om_pinned := 0, om_revocable := 0, om_used := 0\<rparr>, Release ClassNonRevocable r g2)"
      and cov: "covers (om_base base 0) (om_heap om2) (Release ClassNonRevocable r g2)"
      using False f by (simp_all add: om_Close_def s s1_def Let_def r_def)
    from F(1-4) rel cov r show ?thesis
      by (auto simp: cl om_inv_def om_core_def om_tracked_def held_released s1_def)
  qed
  then show "om_inv base (om_Close s)" and "\<forall>l \<in> set (om_heap (fst (om_Close s))). l_released l" by blast+
  then have core: "om_core base (om_reserved (fst (om_Close s))) (om_Close s)"
    and "om_closed (fst (om_Close s)) \<Longrightarrow> om_reserved (fst (om_Close s)) = 0" by (simp_all add: om_inv_def)
  moreover have "om_closed (fst (om_Close s))"
  proof (cases "om_closed om")
    case False
    let ?s = "(om\<lparr>om_closed := True, om_leases := [], om_reserved := 0\<rparr>, g)"
    have "om_core base (om_reserved om) ?s" using assms by (simp add: om_inv_def om_core_def s)
    from fold_om_Release(2) [OF this, where ?is = "om_leases om"] False show ?thesis
      by (simp add: om_Close_def s Let_def case_prod_beta)
  qed (simp add: om_Close_def s)
  ultimately show "om_used (fst (om_Close s)) = 0"
    using * held_released [of "om_heap (fst (om_Close s))"]
    by (cases "om_Close s") (auto simp: om_core_def)
qed

lemma om_reserve_admitted:
  assumes core: "om_core base r (om, g)" and adm: "admitted ClassNonRevocable n g g'" and n: "0 < n"
  shows "om_core base (r + n) (om\<lparr>om_pinned := i64 (om_pinned om + n), om_used := i64 (om_used om + n),
      om_maxUsed := max (i64 (om_used om + n)) (om_maxUsed om), om_reserved := x\<rparr>, g')"
    and "i64 (r + n) = r + n"
proof -
  have cov: "covers (om_base base (r + n)) (om_heap om) g'"
    using core adm n by (auto simp: covers_def admitted_def om_base_def om_core_def)
  have inv: "gov_inv g" "gov_inv g'" using core adm by (simp_all add: om_core_def covers_def admitted_def)
  have tot: "g_totalAllocated g' = g_totalAllocated g + n"
    using adm inv class_sum_update [of "g_allocated g" ClassNonRevocable]
    by (simp add: admitted_def gov_inv_def)
  note B = om_core_bounds [OF core]
  have t: "g_totalAllocated g + n < 2 ^ 63" using inv(2) tot by (simp add: gov_inv_def)
  have eqs: "om_pinned om = r" "om_used om = r + om_revocable om" using core by (simp_all add: om_core_def)
  have w: "i64 (om_pinned om + n) = om_pinned om + n" "i64 (om_used om + n) = om_used om + n"
    using B t n eqs by (auto intro!: i64_id)
  then show "i64 (r + n) = r + n" using eqs by simp
  show "om_core base (r + n) (om\<lparr>om_pinned := i64 (om_pinned om + n), om_used := i64 (om_used om + n),
      om_maxUsed := max (i64 (om_used om + n)) (om_maxUsed om), om_reserved := x\<rparr>, g')"
    using core cov w n by (auto simp: om_core_def)
qed

lemma om_inv_gov:
  "om_inv base (om, g) \<Longrightarrow> gov_inv g' \<Longrightarrow> g_allocated g' = g_allocated g \<Longrightarrow> om_inv base (om, g')"
  by (auto simp: om_inv_def om_core_def covers_def)

lemma om_Reserve_inv:
  assumes inv: "om_inv base s" and run: "quiet run" and fits: "g_totalAllocated (snd s) + n < 2 ^ 63"
    and b: "om_Reserve run now id n s = (om', g', r)"
  shows "om_inv base (om', g')"
    and "r = None \<Longrightarrow> 0 < n \<Longrightarrow> om_reserved om' = om_reserved (fst s) + n \<and> om_heap om' = om_heap (fst s)"
    and "r \<noteq> None \<Longrightarrow> om' = fst s"
proof -
  obtain om g where s: "s = (om, g)" by force
  obtain g1 e where R: "Reserve run now ClassNonRevocable n g = (g1, e)" by force
  have core: "om_core base (om_reserved om) (om, g)" using inv by (simp add: s om_inv_def)
  then have gi: "gov_inv g" by (simp add: om_core_def covers_def)
  note A = Reserve_admitted [OF run gi _ _ R]
  have *: "om_inv base (om', g') \<and>
      (r = None \<and> 0 < n \<longrightarrow> om_reserved om' = om_reserved om + n \<and> om_heap om' = om_heap om) \<and>
      (r \<noteq> None \<longrightarrow> om' = om)"
  proof (cases "0 < n \<and> \<not> om_closed om")
    case False
    with inv b show ?thesis by (auto simp: s om_Reserve_def split: if_splits)
  next
    case True
    show ?thesis
    proof (cases e)
      case None
      then have adm: "admitted ClassNonRevocable n g g1" using A(1) True fits by (simp add: s)
      note G = om_reserve_admitted(1) [OF core adm, of "om_reserved om + n"] om_reserve_admitted(2) [OF core adm]
      have "om' = om\<lparr>om_reserved := i64 (om_reserved om + n), om_pinned := i64 (om_pinned om + n),
          om_used := i64 (om_used om + n), om_maxUsed := max (i64 (om_used om + n)) (om_maxUsed om)\<rparr>"
        "g' = g1" "r = None"
        using b True R None by (auto simp: s om_Reserve_def Let_def)
      with G True inv show ?thesis by (auto simp: s om_inv_def om_tracked_def om_core_def)
    next
      case (Some err)
      with A(2) True fits b R inv show ?thesis by (auto simp: s om_Reserve_def intro: om_inv_gov)
    qed
  qed
  then show "om_inv base (om', g')"
    and "r = None \<Longrightarrow> 0 < n \<Longrightarrow> om_reserved om' = om_reserved (fst s) + n \<and> om_heap om' = om_heap (fst s)"
    and "r \<noteq> None \<Longrightarrow> om' = fst s" by (auto simp: s)
qed

lemma TryGrow_inv:
  assumes inv: "om_inv base s" and run: "quiet run" and fits: "g_totalAllocated (snd s) + n < 2 ^ 63"
    and b: "TryGrow run now id n s = (om', g', r)"
  shows "om_inv base (om', g')"
proof -
  obtain om g where s: "s = (om, g)" by force
  obtain g1 e where R: "Reserve run now ClassSpillable n g = (g1, e)" by force
  have core: "om_core base (om_reserved om) (om, g)" using inv by (simp add: s om_inv_def)
  then have gi: "gov_inv g" by (simp add: om_core_def covers_def)
  note A = Reserve_admitted [OF run gi _ _ R]
  show ?thesis
  proof (cases "0 < n \<and> \<not> om_closed om")
    case False
    with inv b show ?thesis
      by (auto simp: s TryGrow_def om_inv_def om_core_def covers_def leases_ok_def releasedLease_def
          held_by_def om_tracked_def nth_append less_Suc_eq split: if_splits)
  next
    case True
    show ?thesis
    proof (cases e)
      case None
      let ?heap = "om_heap om @ [\<lparr>l_class = ClassSpillable, l_bytes = n, l_released = False\<rparr>]"
      have adm: "admitted ClassSpillable n g g1" using A(1) True fits None by (simp add: s)
      have cov: "covers (om_base base (om_reserved om)) ?heap g1"
        using covers_admitted [OF _ adm] core True by (simp add: om_core_def)
      have tot: "g_totalAllocated g1 = g_totalAllocated g + n"
        using adm gi class_sum_update [of "g_allocated g" ClassSpillable]
        by (simp add: admitted_def gov_inv_def)
      have t: "g_totalAllocated g + n < 2 ^ 63" using fits by (simp add: s)
      note B = om_core_bounds [OF core]
      have w: "i64 (om_revocable om + n) = om_revocable om + n" "i64 (om_used om + n) = om_used om + n"
        using B t True core by (auto simp: om_core_def intro!: i64_id)
      have "om' = om\<lparr>om_heap := ?heap, om_leases := om_leases om @ [length (om_heap om)],
          om_revocable := om_revocable om + n, om_used := om_used om + n,
          om_maxUsed := max (om_used om + n) (om_maxUsed om)\<rparr>" "g' = g1"
        using b True R None w by (auto simp: s TryGrow_def Let_def)
      with cov core inv True show ?thesis
        by (auto simp: s om_inv_def om_core_def om_tracked_def held_by_def nth_append less_Suc_eq)
    next
      case (Some err)
      with A(2) True fits b R inv show ?thesis by (auto simp: s TryGrow_def intro: om_inv_gov)
    qed
  qed
qed

inductive operator_reachable :: "'cb governor \<Rightarrow> operatorMemory \<times> 'cb governor \<Rightarrow> bool" for g0 where
  operator_new: "gov_inv g0 \<Longrightarrow> operator_reachable g0 (NewOperatorMemory, g0)"
| operator_reserve: "operator_reachable g0 s \<Longrightarrow> quiet run \<Longrightarrow> g_totalAllocated (snd s) + n < 2 ^ 63 \<Longrightarrow>
    om_Reserve run now id n s = (om', g', r) \<Longrightarrow> operator_reachable g0 (om', g')"
| operator_grow: "operator_reachable g0 s \<Longrightarrow> quiet run \<Longrightarrow> g_totalAllocated (snd s) + n < 2 ^ 63 \<Longrightarrow>
    TryGrow run now id n s = (om', g', r') \<Longrightarrow> operator_reachable g0 (om', g')"
| operator_release: "operator_reachable g0 s \<Longrightarrow> operator_reachable g0 (om_Release n s)"
| operator_lease: "operator_reachable g0 s \<Longrightarrow> operator_reachable g0 (om_ReleaseLease i s)"
| operator_close: "operator_reachable g0 s \<Longrightarrow> operator_reachable g0 (om_Close s)"

lemma om_inv_new: "gov_inv g \<Longrightarrow> om_inv (g_allocated g) (NewOperatorMemory, g)"
  by (simp add: om_inv_def om_core_def covers_def NewOperatorMemory_def leases_ok_def om_tracked_def
      om_base_def gov_inv_nonneg)

lemma operator_reachable_inv: "operator_reachable g0 s \<Longrightarrow> om_inv (g_allocated g0) s"
  by (induction rule: operator_reachable.induct)
     (simp_all add: om_inv_new om_Reserve_inv TryGrow_inv om_Release_inv om_ReleaseLease_inv om_Close_inv)

subsection \<open>Properties\<close>

text \<open>
  (C34) Closing a query budget returns everything: whatever sequence of borrowing, releasing
  (leases may be released repeatedly) and closing led to a budget, after \<open>Close\<close> every lease ever
  handed out is released, the per-class counters are zero, and the governor's allocations are
  exactly those from before the query.
\<close>

theorem budget_close_returns_all:
  assumes "budget_reachable g0 s"
  shows "g_allocated (snd (qb_Close s)) = g_allocated g0 \<and>
    filter (\<lambda>l. \<not> l_released l) (qb_heap (fst (qb_Close s))) = [] \<and>
    qb_byClass (fst (qb_Close s)) = (\<lambda>_. 0) \<and> qb_closed (fst (qb_Close s))"
proof -
  note inv = budget_reachable_inv [OF assms]
  note C = qb_Close_inv [OF inv]
  have h: "held (qb_heap (fst (qb_Close s))) c = 0" for c using C(2) by (rule held_released)
  have "g_allocated (snd (qb_Close s)) c = g_allocated g0 c \<and> qb_byClass (fst (qb_Close s)) c = 0" for c
    using C(1) h by (auto simp: qb_inv_def qb_core_def covers_def case_prod_beta)
  with C(2,3) show ?thesis by auto
qed

lemma budget_example:
  "\<exists>s. budget_reachable (NewGovernor \<lparr>TotalLimit = 100, ClassLimits = (\<lambda>_. 0)\<rparr> :: unit governor) s \<and>
     PinnedBytes (fst s) = 40"
proof -
  let ?g = "NewGovernor \<lparr>TotalLimit = 100, ClassLimits = (\<lambda>_. 0)\<rparr> :: unit governor"
  have g: "gov_inv ?g" by (simp add: gov_inv_def NewGovernor_def)
  obtain qb g' r where b: "TryBorrow 0 id ClassNonRevocable 40 (NewQueryBudget, ?g) = (qb, g', r)"
    by (metis prod_cases3)
  then have "PinnedBytes qb = 40"
    by (auto simp: TryBorrow_def TryReserve_def over_class_limit_def over_total_limit_def NewGovernor_def
        NewQueryBudget_def qb_track_def PinnedBytes_def i64_def Let_def)
  moreover have "budget_reachable ?g (qb, g')"
    by (rule budget_reachable.budget_try [OF budget_reachable.budget_new [OF g] _ b]) (simp add: NewGovernor_def)
  ultimately show ?thesis by (intro exI [of _ "(qb, g')"]) simp
qed

theorem budget_close_returns_all_witness:
  "\<exists>s :: queryBudget \<times> unit governor. PinnedBytes (fst s) = 40 \<and>
    g_allocated (snd (qb_Close s)) =
      g_allocated (NewGovernor \<lparr>TotalLimit = 100, ClassLimits = (\<lambda>_. 0)\<rparr> :: unit governor) \<and>
    filter (\<lambda>l. \<not> l_released l) (qb_heap (fst (qb_Close s))) = [] \<and>
    qb_byClass (fst (qb_Close s)) = (\<lambda>_. 0) \<and> qb_closed (fst (qb_Close s))"
proof -
  obtain s where s: "budget_reachable (NewGovernor \<lparr>TotalLimit = 100, ClassLimits = (\<lambda>_. 0)\<rparr> :: unit governor) s"
    "PinnedBytes (fst s) = 40" using budget_example by blast
  from budget_close_returns_all [OF s(1)] s(2) show ?thesis by (intro exI [of _ s]) simp
qed

text \<open>
  The budget's counters are exact: at any time the bytes a query is charged for in a class
  are the bytes of its outstanding leases in that class, and the governor holds exactly these on
  top of what it held before the query.
\<close>

theorem budget_counters_exact:
  assumes "budget_reachable g0 s"
  shows "qb_byClass (fst s) c = held (qb_heap (fst s)) c \<and>
    g_allocated (snd s) c = g_allocated g0 c + held (qb_heap (fst s)) c"
  using budget_reachable_inv [OF assms] by (auto simp: qb_inv_def qb_core_def covers_def case_prod_beta)

theorem budget_counters_exact_witness:
  "\<exists>s :: queryBudget \<times> unit governor. PinnedBytes (fst s) = 40 \<and>
    qb_byClass (fst s) ClassNonRevocable = held (qb_heap (fst s)) ClassNonRevocable \<and>
    g_allocated (snd s) ClassNonRevocable =
      g_allocated (NewGovernor \<lparr>TotalLimit = 100, ClassLimits = (\<lambda>_. 0)\<rparr> :: unit governor) ClassNonRevocable
      + held (qb_heap (fst s)) ClassNonRevocable"
proof -
  obtain s where s: "budget_reachable (NewGovernor \<lparr>TotalLimit = 100, ClassLimits = (\<lambda>_. 0)\<rparr> :: unit governor) s"
    "PinnedBytes (fst s) = 40" using budget_example by blast
  from budget_counters_exact [OF s(1), of ClassNonRevocable] s(2) show ?thesis by (intro exI [of _ s]) simp
qed

text \<open>
  No leak when a budget is closed during a borrow: if \<open>Close\<close> runs between the governor's
  admission and the second critical section of \<open>Borrow\<close>, the borrow fails, with \<open>ErrClosed\<close> unless
  the governor refused already, and the governor's allocations are those from before the query.
\<close>

theorem borrow_close_race:
  assumes "budget_reachable g0 (qb, g)" and "quiet run" and "0 < n" and "g_totalAllocated g + n < 2 ^ 63"
    and "Borrow run now qb_Close c n (qb, g) = (qb', g', r)" and "\<not> qb_closed qb"
  shows "r = Inl ErrClosed \<and> g_allocated g' = g_allocated g0 \<or>
    r = Inl ErrMemoryPressure \<and> g_allocated g' = g_allocated g"
proof -
  have inv: "qb_inv (g_allocated g0) (qb, g)" by (rule budget_reachable_inv [OF assms(1)])
  then have gi: "gov_inv g" by (simp add: qb_inv_def qb_core_def covers_def)
  obtain g1 e where R: "Reserve run now c n g = (g1, e)" by force
  note A = Reserve_admitted [OF assms(2) gi assms(3,4) R]
  show ?thesis
  proof (cases e)
    case (Some err)
    have "err = ErrMemoryPressure"
      using R Some by (auto simp: Reserve_def Let_def split: if_splits prod.splits)
    with Some A(2) assms(3,5,6) R show ?thesis by (auto simp: Borrow_def)
  next
    case None
    define base where "base = (g_allocated g0)(c := g_allocated g0 c + n)"
    obtain qb2 g3 where cl: "qb_Close (qb, g1) = (qb2, g3)" by force
    obtain g4 qb4 r4 where t: "qb_track c n (qb2, g3) = (qb4, g4, r4)" by (metis prod_cases3)
    have adm: "admitted c n g g1" using A(1) None by simp
    have "qb_inv base (qb, g1)"
      using inv adm assms(3) by (auto simp: qb_inv_def qb_core_def covers_def admitted_def base_def)
    note C = qb_Close_inv [OF this, unfolded cl fst_conv]
    have alloc: "gov_inv g3" "g_allocated g3 d = base d" for d
      using C(1,2) held_released [of "qb_heap qb2"] by (auto simp: qb_inv_def qb_core_def covers_def)
    have n: "n \<le> g_allocated g3 c"
      using alloc(2) [of c] inv by (simp add: base_def qb_inv_def qb_core_def covers_def)
    note T = qb_track_closed [OF assms(3) C(3) t]
    have "g_allocated g4 = g_allocated g0"
      using Release_simps(1) [OF alloc(1) assms(3) n] alloc(2) by (auto simp: T(2) base_def fun_eq_iff)
    moreover have "r = Inl ErrClosed" "g' = g4"
      using assms(3,5,6) R None cl t T(1) by (auto simp: Borrow_def)
    ultimately show ?thesis by simp
  qed
qed

theorem borrow_close_race_witness:
  "let g = NewGovernor \<lparr>TotalLimit = 100, ClassLimits = (\<lambda>_. 0)\<rparr> :: unit governor;
       (qb', g', r) = Borrow (\<lambda>_ _ g. (0, g)) 0 qb_Close ClassSpillable 60 (NewQueryBudget, g)
   in r = Inl ErrClosed \<and> g_allocated g' = g_allocated g"
proof -
  let ?g = "NewGovernor \<lparr>TotalLimit = 100, ClassLimits = (\<lambda>_. 0)\<rparr> :: unit governor"
  obtain qb' g' r where b: "Borrow (\<lambda>_ _ g. (0, g)) 0 qb_Close ClassSpillable 60 (NewQueryBudget, ?g) = (qb', g', r)"
    by (metis prod_cases3)
  have "gov_inv ?g" by (simp add: gov_inv_def NewGovernor_def)
  then have "budget_reachable ?g (NewQueryBudget, ?g)" by (rule budget_reachable.budget_new)
  from borrow_close_race [OF this _ _ _ b]
  have "r = Inl ErrClosed \<and> g_allocated g' = g_allocated ?g \<or> r = Inl ErrMemoryPressure"
    by (simp add: quiet_def NewGovernor_def NewQueryBudget_def) blast
  moreover have "r \<noteq> Inl ErrMemoryPressure"
    using b by (auto simp: Borrow_def Reserve_def NewQueryBudget_def NewGovernor_def over_class_limit_def
        over_total_limit_def i64_def Let_def split: prod.splits option.splits)
  ultimately show ?thesis using b by simp
qed

text \<open>
  Operator memory is exact and closes clean: after any sequence of reservations, growth,
  partial and lease releases and closes, pinned bytes are the reservation, revocable bytes are
  the outstanding leases, used is their sum and at most the recorded maximum; and \<open>Close\<close> sets
  used to zero and leaves the governor as it was before the operator.
\<close>

theorem operator_memory_exact:
  assumes "operator_reachable g0 s"
  shows "om_pinned (fst s) = om_reserved (fst s) \<and>
    om_revocable (fst s) = held (om_heap (fst s)) ClassSpillable \<and>
    om_used (fst s) = om_pinned (fst s) + om_revocable (fst s) \<and> om_used (fst s) \<le> om_maxUsed (fst s) \<and>
    om_used (fst (om_Close s)) = 0 \<and> g_allocated (snd (om_Close s)) = g_allocated g0"
proof -
  note inv = operator_reachable_inv [OF assms]
  note C = om_Close_inv [OF inv]
  have h: "held (om_heap (fst (om_Close s))) c = 0" for c using C(2) by (rule held_released)
  obtain om' g' where cl: "om_Close s = (om', g')" by force
  have core: "om_core (g_allocated g0) (om_reserved om') (om', g')" using C(1) by (simp add: om_inv_def cl)
  have "om_reserved om' = 0" using core C(3) h by (auto simp: om_core_def cl)
  then have "g_allocated g' c = g_allocated g0 c" for c
    using core h by (auto simp: om_core_def covers_def om_base_def cl)
  then have "g_allocated (snd (om_Close s)) = g_allocated g0" by (auto simp: cl)
  with inv C(3) show ?thesis by (auto simp: om_inv_def om_core_def case_prod_beta)
qed

theorem operator_memory_exact_witness:
  "\<exists>s :: operatorMemory \<times> unit governor. om_used (fst s) = 40 \<and> om_pinned (fst s) = om_reserved (fst s) \<and>
    om_revocable (fst s) = held (om_heap (fst s)) ClassSpillable \<and>
    om_used (fst s) = om_pinned (fst s) + om_revocable (fst s) \<and> om_used (fst s) \<le> om_maxUsed (fst s) \<and>
    om_used (fst (om_Close s)) = 0 \<and>
    g_allocated (snd (om_Close s)) =
      g_allocated (NewGovernor \<lparr>TotalLimit = 100, ClassLimits = (\<lambda>_. 0)\<rparr> :: unit governor)"
proof -
  let ?g = "NewGovernor \<lparr>TotalLimit = 100, ClassLimits = (\<lambda>_. 0)\<rparr> :: unit governor"
  let ?run = "\<lambda>_ _ g. (0, g)"
  have g: "gov_inv ?g" by (simp add: gov_inv_def NewGovernor_def)
  obtain om g' r where b: "TryGrow ?run 0 id 40 (NewOperatorMemory, ?g) = (om, g', r)"
    by (metis prod_cases3)
  then have "om_used om = 40"
    by (auto simp: TryGrow_def Reserve_def over_class_limit_def over_total_limit_def NewGovernor_def
        NewOperatorMemory_def i64_def Let_def)
  moreover have "operator_reachable ?g (om, g')"
    by (rule operator_reachable.operator_grow [OF operator_reachable.operator_new [OF g] _ _ b])
       (simp_all add: quiet_def NewGovernor_def)
  from operator_memory_exact [OF this] calculation show ?thesis by (intro exI [of _ "(om, g')"]) simp
qed

text \<open>
  Revocation counts twice: the hook that \<open>SetOnRevoke\<close> registers subtracts the freed bytes
  from the operator's counters although releasing the lease already did. When the operator's
  callback frees an outstanding lease of n bytes and reports n, the operator's revocable counter
  falls by 2n (floored at zero) while its outstanding leases fall by n.
\<close>

theorem revoke_counts_twice:
  assumes "operator_reachable g0 (om, g)" and "i < length (om_heap om)"
    and "\<not> l_released (om_heap om ! i)" and "n = l_bytes (om_heap om ! i)"
  shows "let (freed, om', g') = om_revoke (Some (\<lambda>t s. (n, om_ReleaseLease i s))) t (om, g)
    in om_revocable om' = max 0 (om_revocable om - 2 * n) \<and>
       held (om_heap om') ClassSpillable = om_revocable om - n"
proof -
  obtain om1 g1 where R: "om_ReleaseLease i (om, g) = (om1, g1)" by force
  have inv: "om_inv (g_allocated g0) (om, g)" by (rule operator_reachable_inv [OF assms(1)])
  then have core: "om_core (g_allocated g0) (om_reserved om) (om, g)" by (simp add: om_inv_def)
  have core1: "om_core (g_allocated g0) (om_reserved om) (om1, g1)"
    using om_ReleaseLease_core [OF core, of i] by (simp add: R)
  let ?l = "om_heap om ! i"
  have ok: "leases_ok (om_heap om)" and cls: "l_class ?l = ClassSpillable"
    using core assms(2) by (auto simp: om_core_def covers_def)
  have n: "0 < n" using ok assms by (auto simp: leases_ok_def)
  have "om_heap om1 = (om_heap om)[i := ?l\<lparr>l_released := True\<rparr>]"
    using R assms(2,3) by (auto simp: om_ReleaseLease_def release_lease_def Let_def case_prod_beta)
  then have h1: "held (om_heap om1) ClassSpillable = om_revocable om - n"
    using assms(2-4) cls core by (simp add: held_update held_by_def om_core_def)
  then have r1: "om_revocable om1 = om_revocable om - n" "0 \<le> om_revocable om1" "om_revocable om1 < 2 ^ 63"
    using core1 om_core_bounds [OF core1] by (auto simp: om_core_def)
  have "n \<le> om_revocable om" using r1 by simp
  then have "i64 (om_revocable om1 - n) = om_revocable om1 - n"
    using n r1 om_core_bounds [OF core] core by (auto simp: om_core_def intro!: i64_id)
  with n h1 r1(1) show ?thesis by (simp add: om_revoke_def R sub_floor_def Let_def)
qed

theorem revoke_counts_twice_witness:
  "let g = NewGovernor \<lparr>TotalLimit = 1000, ClassLimits = (\<lambda>_. 0)\<rparr> :: unit governor;
       (om1, g1, r1) = TryGrow (\<lambda>_ _ g. (0, g)) 0 id 100 (NewOperatorMemory, g);
       (om2, g2, r2) = TryGrow (\<lambda>_ _ g. (0, g)) 0 id 100 (om1, g1);
       (freed, om3, g3) = om_revoke (Some (\<lambda>t s. (100, om_ReleaseLease 0 s))) 100 (om2, g2)
   in om_revocable om3 = 0 \<and> held (om_heap om3) ClassSpillable = 100"
proof -
  let ?g = "NewGovernor \<lparr>TotalLimit = 1000, ClassLimits = (\<lambda>_. 0)\<rparr> :: unit governor"
  let ?run = "\<lambda>_ _ g. (0, g)"
  have g: "gov_inv ?g" by (simp add: gov_inv_def NewGovernor_def)
  obtain om1 g1 r1 where b1: "TryGrow ?run 0 id 100 (NewOperatorMemory, ?g) = (om1, g1, r1)"
    by (metis prod_cases3)
  obtain om2 g2 r2 where b2: "TryGrow ?run 0 id 100 (om1, g1) = (om2, g2, r2)"
    by (metis prod_cases3)
  note defs = TryGrow_def Reserve_def over_class_limit_def over_total_limit_def NewGovernor_def
    NewOperatorMemory_def i64_def Let_def admit_def recordRollingPeakLocked_def
  have s1: "g_totalAllocated g1 = 100"
    using b1 by (auto simp: defs)
  have r1: "operator_reachable ?g (om1, g1)"
    by (rule operator_reachable.operator_grow [OF operator_reachable.operator_new [OF g] _ _ b1])
       (simp_all add: quiet_def NewGovernor_def)
  have r2: "operator_reachable ?g (om2, g2)"
    by (rule operator_reachable.operator_grow [OF r1 _ _ b2]) (simp_all add: quiet_def s1)
  have "om_revocable om2 = 200" "length (om_heap om2) = 2"
    "\<not> l_released (om_heap om2 ! 0)" "l_bytes (om_heap om2 ! 0) = 100"
    using b1 b2 by (auto simp: defs)
  with revoke_counts_twice [OF r2, of 0 100 100] b1 b2 show ?thesis by (simp add: case_prod_beta Let_def)
qed

end
