(* ===== verification/Memory_Account.thy ===== *)
theory Memory_Account
  imports Memory_Budget
begin

text \<open>
  \<^verbatim>\<open>src/pkg/memgov/account.go\<close>, \<^verbatim>\<open>adapter.go\<close>, \<^verbatim>\<open>budget_adapter.go\<close>, \<^verbatim>\<open>errors.go\<close>,
  \<^verbatim>\<open>nop.go\<close>: the accounts that query operators charge their memory to. An account either
  reserves from an operator memory or directly from one class of the governor, and reports to the
  per-query tracker. The interface \<open>MemoryAccount\<close> is the locale \<open>memory_account\<close>, interpreted for
  the adapter and for the no-op account.
\<close>

subsection \<open>Errors\<close>

text \<open>
  The two structured errors beside the sentinel values of the governor. \<open>Wrapped\<close> is an error that
  wraps another one, which \<open>errors.Is\<close> and \<open>errors.As\<close> look through.
\<close>

datatype mem_error =
    Sentinel gov_error
  | BudgetExceededError string string int int int
  | PoolExhaustedError string int int int
  | Wrapped string mem_error
  | OtherError string

fun error_chain :: "mem_error \<Rightarrow> mem_error list" where
  "error_chain (Wrapped msg e) = Wrapped msg e # error_chain e"
| "error_chain e = [e]"

definition errors_Is :: "mem_error \<Rightarrow> gov_error \<Rightarrow> bool" where
  "errors_Is e target \<longleftrightarrow> Sentinel target \<in> set (error_chain e)"

fun is_BudgetExceededError :: "mem_error \<Rightarrow> bool" where
  "is_BudgetExceededError (BudgetExceededError _ _ _ _ _) = True"
| "is_BudgetExceededError _ = False"

fun is_PoolExhaustedError :: "mem_error \<Rightarrow> bool" where
  "is_PoolExhaustedError (PoolExhaustedError _ _ _ _) = True"
| "is_PoolExhaustedError _ = False"

definition IsBudgetExceeded :: "mem_error \<Rightarrow> bool" where
  "IsBudgetExceeded err \<longleftrightarrow>
     list_ex is_BudgetExceededError (error_chain err) \<or> errors_Is err ErrQueryBudgetExceeded"

definition IsPoolExhausted :: "mem_error \<Rightarrow> bool" where
  "IsPoolExhausted err \<longleftrightarrow>
     list_ex is_PoolExhaustedError (error_chain err) \<or> errors_Is err ErrMemoryPressure"

definition IsMemoryExhausted :: "mem_error \<Rightarrow> bool" where
  "IsMemoryExhausted err \<longleftrightarrow>
     IsBudgetExceeded err \<or> IsPoolExhausted err \<or> errors_Is err ErrMemoryPressure \<or>
     errors_Is err ErrQueryBudgetExceeded"

subsection \<open>The per-query tracker\<close>

record BudgetAdapter =
  ba_budget :: queryBudget
  ba_limit :: int
  ba_allocated :: int
  ba_peak :: int

definition NewBudgetAdapter :: "queryBudget \<Rightarrow> BudgetAdapter" where
  "NewBudgetAdapter budget = \<lparr>ba_budget = budget, ba_limit = 0, ba_allocated = 0, ba_peak = 0\<rparr>"

definition NewBudgetAdapterWithLimit :: "queryBudget \<Rightarrow> int \<Rightarrow> BudgetAdapter" where
  "NewBudgetAdapterWithLimit budget limit = \<lparr>ba_budget = budget, ba_limit = limit, ba_allocated = 0, ba_peak = 0\<rparr>"

definition trackGrow :: "int \<Rightarrow> BudgetAdapter \<Rightarrow> BudgetAdapter" where
  "trackGrow n ba =
     (let cur = i64 (ba_allocated ba + n); old = ba_peak ba in
        ba\<lparr>ba_allocated := cur, ba_peak := (if cur \<le> old then old else cur)\<rparr>)"

definition trackShrink :: "int \<Rightarrow> BudgetAdapter \<Rightarrow> BudgetAdapter" where
  "trackShrink n ba = ba\<lparr>ba_allocated := i64 (ba_allocated ba + - n)\<rparr>"

definition BudgetAdapter_Close :: "BudgetAdapter \<times> 'cb governor \<Rightarrow> BudgetAdapter \<times> 'cb governor" where
  "BudgetAdapter_Close = (\<lambda>(ba, g).
     case qb_Close (ba_budget ba, g) of (qb, g') \<Rightarrow> (ba\<lparr>ba_budget := qb\<rparr>, g'))"

subsection \<open>Accounts\<close>

text \<open>\<open>gov \<noteq> nil\<close> selects the class, otherwise the operator memory is used.\<close>

datatype account_backend = GovBacked MemoryClass | OperatorBacked operatorMemory

record AccountAdapter =
  aa_backend :: account_backend
  aa_tracked :: bool
  aa_used :: int
  aa_maxUsed :: int

definition NewAccountAdapter :: "operatorMemory \<Rightarrow> AccountAdapter" where
  "NewAccountAdapter om = \<lparr>aa_backend = OperatorBacked om, aa_tracked = False, aa_used = 0, aa_maxUsed = 0\<rparr>"

definition newTrackedAccountAdapter :: "operatorMemory \<Rightarrow> AccountAdapter" where
  "newTrackedAccountAdapter om = \<lparr>aa_backend = OperatorBacked om, aa_tracked = True, aa_used = 0, aa_maxUsed = 0\<rparr>"

definition newTrackedClassAccountAdapter :: "MemoryClass \<Rightarrow> AccountAdapter" where
  "newTrackedClassAccountAdapter c = \<lparr>aa_backend = GovBacked c, aa_tracked = True, aa_used = 0, aa_maxUsed = 0\<rparr>"

definition NewClassAccount :: "MemoryClass \<Rightarrow> AccountAdapter" where
  "NewClassAccount c = \<lparr>aa_backend = GovBacked c, aa_tracked = False, aa_used = 0, aa_maxUsed = 0\<rparr>"

definition NewAccount :: AccountAdapter where
  "NewAccount = newTrackedAccountAdapter NewOperatorMemory"

definition NewSpillableAccount :: AccountAdapter where
  "NewSpillableAccount = newTrackedClassAccountAdapter ClassSpillable"

definition NewMetadataAccount :: AccountAdapter where
  "NewMetadataAccount = newTrackedClassAccountAdapter ClassMetadata"

text \<open>
  \<open>Grow\<close> checks the query limit, reserves, and only then adds to the tracker. Accounts of one query
  belong to different goroutines: \<open>env\<close> is what the others do to the tracker and the governor
  between the check and the reservation.
\<close>

definition Grow ::
  "('cb \<Rightarrow> int \<Rightarrow> 'cb governor \<Rightarrow> int \<times> 'cb governor) \<Rightarrow> int
     \<Rightarrow> (BudgetAdapter \<times> 'cb governor \<Rightarrow> BudgetAdapter \<times> 'cb governor)
     \<Rightarrow> int \<Rightarrow> AccountAdapter \<times> BudgetAdapter \<times> 'cb governor
     \<Rightarrow> AccountAdapter \<times> BudgetAdapter \<times> 'cb governor \<times> gov_error option"
where
  "Grow run now env n = (\<lambda>(a, ba, g).
     if n \<le> 0 then (a, ba, g, None)
     else if aa_tracked a \<and> ba_limit ba > 0 \<and> i64 (ba_allocated ba + n) > ba_limit ba
     then (a, ba, g, Some ErrQueryBudgetExceeded)
     else (case env (ba, g) of (ba, g) \<Rightarrow>
       (case (case aa_backend a of
                GovBacked c \<Rightarrow> (case Reserve run now c n g of (g', e) \<Rightarrow> (GovBacked c, g', e))
              | OperatorBacked om \<Rightarrow>
                  (case om_Reserve run now id n (om, g) of (om', g', e) \<Rightarrow> (OperatorBacked om', g', e))) of
          (b, g', Some err) \<Rightarrow> (a\<lparr>aa_backend := b\<rparr>, ba, g', Some err)
        | (b, g', None) \<Rightarrow>
            let used = i64 (aa_used a + n) in
            (a\<lparr>aa_backend := b, aa_used := used,
               aa_maxUsed := (if used > aa_maxUsed a then used else aa_maxUsed a)\<rparr>,
             (if aa_tracked a then trackGrow n ba else ba), g', None))))"

definition account_release :: "int \<Rightarrow> account_backend \<times> 'cb governor \<Rightarrow> account_backend \<times> 'cb governor" where
  "account_release n = (\<lambda>(b, g).
     case b of
       GovBacked c \<Rightarrow> (GovBacked c, Release c n g)
     | OperatorBacked om \<Rightarrow> (case om_Release n (om, g) of (om', g') \<Rightarrow> (OperatorBacked om', g')))"

definition Shrink ::
  "int \<Rightarrow> AccountAdapter \<times> BudgetAdapter \<times> 'cb governor \<Rightarrow> AccountAdapter \<times> BudgetAdapter \<times> 'cb governor"
where
  "Shrink n = (\<lambda>(a, ba, g).
     if n \<le> 0 then (a, ba, g)
     else let n = (if n > aa_used a then aa_used a else n) in
       (case account_release n (aa_backend a, g) of
          (b, g') \<Rightarrow> (a\<lparr>aa_used := i64 (aa_used a - n), aa_backend := b\<rparr>,
                      (if aa_tracked a then trackShrink n ba else ba), g')))"

definition account_close :: "int \<Rightarrow> account_backend \<times> 'cb governor \<Rightarrow> account_backend \<times> 'cb governor" where
  "account_close remaining = (\<lambda>(b, g).
     case b of
       GovBacked c \<Rightarrow> (GovBacked c, Release c remaining g)
     | OperatorBacked om \<Rightarrow> (case om_Close (om, g) of (om', g') \<Rightarrow> (OperatorBacked om', g')))"

definition Account_Close ::
  "AccountAdapter \<times> BudgetAdapter \<times> 'cb governor \<Rightarrow> AccountAdapter \<times> BudgetAdapter \<times> 'cb governor"
where
  "Account_Close = (\<lambda>(a, ba, g).
     let remaining = aa_used a in
       (case account_close remaining (aa_backend a, g) of
          (b, g') \<Rightarrow> (a\<lparr>aa_backend := b, aa_used := 0\<rparr>,
                      (if aa_tracked a \<and> remaining > 0 then trackShrink remaining ba else ba), g')))"

subsection \<open>The no-op account and governor\<close>

definition nop_Grow :: "int \<Rightarrow> unit \<Rightarrow> unit \<times> gov_error option" where "nop_Grow n s = (s, None)"
definition nop_Shrink :: "int \<Rightarrow> unit \<Rightarrow> unit" where "nop_Shrink n s = s"
definition nop_Close :: "unit \<Rightarrow> unit" where "nop_Close s = s"
definition nop_Used :: "unit \<Rightarrow> int" where "nop_Used s = 0"

subsection \<open>What one operation does to account, tracker and governor\<close>

definition account_class :: "AccountAdapter \<Rightarrow> MemoryClass" where
  "account_class a = (case aa_backend a of GovBacked c \<Rightarrow> c | OperatorBacked _ \<Rightarrow> ClassNonRevocable)"

text \<open>An operator memory that is driven by its account alone.\<close>

definition om_plain :: "int \<Rightarrow> operatorMemory \<Rightarrow> bool" where
  "om_plain u om \<longleftrightarrow> om_reserved om = u \<and> om_pinned om = u \<and> om_used om = u \<and> om_heap om = [] \<and>
     om_leases om = [] \<and> (om_closed om \<longrightarrow> u = 0)"

definition account_ok :: "AccountAdapter \<Rightarrow> bool" where
  "account_ok a \<longleftrightarrow> 0 \<le> aa_used a \<and> aa_used a \<le> aa_maxUsed a \<and>
     (case aa_backend a of GovBacked _ \<Rightarrow> True | OperatorBacked om \<Rightarrow> om_plain (aa_used a) om)"

text \<open>The effect on the account and the governor: the used bytes and the class move together.\<close>

definition moved :: "int \<Rightarrow> AccountAdapter \<times> 'cb governor \<Rightarrow> AccountAdapter \<times> 'cb governor \<Rightarrow> bool" where
  "moved d = (\<lambda>(a, g) (a', g').
     account_ok a' \<and> gov_inv g' \<and> account_class a' = account_class a \<and> aa_tracked a' = aa_tracked a \<and>
     aa_used a' = aa_used a + d \<and>
     g_allocated g' = (g_allocated g)(account_class a := g_allocated g (account_class a) + d))"

lemma admitted_total:
  "admitted c n g g' \<Longrightarrow> gov_inv g \<Longrightarrow> g_totalAllocated g' = g_totalAllocated g + n"
  using class_sum_update [of "g_allocated g" c] by (simp add: admitted_def gov_inv_def)

lemma om_plain_Reserve:
  assumes "om_plain u om" and "quiet run" and "gov_inv g" and "0 < n" and "g_totalAllocated g + n < 2 ^ 63"
    and "0 \<le> u" and "u \<le> g_totalAllocated g" and "om_Reserve run now id n (om, g) = (om', g', e)"
  shows "e = None \<Longrightarrow> om_plain (u + n) om' \<and> admitted ClassNonRevocable n g g'"
    and "e \<noteq> None \<Longrightarrow> om' = om \<and> gov_inv g' \<and> g_allocated g' = g_allocated g"
proof -
  obtain g1 r where R: "Reserve run now ClassNonRevocable n g = (g1, r)" by force
  note A = Reserve_admitted [OF assms(2-5) R]
  have "i64 (u + n) = u + n" using assms by (intro i64_id) simp_all
  with A assms R show "e = None \<Longrightarrow> om_plain (u + n) om' \<and> admitted ClassNonRevocable n g g'"
    and "e \<noteq> None \<Longrightarrow> om' = om \<and> gov_inv g' \<and> g_allocated g' = g_allocated g"
    by (auto simp: om_Reserve_def om_plain_def Let_def split: if_splits option.splits)
qed

lemma Grow_moved:
  assumes ok: "account_ok a" and run: "quiet run" and g: "gov_inv g"
    and fits: "g_totalAllocated g + n < 2 ^ 63" and le: "aa_used a \<le> g_totalAllocated g"
    and b: "Grow run now id n (a, ba, g) = (a', ba', g', e)"
  shows "0 < n \<Longrightarrow> e = None \<Longrightarrow> moved n (a, g) (a', g') \<and> ba' = (if aa_tracked a then trackGrow n ba else ba) \<and>
      (aa_tracked a \<and> ba_limit ba > 0 \<longrightarrow> i64 (ba_allocated ba + n) \<le> ba_limit ba)"
    and "\<not> (0 < n \<and> e = None) \<Longrightarrow> a' = a \<and> ba' = ba \<and> gov_inv g' \<and> g_allocated g' = g_allocated g"
proof -
  have u: "0 \<le> aa_used a" using ok by (simp add: account_ok_def)
  have w: "i64 (aa_used a + n) = aa_used a + n" if "0 < n" using that u le fits by (intro i64_id) simp_all
  have *: "(0 < n \<and> e = None \<longrightarrow> moved n (a, g) (a', g') \<and> ba' = (if aa_tracked a then trackGrow n ba else ba) \<and>
      (aa_tracked a \<and> ba_limit ba > 0 \<longrightarrow> i64 (ba_allocated ba + n) \<le> ba_limit ba)) \<and>
    (\<not> (0 < n \<and> e = None) \<longrightarrow> a' = a \<and> ba' = ba \<and> gov_inv g' \<and> g_allocated g' = g_allocated g)"
  proof (cases "0 < n \<and> \<not> (aa_tracked a \<and> ba_limit ba > 0 \<and> i64 (ba_allocated ba + n) > ba_limit ba)")
    case False
    with b g show ?thesis by (auto simp: Grow_def split: if_splits)
  next
    case n: True
    show ?thesis
    proof (cases "aa_backend a")
      case (GovBacked c)
      obtain g1 r where R: "Reserve run now c n g = (g1, r)" by force
      from n Reserve_admitted [OF run g _ fits R] GovBacked R b w ok show ?thesis
        by (cases r) (auto simp: Grow_def moved_def account_ok_def account_class_def admitted_def Let_def)
    next
      case (OperatorBacked om)
      obtain om1 g1 r where R: "om_Reserve run now id n (om, g) = (om1, g1, r)" by (metis prod_cases3)
      have pl: "om_plain (aa_used a) om" using ok OperatorBacked by (simp add: account_ok_def)
      from n om_plain_Reserve [OF pl run g _ fits u le R] OperatorBacked R b w ok show ?thesis
        by (cases r) (auto simp: Grow_def moved_def account_ok_def account_class_def admitted_def Let_def)
    qed
  qed
  then show "0 < n \<Longrightarrow> e = None \<Longrightarrow> moved n (a, g) (a', g') \<and> ba' = (if aa_tracked a then trackGrow n ba else ba) \<and>
      (aa_tracked a \<and> ba_limit ba > 0 \<longrightarrow> i64 (ba_allocated ba + n) \<le> ba_limit ba)"
    and "\<not> (0 < n \<and> e = None) \<Longrightarrow> a' = a \<and> ba' = ba \<and> gov_inv g' \<and> g_allocated g' = g_allocated g" by blast+
qed

lemma Release_allocated:
  assumes "gov_inv g" and "0 \<le> n" and "n \<le> g_allocated g c"
  shows "gov_inv (Release c n g) \<and> g_allocated (Release c n g) = (g_allocated g)(c := g_allocated g c - n)"
proof (cases "n = 0")
  case False
  then show ?thesis using assms Release_inv [OF assms(1,3)] Release_simps(1) [OF assms(1) _ assms(3)] by simp
qed (use assms in \<open>simp add: Release_def\<close>)

lemma Shrink_moved:
  assumes ok: "account_ok a" and g: "gov_inv g" and le: "aa_used a \<le> g_allocated g (account_class a)"
    and b: "Shrink n (a, ba, g) = (a', ba', g')" and k: "k = (if n \<le> 0 then 0 else min n (aa_used a))"
  shows "moved (- k) (a, g) (a', g')" and "0 < n \<Longrightarrow> ba' = (if aa_tracked a then trackShrink k ba else ba)"
    and "n \<le> 0 \<Longrightarrow> ba' = ba"
proof -
  have u: "0 \<le> aa_used a" using ok by (simp add: account_ok_def)
  have t: "aa_used a < 2 ^ 63" using le g gov_inv_allocated_le [OF g, of "account_class a"] by (simp add: gov_inv_def)
  have kb: "0 \<le> k" "k \<le> aa_used a" using u by (auto simp: k)
  have w: "i64 (aa_used a - k) = aa_used a - k" using kb t by (intro i64_id) simp_all
  note R = Release_allocated [OF g kb(1), of "account_class a"]
  have n': "(if n > aa_used a then aa_used a else n) = k" if "0 < n" using that by (simp add: k)
  have op: "om_Release k (om, g) = (om\<lparr>om_reserved := aa_used a - k, om_pinned := aa_used a - k,
       om_used := aa_used a - k\<rparr>, Release ClassNonRevocable k g)" if "om_plain (aa_used a) om" for om
    using that kb t w
    by (auto simp: om_Release_def om_plain_def Let_def sub_floor_id Release_def)
  show "moved (- k) (a, g) (a', g')"
  proof (cases "0 < n")
    case True
    with b R le kb w ok op n' show ?thesis
      by (auto simp: Shrink_def account_release_def moved_def account_ok_def account_class_def om_plain_def Let_def
          split: account_backend.splits)
  next
    case False
    with b g ok show ?thesis by (simp add: Shrink_def moved_def k)
  qed
  show "0 < n \<Longrightarrow> ba' = (if aa_tracked a then trackShrink k ba else ba)" "n \<le> 0 \<Longrightarrow> ba' = ba"
    using b n' by (auto simp: Shrink_def Let_def split: prod.splits)
qed

lemma Close_moved:
  assumes ok: "account_ok a" and g: "gov_inv g" and le: "aa_used a \<le> g_allocated g (account_class a)"
    and b: "Account_Close (a, ba, g) = (a', ba', g')"
  shows "moved (- aa_used a) (a, g) (a', g')"
    and "ba' = (if aa_tracked a \<and> aa_used a > 0 then trackShrink (aa_used a) ba else ba)"
proof -
  have u: "0 \<le> aa_used a" using ok by (simp add: account_ok_def)
  note R = Release_allocated [OF g u, of "account_class a"]
  have op: "om_plain 0 (fst (om_Close (om, g))) \<and> snd (om_Close (om, g)) = Release ClassNonRevocable (aa_used a) g"
    if "om_plain (aa_used a) om" for om
    using that u by (auto simp: om_Close_def om_plain_def Let_def Release_def)
  show "moved (- aa_used a) (a, g) (a', g')"
    using b R le ok op u
    by (auto simp: Account_Close_def account_close_def moved_def account_ok_def account_class_def Let_def case_prod_beta
        split: account_backend.splits)
  show "ba' = (if aa_tracked a \<and> aa_used a > 0 then trackShrink (aa_used a) ba else ba)"
    using b by (auto simp: Account_Close_def Let_def split: prod.splits)
qed

subsection \<open>The interface of accounts\<close>

text \<open>
  The contract of \<open>MemoryAccount\<close>: \<open>charge\<close> is what the governor holds in the account's class, and
  whatever the account does, the part of it that is not the account's own stays the same.
\<close>

datatype account_op = OpGrow int | OpShrink int

fun run_op :: "(int \<Rightarrow> 's \<Rightarrow> 's \<times> 'e option) \<Rightarrow> (int \<Rightarrow> 's \<Rightarrow> 's) \<Rightarrow> account_op \<Rightarrow> 's \<Rightarrow> 's" where
  "run_op grow shrink (OpGrow n) s = fst (grow n s)"
| "run_op grow shrink (OpShrink n) s = shrink n s"

fun op_fits :: "(int \<Rightarrow> 's \<Rightarrow> bool) \<Rightarrow> account_op \<Rightarrow> 's \<Rightarrow> bool" where
  "op_fits room (OpGrow n) s = room n s"
| "op_fits room (OpShrink n) s = True"

fun ops_fit ::
  "(int \<Rightarrow> 's \<Rightarrow> 's \<times> 'e option) \<Rightarrow> (int \<Rightarrow> 's \<Rightarrow> 's) \<Rightarrow> (int \<Rightarrow> 's \<Rightarrow> bool) \<Rightarrow> account_op list \<Rightarrow> 's \<Rightarrow> bool"
where
  "ops_fit grow shrink room [] s = True"
| "ops_fit grow shrink room (p # ps) s =
     (op_fits room p s \<and> ops_fit grow shrink room ps (run_op grow shrink p s))"

locale memory_account =
  fixes grow :: "int \<Rightarrow> 's \<Rightarrow> 's \<times> 'e option" and shrink :: "int \<Rightarrow> 's \<Rightarrow> 's" and close :: "'s \<Rightarrow> 's"
    and used :: "'s \<Rightarrow> int" and charge :: "'s \<Rightarrow> int" and inv :: "'s \<Rightarrow> bool" and room :: "int \<Rightarrow> 's \<Rightarrow> bool"
  assumes grow_inv: "inv s \<Longrightarrow> room n s \<Longrightarrow> inv (fst (grow n s))"
    and grow_balance: "inv s \<Longrightarrow> room n s \<Longrightarrow> charge (fst (grow n s)) - used (fst (grow n s)) = charge s - used s"
    and grow_error: "inv s \<Longrightarrow> room n s \<Longrightarrow> snd (grow n s) \<noteq> None \<Longrightarrow> used (fst (grow n s)) = used s"
    and shrink_inv: "inv s \<Longrightarrow> inv (shrink n s)"
    and shrink_balance: "inv s \<Longrightarrow> charge (shrink n s) - used (shrink n s) = charge s - used s"
    and shrink_used: "inv s \<Longrightarrow> used (shrink n s) \<le> used s"
    and close_inv: "inv s \<Longrightarrow> inv (close s)"
    and close_balance: "inv s \<Longrightarrow> charge (close s) - used (close s) = charge s - used s"
    and close_used: "inv s \<Longrightarrow> used (close s) = 0"
begin

lemma run_op_balance:
  "inv s \<Longrightarrow> op_fits room p s \<Longrightarrow> inv (run_op grow shrink p s) \<and> charge (run_op grow shrink p s) - used (run_op grow shrink p s) = charge s - used s"
  by (cases p) (simp_all add: grow_inv grow_balance shrink_inv shrink_balance)

lemma run_ops_balance:
  "inv s \<Longrightarrow> ops_fit grow shrink room ps s \<Longrightarrow>
     inv (fold (run_op grow shrink) ps s) \<and> charge (fold (run_op grow shrink) ps s) - used (fold (run_op grow shrink) ps s) = charge s - used s"
  by (induction ps arbitrary: s) (simp_all add: run_op_balance)

lemma close_after_ops:
  assumes "inv s" and "ops_fit grow shrink room ps s"
  shows "used (close (fold (run_op grow shrink) ps s)) = 0 \<and> charge (close (fold (run_op grow shrink) ps s)) = charge s - used s"
  using run_ops_balance [OF assms] close_used [of "fold (run_op grow shrink) ps s"] close_balance [of "fold (run_op grow shrink) ps s"] by simp

end

text \<open>The adapter as an account, for pressure callbacks that keep to their contract.\<close>

definition adapter_grow ::
  "('cb \<Rightarrow> int \<Rightarrow> 'cb governor \<Rightarrow> int \<times> 'cb governor) \<Rightarrow> int \<Rightarrow> int
     \<Rightarrow> AccountAdapter \<times> BudgetAdapter \<times> 'cb governor
     \<Rightarrow> (AccountAdapter \<times> BudgetAdapter \<times> 'cb governor) \<times> gov_error option"
where
  "adapter_grow run now n s = (case Grow run now id n s of (a, ba, g, e) \<Rightarrow> ((a, ba, g), e))"

definition adapter_used :: "AccountAdapter \<times> BudgetAdapter \<times> 'cb governor \<Rightarrow> int" where
  "adapter_used = (\<lambda>(a, ba, g). aa_used a)"

definition adapter_charge :: "AccountAdapter \<times> BudgetAdapter \<times> 'cb governor \<Rightarrow> int" where
  "adapter_charge = (\<lambda>(a, ba, g). g_allocated g (account_class a))"

definition adapter_inv :: "AccountAdapter \<times> BudgetAdapter \<times> 'cb governor \<Rightarrow> bool" where
  "adapter_inv = (\<lambda>(a, ba, g). account_ok a \<and> gov_inv g \<and> aa_used a \<le> g_allocated g (account_class a))"

definition adapter_room :: "int \<Rightarrow> AccountAdapter \<times> BudgetAdapter \<times> 'cb governor \<Rightarrow> bool" where
  "adapter_room n = (\<lambda>(a, ba, g). g_totalAllocated g + n < 2 ^ 63)"

lemmas adapter_defs = adapter_used_def adapter_charge_def adapter_inv_def adapter_room_def adapter_grow_def

lemma adapter_grow_laws:
  assumes "quiet run" and "adapter_inv s" and "adapter_room n s"
  shows "adapter_inv (fst (adapter_grow run now n s)) \<and>
    adapter_charge (fst (adapter_grow run now n s)) - adapter_used (fst (adapter_grow run now n s)) =
      adapter_charge s - adapter_used s \<and>
    (snd (adapter_grow run now n s) \<noteq> None \<longrightarrow> adapter_used (fst (adapter_grow run now n s)) = adapter_used s)"
proof -
  obtain a ba g where s: "s = (a, ba, g)" by (metis prod_cases3)
  obtain a' ba' g' e where G: "Grow run now id n s = (a', ba', g', e)" by (metis prod_cases4)
  have ok: "account_ok a" "gov_inv g" "g_totalAllocated g + n < 2 ^ 63" "aa_used a \<le> g_allocated g (account_class a)"
    "aa_used a \<le> g_totalAllocated g"
    using assms(2,3) gov_inv_allocated_le [of g "account_class a"] by (auto simp: s adapter_defs)
  note M = Grow_moved [OF ok(1) assms(1) ok(2,3,5) G [unfolded s]]
  show ?thesis
  proof (cases "0 < n \<and> e = None")
    case True
    with M(1) ok show ?thesis unfolding G adapter_grow_def by (simp add: s adapter_defs moved_def)
  next
    case False
    with M(2) ok show ?thesis unfolding G adapter_grow_def by (simp add: s adapter_defs)
  qed
qed

lemma moved_laws:
  assumes "moved (- k) (a, g) (a', g')" and "0 \<le> k" and "adapter_inv (a, ba, g)"
  shows "adapter_inv (a', ba', g')" "adapter_charge (a', ba', g') - adapter_used (a', ba', g') =
      adapter_charge (a, ba, g) - adapter_used (a, ba, g)" "adapter_used (a', ba', g') = adapter_used (a, ba, g) - k"
  using assms by (simp_all add: adapter_defs moved_def)

lemma adapter_shrink_laws:
  assumes "adapter_inv s"
  shows "adapter_inv (Shrink n s) \<and>
    adapter_charge (Shrink n s) - adapter_used (Shrink n s) = adapter_charge s - adapter_used s \<and>
    adapter_used (Shrink n s) \<le> adapter_used s"
proof -
  obtain a ba g where s: "s = (a, ba, g)" by (metis prod_cases3)
  obtain a' ba' g' where S: "Shrink n (a, ba, g) = (a', ba', g')" by (metis prod_cases3)
  have ok: "account_ok a" "gov_inv g" "aa_used a \<le> g_allocated g (account_class a)" "0 \<le> aa_used a"
    using assms by (auto simp: s adapter_defs account_ok_def)
  define k where "k = (if n \<le> 0 then 0 else min n (aa_used a))"
  have k: "0 \<le> k" using ok by (auto simp: k_def)
  note M = moved_laws [OF Shrink_moved(1) [OF ok(1-3) S k_def] k assms [unfolded s], of ba']
  from M k show ?thesis by (simp add: s S)
qed

lemma adapter_close_laws:
  assumes "adapter_inv s"
  shows "adapter_inv (Account_Close s) \<and>
    adapter_charge (Account_Close s) - adapter_used (Account_Close s) = adapter_charge s - adapter_used s \<and>
    adapter_used (Account_Close s) = 0"
proof -
  obtain a ba g where s: "s = (a, ba, g)" by (metis prod_cases3)
  obtain a' ba' g' where S: "Account_Close (a, ba, g) = (a', ba', g')" by (metis prod_cases3)
  have ok: "account_ok a" "gov_inv g" "aa_used a \<le> g_allocated g (account_class a)" "0 \<le> aa_used a"
    using assms by (auto simp: s adapter_defs account_ok_def)
  note M = moved_laws [OF Close_moved(1) [OF ok(1-3) S] ok(4) assms [unfolded s], of ba']
  from M show ?thesis by (simp add: s S adapter_used_def)
qed

locale quiet_callbacks =
  fixes run :: "'cb \<Rightarrow> int \<Rightarrow> 'cb governor \<Rightarrow> int \<times> 'cb governor" and now :: int
  assumes quiet: "quiet run"

sublocale quiet_callbacks \<subseteq> memory_account "adapter_grow run now" Shrink Account_Close adapter_used adapter_charge
  adapter_inv adapter_room
  by unfold_locales
     (use adapter_grow_laws [OF quiet] adapter_shrink_laws adapter_close_laws in \<open>blast+\<close>)

context quiet_callbacks
begin

lemma adapter_close_after_ops:
  assumes "adapter_inv s" and "ops_fit (adapter_grow run now) Shrink adapter_room ops s"
  shows "adapter_used (Account_Close (fold (run_op (adapter_grow run now) Shrink) ops s)) = 0 \<and>
    adapter_charge (Account_Close (fold (run_op (adapter_grow run now) Shrink) ops s)) = adapter_charge s - adapter_used s"
  using assms by (rule close_after_ops)

end

interpretation silent: quiet_callbacks "\<lambda>cb t g. (0, g)" now for now :: int
  by unfold_locales (simp add: quiet_def)

interpretation nop: memory_account nop_Grow nop_Shrink nop_Close nop_Used "\<lambda>_. 0" "\<lambda>_. True" "\<lambda>_ _. True"
  by unfold_locales (simp_all add: nop_Grow_def nop_Shrink_def nop_Close_def nop_Used_def)

subsection \<open>The accounts of one query\<close>

definition on_account ::
  "nat \<Rightarrow> (AccountAdapter \<times> BudgetAdapter \<times> 'cb governor \<Rightarrow> AccountAdapter \<times> BudgetAdapter \<times> 'cb governor)
     \<Rightarrow> AccountAdapter list \<times> BudgetAdapter \<times> 'cb governor \<Rightarrow> AccountAdapter list \<times> BudgetAdapter \<times> 'cb governor"
where
  "on_account i f = (\<lambda>(as, ba, g).
     if i < length as then (case f (as ! i, ba, g) of (a, ba, g) \<Rightarrow> (as[i := a], ba, g)) else (as, ba, g))"

text \<open>
  The reachable states of a query with per-query limit \<open>limit\<close> over the governor \<open>g0\<close>: accounts of
  the three kinds are opened, grown, shrunk and closed in any order.
\<close>

inductive query_reachable ::
  "int \<Rightarrow> 'cb governor \<Rightarrow> AccountAdapter list \<times> BudgetAdapter \<times> 'cb governor \<Rightarrow> bool" for limit g0
where
  query_new: "gov_inv g0 \<Longrightarrow> query_reachable limit g0 ([], NewBudgetAdapterWithLimit NewQueryBudget limit, g0)"
| query_open: "query_reachable limit g0 (as, ba, g) \<Longrightarrow> a \<in> {NewAccount, NewSpillableAccount, NewMetadataAccount} \<Longrightarrow>
    query_reachable limit g0 (as @ [a], ba, g)"
| query_grow: "query_reachable limit g0 (as, ba, g) \<Longrightarrow> quiet run \<Longrightarrow> g_totalAllocated g + n < 2 ^ 63 \<Longrightarrow>
    query_reachable limit g0 (on_account i (\<lambda>s. fst (adapter_grow run now n s)) (as, ba, g))"
| query_shrink: "query_reachable limit g0 s \<Longrightarrow> query_reachable limit g0 (on_account i (Shrink n) s)"
| query_close: "query_reachable limit g0 s \<Longrightarrow> query_reachable limit g0 (on_account i Account_Close s)"

definition account_charge :: "MemoryClass \<Rightarrow> AccountAdapter \<Rightarrow> int" where
  "account_charge c a = (if account_class a = c then aa_used a else 0)"

definition query_inv ::
  "int \<Rightarrow> (MemoryClass \<Rightarrow> int) \<Rightarrow> AccountAdapter list \<times> BudgetAdapter \<times> 'cb governor \<Rightarrow> bool"
where
  "query_inv limit base = (\<lambda>(as, ba, g).
     gov_inv g \<and> (\<forall>c. 0 \<le> base c) \<and> (\<forall>a \<in> set as. account_ok a \<and> aa_tracked a) \<and>
     (\<forall>c. g_allocated g c = base c + (\<Sum>a\<leftarrow>as. account_charge c a)) \<and>
     ba_allocated ba = (\<Sum>a\<leftarrow>as. aa_used a) \<and> ba_limit ba = limit \<and>
     ba_allocated ba \<le> ba_peak ba \<and> (limit > 0 \<longrightarrow> ba_peak ba \<le> limit))"

lemma class_sum_charges:
  "class_sum (\<lambda>c. base c + (\<Sum>a\<leftarrow>as. account_charge c a)) = class_sum base + (\<Sum>a\<leftarrow>as. aa_used a)"
proof (induction as)
  case (Cons a as)
  have "class_sum (\<lambda>c. base c + (account_charge c a + f c)) = class_sum (\<lambda>c. base c + f c) + aa_used a" for f
    by (cases "account_class a") (simp_all add: class_sum_def all_classes_def account_charge_def)
  with Cons show ?case by simp
qed simp

lemma charges_nonneg: "(\<And>a. a \<in> set as \<Longrightarrow> account_ok a) \<Longrightarrow> 0 \<le> (\<Sum>a\<leftarrow>as. account_charge c a)"
  by (intro sum_list_nonneg) (auto simp: account_charge_def account_ok_def)

lemma used_nonneg: "(\<And>a. a \<in> set as \<Longrightarrow> account_ok a) \<Longrightarrow> 0 \<le> (\<Sum>a\<leftarrow>as. aa_used a)"
  by (intro sum_list_nonneg) (auto simp: account_ok_def)

lemma charge_member:
  assumes "\<And>a. a \<in> set as \<Longrightarrow> account_ok a" and "a \<in> set as"
  shows "account_charge c a \<le> (\<Sum>a\<leftarrow>as. account_charge c a)" and "aa_used a \<le> (\<Sum>a\<leftarrow>as. aa_used a)"
  using assms by (auto simp: account_charge_def account_ok_def intro!: member_le_sum_list)

lemma query_inv_bounds:
  assumes "query_inv limit base (as, ba, g)" and "a \<in> set as"
  shows "account_ok a" "aa_tracked a" "gov_inv g" "aa_used a \<le> g_allocated g (account_class a)"
    "ba_allocated ba \<le> g_totalAllocated g" "0 \<le> ba_allocated ba" "g_totalAllocated g < 2 ^ 63"
    "aa_used a \<le> ba_allocated ba"
proof -
  have ok: "\<And>a. a \<in> set as \<Longrightarrow> account_ok a" and b: "\<And>c. 0 \<le> base c"
    and al: "g_allocated g = (\<lambda>c. base c + (\<Sum>a\<leftarrow>as. account_charge c a))"
    using assms(1) by (auto simp: query_inv_def)
  show "account_ok a" "aa_tracked a" "gov_inv g" using assms by (auto simp: query_inv_def)
  show "aa_used a \<le> g_allocated g (account_class a)"
    using charge_member(1) [OF ok assms(2), of "account_class a"] b [of "account_class a"]
    by (simp add: al account_charge_def)
  have "0 \<le> class_sum base" using b by (auto simp: class_sum_def intro!: sum_list_nonneg)
  with assms(1) show "ba_allocated ba \<le> g_totalAllocated g"
    by (auto simp: query_inv_def gov_inv_def al class_sum_charges)
  show "0 \<le> ba_allocated ba" "aa_used a \<le> ba_allocated ba"
    using assms(1) used_nonneg [of as, OF ok] charge_member(2) [OF ok assms(2)] by (auto simp: query_inv_def)
  show "g_totalAllocated g < 2 ^ 63" using assms(1) by (simp add: query_inv_def gov_inv_def)
qed

text \<open>One account moves by \<open>d\<close> and the tracker with it.\<close>

lemma query_inv_moved:
  assumes inv: "query_inv limit base (as, ba, g)" and i: "i < length as"
    and mv: "moved d (as ! i, g) (a', g')"
    and ba: "ba_allocated ba' = ba_allocated ba + d" "ba_limit ba' = ba_limit ba" "ba_allocated ba' \<le> ba_peak ba'"
      "limit > 0 \<longrightarrow> ba_peak ba' \<le> limit"
  shows "query_inv limit base (as[i := a'], ba', g')"
proof -
  have "(\<Sum>a\<leftarrow>as[i := a']. aa_used a) = (\<Sum>a\<leftarrow>as. aa_used a) + d"
    using i mv by (simp add: sum_map_update moved_def)
  moreover have "(\<Sum>a\<leftarrow>as[i := a']. account_charge c a) =
      (\<Sum>a\<leftarrow>as. account_charge c a) + (if account_class (as ! i) = c then d else 0)" for c
    using i mv by (simp add: sum_map_update moved_def account_charge_def)
  moreover have "aa_tracked a'" "account_ok a'" "gov_inv g'"
    using mv inv i by (auto simp: moved_def query_inv_def)
  moreover have "a \<in> set as \<or> a = a'" if "a \<in> set (as[i := a'])" for a
    using that set_update_subset_insert [of as i a'] by blast
  ultimately show ?thesis using inv mv ba by (auto simp: query_inv_def moved_def)
qed

lemma query_inv_shrunk:
  assumes inv: "query_inv limit base (as, ba, g)" and "i < length as" and "moved (- k) (as ! i, g) (a', g')" and "0 \<le> k"
    and ba: "ba_allocated ba' = ba_allocated ba + - k" "ba_limit ba' = ba_limit ba" "ba_peak ba' = ba_peak ba"
  shows "query_inv limit base (as[i := a'], ba', g')"
proof -
  have "ba_allocated ba \<le> ba_peak ba" "limit > 0 \<longrightarrow> ba_peak ba \<le> limit" using inv by (simp_all add: query_inv_def)
  with ba assms(4) show ?thesis by (intro query_inv_moved [OF inv assms(2,3)]) auto
qed

lemma query_grow_inv:
  assumes inv: "query_inv limit base (as, ba, g)" and run: "quiet run" and fits: "g_totalAllocated g + n < 2 ^ 63"
  shows "query_inv limit base (on_account i (\<lambda>s. fst (adapter_grow run now n s)) (as, ba, g))"
proof (cases "i < length as")
  case True
  then have mem: "as ! i \<in> set as" by simp
  note B = query_inv_bounds [OF inv mem]
  obtain a' ba' g' e where G: "Grow run now id n (as ! i, ba, g) = (a', ba', g', e)" by (metis prod_cases4)
  note M = Grow_moved [OF B(1) run B(3) fits order_trans [OF B(8) B(5)] G]
  have res: "on_account i (\<lambda>s. fst (adapter_grow run now n s)) (as, ba, g) = (as[i := a'], ba', g')"
    using True G by (simp add: on_account_def adapter_grow_def)
  show ?thesis
  proof (cases "0 < n \<and> e = None")
    case ok: True
    then have w: "i64 (ba_allocated ba + n) = ba_allocated ba + n" using B(5-7) fits by (intro i64_id) simp_all
    have "ba_limit ba = limit" "limit > 0 \<longrightarrow> ba_peak ba \<le> limit" using inv by (simp_all add: query_inv_def)
    with ok M(1) w B(2) show ?thesis
      unfolding res by (intro query_inv_moved [OF inv True, of n]) (auto simp: trackGrow_def Let_def)
  next
    case False
    with M(2) inv show ?thesis unfolding res by (auto simp: query_inv_def)
  qed
qed (use inv in \<open>simp add: on_account_def\<close>)

lemma query_shrink_inv:
  assumes "query_inv limit base s"
  shows "query_inv limit base (on_account i (Shrink n) s)"
proof -
  obtain as ba g where s: "s = (as, ba, g)" by (metis prod_cases3)
  note inv = assms [unfolded s]
  show ?thesis
  proof (cases "i < length as")
    case True
    then have mem: "as ! i \<in> set as" by simp
    note B = query_inv_bounds [OF inv mem]
    obtain a' ba' g' where S: "Shrink n (as ! i, ba, g) = (a', ba', g')" by (metis prod_cases3)
    define k where "k = (if n \<le> 0 then 0 else min n (aa_used (as ! i)))"
    note M = Shrink_moved [OF B(1,3,4) S k_def]
    have k: "0 \<le> k" "k \<le> ba_allocated ba" using B(1,6,8) by (auto simp: k_def account_ok_def)
    have w: "i64 (ba_allocated ba - k) = ba_allocated ba - k" using k B by (intro i64_id) simp_all
    have "ba' = ba\<lparr>ba_allocated := ba_allocated ba - k\<rparr>"
      using M(2,3) B(2) w by (cases "0 < n") (auto simp: trackShrink_def k_def)
    then have "query_inv limit base (as[i := a'], ba', g')" by (intro query_inv_shrunk [OF inv True M(1) k(1)]) simp_all
    then show ?thesis using True S by (simp add: s on_account_def)
  qed (use inv in \<open>simp add: s on_account_def\<close>)
qed

lemma query_close_inv:
  assumes "query_inv limit base s"
  shows "query_inv limit base (on_account i Account_Close s)"
proof -
  obtain as ba g where s: "s = (as, ba, g)" by (metis prod_cases3)
  note inv = assms [unfolded s]
  show ?thesis
  proof (cases "i < length as")
    case True
    then have mem: "as ! i \<in> set as" by simp
    note B = query_inv_bounds [OF inv mem]
    obtain a' ba' g' where S: "Account_Close (as ! i, ba, g) = (a', ba', g')" by (metis prod_cases3)
    define k where "k = aa_used (as ! i)"
    note M = Close_moved [OF B(1,3,4) S, folded k_def]
    have k: "0 \<le> k" "k \<le> ba_allocated ba" using B(1,8) by (auto simp: k_def account_ok_def)
    have w: "i64 (ba_allocated ba - k) = ba_allocated ba - k" using k B by (intro i64_id) simp_all
    have ba': "ba_allocated ba' = ba_allocated ba + - k" "ba_limit ba' = ba_limit ba" "ba_peak ba' = ba_peak ba"
      using M(2) B(2) w k by (auto simp: trackShrink_def)
    then have "query_inv limit base (as[i := a'], ba', g')" by (rule query_inv_shrunk [OF inv True M(1) k(1)])
    then show ?thesis using True S by (simp add: s on_account_def)
  qed (use inv in \<open>simp add: s on_account_def\<close>)
qed

lemma query_open_inv:
  assumes "query_inv limit base (as, ba, g)" and "a \<in> {NewAccount, NewSpillableAccount, NewMetadataAccount}"
  shows "query_inv limit base (as @ [a], ba, g)"
proof -
  have "account_ok a" "aa_tracked a" "aa_used a = 0"
    using assms(2) by (auto simp: NewAccount_def NewSpillableAccount_def NewMetadataAccount_def NewOperatorMemory_def
        newTrackedAccountAdapter_def newTrackedClassAccountAdapter_def account_ok_def om_plain_def)
  with assms(1) show ?thesis by (auto simp: query_inv_def account_charge_def)
qed

lemma query_reachable_inv: "query_reachable limit g0 s \<Longrightarrow> query_inv limit (g_allocated g0) s"
proof (induction rule: query_reachable.induct)
  case query_new
  then show ?case
    by (simp add: query_inv_def NewBudgetAdapterWithLimit_def gov_inv_nonneg)
qed (simp_all add: query_open_inv query_grow_inv query_shrink_inv query_close_inv)

subsection \<open>Properties\<close>

text \<open>
  (C11) The memory of a query whose operators work one after the other is bounded and accounted for:
  in whatever order its accounts are opened, grown, shrunk and closed, as long as one operation ends before the next
  begins, nothing else uses the governor, and the callbacks leave it alone, the tracker holds the sum
  of the accounts' bytes, the governor holds per class exactly the accounts' bytes on top of what it
  held before, and with a per-query limit neither the current nor the peak memory exceeds it. Growths
  that overlap can exceed the limit (\<open>grow_race_exceeds_limit\<close>).
\<close>

theorem query_memory_bounded:
  assumes "query_reachable limit g0 (as, ba, g)"
  shows "ba_allocated ba = (\<Sum>a\<leftarrow>as. aa_used a) \<and>
    (\<forall>c. g_allocated g c = g_allocated g0 c + (\<Sum>a\<leftarrow>as. account_charge c a)) \<and>
    ba_allocated ba \<le> ba_peak ba \<and> (limit \<le> 0 \<or> ba_peak ba \<le> limit)"
  using query_reachable_inv [OF assms] by (auto simp: query_inv_def)

lemma query_example:
  "\<exists>as ba g. query_reachable 100 (NewGovernor \<lparr>TotalLimit = 0, ClassLimits = (\<lambda>_. 0)\<rparr> :: unit governor) (as, ba, g) \<and>
     map aa_used as = [60]"
proof -
  let ?g = "NewGovernor \<lparr>TotalLimit = 0, ClassLimits = (\<lambda>_. 0)\<rparr> :: unit governor"
  let ?run = "\<lambda>_ _ g. (0, g)" and ?ba = "NewBudgetAdapterWithLimit NewQueryBudget 100"
  have g: "gov_inv ?g" by (simp add: gov_inv_def NewGovernor_def)
  have "query_reachable 100 ?g ([NewSpillableAccount], ?ba, ?g)"
    using query_reachable.query_open [OF query_reachable.query_new [OF g]] by fastforce
  then have r: "query_reachable 100 ?g (on_account 0 (\<lambda>s. fst (adapter_grow ?run 0 60 s)) ([NewSpillableAccount], ?ba, ?g))"
    by (rule query_reachable.query_grow) (simp_all add: quiet_def NewGovernor_def)
  obtain as ba g' where o: "on_account 0 (\<lambda>s. fst (adapter_grow ?run 0 60 s)) ([NewSpillableAccount], ?ba, ?g) = (as, ba, g')"
    by (metis prod_cases3)
  then have "map aa_used as = [60]"
    by (auto simp: on_account_def adapter_grow_def Grow_def Reserve_def over_class_limit_def over_total_limit_def
        NewGovernor_def NewBudgetAdapterWithLimit_def NewSpillableAccount_def newTrackedClassAccountAdapter_def
        i64_def Let_def)
  with r show ?thesis unfolding o by (intro exI conjI)
qed

theorem query_memory_bounded_witness:
  "\<exists>as (ba :: BudgetAdapter) g. map aa_used as = [60] \<and> ba_allocated ba = (\<Sum>a\<leftarrow>as. aa_used a) \<and> ba_peak ba \<le> 100 \<and>
    g_allocated (g :: unit governor) ClassSpillable = (\<Sum>a\<leftarrow>as. account_charge ClassSpillable a)"
proof -
  obtain as ba g where r: "query_reachable 100 (NewGovernor \<lparr>TotalLimit = 0, ClassLimits = (\<lambda>_. 0)\<rparr> :: unit governor) (as, ba, g)"
    and u: "map aa_used as = [60]" using query_example by (elim exE conjE)
  from query_memory_bounded [OF r] u show ?thesis
    by (intro exI [of _ as] exI [of _ ba] exI [of _ g]) (simp add: NewGovernor_def)
qed

text \<open>
  Closing an account returns what it took: after any sequence of growth (granted or refused)
  and shrinking, of any sizes, \<open>Close\<close> leaves the account at zero and the governor's class at its
  value without the account.
\<close>

theorem account_close_returns_all:
  assumes "quiet run" and "adapter_inv s" and "ops_fit (adapter_grow run now) Shrink adapter_room ops s"
  shows "let s' = Account_Close (fold (run_op (adapter_grow run now) Shrink) ops s)
    in adapter_used s' = 0 \<and> adapter_charge s' = adapter_charge s - adapter_used s"
  using quiet_callbacks.adapter_close_after_ops [OF quiet_callbacks.intro [OF assms(1)] assms(2,3)] by (simp add: Let_def)

theorem account_close_returns_all_witness:
  "let g = NewGovernor \<lparr>TotalLimit = 100, ClassLimits = (\<lambda>_. 0)\<rparr> :: unit governor;
       s = (NewAccount, NewBudgetAdapterWithLimit NewQueryBudget 80, g);
       s' = Account_Close (fold (run_op (adapter_grow (\<lambda>_ _ g. (0, g)) 0) Shrink) [OpGrow 60, OpGrow 30, OpShrink 10] s)
   in adapter_used s' = 0 \<and> adapter_charge s' = 0"
proof -
  let ?g = "NewGovernor \<lparr>TotalLimit = 100, ClassLimits = (\<lambda>_. 0)\<rparr> :: unit governor"
  let ?s = "(NewAccount, NewBudgetAdapterWithLimit NewQueryBudget 80, ?g)"
  let ?grow = "adapter_grow (\<lambda>_ _ g. (0, g)) 0"
  have inv: "adapter_inv ?s"
    by (simp add: adapter_inv_def account_ok_def om_plain_def NewAccount_def newTrackedAccountAdapter_def
        NewOperatorMemory_def gov_inv_def NewGovernor_def account_class_def)
  have q: "quiet (\<lambda>_ _ g. (0, g) :: int \<times> unit governor)" by (simp add: quiet_def)
  have "ops_fit ?grow Shrink adapter_room [OpGrow 60, OpGrow 30, OpShrink 10] ?s"
    by (simp add: adapter_room_def adapter_grow_def Grow_def om_Reserve_def Reserve_def over_class_limit_def
        over_total_limit_def NewGovernor_def NewBudgetAdapterWithLimit_def NewAccount_def newTrackedAccountAdapter_def
        NewOperatorMemory_def i64_def Let_def trackGrow_def admit_def recordRollingPeakLocked_def)
  from account_close_returns_all [OF q inv this] show ?thesis
    by (simp add: Let_def adapter_charge_def adapter_used_def NewAccount_def newTrackedAccountAdapter_def
        account_class_def NewGovernor_def)
qed

text \<open>
  The per-query limit is not enforced across goroutines: \<open>Grow\<close> compares with the tracker
  before it reserves and adds to it afterwards. When a second account of the query grows in
  between, both succeed although together they exceed the limit.
\<close>

theorem grow_race_exceeds_limit:
  assumes "0 < n" and "n \<le> limit" and "0 < m" and "m \<le> limit" and "n + m < 2 ^ 63"
  shows "let g = NewGovernor \<lparr>TotalLimit = 0, ClassLimits = (\<lambda>_. 0)\<rparr> :: unit governor;
      run = (\<lambda>_ _ g. (0, g));
      other = (\<lambda>(ba, g). case Grow run now id m (NewSpillableAccount, ba, g) of (a, ba', g', e) \<Rightarrow> (ba', g'));
      (a', ba', g', e) = Grow run now other n (NewSpillableAccount, NewBudgetAdapterWithLimit NewQueryBudget limit, g)
    in e = None \<and> ba_allocated ba' = n + m"
proof -
  have w: "i64 m = m" "i64 n = n" "i64 (m + n) = n + m" using assms by (auto intro!: i64_id simp: i64_id add.commute)
  show ?thesis using assms w
    by (simp add: Grow_def Reserve_def over_class_limit_def over_total_limit_def NewGovernor_def
        NewBudgetAdapterWithLimit_def NewSpillableAccount_def newTrackedClassAccountAdapter_def Let_def trackGrow_def
        admit_def recordRollingPeakLocked_def)
qed

theorem grow_race_exceeds_limit_witness:
  "let g = NewGovernor \<lparr>TotalLimit = 0, ClassLimits = (\<lambda>_. 0)\<rparr> :: unit governor;
      run = (\<lambda>_ _ g. (0, g));
      other = (\<lambda>(ba, g). case Grow run 0 id 60 (NewSpillableAccount, ba, g) of (a, ba', g', e) \<Rightarrow> (ba', g'));
      (a', ba', g', e) = Grow run 0 other 60 (NewSpillableAccount, NewBudgetAdapterWithLimit NewQueryBudget 100, g)
    in e = None \<and> ba_allocated ba' = 120"
  using grow_race_exceeds_limit [of 60 100 60 0] by simp

lemma classify_Wrapped:
  "IsBudgetExceeded (Wrapped m e) = IsBudgetExceeded e"
  "IsPoolExhausted (Wrapped m e) = IsPoolExhausted e"
  "IsMemoryExhausted (Wrapped m e) = IsMemoryExhausted e"
  by (simp_all add: IsBudgetExceeded_def IsPoolExhausted_def IsMemoryExhausted_def errors_Is_def)

lemma classify_wrapped [simp]:
  "IsBudgetExceeded (fold Wrapped msgs e) = IsBudgetExceeded e"
  "IsPoolExhausted (fold Wrapped msgs e) = IsPoolExhausted e"
  "IsMemoryExhausted (fold Wrapped msgs e) = IsMemoryExhausted e"
  by (induction msgs arbitrary: e) (simp_all add: classify_Wrapped)

lemma classify_Sentinel [simp]:
  "IsBudgetExceeded (Sentinel e) \<longleftrightarrow> e = ErrQueryBudgetExceeded"
  "IsPoolExhausted (Sentinel e) \<longleftrightarrow> e = ErrMemoryPressure"
  "IsMemoryExhausted (Sentinel e) \<longleftrightarrow> e \<noteq> ErrClosed"
  by (cases e; simp add: IsBudgetExceeded_def IsPoolExhausted_def IsMemoryExhausted_def errors_Is_def)+

lemma Reserve_error: "Reserve run now c n g = (g', Some e) \<Longrightarrow> e = ErrMemoryPressure"
  by (auto simp: Reserve_def Let_def split: if_splits prod.splits)

text \<open>
  Errors of \<open>Grow\<close> are classified correctly, also when callers wrap them: a refusal by the
  query limit is recognised by \<open>IsBudgetExceeded\<close> only, a refusal by the governor by
  \<open>IsPoolExhausted\<close> only, and both by \<open>IsMemoryExhausted\<close>; growth of a closed operator is none of
  them.
\<close>

theorem grow_error_classified:
  assumes "Grow run now env n (a, ba, g) = (a', ba', g', Some e)"
  shows "(e = ErrQueryBudgetExceeded \<longleftrightarrow>
        aa_tracked a \<and> ba_limit ba > 0 \<and> i64 (ba_allocated ba + n) > ba_limit ba) \<and>
    (IsBudgetExceeded (fold Wrapped msgs (Sentinel e)) \<longleftrightarrow> e = ErrQueryBudgetExceeded) \<and>
    (IsPoolExhausted (fold Wrapped msgs (Sentinel e)) \<longleftrightarrow> e = ErrMemoryPressure) \<and>
    (IsMemoryExhausted (fold Wrapped msgs (Sentinel e)) \<longleftrightarrow> e \<noteq> ErrClosed)"
proof -
  have "e = ErrQueryBudgetExceeded \<longleftrightarrow>
      aa_tracked a \<and> ba_limit ba > 0 \<and> i64 (ba_allocated ba + n) > ba_limit ba"
    using assms
    by (auto simp: Grow_def om_Reserve_def Let_def dest: Reserve_error
        split: if_splits prod.splits option.splits account_backend.splits)
  then show ?thesis by simp
qed

theorem grow_error_classified_witness:
  "IsBudgetExceeded (fold Wrapped [''sort''] (Sentinel ErrQueryBudgetExceeded)) \<and>
   \<not> IsPoolExhausted (fold Wrapped [''sort''] (Sentinel ErrQueryBudgetExceeded)) \<and>
   snd (snd (snd (Grow (\<lambda>_ _ g. (0, g)) 0 id 101
     (NewAccount, NewBudgetAdapterWithLimit NewQueryBudget 100,
      NewGovernor \<lparr>TotalLimit = 0, ClassLimits = (\<lambda>_. 0)\<rparr> :: unit governor)))) = Some ErrQueryBudgetExceeded"
proof -
  let ?g = "NewGovernor \<lparr>TotalLimit = 0, ClassLimits = (\<lambda>_. 0)\<rparr> :: unit governor"
  let ?ba = "NewBudgetAdapterWithLimit NewQueryBudget 100"
  have G: "Grow (\<lambda>_ _ g. (0, g)) 0 id 101 (NewAccount, ?ba, ?g) = (NewAccount, ?ba, ?g, Some ErrQueryBudgetExceeded)"
    by (simp add: Grow_def NewBudgetAdapterWithLimit_def NewAccount_def newTrackedAccountAdapter_def i64_def)
  from grow_error_classified [OF G, of "[''sort'']"] G show ?thesis by simp
qed

end
