(* ===== verification/Sharding.thy ===== *)
theory Sharding
  imports Prelude "HOL-Library.Multiset"
begin

text \<open>
  \<^verbatim>\<open>src/pkg/cluster/sharding/\<close>: the consistent hash ring (\<^verbatim>\<open>ring.go\<close>), shard identifiers and event
  routing (\<^verbatim>\<open>shard.go\<close>), the shard map (\<^verbatim>\<open>shard_map.go\<close>) and the split registry
  (\<^verbatim>\<open>split_registry.go\<close>). The hash function of the xxhash package is the parameter \<open>hash\<close>.
  \<open>sort.Slice\<close> is not stable, so its result on entries of equal hash is left open: it is the
  parameter \<open>srt\<close>, of which only \<open>sorts\<close> is used. A time is its number of nanoseconds since the
  zero time of Go, midnight of January 1 of year 1, UTC.
\<close>

subsection \<open>The hash ring\<close>

type_synonym NodeID = string

record RingEntry =
  re_Hash :: u64
  re_NodeID :: NodeID
  re_VNode :: nat

record HashRing =
  hr_vnodesPerNode :: int
  hr_ring :: "RingEntry list"
  hr_nodes :: "NodeID set"

definition NewHashRing :: "int \<Rightarrow> HashRing" where
  "NewHashRing vnodesPerNode =
     \<lparr>hr_vnodesPerNode = (if vnodesPerNode < 1 then 128 else vnodesPerNode), hr_ring = [], hr_nodes = {}\<rparr>"

definition vnode_entries :: "(string \<Rightarrow> u64) \<Rightarrow> int \<Rightarrow> NodeID \<Rightarrow> RingEntry list" where
  "vnode_entries hash vnodesPerNode nodeID =
     map (\<lambda>i. \<lparr>re_Hash = hash (nodeID @ ''#'' @ dec i), re_NodeID = nodeID, re_VNode = i\<rparr>) [0..<nat vnodesPerNode]"

definition AddNode ::
  "(string \<Rightarrow> u64) \<Rightarrow> (RingEntry list \<Rightarrow> RingEntry list) \<Rightarrow> NodeID \<Rightarrow> HashRing \<Rightarrow> HashRing"
where
  "AddNode hash srt nodeID r =
     (if nodeID \<in> hr_nodes r then r
      else r\<lparr>hr_nodes := insert nodeID (hr_nodes r),
             hr_ring := srt (hr_ring r @ vnode_entries hash (hr_vnodesPerNode r) nodeID)\<rparr>)"

definition RemoveNode :: "NodeID \<Rightarrow> HashRing \<Rightarrow> HashRing" where
  "RemoveNode nodeID r =
     (if nodeID \<notin> hr_nodes r then r
      else r\<lparr>hr_nodes := hr_nodes r - {nodeID},
             hr_ring := filter (\<lambda>e. re_NodeID e \<noteq> nodeID) (hr_ring r)\<rparr>)"

text \<open>\<open>sort.Search\<close>: the loop of the standard library on the interval from \<open>i\<close> to \<open>j\<close>.\<close>

function search_loop :: "(nat \<Rightarrow> bool) \<Rightarrow> nat \<Rightarrow> nat \<Rightarrow> nat" where
  "search_loop f i j =
     (if i < j then let h = (i + j) div 2 in
        if \<not> f h then search_loop f (h + 1) j else search_loop f i h
      else i)"
  by pat_completeness auto
termination by (relation "measure (\<lambda>(f, i, j). j - i)") auto

declare search_loop.simps [simp del]

definition sort_Search :: "nat \<Rightarrow> (nat \<Rightarrow> bool) \<Rightarrow> nat" where
  "sort_Search n f = search_loop f 0 n"

definition ring_start :: "(string \<Rightarrow> u64) \<Rightarrow> u32 \<Rightarrow> HashRing \<Rightarrow> nat" where
  "ring_start hash part r =
     (let h = hash (''partition#'' @ dec (unat part));
          idx = sort_Search (length (hr_ring r)) (\<lambda>i. re_Hash (hr_ring r ! i) \<ge> h) in
      if idx \<ge> length (hr_ring r) then 0 else idx)"

definition AssignPartition :: "(string \<Rightarrow> u64) \<Rightarrow> u32 \<Rightarrow> HashRing \<Rightarrow> NodeID" where
  "AssignPartition hash part r =
     (if hr_ring r = [] then '''' else re_NodeID (hr_ring r ! ring_start hash part r))"

text \<open>The clockwise walk; the list argument holds the loop counters still to come.\<close>

primrec replicas_loop ::
  "RingEntry list \<Rightarrow> nat \<Rightarrow> int \<Rightarrow> nat list \<Rightarrow> NodeID set \<Rightarrow> NodeID list \<Rightarrow> NodeID list"
where
  "replicas_loop ring idx rf [] seen result = result"
| "replicas_loop ring idx rf (i # is) seen result =
     (if int (length result) < rf then
        let entry = ring ! ((idx + i) mod length ring) in
        if re_NodeID entry \<notin> seen
        then replicas_loop ring idx rf is (insert (re_NodeID entry) seen) (result @ [re_NodeID entry])
        else replicas_loop ring idx rf is seen result
      else result)"

definition AssignPartitionReplicas :: "(string \<Rightarrow> u64) \<Rightarrow> u32 \<Rightarrow> int \<Rightarrow> HashRing \<Rightarrow> NodeID list" where
  "AssignPartitionReplicas hash part rf r =
     (if hr_ring r = [] \<or> rf < 1 then []
      else replicas_loop (hr_ring r) (ring_start hash part r) rf [0..<length (hr_ring r)] {} [])"

definition NodeCount :: "HashRing \<Rightarrow> nat" where "NodeCount r = card (hr_nodes r)"

subsection \<open>Shards\<close>

type_synonym go_time = int

record ShardID =
  sid_Index :: string
  sid_TimeBucket :: go_time
  sid_Partition :: u32

text \<open>
  The layout \<open>2006-01-02\<close>: the civil date of a day number, counted in eras of 400 years from
  March 1 of year 0, which is 306 days before the zero time.
\<close>

definition civil_date :: "int \<Rightarrow> int \<times> int \<times> int" where
  "civil_date days =
     (let z = days + 306; era = z div 146097; doe = z mod 146097;
          yoe = (doe - doe div 1460 + doe div 36524 - doe div 146096) div 365;
          doy = doe - (365 * yoe + yoe div 4 - yoe div 100);
          mp = (5 * doy + 2) div 153;
          d = doy - (153 * mp + 2) div 5 + 1;
          m = (if mp < 10 then mp + 3 else mp - 9)
      in (yoe + era * 400 + (if m \<le> 2 then 1 else 0), m, d))"

definition pad_int :: "nat \<Rightarrow> int \<Rightarrow> string" where
  "pad_int w n = (let ds = dec (nat \<bar>n\<bar>) in
     (if n < 0 then ''-'' else []) @ replicate (w - length ds) (CHR ''0'') @ ds)"

definition format_date :: "go_time \<Rightarrow> string" where
  "format_date t = (case civil_date (t div (86400 * 10 ^ 9)) of
     (y, m, d) \<Rightarrow> pad_int 4 y @ ''-'' @ pad_int 2 m @ ''-'' @ pad_int 2 d)"

definition ShardID_String :: "ShardID \<Rightarrow> string" where
  "ShardID_String s =
     sid_Index s @ ''/t'' @ format_date (sid_TimeBucket s) @ ''/p'' @ dec (unat (sid_Partition s))"

record ShardConfig =
  TimeBucketSize :: int
  VirtualPartitionCount :: u32

text \<open>\<open>Time.Truncate\<close> rounds down to a multiple of the duration since the zero time.\<close>

definition Truncate :: "go_time \<Rightarrow> int \<Rightarrow> go_time" where
  "Truncate t d = (if d \<le> 0 then t else t - t mod d)"

definition shard_hash :: "(string \<Rightarrow> u64) \<Rightarrow> string \<Rightarrow> string \<Rightarrow> u64" where
  "shard_hash hash source host = hash (source @ [char_of (0 :: nat)] @ host)"

text \<open>The result \<open>None\<close> is the panic of a division by zero.\<close>

definition AssignShard ::
  "(string \<Rightarrow> u64) \<Rightarrow> string \<Rightarrow> string \<Rightarrow> string \<Rightarrow> go_time \<Rightarrow> ShardConfig \<Rightarrow> ShardID option"
where
  "AssignShard hash source host index ts cfg =
     (if VirtualPartitionCount cfg = 0 then None
      else Some \<lparr>sid_Index = index, sid_TimeBucket = Truncate ts (TimeBucketSize cfg),
                 sid_Partition = ucast (shard_hash hash source host mod ucast (VirtualPartitionCount cfg))\<rparr>)"

subsection \<open>Splits\<close>

record SplitInfo =
  ParentPartition :: u32
  ChildA :: u32
  ChildB :: u32
  SplitBit :: u8

type_synonym SplitRegistry = "u32 \<Rightarrow> SplitInfo option"

definition NewSplitRegistry :: SplitRegistry where "NewSplitRegistry = Map.empty"

definition Register :: "SplitInfo \<Rightarrow> SplitRegistry \<Rightarrow> SplitRegistry" where
  "Register info splits = splits(ParentPartition info \<mapsto> info)"

definition Unregister :: "u32 \<Rightarrow> SplitRegistry \<Rightarrow> SplitRegistry" where
  "Unregister parentPartition splits = splits(parentPartition := None)"

text \<open>One step down the split tree; \<open>Resolve\<close> repeats it and may not end.\<close>

definition split_child :: "SplitInfo \<Rightarrow> u64 \<Rightarrow> u32" where
  "split_child info hashValue =
     (if drop_bit (unat (SplitBit info)) hashValue AND 1 = 0 then ChildA info else ChildB info)"

partial_function (option) Resolve :: "SplitRegistry \<Rightarrow> u32 \<Rightarrow> u64 \<Rightarrow> u32 option" where
  "Resolve splits part hashValue =
     (case splits part of
        None \<Rightarrow> Some part
      | Some info \<Rightarrow> Resolve splits (split_child info hashValue) hashValue)"

declare Resolve.simps [code]

definition AssignShardWithSplits ::
  "(string \<Rightarrow> u64) \<Rightarrow> string \<Rightarrow> string \<Rightarrow> string \<Rightarrow> go_time \<Rightarrow> ShardConfig \<Rightarrow> SplitRegistry option \<Rightarrow> ShardID option"
where
  "AssignShardWithSplits hash source host index ts cfg splits =
     (if VirtualPartitionCount cfg = 0 then None
      else let h = shard_hash hash source host; part = ucast (h mod ucast (VirtualPartitionCount cfg)) in
        (case (case splits of None \<Rightarrow> Some part | Some sr \<Rightarrow> Resolve sr part h) of
           None \<Rightarrow> None
         | Some p \<Rightarrow> Some \<lparr>sid_Index = index, sid_TimeBucket = Truncate ts (TimeBucketSize cfg), sid_Partition = p\<rparr>))"

subsection \<open>The shard map\<close>

datatype ShardState = ShardActive | ShardDraining | ShardMigrating | ShardSplitting

fun ShardState_String :: "ShardState \<Rightarrow> string" where
  "ShardState_String ShardActive = ''active''"
| "ShardState_String ShardDraining = ''draining''"
| "ShardState_String ShardMigrating = ''migrating''"
| "ShardState_String ShardSplitting = ''splitting''"

record ShardAssignment =
  sa_ShardID :: ShardID
  sa_Primary :: NodeID
  sa_Replicas :: "NodeID list"
  sa_State :: ShardState
  sa_Epoch :: u64
  sa_PendingPrimary :: NodeID
  sa_PendingReplicas :: "NodeID list"

text \<open>
  The maps of \<open>ShardMap\<close> are finite maps, the pointers in them records. A \<open>nil\<close> map reads as an empty one and
  panics on assignment; it is not represented: \<open>NewShardMap\<close> makes the maps, and only a decoded
  \<open>CmdUpdateShardMap\<close>, which no code of the repository proposes, could replace them by a \<open>nil\<close> one.
\<close>

record ShardMap =
  sm_Assignments :: "string \<Rightarrow> ShardAssignment option"
  sm_Epoch :: u64
  sm_NodeAddrs :: "NodeID \<Rightarrow> string option"
  sm_NodeRoles :: "NodeID \<Rightarrow> string list option"

definition NewShardMap :: ShardMap where
  "NewShardMap = \<lparr>sm_Assignments = Map.empty, sm_Epoch = 0, sm_NodeAddrs = Map.empty, sm_NodeRoles = Map.empty\<rparr>"

definition Assignment :: "ShardMap option \<Rightarrow> ShardID \<Rightarrow> ShardAssignment option" where
  "Assignment m i = (case m of None \<Rightarrow> None | Some sm \<Rightarrow> sm_Assignments sm (ShardID_String i))"

definition SetAssignment :: "ShardAssignment \<Rightarrow> ShardMap \<Rightarrow> ShardMap" where
  "SetAssignment a m = m\<lparr>sm_Assignments := (sm_Assignments m)(ShardID_String (sa_ShardID a) \<mapsto> a)\<rparr>"

subsection \<open>Binary search finds the partition point\<close>

lemma search_loop_spec:
  assumes "i \<le> j" and "\<And>k. k < i \<Longrightarrow> \<not> f k" and "\<And>k. j \<le> k \<Longrightarrow> k < n \<Longrightarrow> f k"
    and "\<And>k l. k \<le> l \<Longrightarrow> l < n \<Longrightarrow> f k \<Longrightarrow> f l" and "j \<le> n"
  shows "search_loop f i j \<le> n \<and> (\<forall>k < search_loop f i j. \<not> f k) \<and>
    (\<forall>k < n. search_loop f i j \<le> k \<longrightarrow> f k)"
  using assms
proof (induction f i j rule: search_loop.induct)
  case (1 f i j)
  define h where "h = (i + j) div 2"
  show ?case
  proof (cases "i < j")
    case False
    then have "search_loop f i j = i" by (simp add: search_loop.simps [of f i j])
    with False "1.prems" show ?thesis by simp
  next
    case True
    then have h: "i \<le> h" "h < j" by (auto simp: h_def)
    show ?thesis
    proof (cases "f h")
      case fh: True
      have "f k" if "h \<le> k" "k < n" for k using "1.prems"(4) that fh by blast
      with "1.IH"(2) [OF True h_def] fh "1.prems" h show ?thesis
        by (simp add: search_loop.simps [of f i j] True Let_def flip: h_def)
    next
      case fh: False
      have "\<not> f k" if "k < h + 1" for k
        using "1.prems"(4) [of k h] "1.prems"(5) that fh h by auto
      with "1.IH"(1) [OF True h_def] fh "1.prems" h show ?thesis
        by (simp add: search_loop.simps [of f i j] True Let_def flip: h_def)
    qed
  qed
qed

text \<open>On a ring sorted by hash the search result splits the ring into the entries below and not below.\<close>

lemma sort_Search_sorted:
  assumes "sorted (map key xs)"
  shows "sort_Search (length xs) (\<lambda>i. key (xs ! i) \<ge> h) = length (takeWhile (\<lambda>x. key x < h) xs)"
proof -
  let ?f = "\<lambda>i. key (xs ! i) \<ge> h" and ?t = "takeWhile (\<lambda>x. key x < h) xs"
  have mono: "?f k \<Longrightarrow> ?f l" if "k \<le> l" "l < length xs" for k l
    using sorted_nth_mono [OF assms, of k l] that by simp
  have S: "sort_Search (length xs) ?f \<le> length xs" "\<forall>k < sort_Search (length xs) ?f. \<not> ?f k"
    "\<forall>k < length xs. sort_Search (length xs) ?f \<le> k \<longrightarrow> ?f k"
    unfolding sort_Search_def using search_loop_spec [of 0 "length xs" ?f "length xs"] mono by simp_all
  have lo: "\<not> ?f k" if "k < length ?t" for k
    using nth_mem [OF that] set_takeWhileD takeWhile_nth [OF that] by fastforce
  have hi: "?f (length ?t)" if "length ?t < length xs"
    using nth_length_takeWhile [OF that] by auto
  have le: "length ?t \<le> length xs" by (rule length_takeWhile_le)
  show ?thesis
  proof (rule antisym; rule leI; rule notI)
    assume a: "length ?t < sort_Search (length xs) ?f"
    with S(1) have "length ?t < length xs" by simp
    with hi S(2) a show False by blast
  next
    assume a: "sort_Search (length xs) ?f < length ?t"
    with le have "sort_Search (length xs) ?f < length xs" by simp
    with lo [OF a] S(3) show False by blast
  qed
qed

subsection \<open>The clockwise order\<close>

definition clockwise :: "u64 \<Rightarrow> RingEntry list \<Rightarrow> RingEntry list" where
  "clockwise h ring = dropWhile (\<lambda>e. re_Hash e < h) ring @ takeWhile (\<lambda>e. re_Hash e < h) ring"

definition partition_hash :: "(string \<Rightarrow> u64) \<Rightarrow> u32 \<Rightarrow> u64" where
  "partition_hash hash p = hash (''partition#'' @ dec (unat p))"

lemma mset_clockwise [simp]: "mset (clockwise h ring) = mset ring"
  unfolding clockwise_def mset_append by (subst add.commute) (simp flip: mset_append)

lemma set_clockwise [simp]: "set (clockwise h ring) = set ring"
  by (metis mset_clockwise set_mset_mset)

lemma clockwise_eq_Nil [simp]: "clockwise h ring = [] \<longleftrightarrow> ring = []"
  by (metis set_clockwise set_empty)

lemma length_clockwise [simp]: "length (clockwise h ring) = length ring"
  by (metis mset_clockwise size_mset)

lemma sorted_dropWhile_filter:
  "sorted (map re_Hash xs) \<Longrightarrow> dropWhile (\<lambda>e. re_Hash e < h) xs = filter (\<lambda>e. \<not> re_Hash e < h) xs"
proof (induction xs)
  case (Cons a xs)
  have "filter (\<lambda>e. \<not> re_Hash e < h) xs = xs" if "\<not> re_Hash a < h"
    using that Cons.prems by (auto simp: filter_id_conv)
  with Cons show ?case by simp
qed simp

lemma sorted_takeWhile_filter:
  "sorted (map re_Hash xs) \<Longrightarrow> takeWhile (\<lambda>e. re_Hash e < h) xs = filter (\<lambda>e. re_Hash e < h) xs"
proof (induction xs)
  case (Cons a xs)
  have "filter (\<lambda>e. re_Hash e < h) xs = []" if "\<not> re_Hash a < h"
    using that Cons.prems by (auto simp: filter_empty_conv)
  with Cons show ?case by simp
qed simp

lemma sorted_map_filter: "sorted (map f xs) \<Longrightarrow> sorted (map f (filter Q xs))"
  by (induction xs) auto

lemma clockwise_filter:
  assumes "sorted (map re_Hash ring)"
  shows "clockwise h (filter Q ring) = filter Q (clockwise h ring)"
  using assms sorted_map_filter [OF assms, of Q]
  by (simp add: clockwise_def sorted_dropWhile_filter sorted_takeWhile_filter conj_commute)

text \<open>Reading the ring from the start position around is the clockwise order.\<close>

lemma ring_start_clockwise:
  assumes "sorted (map re_Hash (hr_ring r))" and "i < length (hr_ring r)"
  shows "hr_ring r ! ((ring_start hash p r + i) mod length (hr_ring r)) = clockwise (partition_hash hash p) (hr_ring r) ! i"
proof -
  let ?xs = "hr_ring r" and ?h = "partition_hash hash p"
  define t where "t = length (takeWhile (\<lambda>e. re_Hash e < ?h) ?xs)"
  have t: "t \<le> length ?xs" by (simp add: t_def length_takeWhile_le)
  have st: "ring_start hash p r = (if t \<ge> length ?xs then 0 else t)"
    using sort_Search_sorted [OF assms(1), of ?h]
    by (simp add: ring_start_def t_def partition_hash_def Let_def)
  have split: "takeWhile (\<lambda>e. re_Hash e < ?h) ?xs = take t ?xs" "dropWhile (\<lambda>e. re_Hash e < ?h) ?xs = drop t ?xs"
    unfolding t_def by (rule takeWhile_eq_take, rule dropWhile_eq_drop)
  have "clockwise ?h ?xs = rotate t ?xs"
    using t by (cases "t = length ?xs") (simp_all add: clockwise_def split rotate_drop_take)
  moreover have "rotate t ?xs ! i = ?xs ! ((t + i) mod length ?xs)" using assms(2) by (simp add: nth_rotate)
  moreover have "(ring_start hash p r + i) mod length ?xs = (t + i) mod length ?xs"
  proof (cases "t = length ?xs")
    case False
    with st t show ?thesis by simp
  qed (simp add: st)
  ultimately show ?thesis by simp
qed

text \<open>The loop keeps the first occurrence of every node.\<close>

primrec nub :: "'a set \<Rightarrow> 'a list \<Rightarrow> 'a list" where
  "nub seen [] = []"
| "nub seen (x # xs) = (if x \<in> seen then nub seen xs else x # nub (insert x seen) xs)"

lemma set_nub: "set (nub seen xs) = set xs - seen"
  by (induction xs arbitrary: seen) auto

lemma distinct_nub: "distinct (nub seen xs)"
  by (induction xs arbitrary: seen) (auto simp: set_nub)

lemma nub_filter: "nub seen (filter Q xs) = filter Q (nub seen xs)"
proof (induction xs arbitrary: seen)
  case (Cons x xs)
  have "filter Q (nub (insert y seen) xs) = filter Q (nub seen xs)" if "\<not> Q y" for y seen
    using that
  proof (induction xs arbitrary: seen)
    case (Cons z zs)
    then show ?case by (auto simp: insert_commute)
  qed simp
  with Cons show ?case by auto
qed simp

lemma replicas_loop_nub:
  assumes "\<And>i. i \<in> set is \<Longrightarrow> re_NodeID (ring ! ((idx + i) mod length ring)) = ns i" and "int (length result) \<le> rf"
  shows "replicas_loop ring idx rf is seen result = take (nat rf) (result @ nub seen (map ns is))"
  using assms
proof (induction "is" arbitrary: seen result)
  case Nil
  then show ?case by simp
next
  case (Cons i "is")
  show ?case
  proof (cases "int (length result) < rf")
    case True
    then have "nat rf - length result = Suc (nat rf - Suc (length result))" by simp
    with True Cons show ?thesis by (simp add: Let_def)
  next
    case False
    with Cons.prems show ?thesis by simp
  qed
qed

definition node_order :: "(string \<Rightarrow> u64) \<Rightarrow> u32 \<Rightarrow> HashRing \<Rightarrow> NodeID list" where
  "node_order hash p r = nub {} (map re_NodeID (clockwise (partition_hash hash p) (hr_ring r)))"

lemma AssignPartitionReplicas_order:
  assumes "sorted (map re_Hash (hr_ring r))"
  shows "AssignPartitionReplicas hash p rf r = take (nat rf) (node_order hash p r)"
proof (cases "hr_ring r = [] \<or> rf < 1")
  case True
  then show ?thesis by (auto simp: AssignPartitionReplicas_def node_order_def clockwise_def)
next
  case False
  let ?c = "clockwise (partition_hash hash p) (hr_ring r)"
  have "map (\<lambda>i. re_NodeID (?c ! i)) [0..<length (hr_ring r)] = map re_NodeID ?c"
    by (rule nth_equalityI) simp_all
  moreover have "replicas_loop (hr_ring r) (ring_start hash p r) rf [0..<length (hr_ring r)] {} [] =
      take (nat rf) ([] @ nub {} (map (\<lambda>i. re_NodeID (?c ! i)) [0..<length (hr_ring r)]))"
    using False by (intro replicas_loop_nub) (simp_all add: ring_start_clockwise [OF assms])
  ultimately show ?thesis
    using False by (simp only: AssignPartitionReplicas_def node_order_def if_False append_Nil)
qed

lemma AssignPartition_order:
  assumes "sorted (map re_Hash (hr_ring r))" and "hr_ring r \<noteq> []"
  shows "AssignPartition hash p r = hd (node_order hash p r)"
proof -
  let ?c = "clockwise (partition_hash hash p) (hr_ring r)"
  have c: "?c \<noteq> []" and len: "0 < length (hr_ring r)" using assms(2) by simp_all
  have "ring_start hash p r < length (hr_ring r)" using len by (simp add: ring_start_def Let_def)
  then have "hr_ring r ! ring_start hash p r = ?c ! 0"
    using ring_start_clockwise [OF assms(1) len, of hash p] by simp
  with c assms(2) show ?thesis by (cases ?c) (simp_all add: AssignPartition_def node_order_def)
qed

subsection \<open>Reachable rings\<close>

definition sorts :: "(RingEntry list \<Rightarrow> RingEntry list) \<Rightarrow> bool" where
  "sorts srt \<longleftrightarrow> (\<forall>xs. mset (srt xs) = mset xs \<and> sorted (map re_Hash (srt xs)))"

lemma sorts_sort_key: "sorts (sort_key re_Hash)"
  by (simp add: sorts_def)

inductive ring_reachable ::
  "(string \<Rightarrow> u64) \<Rightarrow> (RingEntry list \<Rightarrow> RingEntry list) \<Rightarrow> int \<Rightarrow> HashRing \<Rightarrow> bool" for hash srt v
where
  ring_new: "ring_reachable hash srt v (NewHashRing v)"
| ring_add: "ring_reachable hash srt v r \<Longrightarrow> ring_reachable hash srt v (AddNode hash srt n r)"
| ring_remove: "ring_reachable hash srt v r \<Longrightarrow> ring_reachable hash srt v (RemoveNode n r)"

definition ring_inv :: "(string \<Rightarrow> u64) \<Rightarrow> HashRing \<Rightarrow> bool" where
  "ring_inv hash r \<longleftrightarrow> 1 \<le> hr_vnodesPerNode r \<and> finite (hr_nodes r) \<and> sorted (map re_Hash (hr_ring r)) \<and>
     distinct (hr_ring r) \<and> set (hr_ring r) = (\<Union>n\<in>hr_nodes r. set (vnode_entries hash (hr_vnodesPerNode r) n))"

lemma vnode_entries_node: "e \<in> set (vnode_entries hash v n) \<Longrightarrow> re_NodeID e = n"
  by (auto simp: vnode_entries_def)

lemma vnode_entries_distinct: "distinct (vnode_entries hash v n)"
  by (auto simp: vnode_entries_def distinct_map inj_on_def)

lemma vnode_entries_nonempty: "1 \<le> v \<Longrightarrow> vnode_entries hash v n \<noteq> []"
  by (simp add: vnode_entries_def)

lemma ring_inv_add:
  assumes "sorts srt" and "ring_inv hash r"
  shows "ring_inv hash (AddNode hash srt n r)"
proof (cases "n \<in> hr_nodes r")
  case False
  let ?xs = "hr_ring r @ vnode_entries hash (hr_vnodesPerNode r) n"
  have s: "mset (srt ?xs) = mset ?xs" "sorted (map re_Hash (srt ?xs))" using assms(1) by (simp_all add: sorts_def)
  have "distinct ?xs"
    using assms(2) False by (auto simp: ring_inv_def vnode_entries_distinct dest: vnode_entries_node)
  then have "distinct (srt ?xs)" using s(1) by (metis mset_eq_imp_distinct_iff)
  moreover have "set (srt ?xs) = set ?xs" using s(1) by (metis set_mset_mset)
  ultimately show ?thesis using assms(2) s(2) False by (auto simp: ring_inv_def AddNode_def)
qed (use assms(2) in \<open>simp add: AddNode_def\<close>)

lemma ring_inv_remove:
  assumes "ring_inv hash r"
  shows "ring_inv hash (RemoveNode n r)"
proof (cases "n \<in> hr_nodes r")
  case True
  with assms show ?thesis
    by (auto simp: ring_inv_def RemoveNode_def sorted_map_filter dest: vnode_entries_node)
qed (use assms in \<open>simp add: RemoveNode_def\<close>)

lemma ring_reachable_inv:
  assumes "sorts srt" and "ring_reachable hash srt v r"
  shows "ring_inv hash r \<and> hr_vnodesPerNode r = (if v < 1 then 128 else v)"
  using assms(2)
proof (induction rule: ring_reachable.induct)
  case ring_new
  then show ?case by (simp add: ring_inv_def NewHashRing_def)
next
  case (ring_add r n)
  then show ?case using ring_inv_add [OF assms(1)] by (simp add: AddNode_def)
next
  case (ring_remove r n)
  then show ?case using ring_inv_remove by (simp add: RemoveNode_def)
qed

lemma ring_inv_nodes:
  assumes "ring_inv hash r"
  shows "re_NodeID ` set (hr_ring r) = hr_nodes r"
proof (intro equalityI subsetI)
  fix n assume "n \<in> hr_nodes r"
  moreover obtain e where e: "e \<in> set (vnode_entries hash (hr_vnodesPerNode r) n)"
    using vnode_entries_nonempty assms by (metis ring_inv_def list.set_intros(1) neq_Nil_conv)
  ultimately have "e \<in> set (hr_ring r)" using assms by (auto simp: ring_inv_def)
  with vnode_entries_node [OF e] show "n \<in> re_NodeID ` set (hr_ring r)" by blast
qed (use assms in \<open>auto simp: ring_inv_def dest: vnode_entries_node\<close>)

lemma ring_inv_Nil: "ring_inv hash r \<Longrightarrow> hr_ring r = [] \<longleftrightarrow> hr_nodes r = {}"
  using ring_inv_nodes [of hash r] by auto

lemma set_node_order: "ring_inv hash r \<Longrightarrow> set (node_order h p r) = hr_nodes r"
  using ring_inv_nodes [of hash r] by (simp add: node_order_def set_nub)

lemma distinct_node_order: "distinct (node_order h p r)"
  by (simp add: node_order_def distinct_nub)

lemma length_node_order: "ring_inv hash r \<Longrightarrow> length (node_order h p r) = card (hr_nodes r)"
  using set_node_order [of hash r h p] distinct_card [OF distinct_node_order] by metis

text \<open>Removing a node removes it from every preference order and changes nothing else.\<close>

lemma node_order_remove:
  assumes "ring_inv hash r"
  shows "node_order h p (RemoveNode n r) = filter (\<lambda>m. m \<noteq> n) (node_order h p r)"
proof (cases "n \<in> hr_nodes r")
  case True
  have "map re_NodeID (filter (\<lambda>e. re_NodeID e \<noteq> n) xs) = filter (\<lambda>m. m \<noteq> n) (map re_NodeID xs)" for xs :: "RingEntry list"
    by (simp add: filter_map o_def)
  with True assms show ?thesis
    by (simp add: node_order_def RemoveNode_def ring_inv_def clockwise_filter nub_filter)
next
  case False
  then have "filter (\<lambda>m. m \<noteq> n) (node_order h p r) = node_order h p r"
    using set_node_order [OF assms, of h p] by (auto simp: filter_id_conv)
  with False show ?thesis by (simp add: RemoveNode_def)
qed

lemma take_filter_distinct:
  assumes "distinct xs"
  shows "take k (filter (\<lambda>m. m \<noteq> n) (take (Suc k) xs)) = take k (filter (\<lambda>m. m \<noteq> n) xs)"
  using assms
proof (induction xs arbitrary: k)
  case (Cons x xs)
  show ?case
  proof (cases "x = n")
    case True
    with Cons.prems have "filter (\<lambda>m. m \<noteq> n) xs = xs" by (auto simp: filter_id_conv)
    moreover have "filter (\<lambda>m. m \<noteq> n) (take k xs) = take k xs"
      using Cons.prems True by (auto simp: filter_id_conv dest: in_set_takeD)
    ultimately show ?thesis using True by simp
  next
    case False
    with Cons show ?thesis by (cases k) simp_all
  qed
qed simp

definition collision_free :: "(string \<Rightarrow> u64) \<Rightarrow> int \<Rightarrow> NodeID set \<Rightarrow> bool" where
  "collision_free hash v N \<longleftrightarrow> inj_on (\<lambda>(n, i). hash (n @ ''#'' @ dec i)) (N \<times> {0..<nat v})"

lemma ring_inj_hash:
  assumes "ring_inv hash r" and "collision_free hash (hr_vnodesPerNode r) (hr_nodes r)"
  shows "inj_on re_Hash (set (hr_ring r))"
proof (rule inj_onI)
  fix e f assume ef: "e \<in> set (hr_ring r)" "f \<in> set (hr_ring r)" "re_Hash e = re_Hash f"
  from ef assms(1) obtain n i m j where
    "n \<in> hr_nodes r" "i < nat (hr_vnodesPerNode r)" "e = \<lparr>re_Hash = hash (n @ ''#'' @ dec i), re_NodeID = n, re_VNode = i\<rparr>"
    "m \<in> hr_nodes r" "j < nat (hr_vnodesPerNode r)" "f = \<lparr>re_Hash = hash (m @ ''#'' @ dec j), re_NodeID = m, re_VNode = j\<rparr>"
    by (auto simp: ring_inv_def vnode_entries_def)
  with assms(2) ef(3) show "e = f" by (auto simp: collision_free_def inj_on_def)
qed

lemma ring_unique:
  assumes "ring_inv hash r" and "ring_inv hash r'" and "hr_nodes r = hr_nodes r'"
    and "hr_vnodesPerNode r = hr_vnodesPerNode r'" and "collision_free hash (hr_vnodesPerNode r) (hr_nodes r)"
  shows "r = r'"
proof -
  have inj: "inj_on re_Hash (set (hr_ring r))" by (rule ring_inj_hash [OF assms(1,5)])
  have set: "set (hr_ring r) = set (hr_ring r')" using assms(1-4) by (simp add: ring_inv_def)
  have "hr_ring r = hr_ring r'"
    using assms(1,2) inj set
    by (intro map_sorted_distinct_set_unique [of re_Hash]) (auto simp: ring_inv_def distinct_map)
  with assms(3,4) show ?thesis by simp
qed

subsection \<open>Splits and routing\<close>

definition splits_ascend :: "SplitRegistry \<Rightarrow> bool" where
  "splits_ascend sr \<longleftrightarrow> (\<forall>p info. sr p = Some info \<longrightarrow> p < ChildA info \<and> p < ChildB info)"

lemma split_child_cases: "split_child info h = ChildA info \<or> split_child info h = ChildB info"
  by (simp add: split_child_def)

lemma u32_descent: "p < q \<Longrightarrow> 2 ^ 32 - unat q < 2 ^ 32 - unat p" for p q :: u32
  using unsigned_less [of q, where 'a = nat] by (simp add: word_less_nat_alt)

lemma Resolve_ascend:
  assumes "splits_ascend sr"
  shows "\<exists>q. Resolve sr p h = Some q \<and> sr q = None \<and> p \<le> q"
proof (induction "2 ^ 32 - unat p" arbitrary: p rule: less_induct)
  case less
  show ?case
  proof (cases "sr p")
    case None
    then show ?thesis by (subst Resolve.simps) simp
  next
    case (Some info)
    let ?c = "split_child info h"
    have lt: "p < ?c" using assms Some split_child_cases [of info h] by (auto simp: splits_ascend_def)
    from less [OF u32_descent [OF lt]] obtain q where "Resolve sr ?c h = Some q" "sr q = None" "?c \<le> q" by blast
    with Some lt show ?thesis by (subst Resolve.simps) auto
  qed
qed

lemma Resolve_loops:
  assumes "\<And>p. p \<in> C \<Longrightarrow> \<exists>info. sr p = Some info \<and> split_child info h \<in> C" and "p \<in> C"
  shows "Resolve sr p h = None"
proof -
  have "s = sr \<longrightarrow> h' = h \<longrightarrow> p' \<notin> C" if "Resolve s p' h' = Some q" for s p' h' q
    by (rule Resolve.raw_induct [where P = "\<lambda>s p h' q. s = sr \<longrightarrow> h' = h \<longrightarrow> p \<notin> C", OF _ that])
       (use assms(1) in \<open>fastforce split: option.splits\<close>)
  with assms(2) show ?thesis by (cases "Resolve sr p h") auto
qed

text \<open>Bits below 10 of a hash are already determined by its residue modulo 1024.\<close>

lemma mod_1024_bit: "n < 10 \<Longrightarrow> bit (h mod 1024) n = bit h n" for h :: u64
proof -
  assume "n < 10"
  moreover have "h mod 1024 = take_bit 10 h" by (simp add: take_bit_eq_mod)
  ultimately show ?thesis by (simp only: bit_take_bit_iff simp_thms)
qed

lemma partition_1024_bit: "n < 10 \<Longrightarrow> bit (ucast (h mod 1024) :: u32) n = bit h n" for h :: u64
  by (simp add: bit_ucast_iff mod_1024_bit)

lemma split_child_bit:
  "split_child info h = (if bit h (unat (SplitBit info)) then ChildB info else ChildA info)"
proof -
  have "drop_bit (unat (SplitBit info)) h AND 1 = 0 \<longleftrightarrow> \<not> bit h (unat (SplitBit info))"
    by (simp add: and_one_eq bit_iff_odd_drop_bit odd_iff_mod_2_eq_one)
  then show ?thesis by (simp add: split_child_def)
qed

lemma Resolve_cong:
  assumes "\<And>p info. sr p = Some info \<Longrightarrow> split_child info h = split_child info h'" and "splits_ascend sr"
  shows "Resolve sr p h = Resolve sr p h'"
proof (induction "2 ^ 32 - unat p" arbitrary: p rule: less_induct)
  case less
  show ?case
  proof (cases "sr p")
    case None
    then show ?thesis by (simp add: Resolve.simps [of sr p])
  next
    case (Some info)
    have "p < split_child info h" using assms(2) Some split_child_cases [of info h] by (auto simp: splits_ascend_def)
    from less [OF u32_descent [OF this]] Some assms(1) [OF Some] show ?thesis by (simp add: Resolve.simps [of sr p])
  qed
qed

subsection \<open>Properties\<close>

text \<open>
  (C16) Replica placement: for every ring built by adding and removing nodes, whatever the hash
  function and however ties are sorted, the replicas of a partition are distinct registered
  nodes, there are exactly as many as the replication factor asks for or as there are nodes, and
  the first one is the primary that \<open>AssignPartition\<close> returns.
\<close>

theorem ring_replicas_sound:
  assumes "sorts srt" and "ring_reachable hash srt v r"
  shows "let rs = AssignPartitionReplicas hash p rf r in
    distinct rs \<and> set rs \<subseteq> hr_nodes r \<and> length rs = min (nat rf) (NodeCount r) \<and>
    (rs = [] \<or> hd rs = AssignPartition hash p r)"
proof -
  have inv: "ring_inv hash r" using ring_reachable_inv [OF assms] by simp
  then have s: "sorted (map re_Hash (hr_ring r))" by (simp add: ring_inv_def)
  let ?o = "node_order hash p r"
  have "distinct ?o" by (rule distinct_node_order)
  moreover have "set (take (nat rf) ?o) \<subseteq> hr_nodes r"
    using set_node_order [OF inv, of hash p] set_take_subset by fastforce
  moreover have "take (nat rf) ?o = [] \<or> hd (take (nat rf) ?o) = AssignPartition hash p r"
  proof (cases "hr_ring r = []")
    case True
    then show ?thesis by (simp add: node_order_def clockwise_def)
  next
    case False
    with AssignPartition_order [OF s this, of hash p] show ?thesis by (cases "nat rf"; cases ?o) simp_all
  qed
  ultimately show ?thesis
    by (simp add: AssignPartitionReplicas_order [OF s] Let_def length_node_order [OF inv] NodeCount_def min.commute)
qed

definition toy_hash :: "string \<Rightarrow> u64" where
  "toy_hash s = foldl (\<lambda>a c. a * 31 + of_nat (of_char c)) 7 s"

lemmas ring_eval = NewHashRing_def AddNode_def vnode_entries_def dec.simps digit_def

theorem ring_replicas_sound_witness:
  "let r = AddNode toy_hash (sort_key re_Hash) ''b'' (AddNode toy_hash (sort_key re_Hash) ''a'' (NewHashRing 2));
       rs = AssignPartitionReplicas toy_hash 3 2 r
   in distinct rs \<and> set rs \<subseteq> {''a'', ''b''} \<and> length rs = 2"
proof -
  let ?r = "AddNode toy_hash (sort_key re_Hash) ''b'' (AddNode toy_hash (sort_key re_Hash) ''a'' (NewHashRing 2))"
  have "ring_reachable toy_hash (sort_key re_Hash) 2 ?r" by (intro ring_reachable.intros)
  from ring_replicas_sound [OF sorts_sort_key this, of 3 2]
  show ?thesis by (auto simp: Let_def NodeCount_def AddNode_def NewHashRing_def)
qed

text \<open>
  (C15) Minimal movement: when a node leaves the ring, the replica list of every partition is the old
  one, extended by one, without that node: no partition changes hands that the node did not hold.
  When a node joins, and no two virtual nodes share a hash, the old lists are the new ones without
  the node: the only partitions that move go to the new node.
\<close>

theorem ring_minimal_movement:
  assumes "sorts srt" and "ring_reachable hash srt v r"
    and "collision_free hash (hr_vnodesPerNode r) (insert n (hr_nodes r))" and "0 \<le> rf"
  shows "AssignPartitionReplicas hash p rf (RemoveNode n r) =
      take (nat rf) (filter (\<lambda>m. m \<noteq> n) (AssignPartitionReplicas hash p (rf + 1) r)) \<and>
    (n \<in> hr_nodes r \<or> AssignPartitionReplicas hash p rf r =
      take (nat rf) (filter (\<lambda>m. m \<noteq> n) (AssignPartitionReplicas hash p (rf + 1) (AddNode hash srt n r))))"
proof -
  have key: "AssignPartitionReplicas hash p rf (RemoveNode n s) =
      take (nat rf) (filter (\<lambda>m. m \<noteq> n) (AssignPartitionReplicas hash p (rf + 1) s))" if "ring_inv hash s" for s
  proof -
    have "ring_inv hash (RemoveNode n s)" using that by (rule ring_inv_remove)
    then have s: "sorted (map re_Hash (hr_ring (RemoveNode n s)))" "sorted (map re_Hash (hr_ring s))"
      using that by (simp_all add: ring_inv_def)
    have "nat (rf + 1) = Suc (nat rf)" using assms(4) by simp
    with take_filter_distinct [of "node_order hash p s" "nat rf" n] show ?thesis
      by (simp add: AssignPartitionReplicas_order [OF s(1)] AssignPartitionReplicas_order [OF s(2)]
          node_order_remove [OF that] distinct_node_order)
  qed
  have inv: "ring_inv hash r" using ring_reachable_inv [OF assms(1,2)] by simp
  have "RemoveNode n (AddNode hash srt n r) = r" if "n \<notin> hr_nodes r"
  proof (rule ring_unique [OF ring_inv_remove [OF ring_inv_add [OF assms(1) inv]] inv])
    show "hr_nodes (RemoveNode n (AddNode hash srt n r)) = hr_nodes r"
      "hr_vnodesPerNode (RemoveNode n (AddNode hash srt n r)) = hr_vnodesPerNode r"
      using that by (simp_all add: AddNode_def RemoveNode_def)
    then show "collision_free hash (hr_vnodesPerNode (RemoveNode n (AddNode hash srt n r)))
        (hr_nodes (RemoveNode n (AddNode hash srt n r)))"
      using assms(3) by (auto simp: collision_free_def intro: inj_on_subset)
  qed
  with key [OF inv] key [OF ring_inv_add [OF assms(1) inv, of n]] show ?thesis by metis
qed

theorem ring_minimal_movement_witness:
  "let r = AddNode toy_hash (sort_key re_Hash) ''a'' (NewHashRing 1)
   in AssignPartitionReplicas toy_hash 3 1 r =
     take 1 (filter (\<lambda>m. m \<noteq> ''b'') (AssignPartitionReplicas toy_hash 3 2 (AddNode toy_hash (sort_key re_Hash) ''b'' r)))"
proof -
  let ?r = "AddNode toy_hash (sort_key re_Hash) ''a'' (NewHashRing 1)"
  have r: "ring_reachable toy_hash (sort_key re_Hash) 1 ?r" by (intro ring_reachable.intros)
  have "hr_nodes ?r = {''a''}" "hr_vnodesPerNode ?r = 1" by (simp_all add: AddNode_def NewHashRing_def)
  moreover have "collision_free toy_hash 1 {''b'', ''a''}"
    by (simp add: collision_free_def inj_on_def toy_hash_def dec.simps digit_def)
  ultimately show ?thesis
    using ring_minimal_movement [OF sorts_sort_key r, of "''b''" 1 3] by (simp add: Let_def)
qed

text \<open>
  The ring is a function of its nodes: two rings with the same node set and number of virtual
  nodes, built by any histories of joins and leaves, are equal when no two virtual nodes share a
  hash. Replicas that rebuild the ring in the random iteration order of a Go map agree.
\<close>

theorem ring_history_independent:
  assumes "sorts srt" and "ring_reachable hash srt v r" and "ring_reachable hash srt v r'"
    and "hr_nodes r = hr_nodes r'" and "collision_free hash (hr_vnodesPerNode r) (hr_nodes r)"
  shows "r = r'"
  using ring_unique [OF _ _ assms(4) _ assms(5)] ring_reachable_inv [OF assms(1,2)] ring_reachable_inv [OF assms(1,3)]
  by simp

theorem ring_history_independent_witness:
  "AddNode toy_hash (sort_key re_Hash) ''b'' (AddNode toy_hash (sort_key re_Hash) ''a'' (NewHashRing 1)) =
   AddNode toy_hash (sort_key re_Hash) ''a'' (AddNode toy_hash (sort_key re_Hash) ''b'' (NewHashRing 1))"
proof -
  let ?r = "AddNode toy_hash (sort_key re_Hash) ''b'' (AddNode toy_hash (sort_key re_Hash) ''a'' (NewHashRing 1))"
  let ?r' = "AddNode toy_hash (sort_key re_Hash) ''a'' (AddNode toy_hash (sort_key re_Hash) ''b'' (NewHashRing 1))"
  have "ring_reachable toy_hash (sort_key re_Hash) 1 ?r" "ring_reachable toy_hash (sort_key re_Hash) 1 ?r'"
    by (intro ring_reachable.intros)+
  moreover have "hr_nodes ?r = {''b'', ''a''}" "hr_nodes ?r' = {''b'', ''a''}" "hr_vnodesPerNode ?r = 1"
    by (auto simp: AddNode_def NewHashRing_def)
  moreover have "collision_free toy_hash 1 {''b'', ''a''}"
    by (simp add: collision_free_def inj_on_def toy_hash_def dec.simps digit_def)
  ultimately show ?thesis using ring_history_independent [OF sorts_sort_key, of toy_hash 1 ?r ?r'] by metis
qed

text \<open>
  (C37) When routing through splits ends: it ends at a leaf when every registered split has children
  with larger partition numbers than the parent; and it never returns exactly if the partition lies
  in a set of split partitions that the splits, followed for the event's hash, never leave, which is
  to say that its chain of splits runs into a cycle of any length: \<open>Resolve\<close> has no guard against one.
\<close>

theorem resolve_termination:
  "(\<not> splits_ascend sr \<or> (\<exists>q. Resolve sr p h = Some q \<and> sr q = None)) \<and>
   (Resolve sr p h = None \<longleftrightarrow> (\<exists>C. p \<in> C \<and> (\<forall>q \<in> C. \<exists>info. sr q = Some info \<and> split_child info h \<in> C)))"
proof
  show "\<not> splits_ascend sr \<or> (\<exists>q. Resolve sr p h = Some q \<and> sr q = None)"
    using Resolve_ascend [of sr p h] by blast
  have "\<exists>info. sr q = Some info \<and> Resolve sr (split_child info h) h = None" if "Resolve sr q h = None" for q
    using that by (subst (asm) Resolve.simps) (auto split: option.splits)
  then show "Resolve sr p h = None \<longleftrightarrow> (\<exists>C. p \<in> C \<and> (\<forall>q \<in> C. \<exists>info. sr q = Some info \<and> split_child info h \<in> C))"
    using Resolve_loops [of _ sr h p] by (intro iffI) (auto intro: exI [of _ "{q. Resolve sr q h = None}"])
qed

text \<open>Splits of 5 into 7 and 8, and a cycle of three: 5, 7 and 9 are split into one another.\<close>

theorem resolve_termination_witness:
  "(\<exists>q. Resolve (Register \<lparr>ParentPartition = 5, ChildA = 7, ChildB = 8, SplitBit = 12\<rparr> NewSplitRegistry) 5 4096 = Some q \<and>
      Register \<lparr>ParentPartition = 5, ChildA = 7, ChildB = 8, SplitBit = 12\<rparr> NewSplitRegistry q = None) \<and>
   Resolve (Register \<lparr>ParentPartition = 5, ChildA = 7, ChildB = 7, SplitBit = 12\<rparr>
     (Register \<lparr>ParentPartition = 7, ChildA = 8, ChildB = 9, SplitBit = 12\<rparr>
     (Register \<lparr>ParentPartition = 9, ChildA = 1, ChildB = 5, SplitBit = 12\<rparr> NewSplitRegistry))) 5 4096 = None"
  (is "_ \<and> Resolve ?cycle 5 4096 = None")
proof
  have "splits_ascend (Register \<lparr>ParentPartition = 5, ChildA = 7, ChildB = 8, SplitBit = 12\<rparr> NewSplitRegistry)"
    by (simp add: splits_ascend_def Register_def NewSplitRegistry_def)
  with resolve_termination [of "Register \<lparr>ParentPartition = 5, ChildA = 7, ChildB = 8, SplitBit = 12\<rparr> NewSplitRegistry" 5 4096]
  show "\<exists>q. Resolve (Register \<lparr>ParentPartition = 5, ChildA = 7, ChildB = 8, SplitBit = 12\<rparr> NewSplitRegistry) 5 4096 = Some q \<and>
      Register \<lparr>ParentPartition = 5, ChildA = 7, ChildB = 8, SplitBit = 12\<rparr> NewSplitRegistry q = None" by blast
  have "5 \<in> {5, 7, 9} \<and> (\<forall>q \<in> {5, 7, 9}. \<exists>info. ?cycle q = Some info \<and> split_child info 4096 \<in> {5, 7, 9})"
    by (simp add: Register_def split_child_bit bit_iff_odd)
  with resolve_termination [of ?cycle 5 4096] show "Resolve ?cycle 5 4096 = None" by blast
qed

text \<open>
  (C36) Splitting on a low bit divides nothing: with the default of 1024 partitions a partition number
  is the hash modulo 1024, so all its events agree on hash bits 0 to 9. As long as all registered
  splits examine one of these bits, two events of the same partition still share a partition after
  the splits.
\<close>

theorem low_bit_split_divides_nothing:
  assumes "VirtualPartitionCount cfg = 1024" and "splits_ascend sr"
    and "\<forall>q info. sr q = Some info \<longrightarrow> SplitBit info < 10"
    and "AssignShard hash source host index ts cfg = AssignShard hash source' host' index ts cfg"
  shows "AssignShardWithSplits hash source host index ts cfg (Some sr) =
    AssignShardWithSplits hash source' host' index ts cfg (Some sr)"
proof -
  let ?h = "shard_hash hash source host" and ?h' = "shard_hash hash source' host'"
  have p: "(ucast (?h mod 1024) :: u32) = ucast (?h' mod 1024)"
    using assms(4) by (simp add: AssignShard_def assms(1))
  have "split_child info ?h = split_child info ?h'" if "sr q = Some info" for q info
  proof -
    have "unat (SplitBit info) < 10" using assms(3) that by (simp add: word_less_nat_alt)
    then show ?thesis
      using p partition_1024_bit [of "unat (SplitBit info)" ?h] partition_1024_bit [of "unat (SplitBit info)" ?h']
      by (simp add: split_child_bit)
  qed
  then have "Resolve sr q ?h = Resolve sr q ?h'" for q by (intro Resolve_cong assms(2))
  with p show ?thesis by (simp add: AssignShardWithSplits_def assms(1) Let_def)
qed

theorem low_bit_split_divides_nothing_witness:
  "let sr = Register \<lparr>ParentPartition = 5, ChildA = 1048586, ChildB = 1048587, SplitBit = 0\<rparr> NewSplitRegistry;
       hash = (\<lambda>s. of_nat (length s) * 1024 + 5);
       cfg = \<lparr>TimeBucketSize = 86400 * 10 ^ 9, VirtualPartitionCount = 1024\<rparr>
   in AssignShardWithSplits hash ''nginx'' ''web1'' ''main'' 0 cfg (Some sr) =
      AssignShardWithSplits hash ''postgres'' ''db7'' ''main'' 0 cfg (Some sr)"
proof -
  let ?sr = "Register \<lparr>ParentPartition = 5, ChildA = 1048586, ChildB = 1048587, SplitBit = 0\<rparr> NewSplitRegistry"
  let ?hash = "\<lambda>s. of_nat (length s) * 1024 + 5 :: u64"
  let ?cfg = "\<lparr>TimeBucketSize = 86400 * 10 ^ 9, VirtualPartitionCount = 1024\<rparr>"
  have "splits_ascend ?sr" "\<forall>q info. ?sr q = Some info \<longrightarrow> SplitBit info < 10"
    by (simp_all add: splits_ascend_def Register_def NewSplitRegistry_def)
  moreover have "AssignShard ?hash ''nginx'' ''web1'' ''main'' 0 ?cfg = AssignShard ?hash ''postgres'' ''db7'' ''main'' 0 ?cfg"
    by (simp add: AssignShard_def shard_hash_def)
  ultimately show ?thesis
    using low_bit_split_divides_nothing [of ?cfg ?sr ?hash "''nginx''" "''web1''" "''main''" 0 "''postgres''" "''db7''"]
    by (simp add: Let_def)
qed

text \<open>
  Routing of events: a shard's time bucket is aligned and contains the event, the partition is
  below the configured count, and events whose sources hold no NUL byte share a routing key only
  when source and host agree.
\<close>

theorem shard_routing_sound:
  assumes "AssignShard hash source host index ts cfg = Some sid" and "0 < TimeBucketSize cfg"
  shows "sid_TimeBucket sid \<le> ts \<and> ts < sid_TimeBucket sid + TimeBucketSize cfg \<and>
    TimeBucketSize cfg dvd sid_TimeBucket sid \<and> sid_Partition sid < VirtualPartitionCount cfg \<and>
    (char_of (0 :: nat) \<in> set source \<or> char_of (0 :: nat) \<in> set source' \<or>
     source @ [char_of (0 :: nat)] @ host \<noteq> source' @ [char_of (0 :: nat)] @ host' \<or>
     source = source' \<and> host = host')"
proof -
  let ?v = "VirtualPartitionCount cfg" and ?h = "shard_hash hash source host"
  have v: "?v \<noteq> 0" and sid: "sid = \<lparr>sid_Index = index, sid_TimeBucket = Truncate ts (TimeBucketSize cfg),
      sid_Partition = ucast (?h mod ucast ?v)\<rparr>" using assms(1) by (auto simp: AssignShard_def split: if_splits)
  have "unat ?h mod unat ?v < unat ?v" using v by (simp add: unat_gt_0)
  moreover have "unat (ucast ?v :: u64) = unat ?v" using unsigned_less [of ?v, where 'a = nat] by (intro unat_ucast_small) simp
  ultimately have "unat (?h mod ucast ?v) < unat ?v" by (simp add: unat_mod_distrib)
  moreover from this have "unat (?h mod ucast ?v) < 2 ^ 32"
    using unsigned_less [of ?v, where 'a = nat] by simp
  ultimately have "ucast (?h mod ucast ?v) < ?v"
    by (simp add: word_less_nat_alt unat_ucast_small)
  moreover have "source = source' \<and> host = host'"
    if "char_of (0 :: nat) \<notin> set source" "char_of (0 :: nat) \<notin> set source'"
      "source @ [char_of (0 :: nat)] @ host = source' @ [char_of (0 :: nat)] @ host'"
    using that by (simp add: append_sep_inject)
  ultimately show ?thesis using assms(2) by (auto simp: sid Truncate_def dvd_minus_mod)
qed

theorem shard_routing_sound_witness:
  "\<exists>sid. AssignShard toy_hash ''nginx'' ''web1'' ''main'' 1000 \<lparr>TimeBucketSize = 300, VirtualPartitionCount = 1024\<rparr> = Some sid \<and>
     sid_TimeBucket sid \<le> 1000 \<and> 1000 < sid_TimeBucket sid + 300 \<and> sid_Partition sid < 1024"
proof -
  let ?cfg = "\<lparr>TimeBucketSize = 300, VirtualPartitionCount = 1024\<rparr>"
  obtain sid where s: "AssignShard toy_hash ''nginx'' ''web1'' ''main'' 1000 ?cfg = Some sid"
    by (simp add: AssignShard_def)
  from shard_routing_sound [OF s] s show ?thesis by auto
qed

end
