(* ===== verification/Meta_State.thy ===== *)
theory Meta_State
  imports Sharding "HOL-Library.AList"
begin

text \<open>
  \<^verbatim>\<open>src/pkg/cluster/meta/\<close>: the cluster metadata that the Raft log replicates (\<^verbatim>\<open>state.go\<close>,
  \<^verbatim>\<open>lease.go\<close>, \<^verbatim>\<open>shard_map.go\<close>, \<^verbatim>\<open>node_registry.go\<close>, \<^verbatim>\<open>compaction_coordinator.go\<close>,
  \<^verbatim>\<open>field_catalog.go\<close>, \<^verbatim>\<open>source_registry.go\<close>, \<^verbatim>\<open>view_registry.go\<close>), its commands
  (\<^verbatim>\<open>command.go\<close>) and the state machine that applies them (\<^verbatim>\<open>fsm.go\<close>), with the rebalance plans of
  \<^verbatim>\<open>src/pkg/cluster/rebalance/plan.go\<close>. Every \<open>apply\<close> method takes the payload bytes; the msgpack
  library that decodes them is a parameter. The wall clock and everything Go leaves open
  (the iteration order of maps, the order of equal elements after \<open>sort.Slice\<close>) are parameters too.
\<close>

subsection \<open>Nodes\<close>

datatype NodeState = NodeAlive | NodeSuspect | NodeDead

fun NodeState_String :: "NodeState \<Rightarrow> string" where
  "NodeState_String NodeAlive = ''alive''"
| "NodeState_String NodeSuspect = ''suspect''"
| "NodeState_String NodeDead = ''dead''"

record NodeInfo =
  ni_ID :: NodeID
  ni_Addr :: string
  ni_GRPCAddr :: string
  ni_Roles :: "string list"
  ni_StartedAt :: go_time
  ni_Version :: string

text \<open>The CPU percentage is a float64, kept as its bit pattern.\<close>

record NodeResourceReport =
  nr_CPUPercent :: u64
  nr_MemoryUsed :: int
  nr_MemoryTotal :: int
  nr_DiskUsed :: int
  nr_DiskTotal :: int
  nr_ActiveQueries :: int
  nr_IngestRateEPS :: int

definition zero_resources :: NodeResourceReport where
  "zero_resources = \<lparr>nr_CPUPercent = 0, nr_MemoryUsed = 0, nr_MemoryTotal = 0, nr_DiskUsed = 0,
     nr_DiskTotal = 0, nr_ActiveQueries = 0, nr_IngestRateEPS = 0\<rparr>"

record NodeEntry =
  ne_Info :: NodeInfo
  ne_State :: NodeState
  ne_LastHeartbeat :: go_time
  ne_Resources :: NodeResourceReport

subsection \<open>Leases, compaction, catalogs, views\<close>

record ShardLease =
  sl_HolderID :: NodeID
  sl_GrantedAt :: go_time
  sl_ExpiresAt :: go_time
  sl_Epoch :: u64

definition Lease_IsValid :: "go_time \<Rightarrow> int \<Rightarrow> ShardLease \<Rightarrow> bool" where
  "Lease_IsValid now maxSkew l \<longleftrightarrow> now < sl_ExpiresAt l + maxSkew"

record CompactionTask =
  ct_ShardID :: string
  ct_AssignedNode :: NodeID
  ct_CatalogVersion :: u64
  ct_InputParts :: "string list"
  ct_TargetLevel :: int
  ct_CreatedAt :: go_time
  ct_ExpiresAt :: go_time

record FieldValueEntry =
  fv_Value :: string
  fv_Count :: int

text \<open>Small maps that are summed over are association lists with distinct keys.\<close>

record GlobalFieldInfo =
  gf_Name :: string
  gf_Type :: string
  gf_TypeConflict :: bool
  gf_TypeCounts :: "(string \<times> int) list"
  gf_TotalCount :: int
  gf_NodeCounts :: "(NodeID \<times> int) list"
  gf_NodeTypes :: "(NodeID \<times> string) list"
  gf_TopValues :: "FieldValueEntry list"

record FieldDelta =
  fd_Name :: string
  fd_Type :: string
  fd_Count :: int
  fd_TopValues :: "FieldValueEntry list"

record GlobalSourceInfo =
  gs_Name :: string
  gs_FirstSeen :: go_time
  gs_LastSeen :: go_time
  gs_EventCount :: int
  gs_NodeSet :: "(NodeID \<times> int) list"

record SourceDelta =
  sd_Name :: string
  sd_EventCount :: int
  sd_LastSeen :: go_time

record GlobalViewInfo =
  gv_Name :: string
  gv_Query :: string
  gv_Status :: string
  gv_BackfillState :: string
  gv_CoordinatorNode :: NodeID
  gv_Version :: u64

subsection \<open>Rebalance plans\<close>

record ShardMove =
  mv_ShardKey :: string
  mv_Partition :: u32
  mv_OldPrimary :: NodeID
  mv_NewPrimary :: NodeID
  mv_OldReplicas :: "NodeID list"
  mv_NewReplicas :: "NodeID list"

record RebalancePlan =
  pl_Moves :: "ShardMove list"
  pl_Epoch :: u64
  pl_AddedNode :: NodeID
  pl_RemovedNode :: NodeID

definition Plan_IsEmpty :: "RebalancePlan option \<Rightarrow> bool" where
  "Plan_IsEmpty p \<longleftrightarrow> (case p of None \<Rightarrow> True | Some pl \<Rightarrow> pl_Moves pl = [])"

subsection \<open>The state\<close>

record MetaState =
  ms_Nodes :: "NodeID \<Rightarrow> NodeEntry option"
  ms_ShardMap :: ShardMap
  ms_Leases :: "string \<Rightarrow> ShardLease option"
  ms_Compaction :: "string \<Rightarrow> CompactionTask option"
  ms_Ring :: HashRing
  ms_Version :: u64
  ms_FieldCatalog :: "string \<Rightarrow> GlobalFieldInfo option"
  ms_Sources :: "string \<Rightarrow> GlobalSourceInfo option"
  ms_Views :: "string \<Rightarrow> GlobalViewInfo option"
  ms_Splits :: "u32 \<Rightarrow> SplitInfo option"

definition NewMetaState :: MetaState where
  "NewMetaState = \<lparr>ms_Nodes = Map.empty, ms_ShardMap = NewShardMap, ms_Leases = Map.empty,
     ms_Compaction = Map.empty, ms_Ring = NewHashRing 128, ms_Version = 0, ms_FieldCatalog = Map.empty,
     ms_Sources = Map.empty, ms_Views = Map.empty, ms_Splits = Map.empty\<rparr>"

datatype meta_error =
    ErrUnmarshal
  | ErrUnknownCommand u8
  | ErrShardNotFound string
  | ErrShardState string ShardState
  | ErrNotPrimary NodeID string NodeID
  | ErrNoLease string
  | ErrEpochMismatch u64 u64
  | ErrHolderMismatch NodeID NodeID
  | ErrCompactionActive string
  | ErrAlreadySplitting u32
  | ErrNoSplit u32
  | ErrSnapshotTooLarge

type_synonym apply_result = "MetaState \<times> meta_error option"

definition bump :: "MetaState \<Rightarrow> MetaState" where
  "bump s = s\<lparr>ms_Version := ms_Version s + 1\<rparr>"

definition set_assignments :: "(string \<Rightarrow> ShardAssignment option) \<Rightarrow> MetaState \<Rightarrow> MetaState" where
  "set_assignments m s = s\<lparr>ms_ShardMap := (ms_ShardMap s)\<lparr>sm_Assignments := m\<rparr>\<rparr>"

abbreviation assignments :: "MetaState \<Rightarrow> string \<Rightarrow> ShardAssignment option" where
  "assignments s \<equiv> sm_Assignments (ms_ShardMap s)"

subsubsection \<open>Nodes\<close>

definition applyRegisterNode ::
  "(string \<Rightarrow> u64) \<Rightarrow> (RingEntry list \<Rightarrow> RingEntry list) \<Rightarrow> (bytes \<Rightarrow> NodeInfo option) \<Rightarrow> go_time \<Rightarrow> bytes
     \<Rightarrow> MetaState \<Rightarrow> apply_result"
where
  "applyRegisterNode hash srt unmarshal now payload s =
     (case unmarshal payload of
        None \<Rightarrow> (s, Some ErrUnmarshal)
      | Some info \<Rightarrow>
          (bump (case ms_Nodes s (ni_ID info) of
             Some entry \<Rightarrow> s\<lparr>ms_Nodes := (ms_Nodes s)(ni_ID info \<mapsto>
               entry\<lparr>ne_Info := info, ne_State := NodeAlive, ne_LastHeartbeat := now\<rparr>)\<rparr>
           | None \<Rightarrow> s\<lparr>ms_Nodes := (ms_Nodes s)(ni_ID info \<mapsto>
               \<lparr>ne_Info = info, ne_State = NodeAlive, ne_LastHeartbeat = now, ne_Resources = zero_resources\<rparr>),
               ms_Ring := AddNode hash srt (ni_ID info) (ms_Ring s)\<rparr>), None))"

definition applyDeregisterNode :: "(bytes \<Rightarrow> NodeID option) \<Rightarrow> bytes \<Rightarrow> MetaState \<Rightarrow> apply_result" where
  "applyDeregisterNode unmarshal payload s =
     (case unmarshal payload of
        None \<Rightarrow> (s, Some ErrUnmarshal)
      | Some n \<Rightarrow> (bump (s\<lparr>ms_Nodes := (ms_Nodes s)(n := None), ms_Ring := RemoveNode n (ms_Ring s)\<rparr>), None))"

definition ProcessHeartbeat :: "go_time \<Rightarrow> NodeID \<Rightarrow> NodeResourceReport \<Rightarrow> MetaState \<Rightarrow> MetaState" where
  "ProcessHeartbeat now nodeID resources s =
     (case ms_Nodes s nodeID of
        None \<Rightarrow> s
      | Some entry \<Rightarrow> s\<lparr>ms_Nodes := (ms_Nodes s)(nodeID \<mapsto>
          entry\<lparr>ne_LastHeartbeat := now, ne_Resources := resources,
                ne_State := (if ne_State entry = NodeSuspect then NodeAlive else ne_State entry)\<rparr>)\<rparr>)"

text \<open>
  The loop of \<open>DetectFailures\<close> treats every node on its own, so the iteration order only orders the
  returned list, given here as a set.
\<close>

definition detect_entry :: "go_time \<Rightarrow> int \<Rightarrow> int \<Rightarrow> NodeEntry \<Rightarrow> NodeEntry" where
  "detect_entry now suspectTimeout deadTimeout entry =
     (let elapsed = now - ne_LastHeartbeat entry in
      case ne_State entry of
        NodeAlive \<Rightarrow> if elapsed > suspectTimeout then entry\<lparr>ne_State := NodeSuspect\<rparr> else entry
      | NodeSuspect \<Rightarrow> if elapsed > deadTimeout then entry\<lparr>ne_State := NodeDead\<rparr> else entry
      | NodeDead \<Rightarrow> entry)"

definition DetectFailures :: "go_time \<Rightarrow> int \<Rightarrow> int \<Rightarrow> MetaState \<Rightarrow> MetaState \<times> NodeID set" where
  "DetectFailures now suspectTimeout deadTimeout s =
     (s\<lparr>ms_Nodes := (\<lambda>n. map_option (detect_entry now suspectTimeout deadTimeout) (ms_Nodes s n))\<rparr>,
      {n. \<exists>entry. ms_Nodes s n = Some entry \<and> ne_State entry \<noteq> NodeDead \<and>
        ne_State (detect_entry now suspectTimeout deadTimeout entry) = NodeDead})"

subsubsection \<open>Shard map, drain and ISR\<close>

definition applyUpdateShardMap :: "(bytes \<Rightarrow> ShardMap option) \<Rightarrow> bytes \<Rightarrow> MetaState \<Rightarrow> apply_result" where
  "applyUpdateShardMap unmarshal payload s =
     (case unmarshal payload of
        None \<Rightarrow> (s, Some ErrUnmarshal)
      | Some sm \<Rightarrow> (bump (s\<lparr>ms_ShardMap := sm\<rparr>), None))"

record ProposeDrainPayload =
  pd_ShardID :: string
  pd_NodeID :: NodeID

definition applyProposeDrain :: "(bytes \<Rightarrow> ProposeDrainPayload option) \<Rightarrow> bytes \<Rightarrow> MetaState \<Rightarrow> apply_result" where
  "applyProposeDrain unmarshal payload s =
     (case unmarshal payload of
        None \<Rightarrow> (s, Some ErrUnmarshal)
      | Some p \<Rightarrow>
          (case assignments s (pd_ShardID p) of
             None \<Rightarrow> (s, Some (ErrShardNotFound (pd_ShardID p)))
           | Some a \<Rightarrow>
               if sa_State a \<noteq> ShardActive then (s, Some (ErrShardState (pd_ShardID p) (sa_State a)))
               else if sa_Primary a \<noteq> pd_NodeID p
               then (s, Some (ErrNotPrimary (pd_NodeID p) (pd_ShardID p) (sa_Primary a)))
               else (bump (set_assignments ((assignments s)(pd_ShardID p \<mapsto> a\<lparr>sa_State := ShardDraining\<rparr>)) s), None)))"

record CompleteDrainPayload =
  cd_ShardID :: string
  cd_NodeID :: NodeID
  cd_NewPrimaryID :: NodeID

definition applyCompleteDrain :: "(bytes \<Rightarrow> CompleteDrainPayload option) \<Rightarrow> bytes \<Rightarrow> MetaState \<Rightarrow> apply_result" where
  "applyCompleteDrain unmarshal payload s =
     (case unmarshal payload of
        None \<Rightarrow> (s, Some ErrUnmarshal)
      | Some p \<Rightarrow>
          (case assignments s (cd_ShardID p) of
             None \<Rightarrow> (s, Some (ErrShardNotFound (cd_ShardID p)))
           | Some a \<Rightarrow>
               if sa_State a \<noteq> ShardDraining then (s, Some (ErrShardState (cd_ShardID p) (sa_State a)))
               else (bump (set_assignments ((assignments s)(cd_ShardID p \<mapsto>
                  a\<lparr>sa_Primary := cd_NewPrimaryID p, sa_State := ShardActive, sa_Epoch := sa_Epoch a + 1,
                    sa_Replicas := filter (\<lambda>r. r \<noteq> cd_NodeID p \<and> r \<noteq> cd_NewPrimaryID p) (sa_Replicas a)\<rparr>)) s), None)))"

definition applyUpdateISR :: "(bytes \<Rightarrow> (string \<times> NodeID list) option) \<Rightarrow> bytes \<Rightarrow> MetaState \<Rightarrow> apply_result" where
  "applyUpdateISR unmarshal payload s =
     (case unmarshal payload of
        None \<Rightarrow> (s, Some ErrUnmarshal)
      | Some (shardID, members) \<Rightarrow>
          (case assignments s shardID of
             None \<Rightarrow> (s, Some (ErrShardNotFound shardID))
           | Some a \<Rightarrow> (bump (set_assignments ((assignments s)(shardID \<mapsto> a\<lparr>sa_Replicas := members\<rparr>)) s), None)))"

definition TransitionShard :: "string \<Rightarrow> ShardState \<Rightarrow> MetaState \<Rightarrow> apply_result" where
  "TransitionShard shardKey st s =
     (case assignments s shardKey of
        None \<Rightarrow> (s, Some (ErrShardNotFound shardKey))
      | Some a \<Rightarrow> (bump (set_assignments ((assignments s)(shardKey \<mapsto> a\<lparr>sa_State := st\<rparr>)) s), None))"

subsubsection \<open>Splits\<close>

definition pkey :: "u32 \<Rightarrow> string" where "pkey p = ''p'' @ dec (unat p)"

definition zero_shard_id :: "u32 \<Rightarrow> ShardID" where
  "zero_shard_id p = \<lparr>sid_Index = '''', sid_TimeBucket = 0, sid_Partition = p\<rparr>"

definition fresh_assignment :: "u32 \<Rightarrow> NodeID \<Rightarrow> NodeID list \<Rightarrow> ShardState \<Rightarrow> u64 \<Rightarrow> ShardAssignment" where
  "fresh_assignment p primary replicas st epoch =
     \<lparr>sa_ShardID = zero_shard_id p, sa_Primary = primary, sa_Replicas = replicas, sa_State = st, sa_Epoch = epoch,
      sa_PendingPrimary = '''', sa_PendingReplicas = []\<rparr>"

definition applyProposeSplit :: "(bytes \<Rightarrow> SplitInfo option) \<Rightarrow> bytes \<Rightarrow> MetaState \<Rightarrow> apply_result" where
  "applyProposeSplit unmarshal payload s =
     (case unmarshal payload of
        None \<Rightarrow> (s, Some ErrUnmarshal)
      | Some p \<Rightarrow>
          let parentKey = pkey (ParentPartition p) in
          (case assignments s parentKey of
             None \<Rightarrow> (s, Some (ErrShardNotFound parentKey))
           | Some parent \<Rightarrow>
               if sa_State parent \<noteq> ShardActive then (s, Some (ErrShardState parentKey (sa_State parent)))
               else if ms_Splits s (ParentPartition p) \<noteq> None then (s, Some (ErrAlreadySplitting (ParentPartition p)))
               else
                 let epoch = sm_Epoch (ms_ShardMap s);
                     m = (assignments s)(parentKey \<mapsto> parent\<lparr>sa_State := ShardSplitting, sa_Epoch := sa_Epoch parent + 1\<rparr>);
                     m = m(pkey (ChildA p) \<mapsto>
                       fresh_assignment (ChildA p) (sa_Primary parent) (sa_Replicas parent) ShardMigrating epoch);
                     m = m(pkey (ChildB p) \<mapsto>
                       fresh_assignment (ChildB p) (sa_Primary parent) (sa_Replicas parent) ShardMigrating epoch)
                 in (bump (s\<lparr>ms_Splits := (ms_Splits s)(ParentPartition p \<mapsto> p),
                             ms_ShardMap := (ms_ShardMap s)\<lparr>sm_Assignments := m, sm_Epoch := epoch + 1\<rparr>\<rparr>), None)))"

definition activate :: "string \<Rightarrow> (string \<Rightarrow> ShardAssignment option) \<Rightarrow> string \<Rightarrow> ShardAssignment option" where
  "activate key m =
     (case m key of None \<Rightarrow> m | Some a \<Rightarrow> m(key \<mapsto> a\<lparr>sa_State := ShardActive, sa_Epoch := sa_Epoch a + 1\<rparr>))"

definition applyCompleteSplit :: "(bytes \<Rightarrow> u32 option) \<Rightarrow> bytes \<Rightarrow> MetaState \<Rightarrow> apply_result" where
  "applyCompleteSplit unmarshal payload s =
     (case unmarshal payload of
        None \<Rightarrow> (s, Some ErrUnmarshal)
      | Some parent \<Rightarrow>
          (case ms_Splits s parent of
             None \<Rightarrow> (s, Some (ErrNoSplit parent))
           | Some split \<Rightarrow>
               let m = activate (pkey (ChildB split)) (activate (pkey (ChildA split)) (assignments s)) in
               (bump (s\<lparr>ms_Splits := (ms_Splits s)(parent := None),
                        ms_ShardMap := (ms_ShardMap s)\<lparr>sm_Assignments := m(pkey parent := None),
                                                     sm_Epoch := sm_Epoch (ms_ShardMap s) + 1\<rparr>\<rparr>), None)))"

subsubsection \<open>Leases and compaction\<close>

record GrantLeasePayload =
  gl_ShardID :: string
  gl_HolderID :: NodeID
  gl_LeaseDuration :: int

definition applyGrantLease :: "(bytes \<Rightarrow> GrantLeasePayload option) \<Rightarrow> go_time \<Rightarrow> bytes \<Rightarrow> MetaState \<Rightarrow> apply_result" where
  "applyGrantLease unmarshal now payload s =
     (case unmarshal payload of
        None \<Rightarrow> (s, Some ErrUnmarshal)
      | Some p \<Rightarrow>
          let epoch = (case ms_Leases s (gl_ShardID p) of None \<Rightarrow> 1 | Some existing \<Rightarrow> sl_Epoch existing + 1) in
          (bump (s\<lparr>ms_Leases := (ms_Leases s)(gl_ShardID p \<mapsto>
             \<lparr>sl_HolderID = gl_HolderID p, sl_GrantedAt = now, sl_ExpiresAt = now + gl_LeaseDuration p,
              sl_Epoch = epoch\<rparr>)\<rparr>), None))"

record RenewLeasePayload =
  rl_ShardID :: string
  rl_HolderID :: NodeID
  rl_Epoch :: u64
  rl_LeaseDuration :: int

definition applyRenewLease :: "(bytes \<Rightarrow> RenewLeasePayload option) \<Rightarrow> go_time \<Rightarrow> bytes \<Rightarrow> MetaState \<Rightarrow> apply_result" where
  "applyRenewLease unmarshal now payload s =
     (case unmarshal payload of
        None \<Rightarrow> (s, Some ErrUnmarshal)
      | Some p \<Rightarrow>
          (case ms_Leases s (rl_ShardID p) of
             None \<Rightarrow> (s, Some (ErrNoLease (rl_ShardID p)))
           | Some existing \<Rightarrow>
               if sl_Epoch existing \<noteq> rl_Epoch p then (s, Some (ErrEpochMismatch (rl_Epoch p) (sl_Epoch existing)))
               else if sl_HolderID existing \<noteq> rl_HolderID p
               then (s, Some (ErrHolderMismatch (rl_HolderID p) (sl_HolderID existing)))
               else (bump (s\<lparr>ms_Leases := (ms_Leases s)(rl_ShardID p \<mapsto>
                  existing\<lparr>sl_ExpiresAt := now + rl_LeaseDuration p\<rparr>)\<rparr>), None)))"

record GrantCompactionPayload =
  gc_ShardID :: string
  gc_AssignedNode :: NodeID
  gc_CatalogVersion :: u64
  gc_InputParts :: "string list"
  gc_TargetLevel :: int
  gc_TTL :: int

definition applyGrantCompaction ::
  "(bytes \<Rightarrow> GrantCompactionPayload option) \<Rightarrow> go_time \<Rightarrow> bytes \<Rightarrow> MetaState \<Rightarrow> apply_result"
where
  "applyGrantCompaction unmarshal now payload s =
     (case unmarshal payload of
        None \<Rightarrow> (s, Some ErrUnmarshal)
      | Some p \<Rightarrow>
          if ms_Compaction s (gc_ShardID p) \<noteq> None then (s, Some (ErrCompactionActive (gc_ShardID p)))
          else (bump (s\<lparr>ms_Compaction := (ms_Compaction s)(gc_ShardID p \<mapsto>
            \<lparr>ct_ShardID = gc_ShardID p, ct_AssignedNode = gc_AssignedNode p, ct_CatalogVersion = gc_CatalogVersion p,
             ct_InputParts = gc_InputParts p, ct_TargetLevel = gc_TargetLevel p, ct_CreatedAt = now,
             ct_ExpiresAt = now + gc_TTL p\<rparr>)\<rparr>), None))"

definition applyReleaseCompaction :: "(bytes \<Rightarrow> string option) \<Rightarrow> bytes \<Rightarrow> MetaState \<Rightarrow> apply_result" where
  "applyReleaseCompaction unmarshal payload s =
     (case unmarshal payload of
        None \<Rightarrow> (s, Some ErrUnmarshal)
      | Some shardID \<Rightarrow> (bump (s\<lparr>ms_Compaction := (ms_Compaction s)(shardID := None)\<rparr>), None))"

definition task_expired :: "go_time \<Rightarrow> CompactionTask option \<Rightarrow> bool" where
  "task_expired now t \<longleftrightarrow> (case t of None \<Rightarrow> False | Some task \<Rightarrow> now > ct_ExpiresAt task)"

definition ExpireCompactionTasks :: "go_time \<Rightarrow> MetaState \<Rightarrow> MetaState \<times> CompactionTask set" where
  "ExpireCompactionTasks now s =
     (let expired = {task. \<exists>k. ms_Compaction s k = Some task \<and> now > ct_ExpiresAt task};
          s' = s\<lparr>ms_Compaction := (\<lambda>k. if task_expired now (ms_Compaction s k) then None else ms_Compaction s k)\<rparr>
      in (if expired = {} then s' else bump s', expired))"

subsubsection \<open>Catalogs and views\<close>

text \<open>\<open>iter\<close> is the iteration order of the Go map of type counts.\<close>

definition count_types :: "(NodeID \<times> string) list \<Rightarrow> (string \<times> int) list" where
  "count_types nodeTypes =
     foldl (\<lambda>tc (_, t). AList.update t ((case map_of tc t of None \<Rightarrow> 0 | Some c \<Rightarrow> c) + 1) tc) [] nodeTypes"

definition best_type :: "(string \<times> int) list \<Rightarrow> string" where
  "best_type tcs = fst (foldl (\<lambda>(bt, bc) (t, c). if c > bc then (t, c) else (bt, bc)) ('''', 0) tcs)"

text \<open>\<open>srtV\<close> orders the merged values: map iteration followed by \<open>sort.Slice\<close> on descending counts.\<close>

definition sum_values :: "FieldValueEntry list \<Rightarrow> (string \<times> int) list" where
  "sum_values es =
     foldl (\<lambda>m e. AList.update (fv_Value e) (i64 ((case map_of m (fv_Value e) of None \<Rightarrow> 0 | Some c \<Rightarrow> c) + fv_Count e)) m) [] es"

definition mergeTopValues ::
  "(FieldValueEntry list \<Rightarrow> FieldValueEntry list) \<Rightarrow> FieldValueEntry list \<Rightarrow> FieldValueEntry list \<Rightarrow> nat \<Rightarrow> FieldValueEntry list"
where
  "mergeTopValues srtV existing incoming topN =
     take topN (srtV (map (\<lambda>(v, c). \<lparr>fv_Value = v, fv_Count = c\<rparr>) (sum_values (existing @ incoming))))"

definition update_field ::
  "((string \<times> int) list \<Rightarrow> (string \<times> int) list) \<Rightarrow> (FieldValueEntry list \<Rightarrow> FieldValueEntry list)
     \<Rightarrow> NodeID \<Rightarrow> FieldDelta \<Rightarrow> GlobalFieldInfo \<Rightarrow> GlobalFieldInfo"
where
  "update_field iter srtV nodeID fd gfi =
     (let counts = AList.update nodeID (fd_Count fd) (gf_NodeCounts gfi);
          gfi = gfi\<lparr>gf_NodeCounts := counts, gf_TotalCount := foldl (\<lambda>t (_, c). i64 (t + c)) 0 counts\<rparr>;
          gfi = (if fd_Type fd \<noteq> '''' then
                   let types = AList.update nodeID (fd_Type fd) (gf_NodeTypes gfi); tcs = count_types types in
                   gfi\<lparr>gf_NodeTypes := types, gf_TypeCounts := tcs, gf_Type := best_type (iter tcs),
                       gf_TypeConflict := length tcs > 1\<rparr>
                 else gfi)
      in gfi\<lparr>gf_TopValues := mergeTopValues srtV (gf_TopValues gfi) (fd_TopValues fd) 10\<rparr>)"

definition new_field :: "string \<Rightarrow> GlobalFieldInfo" where
  "new_field name = \<lparr>gf_Name = name, gf_Type = '''', gf_TypeConflict = False, gf_TypeCounts = [], gf_TotalCount = 0,
     gf_NodeCounts = [], gf_NodeTypes = [], gf_TopValues = []\<rparr>"

definition applyUpdateFieldCatalog ::
  "((string \<times> int) list \<Rightarrow> (string \<times> int) list) \<Rightarrow> (FieldValueEntry list \<Rightarrow> FieldValueEntry list)
     \<Rightarrow> (bytes \<Rightarrow> (NodeID \<times> FieldDelta list) option) \<Rightarrow> bytes \<Rightarrow> MetaState \<Rightarrow> apply_result"
where
  "applyUpdateFieldCatalog iter srtV unmarshal payload s =
     (case unmarshal payload of
        None \<Rightarrow> (s, Some ErrUnmarshal)
      | Some (nodeID, fds) \<Rightarrow>
          (bump (s\<lparr>ms_FieldCatalog := foldl (\<lambda>fc fd.
             let gfi = (case fc (fd_Name fd) of None \<Rightarrow> new_field (fd_Name fd) | Some g \<Rightarrow> g) in
             fc(fd_Name fd \<mapsto> update_field iter srtV nodeID fd gfi)) (ms_FieldCatalog s) fds\<rparr>), None))"

text \<open>The zero time is 0.\<close>

definition update_source :: "NodeID \<Rightarrow> SourceDelta \<Rightarrow> GlobalSourceInfo \<Rightarrow> GlobalSourceInfo" where
  "update_source nodeID sd gsi =
     (let ns = AList.update nodeID (sd_EventCount sd) (gs_NodeSet gsi);
          gsi = gsi\<lparr>gs_NodeSet := ns, gs_EventCount := foldl (\<lambda>t (_, c). i64 (t + c)) 0 ns\<rparr>;
          gsi = (if sd_LastSeen sd \<noteq> 0 \<and> (gs_FirstSeen gsi = 0 \<or> sd_LastSeen sd < gs_FirstSeen gsi)
                 then gsi\<lparr>gs_FirstSeen := sd_LastSeen sd\<rparr> else gsi)
      in if sd_LastSeen sd > gs_LastSeen gsi then gsi\<lparr>gs_LastSeen := sd_LastSeen sd\<rparr> else gsi)"

definition applyUpdateSourceRegistry ::
  "(bytes \<Rightarrow> (NodeID \<times> SourceDelta list) option) \<Rightarrow> bytes \<Rightarrow> MetaState \<Rightarrow> apply_result"
where
  "applyUpdateSourceRegistry unmarshal payload s =
     (case unmarshal payload of
        None \<Rightarrow> (s, Some ErrUnmarshal)
      | Some (nodeID, sources) \<Rightarrow>
          (bump (s\<lparr>ms_Sources := foldl (\<lambda>m sd.
             let gsi = (case m (sd_Name sd) of
                          None \<Rightarrow> \<lparr>gs_Name = sd_Name sd, gs_FirstSeen = sd_LastSeen sd, gs_LastSeen = 0,
                                   gs_EventCount = 0, gs_NodeSet = []\<rparr>
                        | Some g \<Rightarrow> g) in
             m(sd_Name sd \<mapsto> update_source nodeID sd gsi)) (ms_Sources s) sources\<rparr>), None))"

definition applyRegisterView :: "(bytes \<Rightarrow> GlobalViewInfo option) \<Rightarrow> bytes \<Rightarrow> MetaState \<Rightarrow> apply_result" where
  "applyRegisterView unmarshal payload s =
     (case unmarshal payload of
        None \<Rightarrow> (s, Some ErrUnmarshal)
      | Some v \<Rightarrow>
          let version = (case ms_Views s (gv_Name v) of Some existing \<Rightarrow> gv_Version existing + 1 | None \<Rightarrow> 1) in
          (bump (s\<lparr>ms_Views := (ms_Views s)(gv_Name v \<mapsto> v\<lparr>gv_Version := version\<rparr>)\<rparr>), None))"

definition applyUnregisterView :: "(bytes \<Rightarrow> string option) \<Rightarrow> bytes \<Rightarrow> MetaState \<Rightarrow> apply_result" where
  "applyUnregisterView unmarshal payload s =
     (case unmarshal payload of
        None \<Rightarrow> (s, Some ErrUnmarshal)
      | Some name \<Rightarrow> (bump (s\<lparr>ms_Views := (ms_Views s)(name := None)\<rparr>), None))"

subsubsection \<open>Rebalancing\<close>

definition RecomputeShardMap :: "(string \<Rightarrow> u64) \<Rightarrow> u32 \<Rightarrow> int \<Rightarrow> MetaState \<Rightarrow> MetaState" where
  "RecomputeShardMap hash vPartCount rf s =
     (let epoch = sm_Epoch (ms_ShardMap s) + 1;
          m = foldl (\<lambda>m i. let p = of_nat i; nodes = AssignPartitionReplicas hash p rf (ms_Ring s) in
                 if nodes = [] then m
                 else m(pkey p \<mapsto> fresh_assignment p (hd nodes) (tl nodes) ShardActive epoch))
              Map.empty [0..<unat vPartCount]
      in bump (s\<lparr>ms_ShardMap := NewShardMap\<lparr>sm_Assignments := m, sm_Epoch := epoch\<rparr>\<rparr>))"

text \<open>What the loop of \<open>IncrementalRebalance\<close> appends to the plan for partition \<open>p\<close>.\<close>

definition plan_move :: "(string \<Rightarrow> u64) \<Rightarrow> int \<Rightarrow> MetaState \<Rightarrow> u32 \<Rightarrow> ShardMove list" where
  "plan_move hash rf s p =
     (case AssignPartitionReplicas hash p rf (ms_Ring s) of
        [] \<Rightarrow> []
      | primary # replicas \<Rightarrow>
          (case assignments s (pkey p) of
             None \<Rightarrow> [\<lparr>mv_ShardKey = pkey p, mv_Partition = p, mv_OldPrimary = '''', mv_NewPrimary = primary,
                      mv_OldReplicas = [], mv_NewReplicas = replicas\<rparr>]
           | Some existing \<Rightarrow>
               if sa_State existing \<noteq> ShardActive then []
               else if sa_Primary existing = primary \<and> sa_Replicas existing = replicas then []
               else [\<lparr>mv_ShardKey = pkey p, mv_Partition = p, mv_OldPrimary = sa_Primary existing,
                      mv_NewPrimary = primary, mv_OldReplicas = sa_Replicas existing, mv_NewReplicas = replicas\<rparr>]))"

definition IncrementalRebalance :: "(string \<Rightarrow> u64) \<Rightarrow> u32 \<Rightarrow> int \<Rightarrow> MetaState \<Rightarrow> RebalancePlan" where
  "IncrementalRebalance hash vPartCount rf s =
     \<lparr>pl_Moves = concat (map (\<lambda>i. plan_move hash rf s (of_nat i)) [0..<unat vPartCount]),
      pl_Epoch = sm_Epoch (ms_ShardMap s) + 1, pl_AddedNode = '''', pl_RemovedNode = ''''\<rparr>"

definition apply_move :: "u64 \<Rightarrow> (string \<Rightarrow> ShardAssignment option) \<Rightarrow> ShardMove \<Rightarrow> string \<Rightarrow> ShardAssignment option" where
  "apply_move epoch m move =
     (case m (mv_ShardKey move) of
        None \<Rightarrow> m(mv_ShardKey move \<mapsto>
          fresh_assignment (mv_Partition move) (mv_NewPrimary move) (mv_NewReplicas move) ShardActive epoch)
      | Some existing \<Rightarrow> m(mv_ShardKey move \<mapsto>
          (if sa_Primary existing \<noteq> mv_NewPrimary move
           then existing\<lparr>sa_State := ShardMigrating, sa_PendingPrimary := mv_NewPrimary move,
                         sa_PendingReplicas := mv_NewReplicas move, sa_Epoch := sa_Epoch existing + 1\<rparr>
           else existing\<lparr>sa_Replicas := mv_NewReplicas move, sa_Epoch := sa_Epoch existing + 1\<rparr>)))"

definition apply_plan :: "RebalancePlan \<Rightarrow> MetaState \<Rightarrow> MetaState" where
  "apply_plan plan s =
     bump (s\<lparr>ms_ShardMap := (ms_ShardMap s)\<lparr>sm_Epoch := pl_Epoch plan,
        sm_Assignments := foldl (apply_move (pl_Epoch plan)) (assignments s) (pl_Moves plan)\<rparr>\<rparr>)"

definition applyRebalance :: "(bytes \<Rightarrow> RebalancePlan option) \<Rightarrow> bytes \<Rightarrow> MetaState \<Rightarrow> apply_result" where
  "applyRebalance unmarshal payload s =
     (case unmarshal payload of
        None \<Rightarrow> (s, Some ErrUnmarshal)
      | Some plan \<Rightarrow> (apply_plan plan s, None))"

end
