(* ===== verification/Meta_FSM.thy ===== *)
theory Meta_FSM
  imports Meta_State
begin

text \<open>
  \<^verbatim>\<open>src/pkg/cluster/meta/fsm.go\<close> and \<^verbatim>\<open>command.go\<close>: the Raft state machine over the metadata state.
  \<open>codec\<close> collects what the msgpack library decodes a payload to, per command; \<open>fsm_env\<close> collects the
  hash function and what Go leaves open. The invariants of the cluster metadata are proved here for
  every sequence of log entries.
\<close>

subsection \<open>Commands\<close>

type_synonym CommandType = u8

definition CmdRegisterNode :: CommandType where "CmdRegisterNode = 1"
definition CmdDeregisterNode :: CommandType where "CmdDeregisterNode = 2"
definition CmdUpdateShardMap :: CommandType where "CmdUpdateShardMap = 3"
definition CmdGrantLease :: CommandType where "CmdGrantLease = 4"
definition CmdRenewLease :: CommandType where "CmdRenewLease = 5"
definition CmdGrantCompaction :: CommandType where "CmdGrantCompaction = 6"
definition CmdReleaseCompaction :: CommandType where "CmdReleaseCompaction = 7"
definition CmdProposeDrain :: CommandType where "CmdProposeDrain = 8"
definition CmdCompleteDrain :: CommandType where "CmdCompleteDrain = 9"
definition CmdUpdateISR :: CommandType where "CmdUpdateISR = 10"
definition CmdUpdateFieldCatalog :: CommandType where "CmdUpdateFieldCatalog = 11"
definition CmdUpdateSourceRegistry :: CommandType where "CmdUpdateSourceRegistry = 12"
definition CmdRegisterView :: CommandType where "CmdRegisterView = 13"
definition CmdUnregisterView :: CommandType where "CmdUnregisterView = 14"
definition CmdApplyRebalance :: CommandType where "CmdApplyRebalance = 15"
definition CmdProposeSplit :: CommandType where "CmdProposeSplit = 16"
definition CmdCompleteSplit :: CommandType where "CmdCompleteSplit = 17"

lemmas cmd_defs = CmdRegisterNode_def CmdDeregisterNode_def CmdUpdateShardMap_def CmdGrantLease_def
  CmdRenewLease_def CmdGrantCompaction_def CmdReleaseCompaction_def CmdProposeDrain_def CmdCompleteDrain_def
  CmdUpdateISR_def CmdUpdateFieldCatalog_def CmdUpdateSourceRegistry_def CmdRegisterView_def
  CmdUnregisterView_def CmdApplyRebalance_def CmdProposeSplit_def CmdCompleteSplit_def

definition CommandType_String :: "CommandType \<Rightarrow> string" where
  "CommandType_String ct =
     (if ct = CmdRegisterNode then ''RegisterNode''
      else if ct = CmdDeregisterNode then ''DeregisterNode''
      else if ct = CmdUpdateShardMap then ''UpdateShardMap''
      else if ct = CmdGrantLease then ''GrantLease''
      else if ct = CmdRenewLease then ''RenewLease''
      else if ct = CmdGrantCompaction then ''GrantCompaction''
      else if ct = CmdReleaseCompaction then ''ReleaseCompaction''
      else if ct = CmdProposeDrain then ''ProposeDrain''
      else if ct = CmdCompleteDrain then ''CompleteDrain''
      else if ct = CmdUpdateISR then ''UpdateISR''
      else if ct = CmdUpdateFieldCatalog then ''UpdateFieldCatalog''
      else if ct = CmdUpdateSourceRegistry then ''UpdateSourceRegistry''
      else if ct = CmdRegisterView then ''RegisterView''
      else if ct = CmdUnregisterView then ''UnregisterView''
      else if ct = CmdApplyRebalance then ''ApplyRebalance''
      else if ct = CmdProposeSplit then ''ProposeSplit''
      else if ct = CmdCompleteSplit then ''CompleteSplit''
      else ''unknown('' @ dec (unat ct) @ '')'')"

record Command =
  cmd_Type :: CommandType
  cmd_Data :: bytes

record codec =
  um_command :: "bytes \<Rightarrow> Command option"
  um_node :: "bytes \<Rightarrow> NodeInfo option"
  um_node_id :: "bytes \<Rightarrow> NodeID option"
  um_shard_map :: "bytes \<Rightarrow> ShardMap option"
  um_grant_lease :: "bytes \<Rightarrow> GrantLeasePayload option"
  um_renew_lease :: "bytes \<Rightarrow> RenewLeasePayload option"
  um_grant_compaction :: "bytes \<Rightarrow> GrantCompactionPayload option"
  um_release_compaction :: "bytes \<Rightarrow> string option"
  um_propose_drain :: "bytes \<Rightarrow> ProposeDrainPayload option"
  um_complete_drain :: "bytes \<Rightarrow> CompleteDrainPayload option"
  um_isr :: "bytes \<Rightarrow> (string \<times> NodeID list) option"
  um_fields :: "bytes \<Rightarrow> (NodeID \<times> FieldDelta list) option"
  um_sources :: "bytes \<Rightarrow> (NodeID \<times> SourceDelta list) option"
  um_view :: "bytes \<Rightarrow> GlobalViewInfo option"
  um_view_name :: "bytes \<Rightarrow> string option"
  um_plan :: "bytes \<Rightarrow> RebalancePlan option"
  um_propose_split :: "bytes \<Rightarrow> SplitInfo option"
  um_complete_split :: "bytes \<Rightarrow> u32 option"

record fsm_env =
  fe_codec :: codec
  fe_hash :: "string \<Rightarrow> u64"
  fe_srt :: "RingEntry list \<Rightarrow> RingEntry list"
  fe_iter :: "(string \<times> int) list \<Rightarrow> (string \<times> int) list"
  fe_srtV :: "FieldValueEntry list \<Rightarrow> FieldValueEntry list"

subsection \<open>Apply, Snapshot and Restore\<close>

definition MetaFSM_Apply :: "fsm_env \<Rightarrow> go_time \<Rightarrow> bytes \<Rightarrow> MetaState \<Rightarrow> apply_result" where
  "MetaFSM_Apply env now data s =
     (let c = fe_codec env in
      case um_command c data of
        None \<Rightarrow> (s, Some ErrUnmarshal)
      | Some cmd \<Rightarrow>
          let d = cmd_Data cmd; t = cmd_Type cmd in
          if t = CmdRegisterNode then applyRegisterNode (fe_hash env) (fe_srt env) (um_node c) now d s
          else if t = CmdDeregisterNode then applyDeregisterNode (um_node_id c) d s
          else if t = CmdUpdateShardMap then applyUpdateShardMap (um_shard_map c) d s
          else if t = CmdGrantLease then applyGrantLease (um_grant_lease c) now d s
          else if t = CmdRenewLease then applyRenewLease (um_renew_lease c) now d s
          else if t = CmdGrantCompaction then applyGrantCompaction (um_grant_compaction c) now d s
          else if t = CmdReleaseCompaction then applyReleaseCompaction (um_release_compaction c) d s
          else if t = CmdProposeDrain then applyProposeDrain (um_propose_drain c) d s
          else if t = CmdCompleteDrain then applyCompleteDrain (um_complete_drain c) d s
          else if t = CmdUpdateISR then applyUpdateISR (um_isr c) d s
          else if t = CmdUpdateFieldCatalog then applyUpdateFieldCatalog (fe_iter env) (fe_srtV env) (um_fields c) d s
          else if t = CmdUpdateSourceRegistry then applyUpdateSourceRegistry (um_sources c) d s
          else if t = CmdRegisterView then applyRegisterView (um_view c) d s
          else if t = CmdUnregisterView then applyUnregisterView (um_view_name c) d s
          else if t = CmdApplyRebalance then applyRebalance (um_plan c) d s
          else if t = CmdProposeSplit then applyProposeSplit (um_propose_split c) d s
          else if t = CmdCompleteSplit then applyCompleteSplit (um_complete_split c) d s
          else (s, Some (ErrUnknownCommand t)))"

text \<open>
  \<open>rebuildRing\<close> adds the nodes in the iteration order of the map, here the argument \<open>order\<close>.
  \<open>Restore\<close> decodes a snapshot of at most 256 MB; the ring is not part of the snapshot.
\<close>

definition rebuildRing :: "(string \<Rightarrow> u64) \<Rightarrow> (RingEntry list \<Rightarrow> RingEntry list) \<Rightarrow> NodeID list \<Rightarrow> HashRing" where
  "rebuildRing hash srt order = fold (AddNode hash srt) order (NewHashRing 128)"

definition Restore ::
  "fsm_env \<Rightarrow> (bytes \<Rightarrow> MetaState option) \<Rightarrow> (MetaState \<Rightarrow> NodeID list) \<Rightarrow> bytes \<Rightarrow> MetaState \<Rightarrow> apply_result"
where
  "Restore env unmarshal order data s =
     (if length data > 256 * 2 ^ 20 then (s, Some ErrSnapshotTooLarge)
      else (case unmarshal data of
              None \<Rightarrow> (s, Some ErrUnmarshal)
            | Some st \<Rightarrow> (st\<lparr>ms_Ring := rebuildRing (fe_hash env) (fe_srt env) (order st)\<rparr>, None)))"

subsection \<open>Every command either fails without effect or advances the version by one\<close>

named_theorems apply_defs \<open>the apply methods of the state\<close>

declare applyRegisterNode_def [apply_defs] applyDeregisterNode_def [apply_defs] applyUpdateShardMap_def [apply_defs]
  applyGrantLease_def [apply_defs] applyRenewLease_def [apply_defs] applyGrantCompaction_def [apply_defs]
  applyReleaseCompaction_def [apply_defs] applyProposeDrain_def [apply_defs] applyCompleteDrain_def [apply_defs]
  applyUpdateISR_def [apply_defs] applyUpdateFieldCatalog_def [apply_defs] applyUpdateSourceRegistry_def [apply_defs]
  applyRegisterView_def [apply_defs] applyUnregisterView_def [apply_defs] applyRebalance_def [apply_defs]
  applyProposeSplit_def [apply_defs] applyCompleteSplit_def [apply_defs]

lemma bump_fields [simp]:
  "ms_Nodes (bump s) = ms_Nodes s" "ms_ShardMap (bump s) = ms_ShardMap s" "ms_Leases (bump s) = ms_Leases s"
  "ms_Compaction (bump s) = ms_Compaction s" "ms_Ring (bump s) = ms_Ring s" "ms_Version (bump s) = ms_Version s + 1"
  "ms_FieldCatalog (bump s) = ms_FieldCatalog s" "ms_Sources (bump s) = ms_Sources s" "ms_Views (bump s) = ms_Views s"
  "ms_Splits (bump s) = ms_Splits s"
  by (simp_all add: bump_def)

lemma set_assignments_fields [simp]:
  "ms_Nodes (set_assignments m s) = ms_Nodes s" "ms_Leases (set_assignments m s) = ms_Leases s"
  "ms_Compaction (set_assignments m s) = ms_Compaction s" "ms_Ring (set_assignments m s) = ms_Ring s"
  "ms_Version (set_assignments m s) = ms_Version s" "ms_Splits (set_assignments m s) = ms_Splits s"
  "assignments (set_assignments m s) = m"
  by (simp_all add: set_assignments_def)

text \<open>What holds of every apply method holds of \<open>Apply\<close>.\<close>

lemma MetaFSM_Apply_induct:
  assumes "P (s, Some ErrUnmarshal)" and "\<And>t. P (s, Some (ErrUnknownCommand t))"
    and "\<And>cmd. um_command (fe_codec env) data = Some cmd \<Longrightarrow> cmd_Type cmd = CmdRegisterNode \<Longrightarrow>
      P (applyRegisterNode (fe_hash env) (fe_srt env) (um_node (fe_codec env)) now (cmd_Data cmd) s)"
    and "\<And>cmd. um_command (fe_codec env) data = Some cmd \<Longrightarrow> cmd_Type cmd = CmdDeregisterNode \<Longrightarrow>
      P (applyDeregisterNode (um_node_id (fe_codec env)) (cmd_Data cmd) s)"
    and "\<And>cmd. um_command (fe_codec env) data = Some cmd \<Longrightarrow> cmd_Type cmd = CmdUpdateShardMap \<Longrightarrow>
      P (applyUpdateShardMap (um_shard_map (fe_codec env)) (cmd_Data cmd) s)"
    and "\<And>cmd. um_command (fe_codec env) data = Some cmd \<Longrightarrow> cmd_Type cmd = CmdGrantLease \<Longrightarrow>
      P (applyGrantLease (um_grant_lease (fe_codec env)) now (cmd_Data cmd) s)"
    and "\<And>cmd. um_command (fe_codec env) data = Some cmd \<Longrightarrow> cmd_Type cmd = CmdRenewLease \<Longrightarrow>
      P (applyRenewLease (um_renew_lease (fe_codec env)) now (cmd_Data cmd) s)"
    and "\<And>cmd. um_command (fe_codec env) data = Some cmd \<Longrightarrow> cmd_Type cmd = CmdGrantCompaction \<Longrightarrow>
      P (applyGrantCompaction (um_grant_compaction (fe_codec env)) now (cmd_Data cmd) s)"
    and "\<And>cmd. um_command (fe_codec env) data = Some cmd \<Longrightarrow> cmd_Type cmd = CmdReleaseCompaction \<Longrightarrow>
      P (applyReleaseCompaction (um_release_compaction (fe_codec env)) (cmd_Data cmd) s)"
    and "\<And>cmd. um_command (fe_codec env) data = Some cmd \<Longrightarrow> cmd_Type cmd = CmdProposeDrain \<Longrightarrow>
      P (applyProposeDrain (um_propose_drain (fe_codec env)) (cmd_Data cmd) s)"
    and "\<And>cmd. um_command (fe_codec env) data = Some cmd \<Longrightarrow> cmd_Type cmd = CmdCompleteDrain \<Longrightarrow>
      P (applyCompleteDrain (um_complete_drain (fe_codec env)) (cmd_Data cmd) s)"
    and "\<And>cmd. um_command (fe_codec env) data = Some cmd \<Longrightarrow> cmd_Type cmd = CmdUpdateISR \<Longrightarrow>
      P (applyUpdateISR (um_isr (fe_codec env)) (cmd_Data cmd) s)"
    and "\<And>cmd. um_command (fe_codec env) data = Some cmd \<Longrightarrow> cmd_Type cmd = CmdUpdateFieldCatalog \<Longrightarrow>
      P (applyUpdateFieldCatalog (fe_iter env) (fe_srtV env) (um_fields (fe_codec env)) (cmd_Data cmd) s)"
    and "\<And>cmd. um_command (fe_codec env) data = Some cmd \<Longrightarrow> cmd_Type cmd = CmdUpdateSourceRegistry \<Longrightarrow>
      P (applyUpdateSourceRegistry (um_sources (fe_codec env)) (cmd_Data cmd) s)"
    and "\<And>cmd. um_command (fe_codec env) data = Some cmd \<Longrightarrow> cmd_Type cmd = CmdRegisterView \<Longrightarrow>
      P (applyRegisterView (um_view (fe_codec env)) (cmd_Data cmd) s)"
    and "\<And>cmd. um_command (fe_codec env) data = Some cmd \<Longrightarrow> cmd_Type cmd = CmdUnregisterView \<Longrightarrow>
      P (applyUnregisterView (um_view_name (fe_codec env)) (cmd_Data cmd) s)"
    and "\<And>cmd. um_command (fe_codec env) data = Some cmd \<Longrightarrow> cmd_Type cmd = CmdApplyRebalance \<Longrightarrow>
      P (applyRebalance (um_plan (fe_codec env)) (cmd_Data cmd) s)"
    and "\<And>cmd. um_command (fe_codec env) data = Some cmd \<Longrightarrow> cmd_Type cmd = CmdProposeSplit \<Longrightarrow>
      P (applyProposeSplit (um_propose_split (fe_codec env)) (cmd_Data cmd) s)"
    and "\<And>cmd. um_command (fe_codec env) data = Some cmd \<Longrightarrow> cmd_Type cmd = CmdCompleteSplit \<Longrightarrow>
      P (applyCompleteSplit (um_complete_split (fe_codec env)) (cmd_Data cmd) s)"
  shows "P (MetaFSM_Apply env now data s)"
  using assms by (simp add: MetaFSM_Apply_def Let_def split: option.split)

definition atomic :: "MetaState \<Rightarrow> apply_result \<Rightarrow> bool" where
  "atomic s r \<longleftrightarrow> (case snd r of Some _ \<Rightarrow> fst r = s | None \<Rightarrow> ms_Version (fst r) = ms_Version s + 1)"

lemma MetaFSM_Apply_atomic: "atomic s (MetaFSM_Apply env now data s)"
  by (rule MetaFSM_Apply_induct) (simp_all add: atomic_def apply_defs apply_plan_def Let_def split: option.split prod.split)

subsection \<open>The ring follows the node registry\<close>

definition ring_matches :: "fsm_env \<Rightarrow> MetaState \<Rightarrow> bool" where
  "ring_matches env s \<longleftrightarrow> ring_inv (fe_hash env) (ms_Ring s) \<and> hr_vnodesPerNode (ms_Ring s) = 128 \<and>
     hr_nodes (ms_Ring s) = dom (ms_Nodes s)"

lemma ring_matches_new: "ring_matches env NewMetaState"
  by (simp add: ring_matches_def NewMetaState_def NewHashRing_def ring_inv_def)

lemma AddNode_fields: "hr_nodes (AddNode hash srt n r) = insert n (hr_nodes r)"
  "hr_vnodesPerNode (AddNode hash srt n r) = hr_vnodesPerNode r"
  by (auto simp: AddNode_def)

lemma RemoveNode_fields: "hr_nodes (RemoveNode n r) = hr_nodes r - {n}"
  "hr_vnodesPerNode (RemoveNode n r) = hr_vnodesPerNode r"
  by (auto simp: RemoveNode_def)

lemma ring_matches_same:
  "ring_matches env s \<Longrightarrow> ms_Ring s' = ms_Ring s \<Longrightarrow> ms_Nodes s' = ms_Nodes s \<Longrightarrow> ring_matches env s'"
  by (simp add: ring_matches_def)

lemma ring_matches_register:
  assumes "ring_matches env s" and "sorts (fe_srt env)"
  shows "ring_matches env (fst (applyRegisterNode (fe_hash env) (fe_srt env) um now d s))"
proof (cases "um d")
  case (Some info)
  show ?thesis
  proof (cases "ms_Nodes s (ni_ID info)")
    case None
    with assms Some show ?thesis
      by (auto simp: applyRegisterNode_def ring_matches_def AddNode_fields ring_inv_add)
  next
    case (Some entry)
    with assms \<open>um d = Some info\<close> show ?thesis by (auto simp: applyRegisterNode_def ring_matches_def)
  qed
qed (use assms in \<open>simp add: applyRegisterNode_def\<close>)

lemma MetaFSM_Apply_ring:
  assumes "ring_matches env s" and "sorts (fe_srt env)"
  shows "ring_matches env (fst (MetaFSM_Apply env now data s))"
proof (rule MetaFSM_Apply_induct)
  show "ring_matches env (fst (applyRegisterNode (fe_hash env) (fe_srt env) (um_node (fe_codec env)) now (cmd_Data cmd) s))" for cmd
    by (rule ring_matches_register [OF assms])
  show "ring_matches env (fst (applyDeregisterNode (um_node_id (fe_codec env)) (cmd_Data cmd) s))" for cmd
    using assms by (auto simp: applyDeregisterNode_def ring_matches_def RemoveNode_fields ring_inv_remove split: option.split)
qed (use assms in \<open>simp_all add: apply_defs apply_plan_def Let_def split: option.split prod.split, auto elim!: ring_matches_same\<close>)

subsection \<open>Logs\<close>

fun apply_log :: "fsm_env \<Rightarrow> (go_time \<times> bytes) list \<Rightarrow> MetaState \<Rightarrow> MetaState" where
  "apply_log env [] s = s"
| "apply_log env ((now, data) # log) s = apply_log env log (fst (MetaFSM_Apply env now data s))"

lemma apply_log_induct:
  assumes "\<And>now data s. (now, data) \<in> set log \<Longrightarrow> I s \<Longrightarrow> I (fst (MetaFSM_Apply env now data s))" and "I s"
  shows "I (apply_log env log s)"
  using assms by (induction env log s rule: apply_log.induct) auto

lemma apply_log_ring: "sorts (fe_srt env) \<Longrightarrow> ring_matches env s \<Longrightarrow> ring_matches env (apply_log env log s)"
  by (rule apply_log_induct) (simp_all add: MetaFSM_Apply_ring)

lemma rebuildRing_reachable: "ring_reachable hash srt 128 (rebuildRing hash srt ns)"
  unfolding rebuildRing_def
  by (induction ns rule: rev_induct) (auto intro: ring_reachable.intros)

lemma rebuildRing_nodes: "hr_nodes (rebuildRing hash srt ns) = set ns"
  unfolding rebuildRing_def by (induction ns rule: rev_induct) (auto simp: NewHashRing_def AddNode_fields)

subsection \<open>Lease epochs\<close>

text \<open>
  \<open>lease_step\<close> relates a lease to what one log entry leaves under the same key: the same grant, maybe
  with another expiry, or a new grant of the next epoch.
\<close>

definition same_grant :: "ShardLease \<Rightarrow> ShardLease \<Rightarrow> bool" where
  "same_grant x y \<longleftrightarrow> sl_Epoch y = sl_Epoch x \<and> sl_HolderID y = sl_HolderID x \<and> sl_GrantedAt y = sl_GrantedAt x"

definition lease_step :: "string \<Rightarrow> ShardLease \<Rightarrow> apply_result \<Rightarrow> bool" where
  "lease_step k x r \<longleftrightarrow> (\<exists>y. ms_Leases (fst r) k = Some y \<and> (same_grant x y \<or> sl_Epoch y = sl_Epoch x + 1))"

lemma lease_step_same: "ms_Leases s k = Some x \<Longrightarrow> ms_Leases (fst r) k = ms_Leases s k \<Longrightarrow> lease_step k x r"
  by (simp add: lease_step_def same_grant_def)

lemma MetaFSM_Apply_lease:
  assumes "ms_Leases s k = Some x"
  shows "lease_step k x (MetaFSM_Apply env now data s)"
proof (rule MetaFSM_Apply_induct)
  show "lease_step k x (applyGrantLease (um_grant_lease (fe_codec env)) now (cmd_Data cmd) s)" for cmd
    using assms by (auto simp: applyGrantLease_def lease_step_def same_grant_def Let_def split: option.split)
  show "lease_step k x (applyRenewLease (um_renew_lease (fe_codec env)) now (cmd_Data cmd) s)" for cmd
    using assms by (auto simp: applyRenewLease_def lease_step_def same_grant_def split: option.split)
qed (rule lease_step_same [OF assms]; simp add: apply_defs apply_plan_def Let_def split: option.split prod.split; fail)+

lemma u64_increment:
  fixes x :: u64
  assumes "unat x + 1 < 2 ^ 64"
  shows "x < x + 1" "unat (x + 1) = unat x + 1"
proof -
  show "unat (x + 1) = unat x + 1" using assms by (simp add: unat_word_ariths)
  then show "x < x + 1" by (simp add: word_less_nat_alt)
qed

lemma lease_monotone:
  assumes "ms_Leases s k = Some x" and "unat (sl_Epoch x) + length log < 2 ^ 64"
  shows "\<exists>y. ms_Leases (apply_log env log s) k = Some y \<and> (same_grant x y \<or> sl_Epoch x < sl_Epoch y)"
  using assms
proof (induction env log s arbitrary: x rule: apply_log.induct)
  case (1 env s)
  then show ?case by (simp add: same_grant_def)
next
  case (2 env now data log s)
  let ?s = "fst (MetaFSM_Apply env now data s)"
  obtain z where z: "ms_Leases ?s k = Some z" "same_grant x z \<or> sl_Epoch z = sl_Epoch x + 1"
    using MetaFSM_Apply_lease [OF "2.prems"(1), of env now data] by (auto simp: lease_step_def)
  have inc: "sl_Epoch x < sl_Epoch x + 1" "unat (sl_Epoch x + 1) = unat (sl_Epoch x) + 1"
    using u64_increment [of "sl_Epoch x"] "2.prems"(2) by simp_all
  have "unat (sl_Epoch z) + length log < 2 ^ 64" using z(2) inc(2) "2.prems"(2) by (auto simp: same_grant_def)
  from "2.IH" [OF z(1) this] obtain y where y: "ms_Leases (apply_log env log ?s) k = Some y"
    "same_grant z y \<or> sl_Epoch z < sl_Epoch y" by blast
  have "same_grant x y \<or> sl_Epoch x < sl_Epoch y"
    using y(2) z(2) inc(1) by (auto simp: same_grant_def intro: less_trans)
  with y(1) show ?case by simp
qed

subsection \<open>Shard states\<close>

lemma apply_move_other: "mv_ShardKey mv \<noteq> k \<Longrightarrow> apply_move e m mv k = m k"
  by (simp add: apply_move_def split: option.split)

lemma apply_move_primary:
  "m k = Some a \<Longrightarrow> \<exists>a'. apply_move e m mv k = Some a' \<and> sa_Primary a' = sa_Primary a \<and>
     (sa_State a' = sa_State a \<or> sa_State a' = ShardMigrating)"
  by (cases "mv_ShardKey mv = k") (auto simp: apply_move_def apply_move_other split: option.splits)

lemma apply_moves_primary:
  "m k = Some a \<Longrightarrow> \<exists>a'. foldl (apply_move e) m mvs k = Some a' \<and> sa_Primary a' = sa_Primary a \<and>
     (sa_State a' = sa_State a \<or> sa_State a' = ShardMigrating)"
proof (induction mvs arbitrary: m a)
  case (Cons mv mvs)
  from apply_move_primary [where m = m, OF Cons.prems, of e mv] obtain b where
    b: "apply_move e m mv k = Some b" "sa_Primary b = sa_Primary a" "sa_State b = sa_State a \<or> sa_State b = ShardMigrating"
    by blast
  from Cons.IH [where m = "apply_move e m mv", OF b(1)] b(2,3) show ?case by auto
qed simp

definition drain_step :: "fsm_env \<Rightarrow> Command \<Rightarrow> string \<Rightarrow> ShardAssignment \<Rightarrow> ShardAssignment \<Rightarrow> bool" where
  "drain_step env cmd k a a' \<longleftrightarrow>
     (sa_Primary a' = sa_Primary a \<and> (sa_State a' \<noteq> ShardDraining \<or> sa_State a = ShardDraining)) \<or>
     cmd_Type cmd = CmdUpdateShardMap \<or>
     (cmd_Type cmd = CmdProposeSplit \<and> (\<exists>info. um_propose_split (fe_codec env) (cmd_Data cmd) = Some info \<and>
        (k = pkey (ChildA info) \<or> k = pkey (ChildB info)))) \<or>
     (cmd_Type cmd = CmdProposeDrain \<and> sa_Primary a' = sa_Primary a \<and> sa_State a = ShardActive \<and>
        um_propose_drain (fe_codec env) (cmd_Data cmd) = Some \<lparr>pd_ShardID = k, pd_NodeID = sa_Primary a\<rparr>) \<or>
     (cmd_Type cmd = CmdCompleteDrain \<and> sa_State a = ShardDraining \<and> sa_State a' = ShardActive \<and>
        sa_Epoch a' = sa_Epoch a + 1 \<and> sa_Primary a' \<notin> set (sa_Replicas a'))"

lemma drain_step_refl: "drain_step env cmd k a a"
  by (simp add: drain_step_def)

lemma activate_cases:
  "m k = Some a \<Longrightarrow> \<exists>a'. activate key m k = Some a' \<and> sa_Primary a' = sa_Primary a \<and>
     (sa_State a' = sa_State a \<or> sa_State a' = ShardActive)"
  by (auto simp: activate_def split: option.splits)

lemma drain_step_complete_split:
  assumes "assignments s k = Some a" and "assignments (fst (applyCompleteSplit um d s)) k = Some a'"
  shows "drain_step env cmd k a a'"
proof (cases "snd (applyCompleteSplit um d s)")
  case None
  then obtain parent split where "um d = Some parent" and sp: "ms_Splits s parent = Some split"
    by (auto simp: applyCompleteSplit_def split: option.splits)
  then have "activate (pkey (ChildB split)) (activate (pkey (ChildA split)) (assignments s)) k = Some a'"
    using assms(2) by (auto simp: applyCompleteSplit_def Let_def split: if_splits)
  moreover obtain b where b: "activate (pkey (ChildA split)) (assignments s) k = Some b" "sa_Primary b = sa_Primary a"
    "sa_State b = sa_State a \<or> sa_State b = ShardActive"
    using activate_cases [where m = "assignments s", OF assms(1)] by blast
  moreover from activate_cases [where m = "activate (pkey (ChildA split)) (assignments s)", OF b(1), of "pkey (ChildB split)"] obtain c where
    "activate (pkey (ChildB split)) (activate (pkey (ChildA split)) (assignments s)) k = Some c"
    "sa_Primary c = sa_Primary b" "sa_State c = sa_State b \<or> sa_State c = ShardActive" by blast
  ultimately show ?thesis by (auto simp: drain_step_def)
next
  case (Some err)
  then have "fst (applyCompleteSplit um d s) = s"
    by (auto simp: applyCompleteSplit_def Let_def split: option.splits)
  with assms show ?thesis by (simp add: drain_step_refl)
qed

lemma drain_step_rebalance:
  assumes "assignments s k = Some a" and "assignments (fst (applyRebalance um d s)) k = Some a'"
  shows "drain_step env cmd k a a'"
proof (cases "um d")
  case (Some plan)
  with apply_moves_primary [where m = "assignments s", OF assms(1), of "pl_Epoch plan" "pl_Moves plan"] assms(2)
  show ?thesis by (auto simp: applyRebalance_def apply_plan_def drain_step_def)
qed (use assms in \<open>simp add: applyRebalance_def drain_step_refl\<close>)

lemma drain_step_propose_split:
  assumes "assignments s k = Some a" and "assignments (fst (applyProposeSplit (um_propose_split (fe_codec env)) (cmd_Data cmd) s)) k = Some a'"
    and "cmd_Type cmd = CmdProposeSplit"
  shows "drain_step env cmd k a a'"
proof (cases "fst (applyProposeSplit (um_propose_split (fe_codec env)) (cmd_Data cmd) s) = s")
  case True
  with assms show ?thesis by (simp add: drain_step_refl)
next
  case False
  then obtain info where "um_propose_split (fe_codec env) (cmd_Data cmd) = Some info"
    by (auto simp: applyProposeSplit_def split: option.splits)
  with False assms show ?thesis
    by (auto simp: applyProposeSplit_def Let_def drain_step_def split: option.splits if_splits)
qed

lemma MetaFSM_Apply_drain:
  assumes "um_command (fe_codec env) data = Some cmd" and "assignments s k = Some a"
    and "assignments (fst (MetaFSM_Apply env now data s)) k = Some a'"
  shows "drain_step env cmd k a a'"
proof -
  let ?P = "\<lambda>r. assignments (fst r) k = Some a' \<longrightarrow> drain_step env cmd k a a'"
  have "?P (MetaFSM_Apply env now data s)"
  proof (rule MetaFSM_Apply_induct)
    show "?P (applyUpdateShardMap (um_shard_map (fe_codec env)) (cmd_Data c) s)"
      if "um_command (fe_codec env) data = Some c" "cmd_Type c = CmdUpdateShardMap" for c
      using that assms(1) by (simp add: drain_step_def)
    show "?P (applyProposeDrain (um_propose_drain (fe_codec env)) (cmd_Data c) s)"
      if "um_command (fe_codec env) data = Some c" "cmd_Type c = CmdProposeDrain" for c
      using that assms(1,2) by (auto simp: applyProposeDrain_def drain_step_def split: option.splits if_splits)
    show "?P (applyCompleteDrain (um_complete_drain (fe_codec env)) (cmd_Data c) s)"
      if "um_command (fe_codec env) data = Some c" "cmd_Type c = CmdCompleteDrain" for c
      using that assms(1,2) by (auto simp: applyCompleteDrain_def drain_step_def split: option.splits if_splits)
    show "?P (applyUpdateISR (um_isr (fe_codec env)) (cmd_Data c) s)" for c
      using assms(2) by (auto simp: applyUpdateISR_def drain_step_def split: option.splits if_splits)
    show "?P (applyRebalance (um_plan (fe_codec env)) (cmd_Data c) s)" for c
      using drain_step_rebalance [OF assms(2)] by blast
    show "?P (applyProposeSplit (um_propose_split (fe_codec env)) (cmd_Data c) s)"
      if "um_command (fe_codec env) data = Some c" "cmd_Type c = CmdProposeSplit" for c
      using that assms(1) drain_step_propose_split [OF assms(2)] by auto
    show "?P (applyCompleteSplit (um_complete_split (fe_codec env)) (cmd_Data c) s)" for c
      using drain_step_complete_split [OF assms(2)] by blast
  qed (use assms(2) in \<open>auto simp: drain_step_refl apply_defs Let_def split: option.splits\<close>)
  with assms(3) show ?thesis by blast
qed

subsection \<open>Migrating shards\<close>

definition stuck :: "string \<Rightarrow> NodeID \<Rightarrow> MetaState \<Rightarrow> bool" where
  "stuck k n s \<longleftrightarrow> (\<exists>a. assignments s k = Some a \<and> sa_State a = ShardMigrating \<and> sa_Primary a = n)"

lemma MetaFSM_Apply_stuck:
  assumes "stuck k n s"
    and "\<And>cmd. um_command (fe_codec env) data = Some cmd \<Longrightarrow>
      cmd_Type cmd \<notin> {CmdUpdateShardMap, CmdProposeSplit, CmdCompleteSplit}"
  shows "stuck k n (fst (MetaFSM_Apply env now data s))"
proof (rule MetaFSM_Apply_induct)
  obtain a where a: "assignments s k = Some a" "sa_State a = ShardMigrating" "sa_Primary a = n"
    using assms(1) by (auto simp: stuck_def)
  show "stuck k n (fst (applyProposeDrain (um_propose_drain (fe_codec env)) (cmd_Data c) s))" for c
    using a by (auto simp: applyProposeDrain_def stuck_def split: option.split)
  show "stuck k n (fst (applyCompleteDrain (um_complete_drain (fe_codec env)) (cmd_Data c) s))" for c
    using a by (auto simp: applyCompleteDrain_def stuck_def split: option.split)
  show "stuck k n (fst (applyUpdateISR (um_isr (fe_codec env)) (cmd_Data c) s))" for c
    using a by (auto simp: applyUpdateISR_def stuck_def split: option.split)
  show "stuck k n (fst (applyRebalance (um_plan (fe_codec env)) (cmd_Data c) s))" for c
  proof (cases "um_plan (fe_codec env) (cmd_Data c)")
    case (Some plan)
    with apply_moves_primary [where m = "assignments s", OF a(1), of "pl_Epoch plan" "pl_Moves plan"] a(2,3)
    show ?thesis by (auto simp: applyRebalance_def apply_plan_def stuck_def)
  qed (use assms(1) in \<open>simp add: applyRebalance_def\<close>)
qed (use assms in \<open>auto simp: apply_defs Let_def stuck_def split: option.split prod.split\<close>)

subsection \<open>Keys of the shard map\<close>

definition partition_keys :: "MetaState \<Rightarrow> bool" where
  "partition_keys s \<longleftrightarrow> (\<forall>k a. assignments s k = Some a \<longrightarrow> (\<exists>p. k = pkey p))"

definition plan_keys :: "RebalancePlan \<Rightarrow> bool" where
  "plan_keys plan \<longleftrightarrow> (\<forall>mv \<in> set (pl_Moves plan). mv_ShardKey mv = pkey (mv_Partition mv))"

lemma slash_not_digit: "k < 10 \<Longrightarrow> digit k \<noteq> CHR ''/''"
proof
  assume "k < 10" and "digit k = CHR ''/''"
  then have "of_char (digit k) = (47 :: nat)" by simp
  with \<open>k < 10\<close> show False by (simp add: of_char_digit)
qed

lemma pkey_no_slash: "CHR ''/'' \<notin> set (pkey p)"
  using set_dec slash_not_digit by (force simp: pkey_def)

lemma pkey_not_shard_id: "ShardID_String i \<noteq> pkey p"
proof
  assume "ShardID_String i = pkey p"
  moreover have "CHR ''/'' \<in> set (ShardID_String i)" by (simp add: ShardID_String_def)
  ultimately show False using pkey_no_slash [of p] by simp
qed

lemma pkey_inject [simp]: "pkey p = pkey q \<longleftrightarrow> p = q"
  by (auto simp: pkey_def intro: unsigned_word_eqI)

lemma plan_keys_incremental: "plan_keys (IncrementalRebalance hash n rf s)"
  by (auto simp: plan_keys_def IncrementalRebalance_def plan_move_def split: list.splits option.splits if_splits)

lemma apply_moves_keys:
  "foldl (apply_move e) m mvs k = Some a \<Longrightarrow> m k \<noteq> None \<or> k \<in> mv_ShardKey ` set mvs"
proof (induction mvs arbitrary: m)
  case (Cons mv mvs)
  from Cons.IH [of "apply_move e m mv"] Cons.prems have "apply_move e m mv k \<noteq> None \<or> k \<in> mv_ShardKey ` set mvs" by simp
  then show ?case using apply_move_other [of mv k e m] by auto
qed simp

lemma activate_dom: "activate key m k \<noteq> None \<longleftrightarrow> m k \<noteq> None"
  by (auto simp: activate_def split: option.splits)

lemma MetaFSM_Apply_keys:
  assumes "partition_keys s"
    and "\<And>cmd. um_command (fe_codec env) data = Some cmd \<Longrightarrow> cmd_Type cmd \<noteq> CmdUpdateShardMap"
    and "\<And>cmd plan. um_command (fe_codec env) data = Some cmd \<Longrightarrow> um_plan (fe_codec env) (cmd_Data cmd) = Some plan \<Longrightarrow> plan_keys plan"
  shows "partition_keys (fst (MetaFSM_Apply env now data s))"
proof (rule MetaFSM_Apply_induct)
  show "partition_keys (fst (applyRebalance (um_plan (fe_codec env)) (cmd_Data c) s))"
    if c: "um_command (fe_codec env) data = Some c" for c
  proof (cases "um_plan (fe_codec env) (cmd_Data c)")
    case (Some plan)
    have "\<exists>p. k = pkey p" if "foldl (apply_move (pl_Epoch plan)) (assignments s) (pl_Moves plan) k = Some a" for k a
      using apply_moves_keys [OF that] assms(1,3) c Some by (auto simp: partition_keys_def plan_keys_def)
    with Some show ?thesis by (auto simp: applyRebalance_def apply_plan_def partition_keys_def)
  qed (use assms(1) in \<open>simp add: applyRebalance_def\<close>)
  show "partition_keys (fst (applyCompleteSplit (um_complete_split (fe_codec env)) (cmd_Data c) s))" for c
  proof -
    have "\<exists>p. k = pkey p" if "activate x (activate y (assignments s)) k = Some a" for x y k a
      using that activate_dom [of x "activate y (assignments s)" k] activate_dom [of y "assignments s" k] assms(1)
      by (auto simp: partition_keys_def)
    with assms(1) show ?thesis
      by (auto simp: applyCompleteSplit_def partition_keys_def Let_def split: option.splits if_splits)
  qed
  show "partition_keys (fst (applyProposeSplit (um_propose_split (fe_codec env)) (cmd_Data c) s))" for c
    using assms(1) by (auto simp: applyProposeSplit_def partition_keys_def Let_def split: option.splits if_splits)
qed (use assms in \<open>auto simp: apply_defs Let_def partition_keys_def split: option.splits prod.split if_splits\<close>)

subsection \<open>Rebalancing reaches a fixed point\<close>

definition move_result :: "u64 \<Rightarrow> ShardAssignment option \<Rightarrow> ShardMove \<Rightarrow> ShardAssignment" where
  "move_result e old mv = the (apply_move e (\<lambda>_. old) mv (mv_ShardKey mv))"

lemma apply_move_result: "apply_move e m mv = m(mv_ShardKey mv \<mapsto> move_result e (m (mv_ShardKey mv)) mv)"
  by (simp add: apply_move_def move_result_def split: option.split)

lemma apply_moves_result:
  assumes "distinct (map mv_ShardKey mvs)"
  shows "foldl (apply_move e) m mvs k =
    (case find (\<lambda>mv. mv_ShardKey mv = k) mvs of None \<Rightarrow> m k | Some mv \<Rightarrow> Some (move_result e (m k) mv))"
  using assms
proof (induction mvs arbitrary: m)
  case (Cons mv mvs)
  have "find (\<lambda>x. mv_ShardKey x = k) mvs = None" if "mv_ShardKey mv = k"
    using Cons.prems that unfolding find_None_iff by (auto simp: image_iff)
  with Cons show ?case by (auto simp: apply_move_result split: option.split)
qed simp

lemma plan_move_key: "mv \<in> set (plan_move hash rf s p) \<Longrightarrow> mv_ShardKey mv = pkey p"
  by (auto simp: plan_move_def split: list.splits option.splits if_splits)

lemma plan_move_single: "length (plan_move hash rf s p) \<le> 1"
  by (simp add: plan_move_def split: list.split option.split)

lemma of_nat_u32_inj:
  assumes "i < 2 ^ 32" and "j < 2 ^ 32"
  shows "(of_nat i :: u32) = of_nat j \<longleftrightarrow> i = j"
proof -
  have "unat (of_nat i :: u32) = i" "unat (of_nat j :: u32) = j" using assms by (simp_all add: unat_of_nat)
  then show ?thesis by metis
qed

lemma find_append: "find P (xs @ ys) = (case find P xs of None \<Rightarrow> find P ys | Some x \<Rightarrow> Some x)"
  by (induction xs) simp_all

lemma find_plan_move:
  "find (\<lambda>mv. mv_ShardKey mv = k) (plan_move hash rf s p) =
     (if k = pkey p then (case plan_move hash rf s p of [] \<Rightarrow> None | mv # _ \<Rightarrow> Some mv) else None)"
  using plan_move_key [of _ hash rf s p] plan_move_single [of hash rf s p]
  by (cases "plan_move hash rf s p") (auto simp: find_None_iff)

lemma plan_moves_at:
  assumes "n \<le> 2 ^ 32"
  shows "distinct (map mv_ShardKey (concat (map (\<lambda>i. plan_move hash rf s (of_nat i)) [0..<n]))) \<and>
    (\<forall>i < 2 ^ 32. find (\<lambda>mv. mv_ShardKey mv = pkey (of_nat i)) (concat (map (\<lambda>i. plan_move hash rf s (of_nat i)) [0..<n])) =
      (if i < n then (case plan_move hash rf s (of_nat i) of [] \<Rightarrow> None | mv # _ \<Rightarrow> Some mv) else None))"
  using assms
proof (induction n)
  case (Suc n)
  let ?xs = "concat (map (\<lambda>i. plan_move hash rf s (of_nat i)) [0..<n])" and ?ys = "plan_move hash rf s (of_nat n)"
  have IH: "distinct (map mv_ShardKey ?xs)"
    "\<And>i. i < 2 ^ 32 \<Longrightarrow> find (\<lambda>mv. mv_ShardKey mv = pkey (of_nat i)) ?xs =
      (if i < n then (case plan_move hash rf s (of_nat i) of [] \<Rightarrow> None | mv # _ \<Rightarrow> Some mv) else None)"
    using Suc by simp_all
  have n: "n < 2 ^ 32" using Suc.prems by simp
  have "mv_ShardKey mv \<noteq> pkey (of_nat n)" if "mv \<in> set ?xs" for mv
    using IH(2) [OF n] that by (force simp: find_None_iff)
  moreover have "distinct (map mv_ShardKey ?ys)" using plan_move_single [of hash rf s "of_nat n"] by (cases ?ys) auto
  ultimately have "distinct (map mv_ShardKey (?xs @ ?ys))"
    using IH(1) plan_move_key [of _ hash rf s "of_nat n"] by fastforce
  moreover have "find (\<lambda>mv. mv_ShardKey mv = pkey (of_nat i)) (?xs @ ?ys) =
      (if i < Suc n then (case plan_move hash rf s (of_nat i) of [] \<Rightarrow> None | mv # _ \<Rightarrow> Some mv) else None)" if "i < 2 ^ 32" for i
    using IH(2) [OF that] of_nat_u32_inj [OF that n]
    by (auto simp: find_append find_plan_move less_Suc_eq split: list.split option.split)
  ultimately show ?case by simp
qed simp

text \<open>The assignment of a partition after the plan of the planner is applied.\<close>

lemma assignments_applied:
  assumes "i < unat n"
  shows "assignments (apply_plan (IncrementalRebalance hash n rf s) s) (pkey (of_nat i)) =
    (case plan_move hash rf s (of_nat i) of [] \<Rightarrow> assignments s (pkey (of_nat i))
     | mv # _ \<Rightarrow> Some (move_result (sm_Epoch (ms_ShardMap s) + 1) (assignments s (pkey (of_nat i))) mv))"
proof -
  have n: "unat n \<le> 2 ^ 32" "i < 2 ^ 32" using unsigned_less [of n, where 'a = nat] assms by simp_all
  show ?thesis using plan_moves_at [OF n(1), of hash rf s] n(2) assms
    by (simp add: apply_plan_def apply_moves_result IncrementalRebalance_def split: list.split)
qed

text \<open>
  What the planner aims at: the assignment is the one of the ring, or the shard is migrating with
  the ring's nodes pending, or it was not active and has been left alone.
\<close>

definition settled :: "NodeID list \<Rightarrow> ShardAssignment option \<Rightarrow> ShardAssignment \<Rightarrow> bool" where
  "settled want old a \<longleftrightarrow>
     (if sa_State a = ShardActive then sa_Primary a # sa_Replicas a = want
      else (sa_State a = ShardMigrating \<and> sa_PendingPrimary a # sa_PendingReplicas a = want) \<or> old = Some a)"

lemma plan_move_settles:
  assumes "i < unat n" and "AssignPartitionReplicas hash (of_nat i) rf (ms_Ring s) = x # xs"
  shows "\<exists>a. assignments (apply_plan (IncrementalRebalance hash n rf s) s) (pkey (of_nat i)) = Some a \<and>
    settled (x # xs) (assignments s (pkey (of_nat i))) a"
proof (cases "assignments s (pkey (of_nat i))")
  case None
  with assms show ?thesis
    by (simp add: assignments_applied plan_move_def move_result_def apply_move_def fresh_assignment_def settled_def)
next
  case (Some a)
  with assms show ?thesis
    by (simp add: assignments_applied plan_move_def move_result_def apply_move_def settled_def)
qed

text \<open>After its plan is applied, a partition is planned for no further move.\<close>

lemma plan_move_applied:
  assumes "i < unat n"
  shows "plan_move hash rf (apply_plan (IncrementalRebalance hash n rf s) s) (of_nat i) = []"
proof -
  let ?s = "apply_plan (IncrementalRebalance hash n rf s) s"
  have ring: "ms_Ring ?s = ms_Ring s" by (simp add: apply_plan_def)
  show ?thesis
  proof (cases "AssignPartitionReplicas hash (of_nat i) rf (ms_Ring s)")
    case (Cons x xs)
    then obtain a where "assignments ?s (pkey (of_nat i)) = Some a" "settled (x # xs) (assignments s (pkey (of_nat i))) a"
      using plan_move_settles [OF assms Cons] by blast
    with Cons show ?thesis by (auto simp: plan_move_def ring settled_def split: if_splits)
  qed (simp add: plan_move_def ring)
qed

subsection \<open>Properties\<close>

text \<open>
  Log entries are atomic: whatever values the bytes decode to, \<open>Apply\<close> either returns an error and
  leaves the cluster state exactly as it was, or succeeds and advances the state version by one
  (modulo the width of the counter). Maps are total values here: a decoded \<open>nil\<close> map, on which an
  assignment panics in Go, is not among the values considered.
\<close>

theorem fsm_apply_atomic:
  "case MetaFSM_Apply env now data s of
     (s', Some err) \<Rightarrow> s' = s
   | (s', None) \<Rightarrow> ms_Version s' = ms_Version s + 1"
  using MetaFSM_Apply_atomic [of s env now data] by (auto simp: atomic_def split: prod.split option.split)

text \<open>A codec for the examples: the first byte is the command type.\<close>

definition example_codec :: codec where
  "example_codec = \<lparr>um_command = (\<lambda>d. case d of [] \<Rightarrow> None | t # r \<Rightarrow> Some \<lparr>cmd_Type = t, cmd_Data = r\<rparr>),
     um_node = (\<lambda>_. Some \<lparr>ni_ID = ''a'', ni_Addr = '''', ni_GRPCAddr = '''', ni_Roles = [], ni_StartedAt = 0, ni_Version = ''''\<rparr>),
     um_node_id = (\<lambda>_. None), um_shard_map = (\<lambda>_. None),
     um_grant_lease = (\<lambda>_. Some \<lparr>gl_ShardID = ''p1'', gl_HolderID = ''b'', gl_LeaseDuration = 10\<rparr>),
     um_renew_lease = (\<lambda>_. None), um_grant_compaction = (\<lambda>_. None), um_release_compaction = (\<lambda>_. None),
     um_propose_drain = (\<lambda>_. Some \<lparr>pd_ShardID = ''p1'', pd_NodeID = ''a''\<rparr>),
     um_complete_drain = (\<lambda>_. Some \<lparr>cd_ShardID = ''p1'', cd_NodeID = ''a'', cd_NewPrimaryID = ''b''\<rparr>),
     um_isr = (\<lambda>_. None), um_fields = (\<lambda>_. None), um_sources = (\<lambda>_. None), um_view = (\<lambda>_. None),
     um_view_name = (\<lambda>_. None), um_plan = (\<lambda>_. None), um_propose_split = (\<lambda>_. None), um_complete_split = (\<lambda>_. None)\<rparr>"

definition example_env :: fsm_env where
  "example_env = \<lparr>fe_codec = example_codec, fe_hash = toy_hash, fe_srt = sort_key re_Hash, fe_iter = id, fe_srtV = id\<rparr>"

lemmas example_defs = example_env_def example_codec_def MetaFSM_Apply_def cmd_defs

text \<open>
  (C13) Restoring a snapshot reproduces the state: after any log, decoding the snapshot (which omits
  the ring) and rebuilding the ring from the nodes in whatever order the map is iterated gives
  the very state that was saved, when no two virtual nodes share a hash.
\<close>

theorem restore_reproduces_state:
  assumes "sorts (fe_srt env)" and "s = apply_log env log NewMetaState"
    and "collision_free (fe_hash env) 128 (dom (ms_Nodes s))" and "unmarshal data = Some (s\<lparr>ms_Ring := r0\<rparr>)"
    and "set (order (s\<lparr>ms_Ring := r0\<rparr>)) = dom (ms_Nodes s)" and "length data \<le> 256 * 2 ^ 20"
  shows "Restore env unmarshal order data any = (s, None)"
proof -
  let ?r = "rebuildRing (fe_hash env) (fe_srt env) (order (s\<lparr>ms_Ring := r0\<rparr>))"
  have m: "ring_matches env s" unfolding assms(2) by (rule apply_log_ring [OF assms(1) ring_matches_new])
  have r: "ring_inv (fe_hash env) ?r" "hr_vnodesPerNode ?r = 128"
    using ring_reachable_inv [OF assms(1) rebuildRing_reachable] by simp_all
  have "?r = ms_Ring s"
    using m r assms(3,5) by (intro ring_unique [of "fe_hash env"]) (simp_all add: ring_matches_def rebuildRing_nodes)
  with assms(4,6) show ?thesis by (simp add: Restore_def)
qed

text \<open>A hash without collisions on the virtual nodes of one node: the length of the key.\<close>

theorem restore_reproduces_state_witness:
  "let s = apply_log example_env [(5, [1])] NewMetaState
   in ms_Nodes s ''a'' \<noteq> None \<and>
      Restore (example_env\<lparr>fe_hash := (\<lambda>k. of_nat (undec (drop 2 k)))\<rparr>)
        (\<lambda>_. Some (apply_log (example_env\<lparr>fe_hash := (\<lambda>k. of_nat (undec (drop 2 k)))\<rparr>) [(5, [1])] NewMetaState)) (\<lambda>_. [''a'']) [] NewMetaState =
      (apply_log (example_env\<lparr>fe_hash := (\<lambda>k. of_nat (undec (drop 2 k)))\<rparr>) [(5, [1])] NewMetaState, None)"
proof -
  let ?hash = "\<lambda>k. of_nat (undec (drop 2 k)) :: u64"
  let ?env = "example_env\<lparr>fe_hash := ?hash\<rparr>"
  let ?s = "apply_log ?env [(5, [1])] NewMetaState"
  have nodes: "dom (ms_Nodes ?s) = {''a''}" "ms_Nodes (apply_log example_env [(5, [1])] NewMetaState) ''a'' \<noteq> None"
    by (simp_all add: example_defs applyRegisterNode_def NewMetaState_def Let_def)
  have "unat (of_nat i :: u64) = i" if "i < 128" for i using that by (simp add: unat_of_nat)
  then have "collision_free ?hash 128 {''a''}" by (auto simp: collision_free_def inj_on_def) metis
  moreover have "?s\<lparr>ms_Ring := ms_Ring ?s\<rparr> = ?s" by simp
  ultimately have "Restore ?env (\<lambda>_. Some ?s) (\<lambda>_. [''a'']) [] NewMetaState = (?s, None)"
    using nodes(1)
    by (intro restore_reproduces_state [where log = "[(5, [1])]" and ?r0.0 = "ms_Ring ?s"])
       (simp_all add: example_env_def sorts_sort_key)
  with nodes(2) show ?thesis by (simp add: Let_def)
qed

text \<open>
  (C26) Leases fence: over any continuation of the log a shard's lease keeps its epoch, holder and
  grant time, or is replaced by one of a strictly larger epoch. No epoch of a shard is ever held by
  two nodes.
\<close>

theorem lease_epochs_fence:
  assumes "ms_Leases s k = Some x" and "unat (sl_Epoch x) + length log < 2 ^ 64"
  shows "\<exists>y. ms_Leases (apply_log env log s) k = Some y \<and>
    (sl_Epoch x < sl_Epoch y \<or>
     sl_Epoch y = sl_Epoch x \<and> sl_HolderID y = sl_HolderID x \<and> sl_GrantedAt y = sl_GrantedAt x)"
  using lease_monotone [OF assms, of env] by (auto simp: same_grant_def)

theorem lease_epochs_fence_witness:
  "\<exists>y. ms_Leases (apply_log example_env [(7, [4])] (NewMetaState\<lparr>ms_Leases := [''p1'' \<mapsto>
      \<lparr>sl_HolderID = ''a'', sl_GrantedAt = 1, sl_ExpiresAt = 11, sl_Epoch = 1\<rparr>]\<rparr>)) ''p1'' = Some y \<and>
    (1 < sl_Epoch y \<or> sl_Epoch y = 1 \<and> sl_HolderID y = ''a'' \<and> sl_GrantedAt y = 1)"
  using lease_epochs_fence [of "NewMetaState\<lparr>ms_Leases := [''p1'' \<mapsto>
      \<lparr>sl_HolderID = ''a'', sl_GrantedAt = 1, sl_ExpiresAt = 11, sl_Epoch = 1\<rparr>]\<rparr>" "''p1''"
      "\<lparr>sl_HolderID = ''a'', sl_GrantedAt = 1, sl_ExpiresAt = 11, sl_Epoch = 1\<rparr>" "[(7, [4])]" example_env]
  by simp

text \<open>
  A lease can be granted while another node's is valid: \<open>applyGrantLease\<close> looks at the existing
  lease only for its epoch. Whatever valid lease a shard has, a grant to another node succeeds at
  the same instant.
\<close>

lemma grant_ignores_valid_lease:
  assumes "ms_Leases s (gl_ShardID p) = Some x" and "Lease_IsValid now skew x" and "unmarshal d = Some p"
  shows "\<exists>y. snd (applyGrantLease unmarshal now d s) = None \<and>
    ms_Leases (fst (applyGrantLease unmarshal now d s)) (gl_ShardID p) = Some y \<and> sl_HolderID y = gl_HolderID p"
  using assms by (simp add: applyGrantLease_def Let_def)

text \<open>
  (C5) Ownership changes only through a drain: when a log entry changes the primary of an assigned
  shard, the shard was draining, and it becomes active again under the next epoch with the new
  primary not among its replicas; and it starts draining only from the active state at the request
  of its primary. The exceptions are the replacement of the whole map and a split proposal, which
  overwrites an existing assignment that has the number of a child.
\<close>

theorem primary_changes_by_drain:
  assumes "um_command (fe_codec env) data = Some cmd" and "assignments s k = Some a"
    and "assignments (fst (MetaFSM_Apply env now data s)) k = Some a'"
  shows "(sa_Primary a' = sa_Primary a \<and> (sa_State a' \<noteq> ShardDraining \<or> sa_State a = ShardDraining)) \<or>
     cmd_Type cmd = CmdUpdateShardMap \<or>
     (cmd_Type cmd = CmdProposeSplit \<and> (\<exists>info. um_propose_split (fe_codec env) (cmd_Data cmd) = Some info \<and>
        (k = pkey (ChildA info) \<or> k = pkey (ChildB info)))) \<or>
     (cmd_Type cmd = CmdProposeDrain \<and> sa_Primary a' = sa_Primary a \<and> sa_State a = ShardActive \<and>
        um_propose_drain (fe_codec env) (cmd_Data cmd) = Some \<lparr>pd_ShardID = k, pd_NodeID = sa_Primary a\<rparr>) \<or>
     (cmd_Type cmd = CmdCompleteDrain \<and> sa_State a = ShardDraining \<and> sa_State a' = ShardActive \<and>
        sa_Epoch a' = sa_Epoch a + 1 \<and> sa_Primary a' \<notin> set (sa_Replicas a'))"
  using MetaFSM_Apply_drain [OF assms] by (simp add: drain_step_def)

definition example_state :: "ShardState \<Rightarrow> MetaState" where
  "example_state st = NewMetaState\<lparr>ms_ShardMap := NewShardMap\<lparr>sm_Assignments :=
     [''p1'' \<mapsto> fresh_assignment 1 ''a'' [''b'', ''c''] st 4]\<rparr>\<rparr>"

theorem primary_changes_by_drain_witness:
  "\<exists>a'. assignments (fst (MetaFSM_Apply example_env 0 [9] (example_state ShardDraining))) ''p1'' = Some a' \<and>
     sa_Primary a' = ''b'' \<and> sa_State a' = ShardActive \<and> sa_Epoch a' = 5 \<and> ''b'' \<notin> set (sa_Replicas a')"
proof -
  let ?s = "example_state ShardDraining"
  have c: "um_command (fe_codec example_env) [9] = Some \<lparr>cmd_Type = 9, cmd_Data = []\<rparr>"
    by (simp add: example_env_def example_codec_def)
  have a: "assignments ?s ''p1'' = Some (fresh_assignment 1 ''a'' [''b'', ''c''] ShardDraining 4)"
    by (simp add: example_state_def)
  obtain a' where a': "assignments (fst (MetaFSM_Apply example_env 0 [9] ?s)) ''p1'' = Some a'" "sa_Primary a' = ''b''"
    using a by (simp add: example_defs applyCompleteDrain_def fresh_assignment_def)
  from primary_changes_by_drain [OF c a a'(1)] a' show ?thesis
    by (simp add: cmd_defs fresh_assignment_def)
qed

text \<open>
  (C35) A shard that a rebalance marks for migration stays so: no drain, ISR update, rebalance, lease
  or node command ever moves it out of \<open>ShardMigrating\<close> or gives it the pending primary, and the
  drain its old primary is meant to perform is refused because the shard is not active.
\<close>

theorem migrating_shard_stuck:
  assumes "assignments s k = Some a" and "sa_State a = ShardMigrating"
    and "\<forall>(now, data) \<in> set log. \<forall>cmd. um_command (fe_codec env) data = Some cmd \<longrightarrow>
      cmd_Type cmd \<notin> {CmdUpdateShardMap, CmdProposeSplit, CmdCompleteSplit}"
  shows "\<exists>a'. assignments (apply_log env log s) k = Some a' \<and> sa_State a' = ShardMigrating \<and>
    sa_Primary a' = sa_Primary a"
proof -
  have "stuck k (sa_Primary a) (apply_log env log s)"
  proof (rule apply_log_induct)
    show "stuck k (sa_Primary a) (fst (MetaFSM_Apply env now data t))"
      if "(now, data) \<in> set log" "stuck k (sa_Primary a) t" for now data t
      using that(2) by (rule MetaFSM_Apply_stuck) (use assms(3) that(1) in fastforce)
  qed (use assms(1,2) in \<open>simp add: stuck_def\<close>)
  then show ?thesis by (auto simp: stuck_def)
qed

theorem migrating_shard_stuck_witness:
  "\<exists>a'. assignments (apply_log example_env [(1, [8]), (2, [9])] (example_state ShardMigrating)) ''p1'' = Some a' \<and>
     sa_State a' = ShardMigrating \<and> sa_Primary a' = ''a''"
proof -
  have "assignments (example_state ShardMigrating) ''p1'' = Some (fresh_assignment 1 ''a'' [''b'', ''c''] ShardMigrating 4)"
    by (simp add: example_state_def)
  from migrating_shard_stuck [OF this, of "[(1, [8]), (2, [9])]" example_env] show ?thesis
    by (simp add: fresh_assignment_def example_env_def example_codec_def cmd_defs)
qed

text \<open>
  Routing never finds a rebalanced shard: \<open>IncrementalRebalance\<close> stores assignments under keys
  like p17 while \<open>ShardMap.Assignment\<close> looks them up under the full shard identifier. Whatever plans
  of that form, drains, splits and other commands are applied to the initial state (all but a
  replacement of the map, which no code proposes), the lookup of every shard identifier fails.
\<close>

theorem shard_lookup_never_matches:
  assumes "\<forall>(now, data) \<in> set log. \<forall>cmd. um_command (fe_codec env) data = Some cmd \<longrightarrow>
      cmd_Type cmd \<noteq> CmdUpdateShardMap \<and>
      (\<forall>plan. um_plan (fe_codec env) (cmd_Data cmd) = Some plan \<longrightarrow>
         (\<forall>mv \<in> set (pl_Moves plan). mv_ShardKey mv = pkey (mv_Partition mv)))"
  shows "Assignment (Some (ms_ShardMap (apply_log env log NewMetaState))) sid = None"
proof -
  have "partition_keys (apply_log env log NewMetaState)"
    by (rule apply_log_induct)
       (use assms in \<open>fastforce intro!: MetaFSM_Apply_keys simp: plan_keys_def partition_keys_def NewMetaState_def NewShardMap_def\<close>)+
  then show ?thesis
    using pkey_not_shard_id [of sid] by (cases "assignments (apply_log env log NewMetaState) (ShardID_String sid)")
      (auto simp: Assignment_def partition_keys_def)
qed

definition example_plan :: RebalancePlan where
  "example_plan = \<lparr>pl_Moves = [\<lparr>mv_ShardKey = pkey 7, mv_Partition = 7, mv_OldPrimary = [], mv_NewPrimary = ''a'',
     mv_OldReplicas = [], mv_NewReplicas = []\<rparr>], pl_Epoch = 1, pl_AddedNode = [], pl_RemovedNode = []\<rparr>"

theorem shard_lookup_never_matches_witness:
  "let env = example_env\<lparr>fe_codec := example_codec\<lparr>um_plan := (\<lambda>_. Some example_plan)\<rparr>\<rparr>;
       s = apply_log env [(0, [15])] NewMetaState
   in assignments s (pkey 7) \<noteq> None \<and>
      Assignment (Some (ms_ShardMap s)) \<lparr>sid_Index = ''main'', sid_TimeBucket = 0, sid_Partition = 7\<rparr> = None"
proof -
  let ?env = "example_env\<lparr>fe_codec := example_codec\<lparr>um_plan := (\<lambda>_. Some example_plan)\<rparr>\<rparr>"
  have "assignments (apply_log ?env [(0, [15])] NewMetaState) (pkey 7) \<noteq> None"
    by (simp add: example_defs applyRebalance_def apply_plan_def apply_move_def example_plan_def NewMetaState_def NewShardMap_def)
  moreover have "Assignment (Some (ms_ShardMap (apply_log ?env [(0, [15])] NewMetaState)))
      \<lparr>sid_Index = ''main'', sid_TimeBucket = 0, sid_Partition = 7\<rparr> = None"
    by (rule shard_lookup_never_matches)
       (simp add: example_env_def example_codec_def cmd_defs example_plan_def)
  ultimately show ?thesis by (simp add: Let_def)
qed

text \<open>
  (C14) Rebalancing converges in one step: applying the plan that \<open>IncrementalRebalance\<close> computes leaves
  nothing to plan, and afterwards every partition that the ring assigns has an assignment. An active
  one is exactly the ring's; one that is not active is migrating with the ring's nodes as its pending
  ones, or was not active before and is unchanged.
\<close>

theorem rebalance_converges:
  assumes "i < unat n" and "AssignPartitionReplicas hash (of_nat i) rf (ms_Ring s) \<noteq> []"
  shows "let s' = apply_plan (IncrementalRebalance hash n rf s) s in
     Plan_IsEmpty (Some (IncrementalRebalance hash n rf s')) \<and>
     (\<exists>a. assignments s' (pkey (of_nat i)) = Some a \<and>
        settled (AssignPartitionReplicas hash (of_nat i) rf (ms_Ring s)) (assignments s (pkey (of_nat i))) a)"
proof -
  have "Plan_IsEmpty (Some (IncrementalRebalance hash n rf (apply_plan (IncrementalRebalance hash n rf s) s)))"
    using plan_move_applied [of _ n hash rf s] by (auto simp: Plan_IsEmpty_def IncrementalRebalance_def)
  with plan_move_settles [OF assms(1), of hash rf s] assms(2) show ?thesis
    by (auto simp: neq_Nil_conv Let_def)
qed

theorem rebalance_converges_witness:
  "let s = NewMetaState\<lparr>ms_Ring := \<lparr>hr_vnodesPerNode = 1, hr_ring = [\<lparr>re_Hash = 9, re_NodeID = ''a'', re_VNode = 0\<rparr>], hr_nodes = {''a''}\<rparr>\<rparr>
   in \<exists>a. assignments (apply_plan (IncrementalRebalance (\<lambda>_. 3) 2 1 s) s) (pkey (of_nat 1)) = Some a \<and>
        settled [''a''] None a"
proof -
  let ?s = "NewMetaState\<lparr>ms_Ring := \<lparr>hr_vnodesPerNode = 1, hr_ring = [\<lparr>re_Hash = 9, re_NodeID = ''a'', re_VNode = 0\<rparr>], hr_nodes = {''a''}\<rparr>\<rparr>"
  have ring: "AssignPartitionReplicas (\<lambda>_. 3) p 1 (ms_Ring ?s) = [''a'']" for p
    by (simp add: AssignPartitionReplicas_def Let_def)
  have "assignments ?s k = None" for k by (simp add: NewMetaState_def NewShardMap_def)
  with rebalance_converges [of 1 2 "\<lambda>_. 3" 1 ?s] ring show ?thesis by (simp add: Let_def)
qed

end
