(* ===== verification/Segment_Footer.thy ===== *)
theory Segment_Footer
  imports Prelude CRC32 "HOL-Library.Monad_Syntax"
begin

text \<open>
  \<^verbatim>\<open>src/pkg/storage/segment/format.go\<close>, \<^verbatim>\<open>rowgroup.go\<close>, \<^verbatim>\<open>version.go\<close>, \<^verbatim>\<open>capabilities.go\<close> and the opening of a
  segment in \<^verbatim>\<open>reader.go\<close>: the footer that describes the row groups and columns of a segment file,
  in the layouts of format major 1 and 2, and the file header.

  The decoder's position in the payload is represented by the bytes that are left; a bounds check
  and the read it guards are one step. The decoder answers every malformed payload with
  \<open>ErrCorruptSegment\<close>, so the steps inside the payload return an option. Counts, offsets and
  sizes that Go holds as int64 and writes as uint64 are 64-bit words.
\<close>

datatype seg_error =
    ErrCorruptSegment
  | ErrChecksumMismatch
  | ErrInvalidMagic
  | ErrUnsupportedMajor u16
  | ErrUnsupportedCapability int
  | ErrUnsupportedHeaderRev u8
  | ErrCorruptRegion

subsection \<open>Metadata of row groups, columns and files\<close>

record ColumnChunkMeta =
  cm_Name :: bytes
  cm_EncodingType :: u8
  cm_Compression :: u8
  cm_Offset :: u64
  cm_Length :: u64
  cm_RawSize :: u64
  cm_CRC32 :: u32
  cm_MinValue :: bytes
  cm_MaxValue :: bytes
  cm_Count :: u64
  cm_NullCount :: u64

record ConstColumnEntry =
  cc_Name :: bytes
  cc_EncodingType :: u8
  cc_Value :: bytes

record RowGroupMeta =
  rg_RowCount :: nat
  rg_ColumnPresenceBits :: u64
  rg_ConstColumns :: "ConstColumnEntry list"
  rg_Columns :: "ColumnChunkMeta list"
  rg_PerColumnBloomOffset :: u64
  rg_PerColumnBloomLength :: u64
  rg_PerColumnRangeOffset :: u64
  rg_PerColumnRangeLength :: u64
  rg_RequiredCapabilities :: u64

record CatalogEntry =
  ct_Name :: bytes
  ct_DominantType :: u8
  ct_IndexProfile :: u8

record Footer =
  f_EventCount :: u64
  f_RequiredCaps :: u64
  f_OptionalCaps :: u64
  f_RowGroups :: "RowGroupMeta list"
  f_Catalog :: "CatalogEntry list"
  f_InvertedOffset :: u64
  f_InvertedLength :: u64
  f_PrimaryIndexOffset :: u64
  f_PrimaryIndexLength :: u64

definition LSG_FOOTER_MAGIC :: bytes where "LSG_FOOTER_MAGIC = [0x4C, 0x53, 0x47, 0x45]"
definition LSG_HEADER_SIZE :: nat where "LSG_HEADER_SIZE = 24"
definition LSG_FOOTER_TRAILER_SIZE :: nat where "LSG_FOOTER_TRAILER_SIZE = 12"
definition LSG_MIN_FILE_SIZE :: nat where "LSG_MIN_FILE_SIZE = LSG_HEADER_SIZE + LSG_FOOTER_TRAILER_SIZE + 4"
definition LSG_FORMAT_MAJOR_V1 :: u16 where "LSG_FORMAT_MAJOR_V1 = 1"
definition LSG_FORMAT_MAJOR_V2 :: u16 where "LSG_FORMAT_MAJOR_V2 = 2"
definition LSG_BINARY_MIN_MAJOR :: u16 where "LSG_BINARY_MIN_MAJOR = 1"
definition LSG_BINARY_MAX_MAJOR :: u16 where "LSG_BINARY_MAX_MAJOR = 2"
definition CapBit_ColumnZSTD :: u64 where "CapBit_ColumnZSTD = 1"
definition CapBit_RangeBSI :: u64 where "CapBit_RangeBSI = 2"
definition LSG_REQUIRED_CAPS_KNOWN :: u64 where "LSG_REQUIRED_CAPS_KNOWN = CapBit_ColumnZSTD"
definition LSG_OPTIONAL_CAPS_KNOWN :: u64 where "LSG_OPTIONAL_CAPS_KNOWN = CapBit_RangeBSI"

lemmas lsg_defs = LSG_FOOTER_MAGIC_def LSG_HEADER_SIZE_def LSG_FOOTER_TRAILER_SIZE_def LSG_MIN_FILE_SIZE_def
  LSG_FORMAT_MAJOR_V1_def LSG_FORMAT_MAJOR_V2_def LSG_BINARY_MIN_MAJOR_def LSG_BINARY_MAX_MAJOR_def
  CapBit_ColumnZSTD_def CapBit_RangeBSI_def LSG_REQUIRED_CAPS_KNOWN_def LSG_OPTIONAL_CAPS_KNOWN_def

definition footerCapsSummary :: "u64 \<Rightarrow> u64 \<Rightarrow> u32" where
  "footerCapsSummary required optional = ucast required XOR ucast (drop_bit 32 optional)"

subsection \<open>Encoder\<close>

definition put_string16 :: "bytes \<Rightarrow> bytes" where
  "put_string16 s = PutUint16 (word_of_nat (length s)) @ s"

definition encode_const :: "ConstColumnEntry \<Rightarrow> bytes" where
  "encode_const cc = put_string16 (cc_Name cc) @ [cc_EncodingType cc] @ put_string16 (cc_Value cc)"

definition encode_chunk :: "ColumnChunkMeta \<Rightarrow> bytes" where
  "encode_chunk c = put_string16 (cm_Name c) @ [cm_EncodingType c, cm_Compression c]
     @ PutUint64 (cm_Offset c) @ PutUint64 (cm_Length c) @ PutUint64 (cm_RawSize c) @ PutUint32 (cm_CRC32 c)
     @ put_string16 (cm_MinValue c) @ put_string16 (cm_MaxValue c)
     @ PutUint64 (cm_Count c) @ PutUint64 (cm_NullCount c)"

definition encode_row_group :: "bool \<Rightarrow> RowGroupMeta \<Rightarrow> bytes" where
  "encode_row_group includeRange rg =
     PutUint32 (word_of_nat (rg_RowCount rg)) @ PutUint64 (rg_ColumnPresenceBits rg)
     @ PutUint16 (word_of_nat (length (rg_ConstColumns rg))) @ concat (map encode_const (rg_ConstColumns rg))
     @ PutUint32 (word_of_nat (length (rg_Columns rg))) @ concat (map encode_chunk (rg_Columns rg))
     @ PutUint64 (rg_PerColumnBloomOffset rg) @ PutUint64 (rg_PerColumnBloomLength rg)
     @ (if includeRange then PutUint64 (rg_PerColumnRangeOffset rg) @ PutUint64 (rg_PerColumnRangeLength rg) else [])
     @ PutUint64 (rg_RequiredCapabilities rg)"

definition encode_catalog :: "bool \<Rightarrow> CatalogEntry \<Rightarrow> bytes" where
  "encode_catalog includeRange cat =
     put_string16 (ct_Name cat) @ [ct_DominantType cat] @ (if includeRange then [ct_IndexProfile cat] else [])"

definition footer_payload :: "Footer \<Rightarrow> bool \<Rightarrow> bytes" where
  "footer_payload f includeRange =
     LSG_FOOTER_MAGIC @ [0, 0, 0, 0]
     @ PutUint64 (f_EventCount f) @ PutUint64 (f_RequiredCaps f) @ PutUint64 (f_OptionalCaps f)
     @ PutUint32 (word_of_nat (length (f_RowGroups f))) @ PutUint32 (word_of_nat (length (f_Catalog f)))
     @ concat (map (encode_row_group includeRange) (f_RowGroups f))
     @ concat (map (encode_catalog includeRange) (f_Catalog f))
     @ PutUint64 (f_InvertedOffset f) @ PutUint64 (f_InvertedLength f)
     @ PutUint64 (f_PrimaryIndexOffset f) @ PutUint64 (f_PrimaryIndexLength f)"

definition encodeFooterWithLayout :: "Footer \<Rightarrow> bool \<Rightarrow> bytes" where
  "encodeFooterWithLayout f includeRange =
     (let payload = footer_payload f includeRange;
          buf = payload @ PutUint32 (word_of_nat (length payload))
                  @ PutUint32 (footerCapsSummary (f_RequiredCaps f) (f_OptionalCaps f))
      in buf @ PutUint32 (ChecksumIEEE buf))"

definition encodeFooterV1 :: "Footer \<Rightarrow> bytes" where "encodeFooterV1 f = encodeFooterWithLayout f False"
definition encodeFooterV2 :: "Footer \<Rightarrow> bytes" where "encodeFooterV2 f = encodeFooterWithLayout f True"

definition encodeFooterForMajor :: "Footer \<Rightarrow> u16 \<Rightarrow> bytes" where
  "encodeFooterForMajor f major =
     (if major = LSG_FORMAT_MAJOR_V1 then encodeFooterV1 f
      else if major = LSG_FORMAT_MAJOR_V2 then encodeFooterV2 f
      else encodeFooterV2 f)"

subsection \<open>Decoder\<close>

definition get_bytes :: "nat \<Rightarrow> bytes \<Rightarrow> (bytes \<times> bytes) option" where
  "get_bytes n r = (if length r < n then None else Some (take n r, drop n r))"

definition get8 :: "bytes \<Rightarrow> (u8 \<times> bytes) option" where
  "get8 r = (case r of [] \<Rightarrow> None | b # r \<Rightarrow> Some (b, r))"

definition get16 :: "bytes \<Rightarrow> (u16 \<times> bytes) option" where
  "get16 r = do { (b, r) \<leftarrow> get_bytes 2 r; Some (Uint16 b, r) }"

definition get32 :: "bytes \<Rightarrow> (u32 \<times> bytes) option" where
  "get32 r = do { (b, r) \<leftarrow> get_bytes 4 r; Some (Uint32 b, r) }"

definition get64 :: "bytes \<Rightarrow> (u64 \<times> bytes) option" where
  "get64 r = do { (b, r) \<leftarrow> get_bytes 8 r; Some (Uint64 b, r) }"

definition get_string16 :: "bytes \<Rightarrow> (bytes \<times> bytes) option" where
  "get_string16 r = do { (n, r) \<leftarrow> get16 r; get_bytes (unat n) r }"

definition get_name :: "bytes \<Rightarrow> (bytes \<times> bytes) option" where
  "get_name r = do { (n, r) \<leftarrow> get16 r; if n > 1024 then None else get_bytes (unat n) r }"

fun read_n :: "nat \<Rightarrow> (bytes \<Rightarrow> ('a \<times> bytes) option) \<Rightarrow> bytes \<Rightarrow> ('a list \<times> bytes) option" where
  "read_n 0 get r = Some ([], r)"
| "read_n (Suc n) get r = do { (x, r) \<leftarrow> get r; (xs, r) \<leftarrow> read_n n get r; Some (x # xs, r) }"

definition footerCountFits :: "u64 \<Rightarrow> int \<Rightarrow> int \<Rightarrow> int \<Rightarrow> bool" where
  "footerCountFits count pos minItemBytes payloadLen \<longleftrightarrow>
     (if count = 0 then True
      else if pos < 0 \<or> pos > payloadLen \<or> minItemBytes \<le> 0 then False
      else count \<le> (word_of_int (payloadLen - pos) :: u64) div word_of_int minItemBytes)"

text \<open>The check at the current position, of which the payload length and the bytes left are known.\<close>

definition count_fits :: "nat \<Rightarrow> u64 \<Rightarrow> int \<Rightarrow> bytes \<Rightarrow> bool" where
  "count_fits payloadLen count minItemBytes r =
     footerCountFits count (int payloadLen - int (length r)) minItemBytes (int payloadLen)"

definition decode_const :: "bytes \<Rightarrow> (ConstColumnEntry \<times> bytes) option" where
  "decode_const r = do {
     (name, r) \<leftarrow> get_name r;
     (enc, r) \<leftarrow> get8 r;
     (val, r) \<leftarrow> get_string16 r;
     Some (\<lparr>cc_Name = name, cc_EncodingType = enc, cc_Value = val\<rparr>, r)
   }"

definition decode_chunk :: "bytes \<Rightarrow> (ColumnChunkMeta \<times> bytes) option" where
  "decode_chunk r = do {
     (name, r) \<leftarrow> get_name r;
     (enc, r) \<leftarrow> get8 r;
     (compression, r) \<leftarrow> get8 r;
     (offset, r) \<leftarrow> get64 r;
     (len, r) \<leftarrow> get64 r;
     (rawSize, r) \<leftarrow> get64 r;
     (crc, r) \<leftarrow> get32 r;
     (minV, r) \<leftarrow> get_string16 r;
     (maxV, r) \<leftarrow> get_string16 r;
     (count, r) \<leftarrow> get64 r;
     (nullCount, r) \<leftarrow> get64 r;
     Some (\<lparr>cm_Name = name, cm_EncodingType = enc, cm_Compression = compression, cm_Offset = offset,
            cm_Length = len, cm_RawSize = rawSize, cm_CRC32 = crc, cm_MinValue = minV, cm_MaxValue = maxV,
            cm_Count = count, cm_NullCount = nullCount\<rparr>, r)
   }"

definition decode_const_list :: "nat \<Rightarrow> bytes \<Rightarrow> (ConstColumnEntry list \<times> bytes) option" where
  "decode_const_list payloadLen r = do {
     (constCount, r) \<leftarrow> get16 r;
     if constCount > 0
     then if \<not> count_fits payloadLen (ucast constCount) 5 r then None
          else read_n (unat constCount) decode_const r
     else Some ([], r)
   }"

definition decode_chunk_list :: "nat \<Rightarrow> bytes \<Rightarrow> (ColumnChunkMeta list \<times> bytes) option" where
  "decode_chunk_list payloadLen r = do {
     (colCount, r) \<leftarrow> get32 r;
     if \<not> count_fits payloadLen (ucast colCount) 52 r then None
     else read_n (unat colCount) decode_chunk r
   }"

definition decode_row_group :: "nat \<Rightarrow> bool \<Rightarrow> bytes \<Rightarrow> (RowGroupMeta \<times> bytes) option" where
  "decode_row_group payloadLen includeRange r = do {
     (rows, r) \<leftarrow> get32 r;
     (bits, r) \<leftarrow> get64 r;
     (constants, r) \<leftarrow> decode_const_list payloadLen r;
     (cols, r) \<leftarrow> decode_chunk_list payloadLen r;
     (bloomOff, r) \<leftarrow> get64 r;
     (bloomLen, r) \<leftarrow> get64 r;
     ((rangeOff, rangeLen), r) \<leftarrow>
       (if includeRange then do { (a, r) \<leftarrow> get64 r; (b, r) \<leftarrow> get64 r; Some ((a, b), r) }
        else Some ((0, 0), r));
     (caps, r) \<leftarrow> get64 r;
     Some (\<lparr>rg_RowCount = unat rows, rg_ColumnPresenceBits = bits, rg_ConstColumns = constants, rg_Columns = cols,
            rg_PerColumnBloomOffset = bloomOff, rg_PerColumnBloomLength = bloomLen,
            rg_PerColumnRangeOffset = rangeOff, rg_PerColumnRangeLength = rangeLen,
            rg_RequiredCapabilities = caps\<rparr>, r)
   }"

definition decode_catalog :: "bool \<Rightarrow> bytes \<Rightarrow> (CatalogEntry \<times> bytes) option" where
  "decode_catalog includeRange r = do {
     (name, r) \<leftarrow> get_name r;
     (ty, r) \<leftarrow> get8 r;
     (profile, r) \<leftarrow> (if includeRange then get8 r else Some (0, r));
     Some (\<lparr>ct_Name = name, ct_DominantType = ty, ct_IndexProfile = profile\<rparr>, r)
   }"

definition decode_payload :: "u32 \<Rightarrow> bool \<Rightarrow> bytes \<Rightarrow> Footer option" where
  "decode_payload storedCapsSummary includeRange payload = do {
     (magic, r) \<leftarrow> get_bytes 8 payload;
     (if take 4 magic \<noteq> LSG_FOOTER_MAGIC \<or> drop 4 magic \<noteq> [0, 0, 0, 0] then None else do {
     (eventCount, r) \<leftarrow> get64 r;
     (required, r) \<leftarrow> get64 r;
     (optional, r) \<leftarrow> get64 r;
     (if footerCapsSummary required optional \<noteq> storedCapsSummary then None else do {
     (rgCount, r) \<leftarrow> get32 r;
     (catCount, r) \<leftarrow> get32 r;
     (let minRowGroupBytes = (if includeRange then 42 + 16 else 42);
          minCatalogBytes = (if includeRange then 3 + 1 else 3);
          payloadLen = length payload in
      if \<not> count_fits payloadLen (ucast rgCount) minRowGroupBytes r then None
      else if \<not> count_fits payloadLen (ucast catCount) minCatalogBytes r then None
      else do {
        (rowGroups, r) \<leftarrow> read_n (unat rgCount) (decode_row_group payloadLen includeRange) r;
        (catalog, r) \<leftarrow>
          (if \<not> count_fits payloadLen (ucast catCount) minCatalogBytes r then None
           else read_n (unat catCount) (decode_catalog includeRange) r);
        (invOff, r) \<leftarrow> get64 r;
        (invLen, r) \<leftarrow> get64 r;
        ((primOff, primLen), r) \<leftarrow>
          (if length r \<ge> 16 then do { (a, r) \<leftarrow> get64 r; (b, r) \<leftarrow> get64 r; Some ((a, b), r) }
           else Some ((0, 0), r));
        (if r \<noteq> [] then None
         else Some \<lparr>f_EventCount = eventCount, f_RequiredCaps = required, f_OptionalCaps = optional,
                    f_RowGroups = rowGroups, f_Catalog = catalog, f_InvertedOffset = invOff,
                    f_InvertedLength = invLen, f_PrimaryIndexOffset = primOff, f_PrimaryIndexLength = primLen\<rparr>)
      }) }) }) }"

definition decodeFooterWithLayout :: "bytes \<Rightarrow> bool \<Rightarrow> seg_error + Footer" where
  "decodeFooterWithLayout data includeRange =
     (if length data < LSG_FOOTER_TRAILER_SIZE then Inl ErrCorruptSegment
      else let trailerStart = length data - LSG_FOOTER_TRAILER_SIZE;
               footerSize = Uint32 (slice data trailerStart (trailerStart + 4));
               storedCapsSummary = Uint32 (slice data (trailerStart + 4) (trailerStart + 8));
               storedCRC = Uint32 (drop (length data - 4) data);
               totalFooterLen = unat footerSize + LSG_FOOTER_TRAILER_SIZE in
        if totalFooterLen > length data then Inl ErrCorruptSegment
        else let footerStart = length data - totalFooterLen in
          if ChecksumIEEE (slice data footerStart (length data - 4)) \<noteq> storedCRC then Inl ErrChecksumMismatch
          else (case decode_payload storedCapsSummary includeRange
                       (slice data footerStart (footerStart + unat footerSize)) of
                  None \<Rightarrow> Inl ErrCorruptSegment
                | Some f \<Rightarrow> Inr f))"

definition decodeFooterV1 :: "bytes \<Rightarrow> seg_error + Footer" where
  "decodeFooterV1 data = decodeFooterWithLayout data False"

definition decodeFooterV2 :: "bytes \<Rightarrow> seg_error + Footer" where
  "decodeFooterV2 data = decodeFooterWithLayout data True"

definition decodeFooterForMajor :: "bytes \<Rightarrow> u16 \<Rightarrow> seg_error + Footer" where
  "decodeFooterForMajor data major =
     (if major = LSG_FORMAT_MAJOR_V1 then decodeFooterV1 data
      else if major = LSG_FORMAT_MAJOR_V2 then decodeFooterV2 data
      else Inl (ErrUnsupportedMajor major))"

subsection \<open>Header and opening\<close>

definition MagicForMajor :: "u16 \<Rightarrow> bytes" where
  "MagicForMajor major = (if major > 9 then [] else [0x4C, 0x53, 0x47, 0x30 + ucast major])"

definition magicMajor :: "bytes \<Rightarrow> u16 option" where
  "magicMajor magic =
     (if length magic \<noteq> 4 \<or> magic ! 0 \<noteq> 0x4C \<or> magic ! 1 \<noteq> 0x53 \<or> magic ! 2 \<noteq> 0x47 then None
      else if magic ! 3 < 0x30 \<or> magic ! 3 > 0x39 then None
      else Some (ucast (magic ! 3 - 0x30)))"

definition makeHeader :: "u16 \<Rightarrow> u64 \<Rightarrow> u64 \<Rightarrow> bytes" where
  "makeHeader major requiredCaps optionalCaps =
     (let magic = MagicForMajor major in magic @ replicate (4 - length magic) 0)
     @ PutUint16 major @ [0, 0] @ PutUint64 requiredCaps @ PutUint64 optionalCaps"

definition patchHeader :: "bytes \<Rightarrow> u16 \<Rightarrow> u64 \<Rightarrow> u64 \<Rightarrow> bytes" where
  "patchHeader data major requiredCaps optionalCaps =
     makeHeader major requiredCaps optionalCaps @ drop LSG_HEADER_SIZE data"

text \<open>\<open>decodeFooter\<close>; the first argument is the process-wide default major version.\<close>

definition decodeFooter :: "u16 \<Rightarrow> bytes \<Rightarrow> seg_error + Footer" where
  "decodeFooter formatMajor data =
     (if length data \<ge> LSG_HEADER_SIZE \<and> magicMajor (slice data 0 4) = Some (Uint16 (slice data 4 6))
      then decodeFooterForMajor data (Uint16 (slice data 4 6))
      else (case decodeFooterForMajor data formatMajor of
              Inr f \<Rightarrow> Inr f
            | Inl err \<Rightarrow>
                if formatMajor \<noteq> LSG_FORMAT_MAJOR_V1
                then (case decodeFooterForMajor data LSG_FORMAT_MAJOR_V1 of Inr f \<Rightarrow> Inr f | Inl _ \<Rightarrow> Inl err)
                else Inl err))"

definition lowestSetBit :: "u64 \<Rightarrow> int" where
  "lowestSetBit m = (case find (bit m) [0..<64] of None \<Rightarrow> - 1 | Some i \<Rightarrow> int i)"

record headerV1 =
  hd_major :: u16
  hd_requiredCaps :: u64
  hd_optionalCaps :: u64

definition validateHeader :: "bytes \<Rightarrow> seg_error + headerV1" where
  "validateHeader data =
     (case magicMajor (slice data 0 4) of
        None \<Rightarrow> Inl ErrInvalidMagic
      | Some expected \<Rightarrow>
          let version = Uint16 (slice data 4 6);
              requiredCaps = Uint64 (slice data 8 16);
              optionalCaps = Uint64 (slice data 16 24) in
          if version \<noteq> expected then Inl ErrInvalidMagic
          else if version < LSG_BINARY_MIN_MAJOR \<or> version > LSG_BINARY_MAX_MAJOR then Inl (ErrUnsupportedMajor version)
          else if data ! 6 \<noteq> 0 then Inl (ErrUnsupportedHeaderRev (data ! 6))
          else if data ! 7 \<noteq> 0 then Inl ErrCorruptSegment
          else if requiredCaps AND NOT LSG_REQUIRED_CAPS_KNOWN \<noteq> 0
          then Inl (ErrUnsupportedCapability (lowestSetBit (requiredCaps AND NOT LSG_REQUIRED_CAPS_KNOWN)))
          else if optionalCaps AND NOT LSG_OPTIONAL_CAPS_KNOWN \<noteq> 0
          then Inl (ErrUnsupportedCapability (lowestSetBit (optionalCaps AND NOT LSG_OPTIONAL_CAPS_KNOWN)))
          else Inr \<lparr>hd_major = version, hd_requiredCaps = requiredCaps, hd_optionalCaps = optionalCaps\<rparr>)"

definition ValidateSegmentHeader :: "bytes \<Rightarrow> int \<Rightarrow> seg_error option" where
  "ValidateSegmentHeader data fileSize =
     (if fileSize < int LSG_MIN_FILE_SIZE then Some ErrCorruptSegment
      else if length data < LSG_HEADER_SIZE then Some ErrCorruptSegment
      else (case validateHeader data of Inl err \<Rightarrow> Some err | Inr _ \<Rightarrow> None))"

text \<open>
  The reader, with the parts that opening sets: the caches of decoded indexes are filled later and
  hold no information of their own.
\<close>

record Reader =
  rd_data :: bytes
  rd_major :: u16
  rd_footer :: Footer
  rd_columnIndex :: "bytes \<Rightarrow> nat option"

primrec column_index :: "nat \<Rightarrow> CatalogEntry list \<Rightarrow> (bytes \<Rightarrow> nat option) \<Rightarrow> bytes \<Rightarrow> nat option" where
  "column_index i [] m = m"
| "column_index i (cat # cats) m = column_index (Suc i) cats (m(ct_Name cat \<mapsto> i))"

definition openWithFooterMajor :: "bytes \<Rightarrow> headerV1 \<Rightarrow> u16 \<Rightarrow> seg_error + Reader" where
  "openWithFooterMajor data header major =
     (case decodeFooterForMajor data major of
        Inl err \<Rightarrow> Inl err
      | Inr footer \<Rightarrow>
          if f_RequiredCaps footer \<noteq> hd_requiredCaps header \<or> f_OptionalCaps footer \<noteq> hd_optionalCaps header
          then Inl ErrCorruptSegment
          else Inr \<lparr>rd_data = data, rd_major = major, rd_footer = footer,
                    rd_columnIndex = column_index 0 (f_Catalog footer) Map.empty\<rparr>)"

definition OpenSegment :: "bytes \<Rightarrow> seg_error + Reader" where
  "OpenSegment data =
     (if length data < LSG_MIN_FILE_SIZE then Inl ErrCorruptSegment
      else (case validateHeader data of
              Inl err \<Rightarrow> Inl err
            | Inr header \<Rightarrow>
                if hd_major header = LSG_FORMAT_MAJOR_V1 then openWithFooterMajor data header LSG_FORMAT_MAJOR_V1
                else if hd_major header = LSG_FORMAT_MAJOR_V2 then openWithFooterMajor data header LSG_FORMAT_MAJOR_V2
                else Inl (ErrUnsupportedMajor (hd_major header))))"

subsection \<open>Capabilities\<close>

definition requiredCapsForCompression :: "u8 \<Rightarrow> u64" where
  "requiredCapsForCompression c = (if c = 2 then CapBit_ColumnZSTD else 0)"

definition requiredCapsForRowGroup :: "RowGroupMeta \<Rightarrow> u64" where
  "requiredCapsForRowGroup rg = foldl (\<lambda>caps c. caps OR requiredCapsForCompression (cm_Compression c)) 0 (rg_Columns rg)"

definition aggregateCapabilities :: "RowGroupMeta list \<Rightarrow> u64 \<times> u64" where
  "aggregateCapabilities rowGroups =
     foldl (\<lambda>(required, optional) rg.
       (required OR rg_RequiredCapabilities rg,
        if sint (rg_PerColumnRangeLength rg) > 16 then optional OR CapBit_RangeBSI else optional))
     (0, 0) rowGroups"

subsection \<open>Reading back what was written\<close>

named_theorems footer_simps \<open>reads of the fields that were just written\<close>

lemma get_bytes_append: "get_bytes n (xs @ r) = Some (xs, r)" if "length xs = n"
  using that by (simp add: get_bytes_def)

lemma get_fields [footer_simps]:
  "get8 (b # r) = Some (b, r)"
  "get16 (PutUint16 h @ r) = Some (h, r)"
  "get32 (PutUint32 w @ r) = Some (w, r)"
  "get64 (PutUint64 v @ r) = Some (v, r)"
  "get64 (PutUint64 v) = Some (v, [])"
  by (simp_all add: get8_def get16_def get32_def get64_def get_bytes_append get_bytes_append [where r = "[]", simplified])

lemma unat_small [simp]: "n < 2 ^ 16 \<Longrightarrow> unat (word_of_nat n :: u16) = n" "m < 2 ^ 32 \<Longrightarrow> unat (word_of_nat m :: u32) = m"
  by (simp_all add: unat_of_nat)

lemma get_string16_put [footer_simps]: "length s < 2 ^ 16 \<Longrightarrow> get_string16 (put_string16 s @ r) = Some (s, r)"
  by (simp add: get_string16_def put_string16_def footer_simps get_bytes_append)

lemma get_name_put [footer_simps]:
  assumes "length s \<le> 1024"
  shows "get_name (put_string16 s @ r) = Some (s, r)"
proof -
  have "unat (word_of_nat (length s) :: u16) = length s" using assms by simp
  moreover from this have "\<not> (word_of_nat (length s) :: u16) > 1024" using assms by (simp add: word_less_nat_alt)
  ultimately show ?thesis by (simp add: get_name_def put_string16_def footer_simps get_bytes_append)
qed

lemma get_string16_bound: "get_string16 r = Some (s, r') \<Longrightarrow> length s < 2 ^ 16"
  using unsigned_less [of "fst (the (get16 r))", where 'a = nat]
  by (auto simp: get_string16_def get_bytes_def split: bind_splits if_splits)

lemma get_name_bound: "get_name r = Some (s, r') \<Longrightarrow> length s \<le> 1024"
  by (auto simp: get_name_def get_bytes_def word_less_nat_alt split: bind_splits if_splits)

lemma count_fits_iff:
  assumes "length r \<le> L" and "L < 2 ^ 32" and "0 < k" and "k < 2 ^ 32"
  shows "count_fits L c (int k) r \<longleftrightarrow> unat c \<le> length r div k"
proof -
  have "(word_of_int (int L - (int L - int (length r))) :: u64) = word_of_nat (length r)" by simp
  moreover have "unat (word_of_nat (length r) :: u64) = length r" "unat (word_of_nat k :: u64) = k"
    using assms by (simp_all add: unat_of_nat)
  ultimately show ?thesis
    using assms by (simp add: count_fits_def footerCountFits_def word_le_nat_alt unat_div_distrib unat_eq_zero)
qed

text \<open>
  What the decoder of a list of items relies on: an item that fits its length fields is read back
  whatever follows it, an item that is read fits them, and every item takes at least the bytes
  that the count check assumes.
\<close>

locale item_codec =
  fixes put :: "'a \<Rightarrow> bytes" and get :: "nat \<Rightarrow> bytes \<Rightarrow> ('a \<times> bytes) option" and ok :: "'a \<Rightarrow> bool" and least :: nat
  assumes get_put: "\<lbrakk>ok x; length (put x @ rest) \<le> L; L < 2 ^ 32\<rbrakk> \<Longrightarrow> get L (put x @ rest) = Some (x, rest)"
    and get_ok: "get L r = Some (x, rest) \<Longrightarrow> ok x"
    and put_least: "least \<le> length (put x)" and least_pos: "0 < least" and least_small: "least < 2 ^ 32"
begin

lemma read_n_put:
  "\<lbrakk>list_all ok xs; length (concat (map put xs) @ rest) \<le> L; L < 2 ^ 32\<rbrakk>
    \<Longrightarrow> read_n (length xs) (get L) (concat (map put xs) @ rest) = Some (xs, rest)"
proof (induction xs)
  case (Cons x xs)
  then have "get L (put x @ concat (map put xs) @ rest) = Some (x, concat (map put xs) @ rest)"
    by (intro get_put) simp_all
  with Cons show ?case by simp
qed simp

lemma read_n_ok: "read_n n (get L) r = Some (xs, rest) \<Longrightarrow> length xs = n \<and> list_all ok xs"
  by (induction n arbitrary: r xs) (fastforce split: bind_splits dest: get_ok)+

lemma length_concat_least: "least * length xs \<le> length (concat (map put xs))"
  by (induction xs) (use put_least in \<open>auto simp: algebra_simps intro: add_mono\<close>)

lemma count_fits_put:
  assumes "length (concat (map put xs) @ rest) \<le> L" and "L < 2 ^ 32" and "unat c = length xs"
  shows "count_fits L c (int least) (concat (map put xs) @ rest)"
proof -
  have "length xs * least \<le> length (concat (map put xs) @ rest)" using length_concat_least [of xs] by (simp add: mult.commute)
  then have "length xs \<le> length (concat (map put xs) @ rest) div least"
    using least_pos by (simp add: less_eq_div_iff_mult_less_eq)
  then show ?thesis using assms least_pos least_small by (simp add: count_fits_iff)
qed

end

subsection \<open>The codecs of the footer's items\<close>

definition const_ok :: "ConstColumnEntry \<Rightarrow> bool" where
  "const_ok cc \<longleftrightarrow> length (cc_Name cc) \<le> 1024 \<and> length (cc_Value cc) < 2 ^ 16"

definition chunk_ok :: "ColumnChunkMeta \<Rightarrow> bool" where
  "chunk_ok c \<longleftrightarrow> length (cm_Name c) \<le> 1024 \<and> length (cm_MinValue c) < 2 ^ 16 \<and> length (cm_MaxValue c) < 2 ^ 16"

definition row_group_ok :: "bool \<Rightarrow> RowGroupMeta \<Rightarrow> bool" where
  "row_group_ok includeRange rg \<longleftrightarrow> rg_RowCount rg < 2 ^ 32
     \<and> length (rg_ConstColumns rg) < 2 ^ 16 \<and> list_all const_ok (rg_ConstColumns rg)
     \<and> length (rg_Columns rg) < 2 ^ 32 \<and> list_all chunk_ok (rg_Columns rg)
     \<and> (includeRange \<or> rg_PerColumnRangeOffset rg = 0 \<and> rg_PerColumnRangeLength rg = 0)"

definition catalog_ok :: "bool \<Rightarrow> CatalogEntry \<Rightarrow> bool" where
  "catalog_ok includeRange cat \<longleftrightarrow> length (ct_Name cat) \<le> 1024 \<and> (includeRange \<or> ct_IndexProfile cat = 0)"

interpretation const: item_codec encode_const "\<lambda>_. decode_const" const_ok 5
proof unfold_locales
  show "decode_const (encode_const x @ rest) = Some (x, rest)" if "const_ok x" for x rest
    using that by (simp add: decode_const_def encode_const_def const_ok_def footer_simps)
  show "const_ok x" if "decode_const r = Some (x, rest)" for r x rest
    using that by (auto simp: decode_const_def const_ok_def dest!: get_name_bound get_string16_bound split: bind_splits)
qed (simp_all add: encode_const_def put_string16_def)

interpretation chunks: item_codec encode_chunk "\<lambda>_. decode_chunk" chunk_ok 52
proof unfold_locales
  show "decode_chunk (encode_chunk x @ rest) = Some (x, rest)" if "chunk_ok x" for x rest
    using that by (simp add: decode_chunk_def encode_chunk_def chunk_ok_def footer_simps)
  show "chunk_ok x" if "decode_chunk r = Some (x, rest)" for r x rest
    using that by (auto simp: decode_chunk_def chunk_ok_def dest!: get_name_bound get_string16_bound split: bind_splits)
qed (simp_all add: encode_chunk_def put_string16_def)

definition catalog_least :: "bool \<Rightarrow> nat" where
  "catalog_least includeRange = (if includeRange then 3 + 1 else 3)"

definition row_group_least :: "bool \<Rightarrow> nat" where
  "row_group_least includeRange = (if includeRange then 42 + 16 else 42)"

interpretation catalog: item_codec "encode_catalog includeRange" "\<lambda>_. decode_catalog includeRange"
  "catalog_ok includeRange" "catalog_least includeRange" for includeRange
proof unfold_locales
  show "decode_catalog includeRange (encode_catalog includeRange x @ rest) = Some (x, rest)" if "catalog_ok includeRange x" for x rest
    using that by (cases includeRange)
      (simp_all add: decode_catalog_def encode_catalog_def catalog_ok_def footer_simps CatalogEntry.equality)
  show "catalog_ok includeRange x" if "decode_catalog includeRange r = Some (x, rest)" for r x rest
    using that by (auto simp: decode_catalog_def catalog_ok_def dest!: get_name_bound split: bind_splits if_splits)
qed (simp_all add: encode_catalog_def put_string16_def catalog_least_def)

lemma unat_zero_iff [simp]: "n < 2 ^ 16 \<Longrightarrow> (word_of_nat n :: u16) = 0 \<longleftrightarrow> n = 0"
  using unat_small(1) [of n] by (simp flip: unat_eq_zero)

lemma decode_const_list_put:
  assumes "list_all const_ok xs" and "length xs < 2 ^ 16"
    and "length (concat (map encode_const xs) @ rest) \<le> L" and "L < 2 ^ 32"
  shows "decode_const_list L (PutUint16 (word_of_nat (length xs)) @ concat (map encode_const xs) @ rest) = Some (xs, rest)"
proof -
  have "unat (ucast (word_of_nat (length xs) :: u16) :: u64) = length xs" using assms(2) by (simp add: unat_ucast_small)
  note const.count_fits_put [OF assms(3,4) this] const.read_n_put [OF assms(1,3,4)]
  then show ?thesis using assms(2) by (simp add: decode_const_list_def footer_simps word_gt_0)
qed

lemma decode_chunk_list_put:
  assumes "list_all chunk_ok xs" and "length xs < 2 ^ 32"
    and "length (concat (map encode_chunk xs) @ rest) \<le> L" and "L < 2 ^ 32"
  shows "decode_chunk_list L (PutUint32 (word_of_nat (length xs)) @ concat (map encode_chunk xs) @ rest) = Some (xs, rest)"
proof -
  have "unat (ucast (word_of_nat (length xs) :: u32) :: u64) = length xs" using assms(2) by (simp add: unat_ucast_small)
  note chunks.count_fits_put [OF assms(3,4) this] chunks.read_n_put [OF assms(1,3,4)]
  then show ?thesis using assms(2) by (simp add: decode_chunk_list_def footer_simps)
qed

lemma decode_lists_ok:
  "decode_const_list L r = Some (xs, rest) \<Longrightarrow> length xs < 2 ^ 16 \<and> list_all const_ok xs"
  "decode_chunk_list L r = Some (ys, rest) \<Longrightarrow> length ys < 2 ^ 32 \<and> list_all chunk_ok ys"
  using unsigned_less [of "fst (the (get16 r))", where 'a = nat] unsigned_less [of "fst (the (get32 r))", where 'a = nat]
  by (auto simp: decode_const_list_def decode_chunk_list_def dest!: const.read_n_ok chunks.read_n_ok
      split: bind_splits if_splits)

interpretation row_groups: item_codec "encode_row_group includeRange" "\<lambda>L. decode_row_group L includeRange"
  "row_group_ok includeRange" "row_group_least includeRange" for includeRange
proof unfold_locales
  show "decode_row_group L includeRange (encode_row_group includeRange x @ rest) = Some (x, rest)"
    if "row_group_ok includeRange x" "length (encode_row_group includeRange x @ rest) \<le> L" "L < 2 ^ 32" for x rest L
  proof (cases includeRange)
    case True
    with that show ?thesis
      by (simp add: decode_row_group_def encode_row_group_def row_group_ok_def footer_simps
          decode_const_list_put decode_chunk_list_put)
  next
    case False
    with that show ?thesis
      by (simp add: decode_row_group_def encode_row_group_def row_group_ok_def footer_simps
          decode_const_list_put decode_chunk_list_put RowGroupMeta.equality)
  qed
  show "row_group_ok includeRange x" if "decode_row_group L includeRange r = Some (x, rest)" for L r x rest
    using that unsigned_less [of "fst (the (get32 r))", where 'a = nat]
    by (auto simp: decode_row_group_def row_group_ok_def dest!: decode_lists_ok split: bind_splits if_splits)
qed (simp_all add: encode_row_group_def row_group_least_def)

subsection \<open>The footer\<close>

definition footer_ok :: "bool \<Rightarrow> Footer \<Rightarrow> bool" where
  "footer_ok includeRange f \<longleftrightarrow> list_all (row_group_ok includeRange) (f_RowGroups f)
     \<and> list_all (catalog_ok includeRange) (f_Catalog f)"

lemma leasts: "int (row_group_least r) = (if r then 42 + 16 else 42)" "int (catalog_least r) = (if r then 3 + 1 else 3)"
  by (simp_all add: row_group_least_def catalog_least_def)

lemma length_less_payload:
  assumes "length (footer_payload f r) < 2 ^ 32"
  shows "length (f_RowGroups f) < 2 ^ 32" "length (f_Catalog f) < 2 ^ 32"
proof -
  have le: "length (concat (map (encode_row_group r) (f_RowGroups f))) < 2 ^ 32"
    "length (concat (map (encode_catalog r) (f_Catalog f))) < 2 ^ 32"
    using assms by (simp_all add: footer_payload_def)
  have "1 * length (f_RowGroups f) \<le> row_group_least r * length (f_RowGroups f)"
    "1 * length (f_Catalog f) \<le> catalog_least r * length (f_Catalog f)"
    by (intro mult_right_mono; simp add: row_group_least_def catalog_least_def)+
  with le row_groups.length_concat_least [of r "f_RowGroups f"] catalog.length_concat_least [of r "f_Catalog f"]
  show "length (f_RowGroups f) < 2 ^ 32" "length (f_Catalog f) < 2 ^ 32" by linarith+
qed

lemma decode_payload_put:
  assumes ok: "footer_ok r f" and small: "length (footer_payload f r) < 2 ^ 32"
  shows "decode_payload (footerCapsSummary (f_RequiredCaps f) (f_OptionalCaps f)) r (footer_payload f r) = Some f"
proof -
  let ?L = "length (footer_payload f r)"
  let ?tail = "PutUint64 (f_InvertedOffset f) @ PutUint64 (f_InvertedLength f)
     @ PutUint64 (f_PrimaryIndexOffset f) @ PutUint64 (f_PrimaryIndexLength f) @ []"
  let ?cats = "concat (map (encode_catalog r) (f_Catalog f)) @ ?tail"
  let ?rgs = "concat (map (encode_row_group r) (f_RowGroups f)) @ ?cats"
  note n = length_less_payload [OF small]
  have len: "length ?rgs \<le> ?L" "length ?cats \<le> ?L" by (simp_all add: footer_payload_def)
  have u: "unat (ucast (word_of_nat (length (f_RowGroups f)) :: u32) :: u64) = length (f_RowGroups f)"
    "unat (ucast (word_of_nat (length (f_Catalog f)) :: u32) :: u64) = length (f_Catalog f)"
    using n by (simp_all add: unat_ucast_small)
  note rgs = row_groups.count_fits_put [OF len(1) small u(1)] row_groups.read_n_put [OF _ len(1) small]
  note cats = catalog.count_fits_put [OF len(2) small u(2)] catalog.read_n_put [OF _ len(2) small]
  have "count_fits ?L (ucast (word_of_nat (length (f_Catalog f)) :: u32)) (int (catalog_least r)) ?rgs"
    using cats(1) len small catalog.least_pos catalog.least_small
    by (simp add: count_fits_iff) (meson div_le_mono le_add2 order_trans)
  with rgs cats ok n show ?thesis
    by (cases r) (simp_all add: decode_payload_def footer_payload_def footer_ok_def footer_simps get_bytes_def
        LSG_FOOTER_MAGIC_def leasts Let_def)
qed

lemma decode_payload_ok: "decode_payload c r p = Some f \<Longrightarrow> footer_ok r f"
  by (auto simp: decode_payload_def footer_ok_def Let_def dest!: row_groups.read_n_ok catalog.read_n_ok
      split: bind_splits if_splits)

subsection \<open>Files\<close>

lemma decode_framed:
  assumes "length S = 4" and "length C = 4" and "length K = 4" and "unat (Uint32 S) = length P"
  shows "decodeFooterWithLayout (pre @ P @ S @ C @ K) r =
    (if ChecksumIEEE (P @ S @ C) \<noteq> Uint32 K then Inl ErrChecksumMismatch
     else case decode_payload (Uint32 C) r P of None \<Rightarrow> Inl ErrCorruptSegment | Some f \<Rightarrow> Inr f)"
proof -
  define d t where "d = pre @ P @ S @ C @ K" and "t = length pre + length P"
  have len: "length d = t + 12" using assms by (simp add: d_def t_def)
  moreover have "slice d t (t + 4) = S" "slice d (t + 4) (t + 8) = C" "drop (t + 8) d = K"
    "slice d (length pre) (t + 8) = P @ S @ C" "slice d (length pre) t = P"
    using assms by (simp_all add: slice_def d_def t_def)
  moreover have "t + 12 - (length P + 12) = length pre" "length pre + length P = t" "length P \<le> t" by (simp_all add: t_def)
  ultimately have "decodeFooterWithLayout d r =
    (if ChecksumIEEE (P @ S @ C) \<noteq> Uint32 K then Inl ErrChecksumMismatch
     else case decode_payload (Uint32 C) r P of None \<Rightarrow> Inl ErrCorruptSegment | Some f \<Rightarrow> Inr f)"
    using assms(4) by (simp add: decodeFooterWithLayout_def LSG_FOOTER_TRAILER_SIZE_def Let_def add.commute [of 8])
  then show ?thesis by (simp add: d_def)
qed

lemma decode_encoded:
  assumes "length (footer_payload f r) < 2 ^ 32"
  shows "decodeFooterWithLayout (pre @ encodeFooterWithLayout f r) r =
    (case decode_payload (footerCapsSummary (f_RequiredCaps f) (f_OptionalCaps f)) r (footer_payload f r) of
       None \<Rightarrow> Inl ErrCorruptSegment | Some f' \<Rightarrow> Inr f')"
  using assms
    decode_framed [of "PutUint32 (word_of_nat (length (footer_payload f r)))"
      "PutUint32 (footerCapsSummary (f_RequiredCaps f) (f_OptionalCaps f))"
      "PutUint32 (ChecksumIEEE (footer_payload f r @ PutUint32 (word_of_nat (length (footer_payload f r)))
         @ PutUint32 (footerCapsSummary (f_RequiredCaps f) (f_OptionalCaps f))))" "footer_payload f r" pre r]
  by (simp add: encodeFooterWithLayout_def Let_def)

lemma or_closed: "a \<in> {0, k} \<Longrightarrow> b \<in> {0, k} \<Longrightarrow> a OR b \<in> {0, k}" for a b k :: u64
  by auto

lemma known_caps:
  assumes "\<forall>rg \<in> set rgs. rg_RequiredCapabilities rg = requiredCapsForRowGroup rg"
    and "aggregateCapabilities rgs = (required, optional)"
  shows "required AND NOT LSG_REQUIRED_CAPS_KNOWN = 0" "optional AND NOT LSG_OPTIONAL_CAPS_KNOWN = 0"
proof -
  let ?R = "{0, CapBit_ColumnZSTD}" and ?O = "{0, CapBit_RangeBSI}"
  have rg: "requiredCapsForRowGroup rg \<in> ?R" for rg
    unfolding requiredCapsForRowGroup_def
    by (rule foldl_inv [where P = "\<lambda>c. c \<in> ?R"]) (auto simp: requiredCapsForCompression_def)
  have "aggregateCapabilities rgs \<in> ?R \<times> ?O"
    unfolding aggregateCapabilities_def
  proof (rule foldl_inv [where P = "\<lambda>c. c \<in> ?R \<times> ?O"], goal_cases)
    case (2 a x)
    then obtain c d where a: "a = (c, d)" "c \<in> ?R" "d \<in> ?O" by blast
    have "c OR rg_RequiredCapabilities x \<in> ?R" using a(2) rg [of x] assms(1) 2(1) by (intro or_closed) simp_all
    moreover have "(if 16 < sint (rg_PerColumnRangeLength x) then d OR CapBit_RangeBSI else d) \<in> ?O"
      using a(3) or_closed [of d CapBit_RangeBSI CapBit_RangeBSI] by simp
    ultimately show ?case unfolding a(1) case_prod_conv by (rule SigmaI)
  qed simp
  then show "required AND NOT LSG_REQUIRED_CAPS_KNOWN = 0" "optional AND NOT LSG_OPTIONAL_CAPS_KNOWN = 0"
    using assms(2) by (auto simp: lsg_defs)
qed

lemma length_makeHeader: "length (makeHeader major a b) = 24"
  by (simp add: makeHeader_def MagicForMajor_def Let_def)

lemma validate_makeHeader:
  assumes "major \<in> {LSG_FORMAT_MAJOR_V1, LSG_FORMAT_MAJOR_V2}"
    and "a AND NOT LSG_REQUIRED_CAPS_KNOWN = 0" and "b AND NOT LSG_OPTIONAL_CAPS_KNOWN = 0"
  shows "validateHeader (makeHeader major a b @ rest) = Inr \<lparr>hd_major = major, hd_requiredCaps = a, hd_optionalCaps = b\<rparr>"
proof -
  have h: "makeHeader major a b @ rest = [0x4C, 0x53, 0x47, 0x30 + ucast major] @ PutUint16 major @ [0, 0]
      @ PutUint64 a @ PutUint64 b @ rest"
    using assms(1) by (auto simp: makeHeader_def MagicForMajor_def lsg_defs)
  have "slice (makeHeader major a b @ rest) 4 6 = PutUint16 major" "slice (makeHeader major a b @ rest) 8 16 = PutUint64 a"
    "slice (makeHeader major a b @ rest) 16 24 = PutUint64 b" "(makeHeader major a b @ rest) ! 6 = 0"
    "(makeHeader major a b @ rest) ! 7 = 0"
    unfolding h by (simp_all add: slice_def drop_Cons' nth_append nth_Cons')
  moreover have "magicMajor (slice (makeHeader major a b @ rest) 0 4) = Some major"
    unfolding h using assms(1) by (auto simp: magicMajor_def lsg_defs)
  ultimately show ?thesis using assms by (auto simp: validateHeader_def lsg_defs Let_def)
qed

lemma footer_roundtrip_helper:
  assumes "length (footer_payload f r) < 2 ^ 32" and "footer_ok r f"
  shows "decodeFooterWithLayout (pre @ encodeFooterWithLayout f r) r = Inr f"
  by (simp add: decode_encoded [OF assms(1)] decode_payload_put [OF assms(2,1)])

subsection \<open>Properties\<close>

text \<open>
  (C4) The footer round trip, exactly: at the end of any file, the footer that was encoded is what
  the decoder returns if and only if it fits the format: column names of at most 1024 bytes, zone
  map bounds and constants shorter than 64 KiB, at most 65535 constant columns, 32-bit row counts,
  and no range index in the layout that has no place for it. The encoder does not check any of
  these: it truncates the length fields, and such a footer is never read back.
\<close>

theorem footer_roundtrip:
  assumes "length (footer_payload f includeRange) < 2 ^ 32"
  shows "decodeFooterWithLayout (pre @ encodeFooterWithLayout f includeRange) includeRange = Inr f
    \<longleftrightarrow> footer_ok includeRange f"
  using footer_roundtrip_helper [OF assms] decode_encoded [OF assms] decode_payload_ok by (auto split: option.splits)

definition example_footer :: Footer where
  "example_footer = \<lparr>f_EventCount = 2, f_RequiredCaps = 0, f_OptionalCaps = 0,
     f_RowGroups = [\<lparr>rg_RowCount = 2, rg_ColumnPresenceBits = 3,
       rg_ConstColumns = [\<lparr>cc_Name = [104], cc_EncodingType = 1, cc_Value = [97, 98]\<rparr>],
       rg_Columns = [\<lparr>cm_Name = [120], cm_EncodingType = 1, cm_Compression = 0, cm_Offset = 24, cm_Length = 9,
         cm_RawSize = 9, cm_CRC32 = 77, cm_MinValue = [49], cm_MaxValue = [50], cm_Count = 2, cm_NullCount = 0\<rparr>],
       rg_PerColumnBloomOffset = 0, rg_PerColumnBloomLength = 0, rg_PerColumnRangeOffset = 0,
       rg_PerColumnRangeLength = 0, rg_RequiredCapabilities = 0\<rparr>],
     f_Catalog = [\<lparr>ct_Name = [104], ct_DominantType = 2, ct_IndexProfile = 0\<rparr>],
     f_InvertedOffset = 0, f_InvertedLength = 0, f_PrimaryIndexOffset = 0, f_PrimaryIndexLength = 0\<rparr>"

lemmas footer_ok_defs = footer_ok_def row_group_ok_def const_ok_def chunk_ok_def catalog_ok_def
lemmas footer_encode_defs = footer_payload_def encode_row_group_def encode_const_def encode_chunk_def
  encode_catalog_def put_string16_def LSG_FOOTER_MAGIC_def

theorem footer_roundtrip_witness:
  "decodeFooterWithLayout ([1, 2, 3] @ encodeFooterWithLayout example_footer True) True = Inr example_footer"
  using footer_roundtrip [of example_footer True "[1, 2, 3]"]
  by (simp add: example_footer_def footer_ok_defs footer_encode_defs)

text \<open>The index of the columns: a later entry of the same name replaces an earlier one.\<close>

lemma column_index_Some:
  "column_index n cats m name = Some i \<longleftrightarrow>
     (\<exists>l < length cats. i = n + l \<and> ct_Name (cats ! l) = name \<and> name \<notin> ct_Name ` set (drop (Suc l) cats)) \<or>
     m name = Some i \<and> name \<notin> ct_Name ` set cats"
  by (induction cats arbitrary: n m) (auto simp: Ex_less_Suc2)

lemma set_drop_nth: "set (drop k xs) = {xs ! j |j. k \<le> j \<and> j < length xs}"
proof -
  have "xs ! j \<in> set (drop k xs)" if "k \<le> j" "j < length xs" for j
    using that nth_mem [of "j - k" "drop k xs"] by simp
  then show ?thesis by (fastforce simp: in_set_conv_nth)
qed

lemma column_index_last:
  "column_index 0 cats Map.empty name = Some i \<longleftrightarrow>
     i < length cats \<and> ct_Name (cats ! i) = name \<and> (\<forall>j. i < j \<and> j < length cats \<longrightarrow> ct_Name (cats ! j) \<noteq> name)"
  by (auto simp: column_index_Some set_drop_nth Suc_le_eq image_iff)

text \<open>
  (C29) A segment file opens: a file that starts with the header the writer patches in and ends with
  the footer it wrote, both carrying the aggregated capabilities of the row groups, is opened with
  exactly that footer, in both format versions and whatever lies between, and its column index gives
  the position of the last catalog entry of a name, and none for a name that is not in the catalog.
\<close>

theorem segment_opens:
  assumes "major \<in> {LSG_FORMAT_MAJOR_V1, LSG_FORMAT_MAJOR_V2}"
    and "footer_ok (major = LSG_FORMAT_MAJOR_V2) f" and "length (footer_payload f (major = LSG_FORMAT_MAJOR_V2)) < 2 ^ 32"
    and "\<forall>rg \<in> set (f_RowGroups f). rg_RequiredCapabilities rg = requiredCapsForRowGroup rg"
    and "aggregateCapabilities (f_RowGroups f) = (f_RequiredCaps f, f_OptionalCaps f)"
    and "LSG_HEADER_SIZE \<le> length body"
  shows "\<exists>r. OpenSegment (patchHeader (body @ encodeFooterForMajor f major) major (f_RequiredCaps f) (f_OptionalCaps f)) = Inr r
    \<and> rd_footer r = f \<and> rd_major r = major \<and>
    (\<forall>name i. rd_columnIndex r name = Some i \<longleftrightarrow> i < length (f_Catalog f) \<and> ct_Name (f_Catalog f ! i) = name \<and>
       (\<forall>j. i < j \<and> j < length (f_Catalog f) \<longrightarrow> ct_Name (f_Catalog f ! j) \<noteq> name))"
proof -
  let ?layout = "major = LSG_FORMAT_MAJOR_V2"
  let ?h = "makeHeader major (f_RequiredCaps f) (f_OptionalCaps f)"
  have enc: "encodeFooterForMajor f major = encodeFooterWithLayout f ?layout"
    using assms(1) by (auto simp: encodeFooterForMajor_def encodeFooterV1_def encodeFooterV2_def lsg_defs)
  have img: "patchHeader (body @ encodeFooterForMajor f major) major (f_RequiredCaps f) (f_OptionalCaps f)
      = (?h @ drop LSG_HEADER_SIZE body) @ encodeFooterWithLayout f ?layout"
    using assms(6) by (simp add: patchHeader_def enc)
  have "decodeFooterWithLayout ((?h @ drop LSG_HEADER_SIZE body) @ encodeFooterWithLayout f ?layout) ?layout = Inr f"
    using footer_roundtrip_helper [OF assms(3,2)] by blast
  then have "decodeFooterForMajor ((?h @ drop LSG_HEADER_SIZE body) @ encodeFooterWithLayout f ?layout) major = Inr f"
    using assms(1) by (auto simp: decodeFooterForMajor_def decodeFooterV1_def decodeFooterV2_def lsg_defs)
  then show ?thesis
    using validate_makeHeader [OF assms(1) known_caps [OF assms(4,5)], of "drop LSG_HEADER_SIZE body @ encodeFooterWithLayout f ?layout"]
      assms(1)
    unfolding img
    by (auto simp: OpenSegment_def openWithFooterMajor_def length_makeHeader encodeFooterWithLayout_def footer_payload_def Let_def
        lsg_defs column_index_last)
qed

theorem segment_opens_witness:
  "\<exists>r. OpenSegment (patchHeader (replicate 24 0 @ encodeFooterForMajor example_footer 2) 2 0 0) = Inr r
     \<and> rd_footer r = example_footer \<and> rd_major r = 2 \<and> rd_columnIndex r [104] = Some 0"
  using segment_opens [of 2 example_footer "replicate 24 0"]
  by (auto simp: example_footer_def footer_ok_defs footer_encode_defs lsg_defs aggregateCapabilities_def
      requiredCapsForRowGroup_def requiredCapsForCompression_def)

text \<open>
  Damage to the footer is noticed: a file whose footer differs in one byte of the payload, or of
  the capability summary, is rejected with a checksum mismatch.
\<close>

theorem footer_corruption_detected:
  assumes "length (footer_payload f r) < 2 ^ 32"
    and "i < length (footer_payload f r) \<or> i - length (footer_payload f r) \<in> {4..<8}"
    and "b \<noteq> encodeFooterWithLayout f r ! i"
  shows "decodeFooterWithLayout (pre @ (encodeFooterWithLayout f r)[i := b]) r = Inl ErrChecksumMismatch"
proof -
  define P where "P = footer_payload f r"
  define S where "S = PutUint32 (word_of_nat (length P))"
  define C where "C = PutUint32 (footerCapsSummary (f_RequiredCaps f) (f_OptionalCaps f))"
  define K where "K = PutUint32 (ChecksumIEEE (P @ S @ C))"
  have enc: "encodeFooterWithLayout f r = (P @ S @ C) @ K"
    by (simp add: encodeFooterWithLayout_def P_def S_def C_def K_def Let_def)
  have i: "i < length (P @ S @ C)" "i < length P \<or> length P + 4 \<le> i"
    using assms(2) by (auto simp: P_def S_def C_def)
  have "((P @ S @ C) @ K) ! i = (P @ S @ C) ! i" using i(1) by (rule nth_append_left)
  with assms(3) have ne: "b \<noteq> (P @ S @ C) ! i" by (simp add: enc)
  have S: "unat (Uint32 S) = length P" using assms(1) by (simp add: S_def P_def)
  obtain P' C' where upd: "(P @ S @ C)[i := b] = P' @ S @ C'" "length P' = length P" "length C' = 4"
  proof (cases "i < length P")
    case True
    then show ?thesis using that [of "P[i := b]" C] by (simp add: list_update_append C_def)
  next
    case False
    with i(2) have "\<not> i < length P" "\<not> i - length P < length S" by (auto simp: S_def)
    then show ?thesis using that [of P "C[i - length P - length S := b]"] by (simp only: list_update_append if_False) (simp add: C_def)
  qed
  have "decodeFooterWithLayout (pre @ P' @ S @ C' @ K) r = Inl ErrChecksumMismatch"
    using decode_framed [of S C' K P' pre r] S upd(2,3) ChecksumIEEE_update [OF i(1) ne]
    unfolding upd(1) by (simp add: S_def K_def)
  moreover have "((P @ S @ C) @ K)[i := b] = (P' @ S @ C') @ K"
    using i(1) upd(1) by (simp only: list_update_append if_True)
  ultimately show ?thesis by (simp add: enc)
qed

theorem footer_corruption_detected_witness:
  "decodeFooterWithLayout ([] @ (encodeFooterWithLayout example_footer True)[0 := 7]) True = Inl ErrChecksumMismatch"
  by (rule footer_corruption_detected)
     (simp_all add: example_footer_def footer_encode_defs encodeFooterWithLayout_def nth_append Let_def)

end
