(* ===== verification/Column_Encoding.thy ===== *)
theory Column_Encoding
  imports Prelude
begin

text \<open>
  \<^verbatim>\<open>src/pkg/storage/segment/column/encoding.go\<close>: the encoding tags of a column chunk, the
  errors the codecs return, and the contract of the \<open>StringEncoder\<close>, \<open>Int64Encoder\<close> and
  \<open>Float64Encoder\<close> interfaces as the locale \<open>column_encoder\<close>. The four codecs of the
  package interpret it in their own theories.
\<close>

type_synonym EncodingType = u8

definition EncodingDict8 :: EncodingType where "EncodingDict8 = 1"
definition EncodingDict16 :: EncodingType where "EncodingDict16 = 2"
definition EncodingLZ4 :: EncodingType where "EncodingLZ4 = 3"
definition EncodingDelta :: EncodingType where "EncodingDelta = 4"
definition EncodingGorilla :: EncodingType where "EncodingGorilla = 5"
definition EncodingDeltaDuration :: EncodingType where "EncodingDeltaDuration = 6"
definition EncodingMsgpackArray :: EncodingType where "EncodingMsgpackArray = 7"
definition EncodingMsgpackObject :: EncodingType where "EncodingMsgpackObject = 8"

lemmas encoding_tags =
  EncodingDict8_def EncodingDict16_def EncodingLZ4_def EncodingDelta_def EncodingGorilla_def
  EncodingDeltaDuration_def EncodingMsgpackArray_def EncodingMsgpackObject_def

text \<open>
  The package's error values. \<open>LZ4Error\<close> stands for an error of the compression library that
  a codec wraps, \<open>IndexPanic\<close> for a run-time panic of an out-of-range index.
\<close>

datatype col_error =
    ErrEmptyInput
  | ErrCorruptData
  | ErrTooManyUnique
  | ErrInvalidEncoding
  | ErrInsufficientData
  | LZ4Error
  | IndexPanic

type_synonym 'a col = "col_error + 'a"

definition maxDecodedColumnBytes :: nat where "maxDecodedColumnBytes = 2 ^ 30"

definition EncodingType_String :: "EncodingType \<Rightarrow> string" where
  "EncodingType_String e =
     (if e = EncodingDict8 then ''dict8''
      else if e = EncodingDict16 then ''dict16''
      else if e = EncodingLZ4 then ''lz4''
      else if e = EncodingDelta then ''delta''
      else if e = EncodingGorilla then ''gorilla''
      else if e = EncodingDeltaDuration then ''delta_duration''
      else if e = EncodingMsgpackArray then ''msgpack_array''
      else if e = EncodingMsgpackObject then ''msgpack_object''
      else ''unknown'')"

text \<open>
  Strings are byte slices. The string codecs store a string as a 4-byte length and its bytes,
  and read \<open>n\<close> of them back from position \<open>pos\<close> with a bounds check before each read; the
  dictionary decoder, the dictionary filter and the LZ4 decoder all run this loop.
\<close>

type_synonym gostring = bytes

definition put_string :: "gostring \<Rightarrow> bytes" where
  "put_string s = PutUint32 (word_of_nat (length s)) @ s"

definition put_strings :: "gostring list \<Rightarrow> bytes" where
  "put_strings ss = concat (map put_string ss)"

fun read_strings :: "bytes \<Rightarrow> nat \<Rightarrow> nat \<Rightarrow> (gostring list \<times> nat) col" where
  "read_strings data pos 0 = Inr ([], pos)"
| "read_strings data pos (Suc n) =
     (if pos + 4 > length data then Inl ErrCorruptData
      else let sLen = unat (Uint32 (slice data pos (pos + 4))); pos1 = pos + 4 in
        if pos1 + sLen > length data then Inl ErrCorruptData
        else (case read_strings data (pos1 + sLen) n of
                Inl e \<Rightarrow> Inl e
              | Inr (ss, pos') \<Rightarrow> Inr (slice data pos1 (pos1 + sLen) # ss, pos')))"

lemma read_strings_put:
  assumes "pos \<le> length data" and "drop pos data = put_strings ss @ rest"
    and "list_all (\<lambda>s. length s < 2 ^ 32) ss"
  shows "read_strings data pos (length ss) = Inr (ss, pos + length (put_strings ss))"
  using assms
proof (induction ss arbitrary: pos)
  case Nil
  then show ?case by (simp add: put_strings_def)
next
  case (Cons s ss)
  let ?h = "PutUint32 (word_of_nat (length s))"
  have d1: "drop pos data = ?h @ (s @ put_strings ss @ rest)"
    using Cons.prems(2) by (simp add: put_strings_def put_string_def)
  from drop_of_drop [OF d1] have d2: "drop (pos + 4) data = s @ (put_strings ss @ rest)" by simp
  from drop_of_drop [OF d2] have d3: "drop (pos + 4 + length s) data = put_strings ss @ rest" .
  have len: "length data = pos + 4 + length s + length (put_strings ss @ rest)"
    using length_of_drop [OF d1 Cons.prems(1)] by simp
  have "unat (Uint32 (slice data pos (pos + 4))) = length s"
    using slice_of_drop [OF d1] Cons.prems(3) by (simp add: unat_of_nat)
  moreover have "read_strings data (pos + 4 + length s) (length ss) =
      Inr (ss, pos + 4 + length s + length (put_strings ss))"
    using Cons.IH [OF _ d3] Cons.prems(3) len by simp
  ultimately show ?case
    using len slice_of_drop [OF d2] by (simp add: Let_def put_strings_def put_string_def)
qed

lemma length_put_strings: "4 * length ss \<le> length (put_strings ss)"
  by (induction ss) (auto simp: put_strings_def put_string_def)

text \<open>
  What a segment writer and reader rely on: an encoder refuses the empty column, accepts every
  representable one, and the decoder gives the column back.
\<close>

locale column_encoder =
  fixes encode :: "'v list \<Rightarrow> bytes col"
    and decode :: "bytes \<Rightarrow> 'v list col"
    and representable :: "'v list \<Rightarrow> bool"
  assumes encode_empty: "encode [] = Inl ErrEmptyInput"
    and encode_total: "vs \<noteq> [] \<Longrightarrow> representable vs \<Longrightarrow> \<exists>d. encode vs = Inr d"
    and decode_encode: "representable vs \<Longrightarrow> encode vs = Inr d \<Longrightarrow> decode d = Inr vs"
begin

lemma roundtrip:
  assumes "vs \<noteq> []" and "representable vs"
  shows "\<exists>d. encode vs = Inr d \<and> decode d = Inr vs"
proof -
  from encode_total [OF assms] obtain d where "encode vs = Inr d" by blast
  with decode_encode [OF assms(2)] show ?thesis by blast
qed

lemma encode_inj:
  assumes "representable us" and "representable vs" and "encode us = Inr d" and "encode vs = Inr d"
  shows "us = vs"
  using decode_encode [OF assms(1,3)] decode_encode [OF assms(2,4)] by simp

text \<open>A row group's columns, written one after the other and read back chunk by chunk.\<close>

lemma roundtrip_columns:
  assumes "list_all (\<lambda>vs. vs \<noteq> [] \<and> representable vs) cols"
  shows "\<exists>chunks. map encode cols = map Inr chunks \<and> map decode chunks = map Inr cols"
  using assms
proof (induction cols)
  case Nil
  show ?case by simp
next
  case (Cons vs cols)
  then obtain chunks where ch: "map encode cols = map Inr chunks" "map decode chunks = map Inr cols"
    by auto
  from Cons.prems obtain d where "encode vs = Inr d" "decode d = Inr vs"
    using roundtrip by (auto simp: list_all_iff)
  with ch show ?case by (intro exI [of _ "d # chunks"]) simp
qed

end

end
