(* ===== verification/Dict_Codec.thy ===== *)
theory Dict_Codec
  imports Column_Encoding Roaring
begin

text \<open>
  \<^verbatim>\<open>src/pkg/storage/segment/column/dict.go\<close> and \<^verbatim>\<open>dict_filter.go\<close>: dictionary encoding of
  low-cardinality string columns, and the equality filter that compares dictionary codes
  instead of strings. Wire format: tag, 4-byte row count, 4-byte dictionary size, the
  length-prefixed dictionary, then one 8-bit or 16-bit code per row.
\<close>

subsection \<open>Encoder\<close>

text \<open>The first loop of \<open>EncodeStrings\<close>: the dictionary map and the values in first-seen order.\<close>

fun dict_build ::
  "(gostring \<rightharpoonup> nat) \<Rightarrow> gostring list \<Rightarrow> gostring list \<Rightarrow> (gostring \<rightharpoonup> nat) \<times> gostring list"
where
  "dict_build dict order [] = (dict, order)"
| "dict_build dict order (v # vs) =
     (if dict v = None then dict_build (dict(v \<mapsto> length order)) (order @ [v]) vs
      else dict_build dict order vs)"

text \<open>A Go map read: the zero value for a missing key.\<close>

definition map_index :: "(gostring \<rightharpoonup> nat) \<Rightarrow> gostring \<Rightarrow> nat" where
  "map_index m k = (case m k of None \<Rightarrow> 0 | Some i \<Rightarrow> i)"

definition put_indices8 :: "(gostring \<rightharpoonup> nat) \<Rightarrow> gostring list \<Rightarrow> bytes" where
  "put_indices8 dict vals = map (\<lambda>v. word_of_nat (map_index dict v)) vals"

definition put_indices16 :: "(gostring \<rightharpoonup> nat) \<Rightarrow> gostring list \<Rightarrow> bytes" where
  "put_indices16 dict vals =
     concat (map (\<lambda>v. PutUint16 (word_of_nat (map_index dict v))) vals)"

definition Dict_EncodeStrings :: "gostring list \<Rightarrow> bytes col" where
  "Dict_EncodeStrings vals =
     (if vals = [] then Inl ErrEmptyInput
      else case dict_build Map.empty [] vals of
        (dict, order) \<Rightarrow>
          if length order > 65536 then Inl ErrTooManyUnique
          else let use8bit = length order \<le> 256;
                   encType = (if use8bit then EncodingDict8 else EncodingDict16)
            in Inr (encType # PutUint32 (word_of_nat (length vals))
                 @ PutUint32 (word_of_nat (length order)) @ put_strings order
                 @ (if use8bit then put_indices8 dict vals else put_indices16 dict vals)))"

subsection \<open>Decoder\<close>

fun dict_lookups8 :: "bytes \<Rightarrow> nat \<Rightarrow> gostring list \<Rightarrow> nat \<Rightarrow> gostring list col" where
  "dict_lookups8 data pos dict 0 = Inr []"
| "dict_lookups8 data pos dict (Suc n) =
     (let idx = unat (data ! pos) in
        if idx \<ge> length dict then Inl ErrCorruptData
        else (case dict_lookups8 data (pos + 1) dict n of
                Inl e \<Rightarrow> Inl e | Inr vs \<Rightarrow> Inr (dict ! idx # vs)))"

fun dict_lookups16 :: "bytes \<Rightarrow> nat \<Rightarrow> gostring list \<Rightarrow> nat \<Rightarrow> gostring list col" where
  "dict_lookups16 data pos dict 0 = Inr []"
| "dict_lookups16 data pos dict (Suc n) =
     (let idx = unat (Uint16 (slice data pos (pos + 2))) in
        if idx \<ge> length dict then Inl ErrCorruptData
        else (case dict_lookups16 data (pos + 2) dict n of
                Inl e \<Rightarrow> Inl e | Inr vs \<Rightarrow> Inr (dict ! idx # vs)))"

definition Dict_DecodeStrings :: "bytes \<Rightarrow> gostring list col" where
  "Dict_DecodeStrings data =
     (if length data < 9 then Inl ErrCorruptData
      else let encType = data ! 0 in
        if encType \<noteq> EncodingDict8 \<and> encType \<noteq> EncodingDict16 then Inl ErrInvalidEncoding
        else let count = unat (Uint32 (slice data 1 5)); dictSize = unat (Uint32 (slice data 5 9)) in
          if dictSize > length data div 4 \<or> count > length data then Inl ErrCorruptData
          else (case read_strings data 9 dictSize of
                  Inl e \<Rightarrow> Inl e
                | Inr (dict, pos) \<Rightarrow>
                    if encType = EncodingDict8 then
                      (if pos + count > length data then Inl ErrCorruptData
                       else dict_lookups8 data pos dict count)
                    else
                      (if pos + count * 2 > length data then Inl ErrCorruptData
                       else dict_lookups16 data pos dict count)))"

subsection \<open>The dictionary filter\<close>

record DictFilter =
  df_dict :: "gostring list"
  df_dictMap :: "gostring \<rightharpoonup> nat"
  df_indices :: "nat list"
  df_use8bit :: bool
  df_count :: nat

fun filter_indices8 :: "bytes \<Rightarrow> nat \<Rightarrow> nat \<Rightarrow> nat list col" where
  "filter_indices8 data pos 0 = Inr []"
| "filter_indices8 data pos (Suc n) =
     (if pos \<ge> length data then Inl ErrCorruptData
      else (case filter_indices8 data (pos + 1) n of
              Inl e \<Rightarrow> Inl e | Inr is \<Rightarrow> Inr (unat (data ! pos) # is)))"

fun filter_indices16 :: "bytes \<Rightarrow> nat \<Rightarrow> nat \<Rightarrow> nat list col" where
  "filter_indices16 data pos 0 = Inr []"
| "filter_indices16 data pos (Suc n) =
     (if pos + 2 > length data then Inl ErrCorruptData
      else (case filter_indices16 data (pos + 2) n of
              Inl e \<Rightarrow> Inl e | Inr is \<Rightarrow> Inr (unat (Uint16 (slice data pos (pos + 2))) # is)))"

text \<open>The reverse index: \<^verbatim>\<open>for i, d := range dict { dictMap[d] = i }\<close>.\<close>

fun build_dictMap :: "nat \<Rightarrow> gostring list \<Rightarrow> (gostring \<rightharpoonup> nat) \<Rightarrow> (gostring \<rightharpoonup> nat)" where
  "build_dictMap i [] m = m"
| "build_dictMap i (d # ds) m = build_dictMap (Suc i) ds (m(d \<mapsto> i))"

definition NewDictFilterFromEncoded :: "bytes \<Rightarrow> DictFilter col" where
  "NewDictFilterFromEncoded data =
     (if length data < 9 then Inl ErrCorruptData
      else let encType = data ! 0; use8bit = (encType = EncodingDict8) in
        if encType \<noteq> EncodingDict8 \<and> encType \<noteq> EncodingDict16 then Inl ErrInvalidEncoding
        else let count = unat (Uint32 (slice data 1 5)); dictSize = unat (Uint32 (slice data 5 9)) in
          (case read_strings data 9 dictSize of
             Inl e \<Rightarrow> Inl e
           | Inr (dict, pos) \<Rightarrow>
               (case (if use8bit then filter_indices8 data pos count
                      else filter_indices16 data pos count) of
                  Inl e \<Rightarrow> Inl e
                | Inr indices \<Rightarrow>
                    Inr \<lparr>df_dict = dict, df_dictMap = build_dictMap 0 dict Map.empty,
                         df_indices = indices, df_use8bit = use8bit, df_count = count\<rparr>)))"

definition FilterEquality :: "'b roaring \<Rightarrow> DictFilter \<Rightarrow> gostring \<Rightarrow> 'b" where
  "FilterEquality R df value =
     (case df_dictMap df value of
        None \<Rightarrow> rb_new R
      | Some targetCode \<Rightarrow> add_matching R (\<lambda>idx. idx = targetCode) 0 (df_indices df) (rb_new R))"

definition FilterNotEquality :: "'b roaring \<Rightarrow> DictFilter \<Rightarrow> gostring \<Rightarrow> 'b" where
  "FilterNotEquality R df value =
     (case df_dictMap df value of
        None \<Rightarrow> rb_add_range R 0 (word_of_nat (df_count df)) (rb_new R)
      | Some targetCode \<Rightarrow> add_matching R (\<lambda>idx. idx \<noteq> targetCode) 0 (df_indices df) (rb_new R))"

definition DictFilter_DictSize :: "DictFilter \<Rightarrow> nat" where
  "DictFilter_DictSize df = length (df_dict df)"

definition DictFilter_RowCount :: "DictFilter \<Rightarrow> nat" where
  "DictFilter_RowCount df = df_count df"

definition DictFilter_ContainsValue :: "DictFilter \<Rightarrow> gostring \<Rightarrow> bool" where
  "DictFilter_ContainsValue df value \<longleftrightarrow> df_dictMap df value \<noteq> None"

subsection \<open>The dictionary invariant\<close>

text \<open>The map and the order list are inverse to each other.\<close>

definition dict_inv :: "(gostring \<rightharpoonup> nat) \<Rightarrow> gostring list \<Rightarrow> bool" where
  "dict_inv dict order \<longleftrightarrow>
     distinct order \<and> dom dict = set order \<and> (\<forall>i < length order. dict (order ! i) = Some i)"

lemma dict_inv_snoc:
  assumes "dict_inv dict order" and "dict v = None"
  shows "dict_inv (dict(v \<mapsto> length order)) (order @ [v])"
proof -
  from assms have "v \<notin> set order" by (auto simp: dict_inv_def domIff)
  with assms show ?thesis
    by (auto simp: dict_inv_def nth_append less_Suc_eq)
qed

lemma dict_build_inv:
  "dict_inv dict order \<Longrightarrow> dict_build dict order vs = (dict', order') \<Longrightarrow>
     dict_inv dict' order' \<and> set order' = set order \<union> set vs"
proof (induction vs arbitrary: dict order)
  case Nil
  then show ?case by simp
next
  case (Cons v vs)
  show ?case
  proof (cases "dict v = None")
    case True
    then have "dict_build (dict(v \<mapsto> length order)) (order @ [v]) vs = (dict', order')"
      using Cons.prems(2) by simp
    from Cons.IH [OF dict_inv_snoc [OF Cons.prems(1) True] this] show ?thesis by auto
  next
    case False
    then have "v \<in> set order" using Cons.prems(1) by (auto simp: dict_inv_def)
    with Cons.IH [OF Cons.prems(1)] Cons.prems(2) False show ?thesis by auto
  qed
qed

lemma map_index_nth:
  assumes "dict_inv dict order" and "v \<in> set order"
  shows "map_index dict v < length order" and "order ! map_index dict v = v"
    and "dict v = Some (map_index dict v)"
proof -
  from assms(2) obtain i where "i < length order" "order ! i = v" by (auto simp: in_set_conv_nth)
  with assms(1) have "dict v = Some i" by (auto simp: dict_inv_def)
  with \<open>i < length order\<close> \<open>order ! i = v\<close>
  show "map_index dict v < length order" and "order ! map_index dict v = v"
    and "dict v = Some (map_index dict v)" by (simp_all add: map_index_def)
qed

lemma build_dictMap_other: "v \<notin> set ds \<Longrightarrow> build_dictMap i ds m v = m v"
  by (induction ds arbitrary: i m) auto

lemma build_dictMap_nth:
  "distinct ds \<Longrightarrow> k < length ds \<Longrightarrow> build_dictMap i ds m (ds ! k) = Some (i + k)"
proof (induction ds arbitrary: i k m)
  case Nil
  then show ?case by simp
next
  case (Cons d ds)
  then show ?case by (cases k) (simp_all add: build_dictMap_other)
qed

lemma build_dictMap_inv:
  assumes "dict_inv dict order"
  shows "build_dictMap 0 order Map.empty = dict"
proof
  fix v
  show "build_dictMap 0 order Map.empty v = dict v"
  proof (cases "v \<in> set order")
    case True
    then obtain k where "k < length order" "order ! k = v" by (auto simp: in_set_conv_nth)
    with assms build_dictMap_nth [of order k 0 Map.empty] show ?thesis by (auto simp: dict_inv_def)
  next
    case False
    with assms have "dict v = None" by (auto simp: dict_inv_def)
    with False show ?thesis by (simp add: build_dictMap_other)
  qed
qed

subsection \<open>Reading the codes back\<close>

lemma codes8_read:
  assumes "dict_inv dict order" and "length order \<le> 256" and "set vals \<subseteq> set order"
    and "pos \<le> length data" and "drop pos data = put_indices8 dict vals @ rest"
  shows "dict_lookups8 data pos order (length vals) = Inr vals"
    and "filter_indices8 data pos (length vals) = Inr (map (map_index dict) vals)"
proof -
  have "dict_lookups8 data pos order (length vals) = Inr vals \<and>
      filter_indices8 data pos (length vals) = Inr (map (map_index dict) vals)"
    using assms(3) assms(4) assms(5)
  proof (induction vals arbitrary: pos)
    case Nil
    show ?case by simp
  next
    case (Cons v vs)
    have d: "drop pos data = [word_of_nat (map_index dict v)] @ (put_indices8 dict vs @ rest)"
      using Cons.prems by (simp add: put_indices8_def)
    note idx = map_index_nth [OF assms(1), of v]
    have b: "data ! pos = word_of_nat (map_index dict v)" using nth_of_drop d by simp
    then have u: "unat (data ! pos) = map_index dict v"
      using idx(1) Cons.prems(1) assms(2) by (simp add: unat_of_nat)
    have "pos + 1 \<le> length data"
      using length_of_drop [OF d] Cons.prems(2) by simp
    moreover have "drop (pos + 1) data = put_indices8 dict vs @ rest"
      using drop_of_drop [OF d] by simp
    ultimately show ?case
      using Cons.IH [of "pos + 1"] Cons.prems(1) idx u by (simp add: Let_def)
  qed
  then show "dict_lookups8 data pos order (length vals) = Inr vals"
    and "filter_indices8 data pos (length vals) = Inr (map (map_index dict) vals)" by simp_all
qed

lemma codes16_read:
  assumes "dict_inv dict order" and "length order \<le> 65536" and "set vals \<subseteq> set order"
    and "pos \<le> length data" and "drop pos data = put_indices16 dict vals @ rest"
  shows "dict_lookups16 data pos order (length vals) = Inr vals"
    and "filter_indices16 data pos (length vals) = Inr (map (map_index dict) vals)"
proof -
  have "dict_lookups16 data pos order (length vals) = Inr vals \<and>
      filter_indices16 data pos (length vals) = Inr (map (map_index dict) vals)"
    using assms(3) assms(4) assms(5)
  proof (induction vals arbitrary: pos)
    case Nil
    show ?case by simp
  next
    case (Cons v vs)
    let ?c = "PutUint16 (word_of_nat (map_index dict v))"
    have d: "drop pos data = ?c @ (put_indices16 dict vs @ rest)"
      using Cons.prems by (simp add: put_indices16_def)
    note idx = map_index_nth [OF assms(1), of v]
    have "slice data pos (pos + 2) = ?c" using slice_of_drop [OF d] by simp
    then have u: "unat (Uint16 (slice data pos (pos + 2))) = map_index dict v"
      using idx(1) Cons.prems(1) assms(2) by (simp add: unat_of_nat)
    have "pos + 2 \<le> length data"
      using length_of_drop [OF d] Cons.prems(2) by simp
    moreover have "drop (pos + 2) data = put_indices16 dict vs @ rest"
      using drop_of_drop [OF d] by simp
    ultimately show ?case
      using Cons.IH [of "pos + 2"] Cons.prems(1) idx u by (simp add: Let_def)
  qed
  then show "dict_lookups16 data pos order (length vals) = Inr vals"
    and "filter_indices16 data pos (length vals) = Inr (map (map_index dict) vals)" by simp_all
qed

subsection \<open>Layout of an encoded column\<close>

definition dict_representable :: "gostring list \<Rightarrow> bool" where
  "dict_representable vs \<longleftrightarrow>
     length vs < 2 ^ 32 \<and> list_all (\<lambda>s. length s < 2 ^ 32) vs \<and> card (set vs) \<le> 65536"

lemma dict_build_card:
  assumes "dict_build Map.empty [] vs = (dict, order)"
  shows "dict_inv dict order" and "set order = set vs" and "length order = card (set vs)"
proof -
  have "dict_inv Map.empty []" by (simp add: dict_inv_def)
  from dict_build_inv [OF this assms]
  show "dict_inv dict order" and "set order = set vs" by simp_all
  then show "length order = card (set vs)"
    by (metis dict_inv_def distinct_card)
qed

lemma Dict_EncodeStrings_cases:
  assumes "vs \<noteq> []"
  shows "if card (set vs) > 65536 then Dict_EncodeStrings vs = Inl ErrTooManyUnique
         else \<exists>d. Dict_EncodeStrings vs = Inr d"
proof -
  obtain dict order where b: "dict_build Map.empty [] vs = (dict, order)" by force
  from dict_build_card(3) [OF b] assms b show ?thesis
    by (simp add: Dict_EncodeStrings_def Let_def)
qed

text \<open>Where the parts of an encoded column \<open>d\<close> of \<open>vs\<close> are.\<close>

definition dict_layout :: "gostring list \<Rightarrow> bytes \<Rightarrow> (gostring \<rightharpoonup> nat) \<Rightarrow> gostring list \<Rightarrow> bool" where
  "dict_layout vs d dict order \<longleftrightarrow>
     dict_inv dict order \<and> set order = set vs \<and> length order \<le> 65536 \<and> 9 \<le> length d \<and>
     d ! 0 = (if length order \<le> 256 then EncodingDict8 else EncodingDict16) \<and>
     unat (Uint32 (slice d 1 5)) = length vs \<and>
     unat (Uint32 (slice d 5 9)) = length order \<and>
     length d = 9 + length (put_strings order)
       + (if length order \<le> 256 then length vs else 2 * length vs) \<and>
     read_strings d 9 (length order) = Inr (order, 9 + length (put_strings order)) \<and>
     drop (9 + length (put_strings order)) d =
       (if length order \<le> 256 then put_indices8 dict vs else put_indices16 dict vs) @ []"

lemma Dict_layout:
  assumes "dict_representable vs" and "Dict_EncodeStrings vs = Inr d"
  obtains dict order where "dict_layout vs d dict order"
proof -
  obtain dict order where b: "dict_build Map.empty [] vs = (dict, order)" by force
  note card = dict_build_card [OF b]
  let ?tag = "if length order \<le> 256 then EncodingDict8 else EncodingDict16"
  let ?n = "PutUint32 (word_of_nat (length vs))" and ?k = "PutUint32 (word_of_nat (length order))"
  let ?ix = "if length order \<le> 256 then put_indices8 dict vs else put_indices16 dict vs"
  have d: "d = ?tag # ?n @ ?k @ put_strings order @ ?ix"
    using assms(2) by (auto simp: Dict_EncodeStrings_def b Let_def split: if_splits)
  have len_ix: "length ?ix = (if length order \<le> 256 then length vs else 2 * length vs)"
    by (auto simp: put_indices8_def put_indices16_def length_concat o_def sum_list_triv)
  have d1: "drop 1 d = ?n @ (?k @ put_strings order @ ?ix)" by (simp add: d)
  then have d5: "drop 5 d = ?k @ (put_strings order @ ?ix)" using drop_of_drop [OF d1] by simp
  then have d9: "drop 9 d = put_strings order @ ?ix" using drop_of_drop [OF d5] by simp
  have small: "length vs < 2 ^ 32" "length order \<le> 65536" "list_all (\<lambda>s. length s < 2 ^ 32) order"
    using assms(1) card(2,3) by (simp_all add: dict_representable_def list_all_iff)
  have "unat (Uint32 (slice d 1 5)) = length vs" "unat (Uint32 (slice d 5 9)) = length order"
    using slice_of_drop [OF d1] slice_of_drop [OF d5] small by (simp_all add: unat_of_nat)
  moreover have "read_strings d 9 (length order) = Inr (order, 9 + length (put_strings order))"
    by (rule read_strings_put [OF _ d9 small(3)]) (simp add: d)
  moreover have "drop (9 + length (put_strings order)) d = ?ix @ []"
    using drop_of_drop [OF d9] by simp
  moreover have "length d = 9 + length (put_strings order) + length ?ix" "d ! 0 = ?tag"
    by (simp_all add: d)
  ultimately have "dict_layout vs d dict order"
    unfolding dict_layout_def using card small len_ix by (simp del: One_nat_def)
  then show ?thesis by (rule that)
qed

lemma dict_layoutD:
  assumes "dict_layout vs d dict order"
  shows "dict_inv dict order" "set order = set vs" "length order \<le> 65536" "9 \<le> length d"
    and "d ! 0 = (if length order \<le> 256 then EncodingDict8 else EncodingDict16)"
    and "unat (Uint32 (slice d 1 5)) = length vs" "unat (Uint32 (slice d 5 9)) = length order"
    and "length d = 9 + length (put_strings order)
           + (if length order \<le> 256 then length vs else 2 * length vs)"
    and "read_strings d 9 (length order) = Inr (order, 9 + length (put_strings order))"
  using assms unfolding dict_layout_def by blast+

lemma dict_layout_codes:
  assumes "dict_layout vs d dict order"
  shows "length order \<le> 256 \<Longrightarrow>
           dict_lookups8 d (9 + length (put_strings order)) order (length vs) = Inr vs"
    and "length order \<le> 256 \<Longrightarrow>
           filter_indices8 d (9 + length (put_strings order)) (length vs) = Inr (map (map_index dict) vs)"
    and "\<not> length order \<le> 256 \<Longrightarrow>
           dict_lookups16 d (9 + length (put_strings order)) order (length vs) = Inr vs"
    and "\<not> length order \<le> 256 \<Longrightarrow>
           filter_indices16 d (9 + length (put_strings order)) (length vs) = Inr (map (map_index dict) vs)"
  using assms codes8_read [of dict order vs "9 + length (put_strings order)" d "[]"]
    codes16_read [of dict order vs "9 + length (put_strings order)" d "[]"]
  by (simp_all add: dict_layout_def)

lemma Dict_decode_encode:
  assumes "dict_representable vs" and "Dict_EncodeStrings vs = Inr d"
  shows "Dict_DecodeStrings d = Inr vs"
proof -
  obtain dict order where L: "dict_layout vs d dict order" by (rule Dict_layout [OF assms])
  note D = dict_layoutD [OF L]
  have fits: "\<not> (length order > length d div 4 \<or> length vs > length d)"
    using D(8) length_put_strings [of order] by auto
  have "\<not> length d < 9" using D(4) by simp
  show ?thesis
  proof (cases "length order \<le> 256")
    case True
    with D(8) have "\<not> 9 + length (put_strings order) + length vs > length d" by simp
    with True fits show ?thesis
      by (simp add: Dict_DecodeStrings_def D(4-7,9) dict_layout_codes(1) [OF L True] encoding_tags
          del: One_nat_def)
  next
    case False
    with D(8) have "\<not> 9 + length (put_strings order) + length vs * 2 > length d" by simp
    with False fits show ?thesis
      by (simp add: Dict_DecodeStrings_def D(4-7,9) dict_layout_codes(3) [OF L False] encoding_tags
          del: One_nat_def)
  qed
qed

lemma DictFilter_of_encoded:
  assumes "dict_representable vs" and "Dict_EncodeStrings vs = Inr d"
  obtains dict order where "dict_inv dict order" "set order = set vs"
    "NewDictFilterFromEncoded d =
       Inr \<lparr>df_dict = order, df_dictMap = dict, df_indices = map (map_index dict) vs,
            df_use8bit = (length order \<le> 256), df_count = length vs\<rparr>"
proof -
  obtain dict order where L: "dict_layout vs d dict order" by (rule Dict_layout [OF assms])
  then have inv: "dict_inv dict order" "set order = set vs" by (simp_all add: dict_layout_def)
  have "NewDictFilterFromEncoded d =
       Inr \<lparr>df_dict = order, df_dictMap = dict, df_indices = map (map_index dict) vs,
            df_use8bit = (length order \<le> 256), df_count = length vs\<rparr>"
  proof (cases "length order \<le> 256")
    case True
    with dict_layoutD(4) [OF L] show ?thesis
      by (simp add: NewDictFilterFromEncoded_def dict_layoutD(5-7,9) [OF L] encoding_tags
          dict_layout_codes(2) [OF L True] build_dictMap_inv [OF inv(1)] del: One_nat_def)
  next
    case False
    with dict_layoutD(4) [OF L] show ?thesis
      by (simp add: NewDictFilterFromEncoded_def dict_layoutD(5-7,9) [OF L] encoding_tags
          dict_layout_codes(4) [OF L False] build_dictMap_inv [OF inv(1)] del: One_nat_def)
  qed
  with inv show ?thesis by (rule that)
qed

text \<open>Comparing codes is comparing values.\<close>

lemma map_index_eq_iff:
  assumes "dict_inv dict order" and "x \<in> set order" and "dict v = Some c"
  shows "map_index dict x = c \<longleftrightarrow> x = v"
proof -
  have v: "v \<in> set order" using assms(1,3) by (auto simp: dict_inv_def)
  then have "map_index dict v = c" using assms(3) by (simp add: map_index_def)
  then show ?thesis
    using map_index_nth(2) [OF assms(1,2)] map_index_nth(2) [OF assms(1) v] by metis
qed

interpretation dict: column_encoder Dict_EncodeStrings Dict_DecodeStrings dict_representable
proof
  show "Dict_EncodeStrings [] = Inl ErrEmptyInput" by (simp add: Dict_EncodeStrings_def)
  show "\<exists>d. Dict_EncodeStrings vs = Inr d" if "vs \<noteq> []" "dict_representable vs" for vs
    using Dict_EncodeStrings_cases [OF that(1)] that(2) by (simp add: dict_representable_def)
qed (rule Dict_decode_encode)

subsection \<open>The filter agrees with a scan of the decoded column\<close>

lemma Filter_rows:
  assumes R: "roaring_laws R" and rep: "dict_representable vs"
    and enc: "Dict_EncodeStrings vs = Inr d" and df: "NewDictFilterFromEncoded d = Inr df"
  shows "rb_contains R (FilterEquality R df v) y \<longleftrightarrow> unat y < length vs \<and> vs ! unat y = v"
    and "rb_contains R (FilterNotEquality R df v) y \<longleftrightarrow> unat y < length vs \<and> vs ! unat y \<noteq> v"
    and "DictFilter_ContainsValue df v \<longleftrightarrow> v \<in> set vs"
proof -
  obtain dict order where inv: "dict_inv dict order" "set order = set vs"
    and eq: "df = \<lparr>df_dict = order, df_dictMap = dict, df_indices = map (map_index dict) vs,
            df_use8bit = (length order \<le> 256), df_count = length vs\<rparr>"
    by (rule DictFilter_of_encoded [OF rep enc]) (use df in simp)
  have len: "length vs < 2 ^ 32" using rep by (simp add: dict_representable_def)
  have dom: "dict v = None \<longleftrightarrow> v \<notin> set vs" for v
    using inv by (auto simp: dict_inv_def domIff)
  then show "DictFilter_ContainsValue df v \<longleftrightarrow> v \<in> set vs"
    by (simp add: DictFilter_ContainsValue_def eq)
  have code: "map_index dict (vs ! i) = c \<longleftrightarrow> vs ! i = v" if "dict v = Some c" "i < length vs" for i c
    using that map_index_eq_iff [OF inv(1)] inv(2) by simp
  have cnt: "unat (word_of_nat (length vs) :: u64) = length vs"
    using len by (simp add: unat_of_nat)
  have absent: "vs ! i \<noteq> v" if "dict v = None" "i < length vs" for i
    using that dom by auto
  have scan: "rb_contains R (add_matching R p 0 (map (map_index dict) vs) (rb_new R)) y \<longleftrightarrow>
      unat y < length vs \<and> p (map_index dict (vs ! unat y))" for p
    using add_matching_new_contains [OF R, of "map (map_index dict) vs" p y] len by auto
  have eqs: "rb_contains R (FilterEquality R df v) y =
        (case dict v of None \<Rightarrow> False
         | Some c \<Rightarrow> unat y < length vs \<and> map_index dict (vs ! unat y) = c)"
      "rb_contains R (FilterNotEquality R df v) y =
        (case dict v of None \<Rightarrow> unat y < length vs
         | Some c \<Rightarrow> unat y < length vs \<and> map_index dict (vs ! unat y) \<noteq> c)"
    using scan roaring_lawsD(1,3) [OF R] cnt
    by (simp_all add: FilterEquality_def FilterNotEquality_def eq split: option.split)
  show "rb_contains R (FilterEquality R df v) y \<longleftrightarrow> unat y < length vs \<and> vs ! unat y = v"
    using code absent by (simp add: eqs split: option.split) blast
  show "rb_contains R (FilterNotEquality R df v) y \<longleftrightarrow> unat y < length vs \<and> vs ! unat y \<noteq> v"
    using code absent by (simp add: eqs split: option.split) blast
qed

subsection \<open>Properties\<close>

text \<open>
  Dictionary round trip: a non-empty string column with at most 65536 distinct values,
  fewer than 2^32 rows and strings shorter than 4 GiB is accepted by \<open>EncodeStrings\<close>, in the
  8-bit or the 16-bit layout, and \<open>DecodeStrings\<close> gives back exactly the column.
\<close>

theorem dict_column_roundtrip:
  assumes "vs \<noteq> []" and "dict_representable vs"
  shows "\<exists>d. Dict_EncodeStrings vs = Inr d \<and> Dict_DecodeStrings d = Inr vs"
  using assms by (rule dict.roundtrip)

theorem dict_column_roundtrip_witness:
  "\<exists>d. Dict_EncodeStrings [[97], [], [97], [98, 99]] = Inr d \<and>
     Dict_DecodeStrings d = Inr [[97], [], [97], [98, 99]]"
  by (rule dict_column_roundtrip) (simp_all add: dict_representable_def card_insert_if)

text \<open>
  When the dictionary encoder refuses a column: \<open>EncodeStrings\<close> fails with
  \<open>ErrTooManyUnique\<close> exactly when the column has more than 65536 distinct values, with
  \<open>ErrEmptyInput\<close> exactly on the empty column, and succeeds on every other column.
\<close>

theorem dict_encode_errors:
  "(Dict_EncodeStrings vs = Inl ErrTooManyUnique) = (65536 < card (set vs)) \<and>
   (Dict_EncodeStrings vs = Inl ErrEmptyInput) = (vs = []) \<and>
   (\<exists>d. Dict_EncodeStrings vs = Inr d) = (vs \<noteq> [] \<and> card (set vs) \<le> 65536)"
proof (cases "vs = []")
  case True
  then show ?thesis by (simp add: Dict_EncodeStrings_def)
next
  case False
  from Dict_EncodeStrings_cases [OF this] False show ?thesis
    by (cases "65536 < card (set vs)") auto
qed

text \<open>
  (C23) The dictionary filter is a scan: on the encoding of a column, \<open>NewDictFilterFromEncoded\<close>
  succeeds and the bitmap of \<open>FilterEquality\<close> for a value holds exactly the rows of the column
  with that value, the empty bitmap for a value that does not occur.
\<close>

theorem dict_filter_equality:
  assumes "roaring_laws R" and "vs \<noteq> []" and "dict_representable vs"
  shows "\<exists>d df. Dict_EncodeStrings vs = Inr d \<and> NewDictFilterFromEncoded d = Inr df \<and>
    (\<forall>v y. rb_contains R (FilterEquality R df v) y = (unat y < length vs \<and> vs ! unat y = v))"
proof -
  obtain d where d: "Dict_EncodeStrings vs = Inr d" using dict.encode_total assms(2,3) by blast
  obtain df where "NewDictFilterFromEncoded d = Inr df"
    by (rule DictFilter_of_encoded [OF assms(3) d]) blast
  with d Filter_rows(1) [OF assms(1,3) d] show ?thesis by blast
qed

theorem dict_filter_equality_witness:
  "\<exists>d df. Dict_EncodeStrings [[97], [98], [97]] = Inr d \<and> NewDictFilterFromEncoded d = Inr df \<and>
    (\<forall>v y. rb_contains set_roaring (FilterEquality set_roaring df v) y =
      (unat y < length [[97 :: u8], [98], [97]] \<and> [[97], [98], [97]] ! unat y = v))"
  by (rule dict_filter_equality [OF set_roaring_laws]) (simp_all add: dict_representable_def card_insert_if)

text \<open>
  The negated dictionary filter is the complement scan: the bitmap of \<open>FilterNotEquality\<close>
  holds exactly the rows whose value differs, all rows when the value does not occur, and no
  number beyond the last row; \<open>ContainsValue\<close> and \<open>RowCount\<close> answer as the column does.
\<close>

theorem dict_filter_inequality:
  assumes "roaring_laws R" and "vs \<noteq> []" and "dict_representable vs"
  shows "\<exists>d df. Dict_EncodeStrings vs = Inr d \<and> NewDictFilterFromEncoded d = Inr df \<and>
    DictFilter_RowCount df = length vs \<and> DictFilter_DictSize df = card (set vs) \<and>
    (\<forall>v. DictFilter_ContainsValue df v = (v \<in> set vs)) \<and>
    (\<forall>v y. rb_contains R (FilterNotEquality R df v) y = (unat y < length vs \<and> vs ! unat y \<noteq> v))"
proof -
  obtain d where d: "Dict_EncodeStrings vs = Inr d" using dict.encode_total assms(2,3) by blast
  obtain dict order where inv: "dict_inv dict order" "set order = set vs"
    and df: "NewDictFilterFromEncoded d =
       Inr \<lparr>df_dict = order, df_dictMap = dict, df_indices = map (map_index dict) vs,
            df_use8bit = (length order \<le> 256), df_count = length vs\<rparr>" (is "_ = Inr ?df")
    by (rule DictFilter_of_encoded [OF assms(3) d])
  have "DictFilter_RowCount ?df = length vs" "DictFilter_DictSize ?df = card (set vs)"
    using inv by (simp_all add: DictFilter_RowCount_def DictFilter_DictSize_def dict_inv_def
        flip: distinct_card)
  with d df Filter_rows(2,3) [OF assms(1,3) d df] show ?thesis by blast
qed

theorem dict_filter_inequality_witness:
  "\<exists>d df. Dict_EncodeStrings [[97], [98], [97]] = Inr d \<and> NewDictFilterFromEncoded d = Inr df \<and>
    DictFilter_RowCount df = length [[97 :: u8], [98], [97]] \<and>
    DictFilter_DictSize df = card (set [[97 :: u8], [98], [97]]) \<and>
    (\<forall>v. DictFilter_ContainsValue df v = (v \<in> set [[97], [98], [97]])) \<and>
    (\<forall>v y. rb_contains set_roaring (FilterNotEquality set_roaring df v) y =
      (unat y < length [[97 :: u8], [98], [97]] \<and> [[97], [98], [97]] ! unat y \<noteq> v))"
  by (rule dict_filter_inequality [OF set_roaring_laws]) (simp_all add: dict_representable_def card_insert_if)

end
