(* ===== verification/Delta_Codec.thy ===== *)
theory Delta_Codec
  imports Column_Encoding
begin

text \<open>
  \<^verbatim>\<open>src/pkg/storage/segment/column/delta.go\<close>: the delta encoder of int64 columns
  (timestamps). An int64 is its 64-bit two's complement word; subtraction and addition wrap as
  in Go. Wire format: tag, 4-byte count, 8-byte first value, then one zigzag varint per
  further value.
\<close>

definition zigzag_encode :: "u64 \<Rightarrow> u64" where
  "zigzag_encode delta = push_bit 1 delta XOR signed_drop_bit 63 delta"

definition zigzag_decode :: "u64 \<Rightarrow> u64" where
  "zigzag_decode zigzag = drop_bit 1 zigzag XOR - (zigzag AND 1)"

text \<open>The loop of \<open>EncodeInt64s\<close> over the values after the first.\<close>

fun delta_encode_loop :: "u64 \<Rightarrow> u64 list \<Rightarrow> bytes" where
  "delta_encode_loop prev [] = []"
| "delta_encode_loop prev (v # vs) =
     PutUvarint (zigzag_encode (v - prev)) @ delta_encode_loop v vs"

definition Delta_EncodeInt64s :: "u64 list \<Rightarrow> bytes col" where
  "Delta_EncodeInt64s values =
     (case values of
        [] \<Rightarrow> Inl ErrEmptyInput
      | first # rest \<Rightarrow>
          Inr (EncodingDelta # PutUint32 (word_of_nat (length values)) @ PutUint64 first
               @ delta_encode_loop first rest))"

text \<open>
  The loop of \<open>DecodeInt64s\<close>: \<open>n\<close> values are still to be read at position \<open>pos\<close>.
\<close>

fun delta_decode_loop :: "bytes \<Rightarrow> nat \<Rightarrow> u64 \<Rightarrow> nat \<Rightarrow> u64 list col" where
  "delta_decode_loop data pos prev 0 = Inr []"
| "delta_decode_loop data pos prev (Suc n) =
     (if length data \<le> pos then Inl ErrCorruptData
      else case Uvarint (drop pos data) of
        (zigzag, m) \<Rightarrow>
          if m \<le> 0 then Inl ErrCorruptData
          else let v = prev + zigzag_decode zigzag in
            (case delta_decode_loop data (pos + nat m) v n of
               Inl e \<Rightarrow> Inl e
             | Inr vs \<Rightarrow> Inr (v # vs)))"

definition Delta_DecodeInt64s :: "bytes \<Rightarrow> u64 list col" where
  "Delta_DecodeInt64s data =
     (if length data < 13 then Inl ErrCorruptData
      else if data ! 0 \<noteq> EncodingDelta then Inl ErrInvalidEncoding
      else let count = Uint32 (slice data 1 5) in
        if count = 0 then Inr []
        else if unat (count - 1) > length data - 13 then Inl ErrCorruptData
        else let first = Uint64 (slice data 5 13) in
          (case delta_decode_loop data 13 first (unat count - 1) of
             Inl e \<Rightarrow> Inl e
           | Inr vs \<Rightarrow> Inr (first # vs)))"

subsection \<open>Zigzag\<close>

lemma bit_zigzag_encode:
  "bit (zigzag_encode d) n \<longleftrightarrow> n < 64 \<and> ((0 < n \<and> bit d (n - 1)) \<noteq> bit d 63)"
  unfolding zigzag_encode_def
  by (simp only: bit_xor_iff bit_push_bit_iff bit_signed_drop_bit_iff)
     (auto simp: Suc_le_eq dest: bit_imp_le_length)

lemma bit_zigzag_decode:
  assumes "n < 64"
  shows "bit (zigzag_decode z) n \<longleftrightarrow> bit z (Suc n) \<noteq> bit z 0"
proof -
  have "- (z AND 1) = (if bit z 0 then -1 else 0)"
    by (auto simp: and_one_eq mod_2_eq_odd bit_0)
  then show ?thesis
    using assms unfolding zigzag_decode_def by (auto simp: bit_simps)
qed

lemma zigzag_roundtrip [simp]: "zigzag_decode (zigzag_encode d) = d"
proof (rule bit_word_eqI)
  fix n assume "n < LENGTH(64)"
  then consider "n = 63" | "n < 63" by fastforce
  then show "bit (zigzag_decode (zigzag_encode d)) n = bit d n"
    by cases (auto simp: bit_zigzag_decode bit_zigzag_encode)
qed

lemma zigzag_small:
  "zigzag_encode 0 = 0" "zigzag_encode (- 1) = 1" "zigzag_encode 1 = 2"
  by (simp_all add: zigzag_encode_def)

subsection \<open>Round trip and sizes\<close>

lemma length_delta_encode_loop: "length vs \<le> length (delta_encode_loop prev vs)"
proof (induction vs arbitrary: prev)
  case Nil
  show ?case by simp
next
  case (Cons v vs)
  have "0 < length (PutUvarint (zigzag_encode (v - prev)))" by (rule length_PutUvarint_pos)
  then have "1 \<le> length (PutUvarint (zigzag_encode (v - prev)))" by linarith
  with Cons.IH [of v] show ?case by simp
qed

lemma delta_decode_encode_loop:
  assumes "pos \<le> length data" and "drop pos data = delta_encode_loop prev vs @ rest"
  shows "delta_decode_loop data pos prev (length vs) = Inr vs"
  using assms
proof (induction vs arbitrary: pos prev)
  case Nil
  show ?case by simp
next
  case (Cons v vs)
  let ?u = "PutUvarint (zigzag_encode (v - prev))"
  have d: "drop pos data = ?u @ (delta_encode_loop v vs @ rest)"
    using Cons.prems(2) by simp
  note drop_of_drop [OF d] and len = length_of_drop [OF d Cons.prems(1)]
  then have "delta_decode_loop data (pos + length ?u) v (length vs) = Inr vs"
    by (intro Cons.IH) simp_all
  moreover have "\<not> length data \<le> pos" "\<not> length ?u = 0"
    using len length_PutUvarint_pos [of "zigzag_encode (v - prev)"] by simp_all
  ultimately show ?case by (simp add: d Let_def)
qed

definition delta_representable :: "u64 list \<Rightarrow> bool" where
  "delta_representable vs \<longleftrightarrow> length vs < 2 ^ 32"

lemma Delta_decode_encode:
  assumes "delta_representable vs" and "Delta_EncodeInt64s vs = Inr d"
  shows "Delta_DecodeInt64s d = Inr vs"
proof -
  from assms(2) obtain v rest where vs: "vs = v # rest"
    and d: "d = EncodingDelta # PutUint32 (word_of_nat (length vs)) @ PutUint64 v
      @ delta_encode_loop v rest"
    by (auto simp: Delta_EncodeInt64s_def split: list.splits)
  have count: "unat (word_of_nat (length vs) :: u32) = length vs"
    using assms(1) by (simp add: delta_representable_def unat_of_nat)
  then have nz: "(word_of_nat (length vs) :: u32) \<noteq> 0" using vs by auto
  have m1: "unat ((word_of_nat (length vs) :: u32) - 1) = length vs - 1"
    using count nz by (simp add: unat_minus_one)
  have c: "slice d 1 5 = PutUint32 (word_of_nat (length vs))"
    using slice_of_drop [of 1 d "PutUint32 (word_of_nat (length vs))"] by (simp add: d)
  have "drop 5 d = PutUint64 v @ delta_encode_loop v rest"
    using drop_of_drop [of 1 d "PutUint32 (word_of_nat (length vs))"] by (simp add: d)
  then have f: "slice d 5 13 = PutUint64 v" and r: "drop 13 d = delta_encode_loop v rest @ []"
    using slice_of_drop [of 5 d "PutUint64 v"] drop_of_drop [of 5 d "PutUint64 v"] by simp_all
  have len: "length d = 13 + length (delta_encode_loop v rest)" by (simp add: d)
  have "delta_decode_loop d 13 v (length rest) = Inr rest"
    by (rule delta_decode_encode_loop [OF _ r]) (simp add: len)
  moreover have "\<not> unat ((word_of_nat (length vs) :: u32) - 1) > length d - 13"
    using length_delta_encode_loop [of rest v] unfolding m1 by (simp add: len vs)
  moreover have "d ! 0 = EncodingDelta" by (simp add: d)
  moreover have "unat (word_of_nat (length vs) :: u32) - 1 = length rest"
    using count vs by simp
  ultimately show ?thesis
    using nz by (simp add: Delta_DecodeInt64s_def Let_def c f len vs [symmetric] del: One_nat_def)
qed

interpretation delta: column_encoder Delta_EncodeInt64s Delta_DecodeInt64s delta_representable
proof
  show "Delta_EncodeInt64s [] = Inl ErrEmptyInput" by (simp add: Delta_EncodeInt64s_def)
  show "\<exists>d. Delta_EncodeInt64s vs = Inr d" if "vs \<noteq> []" for vs
    using that by (simp add: Delta_EncodeInt64s_def split: list.split)
qed (rule Delta_decode_encode)

lemma length_delta_decode_loop:
  "delta_decode_loop data pos prev n = Inr vs \<Longrightarrow> length vs = n"
  by (induction data pos prev n arbitrary: vs rule: delta_decode_loop.induct)
     (auto simp: Let_def split: if_splits prod.splits sum.splits)

subsection \<open>Properties\<close>

text \<open>
  Delta round trip: every non-empty int64 column of fewer than 2^32 rows is accepted by
  \<open>EncodeInt64s\<close>, and \<open>DecodeInt64s\<close> gives back exactly the column, for arbitrary int64 values:
  the wrap-around of the differences, the zigzag step and the varint cancel out.
\<close>

theorem delta_column_roundtrip:
  assumes "vs \<noteq> []" and "delta_representable vs"
  shows "\<exists>d. Delta_EncodeInt64s vs = Inr d \<and> Delta_DecodeInt64s d = Inr vs"
  using assms by (rule delta.roundtrip)

theorem delta_column_roundtrip_witness:
  "\<exists>d. Delta_EncodeInt64s [2 ^ 63, 0, - 1, 2 ^ 63 - 1] = Inr d \<and>
     Delta_DecodeInt64s d = Inr [2 ^ 63, 0, - 1, 2 ^ 63 - 1]"
  by (rule delta_column_roundtrip) (simp_all add: delta_representable_def)

text \<open>
  Delta decoding of untrusted bytes: whatever the input, a successful decode returns exactly
  as many values as the header announces, and never more than one per payload byte plus the
  first one, so a forged count cannot make the decoder return more rows than the data can hold.
\<close>

theorem delta_decode_bounded:
  assumes "Delta_DecodeInt64s data = Inr vs"
  shows "length vs = unat (Uint32 (slice data 1 5)) \<and> length vs + 12 \<le> length data"
proof -
  define count where "count = Uint32 (slice data 1 5)"
  from assms have len: "13 \<le> length data"
    by (auto simp: Delta_DecodeInt64s_def split: if_splits)
  show ?thesis
  proof (cases "count = 0")
    case True
    with assms len show ?thesis
      by (auto simp: Delta_DecodeInt64s_def count_def split: if_splits)
  next
    case False
    then have "unat (count - 1) = unat count - 1" and pos: "0 < unat count"
      by (simp_all add: unat_minus_one unat_gt_0)
    with assms False len obtain ws where "vs = Uint64 (slice data 5 13) # ws"
      and "delta_decode_loop data 13 (Uint64 (slice data 5 13)) (unat count - 1) = Inr ws"
      and "unat count - 1 \<le> length data - 13"
      by (auto simp: Delta_DecodeInt64s_def count_def Let_def simp del: One_nat_def
          split: if_splits sum.splits)
    with length_delta_decode_loop pos len show ?thesis by (fastforce simp: count_def)
  qed
qed

theorem delta_decode_bounded_witness:
  "length [7 :: u64, 6] = unat (Uint32 (slice (4 # [2,0,0,0] @ [7,0,0,0,0,0,0,0] @ [1]) 1 5)) \<and>
   length [7 :: u64, 6] + 12 \<le> length (4 # [2,0,0,0] @ [7,0,0,0,0,0,0,0] @ [1 :: u8])"
  by (rule delta_decode_bounded) code_simp

end
