(* ===== verification/Bit_Stream.thy ===== *)
theory Bit_Stream
  imports Column_Encoding "HOL-Library.While_Combinator"
begin

text \<open>
  The bit stream of \<^verbatim>\<open>src/pkg/storage/segment/column/gorilla.go\<close>: \<open>bitWriter\<close> packs bits
  into bytes, most significant bit first, and \<open>bitReader\<close> unpacks them. Both are shown to
  implement a plain list of bits: the writer appends to it, the reader consumes it.
\<close>

subsection \<open>Writer\<close>

record bitWriter =
  bw_buf :: bytes
  bw_current :: u8
  bw_bitPos :: nat

definition newBitWriter :: bitWriter where
  "newBitWriter = \<lparr>bw_buf = [], bw_current = 0, bw_bitPos = 0\<rparr>"

definition writeBit :: "bitWriter \<Rightarrow> u8 \<Rightarrow> bitWriter" where
  "writeBit w b =
     (let current = bw_current w OR push_bit (7 - bw_bitPos w) (b AND 1);
          bitPos = bw_bitPos w + 1
      in if bitPos = 8 then w\<lparr>bw_buf := bw_buf w @ [current], bw_current := 0, bw_bitPos := 0\<rparr>
         else w\<lparr>bw_current := current, bw_bitPos := bitPos\<rparr>)"

primrec writeBits :: "bitWriter \<Rightarrow> u64 \<Rightarrow> nat \<Rightarrow> bitWriter" where
  "writeBits w v 0 = w"
| "writeBits w v (Suc i) = writeBits (writeBit w (ucast (drop_bit i v AND 1))) v i"

definition writeByte :: "bitWriter \<Rightarrow> u8 \<Rightarrow> bitWriter" where
  "writeByte w b = writeBits w (ucast b) 8"

definition writeUint32 :: "bitWriter \<Rightarrow> u32 \<Rightarrow> bitWriter" where
  "writeUint32 w v = foldl writeByte w (PutUint32 v)"

definition writeUint64 :: "bitWriter \<Rightarrow> u64 \<Rightarrow> bitWriter" where
  "writeUint64 w v = foldl writeByte w (PutUint64 v)"

definition bitWriter_bytes :: "bitWriter \<Rightarrow> bytes" where
  "bitWriter_bytes w = (if bw_bitPos w > 0 then bw_buf w @ [bw_current w] else bw_buf w)"

subsection \<open>Reader\<close>

record bitReader =
  br_data :: bytes
  br_pos :: nat
  br_bitPos :: nat

definition newBitReader :: "bytes \<Rightarrow> bitReader" where
  "newBitReader data = \<lparr>br_data = data, br_pos = 0, br_bitPos = 0\<rparr>"

text \<open>\<open>None\<close> is the error \<^verbatim>\<open>unexpected end of data\<close>.\<close>

definition readBit :: "bitReader \<Rightarrow> (u8 \<times> bitReader) option" where
  "readBit r =
     (if br_pos r \<ge> length (br_data r) then None
      else let b = drop_bit (7 - br_bitPos r) (br_data r ! br_pos r) AND 1;
               bitPos = br_bitPos r + 1
        in if bitPos = 8 then Some (b, r\<lparr>br_pos := br_pos r + 1, br_bitPos := 0\<rparr>)
           else Some (b, r\<lparr>br_bitPos := bitPos\<rparr>))"

primrec readBits_loop :: "nat \<Rightarrow> u64 \<Rightarrow> bitReader \<Rightarrow> (u64 \<times> bitReader) option" where
  "readBits_loop 0 v r = Some (v, r)"
| "readBits_loop (Suc n) v r =
     (case readBit r of
        None \<Rightarrow> None
      | Some (b, r') \<Rightarrow> readBits_loop n (push_bit 1 v OR ucast b) r')"

definition readBits :: "bitReader \<Rightarrow> nat \<Rightarrow> (u64 \<times> bitReader) option" where
  "readBits r nbits = readBits_loop nbits 0 r"

subsection \<open>Leading and trailing zeros\<close>

definition countLeadingZeros64 :: "u64 \<Rightarrow> nat" where
  "countLeadingZeros64 v =
     (if v = 0 then 64
      else fst (while (\<lambda>(n, v). v AND push_bit 63 1 = 0) (\<lambda>(n, v). (n + 1, push_bit 1 v)) (0, v)))"

definition countTrailingZeros64 :: "u64 \<Rightarrow> nat" where
  "countTrailingZeros64 v =
     (if v = 0 then 64
      else fst (while (\<lambda>(n, v). v AND 1 = 0) (\<lambda>(n, v). (n + 1, drop_bit 1 v)) (0, v)))"

subsection \<open>Bytes as bits\<close>

definition byte_bits :: "u8 \<Rightarrow> bool list" where
  "byte_bits b = map (\<lambda>i. bit b (7 - i)) [0..<8]"

definition bits_of :: "bytes \<Rightarrow> bool list" where
  "bits_of bs = concat (map byte_bits bs)"

definition word_bits :: "nat \<Rightarrow> u64 \<Rightarrow> bool list" where
  "word_bits n v = map (bit v) (rev [0..<n])"

lemma length_byte_bits [simp]: "length (byte_bits b) = 8"
  by (simp add: byte_bits_def)

lemma nth_byte_bits: "k < 8 \<Longrightarrow> byte_bits b ! k = bit b (7 - k)"
  using nth_upt [of 0 k 8] by (simp add: byte_bits_def)

lemma bits_of_simps [simp]:
  "bits_of [] = []" "bits_of (b # bs) = byte_bits b @ bits_of bs"
  "bits_of (as @ bs) = bits_of as @ bits_of bs"
  by (simp_all add: bits_of_def)

lemma length_bits_of [simp]: "length (bits_of bs) = 8 * length bs"
  by (induction bs) simp_all

lemma byte_bits_inj: "byte_bits a = byte_bits b \<Longrightarrow> a = b"
proof (rule bit_word_eqI)
  fix n assume eq: "byte_bits a = byte_bits b" and n: "n < LENGTH(8)"
  then have "byte_bits a ! (7 - n) = byte_bits b ! (7 - n)" by simp
  with n show "bit a n = bit b n" by (simp add: nth_byte_bits)
qed

lemma bits_of_inj: "bits_of as = bits_of bs \<Longrightarrow> as = bs"
proof (induction as arbitrary: bs)
  case Nil
  then show ?case by (cases bs) (auto dest: arg_cong [of _ _ length])
next
  case (Cons a as)
  then obtain b bs' where bs: "bs = b # bs'"
    by (cases bs) (auto dest: arg_cong [of _ _ length])
  with Cons.prems have "byte_bits a = byte_bits b" "bits_of as = bits_of bs'" by simp_all
  with Cons.IH bs show ?case by (auto dest: byte_bits_inj)
qed

lemma nth_bits_of:
  "k < 8 * length bs \<Longrightarrow> bits_of bs ! k = bit (bs ! (k div 8)) (7 - k mod 8)"
proof (induction bs arbitrary: k)
  case Nil
  then show ?case by simp
next
  case (Cons b bs)
  show ?case
  proof (cases "k < 8")
    case True
    then show ?thesis by (simp add: nth_append nth_byte_bits)
  next
    case False
    then obtain j where k: "k = 8 + j" using le_Suc_ex not_less by blast
    moreover have "(8 + j) div 8 = Suc (j div 8)" by simp
    ultimately show ?thesis using Cons.prems Cons.IH [of j] by (simp add: nth_append)
  qed
qed

lemma word_bits_Suc: "word_bits (Suc n) v = bit v n # word_bits n v"
  by (simp add: word_bits_def)

lemma word_bits_0 [simp]: "word_bits 0 v = []"
  by (simp add: word_bits_def)

lemma length_word_bits [simp]: "length (word_bits n v) = n"
  by (simp add: word_bits_def)

lemma word_bits_ucast: "word_bits 8 (ucast b) = byte_bits b"
  unfolding word_bits_def byte_bits_def
  by (rule nth_equalityI) (auto simp: rev_nth bit_simps)

subsection \<open>The writer appends to a list of bits\<close>

definition bw_inv :: "bitWriter \<Rightarrow> bool" where
  "bw_inv w \<longleftrightarrow> bw_bitPos w < 8 \<and> (\<forall>i < 8 - bw_bitPos w. \<not> bit (bw_current w) i)"

definition bw_bits :: "bitWriter \<Rightarrow> bool list" where
  "bw_bits w = bits_of (bw_buf w) @ take (bw_bitPos w) (byte_bits (bw_current w))"

lemma bw_inv_new: "bw_inv newBitWriter"
  by (simp add: bw_inv_def newBitWriter_def)

lemma bit_written:
  assumes "p < 8" and "\<forall>i < 8 - p. \<not> bit c i"
  shows "take (Suc p) (byte_bits (c OR push_bit (7 - p) (b AND 1))) =
    take p (byte_bits c) @ [odd b]"
proof (rule nth_equalityI)
  show "length (take (Suc p) (byte_bits (c OR push_bit (7 - p) (b AND 1)))) =
      length (take p (byte_bits c) @ [odd b])" using assms(1) by simp
  fix k assume "k < length (take (Suc p) (byte_bits (c OR push_bit (7 - p) (b AND 1))))"
  then have k: "k \<le> p" "k < 8" using assms(1) by auto
  have "bit (push_bit (7 - p) (b AND 1)) (7 - k) \<longleftrightarrow> k = p \<and> odd b"
    using k assms(1) by (auto simp: bit_simps bit_1_iff simp flip: bit_0)
  moreover have "\<not> bit c (7 - p)" using assms by simp
  ultimately show "take (Suc p) (byte_bits (c OR push_bit (7 - p) (b AND 1))) ! k =
      (take p (byte_bits c) @ [odd b]) ! k"
    using k assms(1) by (auto simp: nth_byte_bits nth_append bit_or_iff)
qed

lemma writeBit_bits:
  assumes "bw_inv w"
  shows "bw_inv (writeBit w b)" and "bw_bits (writeBit w b) = bw_bits w @ [odd b]"
    and "bw_bitPos (writeBit w b) = (bw_bitPos w + 1) mod 8"
proof -
  let ?c = "bw_current w OR push_bit (7 - bw_bitPos w) (b AND 1)"
  from assms have p: "bw_bitPos w < 8" and z: "\<forall>i < 8 - bw_bitPos w. \<not> bit (bw_current w) i"
    by (simp_all add: bw_inv_def)
  note bits = bit_written [OF p z, of b]
  have low: "\<not> bit ?c i" if "i < 8 - Suc (bw_bitPos w)" for i
    using that z by (auto simp: bit_simps)
  show "bw_inv (writeBit w b)" and "bw_bitPos (writeBit w b) = (bw_bitPos w + 1) mod 8"
    using p low by (auto simp: writeBit_def bw_inv_def Let_def)
  show "bw_bits (writeBit w b) = bw_bits w @ [odd b]"
    using p bits by (auto simp: writeBit_def bw_bits_def Let_def)
qed

lemma writeBits_bits:
  "bw_inv w \<Longrightarrow> bw_inv (writeBits w v n) \<and> bw_bits (writeBits w v n) = bw_bits w @ word_bits n v
     \<and> bw_bitPos (writeBits w v n) = (bw_bitPos w + n) mod 8"
proof (induction n arbitrary: w)
  case 0
  then show ?case by (simp add: bw_inv_def)
next
  case (Suc n)
  let ?b = "ucast (drop_bit n v AND 1) :: u8"
  have "odd ?b \<longleftrightarrow> bit v n"
    by (simp add: bit_simps flip: bit_0)
  with Suc.IH [OF writeBit_bits(1) [OF Suc.prems, of ?b]] writeBit_bits(2,3) [OF Suc.prems, of ?b]
  show ?case by (simp add: word_bits_Suc mod_simps)
qed

lemma writeByte_aligned:
  assumes "bw_inv w" and "bw_bitPos w = 0"
  shows "bw_inv (writeByte w b)" "bw_bitPos (writeByte w b) = 0"
    and "bw_buf (writeByte w b) = bw_buf w @ [b]"
proof -
  note W = writeBits_bits [OF assms(1), of "ucast b" 8]
  then show "bw_inv (writeByte w b)" and pos: "bw_bitPos (writeByte w b) = 0"
    using assms(2) by (simp_all add: writeByte_def)
  have "bits_of (bw_buf (writeByte w b)) = bits_of (bw_buf w @ [b])"
    using W pos assms(2) by (auto simp: writeByte_def bw_bits_def word_bits_ucast)
  then show "bw_buf (writeByte w b) = bw_buf w @ [b]" by (rule bits_of_inj)
qed

lemma write_bytes_aligned:
  assumes "bw_inv w" and "bw_bitPos w = 0"
  shows "bw_inv (foldl writeByte w bs) \<and> bw_bitPos (foldl writeByte w bs) = 0 \<and>
    bw_buf (foldl writeByte w bs) = bw_buf w @ bs"
  using assms by (induction bs arbitrary: w) (auto simp: writeByte_aligned)

lemma bits_of_bitWriter_bytes:
  assumes "bw_inv w"
  obtains pad where "bits_of (bitWriter_bytes w) = bw_bits w @ pad"
proof
  show "bits_of (bitWriter_bytes w) = bw_bits w @
      (if bw_bitPos w > 0 then drop (bw_bitPos w) (byte_bits (bw_current w)) else [])"
    by (simp add: bitWriter_bytes_def bw_bits_def)
qed

subsection \<open>The reader consumes a list of bits\<close>

definition br_inv :: "bitReader \<Rightarrow> bool" where
  "br_inv r \<longleftrightarrow> br_bitPos r < 8"

definition br_bits :: "bitReader \<Rightarrow> bool list" where
  "br_bits r = drop (8 * br_pos r + br_bitPos r) (bits_of (br_data r))"

lemma br_inv_new [simp]: "br_inv (newBitReader data)"
  by (simp add: br_inv_def newBitReader_def)

lemma br_bits_new [simp]: "br_bits (newBitReader data) = bits_of data"
  by (simp add: br_bits_def newBitReader_def)

lemma readBit_None: "br_inv r \<Longrightarrow> readBit r = None \<longleftrightarrow> br_bits r = []"
  by (auto simp: readBit_def br_inv_def br_bits_def Let_def)

lemma readBit_Cons:
  assumes inv: "br_inv r" and bits: "br_bits r = x # xs"
  obtains r' where "readBit r = Some (of_bool x, r')" "br_inv r'" "br_bits r' = xs"
proof -
  let ?k = "8 * br_pos r + br_bitPos r"
  have k: "?k < length (bits_of (br_data r))"
    using bits by (auto simp: br_bits_def intro: ccontr)
  then have pos: "br_pos r < length (br_data r)" by simp
  have p: "br_bitPos r < 8" using inv by (simp add: br_inv_def)
  have "x = bits_of (br_data r) ! ?k"
    using bits nth_via_drop [of ?k "bits_of (br_data r)" x xs] by (simp add: br_bits_def)
  also have "\<dots> = bit (br_data r ! br_pos r) (7 - br_bitPos r)"
    using nth_bits_of [of ?k "br_data r"] k p by simp
  finally have x: "drop_bit (7 - br_bitPos r) (br_data r ! br_pos r) AND 1 = of_bool x"
    by (simp add: and_one_eq mod_2_eq_odd bit_iff_odd_drop_bit)
  have xs: "drop (Suc ?k) (bits_of (br_data r)) = xs"
    using bits Cons_nth_drop_Suc [OF k] by (simp add: br_bits_def)
  let ?r = "if br_bitPos r + 1 = 8 then r\<lparr>br_pos := br_pos r + 1, br_bitPos := 0\<rparr>
    else r\<lparr>br_bitPos := br_bitPos r + 1\<rparr>"
  show thesis
  proof (rule that [of ?r])
    show "readBit r = Some (of_bool x, ?r)"
      using pos x by (simp add: readBit_def Let_def not_le)
    show "br_inv ?r" using p by (auto simp: br_inv_def)
    show "br_bits ?r = xs" using xs by (auto simp: br_bits_def)
  qed
qed

text \<open>Shifting one more bit in.\<close>

lemma shift_in_bit:
  fixes w :: u64
  shows "push_bit 1 (drop_bit (Suc n) w) OR of_bool (bit w n) = drop_bit n w"
proof (rule bit_word_eqI)
  fix k assume k: "k < LENGTH(64)"
  have "bit (push_bit 1 (drop_bit (Suc n) w)) k \<longleftrightarrow> 0 < k \<and> bit w (n + k)"
    using k by (simp only: bit_push_bit_iff bit_drop_bit_eq o_def) auto
  moreover have "bit (of_bool (bit w n) :: u64) k \<longleftrightarrow> k = 0 \<and> bit w n"
    by (auto simp: bit_1_iff)
  ultimately show "bit (push_bit 1 (drop_bit (Suc n) w) OR of_bool (bit w n)) k =
      bit (drop_bit n w) k"
    by (simp only: bit_or_iff bit_drop_bit_eq o_def) auto
qed

lemma readBits_loop_bits:
  assumes "n \<le> 64" "n \<le> m" "br_inv r" and "br_bits r = word_bits n v @ rest"
  shows "\<exists>r'. readBits_loop n (drop_bit n (take_bit m v)) r = Some (take_bit m v, r') \<and>
    br_inv r' \<and> br_bits r' = rest"
  using assms
proof (induction n arbitrary: r)
  case 0
  then show ?case by simp
next
  case (Suc n)
  from Suc.prems(4) have "br_bits r = bit v n # (word_bits n v @ rest)" by (simp add: word_bits_Suc)
  then obtain r' where r': "readBit r = Some (of_bool (bit v n), r')" "br_inv r'"
    "br_bits r' = word_bits n v @ rest"
    by (rule readBit_Cons [OF Suc.prems(3)])
  have "bit (take_bit m v) n = bit v n" using Suc.prems(2) by (simp add: bit_take_bit_iff)
  moreover have "ucast (of_bool b :: u8) = (of_bool b :: u64)" for b by (cases b) simp_all
  ultimately have "push_bit 1 (drop_bit (Suc n) (take_bit m v)) OR ucast (of_bool (bit v n) :: u8) =
      drop_bit n (take_bit m v)"
    using shift_in_bit [of n "take_bit m v"] by (simp only:)
  with Suc.IH [OF _ _ r'(2,3)] Suc.prems(1,2) r'(1) show ?case
    by (simp only: readBits_loop.simps option.case prod.case)
qed

lemma readBits_bits:
  assumes "n \<le> 64" "br_inv r" and "br_bits r = word_bits n v @ rest"
  obtains r' where "readBits r n = Some (take_bit n v, r')" "br_inv r'" "br_bits r' = rest"
proof -
  have "drop_bit n (take_bit n v) = 0" by (simp add: drop_bit_take_bit)
  with readBits_loop_bits [OF assms(1) order_refl assms(2,3)] that show thesis
    unfolding readBits_def by auto
qed

subsection \<open>The zero-count loops\<close>

lemma and_low_bit: "v AND 1 = 0 \<longleftrightarrow> \<not> bit v 0" for v :: u64
  by (simp add: and_one_eq mod_2_eq_odd bit_0)

lemma word_eq_0_bits: "v = 0 \<longleftrightarrow> (\<forall>k < 64. \<not> bit v k)" for v :: u64
  by (auto simp: bit_eq_iff dest: bit_imp_le_length)

text \<open>
  What both loops keep: after \<open>n\<close> shifts no bit of the \<open>n\<close> positions passed is set, so a
  non-zero word stops the loop before position 64.
\<close>

definition clz_inv :: "u64 \<Rightarrow> nat \<times> u64 \<Rightarrow> bool" where
  "clz_inv v s \<longleftrightarrow> fst s < 64 \<and> snd s = push_bit (fst s) v \<and> (\<forall>k. 63 - fst s < k \<longrightarrow> \<not> bit v k)"

definition ctz_inv :: "u64 \<Rightarrow> nat \<times> u64 \<Rightarrow> bool" where
  "ctz_inv v s \<longleftrightarrow> fst s < 64 \<and> snd s = drop_bit (fst s) v \<and> (\<forall>k < fst s. \<not> bit v k)"

lemma clz_top: "clz_inv v (n, w) \<Longrightarrow> w AND push_bit 63 1 = 0 \<longleftrightarrow> \<not> bit v (63 - n)"
  by (simp only: clz_inv_def and_top_bit fst_conv snd_conv bit_push_bit_iff) auto

lemma clz_inv_step:
  assumes "v \<noteq> 0" and inv: "clz_inv v (n, w)" and "w AND push_bit 63 1 = 0"
  shows "clz_inv v (n + 1, push_bit 1 w)"
proof -
  from inv have n: "n < 64" and w: "w = push_bit n v"
    and above: "63 - n < k \<Longrightarrow> \<not> bit v k" for k by (simp_all add: clz_inv_def)
  from clz_top [OF inv] assms(3) have at: "\<not> bit v (63 - n)" by blast
  have none: "\<not> bit v k" if "63 - n \<le> k" for k
    using that above at by (cases "k = 63 - n") auto
  have "n \<noteq> 63" using none assms(1) by (auto simp: word_eq_0_bits)
  then have "n + 1 < 64" using n by simp
  moreover have "push_bit 1 w = push_bit (n + 1) v"
    by (simp only: w push_bit_push_bit add.commute)
  ultimately show ?thesis
    unfolding clz_inv_def using none \<open>n \<noteq> 63\<close> n by (simp only: fst_conv snd_conv) auto
qed

lemma ctz_inv_step:
  assumes "v \<noteq> 0" and inv: "ctz_inv v (n, w)" and "w AND 1 = 0"
  shows "ctz_inv v (n + 1, drop_bit 1 w)"
proof -
  from inv have n: "n < 64" and w: "w = drop_bit n v"
    and below: "k < n \<Longrightarrow> \<not> bit v k" for k by (simp_all add: ctz_inv_def)
  from assms(3) have at: "\<not> bit v n" by (simp add: and_low_bit w bit_simps)
  have none: "\<not> bit v k" if "k \<le> n" for k
    using that below at by (cases "k = n") auto
  have "n \<noteq> 63" using none assms(1) by (auto simp: word_eq_0_bits)
  then have "n + 1 < 64" using n by simp
  moreover have "drop_bit 1 w = drop_bit (n + 1) v"
    by (simp only: w drop_bit_drop_bit add.commute)
  ultimately show ?thesis
    unfolding ctz_inv_def using none by (simp only: fst_conv snd_conv) auto
qed

lemma countLeadingZeros64_spec:
  assumes "v \<noteq> 0"
  shows "countLeadingZeros64 v < 64 \<and> bit v (63 - countLeadingZeros64 v) \<and>
    (\<forall>k. 63 - countLeadingZeros64 v < k \<longrightarrow> \<not> bit v k)"
proof -
  define b :: "nat \<times> u64 \<Rightarrow> bool" where "b = (\<lambda>(n, v). v AND push_bit 63 1 = 0)"
  define c :: "nat \<times> u64 \<Rightarrow> nat \<times> u64" where "c = (\<lambda>(n, v). (n + 1, push_bit 1 v))"
  have "clz_inv v (while b c (0, v)) \<and> \<not> b (while b c (0, v))"
  proof (rule while_rule [where P = "clz_inv v" and r = "measure (\<lambda>s. 64 - fst s)"])
    show "clz_inv v (0, v)" by (auto simp: clz_inv_def dest: bit_imp_le_length)
    show "clz_inv v (c s)" if "clz_inv v s" "b s" for s
      using that clz_inv_step [OF assms] unfolding b_def c_def by (simp only: split_beta) (cases s; simp)
    show "(c s, s) \<in> measure (\<lambda>s. 64 - fst s)" if "clz_inv v s" "b s" for s
      using that by (auto simp: c_def clz_inv_def split: prod.splits)
  qed simp_all
  moreover obtain n w where nw: "while b c (0, v) = (n, w)" by force
  ultimately have inv: "clz_inv v (n, w)" and "\<not> b (n, w)" by simp_all
  then have "bit v (63 - n)" using clz_top [OF inv] unfolding b_def prod.case by blast
  moreover have "countLeadingZeros64 v = n"
    using assms nw by (simp add: countLeadingZeros64_def b_def c_def)
  ultimately show ?thesis using inv by (simp add: clz_inv_def)
qed

lemma countTrailingZeros64_spec:
  assumes "v \<noteq> 0"
  shows "countTrailingZeros64 v < 64 \<and> bit v (countTrailingZeros64 v) \<and>
    (\<forall>k < countTrailingZeros64 v. \<not> bit v k)"
proof -
  define b :: "nat \<times> u64 \<Rightarrow> bool" where "b = (\<lambda>(n, v). v AND 1 = 0)"
  define c :: "nat \<times> u64 \<Rightarrow> nat \<times> u64" where "c = (\<lambda>(n, v). (n + 1, drop_bit 1 v))"
  have "ctz_inv v (while b c (0, v)) \<and> \<not> b (while b c (0, v))"
  proof (rule while_rule [where P = "ctz_inv v" and r = "measure (\<lambda>s. 64 - fst s)"])
    show "ctz_inv v (0, v)" by (simp add: ctz_inv_def)
    show "ctz_inv v (c s)" if "ctz_inv v s" "b s" for s
      using that ctz_inv_step [OF assms] unfolding b_def c_def by (simp only: split_beta) (cases s; simp)
    show "(c s, s) \<in> measure (\<lambda>s. 64 - fst s)" if "ctz_inv v s" "b s" for s
      using that by (auto simp: c_def ctz_inv_def split: prod.splits)
  qed simp_all
  moreover have "countTrailingZeros64 v = fst (while b c (0, v))"
    using assms by (simp add: countTrailingZeros64_def b_def c_def)
  ultimately show ?thesis
    unfolding b_def by (auto simp: split_beta ctz_inv_def and_low_bit bit_simps)
qed

subsection \<open>Fields of arbitrary width\<close>

text \<open>A sequence of fields, each a value and its width, written and read back in order.\<close>

definition write_fields :: "bitWriter \<Rightarrow> (u64 \<times> nat) list \<Rightarrow> bitWriter" where
  "write_fields = foldl (\<lambda>w (v, n). writeBits w v n)"

fun read_fields :: "bitReader \<Rightarrow> nat list \<Rightarrow> u64 list option" where
  "read_fields r [] = Some []"
| "read_fields r (n # ns) =
     (case readBits r n of
        None \<Rightarrow> None
      | Some (v, r') \<Rightarrow> map_option ((#) v) (read_fields r' ns))"

definition field_bits :: "(u64 \<times> nat) list \<Rightarrow> bool list" where
  "field_bits fs = concat (map (\<lambda>(v, n). word_bits n v) fs)"

lemma write_fields_bits:
  "bw_inv w \<Longrightarrow> bw_inv (write_fields w fs) \<and> bw_bits (write_fields w fs) = bw_bits w @ field_bits fs"
  by (induction fs arbitrary: w)
     (auto simp: write_fields_def field_bits_def writeBits_bits)

lemma read_fields_bits:
  assumes "list_all (\<lambda>(v, n). n \<le> 64) fs" and "br_inv r" and "br_bits r = field_bits fs @ rest"
  shows "read_fields r (map snd fs) = Some (map (\<lambda>(v, n). take_bit n v) fs)"
  using assms
proof (induction fs arbitrary: r)
  case Nil
  show ?case by simp
next
  case (Cons f fs)
  obtain v n where f: "f = (v, n)" by force
  have n: "n \<le> 64" using Cons.prems(1) by (simp add: f)
  have "br_bits r = word_bits n v @ (field_bits fs @ rest)"
    using Cons.prems(3) by (simp add: f field_bits_def)
  then obtain r' where "readBits r n = Some (take_bit n v, r')" "br_inv r'"
    "br_bits r' = field_bits fs @ rest"
    by (rule readBits_bits [OF n Cons.prems(2)])
  with Cons.IH [of r'] Cons.prems(1) show ?case by (simp add: f)
qed

text \<open>
  The bit stream is lossless: fields of any widths up to 64 bits, written one after the
  other with \<open>writeBits\<close> and flushed with \<open>bytes\<close> (which pads the last byte), are read back by
  \<open>readBits\<close> with the same widths as the low bits of the written values, none of the reads
  running off the end.
\<close>

theorem bit_stream_roundtrip:
  assumes "list_all (\<lambda>(v, n). n \<le> 64) fs"
  shows "read_fields (newBitReader (bitWriter_bytes (write_fields newBitWriter fs))) (map snd fs)
    = Some (map (\<lambda>(v, n). take_bit n v) fs)"
proof -
  note W = write_fields_bits [OF bw_inv_new, of fs]
  obtain pad where "bits_of (bitWriter_bytes (write_fields newBitWriter fs)) =
      bw_bits (write_fields newBitWriter fs) @ pad"
    by (rule bits_of_bitWriter_bytes [OF conjunct1 [OF W]])
  with W have "br_bits (newBitReader (bitWriter_bytes (write_fields newBitWriter fs))) =
      field_bits fs @ pad"
    by (simp add: bw_bits_def newBitWriter_def)
  then show ?thesis by (intro read_fields_bits [OF assms]) simp_all
qed

theorem bit_stream_roundtrip_witness:
  "read_fields (newBitReader (bitWriter_bytes (write_fields newBitWriter [(5, 3), (1023, 9), (- 1, 64)])))
     (map snd [(5 :: u64, 3), (1023, 9), (- 1, 64)])
    = Some (map (\<lambda>(v, n). take_bit n v) [(5, 3), (1023, 9), (- 1, 64)])"
  by (rule bit_stream_roundtrip) simp

text \<open>
  The hand-written zero counters terminate and are correct: for a non-zero word the count
  of leading zeros is the distance of the highest set bit from bit 63 and the count of trailing
  zeros is the position of the lowest set bit; both are 64 for zero.
\<close>

theorem zero_counters_correct:
  assumes "v \<noteq> 0"
  shows "Max {k. bit v k} = 63 - countLeadingZeros64 v \<and> countLeadingZeros64 v < 64 \<and>
    Min {k. bit v k} = countTrailingZeros64 v \<and>
    countLeadingZeros64 0 = 64 \<and> countTrailingZeros64 0 = 64"
proof -
  note L = countLeadingZeros64_spec [OF assms] and T = countTrailingZeros64_spec [OF assms]
  have fin: "finite {k. bit v k}"
    by (rule finite_subset [of _ "{..<64}"]) (auto dest: bit_imp_le_length)
  have "Max {k. bit v k} = 63 - countLeadingZeros64 v"
    using L by (intro Max_eqI [OF fin]) (auto intro: leI)
  moreover have "Min {k. bit v k} = countTrailingZeros64 v"
    using T by (intro Min_eqI [OF fin]) (auto intro: leI)
  ultimately show ?thesis
    using L by (simp add: countLeadingZeros64_def countTrailingZeros64_def)
qed

theorem zero_counters_correct_witness:
  "Max {k. bit (12 :: u64) k} = 63 - countLeadingZeros64 12 \<and> countLeadingZeros64 12 < 64 \<and>
    Min {k. bit (12 :: u64) k} = countTrailingZeros64 12 \<and>
    countLeadingZeros64 0 = 64 \<and> countTrailingZeros64 0 = 64"
  by (rule zero_counters_correct) simp

end
