(* ===== verification/Gorilla_Codec.thy ===== *)
theory Gorilla_Codec
  imports Bit_Stream
begin

text \<open>
  \<^verbatim>\<open>src/pkg/storage/segment/column/gorilla.go\<close>: Gorilla XOR compression of float64 columns.
  A float64 is its 64-bit pattern (\<^verbatim>\<open>math.Float64bits\<close> and \<^verbatim>\<open>math.Float64frombits\<close> are
  reinterpretations of the same bits). Wire format: tag, 4-byte count, 8-byte first value,
  then per value a 0 bit (unchanged) or a 1 bit, 6 bits of leading zeros, 6 bits of
  significant length and the significant bits of the XOR with the previous value.
\<close>

fun gorilla_encode_loop :: "bitWriter \<Rightarrow> u64 \<Rightarrow> u64 list \<Rightarrow> bitWriter" where
  "gorilla_encode_loop bw prev [] = bw"
| "gorilla_encode_loop bw prev (cur # rest) =
     (let xr = prev XOR cur in
        gorilla_encode_loop
          (if xr = 0 then writeBit bw 0
           else let bw = writeBit bw 1;
                    leading = countLeadingZeros64 xr;
                    trailing = countTrailingZeros64 xr;
                    meaningful = 64 - leading - trailing;
                    bw = writeBits bw (word_of_nat leading) 6;
                    bw = writeBits bw (word_of_nat meaningful) 6
             in writeBits bw (drop_bit trailing xr) meaningful)
          cur rest)"

definition Gorilla_EncodeFloat64s :: "u64 list \<Rightarrow> bytes col" where
  "Gorilla_EncodeFloat64s vals =
     (case vals of
        [] \<Rightarrow> Inl ErrEmptyInput
      | first # rest \<Rightarrow>
          let bw = writeByte newBitWriter EncodingGorilla;
              bw = writeUint32 bw (word_of_nat (length vals));
              bw = writeUint64 bw first
          in Inr (bitWriter_bytes (gorilla_encode_loop bw first rest)))"

fun gorilla_decode_loop :: "bitReader \<Rightarrow> u64 \<Rightarrow> nat \<Rightarrow> u64 list col" where
  "gorilla_decode_loop br prev 0 = Inr []"
| "gorilla_decode_loop br prev (Suc n) =
     (case readBit br of
        None \<Rightarrow> Inl ErrCorruptData
      | Some (b, br) \<Rightarrow>
          if b = 0 then
            (case gorilla_decode_loop br prev n of Inl e \<Rightarrow> Inl e | Inr vs \<Rightarrow> Inr (prev # vs))
          else
            (case readBits br 6 of
               None \<Rightarrow> Inl ErrCorruptData
             | Some (leading, br) \<Rightarrow>
                 (case readBits br 6 of
                    None \<Rightarrow> Inl ErrCorruptData
                  | Some (meaningful, br) \<Rightarrow>
                      let meaningful = (if meaningful = 0 then 64 else unat meaningful);
                          trailing = 64 - int (unat leading) - int meaningful
                      in if trailing < 0 then Inl ErrCorruptData
                         else (case readBits br meaningful of
                                 None \<Rightarrow> Inl ErrCorruptData
                               | Some (xorBits, br) \<Rightarrow>
                                   let cur = prev XOR push_bit (nat trailing) xorBits in
                                     (case gorilla_decode_loop br cur n of
                                        Inl e \<Rightarrow> Inl e
                                      | Inr vs \<Rightarrow> Inr (cur # vs))))))"

text \<open>
  The code stores \<^verbatim>\<open>result[0]\<close> before it looks at the count, which panics on a header with
  count 0; the model returns \<open>IndexPanic\<close> there.
\<close>

definition Gorilla_DecodeFloat64s :: "bytes \<Rightarrow> u64 list col" where
  "Gorilla_DecodeFloat64s data =
     (if length data < 13 then Inl ErrCorruptData
      else if data ! 0 \<noteq> EncodingGorilla then Inl ErrInvalidEncoding
      else let count = Uint32 (slice data 1 5); first = Uint64 (slice data 5 13) in
        if count = 0 then Inl IndexPanic
        else if count = 1 then Inr [first]
        else (case gorilla_decode_loop (newBitReader (drop 13 data)) first (unat count - 1) of
                Inl e \<Rightarrow> Inl e
              | Inr vs \<Rightarrow> Inr (first # vs)))"

subsection \<open>The bits of one value\<close>

definition xor_bits :: "u64 \<Rightarrow> bool list" where
  "xor_bits xr =
     (if xr = 0 then [False]
      else True # word_bits 6 (word_of_nat (countLeadingZeros64 xr))
        @ word_bits 6 (word_of_nat (64 - countLeadingZeros64 xr - countTrailingZeros64 xr))
        @ word_bits (64 - countLeadingZeros64 xr - countTrailingZeros64 xr)
            (drop_bit (countTrailingZeros64 xr) xr))"

fun stream_bits :: "u64 \<Rightarrow> u64 list \<Rightarrow> bool list" where
  "stream_bits prev [] = []"
| "stream_bits prev (cur # rest) = xor_bits (prev XOR cur) @ stream_bits cur rest"

lemma gorilla_encode_loop_bits:
  "bw_inv bw \<Longrightarrow> bw_inv (gorilla_encode_loop bw prev vs) \<and>
     bw_bits (gorilla_encode_loop bw prev vs) = bw_bits bw @ stream_bits prev vs"
proof (induction vs arbitrary: bw prev)
  case Nil
  then show ?case by simp
next
  case (Cons v vs)
  show ?case
  proof (cases "prev XOR v = 0")
    case True
    with Cons.IH [OF writeBit_bits(1) [OF Cons.prems, of 0]] writeBit_bits(2) [OF Cons.prems, of 0]
    show ?thesis by (simp add: xor_bits_def)
  next
    case False
    let ?x = "prev XOR v"
    let ?l = "countLeadingZeros64 ?x" and ?t = "countTrailingZeros64 ?x"
    note w1 = writeBit_bits(1,2) [OF Cons.prems, of 1]
    note w2 = writeBits_bits [OF w1(1), of "word_of_nat ?l" 6]
    note w3 = writeBits_bits [OF w2 [THEN conjunct1], of "word_of_nat (64 - ?l - ?t)" 6]
    note w4 = writeBits_bits [OF w3 [THEN conjunct1], of "drop_bit ?t ?x" "64 - ?l - ?t"]
    from False Cons.IH [OF w4 [THEN conjunct1], of v] w1(2) w2 w3 w4 show ?thesis
      by (simp add: xor_bits_def Let_def)
  qed
qed

text \<open>The significant bits, shifted back, are the XOR again.\<close>

lemma clz_ctz_bounds:
  assumes "xr \<noteq> 0"
  shows "countLeadingZeros64 xr + countTrailingZeros64 xr < 64"
proof (rule ccontr)
  assume "\<not> countLeadingZeros64 xr + countTrailingZeros64 xr < 64"
  then have "63 - countLeadingZeros64 xr < countTrailingZeros64 xr"
    using countLeadingZeros64_spec [OF assms] by auto
  then show False
    using countLeadingZeros64_spec [OF assms] countTrailingZeros64_spec [OF assms] by blast
qed

lemma significant_bits:
  assumes "xr \<noteq> 0"
  defines "t \<equiv> countTrailingZeros64 xr" and "m \<equiv> 64 - countLeadingZeros64 xr - countTrailingZeros64 xr"
  shows "push_bit t (take_bit m (drop_bit t xr)) = xr"
proof (rule bit_word_eqI)
  fix n assume n: "n < LENGTH(64)"
  have hi: "\<not> bit xr n" if "63 - countLeadingZeros64 xr < n"
    using countLeadingZeros64_spec [OF assms(1)] that by blast
  have lo: "\<not> bit xr n" if "n < t"
    using countTrailingZeros64_spec [OF assms(1)] that by (simp add: t_def)
  have "bit xr n \<Longrightarrow> t \<le> n \<and> n - t < m"
    using hi lo clz_ctz_bounds [OF assms(1)] by (fastforce simp: m_def t_def not_less)
  with n show "bit (push_bit t (take_bit m (drop_bit t xr))) n = bit xr n"
    by (auto simp: bit_simps)
qed

subsection \<open>Decoding the stream\<close>

text \<open>The 6-bit fields: a significant length of 64 is stored as 0 and read back as 64.\<close>

lemma take_bit_6: "unat (take_bit 6 (word_of_nat n :: u64)) = n mod 64"
proof -
  have "unat (take_bit 6 (word_of_nat n :: u64)) = take_bit 6 (take_bit 64 n)"
    by (simp add: unsigned_take_bit_eq unsigned_of_nat)
  also have "\<dots> = n mod 64" by (simp only: take_bit_take_bit) (simp add: take_bit_eq_mod)
  finally show ?thesis .
qed

lemma read_meaningful:
  assumes "0 < m" "m \<le> 64"
  shows "(if take_bit 6 (word_of_nat m :: u64) = 0 then 64 else unat (take_bit 6 (word_of_nat m :: u64))) = m"
proof -
  define w where "w = take_bit 6 (word_of_nat m :: u64)"
  have w: "unat w = m mod 64" by (simp add: w_def take_bit_6)
  then have "w = 0 \<longleftrightarrow> m = 64" using assms by (auto simp: unat_eq_zero [symmetric])
  then have "(if w = 0 then 64 else unat w) = m" using w assms by auto
  then show ?thesis unfolding w_def .
qed

lemma xor_eq_0: "a XOR b = 0 \<Longrightarrow> a = b" for a b :: u64
proof -
  assume "a XOR b = 0"
  then have "a XOR (a XOR b) = a" by simp
  then show ?thesis by (simp flip: xor.assoc)
qed

text \<open>The four reads of a changed value.\<close>

lemma read_changed:
  assumes "br_inv br" and "xr \<noteq> 0" and "br_bits br = xor_bits xr @ rest"
  defines "l \<equiv> countLeadingZeros64 xr" and "t \<equiv> countTrailingZeros64 xr"
  defines "m \<equiv> 64 - l - t"
  obtains r1 r2 r3 r4 where "readBit br = Some (of_bool True, r1)"
    "readBits r1 6 = Some (take_bit 6 (word_of_nat l), r2)"
    "readBits r2 6 = Some (take_bit 6 (word_of_nat m), r3)"
    "readBits r3 m = Some (take_bit m (drop_bit t xr), r4)" "br_inv r4" "br_bits r4 = rest"
proof -
  have "br_bits br = True # (word_bits 6 (word_of_nat l) @ (word_bits 6 (word_of_nat m) @
      (word_bits m (drop_bit t xr) @ rest)))"
    using assms(2,3) by (simp add: xor_bits_def l_def t_def m_def)
  then obtain r1 where r1: "readBit br = Some (of_bool True, r1)" "br_inv r1"
    and b1: "br_bits r1 = word_bits 6 (word_of_nat l) @ (word_bits 6 (word_of_nat m) @
      (word_bits m (drop_bit t xr) @ rest))"
    by (rule readBit_Cons [OF assms(1)])
  from r1(2) b1 obtain r2 where r2: "readBits r1 6 = Some (take_bit 6 (word_of_nat l), r2)" "br_inv r2"
    and b2: "br_bits r2 = word_bits 6 (word_of_nat m) @ (word_bits m (drop_bit t xr) @ rest)"
    by (rule readBits_bits [of 6, rotated 1]) simp_all
  from r2(2) b2 obtain r3 where r3: "readBits r2 6 = Some (take_bit 6 (word_of_nat m), r3)" "br_inv r3"
    and b3: "br_bits r3 = word_bits m (drop_bit t xr) @ rest"
    by (rule readBits_bits [of 6, rotated 1]) simp_all
  from r3(2) b3 obtain r4 where "readBits r3 m = Some (take_bit m (drop_bit t xr), r4)" "br_inv r4"
    "br_bits r4 = rest"
    by (rule readBits_bits [of m, rotated 1]) (simp_all add: m_def)
  with r1(1) r2(1) r3(1) show thesis by (rule that)
qed

lemma gorilla_decode_loop_bits:
  "br_inv br \<Longrightarrow> br_bits br = stream_bits prev vs @ rest \<Longrightarrow>
     gorilla_decode_loop br prev (length vs) = Inr vs"
proof (induction vs arbitrary: br prev)
  case Nil
  show ?case by simp
next
  case (Cons v vs)
  let ?x = "prev XOR v"
  have bits: "br_bits br = xor_bits ?x @ (stream_bits v vs @ rest)" using Cons.prems(2) by simp
  show ?case
  proof (cases "?x = 0")
    case True
    then have "br_bits br = False # (stream_bits v vs @ rest)" using bits by (simp add: xor_bits_def)
    then obtain r where "readBit br = Some (of_bool False, r)" "br_inv r"
      "br_bits r = stream_bits v vs @ rest"
      by (rule readBit_Cons [OF Cons.prems(1)])
    with Cons.IH [of r v] xor_eq_0 [OF True] show ?thesis by simp
  next
    case False
    define l t where "l = countLeadingZeros64 ?x" and "t = countTrailingZeros64 ?x"
    define m where "m = 64 - l - t"
    have lt: "l + t < 64" using clz_ctz_bounds [OF False] by (simp add: l_def t_def)
    obtain r1 r2 r3 r4 where reads: "readBit br = Some (of_bool True, r1)"
      "readBits r1 6 = Some (take_bit 6 (word_of_nat l), r2)"
      "readBits r2 6 = Some (take_bit 6 (word_of_nat m), r3)"
      "readBits r3 m = Some (take_bit m (drop_bit t ?x), r4)" "br_inv r4"
      "br_bits r4 = stream_bits v vs @ rest"
      unfolding l_def t_def m_def by (rule read_changed [OF Cons.prems(1) False bits])
    define lw mw xw where "lw = take_bit 6 (word_of_nat l :: u64)"
      and "mw = take_bit 6 (word_of_nat m :: u64)" and "xw = take_bit m (drop_bit t ?x)"
    note reads = reads [folded lw_def mw_def xw_def]
    have "unat lw = l" using lt by (simp add: take_bit_6 lw_def)
    moreover have "(if mw = 0 then 64 else unat mw) = m"
      unfolding mw_def by (rule read_meaningful) (use lt in \<open>simp_all add: m_def\<close>)
    moreover have "64 - int l - int m = int t" using lt by (simp add: m_def)
    moreover have "prev XOR push_bit t xw = v"
      using significant_bits [OF False] unfolding xw_def m_def l_def t_def
      by (simp only: flip: xor.assoc) simp
    ultimately show ?thesis
      using reads(1-4) Cons.IH [OF reads(5,6)] by (simp add: Let_def)
  qed
qed

definition gorilla_representable :: "u64 list \<Rightarrow> bool" where
  "gorilla_representable vs \<longleftrightarrow> length vs < 2 ^ 32"

text \<open>The header is byte aligned, so the stream starts at byte 13.\<close>

lemma Gorilla_layout:
  assumes "Gorilla_EncodeFloat64s vs = Inr d"
  obtains v rest tail pad where "vs = v # rest"
    and "d = EncodingGorilla # PutUint32 (word_of_nat (length vs)) @ PutUint64 v @ tail"
    and "bits_of tail = stream_bits v rest @ pad"
proof -
  from assms obtain v rest where vs: "vs = v # rest"
    by (auto simp: Gorilla_EncodeFloat64s_def split: list.splits)
  let ?h = "EncodingGorilla # PutUint32 (word_of_nat (length vs)) @ PutUint64 v"
  define w where "w = foldl writeByte newBitWriter ?h"
  have w: "bw_inv w" "bw_bitPos w = 0" "bw_buf w = ?h"
    using write_bytes_aligned [OF bw_inv_new, of ?h] by (simp_all add: w_def newBitWriter_def)
  have d: "d = bitWriter_bytes (gorilla_encode_loop w v rest)"
    using assms by (simp add: Gorilla_EncodeFloat64s_def vs w_def writeUint32_def writeUint64_def)
  note loop = gorilla_encode_loop_bits [OF w(1), of v rest]
  obtain pad where pad: "bits_of d = bw_bits (gorilla_encode_loop w v rest) @ pad"
    using bits_of_bitWriter_bytes [OF loop [THEN conjunct1]] d by blast
  then have all: "bits_of d = bits_of ?h @ (stream_bits v rest @ pad)"
    using loop w by (simp add: bw_bits_def)
  then have "8 * 13 \<le> length (bits_of d)" by simp
  then have len: "13 \<le> length d" by simp
  have "bits_of (take 13 d) @ bits_of (drop 13 d) = bits_of ?h @ (stream_bits v rest @ pad)"
    using all by (metis append_take_drop_id bits_of_simps(3))
  moreover have "length (bits_of (take 13 d)) = length (bits_of ?h)" using len by simp
  ultimately have "bits_of (take 13 d) = bits_of ?h" "bits_of (drop 13 d) = stream_bits v rest @ pad"
    by (metis append_eq_append_conv)+
  then have "take 13 d = ?h" by (blast dest: bits_of_inj)
  then have "d = EncodingGorilla # PutUint32 (word_of_nat (length vs)) @ PutUint64 v @ drop 13 d"
    by (metis append_Cons append_assoc append_take_drop_id)
  with vs \<open>bits_of (drop 13 d) = _\<close> show thesis by (intro that)
qed

lemma Gorilla_decode_encode:
  assumes "gorilla_representable vs" and "Gorilla_EncodeFloat64s vs = Inr d"
  shows "Gorilla_DecodeFloat64s d = Inr vs"
proof -
  obtain v rest tail pad where vs: "vs = v # rest"
    and d: "d = EncodingGorilla # PutUint32 (word_of_nat (length vs)) @ PutUint64 v @ tail"
    and bits: "bits_of tail = stream_bits v rest @ pad"
    by (rule Gorilla_layout [OF assms(2)])
  let ?n = "word_of_nat (length vs) :: u32"
  have n: "unat ?n = length vs"
    using assms(1) by (simp add: gorilla_representable_def unat_of_nat)
  have d1: "drop 1 d = PutUint32 ?n @ (PutUint64 v @ tail)" by (simp add: d)
  then have d5: "drop 5 d = PutUint64 v @ tail" using drop_of_drop [OF d1] by simp
  have tail: "drop 13 d = tail" using drop_of_drop [OF d5] by simp
  have cnt: "Uint32 (slice d 1 5) = ?n" and fst: "Uint64 (slice d 5 13) = v"
    using slice_of_drop [OF d1] slice_of_drop [OF d5] by simp_all
  have loop: "gorilla_decode_loop (newBitReader tail) v (length rest) = Inr rest"
    by (rule gorilla_decode_loop_bits) (simp_all add: bits)
  have nz: "?n \<noteq> 0" using n vs by auto
  have "?n = 1 \<Longrightarrow> rest = []" using n vs by auto
  moreover have "unat ?n - 1 = length rest" using n vs by simp
  moreover have "length d \<ge> 13" "d ! 0 = EncodingGorilla" by (simp_all add: d)
  ultimately show ?thesis
    using nz loop
    by (simp add: Gorilla_DecodeFloat64s_def Let_def cnt fst tail vs [symmetric] del: One_nat_def)
       (auto simp: vs)
qed

interpretation gorilla:
  column_encoder Gorilla_EncodeFloat64s Gorilla_DecodeFloat64s gorilla_representable
proof
  show "Gorilla_EncodeFloat64s [] = Inl ErrEmptyInput" by (simp add: Gorilla_EncodeFloat64s_def)
  show "\<exists>d. Gorilla_EncodeFloat64s vs = Inr d" if "vs \<noteq> []" for vs
    using that by (simp add: Gorilla_EncodeFloat64s_def Let_def split: list.split)
qed (rule Gorilla_decode_encode)

subsection \<open>Properties\<close>

text \<open>
  (C6) Gorilla round trip: every non-empty float64 column of fewer than 2^32 rows is accepted by
  \<open>EncodeFloat64s\<close>, and \<open>DecodeFloat64s\<close> gives back the same 64-bit patterns, so NaN payloads,
  signed zeros and infinities survive; the significant length 64 that wraps to 0 in its 6-bit
  field is among the cases.
\<close>

theorem gorilla_column_roundtrip:
  assumes "vs \<noteq> []" and "gorilla_representable vs"
  shows "\<exists>d. Gorilla_EncodeFloat64s vs = Inr d \<and> Gorilla_DecodeFloat64s d = Inr vs"
  using assms by (rule gorilla.roundtrip)

theorem gorilla_column_roundtrip_witness:
  "\<exists>d. Gorilla_EncodeFloat64s [0, 2 ^ 63 + 1, 0x3FF0000000000000, 0x3FF0000000000000] = Inr d \<and>
     Gorilla_DecodeFloat64s d = Inr [0, 2 ^ 63 + 1, 0x3FF0000000000000, 0x3FF0000000000000]"
  by (rule gorilla_column_roundtrip) (simp_all add: gorilla_representable_def)

text \<open>
  A forged row count of zero panics the Gorilla decoder: on any input with the Gorilla tag,
  at least 13 bytes and count 0 the assignment to \<^verbatim>\<open>result[0]\<close> is out of range, where the delta
  decoder returns the empty column for the same header.
\<close>

theorem gorilla_zero_count_panics:
  assumes "13 \<le> length data" and "data ! 0 = EncodingGorilla" and "Uint32 (slice data 1 5) = 0"
  shows "Gorilla_DecodeFloat64s data = Inl IndexPanic"
  using assms by (simp add: Gorilla_DecodeFloat64s_def)

theorem gorilla_zero_count_panics_witness:
  "Gorilla_DecodeFloat64s (5 # replicate 12 0) = Inl IndexPanic"
  by (rule gorilla_zero_count_panics) (code_simp+)

end
