(* ===== verification/LZ4_Codec.thy ===== *)
theory LZ4_Codec
  imports Column_Encoding
begin

text \<open>
  \<^verbatim>\<open>src/pkg/storage/segment/column/lz4.go\<close> and the cell framing of \<^verbatim>\<open>msgpack.go\<close>: block
  compression of high-cardinality string columns, and the column of msgpack cells that reuses
  it under another tag. Wire format: tag, 4-byte count, 4-byte uncompressed size, 4-byte
  payload size, payload.

  The compressor is the third-party package \<^verbatim>\<open>pierrec/lz4\<close>, a parameter: \<open>lz_compress\<close> is
  \<^verbatim>\<open>CompressBlock\<close> into a buffer of \<^verbatim>\<open>CompressBlockBound\<close> size (the bytes written, \<open>None\<close> for
  an error), \<open>lz_uncompress src n\<close> is \<^verbatim>\<open>UncompressBlock\<close> into a buffer of \<open>n\<close> bytes.
\<close>

record lz4 =
  lz_compress :: "bytes \<Rightarrow> bytes option"
  lz_uncompress :: "bytes \<Rightarrow> nat \<Rightarrow> bytes option"

text \<open>
  Documented behaviour: compression into a bound-sized buffer does not fail, a non-empty
  compressed block decompresses to its source. Nothing is assumed about its size.
\<close>

definition lz4_laws :: "lz4 \<Rightarrow> bool" where
  "lz4_laws Z \<longleftrightarrow>
     (\<forall>src. lz_compress Z src \<noteq> None) \<and>
     (\<forall>src c. lz_compress Z src = Some c \<longrightarrow> c \<noteq> [] \<longrightarrow> lz_uncompress Z c (length src) = Some src)"

definition LZ4_EncodeStrings :: "lz4 \<Rightarrow> gostring list \<Rightarrow> bytes col" where
  "LZ4_EncodeStrings Z vals =
     (if vals = [] then Inl ErrEmptyInput
      else let uncompressed = put_strings vals in
        (case lz_compress Z uncompressed of
           None \<Rightarrow> Inl LZ4Error
         | Some compressed \<Rightarrow>
             let n = length compressed;
                 payload = (if n = 0 \<or> n \<ge> length uncompressed then uncompressed else compressed)
             in Inr (EncodingLZ4 # PutUint32 (word_of_nat (length vals))
                  @ PutUint32 (word_of_nat (length uncompressed))
                  @ PutUint32 (word_of_nat (length payload)) @ payload)))"

text \<open>
  The slice bound \<^verbatim>\<open>13+compSize\<close> is computed in uint32; where it wraps below 13 the slice
  expression panics.
\<close>

definition LZ4_DecodeStrings :: "lz4 \<Rightarrow> bytes \<Rightarrow> gostring list col" where
  "LZ4_DecodeStrings Z data =
     (if length data < 13 then Inl ErrCorruptData
      else if data ! 0 \<noteq> EncodingLZ4 then Inl ErrInvalidEncoding
      else let count = Uint32 (slice data 1 5); uncompSize = Uint32 (slice data 5 9);
               compSize = Uint32 (slice data 9 13) in
        if 13 + unat compSize > length data then Inl ErrCorruptData
        else if unat uncompSize > maxDecodedColumnBytes then Inl ErrCorruptData
        else if unat (13 + compSize) < 13 then Inl IndexPanic
        else let compressed = slice data 13 (unat (13 + compSize)) in
          (case (if compSize = uncompSize then Inr compressed
                 else (case lz_uncompress Z compressed (unat uncompSize) of
                         None \<Rightarrow> Inl LZ4Error
                       | Some out \<Rightarrow>
                           if length out \<noteq> unat uncompSize then Inl ErrCorruptData else Inr out)) of
             Inl e \<Rightarrow> Inl e
           | Inr uncompressed \<Rightarrow>
               if unat count > length uncompressed div 4 then Inl ErrCorruptData
               else (case read_strings uncompressed 0 (unat count) of
                       Inl e \<Rightarrow> Inl e
                     | Inr (ss, pos) \<Rightarrow> Inr ss)))"

text \<open>
  \<^verbatim>\<open>msgpack.go\<close>: a cell is a byte slice that may be nil. Nil and empty cells are stored as the
  empty string, and the empty string is read back as nil.
\<close>

type_synonym cell = "bytes option"

definition EncodeCells :: "lz4 \<Rightarrow> cell list \<Rightarrow> EncodingType \<Rightarrow> bytes col" where
  "EncodeCells Z cells marker =
     (if cells = [] then Inl ErrEmptyInput
      else (case LZ4_EncodeStrings Z (map (\<lambda>c. case c of None \<Rightarrow> [] | Some b \<Rightarrow> b) cells) of
              Inl e \<Rightarrow> Inl e
            | Inr data \<Rightarrow> Inr (data[0 := marker])))"

definition DecodeCells :: "lz4 \<Rightarrow> bytes \<Rightarrow> cell list col" where
  "DecodeCells Z data =
     (if data = [] then Inl ErrEmptyInput
      else (case LZ4_DecodeStrings Z (data[0 := EncodingLZ4]) of
              Inl e \<Rightarrow> Inl e
            | Inr strs \<Rightarrow> Inr (map (\<lambda>s. if s \<noteq> [] then Some s else None) strs)))"

subsection \<open>Round trip\<close>

definition lz4_representable :: "gostring list \<Rightarrow> bool" where
  "lz4_representable vs \<longleftrightarrow> length (put_strings vs) \<le> maxDecodedColumnBytes"

lemma length_put_string_le: "s \<in> set ss \<Longrightarrow> length s \<le> length (put_strings ss)"
  by (induction ss) (auto simp: put_strings_def put_string_def)

lemma lz4_representableD:
  assumes "lz4_representable vs"
  shows "length vs < 2 ^ 32" "length (put_strings vs) < 2 ^ 32" "list_all (\<lambda>s. length s < 2 ^ 32) vs"
proof -
  have le: "length (put_strings vs) \<le> 2 ^ 30"
    using assms by (simp add: lz4_representable_def maxDecodedColumnBytes_def)
  then show "length (put_strings vs) < 2 ^ 32" by simp
  show "length vs < 2 ^ 32" using le length_put_strings [of vs] by simp
  show "list_all (\<lambda>s. length s < 2 ^ 32) vs"
    using le length_put_string_le [of _ vs] by (fastforce simp: list_all_iff)
qed

lemma LZ4_decode_encode:
  assumes Z: "lz4_laws Z" and rep: "lz4_representable vs" and enc: "LZ4_EncodeStrings Z vs = Inr d"
  shows "LZ4_DecodeStrings Z d = Inr vs"
proof -
  define u where "u = put_strings vs"
  note small = lz4_representableD [OF rep, folded u_def]
  obtain c where c: "lz_compress Z u = Some c" using Z unfolding lz4_laws_def by blast
  define p where "p = (if length c = 0 \<or> length c \<ge> length u then u else c)"
  have p: "length p \<le> length u" "length p = length u \<Longrightarrow> p = u"
    "length p \<noteq> length u \<Longrightarrow> lz_uncompress Z p (length u) = Some u"
    using Z c by (auto simp: p_def lz4_laws_def)
  let ?n = "word_of_nat (length vs) :: u32" and ?u = "word_of_nat (length u) :: u32"
    and ?p = "word_of_nat (length p) :: u32"
  have d: "d = EncodingLZ4 # PutUint32 ?n @ PutUint32 ?u @ PutUint32 ?p @ p"
    using enc c by (auto simp: LZ4_EncodeStrings_def u_def p_def Let_def split: if_splits)
  have d1: "drop 1 d = PutUint32 ?n @ (PutUint32 ?u @ PutUint32 ?p @ p)" by (simp add: d)
  then have d5: "drop 5 d = PutUint32 ?u @ (PutUint32 ?p @ p)" using drop_of_drop [OF d1] by simp
  then have d9: "drop 9 d = PutUint32 ?p @ p" using drop_of_drop [OF d5] by simp
  then have d13: "drop 13 d = p" using drop_of_drop [OF d9] by simp
  have hdr: "Uint32 (slice d 1 5) = ?n" "Uint32 (slice d 5 9) = ?u" "Uint32 (slice d 9 13) = ?p"
    using slice_of_drop [OF d1] slice_of_drop [OF d5] slice_of_drop [OF d9] by simp_all
  have un: "unat ?n = length vs" "unat ?u = length u" "unat ?p = length p"
    using small p(1) by (simp_all add: unat_of_nat)
  have limit: "length u \<le> 2 ^ 30"
    using rep by (simp add: lz4_representable_def maxDecodedColumnBytes_def u_def)
  have hi: "unat (13 + ?p) = 13 + length p"
    using p(1) limit un(3) by (simp add: unat_word_ariths)
  have eq: "?p = ?u \<longleftrightarrow> length p = length u" using un(2,3) by metis
  have body: "slice d 13 (13 + length p) = p" by (simp add: slice_def d13)
  have strs: "read_strings u 0 (length vs) = Inr (vs, length u)"
    using read_strings_put [of 0 u vs "[]"] small(3) by (simp add: u_def)
  have len: "length d = 13 + length p" "d ! 0 = EncodingLZ4" by (simp_all add: d)
  have inner: "(if ?p = ?u then Inr p else
      (case lz_uncompress Z p (length u) of None \<Rightarrow> Inl LZ4Error
       | Some out \<Rightarrow> if length out \<noteq> length u then Inl ErrCorruptData else Inr out)) = Inr u"
    using p(2,3) eq by simp
  have "\<not> length vs > length u div 4" using length_put_strings [of vs] by (simp add: u_def)
  with strs p(1) limit show ?thesis
    unfolding LZ4_DecodeStrings_def Let_def hdr un hi body len inner
    by (simp add: maxDecodedColumnBytes_def)
qed

lemma LZ4_EncodeStrings_total:
  "lz4_laws Z \<Longrightarrow> vs \<noteq> [] \<Longrightarrow> \<exists>d. LZ4_EncodeStrings Z vs = Inr d"
  unfolding lz4_laws_def LZ4_EncodeStrings_def by (auto simp: Let_def split: option.split)

lemma LZ4_column_encoder:
  assumes "lz4_laws Z"
  shows "column_encoder (LZ4_EncodeStrings Z) (LZ4_DecodeStrings Z) lz4_representable"
proof
  show "LZ4_EncodeStrings Z [] = Inl ErrEmptyInput" by (simp add: LZ4_EncodeStrings_def)
qed (rule LZ4_EncodeStrings_total [OF assms] LZ4_decode_encode [OF assms], assumption+)+

subsection \<open>Msgpack cells\<close>

definition cell_string :: "cell \<Rightarrow> gostring" where
  "cell_string c = (case c of None \<Rightarrow> [] | Some b \<Rightarrow> b)"

text \<open>A non-nil empty cell cannot be told from a nil one.\<close>

definition cells_representable :: "cell list \<Rightarrow> bool" where
  "cells_representable cs \<longleftrightarrow> Some [] \<notin> set cs \<and> lz4_representable (map cell_string cs)"

lemma LZ4_EncodeStrings_tag: "LZ4_EncodeStrings Z vs = Inr d \<Longrightarrow> d \<noteq> [] \<and> d ! 0 = EncodingLZ4"
  by (auto simp: LZ4_EncodeStrings_def Let_def split: if_splits option.splits)

lemma Cells_decode_encode:
  assumes "lz4_laws Z" and "cells_representable cs" and "EncodeCells Z cs marker = Inr d"
  shows "DecodeCells Z d = Inr cs"
proof -
  from assms(3) obtain e where e: "LZ4_EncodeStrings Z (map cell_string cs) = Inr e"
    and d: "d = e[0 := marker]"
    by (auto simp: EncodeCells_def cell_string_def [abs_def] split: if_splits sum.splits)
  have "d[0 := EncodingLZ4] = e" and "d \<noteq> []"
    using LZ4_EncodeStrings_tag [OF e] by (auto simp: d list_update_same_conv)
  moreover have "LZ4_DecodeStrings Z e = Inr (map cell_string cs)"
    using LZ4_decode_encode [OF assms(1) _ e] assms(2) by (simp add: cells_representable_def)
  moreover have "map (\<lambda>s. if s \<noteq> [] then Some s else None) (map cell_string cs) = cs"
    using assms(2)
    by (auto simp: cells_representable_def cell_string_def intro!: map_idI split: option.split)
  ultimately show ?thesis by (simp add: DecodeCells_def)
qed

lemma Cells_column_encoder:
  assumes "lz4_laws Z"
  shows "column_encoder (\<lambda>cs. EncodeCells Z cs marker) (DecodeCells Z) cells_representable"
proof
  show "EncodeCells Z [] marker = Inl ErrEmptyInput" by (simp add: EncodeCells_def)
  show "\<exists>d. EncodeCells Z cs marker = Inr d" if "cs \<noteq> []" for cs
    using LZ4_EncodeStrings_total [OF assms, of "map cell_string cs"] that
    by (auto simp: EncodeCells_def cell_string_def [abs_def])
qed (rule Cells_decode_encode [OF assms])

text \<open>A compressor that satisfies the laws: it knows one block and leaves all others alone.\<close>

definition one_block_lz4 :: "bytes \<Rightarrow> lz4" where
  "one_block_lz4 block =
     \<lparr>lz_compress = (\<lambda>src. if src = block then Some [7] else Some []),
      lz_uncompress = (\<lambda>c n. if c = [7] then Some block else None)\<rparr>"

lemma one_block_lz4_laws: "lz4_laws (one_block_lz4 block)"
  by (simp add: lz4_laws_def one_block_lz4_def)

interpretation lz4_one: column_encoder "LZ4_EncodeStrings (one_block_lz4 block)"
    "LZ4_DecodeStrings (one_block_lz4 block)" lz4_representable for block
  by (rule LZ4_column_encoder [OF one_block_lz4_laws])

subsection \<open>Properties\<close>

text \<open>
  LZ4 round trip: with a compressor that satisfies its documented contract, a non-empty
  string column whose length-prefixed form has at most 1 GiB is accepted by \<open>EncodeStrings\<close> and
  \<open>DecodeStrings\<close> gives it back, whether the block was stored compressed or raw: the decoder
  tells the two apart by the two sizes of the header alone.
\<close>

theorem lz4_column_roundtrip:
  assumes "lz4_laws Z" and "vs \<noteq> []" and "lz4_representable vs"
  shows "\<exists>d. LZ4_EncodeStrings Z vs = Inr d \<and> LZ4_DecodeStrings Z d = Inr vs"
  by (rule column_encoder.roundtrip [OF LZ4_column_encoder [OF assms(1)] assms(2,3)])

theorem lz4_column_roundtrip_witness:
  "\<exists>d. LZ4_EncodeStrings (one_block_lz4 (put_strings [[97, 98], []])) [[97, 98], []] = Inr d \<and>
     LZ4_DecodeStrings (one_block_lz4 (put_strings [[97, 98], []])) d = Inr [[97, 98], []]"
  by (rule lz4_column_roundtrip [OF one_block_lz4_laws])
     (simp_all add: lz4_representable_def put_strings_def put_string_def maxDecodedColumnBytes_def)

text \<open>
  Msgpack cell columns: under either of the two msgpack tags, a column of cells survives
  \<open>EncodeCells\<close> and \<open>DecodeCells\<close> with nil read back as nil, provided no cell is an empty
  non-nil slice (those are read back as nil).
\<close>

theorem cells_column_roundtrip:
  assumes "lz4_laws Z" and "cs \<noteq> []" and "cells_representable cs"
  shows "\<exists>d. EncodeCells Z cs marker = Inr d \<and> d ! 0 = marker \<and> DecodeCells Z d = Inr cs"
proof -
  obtain d where d: "EncodeCells Z cs marker = Inr d" "DecodeCells Z d = Inr cs"
    using column_encoder.roundtrip [OF Cells_column_encoder [OF assms(1)] assms(2,3)] by blast
  have "d ! 0 = marker"
    using d(1) by (auto simp: EncodeCells_def dest: LZ4_EncodeStrings_tag split: if_splits sum.splits)
  with d show ?thesis by blast
qed

theorem cells_column_roundtrip_witness:
  "\<exists>d. EncodeCells (one_block_lz4 []) [Some [1, 2], None] EncodingMsgpackArray = Inr d \<and>
     d ! 0 = EncodingMsgpackArray \<and> DecodeCells (one_block_lz4 []) d = Inr [Some [1, 2], None]"
  by (rule cells_column_roundtrip [OF one_block_lz4_laws])
     (simp_all add: cells_representable_def cell_string_def lz4_representable_def put_strings_def
      put_string_def maxDecodedColumnBytes_def)

end
