(* ===== verification/Column_Chunk.thy ===== *)
theory Column_Chunk
  imports Segment_Footer Dict_Codec Delta_Codec Gorilla_Codec LZ4_Codec "HOL-Library.List_Lexorder"
begin

text \<open>
  The column chunks of a row group, from \<^verbatim>\<open>src/pkg/storage/segment/writer.go\<close> (the write methods, block
  compression and column statistics) and \<^verbatim>\<open>reader.go\<close> (\<open>readChunk\<close> and the typed readers).

  The writer's output is the list of bytes written so far, whose length is the counter of the
  \<open>countingWriter\<close>; failures of the underlying stream are not modelled. LZ4 and ZSTD are the
  records \<open>lz4\<close> and \<open>zstd\<close> of functions with the laws the code relies on. Strings compare as Go
  does, byte by byte, which is the lexicographic order of the list library.
\<close>

subsection \<open>Block compression\<close>

definition CompressionNone :: u8 where "CompressionNone = 0"
definition CompressionLZ4 :: u8 where "CompressionLZ4 = 1"
definition CompressionZSTD :: u8 where "CompressionZSTD = 2"
definition maxDecompressedBlockBytes :: nat where "maxDecompressedBlockBytes = 2 ^ 30"

lemmas compression_tags = CompressionNone_def CompressionLZ4_def CompressionZSTD_def

text \<open>A pooled encoder may fail to be created; \<open>EncodeAll\<close> itself does not fail.\<close>

record zstd =
  zs_encode :: "bytes \<Rightarrow> bytes option"
  zs_decode :: "bytes \<Rightarrow> bytes option"

definition zstd_laws :: "zstd \<Rightarrow> bool" where
  "zstd_laws S \<longleftrightarrow> (\<forall>src c. zs_encode S src = Some c \<longrightarrow> zs_decode S c = Some src)"

datatype chunk_error =
    ChunkSegment seg_error
  | ChunkColumn col_error
  | ChunkBlockTooShort
  | ChunkBlockTruncated
  | ChunkBlockTooLarge
  | ChunkDecompress
  | ChunkSizeMismatch
  | ChunkUnsupportedCompression u8
  | ChunkPanic

type_synonym 'a chunk = "chunk_error + 'a"

definition compressLZ4Block :: "lz4 \<Rightarrow> bytes \<Rightarrow> bytes option" where
  "compressLZ4Block Z data =
     (case lz_compress Z data of
        None \<Rightarrow> None
      | Some c \<Rightarrow>
          if length c = 0 \<or> length c \<ge> length data then None
          else Some (PutUint32 (word_of_nat (length data)) @ PutUint32 (word_of_nat (length c)) @ c))"

text \<open>
  The guard compares the sizes as \<open>int\<close>, the slice expression adds them as \<open>uint32\<close>: a sum that wraps
  around is a bound below the start of the slice.
\<close>

definition decompressLZ4Block :: "lz4 \<Rightarrow> bytes \<Rightarrow> bytes chunk" where
  "decompressLZ4Block Z data =
     (if length data < 8 then Inl ChunkBlockTooShort
      else let uncompSize = Uint32 (slice data 0 4); compSize = Uint32 (slice data 4 8) in
        if 8 + unat compSize > length data then Inl ChunkBlockTruncated
        else if unat uncompSize > maxDecompressedBlockBytes then Inl ChunkBlockTooLarge
        else if 8 + compSize < 8 then Inl ChunkPanic
        else (case lz_uncompress Z (slice data 8 (unat (8 + compSize))) (unat uncompSize) of
                None \<Rightarrow> Inl ChunkDecompress
              | Some out \<Rightarrow> if length out \<noteq> unat uncompSize then Inl ChunkSizeMismatch else Inr out))"

definition compressZSTDBlock :: "zstd \<Rightarrow> bytes \<Rightarrow> bytes option" where
  "compressZSTDBlock S data =
     (case zs_encode S data of
        None \<Rightarrow> None
      | Some c \<Rightarrow> if length c \<ge> length data then None else Some (PutUint32 (word_of_nat (length data)) @ c))"

definition decompressZSTDBlock :: "zstd \<Rightarrow> bytes \<Rightarrow> bytes chunk" where
  "decompressZSTDBlock S data =
     (if length data < 4 then Inl ChunkBlockTooShort
      else let uncompSize = Uint32 (slice data 0 4) in
        (case zs_decode S (drop 4 data) of
           None \<Rightarrow> Inl ChunkDecompress
         | Some out \<Rightarrow> if (word_of_nat (length out) :: u32) \<noteq> uncompSize then Inl ChunkSizeMismatch else Inr out))"

definition compressLayer2 :: "lz4 \<Rightarrow> zstd \<Rightarrow> u8 \<Rightarrow> bytes \<Rightarrow> (bytes \<times> u8) option" where
  "compressLayer2 Z S compression data =
     (if compression = CompressionZSTD
      then map_option (\<lambda>c. (c, CompressionZSTD)) (compressZSTDBlock S data)
      else if compression = CompressionLZ4
      then map_option (\<lambda>c. (c, CompressionLZ4)) (compressLZ4Block Z data)
      else None)"

subsection \<open>Column statistics\<close>

record ColumnStats =
  st_Name :: bytes
  st_MinValue :: bytes
  st_MaxValue :: bytes
  st_Count :: nat
  st_NullCount :: nat

text \<open>The loop of \<open>stringColumnStats\<close>: null count so far and, once initialized, the bounds.\<close>

fun string_stats_loop :: "gostring list \<Rightarrow> nat \<Rightarrow> (gostring \<times> gostring) option \<Rightarrow> nat \<times> (gostring \<times> gostring) option" where
  "string_stats_loop [] nulls acc = (nulls, acc)"
| "string_stats_loop (v # vs) nulls acc =
     (if v = [] then string_stats_loop vs (nulls + 1) acc
      else (case acc of
              None \<Rightarrow> string_stats_loop vs nulls (Some (v, v))
            | Some (minVal, maxVal) \<Rightarrow>
                string_stats_loop vs nulls
                  (Some (if v < minVal then v else minVal, if v > maxVal then v else maxVal))))"

definition stringColumnStats :: "bytes \<Rightarrow> gostring list \<Rightarrow> ColumnStats" where
  "stringColumnStats name vals =
     (case string_stats_loop vals 0 None of
        (nulls, acc) \<Rightarrow>
          \<lparr>st_Name = name, st_MinValue = (case acc of None \<Rightarrow> [] | Some (a, b) \<Rightarrow> a),
           st_MaxValue = (case acc of None \<Rightarrow> [] | Some (a, b) \<Rightarrow> b),
           st_Count = length vals, st_NullCount = nulls\<rparr>)"

text \<open>The bounds of a numeric column, by the order that the column's type compares with.\<close>

fun bounds_loop :: "('v \<Rightarrow> 'v \<Rightarrow> bool) \<Rightarrow> 'v list \<Rightarrow> 'v \<times> 'v \<Rightarrow> 'v \<times> 'v" where
  "bounds_loop lt [] acc = acc"
| "bounds_loop lt (v # vs) (minVal, maxVal) =
     bounds_loop lt vs (if lt v minVal then v else minVal, if lt maxVal v then v else maxVal)"

text \<open>\<open>strconv.FormatInt(n, 10)\<close>.\<close>

definition FormatInt :: "int \<Rightarrow> bytes" where
  "FormatInt n = (if n < 0 then 45 # map of_char (dec (nat (- n))) else map of_char (dec (nat n)))"

definition int64ColumnStats :: "bytes \<Rightarrow> u64 list \<Rightarrow> ColumnStats" where
  "int64ColumnStats name vals =
     (case vals of
        [] \<Rightarrow> \<lparr>st_Name = name, st_MinValue = [], st_MaxValue = [], st_Count = 0, st_NullCount = 0\<rparr>
      | v # vs \<Rightarrow>
          (case bounds_loop (<s) vs (v, v) of
             (minVal, maxVal) \<Rightarrow>
               \<lparr>st_Name = name, st_MinValue = FormatInt (sint minVal), st_MaxValue = FormatInt (sint maxVal),
                st_Count = length vals, st_NullCount = 0\<rparr>))"

text \<open>\<open>fmt\<close> is \<^verbatim>\<open>strconv.FormatFloat\<close> with the shortest exact format, \<open>lt\<close> the order of float64.\<close>

definition float64ColumnStats ::
  "(u64 \<Rightarrow> u64 \<Rightarrow> bool) \<Rightarrow> (u64 \<Rightarrow> bytes) \<Rightarrow> bytes \<Rightarrow> u64 list \<Rightarrow> ColumnStats"
where
  "float64ColumnStats lt fmt name vals =
     (case vals of
        [] \<Rightarrow> \<lparr>st_Name = name, st_MinValue = [], st_MaxValue = [], st_Count = 0, st_NullCount = 0\<rparr>
      | v # vs \<Rightarrow>
          (case bounds_loop lt vs (v, v) of
             (minVal, maxVal) \<Rightarrow>
               \<lparr>st_Name = name, st_MinValue = fmt minVal, st_MaxValue = fmt maxVal,
                st_Count = length vals, st_NullCount = 0\<rparr>))"

subsection \<open>Writing a chunk\<close>

text \<open>
  Every write method ends the same way: optional block compression of an encoded column of more
  than 64 bytes, the offset and checksum, the write, and the metadata with the statistics.
\<close>

definition finish_chunk ::
  "lz4 \<Rightarrow> zstd \<Rightarrow> u8 \<Rightarrow> bool \<Rightarrow> bytes \<Rightarrow> u8 \<Rightarrow> ColumnStats \<Rightarrow> bytes \<Rightarrow> ColumnChunkMeta \<times> bytes"
where
  "finish_chunk Z S level2 skipLayer2 out encoding stat data =
     (let (data', compression) =
            (if \<not> skipLayer2 \<and> length data > 64
             then (case compressLayer2 Z S level2 data of None \<Rightarrow> (data, CompressionNone) | Some c \<Rightarrow> c)
             else (data, CompressionNone))
      in (\<lparr>cm_Name = st_Name stat, cm_EncodingType = encoding, cm_Compression = compression,
           cm_Offset = word_of_nat (length out), cm_Length = word_of_nat (length data'),
           cm_RawSize = word_of_nat (length data), cm_CRC32 = ChecksumIEEE data',
           cm_MinValue = st_MinValue stat, cm_MaxValue = st_MaxValue stat,
           cm_Count = word_of_nat (st_Count stat), cm_NullCount = word_of_nat (st_NullCount stat)\<rparr>,
          out @ data'))"

definition writeStringChunk ::
  "lz4 \<Rightarrow> zstd \<Rightarrow> u8 \<Rightarrow> bytes \<Rightarrow> bytes \<Rightarrow> gostring list \<Rightarrow> u8 \<Rightarrow> bool \<Rightarrow> (ColumnChunkMeta \<times> bytes) chunk"
where
  "writeStringChunk Z S level2 out name vals preferredEnc skipLayer2 =
     (let encode = (if preferredEnc = EncodingLZ4 then LZ4_EncodeStrings Z else Dict_EncodeStrings) in
      (case (case encode vals of
               Inr data \<Rightarrow> Inr (data, skipLayer2)
             | Inl _ \<Rightarrow> (case LZ4_EncodeStrings Z vals of
                           Inl e \<Rightarrow> Inl (ChunkColumn e)
                         | Inr data \<Rightarrow> Inr (data, True))) of
         Inl e \<Rightarrow> Inl e
       | Inr (data, skip) \<Rightarrow>
           let actualEncoding = data ! 0 in
           Inr (finish_chunk Z S level2 (skip \<or> actualEncoding = EncodingLZ4) out actualEncoding
                  (stringColumnStats name vals) data)))"

definition writeInt64Chunk ::
  "lz4 \<Rightarrow> zstd \<Rightarrow> u8 \<Rightarrow> bytes \<Rightarrow> bytes \<Rightarrow> u64 list \<Rightarrow> (ColumnChunkMeta \<times> bytes) chunk"
where
  "writeInt64Chunk Z S level2 out name vals =
     (case Delta_EncodeInt64s vals of
        Inl e \<Rightarrow> Inl (ChunkColumn e)
      | Inr data \<Rightarrow> Inr (finish_chunk Z S level2 False out EncodingDelta (int64ColumnStats name vals) data))"

definition writeFloat64Chunk ::
  "(u64 \<Rightarrow> u64 \<Rightarrow> bool) \<Rightarrow> (u64 \<Rightarrow> bytes) \<Rightarrow> lz4 \<Rightarrow> zstd \<Rightarrow> u8 \<Rightarrow> bytes \<Rightarrow> bytes \<Rightarrow> u64 list
     \<Rightarrow> (ColumnChunkMeta \<times> bytes) chunk"
where
  "writeFloat64Chunk lt fmt Z S level2 out name vals =
     (case Gorilla_EncodeFloat64s vals of
        Inl e \<Rightarrow> Inl (ChunkColumn e)
      | Inr data \<Rightarrow>
          Inr (finish_chunk Z S level2 False out EncodingGorilla (float64ColumnStats lt fmt name vals) data))"

definition writeDurationChunk ::
  "lz4 \<Rightarrow> zstd \<Rightarrow> u8 \<Rightarrow> bytes \<Rightarrow> bytes \<Rightarrow> u64 list \<Rightarrow> (ColumnChunkMeta \<times> bytes) chunk"
where
  "writeDurationChunk Z S level2 out name vals =
     (case Delta_EncodeInt64s vals of
        Inl e \<Rightarrow> Inl (ChunkColumn e)
      | Inr data \<Rightarrow> Inr (finish_chunk Z S level2 False out EncodingDeltaDuration (int64ColumnStats name vals) data))"

subsection \<open>Reading a chunk\<close>

definition readChunk :: "lz4 \<Rightarrow> zstd \<Rightarrow> Reader \<Rightarrow> ColumnChunkMeta \<Rightarrow> bytes chunk" where
  "readChunk Z S r cc =
     (let start = cm_Offset cc; stop = cm_Offset cc + cm_Length cc in
      if start <s 0 \<or> cm_Length cc <s 0 \<or> stop <s start \<or> sint stop > int (length (rd_data r))
      then Inl (ChunkSegment ErrCorruptSegment)
      else let chunkData = slice (rd_data r) (unat start) (unat stop) in
        if ChecksumIEEE chunkData \<noteq> cm_CRC32 cc then Inl (ChunkSegment ErrChecksumMismatch)
        else if cm_Compression cc = CompressionNone then Inr chunkData
        else if cm_Compression cc = CompressionLZ4 then decompressLZ4Block Z chunkData
        else if cm_Compression cc = CompressionZSTD then
          if f_RequiredCaps (rd_footer r) AND CapBit_ColumnZSTD = 0 then Inl (ChunkSegment ErrCorruptSegment)
          else decompressZSTDBlock S chunkData
        else Inl (ChunkUnsupportedCompression (cm_Compression cc)))"

definition lift_col :: "'a col \<Rightarrow> 'a chunk" where
  "lift_col x = (case x of Inl e \<Rightarrow> Inl (ChunkColumn e) | Inr v \<Rightarrow> Inr v)"

definition readStringsFromChunk :: "lz4 \<Rightarrow> zstd \<Rightarrow> Reader \<Rightarrow> ColumnChunkMeta \<Rightarrow> gostring list chunk" where
  "readStringsFromChunk Z S r cc =
     (case readChunk Z S r cc of
        Inl e \<Rightarrow> Inl e
      | Inr data \<Rightarrow>
          if cm_EncodingType cc = EncodingDict8 \<or> cm_EncodingType cc = EncodingDict16
          then lift_col (Dict_DecodeStrings data)
          else if cm_EncodingType cc = EncodingLZ4 then lift_col (LZ4_DecodeStrings Z data)
          else Inl (ChunkSegment ErrCorruptSegment))"

definition readInt64sFromChunk :: "lz4 \<Rightarrow> zstd \<Rightarrow> Reader \<Rightarrow> ColumnChunkMeta \<Rightarrow> u64 list chunk" where
  "readInt64sFromChunk Z S r cc =
     (case readChunk Z S r cc of
        Inl e \<Rightarrow> Inl e
      | Inr data \<Rightarrow>
          if cm_EncodingType cc \<noteq> EncodingDelta \<and> cm_EncodingType cc \<noteq> EncodingDeltaDuration
          then Inl (ChunkSegment ErrCorruptSegment)
          else lift_col (Delta_DecodeInt64s data))"

definition readFloat64sFromChunk :: "lz4 \<Rightarrow> zstd \<Rightarrow> Reader \<Rightarrow> ColumnChunkMeta \<Rightarrow> u64 list chunk" where
  "readFloat64sFromChunk Z S r cc =
     (case readChunk Z S r cc of
        Inl e \<Rightarrow> Inl e
      | Inr data \<Rightarrow>
          if cm_EncodingType cc \<noteq> EncodingGorilla then Inl (ChunkSegment ErrCorruptSegment)
          else lift_col (Gorilla_DecodeFloat64s data))"

subsection \<open>A chunk is read back\<close>

lemma compressLZ4Block_roundtrip:
  assumes "lz4_laws Z" and "length data \<le> maxDecompressedBlockBytes" and "compressLZ4Block Z data = Some c"
  shows "decompressLZ4Block Z c = Inr data"
proof -
  obtain e where e: "lz_compress Z data = Some e" "e \<noteq> []" "length e < length data"
    "c = PutUint32 (word_of_nat (length data)) @ PutUint32 (word_of_nat (length e)) @ e"
    using assms(3) by (auto simp: compressLZ4Block_def split: option.splits if_splits)
  have "lz_uncompress Z e (length data) = Some data" using assms(1) e(1,2) by (simp add: lz4_laws_def)
  moreover have len: "length data < 2 ^ 32" "length e < 2 ^ 32" "8 + length e < 2 ^ 32"
    using assms(2) e(3) by (simp_all add: maxDecompressedBlockBytes_def)
  moreover have "unat (8 + word_of_nat (length e) :: u32) = 8 + length e" "\<not> 8 + word_of_nat (length e) < (8 :: u32)"
    using len(3) unat_of_nat [of "8 + length e", where ?'a = 32] by (simp_all add: word_less_nat_alt)
  ultimately show ?thesis
    using assms(2) by (simp add: decompressLZ4Block_def e(4) slice_def)
qed

lemma compressZSTDBlock_roundtrip:
  assumes "zstd_laws S" and "compressZSTDBlock S data = Some c"
  shows "decompressZSTDBlock S c = Inr data"
proof -
  obtain e where "zs_encode S data = Some e" "c = PutUint32 (word_of_nat (length data)) @ e"
    using assms(2) by (auto simp: compressZSTDBlock_def split: option.splits if_splits)
  with assms(1) show ?thesis by (simp add: zstd_laws_def decompressZSTDBlock_def)
qed

text \<open>The reader's file holds what was written between two states of the output.\<close>

definition written_in :: "Reader \<Rightarrow> bytes \<Rightarrow> bytes \<Rightarrow> bool" where
  "written_in r out out' \<longleftrightarrow> length out' \<le> length (rd_data r) \<and> length (rd_data r) < 2 ^ 63 \<and>
     slice (rd_data r) (length out) (length out') = drop (length out) out'"

lemma int64_of_nat:
  assumes "n < 2 ^ 63"
  shows "sint (word_of_nat n :: u64) = int n" "unat (word_of_nat n :: u64) = n" "\<not> (word_of_nat n :: u64) <s 0"
proof -
  show *: "sint (word_of_nat n :: u64) = int n" using assms
    by (simp add: signed_of_nat signed_take_bit_int_eq_self)
  show "unat (word_of_nat n :: u64) = n" using assms by (simp add: unat_of_nat)
  show "\<not> (word_of_nat n :: u64) <s 0" using * by (simp add: word_sless_alt)
qed

lemma readChunk_finish:
  assumes laws: "lz4_laws Z" "zstd_laws S" and fin: "finish_chunk Z S level2 skip out enc stat data = (cc, out')"
    and size: "length data \<le> maxDecompressedBlockBytes" and img: "written_in r out out'"
    and caps: "cm_Compression cc = CompressionZSTD \<Longrightarrow> f_RequiredCaps (rd_footer r) AND CapBit_ColumnZSTD \<noteq> 0"
  shows "readChunk Z S r cc = Inr data"
proof -
  define c where "c = (if \<not> skip \<and> length data > 64
      then (case compressLayer2 Z S level2 data of None \<Rightarrow> (data, CompressionNone) | Some c \<Rightarrow> c)
      else (data, CompressionNone))"
  have cc: "cm_Compression cc = snd c" "cm_Offset cc = word_of_nat (length out)" "cm_Length cc = word_of_nat (length (fst c))"
    "cm_CRC32 cc = ChecksumIEEE (fst c)" "out' = out @ fst c"
    using fin by (auto simp: finish_chunk_def c_def Let_def split: prod.splits)
  have len: "length out < 2 ^ 63" "length (fst c) < 2 ^ 63" "length out + length (fst c) < 2 ^ 63"
    "length out + length (fst c) \<le> length (rd_data r)"
    using img by (simp_all add: written_in_def cc(5))
  have stop: "cm_Offset cc + cm_Length cc = word_of_nat (length out + length (fst c))" by (simp add: cc)
  have "slice (rd_data r) (length out) (length out + length (fst c)) = fst c"
    using img by (simp add: written_in_def cc(5))
  moreover have "\<not> cm_Offset cc + cm_Length cc <s cm_Offset cc"
    using int64_of_nat(1) [OF len(1)] int64_of_nat(1) [OF len(3)] by (simp add: cc(2,3) word_sless_alt)
  ultimately have "readChunk Z S r cc =
      (if snd c = CompressionNone then Inr (fst c)
       else if snd c = CompressionLZ4 then decompressLZ4Block Z (fst c)
       else if snd c = CompressionZSTD then
         if f_RequiredCaps (rd_footer r) AND CapBit_ColumnZSTD = 0 then Inl (ChunkSegment ErrCorruptSegment)
         else decompressZSTDBlock S (fst c)
       else Inl (ChunkUnsupportedCompression (snd c)))"
    using int64_of_nat [OF len(1)] int64_of_nat [OF len(2)] int64_of_nat [OF len(3)] len(4)
    unfolding readChunk_def Let_def stop by (simp add: cc)
  moreover have "c = (data, CompressionNone) \<or> (snd c = CompressionLZ4 \<and> compressLZ4Block Z data = Some (fst c))
      \<or> (snd c = CompressionZSTD \<and> compressZSTDBlock S data = Some (fst c))"
    by (auto simp: c_def compressLayer2_def split: option.splits)
  ultimately show ?thesis
    using compressLZ4Block_roundtrip [OF laws(1) size] compressZSTDBlock_roundtrip [OF laws(2)] caps
    by (auto simp: cc(1) compression_tags)
qed

subsection \<open>Size of the encoded columns\<close>

lemma length_put_strings_sum: "length (put_strings ss) = (\<Sum>s \<leftarrow> ss. 4 + length s)"
  by (induction ss) (simp_all add: put_strings_def put_string_def)

lemma sum_set_le_sum_list: "(\<Sum>x \<in> set xs. f x) \<le> (\<Sum>x \<leftarrow> xs. f x)" for f :: "'a \<Rightarrow> nat"
  by (induction xs) (auto simp: sum.insert_if intro: trans_le_add2)

lemma length_put_strings_distinct:
  assumes "distinct xs" and "set xs = set ys"
  shows "length (put_strings xs) \<le> length (put_strings ys)"
  using assms sum_set_le_sum_list [of "\<lambda>s. 4 + length s" ys]
  by (simp add: length_put_strings_sum sum_list_distinct_conv_sum_set)

lemma Dict_encoded_size:
  assumes "dict_representable vs" and "Dict_EncodeStrings vs = Inr d" and "length (put_strings vs) \<le> 2 ^ 29"
  shows "length d \<le> maxDecompressedBlockBytes"
proof -
  obtain dict order where L: "dict_layout vs d dict order" by (rule Dict_layout [OF assms(1,2)])
  note D = dict_layoutD [OF L]
  have "distinct order" using D(1) by (simp add: dict_inv_def)
  then have "length (put_strings order) \<le> length (put_strings vs)" using D(2) by (rule length_put_strings_distinct)
  moreover have "length d \<le> 9 + length (put_strings order) + 2 * length vs" by (simp add: D(8))
  moreover have "4 * length vs \<le> length (put_strings vs)" by (rule length_put_strings)
  ultimately show ?thesis using assms(3) by (simp add: maxDecompressedBlockBytes_def)
qed

lemma LZ4_encoded_size:
  assumes "LZ4_EncodeStrings Z vs = Inr d" and "length (put_strings vs) \<le> 2 ^ 29"
  shows "length d \<le> maxDecompressedBlockBytes"
  using assms by (auto simp: LZ4_EncodeStrings_def maxDecompressedBlockBytes_def Let_def split: if_splits option.splits)

subsection \<open>Zone maps\<close>

text \<open>Bounds that enclose a set of values and are values of it.\<close>

definition encloses :: "gostring \<times> gostring \<Rightarrow> gostring set \<Rightarrow> bool" where
  "encloses ab A \<longleftrightarrow> fst ab \<in> A \<and> snd ab \<in> A \<and> (\<forall>v \<in> A. fst ab \<le> v \<and> v \<le> snd ab)"

lemma string_stats_loop_encloses:
  assumes "string_stats_loop vs nulls acc = (nulls', acc')"
    and "case acc of None \<Rightarrow> A = {} | Some ab \<Rightarrow> encloses ab A"
  shows "nulls' = nulls + length (filter (\<lambda>v. v = []) vs) \<and>
    (case acc' of None \<Rightarrow> A \<union> (set vs - {[]}) = {} | Some ab \<Rightarrow> encloses ab (A \<union> (set vs - {[]})))"
  using assms
proof (induction vs arbitrary: nulls acc A)
  case (Cons v vs)
  show ?case
  proof (cases "v = []")
    case True
    then have eq: "set (v # vs) - {[]} = set vs - {[]}" by auto
    show ?thesis using Cons.IH [of "nulls + 1" acc A] Cons.prems True unfolding eq by simp
  next
    case False
    define acc1 where "acc1 = (case acc of None \<Rightarrow> (v, v)
      | Some (a, b) \<Rightarrow> (if v < a then v else a, if v > b then v else b))"
    have "string_stats_loop vs nulls (Some acc1) = (nulls', acc')"
      using Cons.prems(1) False by (auto simp: acc1_def split: option.splits)
    moreover have "encloses acc1 (insert v A)"
      using Cons.prems(2) by (auto simp: acc1_def encloses_def split: option.splits)
    moreover have eq: "A \<union> (set (v # vs) - {[]}) = insert v A \<union> (set vs - {[]})" using False by auto
    ultimately show ?thesis using Cons.IH [of nulls "Some acc1" "insert v A"] False unfolding eq by simp
  qed
qed (auto split: option.splits)

lemma stringColumnStats_bounds:
  assumes "v \<in> set vs" and "v \<noteq> []"
  shows "st_MinValue (stringColumnStats name vs) \<le> v" "v \<le> st_MaxValue (stringColumnStats name vs)"
    and "st_MinValue (stringColumnStats name vs) \<in> set vs" "st_MaxValue (stringColumnStats name vs) \<in> set vs"
proof -
  obtain nulls acc where l: "string_stats_loop vs 0 None = (nulls, acc)" by force
  from string_stats_loop_encloses [OF l, of "{}"] assms obtain ab where "acc = Some ab" "encloses ab (set vs - {[]})"
    by (auto split: option.splits)
  with l assms show "st_MinValue (stringColumnStats name vs) \<le> v" "v \<le> st_MaxValue (stringColumnStats name vs)"
    "st_MinValue (stringColumnStats name vs) \<in> set vs" "st_MaxValue (stringColumnStats name vs) \<in> set vs"
    by (auto simp: stringColumnStats_def encloses_def split: prod.splits)
qed

lemma stringColumnStats_nulls: "st_NullCount (stringColumnStats name vs) = length (filter (\<lambda>v. v = []) vs)"
proof -
  obtain nulls acc where l: "string_stats_loop vs 0 None = (nulls, acc)" by force
  from string_stats_loop_encloses [OF l, of "{}"] l show ?thesis by (simp add: stringColumnStats_def)
qed

lemma bounds_loop_spec:
  fixes key :: "'v \<Rightarrow> int"
  assumes "\<And>a b. lt a b \<longleftrightarrow> key a < key b" and "bounds_loop lt vs (a, b) = (a', b')"
  shows "key a' \<le> key a \<and> key b \<le> key b' \<and> a' \<in> insert a (set vs) \<and> b' \<in> insert b (set vs) \<and>
    (\<forall>v \<in> set vs. key a' \<le> key v \<and> key v \<le> key b')"
  using assms(2)
proof (induction vs arbitrary: a b)
  case (Cons v vs)
  from Cons.IH [of "if lt v a then v else a" "if lt b v then v else b"] Cons.prems show ?case
    by (auto simp: assms(1) split: if_splits)
qed simp

lemma int64ColumnStats_bounds:
  assumes "v \<in> set vs"
  obtains a b where "a \<in> set vs" "b \<in> set vs" "sint a \<le> sint v" "sint v \<le> sint b"
    "st_MinValue (int64ColumnStats name vs) = FormatInt (sint a)" "st_MaxValue (int64ColumnStats name vs) = FormatInt (sint b)"
proof -
  obtain x xs where vs: "vs = x # xs" using assms by (cases vs) auto
  obtain a b where l: "bounds_loop (<s) xs (x, x) = (a, b)" by force
  have "sint a \<le> sint v" "sint v \<le> sint b" "a \<in> set vs" "b \<in> set vs"
    using bounds_loop_spec [of "(<s)" sint, OF word_sless_alt l] assms by (auto simp: vs)
  with l that show thesis by (simp add: int64ColumnStats_def vs)
qed

subsection \<open>Properties\<close>

definition zstd_allowed :: "Reader \<Rightarrow> ColumnChunkMeta \<Rightarrow> bool" where
  "zstd_allowed r cc \<longleftrightarrow>
     (if cm_Compression cc = CompressionZSTD then f_RequiredCaps (rd_footer r) AND CapBit_ColumnZSTD \<noteq> 0 else True)"

lemma writeStringChunk_cases:
  assumes "lz4_laws Z" and "vs \<noteq> []" and "length (put_strings vs) \<le> 2 ^ 29"
  obtains data skip' where
    "writeStringChunk Z S level2 out name vs enc skip =
       Inr (finish_chunk Z S level2 skip' out (data ! 0) (stringColumnStats name vs) data)"
    "length data \<le> maxDecompressedBlockBytes"
    "(data ! 0 = EncodingLZ4 \<and> LZ4_DecodeStrings Z data = Inr vs) \<or>
     (data ! 0 \<in> {EncodingDict8, EncodingDict16} \<and> Dict_DecodeStrings data = Inr vs)"
proof -
  have rep: "lz4_representable vs" using assms(3) by (simp add: lz4_representable_def maxDecodedColumnBytes_def)
  obtain l where l: "LZ4_EncodeStrings Z vs = Inr l" using LZ4_EncodeStrings_total [OF assms(1,2)] by blast
  note lz = LZ4_encoded_size [OF l assms(3)] LZ4_decode_encode [OF assms(1) rep l] LZ4_EncodeStrings_tag [OF l]
  show thesis
  proof (cases "enc \<noteq> EncodingLZ4 \<and> card (set vs) \<le> 65536")
    case True
    then obtain d where d: "Dict_EncodeStrings vs = Inr d" using Dict_EncodeStrings_cases [OF assms(2)] by auto
    have dr: "dict_representable vs"
      using lz4_representableD [OF rep] True by (simp add: dict_representable_def)
    obtain dict order where L: "dict_layout vs d dict order" by (rule Dict_layout [OF dr d])
    have "d ! 0 \<in> {EncodingDict8, EncodingDict16}" using dict_layoutD(5) [OF L] by simp
    with d True Dict_encoded_size [OF dr d assms(3)] Dict_decode_encode [OF dr d] that [of "skip \<or> d ! 0 = EncodingLZ4" d]
    show thesis by (simp add: writeStringChunk_def Let_def)
  next
    case False
    then have "enc = EncodingLZ4 \<or> Dict_EncodeStrings vs = Inl ErrTooManyUnique"
      using Dict_EncodeStrings_cases [OF assms(2)] by (auto split: if_splits)
    with l lz that [of True l] show thesis by (auto simp: writeStringChunk_def Let_def)
  qed
qed

text \<open>
  (C10) String columns survive the file: whatever encoding is asked for, a string column of up to
  512 MiB is written (with the fallback from the dictionary to LZ4 when there are too many distinct
  values, and with any block compression), every file that holds the written bytes at their place
  gives the column back through the bounds check, the checksum and both decoders, and the zone map
  encloses exactly the non-empty values.
\<close>

theorem string_chunk_roundtrip:
  assumes "lz4_laws Z" and "zstd_laws S" and "vs \<noteq> []" and "length (put_strings vs) \<le> 2 ^ 29"
  shows "\<exists>cc out'. writeStringChunk Z S level2 out name vs enc skip = Inr (cc, out') \<and>
    (\<forall>r. written_in r out out' \<longrightarrow> zstd_allowed r cc \<longrightarrow> readStringsFromChunk Z S r cc = Inr vs) \<and>
    (\<forall>v \<in> set vs. v \<noteq> [] \<longrightarrow> cm_MinValue cc \<le> v \<and> v \<le> cm_MaxValue cc \<and> cm_MinValue cc \<in> set vs \<and> cm_MaxValue cc \<in> set vs)"
proof -
  obtain data skip' where
    w: "writeStringChunk Z S level2 out name vs enc skip =
       Inr (finish_chunk Z S level2 skip' out (data ! 0) (stringColumnStats name vs) data)"
    and size: "length data \<le> maxDecompressedBlockBytes"
    and dec: "(data ! 0 = EncodingLZ4 \<and> LZ4_DecodeStrings Z data = Inr vs) \<or>
     (data ! 0 \<in> {EncodingDict8, EncodingDict16} \<and> Dict_DecodeStrings data = Inr vs)"
    by (rule writeStringChunk_cases [OF assms(1,3,4)])
  obtain cc out' where f: "finish_chunk Z S level2 skip' out (data ! 0) (stringColumnStats name vs) data = (cc, out')" by force
  have cc: "cm_EncodingType cc = data ! 0" "cm_MinValue cc = st_MinValue (stringColumnStats name vs)"
    "cm_MaxValue cc = st_MaxValue (stringColumnStats name vs)"
    using f by (auto simp: finish_chunk_def Let_def split: prod.splits)
  have "readStringsFromChunk Z S r cc = Inr vs" if "written_in r out out'" "zstd_allowed r cc" for r
  proof -
    have "readChunk Z S r cc = Inr data"
      by (rule readChunk_finish [OF assms(1,2) f size that(1)]) (use that(2) in \<open>simp add: zstd_allowed_def\<close>)
    with dec show ?thesis by (auto simp: readStringsFromChunk_def cc lift_col_def encoding_tags)
  qed
  with w f stringColumnStats_bounds [of _ vs name] show ?thesis by (auto simp: cc)
qed

definition small_zstd :: zstd where "small_zstd = \<lparr>zs_encode = Some, zs_decode = Some\<rparr>"

lemma small_zstd_laws: "zstd_laws small_zstd"
  by (simp add: zstd_laws_def small_zstd_def)

lemma string_chunk_example:
  "\<exists>out'. length out' = 21 \<and> writeStringChunk (one_block_lz4 []) small_zstd 2 [] [120] [[98], [97]] EncodingDict8 False =
     Inr (\<lparr>cm_Name = [120], cm_EncodingType = EncodingDict8, cm_Compression = CompressionNone, cm_Offset = 0,
       cm_Length = 21, cm_RawSize = 21, cm_CRC32 = ChecksumIEEE out', cm_MinValue = [97], cm_MaxValue = [98],
       cm_Count = 2, cm_NullCount = 0\<rparr>, out')"
  by (simp add: writeStringChunk_def Dict_EncodeStrings_def Let_def finish_chunk_def stringColumnStats_def put_strings_def
      put_string_def put_indices8_def encoding_tags)

theorem string_chunk_roundtrip_witness:
  "\<exists>cc out'. writeStringChunk (one_block_lz4 []) small_zstd 2 [] [120] [[98], [97]] EncodingDict8 False = Inr (cc, out') \<and>
    readStringsFromChunk (one_block_lz4 []) small_zstd
      \<lparr>rd_data = out', rd_major = 2, rd_footer = example_footer, rd_columnIndex = Map.empty\<rparr> cc = Inr [[98], [97]]"
proof -
  obtain cc out' where w: "writeStringChunk (one_block_lz4 []) small_zstd 2 [] [120] [[98], [97]] EncodingDict8 False = Inr (cc, out')"
    and r: "\<forall>r. written_in r [] out' \<longrightarrow> zstd_allowed r cc \<longrightarrow> readStringsFromChunk (one_block_lz4 []) small_zstd r cc = Inr [[98], [97]]"
    using string_chunk_roundtrip [OF one_block_lz4_laws small_zstd_laws, of "[[98], [97]]" "[]" 2 "[]" "[120]" EncodingDict8 False]
    by (auto simp: put_strings_def put_string_def)
  let ?r = "\<lparr>rd_data = out', rd_major = 2, rd_footer = example_footer, rd_columnIndex = Map.empty\<rparr>"
  have "zstd_allowed ?r cc" "length out' = 21"
    using w string_chunk_example by (auto simp: zstd_allowed_def compression_tags)
  then have "written_in ?r [] out'" by (simp add: written_in_def)
  with r w \<open>zstd_allowed ?r cc\<close> show ?thesis by blast
qed

text \<open>
  (C28) Numeric columns survive the file: integer, duration and float columns whose encoding is at most
  1 GiB are read back from every file that holds the written bytes, with any block compression. The
  zone map of an integer column is the decimal form of its least and greatest value.
\<close>

theorem numeric_chunk_roundtrip:
  assumes "lz4_laws Z" and "zstd_laws S" and "length vs < 2 ^ 32"
    and "Delta_EncodeInt64s vs = Inr d" and "length d \<le> maxDecompressedBlockBytes"
    and "Gorilla_EncodeFloat64s vs = Inr g" and "length g \<le> maxDecompressedBlockBytes"
    and "written_in r out out'" and "zstd_allowed r cc"
  shows "(writeInt64Chunk Z S level2 out name vs = Inr (cc, out') \<longrightarrow> readInt64sFromChunk Z S r cc = Inr vs \<and>
      (\<forall>v \<in> set vs. \<exists>a \<in> set vs. \<exists>b \<in> set vs. sint a \<le> sint v \<and> sint v \<le> sint b \<and>
         cm_MinValue cc = FormatInt (sint a) \<and> cm_MaxValue cc = FormatInt (sint b))) \<and>
    (writeDurationChunk Z S level2 out name vs = Inr (cc, out') \<longrightarrow> readInt64sFromChunk Z S r cc = Inr vs) \<and>
    (writeFloat64Chunk lt fmt Z S level2 out name vs = Inr (cc, out') \<longrightarrow> readFloat64sFromChunk Z S r cc = Inr vs)"
proof -
  have read: "readChunk Z S r cc = Inr data \<and> cm_EncodingType cc = tag \<and> cm_MinValue cc = st_MinValue stat
      \<and> cm_MaxValue cc = st_MaxValue stat"
    if f: "finish_chunk Z S level2 False out tag stat data = (cc, out')" and "length data \<le> maxDecompressedBlockBytes" for tag stat data
  proof -
    have "readChunk Z S r cc = Inr data"
      by (rule readChunk_finish [OF assms(1,2) f that(2) assms(8)]) (use assms(9) in \<open>simp add: zstd_allowed_def\<close>)
    then show ?thesis using f by (auto simp: finish_chunk_def Let_def split: prod.splits)
  qed
  have "Delta_DecodeInt64s d = Inr vs" "Gorilla_DecodeFloat64s g = Inr vs"
    using assms(3-7) by (simp_all add: Delta_decode_encode Gorilla_decode_encode delta_representable_def gorilla_representable_def)
  moreover have "\<exists>a \<in> set vs. \<exists>b \<in> set vs. sint a \<le> sint v \<and> sint v \<le> sint b \<and>
      st_MinValue (int64ColumnStats name vs) = FormatInt (sint a) \<and> st_MaxValue (int64ColumnStats name vs) = FormatInt (sint b)"
    if "v \<in> set vs" for v
    by (rule int64ColumnStats_bounds [OF that]) blast
  ultimately show ?thesis
    using read assms(4-7)
    by (auto simp: writeInt64Chunk_def writeDurationChunk_def writeFloat64Chunk_def readInt64sFromChunk_def
        readFloat64sFromChunk_def lift_col_def encoding_tags)
qed

theorem numeric_chunk_roundtrip_witness:
  "\<exists>cc out'. writeInt64Chunk (one_block_lz4 []) small_zstd 2 [] [120] [5] = Inr (cc, out') \<and>
    readInt64sFromChunk (one_block_lz4 []) small_zstd
      \<lparr>rd_data = out', rd_major = 2, rd_footer = example_footer, rd_columnIndex = Map.empty\<rparr> cc = Inr [5]"
proof -
  obtain d where d: "Delta_EncodeInt64s [5] = Inr d" "length d = 13" by (simp add: Delta_EncodeInt64s_def)
  obtain g where g: "Gorilla_EncodeFloat64s [5] = Inr g" "length g \<le> maxDecompressedBlockBytes"
  proof -
    have "case Gorilla_EncodeFloat64s [5] of Inl _ \<Rightarrow> False | Inr g \<Rightarrow> length g = 13" by code_simp
    with that show thesis by (auto simp: maxDecompressedBlockBytes_def split: sum.splits)
  qed
  obtain cc where w: "writeInt64Chunk (one_block_lz4 []) small_zstd 2 [] [120] [5] = Inr (cc, d)"
    "cm_Compression cc = CompressionNone"
    using d by (simp add: writeInt64Chunk_def finish_chunk_def Let_def)
  let ?r = "\<lparr>rd_data = d, rd_major = 2, rd_footer = example_footer, rd_columnIndex = Map.empty\<rparr>"
  have "written_in ?r [] d" "zstd_allowed ?r cc"
    using d(2) w(2) by (simp_all add: written_in_def zstd_allowed_def compression_tags)
  from numeric_chunk_roundtrip [OF one_block_lz4_laws small_zstd_laws _ d(1) _ g this] d(2) w(1) show ?thesis
    by (auto simp: maxDecompressedBlockBytes_def)
qed

end
