(* ===== verification/Row_Predicate.thy ===== *)
theory Row_Predicate
  imports Column_Chunk Range_Value
begin

text \<open>
  Predicates on the rows of a row group: \<^verbatim>\<open>src/pkg/storage/segment/int_predicate.go\<close> and, of \<^verbatim>\<open>reader.go\<close>, the
  lookups in the metadata of a row group, the evaluation of one value and
  \<open>predicateBitmapForRowGroup\<close>, which picks the selected rows that satisfy a predicate from the
  encoded column.

  \<^verbatim>\<open>strconv.ParseFloat\<close> is the parameter \<open>pf\<close>: the bit pattern of the parsed value, \<open>None\<close> for an
  error. \<^verbatim>\<open>strconv.ParseInt\<close> with base 10 is defined. The column cache is not set: a cached column is
  the decoded column.
\<close>

subsection \<open>Operators and numbers\<close>

definition op_eq :: bytes where "op_eq = [61]"
definition op_eqeq :: bytes where "op_eqeq = [61, 61]"
definition op_ne :: bytes where "op_ne = [33, 61]"
definition op_lt :: bytes where "op_lt = [60]"
definition op_le :: bytes where "op_le = [60, 61]"
definition op_gt :: bytes where "op_gt = [62]"
definition op_ge :: bytes where "op_ge = [62, 61]"
definition op_in :: bytes where "op_in = [105, 110]"

lemmas op_defs = op_eq_def op_eqeq_def op_ne_def op_lt_def op_le_def op_gt_def op_ge_def op_in_def

fun parse_digits :: "bytes \<Rightarrow> nat \<Rightarrow> nat option" where
  "parse_digits [] acc = Some acc"
| "parse_digits (b # bs) acc =
     (if 48 \<le> b \<and> b \<le> 57 then parse_digits bs (10 * acc + (unat b - 48)) else None)"

definition ParseInt :: "bytes \<Rightarrow> int option" where
  "ParseInt s =
     (case s of
        [] \<Rightarrow> None
      | c # cs \<Rightarrow>
          let neg = (c = 45); digits = (if c = 43 \<or> c = 45 then cs else s) in
          if digits = [] then None
          else (case parse_digits digits 0 of
                  None \<Rightarrow> None
                | Some un \<Rightarrow>
                    if \<not> neg \<and> un \<ge> 2 ^ 63 then None
                    else if neg \<and> un > 2 ^ 63 then None
                    else Some (if neg then - int un else int un)))"

text \<open>Comparison of float64 values: false when one of them is not a number.\<close>

definition float_lt :: "u64 \<Rightarrow> u64 \<Rightarrow> bool" where
  "float_lt a b \<longleftrightarrow> \<not> is_NaN a \<and> \<not> is_NaN b \<and> float_value a < float_value b"

definition float_le :: "u64 \<Rightarrow> u64 \<Rightarrow> bool" where
  "float_le a b \<longleftrightarrow> \<not> is_NaN a \<and> \<not> is_NaN b \<and> float_value a \<le> float_value b"

definition float_eq :: "u64 \<Rightarrow> u64 \<Rightarrow> bool" where
  "float_eq a b \<longleftrightarrow> \<not> is_NaN a \<and> \<not> is_NaN b \<and> float_value a = float_value b"

definition is_Inf :: "u64 \<Rightarrow> bool" where
  "is_Inf f \<longleftrightarrow> float_magnitude f = 2047 * 2 ^ 52"

text \<open>The integer 1 in the scale of \<open>float_value\<close>; rounding towards minus and plus infinity.\<close>

definition float_unit :: int where "float_unit = 2 ^ 1074"
definition math_Floor :: "u64 \<Rightarrow> int" where "math_Floor f = float_value f div float_unit"
definition math_Ceil :: "u64 \<Rightarrow> int" where "math_Ceil f = - (- float_value f div float_unit)"
definition is_integral :: "u64 \<Rightarrow> bool" where "is_integral f \<longleftrightarrow> float_value f mod float_unit = 0"

subsection \<open>Predicates on int64 columns\<close>

datatype intPredicateMode = intPredicateCompare | intPredicateAlways | intPredicateNever

definition coerced_int :: "int \<Rightarrow> int \<times> intPredicateMode \<times> bool" where
  "coerced_int n =
     (if n < - (2 ^ 63) \<or> n \<ge> 2 ^ 63 then (0, intPredicateNever, False) else (n, intPredicateCompare, True))"

definition coerceIntPredicateValue ::
  "(bytes \<Rightarrow> u64 option) \<Rightarrow> bytes \<Rightarrow> bytes \<Rightarrow> int \<times> intPredicateMode \<times> bool"
where
  "coerceIntPredicateValue pf val op =
     (case ParseInt val of
        Some n \<Rightarrow> (n, intPredicateCompare, True)
      | None \<Rightarrow>
          (case pf val of
             None \<Rightarrow> (0, intPredicateNever, False)
           | Some f \<Rightarrow>
               if is_NaN f \<or> is_Inf f then (0, intPredicateNever, False)
               else if op = op_eq \<or> op = op_eqeq then
                 if \<not> is_integral f then (0, intPredicateNever, True) else coerced_int (math_Floor f)
               else if op = op_ne then
                 if \<not> is_integral f then (0, intPredicateAlways, True) else coerced_int (math_Floor f)
               else if op = op_gt then coerced_int (math_Floor f)
               else if op = op_ge then coerced_int (math_Ceil f)
               else if op = op_lt then coerced_int (math_Ceil f)
               else if op = op_le then coerced_int (math_Floor f)
               else (0, intPredicateNever, False)))"

definition evalInt64Predicate :: "int \<Rightarrow> bytes \<Rightarrow> int \<Rightarrow> bool" where
  "evalInt64Predicate val op target =
     (if op = op_eq \<or> op = op_eqeq then val = target
      else if op = op_ne then val \<noteq> target
      else if op = op_lt then val < target
      else if op = op_le then val \<le> target
      else if op = op_gt then val > target
      else if op = op_ge then val \<ge> target
      else False)"

definition int64InPredicate :: "(bytes \<Rightarrow> u64 option) \<Rightarrow> int \<Rightarrow> bytes list \<Rightarrow> bool" where
  "int64InPredicate pf val targets =
     (\<exists>t \<in> set targets. case coerceIntPredicateValue pf t op_eq of
        (n, mode, ok) \<Rightarrow> ok \<and> mode = intPredicateCompare \<and> val = n)"

subsection \<open>Predicates on strings and floats\<close>

definition evalStringPredicate :: "gostring \<Rightarrow> bytes \<Rightarrow> gostring \<Rightarrow> bool" where
  "evalStringPredicate val op target =
     (if op = op_eq \<or> op = op_eqeq then val = target
      else if op = op_ne then val \<noteq> target
      else if op = op_lt then val < target
      else if op = op_le then val \<le> target
      else if op = op_gt then val > target
      else if op = op_ge then val \<ge> target
      else False)"

definition stringInPredicate :: "gostring \<Rightarrow> gostring list \<Rightarrow> bool" where
  "stringInPredicate val targets = (\<exists>t \<in> set targets. val = t)"

definition evalFloat64Predicate :: "u64 \<Rightarrow> bytes \<Rightarrow> u64 \<Rightarrow> bool" where
  "evalFloat64Predicate val op target =
     (if op = op_eq \<or> op = op_eqeq then float_eq val target
      else if op = op_ne then \<not> float_eq val target
      else if op = op_lt then float_lt val target
      else if op = op_le then float_le val target
      else if op = op_gt then float_lt target val
      else if op = op_ge then float_le target val
      else False)"

definition float64InPredicate :: "(bytes \<Rightarrow> u64 option) \<Rightarrow> u64 \<Rightarrow> bytes list \<Rightarrow> bool" where
  "float64InPredicate pf val targets = (\<exists>t \<in> set targets. case pf t of None \<Rightarrow> False | Some f \<Rightarrow> float_eq val f)"

record Predicate =
  pd_Field :: bytes
  pd_Op :: bytes
  pd_Value :: bytes
  pd_Values :: "bytes list"

definition evalConstPredicate :: "(bytes \<Rightarrow> u64 option) \<Rightarrow> ConstColumnEntry \<Rightarrow> Predicate \<Rightarrow> bool" where
  "evalConstPredicate pf cc pred =
     (if cc_EncodingType cc = EncodingDelta then
        if pd_Op pred = op_in then
          (case ParseInt (cc_Value cc) of None \<Rightarrow> False | Some val \<Rightarrow> int64InPredicate pf val (pd_Values pred))
        else (case coerceIntPredicateValue pf (pd_Value pred) (pd_Op pred) of
                (predVal, mode, ok) \<Rightarrow>
                  if \<not> ok then False
                  else if mode = intPredicateAlways then True
                  else if mode = intPredicateNever then False
                  else (case ParseInt (cc_Value cc) of
                          None \<Rightarrow> False
                        | Some val \<Rightarrow> evalInt64Predicate val (pd_Op pred) predVal))
      else if cc_EncodingType cc = EncodingGorilla then
        if pd_Op pred = op_in then
          (case pf (cc_Value cc) of None \<Rightarrow> False | Some val \<Rightarrow> float64InPredicate pf val (pd_Values pred))
        else (case pf (pd_Value pred) of
                None \<Rightarrow> False
              | Some predVal \<Rightarrow>
                  (case pf (cc_Value cc) of
                     None \<Rightarrow> False
                   | Some val \<Rightarrow> evalFloat64Predicate val (pd_Op pred) predVal))
      else if pd_Op pred = op_in then stringInPredicate (cc_Value cc) (pd_Values pred)
      else evalStringPredicate (cc_Value cc) (pd_Op pred) (pd_Value pred))"

subsection \<open>Lookups in the metadata of a row group\<close>

definition findChunk :: "RowGroupMeta \<Rightarrow> bytes \<Rightarrow> ColumnChunkMeta option" where
  "findChunk rg name = find (\<lambda>c. cm_Name c = name) (rg_Columns rg)"

definition findConstColumn :: "RowGroupMeta \<Rightarrow> bytes \<Rightarrow> ConstColumnEntry option" where
  "findConstColumn rg name = find (\<lambda>c. cc_Name c = name) (rg_ConstColumns rg)"

text \<open>The row group at an index, if the index is valid.\<close>

definition row_group_at :: "Reader \<Rightarrow> int \<Rightarrow> RowGroupMeta option" where
  "row_group_at r rgIdx =
     (if rgIdx < 0 \<or> rgIdx \<ge> int (length (f_RowGroups (rd_footer r))) then None
      else Some (f_RowGroups (rd_footer r) ! nat rgIdx))"

definition HasColumnInRowGroup :: "Reader \<Rightarrow> int \<Rightarrow> bytes \<Rightarrow> bool" where
  "HasColumnInRowGroup r rgIdx columnName =
     (case row_group_at r rgIdx of
        None \<Rightarrow> False
      | Some rg \<Rightarrow>
          (case rd_columnIndex r columnName of
             Some idx \<Rightarrow>
               if idx < 64 then rg_ColumnPresenceBits rg AND push_bit idx 1 \<noteq> 0
               else findChunk rg columnName \<noteq> None \<or> findConstColumn rg columnName \<noteq> None
           | None \<Rightarrow> findChunk rg columnName \<noteq> None \<or> findConstColumn rg columnName \<noteq> None))"

definition GetConstValue :: "Reader \<Rightarrow> int \<Rightarrow> bytes \<Rightarrow> bytes option" where
  "GetConstValue r rgIdx columnName =
     (case row_group_at r rgIdx of
        None \<Rightarrow> None
      | Some rg \<Rightarrow> map_option cc_Value (findConstColumn rg columnName))"

definition ColumnChunkInRowGroup :: "Reader \<Rightarrow> int \<Rightarrow> bytes \<Rightarrow> ColumnChunkMeta option" where
  "ColumnChunkInRowGroup r rgIdx name =
     (case row_group_at r rgIdx of None \<Rightarrow> None | Some rg \<Rightarrow> findChunk rg name)"

subsection \<open>The bitmap of a predicate\<close>

definition scan_selected :: "'b roaring \<Rightarrow> ('v \<Rightarrow> bool) \<Rightarrow> 'v list \<Rightarrow> 'b \<Rightarrow> u32 \<Rightarrow> 'b" where
  "scan_selected R p vals selected rgStart =
     foldl (\<lambda>dst pos. let localIdx = unat (pos - rgStart) in
       if localIdx < length vals \<and> p (vals ! localIdx) then rb_add R pos dst else dst)
     (rb_new R) (rb_to_list R selected)"

definition addSelectedLocalMatches :: "'b roaring \<Rightarrow> 'b \<Rightarrow> 'b \<Rightarrow> 'b \<Rightarrow> u32 \<Rightarrow> 'b" where
  "addSelectedLocalMatches R dst localMatches selected rgStart =
     foldl (\<lambda>dst i. let pos = rgStart + i in if rb_contains R selected pos then rb_add R pos dst else dst)
     dst (rb_to_list R localMatches)"

definition int64_bitmap ::
  "'b roaring \<Rightarrow> lz4 \<Rightarrow> zstd \<Rightarrow> (bytes \<Rightarrow> u64 option) \<Rightarrow> Reader \<Rightarrow> ColumnChunkMeta \<Rightarrow> Predicate \<Rightarrow> 'b \<Rightarrow> u32 \<Rightarrow> 'b chunk"
where
  "int64_bitmap R Z S pf r cc pred selected rgStart =
     (if pd_Op pred = op_in then
        (case readInt64sFromChunk Z S r cc of
           Inl e \<Rightarrow> Inl e
         | Inr vals \<Rightarrow> Inr (scan_selected R (\<lambda>v. int64InPredicate pf (sint v) (pd_Values pred)) vals selected rgStart))
      else (case coerceIntPredicateValue pf (pd_Value pred) (pd_Op pred) of
              (predVal, mode, ok) \<Rightarrow>
                if \<not> ok then Inr (rb_new R)
                else if mode = intPredicateAlways then Inr selected
                else if mode = intPredicateNever then Inr (rb_new R)
                else (case readInt64sFromChunk Z S r cc of
                        Inl e \<Rightarrow> Inl e
                      | Inr vals \<Rightarrow>
                          Inr (scan_selected R (\<lambda>v. evalInt64Predicate (sint v) (pd_Op pred) predVal) vals selected rgStart))))"

definition string_bitmap ::
  "'b roaring \<Rightarrow> lz4 \<Rightarrow> zstd \<Rightarrow> Reader \<Rightarrow> ColumnChunkMeta \<Rightarrow> Predicate \<Rightarrow> 'b \<Rightarrow> u32 \<Rightarrow> 'b chunk"
where
  "string_bitmap R Z S r cc pred selected rgStart =
     (case readStringsFromChunk Z S r cc of
        Inl e \<Rightarrow> Inl e
      | Inr vals \<Rightarrow>
          if pd_Op pred = op_in
          then Inr (scan_selected R (\<lambda>v. stringInPredicate v (pd_Values pred)) vals selected rgStart)
          else Inr (scan_selected R (\<lambda>v. evalStringPredicate v (pd_Op pred) (pd_Value pred)) vals selected rgStart))"

text \<open>Dictionary columns answer equality and inequality from the codes.\<close>

definition dict_bitmap ::
  "'b roaring \<Rightarrow> lz4 \<Rightarrow> zstd \<Rightarrow> Reader \<Rightarrow> ColumnChunkMeta \<Rightarrow> Predicate \<Rightarrow> 'b \<Rightarrow> u32 \<Rightarrow> 'b chunk"
where
  "dict_bitmap R Z S r cc pred selected rgStart =
     (if pd_Op pred \<noteq> op_in \<and> (pd_Op pred = op_eq \<or> pd_Op pred = op_eqeq \<or> pd_Op pred = op_ne) then
        (case (case readChunk Z S r cc of Inl _ \<Rightarrow> None | Inr rawData \<Rightarrow>
                 (case NewDictFilterFromEncoded rawData of Inl _ \<Rightarrow> None | Inr df \<Rightarrow> Some df)) of
           Some df \<Rightarrow>
             Inr (addSelectedLocalMatches R (rb_new R)
                    (if pd_Op pred = op_ne then FilterNotEquality R df (pd_Value pred)
                     else FilterEquality R df (pd_Value pred)) selected rgStart)
         | None \<Rightarrow> string_bitmap R Z S r cc pred selected rgStart)
      else string_bitmap R Z S r cc pred selected rgStart)"

definition float64_bitmap ::
  "'b roaring \<Rightarrow> lz4 \<Rightarrow> zstd \<Rightarrow> (bytes \<Rightarrow> u64 option) \<Rightarrow> Reader \<Rightarrow> ColumnChunkMeta \<Rightarrow> Predicate \<Rightarrow> 'b \<Rightarrow> u32 \<Rightarrow> 'b chunk"
where
  "float64_bitmap R Z S pf r cc pred selected rgStart =
     (if pd_Op pred = op_in then
        (case readFloat64sFromChunk Z S r cc of
           Inl e \<Rightarrow> Inl e
         | Inr vals \<Rightarrow> Inr (scan_selected R (\<lambda>v. float64InPredicate pf v (pd_Values pred)) vals selected rgStart))
      else (case pf (pd_Value pred) of
              None \<Rightarrow> Inr (rb_new R)
            | Some predVal \<Rightarrow>
                (case readFloat64sFromChunk Z S r cc of
                   Inl e \<Rightarrow> Inl e
                 | Inr vals \<Rightarrow>
                     Inr (scan_selected R (\<lambda>v. evalFloat64Predicate v (pd_Op pred) predVal) vals selected rgStart))))"

text \<open>The switch on the encoding of the chunk.\<close>

definition chunk_bitmap ::
  "'b roaring \<Rightarrow> lz4 \<Rightarrow> zstd \<Rightarrow> (bytes \<Rightarrow> u64 option) \<Rightarrow> Reader \<Rightarrow> ColumnChunkMeta \<Rightarrow> Predicate \<Rightarrow> 'b \<Rightarrow> u32 \<Rightarrow> 'b chunk"
where
  "chunk_bitmap R Z S pf r cc pred sel rgStart =
     (if cm_EncodingType cc = EncodingDict8 \<or> cm_EncodingType cc = EncodingDict16
      then dict_bitmap R Z S r cc pred sel rgStart
      else if cm_EncodingType cc = EncodingLZ4
      then string_bitmap R Z S r cc pred sel rgStart
      else if cm_EncodingType cc = EncodingDelta \<or> cm_EncodingType cc = EncodingDeltaDuration
      then int64_bitmap R Z S pf r cc pred sel rgStart
      else if cm_EncodingType cc = EncodingGorilla
      then float64_bitmap R Z S pf r cc pred sel rgStart
      else if cm_EncodingType cc = EncodingMsgpackArray \<or> cm_EncodingType cc = EncodingMsgpackObject
      then Inr sel
      else Inr (rb_new R))"

definition predicateBitmapForRowGroup ::
  "'b roaring \<Rightarrow> lz4 \<Rightarrow> zstd \<Rightarrow> (bytes \<Rightarrow> u64 option) \<Rightarrow> Reader \<Rightarrow> int \<Rightarrow> RowGroupMeta \<Rightarrow> Predicate \<Rightarrow> 'b option \<Rightarrow> u32
     \<Rightarrow> 'b chunk"
where
  "predicateBitmapForRowGroup R Z S pf r rgIdx rg pred selected rgStart =
     (case selected of
        None \<Rightarrow> Inr (rb_new R)
      | Some sel \<Rightarrow>
          if rb_to_list R sel = [] then Inr (rb_new R)
          else if \<not> HasColumnInRowGroup r rgIdx (pd_Field pred) then Inr sel
          else (case findConstColumn rg (pd_Field pred) of
                  Some cc \<Rightarrow> if evalConstPredicate pf cc pred then Inr sel else Inr (rb_new R)
                | None \<Rightarrow>
                    (case findChunk rg (pd_Field pred) of
                       None \<Rightarrow> Inr sel
                     | Some cc \<Rightarrow> chunk_bitmap R Z S pf r cc pred sel rgStart)))"

subsection \<open>Reading with predicates\<close>

text \<open>The absolute number of the first row of a row group, in 32 bits.\<close>

definition row_group_start :: "Reader \<Rightarrow> nat \<Rightarrow> u32" where
  "row_group_start r i = foldl (\<lambda>off rg. off + word_of_nat (rg_RowCount rg)) 0 (take i (f_RowGroups (rd_footer r)))"

fun apply_predicates ::
  "'b roaring \<Rightarrow> lz4 \<Rightarrow> zstd \<Rightarrow> (bytes \<Rightarrow> u64 option) \<Rightarrow> Reader \<Rightarrow> int \<Rightarrow> RowGroupMeta \<Rightarrow> u32 \<Rightarrow> Predicate list \<Rightarrow> 'b \<Rightarrow> 'b chunk"
where
  "apply_predicates R Z S pf r rgIdx rg rgStart [] selected = Inr selected"
| "apply_predicates R Z S pf r rgIdx rg rgStart (pred # preds) selected =
     (if rb_to_list R selected = [] then Inr selected
      else (case predicateBitmapForRowGroup R Z S pf r rgIdx rg pred (Some selected) rgStart of
              Inl e \<Rightarrow> Inl e
            | Inr predBitmap \<Rightarrow> apply_predicates R Z S pf r rgIdx rg rgStart preds (rb_and R selected predBitmap)))"

text \<open>
  The first stage of \<open>ReadRowGroupFilteredWithStats\<close> when there is something to filter: the rows of
  the row group, intersected with the search bitmap and the bitmap of every predicate.
\<close>

definition selected_rows ::
  "'b roaring \<Rightarrow> lz4 \<Rightarrow> zstd \<Rightarrow> (bytes \<Rightarrow> u64 option) \<Rightarrow> Reader \<Rightarrow> nat \<Rightarrow> 'b option \<Rightarrow> Predicate list \<Rightarrow> 'b chunk"
where
  "selected_rows R Z S pf r i bm preds =
     (let rg = f_RowGroups (rd_footer r) ! i;
          rgStart = row_group_start r i;
          rgEnd = rgStart + word_of_nat (rg_RowCount rg);
          all = rb_add_range R (ucast rgStart) (ucast rgEnd) (rb_new R);
          selected = (case bm of None \<Rightarrow> all | Some b \<Rightarrow> rb_and R all b)
      in apply_predicates R Z S pf r (int i) rg rgStart preds selected)"

subsection \<open>What a predicate means\<close>

text \<open>The content of a column of a row group.\<close>

datatype column =
    ConstColumn gostring
  | StringColumn "gostring list"
  | IntColumn "u64 list"
  | FloatColumn "u64 list"

definition int_matches :: "(bytes \<Rightarrow> u64 option) \<Rightarrow> Predicate \<Rightarrow> int \<Rightarrow> bool" where
  "int_matches pf pred v =
     (if pd_Op pred = op_in then int64InPredicate pf v (pd_Values pred)
      else case coerceIntPredicateValue pf (pd_Value pred) (pd_Op pred) of
             (n, mode, ok) \<Rightarrow>
               ok \<and> (case mode of intPredicateAlways \<Rightarrow> True | intPredicateNever \<Rightarrow> False
                      | intPredicateCompare \<Rightarrow> evalInt64Predicate v (pd_Op pred) n))"

definition string_matches :: "Predicate \<Rightarrow> gostring \<Rightarrow> bool" where
  "string_matches pred v =
     (if pd_Op pred = op_in then stringInPredicate v (pd_Values pred)
      else evalStringPredicate v (pd_Op pred) (pd_Value pred))"

definition float_matches :: "(bytes \<Rightarrow> u64 option) \<Rightarrow> Predicate \<Rightarrow> u64 \<Rightarrow> bool" where
  "float_matches pf pred v =
     (if pd_Op pred = op_in then float64InPredicate pf v (pd_Values pred)
      else case pf (pd_Value pred) of None \<Rightarrow> False | Some f \<Rightarrow> evalFloat64Predicate v (pd_Op pred) f)"

fun column_matches :: "(bytes \<Rightarrow> u64 option) \<Rightarrow> Predicate \<Rightarrow> column \<Rightarrow> nat \<Rightarrow> bool" where
  "column_matches pf pred (ConstColumn v) i = string_matches pred v"
| "column_matches pf pred (StringColumn vs) i = string_matches pred (vs ! i)"
| "column_matches pf pred (IntColumn vs) i = int_matches pf pred (sint (vs ! i))"
| "column_matches pf pred (FloatColumn vs) i = float_matches pf pred (vs ! i)"

fun chunk_holds :: "lz4 \<Rightarrow> zstd \<Rightarrow> Reader \<Rightarrow> ColumnChunkMeta \<Rightarrow> nat \<Rightarrow> column \<Rightarrow> bool" where
  "chunk_holds Z S r cc n (ConstColumn v) = False"
| "chunk_holds Z S r cc n (StringColumn vs) =
     (length vs = n \<and> readStringsFromChunk Z S r cc = Inr vs \<and>
      (cm_EncodingType cc = EncodingLZ4 \<or>
       (cm_EncodingType cc \<in> {EncodingDict8, EncodingDict16} \<and> dict_representable vs \<and>
        (\<exists>d. readChunk Z S r cc = Inr d \<and> Dict_EncodeStrings vs = Inr d))))"
| "chunk_holds Z S r cc n (IntColumn vs) =
     (length vs = n \<and> readInt64sFromChunk Z S r cc = Inr vs \<and> cm_EncodingType cc \<in> {EncodingDelta, EncodingDeltaDuration})"
| "chunk_holds Z S r cc n (FloatColumn vs) =
     (length vs = n \<and> readFloat64sFromChunk Z S r cc = Inr vs \<and> cm_EncodingType cc = EncodingGorilla)"

text \<open>The row group describes the columns: presence, constants and chunks.\<close>

definition column_stored :: "lz4 \<Rightarrow> zstd \<Rightarrow> Reader \<Rightarrow> nat \<Rightarrow> RowGroupMeta \<Rightarrow> bytes \<Rightarrow> column option \<Rightarrow> bool" where
  "column_stored Z S r i rg name col =
     (case col of
        None \<Rightarrow> \<not> HasColumnInRowGroup r (int i) name \<and> findConstColumn rg name = None \<and> findChunk rg name = None
      | Some (ConstColumn v) \<Rightarrow> HasColumnInRowGroup r (int i) name \<and>
          (\<exists>cc. findConstColumn rg name = Some cc \<and> cc_Value cc = v \<and> cc_EncodingType cc = EncodingDict8) \<and> v \<noteq> []
      | Some c \<Rightarrow> HasColumnInRowGroup r (int i) name \<and> findConstColumn rg name = None \<and>
          (\<exists>cc. findChunk rg name = Some cc \<and> chunk_holds Z S r cc (rg_RowCount rg) c))"

definition row_group_holds :: "lz4 \<Rightarrow> zstd \<Rightarrow> Reader \<Rightarrow> nat \<Rightarrow> (bytes \<Rightarrow> column option) \<Rightarrow> bool" where
  "row_group_holds Z S r i cols \<longleftrightarrow>
     i < length (f_RowGroups (rd_footer r)) \<and>
     (\<forall>name. column_stored Z S r i (f_RowGroups (rd_footer r) ! i) name (cols name))"

definition row_matches :: "(bytes \<Rightarrow> u64 option) \<Rightarrow> Predicate \<Rightarrow> (bytes \<Rightarrow> column option) \<Rightarrow> nat \<Rightarrow> bool" where
  "row_matches pf pred cols i = (case cols (pd_Field pred) of None \<Rightarrow> True | Some c \<Rightarrow> column_matches pf pred c i)"

subsection \<open>Bitmaps and rows\<close>

lemma foldl_add_if:
  assumes "roaring_laws R"
  shows "rb_contains R (foldl (\<lambda>dst x. if q x then rb_add R (h x) dst else dst) d xs) y \<longleftrightarrow>
    rb_contains R d y \<or> (\<exists>x \<in> set xs. q x \<and> h x = y)"
  using roaring_lawsD(2) [OF assms] by (induction xs arbitrary: d) auto

lemma scan_selected_contains:
  assumes "roaring_laws R"
  shows "rb_contains R (scan_selected R p vals sel start) y \<longleftrightarrow>
    rb_contains R sel y \<and> unat (y - start) < length vals \<and> p (vals ! unat (y - start))"
  unfolding scan_selected_def Let_def
  using foldl_add_if [OF assms, where h = "\<lambda>x. x"] roaring_lawsD(1,6) [OF assms] by auto

lemma addSelectedLocalMatches_contains:
  assumes "roaring_laws R"
  shows "rb_contains R (addSelectedLocalMatches R (rb_new R) loc sel start) y \<longleftrightarrow>
    rb_contains R sel y \<and> rb_contains R loc (y - start)"
  unfolding addSelectedLocalMatches_def Let_def
  using foldl_add_if [OF assms, where h = "\<lambda>i. start + i" and q = "\<lambda>i. rb_contains R sel (start + i)"] roaring_lawsD(1,6) [OF assms]
  by (auto simp: algebra_simps) (metis add.commute diff_add_cancel)

text \<open>The rows of a bitmap that satisfy a condition on the row's position in the row group.\<close>

definition restricts :: "'b roaring \<Rightarrow> u32 \<Rightarrow> (nat \<Rightarrow> bool) \<Rightarrow> 'b \<Rightarrow> 'b chunk \<Rightarrow> bool" where
  "restricts R start P sel res \<longleftrightarrow>
     (\<exists>bm. res = Inr bm \<and> (\<forall>y. rb_contains R bm y \<longleftrightarrow> rb_contains R sel y \<and> P (unat (y - start))))"

lemma restricts_scan:
  assumes "roaring_laws R" and "\<forall>y. rb_contains R sel y \<longrightarrow> unat (y - start) < length vs"
    and "\<And>i. i < length vs \<Longrightarrow> P i = p (vs ! i)"
  shows "restricts R start P sel (Inr (scan_selected R p vs sel start))"
  using assms by (auto simp: restricts_def scan_selected_contains)

lemma restricts_trivial:
  "roaring_laws R \<Longrightarrow> restricts R start (\<lambda>_. False) sel (Inr (rb_new R))"
  "restricts R start (\<lambda>_. True) sel (Inr sel)"
  using roaring_lawsD(1) [of R] by (auto simp: restricts_def)

lemmas restricts_simps = restricts_scan restricts_trivial

lemma string_bitmap_restricts:
  assumes "roaring_laws R" and "readStringsFromChunk Z S r cc = Inr vs"
    and "\<forall>y. rb_contains R sel y \<longrightarrow> unat (y - start) < length vs"
  shows "restricts R start (\<lambda>i. string_matches pred (vs ! i)) sel (string_bitmap R Z S r cc pred sel start)"
  using assms by (simp add: string_bitmap_def string_matches_def restricts_scan)

lemma dict_bitmap_restricts:
  assumes R: "roaring_laws R" and col: "chunk_holds Z S r cc n (StringColumn vs)"
    and sel: "\<forall>y. rb_contains R sel y \<longrightarrow> unat (y - start) < length vs"
    and tag: "cm_EncodingType cc \<noteq> EncodingLZ4"
  shows "restricts R start (\<lambda>i. string_matches pred (vs ! i)) sel (dict_bitmap R Z S r cc pred sel start)"
proof (cases "pd_Op pred \<noteq> op_in \<and> (pd_Op pred = op_eq \<or> pd_Op pred = op_eqeq \<or> pd_Op pred = op_ne)")
  case True
  obtain d where d: "readChunk Z S r cc = Inr d" "Dict_EncodeStrings vs = Inr d" "dict_representable vs"
    using col tag by auto
  obtain df where df: "NewDictFilterFromEncoded d = Inr df" using DictFilter_of_encoded [OF d(3,2)] by blast
  note rows = Filter_rows(1,2) [OF R d(3,2) df]
  from True df d(1) sel show ?thesis
    by (auto simp: dict_bitmap_def restricts_def addSelectedLocalMatches_contains [OF R] rows string_matches_def
        evalStringPredicate_def op_defs)
next
  case False
  with col string_bitmap_restricts [OF R _ sel] show ?thesis by (auto simp: dict_bitmap_def)
qed

lemma int64_bitmap_restricts:
  assumes "roaring_laws R" and "readInt64sFromChunk Z S r cc = Inr vs"
    and "\<forall>y. rb_contains R sel y \<longrightarrow> unat (y - start) < length vs"
  shows "restricts R start (\<lambda>i. int_matches pf pred (sint (vs ! i))) sel (int64_bitmap R Z S pf r cc pred sel start)"
proof -
  obtain n mode ok where c: "coerceIntPredicateValue pf (pd_Value pred) (pd_Op pred) = (n, mode, ok)" by (metis prod_cases3)
  show ?thesis
    using assms c by (cases mode) (simp_all add: int64_bitmap_def int_matches_def restricts_simps)
qed

lemma float64_bitmap_restricts:
  assumes "roaring_laws R" and "readFloat64sFromChunk Z S r cc = Inr vs"
    and "\<forall>y. rb_contains R sel y \<longrightarrow> unat (y - start) < length vs"
  shows "restricts R start (\<lambda>i. float_matches pf pred (vs ! i)) sel (float64_bitmap R Z S pf r cc pred sel start)"
  using assms by (cases "pf (pd_Value pred)") (simp_all add: float64_bitmap_def float_matches_def restricts_simps)

lemma row_group_at_nth: "i < length (f_RowGroups (rd_footer r)) \<Longrightarrow> row_group_at r (int i) = Some (f_RowGroups (rd_footer r) ! i)"
  by (simp add: row_group_at_def)

lemma column_matches_fun:
  "column_matches pf pred (ConstColumn v) = (\<lambda>i. string_matches pred v)"
  "column_matches pf pred (StringColumn vs) = (\<lambda>i. string_matches pred (vs ! i))"
  "column_matches pf pred (IntColumn us) = (\<lambda>i. int_matches pf pred (sint (us ! i)))"
  "column_matches pf pred (FloatColumn us) = (\<lambda>i. float_matches pf pred (us ! i))"
  by (rule ext, simp)+

lemma chunk_bitmap_restricts:
  assumes R: "roaring_laws R" and col: "chunk_holds Z S r cc n c"
    and sel: "\<forall>y. rb_contains R sel y \<longrightarrow> unat (y - start) < n"
  shows "restricts R start (column_matches pf pred c) sel (chunk_bitmap R Z S pf r cc pred sel start)"
proof (cases c)
  case (StringColumn vs)
  with sel col have "\<forall>y. rb_contains R sel y \<longrightarrow> unat (y - start) < length vs" by simp
  note dict_bitmap_restricts [OF R col [unfolded StringColumn] this] string_bitmap_restricts [OF R _ this]
  with col StringColumn show ?thesis by (auto simp: chunk_bitmap_def encoding_tags column_matches_fun)
qed (use assms int64_bitmap_restricts float64_bitmap_restricts in \<open>auto simp: chunk_bitmap_def encoding_tags column_matches_fun\<close>)

lemma column_stored_cases:
  assumes "column_stored Z S r i rg name (Some c)"
  obtains v cc where "c = ConstColumn v" "findConstColumn rg name = Some cc" "cc_Value cc = v"
      "cc_EncodingType cc = EncodingDict8" "HasColumnInRowGroup r (int i) name"
  | cc where "findConstColumn rg name = None" "findChunk rg name = Some cc" "chunk_holds Z S r cc (rg_RowCount rg) c"
      "HasColumnInRowGroup r (int i) name"
  using assms by (cases c) (auto simp: column_stored_def)

lemma predicate_bitmap_restricts:
  assumes R: "roaring_laws R" and rg: "rg = f_RowGroups (rd_footer r) ! i" and holds: "row_group_holds Z S r i cols"
    and sel: "\<forall>y. rb_contains R sel y \<longrightarrow> unat (y - start) < rg_RowCount rg"
  shows "restricts R start (row_matches pf pred cols) sel
    (predicateBitmapForRowGroup R Z S pf r (int i) rg pred (Some sel) start)"
proof (cases "rb_to_list R sel = []")
  case True
  then have "\<not> rb_contains R sel y" for y using roaring_lawsD(6) [OF R, of y sel] by simp
  with True R show ?thesis using roaring_lawsD(1) [OF R] by (auto simp: predicateBitmapForRowGroup_def restricts_def)
next
  case False
  have st: "column_stored Z S r i rg (pd_Field pred) (cols (pd_Field pred))"
    using holds rg by (simp add: row_group_holds_def)
  show ?thesis
  proof (cases "cols (pd_Field pred)")
    case None
    with False st show ?thesis
      by (simp add: predicateBitmapForRowGroup_def column_stored_def row_matches_def [abs_def] restricts_trivial)
  next
    case (Some c)
    from st [unfolded Some] show ?thesis
    proof (cases rule: column_stored_cases)
      case (1 v cc)
      then show ?thesis using Some False R
        by (simp add: predicateBitmapForRowGroup_def row_matches_def [abs_def] evalConstPredicate_def string_matches_def
            encoding_tags restricts_trivial)
    next
      case (2 cc)
      with Some False chunk_bitmap_restricts [OF R 2(3) sel, of pf pred] show ?thesis
        by (simp add: predicateBitmapForRowGroup_def row_matches_def [abs_def])
    qed
  qed
qed

lemma apply_predicates_restricts:
  assumes R: "roaring_laws R" and rg: "rg = f_RowGroups (rd_footer r) ! i" and holds: "row_group_holds Z S r i cols"
    and "\<forall>y. rb_contains R sel y \<longrightarrow> unat (y - start) < rg_RowCount rg"
  shows "restricts R start (\<lambda>k. \<forall>p \<in> set preds. row_matches pf p cols k) sel
    (apply_predicates R Z S pf r (int i) rg start preds sel)"
  using assms(4)
proof (induction preds arbitrary: sel)
  case (Cons p preds)
  show ?case
  proof (cases "rb_to_list R sel = []")
    case True
    then have "\<not> rb_contains R sel y" for y using roaring_lawsD(6) [OF R, of y sel] by simp
    with True show ?thesis by (simp add: restricts_def)
  next
    case False
    obtain bm where bm: "predicateBitmapForRowGroup R Z S pf r (int i) rg p (Some sel) start = Inr bm"
      "\<And>y. rb_contains R bm y \<longleftrightarrow> rb_contains R sel y \<and> row_matches pf p cols (unat (y - start))"
      using predicate_bitmap_restricts [OF R rg holds Cons.prems, of pf p] by (auto simp: restricts_def)
    have "\<forall>y. rb_contains R (rb_and R sel bm) y \<longrightarrow> unat (y - start) < rg_RowCount rg"
      using Cons.prems by (simp add: roaring_lawsD(5) [OF R])
    from Cons.IH [OF this] bm False show ?thesis
      by (auto simp: restricts_def roaring_lawsD(5) [OF R])
  qed
qed (simp add: restricts_trivial)

subsection \<open>Rounding of float literals\<close>

lemma float_unit_pos: "0 < float_unit" by (simp add: float_unit_def)

lemma div_less_iff: "0 < u \<Longrightarrow> a div u < b \<longleftrightarrow> a < b * u" for a b u :: int
proof
  assume u: "0 < u" and "a div u < b"
  then have "(a div u + 1) * u \<le> b * u" by (intro mult_right_mono) simp_all
  moreover have "a div u * u = a - a mod u" "a mod u < u" using u by (simp_all add: minus_mod_eq_div_mult)
  ultimately show "a < b * u" by (simp add: distrib_right)
next
  assume u: "0 < u" and lt: "a < b * u"
  show "a div u < b"
  proof (rule ccontr)
    assume "\<not> a div u < b"
    then have "b * u \<le> a div u * u" using u by (intro mult_right_mono) simp_all
    also have "\<dots> \<le> a" using u by (simp add: minus_mod_eq_div_mult [symmetric])
    finally show False using lt by simp
  qed
qed

lemma rounding:
  "math_Floor f < v \<longleftrightarrow> float_value f < v * float_unit" "v < math_Ceil f \<longleftrightarrow> v * float_unit < float_value f"
  "v \<le> math_Floor f \<longleftrightarrow> v * float_unit \<le> float_value f" "math_Ceil f \<le> v \<longleftrightarrow> float_value f \<le> v * float_unit"
proof -
  show fl: "math_Floor f < v \<longleftrightarrow> float_value f < v * float_unit" for v
    unfolding math_Floor_def by (rule div_less_iff [OF float_unit_pos])
  show ce: "v < math_Ceil f \<longleftrightarrow> v * float_unit < float_value f" for v
    unfolding math_Ceil_def using div_less_iff [OF float_unit_pos, of "- float_value f" "- v"] by auto
  show "v \<le> math_Floor f \<longleftrightarrow> v * float_unit \<le> float_value f" using fl [of v] by linarith
  show "math_Ceil f \<le> v \<longleftrightarrow> float_value f \<le> v * float_unit" using ce [of v] by linarith
qed

lemma integral_eq:
  assumes "is_integral f"
  shows "v = math_Floor f \<longleftrightarrow> v * float_unit = float_value f"
proof -
  have "math_Floor f * float_unit = float_value f"
    using assms by (simp add: is_integral_def math_Floor_def minus_mod_eq_div_mult [symmetric])
  then show ?thesis using float_unit_pos by (metis less_irrefl mult_cancel_right)
qed

lemma not_integral_neq: "\<not> is_integral f \<Longrightarrow> v * float_unit \<noteq> float_value f"
  by (metis is_integral_def mod_mult_self2_is_0)

lemma op_distinct:
  "op_eq \<noteq> op_in" "op_eqeq \<noteq> op_in" "op_ne \<noteq> op_in" "op_lt \<noteq> op_in" "op_le \<noteq> op_in" "op_gt \<noteq> op_in" "op_ge \<noteq> op_in"
  "op_eq \<noteq> op_ne" "op_eqeq \<noteq> op_ne" "op_eq \<noteq> op_lt" "op_eqeq \<noteq> op_lt" "op_ne \<noteq> op_lt" "op_eq \<noteq> op_le" "op_eqeq \<noteq> op_le"
  "op_ne \<noteq> op_le" "op_lt \<noteq> op_le" "op_eq \<noteq> op_gt" "op_eqeq \<noteq> op_gt" "op_ne \<noteq> op_gt" "op_lt \<noteq> op_gt" "op_le \<noteq> op_gt"
  "op_eq \<noteq> op_ge" "op_eqeq \<noteq> op_ge" "op_ne \<noteq> op_ge" "op_lt \<noteq> op_ge" "op_le \<noteq> op_ge" "op_gt \<noteq> op_ge"
  by (simp_all add: op_defs)

lemmas op_neqs [simp] = op_distinct op_distinct [symmetric]

definition compare_ops :: "bytes set" where
  "compare_ops = {op_eq, op_eqeq, op_ne, op_lt, op_le, op_gt, op_ge}"

lemma coerced_in_range:
  "- (2 ^ 63) \<le> n \<Longrightarrow> n < 2 ^ 63 \<Longrightarrow> coerced_int n = (n, intPredicateCompare, True)"
  by (simp add: coerced_int_def)

lemma int_matches_in_range:
  assumes "ParseInt s = None" and "pf s = Some f" and "\<not> is_NaN f" and "\<not> is_Inf f" and "op \<in> compare_ops"
    and "- (2 ^ 63) * float_unit \<le> float_value f" and "float_value f \<le> (2 ^ 63 - 1) * float_unit"
  shows "int_matches pf \<lparr>pd_Field = n, pd_Op = op, pd_Value = s, pd_Values = vs\<rparr> v
    \<longleftrightarrow> evalInt64Predicate (v * float_unit) op (float_value f)"
proof -
  have "math_Floor f < 2 ^ 63" "- (2 ^ 63) \<le> math_Floor f" "math_Ceil f < 2 ^ 63" "- (2 ^ 63) \<le> math_Ceil f"
    using rounding(1) [of f "2 ^ 63"] rounding(3) [of "- (2 ^ 63)" f] rounding(4) [of f "2 ^ 63 - 1"]
      rounding(2) [of "- (2 ^ 63) - 1" f] assms(6,7) float_unit_pos
    by (simp_all add: algebra_simps)
  note r = coerced_in_range [OF this(2,1)] coerced_in_range [OF this(4,3)]
  show ?thesis
    using assms(1-5) r integral_eq [of f v] not_integral_neq [of f v]
    by (auto simp: compare_ops_def int_matches_def coerceIntPredicateValue_def evalInt64Predicate_def rounding)
qed

text \<open>Beyond the integers that fit, the value is not coerced and no row matches.\<close>

lemma int_matches_beyond:
  assumes "ParseInt s = None" and "pf s = Some f" and "op \<in> {op_lt, op_le, op_gt, op_ge}"
    and "2 ^ 63 * float_unit \<le> float_value f"
  shows "\<not> int_matches pf \<lparr>pd_Field = n, pd_Op = op, pd_Value = s, pd_Values = vs\<rparr> v"
proof -
  have "2 ^ 63 \<le> math_Floor f" "2 ^ 63 \<le> math_Ceil f"
    using rounding(3) [of "2 ^ 63" f] rounding(2) [of "2 ^ 63 - 1" f] assms(4) float_unit_pos by (simp_all add: algebra_simps)
  then have "coerced_int (math_Floor f) = (0, intPredicateNever, False)" "coerced_int (math_Ceil f) = (0, intPredicateNever, False)"
    by (simp_all add: coerced_int_def)
  with assms(1-3) show ?thesis
    by (auto simp: int_matches_def coerceIntPredicateValue_def)
qed

subsection \<open>Properties\<close>

definition row_offset :: "Reader \<Rightarrow> nat \<Rightarrow> nat" where
  "row_offset r i = (\<Sum>rg \<leftarrow> take i (f_RowGroups (rd_footer r)). rg_RowCount rg)"

lemma foldl_row_start:
  "foldl (\<lambda>off rg. off + word_of_nat (rg_RowCount rg)) (word_of_nat a :: u32) rgs = word_of_nat (a + (\<Sum>rg \<leftarrow> rgs. rg_RowCount rg))"
  by (induction rgs arbitrary: a) (simp_all flip: of_nat_add add: add.assoc)

lemma row_offset_bound:
  assumes "i < length (f_RowGroups (rd_footer r))"
  shows "row_offset r i + rg_RowCount (f_RowGroups (rd_footer r) ! i) \<le> (\<Sum>rg \<leftarrow> f_RowGroups (rd_footer r). rg_RowCount rg)"
proof -
  let ?rgs = "f_RowGroups (rd_footer r)"
  have "map rg_RowCount ?rgs = map rg_RowCount (take i ?rgs) @ rg_RowCount (?rgs ! i) # map rg_RowCount (drop (Suc i) ?rgs)"
    using id_take_nth_drop [OF assms] by (metis list.simps(9) map_append)
  then have "(\<Sum>rg \<leftarrow> ?rgs. rg_RowCount rg) = row_offset r i + (rg_RowCount (?rgs ! i) + (\<Sum>rg \<leftarrow> drop (Suc i) ?rgs. rg_RowCount rg))"
    by (simp add: row_offset_def)
  then show ?thesis by simp
qed

lemma unat_ucast_nat: "n < 2 ^ 32 \<Longrightarrow> unat (ucast (word_of_nat n :: u32) :: u64) = n"
  using unat_small(2) [of n] by (simp add: unat_ucast_small)

lemma unat_minus_start:
  fixes y :: u32
  assumes "a < 2 ^ 32" and "a \<le> unat y"
  shows "unat (y - word_of_nat a) = unat y - a"
proof -
  have "unat (word_of_nat a :: u32) = a" using assms(1) by (rule unat_small(2))
  moreover from this have "(word_of_nat a :: u32) \<le> y" using assms(2) by (simp add: word_le_nat_alt)
  ultimately show ?thesis by (simp add: unat_sub)
qed

text \<open>
  (C3) Predicate pushdown is exact: reading a row group with predicates selects exactly the rows of
  the row group that are in the search bitmap (if there is one) and whose columns satisfy every
  predicate, whatever path answers: constant columns from the metadata, dictionary columns from
  their codes, LZ4, integer, duration and float columns from the decoded values. A column that the
  row group does not have restricts nothing at this stage.
\<close>

theorem pushdown_exact:
  assumes "roaring_laws R" and "row_group_holds Z S r i cols"
    and "(\<Sum>rg \<leftarrow> f_RowGroups (rd_footer r). rg_RowCount rg) < 2 ^ 32"
  shows "\<exists>out. selected_rows R Z S pf r i bm preds = Inr out \<and>
    (\<forall>y. rb_contains R out y \<longleftrightarrow>
       row_offset r i \<le> unat y \<and> unat y < row_offset r i + rg_RowCount (f_RowGroups (rd_footer r) ! i) \<and>
       (case bm of None \<Rightarrow> True | Some b \<Rightarrow> rb_contains R b y) \<and>
       (\<forall>p \<in> set preds. row_matches pf p cols (unat y - row_offset r i)))"
proof -
  let ?rg = "f_RowGroups (rd_footer r) ! i" and ?a = "row_offset r i"
  let ?all = "rb_add_range R (ucast (row_group_start r i)) (ucast (row_group_start r i + word_of_nat (rg_RowCount ?rg))) (rb_new R)"
  define sel where "sel = (case bm of None \<Rightarrow> ?all | Some b \<Rightarrow> rb_and R ?all b)"
  have i: "i < length (f_RowGroups (rd_footer r))" using assms(2) by (simp add: row_group_holds_def)
  have bound: "?a + rg_RowCount ?rg < 2 ^ 32" using row_offset_bound [OF i] assms(3) by simp
  have start: "row_group_start r i = word_of_nat ?a"
    using foldl_row_start [of 0] by (simp add: row_group_start_def row_offset_def)
  have "unat (ucast (word_of_nat ?a :: u32) :: u64) = ?a"
    "unat (ucast (word_of_nat (?a + rg_RowCount ?rg) :: u32) :: u64) = ?a + rg_RowCount ?rg"
    using bound by (intro unat_ucast_nat; simp)+
  then have all: "rb_contains R ?all y \<longleftrightarrow> ?a \<le> unat y \<and> unat y < ?a + rg_RowCount ?rg" for y
    using roaring_lawsD(1,3) [OF assms(1)] by (simp add: start)
  have sel: "rb_contains R sel y \<longleftrightarrow> ?a \<le> unat y \<and> unat y < ?a + rg_RowCount ?rg \<and>
      (case bm of None \<Rightarrow> True | Some b \<Rightarrow> rb_contains R b y)" for y
    by (cases bm) (simp_all add: sel_def all roaring_lawsD(5) [OF assms(1)])
  have pos: "unat (y - row_group_start r i) = unat y - ?a" if "rb_contains R sel y" for y
    using that sel [of y] bound unat_minus_start [of ?a y] by (simp add: start)
  have "\<forall>y. rb_contains R sel y \<longrightarrow> unat (y - row_group_start r i) < rg_RowCount ?rg"
    using sel pos by auto
  from apply_predicates_restricts [OF assms(1) refl assms(2) this, of preds pf]
  obtain out where "apply_predicates R Z S pf r (int i) ?rg (row_group_start r i) preds sel = Inr out"
    "\<And>y. rb_contains R out y \<longleftrightarrow> rb_contains R sel y \<and> (\<forall>p \<in> set preds. row_matches pf p cols (unat (y - row_group_start r i)))"
    by (auto simp: restricts_def)
  then show ?thesis using sel pos by (intro exI [of _ out]) (auto simp: selected_rows_def Let_def sel_def)
qed

definition example_reader :: Reader where
  "example_reader = \<lparr>rd_data = [], rd_major = 2,
     rd_footer = example_footer\<lparr>f_RowGroups := map (rg_Columns_update (\<lambda>_. [])) (f_RowGroups example_footer)\<rparr>,
     rd_columnIndex = Map.empty\<rparr>"

theorem pushdown_exact_witness:
  "\<exists>out. selected_rows set_roaring (one_block_lz4 []) small_zstd (\<lambda>_. None) example_reader 0 None
      [\<lparr>pd_Field = [104], pd_Op = op_eq, pd_Value = [97, 98], pd_Values = []\<rparr>] = Inr out \<and>
    (\<forall>y. rb_contains set_roaring out y \<longleftrightarrow> unat y < Suc (Suc 0))"
proof -
  have "row_group_holds (one_block_lz4 []) small_zstd example_reader 0 [[104] \<mapsto> ConstColumn [97, 98]]"
    by (simp add: row_group_holds_def column_stored_def example_reader_def example_footer_def HasColumnInRowGroup_def
        row_group_at_def findConstColumn_def findChunk_def encoding_tags)
  from pushdown_exact [OF set_roaring_laws this, of "\<lambda>_. None" None "[\<lparr>pd_Field = [104], pd_Op = op_eq, pd_Value = [97, 98], pd_Values = []\<rparr>]"]
  show ?thesis
    by (simp add: example_reader_def example_footer_def row_offset_def row_matches_def string_matches_def evalStringPredicate_def)
qed

text \<open>
  Float literals on integer columns: a comparison of an integer column with a literal that is
  not an integer is rounded so that its outcome is exactly that of comparing the values, as long as
  the literal lies in the range of int64. For \<open><\<close> and \<open><=\<close> with a literal of at least $2^{63}$, such
  as 1e30, no row matches, although every row is smaller.
\<close>

theorem int_literal_rounding:
  assumes "ParseInt s = None" and "pf s = Some f" and "\<not> is_NaN f" and "\<not> is_Inf f" and "op \<in> compare_ops"
    and "- (2 ^ 63) \<le> v" and "v < 2 ^ 63"
  shows "(- (2 ^ 63) * float_unit \<le> float_value f \<and> float_value f \<le> (2 ^ 63 - 1) * float_unit \<longrightarrow>
      (int_matches pf \<lparr>pd_Field = n, pd_Op = op, pd_Value = s, pd_Values = vs\<rparr> v
        \<longleftrightarrow> evalInt64Predicate (v * float_unit) op (float_value f))) \<and>
    (2 ^ 63 * float_unit \<le> float_value f \<and> op \<in> {op_lt, op_le} \<longrightarrow>
      evalInt64Predicate (v * float_unit) op (float_value f) \<and>
      \<not> int_matches pf \<lparr>pd_Field = n, pd_Op = op, pd_Value = s, pd_Values = vs\<rparr> v)"
proof (intro conjI impI)
  assume "2 ^ 63 * float_unit \<le> float_value f \<and> op \<in> {op_lt, op_le}"
  moreover from this have "v * float_unit < float_value f"
    using assms(7) float_unit_pos by (meson less_le_trans mult_less_cancel_right_disj)
  ultimately show "evalInt64Predicate (v * float_unit) op (float_value f)" by (auto simp: evalInt64Predicate_def)
qed (use int_matches_in_range [where pf = pf, OF assms(1-5)] int_matches_beyond [where pf = pf, OF assms(1,2)] in auto)

theorem int_literal_rounding_witness:
  "int_matches (\<lambda>_. Some 0x3FF8000000000000) \<lparr>pd_Field = [120], pd_Op = op_gt, pd_Value = [49, 46, 53], pd_Values = []\<rparr> 2"
proof -
  have f: "float_magnitude 0x3FF8000000000000 = 0x3FF8000000000000" "\<not> bit (0x3FF8000000000000 :: u64) 63"
    by (simp_all add: float_magnitude_def take_bit_eq_mod bit_iff_odd)
  then have v: "2 * float_value 0x3FF8000000000000 = 3 * float_unit"
    by (simp add: float_value_def magnitude_value_def float_unit_def)
  then have "- (2 ^ 63) * float_unit \<le> float_value 0x3FF8000000000000 \<and> float_value 0x3FF8000000000000 \<le> (2 ^ 63 - 1) * float_unit"
    "evalInt64Predicate (2 * float_unit) op_gt (float_value 0x3FF8000000000000)"
    using float_unit_pos by (simp_all add: evalInt64Predicate_def)
  then show ?thesis
    using int_literal_rounding [where pf = "\<lambda>_. Some 0x3FF8000000000000" and s = "[49, 46, 53]" and f = "0x3FF8000000000000"
        and op = op_gt and v = 2 and n = "[120]" and vs = "[]"] f
    by (simp add: ParseInt_def is_NaN_def is_Inf_def compare_ops_def)
qed

end
