(* ===== verification/RG_Filter.thy ===== *)
theory RG_Filter
  imports Row_Predicate Range_Section
begin

text \<open>
  \<^verbatim>\<open>src/pkg/storage/segment/rgfilter.go\<close>: the filter tree that decides from the metadata of a row group
  whether it can be skipped, with its statistics and the row masks it collects from range indexes;
  the bloom filter and range index lookups of \<^verbatim>\<open>reader.go\<close> it consults; and \<open>BuildRGFilter\<close> of
  \<^verbatim>\<open>src/pkg/engine/pipeline/segment_stream.go\<close>, which builds the tree from the hints of a query.

  Parameters, gathered in the record \<open>rg_env\<close>: the bitmap and index libraries, the bloom filter library
  (decoding a filter and testing a term), \<^verbatim>\<open>strconv.ParseFloat\<close> and \<^verbatim>\<open>time.Parse\<close>. The caches of decoded
  filters and indexes are not modelled: they hold what decoding again would give.
\<close>

subsection \<open>The filter tree\<close>

datatype RGFilterOp =
    RGFilterAnd
  | RGFilterOr
  | RGFilterNot
  | RGFilterTerm
  | RGFilterFieldEq
  | RGFilterFieldNeq
  | RGFilterFieldRange
  | RGFilterFieldIn

datatype RGVerdict = RGMaybe | RGSkip

datatype RGFilterNode = RGFilterNode
  (nd_Op: RGFilterOp)
  (nd_Children: "RGFilterNode list")
  (nd_Field: bytes)
  (nd_Value: bytes)
  (nd_Values: "bytes list")
  (nd_Terms: "bytes list")
  (nd_RangeOp: bytes)
  (nd_RangeVal: bytes)

record RGFilterStats =
  rs_ConstSkips :: int
  rs_PresenceSkips :: int
  rs_ZoneMapSkips :: int
  rs_BloomSkips :: int
  rs_RangeBSIChecks :: int
  rs_RangeBSISkips :: int
  rs_RangeBSIMaskBytes :: int
  rs_TotalChecked :: int
  rs_TotalSkipped :: int
  rs_BloomsChecked :: int

record ('b, 's, 'f) rg_env =
  en_roaring :: "'b roaring"
  en_size :: "'b \<Rightarrow> int"
  en_bsi :: "'s bsi"
  en_existence :: "'s \<Rightarrow> 'b"
  en_compare :: "'s \<Rightarrow> bsi_operation \<Rightarrow> u64 \<Rightarrow> 'b"
  en_bloom_decode :: "bytes \<Rightarrow> 'f option"
  en_bloom_test :: "'f \<Rightarrow> bytes \<Rightarrow> bool"
  en_ParseFloat :: "bytes \<Rightarrow> u64 option"
  en_ParseTime :: "bytes \<Rightarrow> u64 option"

text \<open>The evaluator's maps of row masks and the caller's statistics, a pointer that may be nil.\<close>

record 'b RGFilterEvaluator =
  ev_rowMasks :: "int \<Rightarrow> 'b option"
  ev_fieldRowMasks :: "int \<Rightarrow> (bytes \<Rightarrow> 'b option) option"
  ev_stats :: "RGFilterStats option"

definition ResetRowMasks :: "'b RGFilterEvaluator \<Rightarrow> 'b RGFilterEvaluator" where
  "ResetRowMasks ev = ev\<lparr>ev_rowMasks := Map.empty, ev_fieldRowMasks := Map.empty\<rparr>"

definition RowMaskFor :: "'b RGFilterEvaluator \<Rightarrow> int \<Rightarrow> 'b option" where
  "RowMaskFor ev rgIdx = ev_rowMasks ev rgIdx"

definition RowMaskForField :: "'b RGFilterEvaluator \<Rightarrow> int \<Rightarrow> bytes \<Rightarrow> 'b option" where
  "RowMaskForField ev rgIdx field = (case ev_fieldRowMasks ev rgIdx of None \<Rightarrow> None | Some fs \<Rightarrow> fs field)"

definition count :: "(RGFilterStats \<Rightarrow> RGFilterStats) \<Rightarrow> 'b RGFilterEvaluator \<Rightarrow> 'b RGFilterEvaluator" where
  "count f ev = ev\<lparr>ev_stats := map_option f (ev_stats ev)\<rparr>"

definition raw_field :: bytes where "raw_field = [95, 114, 97, 119]"

subsection \<open>Bloom filters of a row group\<close>

text \<open>
  The per-column bloom section: a magic number, a count, and per column its name and the encoded
  filter. The count is read from the file, of which the section is a slice.
\<close>

fun read_blooms :: "('b, 's, 'f) rg_env \<Rightarrow> nat \<Rightarrow> bytes \<Rightarrow> (bytes \<Rightarrow> 'f option) \<Rightarrow> (bytes \<Rightarrow> 'f option) option" where
  "read_blooms E 0 rest blooms = Some blooms"
| "read_blooms E (Suc n) rest blooms = do {
     (name, rest) \<leftarrow> get_string16 rest;
     (dataLen, rest) \<leftarrow> get32 rest;
     (data, rest) \<leftarrow> get_bytes (unat dataLen) rest;
     bf \<leftarrow> en_bloom_decode E data;
     read_blooms E n rest (blooms(name \<mapsto> bf))
   }"

definition LSG_BLOOM_MAGIC :: bytes where "LSG_BLOOM_MAGIC = [0x4C, 0x53, 0x42, 0x4C]"

text \<open>\<open>None\<close> for an error, \<open>Some None\<close> for a row group without a bloom section.\<close>

definition loadPerColumnBlooms :: "('b, 's, 'f) rg_env \<Rightarrow> Reader \<Rightarrow> int \<Rightarrow> (bytes \<Rightarrow> 'f option) option option" where
  "loadPerColumnBlooms E r rgIdx =
     (case row_group_at r rgIdx of
        None \<Rightarrow> None
      | Some rg \<Rightarrow>
          if rg_PerColumnBloomLength rg = 0 then Some None
          else let start = rg_PerColumnBloomOffset rg; stop = start + rg_PerColumnBloomLength rg in
            if start <s 0 \<or> rg_PerColumnBloomLength rg <s 0 \<or> stop <s start \<or> sint stop > int (length (rd_data r)) then None
            else let section = slice (rd_data r) (unat start) (unat stop) in
              if length section < 8 \<or> take 4 section \<noteq> LSG_BLOOM_MAGIC \<or> slice section 4 8 \<noteq> [0, 0, 0, 0] then None
              else map_option Some (read_blooms E (unat (Uint16 (slice (rd_data r) (unat start + 8) (unat start + 10))))
                     (drop 10 section) Map.empty))"

definition CheckColumnBloom :: "('b, 's, 'f) rg_env \<Rightarrow> Reader \<Rightarrow> int \<Rightarrow> bytes \<Rightarrow> bytes \<Rightarrow> bool option" where
  "CheckColumnBloom E r rgIdx columnName t =
     (case loadPerColumnBlooms E r rgIdx of
        None \<Rightarrow> None
      | Some None \<Rightarrow> Some True
      | Some (Some blooms) \<Rightarrow>
          (case blooms columnName of None \<Rightarrow> Some True | Some bf \<Rightarrow> Some (en_bloom_test E bf t)))"

definition CheckColumnBloomAllTerms :: "('b, 's, 'f) rg_env \<Rightarrow> Reader \<Rightarrow> int \<Rightarrow> bytes \<Rightarrow> bytes list \<Rightarrow> bool option" where
  "CheckColumnBloomAllTerms E r rgIdx columnName terms =
     (case loadPerColumnBlooms E r rgIdx of
        None \<Rightarrow> None
      | Some None \<Rightarrow> Some True
      | Some (Some blooms) \<Rightarrow>
          (case blooms columnName of
             None \<Rightarrow> Some True
           | Some bf \<Rightarrow> Some (list_all (en_bloom_test E bf) terms)))"

subsection \<open>Range index of a row group\<close>

datatype filter_error = FilterInvalidRG | FilterCorrupt | FilterRange range_error

definition HasRangeBSI :: "Reader \<Rightarrow> bool" where
  "HasRangeBSI r \<longleftrightarrow> f_OptionalCaps (rd_footer r) AND CapBit_RangeBSI \<noteq> 0"

definition rangeSectionBytes :: "Reader \<Rightarrow> int \<Rightarrow> filter_error + bytes" where
  "rangeSectionBytes r rgIdx =
     (case row_group_at r rgIdx of
        None \<Rightarrow> Inl FilterInvalidRG
      | Some rg \<Rightarrow>
          let start = rg_PerColumnRangeOffset rg; len = rg_PerColumnRangeLength rg; stop = start + len in
          if start <s 0 \<or> len <s 0 \<or> stop <s start \<or> sint stop > int (length (rd_data r)) then Inl FilterCorrupt
          else Inr (slice (rd_data r) (unat start) (unat stop)))"

record rangeMeta =
  mt_ValueKind :: u8
  mt_MinValue :: u64
  mt_MaxValue :: u64

definition LoadRangeMeta :: "Reader \<Rightarrow> int \<Rightarrow> bytes \<Rightarrow> filter_error + rangeMeta option" where
  "LoadRangeMeta r rgIdx columnName =
     (case row_group_at r rgIdx of
        None \<Rightarrow> Inl FilterInvalidRG
      | Some rg \<Rightarrow>
          if rg_PerColumnRangeLength rg = 0 then Inr None
          else (case rangeSectionBytes r rgIdx of
                  Inl e \<Rightarrow> Inl e
                | Inr section \<Rightarrow>
                    (case DecodeRangeSectionEntryMeta section columnName of
                       Inl e \<Rightarrow> Inl (FilterRange e)
                     | Inr None \<Rightarrow> Inr None
                     | Inr (Some entry) \<Rightarrow>
                         Inr (Some \<lparr>mt_ValueKind = m_ValueKind entry, mt_MinValue = m_MinValue entry,
                                    mt_MaxValue = m_MaxValue entry\<rparr>))))"

definition LoadRangeBSI :: "('b, 's, 'f) rg_env \<Rightarrow> Reader \<Rightarrow> int \<Rightarrow> bytes \<Rightarrow> filter_error + 's option" where
  "LoadRangeBSI E r rgIdx columnName =
     (case row_group_at r rgIdx of
        None \<Rightarrow> Inl FilterInvalidRG
      | Some rg \<Rightarrow>
          if rg_PerColumnRangeLength rg = 0 then Inr None
          else (case rangeSectionBytes r rgIdx of
                  Inl e \<Rightarrow> Inl e
                | Inr section \<Rightarrow>
                    (case DecodeRangeSectionEntry (en_bsi E) section columnName of
                       Inl e \<Rightarrow> Inl (FilterRange e)
                     | Inr None \<Rightarrow> Inr None
                     | Inr (Some entry) \<Rightarrow> Inr (Some (r_BSI entry)))))"

definition rangeBSIOffset :: "u64 \<Rightarrow> u64 \<Rightarrow> u64" where "rangeBSIOffset raw minValue = raw - minValue"

definition compareRangeBSI ::
  "('b, 's, 'f) rg_env \<Rightarrow> Reader \<Rightarrow> int \<Rightarrow> bytes \<Rightarrow> rangeMeta \<Rightarrow> bsi_operation \<Rightarrow> u64 \<Rightarrow> filter_error + 'b option"
where
  "compareRangeBSI E r rgIdx columnName meta op raw =
     (case row_group_at r rgIdx of
        None \<Rightarrow> Inl FilterInvalidRG
      | Some rg \<Rightarrow>
          if rg_PerColumnRangeLength rg = 0 then Inr None
          else (case rangeSectionBytes r rgIdx of
                  Inl e \<Rightarrow> Inl e
                | Inr section \<Rightarrow>
                    (case ComparePackedRangeSectionEntry (en_roaring E) section columnName op raw of
                       Inl e \<Rightarrow> Inl (FilterRange e)
                     | Inr (Some bm) \<Rightarrow> Inr (Some bm)
                     | Inr None \<Rightarrow>
                         (case LoadRangeBSI E r rgIdx columnName of
                            Inl e \<Rightarrow> Inl e
                          | Inr None \<Rightarrow> Inr None
                          | Inr (Some idx) \<Rightarrow>
                              (case compare_shortcut op raw (mt_MinValue meta) (mt_MaxValue meta) of
                                 Inl _ \<Rightarrow> Inr None
                               | Inr (Some False) \<Rightarrow> Inr (Some (rb_new (en_roaring E)))
                               | Inr (Some True) \<Rightarrow> Inr (Some (en_existence E idx))
                               | Inr None \<Rightarrow> Inr (Some (en_compare E idx op (rangeBSIOffset raw (mt_MinValue meta)))))))))"

definition rangeBSICompareOp :: "bytes \<Rightarrow> bsi_operation option" where
  "rangeBSICompareOp op =
     (if op = op_gt then Some BSI_GT else if op = op_ge then Some BSI_GE
      else if op = op_lt then Some BSI_LT else if op = op_le then Some BSI_LE else None)"

definition parseIntRangeValue :: "(bytes \<Rightarrow> u64 option) \<Rightarrow> bytes \<Rightarrow> bytes \<Rightarrow> u64 option" where
  "parseIntRangeValue pf val op =
     (case coerceIntPredicateValue pf val op of
        (n, mode, ok) \<Rightarrow> if \<not> ok \<or> mode \<noteq> intPredicateCompare then None else Some (word_of_int n))"

text \<open>\<^verbatim>\<open>strconv.ParseBool\<close>.\<close>

definition ParseBool :: "bytes \<Rightarrow> bool option" where
  "ParseBool s =
     (if s \<in> {[49], [116], [84], [84,82,85,69], [116,114,117,101], [84,114,117,101]} then Some True
      else if s \<in> {[48], [102], [70], [70,65,76,83,69], [102,97,108,115,101], [70,97,108,115,101]} then Some False
      else None)"

definition parseRangeBSIValue :: "('b, 's, 'f) rg_env \<Rightarrow> u8 \<Rightarrow> bytes \<Rightarrow> bytes \<Rightarrow> u64 option" where
  "parseRangeBSIValue E valueKind val op =
     (if valueKind = RangeBSIValueInt then parseIntRangeValue (en_ParseFloat E) val op
      else if valueKind = RangeBSIValueFloat64Bits then
        (case en_ParseFloat E val of
           None \<Rightarrow> None
         | Some f \<Rightarrow> if is_NaN f \<or> is_Inf f then None else Some (FloatToOrderedInt64 f))
      else if valueKind = RangeBSIValueTimestampNS then
        (case ParseInt val of Some n \<Rightarrow> Some (word_of_int n) | None \<Rightarrow> en_ParseTime E val)
      else if valueKind = RangeBSIValueBool then map_option BoolToInt64 (ParseBool val)
      else None)"

definition tryBSIFilter :: "('b, 's, 'f) rg_env \<Rightarrow> Reader \<Rightarrow> int \<Rightarrow> RGFilterNode \<Rightarrow> filter_error + 'b option" where
  "tryBSIFilter E r rgIdx node =
     (if \<not> HasRangeBSI r then Inr None
      else (case LoadRangeMeta r rgIdx (nd_Field node) of
              Inl e \<Rightarrow> Inl e
            | Inr None \<Rightarrow> Inr None
            | Inr (Some meta) \<Rightarrow>
                (case parseRangeBSIValue E (mt_ValueKind meta) (nd_RangeVal node) (nd_RangeOp node) of
                   None \<Rightarrow> Inr None
                 | Some raw \<Rightarrow>
                     (case rangeBSICompareOp (nd_RangeOp node) of
                        None \<Rightarrow> Inr None
                      | Some op \<Rightarrow> compareRangeBSI E r rgIdx (nd_Field node) meta op raw))))"

subsection \<open>Row masks\<close>

definition attachRowMask ::
  "('b, 's, 'f) rg_env \<Rightarrow> int \<Rightarrow> bytes \<Rightarrow> 'b \<Rightarrow> 'b RGFilterEvaluator \<Rightarrow> 'b RGFilterEvaluator"
where
  "attachRowMask E rgIdx field bm ev =
     (let ev = count (\<lambda>st. st\<lparr>rs_RangeBSIMaskBytes := rs_RangeBSIMaskBytes st + en_size E bm\<rparr>) ev;
          cur = (case ev_rowMasks ev rgIdx of None \<Rightarrow> bm | Some c \<Rightarrow> rb_and (en_roaring E) c bm);
          fs = (case ev_fieldRowMasks ev rgIdx of None \<Rightarrow> Map.empty | Some fs \<Rightarrow> fs);
          fieldMask = (case fs field of None \<Rightarrow> bm | Some c \<Rightarrow> rb_and (en_roaring E) c bm)
      in ev\<lparr>ev_rowMasks := (ev_rowMasks ev)(rgIdx \<mapsto> cur),
            ev_fieldRowMasks := (ev_fieldRowMasks ev)(rgIdx \<mapsto> fs(field \<mapsto> fieldMask))\<rparr>)"

subsection \<open>Zone maps\<close>

definition numericZoneMapExcludes :: "u64 \<Rightarrow> u64 \<Rightarrow> bytes \<Rightarrow> u64 \<Rightarrow> bool" where
  "numericZoneMapExcludes minVal maxVal op val =
     (if op = op_gt then float_le maxVal val
      else if op = op_ge then float_lt maxVal val
      else if op = op_lt then float_le val minVal
      else if op = op_le then float_lt val minVal
      else False)"

definition stringZoneMapExcludes :: "gostring \<Rightarrow> gostring \<Rightarrow> bytes \<Rightarrow> gostring \<Rightarrow> bool" where
  "stringZoneMapExcludes minVal maxVal op val =
     (if op = op_gt then maxVal \<le> val
      else if op = op_ge then maxVal < val
      else if op = op_lt then minVal \<ge> val
      else if op = op_le then minVal > val
      else False)"

definition zoneMapExcludesRange :: "(bytes \<Rightarrow> u64 option) \<Rightarrow> gostring \<Rightarrow> gostring \<Rightarrow> bytes \<Rightarrow> gostring \<Rightarrow> bool" where
  "zoneMapExcludesRange pf minVal maxVal op val =
     (case (pf minVal, pf maxVal, pf val) of
        (Some numMin, Some numMax, Some numVal) \<Rightarrow> numericZoneMapExcludes numMin numMax op numVal
      | _ \<Rightarrow> stringZoneMapExcludes minVal maxVal op val)"

text \<open>An operator that is none of the four falls through the numeric switch to the one on strings.\<close>

definition evalRangeCheck :: "(bytes \<Rightarrow> u64 option) \<Rightarrow> gostring \<Rightarrow> bytes \<Rightarrow> gostring \<Rightarrow> bool" where
  "evalRangeCheck pf val op target =
     (case (pf val, pf target) of
        (Some numVal, Some numTarget) \<Rightarrow>
          if op = op_gt then float_lt numTarget numVal
          else if op = op_ge then float_le numTarget numVal
          else if op = op_lt then float_lt numVal numTarget
          else if op = op_le then float_le numVal numTarget
          else False
      | _ \<Rightarrow>
          if op = op_gt then val > target
          else if op = op_ge then val \<ge> target
          else if op = op_lt then val < target
          else if op = op_le then val \<le> target
          else False)"

subsection \<open>Evaluation\<close>

type_synonym 'b evaluated = "RGVerdict \<times> 'b RGFilterEvaluator"

text \<open>The counters that the reasons for a skip increment.\<close>

definition const_skip :: "RGFilterStats \<Rightarrow> RGFilterStats" where
  "const_skip st = st\<lparr>rs_ConstSkips := rs_ConstSkips st + 1\<rparr>"
definition presence_skip :: "RGFilterStats \<Rightarrow> RGFilterStats" where
  "presence_skip st = st\<lparr>rs_PresenceSkips := rs_PresenceSkips st + 1\<rparr>"
definition zone_skip :: "RGFilterStats \<Rightarrow> RGFilterStats" where
  "zone_skip st = st\<lparr>rs_ZoneMapSkips := rs_ZoneMapSkips st + 1\<rparr>"
definition bloom_skip :: "RGFilterStats \<Rightarrow> RGFilterStats" where
  "bloom_skip st = st\<lparr>rs_BloomSkips := rs_BloomSkips st + 1\<rparr>"
definition bsi_skip :: "RGFilterStats \<Rightarrow> RGFilterStats" where
  "bsi_skip st = st\<lparr>rs_RangeBSISkips := rs_RangeBSISkips st + 1\<rparr>"
definition bloom_checked :: "RGFilterStats \<Rightarrow> RGFilterStats" where
  "bloom_checked st = st\<lparr>rs_BloomsChecked := rs_BloomsChecked st + 1\<rparr>"
definition bsi_checked :: "RGFilterStats \<Rightarrow> RGFilterStats" where
  "bsi_checked st = st\<lparr>rs_RangeBSIChecks := rs_RangeBSIChecks st + 1\<rparr>"

definition evalTerm :: "('b, 's, 'f) rg_env \<Rightarrow> Reader \<Rightarrow> RGFilterNode \<Rightarrow> int \<Rightarrow> 'b RGFilterEvaluator \<Rightarrow> 'b evaluated" where
  "evalTerm E r node rgIdx ev =
     (if nd_Terms node = [] then (RGMaybe, ev)
      else let ev = count bloom_checked ev in
        (case CheckColumnBloomAllTerms E r rgIdx raw_field (nd_Terms node) of
           Some False \<Rightarrow> (RGSkip, count bloom_skip ev)
         | _ \<Rightarrow> (RGMaybe, ev)))"

definition evalFieldEq :: "('b, 's, 'f) rg_env \<Rightarrow> Reader \<Rightarrow> RGFilterNode \<Rightarrow> int \<Rightarrow> 'b RGFilterEvaluator \<Rightarrow> 'b evaluated" where
  "evalFieldEq E r node rgIdx ev =
     (case GetConstValue r rgIdx (nd_Field node) of
        Some constVal \<Rightarrow> if constVal \<noteq> nd_Value node then (RGSkip, count const_skip ev) else (RGMaybe, ev)
      | None \<Rightarrow>
          if \<not> HasColumnInRowGroup r rgIdx (nd_Field node) then (RGSkip, count presence_skip ev)
          else if (case ColumnChunkInRowGroup r rgIdx (nd_Field node) of
                     None \<Rightarrow> False
                   | Some cc \<Rightarrow> nd_Value node < cm_MinValue cc \<or> nd_Value node > cm_MaxValue cc)
          then (RGSkip, count zone_skip ev)
          else if nd_Terms node \<noteq> [] then
            let ev = count bloom_checked ev in
            (case CheckColumnBloomAllTerms E r rgIdx (nd_Field node) (nd_Terms node) of
               Some False \<Rightarrow> (RGSkip, count bloom_skip ev)
             | _ \<Rightarrow> (RGMaybe, ev))
          else (RGMaybe, ev))"

definition evalFieldNeq :: "Reader \<Rightarrow> RGFilterNode \<Rightarrow> int \<Rightarrow> 'b RGFilterEvaluator \<Rightarrow> 'b evaluated" where
  "evalFieldNeq r node rgIdx ev =
     (if GetConstValue r rgIdx (nd_Field node) = Some (nd_Value node) then (RGSkip, count const_skip ev)
      else (case ColumnChunkInRowGroup r rgIdx (nd_Field node) of
              None \<Rightarrow> (RGMaybe, ev)
            | Some cc \<Rightarrow>
                if cm_MinValue cc = nd_Value node \<and> cm_MaxValue cc = nd_Value node
                then (RGSkip, count zone_skip ev) else (RGMaybe, ev)))"

definition evalFieldRange ::
  "('b, 's, 'f) rg_env \<Rightarrow> Reader \<Rightarrow> RGFilterNode \<Rightarrow> int \<Rightarrow> bool \<Rightarrow> 'b RGFilterEvaluator \<Rightarrow> 'b evaluated"
where
  "evalFieldRange E r node rgIdx allowRowMasks ev =
     (case GetConstValue r rgIdx (nd_Field node) of
        Some constVal \<Rightarrow>
          if \<not> evalRangeCheck (en_ParseFloat E) constVal (nd_RangeOp node) (nd_RangeVal node)
          then (RGSkip, count const_skip ev) else (RGMaybe, ev)
      | None \<Rightarrow>
          if \<not> HasColumnInRowGroup r rgIdx (nd_Field node) then (RGSkip, count presence_skip ev)
          else if (case ColumnChunkInRowGroup r rgIdx (nd_Field node) of
                     None \<Rightarrow> False
                   | Some cc \<Rightarrow> zoneMapExcludesRange (en_ParseFloat E) (cm_MinValue cc) (cm_MaxValue cc)
                                  (nd_RangeOp node) (nd_RangeVal node))
          then (RGSkip, count zone_skip ev)
          else let ev = count bsi_checked ev in
            (case tryBSIFilter E r rgIdx node of
               Inl _ \<Rightarrow> (RGMaybe, ev)
             | Inr None \<Rightarrow> (RGMaybe, ev)
             | Inr (Some bm) \<Rightarrow>
                 if rb_to_list (en_roaring E) bm = [] then (RGSkip, count bsi_skip ev)
                 else (RGMaybe, if allowRowMasks then attachRowMask E rgIdx (nd_Field node) bm ev else ev)))"

fun any_may_exist :: "('b, 's, 'f) rg_env \<Rightarrow> Reader \<Rightarrow> int \<Rightarrow> bytes \<Rightarrow> bytes list \<Rightarrow> bool" where
  "any_may_exist E r rgIdx field [] = False"
| "any_may_exist E r rgIdx field (t # ts) =
     (case CheckColumnBloom E r rgIdx field t of
        None \<Rightarrow> True
      | Some True \<Rightarrow> True
      | Some False \<Rightarrow> any_may_exist E r rgIdx field ts)"

definition evalFieldIn :: "('b, 's, 'f) rg_env \<Rightarrow> Reader \<Rightarrow> RGFilterNode \<Rightarrow> int \<Rightarrow> 'b RGFilterEvaluator \<Rightarrow> 'b evaluated" where
  "evalFieldIn E r node rgIdx ev =
     (case GetConstValue r rgIdx (nd_Field node) of
        Some constVal \<Rightarrow> if constVal \<notin> set (nd_Values node) then (RGSkip, count const_skip ev) else (RGMaybe, ev)
      | None \<Rightarrow>
          if \<not> HasColumnInRowGroup r rgIdx (nd_Field node) then (RGSkip, count presence_skip ev)
          else if (case ColumnChunkInRowGroup r rgIdx (nd_Field node) of
                     None \<Rightarrow> False
                   | Some cc \<Rightarrow> \<not> list_ex (\<lambda>v. v \<ge> cm_MinValue cc \<and> v \<le> cm_MaxValue cc) (nd_Values node))
          then (RGSkip, count zone_skip ev)
          else if nd_Terms node \<noteq> [] then
            let ev = count bloom_checked ev in
            if \<not> any_may_exist E r rgIdx (nd_Field node) (nd_Terms node) then (RGSkip, count bloom_skip ev)
            else (RGMaybe, ev)
          else (RGMaybe, ev))"

fun eval :: "('b, 's, 'f) rg_env \<Rightarrow> Reader \<Rightarrow> RGFilterNode \<Rightarrow> int \<Rightarrow> bool \<Rightarrow> 'b RGFilterEvaluator \<Rightarrow> 'b evaluated"
  and evalAnd :: "('b, 's, 'f) rg_env \<Rightarrow> Reader \<Rightarrow> RGFilterNode list \<Rightarrow> int \<Rightarrow> bool \<Rightarrow> 'b RGFilterEvaluator \<Rightarrow> 'b evaluated"
  and evalOr :: "('b, 's, 'f) rg_env \<Rightarrow> Reader \<Rightarrow> RGFilterNode list \<Rightarrow> int \<Rightarrow> 'b RGFilterEvaluator \<Rightarrow> 'b evaluated"
where
  "eval E r (RGFilterNode op cs f v vs ts ro rv) rgIdx allowRowMasks ev =
     (let node = RGFilterNode op cs f v vs ts ro rv in
      (case op of
         RGFilterAnd \<Rightarrow> evalAnd E r cs rgIdx allowRowMasks ev
       | RGFilterOr \<Rightarrow> evalOr E r cs rgIdx ev
       | RGFilterNot \<Rightarrow> (RGMaybe, ev)
       | RGFilterTerm \<Rightarrow> evalTerm E r node rgIdx ev
       | RGFilterFieldEq \<Rightarrow> evalFieldEq E r node rgIdx ev
       | RGFilterFieldNeq \<Rightarrow> evalFieldNeq r node rgIdx ev
       | RGFilterFieldRange \<Rightarrow> evalFieldRange E r node rgIdx allowRowMasks ev
       | RGFilterFieldIn \<Rightarrow> evalFieldIn E r node rgIdx ev))"
| "evalAnd E r [] rgIdx allowRowMasks ev = (RGMaybe, ev)"
| "evalAnd E r (c # cs) rgIdx allowRowMasks ev =
     (case eval E r c rgIdx allowRowMasks ev of
        (RGSkip, ev) \<Rightarrow> (RGSkip, ev)
      | (RGMaybe, ev) \<Rightarrow> evalAnd E r cs rgIdx allowRowMasks ev)"
| "evalOr E r [] rgIdx ev = (RGSkip, ev)"
| "evalOr E r (c # cs) rgIdx ev =
     (case eval E r c rgIdx False ev of
        (RGMaybe, ev) \<Rightarrow> (RGMaybe, ev)
      | (RGSkip, ev) \<Rightarrow> evalOr E r cs rgIdx ev)"

definition EvaluateRowGroup :: "('b, 's, 'f) rg_env \<Rightarrow> Reader \<Rightarrow> RGFilterNode \<Rightarrow> int \<Rightarrow> 'b RGFilterEvaluator \<Rightarrow> 'b evaluated" where
  "EvaluateRowGroup E r root rgIdx ev =
     (case eval E r root rgIdx True (count (\<lambda>st. st\<lparr>rs_TotalChecked := rs_TotalChecked st + 1\<rparr>) ev) of
        (RGSkip, ev) \<Rightarrow> (RGSkip, count (\<lambda>st. st\<lparr>rs_TotalSkipped := rs_TotalSkipped st + 1\<rparr>) ev)
      | (RGMaybe, ev) \<Rightarrow> (RGMaybe, ev))"

subsection \<open>The tree of a query\<close>

record FieldPredicate =
  fp_Field :: bytes
  fp_Op :: bytes
  fp_Value :: bytes
  fp_Wildcard :: bool

record RangePredicate =
  rp_Field :: bytes
  rp_Min :: bytes
  rp_Max :: bytes

record InPredicate =
  ip_Field :: bytes
  ip_Values :: "bytes list"
  ip_Negate :: bool

record SegmentStreamHints =
  h_SearchTerms :: "bytes list"
  h_FieldPreds :: "FieldPredicate list"
  h_RangePreds :: "RangePredicate list"
  h_InPreds :: "InPredicate list"

definition term_node :: "bytes \<Rightarrow> RGFilterNode" where
  "term_node t = RGFilterNode RGFilterTerm [] [] [] [] [t] [] []"

definition range_node :: "bytes \<Rightarrow> bytes \<Rightarrow> bytes \<Rightarrow> RGFilterNode" where
  "range_node field op val = RGFilterNode RGFilterFieldRange [] field [] [] [] op val"

definition field_node :: "FieldPredicate \<Rightarrow> RGFilterNode list" where
  "field_node fp =
     (if fp_Op fp = op_eq \<or> fp_Op fp = op_eqeq
      then [RGFilterNode RGFilterFieldEq [] (fp_Field fp) (fp_Value fp) [] [] [] []]
      else if fp_Op fp = op_ne
      then [RGFilterNode RGFilterFieldNeq [] (fp_Field fp) (fp_Value fp) [] [] [] []]
      else if fp_Op fp = op_gt \<or> fp_Op fp = op_ge \<or> fp_Op fp = op_lt \<or> fp_Op fp = op_le
      then [range_node (fp_Field fp) (fp_Op fp) (fp_Value fp)]
      else [])"

definition range_nodes :: "RangePredicate \<Rightarrow> RGFilterNode list" where
  "range_nodes rp =
     (if rp_Min rp \<noteq> [] then [range_node (rp_Field rp) op_ge (rp_Min rp)] else []) @
     (if rp_Max rp \<noteq> [] then [range_node (rp_Field rp) op_le (rp_Max rp)] else [])"

definition in_node :: "InPredicate \<Rightarrow> RGFilterNode" where
  "in_node ip = RGFilterNode RGFilterFieldIn [] (ip_Field ip) [] (ip_Values ip) [] [] []"

definition filter_children :: "SegmentStreamHints \<Rightarrow> RGFilterNode list" where
  "filter_children hints =
     map term_node (h_SearchTerms hints) @ concat (map field_node (h_FieldPreds hints)) @
     concat (map range_nodes (h_RangePreds hints)) @ map in_node (h_InPreds hints)"

definition BuildRGFilter :: "SegmentStreamHints option \<Rightarrow> RGFilterNode option" where
  "BuildRGFilter hints =
     (case hints of
        None \<Rightarrow> None
      | Some h \<Rightarrow>
          (case filter_children h of
             [] \<Rightarrow> None
           | [node] \<Rightarrow> Some node
           | cs \<Rightarrow> Some (RGFilterNode RGFilterAnd cs [] [] [] [] [] [])))"

subsection \<open>The range index of a column\<close>

text \<open>
  What the code relies on of the index library: the existence bitmap and the comparison of a value
  with the stored ones, as long as both are non-negative as int64. Of the standard library: a text that
  \<^verbatim>\<open>time.Parse\<close> accepts as RFC 3339, and a word that \<^verbatim>\<open>strconv.ParseBool\<close> accepts, is not a number for
  \<^verbatim>\<open>strconv.ParseFloat\<close>.
\<close>

definition env_laws :: "('b, 's, 'f) rg_env \<Rightarrow> bool" where
  "env_laws E \<longleftrightarrow>
     roaring_laws (en_roaring E) \<and> bsi_laws (en_bsi E) \<and>
     (\<forall>s y. rb_contains (en_roaring E) (en_existence E s) y \<longleftrightarrow> bsi_GetValue (en_bsi E) s (ucast y) \<noteq> None) \<and>
     (\<forall>s op v y. range_operation op \<and> unat v < 2 ^ 63 \<and>
         (\<forall>k x. bsi_GetValue (en_bsi E) s k = Some x \<longrightarrow> unat x < 2 ^ 63) \<longrightarrow>
       (rb_contains (en_roaring E) (en_compare E s op v) y \<longleftrightarrow>
         (\<exists>x. bsi_GetValue (en_bsi E) s (ucast y) = Some x \<and> packedCompareOffset x op v))) \<and>
     (\<forall>v. en_ParseTime E v \<noteq> None \<or> ParseBool v \<noteq> None \<and> ParseInt v = None \<longrightarrow> en_ParseFloat E v = None)"

lemma env_lawsD:
  assumes "env_laws E"
  shows "roaring_laws (en_roaring E)" "bsi_laws (en_bsi E)"
    "rb_contains (en_roaring E) (en_existence E s) y \<longleftrightarrow> bsi_GetValue (en_bsi E) s (ucast y) \<noteq> None"
    "range_operation op \<Longrightarrow> unat v < 2 ^ 63 \<Longrightarrow> \<forall>k x. bsi_GetValue (en_bsi E) s k = Some x \<longrightarrow> unat x < 2 ^ 63 \<Longrightarrow>
      rb_contains (en_roaring E) (en_compare E s op v) y \<longleftrightarrow>
        (\<exists>x. bsi_GetValue (en_bsi E) s (ucast y) = Some x \<and> packedCompareOffset x op v)"
    "en_ParseTime E lit = Some t \<Longrightarrow> en_ParseFloat E lit = None"
    "ParseBool lit = Some b \<Longrightarrow> ParseInt lit = None \<Longrightarrow> en_ParseFloat E lit = None"
  using assms unfolding env_laws_def by blast+

text \<open>The values an index column holds, by row, and the columns whose offsets fit their bounds.\<close>

fun column_kind :: "'s range_column \<Rightarrow> u8" where
  "column_kind (PackedColumn name kind mn mx bc rows vals) = kind"
| "column_kind (Base2Column name kind mn mx s) = kind"

fun column_bounds :: "'s range_column \<Rightarrow> u64 \<times> u64" where
  "column_bounds (PackedColumn name kind mn mx bc rows vals) = (mn, mx)"
| "column_bounds (Base2Column name kind mn mx s) = (mn, mx)"

fun column_offset :: "'s bsi \<Rightarrow> 's range_column \<Rightarrow> u32 \<Rightarrow> u64 option" where
  "column_offset B (PackedColumn name kind mn mx bc rows vals) y = Packed_Range.row_offset vals y"
| "column_offset B (Base2Column name kind mn mx s) y = bsi_GetValue B s (ucast y)"

fun column_fits :: "'s bsi \<Rightarrow> 's range_column \<Rightarrow> bool" where
  "column_fits B (PackedColumn name kind mn mx bc rows vals) \<longleftrightarrow>
     mn \<le>s mx \<and> values_fit bc mn mx vals \<and> distinct (map RowID vals)"
| "column_fits B (Base2Column name kind mn mx s) \<longleftrightarrow>
     mn \<le>s mx \<and> unat (mx - mn) < 2 ^ 63 \<and> (\<forall>k x. bsi_GetValue B s k = Some x \<longrightarrow> x \<le> mx - mn)"

text \<open>The section of a row group is the finalized section of some columns.\<close>

definition section_holds :: "('b, 's, 'f) rg_env \<Rightarrow> Reader \<Rightarrow> nat \<Rightarrow> 's range_column list \<Rightarrow> bool" where
  "section_holds E r i rcols \<longleftrightarrow>
     i < length (f_RowGroups (rd_footer r)) \<and> list_all (column_fits (en_bsi E)) rcols \<and>
     (\<exists>e. encoder_of (en_bsi E) e rcols \<and> rangeSectionBytes r (int i) = Inr (section_bytes e))"

lemma row_offset_found: "distinct (map RowID vals) \<Longrightarrow>
    Packed_Range.row_offset vals y = Some off \<longleftrightarrow> (\<exists>v \<in> set vals. RowID v = y \<and> Offset v = off)"
  by (induction vals) (auto simp: Packed_Range.row_offset_def image_iff)

lemma find_fits: "find p xs = Some x \<Longrightarrow> list_all q xs \<Longrightarrow> q x"
  by (auto simp: find_Some_iff list_all_iff)

text \<open>The answer of an index, whichever of the two layouts it has.\<close>

lemma compareRangeBSI_packed:
  assumes E: "env_laws E" and e: "encoder_of (en_bsi E) e rcols" "rangeSectionBytes r (int i) = Inr (section_bytes e)"
    and rc: "find (\<lambda>c. col_name c = name) rcols = Some (PackedColumn name kind mn mx bc rows vals)"
    and fits: "column_fits (en_bsi E) (PackedColumn name kind mn mx bc rows vals)" and op: "range_operation op"
    and i: "row_group_at r (int i) = Some rg" "rg_PerColumnRangeLength rg \<noteq> 0"
  shows "\<exists>bm. compareRangeBSI E r (int i) name meta op raw = Inr (Some bm) \<and>
    (\<forall>y. rb_contains (en_roaring E) bm y \<longleftrightarrow>
       (\<exists>off. column_offset (en_bsi E) (PackedColumn name kind mn mx bc rows vals) y = Some off \<and>
              compare_holds op (sint (mn + off)) (sint raw)))"
proof -
  from fits have f: "mn \<le>s mx" "values_fit bc mn mx vals" "distinct (map RowID vals)" by simp_all
  obtain h where h: "find_column (section_bytes e) name = Inr (Some h)"
    "column_entry (en_bsi E) (PackedColumn name kind mn mx bc rows vals) h"
    using find_column_encoded(2) [OF e(1) rc] by blast
  have "sint (h_minValue h) \<le> sint (h_maxValue h)" using f(1) h(2) by (simp add: word_sle_eq)
  from comparePackedRangePayload_rows [OF env_lawsD(1) [OF E] column_entry_packed_ok [OF h(2) f(2)] this op, of raw]
  obtain bm where "comparePackedRangePayload (en_roaring E) h op raw = Inr bm"
    "\<And>y. rb_contains (en_roaring E) bm y \<longleftrightarrow>
       (\<exists>v \<in> set vals. RowID v = y \<and> compare_holds op (sint (h_minValue h + Offset v)) (sint raw))" by blast
  with h i e(2) show ?thesis
    by (auto simp: compareRangeBSI_def ComparePackedRangeSectionEntry_def row_offset_found [OF f(3)])
qed

lemma compareRangeBSI_base2:
  assumes E: "env_laws E" and e: "encoder_of (en_bsi E) e rcols" "rangeSectionBytes r (int i) = Inr (section_bytes e)"
    and rc: "find (\<lambda>c. col_name c = name) rcols = Some (Base2Column name kind mn mx s)"
    and fits: "column_fits (en_bsi E) (Base2Column name kind mn mx s)" and op: "range_operation op"
    and i: "row_group_at r (int i) = Some rg" "rg_PerColumnRangeLength rg \<noteq> 0"
    and meta: "mt_MinValue meta = mn" "mt_MaxValue meta = mx"
  shows "\<exists>bm. compareRangeBSI E r (int i) name meta op raw = Inr (Some bm) \<and>
    (\<forall>y. rb_contains (en_roaring E) bm y \<longleftrightarrow>
       (\<exists>off. column_offset (en_bsi E) (Base2Column name kind mn mx s) y = Some off \<and>
              compare_holds op (sint (mn + off)) (sint raw)))"
proof -
  let ?B = "en_bsi E"
  from fits have f: "sint mn \<le> sint mx" "unat (mx - mn) < 2 ^ 63" "\<And>k x. bsi_GetValue ?B s k = Some x \<Longrightarrow> x \<le> mx - mn"
    by (simp_all add: word_sle_eq)
  obtain h where h: "find_column (section_bytes e) name = Inr (Some h)" "column_entry ?B (Base2Column name kind mn mx s) h"
    using find_column_encoded(2) [OF e(1) rc] by blast
  then obtain fs where fs: "bsi_MarshalBinary ?B s = Some fs" "encode_frames fs = Inr (h_payload h)" by auto
  obtain s' where s': "bsi_UnmarshalBinary ?B fs = Some s'" "bsi_GetValue ?B s' = bsi_GetValue ?B s"
    using bsi_lawsD(5) [OF env_lawsD(2) [OF E] fs(1)] by blast
  have "DecodeRangeSectionEntry ?B (section_bytes e) name = Inr (Some (entry_of h s'))"
    using h s'(1) decode_encode_frames [OF fs(2), of 0 "h_payload h"]
    by (simp add: DecodeRangeSectionEntry_def decodeRangeSectionEntryPayload_def
        decodeBase2RangeSectionEntryPayload_def decodeRangeSectionFrames_def)
  then have load: "LoadRangeBSI E r (int i) name = Inr (Some s')"
    using i e(2) by (simp add: LoadRangeBSI_def entry_of_def)
  have packed: "ComparePackedRangeSectionEntry (en_roaring E) (section_bytes e) name op raw = Inr None"
    using h by (simp add: ComparePackedRangeSectionEntry_def range_layouts)
  obtain sc where sc: "compare_shortcut op raw mn mx = Inr sc" using compare_shortcut_total [OF op] by blast
  note inside = sint_add_offset [OF f(1) f(3)]
  show ?thesis
  proof (cases sc)
    case None
    note between = compare_shortcut_sound(2) [OF sc None]
    have small: "\<forall>k x. bsi_GetValue ?B s' k = Some x \<longrightarrow> unat x < 2 ^ 63"
      using f(2,3) s'(2) by (metis le_less_trans word_le_nat_alt)
    have "unat (raw - mn) < 2 ^ 63"
      using packedCompareOffset_sound(2) [OF op, of mn raw mx 0] between f(2) by (simp add: not_less word_le_nat_alt)
    note cmp = env_lawsD(4) [OF E op this small]
    show ?thesis
      using i e(2) packed load sc None meta s'(2) f(3) packedCompareOffset_sound(1) [OF op, of mn raw mx] between
      by (auto simp: compareRangeBSI_def rangeBSIOffset_def cmp)
  next
    case (Some b)
    have "compareRangeBSI E r (int i) name meta op raw = Inr (Some (if b then en_existence E s' else rb_new (en_roaring E)))"
      using i e(2) packed load sc Some meta by (simp add: compareRangeBSI_def split: bool.split)
    moreover have "compare_holds op (sint (mn + off)) (sint raw) = b" if "bsi_GetValue ?B s k = Some off" for k off
    proof -
      have "sint mn \<le> sint (mn + off)" "sint (mn + off) \<le> sint mx" using inside [OF that] by simp_all
      with compare_shortcut_sound(1) [OF sc Some] show ?thesis by blast
    qed
    ultimately show ?thesis
      using env_lawsD(3) [OF E] roaring_lawsD(1) [OF env_lawsD(1) [OF E]] s'(2) by auto
  qed
qed

subsection \<open>What the metadata of a row group promises\<close>

text \<open>
  The predicates that \<open>NewSegmentStreamIterator\<close> gives to the reader of the rows, from the same
  hints as the filter tree.
\<close>

definition hint_predicates :: "SegmentStreamHints \<Rightarrow> Predicate list" where
  "hint_predicates h =
     map (\<lambda>fp. \<lparr>pd_Field = fp_Field fp, pd_Op = fp_Op fp, pd_Value = fp_Value fp, pd_Values = []\<rparr>) (h_FieldPreds h) @
     concat (map (\<lambda>rp.
       (if rp_Min rp \<noteq> [] then [\<lparr>pd_Field = rp_Field rp, pd_Op = op_ge, pd_Value = rp_Min rp, pd_Values = []\<rparr>] else []) @
       (if rp_Max rp \<noteq> [] then [\<lparr>pd_Field = rp_Field rp, pd_Op = op_le, pd_Value = rp_Max rp, pd_Values = []\<rparr>] else []))
       (h_RangePreds h)) @
     map (\<lambda>ip. \<lparr>pd_Field = ip_Field ip, pd_Op = op_in, pd_Value = [], pd_Values = ip_Values ip\<rparr>) (h_InPreds h)"

text \<open>Zone maps as the writer computes them, \<open>fmt\<close> being \<^verbatim>\<open>strconv.FormatFloat\<close>.\<close>

fun column_stats :: "(u64 \<Rightarrow> bytes) \<Rightarrow> bytes \<Rightarrow> column \<Rightarrow> ColumnStats" where
  "column_stats fmt name (ConstColumn v) = stringColumnStats name [v]"
| "column_stats fmt name (StringColumn vs) = stringColumnStats name vs"
| "column_stats fmt name (IntColumn vs) = int64ColumnStats name vs"
| "column_stats fmt name (FloatColumn vs) = float64ColumnStats float_lt fmt name vs"

definition zone_maps :: "(u64 \<Rightarrow> bytes) \<Rightarrow> RowGroupMeta \<Rightarrow> (bytes \<Rightarrow> column option) \<Rightarrow> bool" where
  "zone_maps fmt rg cols \<longleftrightarrow>
     (\<forall>name c cc. cols name = Some c \<and> findChunk rg name = Some cc \<longrightarrow>
        findConstColumn rg name = None \<and> cm_MinValue cc = st_MinValue (column_stats fmt name c) \<and>
        cm_MaxValue cc = st_MaxValue (column_stats fmt name c))"

text \<open>
  The range index, if the segment has one, holds for every row that has a value in an indexed column
  the integer that stands for it, by the kind of the index: the integer itself for integers (which
  is how time stamps and booleans are stored too), the order-preserving encoding for floats.
  \<open>present name k\<close> tells the rows for which the writer found a value to index.
\<close>

fun index_raw :: "u8 \<Rightarrow> column \<Rightarrow> nat \<Rightarrow> u64 option" where
  "index_raw kind (IntColumn vs) k =
     (if kind \<in> {RangeBSIValueInt, RangeBSIValueTimestampNS, RangeBSIValueBool} then Some (vs ! k) else None)"
| "index_raw kind (FloatColumn vs) k =
     (if kind = RangeBSIValueFloat64Bits then Some (FloatToOrderedInt64 (vs ! k)) else None)"
| "index_raw kind c k = None"

definition range_indexed ::
  "('b, 's, 'f) rg_env \<Rightarrow> Reader \<Rightarrow> nat \<Rightarrow> (bytes \<Rightarrow> nat \<Rightarrow> bool) \<Rightarrow> (bytes \<Rightarrow> column option) \<Rightarrow> bool"
where
  "range_indexed E r i present cols \<longleftrightarrow>
     (HasRangeBSI r \<and> rg_PerColumnRangeLength (f_RowGroups (rd_footer r) ! i) \<noteq> 0 \<longrightarrow>
      (\<exists>rcols. section_holds E r i rcols \<and>
        (\<forall>rc \<in> set rcols. \<forall>c k. cols (col_name rc) = Some c \<and> k < rg_RowCount (f_RowGroups (rd_footer r) ! i) \<and>
           present (col_name rc) k \<longrightarrow>
           (\<exists>raw. index_raw (column_kind rc) c k = Some raw \<and>
              map_option (\<lambda>off. fst (column_bounds rc) + off) (column_offset (en_bsi E) rc (word_of_nat k)) = Some raw))))"

text \<open>A bloom filter has no false negatives: \<open>tokens k\<close> are the tokens of the raw line of row \<open>k\<close>.\<close>

definition blooms_cover :: "('b, 's, 'f) rg_env \<Rightarrow> Reader \<Rightarrow> nat \<Rightarrow> (nat \<Rightarrow> bytes set) \<Rightarrow> bool" where
  "blooms_cover E r i tokens \<longleftrightarrow>
     (\<forall>blooms bf k t. loadPerColumnBlooms E r (int i) = Some (Some blooms) \<and> blooms raw_field = Some bf \<and>
        k < rg_RowCount (f_RowGroups (rd_footer r) ! i) \<and> t \<in> tokens k \<longrightarrow> en_bloom_test E bf t)"

text \<open>
  The literals for which the metadata of a column can be compared as the column's values are: text
  columns with equality, inequality, membership or a range literal that is no number; integer
  columns with inequality, or with a range literal when \<^verbatim>\<open>strconv.ParseFloat\<close> is exact on the literal
  and on the column's values; float columns with a range literal when formatting is exact and
  negative zero, which the encoding of floats puts below positive zero, is neither in the column nor
  the literal.
\<close>

definition negative_zero :: u64 where "negative_zero = push_bit 63 1"

definition range_ops :: "bytes set" where "range_ops = {op_gt, op_ge, op_lt, op_le}"

definition parses_exactly :: "(bytes \<Rightarrow> u64 option) \<Rightarrow> bytes \<Rightarrow> int \<Rightarrow> bool" where
  "parses_exactly pf s n \<longleftrightarrow> (case pf s of None \<Rightarrow> False | Some f \<Rightarrow> \<not> is_NaN f \<and> float_value f = n * float_unit)"

fun prunable :: "(bytes \<Rightarrow> u64 option) \<Rightarrow> (u64 \<Rightarrow> bytes) \<Rightarrow> Predicate \<Rightarrow> column \<Rightarrow> bool" where
  "prunable pf fmt p (ConstColumn v) \<longleftrightarrow> (if pd_Op p \<in> range_ops then pf (pd_Value p) = None else True)"
| "prunable pf fmt p (StringColumn vs) \<longleftrightarrow> (if pd_Op p \<in> range_ops then pf (pd_Value p) = None else True)"
| "prunable pf fmt p (IntColumn vs) \<longleftrightarrow>
     (if pd_Op p \<in> range_ops
      then list_all (\<lambda>v. parses_exactly pf (FormatInt (sint v)) (sint v)) vs \<and>
        (case ParseInt (pd_Value p) of None \<Rightarrow> True | Some n \<Rightarrow> parses_exactly pf (pd_Value p) n)
      else pd_Op p = op_ne)"
| "prunable pf fmt p (FloatColumn vs) \<longleftrightarrow> pd_Op p \<in> range_ops \<and> list_all (\<lambda>v. pf (fmt v) = Some v) vs \<and>
     pf (pd_Value p) \<noteq> Some negative_zero \<and> negative_zero \<notin> set vs"

text \<open>Rows that have a value: the empty string is the null of a text column.\<close>

fun cell_present :: "column \<Rightarrow> nat \<Rightarrow> bool" where
  "cell_present (StringColumn vs) k \<longleftrightarrow> vs ! k \<noteq> []"
| "cell_present _ k \<longleftrightarrow> True"

text \<open>Row \<open>k\<close> has values in the columns of the predicates and satisfies all of them.\<close>

definition row_satisfies ::
  "(bytes \<Rightarrow> u64 option) \<Rightarrow> (bytes \<Rightarrow> nat \<Rightarrow> bool) \<Rightarrow> Predicate list \<Rightarrow> (bytes \<Rightarrow> column option) \<Rightarrow> nat \<Rightarrow> bool"
where
  "row_satisfies pf present preds cols k \<longleftrightarrow>
     list_all (\<lambda>p. case cols (pd_Field p) of
         None \<Rightarrow> False
       | Some c \<Rightarrow> present (pd_Field p) k \<and> cell_present c k \<and> column_matches pf p c k) preds"

subsection \<open>Decimal integers\<close>

lemma parse_digits_append:
  "parse_digits (xs @ ys) acc = (case parse_digits xs acc of None \<Rightarrow> None | Some a \<Rightarrow> parse_digits ys a)"
  by (induction xs acc rule: parse_digits.induct) auto

lemma byte_digit: "k < 10 \<Longrightarrow> (of_char (digit k) :: u8) = word_of_nat (48 + k)"
proof -
  have "(of_char (digit k) :: u8) = word_of_nat (of_char (digit k))" by (rule of_nat_of_char [symmetric])
  also assume "k < 10"
  then have "of_char (digit k) = 48 + k" by (simp add: digit_def)
  finally show ?thesis .
qed

lemma unat_digit: "k < 10 \<Longrightarrow> unat (of_char (digit k) :: u8) = 48 + k"
  by (simp only: byte_digit unat_of_nat) simp

lemma parse_digits_dec: "parse_digits (map of_char (dec n)) 0 = Some n"
proof (induction n rule: dec.induct)
  case (1 n)
  have d: "48 \<le> (of_char (digit k) :: u8) \<and> (of_char (digit k) :: u8) \<le> 57" if "k < 10" for k
    using unat_digit [OF that] that by (simp add: word_le_nat_alt)
  show ?case
  proof (cases "n < 10")
    case True
    with d [OF True] unat_digit [OF True] show ?thesis by (subst dec.simps) simp
  next
    case False
    with 1 d [of "n mod 10"] unat_digit [of "n mod 10"] show ?thesis
      by (subst dec.simps) (simp add: parse_digits_append)
  qed
qed

lemma dec_first:
  assumes "map of_char (dec n) = (c :: u8) # cs"
  shows "c \<noteq> 43" "c \<noteq> 45"
proof -
  obtain d ds where "dec n = d # ds" "c = of_char d" using assms by auto
  with set_dec [of d n] obtain k where "k < 10" "c = of_char (digit k)" by auto
  with unat_digit [of k] show "c \<noteq> 43" "c \<noteq> 45" by auto
qed

lemma dec_nonempty: "dec n \<noteq> []"
  by (subst dec.simps) simp

lemma ParseInt_FormatInt:
  assumes "- (2 ^ 63) \<le> n" and "n < 2 ^ 63"
  shows "ParseInt (FormatInt n) = Some n"
proof (cases "n < 0")
  case True
  have "nat (- n) \<le> 2 ^ 63" using assms(1) by (simp add: nat_le_iff)
  with True show ?thesis by (simp add: FormatInt_def ParseInt_def parse_digits_dec dec_nonempty)
next
  case False
  obtain c :: u8 and cs where c: "map of_char (dec (nat n)) = c # cs" using dec_nonempty [of "nat n"] by (cases "dec (nat n)") auto
  have "nat n < 2 ^ 63" using assms(2) by (simp add: nat_less_iff)
  with False c parse_digits_dec [of "nat n"] dec_first [OF c] show ?thesis by (simp add: FormatInt_def ParseInt_def)
qed

lemma ParseInt_FormatInt_sint: "ParseInt (FormatInt (sint v)) = Some (sint v)" for v :: u64
  using sint_greater_eq [of v] sint_less [of v] by (simp add: ParseInt_FormatInt)

lemma ParseInt_range: "ParseInt s = Some n \<Longrightarrow> - (2 ^ 63) \<le> n \<and> n < 2 ^ 63"
  by (auto simp: ParseInt_def Let_def split: list.splits if_splits option.splits)

subsection \<open>Rows that survive a node\<close>

text \<open>
  Row \<open>k\<close> survives an evaluation: the verdict is to scan the row group, and every collected row
  mask keeps the row.
\<close>

definition keeps :: "('b, 's, 'f) rg_env \<Rightarrow> int \<Rightarrow> nat \<Rightarrow> 'b RGFilterEvaluator \<Rightarrow> bool" where
  "keeps E rgIdx k ev \<longleftrightarrow>
     (\<forall>bm. RowMaskFor ev rgIdx = Some bm \<longrightarrow> rb_contains (en_roaring E) bm (word_of_nat k)) \<and>
     (\<forall>f bm. RowMaskForField ev rgIdx f = Some bm \<longrightarrow> rb_contains (en_roaring E) bm (word_of_nat k))"

definition survives :: "('b, 's, 'f) rg_env \<Rightarrow> int \<Rightarrow> nat \<Rightarrow> 'b evaluated \<Rightarrow> bool" where
  "survives E rgIdx k res \<longleftrightarrow> fst res = RGMaybe \<and> keeps E rgIdx k (snd res)"

lemma keeps_count [simp]: "keeps E rgIdx k (count f ev) = keeps E rgIdx k ev"
  by (simp add: keeps_def count_def RowMaskFor_def RowMaskForField_def)

lemma survives_maybe [simp]: "survives E rgIdx k (RGMaybe, ev) \<longleftrightarrow> keeps E rgIdx k ev"
  "\<not> survives E rgIdx k (RGSkip, ev)"
  by (simp_all add: survives_def)

lemma keeps_attach:
  assumes "roaring_laws (en_roaring E)" and "keeps E rgIdx k ev" and "rb_contains (en_roaring E) bm (word_of_nat k)"
  shows "keeps E rgIdx k (attachRowMask E rgIdx field bm ev)"
  using assms roaring_lawsD(5) [OF assms(1)]
  by (auto simp: keeps_def attachRowMask_def Let_def count_def RowMaskFor_def RowMaskForField_def split: option.splits if_splits)

text \<open>A row group whose metadata describes its columns.\<close>

definition described ::
  "lz4 \<Rightarrow> zstd \<Rightarrow> (u64 \<Rightarrow> bytes) \<Rightarrow> ('b, 's, 'f) rg_env \<Rightarrow> Reader \<Rightarrow> nat \<Rightarrow> (bytes \<Rightarrow> nat \<Rightarrow> bool) \<Rightarrow>
    (bytes \<Rightarrow> column option) \<Rightarrow> bool"
where
  "described Z S fmt E r i present cols \<longleftrightarrow>
     env_laws E \<and> row_group_holds Z S r i cols \<and> zone_maps fmt (f_RowGroups (rd_footer r) ! i) cols \<and>
     range_indexed E r i present cols"

lemma described_column:
  assumes "described Z S fmt E r i present cols" and "cols name = Some c"
  obtains (const) v where "c = ConstColumn v" "v \<noteq> []" "GetConstValue r (int i) name = Some v" "ColumnChunkInRowGroup r (int i) name = None"
  | (chunk) cc where "\<And>v. c \<noteq> ConstColumn v" "GetConstValue r (int i) name = None" "HasColumnInRowGroup r (int i) name"
      "ColumnChunkInRowGroup r (int i) name = Some cc" "chunk_holds Z S r cc (rg_RowCount (f_RowGroups (rd_footer r) ! i)) c"
      "cm_MinValue cc = st_MinValue (column_stats fmt name c)" "cm_MaxValue cc = st_MaxValue (column_stats fmt name c)"
proof -
  let ?rg = "f_RowGroups (rd_footer r) ! i"
  have h: "row_group_at r (int i) = Some ?rg" "column_stored Z S r i ?rg name (Some c)" "zone_maps fmt ?rg cols"
    using assms by (auto simp: described_def row_group_holds_def row_group_at_nth dest: spec [of _ name])
  from h(2) show thesis
  proof (cases rule: column_stored_cases)
    case (1 v cc)
    with h assms(2) have "findChunk ?rg name = None" by (cases "findChunk ?rg name") (auto simp: zone_maps_def)
    with 1 h const show thesis by (auto simp: GetConstValue_def ColumnChunkInRowGroup_def column_stored_def)
  next
    case (2 cc)
    with h(3) assms(2) have "cm_MinValue cc = st_MinValue (column_stats fmt name c)" "cm_MaxValue cc = st_MaxValue (column_stats fmt name c)"
      unfolding zone_maps_def by blast+
    with 2 h(1) chunk show thesis by (cases c) (auto simp: GetConstValue_def ColumnChunkInRowGroup_def)
  qed
qed

text \<open>The value of a text column in a row lies in the zone map.\<close>

fun text_cell :: "column \<Rightarrow> nat \<Rightarrow> gostring option" where
  "text_cell (ConstColumn v) k = Some v"
| "text_cell (StringColumn vs) k = Some (vs ! k)"
| "text_cell _ k = None"

lemma text_zone:
  assumes "chunk_holds Z S r cc n c" and "k < n" and "text_cell c k = Some v" and "v \<noteq> []"
    and "cm_MinValue cc = st_MinValue (column_stats fmt name c)" and "cm_MaxValue cc = st_MaxValue (column_stats fmt name c)"
  shows "cm_MinValue cc \<le> v \<and> v \<le> cm_MaxValue cc"
  using assms stringColumnStats_bounds(1,2) [of v _ name] by (cases c) auto

subsection \<open>Zone maps do not exclude matching rows\<close>

lemma numeric_zone:
  assumes "evalInt64Predicate x op (float_value f)" and "op \<in> range_ops"
    and "is_NaN a \<or> float_value a \<le> x" and "is_NaN b \<or> x \<le> float_value b"
  shows "\<not> numericZoneMapExcludes a b op f"
  using assms by (auto simp: evalInt64Predicate_def range_ops_def numericZoneMapExcludes_def float_le_def float_lt_def)

lemma text_range_zone:
  assumes "evalStringPredicate v op val" and "op \<in> range_ops" and "lo \<le> v" and "v \<le> hi"
  shows "\<not> stringZoneMapExcludes lo hi op val"
  using assms by (auto simp: evalStringPredicate_def range_ops_def stringZoneMapExcludes_def)

lemma scaled_compare: "evalInt64Predicate (v * float_unit) op (n * float_unit) = evalInt64Predicate v op n"
  using float_unit_pos by (simp add: evalInt64Predicate_def mult_less_cancel_right mult_le_cancel_right)

lemma parses_exactlyE:
  assumes "parses_exactly pf s n"
  obtains f where "pf s = Some f" "float_value f = n * float_unit"
  using assms by (auto simp: parses_exactly_def split: option.splits)

lemma int_range_match:
  assumes m: "int_matches pf p v" and op: "pd_Op p \<in> range_ops"
    and lit: "case ParseInt (pd_Value p) of None \<Rightarrow> True | Some n \<Rightarrow> parses_exactly pf (pd_Value p) n"
  obtains f where "pf (pd_Value p) = Some f" "evalInt64Predicate (v * float_unit) (pd_Op p) (float_value f)"
proof (cases "ParseInt (pd_Value p)")
  case (Some n)
  with lit obtain f where "pf (pd_Value p) = Some f" "float_value f = n * float_unit" by (auto elim: parses_exactlyE)
  with that m op Some scaled_compare show thesis
    by (auto simp: int_matches_def coerceIntPredicateValue_def range_ops_def)
next
  case None
  with m op obtain f where f: "pf (pd_Value p) = Some f"
    by (auto simp: int_matches_def coerceIntPredicateValue_def range_ops_def split: option.splits)
  moreover from f None m op have "evalInt64Predicate (v * float_unit) (pd_Op p) (float_value f)"
    by (auto simp: int_matches_def coerceIntPredicateValue_def range_ops_def coerced_int_def evalInt64Predicate_def rounding split: if_splits)
  ultimately show thesis by (rule that)
qed

lemma float_bounds_loop:
  assumes "bounds_loop float_lt vs (a, b) = (a', b')"
  shows "(is_NaN a' \<longleftrightarrow> is_NaN a) \<and> (is_NaN b' \<longleftrightarrow> is_NaN b) \<and> a' \<in> insert a (set vs) \<and> b' \<in> insert b (set vs) \<and>
    (\<not> is_NaN a \<longrightarrow> float_value a' \<le> float_value a) \<and> (\<not> is_NaN b \<longrightarrow> float_value b \<le> float_value b') \<and>
    (\<forall>v \<in> set vs. \<not> is_NaN v \<longrightarrow> (is_NaN a' \<or> float_value a' \<le> float_value v) \<and> (is_NaN b' \<or> float_value v \<le> float_value b'))"
  using assms
proof (induction vs arbitrary: a b)
  case (Cons v vs)
  from Cons.IH [of "if float_lt v a then v else a" "if float_lt b v then v else b"] Cons.prems show ?case
    by (auto simp: float_lt_def split: if_splits)
qed simp

lemma float64ColumnStats_bounds:
  assumes "v \<in> set vs" and "\<not> is_NaN v"
  obtains a b where "a \<in> set vs" "b \<in> set vs" "is_NaN a \<or> float_value a \<le> float_value v" "is_NaN b \<or> float_value v \<le> float_value b"
    "st_MinValue (float64ColumnStats float_lt fmt name vs) = fmt a" "st_MaxValue (float64ColumnStats float_lt fmt name vs) = fmt b"
proof -
  obtain x xs where vs: "vs = x # xs" using assms by (cases vs) auto
  obtain a b where l: "bounds_loop float_lt xs (x, x) = (a, b)" by force
  have "is_NaN a \<or> float_value a \<le> float_value v" "is_NaN b \<or> float_value v \<le> float_value b" "a \<in> set vs" "b \<in> set vs"
    using float_bounds_loop [OF l] assms by (auto simp: vs)
  with l that show thesis by (simp add: float64ColumnStats_def vs)
qed

lemma float_range_match:
  assumes "float_matches pf p v" and "pd_Op p \<in> range_ops"
  obtains f where "pf (pd_Value p) = Some f" "\<not> is_NaN v" "evalInt64Predicate (float_value v) (pd_Op p) (float_value f)"
  using assms that
  by (auto simp: float_matches_def range_ops_def evalFloat64Predicate_def evalInt64Predicate_def float_lt_def float_le_def split: option.splits)

lemma range_zone:
  assumes chunk: "chunk_holds Z S r cc n c" and k: "k < n" "cell_present c k"
    and match: "column_matches pf p c k" and prune: "prunable pf fmt p c" and op: "pd_Op p \<in> range_ops"
    and stats: "cm_MinValue cc = st_MinValue (column_stats fmt name c)" "cm_MaxValue cc = st_MaxValue (column_stats fmt name c)"
  shows "\<not> zoneMapExcludesRange pf (cm_MinValue cc) (cm_MaxValue cc) (pd_Op p) (pd_Value p)"
proof (cases c)
  case (StringColumn vs)
  with text_zone [OF chunk k(1) _ _ stats] k(2) have "cm_MinValue cc \<le> vs ! k" "vs ! k \<le> cm_MaxValue cc" by simp_all
  moreover have "evalStringPredicate (vs ! k) (pd_Op p) (pd_Value p)" "pf (pd_Value p) = None"
    using match op prune StringColumn by (auto simp: string_matches_def range_ops_def)
  ultimately show ?thesis using text_range_zone op by (auto simp: zoneMapExcludesRange_def split: option.split)
next
  case (IntColumn vs)
  then have v: "vs ! k \<in> set vs" using chunk k(1) by simp
  obtain a b where ab: "a \<in> set vs" "b \<in> set vs" "sint a \<le> sint (vs ! k)" "sint (vs ! k) \<le> sint b"
    "cm_MinValue cc = FormatInt (sint a)" "cm_MaxValue cc = FormatInt (sint b)"
    using int64ColumnStats_bounds [OF v, of name] stats IntColumn by auto
  have exact: "list_all (\<lambda>v. parses_exactly pf (FormatInt (sint v)) (sint v)) vs"
    "case ParseInt (pd_Value p) of None \<Rightarrow> True | Some n \<Rightarrow> parses_exactly pf (pd_Value p) n"
    using prune op IntColumn by simp_all
  have "parses_exactly pf (FormatInt (sint x)) (sint x)" if "x \<in> set vs" for x using exact(1) that by (simp add: list_all_iff)
  from parses_exactlyE [OF this [OF ab(1)]] parses_exactlyE [OF this [OF ab(2)]]
  obtain fa fb where fab: "pf (FormatInt (sint a)) = Some fa" "float_value fa = sint a * float_unit"
    "pf (FormatInt (sint b)) = Some fb" "float_value fb = sint b * float_unit" by metis
  obtain f where f: "pf (pd_Value p) = Some f" "evalInt64Predicate (sint (vs ! k) * float_unit) (pd_Op p) (float_value f)"
    using int_range_match [OF _ op exact(2)] match IntColumn by auto
  have "float_value fa \<le> sint (vs ! k) * float_unit" "sint (vs ! k) * float_unit \<le> float_value fb"
    unfolding fab using ab(3,4) float_unit_pos by (simp_all add: mult_right_mono)
  with numeric_zone [OF f(2) op] show ?thesis by (simp add: zoneMapExcludesRange_def ab(5,6) fab(1,3) f(1))
next
  case (FloatColumn vs)
  then have v: "vs ! k \<in> set vs" using chunk k(1) by simp
  obtain f where f: "pf (pd_Value p) = Some f" "\<not> is_NaN (vs ! k)" "evalInt64Predicate (float_value (vs ! k)) (pd_Op p) (float_value f)"
    using float_range_match [OF _ op] match FloatColumn by auto
  obtain a b where ab: "a \<in> set vs" "b \<in> set vs" "is_NaN a \<or> float_value a \<le> float_value (vs ! k)"
    "is_NaN b \<or> float_value (vs ! k) \<le> float_value b" "cm_MinValue cc = fmt a" "cm_MaxValue cc = fmt b"
    using float64ColumnStats_bounds [OF v f(2), of fmt name] stats FloatColumn by auto
  have "pf (fmt a) = Some a" "pf (fmt b) = Some b" using prune FloatColumn ab(1,2) by (auto simp: list_all_iff)
  with numeric_zone [OF f(3) op ab(3,4)] show ?thesis by (simp add: zoneMapExcludesRange_def ab(5,6) f(1))
qed (use chunk in simp)

subsection \<open>The range index keeps matching rows\<close>

lemmas range_kinds = RangeBSIValueInt_def RangeBSIValueFloat64Bits_def RangeBSIValueTimestampNS_def RangeBSIValueBool_def

lemma coerced_range:
  assumes "coerceIntPredicateValue pf s op = (n, intPredicateCompare, True)"
  shows "- (2 ^ 63) \<le> n \<and> n < 2 ^ 63"
  using assms ParseInt_range [of s n]
  by (auto simp: coerceIntPredicateValue_def coerced_int_def split: option.splits if_splits)

lemma parseIntRangeValue_match:
  assumes "parseIntRangeValue pf (pd_Value p) (pd_Op p) = Some raw" and "rangeBSICompareOp (pd_Op p) = Some op"
    and "int_matches pf p v"
  shows "compare_holds op v (sint raw)" "range_operation op"
proof -
  obtain n where n: "coerceIntPredicateValue pf (pd_Value p) (pd_Op p) = (n, intPredicateCompare, True)" "raw = word_of_int n"
    using assms(1) by (auto simp: parseIntRangeValue_def split: prod.splits if_splits)
  have "sint raw = n" unfolding n(2)
    using coerced_range [OF n(1)] by (simp add: sint_sbintrunc' signed_take_bit_int_eq_self)
  with assms(2,3) n(1) show "compare_holds op v (sint raw)" "range_operation op"
    by (auto simp: rangeBSICompareOp_def int_matches_def evalInt64Predicate_def range_operation_def split: if_splits)
qed

text \<open>
  What the index compares for each kind: a literal it can use stands in the same relation to the
  stored integer as the literal to the value.
\<close>

lemma int_literal_word: "ParseInt s = Some n \<Longrightarrow> sint (word_of_int n :: u64) = n"
  using ParseInt_range [of s n] by (simp add: sint_sbintrunc' signed_take_bit_int_eq_self)

lemma literal_match:
  assumes "ParseInt (pd_Value p) = Some (sint raw)" and "rangeBSICompareOp (pd_Op p) = Some op" and "int_matches pf p v"
  shows "compare_holds op v (sint raw)"
  using assms by (auto simp: rangeBSICompareOp_def int_matches_def coerceIntPredicateValue_def evalInt64Predicate_def split: if_splits)

lemma ParseBool_int:
  assumes "ParseBool s = Some b" and "ParseInt s = Some n"
  shows "sint (BoolToInt64 b) = n"
proof -
  have "b \<and> s \<in> {[49], [116], [84], [84,82,85,69], [116,114,117,101], [84,114,117,101]} \<or>
      \<not> b \<and> s \<in> {[48], [102], [70], [70,65,76,83,69], [102,97,108,115,101], [70,97,108,115,101]}"
    using assms(1) unfolding ParseBool_def by (simp split: if_split_asm)
  then show ?thesis using assms(2)
    by (elim disjE conjE insertE emptyE) (simp_all add: ParseInt_def BoolToInt64_def)
qed

lemma no_number_no_match:
  "ParseInt (pd_Value p) = None \<Longrightarrow> pf (pd_Value p) = None \<Longrightarrow> rangeBSICompareOp (pd_Op p) = Some op \<Longrightarrow> \<not> int_matches pf p v"
  by (auto simp: int_matches_def coerceIntPredicateValue_def rangeBSICompareOp_def split: if_splits)

lemma bit_negative_zero: "bit negative_zero n \<longleftrightarrow> n = 63"
  unfolding negative_zero_def bit_push_bit_iff by (auto simp: bit_1_iff)

lemma negative_zero_iff: "is_zero f \<and> bit f 63 \<longleftrightarrow> f = negative_zero"
proof
  assume f: "is_zero f \<and> bit f 63"
  then have z: "take_bit 63 f = 0" by (metis float_magnitude_def is_zero_def unat_eq_zero)
  show "f = negative_zero"
  proof (rule bit_word_eqI)
    fix n assume "n < LENGTH(64)"
    with f z show "bit f n = bit negative_zero n"
      using bit_take_bit_iff [of 63 f n] by (cases "n = 63") (auto simp: bit_negative_zero)
  qed
qed (simp add: is_zero_def float_magnitude_def negative_zero_def bit_simps take_bit_push_bit)

lemma float_encoding_le:
  assumes "\<not> is_NaN a" "\<not> is_NaN b" "float_value a \<le> float_value b" "a \<noteq> negative_zero" "b \<noteq> negative_zero"
  shows "sint (FloatToOrderedInt64 a) \<le> sint (FloatToOrderedInt64 b)"
  using float_encoding_order [OF assms(2,1)] assms(3-5) negative_zero_iff [of a] negative_zero_iff [of b]
  by (auto simp: word_sless_alt not_less [symmetric])

lemma float_match:
  assumes "float_matches pf p v" and "rangeBSICompareOp (pd_Op p) = Some op" and "pf (pd_Value p) = Some f"
    and "f \<noteq> negative_zero" and "v \<noteq> negative_zero"
  shows "compare_holds op (sint (FloatToOrderedInt64 v)) (sint (FloatToOrderedInt64 f))"
proof -
  note less = float_encoding_order [unfolded word_sless_alt]
  show ?thesis
    using assms less [of v f] less [of f v] float_encoding_le [of v f] float_encoding_le [of f v]
    by (auto simp: rangeBSICompareOp_def float_matches_def evalFloat64Predicate_def float_lt_def float_le_def split: if_splits)
qed

lemma parseRangeBSIValue_match:
  assumes E: "env_laws E" and raw: "parseRangeBSIValue E kind (pd_Value p) (pd_Op p) = Some raw"
    and op: "rangeBSICompareOp (pd_Op p) = Some op" and idx: "index_raw kind c k = Some v"
    and match: "column_matches (en_ParseFloat E) p c k" and prune: "prunable (en_ParseFloat E) fmt p c"
    and k: "\<And>vs. c = FloatColumn vs \<Longrightarrow> k < length vs"
  shows "compare_holds op (sint v) (sint raw)"
proof (cases c)
  case (IntColumn us)
  then have v: "v = us ! k" and m: "int_matches (en_ParseFloat E) p (sint v)" using idx match by (auto split: if_splits)
  consider "kind = RangeBSIValueInt" | (T) "kind = RangeBSIValueTimestampNS" | (B) "kind = RangeBSIValueBool"
    using idx IntColumn by (auto split: if_splits)
  then show ?thesis
  proof cases
    case 1
    with raw have "parseIntRangeValue (en_ParseFloat E) (pd_Value p) (pd_Op p) = Some raw" by (simp add: parseRangeBSIValue_def)
    from parseIntRangeValue_match(1) [OF this op m] show ?thesis .
  next
    case T
    show ?thesis
    proof (cases "ParseInt (pd_Value p)")
      case None
      with raw T have "en_ParseTime E (pd_Value p) = Some raw" by (simp add: parseRangeBSIValue_def range_kinds)
      from no_number_no_match [OF None, of "en_ParseFloat E"] env_lawsD(5) [OF E this] op m show ?thesis by blast
    next
      case (Some n)
      with raw T have "raw = word_of_int n" by (simp add: parseRangeBSIValue_def range_kinds)
      with Some int_literal_word [OF Some] literal_match [OF _ op m, of raw] show ?thesis by simp
    qed
  next
    case B
    then obtain b where b: "ParseBool (pd_Value p) = Some b" "raw = BoolToInt64 b"
      using raw by (auto simp: parseRangeBSIValue_def range_kinds)
    show ?thesis
    proof (cases "ParseInt (pd_Value p)")
      case None
      from no_number_no_match [OF None, of "en_ParseFloat E"] env_lawsD(6) [OF E b(1) None] op m show ?thesis by blast
    next
      case (Some n)
      with b literal_match [OF _ op m, of raw] ParseBool_int [OF b(1) Some] show ?thesis by simp
    qed
  qed
next
  case (FloatColumn us)
  then have v: "v = FloatToOrderedInt64 (us ! k)" "kind = RangeBSIValueFloat64Bits" and m: "float_matches (en_ParseFloat E) p (us ! k)"
    using idx match by (auto split: if_splits)
  obtain f where f: "en_ParseFloat E (pd_Value p) = Some f" "raw = FloatToOrderedInt64 f"
    using raw v(2) by (auto simp: parseRangeBSIValue_def range_kinds split: option.splits if_splits)
  have "f \<noteq> negative_zero" "us ! k \<noteq> negative_zero" using prune FloatColumn f(1) nth_mem [OF k [OF FloatColumn]] by auto
  from float_match [OF m op f(1) this] show ?thesis by (simp add: v(1) f(2))
qed (use idx in simp_all)

lemma section_meta:
  assumes "section_holds E r i rcols" and "row_group_at r (int i) = Some rg" and "rg_PerColumnRangeLength rg \<noteq> 0"
  shows "LoadRangeMeta r (int i) name =
    Inr (map_option (\<lambda>rc. \<lparr>mt_ValueKind = column_kind rc, mt_MinValue = fst (column_bounds rc), mt_MaxValue = snd (column_bounds rc)\<rparr>)
      (find (\<lambda>c. col_name c = name) rcols))"
proof -
  obtain e where e: "encoder_of (en_bsi E) e rcols" "rangeSectionBytes r (int i) = Inr (section_bytes e)"
    using assms(1) by (auto simp: section_holds_def)
  show ?thesis
  proof (cases "find (\<lambda>c. col_name c = name) rcols")
    case None
    with find_column_encoded(1) [OF e(1)] assms(2,3) e(2) show ?thesis by (simp add: LoadRangeMeta_def DecodeRangeSectionEntryMeta_def)
  next
    case (Some rc)
    with find_column_encoded(2) [OF e(1)] obtain h where "find_column (section_bytes e) name = Inr (Some h)" "column_entry (en_bsi E) rc h"
      by blast
    with Some assms(2,3) e(2) show ?thesis by (cases rc) (simp_all add: LoadRangeMeta_def DecodeRangeSectionEntryMeta_def)
  qed
qed

lemma compareRangeBSI_rows:
  assumes E: "env_laws E" and "section_holds E r i rcols" and i: "row_group_at r (int i) = Some rg" "rg_PerColumnRangeLength rg \<noteq> 0"
    and rc: "find (\<lambda>c. col_name c = name) rcols = Some rc" and op: "range_operation op"
    and meta: "mt_MinValue meta = fst (column_bounds rc)" "mt_MaxValue meta = snd (column_bounds rc)"
  shows "\<exists>bm. compareRangeBSI E r (int i) name meta op raw = Inr (Some bm) \<and>
    (\<forall>y. rb_contains (en_roaring E) bm y \<longleftrightarrow>
       (\<exists>off. column_offset (en_bsi E) rc y = Some off \<and> compare_holds op (sint (fst (column_bounds rc) + off)) (sint raw)))"
proof -
  obtain e where e: "encoder_of (en_bsi E) e rcols" "rangeSectionBytes r (int i) = Inr (section_bytes e)"
    and fits: "column_fits (en_bsi E) rc"
    using assms(2) find_fits [OF rc] by (auto simp: section_holds_def)
  have name: "col_name rc = name" using rc by (auto simp: find_Some_iff)
  show ?thesis
  proof (cases rc)
    case (PackedColumn nm kind mn mx bc rows vals)
    with compareRangeBSI_packed [OF E e _ _ op i] rc fits name show ?thesis by auto
  next
    case (Base2Column nm kind mn mx s)
    with compareRangeBSI_base2 [OF E e _ _ op i] rc fits name meta show ?thesis by auto
  qed
qed

lemma tryBSI_keeps:
  assumes D: "described Z S fmt E r i present cols" and col: "cols (nd_Field node) = Some c" and k: "k < rg_RowCount (f_RowGroups (rd_footer r) ! i)"
    and bm: "tryBSIFilter E r (int i) node = Inr (Some bm)"
    and p: "nd_Field node = pd_Field p" "nd_RangeOp node = pd_Op p" "nd_RangeVal node = pd_Value p"
    and match: "column_matches (en_ParseFloat E) p c k" "prunable (en_ParseFloat E) fmt p c" "present (pd_Field p) k"
  shows "rb_contains (en_roaring E) bm (word_of_nat k)"
proof -
  let ?rg = "f_RowGroups (rd_footer r) ! i"
  have E: "env_laws E" and at: "row_group_at r (int i) = Some ?rg"
    using D by (auto simp: described_def row_group_holds_def row_group_at_nth)
  obtain meta raw op where t: "HasRangeBSI r" "LoadRangeMeta r (int i) (nd_Field node) = Inr (Some meta)"
    "parseRangeBSIValue E (mt_ValueKind meta) (pd_Value p) (pd_Op p) = Some raw"
    "rangeBSICompareOp (pd_Op p) = Some op" "compareRangeBSI E r (int i) (nd_Field node) meta op raw = Inr (Some bm)"
    using bm p(2,3) by (auto simp: tryBSIFilter_def split: if_splits sum.splits option.splits)
  have len: "rg_PerColumnRangeLength ?rg \<noteq> 0" using t(2) at by (auto simp: LoadRangeMeta_def)
  obtain rcols where sec: "section_holds E r i rcols" and idx: "\<forall>rc \<in> set rcols. \<forall>c k.
      cols (col_name rc) = Some c \<and> k < rg_RowCount ?rg \<and> present (col_name rc) k \<longrightarrow>
      (\<exists>raw. index_raw (column_kind rc) c k = Some raw \<and>
         map_option (\<lambda>off. fst (column_bounds rc) + off) (column_offset (en_bsi E) rc (word_of_nat k)) = Some raw)"
    using D t(1) len by (auto simp: described_def range_indexed_def)
  obtain rc where rc: "find (\<lambda>c. col_name c = nd_Field node) rcols = Some rc" and meta: "mt_ValueKind meta = column_kind rc"
    "mt_MinValue meta = fst (column_bounds rc)" "mt_MaxValue meta = snd (column_bounds rc)"
    using t(2) section_meta [OF sec at len] by auto
  then have "rc \<in> set rcols" "col_name rc = nd_Field node" by (auto simp: find_Some_iff)
  with idx col k match(3) p(1) obtain v off where v: "index_raw (column_kind rc) c k = Some v"
    "column_offset (en_bsi E) rc (word_of_nat k) = Some off" "fst (column_bounds rc) + off = v" by fastforce
  have "k < length vs" if "c = FloatColumn vs" for vs
    using described_column [OF D col] that k by (cases rule: described_column [OF D col]) auto
  from parseRangeBSIValue_match [OF E t(3) [unfolded meta(1)] t(4) v(1) match(1,2) this]
  have "compare_holds op (sint v) (sint raw)" .
  moreover have "range_operation op" using t(4) by (auto simp: rangeBSICompareOp_def range_operation_def split: if_splits)
  ultimately show ?thesis using compareRangeBSI_rows [OF E sec at len rc _ meta(2,3), of op raw] t(5) v(2,3) by auto
qed

subsection \<open>A matching row survives every node of the tree\<close>

text \<open>A row that has a value for a predicate and satisfies it.\<close>

definition matching ::
  "(bytes \<Rightarrow> u64 option) \<Rightarrow> (u64 \<Rightarrow> bytes) \<Rightarrow> (bytes \<Rightarrow> nat \<Rightarrow> bool) \<Rightarrow> Predicate \<Rightarrow> (bytes \<Rightarrow> column option) \<Rightarrow> nat \<Rightarrow> bool"
where
  "matching pf fmt present p cols k \<longleftrightarrow>
     (case cols (pd_Field p) of None \<Rightarrow> False
      | Some c \<Rightarrow> present (pd_Field p) k \<and> cell_present c k \<and> column_matches pf p c k \<and> prunable pf fmt p c)"

lemma matchingE:
  assumes "matching pf fmt present p cols k"
  obtains c where "cols (pd_Field p) = Some c" "cell_present c k" "column_matches pf p c k" "prunable pf fmt p c" "present (pd_Field p) k"
  using assms by (auto simp: matching_def split: option.splits)

lemma text_match:
  assumes "column_matches pf p c k" and "prunable pf fmt p c" and "pd_Op p \<in> {op_eq, op_eqeq, op_in}" and "cell_present c k"
    and "\<And>v. c = ConstColumn v \<Longrightarrow> v \<noteq> []"
  obtains v where "text_cell c k = Some v" "string_matches p v" "v \<noteq> []"
  using assms by (cases c) (auto simp: range_ops_def)

lemma evalFieldEq_survives:
  assumes D: "described Z S fmt E r i present cols" and k: "k < rg_RowCount (f_RowGroups (rd_footer r) ! i)"
    and m: "matching pf fmt present p cols k" and op: "pd_Op p \<in> {op_eq, op_eqeq}" and ev: "keeps E (int i) k ev"
    and node: "nd_Field node = pd_Field p" "nd_Value node = pd_Value p" "nd_Terms node = []"
  shows "survives E (int i) k (evalFieldEq E r node (int i) ev)"
proof -
  obtain c where c: "cols (pd_Field p) = Some c" "cell_present c k" "column_matches pf p c k" "prunable pf fmt p c"
    by (rule matchingE [OF m])
  from D c(1) show ?thesis
  proof (cases rule: described_column)
    case (const v)
    with c op ev node show ?thesis by (auto simp: evalFieldEq_def string_matches_def evalStringPredicate_def)
  next
    case (chunk cc)
    obtain v where v: "text_cell c k = Some v" "string_matches p v" "v \<noteq> []"
      by (rule text_match [OF c(3,4) _ c(2)]) (use op chunk(1) in auto)
    with op have "v = pd_Value p" by (auto simp: string_matches_def evalStringPredicate_def)
    with text_zone [OF chunk(5) k v(1,3) chunk(6,7)] chunk ev node show ?thesis by (auto simp: evalFieldEq_def)
  qed
qed

lemma evalFieldIn_survives:
  assumes D: "described Z S fmt E r i present cols" and k: "k < rg_RowCount (f_RowGroups (rd_footer r) ! i)"
    and m: "matching pf fmt present p cols k" and op: "pd_Op p = op_in" and ev: "keeps E (int i) k ev"
    and node: "nd_Field node = pd_Field p" "nd_Values node = pd_Values p" "nd_Terms node = []"
  shows "survives E (int i) k (evalFieldIn E r node (int i) ev)"
proof -
  obtain c where c: "cols (pd_Field p) = Some c" "cell_present c k" "column_matches pf p c k" "prunable pf fmt p c"
    by (rule matchingE [OF m])
  from D c(1) show ?thesis
  proof (cases rule: described_column)
    case (const v)
    with c op ev node show ?thesis by (auto simp: evalFieldIn_def string_matches_def stringInPredicate_def)
  next
    case (chunk cc)
    obtain v where v: "text_cell c k = Some v" "string_matches p v" "v \<noteq> []"
      by (rule text_match [OF c(3,4) _ c(2)]) (use op chunk(1) in auto)
    with op have "v \<in> set (pd_Values p)" by (simp add: string_matches_def stringInPredicate_def)
    with text_zone [OF chunk(5) k v(1,3) chunk(6,7)] chunk ev node show ?thesis by (auto simp: evalFieldIn_def list_ex_iff)
  qed
qed

lemma neq_zone:
  assumes chunk: "chunk_holds Z S r cc n c" and k: "k < n" "cell_present c k"
    and match: "column_matches pf p c k" and prune: "prunable pf fmt p c" and op: "pd_Op p = op_ne"
    and stats: "cm_MinValue cc = st_MinValue (column_stats fmt name c)" "cm_MaxValue cc = st_MaxValue (column_stats fmt name c)"
  shows "\<not> (cm_MinValue cc = pd_Value p \<and> cm_MaxValue cc = pd_Value p)"
proof
  assume eq: "cm_MinValue cc = pd_Value p \<and> cm_MaxValue cc = pd_Value p"
  show False
  proof (cases c)
    case (StringColumn vs)
    with text_zone [OF chunk k(1) _ _ stats] k(2) eq have "vs ! k = pd_Value p" by (intro order.antisym) simp_all
    with match op StringColumn show False by (simp add: string_matches_def evalStringPredicate_def)
  next
    case (IntColumn vs)
    then have v: "vs ! k \<in> set vs" using chunk k(1) by simp
    obtain a b :: u64 where ab: "sint a \<le> sint (vs ! k)" "sint (vs ! k) \<le> sint b"
      "st_MinValue (int64ColumnStats name vs) = FormatInt (sint a)" "st_MaxValue (int64ColumnStats name vs) = FormatInt (sint b)"
      by (rule int64ColumnStats_bounds [where name = name, OF v]) blast
    then have val: "pd_Value p = FormatInt (sint a)" "pd_Value p = FormatInt (sint b)" using stats IntColumn eq by auto
    then have "sint a = sint b" by (metis ParseInt_FormatInt_sint option.inject)
    with ab have "sint (vs ! k) = sint a" by simp
    with match op IntColumn val(1) show False
      by (simp add: int_matches_def coerceIntPredicateValue_def ParseInt_FormatInt_sint evalInt64Predicate_def)
  qed (use chunk prune op in \<open>auto simp: range_ops_def\<close>)
qed

lemma evalFieldNeq_survives:
  assumes D: "described Z S fmt E r i present cols" and k: "k < rg_RowCount (f_RowGroups (rd_footer r) ! i)"
    and m: "matching pf fmt present p cols k" and op: "pd_Op p = op_ne" and ev: "keeps E (int i) k ev"
    and node: "nd_Field node = pd_Field p" "nd_Value node = pd_Value p"
  shows "survives E (int i) k (evalFieldNeq r node (int i) ev)"
proof -
  obtain c where c: "cols (pd_Field p) = Some c" "cell_present c k" "column_matches pf p c k" "prunable pf fmt p c"
    by (rule matchingE [OF m])
  from D c(1) show ?thesis
  proof (cases rule: described_column)
    case (const v)
    with c op ev node show ?thesis by (auto simp: evalFieldNeq_def string_matches_def evalStringPredicate_def)
  next
    case (chunk cc)
    with neq_zone [OF chunk(5) k c(2-4) op chunk(6,7)] ev node show ?thesis by (auto simp: evalFieldNeq_def)
  qed
qed

lemma evalFieldRange_survives:
  assumes D: "described Z S fmt E r i present cols" and k: "k < rg_RowCount (f_RowGroups (rd_footer r) ! i)"
    and m: "matching (en_ParseFloat E) fmt present p cols k" and op: "pd_Op p \<in> range_ops" and ev: "keeps E (int i) k ev"
    and node: "nd_Field node = pd_Field p" "nd_RangeOp node = pd_Op p" "nd_RangeVal node = pd_Value p"
  shows "survives E (int i) k (evalFieldRange E r node (int i) allow ev)"
proof -
  obtain c where c: "cols (pd_Field p) = Some c" "cell_present c k" "column_matches (en_ParseFloat E) p c k"
    "prunable (en_ParseFloat E) fmt p c" "present (pd_Field p) k"
    by (rule matchingE [OF m])
  have R: "roaring_laws (en_roaring E)" using D by (simp add: described_def env_lawsD(1))
  from D c(1) show ?thesis
  proof (cases rule: described_column)
    case (const v)
    with c op ev node show ?thesis
      by (auto simp: evalFieldRange_def string_matches_def evalStringPredicate_def evalRangeCheck_def range_ops_def split: option.split)
  next
    case (chunk cc)
    have zone: "\<not> zoneMapExcludesRange (en_ParseFloat E) (cm_MinValue cc) (cm_MaxValue cc) (nd_RangeOp node) (nd_RangeVal node)"
      using range_zone [OF chunk(5) k c(2-4) op chunk(6,7)] node by simp
    have keep: "rb_contains (en_roaring E) bm (word_of_nat k) \<and> rb_to_list (en_roaring E) bm \<noteq> []"
      if bm: "tryBSIFilter E r (int i) node = Inr (Some bm)" for bm
    proof -
      have "rb_contains (en_roaring E) bm (word_of_nat k)"
        using tryBSI_keeps [OF D _ k bm node c(3-5)] c(1) node(1) by simp
      then show ?thesis using roaring_lawsD(6) [OF R, of "word_of_nat k" bm] by auto
    qed
    from zone keep chunk ev node show ?thesis
      by (auto simp: evalFieldRange_def Let_def keeps_attach [OF R] split: sum.split option.split)
  qed
qed

lemma evalTerm_survives:
  assumes cover: "blooms_cover E r i tokens" and k: "k < rg_RowCount (f_RowGroups (rd_footer r) ! i)" and ev: "keeps E (int i) k ev"
    and node: "set (nd_Terms node) \<subseteq> tokens k"
  shows "survives E (int i) k (evalTerm E r node (int i) ev)"
proof -
  have "CheckColumnBloomAllTerms E r (int i) raw_field (nd_Terms node) \<noteq> Some False"
    using cover k node by (auto simp: CheckColumnBloomAllTerms_def blooms_cover_def list_all_iff split: option.splits)
  with ev show ?thesis by (auto simp: evalTerm_def Let_def split: option.split bool.split)
qed

lemma evalAnd_survives:
  assumes "\<And>c ev. c \<in> set cs \<Longrightarrow> keeps E rgIdx k ev \<Longrightarrow> survives E rgIdx k (eval E r c rgIdx allow ev)" and "keeps E rgIdx k ev"
  shows "survives E rgIdx k (evalAnd E r cs rgIdx allow ev)"
  using assms
proof (induction cs arbitrary: ev)
  case (Cons c cs)
  obtain ev' where "eval E r c rgIdx allow ev = (RGMaybe, ev')" "keeps E rgIdx k ev'"
    using Cons.prems(1) [of c ev] Cons.prems(2) by (cases "eval E r c rgIdx allow ev") (auto simp: survives_def)
  with Cons show ?case by simp
qed simp

lemma child_survives:
  assumes D: "described Z S fmt E r i present cols" and cover: "blooms_cover E r i tokens"
    and k: "k < rg_RowCount (f_RowGroups (rd_footer r) ! i)"
    and preds: "\<And>p. p \<in> set (hint_predicates h) \<Longrightarrow> matching (en_ParseFloat E) fmt present p cols k"
    and terms: "set (h_SearchTerms h) \<subseteq> tokens k"
    and c: "c \<in> set (filter_children h)" and ev: "keeps E (int i) k ev"
  shows "survives E (int i) k (eval E r c (int i) allow ev)"
proof -
  have range: "survives E (int i) k (eval E r (range_node field op val) (int i) allow ev)"
    if "matching (en_ParseFloat E) fmt present \<lparr>pd_Field = field, pd_Op = op, pd_Value = val, pd_Values = []\<rparr> cols k" "op \<in> range_ops" for field op val
    using evalFieldRange_survives [OF D k that(1) _ ev, of "range_node field op val" allow] that(2) by (simp add: range_node_def Let_def)
  consider (T) t where "t \<in> set (h_SearchTerms h)" "c = term_node t"
    | (F) fp where "fp \<in> set (h_FieldPreds h)" "c \<in> set (field_node fp)"
    | (R) rp where "rp \<in> set (h_RangePreds h)" "c \<in> set (range_nodes rp)"
    | (I) ip where "ip \<in> set (h_InPreds h)" "c = in_node ip"
    using c by (auto simp: filter_children_def)
  then show ?thesis
  proof cases
    case T
    with terms evalTerm_survives [OF cover k ev, of c] show ?thesis by (auto simp: term_node_def Let_def)
  next
    case F
    let ?p = "\<lparr>pd_Field = fp_Field fp, pd_Op = fp_Op fp, pd_Value = fp_Value fp, pd_Values = []\<rparr>"
    have m: "matching (en_ParseFloat E) fmt present ?p cols k" using F(1) by (intro preds) (auto simp: hint_predicates_def)
    from F(2) evalFieldEq_survives [OF D k m _ ev, of c] evalFieldNeq_survives [OF D k m _ ev, of c] range [OF m] show ?thesis
      by (auto simp: field_node_def Let_def range_ops_def split: if_splits)
  next
    case R
    then have "rp_Min rp \<noteq> [] \<Longrightarrow> matching (en_ParseFloat E) fmt present \<lparr>pd_Field = rp_Field rp, pd_Op = op_ge, pd_Value = rp_Min rp, pd_Values = []\<rparr> cols k"
      "rp_Max rp \<noteq> [] \<Longrightarrow> matching (en_ParseFloat E) fmt present \<lparr>pd_Field = rp_Field rp, pd_Op = op_le, pd_Value = rp_Max rp, pd_Values = []\<rparr> cols k"
      by (intro preds; auto simp: hint_predicates_def)+
    with R(2) range show ?thesis by (auto simp: range_nodes_def range_ops_def split: if_splits)
  next
    case I
    let ?p = "\<lparr>pd_Field = ip_Field ip, pd_Op = op_in, pd_Value = [], pd_Values = ip_Values ip\<rparr>"
    have m: "matching (en_ParseFloat E) fmt present ?p cols k" using I(1) by (intro preds) (auto simp: hint_predicates_def)
    from I(2) evalFieldIn_survives [OF D k m _ ev, of c] show ?thesis by (auto simp: in_node_def Let_def)
  qed
qed

lemma tree_survives:
  assumes "BuildRGFilter (Some h) = Some root" and "keeps E rgIdx k ev"
    and "\<And>c ev. c \<in> set (filter_children h) \<Longrightarrow> keeps E rgIdx k ev \<Longrightarrow> survives E rgIdx k (eval E r c rgIdx True ev)"
  shows "survives E rgIdx k (EvaluateRowGroup E r root rgIdx ev)"
proof -
  let ?ev = "count (\<lambda>st. st\<lparr>rs_TotalChecked := rs_TotalChecked st + 1\<rparr>) ev"
  have "root \<in> set (filter_children h) \<or> root = RGFilterNode RGFilterAnd (filter_children h) [] [] [] [] [] []"
    using assms(1) by (auto simp: BuildRGFilter_def split: list.splits)
  then have "survives E rgIdx k (eval E r root rgIdx True ?ev)"
    using assms(2,3) evalAnd_survives [of "filter_children h" E rgIdx k r True ?ev] by (auto simp: Let_def)
  then show ?thesis by (auto simp: EvaluateRowGroup_def survives_def split: prod.split RGVerdict.split)
qed

subsection \<open>Properties\<close>

text \<open>
  (C2) A matching row is never pruned away, for the predicates whose literals satisfy \<open>prunable\<close> on
  their columns. Let the metadata of a row group describe its columns: zone maps as the writer
  computes them, bloom filters without false negatives, and, when the segment has range indexes,
  indexes of either layout and of any of the four kinds that hold the value of every row for which
  the writer indexed one. Then a row that has values for all the predicates of a query, satisfies
  them as the row reader evaluates them and contains all search terms keeps its row group from being
  skipped by the filter tree built from the query's hints, and every row mask the evaluation
  attaches for the row group, overall or per field, keeps the row. \<open>prunable\<close> leaves out what the
  metadata does not compare as the values do: equality and membership on integer and float columns,
  inequality on float columns, text ranges against a number, integers \<^verbatim>\<open>ParseFloat\<close> rounds, and
  negative zero in a float range.
\<close>

theorem matching_row_never_pruned:
  assumes "described Z S fmt E r i present cols" and "blooms_cover E r i tokens"
    and "k < rg_RowCount (f_RowGroups (rd_footer r) ! i)"
    and "row_satisfies (en_ParseFloat E) present (hint_predicates h) cols k"
    and "\<forall>p \<in> set (hint_predicates h). \<forall>c. cols (pd_Field p) = Some c \<longrightarrow> prunable (en_ParseFloat E) fmt p c"
    and "set (h_SearchTerms h) \<subseteq> tokens k"
    and "BuildRGFilter (Some h) = Some root" and "keeps E (int i) k ev"
  shows "fst (EvaluateRowGroup E r root (int i) ev) = RGMaybe \<and> keeps E (int i) k (snd (EvaluateRowGroup E r root (int i) ev))"
proof -
  have "matching (en_ParseFloat E) fmt present p cols k" if "p \<in> set (hint_predicates h)" for p
    using assms(4,5) that by (auto simp: row_satisfies_def matching_def list_all_iff split: option.splits)
  from tree_survives [OF assms(7,8) child_survives [OF assms(1-3) this assms(6)]] show ?thesis by (simp add: survives_def)
qed

text \<open>
  A row group with a constant column \<open>h\<close>, the integers 2, 5 and 10 in a column \<open>x\<close>, and a range
  index of \<open>x\<close> (as time stamps) behind the chunk.
\<close>

definition int_chunk :: "ColumnChunkMeta \<times> bytes" where
  "int_chunk = projr (writeInt64Chunk (one_block_lz4 []) small_zstd 0 [] [120] [2, 5, 10])"

definition int_index :: "nat \<times> (u64 \<rightharpoonup> u64)" where
  "int_index = (4, [0 \<mapsto> 0, 1 \<mapsto> 3, 2 \<mapsto> 8])"

definition int_encoder :: RangeSectionEncoder where
  "int_encoder = projr (AddColumn (map_bsi int_index) (NewRangeSectionEncoder 0) [120] RangeBSIValueTimestampNS 2 10 (Some int_index))"

definition int_reader :: Reader where
  "int_reader = \<lparr>rd_data = snd int_chunk @ section_bytes int_encoder, rd_major = 2,
     rd_footer = example_footer\<lparr>f_OptionalCaps := CapBit_RangeBSI,
       f_RowGroups := map (\<lambda>rg. rg\<lparr>rg_RowCount := 3, rg_Columns := [fst int_chunk],
         rg_PerColumnRangeOffset := word_of_nat (length (snd int_chunk)),
         rg_PerColumnRangeLength := word_of_nat (length (section_bytes int_encoder))\<rparr>) (f_RowGroups example_footer)\<rparr>,
     rd_columnIndex = Map.empty\<rparr>"

definition int_columns :: "bytes \<Rightarrow> column option" where
  "int_columns = [[104] \<mapsto> ConstColumn [97, 98], [120] \<mapsto> IntColumn [2, 5, 10]]"

text \<open>The float64 patterns of the three integers.\<close>

definition int_floats :: "bytes \<Rightarrow> u64 option" where
  "int_floats = [[50] \<mapsto> 0x4000000000000000, [53] \<mapsto> 0x4014000000000000, [49, 48] \<mapsto> 0x4024000000000000]"

definition map_env :: "(u32 set, nat \<times> (u64 \<rightharpoonup> u64), bytes) rg_env" where
  "map_env = \<lparr>en_roaring = set_roaring, en_size = (\<lambda>_. 0), en_bsi = map_bsi int_index,
     en_existence = (\<lambda>(n, m). {y. m (ucast y) \<noteq> None}),
     en_compare = (\<lambda>(n, m) op v. {y. \<exists>x. m (ucast y) = Some x \<and> packedCompareOffset x op v}),
     en_bloom_decode = Some, en_bloom_test = (\<lambda>_ _. True), en_ParseFloat = int_floats, en_ParseTime = (\<lambda>_. None)\<rparr>"

lemma map_env_laws: "env_laws map_env"
  using map_bsi_laws [of int_index] set_roaring_laws
  by (auto simp: env_laws_def map_env_def map_bsi_def set_roaring_def int_floats_def ParseBool_def ParseInt_def split: if_splits)

lemma int_chunk_facts:
  "writeInt64Chunk (one_block_lz4 []) small_zstd 0 [] [120] [2, 5, 10] = Inr int_chunk"
  "cm_Name (fst int_chunk) = [120]" "cm_EncodingType (fst int_chunk) = EncodingDelta"
  "cm_MinValue (fst int_chunk) = [50]" "cm_MaxValue (fst int_chunk) = [49, 48]" "length (snd int_chunk) < 64"
  "slice (rd_data r) 0 (length (snd int_chunk)) = snd int_chunk \<Longrightarrow> length (snd int_chunk) \<le> length (rd_data r) \<Longrightarrow>
    length (rd_data r) < 2 ^ 63 \<Longrightarrow> readInt64sFromChunk (one_block_lz4 []) small_zstd r (fst int_chunk) = Inr [2, 5, 10]"
proof -
  have "case Delta_EncodeInt64s [2, 5, 10] of Inl _ \<Rightarrow> False | Inr d \<Rightarrow> length d < 64" by code_simp
  then obtain d where d: "Delta_EncodeInt64s [2, 5, 10] = Inr d" "length d < 64" by (auto split: sum.splits)
  define st where "st = int64ColumnStats [120] [2, 5, 10]"
  have st: "st_Name st = [120]" "st_MinValue st = [50]" "st_MaxValue st = [49, 48]"
    by (simp_all add: st_def int64ColumnStats_def FormatInt_def dec.simps byte_digit)
  have f: "int_chunk = finish_chunk (one_block_lz4 []) small_zstd 0 False [] EncodingDelta st d"
    and "writeInt64Chunk (one_block_lz4 []) small_zstd 0 [] [120] [2, 5, 10] = Inr int_chunk"
    by (simp_all add: int_chunk_def writeInt64Chunk_def d(1) st_def)
  then show "writeInt64Chunk (one_block_lz4 []) small_zstd 0 [] [120] [2, 5, 10] = Inr int_chunk" by simp
  show "cm_Name (fst int_chunk) = [120]" "cm_EncodingType (fst int_chunk) = EncodingDelta"
    "cm_MinValue (fst int_chunk) = [50]" "cm_MaxValue (fst int_chunk) = [49, 48]"
    using st d(2) unfolding f by (simp_all add: finish_chunk_def Let_def)
  have c: "snd int_chunk = d" "cm_Compression (fst int_chunk) = CompressionNone"
    using d(2) unfolding f by (simp_all add: finish_chunk_def Let_def)
  then show "length (snd int_chunk) < 64" using d(2) by simp
  have "finish_chunk (one_block_lz4 []) small_zstd 0 False [] EncodingDelta st d = (fst int_chunk, d)"
    using f c(1) by (metis prod.collapse)
  then have "readChunk (one_block_lz4 []) small_zstd r (fst int_chunk) = Inr d"
    if "slice (rd_data r) 0 (length (snd int_chunk)) = snd int_chunk" "length (snd int_chunk) \<le> length (rd_data r)"
      "length (rd_data r) < 2 ^ 63"
    by (rule readChunk_finish [OF one_block_lz4_laws small_zstd_laws])
       (use d(2) c that in \<open>auto simp: maxDecompressedBlockBytes_def written_in_def compression_tags\<close>)
  moreover have "Delta_DecodeInt64s d = Inr [2, 5, 10]"
    using d(1) by (intro Delta_decode_encode) (simp_all add: delta_representable_def)
  ultimately show "slice (rd_data r) 0 (length (snd int_chunk)) = snd int_chunk \<Longrightarrow> length (snd int_chunk) \<le> length (rd_data r) \<Longrightarrow>
      length (rd_data r) < 2 ^ 63 \<Longrightarrow> readInt64sFromChunk (one_block_lz4 []) small_zstd r (fst int_chunk) = Inr [2, 5, 10]"
    using \<open>cm_EncodingType (fst int_chunk) = EncodingDelta\<close> by (simp add: readInt64sFromChunk_def lift_col_def)
qed

lemma int_encoder_facts:
  "encoder_of (map_bsi int_index) int_encoder [Base2Column [120] RangeBSIValueTimestampNS 2 10 int_index]"
  "length (section_bytes int_encoder) \<in> {17..<200}"
proof -
  have "\<exists>e. AddColumn (map_bsi int_index) (NewRangeSectionEncoder 0) [120] RangeBSIValueTimestampNS 2 10 (Some int_index) = Inr e \<and>
      length (section_bytes e) \<in> {17..<200}"
    by (simp add: AddColumn_def map_bsi_def fitsUint32_def addEntry_def NewRangeSectionEncoder_def Let_def
        section_bytes_def RangeSection_Finalize_def int_index_def RangeBitmapMagic_def)
  then have e: "AddColumn (map_bsi int_index) (NewRangeSectionEncoder 0) [120] RangeBSIValueTimestampNS 2 10 (Some int_index) = Inr int_encoder"
    and "length (section_bytes int_encoder) \<in> {17..<200}" by (auto simp: int_encoder_def)
  then show "length (section_bytes int_encoder) \<in> {17..<200}" by simp
  show "encoder_of (map_bsi int_index) int_encoder [Base2Column [120] RangeBSIValueTimestampNS 2 10 int_index]"
    using encoder_of.encoder_base2 [OF encoder_of.encoder_new e] by simp
qed

lemma rangeSectionBytes_at:
  assumes "row_group_at r i = Some rg" and "rd_data r = pre @ section @ post" and "length (pre @ section) < 2 ^ 63"
    and "rg_PerColumnRangeOffset rg = word_of_nat (length pre)" and "rg_PerColumnRangeLength rg = word_of_nat (length section)"
  shows "rangeSectionBytes r i = Inr section"
proof -
  have n: "length pre < 2 ^ 63" "length section < 2 ^ 63" "length pre + length section < 2 ^ 63" using assms(3) by simp_all
  have stop: "rg_PerColumnRangeOffset rg + rg_PerColumnRangeLength rg = word_of_nat (length pre + length section)"
    by (simp add: assms(4,5))
  show ?thesis
    unfolding rangeSectionBytes_def assms(1) option.case Let_def stop assms(2,4,5)
    using int64_of_nat [OF n(1)] int64_of_nat [OF n(2)] int64_of_nat [OF n(3)]
    by (simp add: word_sless_alt slice_def)
qed

lemma below_three: "k < 3 \<Longrightarrow> k = 0 \<or> k = 1 \<or> k = 2" for k :: nat
  by auto

lemma int_reader_described: "described (one_block_lz4 []) small_zstd (\<lambda>_. []) map_env int_reader 0 (\<lambda>_ _. True) int_columns"
proof -
  let ?rg = "f_RowGroups (rd_footer int_reader) ! 0" and ?rc = "Base2Column [120] RangeBSIValueTimestampNS 2 10 int_index"
  have rg: "0 < length (f_RowGroups (rd_footer int_reader))" "rg_RowCount ?rg = 3" "rg_ConstColumns ?rg = rg_ConstColumns (f_RowGroups example_footer ! 0)"
    "rg_Columns ?rg = [fst int_chunk]" "rd_columnIndex int_reader = Map.empty"
    "rd_data int_reader = snd int_chunk @ section_bytes int_encoder"
    "rg_PerColumnRangeOffset ?rg = word_of_nat (length (snd int_chunk))"
    "rg_PerColumnRangeLength ?rg = word_of_nat (length (section_bytes int_encoder))"
    by (simp_all add: int_reader_def example_footer_def)
  note f = int_chunk_facts(2-6) and l = int_encoder_facts(2)
  have "readInt64sFromChunk (one_block_lz4 []) small_zstd int_reader (fst int_chunk) = Inr [2, 5, 10]"
    using f(5) l rg(6) by (intro int_chunk_facts(7)) (auto simp: slice_def)
  with rg f have "row_group_holds (one_block_lz4 []) small_zstd int_reader 0 int_columns"
    by (auto simp: row_group_holds_def column_stored_def int_columns_def HasColumnInRowGroup_def row_group_at_def
        findConstColumn_def findChunk_def encoding_tags example_footer_def)
  moreover have "zone_maps (\<lambda>_. []) ?rg int_columns"
    using rg(3,4) f by (auto simp: zone_maps_def int_columns_def findChunk_def findConstColumn_def example_footer_def
        int64ColumnStats_def FormatInt_def dec.simps byte_digit split: if_splits)
  moreover have "section_holds map_env int_reader 0 [?rc]"
  proof -
    have "rangeSectionBytes int_reader 0 = Inr (section_bytes int_encoder)"
      by (rule rangeSectionBytes_at [where rg = ?rg and post = "[]"]) (use f(5) l rg in \<open>auto simp: row_group_at_def\<close>)
    moreover have "column_fits (map_bsi int_index) ?rc"
      by (auto simp: map_bsi_def int_index_def word_sle_eq split: if_splits)
    ultimately show ?thesis using int_encoder_facts(1) rg(1) by (auto simp: section_holds_def map_env_def)
  qed
  then have "range_indexed map_env int_reader 0 (\<lambda>_ _. True) int_columns"
    unfolding range_indexed_def rg(2)
    by (intro impI exI [of _ "[?rc]"] conjI)
       (auto simp: int_columns_def map_env_def map_bsi_def int_index_def dest!: below_three)
  ultimately show ?thesis using map_env_laws by (simp add: described_def)
qed

definition no_masks :: "'b RGFilterEvaluator" where
  "no_masks = \<lparr>ev_rowMasks = Map.empty, ev_fieldRowMasks = Map.empty, ev_stats = None\<rparr>"

definition example_hints :: SegmentStreamHints where
  "example_hints = \<lparr>h_SearchTerms = [[97]],
     h_FieldPreds = [\<lparr>fp_Field = [104], fp_Op = op_eq, fp_Value = [97, 98], fp_Wildcard = False\<rparr>,
       \<lparr>fp_Field = [120], fp_Op = op_ne, fp_Value = [50], fp_Wildcard = False\<rparr>],
     h_RangePreds = [\<lparr>rp_Field = [120], rp_Min = [53], rp_Max = []\<rparr>], h_InPreds = []\<rparr>"

lemma int_floats_exact:
  "parses_exactly int_floats [50] 2" "parses_exactly int_floats [53] 5" "parses_exactly int_floats [49, 48] 10"
proof -
  have m: "float_magnitude 0x4000000000000000 = 1024 * 2 ^ 52" "float_magnitude 0x4014000000000000 = 1025 * 2 ^ 52 + 2 ^ 50"
    "float_magnitude 0x4024000000000000 = 1026 * 2 ^ 52 + 2 ^ 50"
    by (simp_all add: float_magnitude_def take_bit_eq_mod)
  have b: "\<not> bit (0x4000000000000000 :: u64) 63" "\<not> bit (0x4014000000000000 :: u64) 63" "\<not> bit (0x4024000000000000 :: u64) 63"
    by (simp_all add: bit_iff_odd)
  show "parses_exactly int_floats [50] 2" "parses_exactly int_floats [53] 5" "parses_exactly int_floats [49, 48] 10"
    by (simp_all add: parses_exactly_def int_floats_def is_NaN_def float_value_def m b magnitude_value_def float_unit_def)
qed

text \<open>Row 1, the value 5, for \<open>h = ab\<close>, \<open>x != 2\<close> and \<open>x >= 5\<close>: the range index is consulted and its mask keeps the row.\<close>

theorem matching_row_never_pruned_witness:
  "fst (EvaluateRowGroup map_env int_reader (the (BuildRGFilter (Some example_hints))) (int 0) no_masks) = RGMaybe \<and>
   keeps map_env (int 0) 1 (snd (EvaluateRowGroup map_env int_reader (the (BuildRGFilter (Some example_hints))) (int 0) no_masks))"
proof -
  have "BuildRGFilter (Some example_hints) = Some (the (BuildRGFilter (Some example_hints)))"
    by (simp add: BuildRGFilter_def example_hints_def filter_children_def field_node_def)
  moreover have "row_satisfies (en_ParseFloat map_env) (\<lambda>_ _. True) (hint_predicates example_hints) int_columns 1"
    by (auto simp: row_satisfies_def hint_predicates_def example_hints_def int_columns_def string_matches_def
        evalStringPredicate_def int_matches_def coerceIntPredicateValue_def ParseInt_def evalInt64Predicate_def range_ops_def)
  moreover have "\<forall>p \<in> set (hint_predicates example_hints). \<forall>c. int_columns (pd_Field p) = Some c \<longrightarrow> prunable (en_ParseFloat map_env) (\<lambda>_. []) p c"
    using int_floats_exact
    by (auto simp: hint_predicates_def example_hints_def int_columns_def range_ops_def map_env_def ParseInt_def
        FormatInt_def dec.simps byte_digit split: if_splits)
  moreover have "blooms_cover map_env int_reader 0 (\<lambda>_. {[97]})" by (simp add: blooms_cover_def map_env_def)
  moreover have "1 < rg_RowCount (f_RowGroups (rd_footer int_reader) ! 0)" by (simp add: int_reader_def example_footer_def)
  moreover have "set (h_SearchTerms example_hints) \<subseteq> {[97]}" by (simp add: example_hints_def)
  moreover have "keeps map_env (int 0) 1 no_masks" by (simp add: keeps_def RowMaskFor_def RowMaskForField_def no_masks_def)
  ultimately show ?thesis using matching_row_never_pruned [OF int_reader_described] by blast
qed

text \<open>
  (C30) Equality on an integer column prunes a matching row: the zone map of an integer column is
  kept as decimal strings and the filter node of \<open>x = 5\<close> compares strings, so a row group that
  holds the integers 2, 5 and 10 (zone map \<open>2\<close> to \<open>10\<close>, and \<open>5\<close> is after \<open>10\<close> as a string) is
  skipped for every environment and every state of the evaluator, although the row reader would
  select its second row.
\<close>

theorem integer_equality_prunes_match:
  "row_group_holds (one_block_lz4 []) small_zstd int_reader 0 int_columns \<and>
   row_matches pf \<lparr>pd_Field = [120], pd_Op = op_eq, pd_Value = [53], pd_Values = []\<rparr> int_columns 1 \<and>
   fst (EvaluateRowGroup E int_reader (the (BuildRGFilter (Some \<lparr>h_SearchTerms = [],
     h_FieldPreds = [\<lparr>fp_Field = [120], fp_Op = op_eq, fp_Value = [53], fp_Wildcard = False\<rparr>],
     h_RangePreds = [], h_InPreds = []\<rparr>))) 0 ev) = RGSkip"
proof (intro conjI)
  show "row_group_holds (one_block_lz4 []) small_zstd int_reader 0 int_columns"
    using int_reader_described by (simp add: described_def)
  show "row_matches pf \<lparr>pd_Field = [120], pd_Op = op_eq, pd_Value = [53], pd_Values = []\<rparr> int_columns 1"
    by (simp add: row_matches_def int_columns_def int_matches_def coerceIntPredicateValue_def ParseInt_def evalInt64Predicate_def)
  obtain cc where cc: "GetConstValue int_reader 0 [120] = None" "HasColumnInRowGroup int_reader 0 [120]"
    "ColumnChunkInRowGroup int_reader 0 [120] = Some cc" "cm_MaxValue cc = [49, 48]"
    using int_chunk_facts(2,5)
    by (simp add: GetConstValue_def HasColumnInRowGroup_def ColumnChunkInRowGroup_def row_group_at_def int_reader_def
        example_footer_def findChunk_def findConstColumn_def)
  have "[49, 48] < ([53] :: bytes)" by simp
  then show "fst (EvaluateRowGroup E int_reader (the (BuildRGFilter (Some \<lparr>h_SearchTerms = [],
     h_FieldPreds = [\<lparr>fp_Field = [120], fp_Op = op_eq, fp_Value = [53], fp_Wildcard = False\<rparr>],
     h_RangePreds = [], h_InPreds = []\<rparr>))) 0 ev) = RGSkip"
    using cc by (simp add: BuildRGFilter_def filter_children_def field_node_def EvaluateRowGroup_def evalFieldEq_def)
qed

end
