(* ===== verification/Segment_Skip.thy ===== *)
theory Segment_Skip
  imports RG_Filter
begin

text \<open>
  Skipping whole segments and row groups before any filter tree is consulted: the statistics of a
  segment (\<open>computeStats\<close> of \<^verbatim>\<open>src/pkg/storage/segment/format.go\<close>, \<open>StatsByName\<close> and
  \<open>canPruneRowGroup\<close> of \<^verbatim>\<open>reader.go\<close>) and \<open>canSkipByRange\<close>, \<open>canSkipByStats\<close>, \<open>shouldSkipSegment\<close>
  and \<open>matchesSourceScope\<close> of \<^verbatim>\<open>src/pkg/server/store.go\<close>.

  Times are instants in nanoseconds, the zero time of a bound is \<open>None\<close>. Counts of rows are naturals.
  The glob matcher of \<^verbatim>\<open>internal/glob\<close>, which compiles to a regular expression of the standard library,
  and the bloom filter of a segment are parameters.
\<close>

subsection \<open>Statistics of a segment\<close>

definition merge_bounds :: "bytes \<Rightarrow> bytes \<Rightarrow> bytes \<Rightarrow> nat \<Rightarrow> nat \<Rightarrow> (bytes \<rightharpoonup> ColumnStats) \<Rightarrow> (bytes \<rightharpoonup> ColumnStats)" where
  "merge_bounds name lo hi cnt nulls statMap =
     (let s = (case statMap name of
                 None \<Rightarrow> \<lparr>st_Name = name, st_MinValue = lo, st_MaxValue = hi, st_Count = 0, st_NullCount = 0\<rparr>
               | Some s \<Rightarrow> s\<lparr>st_MinValue := if lo < st_MinValue s then lo else st_MinValue s,
                             st_MaxValue := if hi > st_MaxValue s then hi else st_MaxValue s\<rparr>)
      in statMap(name \<mapsto> s\<lparr>st_Count := st_Count s + cnt, st_NullCount := st_NullCount s + nulls\<rparr>))"

definition merge_row_group :: "RowGroupMeta \<Rightarrow> (bytes \<rightharpoonup> ColumnStats) \<Rightarrow> (bytes \<rightharpoonup> ColumnStats)" where
  "merge_row_group rg statMap =
     fold (\<lambda>cc. merge_bounds (cc_Name cc) (cc_Value cc) (cc_Value cc) (rg_RowCount rg) 0) (rg_ConstColumns rg)
       (fold (\<lambda>c. merge_bounds (cm_Name c) (cm_MinValue c) (cm_MaxValue c) (unat (cm_Count c)) (unat (cm_NullCount c)))
          (rg_Columns rg) statMap)"

fun emit_stats :: "bytes list \<Rightarrow> (bytes \<rightharpoonup> ColumnStats) \<Rightarrow> ColumnStats list" where
  "emit_stats [] statMap = []"
| "emit_stats (n # ns) statMap =
     (case statMap n of None \<Rightarrow> emit_stats ns statMap | Some s \<Rightarrow> s # emit_stats ns (statMap(n := None)))"

text \<open>Only the columns of the first row group are reported.\<close>

definition computeStats :: "Footer \<Rightarrow> ColumnStats list" where
  "computeStats f =
     (case f_RowGroups f of
        [] \<Rightarrow> []
      | rg # _ \<Rightarrow>
          emit_stats (map cm_Name (rg_Columns rg) @ map cc_Name (rg_ConstColumns rg))
            (fold merge_row_group (f_RowGroups f) Map.empty))"

definition StatsByName :: "Reader \<Rightarrow> bytes \<Rightarrow> ColumnStats option" where
  "StatsByName r name = find (\<lambda>s. st_Name s = name) (computeStats (rd_footer r))"

subsection \<open>Time ranges\<close>

definition time_field :: bytes where "time_field = [95, 116, 105, 109, 101]"

definition canPruneRowGroup :: "RowGroupMeta \<Rightarrow> int option \<Rightarrow> int option \<Rightarrow> bool" where
  "canPruneRowGroup rg minTime maxTime =
     (case findChunk rg time_field of
        None \<Rightarrow> False
      | Some timeChunk \<Rightarrow>
          (case ParseInt (cm_MinValue timeChunk) of
             None \<Rightarrow> False
           | Some rgMin \<Rightarrow>
               (case ParseInt (cm_MaxValue timeChunk) of
                  None \<Rightarrow> False
                | Some rgMax \<Rightarrow>
                    if (case minTime of None \<Rightarrow> False | Some t \<Rightarrow> rgMax < t) then True
                    else (case maxTime of None \<Rightarrow> False | Some t \<Rightarrow> rgMin > t))))"

definition CanPruneRowGroupByIndex :: "Reader \<Rightarrow> int \<Rightarrow> int option \<Rightarrow> int option \<Rightarrow> bool" where
  "CanPruneRowGroupByIndex r rgIdx minTime maxTime =
     (case row_group_at r rgIdx of None \<Rightarrow> False | Some rg \<Rightarrow> canPruneRowGroup rg minTime maxTime)"

record SegmentMeta =
  sm_MinTime :: int
  sm_MaxTime :: int

definition Overlaps :: "SegmentMeta \<Rightarrow> int \<Rightarrow> int \<Rightarrow> bool" where
  "Overlaps s start stop \<longleftrightarrow> \<not> sm_MaxTime s < start \<and> \<not> sm_MinTime s > stop"

subsection \<open>Source scopes\<close>

record QueryHints =
  q_FieldPredicates :: "FieldPredicate list"
  q_RangePredicates :: "RangePredicate list"
  q_SearchTerms :: "bytes list"
  q_TimeBounds :: "(int option \<times> int option) option"
  q_IndexName :: bytes
  q_SourceIndices :: "bytes list"
  q_SourceIncludeGlobs :: "bytes list"
  q_SourceExcludeGlobs :: "bytes list"
  q_SourceGlob :: bytes
  q_SourceScopeType :: bytes
  q_SourceScopeSources :: "bytes list"
  q_SourceScopePattern :: bytes

definition scope_all :: bytes where "scope_all = [97, 108, 108]"
definition scope_single :: bytes where "scope_single = [115, 105, 110, 103, 108, 101]"
definition scope_list :: bytes where "scope_list = [108, 105, 115, 116]"
definition scope_glob :: bytes where "scope_glob = [103, 108, 111, 98]"
definition star :: bytes where "star = [42]"

definition sourceMatchesAnyGlob :: "(bytes \<Rightarrow> bytes \<Rightarrow> bool) \<Rightarrow> bytes \<Rightarrow> bytes list \<Rightarrow> bool" where
  "sourceMatchesAnyGlob glob src patterns = list_ex (\<lambda>p. glob p src) patterns"

text \<open>\<open>SourceIndexSet\<close> is the set of the indices, nil when there are none.\<close>

definition matches_fallback :: "(bytes \<Rightarrow> bytes \<Rightarrow> bool) \<Rightarrow> bytes \<Rightarrow> QueryHints \<Rightarrow> bool" where
  "matches_fallback glob segIndex h =
     (if q_SourceIndices h \<noteq> [] \<and> segIndex \<in> set (q_SourceIndices h) then True
      else if q_SourceIndices h \<noteq> [] \<and> q_SourceIncludeGlobs h = [] then False
      else if sourceMatchesAnyGlob glob segIndex (q_SourceIncludeGlobs h) then True
      else if q_SourceGlob h \<noteq> [] then
        if q_SourceGlob h = star then True else glob (q_SourceGlob h) segIndex
      else if q_IndexName h \<noteq> [] then
        if q_IndexName h = star then True else segIndex = q_IndexName h
      else True)"

definition matchesSourceScope :: "(bytes \<Rightarrow> bytes \<Rightarrow> bool) \<Rightarrow> bytes \<Rightarrow> QueryHints \<Rightarrow> bool" where
  "matchesSourceScope glob segIndex h =
     (if sourceMatchesAnyGlob glob segIndex (q_SourceExcludeGlobs h) then False
      else if q_SourceScopeType h = scope_all then True
      else if q_SourceScopeType h = scope_single \<and> q_SourceScopeSources h \<noteq> [] then segIndex = q_SourceScopeSources h ! 0
      else if q_SourceScopeType h = scope_list then
        if q_SourceIndices h \<noteq> [] then segIndex \<in> set (q_SourceIndices h)
        else segIndex \<in> set (q_SourceScopeSources h)
      else if q_SourceScopeType h = scope_glob \<and> q_SourceScopePattern h \<noteq> [] then glob (q_SourceScopePattern h) segIndex
      else matches_fallback glob segIndex h)"

subsection \<open>Skipping a segment\<close>

definition range_excludes :: "ColumnStats \<Rightarrow> RangePredicate \<Rightarrow> bool" where
  "range_excludes s p =
     (if st_MinValue s = [] \<and> st_MaxValue s = [] then False
      else if rp_Min p \<noteq> [] \<and> st_MaxValue s \<noteq> [] \<and> st_MaxValue s < rp_Min p then True
      else rp_Max p \<noteq> [] \<and> st_MinValue s \<noteq> [] \<and> st_MinValue s > rp_Max p)"

definition canSkipByRange :: "Reader \<Rightarrow> RangePredicate list \<Rightarrow> bool" where
  "canSkipByRange r preds =
     list_ex (\<lambda>p. case StatsByName r (rp_Field p) of None \<Rightarrow> False | Some s \<Rightarrow> range_excludes s p) preds"

definition stats_exclude :: "(bytes \<Rightarrow> u64 option) \<Rightarrow> ColumnStats \<Rightarrow> FieldPredicate \<Rightarrow> bool" where
  "stats_exclude pf s p =
     (if st_MinValue s = [] \<and> st_MaxValue s = [] then False
      else (case (pf (fp_Value p), pf (st_MinValue s), pf (st_MaxValue s)) of
              (Some predVal, Some minVal, Some maxVal) \<Rightarrow>
                if fp_Op p = op_eq \<or> fp_Op p = op_eqeq then float_lt predVal minVal \<or> float_lt maxVal predVal
                else numericZoneMapExcludes minVal maxVal (fp_Op p) predVal
            | _ \<Rightarrow>
                if fp_Op p = op_eq \<or> fp_Op p = op_eqeq then fp_Value p < st_MinValue s \<or> fp_Value p > st_MaxValue s
                else stringZoneMapExcludes (st_MinValue s) (st_MaxValue s) (fp_Op p) (fp_Value p)))"

definition canSkipByStats :: "(bytes \<Rightarrow> u64 option) \<Rightarrow> Reader \<Rightarrow> FieldPredicate list \<Rightarrow> bool" where
  "canSkipByStats pf r preds =
     list_ex (\<lambda>p. case StatsByName r (fp_Field p) of None \<Rightarrow> False | Some s \<Rightarrow> stats_exclude pf s p) preds"

record segmentHandle =
  sg_index :: bytes
  sg_meta :: SegmentMeta
  sg_reader :: "Reader option"
  sg_bloom :: "(bytes list \<Rightarrow> bool) option"

record storeStats =
  ss_SkippedIdx :: int
  ss_SkippedTime :: int
  ss_SkippedStat :: int
  ss_SkippedBF :: int
  ss_SkippedRange :: int

definition outside_time :: "SegmentMeta \<Rightarrow> (int option \<times> int option) option \<Rightarrow> bool" where
  "outside_time s bounds =
     (case bounds of
        Some (Some earliest, Some latest) \<Rightarrow> \<not> Overlaps s earliest latest
      | Some (Some earliest, None) \<Rightarrow> sm_MaxTime s < earliest
      | Some (None, Some latest) \<Rightarrow> sm_MinTime s > latest
      | _ \<Rightarrow> False)"

definition shouldSkipSegment ::
  "(bytes \<Rightarrow> bytes \<Rightarrow> bool) \<Rightarrow> (bytes \<Rightarrow> u64 option) \<Rightarrow> segmentHandle \<Rightarrow> QueryHints \<Rightarrow> storeStats \<Rightarrow> bool \<times> storeStats"
where
  "shouldSkipSegment glob pf seg h ss =
     (if \<not> matchesSourceScope glob (sg_index seg) h then (True, ss\<lparr>ss_SkippedIdx := ss_SkippedIdx ss + 1\<rparr>)
      else if outside_time (sg_meta seg) (q_TimeBounds h) then (True, ss\<lparr>ss_SkippedTime := ss_SkippedTime ss + 1\<rparr>)
      else if (case sg_reader seg of None \<Rightarrow> False | Some r \<Rightarrow> canSkipByStats pf r (q_FieldPredicates h))
      then (True, ss\<lparr>ss_SkippedStat := ss_SkippedStat ss + 1\<rparr>)
      else if (case sg_reader seg of None \<Rightarrow> False
               | Some r \<Rightarrow> q_RangePredicates h \<noteq> [] \<and> canSkipByRange r (q_RangePredicates h))
      then (True, ss\<lparr>ss_SkippedRange := ss_SkippedRange ss + 1\<rparr>)
      else if q_SearchTerms h \<noteq> [] \<and> (case sg_bloom seg of None \<Rightarrow> False | Some bf \<Rightarrow> \<not> bf (q_SearchTerms h))
      then (True, ss\<lparr>ss_SkippedBF := ss_SkippedBF ss + 1\<rparr>)
      else (False, ss))"

subsection \<open>The statistics enclose the row groups\<close>

text \<open>An entry of the map that encloses two strings.\<close>

definition covers :: "bytes \<Rightarrow> bytes \<Rightarrow> bytes \<Rightarrow> (bytes \<rightharpoonup> ColumnStats) \<Rightarrow> bool" where
  "covers name lo hi m \<longleftrightarrow> (\<exists>s. m name = Some s \<and> st_MinValue s \<le> lo \<and> hi \<le> st_MaxValue s)"

definition named :: "(bytes \<rightharpoonup> ColumnStats) \<Rightarrow> bool" where
  "named m \<longleftrightarrow> (\<forall>n s. m n = Some s \<longrightarrow> st_Name s = n)"

lemma merge_bounds_covers:
  "covers name lo hi (merge_bounds name lo hi cnt nulls m)"
  "covers name lo hi m \<Longrightarrow> covers name lo hi (merge_bounds name' lo' hi' cnt nulls m)"
  by (auto simp: covers_def merge_bounds_def Let_def not_less split: option.splits)

lemma merge_bounds_named: "named m \<Longrightarrow> named (merge_bounds name lo hi cnt nulls m)"
  by (auto simp: named_def merge_bounds_def Let_def split: option.splits)

lemma fold_keeps: "P m \<Longrightarrow> (\<And>x m. P m \<Longrightarrow> P (f x m)) \<Longrightarrow> P (fold f xs m)"
  by (induction xs arbitrary: m) auto

lemma fold_reaches: "x \<in> set xs \<Longrightarrow> (\<And>m. P (f x m)) \<Longrightarrow> (\<And>y m. P m \<Longrightarrow> P (f y m)) \<Longrightarrow> P (fold f xs m)"
proof (induction xs arbitrary: m)
  case (Cons y xs)
  then show ?case using fold_keeps [of P "f x m" f xs] by (cases "x = y") auto
qed simp

lemma merge_row_group_keeps: "covers name lo hi m \<Longrightarrow> covers name lo hi (merge_row_group rg m)"
  unfolding merge_row_group_def
  by (rule fold_keeps [where P = "covers name lo hi"], rule fold_keeps [where P = "covers name lo hi"]) (auto intro: merge_bounds_covers(2))

lemma merge_row_group_chunk:
  assumes "c \<in> set (rg_Columns rg)"
  shows "covers (cm_Name c) (cm_MinValue c) (cm_MaxValue c) (merge_row_group rg m)"
  unfolding merge_row_group_def
  by (rule fold_keeps [where P = "covers (cm_Name c) (cm_MinValue c) (cm_MaxValue c)"],
      rule fold_reaches [OF assms, where P = "covers (cm_Name c) (cm_MinValue c) (cm_MaxValue c)"])
     (auto intro: merge_bounds_covers)

lemma merge_row_group_const:
  assumes "cc \<in> set (rg_ConstColumns rg)"
  shows "covers (cc_Name cc) (cc_Value cc) (cc_Value cc) (merge_row_group rg m)"
  unfolding merge_row_group_def
  by (rule fold_reaches [OF assms, where P = "covers (cc_Name cc) (cc_Value cc) (cc_Value cc)"]) (auto intro: merge_bounds_covers)

lemma stat_map_named: "named (fold merge_row_group rgs Map.empty)"
proof (rule fold_keeps [where P = named])
  show "named (merge_row_group rg m)" if "named m" for rg m
    unfolding merge_row_group_def
    by (rule fold_keeps [where P = named], rule fold_keeps [where P = named, OF that]) (auto intro: merge_bounds_named)
qed (simp add: named_def)

lemma emit_stats_find: "named m \<Longrightarrow> find (\<lambda>s. st_Name s = name) (emit_stats ns m) = Some s \<Longrightarrow> m name = Some s"
proof (induction ns arbitrary: m)
  case (Cons n ns)
  show ?case
  proof (cases "m n")
    case None
    with Cons.IH [OF Cons.prems(1)] Cons.prems(2) show ?thesis by simp
  next
    case (Some x)
    then have x: "st_Name x = n" using Cons.prems(1) by (simp add: named_def)
    show ?thesis
    proof (cases "n = name")
      case True
      with Some x Cons.prems(2) show ?thesis by simp
    next
      case False
      have "named (m(n := None))" using Cons.prems(1) by (simp add: named_def)
      moreover have "find (\<lambda>s. st_Name s = name) (emit_stats ns (m(n := None))) = Some s" using Cons.prems(2) Some x False by simp
      ultimately have "(m(n := None)) name = Some s" by (rule Cons.IH)
      with False show ?thesis by simp
    qed
  qed
qed simp

lemma StatsByName_covers:
  assumes "StatsByName r name = Some s" and "covers name lo hi (fold merge_row_group (f_RowGroups (rd_footer r)) Map.empty)"
  shows "st_MinValue s \<le> lo" "hi \<le> st_MaxValue s"
proof -
  let ?m = "fold merge_row_group (f_RowGroups (rd_footer r)) Map.empty"
  have "find (\<lambda>s. st_Name s = name) (emit_stats ns ?m) = Some s \<Longrightarrow> ?m name = Some s" for ns
    by (rule emit_stats_find [OF stat_map_named])
  then have "?m name = Some s" using assms(1) by (auto simp: StatsByName_def computeStats_def split: list.splits)
  then show "st_MinValue s \<le> lo" "hi \<le> st_MaxValue s" using assms(2) by (auto simp: covers_def)
qed

subsection \<open>Text columns\<close>

text \<open>The row groups of a segment and their columns.\<close>

definition segment_holds :: "lz4 \<Rightarrow> zstd \<Rightarrow> (u64 \<Rightarrow> bytes) \<Rightarrow> Reader \<Rightarrow> (nat \<Rightarrow> bytes \<Rightarrow> column option) \<Rightarrow> bool" where
  "segment_holds Z S fmt r cols \<longleftrightarrow>
     (\<forall>i < length (f_RowGroups (rd_footer r)).
        row_group_holds Z S r i (cols i) \<and> zone_maps fmt (f_RowGroups (rd_footer r) ! i) (cols i))"

text \<open>Row \<open>k\<close> of row group \<open>i\<close> has a text that satisfies an operator and a literal that is no number.\<close>

definition text_row :: "(bytes \<Rightarrow> u64 option) \<Rightarrow> (bytes \<Rightarrow> column option) \<Rightarrow> nat \<Rightarrow> bytes \<Rightarrow> bytes \<Rightarrow> bytes \<Rightarrow> bool" where
  "text_row pf cols k name op val \<longleftrightarrow> pf val = None \<and>
     (\<exists>c v. cols name = Some c \<and> text_cell c k = Some v \<and> v \<noteq> [] \<and> evalStringPredicate v op val)"

lemma segment_stats_cover:
  assumes seg: "segment_holds Z S fmt r cols" and i: "i < length (f_RowGroups (rd_footer r))"
    and k: "k < rg_RowCount (f_RowGroups (rd_footer r) ! i)"
    and c: "cols i name = Some c" "text_cell c k = Some v" "v \<noteq> []" and s: "StatsByName r name = Some s"
  shows "st_MinValue s \<le> v \<and> v \<le> st_MaxValue s"
proof -
  let ?rg = "f_RowGroups (rd_footer r) ! i" and ?m = "fold merge_row_group (f_RowGroups (rd_footer r)) Map.empty"
  have rg: "?rg \<in> set (f_RowGroups (rd_footer r))" using i by simp
  have "column_stored Z S r i ?rg name (cols i name)" "zone_maps fmt ?rg (cols i)"
    using seg i by (simp_all add: segment_holds_def row_group_holds_def)
  with c(1) have st: "column_stored Z S r i ?rg name (Some c)" "zone_maps fmt ?rg (cols i)" by simp_all
  have reach: "covers name lo hi ?m" if "\<And>m. covers name lo hi (merge_row_group ?rg m)" for lo hi
    by (rule fold_reaches [OF rg, where P = "covers name lo hi"]) (auto intro: that merge_row_group_keeps)
  from st(1) show ?thesis
  proof (cases rule: column_stored_cases)
    case (1 v' cc)
    then have "cc \<in> set (rg_ConstColumns ?rg)" "cc_Name cc = name" "cc_Value cc = v"
      using c(2) by (auto simp: findConstColumn_def find_Some_iff)
    with merge_row_group_const [of cc ?rg] StatsByName_covers [OF s reach, of v v] show ?thesis by auto
  next
    case (2 cc)
    then have cc: "cc \<in> set (rg_Columns ?rg)" "cm_Name cc = name" by (auto simp: findChunk_def find_Some_iff)
    have "cm_MinValue cc \<le> v \<and> v \<le> cm_MaxValue cc"
      by (rule text_zone [OF 2(3) k c(2,3)]) (use st(2) c(1) 2(2) in \<open>auto simp: zone_maps_def\<close>)
    with merge_row_group_chunk [OF cc(1)] cc(2) StatsByName_covers [OF s reach, of "cm_MinValue cc" "cm_MaxValue cc"]
    show ?thesis by (auto intro: order_trans)
  qed
qed

lemma stats_keep_text:
  assumes "st_MinValue s \<le> v" "v \<le> st_MaxValue s" and "evalStringPredicate v (fp_Op p) (fp_Value p)" and "pf (fp_Value p) = None"
  shows "\<not> stats_exclude pf s p"
  using assms by (auto simp: stats_exclude_def evalStringPredicate_def stringZoneMapExcludes_def)

lemma range_keeps_text:
  assumes "st_MinValue s \<le> v" "v \<le> st_MaxValue s"
    and "rp_Min p \<noteq> [] \<Longrightarrow> rp_Min p \<le> v" and "rp_Max p \<noteq> [] \<Longrightarrow> v \<le> rp_Max p"
  shows "\<not> range_excludes s p"
  using assms by (auto simp: range_excludes_def)

subsection \<open>Times\<close>

lemma int64ColumnStats_attained:
  assumes "vs \<noteq> []"
  obtains a b where "a \<in> set vs" "b \<in> set vs" "\<forall>v \<in> set vs. sint a \<le> sint v \<and> sint v \<le> sint b"
    "st_MinValue (int64ColumnStats name vs) = FormatInt (sint a)" "st_MaxValue (int64ColumnStats name vs) = FormatInt (sint b)"
proof -
  obtain x xs where vs: "vs = x # xs" using assms by (cases vs) auto
  obtain a b where l: "bounds_loop (<s) xs (x, x) = (a, b)" by force
  have "\<forall>v \<in> set vs. sint a \<le> sint v \<and> sint v \<le> sint b" "a \<in> set vs" "b \<in> set vs"
    using bounds_loop_spec [of "(<s)" sint, OF word_sless_alt l] by (auto simp: vs)
  with l that show thesis by (simp add: int64ColumnStats_def vs)
qed

subsection \<open>Properties\<close>

text \<open>
  (C12) A segment with a matching row is not skipped: if the row lies in the segment's and the
  query's time range, the source is in scope, the segment's bloom filter has no false negatives,
  and the row has texts that satisfy all the field and range predicates of the query (literals that
  are no numbers), then \<open>shouldSkipSegment\<close> keeps the segment and leaves the counters alone.
\<close>

theorem segment_with_match_kept:
  assumes "segment_holds Z S fmt r cols" and "i < length (f_RowGroups (rd_footer r))"
    and "k < rg_RowCount (f_RowGroups (rd_footer r) ! i)" and "sg_reader seg = Some r"
    and "\<forall>p \<in> set (q_FieldPredicates h). text_row pf (cols i) k (fp_Field p) (fp_Op p) (fp_Value p)"
    and "\<forall>p \<in> set (q_RangePredicates h).
      (rp_Min p \<noteq> [] \<longrightarrow> text_row pf (cols i) k (rp_Field p) op_ge (rp_Min p)) \<and>
      (rp_Max p \<noteq> [] \<longrightarrow> text_row pf (cols i) k (rp_Field p) op_le (rp_Max p))"
    and "sm_MinTime (sg_meta seg) \<le> t" and "t \<le> sm_MaxTime (sg_meta seg)"
    and "\<forall>e l. q_TimeBounds h = Some (e, l) \<longrightarrow> (\<forall>x. e = Some x \<longrightarrow> x \<le> t) \<and> (\<forall>x. l = Some x \<longrightarrow> t \<le> x)"
    and "matchesSourceScope glob (sg_index seg) h"
    and "\<forall>bf. sg_bloom seg = Some bf \<longrightarrow> bf (q_SearchTerms h)"
  shows "shouldSkipSegment glob pf seg h ss = (False, ss)"
proof -
  note cover = segment_stats_cover [OF assms(1-3)]
  have "\<not> canSkipByStats pf r (q_FieldPredicates h)"
    using assms(5) cover stats_keep_text by (fastforce simp: canSkipByStats_def list_ex_iff text_row_def split: option.splits)
  moreover have "\<not> canSkipByRange r (q_RangePredicates h)"
  proof -
    have "\<not> range_excludes s p" if "p \<in> set (q_RangePredicates h)" "StatsByName r (rp_Field p) = Some s" for p s
    proof (cases "rp_Min p = [] \<and> rp_Max p = []")
      case True
      then show ?thesis by (simp add: range_excludes_def)
    next
      case False
      note p = bspec [OF assms(6) that(1)]
      from False obtain c v where v: "cols i (rp_Field p) = Some c" "text_cell c k = Some v" "v \<noteq> []"
        using p by (auto simp: text_row_def)
      with p have "rp_Min p \<noteq> [] \<Longrightarrow> rp_Min p \<le> v" "rp_Max p \<noteq> [] \<Longrightarrow> v \<le> rp_Max p"
        by (auto simp: text_row_def evalStringPredicate_def)
      with cover [OF v that(2)] show ?thesis by (intro range_keeps_text) auto
    qed
    then show ?thesis by (auto simp: canSkipByRange_def list_ex_iff split: option.splits)
  qed
  moreover have "\<not> outside_time (sg_meta seg) (q_TimeBounds h)"
    using assms(7-9) by (auto simp: outside_time_def Overlaps_def split: option.splits)
  ultimately show ?thesis using assms(4,10,11) by (auto simp: shouldSkipSegment_def split: option.splits)
qed

definition example_query :: QueryHints where
  "example_query = \<lparr>q_FieldPredicates = [\<lparr>fp_Field = [104], fp_Op = op_eq, fp_Value = [97, 98], fp_Wildcard = False\<rparr>],
     q_RangePredicates = [\<lparr>rp_Field = [104], rp_Min = [97], rp_Max = []\<rparr>], q_SearchTerms = [], q_TimeBounds = Some (Some 3, None),
     q_IndexName = [109], q_SourceIndices = [], q_SourceIncludeGlobs = [], q_SourceExcludeGlobs = [], q_SourceGlob = [],
     q_SourceScopeType = [], q_SourceScopeSources = [], q_SourceScopePattern = []\<rparr>"

theorem segment_with_match_kept_witness:
  "shouldSkipSegment (\<lambda>_ _. False) (\<lambda>_. None)
     \<lparr>sg_index = [109], sg_meta = \<lparr>sm_MinTime = 0, sm_MaxTime = 10\<rparr>, sg_reader = Some int_reader, sg_bloom = None\<rparr> example_query
     \<lparr>ss_SkippedIdx = 0, ss_SkippedTime = 0, ss_SkippedStat = 0, ss_SkippedBF = 0, ss_SkippedRange = 0\<rparr> =
   (False, \<lparr>ss_SkippedIdx = 0, ss_SkippedTime = 0, ss_SkippedStat = 0, ss_SkippedBF = 0, ss_SkippedRange = 0\<rparr>)"
proof (rule segment_with_match_kept [where r = int_reader and cols = "\<lambda>_. int_columns" and i = 0 and k = 1 and t = 5])
  have "length (f_RowGroups (rd_footer int_reader)) = 1" by (simp add: int_reader_def example_footer_def)
  then show "segment_holds (one_block_lz4 []) small_zstd (\<lambda>_. []) int_reader (\<lambda>_. int_columns)"
    using int_reader_described by (simp add: segment_holds_def described_def)
qed (simp_all add: int_reader_def example_footer_def example_query_def text_row_def int_columns_def evalStringPredicate_def
    matchesSourceScope_def matches_fallback_def sourceMatchesAnyGlob_def scope_all_def scope_single_def scope_list_def
    scope_glob_def star_def)

text \<open>
  Time pruning of row groups is exact: for a row group whose time column holds the given
  timestamps, \<open>CanPruneRowGroupByIndex\<close> says to prune exactly when all of them are before the
  lower bound or all of them are after the upper bound.
\<close>

theorem time_pruning_exact:
  assumes "row_group_at r rgIdx = Some rg" and "findChunk rg time_field = Some cc" and "vs \<noteq> []"
    and "cm_MinValue cc = st_MinValue (int64ColumnStats time_field vs)" and "cm_MaxValue cc = st_MaxValue (int64ColumnStats time_field vs)"
  shows "CanPruneRowGroupByIndex r rgIdx lo hi \<longleftrightarrow>
    (\<exists>t. lo = Some t \<and> (\<forall>v \<in> set vs. sint v < t)) \<or> (\<exists>t. hi = Some t \<and> (\<forall>v \<in> set vs. t < sint v))"
proof -
  obtain a b where ab: "a \<in> set vs" "b \<in> set vs" "\<forall>v \<in> set vs. sint a \<le> sint v \<and> sint v \<le> sint b"
    "cm_MinValue cc = FormatInt (sint a)" "cm_MaxValue cc = FormatInt (sint b)"
    using int64ColumnStats_attained [OF assms(3), of time_field] assms(4,5) by metis
  have "CanPruneRowGroupByIndex r rgIdx lo hi \<longleftrightarrow> (\<exists>t. lo = Some t \<and> sint b < t) \<or> (\<exists>t. hi = Some t \<and> t < sint a)"
    using assms(1,2) ab(4,5)
    by (auto simp: CanPruneRowGroupByIndex_def canPruneRowGroup_def ParseInt_FormatInt_sint split: option.splits)
  moreover have "sint b < t \<longleftrightarrow> (\<forall>v \<in> set vs. sint v < t)" "t < sint a \<longleftrightarrow> (\<forall>v \<in> set vs. t < sint v)" for t
    using ab(1-3) by (auto intro: le_less_trans less_le_trans)
  ultimately show ?thesis by simp
qed

definition time_reader :: Reader where
  "time_reader = \<lparr>rd_data = [], rd_major = 2,
     rd_footer = example_footer\<lparr>f_RowGroups := map (\<lambda>rg. rg\<lparr>rg_Columns := map (\<lambda>c. c\<lparr>cm_Name := time_field,
       cm_MinValue := st_MinValue (int64ColumnStats time_field [5, 7]), cm_MaxValue := st_MaxValue (int64ColumnStats time_field [5, 7])\<rparr>)
       (rg_Columns rg)\<rparr>) (f_RowGroups example_footer)\<rparr>,
     rd_columnIndex = Map.empty\<rparr>"

theorem time_pruning_exact_witness: "CanPruneRowGroupByIndex time_reader 0 (Some 8) None \<and> \<not> CanPruneRowGroupByIndex time_reader 0 (Some 6) (Some 6)"
proof -
  obtain rg cc where "row_group_at time_reader 0 = Some rg" "findChunk rg time_field = Some cc"
    "cm_MinValue cc = st_MinValue (int64ColumnStats time_field [5, 7])" "cm_MaxValue cc = st_MaxValue (int64ColumnStats time_field [5, 7])"
    by (simp add: row_group_at_def time_reader_def example_footer_def findChunk_def)
  note exact = time_pruning_exact [OF this(1,2) _ this(3,4)]
  show ?thesis using exact [of "Some 8" None] exact [of "Some 6" "Some 6"] by simp
qed

text \<open>
  (C31) Range predicates on numbers skip matching segments: \<open>canSkipByRange\<close> compares the literal
  with the statistics as strings, so the segment that holds the integers 2, 5 and 10 is skipped
  for \<open>x >= 3\<close>, although the row reader would select the rows with 5 and 10.
\<close>

theorem range_predicate_skips_match:
  "canSkipByRange int_reader [\<lparr>rp_Field = [120], rp_Min = [51], rp_Max = []\<rparr>] \<and>
   row_matches pf \<lparr>pd_Field = [120], pd_Op = op_ge, pd_Value = [51], pd_Values = []\<rparr> int_columns 1 \<and>
   row_matches pf \<lparr>pd_Field = [120], pd_Op = op_ge, pd_Value = [51], pd_Values = []\<rparr> int_columns 2"
proof -
  have "StatsByName int_reader [120] = Some \<lparr>st_Name = [120], st_MinValue = [50], st_MaxValue = [49, 48],
      st_Count = unat (cm_Count (fst int_chunk)), st_NullCount = unat (cm_NullCount (fst int_chunk))\<rparr>"
    using int_chunk_facts(2-5)
    by (simp add: StatsByName_def computeStats_def int_reader_def example_footer_def merge_row_group_def merge_bounds_def)
  then have "canSkipByRange int_reader [\<lparr>rp_Field = [120], rp_Min = [51], rp_Max = []\<rparr>]"
    by (simp add: canSkipByRange_def range_excludes_def)
  then show ?thesis
    by (simp add: row_matches_def int_columns_def int_matches_def coerceIntPredicateValue_def ParseInt_def evalInt64Predicate_def)
qed

end
