(* ===== verification/Primary_Index.thy ===== *)
theory Primary_Index
  imports Column_Chunk
begin

text \<open>
  The sparse primary index of \<^verbatim>\<open>src/pkg/storage/segment\<close>: its codec in \<^verbatim>\<open>rowgroup.go\<close>, the loop of
  \<open>Writer.Write\<close> that samples the sort keys, and \<open>PrimaryIndex\<close>, \<open>SeekBySortKey\<close> and
  \<open>compareSortKeys\<close> of \<^verbatim>\<open>reader.go\<close>. The sort key of an event is the list of the values of the
  sort fields, so the rows of a segment are given by the list \<open>keys\<close> of their sort keys.
\<close>

subsection \<open>The codec\<close>

record PrimaryIndexEntry =
  pe_RowOffset :: u32
  pe_SortKeyValues :: "bytes list"

record PrimaryIndex =
  pi_Interval :: nat
  pi_SortFields :: "bytes list"
  pi_Entries :: "PrimaryIndexEntry list"

definition LSG_PRIMARY_MAGIC :: bytes where "LSG_PRIMARY_MAGIC = [0x4C, 0x53, 0x50, 0x4B]"
definition PrimaryIndexInterval :: nat where "PrimaryIndexInterval = 8192"

definition put_entry :: "PrimaryIndexEntry \<Rightarrow> bytes" where
  "put_entry entry = PutUint32 (pe_RowOffset entry) @ concat (map put_string16 (pe_SortKeyValues entry))"

definition EncodePrimaryIndex :: "PrimaryIndex \<Rightarrow> bytes" where
  "EncodePrimaryIndex idx =
     LSG_PRIMARY_MAGIC @ [0, 0, 0, 0] @ PutUint32 (word_of_nat (pi_Interval idx)) @
     PutUint16 (word_of_nat (length (pi_SortFields idx))) @ concat (map put_string16 (pi_SortFields idx)) @
     PutUint32 (word_of_nat (length (pi_Entries idx))) @ concat (map put_entry (pi_Entries idx))"

definition get_entry :: "nat \<Rightarrow> bytes \<Rightarrow> (PrimaryIndexEntry \<times> bytes) option" where
  "get_entry fieldCount r = do {
     (rowOffset, r) \<leftarrow> get32 r;
     (vals, r) \<leftarrow> read_n fieldCount get_string16 r;
     Some (\<lparr>pe_RowOffset = rowOffset, pe_SortKeyValues = vals\<rparr>, r)
   }"

definition decode_index :: "bytes \<Rightarrow> PrimaryIndex option" where
  "decode_index r = do {
     (interval, r) \<leftarrow> get32 r;
     (fieldCount, r) \<leftarrow> get16 r;
     (fs, r) \<leftarrow> read_n (unat fieldCount) get_string16 r;
     (entryCount, r) \<leftarrow> get32 r;
     (entries, r) \<leftarrow> read_n (unat entryCount) (get_entry (unat fieldCount)) r;
     Some \<lparr>pi_Interval = unat interval, pi_SortFields = fs, pi_Entries = entries\<rparr>
   }"

definition DecodePrimaryIndex :: "bytes \<Rightarrow> seg_error + PrimaryIndex" where
  "DecodePrimaryIndex data =
     (if length data < 8 \<or> take 4 data \<noteq> LSG_PRIMARY_MAGIC \<or> slice data 4 8 \<noteq> [0, 0, 0, 0] then Inl ErrCorruptRegion
      else (case decode_index (drop 8 data) of None \<Rightarrow> Inl ErrCorruptSegment | Some idx \<Rightarrow> Inr idx))"

subsection \<open>Sampling and seeking\<close>

function sample_rows :: "bytes list list \<Rightarrow> nat \<Rightarrow> PrimaryIndexEntry list" where
  "sample_rows keys row =
     (if row < length keys
      then \<lparr>pe_RowOffset = word_of_nat row, pe_SortKeyValues = keys ! row\<rparr> # sample_rows keys (row + PrimaryIndexInterval)
      else [])"
  by pat_completeness auto
termination by (relation "measure (\<lambda>(keys, row). length keys - row)") (auto simp: PrimaryIndexInterval_def)

declare sample_rows.simps [simp del]

definition build_index :: "bytes list \<Rightarrow> bytes list list \<Rightarrow> PrimaryIndex" where
  "build_index sortKey keys =
     \<lparr>pi_Interval = PrimaryIndexInterval, pi_SortFields = sortKey, pi_Entries = sample_rows keys 0\<rparr>"

text \<open>The loop over the common length, then the comparison of the lengths.\<close>

fun compareSortKeys :: "bytes list \<Rightarrow> bytes list \<Rightarrow> int" where
  "compareSortKeys (a # as) (b # bs) = (if a < b then -1 else if a > b then 1 else compareSortKeys as bs)"
| "compareSortKeys [] (b # bs) = -1"
| "compareSortKeys (a # as) [] = 1"
| "compareSortKeys [] [] = 0"

text \<open>A negative length passes the bounds check and the slice expression panics.\<close>

datatype primary_error = PrimaryError seg_error | PrimaryPanic

definition Reader_PrimaryIndex :: "Reader \<Rightarrow> primary_error + PrimaryIndex option" where
  "Reader_PrimaryIndex r =
     (let start = f_PrimaryIndexOffset (rd_footer r); stop = start + f_PrimaryIndexLength (rd_footer r) in
      if f_PrimaryIndexLength (rd_footer r) = 0 then Inr None
      else if start <s 0 \<or> sint stop > int (length (rd_data r)) then Inl (PrimaryError ErrCorruptSegment)
      else if stop <s start then Inl PrimaryPanic
      else (case DecodePrimaryIndex (slice (rd_data r) (unat start) (unat stop)) of
              Inl _ \<Rightarrow> Inl (PrimaryError ErrCorruptRegion)
            | Inr idx \<Rightarrow> Inr (Some idx)))"

function seek_loop :: "PrimaryIndexEntry list \<Rightarrow> bytes list \<Rightarrow> nat \<Rightarrow> nat \<Rightarrow> nat" where
  "seek_loop entries vals lo hi =
     (if lo < hi then
        let mid = lo + (hi - lo) div 2 in
        if compareSortKeys (pe_SortKeyValues (entries ! mid)) vals \<le> 0 then seek_loop entries vals (mid + 1) hi
        else seek_loop entries vals lo mid
      else lo)"
  by pat_completeness auto
termination by (relation "measure (\<lambda>(entries, vals, lo, hi). hi - lo)") auto

declare seek_loop.simps [simp del]

definition SeekBySortKey :: "Reader \<Rightarrow> bytes list \<Rightarrow> primary_error + int \<times> int" where
  "SeekBySortKey r vals =
     (case Reader_PrimaryIndex r of
        Inl e \<Rightarrow> Inl e
      | Inr None \<Rightarrow> Inr (0, sint (f_EventCount (rd_footer r)))
      | Inr (Some idx) \<Rightarrow>
          if pi_Entries idx = [] then Inr (0, sint (f_EventCount (rd_footer r)))
          else let lo = seek_loop (pi_Entries idx) vals 0 (length (pi_Entries idx));
                   startRow = (if lo > 0 then int (unat (pe_RowOffset (pi_Entries idx ! (lo - 1)))) else 0);
                   endRow = (if lo < length (pi_Entries idx) then int (unat (pe_RowOffset (pi_Entries idx ! lo)))
                             else sint (f_EventCount (rd_footer r)))
               in Inr (startRow, endRow))"

subsection \<open>The index is read back\<close>

definition entry_ok :: "nat \<Rightarrow> PrimaryIndexEntry \<Rightarrow> bool" where
  "entry_ok n e \<longleftrightarrow> length (pe_SortKeyValues e) = n \<and> list_all (\<lambda>s. length s < 2 ^ 16) (pe_SortKeyValues e)"

definition index_ok :: "PrimaryIndex \<Rightarrow> bool" where
  "index_ok idx \<longleftrightarrow> pi_Interval idx < 2 ^ 32 \<and> length (pi_SortFields idx) < 2 ^ 16 \<and>
     list_all (\<lambda>s. length s < 2 ^ 16) (pi_SortFields idx) \<and>
     list_all (entry_ok (length (pi_SortFields idx))) (pi_Entries idx) \<and> length (EncodePrimaryIndex idx) < 2 ^ 32"

interpretation str16: item_codec put_string16 "\<lambda>_. get_string16" "\<lambda>s. length s < 2 ^ 16" 2
proof unfold_locales
  show "length x < 2 ^ 16" if "get_string16 r = Some (x, rest)" for r x rest using that by (rule get_string16_bound)
  show "get_string16 (put_string16 x @ rest) = Some (x, rest)" if "length x < 2 ^ 16" for x rest using that by (rule get_string16_put)
qed (simp_all add: put_string16_def)

interpretation entries: item_codec put_entry "\<lambda>_. get_entry n" "entry_ok n" 4 for n
proof unfold_locales
  fix x rest and L :: nat
  assume "entry_ok n x" "length (put_entry x @ rest) \<le> L" "L < 2 ^ 32"
  moreover from this have "read_n n get_string16 (concat (map put_string16 (pe_SortKeyValues x)) @ rest) = Some (pe_SortKeyValues x, rest)"
    using str16.read_n_put [of "pe_SortKeyValues x" rest L] by (simp add: entry_ok_def put_entry_def)
  ultimately show "get_entry n (put_entry x @ rest) = Some (x, rest)"
    by (simp add: get_entry_def put_entry_def footer_simps)
next
  fix r x rest
  assume "get_entry n r = Some (x, rest)"
  then obtain r' where "read_n n get_string16 r' = Some (pe_SortKeyValues x, rest)"
    by (auto simp: get_entry_def split: bind_splits)
  from str16.read_n_ok [OF this] show "entry_ok n x" by (simp add: entry_ok_def)
qed (simp_all add: put_entry_def)

lemma decode_encode_index:
  assumes "index_ok idx"
  shows "DecodePrimaryIndex (EncodePrimaryIndex idx) = Inr idx"
proof -
  let ?n = "length (pi_SortFields idx)"
  have ok: "?n < 2 ^ 16" "pi_Interval idx < 2 ^ 32" "list_all (\<lambda>s. length s < 2 ^ 16) (pi_SortFields idx)"
    "list_all (entry_ok ?n) (pi_Entries idx)" "length (EncodePrimaryIndex idx) < 2 ^ 32"
    using assms by (simp_all add: index_ok_def)
  have len: "length (concat (map put_string16 (pi_SortFields idx))) + length (concat (map put_entry (pi_Entries idx))) + 4 < 2 ^ 32"
    using ok(5) by (simp add: EncodePrimaryIndex_def LSG_PRIMARY_MAGIC_def)
  moreover have "4 * length (pi_Entries idx) \<le> length (concat (map put_entry (pi_Entries idx)))" by (rule entries.length_concat_least)
  ultimately have "length (pi_Entries idx) < 2 ^ 32" by linarith
  moreover have "read_n ?n get_string16 (concat (map put_string16 (pi_SortFields idx)) @ rest) = Some (pi_SortFields idx, rest)"
    if "length rest \<le> length (concat (map put_entry (pi_Entries idx))) + 4" for rest
    using str16.read_n_put [OF ok(3), of rest "2 ^ 32 - 1"] len that by simp
  moreover have "read_n (length (pi_Entries idx)) (get_entry ?n) (concat (map put_entry (pi_Entries idx))) = Some (pi_Entries idx, [])"
    using entries.read_n_put [OF ok(4), of "[]" "2 ^ 32 - 1"] len by simp
  ultimately have "decode_index (drop 8 (EncodePrimaryIndex idx)) = Some idx"
    using ok(1,2) by (simp add: decode_index_def EncodePrimaryIndex_def LSG_PRIMARY_MAGIC_def footer_simps)
  then show ?thesis by (simp add: DecodePrimaryIndex_def EncodePrimaryIndex_def LSG_PRIMARY_MAGIC_def slice_def)
qed

text \<open>The file of a reader holds the encoded index where the footer says.\<close>

definition holds_index :: "Reader \<Rightarrow> PrimaryIndex \<Rightarrow> bool" where
  "holds_index r idx \<longleftrightarrow>
     (\<exists>pre post. rd_data r = pre @ EncodePrimaryIndex idx @ post \<and> length (rd_data r) < 2 ^ 63 \<and>
        f_PrimaryIndexOffset (rd_footer r) = word_of_nat (length pre) \<and>
        f_PrimaryIndexLength (rd_footer r) = word_of_nat (length (EncodePrimaryIndex idx)))"

lemma Reader_PrimaryIndex_holds:
  assumes "index_ok idx" and "holds_index r idx"
  shows "Reader_PrimaryIndex r = Inr (Some idx)"
proof -
  let ?e = "EncodePrimaryIndex idx"
  obtain pre post where d: "rd_data r = pre @ ?e @ post" and size: "length pre + length ?e + length post < 2 ^ 63"
    and off: "f_PrimaryIndexOffset (rd_footer r) = word_of_nat (length pre)" "f_PrimaryIndexLength (rd_footer r) = word_of_nat (length ?e)"
    using assms(2) by (auto simp: holds_index_def)
  have len: "length pre < 2 ^ 63" "length ?e < 2 ^ 63" "length pre + length ?e < 2 ^ 63" using size by simp_all
  have stop: "f_PrimaryIndexOffset (rd_footer r) + f_PrimaryIndexLength (rd_footer r) = word_of_nat (length pre + length ?e)"
    by (simp add: off)
  have "length ?e \<noteq> 0" by (simp add: EncodePrimaryIndex_def LSG_PRIMARY_MAGIC_def)
  then have "(word_of_nat (length ?e) :: u64) \<noteq> 0" using int64_of_nat(2) [OF len(2)] by (metis unat_0)
  moreover have "slice (rd_data r) (length pre) (length pre + length ?e) = ?e" by (simp add: d slice_def)
  moreover have "\<not> (word_of_nat (length pre + length ?e) :: u64) <s word_of_nat (length pre)"
    unfolding word_sless_alt int64_of_nat(1) [OF len(1)] int64_of_nat(1) [OF len(3)] by simp
  ultimately show ?thesis
    using int64_of_nat [OF len(1)] int64_of_nat [OF len(3)] decode_encode_index [OF assms(1)]
    unfolding Reader_PrimaryIndex_def Let_def stop by (simp add: off d)
qed

subsection \<open>Binary search over the samples\<close>

lemma compareSortKeys_order: "compareSortKeys a b \<le> 0 \<longleftrightarrow> a \<le> b"
  by (induction a b rule: compareSortKeys.induct) auto

lemma seek_loop_spec:
  assumes "sorted (map pe_SortKeyValues entries)" and "lo \<le> hi" and "hi \<le> length entries"
    and "\<forall>i < lo. pe_SortKeyValues (entries ! i) \<le> vals"
    and "\<forall>i < length entries. hi \<le> i \<longrightarrow> vals < pe_SortKeyValues (entries ! i)"
  shows "seek_loop entries vals lo hi \<le> length entries \<and>
    (\<forall>i < seek_loop entries vals lo hi. pe_SortKeyValues (entries ! i) \<le> vals) \<and>
    (\<forall>i < length entries. seek_loop entries vals lo hi \<le> i \<longrightarrow> vals < pe_SortKeyValues (entries ! i))"
  using assms
proof (induction entries vals lo hi rule: seek_loop.induct)
  case (1 entries vals lo hi)
  let ?key = "\<lambda>i. pe_SortKeyValues (entries ! i)" and ?mid = "lo + (hi - lo) div 2"
  have mono: "?key i \<le> ?key j" if "i \<le> j" "j < length entries" for i j
    using sorted_nth_mono [OF "1.prems"(1), of i j] that by simp
  show ?case
  proof (cases "lo < hi")
    case False
    with "1.prems" show ?thesis by (subst (1 2 3) seek_loop.simps) auto
  next
    case True
    then have mid: "lo \<le> ?mid" "?mid < hi" by linarith+
    show ?thesis
    proof (cases "?key ?mid \<le> vals")
      case le: True
      have "\<forall>i < ?mid + 1. ?key i \<le> vals"
        using mono [of _ ?mid] le mid "1.prems"(3) by (auto intro: order_trans simp: less_Suc_eq_le)
      with "1.IH"(1) [OF True refl] "1.prems" le mid show ?thesis
        by (subst (1 2 3) seek_loop.simps) (simp add: True Let_def compareSortKeys_order)
    next
      case gt: False
      have "\<forall>i < length entries. ?mid \<le> i \<longrightarrow> vals < ?key i"
        using mono [of ?mid] gt by (auto intro: less_le_trans simp: not_le)
      with "1.IH"(2) [OF True refl] "1.prems" gt mid show ?thesis
        by (subst (1 2 3) seek_loop.simps) (simp add: True Let_def compareSortKeys_order)
    qed
  qed
qed

lemma sample_rows_length: "i < length (sample_rows keys row) \<longleftrightarrow> row + i * PrimaryIndexInterval < length keys"
proof (induction keys row arbitrary: i rule: sample_rows.induct)
  case (1 keys row)
  show ?case
  proof (cases "row < length keys")
    case True
    with 1 show ?thesis by (subst sample_rows.simps) (cases i; simp add: algebra_simps)
  qed (simp add: sample_rows.simps [of keys row])
qed

lemma sample_rows_nth:
  assumes "row + i * PrimaryIndexInterval < length keys"
  shows "sample_rows keys row ! i =
    \<lparr>pe_RowOffset = word_of_nat (row + i * PrimaryIndexInterval), pe_SortKeyValues = keys ! (row + i * PrimaryIndexInterval)\<rparr>"
  using assms
proof (induction keys row arbitrary: i rule: sample_rows.induct)
  case (1 keys row)
  then have "row < length keys" by simp
  with 1 show ?case by (subst sample_rows.simps) (cases i; simp add: algebra_simps)
qed

lemma sample_rows_sorted: "sorted keys \<Longrightarrow> sorted (map pe_SortKeyValues (sample_rows keys 0))"
proof -
  assume keys: "sorted keys"
  have "pe_SortKeyValues (sample_rows keys 0 ! i) \<le> pe_SortKeyValues (sample_rows keys 0 ! j)"
    if "i \<le> j" "j < length (sample_rows keys 0)" for i j
  proof -
    have "i * PrimaryIndexInterval \<le> j * PrimaryIndexInterval" "j * PrimaryIndexInterval < length keys"
      using that by (simp_all add: sample_rows_length)
    moreover from this have "i * PrimaryIndexInterval < length keys" by (rule le_less_trans)
    ultimately show ?thesis using sorted_nth_mono [OF keys, of "i * PrimaryIndexInterval" "j * PrimaryIndexInterval"]
      by (simp add: sample_rows_nth)
  qed
  then show ?thesis by (simp add: sorted_iff_nth_mono)
qed

text \<open>The samples around the position that the search finds.\<close>

lemma seek_bounds:
  assumes keys: "sorted keys" "keys \<noteq> []" "length keys < 2 ^ 32" and ok: "index_ok (build_index sortKey keys)"
    and r: "holds_index r (build_index sortKey keys)" "f_EventCount (rd_footer r) = word_of_nat (length keys)"
  obtains lo where "SeekBySortKey r vals = Inr (int (if lo > 0 then (lo - 1) * PrimaryIndexInterval else 0),
      int (if lo * PrimaryIndexInterval < length keys then lo * PrimaryIndexInterval else length keys))"
    "\<And>i. i < lo \<Longrightarrow> i * PrimaryIndexInterval < length keys \<and> keys ! (i * PrimaryIndexInterval) \<le> vals"
    "\<And>i. lo \<le> i \<Longrightarrow> i * PrimaryIndexInterval < length keys \<Longrightarrow> vals < keys ! (i * PrimaryIndexInterval)"
proof -
  let ?es = "sample_rows keys 0" and ?I = "PrimaryIndexInterval"
  define lo where "lo = seek_loop ?es vals 0 (length ?es)"
  note nth = sample_rows_nth [of 0 _ keys, simplified] and len = sample_rows_length [of _ keys 0, simplified]
  have spec: "lo \<le> length ?es" "\<And>i. i < lo \<Longrightarrow> pe_SortKeyValues (?es ! i) \<le> vals"
    "\<And>i. i < length ?es \<Longrightarrow> lo \<le> i \<Longrightarrow> vals < pe_SortKeyValues (?es ! i)"
    using seek_loop_spec [OF sample_rows_sorted [OF keys(1)], of 0 "length ?es" vals] by (simp_all add: lo_def)
  have row: "unat (pe_RowOffset (?es ! i)) = i * ?I" if "i < length ?es" for i
  proof -
    have lt: "i * ?I < length keys" using that by (simp add: len)
    with keys(3) have "unat (word_of_nat (i * ?I) :: u32) = i * ?I" by (intro unat_small(2)) simp
    with lt show ?thesis using sample_rows_nth [of 0 i keys] by simp
  qed
  have "sint (f_EventCount (rd_footer r)) = int (length keys)" using keys(3) by (simp add: r(2) int64_of_nat(1))
  moreover have "?es \<noteq> []" using keys(2) by (simp add: sample_rows.simps [of keys 0])
  moreover have "lo - 1 < length ?es" using spec(1) \<open>?es \<noteq> []\<close> by (cases lo) auto
  ultimately have "SeekBySortKey r vals = Inr (int (if lo > 0 then (lo - 1) * ?I else 0), int (if lo * ?I < length keys then lo * ?I else length keys))"
    using Reader_PrimaryIndex_holds [OF ok r(1)] row
    by (simp add: SeekBySortKey_def build_index_def Let_def flip: lo_def len)
  moreover have "i * ?I < length keys \<and> keys ! (i * ?I) \<le> vals" if "i < lo" for i
    using spec(1) spec(2) [OF that] that by (simp add: nth flip: len)
  moreover have "vals < keys ! (i * ?I)" if "lo \<le> i" "i * ?I < length keys" for i
    using spec(3) [of i] that by (simp add: len nth)
  ultimately show thesis by (rule that)
qed

subsection \<open>Properties\<close>

text \<open>
  (C17) Seeking by sort key: in a segment whose rows are sorted and whose index was sampled from
  them and written into the file, \<open>SeekBySortKey\<close> returns a range of rows in the segment that
  ends after every row with the key, and that starts before every row with the key unless the
  sample at its start has the key itself.
\<close>

theorem seek_range:
  assumes "sorted keys" and "keys \<noteq> []" and "length keys < 2 ^ 32" and "index_ok (build_index sortKey keys)"
    and "holds_index r (build_index sortKey keys)" and "f_EventCount (rd_footer r) = word_of_nat (length keys)"
  shows "\<exists>start stop. SeekBySortKey r vals = Inr (int start, int stop) \<and> start \<le> stop \<and> stop \<le> length keys \<and>
    (\<forall>j < length keys. keys ! j = vals \<longrightarrow> j < stop \<and> (start \<le> j \<or> keys ! start = vals))"
proof -
  let ?I = "PrimaryIndexInterval"
  obtain lo where seek: "SeekBySortKey r vals = Inr (int (if lo > 0 then (lo - 1) * ?I else 0),
      int (if lo * ?I < length keys then lo * ?I else length keys))"
    and below: "\<And>i. i < lo \<Longrightarrow> i * ?I < length keys \<and> keys ! (i * ?I) \<le> vals"
    and above: "\<And>i. lo \<le> i \<Longrightarrow> i * ?I < length keys \<Longrightarrow> vals < keys ! (i * ?I)"
    by (rule seek_bounds [OF assms, where vals = vals]) blast
  define start stop where "start = (if lo > 0 then (lo - 1) * ?I else 0)"
    and "stop = (if lo * ?I < length keys then lo * ?I else length keys)"
  have "SeekBySortKey r vals = Inr (int start, int stop)" using seek by (simp only: start_def stop_def)
  moreover have "start \<le> stop" "stop \<le> length keys" using below [of "lo - 1"] by (auto simp: start_def stop_def)
  moreover have "j < stop" if "j < length keys" "keys ! j = vals" for j
    using above [of lo] sorted_nth_mono [OF assms(1), of "lo * ?I" j] that
    by (cases "lo * ?I \<le> j") (auto simp: not_le stop_def)
  moreover have "start \<le> j \<or> keys ! start = vals" if "j < length keys" "keys ! j = vals" for j
    using below [of "lo - 1"] sorted_nth_mono [OF assms(1), of j "(lo - 1) * ?I"] that
    by (cases "j \<le> (lo - 1) * ?I") (auto simp: start_def)
  ultimately show ?thesis by blast
qed

definition index_reader :: "bytes list list \<Rightarrow> Reader" where
  "index_reader keys = \<lparr>rd_data = EncodePrimaryIndex (build_index [[107]] keys), rd_major = 2,
     rd_footer = example_footer\<lparr>f_EventCount := word_of_nat (length keys), f_PrimaryIndexOffset := 0,
       f_PrimaryIndexLength := word_of_nat (length (EncodePrimaryIndex (build_index [[107]] keys)))\<rparr>,
     rd_columnIndex = Map.empty\<rparr>"

lemma index_reader_holds:
  "length (EncodePrimaryIndex (build_index [[107]] keys)) < 2 ^ 63 \<Longrightarrow> holds_index (index_reader keys) (build_index [[107]] keys)"
  "f_EventCount (rd_footer (index_reader keys)) = word_of_nat (length keys)"
  by (auto simp: holds_index_def index_reader_def intro!: exI [of _ "[]"])

lemma small_index_ok: "index_ok (build_index [[107]] [[[97]], [[98]], [[98]]])"
  by (simp add: index_ok_def build_index_def sample_rows.simps PrimaryIndexInterval_def entry_ok_def EncodePrimaryIndex_def
      LSG_PRIMARY_MAGIC_def put_entry_def put_string16_def)

theorem seek_range_witness:
  "\<exists>start stop. SeekBySortKey (index_reader [[[97]], [[98]], [[98]]]) [[98]] = Inr (int start, int stop) \<and> start \<le> 1 \<and> stop = 3"
proof -
  let ?k = "[[[97]], [[98]], [[98]]] :: bytes list list"
  have "holds_index (index_reader ?k) (build_index [[107]] ?k)"
    using small_index_ok by (intro index_reader_holds(1)) (simp add: index_ok_def)
  from seek_range [OF _ _ _ small_index_ok this index_reader_holds(2), of "[[98]]"]
  obtain start stop where s: "SeekBySortKey (index_reader ?k) [[98]] = Inr (int start, int stop)" "stop \<le> length ?k"
    "\<forall>j < length ?k. ?k ! j = [[98]] \<longrightarrow> j < stop \<and> (start \<le> j \<or> ?k ! start = [[98]])" "start \<le> stop"
    by auto
  then have "1 < stop \<and> (start \<le> 1 \<or> ?k ! start = [[98]])" "2 < stop" using s(3) [rule_format, of 1] s(3) [rule_format, of 2] by simp_all
  moreover have "start \<le> 1"
    using s(1) Reader_PrimaryIndex_holds [OF small_index_ok \<open>holds_index _ _\<close>]
    by (simp add: SeekBySortKey_def build_index_def sample_rows.simps PrimaryIndexInterval_def seek_loop.simps Let_def split: if_splits)
  ultimately show ?thesis using s(1,2) by auto
qed

text \<open>
  (C32) Seeking misses duplicates: when all rows of a segment have the same sort key and there is
  more than one sample, the range for that key runs from the last sample to the last row, so every
  row before the last sample, the first 8192 at least, is left out although it matches.
\<close>

theorem seek_misses_duplicates:
  assumes "PrimaryIndexInterval < n" and "n < 2 ^ 32" and "index_ok (build_index sortKey (replicate n key))"
    and "holds_index r (build_index sortKey (replicate n key))" and "f_EventCount (rd_footer r) = word_of_nat n"
  shows "SeekBySortKey r key = Inr (int ((n - 1) div PrimaryIndexInterval * PrimaryIndexInterval), int n) \<and>
    PrimaryIndexInterval \<le> (n - 1) div PrimaryIndexInterval * PrimaryIndexInterval"
proof -
  let ?I = "PrimaryIndexInterval"
  have k: "sorted (replicate n key)" "replicate n key \<noteq> []" "length (replicate n key) < 2 ^ 32"
    "f_EventCount (rd_footer r) = word_of_nat (length (replicate n key))"
    using assms by (simp_all add: sorted_replicate)
  obtain lo where seek: "SeekBySortKey r key = Inr (int (if lo > 0 then (lo - 1) * ?I else 0),
      int (if lo * ?I < length (replicate n key) then lo * ?I else length (replicate n key)))"
    and below: "\<And>i. i < lo \<Longrightarrow> i * ?I < length (replicate n key) \<and> replicate n key ! (i * ?I) \<le> key"
    and above: "\<And>i. lo \<le> i \<Longrightarrow> i * ?I < length (replicate n key) \<Longrightarrow> key < replicate n key ! (i * ?I)"
    by (rule seek_bounds [OF k(1-3) assms(3,4) k(4), where vals = key]) blast
  have "1 < lo" using above [of 1] assms(1) by (cases "lo \<le> 1") auto
  have last: "\<not> lo * ?I < n" using above [of lo] by auto
  have "(lo - 1) * ?I < n" using below [of "lo - 1"] \<open>1 < lo\<close> by simp
  with last \<open>1 < lo\<close> have "(n - 1) div ?I = lo - 1"
    by (intro div_nat_eqI) (simp_all add: mult.commute)
  moreover have "1 * ?I \<le> (lo - 1) * ?I" using \<open>1 < lo\<close> by (intro mult_le_mono1) simp
  ultimately show ?thesis using seek \<open>1 < lo\<close> last by simp
qed

theorem seek_misses_duplicates_witness:
  "SeekBySortKey (index_reader (replicate 8193 [[97]])) [[97]] = Inr (8192, 8193)"
proof -
  define n :: nat where "n = 8193"
  have ok: "index_ok (build_index [[107]] (replicate n [[97]]))"
    by (simp add: index_ok_def build_index_def sample_rows.simps PrimaryIndexInterval_def entry_ok_def EncodePrimaryIndex_def
      LSG_PRIMARY_MAGIC_def put_entry_def put_string16_def n_def)
  have "holds_index (index_reader (replicate n [[97]])) (build_index [[107]] (replicate n [[97]]))"
    using ok by (intro index_reader_holds(1)) (simp add: index_ok_def)
  from seek_misses_duplicates [OF _ _ ok this] index_reader_holds(2) [of "replicate n [[97]]"] show ?thesis
    by (auto simp: PrimaryIndexInterval_def n_def)
qed

end
