(* ===== verification/Float64.thy ===== *)
theory Float64
  imports Row_Predicate "HOL-Library.Log_Nat" "HOL-Library.Signed_Division"
begin

text \<open>
  The float64 arithmetic of Go that the expression evaluator uses: IEEE 754 binary64 with rounding
  to nearest, ties to even. A float is its bit pattern; the exact result of an operation is a fraction
  in the scale of \<open>float_value\<close> (units of $2^{-1074}$), and \<open>round_magnitude\<close> rounds it. Every
  operation that yields no number yields the pattern of \<^verbatim>\<open>math.NaN()\<close>.

  The conversion of a float64 to int64 truncates; outside the range of int64 the Go specification
  leaves the result to the platform, and it is a parameter where the model uses it.
\<close>

subsection \<open>Rounding\<close>

definition make_float :: "bool \<Rightarrow> nat \<Rightarrow> u64" where
  "make_float neg m = word_of_nat (m + (if neg then 2 ^ 63 else 0))"

definition inf_magnitude :: nat where "inf_magnitude = 2047 * 2 ^ 52"

definition float_nan :: u64 where "float_nan = 0x7FF8000000000001"

definition float_inf :: "bool \<Rightarrow> u64" where "float_inf neg = make_float neg inf_magnitude"

definition round_half_even :: "nat \<Rightarrow> nat \<Rightarrow> nat" where
  "round_half_even n d =
     (let q = n div d; r = n mod d in if 2 * r < d \<or> 2 * r = d \<and> even q then q else Suc q)"

text \<open>
  The magnitude of the float nearest to \<open>n / d\<close>. Magnitudes count the floats upwards from zero, so a
  significand that rounds up to $2^{53}$ carries into the exponent by itself.
\<close>

definition round_magnitude :: "nat \<Rightarrow> nat \<Rightarrow> nat" where
  "round_magnitude n d =
     (let e = floorlog 2 (n div d) - 53 in
      min (e * 2 ^ 52 + round_half_even n (d * 2 ^ e)) inf_magnitude)"

definition float_round :: "bool \<Rightarrow> int \<Rightarrow> nat \<Rightarrow> u64" where
  "float_round zero_sign n d =
     (if n = 0 then make_float zero_sign 0 else make_float (n < 0) (round_magnitude (nat \<bar>n\<bar>) d))"

subsection \<open>Operations\<close>

abbreviation (input) float_sign :: "u64 \<Rightarrow> bool" where "float_sign f \<equiv> bit f 63"

definition float_neg :: "u64 \<Rightarrow> u64" where "float_neg f = f XOR push_bit 63 1"

definition float_add :: "u64 \<Rightarrow> u64 \<Rightarrow> u64" where
  "float_add a b =
     (if is_NaN a \<or> is_NaN b then float_nan
      else if is_Inf a then (if is_Inf b \<and> float_sign a \<noteq> float_sign b then float_nan else a)
      else if is_Inf b then b
      else float_round (float_sign a \<and> float_sign b) (float_value a + float_value b) 1)"

definition float_sub :: "u64 \<Rightarrow> u64 \<Rightarrow> u64" where
  "float_sub a b = float_add a (float_neg b)"

definition float_mul :: "u64 \<Rightarrow> u64 \<Rightarrow> u64" where
  "float_mul a b =
     (let neg = (float_sign a \<noteq> float_sign b) in
      if is_NaN a \<or> is_NaN b then float_nan
      else if is_Inf a \<or> is_Inf b then (if is_zero a \<or> is_zero b then float_nan else float_inf neg)
      else float_round neg (float_value a * float_value b) (2 ^ 1074))"

definition float_div :: "u64 \<Rightarrow> u64 \<Rightarrow> u64" where
  "float_div a b =
     (let neg = (float_sign a \<noteq> float_sign b) in
      if is_NaN a \<or> is_NaN b then float_nan
      else if is_Inf a then (if is_Inf b then float_nan else float_inf neg)
      else if is_Inf b then make_float neg 0
      else if is_zero b then (if is_zero a then float_nan else float_inf neg)
      else float_round neg (float_value a * float_unit * sgn (float_value b)) (nat \<bar>float_value b\<bar>))"

definition float_of_int :: "int \<Rightarrow> u64" where
  "float_of_int n = float_round False (n * float_unit) 1"

text \<open>Truncation towards zero, and the range in which int64 holds it.\<close>

definition float_trunc :: "u64 \<Rightarrow> int" where
  "float_trunc f = sgn (float_value f) * (\<bar>float_value f\<bar> div float_unit)"

definition fits_int64 :: "u64 \<Rightarrow> bool" where
  "fits_int64 f \<longleftrightarrow> \<not> is_NaN f \<and> \<not> is_Inf f \<and> - (2 ^ 63) \<le> float_trunc f \<and> float_trunc f < 2 ^ 63"

definition float_floor :: "u64 \<Rightarrow> u64" where
  "float_floor f = (if is_NaN f \<or> is_Inf f then f else float_round (float_sign f) (math_Floor f * float_unit) 1)"

subsection \<open>Signed integer division\<close>

text \<open>Go truncates; the quotient of the least int64 by -1 wraps to itself.\<close>

definition int64_quot :: "u64 \<Rightarrow> u64 \<Rightarrow> u64" where
  "int64_quot a b = word_of_int (sint a sdiv sint b)"

definition int64_rem :: "u64 \<Rightarrow> u64 \<Rightarrow> u64" where
  "int64_rem a b = word_of_int (sint a smod sint b)"

subsection \<open>Facts\<close>

lemma unat_make_float: "m < 2 ^ 63 \<Longrightarrow> unat (make_float neg m) = m + (if neg then 2 ^ 63 else 0)"
  unfolding make_float_def by (subst unat_of_nat) (simp add: take_bit_nat_def)

lemma magnitude_make_float: "m < 2 ^ 63 \<Longrightarrow> float_magnitude (make_float neg m) = m"
  by (simp add: float_magnitude_def unsigned_take_bit_eq unat_make_float take_bit_nat_def)

lemma sign_make_float: "m < 2 ^ 63 \<Longrightarrow> bit (make_float neg m) 63 \<longleftrightarrow> neg"
  by (simp add: bit_word_iff_unat unat_make_float bit_iff_odd)

end
