(* ===== verification/Event_Value.thy ===== *)
theory Event_Value
  imports Float64
begin

text \<open>
  The dynamic values of fields and expressions: \<^verbatim>\<open>src/pkg/event/value.go\<close>, and the conversions,
  comparisons and arithmetic on them of \<^verbatim>\<open>src/pkg/vm/vm.go\<close> and \<^verbatim>\<open>src/pkg/vm/lynxflow_ops.go\<close>.

  Go's tagged struct is a datatype with one constructor per \<open>FieldType\<close>; integers, time stamps
  and durations are 64-bit words read as signed, floats are bit patterns. The map of an object is an
  association list that \<open>obj_put\<close> keeps sorted by key, which is the order in which every operation
  that iterates over a map visits or sorts it.

  The record \<open>go_lib\<close> holds the functions of Go's standard library that the evaluator calls and
  whose definition is not part of the program: parsing and printing of floats, printing of times and
  durations, quoting, Unicode case mapping and decoding, and the platform's result of an out-of-range
  float conversion.
\<close>

subsection \<open>Strings\<close>

definition bs :: "string \<Rightarrow> bytes" where
  "bs s = map (\<lambda>c. word_of_nat (of_char c)) s"

lemma bs_simps [simp]: "bs [] = []" "bs (c # s) = word_of_nat (of_char c) # bs s"
  by (simp_all add: bs_def)

lemma bs_inject: "bs a = bs b \<longleftrightarrow> a = b"
proof -
  have "inj (\<lambda>c. word_of_nat (of_char c) :: u8)"
  proof (rule injI)
    fix c d :: char assume "word_of_nat (of_char c) = (word_of_nat (of_char d) :: u8)"
    then have "unat (word_of_nat (of_char c) :: u8) = unat (word_of_nat (of_char d) :: u8)" by simp
    then show "c = d" by (simp add: unat_of_nat)
  qed
  then show ?thesis by (simp add: bs_def inj_map_eq_map)
qed

text \<open>\<^verbatim>\<open>strings.Compare\<close> and \<^verbatim>\<open>strings.Join\<close>.\<close>

definition strings_Compare :: "gostring \<Rightarrow> gostring \<Rightarrow> int" where
  "strings_Compare a b = (if a < b then - 1 else if b < a then 1 else 0)"

fun strings_Join :: "bytes \<Rightarrow> bytes list \<Rightarrow> bytes" where
  "strings_Join sep [] = []"
| "strings_Join sep [x] = x"
| "strings_Join sep (x # y # ys) = x @ sep @ strings_Join sep (y # ys)"

record go_lib =
  gl_ParseFloat :: "bytes \<Rightarrow> u64 option"
  gl_FormatFloat :: "u64 \<Rightarrow> bytes"
  gl_FormatTime :: "u64 \<Rightarrow> bytes"
  gl_FormatDuration :: "u64 \<Rightarrow> bytes"
  gl_Quote :: "bytes \<Rightarrow> bytes"
  gl_ToLower :: "bytes \<Rightarrow> bytes"
  gl_ToUpper :: "bytes \<Rightarrow> bytes"
  gl_TrimSpace :: "bytes \<Rightarrow> bytes"
  gl_runes :: "bytes \<Rightarrow> bytes list"
  gl_int64 :: "u64 \<Rightarrow> u64"

text \<open>The Go conversion \<^verbatim>\<open>int64(f)\<close>.\<close>

definition int64_of_float :: "go_lib \<Rightarrow> u64 \<Rightarrow> u64" where
  "int64_of_float L f = (if fits_int64 f then word_of_int (float_trunc f) else gl_int64 L f)"

subsection \<open>Values\<close>

datatype FieldType =
    FieldTypeNull | FieldTypeString | FieldTypeInt | FieldTypeFloat | FieldTypeBool
  | FieldTypeTimestamp | FieldTypeDuration | FieldTypeArray | FieldTypeObject

fun FieldType_String :: "FieldType \<Rightarrow> bytes" where
  "FieldType_String FieldTypeNull = bs ''null''"
| "FieldType_String FieldTypeString = bs ''string''"
| "FieldType_String FieldTypeInt = bs ''int''"
| "FieldType_String FieldTypeFloat = bs ''float''"
| "FieldType_String FieldTypeBool = bs ''bool''"
| "FieldType_String FieldTypeTimestamp = bs ''timestamp''"
| "FieldType_String FieldTypeDuration = bs ''duration''"
| "FieldType_String FieldTypeArray = bs ''array''"
| "FieldType_String FieldTypeObject = bs ''object''"

datatype Value =
    NullValue
  | StringValue gostring
  | IntValue u64
  | FloatValue u64
  | BoolValue bool
  | TimestampValue u64
  | DurationValue u64
  | ArrayValue "Value list"
  | ObjectValue "(gostring \<times> Value) list"

fun Value_Type :: "Value \<Rightarrow> FieldType" where
  "Value_Type NullValue = FieldTypeNull"
| "Value_Type (StringValue s) = FieldTypeString"
| "Value_Type (IntValue n) = FieldTypeInt"
| "Value_Type (FloatValue f) = FieldTypeFloat"
| "Value_Type (BoolValue b) = FieldTypeBool"
| "Value_Type (TimestampValue t) = FieldTypeTimestamp"
| "Value_Type (DurationValue d) = FieldTypeDuration"
| "Value_Type (ArrayValue xs) = FieldTypeArray"
| "Value_Type (ObjectValue kvs) = FieldTypeObject"

abbreviation IsNull :: "Value \<Rightarrow> bool" where "IsNull v \<equiv> v = NullValue"

fun AsInt :: "Value \<Rightarrow> u64" where
  "AsInt (IntValue n) = n"
| "AsInt _ = 0"

fun AsFloat :: "Value \<Rightarrow> u64" where
  "AsFloat (FloatValue f) = f"
| "AsFloat _ = 0"

text \<open>Assignment to a map, \<^verbatim>\<open>m[k] = v\<close>, and lookup, \<^verbatim>\<open>v, ok := m[k]\<close>.\<close>

fun obj_put :: "gostring \<Rightarrow> 'v \<Rightarrow> (gostring \<times> 'v) list \<Rightarrow> (gostring \<times> 'v) list" where
  "obj_put k v [] = [(k, v)]"
| "obj_put k v ((k', v') # kvs) =
     (if k = k' then (k, v) # kvs
      else if k < k' then (k, v) # (k', v') # kvs
      else (k', v') # obj_put k v kvs)"

abbreviation obj_get :: "(gostring \<times> 'v) list \<Rightarrow> gostring \<Rightarrow> 'v option" where
  "obj_get \<equiv> map_of"

subsection \<open>Rendering and size\<close>

fun scalar_String :: "go_lib \<Rightarrow> Value \<Rightarrow> bytes" where
  "scalar_String L NullValue = bs ''<null>''"
| "scalar_String L (StringValue s) = s"
| "scalar_String L (IntValue n) = FormatInt (sint n)"
| "scalar_String L (FloatValue f) = gl_FormatFloat L f"
| "scalar_String L (BoolValue b) = (if b then bs ''true'' else bs ''false'')"
| "scalar_String L (TimestampValue t) = gl_FormatTime L t"
| "scalar_String L (DurationValue d) = gl_FormatDuration L d"
| "scalar_String L _ = bs ''<unknown>''"

fun appendJSONLike :: "go_lib \<Rightarrow> Value \<Rightarrow> bytes" where
  "appendJSONLike L NullValue = bs ''null''"
| "appendJSONLike L (StringValue s) = gl_Quote L s"
| "appendJSONLike L (TimestampValue t) = gl_Quote L (scalar_String L (TimestampValue t))"
| "appendJSONLike L (DurationValue d) = gl_Quote L (scalar_String L (DurationValue d))"
| "appendJSONLike L (ArrayValue xs) =
     bs ''['' @ strings_Join (bs '','') (map (appendJSONLike L) xs) @ bs '']''"
| "appendJSONLike L (ObjectValue kvs) =
     bs ''{'' @ strings_Join (bs '','') (map (\<lambda>(k, v). gl_Quote L k @ bs '':'' @ appendJSONLike L v) kvs) @ bs ''}''"
| "appendJSONLike L v = scalar_String L v"

fun Value_String :: "go_lib \<Rightarrow> Value \<Rightarrow> bytes" where
  "Value_String L (ArrayValue xs) = appendJSONLike L (ArrayValue xs)"
| "Value_String L (ObjectValue kvs) = appendJSONLike L (ObjectValue kvs)"
| "Value_String L v = scalar_String L v"

fun MemSize :: "Value \<Rightarrow> int" where
  "MemSize (StringValue s) = 40 + int (length s)"
| "MemSize (ArrayValue xs) =
     40 + 32 + int (length xs) * 40 + sum_list (map (\<lambda>e. let extra = MemSize e - 40 in if extra > 0 then extra else 0) xs)"
| "MemSize (ObjectValue kvs) =
     40 + 32 + sum_list (map (\<lambda>(k, e). 56 + int (length k) + MemSize e) kvs)"
| "MemSize v = 40"

subsection \<open>Truth and numbers\<close>

fun IsTruthy :: "Value \<Rightarrow> bool" where
  "IsTruthy NullValue \<longleftrightarrow> False"
| "IsTruthy (BoolValue b) \<longleftrightarrow> b"
| "IsTruthy (IntValue n) \<longleftrightarrow> n \<noteq> 0"
| "IsTruthy (FloatValue f) \<longleftrightarrow> \<not> float_eq f 0"
| "IsTruthy (StringValue s) \<longleftrightarrow> s \<noteq> []"
| "IsTruthy (TimestampValue t) \<longleftrightarrow> True"
| "IsTruthy (DurationValue d) \<longleftrightarrow> d \<noteq> 0"
| "IsTruthy (ArrayValue xs) \<longleftrightarrow> xs \<noteq> []"
| "IsTruthy (ObjectValue kvs) \<longleftrightarrow> kvs \<noteq> []"

fun ValueToFloat :: "go_lib \<Rightarrow> Value \<Rightarrow> u64 option" where
  "ValueToFloat L (IntValue n) = Some (float_of_int (sint n))"
| "ValueToFloat L (FloatValue f) = Some f"
| "ValueToFloat L (StringValue s) = gl_ParseFloat L s"
| "ValueToFloat L (BoolValue b) = Some (if b then float_of_int 1 else 0)"
| "ValueToFloat L _ = None"

fun isNumeric :: "Value \<Rightarrow> bool" where
  "isNumeric (IntValue n) \<longleftrightarrow> True"
| "isNumeric (FloatValue f) \<longleftrightarrow> True"
| "isNumeric _ \<longleftrightarrow> False"

fun toFloat64ForCompare :: "Value \<Rightarrow> u64" where
  "toFloat64ForCompare (IntValue n) = float_of_int (sint n)"
| "toFloat64ForCompare (FloatValue f) = f"
| "toFloat64ForCompare _ = 0"

fun valueToInt64 :: "go_lib \<Rightarrow> Value \<Rightarrow> u64 option" where
  "valueToInt64 L (IntValue n) = Some n"
| "valueToInt64 L (FloatValue f) =
     (let i = int64_of_float L f in if float_eq (float_of_int (sint i)) f then Some i else None)"
| "valueToInt64 L _ = None"

text \<open>\<^verbatim>\<open>t.Add(d)\<close> on nanoseconds wraps when it is stored back; \<^verbatim>\<open>t.Sub(u)\<close> saturates.\<close>

definition time_Sub :: "u64 \<Rightarrow> u64 \<Rightarrow> u64" where
  "time_Sub t u = word_of_int (max (- (2 ^ 63)) (min (2 ^ 63 - 1) (sint t - sint u)))"

definition float_cmp :: "u64 \<Rightarrow> u64 \<Rightarrow> int" where
  "float_cmp a b = (if float_lt a b then - 1 else if float_lt b a then 1 else 0)"

definition int_cmp :: "u64 \<Rightarrow> u64 \<Rightarrow> int" where
  "int_cmp a b = (if sint a < sint b then - 1 else if sint b < sint a then 1 else 0)"

definition boolToInt :: "bool \<Rightarrow> int" where "boolToInt b = (if b then 1 else 0)"

end
