(* ===== verification/Value_Ops.thy ===== *)
theory Value_Ops
  imports Event_Value
begin

text \<open>
  Equality, ordering and arithmetic on values. \<open>valuesEqual\<close>, \<open>CompareValues\<close> and the
  coercing arithmetic are the older rules of \<^verbatim>\<open>src/pkg/vm/vm.go\<close>, which promote strings that look
  like numbers; \<open>strictCompare\<close> and the strict arithmetic of \<^verbatim>\<open>src/pkg/vm/lynxflow_ops.go\<close> are the
  rules of the query language: no coercion except between the two number types, null for a null
  operand, null and a warning for operands of incompatible types.
\<close>

subsection \<open>Coercing equality and order\<close>

fun valuesEqual :: "go_lib \<Rightarrow> Value \<Rightarrow> Value \<Rightarrow> bool"
and arraysEqual :: "go_lib \<Rightarrow> Value list \<Rightarrow> Value list \<Rightarrow> bool"
and entriesEqual :: "go_lib \<Rightarrow> (gostring \<times> Value) list \<Rightarrow> (gostring \<times> Value) list \<Rightarrow> bool" where
  "valuesEqual L a b =
     (if IsNull a \<and> IsNull b then True
      else if IsNull a \<or> IsNull b then False
      else (case (a, b) of
              (StringValue s, StringValue t) \<Rightarrow> s = t
            | (IntValue m, IntValue n) \<Rightarrow> m = n
            | (FloatValue f, FloatValue g) \<Rightarrow> float_eq f g
            | (BoolValue p, BoolValue q) \<Rightarrow> p = q
            | (TimestampValue t, TimestampValue u) \<Rightarrow> t = u
            | (DurationValue d, DurationValue e) \<Rightarrow> d = e
            | (ArrayValue xs, ArrayValue ys) \<Rightarrow> arraysEqual L xs ys
            | (ObjectValue kvs, ObjectValue lws) \<Rightarrow> length kvs = length lws \<and> entriesEqual L kvs lws
            | _ \<Rightarrow>
                (case (ValueToFloat L a, ValueToFloat L b) of
                   (Some af, Some bf) \<Rightarrow> float_eq af bf
                 | _ \<Rightarrow> Value_String L a = Value_String L b)))"
| "arraysEqual L [] [] = True"
| "arraysEqual L (x # xs) (y # ys) = (valuesEqual L x y \<and> arraysEqual L xs ys)"
| "arraysEqual L _ _ = False"
| "entriesEqual L [] lws = True"
| "entriesEqual L ((k, v) # kvs) lws =
     ((case obj_get lws k of None \<Rightarrow> False | Some w \<Rightarrow> valuesEqual L v w) \<and> entriesEqual L kvs lws)"

definition objectsEqual :: "go_lib \<Rightarrow> (gostring \<times> Value) list \<Rightarrow> (gostring \<times> Value) list \<Rightarrow> bool" where
  "objectsEqual L a b \<longleftrightarrow> length a = length b \<and> entriesEqual L a b"

fun CompareValues :: "go_lib \<Rightarrow> Value \<Rightarrow> Value \<Rightarrow> int"
and compareArrays :: "go_lib \<Rightarrow> Value list \<Rightarrow> Value list \<Rightarrow> int" where
  "CompareValues L a b =
     (if IsNull a \<and> IsNull b then 0
      else if IsNull a then - 1
      else if IsNull b then 1
      else (case (a, b) of
              (IntValue m, IntValue n) \<Rightarrow> int_cmp m n
            | (FloatValue f, FloatValue g) \<Rightarrow> float_cmp f g
            | (StringValue s, StringValue t) \<Rightarrow>
                (case (gl_ParseFloat L s, gl_ParseFloat L t) of
                   (Some f, Some g) \<Rightarrow> float_cmp f g
                 | _ \<Rightarrow> strings_Compare s t)
            | (BoolValue p, BoolValue q) \<Rightarrow> boolToInt p - boolToInt q
            | (TimestampValue t, TimestampValue u) \<Rightarrow> int_cmp t u
            | (DurationValue d, DurationValue e) \<Rightarrow> int_cmp d e
            | (ArrayValue xs, ArrayValue ys) \<Rightarrow> compareArrays L xs ys
            | (ObjectValue kvs, ObjectValue lws) \<Rightarrow>
                if objectsEqual L kvs lws then 0
                else strings_Compare (Value_String L a) (Value_String L b)
            | _ \<Rightarrow>
                (case (ValueToFloat L a, ValueToFloat L b) of
                   (Some f, Some g) \<Rightarrow> float_cmp f g
                 | _ \<Rightarrow> strings_Compare (Value_String L a) (Value_String L b))))"
| "compareArrays L [] [] = 0"
| "compareArrays L [] (y # ys) = - 1"
| "compareArrays L (x # xs) [] = 1"
| "compareArrays L (x # xs) (y # ys) =
     (let c = CompareValues L x y in if c \<noteq> 0 then c else compareArrays L xs ys)"

declare valuesEqual.simps [simp del]
declare CompareValues.simps [simp del]

subsection \<open>Coercing arithmetic\<close>

definition float_pair :: "go_lib \<Rightarrow> Value \<Rightarrow> Value \<Rightarrow> (u64 \<times> u64) option" where
  "float_pair L a b =
     (case (ValueToFloat L a, ValueToFloat L b) of (Some f, Some g) \<Rightarrow> Some (f, g) | _ \<Rightarrow> None)"

definition addValues :: "go_lib \<Rightarrow> Value \<Rightarrow> Value \<Rightarrow> Value" where
  "addValues L a b =
     (case (a, b) of
          (StringValue s, StringValue t) \<Rightarrow> StringValue (s @ t)
        | (IntValue m, IntValue n) \<Rightarrow> IntValue (m + n)
        | (FloatValue f, FloatValue g) \<Rightarrow> FloatValue (float_add f g)
        | (TimestampValue t, DurationValue d) \<Rightarrow> TimestampValue (t + d)
        | (DurationValue d, TimestampValue t) \<Rightarrow> TimestampValue (t + d)
        | (DurationValue d, DurationValue e) \<Rightarrow> DurationValue (d + e)
        | _ \<Rightarrow> (case float_pair L a b of Some (f, g) \<Rightarrow> FloatValue (float_add f g) | None \<Rightarrow> NullValue))"

definition subValues :: "go_lib \<Rightarrow> Value \<Rightarrow> Value \<Rightarrow> Value" where
  "subValues L a b =
     (case (a, b) of
          (IntValue m, IntValue n) \<Rightarrow> IntValue (m - n)
        | (FloatValue f, FloatValue g) \<Rightarrow> FloatValue (float_sub f g)
        | (TimestampValue t, TimestampValue u) \<Rightarrow> DurationValue (time_Sub t u)
        | (TimestampValue t, DurationValue d) \<Rightarrow> TimestampValue (t - d)
        | (DurationValue d, DurationValue e) \<Rightarrow> DurationValue (d - e)
        | _ \<Rightarrow> (case float_pair L a b of Some (f, g) \<Rightarrow> FloatValue (float_sub f g) | None \<Rightarrow> NullValue))"

text \<open>The product and the quotient of a duration: \<^verbatim>\<open>time.Duration(float64(d) * f)\<close>.\<close>

definition duration_mul :: "go_lib \<Rightarrow> u64 \<Rightarrow> u64 \<Rightarrow> Value" where
  "duration_mul L f g = DurationValue (int64_of_float L (float_mul f g))"

definition mulValues :: "go_lib \<Rightarrow> Value \<Rightarrow> Value \<Rightarrow> Value" where
  "mulValues L a b =
     (case (a, b) of
          (IntValue m, IntValue n) \<Rightarrow> IntValue (m * n)
        | (FloatValue f, FloatValue g) \<Rightarrow> FloatValue (float_mul f g)
        | (DurationValue d, _) \<Rightarrow> (case ValueToFloat L b of Some g \<Rightarrow> duration_mul L (float_of_int (sint d)) g | None \<Rightarrow> NullValue)
        | (_, DurationValue e) \<Rightarrow> (case ValueToFloat L a of Some f \<Rightarrow> duration_mul L f (float_of_int (sint e)) | None \<Rightarrow> NullValue)
        | _ \<Rightarrow> (case float_pair L a b of Some (f, g) \<Rightarrow> FloatValue (float_mul f g) | None \<Rightarrow> NullValue))"

definition divValues :: "go_lib \<Rightarrow> Value \<Rightarrow> Value \<Rightarrow> Value" where
  "divValues L a b =
     (case (a, b) of
          (IntValue m, IntValue n) \<Rightarrow> (if n = 0 then NullValue else IntValue (int64_quot m n))
        | (DurationValue d, DurationValue e) \<Rightarrow> (if e = 0 then NullValue else FloatValue (float_div (float_of_int (sint d)) (float_of_int (sint e))))
        | (DurationValue d, _) \<Rightarrow> (case ValueToFloat L b of Some g \<Rightarrow> if float_eq g 0 then NullValue else DurationValue (int64_of_float L (float_div (float_of_int (sint d)) g)) | None \<Rightarrow> NullValue)
        | _ \<Rightarrow> (case float_pair L a b of Some (f, g) \<Rightarrow> if float_eq g 0 then NullValue else FloatValue (float_div f g) | None \<Rightarrow> NullValue))"

definition modValues :: "Value \<Rightarrow> Value \<Rightarrow> Value" where
  "modValues a b =
     (case (a, b) of
          (IntValue m, IntValue n) \<Rightarrow> (if n = 0 then NullValue else IntValue (int64_rem m n))
        | (DurationValue d, DurationValue e) \<Rightarrow> (if e = 0 then NullValue else DurationValue (int64_rem d e))
        | _ \<Rightarrow> NullValue)"

subsection \<open>Warnings\<close>

datatype warningCategory =
    warnIncompatibleTypes | warnNotOnNonBool | warnModOnNonInt | warnStringArithmetic | warnTypeError

text \<open>A nil counter set counts nothing.\<close>

type_synonym warnings = "(warningCategory \<Rightarrow> u64) option"

definition Increment :: "warningCategory \<Rightarrow> warnings \<Rightarrow> warnings" where
  "Increment c w = map_option (\<lambda>f. f(c := f c + 1)) w"

type_synonym 'a warned = "'a \<times> warnings"

subsection \<open>Strict comparison\<close>

text \<open>The result is \<open>None\<close> where the code returns \<^verbatim>\<open>isNull\<close>.\<close>

definition strictCompare :: "go_lib \<Rightarrow> Value \<Rightarrow> Value \<Rightarrow> warnings \<Rightarrow> int option warned" where
  "strictCompare L a b w =
     (if IsNull a \<or> IsNull b then (None, w)
      else (case (a, b) of
              (StringValue s, StringValue t) \<Rightarrow> (Some (strings_Compare s t), w)
            | (IntValue m, IntValue n) \<Rightarrow> (Some (int_cmp m n), w)
            | (FloatValue f, FloatValue g) \<Rightarrow> (Some (float_cmp f g), w)
            | (BoolValue p, BoolValue q) \<Rightarrow> (Some (boolToInt p - boolToInt q), w)
            | (TimestampValue t, TimestampValue u) \<Rightarrow> (Some (int_cmp t u), w)
            | (DurationValue d, DurationValue e) \<Rightarrow> (Some (int_cmp d e), w)
            | (ArrayValue xs, ArrayValue ys) \<Rightarrow> (Some (compareArrays L xs ys), w)
            | (ObjectValue kvs, ObjectValue lws) \<Rightarrow>
                (Some (if objectsEqual L kvs lws then 0
                       else strings_Compare (Value_String L a) (Value_String L b)), w)
            | (IntValue m, FloatValue g) \<Rightarrow> (Some (float_cmp (float_of_int (sint m)) g), w)
            | (FloatValue f, IntValue n) \<Rightarrow> (Some (float_cmp f (float_of_int (sint n))), w)
            | _ \<Rightarrow> (None, Increment warnIncompatibleTypes w)))"

definition strictEq :: "go_lib \<Rightarrow> Value \<Rightarrow> Value \<Rightarrow> warnings \<Rightarrow> bool option warned" where
  "strictEq L a b w = apfst (map_option (\<lambda>c. c = 0)) (strictCompare L a b w)"

text \<open>The six comparison opcodes: null or the bool of the test.\<close>

definition bool_or_null :: "bool option \<Rightarrow> Value" where
  "bool_or_null r = (case r of None \<Rightarrow> NullValue | Some b \<Rightarrow> BoolValue b)"

definition compare_with :: "go_lib \<Rightarrow> (int \<Rightarrow> bool) \<Rightarrow> Value \<Rightarrow> Value \<Rightarrow> warnings \<Rightarrow> Value warned" where
  "compare_with L test a b w = apfst (bool_or_null \<circ> map_option test) (strictCompare L a b w)"

subsection \<open>Strict arithmetic\<close>

definition warn_null :: "warningCategory \<Rightarrow> warnings \<Rightarrow> Value warned" where
  "warn_null c w = (NullValue, Increment c w)"

fun is_StringValue :: "Value \<Rightarrow> bool" where
  "is_StringValue (StringValue s) \<longleftrightarrow> True"
| "is_StringValue _ \<longleftrightarrow> False"

definition addStrict :: "Value \<Rightarrow> Value \<Rightarrow> warnings \<Rightarrow> Value warned" where
  "addStrict a b w =
     (if IsNull a \<or> IsNull b then (NullValue, w)
      else (case (a, b) of
              (StringValue s, StringValue t) \<Rightarrow> (StringValue (s @ t), w)
            | (IntValue m, IntValue n) \<Rightarrow> (IntValue (m + n), w)
            | (TimestampValue t, DurationValue d) \<Rightarrow> (TimestampValue (t + d), w)
            | (DurationValue d, TimestampValue t) \<Rightarrow> (TimestampValue (t + d), w)
            | (DurationValue d, DurationValue e) \<Rightarrow> (DurationValue (d + e), w)
            | _ \<Rightarrow>
                if is_StringValue a \<or> is_StringValue b then warn_null warnStringArithmetic w
                else if isNumeric a \<and> isNumeric b
                then (FloatValue (float_add (toFloat64ForCompare a) (toFloat64ForCompare b)), w)
                else warn_null warnIncompatibleTypes w))"

definition subStrict :: "Value \<Rightarrow> Value \<Rightarrow> warnings \<Rightarrow> Value warned" where
  "subStrict a b w =
     (if IsNull a \<or> IsNull b then (NullValue, w)
      else (case (a, b) of
              (IntValue m, IntValue n) \<Rightarrow> (IntValue (m - n), w)
            | (TimestampValue t, TimestampValue u) \<Rightarrow> (DurationValue (time_Sub t u), w)
            | (TimestampValue t, DurationValue d) \<Rightarrow> (TimestampValue (t - d), w)
            | (DurationValue d, DurationValue e) \<Rightarrow> (DurationValue (d - e), w)
            | _ \<Rightarrow>
                if isNumeric a \<and> isNumeric b
                then (FloatValue (float_sub (toFloat64ForCompare a) (toFloat64ForCompare b)), w)
                else warn_null warnIncompatibleTypes w))"

definition mulStrict :: "go_lib \<Rightarrow> Value \<Rightarrow> Value \<Rightarrow> warnings \<Rightarrow> Value warned" where
  "mulStrict L a b w =
     (if IsNull a \<or> IsNull b then (NullValue, w)
      else (case (a, b) of
              (IntValue m, IntValue n) \<Rightarrow> (IntValue (m * n), w)
            | (DurationValue d, IntValue n) \<Rightarrow> (duration_mul L (float_of_int (sint d)) (float_of_int (sint n)), w)
            | (DurationValue d, FloatValue g) \<Rightarrow> (duration_mul L (float_of_int (sint d)) g, w)
            | (IntValue m, DurationValue e) \<Rightarrow> (duration_mul L (float_of_int (sint m)) (float_of_int (sint e)), w)
            | (FloatValue f, DurationValue e) \<Rightarrow> (duration_mul L f (float_of_int (sint e)), w)
            | _ \<Rightarrow>
                if isNumeric a \<and> isNumeric b
                then (FloatValue (float_mul (toFloat64ForCompare a) (toFloat64ForCompare b)), w)
                else warn_null warnIncompatibleTypes w))"

definition divStrict :: "go_lib \<Rightarrow> Value \<Rightarrow> Value \<Rightarrow> warnings \<Rightarrow> Value warned" where
  "divStrict L a b w =
     (if IsNull a \<or> IsNull b then (NullValue, w)
      else (case (a, b) of
              (IntValue m, IntValue n) \<Rightarrow> (if n = 0 then NullValue else IntValue (int64_quot m n), w)
            | (DurationValue d, DurationValue e) \<Rightarrow>
                (if e = 0 then NullValue
                 else FloatValue (float_div (float_of_int (sint d)) (float_of_int (sint e))), w)
            | _ \<Rightarrow>
                if isNumeric a \<and> isNumeric b then
                  (if float_eq (toFloat64ForCompare b) 0 then NullValue
                   else FloatValue (float_div (toFloat64ForCompare a) (toFloat64ForCompare b)), w)
                else (case a of
                        DurationValue d \<Rightarrow>
                          if isNumeric b then
                            (if float_eq (toFloat64ForCompare b) 0 then NullValue
                             else DurationValue
                               (int64_of_float L (float_div (float_of_int (sint d)) (toFloat64ForCompare b))), w)
                          else warn_null warnIncompatibleTypes w
                      | _ \<Rightarrow> warn_null warnIncompatibleTypes w)))"

definition modStrict :: "Value \<Rightarrow> Value \<Rightarrow> warnings \<Rightarrow> Value warned" where
  "modStrict a b w =
     (if IsNull a \<or> IsNull b then (NullValue, w)
      else (case (a, b) of
              (IntValue m, IntValue n) \<Rightarrow> (if n = 0 then NullValue else IntValue (int64_rem m n), w)
            | (DurationValue d, DurationValue e) \<Rightarrow> (if e = 0 then NullValue else DurationValue (int64_rem d e), w)
            | _ \<Rightarrow> warn_null warnModOnNonInt w))"

fun negStrict :: "Value \<Rightarrow> warnings \<Rightarrow> Value warned" where
  "negStrict NullValue w = (NullValue, w)"
| "negStrict (IntValue n) w = (IntValue (- n), w)"
| "negStrict (FloatValue f) w = (FloatValue (float_neg f), w)"
| "negStrict (DurationValue d) w = (DurationValue (- d), w)"
| "negStrict v w = warn_null warnIncompatibleTypes w"

text \<open>Membership in a list, with null for a comparison that has no answer.\<close>

fun in_items :: "go_lib \<Rightarrow> Value \<Rightarrow> Value list \<Rightarrow> bool \<Rightarrow> warnings \<Rightarrow> Value warned" where
  "in_items L val [] hasNull w = (if hasNull then NullValue else BoolValue False, w)"
| "in_items L val (item # items) hasNull w =
     (case strictEq L val item w of
        (None, w') \<Rightarrow> in_items L val items True w'
      | (Some eq, w') \<Rightarrow> if eq then (BoolValue True, w') else in_items L val items hasNull w')"

definition inStrict :: "go_lib \<Rightarrow> Value \<Rightarrow> Value list \<Rightarrow> warnings \<Rightarrow> Value warned" where
  "inStrict L val items w = (if IsNull val then (NullValue, w) else in_items L val items False w)"

end
