(* ===== verification/Value_Functions.thy ===== *)
theory Value_Functions
  imports Value_Ops
begin

text \<open>
  The functions behind the opcodes that work on values only: conversions, type tests, extrema,
  bit operations, bins, arrays and objects (\<^verbatim>\<open>src/pkg/vm/vm.go\<close> and \<^verbatim>\<open>src/pkg/vm/lynxflow_ops.go\<close>).
\<close>

subsection \<open>Conversions\<close>

fun toIntValue :: "go_lib \<Rightarrow> Value \<Rightarrow> Value" where
  "toIntValue L (IntValue n) = IntValue n"
| "toIntValue L (FloatValue f) = IntValue (int64_of_float L f)"
| "toIntValue L (StringValue s) =
     (case ParseInt s of
        Some n \<Rightarrow> IntValue (word_of_int n)
      | None \<Rightarrow> (case gl_ParseFloat L s of Some f \<Rightarrow> IntValue (int64_of_float L f) | None \<Rightarrow> NullValue))"
| "toIntValue L (BoolValue b) = IntValue (if b then 1 else 0)"
| "toIntValue L v = NullValue"

fun toFloatValue :: "go_lib \<Rightarrow> Value \<Rightarrow> Value" where
  "toFloatValue L (FloatValue f) = FloatValue f"
| "toFloatValue L (IntValue n) = FloatValue (float_of_int (sint n))"
| "toFloatValue L (StringValue s) = (case gl_ParseFloat L s of Some f \<Rightarrow> FloatValue f | None \<Rightarrow> NullValue)"
| "toFloatValue L (BoolValue b) = FloatValue (if b then float_of_int 1 else 0)"
| "toFloatValue L v = NullValue"

fun toBoolValue :: "go_lib \<Rightarrow> Value \<Rightarrow> Value" where
  "toBoolValue L (BoolValue b) = BoolValue b"
| "toBoolValue L (IntValue n) = BoolValue (n \<noteq> 0)"
| "toBoolValue L (FloatValue f) = BoolValue (\<not> float_eq f 0)"
| "toBoolValue L (StringValue s) =
     (let t = gl_ToLower L (gl_TrimSpace L s) in
      if t \<in> {bs ''true'', bs ''t'', bs ''1'', bs ''yes'', bs ''y''} then BoolValue True
      else if t \<in> {bs ''false'', bs ''f'', bs ''0'', bs ''no'', bs ''n'', []} then BoolValue False
      else NullValue)"
| "toBoolValue L v = NullValue"

definition toStringValue :: "go_lib \<Rightarrow> Value \<Rightarrow> Value" where
  "toStringValue L v = (if IsNull v then v else StringValue (Value_String L v))"

text \<open>Lower case, with the shortcut for strings that are lower case already.\<close>

definition isASCIILower :: "bytes \<Rightarrow> bool" where
  "isASCIILower s \<longleftrightarrow> (\<forall>c \<in> set s. \<not> (65 \<le> c \<and> c \<le> 90) \<and> \<not> c > 127)"

definition lowerValue :: "go_lib \<Rightarrow> Value \<Rightarrow> Value" where
  "lowerValue L v =
     (if IsNull v then v
      else let s = Value_String L v in StringValue (if isASCIILower s then s else gl_ToLower L s))"

definition upperValue :: "go_lib \<Rightarrow> Value \<Rightarrow> Value" where
  "upperValue L v = (if IsNull v then v else StringValue (gl_ToUpper L (Value_String L v)))"

subsection \<open>Type tests\<close>

definition float_test :: "go_lib \<Rightarrow> (u64 \<Rightarrow> bool) \<Rightarrow> Value \<Rightarrow> Value" where
  "float_test L p v = (case ValueToFloat L v of None \<Rightarrow> NullValue | Some f \<Rightarrow> BoolValue (p f))"

definition isFiniteValue :: "go_lib \<Rightarrow> Value \<Rightarrow> Value" where
  "isFiniteValue L v = float_test L (\<lambda>f. \<not> is_NaN f \<and> \<not> is_Inf f) v"

definition isNaNValue :: "go_lib \<Rightarrow> Value \<Rightarrow> Value" where
  "isNaNValue L v = float_test L is_NaN v"

definition isNumTest :: "go_lib \<Rightarrow> Value \<Rightarrow> bool" where
  "isNumTest L v \<longleftrightarrow> \<not> IsNull v \<and> (isNumeric v \<or> gl_ParseFloat L (Value_String L v) \<noteq> None)"

fun isIntTest :: "go_lib \<Rightarrow> Value \<Rightarrow> bool" where
  "isIntTest L NullValue \<longleftrightarrow> False"
| "isIntTest L (IntValue n) \<longleftrightarrow> True"
| "isIntTest L v \<longleftrightarrow> ParseInt (Value_String L v) \<noteq> None"

fun lenValue :: "go_lib \<Rightarrow> Value \<Rightarrow> Value" where
  "lenValue L (StringValue s) = IntValue (word_of_nat (length (gl_runes L s)))"
| "lenValue L (ArrayValue xs) = IntValue (word_of_nat (length xs))"
| "lenValue L v = NullValue"

subsection \<open>Three-valued logic\<close>

fun not3VL :: "Value \<Rightarrow> warnings \<Rightarrow> Value warned" where
  "not3VL NullValue w = (NullValue, w)"
| "not3VL (BoolValue b) w = (BoolValue (\<not> b), w)"
| "not3VL v w = warn_null warnNotOnNonBool w"

definition and3VLNull :: "Value \<Rightarrow> Value" where
  "and3VLNull right = (if right = BoolValue False then BoolValue False else NullValue)"

definition or3VLNull :: "Value \<Rightarrow> Value" where
  "or3VLNull right = (if right = BoolValue True then BoolValue True else NullValue)"

subsection \<open>Extrema and selection\<close>

fun scalar_extrema_loop :: "go_lib \<Rightarrow> bool \<Rightarrow> Value \<Rightarrow> Value list \<Rightarrow> warnings \<Rightarrow> Value warned" where
  "scalar_extrema_loop L greatest result [] w = (result, w)"
| "scalar_extrema_loop L greatest result (v # vs) w =
     (case strictCompare L v result w of
        (None, w') \<Rightarrow> (NullValue, w')
      | (Some c, w') \<Rightarrow>
          scalar_extrema_loop L greatest (if greatest \<and> c > 0 \<or> \<not> greatest \<and> c < 0 then v else result) vs w')"

fun scalarExtremaValue :: "go_lib \<Rightarrow> bool \<Rightarrow> Value list \<Rightarrow> warnings \<Rightarrow> Value warned" where
  "scalarExtremaValue L greatest [] w = (NullValue, w)"
| "scalarExtremaValue L greatest (v # vs) w =
     (if IsNull v then (NullValue, w) else scalar_extrema_loop L greatest v vs w)"

fun maxMinValue :: "go_lib \<Rightarrow> bool \<Rightarrow> Value list \<Rightarrow> Value option" where
  "maxMinValue L isMax [] = None"
| "maxMinValue L isMax (v # vs) =
     Some (foldl (\<lambda>result value. let c = CompareValues L value result in
                    if isMax \<and> c > 0 \<or> \<not> isMax \<and> c < 0 then value else result) v vs)"

definition coalesceValue :: "Value list \<Rightarrow> Value" where
  "coalesceValue vs = (case find (\<lambda>v. \<not> IsNull v) vs of Some v \<Rightarrow> v | None \<Rightarrow> NullValue)"

fun remapValue :: "go_lib \<Rightarrow> Value list \<Rightarrow> Value" where
  "remapValue L (x # ArrayValue from # ArrayValue to # rest) =
     (if length rest > 1 \<or> length from \<noteq> length to then NullValue
      else (case find (\<lambda>(c, t). valuesEqual L x c) (zip from to) of
              Some (c, t) \<Rightarrow> t
            | None \<Rightarrow> (case rest of [d] \<Rightarrow> d | _ \<Rightarrow> NullValue)))"
| "remapValue L vs = NullValue"

subsection \<open>Bit operations\<close>

datatype bitOp = bitOpAnd | bitOpOr | bitOpXor

fun bitBinaryValue :: "bitOp \<Rightarrow> Value \<Rightarrow> Value \<Rightarrow> Value" where
  "bitBinaryValue op (IntValue a) (IntValue b) =
     IntValue (case op of bitOpAnd \<Rightarrow> a AND b | bitOpOr \<Rightarrow> a OR b | bitOpXor \<Rightarrow> a XOR b)"
| "bitBinaryValue op a b = NullValue"

fun bitShiftValue :: "bool \<Rightarrow> Value \<Rightarrow> Value \<Rightarrow> Value" where
  "bitShiftValue left (IntValue a) (IntValue n) =
     (if sint n < 0 \<or> sint n > 63 then NullValue
      else if left then IntValue (push_bit (unat n) a) else IntValue (signed_drop_bit (unat n) a))"
| "bitShiftValue left a b = NullValue"

subsection \<open>Bins\<close>

text \<open>The greatest multiple of the width that is not above the value, by truncating division.\<close>

definition floor_bin :: "u64 \<Rightarrow> u64 \<Rightarrow> u64" where
  "floor_bin x width =
     (let q = int64_quot x width in
      (if int64_rem x width \<noteq> 0 \<and> sint x < 0 then q - 1 else q) * width)"

definition float_bin :: "u64 \<Rightarrow> u64 \<Rightarrow> u64" where
  "float_bin x width = float_mul (float_floor (float_div x width)) width"

definition is_finite :: "u64 \<Rightarrow> bool" where "is_finite f \<longleftrightarrow> \<not> is_NaN f \<and> \<not> is_Inf f"

definition binNumberValue :: "Value \<Rightarrow> Value \<Rightarrow> Value" where
  "binNumberValue x width =
     (case (x, width) of
        (IntValue m, IntValue n) \<Rightarrow> if sint n \<le> 0 then NullValue else IntValue (floor_bin m n)
      | _ \<Rightarrow>
          let f = toFloat64ForCompare x; g = toFloat64ForCompare width in
          if \<not> isNumeric x \<or> \<not> isNumeric width \<or> float_le g 0 \<or> \<not> is_finite g \<or> \<not> is_finite f then NullValue
          else FloatValue (float_bin f g))"

definition binNumberValueWithOrigin :: "Value \<Rightarrow> Value \<Rightarrow> Value \<Rightarrow> Value" where
  "binNumberValueWithOrigin x width origin =
     (case (x, width, origin) of
        (IntValue m, IntValue n, IntValue k) \<Rightarrow>
          if sint n \<le> 0 then NullValue else IntValue (k + floor_bin (m - k) n)
      | _ \<Rightarrow>
          let f = toFloat64ForCompare x; g = toFloat64ForCompare width; h = toFloat64ForCompare origin in
          if \<not> isNumeric x \<or> \<not> isNumeric width \<or> float_le g 0 \<or> \<not> is_finite g \<or> \<not> is_finite f
             \<or> \<not> isNumeric origin \<or> \<not> is_finite h then NullValue
          else FloatValue (float_add h (float_bin (float_sub f h) g)))"

fun spanNanosFromValue :: "Value \<Rightarrow> u64 option" where
  "spanNanosFromValue (DurationValue d) = (if sint d > 0 then Some d else None)"
| "spanNanosFromValue (IntValue n) = (if sint n > 0 then Some n else None)"
| "spanNanosFromValue v = None"

text \<open>\<open>parse\<close> is \<open>tryParseTimestampVM\<close>, the layouts of the time package tried in turn.\<close>

fun timestampNanosFromValue :: "(bytes \<Rightarrow> u64 option) \<Rightarrow> Value \<Rightarrow> u64 option" where
  "timestampNanosFromValue parse (TimestampValue t) = Some t"
| "timestampNanosFromValue parse (IntValue n) = Some n"
| "timestampNanosFromValue parse (StringValue s) = parse s"
| "timestampNanosFromValue parse (DurationValue d) = Some d"
| "timestampNanosFromValue parse v = None"

definition binTimestampValue :: "(bytes \<Rightarrow> u64 option) \<Rightarrow> Value \<Rightarrow> Value \<Rightarrow> Value" where
  "binTimestampValue parse ts dur =
     (case (spanNanosFromValue dur, timestampNanosFromValue parse ts) of
        (Some sp, Some t) \<Rightarrow> TimestampValue (int64_quot t sp * sp)
      | _ \<Rightarrow> NullValue)"

definition binTimestampValueWithOrigin :: "(bytes \<Rightarrow> u64 option) \<Rightarrow> Value \<Rightarrow> Value \<Rightarrow> Value \<Rightarrow> Value" where
  "binTimestampValueWithOrigin parse ts dur origin =
     (case (spanNanosFromValue dur, timestampNanosFromValue parse ts, timestampNanosFromValue parse origin) of
        (Some sp, Some t, Some k) \<Rightarrow> TimestampValue (k + floor_bin (t - k) sp)
      | _ \<Rightarrow> NullValue)"

definition binValue :: "(bytes \<Rightarrow> u64 option) \<Rightarrow> Value \<Rightarrow> Value \<Rightarrow> Value" where
  "binValue parse x width =
     (if IsNull x \<or> IsNull width then NullValue
      else if isNumeric x \<and> isNumeric width then binNumberValue x width
      else binTimestampValue parse x width)"

definition binValueWithOrigin :: "(bytes \<Rightarrow> u64 option) \<Rightarrow> Value \<Rightarrow> Value \<Rightarrow> Value \<Rightarrow> Value" where
  "binValueWithOrigin parse x width origin =
     (if IsNull x \<or> IsNull width then NullValue
      else if IsNull origin then binValue parse x width
      else if isNumeric x \<and> isNumeric width \<and> isNumeric origin then binNumberValueWithOrigin x width origin
      else binTimestampValueWithOrigin parse x width origin)"

subsection \<open>Access\<close>

fun indexValue :: "go_lib \<Rightarrow> Value \<Rightarrow> Value \<Rightarrow> Value" where
  "indexValue L (ArrayValue xs) idx =
     (case valueToInt64 L idx of
        None \<Rightarrow> NullValue
      | Some i \<Rightarrow>
          let n = int (length xs); k = (if sint i < 0 then sint i + n else sint i) in
          if k < 0 \<or> k \<ge> n then NullValue else xs ! nat k)"
| "indexValue L (ObjectValue kvs) idx =
     (if IsNull idx then NullValue
      else (case obj_get kvs (Value_String L idx) of Some v \<Rightarrow> v | None \<Rightarrow> NullValue))"
| "indexValue L v idx = NullValue"

fun memberValue :: "Value \<Rightarrow> gostring \<Rightarrow> Value" where
  "memberValue (ObjectValue kvs) key = (case obj_get kvs key of Some v \<Rightarrow> v | None \<Rightarrow> NullValue)"
| "memberValue v key = NullValue"

fun index_byte :: "u8 \<Rightarrow> bytes \<Rightarrow> nat option" where
  "index_byte c [] = None"
| "index_byte c (x # xs) = (if x = c then Some 0 else map_option Suc (index_byte c xs))"

text \<open>\<^verbatim>\<open>strings.Split(s, ".")\<close> and the walk of a dotted path.\<close>

fun split_dot :: "bytes \<Rightarrow> bytes list" where
  "split_dot [] = [[]]"
| "split_dot (c # cs) =
     (if c = 46 then [] # split_dot cs
      else (case split_dot cs of p # ps \<Rightarrow> (c # p) # ps | [] \<Rightarrow> [[c]]))"

definition join_dot :: "bytes list \<Rightarrow> bytes" where
  "join_dot parts = strings_Join [46] parts"

type_synonym row = "gostring \<rightharpoonup> Value"

fun walk_path :: "Value \<Rightarrow> gostring list \<Rightarrow> Value" where
  "walk_path v [] = v"
| "walk_path v (part # parts) =
     (case v of
        ObjectValue kvs \<Rightarrow>
          (case obj_get kvs part of None \<Rightarrow> NullValue | Some u \<Rightarrow> walk_path u parts)
      | _ \<Rightarrow> NullValue)"

definition execLoadPath :: "row \<Rightarrow> gostring \<Rightarrow> Value" where
  "execLoadPath row path =
     (case row path of
        Some v \<Rightarrow> v
      | None \<Rightarrow>
          (case index_byte 46 path of
             None \<Rightarrow> NullValue
           | Some dot \<Rightarrow>
               if dot = 0 then NullValue
               else (case row (take dot path) of
                       None \<Rightarrow> NullValue
                     | Some rootVal \<Rightarrow> if IsNull rootVal then NullValue else walk_path rootVal (split_dot (drop (Suc dot) path)))))"

subsection \<open>Slices\<close>

text \<open>The bounds of a slice: negative positions count from the end, both are clamped.\<close>

definition clamp_position :: "int \<Rightarrow> int \<Rightarrow> int" where
  "clamp_position n i = (let j = (if i < 0 then i + n else i) in if j < 0 then 0 else if j > n then n else j)"

definition slice_list :: "go_lib \<Rightarrow> 'a list \<Rightarrow> Value \<Rightarrow> Value \<Rightarrow> 'a list option" where
  "slice_list L xs start end =
     (let n = int (length xs) in
      case valueToInt64 L start of
        None \<Rightarrow> None
      | Some s \<Rightarrow>
          let si = clamp_position n (sint s) in
          (if IsNull end then Some (drop (nat si) xs)
           else (case valueToInt64 L end of
                   None \<Rightarrow> None
                 | Some e \<Rightarrow> Some (slice xs (nat si) (nat (clamp_position n (sint e)))))))"

fun sliceValue :: "go_lib \<Rightarrow> Value \<Rightarrow> Value \<Rightarrow> Value \<Rightarrow> Value" where
  "sliceValue L (ArrayValue xs) start end =
     (case slice_list L xs start end of Some ys \<Rightarrow> ArrayValue ys | None \<Rightarrow> NullValue)"
| "sliceValue L (StringValue s) start end =
     (case slice_list L (gl_runes L s) start end of Some rs \<Rightarrow> StringValue (concat rs) | None \<Rightarrow> NullValue)"
| "sliceValue L v start end = NullValue"

text \<open>\<open>None\<close> is the panic of a slice whose end has wrapped around.\<close>

definition substr0Based :: "go_lib \<Rightarrow> Value \<Rightarrow> Value \<Rightarrow> Value \<Rightarrow> Value option" where
  "substr0Based L str start len =
     (if IsNull str \<or> IsNull start then Some NullValue
      else let rs = gl_runes L (Value_String L str); n = int (length rs) in
        case valueToInt64 L start of
          None \<Rightarrow> Some NullValue
        | Some s \<Rightarrow>
            let si = max 0 (if sint s < 0 then sint s + n else sint s) in
            if si \<ge> n then Some (StringValue [])
            else if IsNull len then Some (StringValue (concat (drop (nat si) rs)))
            else (case valueToInt64 L len of
                    None \<Rightarrow> Some NullValue
                  | Some l \<Rightarrow>
                      if sint l < 0 then Some (StringValue [])
                      else let e = i64 (si + sint l); e' = (if e > n then n else e) in
                        if e' < si then None else Some (StringValue (concat (slice rs (nat si) (nat e'))))))"

subsection \<open>Arrays\<close>

fun array_map1 :: "(Value list \<Rightarrow> Value) \<Rightarrow> Value \<Rightarrow> Value" where
  "array_map1 f (ArrayValue xs) = f xs"
| "array_map1 f v = NullValue"

fun array_parts :: "Value \<Rightarrow> Value list" where
  "array_parts (ArrayValue xs) = xs"
| "array_parts v = []"

definition concatValue :: "Value list \<Rightarrow> Value" where
  "concatValue vs = ArrayValue (concat (map array_parts vs))"

definition arrayContains :: "go_lib \<Rightarrow> Value list \<Rightarrow> Value \<Rightarrow> bool" where
  "arrayContains L arr needle \<longleftrightarrow> (\<exists>item \<in> set arr. valuesEqual L item needle)"

definition distinct_add :: "go_lib \<Rightarrow> Value list \<Rightarrow> Value \<Rightarrow> Value list" where
  "distinct_add L result elem = (if \<exists>e \<in> set result. valuesEqual L elem e then result else result @ [elem])"

definition execArrayDistinct :: "go_lib \<Rightarrow> Value \<Rightarrow> Value" where
  "execArrayDistinct L v = array_map1 (\<lambda>xs. ArrayValue (foldl (distinct_add L) [] xs)) v"

definition execFlatten :: "Value \<Rightarrow> Value" where
  "execFlatten v = array_map1 (\<lambda>xs. ArrayValue (concat (map (\<lambda>e. case e of ArrayValue ys \<Rightarrow> ys | _ \<Rightarrow> [e]) xs))) v"

fun compact_from :: "go_lib \<Rightarrow> Value \<Rightarrow> Value list \<Rightarrow> Value list" where
  "compact_from L prev [] = []"
| "compact_from L prev (x # xs) =
     (if valuesEqual L x prev then compact_from L prev xs else x # compact_from L x xs)"

definition execArrayCompact :: "go_lib \<Rightarrow> Value \<Rightarrow> Value" where
  "execArrayCompact L v =
     array_map1 (\<lambda>xs. case xs of [] \<Rightarrow> ArrayValue [] | y # ys \<Rightarrow> ArrayValue (y # compact_from L y ys)) v"

text \<open>Sums: integers wrap, and the sum turns into a float with the first float.\<close>

fun array_sum_loop :: "Value list \<Rightarrow> u64 \<Rightarrow> u64 option \<Rightarrow> Value" where
  "array_sum_loop [] n None = IntValue n"
| "array_sum_loop [] n (Some f) = FloatValue f"
| "array_sum_loop (IntValue m # vs) n None = array_sum_loop vs (n + m) None"
| "array_sum_loop (IntValue m # vs) n (Some f) = array_sum_loop vs n (Some (float_add f (float_of_int (sint m))))"
| "array_sum_loop (FloatValue g # vs) n None = array_sum_loop vs n (Some (float_add (float_of_int (sint n)) g))"
| "array_sum_loop (FloatValue g # vs) n (Some f) = array_sum_loop vs n (Some (float_add f g))"
| "array_sum_loop (v # vs) n f = array_sum_loop vs n f"

definition execArraySum :: "Value \<Rightarrow> Value" where
  "execArraySum v = array_map1 (\<lambda>xs. if list_all isNumeric xs then array_sum_loop xs 0 None else NullValue) v"

definition execArrayAvg :: "Value \<Rightarrow> Value" where
  "execArrayAvg v =
     array_map1 (\<lambda>xs. if list_all isNumeric xs \<and> xs \<noteq> []
       then FloatValue (float_div (foldl (\<lambda>sum x. float_add sum (toFloat64ForCompare x)) 0 xs)
                                  (float_of_int (int (length xs))))
       else NullValue) v"

fun execArrayExtrema :: "go_lib \<Rightarrow> bool \<Rightarrow> Value \<Rightarrow> warnings \<Rightarrow> Value warned" where
  "execArrayExtrema L greatest (ArrayValue xs) w = scalarExtremaValue L greatest xs w"
| "execArrayExtrema L greatest v w = (NullValue, w)"

fun deltas_loop :: "Value \<Rightarrow> Value list \<Rightarrow> Value list \<Rightarrow> warnings \<Rightarrow> Value warned" where
  "deltas_loop prev [] acc w = (ArrayValue acc, w)"
| "deltas_loop prev (x # xs) acc w =
     (case subStrict x prev w of
        (delta, w') \<Rightarrow> if IsNull delta then (NullValue, w') else deltas_loop x xs (acc @ [delta]) w')"

fun execArrayDeltas :: "Value \<Rightarrow> warnings \<Rightarrow> Value warned" where
  "execArrayDeltas (ArrayValue (x # xs)) w = deltas_loop x xs [NullValue] w"
| "execArrayDeltas (ArrayValue []) w = (ArrayValue [], w)"
| "execArrayDeltas v w = (NullValue, w)"

fun cumsum_loop :: "Value \<Rightarrow> Value list \<Rightarrow> Value list \<Rightarrow> warnings \<Rightarrow> Value warned" where
  "cumsum_loop tot [] acc w = (ArrayValue acc, w)"
| "cumsum_loop tot (x # xs) acc w =
     (case addStrict tot x w of
        (t, w') \<Rightarrow> if IsNull t then (NullValue, w') else cumsum_loop t xs (acc @ [t]) w')"

fun execArrayCumSum :: "Value \<Rightarrow> warnings \<Rightarrow> Value warned" where
  "execArrayCumSum (ArrayValue (x # xs)) w = (if IsNull x then (NullValue, w) else cumsum_loop x xs [x] w)"
| "execArrayCumSum (ArrayValue []) w = (ArrayValue [], w)"
| "execArrayCumSum v w = (NullValue, w)"

fun array_pair :: "(Value list \<Rightarrow> Value list \<Rightarrow> Value) \<Rightarrow> Value \<Rightarrow> Value \<Rightarrow> Value" where
  "array_pair f (ArrayValue xs) (ArrayValue ys) = f xs ys"
| "array_pair f a b = NullValue"

definition execArrayHasAny :: "go_lib \<Rightarrow> Value \<Rightarrow> Value \<Rightarrow> Value" where
  "execArrayHasAny L a b = array_pair (\<lambda>xs ys. BoolValue (\<exists>y \<in> set ys. arrayContains L xs y)) a b"

definition execArrayHasAll :: "go_lib \<Rightarrow> Value \<Rightarrow> Value \<Rightarrow> Value" where
  "execArrayHasAll L a b = array_pair (\<lambda>xs ys. BoolValue (\<forall>y \<in> set ys. arrayContains L xs y)) a b"

definition execArrayIntersect :: "go_lib \<Rightarrow> Value \<Rightarrow> Value \<Rightarrow> Value" where
  "execArrayIntersect L a b = array_pair (\<lambda>xs ys. ArrayValue (filter (arrayContains L ys) xs)) a b"

definition execArrayExcept :: "go_lib \<Rightarrow> Value \<Rightarrow> Value \<Rightarrow> Value" where
  "execArrayExcept L a b = array_pair (\<lambda>xs ys. ArrayValue (filter (\<lambda>x. \<not> arrayContains L ys x) xs)) a b"

definition execZip :: "Value list \<Rightarrow> Value" where
  "execZip vs =
     (if \<exists>v \<in> set vs. Value_Type v \<noteq> FieldTypeArray then NullValue
      else (case map array_parts vs of
              [] \<Rightarrow> ArrayValue []
            | xs # rest \<Rightarrow>
                if \<exists>ys \<in> set rest. length ys \<noteq> length xs then NullValue
                else ArrayValue (map (\<lambda>i. ArrayValue (map (\<lambda>ys. ys ! i) (xs # rest))) [0..<length xs])))"

subsection \<open>Objects\<close>

fun execKeys :: "Value \<Rightarrow> Value" where
  "execKeys (ObjectValue kvs) = ArrayValue (map (\<lambda>(k, v). StringValue k) kvs)"
| "execKeys v = NullValue"

fun execValues :: "Value \<Rightarrow> Value" where
  "execValues (ObjectValue kvs) = ArrayValue (map snd kvs)"
| "execValues v = NullValue"

fun execMerge :: "Value \<Rightarrow> Value \<Rightarrow> Value" where
  "execMerge (ObjectValue a) (ObjectValue b) = ObjectValue (fold (\<lambda>(k, v). obj_put k v) b a)"
| "execMerge a b = NullValue"

fun execHasKey :: "go_lib \<Rightarrow> Value \<Rightarrow> Value \<Rightarrow> Value" where
  "execHasKey L (ObjectValue kvs) key =
     (if IsNull key then NullValue else BoolValue (obj_get kvs (Value_String L key) \<noteq> None))"
| "execHasKey L v key = NullValue"

fun execEntries :: "Value \<Rightarrow> Value" where
  "execEntries (ObjectValue kvs) =
     ArrayValue (map (\<lambda>(k, v). ObjectValue (obj_put (bs ''value'') v [(bs ''key'', StringValue k)])) kvs)"
| "execEntries v = NullValue"

fun from_entries_loop :: "Value list \<Rightarrow> (gostring \<times> Value) list \<Rightarrow> Value" where
  "from_entries_loop [] acc = ObjectValue acc"
| "from_entries_loop (ObjectValue obj # vs) acc =
     (case (obj_get obj (bs ''key''), obj_get obj (bs ''value'')) of
        (Some (StringValue k), Some v) \<Rightarrow> from_entries_loop vs (obj_put k v acc)
      | _ \<Rightarrow> NullValue)"
| "from_entries_loop (v # vs) acc = NullValue"

fun execFromEntries :: "Value \<Rightarrow> Value" where
  "execFromEntries (ArrayValue vs) = from_entries_loop vs []"
| "execFromEntries v = NullValue"

text \<open>\<open>OpObjectBuild\<close>: keys and values alternate on the stack; a later key replaces an earlier one.\<close>

fun object_build :: "go_lib \<Rightarrow> Value list \<Rightarrow> (gostring \<times> Value) list \<Rightarrow> (gostring \<times> Value) list" where
  "object_build L (k # v # rest) acc = object_build L rest (obj_put (Value_String L k) v acc)"
| "object_build L _ acc = acc"

end
