(* ===== verification/Value_Laws.thy ===== *)
theory Value_Laws
  imports Value_Functions
begin

text \<open>
  Laws of the value functions: bins, objects and their entries, and an order that is none.
\<close>

subsection \<open>Bins\<close>

lemma sint_word_of_int: "- (2 ^ 63) \<le> i \<Longrightarrow> i < 2 ^ 63 \<Longrightarrow> sint (word_of_int i :: u64) = i"
  by (simp add: sint_sbintrunc' signed_take_bit_int_eq_self)

lemma sint_bounds: "- (2 ^ 63) \<le> sint (x :: u64)" "sint (x :: u64) < 2 ^ 63"
  using sint_ge [of x] sint_lt [of x] by simp_all

lemma sdiv_cases: "0 < n \<Longrightarrow> x sdiv n = (if x < 0 then - ((- x) div n) else x div (n :: int))"
  by (simp add: signed_divide_int_def sgn_if)

lemma smod_cases: "0 < n \<Longrightarrow> x smod n = (if x < 0 then - ((- x) mod n) else x mod (n :: int))"
  by (simp add: signed_modulo_int_def sdiv_cases minus_div_mult_eq_mod [symmetric] sgn_if)

lemma sdiv_floor:
  fixes x n :: int
  assumes "0 < n"
  shows "(if x smod n \<noteq> 0 \<and> x < 0 then x sdiv n - 1 else x sdiv n) = x div n"
proof -
  have "x mod n \<noteq> n" using pos_mod_bound [OF assms, of x] by simp
  then show ?thesis
    using assms zdiv_zminus1_eq_if [of n x] by (simp add: sdiv_cases smod_cases zmod_zminus1_eq_if)
qed

lemma floor_bounds:
  fixes x n :: int
  assumes "0 < n"
  shows "n * (x div n) \<le> x" "x < n * (x div n) + n"
  using pos_mod_sign [OF assms, of x] pos_mod_bound [OF assms, of x] by (simp_all flip: minus_mod_eq_mult_div)

lemma floor_bin_sint:
  assumes n: "0 < sint n" and fit: "- (2 ^ 63) \<le> sint n * (sint x div sint n)"
  shows "sint (floor_bin x n) = sint n * (sint x div sint n)"
proof -
  let ?x = "sint x" and ?n = "sint n"
  have "\<bar>?x smod ?n\<bar> < ?n" using n by (simp add: smod_cases)
  then have "sint (int64_rem x n) = ?x smod ?n"
    unfolding int64_rem_def using sint_bounds(2) [of n] by (intro sint_word_of_int) linarith+
  then have r: "int64_rem x n = 0 \<longleftrightarrow> ?x smod ?n = 0" by (metis sint_0 signed_word_eqI)
  have q: "word_of_int (?x div ?n) = (if int64_rem x n \<noteq> 0 \<and> ?x < 0 then int64_quot x n - 1 else int64_quot x n)"
    unfolding sdiv_floor [OF n, symmetric] r by (simp add: int64_quot_def)
  have "floor_bin x n = word_of_int (?x div ?n) * n"
    unfolding floor_bin_def Let_def q by simp
  also have "\<dots> = word_of_int (?n * (?x div ?n))" by (simp add: mult.commute)
  finally show ?thesis
    using fit floor_bounds(1) [OF n, of ?x] sint_bounds(2) [of x] by (metis order_le_less_trans sint_word_of_int)
qed

text \<open>
  (C21) Binning of integers: with a positive width, the bin of a value is the multiple of the width at
  or below it and less than one width away, also for negative values, as long as that multiple is an
  \<^verbatim>\<open>int64\<close>.
\<close>

theorem bin_number_floor:
  assumes "0 < sint n" "- (2 ^ 63) \<le> sint n * (sint x div sint n)"
  shows "\<exists>r. binNumberValue (IntValue x) (IntValue n) = IntValue r \<and>
    sint n dvd sint r \<and> sint r \<le> sint x \<and> sint x < sint r + sint n"
  using assms floor_bin_sint [OF assms] floor_bounds [OF assms(1), of "sint x"] by (simp add: binNumberValue_def)

theorem bin_number_floor_witness:
  "\<exists>r. binNumberValue (IntValue (- 7)) (IntValue 5) = IntValue r \<and>
    sint (5 :: u64) dvd sint r \<and> sint r \<le> sint (- 7 :: u64) \<and> sint (- 7 :: u64) < sint r + sint (5 :: u64)"
  by (rule bin_number_floor) simp_all

text \<open>
  (C39) Binning of time stamps before 1970 is different: without an origin the quotient is truncated
  towards zero, so that the bin of a time stamp that is not on a boundary begins after it.
\<close>

theorem bin_timestamp_before_epoch:
  assumes "0 < sint d" "sint t < 0" "\<not> sint d dvd sint t"
  shows "\<exists>r. binTimestampValue parse (TimestampValue t) (DurationValue d) = TimestampValue r \<and> sint t < sint r"
proof -
  let ?q = "sint t sdiv sint d"
  have q: "?q * sint d = sint t + (- sint t) mod sint d"
    using assms(1,2) by (simp add: sdiv_cases flip: minus_mod_eq_div_mult)
  have m: "0 < (- sint t) mod sint d"
    using assms(1,3) pos_mod_bound [OF assms(1), of "sint t"] by (simp add: dvd_eq_mod_eq_0 zmod_zminus1_eq_if)
  moreover have "(- sint t) mod sint d \<le> - sint t" using assms(1,2) by (simp add: zmod_le_nonneg_dividend)
  ultimately have "sint (word_of_int (?q * sint d) :: u64) = ?q * sint d"
    using q sint_bounds(1) [of t] by (intro sint_word_of_int) linarith+
  then have "sint (int64_quot t d * d) = ?q * sint d" by (simp add: int64_quot_def)
  then show ?thesis using assms(1) q m by (simp add: binTimestampValue_def)
qed

theorem bin_timestamp_before_epoch_witness:
  "\<exists>r. binTimestampValue (\<lambda>_. None) (TimestampValue (- 7)) (DurationValue 5) = TimestampValue r \<and> sint (- 7 :: u64) < sint r"
  by (rule bin_timestamp_before_epoch) simp_all

subsection \<open>Objects and entries\<close>

lemma obj_put_above: "\<forall>k' \<in> set (map fst kvs). k' < k \<Longrightarrow> obj_put k v kvs = kvs @ [(k, v)]"
  by (induction kvs) auto

lemma entry_keys: "bs ''key'' \<noteq> bs ''value''" "\<not> bs ''value'' < bs ''key''" "bs ''value'' \<noteq> bs ''key''"
  by code_simp+

lemma from_entries_snoc:
  assumes "sorted_wrt (<) (map fst (acc @ kvs))"
  shows "from_entries_loop (map (\<lambda>(k, v). ObjectValue (obj_put (bs ''value'') v [(bs ''key'', StringValue k)])) kvs) acc = ObjectValue (acc @ kvs)"
  using assms
proof (induction kvs arbitrary: acc)
  case (Cons kv kvs)
  obtain k v where kv: "kv = (k, v)" by (cases kv)
  have "obj_put k v acc = acc @ [(k, v)]"
    using Cons.prems kv by (intro obj_put_above) (auto simp: sorted_wrt_append)
  then show ?case
    using Cons.IH [of "acc @ [(k, v)]"] Cons.prems kv entry_keys by (simp del: bs_simps)
qed simp

text \<open>
  (C22) \<^verbatim>\<open>from_entries(entries(o))\<close> is \<open>o\<close>, for every object.
\<close>

theorem entries_roundtrip:
  assumes "sorted_wrt (<) (map fst kvs)"
  shows "execFromEntries (execEntries (ObjectValue kvs)) = ObjectValue kvs"
  using from_entries_snoc [of "[]" kvs] assms by simp

theorem entries_roundtrip_witness:
  "execFromEntries (execEntries (ObjectValue [([1], IntValue 5), ([2, 0], NullValue)])) =
     ObjectValue [([1], IntValue 5), ([2, 0], NullValue)]"
  by (rule entries_roundtrip) code_simp

subsection \<open>The coercing order\<close>

text \<open>
  (C40) The order that sorting, \<^verbatim>\<open>min\<close>, \<^verbatim>\<open>max\<close> and the top-n heap use has cycles on strings: two strings
  that are numbers are compared as numbers, other pairs as text, so that "9" is below "10", "10" below
  "1x" and "1x" below "9".
\<close>

theorem compare_values_cycle:
  assumes "gl_ParseFloat L (bs ''9'') = Some f" "gl_ParseFloat L (bs ''10'') = Some g" "float_lt f g"
    "gl_ParseFloat L (bs ''1x'') = None"
  shows "CompareValues L (StringValue (bs ''9'')) (StringValue (bs ''10'')) < 0 \<and>
    CompareValues L (StringValue (bs ''10'')) (StringValue (bs ''1x'')) < 0 \<and>
    CompareValues L (StringValue (bs ''1x'')) (StringValue (bs ''9'')) < 0"
proof -
  have "strings_Compare (bs ''10'') (bs ''1x'') < 0" "strings_Compare (bs ''1x'') (bs ''9'') < 0" by code_simp+
  then show ?thesis using assms by (simp add: CompareValues.simps float_cmp_def del: bs_simps)
qed

definition nine_or_ten :: "bytes \<Rightarrow> u64 option" where
  "nine_or_ten s = (if s = bs ''9'' then Some 0x4022000000000000 else if s = bs ''10'' then Some 0x4024000000000000 else None)"

definition digit_lib :: go_lib where
  "digit_lib = \<lparr>gl_ParseFloat = nine_or_ten, gl_FormatFloat = \<lambda>_. [], gl_FormatTime = \<lambda>_. [], gl_FormatDuration = \<lambda>_. [],
     gl_Quote = \<lambda>s. s, gl_ToLower = \<lambda>s. s, gl_ToUpper = \<lambda>s. s, gl_TrimSpace = \<lambda>s. s, gl_runes = map (\<lambda>b. [b]),
     gl_int64 = \<lambda>_. 0\<rparr>"

lemma nine_below_ten: "float_lt 0x4022000000000000 0x4024000000000000"
proof -
  have "float_magnitude 0x4022000000000000 = 0x4022000000000000" "float_magnitude 0x4024000000000000 = 0x4024000000000000"
    by (simp_all add: float_magnitude_def unsigned_take_bit_eq take_bit_nat_eq_self)
  moreover have "\<not> bit (0x4022000000000000 :: u64) 63" "\<not> bit (0x4024000000000000 :: u64) 63"
    by (simp_all add: bit_numeral_word_iff)
  ultimately show ?thesis by (simp add: float_lt_def is_NaN_def float_value_def)
qed

theorem compare_values_cycle_witness:
  "CompareValues digit_lib (StringValue (bs ''9'')) (StringValue (bs ''10'')) < 0 \<and>
    CompareValues digit_lib (StringValue (bs ''10'')) (StringValue (bs ''1x'')) < 0 \<and>
    CompareValues digit_lib (StringValue (bs ''1x'')) (StringValue (bs ''9'')) < 0"
  by (rule compare_values_cycle [OF _ _ nine_below_ten]) (simp_all add: digit_lib_def nine_or_ten_def)

end
