(* ===== verification/VM_Program.thy ===== *)
theory VM_Program
  imports Value_Ops
begin

text \<open>
  The bytecode of expressions: opcodes and the encoding of instructions of \<^verbatim>\<open>src/pkg/vm/opcode.go\<close>
  and the program with its pools of \<^verbatim>\<open>src/pkg/vm/program.go\<close>. An instruction is the byte of its opcode
  followed by its operands, each in two bytes, most significant first. A program of a lambda body
  carries instructions only; it shares the pools of the program it belongs to.
\<close>

subsection \<open>Opcodes\<close>

definition OpNop :: u8 where "OpNop = 0x00"
definition OpPop :: u8 where "OpPop = 0x01"
definition OpDup :: u8 where "OpDup = 0x02"
definition OpConstInt :: u8 where "OpConstInt = 0x10"
definition OpConstFloat :: u8 where "OpConstFloat = 0x11"
definition OpConstStr :: u8 where "OpConstStr = 0x12"
definition OpConstTrue :: u8 where "OpConstTrue = 0x13"
definition OpConstFalse :: u8 where "OpConstFalse = 0x14"
definition OpConstNull :: u8 where "OpConstNull = 0x15"
definition OpLoadField :: u8 where "OpLoadField = 0x20"
definition OpStoreField :: u8 where "OpStoreField = 0x21"
definition OpFieldExists :: u8 where "OpFieldExists = 0x22"
definition OpAddInt :: u8 where "OpAddInt = 0x30"
definition OpSubInt :: u8 where "OpSubInt = 0x31"
definition OpMulInt :: u8 where "OpMulInt = 0x32"
definition OpDivInt :: u8 where "OpDivInt = 0x33"
definition OpModInt :: u8 where "OpModInt = 0x34"
definition OpNegInt :: u8 where "OpNegInt = 0x35"
definition OpPunycodeEncode :: u8 where "OpPunycodeEncode = 0x36"
definition OpPunycodeDecode :: u8 where "OpPunycodeDecode = 0x37"
definition OpAddFloat :: u8 where "OpAddFloat = 0x38"
definition OpSubFloat :: u8 where "OpSubFloat = 0x39"
definition OpMulFloat :: u8 where "OpMulFloat = 0x3A"
definition OpDivFloat :: u8 where "OpDivFloat = 0x3B"
definition OpNegFloat :: u8 where "OpNegFloat = 0x3C"
definition OpAdd :: u8 where "OpAdd = 0x3E"
definition OpSub :: u8 where "OpSub = 0x3F"
definition OpMul :: u8 where "OpMul = 0x40"
definition OpDiv :: u8 where "OpDiv = 0x41"
definition OpMod :: u8 where "OpMod = 0x42"
definition OpConcat :: u8 where "OpConcat = 0x48"
definition OpStrLen :: u8 where "OpStrLen = 0x49"
definition OpSubstr :: u8 where "OpSubstr = 0x4A"
definition OpToLower :: u8 where "OpToLower = 0x4B"
definition OpToUpper :: u8 where "OpToUpper = 0x4C"
definition OpStrMatch :: u8 where "OpStrMatch = 0x4D"
definition OpGlobMatch :: u8 where "OpGlobMatch = 0x4E"
definition OpReplace :: u8 where "OpReplace = 0x4F"
definition OpSplit :: u8 where "OpSplit = 0x57"
definition OpStartsWith :: u8 where "OpStartsWith = 0x59"
definition OpEndsWith :: u8 where "OpEndsWith = 0x5A"
definition OpContains :: u8 where "OpContains = 0x5B"
definition OpTrim :: u8 where "OpTrim = 0x5D"
definition OpLTrim :: u8 where "OpLTrim = 0x5E"
definition OpRTrim :: u8 where "OpRTrim = 0x5F"
definition OpEq :: u8 where "OpEq = 0x50"
definition OpNeq :: u8 where "OpNeq = 0x51"
definition OpLt :: u8 where "OpLt = 0x52"
definition OpLte :: u8 where "OpLte = 0x53"
definition OpGt :: u8 where "OpGt = 0x54"
definition OpGte :: u8 where "OpGte = 0x55"
definition OpInList :: u8 where "OpInList = 0x56"
definition OpLike :: u8 where "OpLike = 0x58"
definition OpBSIHandledCompare :: u8 where "OpBSIHandledCompare = 0x5C"
definition OpAnd :: u8 where "OpAnd = 0x60"
definition OpOr :: u8 where "OpOr = 0x61"
definition OpNot :: u8 where "OpNot = 0x62"
definition OpXor :: u8 where "OpXor = 0x63"
definition OpJump :: u8 where "OpJump = 0x70"
definition OpJumpIfFalse :: u8 where "OpJumpIfFalse = 0x71"
definition OpJumpIfTrue :: u8 where "OpJumpIfTrue = 0x72"
definition OpToInt :: u8 where "OpToInt = 0x80"
definition OpToFloat :: u8 where "OpToFloat = 0x81"
definition OpToString :: u8 where "OpToString = 0x82"
definition OpToBool :: u8 where "OpToBool = 0x83"
definition OpURLETLD1 :: u8 where "OpURLETLD1 = 0x85"
definition OpURLTLD :: u8 where "OpURLTLD = 0x86"
definition OpGenerateSeries :: u8 where "OpGenerateSeries = 0x87"
definition OpBase64URLDecode :: u8 where "OpBase64URLDecode = 0x88"
definition OpBase64URLEncode :: u8 where "OpBase64URLEncode = 0x89"
definition OpBinOrigin :: u8 where "OpBinOrigin = 0x8A"
definition OpArrayAggReduce :: u8 where "OpArrayAggReduce = 0x8B"
definition OpRound :: u8 where "OpRound = 0x90"
definition OpLn :: u8 where "OpLn = 0x91"
definition OpAbs :: u8 where "OpAbs = 0x92"
definition OpCeil :: u8 where "OpCeil = 0x93"
definition OpFloor :: u8 where "OpFloor = 0x94"
definition OpSqrt :: u8 where "OpSqrt = 0x95"
definition OpExp :: u8 where "OpExp = 0x96"
definition OpPow :: u8 where "OpPow = 0x97"
definition OpLog :: u8 where "OpLog = 0x98"
definition OpMax :: u8 where "OpMax = 0x99"
definition OpMin :: u8 where "OpMin = 0x9A"
definition OpMathUnary :: u8 where "OpMathUnary = 0x9B"
definition OpMathBinary :: u8 where "OpMathBinary = 0x9C"
definition OpRandom :: u8 where "OpRandom = 0x9D"
definition OpMvAppend :: u8 where "OpMvAppend = 0xA0"
definition OpMvJoin :: u8 where "OpMvJoin = 0xA1"
definition OpMvDedup :: u8 where "OpMvDedup = 0xA2"
definition OpMvCount :: u8 where "OpMvCount = 0xA3"
definition OpURLParam :: u8 where "OpURLParam = 0xA4"
definition OpURLStrip :: u8 where "OpURLStrip = 0xA5"
definition OpArraySum :: u8 where "OpArraySum = 0xA6"
definition OpArrayAvg :: u8 where "OpArrayAvg = 0xA7"
definition OpArrayMin :: u8 where "OpArrayMin = 0xA8"
definition OpArrayMax :: u8 where "OpArrayMax = 0xA9"
definition OpArrayCompact :: u8 where "OpArrayCompact = 0xAA"
definition OpArrayDeltas :: u8 where "OpArrayDeltas = 0xAB"
definition OpArrayCumSum :: u8 where "OpArrayCumSum = 0xAC"
definition OpZip :: u8 where "OpZip = 0xAD"
definition OpEntries :: u8 where "OpEntries = 0xAE"
definition OpFromEntries :: u8 where "OpFromEntries = 0xAF"
definition OpCoalesce :: u8 where "OpCoalesce = 0xB0"
definition OpIsNull :: u8 where "OpIsNull = 0xB1"
definition OpIsNotNull :: u8 where "OpIsNotNull = 0xB2"
definition OpIsNum :: u8 where "OpIsNum = 0xB3"
definition OpIsInt :: u8 where "OpIsInt = 0xB4"
definition OpIsBool :: u8 where "OpIsBool = 0xB5"
definition OpTypeOf :: u8 where "OpTypeOf = 0xB6"
definition OpIsArray :: u8 where "OpIsArray = 0xB7"
definition OpIsObject :: u8 where "OpIsObject = 0xB8"
definition OpRemap :: u8 where "OpRemap = 0xB9"
definition OpHasAny :: u8 where "OpHasAny = 0xBA"
definition OpHasAll :: u8 where "OpHasAll = 0xBB"
definition OpContainsPhrase :: u8 where "OpContainsPhrase = 0xBC"
definition OpContainsAny :: u8 where "OpContainsAny = 0xBD"
definition OpContainsAnyCS :: u8 where "OpContainsAnyCS = 0xBE"
definition OpMatchesAny :: u8 where "OpMatchesAny = 0xBF"
definition OpStrftime :: u8 where "OpStrftime = 0xC0"
definition OpURLDecode :: u8 where "OpURLDecode = 0xC1"
definition OpMD5 :: u8 where "OpMD5 = 0xC2"
definition OpSHA1 :: u8 where "OpSHA1 = 0xC3"
definition OpSHA256 :: u8 where "OpSHA256 = 0xC4"
definition OpSHA512 :: u8 where "OpSHA512 = 0xC5"
definition OpPrintf :: u8 where "OpPrintf = 0xC6"
definition OpIPMask :: u8 where "OpIPMask = 0xC7"
definition OpStrptime :: u8 where "OpStrptime = 0xC8"
definition OpFromUnix :: u8 where "OpFromUnix = 0xCA"
definition OpToUnix :: u8 where "OpToUnix = 0xCB"
definition OpDateTrunc :: u8 where "OpDateTrunc = 0xCC"
definition OpDatePart :: u8 where "OpDatePart = 0xCD"
definition OpDateDiff :: u8 where "OpDateDiff = 0xCE"
definition OpStrftimeTZ :: u8 where "OpStrftimeTZ = 0xCF"
definition OpTimeOfDayTZ :: u8 where "OpTimeOfDayTZ = 0x84"
definition OpSearchMatch :: u8 where "OpSearchMatch = 0xC9"
definition OpCIDRMatch :: u8 where "OpCIDRMatch = 0xE0"
definition OpArrayBuild :: u8 where "OpArrayBuild = 0xE1"
definition OpObjectBuild :: u8 where "OpObjectBuild = 0xE2"
definition OpIndex :: u8 where "OpIndex = 0xE3"
definition OpMember :: u8 where "OpMember = 0xE4"
definition OpLen :: u8 where "OpLen = 0xE5"
definition OpConstDuration :: u8 where "OpConstDuration = 0xE6"
definition OpEqStrict :: u8 where "OpEqStrict = 0xE7"
definition OpNeqStrict :: u8 where "OpNeqStrict = 0xE8"
definition OpLtStrict :: u8 where "OpLtStrict = 0xE9"
definition OpLteStrict :: u8 where "OpLteStrict = 0xEA"
definition OpGtStrict :: u8 where "OpGtStrict = 0xEB"
definition OpGteStrict :: u8 where "OpGteStrict = 0xEC"
definition OpNot3VL :: u8 where "OpNot3VL = 0xED"
definition OpJumpIfNull3VL :: u8 where "OpJumpIfNull3VL = 0xEE"
definition OpAnd3VLNull :: u8 where "OpAnd3VLNull = 0xEF"
definition OpOr3VLNull :: u8 where "OpOr3VLNull = 0xF0"
definition OpAddStrict :: u8 where "OpAddStrict = 0xF1"
definition OpSubStrict :: u8 where "OpSubStrict = 0xF2"
definition OpMulStrict :: u8 where "OpMulStrict = 0xF3"
definition OpDivStrict :: u8 where "OpDivStrict = 0xF4"
definition OpModStrict :: u8 where "OpModStrict = 0xF5"
definition OpLoadPath :: u8 where "OpLoadPath = 0xF6"
definition OpFieldMissing :: u8 where "OpFieldMissing = 0xF7"
definition OpNegStrict :: u8 where "OpNegStrict = 0xF8"
definition OpInStrict :: u8 where "OpInStrict = 0xF9"
definition OpHasToken :: u8 where "OpHasToken = 0xFA"
definition OpContainsCI :: u8 where "OpContainsCI = 0xFB"
definition OpExtract :: u8 where "OpExtract = 0xFC"
definition OpExtractAll :: u8 where "OpExtractAll = 0xFD"
definition OpSubstr0Based :: u8 where "OpSubstr0Based = 0xFE"
definition OpArrayAny :: u8 where "OpArrayAny = 0x03"
definition OpArrayAll :: u8 where "OpArrayAll = 0x04"
definition OpArrayFilter :: u8 where "OpArrayFilter = 0x05"
definition OpArrayMap :: u8 where "OpArrayMap = 0x06"
definition OpLoadLambdaParam :: u8 where "OpLoadLambdaParam = 0x07"
definition OpSlice :: u8 where "OpSlice = 0x08"
definition OpArrayConcat :: u8 where "OpArrayConcat = 0x09"
definition OpArrayDistinct :: u8 where "OpArrayDistinct = 0x0A"
definition OpArraySort :: u8 where "OpArraySort = 0x0B"
definition OpFlatten :: u8 where "OpFlatten = 0x0C"
definition OpSplitArr :: u8 where "OpSplitArr = 0x0D"
definition OpJoinArr :: u8 where "OpJoinArr = 0x0E"
definition OpTimeOfDay :: u8 where "OpTimeOfDay = 0x16"
definition OpDayOfWeek :: u8 where "OpDayOfWeek = 0x17"
definition OpXXHash64 :: u8 where "OpXXHash64 = 0x18"
definition OpHasTokenGlob :: u8 where "OpHasTokenGlob = 0x19"
definition OpKeys :: u8 where "OpKeys = 0x23"
definition OpValues :: u8 where "OpValues = 0x24"
definition OpMerge :: u8 where "OpMerge = 0x25"
definition OpHasKey :: u8 where "OpHasKey = 0x26"
definition OpURLParse :: u8 where "OpURLParse = 0x27"
definition OpIPParseObj :: u8 where "OpIPParseObj = 0x28"
definition OpFromJSONNative :: u8 where "OpFromJSONNative = 0x29"
definition OpBin :: u8 where "OpBin = 0x2A"
definition OpBucket :: u8 where "OpBucket = 0x2B"
definition OpPathNormalize :: u8 where "OpPathNormalize = 0x2C"
definition OpUserAgentParse :: u8 where "OpUserAgentParse = 0x2D"
definition OpArrayHasAny :: u8 where "OpArrayHasAny = 0x2E"
definition OpArrayHasAll :: u8 where "OpArrayHasAll = 0x2F"
definition OpArrayIntersect :: u8 where "OpArrayIntersect = 0x43"
definition OpArrayExcept :: u8 where "OpArrayExcept = 0x44"
definition OpHumanizeBytes :: u8 where "OpHumanizeBytes = 0x45"
definition OpHumanizeCount :: u8 where "OpHumanizeCount = 0x46"
definition OpHumanizeDur :: u8 where "OpHumanizeDur = 0x47"
definition OpArrayReduce :: u8 where "OpArrayReduce = 0x3D"
definition OpLPad :: u8 where "OpLPad = 0x64"
definition OpRPad :: u8 where "OpRPad = 0x65"
definition OpTranslate :: u8 where "OpTranslate = 0x66"
definition OpIsFinite :: u8 where "OpIsFinite = 0x67"
definition OpIsNaN :: u8 where "OpIsNaN = 0x68"
definition OpHex :: u8 where "OpHex = 0x69"
definition OpUnhex :: u8 where "OpUnhex = 0x6A"
definition OpURLEncode :: u8 where "OpURLEncode = 0x6B"
definition OpRegexEscape :: u8 where "OpRegexEscape = 0x6C"
definition OpCountSubstr :: u8 where "OpCountSubstr = 0x6D"
definition OpCountMatches :: u8 where "OpCountMatches = 0x6E"
definition OpBitAnd :: u8 where "OpBitAnd = 0x6F"
definition OpIPToInt :: u8 where "OpIPToInt = 0x73"
definition OpIPFromInt :: u8 where "OpIPFromInt = 0x74"
definition OpReplaceFirst :: u8 where "OpReplaceFirst = 0x75"
definition OpBitOr :: u8 where "OpBitOr = 0x76"
definition OpBitXor :: u8 where "OpBitXor = 0x77"
definition OpBitShl :: u8 where "OpBitShl = 0x78"
definition OpBitShr :: u8 where "OpBitShr = 0x79"
definition OpTokens :: u8 where "OpTokens = 0x7A"
definition OpSplitRegex :: u8 where "OpSplitRegex = 0x7B"
definition OpExtractGroups :: u8 where "OpExtractGroups = 0x7C"
definition OpIsJSON :: u8 where "OpIsJSON = 0x7D"
definition OpGreatest :: u8 where "OpGreatest = 0x7E"
definition OpLeast :: u8 where "OpLeast = 0x7F"
definition OpBar :: u8 where "OpBar = 0x1A"
definition OpIndexOf :: u8 where "OpIndexOf = 0x1B"
definition OpSplitPart :: u8 where "OpSplitPart = 0x1C"
definition OpBase64Decode :: u8 where "OpBase64Decode = 0x1D"
definition OpBase64Encode :: u8 where "OpBase64Encode = 0x1E"
definition OpRepeat :: u8 where "OpRepeat = 0x1F"
definition OpJsonExtract :: u8 where "OpJsonExtract = 0xD0"
definition OpJsonValid :: u8 where "OpJsonValid = 0xD1"
definition OpJsonKeys :: u8 where "OpJsonKeys = 0xD2"
definition OpJsonArrayLen :: u8 where "OpJsonArrayLen = 0xD3"
definition OpJsonObject :: u8 where "OpJsonObject = 0xD4"
definition OpJsonArray :: u8 where "OpJsonArray = 0xD5"
definition OpJsonType :: u8 where "OpJsonType = 0xD6"
definition OpJsonSet :: u8 where "OpJsonSet = 0xD7"
definition OpJsonRemove :: u8 where "OpJsonRemove = 0xD8"
definition OpJsonMerge :: u8 where "OpJsonMerge = 0xD9"
definition OpJsonValue :: u8 where "OpJsonValue = 0xDA"
definition OpJsonQuery :: u8 where "OpJsonQuery = 0xDB"
definition OpLevenshtein :: u8 where "OpLevenshtein = 0xDC"
definition OpJaroWinkler :: u8 where "OpJaroWinkler = 0xDD"
definition OpNormalizeUTF8 :: u8 where "OpNormalizeUTF8 = 0xDE"
definition OpTimestampGuess :: u8 where "OpTimestampGuess = 0xDF"
definition OpReturn :: u8 where "OpReturn = 0xFF"
definition OpStrictCastFail :: u8 where "OpStrictCastFail = 0x0F"

lemmas opcode_defs =
  OpNop_def OpPop_def OpDup_def OpConstInt_def OpConstFloat_def OpConstStr_def OpConstTrue_def
  OpConstFalse_def OpConstNull_def OpLoadField_def OpStoreField_def OpFieldExists_def OpAddInt_def
  OpSubInt_def OpMulInt_def OpDivInt_def OpModInt_def OpNegInt_def OpPunycodeEncode_def OpPunycodeDecode_def
  OpAddFloat_def OpSubFloat_def OpMulFloat_def OpDivFloat_def OpNegFloat_def OpAdd_def OpSub_def OpMul_def
  OpDiv_def OpMod_def OpConcat_def OpStrLen_def OpSubstr_def OpToLower_def OpToUpper_def OpStrMatch_def
  OpGlobMatch_def OpReplace_def OpSplit_def OpStartsWith_def OpEndsWith_def OpContains_def OpTrim_def
  OpLTrim_def OpRTrim_def OpEq_def OpNeq_def OpLt_def OpLte_def OpGt_def OpGte_def OpInList_def OpLike_def
  OpBSIHandledCompare_def OpAnd_def OpOr_def OpNot_def OpXor_def OpJump_def OpJumpIfFalse_def
  OpJumpIfTrue_def OpToInt_def OpToFloat_def OpToString_def OpToBool_def OpURLETLD1_def OpURLTLD_def
  OpGenerateSeries_def OpBase64URLDecode_def OpBase64URLEncode_def OpBinOrigin_def OpArrayAggReduce_def
  OpRound_def OpLn_def OpAbs_def OpCeil_def OpFloor_def OpSqrt_def OpExp_def OpPow_def OpLog_def OpMax_def
  OpMin_def OpMathUnary_def OpMathBinary_def OpRandom_def OpMvAppend_def OpMvJoin_def OpMvDedup_def
  OpMvCount_def OpURLParam_def OpURLStrip_def OpArraySum_def OpArrayAvg_def OpArrayMin_def OpArrayMax_def
  OpArrayCompact_def OpArrayDeltas_def OpArrayCumSum_def OpZip_def OpEntries_def OpFromEntries_def
  OpCoalesce_def OpIsNull_def OpIsNotNull_def OpIsNum_def OpIsInt_def OpIsBool_def OpTypeOf_def OpIsArray_def
  OpIsObject_def OpRemap_def OpHasAny_def OpHasAll_def OpContainsPhrase_def OpContainsAny_def
  OpContainsAnyCS_def OpMatchesAny_def OpStrftime_def OpURLDecode_def OpMD5_def OpSHA1_def OpSHA256_def
  OpSHA512_def OpPrintf_def OpIPMask_def OpStrptime_def OpFromUnix_def OpToUnix_def OpDateTrunc_def
  OpDatePart_def OpDateDiff_def OpStrftimeTZ_def OpTimeOfDayTZ_def OpSearchMatch_def OpCIDRMatch_def
  OpArrayBuild_def OpObjectBuild_def OpIndex_def OpMember_def OpLen_def OpConstDuration_def OpEqStrict_def
  OpNeqStrict_def OpLtStrict_def OpLteStrict_def OpGtStrict_def OpGteStrict_def OpNot3VL_def
  OpJumpIfNull3VL_def OpAnd3VLNull_def OpOr3VLNull_def OpAddStrict_def OpSubStrict_def OpMulStrict_def
  OpDivStrict_def OpModStrict_def OpLoadPath_def OpFieldMissing_def OpNegStrict_def OpInStrict_def
  OpHasToken_def OpContainsCI_def OpExtract_def OpExtractAll_def OpSubstr0Based_def OpArrayAny_def
  OpArrayAll_def OpArrayFilter_def OpArrayMap_def OpLoadLambdaParam_def OpSlice_def OpArrayConcat_def
  OpArrayDistinct_def OpArraySort_def OpFlatten_def OpSplitArr_def OpJoinArr_def OpTimeOfDay_def
  OpDayOfWeek_def OpXXHash64_def OpHasTokenGlob_def OpKeys_def OpValues_def OpMerge_def OpHasKey_def
  OpURLParse_def OpIPParseObj_def OpFromJSONNative_def OpBin_def OpBucket_def OpPathNormalize_def
  OpUserAgentParse_def OpArrayHasAny_def OpArrayHasAll_def OpArrayIntersect_def OpArrayExcept_def
  OpHumanizeBytes_def OpHumanizeCount_def OpHumanizeDur_def OpArrayReduce_def OpLPad_def OpRPad_def
  OpTranslate_def OpIsFinite_def OpIsNaN_def OpHex_def OpUnhex_def OpURLEncode_def OpRegexEscape_def
  OpCountSubstr_def OpCountMatches_def OpBitAnd_def OpIPToInt_def OpIPFromInt_def OpReplaceFirst_def
  OpBitOr_def OpBitXor_def OpBitShl_def OpBitShr_def OpTokens_def OpSplitRegex_def OpExtractGroups_def
  OpIsJSON_def OpGreatest_def OpLeast_def OpBar_def OpIndexOf_def OpSplitPart_def OpBase64Decode_def
  OpBase64Encode_def OpRepeat_def OpJsonExtract_def OpJsonValid_def OpJsonKeys_def OpJsonArrayLen_def
  OpJsonObject_def OpJsonArray_def OpJsonType_def OpJsonSet_def OpJsonRemove_def OpJsonMerge_def
  OpJsonValue_def OpJsonQuery_def OpLevenshtein_def OpJaroWinkler_def OpNormalizeUTF8_def
  OpTimestampGuess_def OpReturn_def OpStrictCastFail_def

subsection \<open>Encoding of instructions\<close>

text \<open>The table \<open>definitions\<close>: the widths of the operands of every opcode.\<close>

definition two_byte_ops :: "u8 list" where
  "two_byte_ops =
    [OpConstInt, OpConstFloat, OpConstStr, OpLoadField, OpStoreField, OpFieldExists, OpStrMatch, OpGlobMatch,
     OpReplace, OpInList, OpJump, OpJumpIfFalse, OpJumpIfTrue, OpGenerateSeries, OpArrayAggReduce, OpMax,
     OpMin, OpMathUnary, OpMathBinary, OpMvAppend, OpZip, OpCoalesce, OpRemap, OpPrintf, OpDateTrunc,
     OpDatePart, OpCIDRMatch, OpArrayBuild, OpObjectBuild, OpMember, OpConstDuration, OpJumpIfNull3VL,
     OpLoadPath, OpFieldMissing, OpInStrict, OpExtract, OpExtractAll, OpArrayAny, OpArrayAll, OpArrayFilter,
     OpArrayMap, OpLoadLambdaParam, OpArrayConcat, OpHasTokenGlob, OpArrayReduce, OpCountMatches,
     OpReplaceFirst, OpSplitRegex, OpExtractGroups, OpGreatest, OpLeast, OpJsonObject, OpJsonArray,
     OpLevenshtein, OpNormalizeUTF8, OpStrictCastFail]"

definition plain_ops :: "u8 list" where
  "plain_ops =
    [OpNop, OpPop, OpDup, OpConstTrue, OpConstFalse, OpConstNull, OpAddInt, OpSubInt, OpMulInt, OpDivInt,
     OpModInt, OpNegInt, OpPunycodeEncode, OpPunycodeDecode, OpAddFloat, OpSubFloat, OpMulFloat, OpDivFloat,
     OpNegFloat, OpAdd, OpSub, OpMul, OpDiv, OpMod, OpConcat, OpStrLen, OpSubstr, OpToLower, OpToUpper,
     OpSplit, OpStartsWith, OpEndsWith, OpContains, OpTrim, OpLTrim, OpRTrim, OpEq, OpNeq, OpLt, OpLte, OpGt,
     OpGte, OpLike, OpAnd, OpOr, OpNot, OpXor, OpToInt, OpToFloat, OpToString, OpToBool, OpURLETLD1,
     OpURLTLD, OpBase64URLDecode, OpBase64URLEncode, OpBinOrigin, OpRound, OpLn, OpAbs, OpCeil, OpFloor,
     OpSqrt, OpExp, OpPow, OpLog, OpRandom, OpMvJoin, OpMvDedup, OpMvCount, OpURLParam, OpURLStrip,
     OpArraySum, OpArrayAvg, OpArrayMin, OpArrayMax, OpArrayCompact, OpArrayDeltas, OpArrayCumSum, OpEntries,
     OpFromEntries, OpIsNull, OpIsNotNull, OpIsNum, OpIsInt, OpIsBool, OpTypeOf, OpIsArray, OpIsObject,
     OpHasAny, OpHasAll, OpContainsPhrase, OpContainsAny, OpContainsAnyCS, OpMatchesAny, OpStrftime,
     OpURLDecode, OpMD5, OpSHA1, OpSHA256, OpSHA512, OpIPMask, OpStrptime, OpFromUnix, OpToUnix, OpDateDiff,
     OpStrftimeTZ, OpTimeOfDayTZ, OpSearchMatch, OpIndex, OpLen, OpEqStrict, OpNeqStrict, OpLtStrict,
     OpLteStrict, OpGtStrict, OpGteStrict, OpNot3VL, OpAnd3VLNull, OpOr3VLNull, OpAddStrict, OpSubStrict,
     OpMulStrict, OpDivStrict, OpModStrict, OpNegStrict, OpHasToken, OpContainsCI, OpSubstr0Based, OpSlice,
     OpArrayDistinct, OpArraySort, OpFlatten, OpSplitArr, OpJoinArr, OpTimeOfDay, OpDayOfWeek, OpXXHash64,
     OpKeys, OpValues, OpMerge, OpHasKey, OpURLParse, OpIPParseObj, OpFromJSONNative, OpBin, OpBucket,
     OpPathNormalize, OpUserAgentParse, OpArrayHasAny, OpArrayHasAll, OpArrayIntersect, OpArrayExcept,
     OpHumanizeBytes, OpHumanizeCount, OpHumanizeDur, OpLPad, OpRPad, OpTranslate, OpIsFinite, OpIsNaN,
     OpHex, OpUnhex, OpURLEncode, OpRegexEscape, OpCountSubstr, OpBitAnd, OpIPToInt, OpIPFromInt, OpBitOr,
     OpBitXor, OpBitShl, OpBitShr, OpTokens, OpIsJSON, OpBar, OpIndexOf, OpSplitPart, OpBase64Decode,
     OpBase64Encode, OpRepeat, OpJsonExtract, OpJsonValid, OpJsonKeys, OpJsonArrayLen, OpJsonType, OpJsonSet,
     OpJsonRemove, OpJsonMerge, OpJsonValue, OpJsonQuery, OpJaroWinkler, OpTimestampGuess, OpReturn]"

definition OperandWidths :: "u8 \<Rightarrow> nat list option" where
  "OperandWidths op =
     (if op = OpBSIHandledCompare then Some [2, 2]
      else if op \<in> set two_byte_ops then Some [2]
      else if op \<in> set plain_ops then Some []
      else None)"

text \<open>\<^verbatim>\<open>binary.BigEndian\<close> on 16 bits: the operand is converted to uint16 first.\<close>

definition be16 :: "nat \<Rightarrow> bytes" where
  "be16 v = [word_of_nat (v div 256), word_of_nat v]"

definition ReadUint16 :: "bytes \<Rightarrow> nat" where
  "ReadUint16 ins = unat (ins ! 0) * 256 + unat (ins ! 1)"

fun put_operands :: "nat list \<Rightarrow> nat list \<Rightarrow> bytes" where
  "put_operands [] os = []"
| "put_operands (w # ws) [] = replicate w 0 @ put_operands ws []"
| "put_operands (w # ws) (v # os) =
     (if w = 1 then [word_of_nat v] else if w = 2 then be16 v else replicate w 0) @ put_operands ws os"

definition Make :: "u8 \<Rightarrow> nat list \<Rightarrow> bytes" where
  "Make op operands =
     (case OperandWidths op of None \<Rightarrow> [op] | Some ws \<Rightarrow> op # put_operands ws operands)"

subsection \<open>Programs\<close>

record Program =
  pr_Instructions :: bytes
  pr_Constants :: "Value list"
  pr_FieldNames :: "gostring list"
  pr_RegexPatterns :: "gostring list"
  pr_GlobPatterns :: "gostring list"
  pr_CIDRNets :: "gostring list"
  pr_SubPrograms :: "bytes list"

definition empty_program :: Program where
  "empty_program = \<lparr>pr_Instructions = [], pr_Constants = [], pr_FieldNames = [], pr_RegexPatterns = [],
     pr_GlobPatterns = [], pr_CIDRNets = [], pr_SubPrograms = []\<rparr>"

definition AddSubProgram :: "bytes \<Rightarrow> Program \<Rightarrow> nat \<times> Program" where
  "AddSubProgram sub p = (length (pr_SubPrograms p), p\<lparr>pr_SubPrograms := pr_SubPrograms p @ [sub]\<rparr>)"

definition AddConstant :: "Value \<Rightarrow> Program \<Rightarrow> nat \<times> Program" where
  "AddConstant v p = (length (pr_Constants p), p\<lparr>pr_Constants := pr_Constants p @ [v]\<rparr>)"

text \<open>The pools of names and patterns hold every entry once.\<close>

fun index_of :: "'a \<Rightarrow> 'a list \<Rightarrow> nat option" where
  "index_of x [] = None"
| "index_of x (y # ys) = (if y = x then Some 0 else map_option Suc (index_of x ys))"

definition add_unique :: "'a \<Rightarrow> 'a list \<Rightarrow> nat \<times> 'a list" where
  "add_unique x xs = (case index_of x xs of Some i \<Rightarrow> (i, xs) | None \<Rightarrow> (length xs, xs @ [x]))"

definition AddFieldName :: "gostring \<Rightarrow> Program \<Rightarrow> nat \<times> Program" where
  "AddFieldName name p =
     (let (i, ns) = add_unique name (pr_FieldNames p) in (i, p\<lparr>pr_FieldNames := ns\<rparr>))"

definition AddRegex :: "gostring \<Rightarrow> Program \<Rightarrow> nat \<times> Program" where
  "AddRegex pattern p =
     (let (i, ps) = add_unique pattern (pr_RegexPatterns p) in (i, p\<lparr>pr_RegexPatterns := ps\<rparr>))"

definition AddGlob :: "gostring \<Rightarrow> Program \<Rightarrow> nat \<times> Program" where
  "AddGlob pattern p =
     (let (i, ps) = add_unique pattern (pr_GlobPatterns p) in (i, p\<lparr>pr_GlobPatterns := ps\<rparr>))"

text \<open>A network is kept as its text; \<open>parse\<close> is \<^verbatim>\<open>net.ParseCIDR\<close> followed by \<^verbatim>\<open>String\<close>.\<close>

definition AddCIDR :: "(gostring \<Rightarrow> gostring option) \<Rightarrow> gostring \<Rightarrow> Program \<Rightarrow> (nat \<times> Program) option" where
  "AddCIDR parse cidr p =
     (case index_of cidr (pr_CIDRNets p) of
        Some i \<Rightarrow> Some (i, p)
      | None \<Rightarrow>
          (case parse cidr of
             None \<Rightarrow> None
           | Some net \<Rightarrow> Some (length (pr_CIDRNets p), p\<lparr>pr_CIDRNets := pr_CIDRNets p @ [net]\<rparr>)))"

definition EmitOp :: "u8 \<Rightarrow> nat list \<Rightarrow> Program \<Rightarrow> nat \<times> Program" where
  "EmitOp op operands p =
     (length (pr_Instructions p), p\<lparr>pr_Instructions := pr_Instructions p @ Make op operands\<rparr>)"

definition PatchUint16 :: "nat \<Rightarrow> nat \<Rightarrow> Program \<Rightarrow> Program" where
  "PatchUint16 offset val p =
     p\<lparr>pr_Instructions := (pr_Instructions p)[offset := word_of_nat (val div 256), Suc offset := word_of_nat val]\<rparr>"

definition Program_Len :: "Program \<Rightarrow> nat" where "Program_Len p = length (pr_Instructions p)"

subsection \<open>Facts about the encoding\<close>

lemma length_be16 [simp]: "length (be16 v) = 2"
  by (simp add: be16_def)

lemma ReadUint16_be16 [simp]: "v < 65536 \<Longrightarrow> ReadUint16 (be16 v @ rest) = v"
proof -
  assume v: "v < 65536"
  then have "unat (word_of_nat (v div 256) :: u8) = v div 256"
    by (simp add: unat_of_nat take_bit_nat_def)
  moreover have "unat (word_of_nat v :: u8) = v mod 256"
    by (simp add: unat_of_nat take_bit_nat_def)
  ultimately show ?thesis by (simp add: ReadUint16_def be16_def)
qed

lemma index_of_nth: "index_of x xs = Some i \<Longrightarrow> i < length xs \<and> xs ! i = x"
  by (induction xs arbitrary: i) (auto split: if_splits)

lemma add_unique_nth:
  "add_unique x xs = (i, ys) \<Longrightarrow> i < length ys \<and> ys ! i = x \<and> (\<exists>zs. ys = xs @ zs)"
  by (auto simp: add_unique_def split: option.splits dest: index_of_nth)

end
