(* ===== verification/LF_Compiler.thy ===== *)
theory LF_Compiler
  imports VM_Program
begin

text \<open>
  The compiler of query expressions to bytecode: the tree of \<^verbatim>\<open>src/pkg/lynxflow/ast/ast.go\<close>, the
  compiler of \<^verbatim>\<open>src/pkg/vm/lynxflow_compiler.go\<close> and the emitters and the registry of functions of
  \<^verbatim>\<open>src/pkg/vm/lynxflow_func_registry.go\<close>.

  An emitter takes the program built so far and returns it extended, or an error; the compiler's
  stack of lambda parameters is the argument \<open>ps\<close>, which changes only while a lambda body is
  compiled. A function of the registry that only forwards to another emitter is entered with that
  emitter. The record \<open>lf_env\<close> holds what the emitters ask of other packages: whether a regular
  expression or a glob pattern is valid, the parsing of a network, the time, Unicode lower case and
  the text of an expression that stands where a pattern is expected.
\<close>

subsection \<open>Expressions\<close>

datatype literal =
    LitString gostring | LitRawString gostring | LitInt u64 | LitFloat u64 | LitBool bool | LitNull | LitDuration u64

datatype UnaryOp = Unary_Not | Unary_Neg

datatype BinaryOp =
    Binary_Or | Binary_And | Binary_Eq | Binary_NotEq | Binary_Lt | Binary_LtEq | Binary_Gt | Binary_GtEq
  | Binary_Add | Binary_Sub | Binary_Mul | Binary_Div | Binary_Mod | Binary_Coalesce

text \<open>A call has its receiver and whether it was reached by \<^verbatim>\<open>?.\<close>, its name, the mark of the strict variant, and arguments.\<close>

datatype Expr =
    Ident gostring
  | Literal literal
  | Array "Expr list"
  | Object "(gostring \<times> Expr) list"
  | Unary UnaryOp Expr
  | Binary BinaryOp Expr Expr
  | In Expr Expr
  | Between Expr Expr Expr
  | Call "Expr option" bool gostring bool "Expr list"
  | Member Expr gostring
  | SafeMember Expr gostring
  | Index Expr Expr
  | Slice Expr "Expr option" "Expr option"
  | Lambda "gostring list" Expr
  | Paren Expr
  | ErrorExpr gostring

record lf_env =
  le_regexp_ok :: "gostring \<Rightarrow> bool"
  le_glob_ok :: "gostring \<Rightarrow> bool"
  le_ParseCIDR :: "gostring \<Rightarrow> gostring option"
  le_Now :: u64
  le_ToLower :: "gostring \<Rightarrow> gostring"
  le_text :: "Expr \<Rightarrow> gostring"

datatype compile_error =
    ErrorNode
  | BareLambda
  | UnknownFunction gostring
  | WrongArity gostring
  | NoStrictVariant gostring
  | InvalidPattern gostring
  | NotALambda
  | WrongLambdaParams
  | BadAggregateName

type_synonym emitter = "Program \<Rightarrow> compile_error + Program"

subsection \<open>Emitters\<close>

definition bind :: "'e + 'a \<Rightarrow> ('a \<Rightarrow> 'e + 'b) \<Rightarrow> 'e + 'b" where
  "bind r k = (case r of Inl e \<Rightarrow> Inl e | Inr a \<Rightarrow> k a)"

definition emit :: "u8 \<Rightarrow> nat list \<Rightarrow> emitter" where
  "emit op operands p = Inr (snd (EmitOp op operands p))"

definition emit_const :: "u8 \<Rightarrow> Value \<Rightarrow> emitter" where
  "emit_const op v p = (case AddConstant v p of (idx, p') \<Rightarrow> emit op [idx] p')"

definition emit_field :: "u8 \<Rightarrow> gostring \<Rightarrow> emitter" where
  "emit_field op name p = (case AddFieldName name p of (idx, p') \<Rightarrow> emit op [idx] p')"

fun seq :: "emitter list \<Rightarrow> emitter" where
  "seq [] p = Inr p"
| "seq (f # fs) p = bind (f p) (seq fs)"

definition compileLiteral :: "literal \<Rightarrow> emitter" where
  "compileLiteral lit =
     (case lit of
        LitString s \<Rightarrow> emit_const OpConstStr (StringValue s)
      | LitRawString s \<Rightarrow> emit_const OpConstStr (StringValue s)
      | LitInt n \<Rightarrow> emit_const OpConstInt (IntValue n)
      | LitFloat f \<Rightarrow> emit_const OpConstFloat (FloatValue f)
      | LitBool b \<Rightarrow> emit (if b then OpConstTrue else OpConstFalse) []
      | LitNull \<Rightarrow> emit OpConstNull []
      | LitDuration d \<Rightarrow> emit_const OpConstDuration (DurationValue d))"

text \<open>
  The jumps of a short-circuit operator: a null left operand evaluates the right one and combines,
  a deciding left operand jumps to the constant, otherwise the result is the right operand.
\<close>

definition short_circuit :: "u8 \<Rightarrow> u8 \<Rightarrow> u8 \<Rightarrow> emitter \<Rightarrow> emitter \<Rightarrow> emitter" where
  "short_circuit jump nullOp const left right p =
     bind (left p) (\<lambda>p.
     let (jumpNull, p) = EmitOp OpJumpIfNull3VL [0] p;
         (jumpShort, p) = EmitOp jump [0] p in
     bind (right p) (\<lambda>p.
     let (jumpEnd1, p) = EmitOp OpJump [0] p;
         maybeNullLabel = Program_Len p in
     bind (right p) (\<lambda>p.
     let (_, p) = EmitOp nullOp [] p;
         (jumpEnd2, p) = EmitOp OpJump [0] p;
         shortLabel = Program_Len p;
         (_, p) = EmitOp const [] p;
         endLabel = Program_Len p;
         p = PatchUint16 (jumpNull + 1) maybeNullLabel p;
         p = PatchUint16 (jumpShort + 1) shortLabel p;
         p = PatchUint16 (jumpEnd1 + 1) endLabel p;
         p = PatchUint16 (jumpEnd2 + 1) endLabel p in
     Inr p)))"

definition compileAnd3VL :: "emitter \<Rightarrow> emitter \<Rightarrow> emitter" where
  "compileAnd3VL = short_circuit OpJumpIfFalse OpAnd3VLNull OpConstFalse"

definition compileOr3VL :: "emitter \<Rightarrow> emitter \<Rightarrow> emitter" where
  "compileOr3VL = short_circuit OpJumpIfTrue OpOr3VLNull OpConstTrue"

definition compileBetween :: "emitter \<Rightarrow> emitter \<Rightarrow> emitter \<Rightarrow> emitter" where
  "compileBetween x lo hi =
     short_circuit OpJumpIfFalse OpAnd3VLNull OpConstFalse
       (seq [x, lo, emit OpGteStrict []]) (seq [x, hi, emit OpLteStrict []])"

definition binary_opcode :: "BinaryOp \<Rightarrow> u8" where
  "binary_opcode op =
     (case op of
        Binary_Add \<Rightarrow> OpAddStrict | Binary_Sub \<Rightarrow> OpSubStrict | Binary_Mul \<Rightarrow> OpMulStrict
      | Binary_Div \<Rightarrow> OpDivStrict | Binary_Mod \<Rightarrow> OpModStrict
      | Binary_Eq \<Rightarrow> OpEqStrict | Binary_NotEq \<Rightarrow> OpNeqStrict | Binary_Lt \<Rightarrow> OpLtStrict
      | Binary_LtEq \<Rightarrow> OpLteStrict | Binary_Gt \<Rightarrow> OpGtStrict | Binary_GtEq \<Rightarrow> OpGteStrict
      | _ \<Rightarrow> OpNop)"

definition compileBinary :: "BinaryOp \<Rightarrow> emitter \<Rightarrow> emitter \<Rightarrow> emitter" where
  "compileBinary op left right =
     (if op = Binary_And then compileAnd3VL left right
      else if op = Binary_Or then compileOr3VL left right
      else if op = Binary_Coalesce then seq [left, right, emit OpCoalesce [2]]
      else seq [left, right, emit (binary_opcode op) []])"

definition compileUnary :: "UnaryOp \<Rightarrow> emitter \<Rightarrow> emitter" where
  "compileUnary op operand =
     seq [operand, emit (case op of Unary_Not \<Rightarrow> OpNot3VL | Unary_Neg \<Rightarrow> OpNegStrict) []]"

subsection \<open>Names and paths\<close>

definition lambdaParamDepth :: "gostring list \<Rightarrow> gostring \<Rightarrow> nat option" where
  "lambdaParamDepth ps name = index_of name (rev ps)"

definition compileIdent :: "gostring list \<Rightarrow> gostring \<Rightarrow> emitter" where
  "compileIdent ps name =
     (case lambdaParamDepth ps name of
        Some depth \<Rightarrow> emit OpLoadLambdaParam [depth]
      | None \<Rightarrow> emit_field OpLoadField name)"

fun collectIdentMemberPath :: "Expr \<Rightarrow> gostring list option" where
  "collectIdentMemberPath (Ident name) = Some [name]"
| "collectIdentMemberPath (Member obj f) = map_option (\<lambda>parts. parts @ [f]) (collectIdentMemberPath obj)"
| "collectIdentMemberPath e = None"

fun collectIdentSafeMemberPath :: "Expr \<Rightarrow> gostring list option" where
  "collectIdentSafeMemberPath (Ident name) = Some [name]"
| "collectIdentSafeMemberPath (Member obj f) = map_option (\<lambda>parts. parts @ [f]) (collectIdentSafeMemberPath obj)"
| "collectIdentSafeMemberPath (SafeMember obj f) = map_option (\<lambda>parts. parts @ [f]) (collectIdentSafeMemberPath obj)"
| "collectIdentSafeMemberPath e = None"

definition join_path :: "gostring list \<Rightarrow> gostring" where
  "join_path parts = strings_Join [46] parts"

definition compileMember :: "gostring list \<Rightarrow> Expr \<Rightarrow> gostring \<Rightarrow> emitter \<Rightarrow> emitter" where
  "compileMember ps obj f cobj =
     (case collectIdentMemberPath (Member obj f) of
        Some parts \<Rightarrow>
          if lambdaParamDepth ps (hd parts) \<noteq> None
          then seq (compileIdent ps (hd parts) # map (\<lambda>part. emit_const OpMember (StringValue part)) (tl parts))
          else emit_const OpLoadPath (StringValue (join_path parts))
      | None \<Rightarrow> seq [cobj, emit_const OpMember (StringValue f)])"

definition compileSafeMember :: "Expr \<Rightarrow> gostring \<Rightarrow> emitter \<Rightarrow> emitter" where
  "compileSafeMember obj f cobj =
     (case collectIdentSafeMemberPath (SafeMember obj f) of
        Some parts \<Rightarrow> emit_const OpLoadPath (StringValue (join_path parts))
      | None \<Rightarrow> seq [cobj, emit_const OpMember (StringValue f)])"

subsection \<open>Emitters of functions\<close>

text \<open>The arguments of a call: the trees, their emitters, and the emitters of the bodies of lambdas.\<close>

record lf_call =
  ca_Args :: "Expr list"
  ca_emit :: "emitter list"
  ca_body :: "emitter list"

abbreviation arg :: "lf_call \<Rightarrow> nat \<Rightarrow> emitter" where "arg c i \<equiv> ca_emit c ! i"

definition lfEmitUnary :: "u8 \<Rightarrow> lf_call \<Rightarrow> emitter" where
  "lfEmitUnary op c = seq [arg c 0, emit op []]"

definition lfEmitBinary :: "u8 \<Rightarrow> lf_call \<Rightarrow> emitter" where
  "lfEmitBinary op c = seq [arg c 0, arg c 1, emit op []]"

definition lfEmitTernary :: "u8 \<Rightarrow> lf_call \<Rightarrow> emitter" where
  "lfEmitTernary op c = seq [arg c 0, arg c 1, arg c 2, emit op []]"

definition lfEmitUnaryMath :: "nat \<Rightarrow> lf_call \<Rightarrow> emitter" where
  "lfEmitUnaryMath fn c = seq [arg c 0, emit OpMathUnary [fn]]"

definition lfEmitBinaryMath :: "nat \<Rightarrow> lf_call \<Rightarrow> emitter" where
  "lfEmitBinaryMath fn c = seq [arg c 0, arg c 1, emit OpMathBinary [fn]]"

definition lfEmitVariadicOp :: "u8 \<Rightarrow> lf_call \<Rightarrow> emitter" where
  "lfEmitVariadicOp op c = seq (ca_emit c @ [emit op [length (ca_emit c)]])"

text \<open>The check of a strict variant: a null result halts.\<close>

definition strict_check :: "gostring \<Rightarrow> emitter" where
  "strict_check name p =
     (let (_, p) = EmitOp OpDup [] p;
          (_, p) = EmitOp OpIsNull [] p;
          (jumpOk, p) = EmitOp OpJumpIfFalse [0] p;
          (_, p) = EmitOp OpPop [] p;
          (nameIdx, p) = AddConstant (StringValue (name @ bs ''!'')) p;
          (_, p) = EmitOp OpStrictCastFail [nameIdx] p in
      Inr (PatchUint16 (jumpOk + 1) (Program_Len p) p))"

definition lfStrictCast :: "gostring \<Rightarrow> u8 \<Rightarrow> lf_call \<Rightarrow> emitter" where
  "lfStrictCast name castOp c = seq [arg c 0, emit castOp [], strict_check name]"

definition lfEmitTimestamp :: "lf_call \<Rightarrow> emitter" where
  "lfEmitTimestamp c =
     seq [arg c 0,
          if length (ca_emit c) = 2 then arg c 1 else emit_const OpConstStr (StringValue (bs ''%Y-%m-%dT%H:%M:%SZ'')),
          emit OpStrptime []]"

definition lfStrictTimestamp :: "lf_call \<Rightarrow> emitter" where
  "lfStrictTimestamp c = seq [lfEmitTimestamp c, strict_check (bs ''timestamp'')]"

definition lfEmitDuration :: "lf_call \<Rightarrow> emitter" where
  "lfEmitDuration c = arg c 0"

definition lfEmitIf :: "lf_call \<Rightarrow> emitter" where
  "lfEmitIf c p =
     bind (arg c 0 p) (\<lambda>p.
     let (_, p) = EmitOp OpDup [] p;
         (jumpNull, p) = EmitOp OpJumpIfNull3VL [0] p;
         (jumpFalse, p) = EmitOp OpJumpIfFalse [0] p in
     bind (arg c 1 p) (\<lambda>p.
     let (jumpEnd1, p) = EmitOp OpJump [0] p;
         falseLabel = Program_Len p in
     bind (arg c 2 p) (\<lambda>p.
     let (jumpEnd2, p) = EmitOp OpJump [0] p;
         nullLabel = Program_Len p;
         (_, p) = EmitOp OpPop [] p;
         (_, p) = EmitOp OpConstNull [] p;
         endLabel = Program_Len p;
         p = PatchUint16 (jumpNull + 1) nullLabel p;
         p = PatchUint16 (jumpFalse + 1) falseLabel p;
         p = PatchUint16 (jumpEnd1 + 1) endLabel p;
         p = PatchUint16 (jumpEnd2 + 1) endLabel p in
     Inr p)))"

text \<open>The conditions of \<open>case\<close> with their values, then the default; the jumps to the end are patched last.\<close>

fun case_arms :: "emitter list \<Rightarrow> nat list \<Rightarrow> Program \<Rightarrow> compile_error + (nat list \<times> Program)" where
  "case_arms (cond # val # rest) ends p =
     bind (cond p) (\<lambda>p.
     let (jumpFalse, p) = EmitOp OpJumpIfFalse [0] p in
     bind (val p) (\<lambda>p.
     let (jumpEnd, p) = EmitOp OpJump [0] p;
         p = PatchUint16 (jumpFalse + 1) (Program_Len p) p in
     case_arms rest (ends @ [jumpEnd]) p))"
| "case_arms [deflt] ends p = bind (deflt p) (\<lambda>p. Inr (ends, p))"
| "case_arms [] ends p = bind (emit OpConstNull [] p) (\<lambda>p. Inr (ends, p))"

definition lfEmitCase :: "lf_call \<Rightarrow> emitter" where
  "lfEmitCase c p =
     bind (case_arms (ca_emit c) [] p) (\<lambda>(jumpEnds, p).
     Inr (foldl (\<lambda>q je. PatchUint16 (je + 1) (Program_Len p) q) p jumpEnds))"

definition lfEmitNullIf :: "lf_call \<Rightarrow> emitter" where
  "lfEmitNullIf c p =
     bind (seq [arg c 0, arg c 1, emit OpEqStrict []] p) (\<lambda>p.
     let (jumpFalse, p) = EmitOp OpJumpIfFalse [0] p;
         (_, p) = EmitOp OpConstNull [] p;
         (jumpEnd, p) = EmitOp OpJump [0] p;
         elsePos = Program_Len p in
     bind (arg c 0 p) (\<lambda>p.
     let endPos = Program_Len p;
         p = PatchUint16 (jumpFalse + 1) elsePos p;
         p = PatchUint16 (jumpEnd + 1) endPos p in
     Inr p))"

fun ident_name :: "Expr \<Rightarrow> gostring option" where
  "ident_name (Ident name) = Some name"
| "ident_name e = None"

definition lfEmitExists :: "lf_call \<Rightarrow> emitter" where
  "lfEmitExists c =
     (case ident_name (ca_Args c ! 0) of
        Some name \<Rightarrow> emit_field OpFieldExists name
      | None \<Rightarrow> seq [arg c 0, emit OpIsNotNull []])"

definition is_null_field :: "gostring \<Rightarrow> emitter" where
  "is_null_field name p =
     (let (idx, p) = AddFieldName name p;
          (_, p) = EmitOp OpFieldMissing [idx] p;
          (_, p) = EmitOp OpNot3VL [] p;
          (jumpFalse, p) = EmitOp OpJumpIfFalse [0] p;
          (_, p) = EmitOp OpLoadField [idx] p;
          (_, p) = EmitOp OpIsNull [] p;
          (jumpEnd, p) = EmitOp OpJump [0] p;
          falseLabel = Program_Len p;
          (_, p) = EmitOp OpConstFalse [] p;
          endLabel = Program_Len p;
          p = PatchUint16 (jumpFalse + 1) falseLabel p;
          p = PatchUint16 (jumpEnd + 1) endLabel p in
      Inr p)"

definition lfEmitIsNull :: "lf_call \<Rightarrow> emitter" where
  "lfEmitIsNull c =
     (case ident_name (ca_Args c ! 0) of
        Some name \<Rightarrow> is_null_field name
      | None \<Rightarrow> seq [arg c 0, emit OpIsNull []])"

definition lfEmitIsMissing :: "lf_call \<Rightarrow> emitter" where
  "lfEmitIsMissing c =
     (case ident_name (ca_Args c ! 0) of
        Some name \<Rightarrow> emit_field OpFieldMissing name
      | None \<Rightarrow> emit OpConstFalse [])"

text \<open>Functions with an optional last argument.\<close>

definition optional_arg :: "lf_call \<Rightarrow> nat \<Rightarrow> emitter \<Rightarrow> emitter" where
  "optional_arg c i deflt = (if length (ca_emit c) = Suc i then arg c i else deflt)"

definition lfEmitTrim :: "u8 \<Rightarrow> lf_call \<Rightarrow> emitter" where
  "lfEmitTrim op c =
     seq [arg c 0, optional_arg c 1 (emit_const OpConstStr (StringValue [32, 9, 13, 10])), emit op []]"

definition lfEmitSubstr :: "lf_call \<Rightarrow> emitter" where
  "lfEmitSubstr c =
     seq (ca_emit c @ (if length (ca_emit c) = 2 then [emit OpConstNull []] else []) @ [emit OpSubstr0Based []])"

definition lfEmitPad :: "u8 \<Rightarrow> lf_call \<Rightarrow> emitter" where
  "lfEmitPad op c = seq [arg c 0, arg c 1, optional_arg c 2 (emit_const OpConstStr (StringValue [32])), emit op []]"

definition lfEmitBar :: "lf_call \<Rightarrow> emitter" where
  "lfEmitBar c = seq [arg c 0, arg c 1, arg c 2, optional_arg c 3 (emit_const OpConstInt (IntValue 40)), emit OpBar []]"

definition lfEmitURLStripQuery :: "lf_call \<Rightarrow> emitter" where
  "lfEmitURLStripQuery c = seq [arg c 0, optional_arg c 1 (emit OpConstFalse []), emit OpURLStrip []]"

definition lfEmitRound :: "lf_call \<Rightarrow> emitter" where
  "lfEmitRound c = seq [arg c 0, optional_arg c 1 (emit_const OpConstInt (IntValue 0)), emit OpRound []]"

definition lfEmitLog :: "lf_call \<Rightarrow> emitter" where
  "lfEmitLog c = seq [arg c 0, optional_arg c 1 (emit_const OpConstFloat (FloatValue 0x4024000000000000)), emit OpLog []]"

definition lfEmitSlice :: "lf_call \<Rightarrow> emitter" where
  "lfEmitSlice c = seq [arg c 0, arg c 1, optional_arg c 2 (emit OpConstNull []), emit OpSlice []]"

definition lfEmitClampWithJumps :: "lf_call \<Rightarrow> emitter" where
  "lfEmitClampWithJumps c p =
     bind (seq [arg c 0, emit OpDup [], arg c 1, emit OpLtStrict []] p) (\<lambda>p.
     let (jumpNotLow, p) = EmitOp OpJumpIfFalse [0] p;
         (_, p) = EmitOp OpPop [] p in
     bind (arg c 1 p) (\<lambda>p.
     let (jumpEnd1, p) = EmitOp OpJump [0] p;
         notLowLabel = Program_Len p in
     bind (seq [emit OpDup [], arg c 2, emit OpGtStrict []] p) (\<lambda>p.
     let (jumpNotHigh, p) = EmitOp OpJumpIfFalse [0] p;
         (_, p) = EmitOp OpPop [] p in
     bind (arg c 2 p) (\<lambda>p.
     let (jumpEnd2, p) = EmitOp OpJump [0] p;
         notHighLabel = Program_Len p;
         endLabel = Program_Len p;
         p = PatchUint16 (jumpNotLow + 1) notLowLabel p;
         p = PatchUint16 (jumpNotHigh + 1) notHighLabel p;
         p = PatchUint16 (jumpEnd1 + 1) endLabel p;
         p = PatchUint16 (jumpEnd2 + 1) endLabel p in
     Inr p))))"

definition lfEmitClamp :: "lf_call \<Rightarrow> emitter" where
  "lfEmitClamp c = seq [arg c 0, arg c 1, arg c 2, lfEmitClampWithJumps c]"

definition lfEmitNow :: "lf_env \<Rightarrow> emitter" where
  "lfEmitNow E = emit_const OpConstInt (TimestampValue (le_Now E))"

definition lfEmitBin :: "lf_call \<Rightarrow> emitter" where
  "lfEmitBin c =
     (if length (ca_emit c) = 3 then seq [arg c 0, arg c 1, arg c 2, emit OpBinOrigin []]
      else seq [arg c 0, arg c 1, emit OpBin []])"

definition lfEmitStrftime :: "lf_call \<Rightarrow> emitter" where
  "lfEmitStrftime c = seq (ca_emit c @ [emit (if length (ca_emit c) = 3 then OpStrftimeTZ else OpStrftime) []])"

definition lfEmitTimeOfDay :: "lf_call \<Rightarrow> emitter" where
  "lfEmitTimeOfDay c =
     (if length (ca_emit c) = 2 then seq [arg c 0, arg c 1, emit OpTimeOfDayTZ []]
      else seq [arg c 0, emit OpTimeOfDay []])"

definition lfEmitDayOfWeek :: "lf_call \<Rightarrow> emitter" where
  "lfEmitDayOfWeek c =
     (if length (ca_emit c) = 2
      then seq [arg c 0, emit_const OpConstStr (StringValue (bs ''dow'')), arg c 1, emit OpDatePart [3]]
      else seq [arg c 0, emit OpDayOfWeek []])"

definition lfEmitURLMember :: "gostring \<Rightarrow> lf_call \<Rightarrow> emitter" where
  "lfEmitURLMember member c = seq [arg c 0, emit OpURLParse [], emit_const OpMember (StringValue member)]"

definition lfEmitIsIP :: "lf_call \<Rightarrow> emitter" where
  "lfEmitIsIP c = seq [arg c 0, emit OpIPParseObj [], emit OpIsNull [], emit OpNot []]"

definition lfEmitIsIPVersion :: "u64 \<Rightarrow> lf_call \<Rightarrow> emitter" where
  "lfEmitIsIPVersion version c =
     seq [arg c 0, emit OpIPParseObj [], emit_const OpMember (StringValue (bs ''version'')),
          emit_const OpConstInt (IntValue version), emit OpEqStrict [], emit OpConstFalse [], emit OpCoalesce [2]]"

text \<open>Patterns are taken from the tree of the argument.\<close>

definition lfExprToString :: "lf_env \<Rightarrow> Expr \<Rightarrow> gostring" where
  "lfExprToString E e =
     (case e of Literal (LitString s) \<Rightarrow> s | Literal (LitRawString s) \<Rightarrow> s | _ \<Rightarrow> le_text E e)"

definition addValidatedRegex :: "lf_env \<Rightarrow> gostring \<Rightarrow> Program \<Rightarrow> compile_error + (nat \<times> Program)" where
  "addValidatedRegex E pattern p =
     (if le_regexp_ok E pattern then Inr (AddRegex pattern p) else Inl (InvalidPattern pattern))"

definition lfEmitRegex :: "lf_env \<Rightarrow> u8 \<Rightarrow> lf_call \<Rightarrow> emitter" where
  "lfEmitRegex E op c p =
     bind (arg c 0 p) (\<lambda>p.
     bind (addValidatedRegex E (lfExprToString E (ca_Args c ! 1)) p) (\<lambda>(regIdx, p). emit op [regIdx] p))"

definition lfEmitReplace :: "lf_env \<Rightarrow> u8 \<Rightarrow> lf_call \<Rightarrow> emitter" where
  "lfEmitReplace E op c p =
     bind (arg c 0 p) (\<lambda>p.
     bind (addValidatedRegex E (lfExprToString E (ca_Args c ! 1)) p) (\<lambda>(regIdx, p).
     bind (arg c 2 p) (emit op [regIdx])))"

definition emit_glob :: "lf_env \<Rightarrow> u8 \<Rightarrow> gostring \<Rightarrow> emitter" where
  "emit_glob E op pattern p =
     (if le_glob_ok E pattern then (case AddGlob pattern p of (globIdx, p) \<Rightarrow> emit op [globIdx] p)
      else Inl (InvalidPattern pattern))"

definition lfEmitGlob :: "lf_env \<Rightarrow> lf_call \<Rightarrow> emitter" where
  "lfEmitGlob E c = seq [arg c 0, emit_glob E OpGlobMatch (lfExprToString E (ca_Args c ! 1))]"

definition lfEmitHasGlob :: "lf_env \<Rightarrow> lf_call \<Rightarrow> emitter" where
  "lfEmitHasGlob E c = seq [arg c 0, emit_glob E OpHasTokenGlob (le_ToLower E (lfExprToString E (ca_Args c ! 1)))]"

definition lfEmitCIDRMatch :: "lf_env \<Rightarrow> lf_call \<Rightarrow> emitter" where
  "lfEmitCIDRMatch E c p =
     (let cidr = lfExprToString E (ca_Args c ! 0) in
      case AddCIDR (le_ParseCIDR E) cidr p of
        None \<Rightarrow> Inl (InvalidPattern cidr)
      | Some (idx, p) \<Rightarrow> bind (arg c 1 p) (emit OpCIDRMatch [idx]))"

text \<open>Lambdas.\<close>

fun lambda_params :: "Expr \<Rightarrow> gostring list option" where
  "lambda_params (Lambda qs body) = Some qs"
| "lambda_params e = None"

definition compileLambdaBody :: "emitter \<Rightarrow> Program \<Rightarrow> compile_error + (nat \<times> Program)" where
  "compileLambdaBody body p =
     bind (body (p\<lparr>pr_Instructions := []\<rparr>)) (\<lambda>q.
     let (_, q) = EmitOp OpReturn [] q in
     Inr (AddSubProgram (pr_Instructions q) (q\<lparr>pr_Instructions := pr_Instructions p\<rparr>)))"

definition emit_lambda :: "u8 \<Rightarrow> nat \<Rightarrow> nat \<Rightarrow> lf_call \<Rightarrow> emitter" where
  "emit_lambda op i arity c p =
     (case lambda_params (ca_Args c ! i) of
        None \<Rightarrow> Inl NotALambda
      | Some qs \<Rightarrow>
          if length qs \<noteq> arity then Inl WrongLambdaParams
          else bind (compileLambdaBody (ca_body c ! i) p) (\<lambda>(subIdx, p). emit op [subIdx] p))"

definition lfEmitLambdaOp :: "u8 \<Rightarrow> lf_call \<Rightarrow> emitter" where
  "lfEmitLambdaOp op c = seq [arg c 0, emit_lambda op 1 1 c]"

definition lfEmitArrayReduce :: "lf_call \<Rightarrow> emitter" where
  "lfEmitArrayReduce c = seq [arg c 0, arg c 1, emit_lambda OpArrayReduce 2 2 c]"

definition lfEmitArrayCount :: "lf_call \<Rightarrow> emitter" where
  "lfEmitArrayCount c = seq [lfEmitLambdaOp OpArrayFilter c, emit OpLen []]"

definition aggregate_names :: "gostring list" where
  "aggregate_names = map bs [''p50'', ''p75'', ''p90'', ''p95'', ''p99'', ''dc'', ''value_counts'', ''entropy'',
     ''mode'', ''stdev'', ''var'', ''mad'']"

definition arrayReduceAggName :: "lf_env \<Rightarrow> Expr \<Rightarrow> compile_error + gostring" where
  "arrayReduceAggName E e =
     (case (case e of Literal (LitString s) \<Rightarrow> Some s | Literal (LitRawString s) \<Rightarrow> Some s | _ \<Rightarrow> None) of
        None \<Rightarrow> Inl BadAggregateName
      | Some s \<Rightarrow>
          let name = le_ToLower E s in if name \<in> set aggregate_names then Inr name else Inl BadAggregateName)"

definition lfEmitArrayAggReduce :: "lf_env \<Rightarrow> lf_call \<Rightarrow> emitter" where
  "lfEmitArrayAggReduce E c p =
     bind (arrayReduceAggName E (ca_Args c ! 0)) (\<lambda>aggName.
     seq [arg c 1, emit_const OpArrayAggReduce (StringValue aggName)] p)"

subsection \<open>The registry\<close>

datatype emit_kind =
    EUnary u8 | EBinary u8 | ETernary u8 | EUnaryMath nat | EBinaryMath nat | EVariadic u8
  | EStrictCast gostring u8 | ETimestamp | EStrictTimestamp | EDuration | EIf | ECase | ENullIf
  | EExists | EIsNull | EIsMissing | ETrim u8 | ESubstr | EPad u8 | EBar | EURLStripQuery | ERound | ELog
  | ESlice | EClamp | ENow | EBin | EStrftime | ETimeOfDay | EDayOfWeek | EURLMember gostring | EIsIP
  | EIsIPVersion u64 | ERegex u8 | EReplace u8 | EGlob | EHasGlob | ECIDRMatch | ELambda u8 | EArrayReduce
  | EArrayCount | EArrayAggReduce | EStrictFromJSON

definition emit_call :: "lf_env \<Rightarrow> emit_kind \<Rightarrow> lf_call \<Rightarrow> emitter" where
  "emit_call E k c =
     (case k of
        EUnary op \<Rightarrow> lfEmitUnary op c
      | EBinary op \<Rightarrow> lfEmitBinary op c
      | ETernary op \<Rightarrow> lfEmitTernary op c
      | EUnaryMath fn \<Rightarrow> lfEmitUnaryMath fn c
      | EBinaryMath fn \<Rightarrow> lfEmitBinaryMath fn c
      | EVariadic op \<Rightarrow> lfEmitVariadicOp op c
      | EStrictCast name op \<Rightarrow> lfStrictCast name op c
      | ETimestamp \<Rightarrow> lfEmitTimestamp c
      | EStrictTimestamp \<Rightarrow> lfStrictTimestamp c
      | EDuration \<Rightarrow> lfEmitDuration c
      | EIf \<Rightarrow> lfEmitIf c
      | ECase \<Rightarrow> lfEmitCase c
      | ENullIf \<Rightarrow> lfEmitNullIf c
      | EExists \<Rightarrow> lfEmitExists c
      | EIsNull \<Rightarrow> lfEmitIsNull c
      | EIsMissing \<Rightarrow> lfEmitIsMissing c
      | ETrim op \<Rightarrow> lfEmitTrim op c
      | ESubstr \<Rightarrow> lfEmitSubstr c
      | EPad op \<Rightarrow> lfEmitPad op c
      | EBar \<Rightarrow> lfEmitBar c
      | EURLStripQuery \<Rightarrow> lfEmitURLStripQuery c
      | ERound \<Rightarrow> lfEmitRound c
      | ELog \<Rightarrow> lfEmitLog c
      | ESlice \<Rightarrow> lfEmitSlice c
      | EClamp \<Rightarrow> lfEmitClamp c
      | ENow \<Rightarrow> lfEmitNow E
      | EBin \<Rightarrow> lfEmitBin c
      | EStrftime \<Rightarrow> lfEmitStrftime c
      | ETimeOfDay \<Rightarrow> lfEmitTimeOfDay c
      | EDayOfWeek \<Rightarrow> lfEmitDayOfWeek c
      | EURLMember member \<Rightarrow> lfEmitURLMember member c
      | EIsIP \<Rightarrow> lfEmitIsIP c
      | EIsIPVersion v \<Rightarrow> lfEmitIsIPVersion v c
      | ERegex op \<Rightarrow> lfEmitRegex E op c
      | EReplace op \<Rightarrow> lfEmitReplace E op c
      | EGlob \<Rightarrow> lfEmitGlob E c
      | EHasGlob \<Rightarrow> lfEmitHasGlob E c
      | ECIDRMatch \<Rightarrow> lfEmitCIDRMatch E c
      | ELambda op \<Rightarrow> lfEmitLambdaOp op c
      | EArrayReduce \<Rightarrow> lfEmitArrayReduce c
      | EArrayCount \<Rightarrow> lfEmitArrayCount c
      | EArrayAggReduce \<Rightarrow> lfEmitArrayAggReduce E c
      | EStrictFromJSON \<Rightarrow> seq [lfEmitUnary OpFromJSONNative c, strict_check (bs ''from_json'')])"

text \<open>Name, least and greatest number of arguments, emitter, emitter of the strict variant.\<close>

type_synonym lfFuncSpec = "nat \<times> nat option \<times> emit_kind \<times> emit_kind option"

definition buildLFFuncSpecs :: "(gostring \<times> lfFuncSpec) list" where
  "buildLFFuncSpecs =
    [(bs ''int'', 1, Some 1, EUnary OpToInt, Some (EStrictCast (bs ''int'') OpToInt)),
     (bs ''float'', 1, Some 1, EUnary OpToFloat, Some (EStrictCast (bs ''float'') OpToFloat)),
     (bs ''string'', 1, Some 1, EUnary OpToString, None),
     (bs ''bool'', 1, Some 1, EUnary OpToBool, Some (EStrictCast (bs ''bool'') OpToBool)),
     (bs ''timestamp'', 1, Some 2, ETimestamp, Some (EStrictTimestamp)),
     (bs ''duration'', 1, Some 1, EDuration, Some (EStrictCast (bs ''duration'') OpToInt)),
     (bs ''if'', 3, Some 3, EIf, None),
     (bs ''case'', 0, None, ECase, None),
     (bs ''remap'', 3, Some 4, EVariadic OpRemap, None),
     (bs ''coalesce'', 1, None, EVariadic OpCoalesce, None),
     (bs ''nullif'', 2, Some 2, ENullIf, None),
     (bs ''exists'', 1, Some 1, EExists, None),
     (bs ''is_null'', 1, Some 1, EIsNull, None),
     (bs ''is_missing'', 1, Some 1, EIsMissing, None),
     (bs ''typeof'', 1, Some 1, EUnary OpTypeOf, None),
     (bs ''len'', 1, Some 1, EUnary OpLen, None),
     (bs ''lower'', 1, Some 1, EUnary OpToLower, None),
     (bs ''upper'', 1, Some 1, EUnary OpToUpper, None),
     (bs ''trim'', 1, Some 2, ETrim OpTrim, None),
     (bs ''ltrim'', 1, Some 2, ETrim OpLTrim, None),
     (bs ''rtrim'', 1, Some 2, ETrim OpRTrim, None),
     (bs ''substr'', 2, Some 3, ESubstr, None),
     (bs ''replace'', 3, Some 3, EReplace OpReplace, None),
     (bs ''replace_first'', 3, Some 3, EReplace OpReplaceFirst, None),
     (bs ''split'', 2, Some 2, EBinary OpSplitArr, None),
     (bs ''split_regex'', 2, Some 2, ERegex OpSplitRegex, None),
     (bs ''split_part'', 3, Some 3, ETernary OpSplitPart, None),
     (bs ''index_of'', 2, Some 2, EBinary OpIndexOf, None),
     (bs ''count_substr'', 2, Some 2, EBinary OpCountSubstr, None),
     (bs ''count_matches'', 2, Some 2, ERegex OpCountMatches, None),
     (bs ''lpad'', 2, Some 3, EPad OpLPad, None),
     (bs ''rpad'', 2, Some 3, EPad OpRPad, None),
     (bs ''repeat'', 2, Some 2, EBinary OpRepeat, None),
     (bs ''translate'', 3, Some 3, ETernary OpTranslate, None),
     (bs ''levenshtein'', 2, Some 3, EVariadic OpLevenshtein, None),
     (bs ''jaro_winkler'', 2, Some 2, EBinary OpJaroWinkler, None),
     (bs ''join'', 2, Some 2, EBinary OpJoinArr, None),
     (bs ''starts_with'', 2, Some 2, EBinary OpStartsWith, None),
     (bs ''ends_with'', 2, Some 2, EBinary OpEndsWith, None),
     (bs ''printf'', 1, None, EVariadic OpPrintf, None),
     (bs ''urldecode'', 1, Some 1, EUnary OpURLDecode, None),
     (bs ''urlencode'', 1, Some 1, EUnary OpURLEncode, None),
     (bs ''regex_escape'', 1, Some 1, EUnary OpRegexEscape, None),
     (bs ''normalize_utf8'', 1, Some 2, EVariadic OpNormalizeUTF8, None),
     (bs ''punycode_encode'', 1, Some 1, EUnary OpPunycodeEncode, None),
     (bs ''punycode_decode'', 1, Some 1, EUnary OpPunycodeDecode, None),
     (bs ''base64_decode'', 1, Some 1, EUnary OpBase64Decode, Some (EStrictCast (bs ''base64_decode'') OpBase64Decode)),
     (bs ''base64_encode'', 1, Some 1, EUnary OpBase64Encode, None),
     (bs ''base64url_decode'', 1, Some 1, EUnary OpBase64URLDecode, Some (EStrictCast (bs ''base64url_decode'') OpBase64URLDecode)),
     (bs ''base64url_encode'', 1, Some 1, EUnary OpBase64URLEncode, None),
     (bs ''hex'', 1, Some 1, EUnary OpHex, None),
     (bs ''unhex'', 1, Some 1, EUnary OpUnhex, Some (EStrictCast (bs ''unhex'') OpUnhex)),
     (bs ''url_domain'', 1, Some 1, EURLMember (bs ''host''), None),
     (bs ''url_etld1'', 1, Some 1, EUnary OpURLETLD1, None),
     (bs ''url_tld'', 1, Some 1, EUnary OpURLTLD, None),
     (bs ''url_path'', 1, Some 1, EURLMember (bs ''path''), None),
     (bs ''url_protocol'', 1, Some 1, EURLMember (bs ''scheme''), None),
     (bs ''url_param'', 2, Some 2, EBinary OpURLParam, None),
     (bs ''url_strip_query'', 1, Some 2, EURLStripQuery, None),
     (bs ''path_normalize'', 1, Some 1, EUnary OpPathNormalize, None),
     (bs ''useragent_parse'', 1, Some 1, EUnary OpUserAgentParse, None),
     (bs ''has'', 2, Some 2, EBinary OpHasToken, None),
     (bs ''contains'', 2, Some 2, EBinary OpContainsCI, None),
     (bs ''contains_cs'', 2, Some 2, EBinary OpContains, None),
     (bs ''has_any'', 2, Some 2, EBinary OpHasAny, None),
     (bs ''has_all'', 2, Some 2, EBinary OpHasAll, None),
     (bs ''contains_phrase'', 2, Some 2, EBinary OpContainsPhrase, None),
     (bs ''contains_any'', 2, Some 2, EBinary OpContainsAny, None),
     (bs ''contains_any_cs'', 2, Some 2, EBinary OpContainsAnyCS, None),
     (bs ''matches_any'', 2, Some 2, EBinary OpMatchesAny, None),
     (bs ''glob'', 2, Some 2, EGlob, None),
     (bs ''has_glob'', 2, Some 2, EHasGlob, None),
     (bs ''tokens'', 1, Some 1, EUnary OpTokens, None),
     (bs ''matches'', 2, Some 2, ERegex OpStrMatch, None),
     (bs ''extract'', 2, Some 2, ERegex OpExtract, None),
     (bs ''extract_all'', 2, Some 2, ERegex OpExtractAll, None),
     (bs ''extract_groups'', 2, Some 2, ERegex OpExtractGroups, None),
     (bs ''abs'', 1, Some 1, EUnary OpAbs, None),
     (bs ''round'', 1, Some 2, ERound, None),
     (bs ''floor'', 1, Some 1, EUnary OpFloor, None),
     (bs ''ceil'', 1, Some 1, EUnary OpCeil, None),
     (bs ''sqrt'', 1, Some 1, EUnary OpSqrt, None),
     (bs ''ln'', 1, Some 1, EUnary OpLn, None),
     (bs ''log'', 1, Some 2, ELog, None),
     (bs ''exp'', 1, Some 1, EUnary OpExp, None),
     (bs ''pow'', 2, Some 2, EBinary OpPow, None),
     (bs ''clamp'', 3, Some 3, EClamp, None),
     (bs ''bucket'', 2, Some 2, EBinary OpBucket, None),
     (bs ''sin'', 1, Some 1, EUnaryMath 8, None),
     (bs ''cos'', 1, Some 1, EUnaryMath 6, None),
     (bs ''tan'', 1, Some 1, EUnaryMath 10, None),
     (bs ''asin'', 1, Some 1, EUnaryMath 2, None),
     (bs ''acos'', 1, Some 1, EUnaryMath 0, None),
     (bs ''atan'', 1, Some 1, EUnaryMath 4, None),
     (bs ''atan2'', 2, Some 2, EBinaryMath 12, None),
     (bs ''is_finite'', 1, Some 1, EUnary OpIsFinite, None),
     (bs ''is_nan'', 1, Some 1, EUnary OpIsNaN, None),
     (bs ''bit_and'', 2, Some 2, EBinary OpBitAnd, None),
     (bs ''bit_or'', 2, Some 2, EBinary OpBitOr, None),
     (bs ''bit_xor'', 2, Some 2, EBinary OpBitXor, None),
     (bs ''bit_shl'', 2, Some 2, EBinary OpBitShl, None),
     (bs ''bit_shr'', 2, Some 2, EBinary OpBitShr, None),
     (bs ''greatest'', 1, None, EVariadic OpGreatest, None),
     (bs ''least'', 1, None, EVariadic OpLeast, None),
     (bs ''humanize_bytes'', 1, Some 1, EUnary OpHumanizeBytes, None),
     (bs ''humanize_count'', 1, Some 1, EUnary OpHumanizeCount, None),
     (bs ''humanize_duration'', 1, Some 1, EUnary OpHumanizeDur, None),
     (bs ''bar'', 3, Some 4, EBar, None),
     (bs ''now'', 0, Some 0, ENow, None),
     (bs ''bin'', 2, Some 3, EBin, None),
     (bs ''strftime'', 2, Some 3, EStrftime, None),
     (bs ''strptime'', 2, Some 2, EBinary OpStrptime, Some (EStrictCast (bs ''strptime'') OpStrptime)),
     (bs ''time_of_day'', 1, Some 2, ETimeOfDay, None),
     (bs ''day_of_week'', 1, Some 2, EDayOfWeek, None),
     (bs ''from_unix'', 2, Some 2, EBinary OpFromUnix, None),
     (bs ''to_unix'', 2, Some 2, EBinary OpToUnix, None),
     (bs ''date_trunc'', 2, Some 3, EVariadic OpDateTrunc, None),
     (bs ''date_part'', 2, Some 3, EVariadic OpDatePart, None),
     (bs ''date_diff'', 3, Some 3, ETernary OpDateDiff, None),
     (bs ''timestamp_guess'', 1, Some 1, EUnary OpTimestampGuess, None),
     (bs ''md5'', 1, Some 1, EUnary OpMD5, None),
     (bs ''sha1'', 1, Some 1, EUnary OpSHA1, None),
     (bs ''sha256'', 1, Some 1, EUnary OpSHA256, None),
     (bs ''xxhash64'', 1, Some 1, EUnary OpXXHash64, None),
     (bs ''cidr_match'', 2, Some 2, ECIDRMatch, None),
     (bs ''ip_parse'', 1, Some 1, EUnary OpIPParseObj, None),
     (bs ''is_ip'', 1, Some 1, EIsIP, None),
     (bs ''is_ipv4'', 1, Some 1, EIsIPVersion 4, None),
     (bs ''is_ipv6'', 1, Some 1, EIsIPVersion 6, None),
     (bs ''ip_to_int'', 1, Some 1, EUnary OpIPToInt, None),
     (bs ''ip_from_int'', 1, Some 1, EUnary OpIPFromInt, None),
     (bs ''ipmask'', 2, Some 2, EBinary OpIPMask, None),
     (bs ''slice'', 2, Some 3, ESlice, None),
     (bs ''array_concat'', 1, None, EVariadic OpArrayConcat, None),
     (bs ''array_distinct'', 1, Some 1, EUnary OpArrayDistinct, None),
     (bs ''array_sort'', 1, Some 1, EUnary OpArraySort, None),
     (bs ''array_sum'', 1, Some 1, EUnary OpArraySum, None),
     (bs ''array_avg'', 1, Some 1, EUnary OpArrayAvg, None),
     (bs ''array_min'', 1, Some 1, EUnary OpArrayMin, None),
     (bs ''array_max'', 1, Some 1, EUnary OpArrayMax, None),
     (bs ''array_compact'', 1, Some 1, EUnary OpArrayCompact, None),
     (bs ''array_deltas'', 1, Some 1, EUnary OpArrayDeltas, None),
     (bs ''array_cumsum'', 1, Some 1, EUnary OpArrayCumSum, None),
     (bs ''generate_series'', 2, Some 3, EVariadic OpGenerateSeries, None),
     (bs ''zip'', 1, None, EVariadic OpZip, None),
     (bs ''flatten'', 1, Some 1, EUnary OpFlatten, None),
     (bs ''any'', 2, Some 2, ELambda OpArrayAny, None),
     (bs ''all'', 2, Some 2, ELambda OpArrayAll, None),
     (bs ''filter'', 2, Some 2, ELambda OpArrayFilter, None),
     (bs ''map'', 2, Some 2, ELambda OpArrayMap, None),
     (bs ''reduce'', 3, Some 3, EArrayReduce, None),
     (bs ''array_reduce'', 2, Some 2, EArrayAggReduce, None),
     (bs ''array_count'', 2, Some 2, EArrayCount, None),
     (bs ''array_has_any'', 2, Some 2, EBinary OpArrayHasAny, None),
     (bs ''array_has_all'', 2, Some 2, EBinary OpArrayHasAll, None),
     (bs ''array_intersect'', 2, Some 2, EBinary OpArrayIntersect, None),
     (bs ''array_except'', 2, Some 2, EBinary OpArrayExcept, None),
     (bs ''keys'', 1, Some 1, EUnary OpKeys, None),
     (bs ''values'', 1, Some 1, EUnary OpValues, None),
     (bs ''merge'', 2, Some 2, EBinary OpMerge, None),
     (bs ''has_key'', 2, Some 2, EBinary OpHasKey, None),
     (bs ''entries'', 1, Some 1, EUnary OpEntries, None),
     (bs ''from_entries'', 1, Some 1, EUnary OpFromEntries, None),
     (bs ''url_parse'', 1, Some 1, EUnary OpURLParse, None),
     (bs ''to_json'', 1, Some 1, EUnary OpToString, None),
     (bs ''from_json'', 1, Some 1, EUnary OpFromJSONNative, Some (EStrictFromJSON)),
     (bs ''is_json'', 1, Some 1, EUnary OpIsJSON, None),
     (bs ''json_value'', 2, Some 2, EBinary OpJsonValue, None),
     (bs ''json_query'', 2, Some 2, EBinary OpJsonQuery, None)]"

definition lookupLFFunc :: "gostring \<Rightarrow> lfFuncSpec option" where
  "lookupLFFunc name = map_of buildLFFuncSpecs name"

definition checkArity :: "lfFuncSpec \<Rightarrow> nat \<Rightarrow> bool" where
  "checkArity spec argc =
     (case spec of (minArgs, maxArgs, _, _) \<Rightarrow>
        minArgs \<le> argc \<and> (case maxArgs of None \<Rightarrow> True | Some m \<Rightarrow> argc \<le> m))"

definition compileCall :: "lf_env \<Rightarrow> gostring \<Rightarrow> bool \<Rightarrow> lf_call \<Rightarrow> emitter" where
  "compileCall E name bang c p =
     (case lookupLFFunc name of
        None \<Rightarrow> Inl (UnknownFunction name)
      | Some spec \<Rightarrow>
          if \<not> checkArity spec (length (ca_Args c)) then Inl (WrongArity name)
          else (case spec of (_, _, k, strict) \<Rightarrow>
                  if bang then (case strict of None \<Rightarrow> Inl (NoStrictVariant name) | Some ks \<Rightarrow> emit_call E ks c p)
                  else emit_call E k c p))"

subsection \<open>The compiler\<close>

text \<open>A method call passes its receiver as the first argument; \<^verbatim>\<open>?.\<close> leaves a test in front of it.\<close>

definition call_args :: "Expr option \<Rightarrow> Expr list \<Rightarrow> Expr list" where
  "call_args receiver es = (case receiver of None \<Rightarrow> es | Some r \<Rightarrow> r # es)"

definition safe_nav_prefix :: "emitter \<Rightarrow> emitter" where
  "safe_nav_prefix receiver = seq [receiver, emit OpDup [], emit OpJumpIfNull3VL [0]]"

definition fails :: "compile_error \<Rightarrow> emitter" where "fails e p = Inl e"

lemma size_list_member: "e \<in> set es \<Longrightarrow> size e \<le> size_list size es"
  by (induction es) auto

lemma size_entries_member: "(k, e) \<in> set kvs \<Longrightarrow> size e \<le> size_list (size_prod (\<lambda>x. 0) size) kvs"
  by (induction kvs) auto

lemma call_args_size: "e \<in> set (call_args r es) \<Longrightarrow> size e < Suc (size_option size r + size_list size es)"
  by (auto simp: call_args_def dest: size_list_member split: option.splits)

lemma call_args_body_size:
  "Lambda qs body \<in> set (call_args r es) \<Longrightarrow> size body < Suc (size_option size r + size_list size es)"
  using call_args_size [of "Lambda qs body"] by fastforce

lemmas member_sizes = size_list_member size_entries_member call_args_size call_args_body_size

function (sequential) compile :: "lf_env \<Rightarrow> gostring list \<Rightarrow> Expr \<Rightarrow> emitter" where
  "compile E ps (Literal lit) = compileLiteral lit"
| "compile E ps (Ident name) = compileIdent ps name"
| "compile E ps (Paren e) = compile E ps e"
| "compile E ps (Unary op e) = compileUnary op (compile E ps e)"
| "compile E ps (Binary op a b) = compileBinary op (compile E ps a) (compile E ps b)"
| "compile E ps (In a (Array es)) =
     (if es = [] then emit OpConstFalse []
      else seq (compile E ps a # map (compile E ps) es @ [emit OpInStrict [length es]]))"
| "compile E ps (In a b) = seq [compile E ps a, compile E ps b, emit OpInStrict [0]]"
| "compile E ps (Between x lo hi) = compileBetween (compile E ps x) (compile E ps lo) (compile E ps hi)"
| "compile E ps (Call receiver safeNav callee bang es) =
     (let as = call_args receiver es in
      seq [(case receiver of Some r \<Rightarrow> if safeNav then safe_nav_prefix (compile E ps r) else seq [] | None \<Rightarrow> seq []),
           compileCall E callee bang
             \<lparr>ca_Args = as, ca_emit = map (compile E ps) as,
              ca_body = map (\<lambda>e. case e of Lambda qs body \<Rightarrow> compile E (ps @ qs) body | _ \<Rightarrow> fails NotALambda) as\<rparr>])"
| "compile E ps (Member obj f) = compileMember ps obj f (compile E ps obj)"
| "compile E ps (SafeMember obj f) = compileSafeMember obj f (compile E ps obj)"
| "compile E ps (Index obj idx) = seq [compile E ps obj, compile E ps idx, emit OpIndex []]"
| "compile E ps (Slice obj start end) =
     seq [compile E ps obj,
          (case start of Some e \<Rightarrow> compile E ps e | None \<Rightarrow> compileLiteral (LitInt 0)),
          (case end of Some e \<Rightarrow> compile E ps e | None \<Rightarrow> emit OpConstNull []),
          emit OpSlice []]"
| "compile E ps (Array es) = seq (map (compile E ps) es @ [emit OpArrayBuild [length es]])"
| "compile E ps (Object kvs) =
     seq (map (\<lambda>(k, e). seq [emit_const OpConstStr (StringValue k), compile E ps e]) kvs
          @ [emit OpObjectBuild [length kvs]])"
| "compile E ps (ErrorExpr msg) = fails ErrorNode"
| "compile E ps (Lambda qs body) = fails BareLambda"
  by pat_completeness auto

termination
  by (relation "measure (\<lambda>(E, ps, e). size e)") (auto dest: member_sizes)

definition CompileLynxFlow :: "lf_env \<Rightarrow> Expr \<Rightarrow> compile_error + Program" where
  "CompileLynxFlow E e = bind (compile E [] e empty_program) (emit OpReturn [])"

end
