(* ===== verification/VM_Exec.thy ===== *)
theory VM_Exec
  imports VM_Program Value_Functions
begin

text \<open>
  The virtual machine of \<^verbatim>\<open>src/pkg/vm/vm.go\<close> with the lambda opcodes of \<^verbatim>\<open>src/pkg/vm/lynxflow_ops.go\<close>.

  The stack is Go's array of 256 values with a stack pointer: the machine keeps the values above the
  pointer, and the body of a lambda runs on the same array from position 0. A read or a write
  outside the array panics, and so does an operation on a value of the wrong type;
  \<open>ExecuteWithContext\<close> recovers from both and returns \<open>ErrVMTypeMismatch\<close>. Inside the machine the two
  are kept apart: an access outside the array is the outcome \<open>StackPanic\<close> until it is recovered.

  \<open>run\<close> takes fuel: bytecode may loop. The field \<open>vl_rest\<close> of the library record is the remainder of
  the switch: the opcodes listed in \<open>rest_ops\<close>, which call regular expressions, URLs, hashes, time
  zones, JSON and Unicode tables.
\<close>

definition StackSize :: nat where "StackSize = 256"

datatype vm_error =
    ErrStackOverflow
  | ErrStackUnderflow
  | ErrInvalidBytecode
  | ErrVMTypeMismatch
  | StackPanic
  | ErrStrictCast gostring
  | ErrUnknownOpcode u8
  | ErrLibrary

record VM =
  vm_stack :: "nat \<Rightarrow> Value"
  vm_sp :: nat
  vm_jsonCache :: "(gostring \<times> (gostring \<rightharpoonup> bytes)) option"
  vm_predicateCtx :: "(gostring \<Rightarrow> bool) option"
  vm_lambdaParams :: "Value list"
  vm_Warnings :: warnings
  vm_fields :: row

datatype outcome = Next nat VM | Halt "vm_error + Value" VM

record vm_lib =
  vl_go :: go_lib
  vl_Unmarshal :: "bytes \<Rightarrow> (gostring \<rightharpoonup> bytes) option"
  vl_fragment :: "bytes \<Rightarrow> Value"
  vl_walk :: "bytes \<Rightarrow> gostring list \<Rightarrow> Value"
  vl_timestamp :: "bytes \<Rightarrow> u64 option"
  vl_rest :: "u8 \<Rightarrow> Program \<Rightarrow> nat \<Rightarrow> VM \<Rightarrow> outcome"

subsection \<open>Operands and the stack\<close>

definition readOperandSafe :: "bytes \<Rightarrow> nat \<Rightarrow> nat option" where
  "readOperandSafe ins ip = (if ip + 2 > length ins then None else Some (ReadUint16 (drop ip ins)))"

definition readIndexSafe :: "bytes \<Rightarrow> nat \<Rightarrow> nat \<Rightarrow> nat option" where
  "readIndexSafe ins ip sliceLen =
     (case readOperandSafe ins ip of None \<Rightarrow> None | Some idx \<Rightarrow> if idx \<ge> sliceLen then None else Some idx)"

definition fail :: "vm_error \<Rightarrow> VM \<Rightarrow> outcome" where "fail e s = Halt (Inl e) s"

text \<open>An operation on a value of the wrong type.\<close>

definition panic :: "VM \<Rightarrow> outcome" where "panic s = fail ErrVMTypeMismatch s"

text \<open>\<^verbatim>\<open>vm.stack[vm.sp] = v; vm.sp++\<close>, with and without the check before it.\<close>

definition put :: "Value \<Rightarrow> VM \<Rightarrow> VM" where
  "put v s = s\<lparr>vm_stack := (vm_stack s)(vm_sp s := v), vm_sp := Suc (vm_sp s)\<rparr>"

definition push_checked :: "Value \<Rightarrow> nat \<Rightarrow> VM \<Rightarrow> outcome" where
  "push_checked v ip s = (if vm_sp s \<ge> StackSize then fail ErrStackOverflow s else Next ip (put v s))"

text \<open>The top \<open>n\<close> values, the deepest first, and their replacement by one value.\<close>

definition args :: "nat \<Rightarrow> VM \<Rightarrow> Value list" where
  "args n s = map (vm_stack s) [vm_sp s - n ..< vm_sp s]"

definition drop_args :: "nat \<Rightarrow> VM \<Rightarrow> VM" where
  "drop_args n s = s\<lparr>vm_sp := vm_sp s - n\<rparr>"

type_synonym vm_op = "Value list \<Rightarrow> warnings \<Rightarrow> (Value \<times> warnings) option"

definition apply_op :: "vm_error \<Rightarrow> vm_error \<Rightarrow> nat \<Rightarrow> vm_op \<Rightarrow> nat \<Rightarrow> VM \<Rightarrow> outcome" where
  "apply_op err over n f ip s =
     (if n > vm_sp s then fail err s
      else (case f (args n s) (vm_Warnings s) of
              None \<Rightarrow> panic s
            | Some (v, w) \<Rightarrow>
                let s' = (drop_args n s)\<lparr>vm_Warnings := w\<rparr> in
                if vm_sp s' \<ge> StackSize then fail over s else Next ip (put v s')))"

subsection \<open>Opcodes with a fixed number of operands on the stack\<close>

definition un :: "(Value \<Rightarrow> Value) \<Rightarrow> nat \<times> vm_op" where
  "un f = (1, \<lambda>vs w. Some (f (vs ! 0), w))"

definition un_warn :: "(Value \<Rightarrow> warnings \<Rightarrow> Value warned) \<Rightarrow> nat \<times> vm_op" where
  "un_warn f = (1, \<lambda>vs w. Some (f (vs ! 0) w))"

definition bin :: "(Value \<Rightarrow> Value \<Rightarrow> Value) \<Rightarrow> nat \<times> vm_op" where
  "bin f = (2, \<lambda>vs w. Some (f (vs ! 0) (vs ! 1), w))"

definition bin_warn :: "(Value \<Rightarrow> Value \<Rightarrow> warnings \<Rightarrow> Value warned) \<Rightarrow> nat \<times> vm_op" where
  "bin_warn f = (2, \<lambda>vs w. Some (f (vs ! 0) (vs ! 1) w))"

definition tern :: "(Value \<Rightarrow> Value \<Rightarrow> Value \<Rightarrow> Value option) \<Rightarrow> nat \<times> vm_op" where
  "tern f = (3, \<lambda>vs w. map_option (\<lambda>v. (v, w)) (f (vs ! 0) (vs ! 1) (vs ! 2)))"

text \<open>A test of two strings that is \<open>missing\<close> when an operand is null.\<close>

definition string_test :: "go_lib \<Rightarrow> Value \<Rightarrow> (gostring \<Rightarrow> gostring \<Rightarrow> bool) \<Rightarrow> Value \<Rightarrow> Value \<Rightarrow> Value" where
  "string_test L missing p a b =
     (if IsNull a \<or> IsNull b then missing else BoolValue (p (Value_String L a) (Value_String L b)))"

definition has_prefix :: "gostring \<Rightarrow> gostring \<Rightarrow> bool" where
  "has_prefix s t \<longleftrightarrow> take (length t) s = t"

definition has_suffix :: "gostring \<Rightarrow> gostring \<Rightarrow> bool" where
  "has_suffix s t \<longleftrightarrow> length t \<le> length s \<and> drop (length s - length t) s = t"

fun strings_Contains :: "gostring \<Rightarrow> gostring \<Rightarrow> bool" where
  "strings_Contains [] t \<longleftrightarrow> t = []"
| "strings_Contains (c # s) t \<longleftrightarrow> has_prefix (c # s) t \<or> strings_Contains s t"

definition int_op :: "(u64 \<Rightarrow> u64 \<Rightarrow> u64) \<Rightarrow> Value \<Rightarrow> Value \<Rightarrow> Value" where
  "int_op f a b = IntValue (f (AsInt a) (AsInt b))"

definition float_op :: "(u64 \<Rightarrow> u64 \<Rightarrow> u64) \<Rightarrow> Value \<Rightarrow> Value \<Rightarrow> Value" where
  "float_op f a b = FloatValue (f (AsFloat a) (AsFloat b))"

text \<open>The opcodes in the order of the switch in \<open>ExecuteWithContext\<close>: how many values they take, and what they put.\<close>

definition int_ops :: "vm_lib \<Rightarrow> (u8 \<times> nat \<times> vm_op) list" where
  "int_ops V =
    [(OpAddInt, bin (int_op (+))),
     (OpSubInt, bin (int_op (-))),
     (OpMulInt, bin (int_op (*))),
     (OpDivInt, bin (\<lambda>a b. if AsInt b = 0 then NullValue else int_op int64_quot a b)),
     (OpModInt, bin (\<lambda>a b. if AsInt b = 0 then NullValue else int_op int64_rem a b)),
     (OpNegInt, un (\<lambda>a. IntValue (- AsInt a)))]"

definition float_ops :: "vm_lib \<Rightarrow> (u8 \<times> nat \<times> vm_op) list" where
  "float_ops V =
    [(OpAddFloat, bin (float_op float_add)),
     (OpSubFloat, bin (float_op float_sub)),
     (OpMulFloat, bin (float_op float_mul)),
     (OpDivFloat, bin (\<lambda>a b. if float_eq (AsFloat b) 0 then NullValue else float_op float_div a b)),
     (OpNegFloat, un (\<lambda>a. FloatValue (float_neg (AsFloat a))))]"

definition coercing_ops :: "vm_lib \<Rightarrow> (u8 \<times> nat \<times> vm_op) list" where
  "coercing_ops V = (let L = vl_go V in
    [(OpAdd, bin (addValues L)),
     (OpSub, bin (subValues L)),
     (OpMul, bin (mulValues L)),
     (OpDiv, bin (divValues L)),
     (OpMod, bin modValues)])"

definition string_ops :: "vm_lib \<Rightarrow> (u8 \<times> nat \<times> vm_op) list" where
  "string_ops V = (let L = vl_go V in
    [(OpConcat, bin (\<lambda>a b. if IsNull a \<or> IsNull b then NullValue else StringValue (Value_String L a @ Value_String L b))),
     (OpStrLen, un (\<lambda>a. if IsNull a then NullValue else IntValue (word_of_nat (length (Value_String L a))))),
     (OpToLower, un (lowerValue L)),
     (OpToUpper, un (upperValue L))])"

definition order_ops :: "vm_lib \<Rightarrow> (u8 \<times> nat \<times> vm_op) list" where
  "order_ops V = (let L = vl_go V in
    [(OpEq, bin (\<lambda>a b. BoolValue (valuesEqual L a b))),
     (OpNeq, bin (\<lambda>a b. BoolValue (\<not> valuesEqual L a b))),
     (OpLt, bin (\<lambda>a b. BoolValue (CompareValues L a b < 0))),
     (OpLte, bin (\<lambda>a b. BoolValue (CompareValues L a b \<le> 0))),
     (OpGt, bin (\<lambda>a b. BoolValue (CompareValues L a b > 0))),
     (OpGte, bin (\<lambda>a b. BoolValue (CompareValues L a b \<ge> 0)))])"

definition logic_ops :: "vm_lib \<Rightarrow> (u8 \<times> nat \<times> vm_op) list" where
  "logic_ops V =
    [(OpAnd, bin (\<lambda>a b. BoolValue (IsTruthy a \<and> IsTruthy b))),
     (OpOr, bin (\<lambda>a b. BoolValue (IsTruthy a \<or> IsTruthy b))),
     (OpXor, bin (\<lambda>a b. BoolValue (IsTruthy a \<noteq> IsTruthy b))),
     (OpNot, un (\<lambda>a. BoolValue (\<not> IsTruthy a)))]"

definition cast_ops :: "vm_lib \<Rightarrow> (u8 \<times> nat \<times> vm_op) list" where
  "cast_ops V = (let L = vl_go V in
    [(OpToInt, un (toIntValue L)),
     (OpToFloat, un (toFloatValue L)),
     (OpToString, un (toStringValue L)),
     (OpToBool, un (toBoolValue L))])"

definition bit_ops :: "vm_lib \<Rightarrow> (u8 \<times> nat \<times> vm_op) list" where
  "bit_ops V = (let L = vl_go V in
    [(OpIsFinite, un (isFiniteValue L)),
     (OpIsNaN, un (isNaNValue L)),
     (OpBitAnd, bin (bitBinaryValue bitOpAnd)),
     (OpBitOr, bin (bitBinaryValue bitOpOr)),
     (OpBitXor, bin (bitBinaryValue bitOpXor)),
     (OpBitShl, bin (bitShiftValue True)),
     (OpBitShr, bin (bitShiftValue False))])"

definition null_ops :: "vm_lib \<Rightarrow> (u8 \<times> nat \<times> vm_op) list" where
  "null_ops V =
    [(OpIsNull, un (\<lambda>a. BoolValue (IsNull a))),
     (OpIsNotNull, un (\<lambda>a. BoolValue (\<not> IsNull a)))]"

definition bin_ops :: "vm_lib \<Rightarrow> (u8 \<times> nat \<times> vm_op) list" where
  "bin_ops V =
    [(OpBin, bin (binValue (vl_timestamp V))),
     (OpBinOrigin, tern (\<lambda>x w k. Some (binValueWithOrigin (vl_timestamp V) x w k)))]"

definition test_ops :: "vm_lib \<Rightarrow> (u8 \<times> nat \<times> vm_op) list" where
  "test_ops V = (let L = vl_go V in
    [(OpStartsWith, bin (string_test L (BoolValue False) has_prefix)),
     (OpEndsWith, bin (string_test L (BoolValue False) has_suffix)),
     (OpContains, bin (string_test L (BoolValue False) strings_Contains)),
     (OpIsNum, un (\<lambda>a. BoolValue (isNumTest L a))),
     (OpIsInt, un (\<lambda>a. BoolValue (isIntTest L a))),
     (OpIsBool, un (\<lambda>a. BoolValue (Value_Type a = FieldTypeBool))),
     (OpTypeOf, un (\<lambda>a. StringValue (FieldType_String (Value_Type a))))])"

definition access_ops :: "vm_lib \<Rightarrow> (u8 \<times> nat \<times> vm_op) list" where
  "access_ops V = (let L = vl_go V in
    [(OpIndex, bin (indexValue L)),
     (OpLen, un (lenValue L))])"

definition strict_compare_ops :: "vm_lib \<Rightarrow> (u8 \<times> nat \<times> vm_op) list" where
  "strict_compare_ops V = (let L = vl_go V in
    [(OpEqStrict, bin_warn (compare_with L (\<lambda>c. c = 0))),
     (OpNeqStrict, bin_warn (compare_with L (\<lambda>c. c \<noteq> 0))),
     (OpLtStrict, bin_warn (compare_with L (\<lambda>c. c < 0))),
     (OpLteStrict, bin_warn (compare_with L (\<lambda>c. c \<le> 0))),
     (OpGtStrict, bin_warn (compare_with L (\<lambda>c. c > 0))),
     (OpGteStrict, bin_warn (compare_with L (\<lambda>c. c \<ge> 0)))])"

definition three_valued_ops :: "vm_lib \<Rightarrow> (u8 \<times> nat \<times> vm_op) list" where
  "three_valued_ops V = (let L = vl_go V in
    [(OpNot3VL, un_warn not3VL),
     (OpAnd3VLNull, un and3VLNull),
     (OpOr3VLNull, un or3VLNull)])"

definition strict_arith_ops :: "vm_lib \<Rightarrow> (u8 \<times> nat \<times> vm_op) list" where
  "strict_arith_ops V = (let L = vl_go V in
    [(OpAddStrict, bin_warn addStrict),
     (OpSubStrict, bin_warn subStrict),
     (OpMulStrict, bin_warn (mulStrict L)),
     (OpDivStrict, bin_warn (divStrict L)),
     (OpModStrict, bin_warn modStrict),
     (OpNegStrict, un_warn negStrict)])"

definition search_ops :: "vm_lib \<Rightarrow> (u8 \<times> nat \<times> vm_op) list" where
  "search_ops V = (let L = vl_go V in
    [(OpContainsCI, bin (string_test L NullValue (\<lambda>s t. strings_Contains (gl_ToLower L s) (gl_ToLower L t)))),
     (OpSubstr0Based, tern (substr0Based (vl_go V)))])"

definition array_ops :: "vm_lib \<Rightarrow> (u8 \<times> nat \<times> vm_op) list" where
  "array_ops V = (let L = vl_go V in
    [(OpSlice, tern (\<lambda>c s e. Some (sliceValue (vl_go V) c s e))),
     (OpArrayDistinct, un (execArrayDistinct L)),
     (OpArraySum, un execArraySum),
     (OpArrayAvg, un execArrayAvg),
     (OpArrayMin, un_warn (execArrayExtrema L False)),
     (OpArrayMax, un_warn (execArrayExtrema L True)),
     (OpArrayCompact, un (execArrayCompact L)),
     (OpArrayDeltas, un_warn execArrayDeltas),
     (OpArrayCumSum, un_warn execArrayCumSum)])"

definition set_ops :: "vm_lib \<Rightarrow> (u8 \<times> nat \<times> vm_op) list" where
  "set_ops V = (let L = vl_go V in
    [(OpArrayHasAny, bin (execArrayHasAny L)),
     (OpArrayHasAll, bin (execArrayHasAll L)),
     (OpArrayIntersect, bin (execArrayIntersect L)),
     (OpArrayExcept, bin (execArrayExcept L)),
     (OpFlatten, un execFlatten)])"

definition object_ops :: "vm_lib \<Rightarrow> (u8 \<times> nat \<times> vm_op) list" where
  "object_ops V = (let L = vl_go V in
    [(OpKeys, un execKeys),
     (OpValues, un execValues),
     (OpMerge, bin execMerge),
     (OpHasKey, bin (execHasKey L)),
     (OpEntries, un execEntries),
     (OpFromEntries, un execFromEntries)])"

definition fixed_ops :: "vm_lib \<Rightarrow> (u8 \<times> nat \<times> vm_op) list" where
  "fixed_ops V =
     int_ops V @ float_ops V @ coercing_ops V @ string_ops V @ order_ops V @ logic_ops V @ cast_ops V
     @ bit_ops V @ null_ops V @ bin_ops V @ test_ops V @ access_ops V @ strict_compare_ops V
     @ three_valued_ops V @ strict_arith_ops V @ search_ops V @ array_ops V @ set_ops V @ object_ops V"

lemmas op_tables =
  fixed_ops_def int_ops_def float_ops_def coercing_ops_def string_ops_def order_ops_def logic_ops_def
  cast_ops_def bit_ops_def null_ops_def bin_ops_def test_ops_def access_ops_def strict_compare_ops_def
  three_valued_ops_def strict_arith_ops_def search_ops_def array_ops_def set_ops_def object_ops_def Let_def

subsection \<open>Opcodes with a count\<close>

text \<open>
  An entry has the number of values an opcode with a given count takes, the counts it accepts, the
  errors for too few and for too many values on the stack, and the result.
\<close>

type_synonym counted_op = "(nat \<Rightarrow> nat) \<times> (nat \<Rightarrow> bool) \<times> vm_error \<times> vm_error \<times> (nat \<Rightarrow> vm_op)"

definition plain :: "(Value list \<Rightarrow> Value) \<Rightarrow> nat \<Rightarrow> vm_op" where
  "plain f n vs w = Some (f vs, w)"

definition in_strict :: "go_lib \<Rightarrow> nat \<Rightarrow> vm_op" where
  "in_strict L count vs w =
     Some (if count = 0 then
             (case vs ! 1 of
                NullValue \<Rightarrow> (NullValue, w)
              | ArrayValue items \<Rightarrow> inStrict L (vs ! 0) items w
              | container \<Rightarrow> apfst bool_or_null (strictEq L (vs ! 0) container w))
           else inStrict L (hd vs) (tl vs) w)"

definition in_list :: "go_lib \<Rightarrow> Value list \<Rightarrow> Value" where
  "in_list L vs = BoolValue (\<exists>item \<in> set (tl vs). valuesEqual L (hd vs) item)"

definition extrema_ops :: "vm_lib \<Rightarrow> (u8 \<times> counted_op) list" where
  "extrema_ops V = (let L = vl_go V; pos = (\<lambda>c. c > 0) in
    [(OpGreatest, id, pos, ErrInvalidBytecode, StackPanic, (\<lambda>c vs w. Some (scalarExtremaValue L True vs w))),
     (OpLeast, id, pos, ErrInvalidBytecode, StackPanic, (\<lambda>c vs w. Some (scalarExtremaValue L False vs w))),
     (OpRemap, id, (\<lambda>c. c = 3 \<or> c = 4), ErrInvalidBytecode, StackPanic, plain (remapValue L)),
     (OpMax, id, pos, ErrInvalidBytecode, StackPanic, (\<lambda>c vs w. map_option (\<lambda>v. (v, w)) (maxMinValue L True vs))),
     (OpMin, id, pos, ErrInvalidBytecode, StackPanic, (\<lambda>c vs w. map_option (\<lambda>v. (v, w)) (maxMinValue L False vs)))])"

definition coalesce_ops :: "vm_lib \<Rightarrow> (u8 \<times> counted_op) list" where
  "coalesce_ops V = [(OpCoalesce, id, (\<lambda>c. True), StackPanic, StackPanic, plain coalesceValue)]"

definition build_ops :: "vm_lib \<Rightarrow> (u8 \<times> counted_op) list" where
  "build_ops V =
    [(OpArrayBuild, id, (\<lambda>c. True), ErrInvalidBytecode, ErrStackOverflow, plain ArrayValue),
     (OpObjectBuild, (\<lambda>c. c * 2), (\<lambda>c. True), ErrInvalidBytecode, ErrStackOverflow,
        plain (\<lambda>vs. ObjectValue (object_build (vl_go V) vs [])))]"

definition membership_ops :: "vm_lib \<Rightarrow> (u8 \<times> counted_op) list" where
  "membership_ops V = (let L = vl_go V in
    [(OpInStrict, (\<lambda>c. if c = 0 then 2 else Suc c), (\<lambda>c. True), StackPanic, StackPanic, in_strict L),
     (OpInList, Suc, (\<lambda>c. True), StackPanic, StackPanic, plain (in_list L))])"

definition concat_ops :: "vm_lib \<Rightarrow> (u8 \<times> counted_op) list" where
  "concat_ops V =
    [(OpArrayConcat, id, (\<lambda>c. True), StackPanic, StackPanic, plain concatValue),
     (OpZip, id, (\<lambda>c. c > 0), ErrInvalidBytecode, StackPanic, plain execZip)]"

definition counted_ops :: "vm_lib \<Rightarrow> (u8 \<times> counted_op) list" where
  "counted_ops V = extrema_ops V @ coalesce_ops V @ build_ops V @ membership_ops V @ concat_ops V"

lemmas counted_tables =
  counted_ops_def extrema_ops_def coalesce_ops_def build_ops_def membership_ops_def concat_ops_def Let_def

definition exec_counted :: "counted_op \<Rightarrow> Program \<Rightarrow> nat \<Rightarrow> VM \<Rightarrow> outcome" where
  "exec_counted entry P ip s =
     (case entry of (pops, ok, err, over, f) \<Rightarrow>
        (case readOperandSafe (pr_Instructions P) ip of
           None \<Rightarrow> fail ErrInvalidBytecode s
         | Some count \<Rightarrow>
             if \<not> ok count then fail ErrInvalidBytecode s
             else apply_op err over (pops count) (f count) (ip + 2) s))"

subsection \<open>Fields\<close>

text \<open>
  \<open>jsonExtractCached\<close>: the last object parsed is kept with its source. A source that does not
  parse leaves the cache as it is.
\<close>

definition json_lookup :: "vm_lib \<Rightarrow> (gostring \<rightharpoonup> bytes) \<Rightarrow> gostring list \<Rightarrow> Value" where
  "json_lookup V obj parts =
     (case obj (hd parts) of
        None \<Rightarrow> NullValue
      | Some raw \<Rightarrow> if tl parts = [] then vl_fragment V raw else vl_walk V raw (tl parts))"

definition json_parse :: "vm_lib \<Rightarrow> gostring \<Rightarrow> (gostring \<rightharpoonup> bytes) option" where
  "json_parse V source =
     (case gl_TrimSpace (vl_go V) source of
        [] \<Rightarrow> None
      | c # cs \<Rightarrow> if c \<noteq> 123 then None else vl_Unmarshal V (c # cs))"

definition jsonExtractCached :: "vm_lib \<Rightarrow> gostring \<Rightarrow> gostring \<Rightarrow> VM \<Rightarrow> Value \<times> VM" where
  "jsonExtractCached V source path s =
     (let parts = split_dot path in
      case (case vm_jsonCache s of
              Some (src, obj) \<Rightarrow> if src = source then Some obj else None
            | None \<Rightarrow> None) of
        Some obj \<Rightarrow> (json_lookup V obj parts, s)
      | None \<Rightarrow>
          (case json_parse V source of
             None \<Rightarrow> (NullValue, s)
           | Some obj \<Rightarrow> (json_lookup V obj parts, s\<lparr>vm_jsonCache := Some (source, obj)\<rparr>)))"

definition raw_name :: gostring where "raw_name = bs ''_raw''"

definition non_null :: "Value option \<Rightarrow> Value option" where
  "non_null v = (case v of Some NullValue \<Rightarrow> None | _ \<Rightarrow> v)"

text \<open>The field itself, else a path into its root field, else a path into the raw event.\<close>

definition load_field :: "vm_lib \<Rightarrow> gostring \<Rightarrow> VM \<Rightarrow> Value \<times> VM" where
  "load_field V name s =
     (let row = vm_fields s; L = vl_go V;
          from_raw = (case non_null (row raw_name) of
                        Some raw \<Rightarrow> jsonExtractCached V (Value_String L raw) name s
                      | None \<Rightarrow> (NullValue, s)) in
      case row name of
        Some v \<Rightarrow> (v, s)
      | None \<Rightarrow>
          (case index_byte 46 name of
             None \<Rightarrow> from_raw
           | Some dot \<Rightarrow>
               if dot = 0 then from_raw
               else (case non_null (row (take dot name)) of
                       Some r \<Rightarrow> jsonExtractCached V (Value_String L r) (drop (Suc dot) name) s
                     | None \<Rightarrow> from_raw)))"

definition field_exists :: "vm_lib \<Rightarrow> gostring \<Rightarrow> VM \<Rightarrow> bool \<times> VM" where
  "field_exists V name s =
     (case vm_fields s name of
        Some v \<Rightarrow> (True, s)
      | None \<Rightarrow>
          (case non_null (vm_fields s raw_name) of
             Some raw \<Rightarrow> (case jsonExtractCached V (Value_String (vl_go V) raw) name s of (v, s') \<Rightarrow> (\<not> IsNull v, s'))
           | None \<Rightarrow> (False, s)))"

subsection \<open>One instruction\<close>

definition const_ops :: "u8 list" where
  "const_ops = [OpConstInt, OpConstFloat, OpConstStr, OpConstDuration]"

definition execConst :: "Program \<Rightarrow> nat \<Rightarrow> VM \<Rightarrow> outcome" where
  "execConst P ip s =
     (if vm_sp s \<ge> StackSize then fail ErrStackOverflow s
      else (case readIndexSafe (pr_Instructions P) ip (length (pr_Constants P)) of
              None \<Rightarrow> fail ErrInvalidBytecode s
            | Some idx \<Rightarrow> Next (ip + 2) (put (pr_Constants P ! idx) s)))"

definition execLoadField :: "vm_lib \<Rightarrow> Program \<Rightarrow> nat \<Rightarrow> VM \<Rightarrow> outcome" where
  "execLoadField V P ip s =
     (if vm_sp s \<ge> StackSize then fail ErrStackOverflow s
      else (case readIndexSafe (pr_Instructions P) ip (length (pr_FieldNames P)) of
              None \<Rightarrow> fail ErrInvalidBytecode s
            | Some idx \<Rightarrow>
                (case load_field V (pr_FieldNames P ! idx) s of (v, s') \<Rightarrow> Next (ip + 2) (put v s'))))"

definition execStoreField :: "Program \<Rightarrow> nat \<Rightarrow> VM \<Rightarrow> outcome" where
  "execStoreField P ip s =
     (case readIndexSafe (pr_Instructions P) ip (length (pr_FieldNames P)) of
        None \<Rightarrow> fail ErrInvalidBytecode s
      | Some idx \<Rightarrow>
          if vm_sp s = 0 then fail StackPanic s
          else Next (ip + 2) ((drop_args 1 s)
                 \<lparr>vm_fields := (vm_fields s)(pr_FieldNames P ! idx \<mapsto> vm_stack s (vm_sp s - 1))\<rparr>))"

definition execFieldExists :: "vm_lib \<Rightarrow> Program \<Rightarrow> nat \<Rightarrow> VM \<Rightarrow> outcome" where
  "execFieldExists V P ip s =
     (if vm_sp s \<ge> StackSize then fail ErrStackOverflow s
      else (case readIndexSafe (pr_Instructions P) ip (length (pr_FieldNames P)) of
              None \<Rightarrow> fail ErrInvalidBytecode s
            | Some idx \<Rightarrow>
                (case field_exists V (pr_FieldNames P ! idx) s of (e, s') \<Rightarrow> Next (ip + 2) (put (BoolValue e) s'))))"

text \<open>
  Conditional jumps: \<open>pops\<close> says whether the tested value leaves the stack when the jump is not
  taken; it always leaves it when the jump is taken.
\<close>

definition exec_jump_if :: "(Value \<Rightarrow> bool) \<Rightarrow> bool \<Rightarrow> Program \<Rightarrow> nat \<Rightarrow> VM \<Rightarrow> outcome" where
  "exec_jump_if test pops P ip s =
     (case readOperandSafe (pr_Instructions P) ip of
        None \<Rightarrow> fail ErrInvalidBytecode s
      | Some target \<Rightarrow>
          if vm_sp s = 0 then fail StackPanic s
          else if test (vm_stack s (vm_sp s - 1)) then Next target (drop_args 1 s)
          else Next (ip + 2) (if pops then drop_args 1 s else s))"

definition rest_ops :: "u8 list" where
  "rest_ops =
    [OpPunycodeEncode, OpPunycodeDecode, OpSubstr, OpStrMatch, OpGlobMatch, OpReplace, OpSplit, OpTrim,
     OpLTrim, OpRTrim, OpLike, OpURLETLD1, OpURLTLD, OpGenerateSeries, OpBase64URLDecode, OpBase64URLEncode,
     OpArrayAggReduce, OpRound, OpLn, OpAbs, OpCeil, OpFloor, OpSqrt, OpExp, OpPow, OpLog, OpMathUnary,
     OpMathBinary, OpRandom, OpMvAppend, OpMvJoin, OpMvDedup, OpMvCount, OpURLParam, OpURLStrip, OpIsArray,
     OpIsObject, OpHasAny, OpHasAll, OpContainsPhrase, OpContainsAny, OpContainsAnyCS, OpMatchesAny,
     OpStrftime, OpURLDecode, OpMD5, OpSHA1, OpSHA256, OpSHA512, OpPrintf, OpIPMask, OpStrptime, OpFromUnix,
     OpToUnix, OpDateTrunc, OpDatePart, OpDateDiff, OpStrftimeTZ, OpTimeOfDayTZ, OpCIDRMatch, OpHasToken,
     OpExtract, OpExtractAll, OpArraySort, OpSplitArr, OpJoinArr, OpTimeOfDay, OpDayOfWeek, OpXXHash64,
     OpHasTokenGlob, OpURLParse, OpIPParseObj, OpFromJSONNative, OpBucket, OpPathNormalize, OpUserAgentParse,
     OpHumanizeBytes, OpHumanizeCount, OpHumanizeDur, OpLPad, OpRPad, OpTranslate, OpHex, OpUnhex,
     OpURLEncode, OpRegexEscape, OpCountSubstr, OpCountMatches, OpIPToInt, OpIPFromInt, OpReplaceFirst,
     OpTokens, OpSplitRegex, OpExtractGroups, OpIsJSON, OpBar, OpIndexOf, OpSplitPart, OpBase64Decode,
     OpBase64Encode, OpRepeat, OpJsonExtract, OpJsonValid, OpJsonKeys, OpJsonArrayLen, OpJsonObject,
     OpJsonArray, OpJsonType, OpJsonSet, OpJsonRemove, OpJsonMerge, OpJsonValue, OpJsonQuery, OpLevenshtein,
     OpJaroWinkler, OpNormalizeUTF8, OpTimestampGuess]"

definition exec1 :: "vm_lib \<Rightarrow> Program \<Rightarrow> nat \<Rightarrow> VM \<Rightarrow> outcome" where
  "exec1 V P pos s =
     (let ins = pr_Instructions P; op = ins ! pos; ip = Suc pos in
      if op = OpNop then Next ip s
      else if op = OpPop then (if vm_sp s = 0 then fail ErrStackUnderflow s else Next ip (drop_args 1 s))
      else if op = OpDup then
        (if vm_sp s = 0 then fail ErrStackUnderflow s
         else push_checked (vm_stack s (vm_sp s - 1)) ip s)
      else if op \<in> set const_ops then execConst P ip s
      else if op = OpConstTrue then push_checked (BoolValue True) ip s
      else if op = OpConstFalse then push_checked (BoolValue False) ip s
      else if op = OpConstNull then push_checked NullValue ip s
      else if op = OpLoadField then execLoadField V P ip s
      else if op = OpStoreField then execStoreField P ip s
      else if op = OpFieldExists then execFieldExists V P ip s
      else if op = OpJump then
        (case readOperandSafe ins ip of None \<Rightarrow> fail ErrInvalidBytecode s | Some target \<Rightarrow> Next target s)
      else if op = OpJumpIfFalse then exec_jump_if (\<lambda>v. \<not> IsTruthy v) True P ip s
      else if op = OpJumpIfTrue then exec_jump_if IsTruthy True P ip s
      else if op = OpJumpIfNull3VL then exec_jump_if IsNull False P ip s
      else if op = OpBSIHandledCompare then
        (case (readIndexSafe ins ip (length (pr_FieldNames P)), readOperandSafe ins (ip + 2)) of
           (Some idx, Some target) \<Rightarrow>
             if (case vm_predicateCtx s of Some h \<Rightarrow> h (pr_FieldNames P ! idx) | None \<Rightarrow> False)
             then Next target s else Next (ip + 4) s
         | _ \<Rightarrow> fail ErrInvalidBytecode s)
      else if op = OpLoadPath then
        (if vm_sp s \<ge> StackSize then fail ErrStackOverflow s
         else (case readIndexSafe ins ip (length (pr_Constants P)) of
                 None \<Rightarrow> fail ErrInvalidBytecode s
               | Some idx \<Rightarrow>
                   Next (ip + 2) (put (execLoadPath (vm_fields s) (Value_String (vl_go V) (pr_Constants P ! idx))) s)))
      else if op = OpFieldMissing then
        (if vm_sp s \<ge> StackSize then fail ErrStackOverflow s
         else (case readIndexSafe ins ip (length (pr_FieldNames P)) of
                 None \<Rightarrow> fail ErrInvalidBytecode s
               | Some idx \<Rightarrow> Next (ip + 2) (put (BoolValue (vm_fields s (pr_FieldNames P ! idx) = None)) s)))
      else if op = OpMember then
        (case readIndexSafe ins ip (length (pr_Constants P)) of
           None \<Rightarrow> fail ErrInvalidBytecode s
         | Some idx \<Rightarrow>
             let key = Value_String (vl_go V) (pr_Constants P ! idx) in
             apply_op StackPanic StackPanic 1 (\<lambda>vs w. Some (memberValue (vs ! 0) key, w)) (ip + 2) s)
      else if op = OpLoadLambdaParam then
        (if vm_sp s \<ge> StackSize then fail ErrStackOverflow s
         else (case readOperandSafe ins ip of
                 None \<Rightarrow> fail ErrInvalidBytecode s
               | Some depth \<Rightarrow>
                   if depth < length (vm_lambdaParams s)
                   then Next (ip + 2) (put (rev (vm_lambdaParams s) ! depth) s)
                   else fail ErrInvalidBytecode s))
      else if op = OpStrictCastFail then
        (case readIndexSafe ins ip (length (pr_Constants P)) of
           None \<Rightarrow> fail ErrInvalidBytecode s
         | Some idx \<Rightarrow> fail (ErrStrictCast (Value_String (vl_go V) (pr_Constants P ! idx))) s)
      else if op = OpSearchMatch then fail ErrInvalidBytecode s
      else if op = OpReturn then
        Halt (Inr (if vm_sp s > 0 then vm_stack s (vm_sp s - 1) else NullValue)) s
      else (case map_of (fixed_ops V) op of
              Some (n, f) \<Rightarrow> apply_op StackPanic StackPanic n f ip s
            | None \<Rightarrow>
                (case map_of (counted_ops V) op of
                   Some entry \<Rightarrow> exec_counted entry P ip s
                 | None \<Rightarrow> if op \<in> set rest_ops then vl_rest V op P ip s else fail (ErrUnknownOpcode op) s)))"

subsection \<open>Lambdas\<close>

text \<open>A loop over an array runs the body with \<open>r\<close>: parameters, state, and \<open>None\<close> for no fuel.\<close>

type_synonym 'a result = "((vm_error + 'a) \<times> VM) option"
type_synonym body = "Value list \<Rightarrow> VM \<Rightarrow> Value result"

definition and_then :: "'a result \<Rightarrow> ('a \<Rightarrow> VM \<Rightarrow> 'b result) \<Rightarrow> 'b result" where
  "and_then r k =
     (case r of
        None \<Rightarrow> None
      | Some (Inl e, s) \<Rightarrow> Some (Inl e, s)
      | Some (Inr a, s) \<Rightarrow> k a s)"

fun any_loop :: "body \<Rightarrow> Value list \<Rightarrow> bool \<Rightarrow> VM \<Rightarrow> Value result" where
  "any_loop r [] hasNull s = Some (Inr (if hasNull then NullValue else BoolValue False), s)"
| "any_loop r (x # xs) hasNull s =
     and_then (r [x] s) (\<lambda>v s. if IsNull v then any_loop r xs True s
                              else if v = BoolValue True then Some (Inr (BoolValue True), s)
                              else any_loop r xs hasNull s)"

fun all_loop :: "body \<Rightarrow> Value list \<Rightarrow> bool \<Rightarrow> VM \<Rightarrow> Value result" where
  "all_loop r [] hasNull s = Some (Inr (if hasNull then NullValue else BoolValue True), s)"
| "all_loop r (x # xs) hasNull s =
     and_then (r [x] s) (\<lambda>v s. if IsNull v then all_loop r xs True s
                              else if v = BoolValue False then Some (Inr (BoolValue False), s)
                              else all_loop r xs hasNull s)"

fun filter_loop :: "body \<Rightarrow> Value list \<Rightarrow> Value list \<Rightarrow> VM \<Rightarrow> Value result" where
  "filter_loop r [] acc s = Some (Inr (ArrayValue acc), s)"
| "filter_loop r (x # xs) acc s =
     and_then (r [x] s) (\<lambda>v s. filter_loop r xs (if v = BoolValue True then acc @ [x] else acc) s)"

fun map_loop :: "body \<Rightarrow> Value list \<Rightarrow> Value list \<Rightarrow> VM \<Rightarrow> Value result" where
  "map_loop r [] acc s = Some (Inr (ArrayValue acc), s)"
| "map_loop r (x # xs) acc s = and_then (r [x] s) (\<lambda>v s. map_loop r xs (acc @ [v]) s)"

fun reduce_loop :: "body \<Rightarrow> Value list \<Rightarrow> Value \<Rightarrow> VM \<Rightarrow> Value result" where
  "reduce_loop r [] acc s = Some (Inr acc, s)"
| "reduce_loop r (x # xs) acc s = and_then (r [acc, x] s) (\<lambda>v s. reduce_loop r xs v s)"

definition lambda_ops :: "u8 list" where
  "lambda_ops = [OpArrayAny, OpArrayAll, OpArrayFilter, OpArrayMap, OpArrayReduce]"

definition lambda_arity :: "u8 \<Rightarrow> nat" where
  "lambda_arity op = (if op = OpArrayReduce then 2 else 1)"

fun array_or_null :: "(Value list \<Rightarrow> VM \<Rightarrow> Value result) \<Rightarrow> Value \<Rightarrow> VM \<Rightarrow> Value result" where
  "array_or_null k (ArrayValue xs) s = k xs s"
| "array_or_null k v s = Some (Inr NullValue, s)"

text \<open>\<open>execArrayAny\<close>, \<open>execArrayAll\<close>, \<open>execArrayFilter\<close>, \<open>execArrayMap\<close> and \<open>execArrayReduce\<close>.\<close>

definition lambda_loop :: "u8 \<Rightarrow> body \<Rightarrow> Value list \<Rightarrow> VM \<Rightarrow> Value result" where
  "lambda_loop op r vs s =
     array_or_null (\<lambda>xs s.
       if op = OpArrayAny then any_loop r xs False s
       else if op = OpArrayAll then all_loop r xs False s
       else if op = OpArrayFilter then filter_loop r xs [] s
       else if op = OpArrayMap then map_loop r xs [] s
       else reduce_loop r xs (vs ! 1) s) (vs ! 0) s"

text \<open>
  \<open>execLambdaWithParams\<close>: the body runs as a program of its own, on the machine's stack from
  position 0; the pool of glob patterns is not handed on, and leaving \<open>ExecuteWithContext\<close> clears
  the predicate context.
\<close>

definition execLambdaWithParams :: "(Program \<Rightarrow> nat \<Rightarrow> VM \<Rightarrow> Value result) \<Rightarrow> Program \<Rightarrow> nat \<Rightarrow> body" where
  "execLambdaWithParams exec P subIdx params s =
     (case exec (P\<lparr>pr_Instructions := pr_SubPrograms P ! subIdx, pr_GlobPatterns := []\<rparr>) 0
             (s\<lparr>vm_lambdaParams := vm_lambdaParams s @ params, vm_sp := 0\<rparr>) of
        None \<Rightarrow> None
      | Some (res, s') \<Rightarrow>
          Some (res, s'\<lparr>vm_sp := vm_sp s, vm_predicateCtx := None,
                        vm_lambdaParams := take (length (vm_lambdaParams s') - length params) (vm_lambdaParams s')\<rparr>))"

subsection \<open>Execution\<close>

primrec run :: "nat \<Rightarrow> vm_lib \<Rightarrow> Program \<Rightarrow> nat \<Rightarrow> VM \<Rightarrow> Value result" where
  "run 0 = (\<lambda>V P pos s. None)"
| "run (Suc n) = (\<lambda>V P pos s.
     if pos \<ge> length (pr_Instructions P)
     then Some (Inr (if vm_sp s > 0 then vm_stack s (vm_sp s - 1) else NullValue), s)
     else let op = pr_Instructions P ! pos in
       if op \<in> set lambda_ops then
         (case readIndexSafe (pr_Instructions P) (Suc pos) (length (pr_SubPrograms P)) of
            None \<Rightarrow> Some (Inl ErrInvalidBytecode, s)
          | Some subIdx \<Rightarrow>
              if lambda_arity op > vm_sp s then Some (Inl StackPanic, s)
              else and_then (lambda_loop op (execLambdaWithParams (run n V) P subIdx)
                               (args (lambda_arity op) s) (drop_args (lambda_arity op) s))
                     (\<lambda>v s'. if vm_sp s' \<ge> StackSize then Some (Inl ErrStackOverflow, s')
                             else run n V P (pos + 3) (put v s')))
       else (case exec1 V P pos s of
               Next pos' s' \<Rightarrow> run n V P pos' s'
             | Halt r s' \<Rightarrow> Some (r, s')))"

text \<open>The deferred function of \<open>ExecuteWithContext\<close>.\<close>

fun recovered :: "vm_error + Value \<Rightarrow> vm_error + Value" where
  "recovered (Inl StackPanic) = Inl ErrVMTypeMismatch"
| "recovered r = r"

definition ExecuteWithContext ::
  "nat \<Rightarrow> vm_lib \<Rightarrow> Program \<Rightarrow> row \<Rightarrow> (gostring \<Rightarrow> bool) option \<Rightarrow> VM \<Rightarrow> Value result"
where
  "ExecuteWithContext n V P row ctx s =
     map_option (\<lambda>(r, s'). (recovered r, s'\<lparr>vm_predicateCtx := None\<rparr>))
       (run n V P 0 (s\<lparr>vm_sp := 0, vm_predicateCtx := ctx, vm_fields := row\<rparr>))"

definition Execute :: "nat \<Rightarrow> vm_lib \<Rightarrow> Program \<Rightarrow> row \<Rightarrow> VM \<Rightarrow> Value result" where
  "Execute n V P row s = ExecuteWithContext n V P row None s"

end
