(* ===== verification/VM_Run.thy ===== *)
theory VM_Run
  imports VM_Exec "HOL-Library.Sublist"
begin

text \<open>
  Execution of the machine as a relation between positions and states: more fuel never changes a
  result, the warning counters and the cache of parsed JSON never change a value, and the rules of
  the instructions that the compiler emits. They are stated over the list of values on the stack.
\<close>

subsection \<open>Fuel\<close>

text \<open>An interpreter with fuel: one more step of fuel keeps a result.\<close>

locale fueled =
  fixes interp :: "nat \<Rightarrow> 'c \<Rightarrow> 'r option"
  assumes one_more: "interp n c = Some r \<Longrightarrow> interp (Suc n) c = Some r"
begin

lemma more: "interp n c = Some r \<Longrightarrow> n \<le> m \<Longrightarrow> interp m c = Some r"
  by (induction m) (auto simp: le_Suc_eq intro: one_more)

lemma unique: "interp n c = Some r \<Longrightarrow> interp m c = Some r' \<Longrightarrow> r = r'"
  using more [of n c r "max n m"] more [of m c r' "max n m"] by simp

end

lemma and_then_more:
  assumes "and_then r k = Some x" "\<And>y. r = Some y \<Longrightarrow> r' = Some y" "\<And>a s y. k a s = Some y \<Longrightarrow> k' a s = Some y"
  shows "and_then r' k' = Some x"
  using assms by (auto simp: and_then_def split: option.splits prod.splits sum.splits)

definition body_le :: "body \<Rightarrow> body \<Rightarrow> bool" where
  "body_le b b' \<longleftrightarrow> (\<forall>ps s r. b ps s = Some r \<longrightarrow> b' ps s = Some r)"

lemma body_leD: "body_le b b' \<Longrightarrow> b ps s = Some r \<Longrightarrow> b' ps s = Some r"
  by (cases r) (auto simp: body_le_def)

lemma any_loop_more: "body_le b b' \<Longrightarrow> any_loop b xs h s = Some r \<Longrightarrow> any_loop b' xs h s = Some r"
  by (induction xs arbitrary: h s r) (auto elim!: and_then_more dest: body_leD split: if_splits)

lemma all_loop_more: "body_le b b' \<Longrightarrow> all_loop b xs h s = Some r \<Longrightarrow> all_loop b' xs h s = Some r"
  by (induction xs arbitrary: h s r) (auto elim!: and_then_more dest: body_leD split: if_splits)

lemma filter_loop_more: "body_le b b' \<Longrightarrow> filter_loop b xs acc s = Some r \<Longrightarrow> filter_loop b' xs acc s = Some r"
  by (induction xs arbitrary: acc s r) (auto elim!: and_then_more dest: body_leD split: if_splits)

lemma map_loop_more: "body_le b b' \<Longrightarrow> map_loop b xs acc s = Some r \<Longrightarrow> map_loop b' xs acc s = Some r"
  by (induction xs arbitrary: acc s r) (auto elim!: and_then_more dest: body_leD split: if_splits)

lemma reduce_loop_more: "body_le b b' \<Longrightarrow> reduce_loop b xs acc s = Some r \<Longrightarrow> reduce_loop b' xs acc s = Some r"
  by (induction xs arbitrary: acc s r) (auto elim!: and_then_more dest: body_leD split: if_splits)

lemmas loops_more = any_loop_more all_loop_more filter_loop_more map_loop_more reduce_loop_more

lemma lambda_loop_more: "body_le b b' \<Longrightarrow> lambda_loop op b vs s = Some r \<Longrightarrow> lambda_loop op b' vs s = Some r"
  by (cases "vs ! 0") (auto simp: lambda_loop_def intro: loops_more split: if_splits)

lemma run_Suc: "run n V P pos s = Some r \<Longrightarrow> run (Suc n) V P pos s = Some r"
proof (induction n arbitrary: P pos s r)
  case 0
  then show ?case by simp
next
  case (Suc n)
  have body: "body_le (execLambdaWithParams (run n V) P i) (execLambdaWithParams (run (Suc n) V) P i)" for i
    using Suc.IH by (auto simp: body_le_def execLambdaWithParams_def simp del: run.simps split: option.splits)
  show ?case
  proof (cases "pos < length (pr_Instructions P) \<and> pr_Instructions P ! pos \<in> set lambda_ops")
    case True
    then show ?thesis
      using Suc.prems Suc.IH
      by (subst run.simps, subst (asm) run.simps)
         (auto simp: Let_def simp del: run.simps split: if_splits option.splits
            elim!: and_then_more dest: lambda_loop_more [OF body])
  next
    case False
    then show ?thesis
      using Suc.prems
      by (subst run.simps, subst (asm) run.simps)
         (auto simp: Let_def simp del: run.simps split: if_splits outcome.splits intro: Suc.IH)
  qed
qed

interpretation vm_fuel: fueled "\<lambda>n (V, P, pos, s). run n V P pos s"
  by unfold_locales (auto intro: run_Suc simp del: run.simps)

subsection \<open>Warnings do not change values\<close>

definition silent :: "('a \<Rightarrow> warnings \<Rightarrow> 'b warned) \<Rightarrow> bool" where
  "silent f \<longleftrightarrow> (\<forall>a w w'. fst (f a w) = fst (f a w'))"

definition hushed :: "vm_op \<Rightarrow> bool" where
  "hushed f \<longleftrightarrow> (\<forall>vs w w'. map_option fst (f vs w) = map_option fst (f vs w'))"

named_theorems quiet_intros

lemma fst_warn_null [simp]: "fst (warn_null c w) = NullValue"
  by (simp add: warn_null_def)

lemma quiet_un [quiet_intros]: "hushed (snd (un f))"
  by (simp add: hushed_def un_def)

lemma quiet_bin [quiet_intros]: "hushed (snd (bin f))"
  by (simp add: hushed_def bin_def)

lemma quiet_tern [quiet_intros]: "hushed (snd (tern f))"
  by (simp add: hushed_def tern_def option.map_comp comp_def)

lemma quiet_un_warn [quiet_intros]: "silent f \<Longrightarrow> hushed (snd (un_warn f))"
  by (simp add: hushed_def un_warn_def silent_def)

lemma quiet_bin_warn [quiet_intros]: "(\<And>a. silent (f a)) \<Longrightarrow> hushed (snd (bin_warn f))"
  by (simp add: hushed_def bin_warn_def silent_def)

lemma quiet_plain [quiet_intros]: "hushed (plain f n)"
  by (simp add: hushed_def plain_def)

lemma quiet_Some [quiet_intros]: "silent f \<Longrightarrow> hushed (\<lambda>vs w. Some (f vs w))"
  by (simp add: hushed_def silent_def)

lemma silentI: "(\<And>a w w'. fst (f a w) = fst (f a w')) \<Longrightarrow> silent f"
  by (auto simp: silent_def)

lemma silentD: "silent f \<Longrightarrow> fst (f a w) = fst (f a w')"
  by (auto simp: silent_def)

lemma silent_strictCompare [quiet_intros]: "silent (strictCompare L a)"
proof (rule silentI)
  show "fst (strictCompare L a b w) = fst (strictCompare L a b w')" for b w w'
    by (cases a; cases b) (simp_all add: strictCompare_def)
qed

lemma silent_compare_with [quiet_intros]: "silent (compare_with L test a)"
  using silentD [OF silent_strictCompare] by (auto simp: silent_def compare_with_def intro!: arg_cong [where f = bool_or_null] arg_cong [where f = "map_option _"])

lemma silent_strictEq [quiet_intros]: "silent (strictEq L a)"
  using silentD [OF silent_strictCompare] by (auto simp: silent_def strictEq_def intro!: arg_cong [where f = "map_option _"])

lemma silent_arith [quiet_intros]:
  "silent (addStrict a)" "silent (subStrict a)" "silent (mulStrict L a)" "silent (divStrict L a)" "silent (modStrict a)"
proof -
  show "silent (addStrict a)"
    by (rule silentI, rename_tac b w w', case_tac a; case_tac b) (simp_all add: addStrict_def)
  show "silent (subStrict a)"
    by (rule silentI, rename_tac b w w', case_tac a; case_tac b) (simp_all add: subStrict_def)
  show "silent (mulStrict L a)"
    by (rule silentI, rename_tac b w w', case_tac a; case_tac b) (simp_all add: mulStrict_def)
  show "silent (divStrict L a)"
    by (rule silentI, rename_tac b w w', case_tac a; case_tac b) (simp_all add: divStrict_def)
  show "silent (modStrict a)"
    by (rule silentI, rename_tac b w w', case_tac a; case_tac b) (simp_all add: modStrict_def)
qed

lemma silent_unary [quiet_intros]: "silent negStrict" "silent not3VL"
proof -
  show "silent negStrict"
    by (rule silentI, rename_tac b w w', case_tac b) simp_all
  show "silent not3VL"
    by (rule silentI, rename_tac b w w', case_tac b) simp_all
qed

text \<open>A step that passes a silent result on.\<close>

lemma silent_case:
  assumes "silent f" "\<And>v w w'. fst (k v w) = fst (k v w')"
  shows "fst (case f a w of (v, u) \<Rightarrow> k v u) = fst (case f a w' of (v, u) \<Rightarrow> k v u)"
  using assms silentD [OF assms(1), of a w w'] by (auto split: prod.splits)

lemma silent_loops:
  "fst (in_items L v xs h w) = fst (in_items L v xs h w')"
  "fst (scalar_extrema_loop L g r xs w) = fst (scalar_extrema_loop L g r xs w')"
  "fst (deltas_loop p xs acc w) = fst (deltas_loop p xs acc w')"
  "fst (cumsum_loop p xs acc w) = fst (cumsum_loop p xs acc w')"
proof -
  show "fst (in_items L v xs h w) = fst (in_items L v xs h w')"
    by (induction xs arbitrary: h w w')
       (auto intro!: silent_case [OF silent_strictEq] split: option.splits)
  show "fst (scalar_extrema_loop L g r xs w) = fst (scalar_extrema_loop L g r xs w')"
  proof (induction xs arbitrary: r w w')
    case (Cons x xs)
    then show ?case
      using silentD [OF silent_strictCompare, of L x r w w'] by (auto split: prod.splits option.splits)
  qed simp
  show "fst (deltas_loop p xs acc w) = fst (deltas_loop p xs acc w')"
    by (induction xs arbitrary: p acc w w') (auto intro!: silent_case [OF silent_arith(2)])
  show "fst (cumsum_loop p xs acc w) = fst (cumsum_loop p xs acc w')"
    by (induction xs arbitrary: p acc w w') (auto intro!: silent_case [OF silent_arith(1)])
qed

lemma silent_inStrict: "fst (inStrict L v xs w) = fst (inStrict L v xs w')"
  by (simp add: inStrict_def silent_loops(1) [where w = w and w' = w'])

lemma silent_scalarExtremaValue [quiet_intros]: "silent (scalarExtremaValue L g)"
  by (rule silentI, rename_tac xs w w', case_tac xs) (auto intro: silent_loops)

lemma silent_array_fns [quiet_intros]:
  "silent (execArrayExtrema L g)" "silent execArrayDeltas" "silent execArrayCumSum"
proof -
  show "silent (execArrayExtrema L g)"
    using silent_scalarExtremaValue [of L g]
    by (intro silentI, rename_tac x w w', case_tac x) (simp_all add: silent_def)
  show "silent execArrayDeltas"
    by (intro silentI, rename_tac x w w', case_tac x; (rename_tac xs, case_tac xs)?)
       (auto intro: silent_loops)
  show "silent execArrayCumSum"
    by (intro silentI, rename_tac x w w', case_tac x; (rename_tac xs, case_tac xs)?)
       (auto intro: silent_loops)
qed

lemma quiet_in_strict [quiet_intros]: "hushed (in_strict L n)"
proof -
  have "fst (case x of NullValue \<Rightarrow> (NullValue, w) | ArrayValue items \<Rightarrow> inStrict L v items w
             | container \<Rightarrow> apfst bool_or_null (strictEq L v container w)) =
        fst (case x of NullValue \<Rightarrow> (NullValue, w') | ArrayValue items \<Rightarrow> inStrict L v items w'
             | container \<Rightarrow> apfst bool_or_null (strictEq L v container w'))" for x v w w'
    by (cases x) (simp_all add: silent_inStrict [of L v _ w w'] silentD [OF silent_strictEq, of L v _ w w'])
  then show ?thesis
    by (auto simp: hushed_def in_strict_def intro: silent_inStrict)
qed

lemma quiet_map_option [quiet_intros]: "hushed (\<lambda>vs w. map_option (\<lambda>v. (v, w)) (f vs))"
  by (simp add: hushed_def option.map_comp comp_def)

lemma quiet_fixed_ops: "map_of (fixed_ops V) op = Some (n, f) \<Longrightarrow> hushed f"
proof -
  have "\<forall>e \<in> set (fixed_ops V). hushed (snd (snd e))"
    by (simp add: op_tables quiet_intros)
  then show "map_of (fixed_ops V) op = Some (n, f) \<Longrightarrow> hushed f"
    by (force dest: map_of_SomeD)
qed

lemma quiet_counted_ops:
  assumes "map_of (counted_ops V) op = Some (pops, ok, err, over, f)"
  shows "hushed (f n)"
proof -
  have "\<forall>e \<in> set (counted_ops V). hushed (snd (snd (snd (snd (snd e)))) n)"
    by (simp add: counted_tables quiet_intros)
  then show ?thesis using assms by (force dest: map_of_SomeD)
qed

subsection \<open>The cache does not change values\<close>

definition json_value :: "vm_lib \<Rightarrow> gostring \<Rightarrow> gostring \<Rightarrow> Value" where
  "json_value V source path =
     (case json_parse V source of None \<Rightarrow> NullValue | Some obj \<Rightarrow> json_lookup V obj (split_dot path))"

definition raw_value :: "vm_lib \<Rightarrow> row \<Rightarrow> gostring \<Rightarrow> Value" where
  "raw_value V row path =
     (case non_null (row raw_name) of
        Some raw \<Rightarrow> json_value V (Value_String (vl_go V) raw) path
      | None \<Rightarrow> NullValue)"

definition load_value :: "vm_lib \<Rightarrow> row \<Rightarrow> gostring \<Rightarrow> Value" where
  "load_value V row name =
     (case row name of
        Some v \<Rightarrow> v
      | None \<Rightarrow>
          (case index_byte 46 name of
             None \<Rightarrow> raw_value V row name
           | Some dot \<Rightarrow>
               if dot = 0 then raw_value V row name
               else (case non_null (row (take dot name)) of
                       Some r \<Rightarrow> json_value V (Value_String (vl_go V) r) (drop (Suc dot) name)
                     | None \<Rightarrow> raw_value V row name)))"

definition exists_value :: "vm_lib \<Rightarrow> row \<Rightarrow> gostring \<Rightarrow> bool" where
  "exists_value V row name \<longleftrightarrow> row name \<noteq> None \<or> \<not> IsNull (raw_value V row name)"

text \<open>A cached object is what its source parses to.\<close>

definition cache_ok :: "vm_lib \<Rightarrow> VM \<Rightarrow> bool" where
  "cache_ok V s \<longleftrightarrow> (case vm_jsonCache s of None \<Rightarrow> True | Some (src, obj) \<Rightarrow> json_parse V src = Some obj)"

definition recached :: "vm_lib \<Rightarrow> VM \<Rightarrow> VM \<Rightarrow> bool" where
  "recached V s s' \<longleftrightarrow> s' = s\<lparr>vm_jsonCache := vm_jsonCache s'\<rparr> \<and> cache_ok V s'"

lemma recached_refl [simp]: "recached V s s = cache_ok V s"
  by (simp add: recached_def)

lemma jsonExtractCached_value [simp]:
  assumes "cache_ok V s"
  shows "fst (jsonExtractCached V src path s) = json_value V src path"
    and "recached V s (snd (jsonExtractCached V src path s))"
  using assms
  by (auto simp: jsonExtractCached_def json_value_def cache_ok_def recached_def Let_def
       split: option.splits)

lemma load_field_value [simp]:
  assumes "cache_ok V s"
  shows "fst (load_field V name s) = load_value V (vm_fields s) name"
    and "recached V s (snd (load_field V name s))"
  using assms by (simp_all add: load_field_def load_value_def raw_value_def Let_def split: option.split)

lemma field_exists_value [simp]:
  assumes "cache_ok V s"
  shows "fst (field_exists V name s) = exists_value V (vm_fields s) name"
    and "recached V s (snd (field_exists V name s))"
  using assms
  by (simp_all add: field_exists_def exists_value_def raw_value_def case_prod_unfold split: option.split)

subsection \<open>The stack as a list\<close>

definition stk :: "VM \<Rightarrow> Value list" where
  "stk s = map (vm_stack s) [0..<vm_sp s]"

lemma length_stk [simp]: "length (stk s) = vm_sp s"
  by (simp add: stk_def)

lemma stk_put [simp]: "stk (put v s) = stk s @ [v]"
  by (simp add: stk_def put_def)

lemma stk_drop_args [simp]: "stk (drop_args n s) = take (vm_sp s - n) (stk s)"
  by (simp add: stk_def drop_args_def take_map)

lemma vm_sp_drop_args [simp]: "vm_sp (drop_args n s) = vm_sp s - n"
  by (simp add: drop_args_def)

lemma args_stk: "n \<le> vm_sp s \<Longrightarrow> args n s = drop (vm_sp s - n) (stk s)"
  by (simp add: args_def stk_def drop_map)

lemma top_stk: "0 < vm_sp s \<Longrightarrow> vm_stack s (vm_sp s - 1) = last (stk s)"
  by (cases "vm_sp s") (auto simp: stk_def)

text \<open>What a rule assumes of a state, whatever its warnings: the row, the lambda parameters, the values on the stack.\<close>

definition state_ok :: "vm_lib \<Rightarrow> row \<Rightarrow> Value list \<Rightarrow> VM \<Rightarrow> bool" where
  "state_ok V row ps s \<longleftrightarrow> vm_fields s = row \<and> vm_lambdaParams s = ps \<and> cache_ok V s"

definition view :: "vm_lib \<Rightarrow> row \<Rightarrow> Value list \<Rightarrow> Value list \<Rightarrow> VM \<Rightarrow> bool" where
  "view V row ps st s \<longleftrightarrow> stk s = st \<and> state_ok V row ps s"

lemma state_ok_simps [simp]:
  "state_ok V row ps (put v s) = state_ok V row ps s"
  "state_ok V row ps (drop_args n s) = state_ok V row ps s"
  "state_ok V row ps (s\<lparr>vm_Warnings := w\<rparr>) = state_ok V row ps s"
  "state_ok V row ps (s\<lparr>vm_sp := i\<rparr>) = state_ok V row ps s"
  "state_ok V row ps (s\<lparr>vm_predicateCtx := x\<rparr>) = state_ok V row ps s"
  by (simp_all add: state_ok_def put_def drop_args_def cache_ok_def)

lemma stk_update [simp]:
  "stk (s\<lparr>vm_Warnings := w\<rparr>) = stk s" "stk (s\<lparr>vm_jsonCache := c\<rparr>) = stk s"
  "stk (s\<lparr>vm_lambdaParams := ps\<rparr>) = stk s" "stk (s\<lparr>vm_predicateCtx := x\<rparr>) = stk s"
  by (simp_all add: stk_def)

lemma view_sp: "view V row ps st s \<Longrightarrow> vm_sp s = length st"
  by (auto simp: view_def)

lemma recached_view:
  assumes "recached V s s'" "view V row ps st s"
  shows "view V row ps st s'"
proof -
  from assms(1) obtain c where "s' = s\<lparr>vm_jsonCache := c\<rparr>" "cache_ok V s'"
    unfolding recached_def by blast
  with assms(2) show ?thesis by (simp add: view_def state_ok_def)
qed

subsection \<open>Runs between positions\<close>

definition steps :: "vm_lib \<Rightarrow> Program \<Rightarrow> nat \<Rightarrow> VM \<Rightarrow> nat \<Rightarrow> VM \<Rightarrow> bool" where
  "steps V F a s b s' \<longleftrightarrow> (\<forall>m r. run m V F b s' = Some r \<longrightarrow> (\<exists>n. run n V F a s = Some r))"

definition leads :: "vm_lib \<Rightarrow> Program \<Rightarrow> nat \<Rightarrow> (VM \<Rightarrow> bool) \<Rightarrow> nat \<Rightarrow> (VM \<Rightarrow> bool) \<Rightarrow> bool" where
  "leads V F a A b B \<longleftrightarrow> (\<forall>s. A s \<longrightarrow> (\<exists>s'. B s' \<and> steps V F a s b s'))"

definition halts :: "vm_lib \<Rightarrow> Program \<Rightarrow> nat \<Rightarrow> (VM \<Rightarrow> bool) \<Rightarrow> vm_error + Value \<Rightarrow> (VM \<Rightarrow> bool) \<Rightarrow> bool" where
  "halts V F a A r B \<longleftrightarrow> (\<forall>s. A s \<longrightarrow> (\<exists>n s'. run n V F a s = Some (r, s') \<and> B s'))"

lemma leads_refl [simp]: "leads V F a A a A"
  by (auto simp: leads_def steps_def)

lemma leads_trans: "leads V F a A b B \<Longrightarrow> leads V F b B c C \<Longrightarrow> leads V F a A c C"
  by (simp add: leads_def steps_def) meson

lemma leads_halts: "leads V F a A b B \<Longrightarrow> halts V F b B r C \<Longrightarrow> halts V F a A r C"
  by (simp add: leads_def halts_def steps_def) meson

text \<open>Code of a program at a position.\<close>

definition code_at :: "Program \<Rightarrow> nat \<Rightarrow> bytes \<Rightarrow> bool" where
  "code_at F a c \<longleftrightarrow> a + length c \<le> length (pr_Instructions F) \<and> take (length c) (drop a (pr_Instructions F)) = c"

lemma code_at_append [simp]: "code_at F a (c @ d) \<longleftrightarrow> code_at F a c \<and> code_at F (a + length c) d"
proof -
  have "take (length (c @ d)) (drop a (pr_Instructions F)) =
        take (length c) (drop a (pr_Instructions F)) @ take (length d) (drop (a + length c) (pr_Instructions F))"
    by (simp add: take_add add.commute)
  then show ?thesis by (auto simp: code_at_def)
qed

lemma code_at_Nil [simp]: "code_at F a [] \<longleftrightarrow> a \<le> length (pr_Instructions F)"
  by (simp add: code_at_def)

lemma code_at_Cons: "code_at F a (x # c) \<Longrightarrow> a < length (pr_Instructions F) \<and> pr_Instructions F ! a = x"
  by (auto simp: code_at_def take_Suc_conv_app_nth hd_drop_conv_nth Cons_nth_drop_Suc [symmetric])

lemma code_at_operand:
  assumes "code_at F a (op # be16 v)" "v < 65536"
  shows "readOperandSafe (pr_Instructions F) (Suc a) = Some v"
proof -
  have c: "code_at F a ([op] @ be16 v)" using assms(1) by simp
  then have "take 2 (drop (Suc a) (pr_Instructions F)) = be16 v" and len: "Suc a + 2 \<le> length (pr_Instructions F)"
    unfolding code_at_append by (simp_all add: code_at_def)
  then have "drop (Suc a) (pr_Instructions F) = be16 v @ drop 2 (drop (Suc a) (pr_Instructions F))"
    by (metis append_take_drop_id)
  then have "ReadUint16 (drop (Suc a) (pr_Instructions F)) = v"
    using assms(2) by (metis ReadUint16_be16)
  then show ?thesis using len by (simp add: readOperandSafe_def)
qed

subsection \<open>Rules of the instructions\<close>

lemma Make_two_byte: "op \<in> set two_byte_ops \<Longrightarrow> Make op [v] = op # be16 v"
proof -
  have "OpBSIHandledCompare \<notin> set two_byte_ops" by (simp add: two_byte_ops_def opcode_defs)
  then show "op \<in> set two_byte_ops \<Longrightarrow> Make op [v] = op # be16 v"
    by (auto simp: Make_def OperandWidths_def)
qed

lemma Make_plain: "op \<notin> set two_byte_ops \<Longrightarrow> op \<noteq> OpBSIHandledCompare \<Longrightarrow> Make op [] = [op]"
  by (simp add: Make_def OperandWidths_def)

lemma two_byte_emitted:
  "{OpConstInt, OpConstFloat, OpConstStr, OpConstDuration, OpLoadField, OpFieldExists, OpFieldMissing, OpLoadPath,
    OpMember, OpLoadLambdaParam, OpJump, OpJumpIfFalse, OpJumpIfTrue, OpJumpIfNull3VL, OpStrictCastFail}
   \<subseteq> set two_byte_ops"
  by (simp add: two_byte_ops_def)

lemma Make_control:
  "op \<in> {OpNop, OpPop, OpDup, OpConstTrue, OpConstFalse, OpConstNull, OpReturn} \<Longrightarrow> Make op [] = [op]"
  by (intro Make_plain) (auto simp: two_byte_ops_def opcode_defs)

lemma leads_step:
  assumes "code_at F a (op # c)" "op \<notin> set lambda_ops" "\<And>s. A s \<Longrightarrow> \<exists>s'. exec1 V F a s = Next b s' \<and> B s'"
  shows "leads V F a A b B"
  unfolding leads_def
proof (intro allI impI)
  fix s assume "A s"
  then obtain s' where s': "exec1 V F a s = Next b s'" "B s'" using assms(3) by blast
  have "run (Suc m) V F a s = run m V F b s'" for m
    using code_at_Cons [OF assms(1)] assms(2) s'(1) by (simp add: Let_def)
  then show "\<exists>s'. B s' \<and> steps V F a s b s'" using s'(2) by (metis steps_def)
qed

lemma halts_step:
  assumes "code_at F a (op # c)" "op \<notin> set lambda_ops" "\<And>s. A s \<Longrightarrow> \<exists>s'. exec1 V F a s = Halt r s' \<and> B s'"
  shows "halts V F a A r B"
  unfolding halts_def
proof (intro allI impI)
  fix s assume "A s"
  then obtain s' where s': "exec1 V F a s = Halt r s'" "B s'" using assms(3) by blast
  have "run (Suc 0) V F a s = Some (r, s')"
    using code_at_Cons [OF assms(1)] assms(2) s'(1) by (simp add: Let_def)
  then show "\<exists>n s'. run n V F a s = Some (r, s') \<and> B s'" using s'(2) by blast
qed

text \<open>The result of an operation, without the counters, and its effect on a stack.\<close>

definition op_result :: "vm_op \<Rightarrow> Value list \<Rightarrow> vm_error + Value" where
  "op_result f vs = (case f vs None of None \<Rightarrow> Inl ErrVMTypeMismatch | Some (v, w) \<Rightarrow> Inr v)"

definition onto :: "Value list \<Rightarrow> vm_error + Value \<Rightarrow> vm_error + Value list" where
  "onto st r = map_sum id (\<lambda>v. st @ [v]) r"

lemma onto_simps [simp]: "onto st (Inl e) = Inl e" "onto st (Inr v) = Inr (st @ [v])"
  by (simp_all add: onto_def)

definition ends :: "vm_lib \<Rightarrow> Program \<Rightarrow> row \<Rightarrow> Value list \<Rightarrow> nat \<Rightarrow> Value list \<Rightarrow> nat \<Rightarrow> vm_error + Value list \<Rightarrow> bool" where
  "ends V F row ps a st b r =
     (case r of
        Inl e \<Rightarrow> halts V F a (view V row ps st) (Inl e) (state_ok V row ps)
      | Inr st' \<Rightarrow> leads V F a (view V row ps st) b (view V row ps st'))"

lemma apply_op_view:
  assumes "view V row ps (st @ vs) s" "hushed f" "length st < StackSize" "n = length vs"
  shows "case op_result f vs of
           Inl e \<Rightarrow> apply_op err over n f ip s = Halt (Inl e) s
         | Inr v \<Rightarrow> \<exists>s'. apply_op err over n f ip s = Next ip s' \<and> view V row ps (st @ [v]) s'"
proof -
  have sp: "vm_sp s = length st + n" using view_sp [OF assms(1)] assms(4) by simp
  then have arg: "args n s = vs" using assms(1,4) by (simp add: view_def args_stk)
  have q: "map_option fst (f vs (vm_Warnings s)) = map_option fst (f vs None)"
    using assms(2) unfolding hushed_def by blast
  show ?thesis
  proof (cases "f vs (vm_Warnings s)")
    case None
    then show ?thesis using q sp arg by (simp add: op_result_def apply_op_def panic_def fail_def)
  next
    case (Some vw)
    then obtain v w where "f vs (vm_Warnings s) = Some (v, w)" by (cases vw) auto
    moreover then obtain w' where "f vs None = Some (v, w')" using q by (cases "f vs None") auto
    ultimately show ?thesis
      using sp arg assms by (auto simp: op_result_def apply_op_def view_def drop_args_def [symmetric] Let_def)
  qed
qed

definition control_ops :: "u8 list" where
  "control_ops =
    [OpNop, OpPop, OpDup, OpConstInt, OpConstFloat, OpConstStr, OpConstDuration, OpConstTrue, OpConstFalse, OpConstNull,
     OpLoadField, OpStoreField, OpFieldExists, OpJump, OpJumpIfFalse, OpJumpIfTrue, OpJumpIfNull3VL, OpBSIHandledCompare,
     OpLoadPath, OpFieldMissing, OpMember, OpLoadLambdaParam, OpStrictCastFail, OpSearchMatch, OpReturn]"

lemma exec1_other:
  "pr_Instructions P ! pos \<notin> set control_ops \<Longrightarrow>
   exec1 V P pos s =
     (case map_of (fixed_ops V) (pr_Instructions P ! pos) of
        Some (n, f) \<Rightarrow> apply_op StackPanic StackPanic n f (Suc pos) s
      | None \<Rightarrow>
          (case map_of (counted_ops V) (pr_Instructions P ! pos) of
             Some entry \<Rightarrow> exec_counted entry P (Suc pos) s
           | None \<Rightarrow>
               if pr_Instructions P ! pos \<in> set rest_ops
               then vl_rest V (pr_Instructions P ! pos) P (Suc pos) s
               else fail (ErrUnknownOpcode (pr_Instructions P ! pos)) s))"
  by (simp add: exec1_def control_ops_def const_ops_def Let_def)

lemma fixed_ops_keys:
  "map fst (fixed_ops V) =
    [OpAddInt, OpSubInt, OpMulInt, OpDivInt, OpModInt, OpNegInt, OpAddFloat, OpSubFloat, OpMulFloat,
     OpDivFloat, OpNegFloat, OpAdd, OpSub, OpMul, OpDiv, OpMod, OpConcat, OpStrLen, OpToLower, OpToUpper,
     OpEq, OpNeq, OpLt, OpLte, OpGt, OpGte, OpAnd, OpOr, OpXor, OpNot, OpToInt, OpToFloat, OpToString,
     OpToBool, OpIsFinite, OpIsNaN, OpBitAnd, OpBitOr, OpBitXor, OpBitShl, OpBitShr, OpIsNull, OpIsNotNull,
     OpBin, OpBinOrigin, OpStartsWith, OpEndsWith, OpContains, OpIsNum, OpIsInt, OpIsBool, OpTypeOf, OpIndex,
     OpLen, OpEqStrict, OpNeqStrict, OpLtStrict, OpLteStrict, OpGtStrict, OpGteStrict, OpNot3VL, OpAnd3VLNull,
     OpOr3VLNull, OpAddStrict, OpSubStrict, OpMulStrict, OpDivStrict, OpModStrict, OpNegStrict, OpContainsCI,
     OpSubstr0Based, OpSlice, OpArrayDistinct, OpArraySum, OpArrayAvg, OpArrayMin, OpArrayMax, OpArrayCompact,
     OpArrayDeltas, OpArrayCumSum, OpArrayHasAny, OpArrayHasAll, OpArrayIntersect, OpArrayExcept, OpFlatten,
     OpKeys, OpValues, OpMerge, OpHasKey, OpEntries, OpFromEntries]"
  by (simp add: op_tables)

lemma fixed_ops_other:
  assumes "map_of (fixed_ops V) op = Some x"
  shows "op \<notin> set control_ops" "op \<notin> set lambda_ops" "op \<notin> set two_byte_ops"
proof -
  have "list_all (\<lambda>op. op \<notin> set (control_ops @ lambda_ops @ two_byte_ops)) (map fst (fixed_ops V))"
    unfolding fixed_ops_keys by code_simp
  moreover have "op \<in> set (map fst (fixed_ops V))" using map_of_SomeD [OF assms] by force
  ultimately show "op \<notin> set control_ops" "op \<notin> set lambda_ops" "op \<notin> set two_byte_ops"
    unfolding list_all_iff by auto
qed

lemma counted_ops_other:
  assumes "map_of (counted_ops V) op = Some x"
  shows "op \<notin> set control_ops" "op \<notin> set lambda_ops" "op \<in> set two_byte_ops"
proof -
  have "\<forall>op \<in> fst ` set (counted_ops V). op \<notin> set control_ops \<and> op \<notin> set lambda_ops \<and> op \<in> set two_byte_ops"
    by (simp add: counted_tables control_ops_def lambda_ops_def two_byte_ops_def opcode_defs)
  moreover have "op \<in> fst ` set (counted_ops V)" using map_of_SomeD [OF assms] by force
  ultimately show "op \<notin> set control_ops" "op \<notin> set lambda_ops" "op \<in> set two_byte_ops" by blast+
qed

end
