(* ===== verification/LF_Eval.thy ===== *)
theory LF_Eval
  imports LF_Compiler VM_Run
begin

text \<open>
  What an expression means: a reference evaluator over the tree, without bytecode, stack, jumps,
  counters or caches, and the expressions whose compiled code keeps to the stack discipline.

  A value is computed from the row and the values \<open>vals\<close> of the lambda parameters \<open>ps\<close> in scope. A
  failing strict conversion is an error; an operation that panics in the code gives
  \<open>ErrVMTypeMismatch\<close>, as the recovering machine does.
\<close>

subsection \<open>Operators\<close>

type_synonym denotation = "vm_error + Value"

definition quietly :: "Value warned \<Rightarrow> denotation" where
  "quietly r = Inr (fst r)"

definition literal_value :: "literal \<Rightarrow> Value" where
  "literal_value lit =
     (case lit of
        LitString s \<Rightarrow> StringValue s | LitRawString s \<Rightarrow> StringValue s
      | LitInt n \<Rightarrow> IntValue n | LitFloat f \<Rightarrow> FloatValue f | LitBool b \<Rightarrow> BoolValue b
      | LitNull \<Rightarrow> NullValue | LitDuration d \<Rightarrow> DurationValue d)"

text \<open>Three-valued conjunction and disjunction, with the right operand evaluated only when it is needed.\<close>

definition and_value :: "denotation \<Rightarrow> denotation \<Rightarrow> denotation" where
  "and_value l r =
     bind l (\<lambda>a. if IsNull a then bind r (\<lambda>b. Inr (if b = BoolValue False then b else NullValue))
                else if IsTruthy a then r else Inr (BoolValue False))"

definition or_value :: "denotation \<Rightarrow> denotation \<Rightarrow> denotation" where
  "or_value l r =
     bind l (\<lambda>a. if IsNull a then bind r (\<lambda>b. Inr (if b = BoolValue True then b else NullValue))
                else if IsTruthy a then Inr (BoolValue True) else r)"

definition compare_value :: "go_lib \<Rightarrow> (int \<Rightarrow> bool) \<Rightarrow> Value \<Rightarrow> Value \<Rightarrow> denotation" where
  "compare_value L test a b = quietly (compare_with L test a b None)"

definition strict_value :: "go_lib \<Rightarrow> BinaryOp \<Rightarrow> Value \<Rightarrow> Value \<Rightarrow> denotation" where
  "strict_value L op a b =
     (case op of
        Binary_Add \<Rightarrow> quietly (addStrict a b None)
      | Binary_Sub \<Rightarrow> quietly (subStrict a b None)
      | Binary_Mul \<Rightarrow> quietly (mulStrict L a b None)
      | Binary_Div \<Rightarrow> quietly (divStrict L a b None)
      | Binary_Mod \<Rightarrow> quietly (modStrict a b None)
      | Binary_Eq \<Rightarrow> compare_value L (\<lambda>c. c = 0) a b
      | Binary_NotEq \<Rightarrow> compare_value L (\<lambda>c. c \<noteq> 0) a b
      | Binary_Lt \<Rightarrow> compare_value L (\<lambda>c. c < 0) a b
      | Binary_LtEq \<Rightarrow> compare_value L (\<lambda>c. c \<le> 0) a b
      | Binary_Gt \<Rightarrow> compare_value L (\<lambda>c. c > 0) a b
      | Binary_GtEq \<Rightarrow> compare_value L (\<lambda>c. c \<ge> 0) a b
      | Binary_Coalesce \<Rightarrow> Inr (if IsNull a then b else a)
      | _ \<Rightarrow> Inl ErrInvalidBytecode)"

definition binary_value :: "go_lib \<Rightarrow> BinaryOp \<Rightarrow> denotation \<Rightarrow> denotation \<Rightarrow> denotation" where
  "binary_value L op l r =
     (if op = Binary_And then and_value l r
      else if op = Binary_Or then or_value l r
      else bind l (\<lambda>a. bind r (strict_value L op a)))"

definition unary_value :: "UnaryOp \<Rightarrow> Value \<Rightarrow> denotation" where
  "unary_value op v = (case op of Unary_Not \<Rightarrow> quietly (not3VL v None) | Unary_Neg \<Rightarrow> quietly (negStrict v None))"

definition between_value :: "go_lib \<Rightarrow> denotation \<Rightarrow> denotation \<Rightarrow> denotation \<Rightarrow> denotation" where
  "between_value L x lo hi =
     and_value (binary_value L Binary_GtEq x lo) (binary_value L Binary_LtEq x hi)"

fun all_values :: "denotation list \<Rightarrow> vm_error + Value list" where
  "all_values [] = Inr []"
| "all_values (r # rs) = bind r (\<lambda>v. bind (all_values rs) (\<lambda>vs. Inr (v # vs)))"

fun in_value :: "go_lib \<Rightarrow> Value \<Rightarrow> Value \<Rightarrow> denotation" where
  "in_value L v NullValue = Inr NullValue"
| "in_value L v (ArrayValue items) = quietly (inStrict L v items None)"
| "in_value L v container = quietly (apfst bool_or_null (strictEq L v container None))"

subsection \<open>Names\<close>

definition scope_value :: "vm_lib \<Rightarrow> row \<Rightarrow> gostring list \<Rightarrow> Value list \<Rightarrow> gostring \<Rightarrow> Value" where
  "scope_value V row ps vals name =
     (case map_of (rev (zip ps vals)) name of Some v \<Rightarrow> v | None \<Rightarrow> load_value V row name)"

definition path_value :: "vm_lib \<Rightarrow> row \<Rightarrow> gostring list \<Rightarrow> Value list \<Rightarrow> gostring list \<Rightarrow> Value" where
  "path_value V row ps vals parts =
     (if hd parts \<in> set ps then foldl memberValue (scope_value V row ps vals (hd parts)) (tl parts)
      else execLoadPath row (join_path parts))"

subsection \<open>Functions\<close>

fun case_value :: "denotation list \<Rightarrow> denotation" where
  "case_value (c # v # rest) = bind c (\<lambda>x. if IsTruthy x then v else case_value rest)"
| "case_value [d] = d"
| "case_value [] = Inr NullValue"

definition if_value :: "denotation \<Rightarrow> denotation \<Rightarrow> denotation \<Rightarrow> denotation" where
  "if_value c a b = bind c (\<lambda>x. if IsNull x then Inr NullValue else if IsTruthy x then a else b)"

fun any_value :: "(Value list \<Rightarrow> denotation) \<Rightarrow> Value list \<Rightarrow> bool \<Rightarrow> denotation" where
  "any_value g [] hasNull = Inr (if hasNull then NullValue else BoolValue False)"
| "any_value g (x # xs) hasNull =
     bind (g [x]) (\<lambda>v. if IsNull v then any_value g xs True
                      else if v = BoolValue True then Inr (BoolValue True) else any_value g xs hasNull)"

fun all_value :: "(Value list \<Rightarrow> denotation) \<Rightarrow> Value list \<Rightarrow> bool \<Rightarrow> denotation" where
  "all_value g [] hasNull = Inr (if hasNull then NullValue else BoolValue True)"
| "all_value g (x # xs) hasNull =
     bind (g [x]) (\<lambda>v. if IsNull v then all_value g xs True
                      else if v = BoolValue False then Inr (BoolValue False) else all_value g xs hasNull)"

fun filter_value :: "(Value list \<Rightarrow> denotation) \<Rightarrow> Value list \<Rightarrow> vm_error + Value list" where
  "filter_value g [] = Inr []"
| "filter_value g (x # xs) =
     bind (g [x]) (\<lambda>v. bind (filter_value g xs) (\<lambda>ys. Inr (if v = BoolValue True then x # ys else ys)))"

fun reduce_value :: "(Value list \<Rightarrow> denotation) \<Rightarrow> Value list \<Rightarrow> Value \<Rightarrow> denotation" where
  "reduce_value g [] acc = Inr acc"
| "reduce_value g (x # xs) acc = bind (g [acc, x]) (reduce_value g xs)"

definition lambda_value :: "u8 \<Rightarrow> (Value list \<Rightarrow> denotation) \<Rightarrow> Value list \<Rightarrow> denotation" where
  "lambda_value op g vs =
     (case vs ! 0 of
        ArrayValue xs \<Rightarrow>
          if op = OpArrayAny then any_value g xs False
          else if op = OpArrayAll then all_value g xs False
          else if op = OpArrayFilter then bind (filter_value g xs) (\<lambda>ys. Inr (ArrayValue ys))
          else if op = OpArrayMap then bind (all_values (map (\<lambda>x. g [x]) xs)) (\<lambda>ys. Inr (ArrayValue ys))
          else reduce_value g xs (vs ! 1)
      | _ \<Rightarrow> Inr NullValue)"

definition fixed_value :: "vm_lib \<Rightarrow> u8 \<Rightarrow> Value list \<Rightarrow> denotation" where
  "fixed_value V op vs =
     (case map_of (fixed_ops V) op of Some (n, f) \<Rightarrow> op_result f vs | None \<Rightarrow> Inl ErrLibrary)"

definition counted_value :: "vm_lib \<Rightarrow> u8 \<Rightarrow> Value list \<Rightarrow> denotation" where
  "counted_value V op vs =
     (case map_of (counted_ops V) op of
        Some (pops, ok, err, over, f) \<Rightarrow> op_result (f (length vs)) vs
      | None \<Rightarrow> Inl ErrLibrary)"

definition strict_cast_value :: "gostring \<Rightarrow> Value \<Rightarrow> denotation" where
  "strict_cast_value name v = (if IsNull v then Inl (ErrStrictCast (name @ bs ''!'')) else Inr v)"

text \<open>The arguments of a call: the trees, their values, and the bodies of the lambdas as functions.\<close>

record call_values =
  cv_Args :: "Expr list"
  cv_values :: "denotation list"
  cv_bodies :: "(Value list \<Rightarrow> denotation) list"

definition eval_call :: "vm_lib \<Rightarrow> lf_env \<Rightarrow> row \<Rightarrow> emit_kind \<Rightarrow> call_values \<Rightarrow> denotation" where
  "eval_call V E row k c =
     (let rs = cv_values c; n = length rs; name = ident_name (cv_Args c ! 0) in
      case k of
        EUnary op \<Rightarrow> bind (all_values rs) (fixed_value V op)
      | EBinary op \<Rightarrow> bind (all_values rs) (fixed_value V op)
      | ETernary op \<Rightarrow> bind (all_values rs) (fixed_value V op)
      | EVariadic op \<Rightarrow> bind (all_values rs) (counted_value V op)
      | EStrictCast cast op \<Rightarrow>
          bind (bind (all_values rs) (fixed_value V op)) (strict_cast_value cast)
      | EDuration \<Rightarrow> rs ! 0
      | EIf \<Rightarrow> if_value (rs ! 0) (rs ! 1) (rs ! 2)
      | ECase \<Rightarrow> case_value rs
      | ENullIf \<Rightarrow>
          bind (rs ! 0) (\<lambda>a. bind (bind (rs ! 1) (strict_value (vl_go V) Binary_Eq a))
            (\<lambda>eq. Inr (if IsTruthy eq then NullValue else a)))
      | EExists \<Rightarrow>
          (case name of
             Some x \<Rightarrow> Inr (BoolValue (exists_value V row x))
           | None \<Rightarrow> bind (rs ! 0) (\<lambda>v. Inr (BoolValue (\<not> IsNull v))))
      | EIsNull \<Rightarrow>
          (case name of
             Some x \<Rightarrow> Inr (BoolValue (row x = Some NullValue))
           | None \<Rightarrow> bind (rs ! 0) (\<lambda>v. Inr (BoolValue (IsNull v))))
      | EIsMissing \<Rightarrow> Inr (BoolValue (case name of Some x \<Rightarrow> row x = None | None \<Rightarrow> False))
      | ESubstr \<Rightarrow> bind (all_values (if n = 2 then rs @ [Inr NullValue] else rs)) (fixed_value V OpSubstr0Based)
      | ESlice \<Rightarrow>
          bind (all_values (if n = 2 then rs @ [Inr NullValue] else rs)) (fixed_value V OpSlice)
      | ENow \<Rightarrow> Inr (TimestampValue (le_Now E))
      | EBin \<Rightarrow>
          bind (all_values rs) (fixed_value V (if n = 3 then OpBinOrigin else OpBin))
      | ELambda op \<Rightarrow> bind (rs ! 0) (\<lambda>a. lambda_value op (cv_bodies c ! 1) [a])
      | EArrayReduce \<Rightarrow>
          bind (rs ! 0) (\<lambda>a. bind (rs ! 1) (\<lambda>i. lambda_value OpArrayReduce (cv_bodies c ! 2) [a, i]))
      | EArrayCount \<Rightarrow>
          bind (bind (rs ! 0) (\<lambda>a. lambda_value OpArrayFilter (cv_bodies c ! 1) [a])) (\<lambda>v. Inr (lenValue (vl_go V) v))
      | _ \<Rightarrow> Inl ErrLibrary)"

text \<open>The emitter that a call selects.\<close>

definition call_kind :: "gostring \<Rightarrow> bool \<Rightarrow> emit_kind option" where
  "call_kind name bang =
     (case lookupLFFunc name of
        None \<Rightarrow> None
      | Some (_, _, k, strict) \<Rightarrow> if bang then strict else Some k)"

subsection \<open>Evaluation\<close>

function (sequential) eval_expr ::
  "vm_lib \<Rightarrow> lf_env \<Rightarrow> row \<Rightarrow> gostring list \<Rightarrow> Value list \<Rightarrow> Expr \<Rightarrow> denotation"
where
  "eval_expr V E row ps vals (Literal lit) = Inr (literal_value lit)"
| "eval_expr V E row ps vals (Ident name) = Inr (scope_value V row ps vals name)"
| "eval_expr V E row ps vals (Paren e) = eval_expr V E row ps vals e"
| "eval_expr V E row ps vals (Unary op e) = bind (eval_expr V E row ps vals e) (unary_value op)"
| "eval_expr V E row ps vals (Binary op a b) =
     binary_value (vl_go V) op (eval_expr V E row ps vals a) (eval_expr V E row ps vals b)"
| "eval_expr V E row ps vals (In a (Array es)) =
     (if es = [] then Inr (BoolValue False)
      else bind (eval_expr V E row ps vals a) (\<lambda>v. bind (all_values (map (eval_expr V E row ps vals) es))
             (\<lambda>items. quietly (inStrict (vl_go V) v items None))))"
| "eval_expr V E row ps vals (In a b) =
     bind (eval_expr V E row ps vals a) (\<lambda>v. bind (eval_expr V E row ps vals b) (in_value (vl_go V) v))"
| "eval_expr V E row ps vals (Between x lo hi) =
     between_value (vl_go V) (eval_expr V E row ps vals x) (eval_expr V E row ps vals lo) (eval_expr V E row ps vals hi)"
| "eval_expr V E row ps vals (Call receiver safeNav callee bang es) =
     (let as = call_args receiver es in
      case call_kind callee bang of
        None \<Rightarrow> Inl ErrInvalidBytecode
      | Some k \<Rightarrow>
          eval_call V E row k
            \<lparr>cv_Args = as, cv_values = map (eval_expr V E row ps vals) as,
             cv_bodies = map (\<lambda>e. case e of
                 Lambda qs body \<Rightarrow> (\<lambda>xs. eval_expr V E row (ps @ qs) (vals @ xs) body)
               | _ \<Rightarrow> (\<lambda>xs. Inl ErrInvalidBytecode)) as\<rparr>)"
| "eval_expr V E row ps vals (Member obj f) =
     (case collectIdentMemberPath (Member obj f) of
        Some parts \<Rightarrow> Inr (path_value V row ps vals parts)
      | None \<Rightarrow> bind (eval_expr V E row ps vals obj) (\<lambda>v. Inr (memberValue v f)))"
| "eval_expr V E row ps vals (SafeMember obj f) =
     (case collectIdentSafeMemberPath (SafeMember obj f) of
        Some parts \<Rightarrow> Inr (path_value V row ps vals parts)
      | None \<Rightarrow> bind (eval_expr V E row ps vals obj) (\<lambda>v. Inr (memberValue v f)))"
| "eval_expr V E row ps vals (Index obj idx) =
     bind (eval_expr V E row ps vals obj) (\<lambda>c. bind (eval_expr V E row ps vals idx) (\<lambda>i. Inr (indexValue (vl_go V) c i)))"
| "eval_expr V E row ps vals (Slice obj start end) =
     bind (eval_expr V E row ps vals obj) (\<lambda>c.
     bind (case start of Some e \<Rightarrow> eval_expr V E row ps vals e | None \<Rightarrow> Inr (IntValue 0)) (\<lambda>i.
     bind (case end of Some e \<Rightarrow> eval_expr V E row ps vals e | None \<Rightarrow> Inr NullValue) (\<lambda>j.
     Inr (sliceValue (vl_go V) c i j))))"
| "eval_expr V E row ps vals (Array es) =
     bind (all_values (map (eval_expr V E row ps vals) es)) (\<lambda>vs. Inr (ArrayValue vs))"
| "eval_expr V E row ps vals (Object kvs) =
     bind (all_values (map (\<lambda>(k, e). eval_expr V E row ps vals e) kvs))
       (\<lambda>vs. Inr (ObjectValue (fold (\<lambda>(k, v). obj_put k v) (zip (map fst kvs) vs) [])))"
| "eval_expr V E row ps vals (ErrorExpr msg) = Inl ErrInvalidBytecode"
| "eval_expr V E row ps vals (Lambda qs body) = Inl ErrInvalidBytecode"
  by pat_completeness auto
termination
  by (relation "measure (\<lambda>(V, E, row, ps, vals, e). size e)") (auto dest: member_sizes)

subsection \<open>Expressions that keep to the stack\<close>

text \<open>
  \<open>fits V ps t e d\<close>: the code of \<open>e\<close>, started with \<open>d\<close> values on the stack, stays within the 256 slots
  and leaves exactly its value on top of them. When \<open>t\<close> holds, what is below the value no longer
  matters: it is the last thing a program or a lambda body computes. Only there may a conditional stand,
  which leaves its condition behind, or a lambda over a non-empty stack, which is overwritten.
\<close>

type_synonym depth_test = "nat \<Rightarrow> bool"

fun stacked :: "depth_test list \<Rightarrow> depth_test" where
  "stacked [] d \<longleftrightarrow> d \<le> StackSize"
| "stacked (f # fs) d \<longleftrightarrow> f d \<and> stacked fs (Suc d)"

record call_fits =
  cf_Args :: "Expr list"
  cf_fits :: "depth_test list"
  cf_tail :: "depth_test list"
  cf_bodies :: "bool list"

definition fixed_arity :: "vm_lib \<Rightarrow> u8 \<Rightarrow> nat option" where
  "fixed_arity V op = map_option fst (map_of (fixed_ops V) op)"

definition counted_takes :: "vm_lib \<Rightarrow> u8 \<Rightarrow> nat \<Rightarrow> bool" where
  "counted_takes V op n =
     (case map_of (counted_ops V) op of Some (pops, ok, _) \<Rightarrow> pops n = n \<and> ok n | None \<Rightarrow> False)"

definition not_param :: "gostring list \<Rightarrow> Expr \<Rightarrow> bool" where
  "not_param ps e = (case ident_name e of Some x \<Rightarrow> x \<notin> set ps | None \<Rightarrow> True)"

definition fits_call :: "vm_lib \<Rightarrow> gostring list \<Rightarrow> bool \<Rightarrow> emit_kind \<Rightarrow> call_fits \<Rightarrow> depth_test" where
  "fits_call V ps t k c d =
     (let fs = cf_fits c; n = length fs; first = cf_Args c ! 0 in
      d < StackSize \<and>
      (case k of
         EUnary op \<Rightarrow> n = 1 \<and> fixed_arity V op = Some 1 \<and> stacked fs d
       | EBinary op \<Rightarrow> n = 2 \<and> fixed_arity V op = Some 2 \<and> stacked fs d
       | ETernary op \<Rightarrow> n = 3 \<and> fixed_arity V op = Some 3 \<and> stacked fs d
       | EVariadic op \<Rightarrow> counted_takes V op n \<and> stacked fs d
       | EStrictCast cast op \<Rightarrow> n = 1 \<and> fixed_arity V op = Some 1 \<and> stacked fs d \<and> Suc d < StackSize
       | EDuration \<Rightarrow> n = 1 \<and> (fs ! 0) d
       | EIf \<Rightarrow> n = 3 \<and> t \<and> (fs ! 0) d \<and> Suc d < StackSize \<and> (cf_tail c ! 1) (Suc d) \<and> (cf_tail c ! 2) (Suc d)
       | ECase \<Rightarrow> (\<forall>f \<in> set fs. f d)
       | ENullIf \<Rightarrow> n = 2 \<and> stacked fs d
       | EExists \<Rightarrow> n = 1 \<and> not_param ps first \<and> (fs ! 0) d
       | EIsNull \<Rightarrow> n = 1 \<and> not_param ps first \<and> (fs ! 0) d
       | EIsMissing \<Rightarrow> n = 1 \<and> not_param ps first
       | ESubstr \<Rightarrow> (n = 2 \<or> n = 3) \<and> stacked fs d \<and> d + 2 < StackSize
       | ESlice \<Rightarrow> (n = 2 \<or> n = 3) \<and> stacked fs d \<and> d + 2 < StackSize
       | ENow \<Rightarrow> True
       | EBin \<Rightarrow> (n = 2 \<or> n = 3) \<and> stacked fs d
       | ELambda op \<Rightarrow> n = 2 \<and> op \<in> set lambda_ops \<and> op \<noteq> OpArrayReduce \<and> (t \<or> d = 0) \<and> (fs ! 0) d \<and> cf_bodies c ! 1
       | EArrayReduce \<Rightarrow> n = 3 \<and> (t \<or> d = 0) \<and> stacked (take 2 fs) d \<and> cf_bodies c ! 2
       | EArrayCount \<Rightarrow> n = 2 \<and> d = 0 \<and> (fs ! 0) d \<and> cf_bodies c ! 1
       | _ \<Rightarrow> False))"

function (sequential) fits :: "vm_lib \<Rightarrow> gostring list \<Rightarrow> bool \<Rightarrow> Expr \<Rightarrow> depth_test" where
  "fits V ps t (Literal lit) d \<longleftrightarrow> d < StackSize"
| "fits V ps t (Ident name) d \<longleftrightarrow> d < StackSize \<and> length ps \<le> 65536"
| "fits V ps t (Paren e) d \<longleftrightarrow> fits V ps t e d"
| "fits V ps t (Unary op e) d \<longleftrightarrow> fits V ps False e d"
| "fits V ps t (Binary op a b) d \<longleftrightarrow>
     fits V ps False a d \<and> fits V ps False b (if op = Binary_And \<or> op = Binary_Or then d else Suc d)"
| "fits V ps t (In a (Array es)) d \<longleftrightarrow>
     d < StackSize \<and> (es = [] \<or> fits V ps False a d \<and> stacked (map (fits V ps False) es) (Suc d))"
| "fits V ps t (In a b) d \<longleftrightarrow> fits V ps False a d \<and> fits V ps False b (Suc d)"
| "fits V ps t (Between x lo hi) d \<longleftrightarrow>
     fits V ps False x d \<and> fits V ps False lo (Suc d) \<and> fits V ps False hi (Suc d)"
| "fits V ps t (Call receiver safeNav callee bang es) d \<longleftrightarrow>
     \<not> (receiver \<noteq> None \<and> safeNav) \<and>
     (let as = call_args receiver es in
      case call_kind callee bang of
        None \<Rightarrow> False
      | Some k \<Rightarrow>
          fits_call V ps t k
            \<lparr>cf_Args = as, cf_fits = map (fits V ps False) as, cf_tail = map (fits V ps True) as,
             cf_bodies = map (\<lambda>e. case e of Lambda qs body \<Rightarrow> fits V (ps @ qs) True body 0 | _ \<Rightarrow> False) as\<rparr> d)"
| "fits V ps t (Member obj f) d \<longleftrightarrow>
     d < StackSize \<and> length ps \<le> 65536 \<and> (collectIdentMemberPath (Member obj f) \<noteq> None \<or> fits V ps False obj d)"
| "fits V ps t (SafeMember obj f) d \<longleftrightarrow>
     (case collectIdentSafeMemberPath (SafeMember obj f) of
        Some parts \<Rightarrow> d < StackSize \<and> hd parts \<notin> set ps
      | None \<Rightarrow> fits V ps False obj d)"
| "fits V ps t (Index obj idx) d \<longleftrightarrow> fits V ps False obj d \<and> fits V ps False idx (Suc d)"
| "fits V ps t (Slice obj start end) d \<longleftrightarrow>
     fits V ps False obj d \<and>
     (case start of Some e \<Rightarrow> fits V ps False e (Suc d) | None \<Rightarrow> Suc d < StackSize) \<and>
     (case end of Some e \<Rightarrow> fits V ps False e (d + 2) | None \<Rightarrow> d + 2 < StackSize)"
| "fits V ps t (Array es) d \<longleftrightarrow> d < StackSize \<and> stacked (map (fits V ps False) es) d"
| "fits V ps t (Object kvs) d \<longleftrightarrow>
     d < StackSize \<and>
     stacked (concat (map (\<lambda>(k, e). [\<lambda>n. n < StackSize, fits V ps False e]) kvs)) d"
| "fits V ps t (ErrorExpr msg) d \<longleftrightarrow> False"
| "fits V ps t (Lambda qs body) d \<longleftrightarrow> False"
  by pat_completeness auto
termination
  by (relation "measure (\<lambda>(V, ps, t, e, d). size e)") (auto dest: member_sizes)

end
