(* ===== verification/VM_Rules.thy ===== *)
theory VM_Rules
  imports VM_Run
begin

text \<open>
  What the instructions that the compiler emits do to the stack, on every state with a given view.
\<close>

lemma view_put: "view V row ps st s \<Longrightarrow> view V row ps (st @ [v]) (put v s)"
  by (simp add: view_def)

lemma view_snoc:
  assumes "view V row ps (st @ [v]) s"
  shows "vm_sp s = Suc (length st)" "vm_stack s (length st) = v" "view V row ps st (drop_args (Suc 0) s)"
proof -
  show sp: "vm_sp s = Suc (length st)" using view_sp [OF assms] by simp
  show "vm_stack s (length st) = v" using assms sp top_stk [of s] by (simp add: view_def)
  show "view V row ps st (drop_args (Suc 0) s)" using assms sp by (simp add: view_def)
qed

lemma ends_op:
  assumes code: "code_at F a (op # c)" and op: "op \<notin> set lambda_ops" and f: "hushed f" and n: "length st < StackSize"
    and exec: "\<And>s. view V row ps (st @ vs) s \<Longrightarrow> exec1 V F a s = apply_op err over (length vs) f b s"
  shows "ends V F row ps a (st @ vs) b (onto st (op_result f vs))"
proof (cases "op_result f vs")
  case (Inl e)
  have "exec1 V F a s = Halt (Inl e) s \<and> state_ok V row ps s" if "view V row ps (st @ vs) s" for s
    using apply_op_view [OF that f n refl, of err over b] exec [OF that] Inl that by (simp add: view_def)
  then show ?thesis using Inl by (auto simp: ends_def intro!: halts_step [OF code op])
next
  case (Inr v)
  have "\<exists>s'. exec1 V F a s = Next b s' \<and> view V row ps (st @ [v]) s'" if "view V row ps (st @ vs) s" for s
    using apply_op_view [OF that f n refl, of err over b] exec [OF that] Inr by simp
  then show ?thesis using Inr by (auto simp: ends_def intro!: leads_step [OF code op])
qed

lemma ends_fixed:
  assumes "code_at F a (Make op [])" "map_of (fixed_ops V) op = Some (length vs, f)" "length st < StackSize"
  shows "ends V F row ps a (st @ vs) (Suc a) (onto st (op_result f vs))"
proof -
  note op = fixed_ops_other [OF assms(2)]
  have "op \<noteq> OpBSIHandledCompare" using op(1) by (auto simp: control_ops_def)
  then have code: "code_at F a [op]" using assms(1) Make_plain op by metis
  show ?thesis
    using op assms(2,3) code_at_Cons [OF code]
    by (intro ends_op [OF code]) (auto simp: exec1_other intro: quiet_fixed_ops)
qed

lemma ends_counted:
  assumes "code_at F a (Make op [n])" "map_of (counted_ops V) op = Some (pops, ok, err, over, f)" "n < 65536"
    "ok n" "pops n = length vs" "length st < StackSize"
  shows "ends V F row ps a (st @ vs) (a + 3) (onto st (op_result (f n) vs))"
proof -
  note op = counted_ops_other [OF assms(2)]
  have none: "map_of (fixed_ops V) op = None"
    using fixed_ops_other(3) op(3) by (metis option.exhaust)
  have code: "code_at F a (op # be16 n)" using assms(1) Make_two_byte [OF op(3)] by simp
  show ?thesis
    using op assms(2-6) code_at_Cons [OF code] code_at_operand [OF code] none
    by (intro ends_op [OF code, where err = err and over = over])
       (auto simp: exec1_other exec_counted_def numeral_3_eq_3 intro: quiet_counted_ops)
qed

subsection \<open>The switch at the emitted opcodes\<close>

lemma exec1_const_op:
  "pr_Instructions P ! a \<in> set const_ops \<Longrightarrow> exec1 V P a s = execConst P (Suc a) s"
  by (auto simp: exec1_def const_ops_def opcode_defs Let_def)

lemma exec1_OpPop:
  "pr_Instructions P ! a = OpPop \<Longrightarrow> exec1 V P a s = (if vm_sp s = 0 then fail ErrStackUnderflow s else Next (Suc a) (drop_args 1 s))"
  by (simp add: exec1_def const_ops_def opcode_defs Let_def)

lemma exec1_OpDup:
  "pr_Instructions P ! a = OpDup \<Longrightarrow> exec1 V P a s = (if vm_sp s = 0 then fail ErrStackUnderflow s else push_checked (vm_stack s (vm_sp s - 1)) (Suc a) s)"
  by (simp add: exec1_def const_ops_def opcode_defs Let_def)

lemma exec1_OpConstTrue:
  "pr_Instructions P ! a = OpConstTrue \<Longrightarrow> exec1 V P a s = push_checked (BoolValue True) (Suc a) s"
  by (simp add: exec1_def const_ops_def opcode_defs Let_def)

lemma exec1_OpConstFalse:
  "pr_Instructions P ! a = OpConstFalse \<Longrightarrow> exec1 V P a s = push_checked (BoolValue False) (Suc a) s"
  by (simp add: exec1_def const_ops_def opcode_defs Let_def)

lemma exec1_OpConstNull:
  "pr_Instructions P ! a = OpConstNull \<Longrightarrow> exec1 V P a s = push_checked NullValue (Suc a) s"
  by (simp add: exec1_def const_ops_def opcode_defs Let_def)

lemma exec1_OpLoadField:
  "pr_Instructions P ! a = OpLoadField \<Longrightarrow> exec1 V P a s = execLoadField V P (Suc a) s"
  by (simp add: exec1_def const_ops_def opcode_defs Let_def)

lemma exec1_OpFieldExists:
  "pr_Instructions P ! a = OpFieldExists \<Longrightarrow> exec1 V P a s = execFieldExists V P (Suc a) s"
  by (simp add: exec1_def const_ops_def opcode_defs Let_def)

lemma exec1_OpJump:
  "pr_Instructions P ! a = OpJump \<Longrightarrow> exec1 V P a s = (case readOperandSafe (pr_Instructions P) (Suc a) of None \<Rightarrow> fail ErrInvalidBytecode s | Some target \<Rightarrow> Next target s)"
  by (simp add: exec1_def const_ops_def opcode_defs Let_def)

lemma exec1_OpJumpIfFalse:
  "pr_Instructions P ! a = OpJumpIfFalse \<Longrightarrow> exec1 V P a s = exec_jump_if (\<lambda>v. \<not> IsTruthy v) True P (Suc a) s"
  by (simp add: exec1_def const_ops_def opcode_defs Let_def)

lemma exec1_OpJumpIfTrue:
  "pr_Instructions P ! a = OpJumpIfTrue \<Longrightarrow> exec1 V P a s = exec_jump_if IsTruthy True P (Suc a) s"
  by (simp add: exec1_def const_ops_def opcode_defs Let_def)

lemma exec1_OpJumpIfNull3VL:
  "pr_Instructions P ! a = OpJumpIfNull3VL \<Longrightarrow> exec1 V P a s = exec_jump_if IsNull False P (Suc a) s"
  by (simp add: exec1_def const_ops_def opcode_defs Let_def)

lemma exec1_OpLoadPath:
  "pr_Instructions P ! a = OpLoadPath \<Longrightarrow> exec1 V P a s = (if vm_sp s \<ge> StackSize then fail ErrStackOverflow s
         else (case readIndexSafe (pr_Instructions P) (Suc a) (length (pr_Constants P)) of
                 None \<Rightarrow> fail ErrInvalidBytecode s
               | Some idx \<Rightarrow>
                   Next (Suc a + 2) (put (execLoadPath (vm_fields s) (Value_String (vl_go V) (pr_Constants P ! idx))) s)))"
  by (simp add: exec1_def const_ops_def opcode_defs Let_def)

lemma exec1_OpFieldMissing:
  "pr_Instructions P ! a = OpFieldMissing \<Longrightarrow> exec1 V P a s = (if vm_sp s \<ge> StackSize then fail ErrStackOverflow s
         else (case readIndexSafe (pr_Instructions P) (Suc a) (length (pr_FieldNames P)) of
                 None \<Rightarrow> fail ErrInvalidBytecode s
               | Some idx \<Rightarrow> Next (Suc a + 2) (put (BoolValue (vm_fields s (pr_FieldNames P ! idx) = None)) s)))"
  by (simp add: exec1_def const_ops_def opcode_defs Let_def)

lemma exec1_OpMember:
  "pr_Instructions P ! a = OpMember \<Longrightarrow> exec1 V P a s = (case readIndexSafe (pr_Instructions P) (Suc a) (length (pr_Constants P)) of
           None \<Rightarrow> fail ErrInvalidBytecode s
         | Some idx \<Rightarrow>
             apply_op StackPanic StackPanic 1
               (\<lambda>vs w. Some (memberValue (vs ! 0) (Value_String (vl_go V) (pr_Constants P ! idx)), w)) (Suc a + 2) s)"
  by (simp add: exec1_def const_ops_def opcode_defs Let_def split: option.split)

lemma exec1_OpLoadLambdaParam:
  "pr_Instructions P ! a = OpLoadLambdaParam \<Longrightarrow> exec1 V P a s = (if vm_sp s \<ge> StackSize then fail ErrStackOverflow s
         else (case readOperandSafe (pr_Instructions P) (Suc a) of
                 None \<Rightarrow> fail ErrInvalidBytecode s
               | Some depth \<Rightarrow>
                   if depth < length (vm_lambdaParams s)
                   then Next (Suc a + 2) (put (rev (vm_lambdaParams s) ! depth) s)
                   else fail ErrInvalidBytecode s))"
  by (simp add: exec1_def const_ops_def opcode_defs Let_def)

lemma exec1_OpStrictCastFail:
  "pr_Instructions P ! a = OpStrictCastFail \<Longrightarrow> exec1 V P a s = (case readIndexSafe (pr_Instructions P) (Suc a) (length (pr_Constants P)) of
           None \<Rightarrow> fail ErrInvalidBytecode s
         | Some idx \<Rightarrow> fail (ErrStrictCast (Value_String (vl_go V) (pr_Constants P ! idx))) s)"
  by (simp add: exec1_def const_ops_def opcode_defs Let_def)

lemma exec1_OpReturn:
  "pr_Instructions P ! a = OpReturn \<Longrightarrow> exec1 V P a s = Halt (Inr (if vm_sp s > 0 then vm_stack s (vm_sp s - 1) else NullValue)) s"
  by (simp add: exec1_def const_ops_def opcode_defs Let_def)

lemmas exec1_at =
  exec1_const_op exec1_OpPop exec1_OpDup exec1_OpConstTrue exec1_OpConstFalse exec1_OpConstNull
  exec1_OpLoadField exec1_OpFieldExists exec1_OpJump exec1_OpJumpIfFalse exec1_OpJumpIfTrue
  exec1_OpJumpIfNull3VL exec1_OpLoadPath exec1_OpFieldMissing exec1_OpMember exec1_OpLoadLambdaParam
  exec1_OpStrictCastFail exec1_OpReturn

lemma emitted_not_lambda:
  "set lambda_ops \<inter> (set control_ops \<union> set const_ops) = {}"
  by (simp add: lambda_ops_def control_ops_def const_ops_def opcode_defs)

subsection \<open>Instructions that push\<close>

lemma not_lambda: "op \<in> set control_ops \<Longrightarrow> op \<notin> set lambda_ops"
  using emitted_not_lambda by blast

lemma leads_control:
  assumes "code_at F a (Make op [])" "(op, v) \<in> {(OpConstTrue, BoolValue True), (OpConstFalse, BoolValue False), (OpConstNull, NullValue)}"
    "length st < StackSize"
  shows "leads V F a (view V row ps st) (Suc a) (view V row ps (st @ [v]))"
proof -
  have code: "code_at F a [op]" using assms(1,2) Make_control [of op] by auto
  have "exec1 V F a s = push_checked v (Suc a) s" for s
    using assms(2) code_at_Cons [OF code] by (auto simp: exec1_at)
  moreover have "op \<notin> set lambda_ops" using assms(2) by (intro not_lambda) (auto simp: control_ops_def)
  ultimately show ?thesis
    using assms(3) by (intro leads_step [OF code]) (auto simp: push_checked_def view_put dest: view_sp)
qed

lemma leads_Dup:
  assumes "code_at F a (Make OpDup [])" "Suc (length st) < StackSize"
  shows "leads V F a (view V row ps (st @ [v])) (Suc a) (view V row ps (st @ [v, v]))"
proof -
  have code: "code_at F a [OpDup]" using assms(1) Make_control by simp
  have "exec1 V F a s = Next (Suc a) (put v s) \<and> view V row ps (st @ [v, v]) (put v s)"
    if "view V row ps (st @ [v]) s" for s
    using code_at_Cons [OF code] view_snoc [OF that] view_put [OF that, of v] assms(2)
    by (simp add: exec1_at push_checked_def)
  then show ?thesis
    by (intro leads_step [OF code] not_lambda) (auto simp: control_ops_def)
qed

lemma leads_Pop:
  assumes "code_at F a (Make OpPop [])"
  shows "leads V F a (view V row ps (st @ [v])) (Suc a) (view V row ps st)"
proof -
  have code: "code_at F a [OpPop]" using assms(1) Make_control by simp
  then show ?thesis
    using code_at_Cons [OF code]
    by (intro leads_step [OF code] not_lambda) (auto simp: exec1_at control_ops_def dest: view_snoc)
qed

text \<open>An operand: a constant, a field name, a jump target.\<close>

lemma two_byte_code:
  assumes "code_at F a (Make op [i])" "i < 65536" "op \<in> set two_byte_ops"
  shows "code_at F a (op # be16 i)" "pr_Instructions F ! a = op" "readOperandSafe (pr_Instructions F) (Suc a) = Some i"
proof -
  show code: "code_at F a (op # be16 i)" using assms Make_two_byte by simp
  show "pr_Instructions F ! a = op" using code_at_Cons [OF code] by simp
  show "readOperandSafe (pr_Instructions F) (Suc a) = Some i" by (rule code_at_operand [OF code assms(2)])
qed

lemma leads_push:
  assumes "code_at F a (Make op [i])" "i < 65536" "op \<in> set two_byte_ops" "op \<in> set control_ops" "length st < StackSize"
    and exec: "\<And>s. \<lbrakk>pr_Instructions F ! a = op; readOperandSafe (pr_Instructions F) (Suc a) = Some i;
        vm_sp s < StackSize; state_ok V row ps s\<rbrakk> \<Longrightarrow> exec1 V F a s = Next (a + 3) (put v (g s)) \<and> recached V s (g s)"
  shows "leads V F a (view V row ps st) (a + 3) (view V row ps (st @ [v]))"
proof -
  note code = two_byte_code [OF assms(1-3)]
  have "exec1 V F a s = Next (a + 3) (put v (g s)) \<and> view V row ps (st @ [v]) (put v (g s))"
    if s: "view V row ps st s" for s
  proof -
    have "exec1 V F a s = Next (a + 3) (put v (g s)) \<and> recached V s (g s)"
      using s view_sp [OF s] assms(5) by (intro exec [OF code(2,3)]) (auto simp: view_def)
    then show ?thesis using view_put [OF recached_view [OF _ s], of "g s" v] by blast
  qed
  then show ?thesis using not_lambda [OF assms(4)] by (intro leads_step [OF code(1)]) auto
qed

lemmas push_rules = two_byte_ops_def control_ops_def const_ops_def readIndexSafe_def numeral_3_eq_3 state_ok_def

lemma leads_const:
  assumes "code_at F a (Make op [i])" "op \<in> set const_ops" "i < 65536" "i < length (pr_Constants F)" "length st < StackSize"
  shows "leads V F a (view V row ps st) (a + 3) (view V row ps (st @ [pr_Constants F ! i]))"
  by (rule leads_push [where g = "\<lambda>s. s", OF assms(1,3) _ _ assms(5)])
     (use assms(2,4) in \<open>auto simp: push_rules exec1_const_op execConst_def\<close>)

lemma leads_LoadField:
  assumes "code_at F a (Make OpLoadField [i])" "i < 65536" "i < length (pr_FieldNames F)" "length st < StackSize"
  shows "leads V F a (view V row ps st) (a + 3) (view V row ps (st @ [load_value V row (pr_FieldNames F ! i)]))"
  by (rule leads_push [where g = "\<lambda>s. snd (load_field V (pr_FieldNames F ! i) s)", OF assms(1,2) _ _ assms(4)])
     (use assms(3) in \<open>auto simp: push_rules exec1_at execLoadField_def case_prod_unfold\<close>)

lemma leads_FieldExists:
  assumes "code_at F a (Make OpFieldExists [i])" "i < 65536" "i < length (pr_FieldNames F)" "length st < StackSize"
  shows "leads V F a (view V row ps st) (a + 3)
           (view V row ps (st @ [BoolValue (exists_value V row (pr_FieldNames F ! i))]))"
  by (rule leads_push [where g = "\<lambda>s. snd (field_exists V (pr_FieldNames F ! i) s)", OF assms(1,2) _ _ assms(4)])
     (use assms(3) in \<open>auto simp: push_rules exec1_at execFieldExists_def case_prod_unfold\<close>)

lemma leads_FieldMissing:
  assumes "code_at F a (Make OpFieldMissing [i])" "i < 65536" "i < length (pr_FieldNames F)" "length st < StackSize"
  shows "leads V F a (view V row ps st) (a + 3) (view V row ps (st @ [BoolValue (row (pr_FieldNames F ! i) = None)]))"
  by (rule leads_push [where g = "\<lambda>s. s", OF assms(1,2) _ _ assms(4)])
     (use assms(3) in \<open>auto simp: push_rules exec1_at\<close>)

lemma leads_LoadPath:
  assumes "code_at F a (Make OpLoadPath [i])" "i < 65536" "i < length (pr_Constants F)" "length st < StackSize"
  shows "leads V F a (view V row ps st) (a + 3)
           (view V row ps (st @ [execLoadPath row (Value_String (vl_go V) (pr_Constants F ! i))]))"
  by (rule leads_push [where g = "\<lambda>s. s", OF assms(1,2) _ _ assms(4)])
     (use assms(3) in \<open>auto simp: push_rules exec1_at\<close>)

lemma leads_LoadLambdaParam:
  assumes "code_at F a (Make OpLoadLambdaParam [i])" "i < 65536" "i < length ps" "length st < StackSize"
  shows "leads V F a (view V row ps st) (a + 3) (view V row ps (st @ [rev ps ! i]))"
  by (rule leads_push [where g = "\<lambda>s. s", OF assms(1,2) _ _ assms(4)])
     (use assms(3) in \<open>auto simp: push_rules exec1_at\<close>)

subsection \<open>Members, jumps and halts\<close>

lemma leads_Member:
  assumes "code_at F a (Make OpMember [i])" "i < 65536" "i < length (pr_Constants F)" "length st < StackSize"
  shows "leads V F a (view V row ps (st @ [v])) (a + 3)
           (view V row ps (st @ [memberValue v (Value_String (vl_go V) (pr_Constants F ! i))]))"
proof -
  have code: "code_at F a (OpMember # be16 i)" "pr_Instructions F ! a = OpMember"
    "readOperandSafe (pr_Instructions F) (Suc a) = Some i"
    using two_byte_code [OF assms(1,2)] by (simp_all add: two_byte_ops_def)
  let ?f = "\<lambda>vs (w :: warnings). Some (memberValue (vs ! 0) (Value_String (vl_go V) (pr_Constants F ! i)), w)"
  have "ends V F row ps a (st @ [v]) (a + 3) (onto st (op_result ?f [v]))"
    using code assms(3,4)
    by (intro ends_op [OF code(1)] not_lambda) (auto simp: push_rules exec1_at hushed_def)
  then show ?thesis by (simp add: ends_def op_result_def)
qed

lemma leads_Jump:
  assumes "code_at F a (Make OpJump [t])" "t < 65536"
  shows "leads V F a A t A"
proof -
  have code: "code_at F a (OpJump # be16 t)" "pr_Instructions F ! a = OpJump"
    "readOperandSafe (pr_Instructions F) (Suc a) = Some t"
    using two_byte_code [OF assms] by (simp_all add: two_byte_ops_def)
  then show ?thesis
    by (intro leads_step [OF code(1)] not_lambda) (auto simp: control_ops_def exec1_at)
qed

lemma leads_jump_if:
  assumes "code_at F a (Make op [t])" "t < 65536" "op \<in> set two_byte_ops" "op \<in> set control_ops"
    and exec: "\<And>s. pr_Instructions F ! a = op \<Longrightarrow> exec1 V F a s = exec_jump_if test pops F (Suc a) s"
  shows "leads V F a (view V row ps (st @ [v])) (if test v then t else a + 3)
           (view V row ps (if test v \<or> pops then st else st @ [v]))"
proof -
  note code = two_byte_code [OF assms(1-3)]
  show ?thesis
    using code not_lambda [OF assms(4)] exec [OF code(2)]
    by (intro leads_step [OF code(1)])
       (auto simp: exec_jump_if_def numeral_3_eq_3 view_snoc dest: view_snoc)
qed

lemma leads_JumpIfFalse:
  assumes "code_at F a (Make OpJumpIfFalse [t])" "t < 65536"
  shows "leads V F a (view V row ps (st @ [v])) (if IsTruthy v then a + 3 else t) (view V row ps st)"
  using leads_jump_if [OF assms, of V "\<lambda>v. \<not> IsTruthy v" True row ps st v]
  by (auto simp: push_rules exec1_at split: if_splits)

lemma leads_JumpIfTrue:
  assumes "code_at F a (Make OpJumpIfTrue [t])" "t < 65536"
  shows "leads V F a (view V row ps (st @ [v])) (if IsTruthy v then t else a + 3) (view V row ps st)"
  using leads_jump_if [OF assms, of V IsTruthy True row ps st v]
  by (auto simp: push_rules exec1_at split: if_splits)

lemma leads_JumpIfNull3VL:
  assumes "code_at F a (Make OpJumpIfNull3VL [t])" "t < 65536"
  shows "leads V F a (view V row ps (st @ [v])) (if IsNull v then t else a + 3)
           (view V row ps (if IsNull v then st else st @ [v]))"
  using leads_jump_if [OF assms, of V IsNull False row ps st v]
  by (auto simp: push_rules exec1_at split: if_splits)

lemma halts_StrictCastFail:
  assumes "code_at F a (Make OpStrictCastFail [i])" "i < 65536" "i < length (pr_Constants F)"
  shows "halts V F a (view V row ps st) (Inl (ErrStrictCast (Value_String (vl_go V) (pr_Constants F ! i)))) (state_ok V row ps)"
proof -
  have code: "code_at F a (OpStrictCastFail # be16 i)" "pr_Instructions F ! a = OpStrictCastFail"
    "readOperandSafe (pr_Instructions F) (Suc a) = Some i"
    using two_byte_code [OF assms(1,2)] by (simp_all add: two_byte_ops_def)
  then show ?thesis
    using assms(3)
    by (intro halts_step [OF code(1)] not_lambda) (auto simp: control_ops_def exec1_at readIndexSafe_def fail_def view_def)
qed

lemma halts_Return:
  assumes "code_at F a (Make OpReturn [])" "\<And>s. A s \<Longrightarrow> \<exists>st. view V row ps (st @ [v]) s"
  shows "halts V F a A (Inr v) (state_ok V row ps)"
proof -
  have code: "code_at F a [OpReturn]" using assms(1) Make_control by simp
  have "exec1 V F a s = Halt (Inr v) s \<and> state_ok V row ps s" if "A s" for s
  proof -
    obtain st where st: "view V row ps (st @ [v]) s" using assms(2) \<open>A s\<close> by blast
    then show ?thesis
      using code_at_Cons [OF code] view_snoc [OF st] by (simp add: exec1_at view_def)
  qed
  then show ?thesis by (intro halts_step [OF code] not_lambda) (auto simp: control_ops_def)
qed

end
