(* ===== verification/LF_Emit.thy ===== *)
theory LF_Emit
  imports LF_Eval VM_Rules
begin

text \<open>
  What the code of an emitter does, wherever it stands in the finished program: emitters of single
  instructions, sequences, arguments followed by an operation, and the code of short-circuit operators,
  whose jumps are patched after the operands are compiled.
\<close>

subsection \<open>What emitted code does\<close>

definition pools_ext :: "Program \<Rightarrow> Program \<Rightarrow> bool" where
  "pools_ext p q \<longleftrightarrow>
     prefix (pr_Constants p) (pr_Constants q) \<and> prefix (pr_FieldNames p) (pr_FieldNames q) \<and>
     prefix (pr_SubPrograms p) (pr_SubPrograms q)"

lemma pools_ext_refl [simp]: "pools_ext p p"
  by (simp add: pools_ext_def)

lemma pools_ext_trans: "pools_ext p q \<Longrightarrow> pools_ext q r \<Longrightarrow> pools_ext p r"
  by (auto simp: pools_ext_def)

lemma pools_ext_ins [simp]:
  "pools_ext (p\<lparr>pr_Instructions := c\<rparr>) q = pools_ext p q" "pools_ext p (q\<lparr>pr_Instructions := c\<rparr>) = pools_ext p q"
  by (simp_all add: pools_ext_def)

text \<open>The sizes that 16-bit operands address.\<close>

definition addressable :: "Program \<Rightarrow> bool" where
  "addressable F \<longleftrightarrow>
     length (pr_Instructions F) < 65536 \<and> length (pr_Constants F) \<le> 65536 \<and> length (pr_FieldNames F) \<le> 65536 \<and>
     length (pr_SubPrograms F) \<le> 65536 \<and> (\<forall>sub \<in> set (pr_SubPrograms F). length sub < 65536)"

text \<open>
  \<open>does V row k d a c q d' \<phi>\<close>: in every program that has the code \<open>c\<close> at \<open>a\<close> and the pools of \<open>q\<close>,
  the code takes a stack of \<open>d\<close> values to the one that \<open>\<phi>\<close> gives, of \<open>d'\<close> values, or fails as \<open>\<phi>\<close> does.
\<close>

type_synonym stack_fn = "Value list \<Rightarrow> Value list \<Rightarrow> vm_error + Value list"

definition does ::
  "vm_lib \<Rightarrow> row \<Rightarrow> nat \<Rightarrow> nat \<Rightarrow> nat \<Rightarrow> bytes \<Rightarrow> Program \<Rightarrow> nat \<Rightarrow> stack_fn \<Rightarrow> bool"
where
  "does V row k d a c q d' \<phi> \<longleftrightarrow>
     (\<forall>F ps st. code_at F a c \<longrightarrow> pools_ext q F \<longrightarrow> addressable F \<longrightarrow> length ps = k \<longrightarrow> length st = d \<longrightarrow>
        ends V F row ps a st (a + length c) (\<phi> ps st) \<and> (\<forall>st'. \<phi> ps st = Inr st' \<longrightarrow> length st' = d'))"

lemma doesD:
  assumes "does V row k d a c q d' \<phi>" "code_at F a c" "pools_ext q F" "addressable F" "length ps = k" "length st = d"
  shows "ends V F row ps a st (a + length c) (\<phi> ps st)" "\<phi> ps st = Inr st' \<Longrightarrow> length st' = d'"
  using assms unfolding does_def by blast+

lemma does_mono: "does V row k d a c q d' \<phi> \<Longrightarrow> pools_ext q q' \<Longrightarrow> does V row k d a c q' d' \<phi>"
  unfolding does_def by (blast intro: pools_ext_trans)

lemma does_ins [simp]: "does V row k d a c (q\<lparr>pr_Instructions := i\<rparr>) d' \<phi> = does V row k d a c q d' \<phi>"
  by (simp add: does_def)

definition emits :: "vm_lib \<Rightarrow> row \<Rightarrow> nat \<Rightarrow> nat \<Rightarrow> emitter \<Rightarrow> nat \<Rightarrow> stack_fn \<Rightarrow> bool" where
  "emits V row k d f d' \<phi> \<longleftrightarrow>
     (\<forall>p q. f p = Inr q \<longrightarrow>
       (\<exists>c. pr_Instructions q = pr_Instructions p @ c \<and> pools_ext p q \<and> does V row k d (Program_Len p) c q d' \<phi>))"

abbreviation emits_value ::
  "vm_lib \<Rightarrow> row \<Rightarrow> nat \<Rightarrow> nat \<Rightarrow> emitter \<Rightarrow> (Value list \<Rightarrow> denotation) \<Rightarrow> bool"
where
  "emits_value V row k d f g \<equiv> emits V row k d f (Suc d) (\<lambda>ps st. onto st (g ps))"

lemma emitsE:
  assumes "emits V row k d f d' \<phi>" "f p = Inr q"
  obtains c where "pr_Instructions q = pr_Instructions p @ c" "Program_Len q = Program_Len p + length c"
    "pools_ext p q" "does V row k d (Program_Len p) c q d' \<phi>"
  using assms unfolding emits_def Program_Len_def by (metis length_append)

lemma emitsD:
  assumes "emits V row k d f d' \<phi>" "f p = Inr q" "pr_Instructions q = pr_Instructions p @ c"
  shows "pools_ext p q" "does V row k d (Program_Len p) c q d' \<phi>"
  using emitsE [OF assms(1,2)] assms(3) by (metis same_append_eq)+

lemma emits_cong:
  assumes "emits V row k d f d' \<phi>" "\<And>ps st. length ps = k \<Longrightarrow> length st = d \<Longrightarrow> \<phi> ps st = \<psi> ps st"
  shows "emits V row k d f d' \<psi>"
proof -
  have "does V row k d a c q d' \<phi> = does V row k d a c q d' \<psi>" for a c q
    using assms(2) by (simp add: does_def cong: imp_cong)
  then show ?thesis using assms(1) by (simp add: emits_def)
qed

lemma bind_simps [simp]: "bind (Inl e) k = Inl e" "bind (Inr a) k = k a"
  by (simp_all add: bind_def)

lemma bind_assoc [simp]: "bind (bind r f) g = bind r (\<lambda>x. bind (f x) g)"
  by (cases r) simp_all

lemma bind_InrE:
  assumes "bind r k = Inr b"
  obtains a where "r = Inr a" "k a = Inr b"
  using assms by (cases r) auto

lemma ends_bind:
  assumes "ends V F row ps a st b r" "\<And>st'. r = Inr st' \<Longrightarrow> ends V F row ps b st' c (f st')"
  shows "ends V F row ps a st c (bind r f)"
proof (cases r)
  case (Inl e)
  then show ?thesis using assms by (simp add: ends_def)
next
  case (Inr st')
  then show ?thesis
    using assms by (auto simp: ends_def intro: leads_trans leads_halts split: sum.splits)
qed

lemma does_append:
  assumes "does V row k d a c q d1 \<phi>" "does V row k d1 (a + length c) c' q' d2 \<psi>" "pools_ext q q'"
  shows "does V row k d a (c @ c') q' d2 (\<lambda>ps st. bind (\<phi> ps st) (\<psi> ps))"
  unfolding does_def
proof (intro allI impI)
  fix F and ps st :: "Value list"
  assume h: "code_at F a (c @ c')" "pools_ext q' F" "addressable F" "length ps = k" "length st = d"
  then have q: "pools_ext q F" using assms(3) by (blast intro: pools_ext_trans)
  note 1 = doesD [OF assms(1) _ q h(3,4,5)] and 2 = doesD [OF assms(2) _ h(2,3,4)]
  show "ends V F row ps a st (a + length (c @ c')) (bind (\<phi> ps st) (\<psi> ps)) \<and>
        (\<forall>st'. bind (\<phi> ps st) (\<psi> ps) = Inr st' \<longrightarrow> length st' = d2)"
  proof (intro conjI allI impI)
    have c: "code_at F a c" "code_at F (a + length c) c'" using h(1) by simp_all
    show "ends V F row ps a st (a + length (c @ c')) (bind (\<phi> ps st) (\<psi> ps))"
      using ends_bind [OF 1(1) [OF c(1)] 2(1) [OF c(2) 1(2) [OF c(1)]]] by (simp add: add.assoc)
    fix st' assume "bind (\<phi> ps st) (\<psi> ps) = Inr st'"
    then obtain st1 where "\<phi> ps st = Inr st1" "\<psi> ps st1 = Inr st'" by (rule bind_InrE)
    then show "length st' = d2" using 2(2) [OF c(2) 1(2) [OF c(1)]] by blast
  qed
qed

lemma emits_seq_Nil: "emits V row k d (seq []) d (\<lambda>ps st. Inr st)"
  by (simp add: emits_def does_def ends_def)

lemma emits_bind:
  assumes f: "emits V row k d f d1 \<phi>" and g: "emits V row k d1 g d2 \<psi>"
  shows "emits V row k d (\<lambda>p. bind (f p) g) d2 (\<lambda>ps st. bind (\<phi> ps st) (\<psi> ps))"
  unfolding emits_def
proof (intro allI impI)
  fix p q assume "bind (f p) g = Inr q"
  then obtain p1 where 1: "f p = Inr p1" "g p1 = Inr q" by (auto elim: bind_InrE)
  obtain c1 where c1: "pr_Instructions p1 = pr_Instructions p @ c1" "Program_Len p1 = Program_Len p + length c1"
    "pools_ext p p1" "does V row k d (Program_Len p) c1 p1 d1 \<phi>" by (rule emitsE [OF f 1(1)])
  obtain c2 where c2: "pr_Instructions q = pr_Instructions p1 @ c2" "Program_Len q = Program_Len p1 + length c2"
    "pools_ext p1 q" "does V row k d1 (Program_Len p1) c2 q d2 \<psi>" by (rule emitsE [OF g 1(2)])
  have "does V row k d (Program_Len p) (c1 @ c2) q d2 (\<lambda>ps st. bind (\<phi> ps st) (\<psi> ps))"
    using does_append [OF c1(4), of c2 q] c2 c1(2) by simp
  then show "\<exists>c. pr_Instructions q = pr_Instructions p @ c \<and> pools_ext p q \<and>
      does V row k d (Program_Len p) c q d2 (\<lambda>ps st. bind (\<phi> ps st) (\<psi> ps))"
    using c1 c2 by (intro exI [of _ "c1 @ c2"]) (auto intro: pools_ext_trans)
qed

lemma seq_Cons_fun: "seq (f # fs) = (\<lambda>p. bind (f p) (seq fs))"
  by (rule ext) simp

lemmas emits_seq_Cons = emits_bind [where g = "seq fs" for fs, folded seq_Cons_fun]

lemma seq_append: "seq (fs @ gs) = (\<lambda>p. bind (seq fs p) (seq gs))"
proof (induction fs)
  case (Cons f fs)
  then show ?case by (simp add: seq_Cons_fun)
qed (simp add: fun_eq_iff)

lemma emits_seq_one: "emits V row k d f d' \<phi> \<Longrightarrow> emits V row k d (seq [f]) d' \<phi>"
proof -
  have "seq [f] = f" by (auto simp: fun_eq_iff bind_def split: sum.splits)
  then show "emits V row k d f d' \<phi> \<Longrightarrow> emits V row k d (seq [f]) d' \<phi>" by simp
qed

lemmas emits_seq_append = emits_bind [where f = "seq fs" and g = "seq gs" for fs gs, folded seq_append]

subsection \<open>Emitters of one instruction\<close>

lemma emit_Inr: "emit op os p = Inr (p\<lparr>pr_Instructions := pr_Instructions p @ Make op os\<rparr>)"
  by (simp add: emit_def EmitOp_def)

lemma length_Make_two [simp]: "op \<in> set two_byte_ops \<Longrightarrow> length (Make op [v]) = 3"
  by (simp add: Make_two_byte)

lemma emits_emit:
  assumes "\<And>F a ps st. \<lbrakk>code_at F a (Make op os); addressable F; length ps = k; length st = d\<rbrakk> \<Longrightarrow>
      ends V F row ps a st (a + length (Make op os)) (\<phi> ps st) \<and> (\<forall>st'. \<phi> ps st = Inr st' \<longrightarrow> length st' = d')"
  shows "emits V row k d (emit op os) d' \<phi>"
  unfolding emits_def
proof (intro allI impI)
  fix p q assume "emit op os p = Inr q"
  then have q: "q = p\<lparr>pr_Instructions := pr_Instructions p @ Make op os\<rparr>" by (simp add: emit_Inr)
  have "does V row k d (Program_Len p) (Make op os) q d' \<phi>"
    unfolding does_def by (intro allI impI assms)
  then show "\<exists>c. pr_Instructions q = pr_Instructions p @ c \<and> pools_ext p q \<and>
      does V row k d (Program_Len p) c q d' \<phi>"
    using q by auto
qed

lemma prefix_nth: "prefix (xs @ [x]) ys \<Longrightarrow> length xs < length ys \<and> ys ! length xs = x"
  by (auto simp: prefix_def nth_append)

lemma emits_emit_const:
  assumes "op \<in> set two_byte_ops"
    "\<And>F a i ps st. \<lbrakk>code_at F a (Make op [i]); i < 65536; i < length (pr_Constants F); pr_Constants F ! i = v;
       length ps = k; length st = d\<rbrakk> \<Longrightarrow>
       ends V F row ps a st (a + 3) (\<phi> ps st) \<and> (\<forall>st'. \<phi> ps st = Inr st' \<longrightarrow> length st' = d')"
  shows "emits V row k d (emit_const op v) d' \<phi>"
  unfolding emits_def
proof (intro allI impI)
  fix p q assume "emit_const op v p = Inr q"
  then have q: "q = p\<lparr>pr_Constants := pr_Constants p @ [v],
      pr_Instructions := pr_Instructions p @ Make op [length (pr_Constants p)]\<rparr>"
    by (simp add: emit_const_def AddConstant_def emit_Inr)
  have "pools_ext p q" by (simp add: q pools_ext_def)
  moreover have "does V row k d (Program_Len p) (Make op [length (pr_Constants p)]) q d' \<phi>"
    unfolding does_def
  proof (intro allI impI)
    fix F and ps st :: "Value list"
    assume h: "code_at F (Program_Len p) (Make op [length (pr_Constants p)])" "pools_ext q F" "addressable F"
      "length ps = k" "length st = d"
    have "length (pr_Constants p) < length (pr_Constants F) \<and> pr_Constants F ! length (pr_Constants p) = v"
      using h(2) q by (intro prefix_nth) (simp add: pools_ext_def)
    then show "ends V F row ps (Program_Len p) st (Program_Len p + length (Make op [length (pr_Constants p)])) (\<phi> ps st) \<and>
        (\<forall>st'. \<phi> ps st = Inr st' \<longrightarrow> length st' = d')"
      using assms(2) [OF h(1) _ _ _ h(4,5)] h(3) assms(1) by (auto simp: addressable_def)
  qed
  ultimately show "\<exists>c. pr_Instructions q = pr_Instructions p @ c \<and> pools_ext p q \<and>
      does V row k d (Program_Len p) c q d' \<phi>"
    using q by auto
qed

lemma AddFieldName_ext:
  assumes "AddFieldName name p = (i, q)"
  shows "pr_Instructions q = pr_Instructions p" "pools_ext p q"
    "pools_ext q F \<Longrightarrow> i < length (pr_FieldNames F) \<and> pr_FieldNames F ! i = name"
proof -
  obtain ns where ns: "add_unique name (pr_FieldNames p) = (i, ns)" "q = p\<lparr>pr_FieldNames := ns\<rparr>"
    using assms by (auto simp: AddFieldName_def split: prod.splits)
  have n: "i < length ns" "ns ! i = name" "\<exists>zs. ns = pr_FieldNames p @ zs"
    using add_unique_nth [OF ns(1)] by auto
  show "pr_Instructions q = pr_Instructions p" using ns by simp
  show "pools_ext p q" using n ns by (auto simp: pools_ext_def)
  show "pools_ext q F \<Longrightarrow> i < length (pr_FieldNames F) \<and> pr_FieldNames F ! i = name"
    using n ns by (auto simp: pools_ext_def prefix_def nth_append)
qed

lemma emits_emit_field:
  assumes "op \<in> set two_byte_ops"
    "\<And>F a i ps st. \<lbrakk>code_at F a (Make op [i]); i < 65536; i < length (pr_FieldNames F); pr_FieldNames F ! i = name;
       length ps = k; length st = d\<rbrakk> \<Longrightarrow>
       ends V F row ps a st (a + 3) (\<phi> ps st) \<and> (\<forall>st'. \<phi> ps st = Inr st' \<longrightarrow> length st' = d')"
  shows "emits V row k d (emit_field op name) d' \<phi>"
  unfolding emits_def
proof (intro allI impI)
  fix p q assume "emit_field op name p = Inr q"
  then obtain i p1 where i: "AddFieldName name p = (i, p1)"
    and q: "q = p1\<lparr>pr_Instructions := pr_Instructions p1 @ Make op [i]\<rparr>"
    by (auto simp: emit_field_def emit_Inr split: prod.splits)
  note ext = AddFieldName_ext [OF i]
  have "does V row k d (Program_Len p) (Make op [i]) q d' \<phi>"
    unfolding does_def
  proof (intro allI impI)
    fix F and ps st :: "Value list"
    assume h: "code_at F (Program_Len p) (Make op [i])" "pools_ext q F" "addressable F" "length ps = k" "length st = d"
    then have "i < length (pr_FieldNames F) \<and> pr_FieldNames F ! i = name"
      using ext(3) [of F] q by simp
    then show "ends V F row ps (Program_Len p) st (Program_Len p + length (Make op [i])) (\<phi> ps st) \<and>
        (\<forall>st'. \<phi> ps st = Inr st' \<longrightarrow> length st' = d')"
      using assms(2) [OF h(1) _ _ _ h(4,5)] h(3) assms(1) by (auto simp: addressable_def)
  qed
  then show "\<exists>c. pr_Instructions q = pr_Instructions p @ c \<and> pools_ext p q \<and>
      does V row k d (Program_Len p) c q d' \<phi>"
    using q ext by auto
qed

lemma ends_Inr: "leads V F a (view V row ps st) b (view V row ps st') \<Longrightarrow> ends V F row ps a st b (Inr st')"
  by (simp add: ends_def)

lemma emits_const:
  "op \<in> set const_ops \<Longrightarrow> d < StackSize \<Longrightarrow> emits_value V row k d (emit_const op v) (\<lambda>ps. Inr v)"
  by (rule emits_emit_const) (auto simp: const_ops_def two_byte_ops_def intro!: ends_Inr leads_const)

lemma emits_control:
  assumes "(op, v) \<in> {(OpConstTrue, BoolValue True), (OpConstFalse, BoolValue False), (OpConstNull, NullValue)}" "d < StackSize"
  shows "emits_value V row k d (emit op []) (\<lambda>ps. Inr v)"
proof (rule emits_emit)
  fix F a and ps st :: "Value list"
  assume h: "code_at F a (Make op [])" "length st = d"
  have "length (Make op []) = 1" using assms(1) Make_control [of op] by auto
  then show "ends V F row ps a st (a + length (Make op [])) (onto st (Inr v)) \<and>
      (\<forall>st'. onto st (Inr v) = Inr st' \<longrightarrow> length st' = Suc d)"
    using leads_control [OF h(1) assms(1), of st V row ps] h(2) assms(2) by (simp add: ends_def)
qed

lemma emits_literal: "d < StackSize \<Longrightarrow> emits_value V row k d (compileLiteral lit) (\<lambda>ps. Inr (literal_value lit))"
  by (cases lit)
     (auto simp: compileLiteral_def literal_value_def const_ops_def simp del: onto_simps intro!: emits_const emits_control)

lemma emits_LoadField: "d < StackSize \<Longrightarrow> emits_value V row k d (emit_field OpLoadField name) (\<lambda>ps. Inr (load_value V row name))"
  by (rule emits_emit_field) (auto simp: two_byte_ops_def intro!: ends_Inr leads_LoadField)

lemma emits_FieldExists:
  "d < StackSize \<Longrightarrow> emits_value V row k d (emit_field OpFieldExists name) (\<lambda>ps. Inr (BoolValue (exists_value V row name)))"
  by (rule emits_emit_field) (auto simp: two_byte_ops_def intro!: ends_Inr leads_FieldExists)

lemma emits_FieldMissing:
  "d < StackSize \<Longrightarrow> emits_value V row k d (emit_field OpFieldMissing name) (\<lambda>ps. Inr (BoolValue (row name = None)))"
  by (rule emits_emit_field) (auto simp: two_byte_ops_def intro!: ends_Inr leads_FieldMissing)

lemma emits_LoadPath:
  "d < StackSize \<Longrightarrow> emits_value V row k d (emit_const OpLoadPath (StringValue path)) (\<lambda>ps. Inr (execLoadPath row path))"
proof (rule emits_emit_const)
  fix F a i and ps st :: "Value list"
  assume "d < StackSize" "code_at F a (Make OpLoadPath [i])" "i < 65536" "i < length (pr_Constants F)"
    "pr_Constants F ! i = StringValue path" "length st = d"
  then show "ends V F row ps a st (a + 3) (onto st (Inr (execLoadPath row path))) \<and>
      (\<forall>st'. onto st (Inr (execLoadPath row path)) = Inr st' \<longrightarrow> length st' = Suc d)"
    using leads_LoadPath [of F a i st V row ps] by (simp add: ends_def)
qed (simp add: two_byte_ops_def)

lemma emits_LoadLambdaParam:
  assumes "d < StackSize" "i < k" "i < 65536"
  shows "emits_value V row k d (emit OpLoadLambdaParam [i]) (\<lambda>ps. Inr (rev ps ! i))"
proof (rule emits_emit)
  fix F a and ps st :: "Value list"
  assume "code_at F a (Make OpLoadLambdaParam [i])" "length ps = k" "length st = d"
  then show "ends V F row ps a st (a + length (Make OpLoadLambdaParam [i])) (onto st (Inr (rev ps ! i))) \<and>
      (\<forall>st'. onto st (Inr (rev ps ! i)) = Inr st' \<longrightarrow> length st' = Suc d)"
    using leads_LoadLambdaParam [of F a i ps st V row] assms by (simp add: ends_def two_byte_ops_def)
qed

text \<open>Operations on the values above the first \<open>d\<close>.\<close>

lemma split_stack: "length st = d + n \<Longrightarrow> st = take d st @ drop d st \<and> length (take d st) = d \<and> length (drop d st) = n"
  by simp

lemma emits_fixed:
  assumes "fixed_arity V op = Some n" "d < StackSize"
  shows "emits V row k (d + n) (emit op []) (Suc d) (\<lambda>ps st. onto (take d st) (fixed_value V op (drop d st)))"
proof (rule emits_emit)
  obtain f where f: "map_of (fixed_ops V) op = Some (n, f)" using assms(1) by (auto simp: fixed_arity_def)
  have "op \<noteq> OpBSIHandledCompare" using fixed_ops_other(1) [OF f] by (auto simp: control_ops_def)
  then have one: "length (Make op []) = 1" using Make_plain [OF fixed_ops_other(3) [OF f]] by simp
  fix F a and ps st :: "Value list"
  assume h: "code_at F a (Make op [])" "length st = d + n"
  then have "ends V F row ps a (take d st @ drop d st) (Suc a) (onto (take d st) (op_result f (drop d st)))"
    using assms(2) f by (intro ends_fixed) auto
  then show "ends V F row ps a st (a + length (Make op [])) (onto (take d st) (fixed_value V op (drop d st))) \<and>
      (\<forall>st'. onto (take d st) (fixed_value V op (drop d st)) = Inr st' \<longrightarrow> length st' = Suc d)"
    using one f h(2) by (cases "op_result f (drop d st)") (auto simp: fixed_value_def)
qed

lemma emits_counted:
  assumes f: "map_of (counted_ops V) op = Some (pops, ok, err, over, f)"
    and n: "pops c = n" "ok c" "c < 65536" and d: "d < StackSize"
  shows "emits V row k (d + n) (emit op [c]) (Suc d) (\<lambda>ps st. onto (take d st) (op_result (f c) (drop d st)))"
proof (rule emits_emit)
  fix F a and ps st :: "Value list"
  assume h: "code_at F a (Make op [c])" "length st = d + n"
  then have "ends V F row ps a (take d st @ drop d st) (a + 3) (onto (take d st) (op_result (f c) (drop d st)))"
    using d n by (intro ends_counted [OF h(1) f]) auto
  then show "ends V F row ps a st (a + length (Make op [c])) (onto (take d st) (op_result (f c) (drop d st))) \<and>
      (\<forall>st'. onto (take d st) (op_result (f c) (drop d st)) = Inr st' \<longrightarrow> length st' = Suc d)"
    using counted_ops_other(3) [OF f] h(2) by (cases "op_result (f c) (drop d st)") auto
qed

lemma emits_Member:
  assumes "d < StackSize"
  shows "emits V row k (Suc d) (emit_const OpMember (StringValue key)) (Suc d)
           (\<lambda>ps st. onto (take d st) (Inr (memberValue (drop d st ! 0) key)))"
proof (rule emits_emit_const)
  fix F a i and ps st :: "Value list"
  assume h: "code_at F a (Make OpMember [i])" "i < 65536" "i < length (pr_Constants F)"
    "pr_Constants F ! i = StringValue key" "length st = Suc d"
  then have "st = take d st @ [st ! d]" by (simp add: take_Suc_conv_app_nth [symmetric])
  then show "ends V F row ps a st (a + 3) (onto (take d st) (Inr (memberValue (drop d st ! 0) key))) \<and>
      (\<forall>st'. onto (take d st) (Inr (memberValue (drop d st ! 0) key)) = Inr st' \<longrightarrow> length st' = Suc d)"
    using leads_Member [of F a i "take d st" V row ps "st ! d"] h assms by (simp add: ends_def)
qed (simp add: two_byte_ops_def)

subsection \<open>Arguments\<close>

abbreviation values_of :: "(Value list \<Rightarrow> denotation) list \<Rightarrow> Value list \<Rightarrow> vm_error + Value list" where
  "values_of gs ps \<equiv> all_values (map (\<lambda>g. g ps) gs)"

lemma length_all_values: "all_values rs = Inr vs \<Longrightarrow> length vs = length rs"
  by (induction rs arbitrary: vs) (auto elim!: bind_InrE)

text \<open>Emitters that push their values one after the other.\<close>

definition emits_args :: "vm_lib \<Rightarrow> row \<Rightarrow> nat \<Rightarrow> nat \<Rightarrow> emitter list \<Rightarrow> (Value list \<Rightarrow> denotation) list \<Rightarrow> bool" where
  "emits_args V row k d fs gs \<longleftrightarrow>
     length gs = length fs \<and> (\<forall>i < length fs. emits_value V row k (d + i) (fs ! i) (gs ! i))"

lemma emits_args_simps [simp]:
  "emits_args V row k d [] gs \<longleftrightarrow> gs = []"
  "emits_args V row k d (f # fs) (g # gs) \<longleftrightarrow> emits_value V row k d f g \<and> emits_args V row k (Suc d) fs gs"
  by (auto simp: emits_args_def All_less_Suc2)

lemma emits_all:
  "emits_args V row k d fs gs \<Longrightarrow>
   emits V row k d (seq fs) (d + length fs) (\<lambda>ps st. bind (values_of gs ps) (\<lambda>vs. Inr (st @ vs)))"
proof (induction fs arbitrary: d gs)
  case Nil
  then show ?case using emits_seq_Nil [of V row k d] by (simp add: emits_args_def del: seq.simps)
next
  case (Cons f fs)
  then obtain g gs' where gs: "gs = g # gs'" by (cases gs) (auto simp: emits_args_def)
  then have "emits V row k d (seq (f # fs)) (Suc d + length fs)
      (\<lambda>ps st. bind (onto st (g ps)) (\<lambda>st. bind (values_of gs' ps) (\<lambda>vs. Inr (st @ vs))))"
    using Cons.prems Cons.IH [of "Suc d" gs'] by (intro emits_seq_Cons) auto
  then have "emits V row k d (seq (f # fs)) (d + length (f # fs))
      (\<lambda>ps st. bind (onto st (g ps)) (\<lambda>st. bind (values_of gs' ps) (\<lambda>vs. Inr (st @ vs))))" by simp
  then show ?case
    by (rule emits_cong) (auto simp: gs onto_def bind_def split: sum.splits)
qed

lemma emits_op:
  assumes args: "emits_args V row k d fs gs"
    and f: "emits V row k (d + length fs) f (Suc d) (\<lambda>ps st. onto (take d st) (h ps (drop d st)))"
  shows "emits_value V row k d (seq (fs @ [f])) (\<lambda>ps. bind (values_of gs ps) (h ps))"
proof (rule emits_cong [OF emits_seq_append [OF emits_all [OF args] emits_seq_one [OF f]]])
  fix ps st :: "Value list" assume "length st = d"
  then show "bind (bind (values_of gs ps) (\<lambda>vs. Inr (st @ vs))) (\<lambda>st. onto (take d st) (h ps (drop d st))) =
      onto st (bind (values_of gs ps) (h ps))"
    by (cases "values_of gs ps") auto
qed

lemma emits_op1:
  assumes "emits_value V row k d f g" "emits V row k (Suc d) e (Suc d) (\<lambda>ps st. onto (take d st) (h ps (drop d st)))"
  shows "emits_value V row k d (seq [f, e]) (\<lambda>ps. bind (g ps) (\<lambda>v. h ps [v]))"
  using emits_op [of V row k d "[f]" "[g]" e h] assms by simp

lemma emits_op2:
  assumes "emits_value V row k d f1 g1" "emits_value V row k (Suc d) f2 g2"
    "emits V row k (d + 2) e (Suc d) (\<lambda>ps st. onto (take d st) (h ps (drop d st)))"
  shows "emits_value V row k d (seq [f1, f2, e]) (\<lambda>ps. bind (g1 ps) (\<lambda>a. bind (g2 ps) (\<lambda>b. h ps [a, b])))"
  using emits_op [of V row k d "[f1, f2]" "[g1, g2]" e h] assms by simp

lemma emits_op3:
  assumes "emits_value V row k d f1 g1" "emits_value V row k (Suc d) f2 g2" "emits_value V row k (d + 2) f3 g3"
    "emits V row k (d + 3) e (Suc d) (\<lambda>ps st. onto (take d st) (h ps (drop d st)))"
  shows "emits_value V row k d (seq [f1, f2, f3, e])
           (\<lambda>ps. bind (g1 ps) (\<lambda>a. bind (g2 ps) (\<lambda>b. bind (g3 ps) (\<lambda>c. h ps [a, b, c]))))"
  using emits_op [of V row k d "[f1, f2, f3]" "[g1, g2, g3]" e h] assms by (simp add: numeral_3_eq_3)

subsection \<open>Patched jumps\<close>

lemma PatchUint16_at:
  assumes "pr_Instructions p = xs @ Make op [0] @ ys" "op \<in> set two_byte_ops" "off = Suc (length xs)"
  shows "PatchUint16 off v p = p\<lparr>pr_Instructions := xs @ Make op [v] @ ys\<rparr>"
  using assms by (simp add: PatchUint16_def Make_two_byte be16_def list_update_append)

lemma code_len_pos:
  assumes "code_at F a c" "addressable F"
  shows "a + length c < 65536"
  using assms by (simp add: code_at_def addressable_def)

lemma ends_leads: "leads V F a (view V row ps st) b (view V row ps st') \<Longrightarrow> ends V F row ps b st' c r \<Longrightarrow> ends V F row ps a st c r"
  by (auto simp: ends_def intro: leads_trans leads_halts split: sum.splits)

lemma ends_then_leads:
  assumes "ends V F row ps a st b r" "\<And>st'. leads V F b (view V row ps st') c (view V row ps st')"
  shows "ends V F row ps a st c r"
  using assms by (auto simp: ends_def intro: leads_trans split: sum.splits)

lemma ends_onto_bind:
  assumes "ends V F row ps a st b (onto st r)" "\<And>v. r = Inr v \<Longrightarrow> ends V F row ps b (st @ [v]) c (onto st (h v))"
  shows "ends V F row ps a st c (onto st (bind r h))"
proof (cases r)
  case (Inl e)
  then show ?thesis using assms(1) by (simp add: ends_def)
next
  case (Inr v)
  then show ?thesis using assms(1) assms(2) [OF Inr] by (auto simp: ends_def [of _ _ _ _ _ _ b] intro: ends_leads)
qed

definition jumps_on :: "vm_lib \<Rightarrow> row \<Rightarrow> u8 \<Rightarrow> (Value \<Rightarrow> bool) \<Rightarrow> bool" where
  "jumps_on V row jump test \<longleftrightarrow> jump \<in> set two_byte_ops \<and>
     (\<forall>F a t ps st v. code_at F a (Make jump [t]) \<longrightarrow> t < 65536 \<longrightarrow>
        leads V F a (view V row ps (st @ [v])) (if test v then t else a + 3) (view V row ps st))"

lemma jumps_onD:
  "jumps_on V row jump test \<Longrightarrow> code_at F a (Make jump [t]) \<Longrightarrow> t < 65536 \<Longrightarrow>
   leads V F a (view V row ps (st @ [v])) (if test v then t else a + 3) (view V row ps st)"
  by (simp add: jumps_on_def)

lemma jumps_on_emitted: "jumps_on V row OpJumpIfFalse (\<lambda>v. \<not> IsTruthy v)" "jumps_on V row OpJumpIfTrue IsTruthy"
proof -
  show "jumps_on V row OpJumpIfFalse (\<lambda>v. \<not> IsTruthy v)"
    unfolding jumps_on_def
  proof (intro conjI allI impI)
    fix F a t and ps st :: "Value list" and v
    assume "code_at F a (Make OpJumpIfFalse [t])" "t < 65536"
    then show "leads V F a (view V row ps (st @ [v])) (if \<not> IsTruthy v then t else a + 3) (view V row ps st)"
      using leads_JumpIfFalse [of F a t V row ps st v] by (simp split: if_splits)
  qed (simp add: two_byte_ops_def)
  show "jumps_on V row OpJumpIfTrue IsTruthy"
    unfolding jumps_on_def by (intro conjI allI impI leads_JumpIfTrue) (simp_all add: two_byte_ops_def)
qed

text \<open>The code of a short-circuit operator, with the three labels in place.\<close>

definition short_code :: "u8 \<Rightarrow> u8 \<Rightarrow> u8 \<Rightarrow> nat \<Rightarrow> bytes \<Rightarrow> bytes \<Rightarrow> bytes \<Rightarrow> bytes" where
  "short_code jump nullOp const a cl cr cr' =
     (let b = a + length cl; null = b + 9 + length cr; short = null + length cr' + 4; end = short + 1 in
      cl @ Make OpJumpIfNull3VL [null] @ Make jump [short] @ cr @ Make OpJump [end]
         @ cr' @ Make nullOp [] @ Make OpJump [end] @ Make const [])"

lemma jump_two_byte [simp]:
  "OpJump \<in> set two_byte_ops" "OpJumpIfFalse \<in> set two_byte_ops" "OpJumpIfNull3VL \<in> set two_byte_ops"
  by (simp_all add: two_byte_ops_def)

lemma patch_ins:
  "op \<in> set two_byte_ops \<Longrightarrow> off = Suc (length xs) \<Longrightarrow>
   PatchUint16 off v (p\<lparr>pr_Instructions := xs @ Make op [0] @ ys\<rparr>) = p\<lparr>pr_Instructions := xs @ Make op [v] @ ys\<rparr>"
  using PatchUint16_at [of "p\<lparr>pr_Instructions := xs @ Make op [0] @ ys\<rparr>" xs op ys off v] by simp

definition grows :: "emitter \<Rightarrow> bool" where
  "grows f \<longleftrightarrow> (\<forall>p q. f p = Inr q \<longrightarrow> (\<exists>c. pr_Instructions q = pr_Instructions p @ c))"

lemma growsE:
  assumes "grows f" "f p = Inr q"
  obtains c where "pr_Instructions q = pr_Instructions p @ c"
  using assms by (auto simp: grows_def)

lemma short_circuit_code:
  assumes f: "short_circuit jump nullOp const left right p = Inr q" and jump: "jump \<in> set two_byte_ops"
    and one: "length (Make nullOp []) = 1" "length (Make const []) = 1"
    and l: "grows left" and r: "grows right"
  obtains p1 c p4 c' p6 cl cr cr' where
    "left p = Inr p1" "pr_Instructions p1 = pr_Instructions p @ cl"
    "right (p1\<lparr>pr_Instructions := pr_Instructions p1 @ c\<rparr>) = Inr p4" "length c = 6"
    "pr_Instructions p4 = pr_Instructions p1 @ c @ cr"
    "right (p4\<lparr>pr_Instructions := pr_Instructions p4 @ c'\<rparr>) = Inr p6" "length c' = 3"
    "pr_Instructions p6 = pr_Instructions p4 @ c' @ cr'"
    "q = p6\<lparr>pr_Instructions := pr_Instructions p @ short_code jump nullOp const (Program_Len p) cl cr cr'\<rparr>"
proof -
  let ?c = "Make OpJumpIfNull3VL [0] @ Make jump [0]" and ?c' = "Make OpJump [0]"
  obtain p1 where p1: "left p = Inr p1" using f by (auto simp: short_circuit_def elim: bind_InrE)
  obtain cl where cl: "pr_Instructions p1 = pr_Instructions p @ cl" by (rule growsE [OF l p1])
  obtain p4 where p4: "right (p1\<lparr>pr_Instructions := pr_Instructions p1 @ ?c\<rparr>) = Inr p4"
    using f p1 by (auto simp: short_circuit_def EmitOp_def elim: bind_InrE)
  obtain cr where cr: "pr_Instructions p4 = pr_Instructions p1 @ ?c @ cr" by (rule growsE [OF r p4]) auto
  obtain p6 where p6: "right (p4\<lparr>pr_Instructions := pr_Instructions p4 @ ?c'\<rparr>) = Inr p6"
    using f p1 p4 by (auto simp: short_circuit_def EmitOp_def elim: bind_InrE)
  obtain cr' where cr': "pr_Instructions p6 = pr_Instructions p4 @ ?c' @ cr'" by (rule growsE [OF r p6]) auto
  let ?A = "pr_Instructions p @ cl" and ?E = "Make nullOp [] @ Make OpJump [0] @ Make const []"
  let ?null = "length ?A + 9 + length cr" and ?short = "length ?A + 13 + length cr + length cr'"
  let ?fin = "?short + 1"
  have "q = PatchUint16 (length ?A + 11 + length cr + length cr') ?fin (PatchUint16 (length ?A + 7 + length cr) ?fin
       (PatchUint16 (length ?A + 4) ?short (PatchUint16 (Suc (length ?A)) ?null
             (p6\<lparr>pr_Instructions := ?A @ Make OpJumpIfNull3VL [0] @ Make jump [0] @ cr @ Make OpJump [0] @ cr' @ ?E\<rparr>))))"
    using f p1 p4 p6 jump one by (simp add: short_circuit_def EmitOp_def Program_Len_def Let_def cl cr cr' ac_simps)
  also have "\<dots> = p6\<lparr>pr_Instructions := ?A @ Make OpJumpIfNull3VL [?null] @ Make jump [?short] @ cr @ Make OpJump [?fin]
      @ cr' @ Make nullOp [] @ Make OpJump [?fin] @ Make const []\<rparr>"
    using patch_ins [of OpJumpIfNull3VL _ ?A ?null "Make jump [0] @ cr @ Make OpJump [0] @ cr' @ ?E" p6]
      patch_ins [of jump _ "?A @ Make OpJumpIfNull3VL [?null]" ?short "cr @ Make OpJump [0] @ cr' @ ?E" p6]
      patch_ins [of OpJump _ "?A @ Make OpJumpIfNull3VL [?null] @ Make jump [?short] @ cr" ?fin "cr' @ ?E" p6]
      patch_ins [of OpJump _ "?A @ Make OpJumpIfNull3VL [?null] @ Make jump [?short] @ cr @ Make OpJump [?fin] @ cr' @ Make nullOp []"
        ?fin "Make const []" p6]
      jump one by (simp add: ac_simps)
  finally have "q = p6\<lparr>pr_Instructions := pr_Instructions p @ short_code jump nullOp const (Program_Len p) cl cr cr'\<rparr>"
    by (simp add: short_code_def Let_def Program_Len_def ac_simps)
  then show ?thesis
    using that [OF p1 cl p4 _ cr p6 _ cr'] jump by simp
qed

lemma emits_grows: "emits V row k d f d' \<phi> \<Longrightarrow> grows f"
  by (auto simp: emits_def grows_def)

abbreviation short_value ::
  "vm_lib \<Rightarrow> u8 \<Rightarrow> (Value \<Rightarrow> bool) \<Rightarrow> Value \<Rightarrow> denotation \<Rightarrow> denotation \<Rightarrow> denotation"
where
  "short_value V nullOp test cv l r \<equiv>
     bind l (\<lambda>a. if IsNull a then bind r (\<lambda>b. fixed_value V nullOp [b]) else if test a then Inr cv else r)"

text \<open>A value on top of the stack: the length of the result is right by construction.\<close>

lemma does_valueI:
  assumes "\<And>F ps st. \<lbrakk>code_at F a c; pools_ext q F; addressable F; length ps = k; length st = d\<rbrakk> \<Longrightarrow>
      ends V F row ps a st (a + length c) (onto st (g ps))"
  shows "does V row k d a c q (Suc d) (\<lambda>ps st. onto st (g ps))"
  unfolding does_def
proof (intro allI impI conjI)
  fix F and ps st st' :: "Value list"
  assume "onto st (g ps) = Inr st'" "length st = d"
  then show "length st' = Suc d" by (cases "g ps") auto
qed (rule assms)

lemma fixed_one:
  assumes "fixed_arity V op = Some n"
  shows "length (Make op []) = 1"
proof -
  obtain f where f: "map_of (fixed_ops V) op = Some (n, f)" using assms by (auto simp: fixed_arity_def)
  have "op \<noteq> OpBSIHandledCompare" using fixed_ops_other(1) [OF f] by (auto simp: control_ops_def)
  then show ?thesis using Make_plain [OF fixed_ops_other(3) [OF f]] by simp
qed

lemma ends_fixed_one:
  assumes "fixed_arity V op = Some 1" "code_at F a (Make op [])" "length st < StackSize"
  shows "ends V F row ps a (st @ [v]) (Suc a) (onto st (fixed_value V op [v]))"
proof -
  obtain f where f: "map_of (fixed_ops V) op = Some (length [v], f)" using assms(1) by (auto simp: fixed_arity_def)
  then show ?thesis using ends_fixed [OF assms(2) f assms(3)] by (simp add: fixed_value_def)
qed

lemma does_short_code:
  assumes jump: "jumps_on V row jump test" and null: "fixed_arity V nullOp = Some 1"
    and const: "(const, cv) \<in> {(OpConstTrue, BoolValue True), (OpConstFalse, BoolValue False)}" and d: "d < StackSize"
    and l: "does V row k d a cl q (Suc d) (\<lambda>ps st. onto st (gl ps))"
    and r: "does V row k d (a + length cl + 6) cr q (Suc d) (\<lambda>ps st. onto st (gr ps))"
    and r': "does V row k d (a + length cl + 9 + length cr) cr' q (Suc d) (\<lambda>ps st. onto st (gr ps))"
  shows "does V row k d a (short_code jump nullOp const a cl cr cr') q (Suc d)
           (\<lambda>ps st. onto st (short_value V nullOp test cv (gl ps) (gr ps)))"
proof (rule does_valueI)
  let ?c = "short_code jump nullOp const a cl cr cr'"
  let ?b = "a + length cl"
  let ?null = "?b + 9 + length cr"
  let ?short = "?null + length cr' + 4"
  fix F and ps st :: "Value list"
  assume h: "code_at F a ?c" "pools_ext q F" "addressable F" "length ps = k" "length st = d"
  have one: "length (Make nullOp []) = 1" "length (Make const []) = 1" "jump \<in> set two_byte_ops"
    using fixed_one [OF null] Make_control [of const] const jump by (auto simp: jumps_on_def)
  have fin: "a + length ?c = ?short + 1" "?short + 1 < 65536"
    using code_len_pos [OF h(1,3)] one by (simp_all add: short_code_def Let_def)
  have code: "code_at F a cl" "code_at F ?b (Make OpJumpIfNull3VL [?null])" "code_at F (?b + 3) (Make jump [?short])"
    "code_at F (?b + 6) cr" "code_at F (?b + 6 + length cr) (Make OpJump [?short + 1])" "code_at F ?null cr'"
    "code_at F (?null + length cr') (Make nullOp [])" "code_at F (?null + length cr' + 1) (Make OpJump [?short + 1])"
    "code_at F ?short (Make const [])"
    using h(1) one by (simp_all add: short_code_def Let_def ac_simps)
  have J: "ends V F row ps a st (?short + 1) r" if "ends V F row ps a st b r" "code_at F b (Make OpJump [?short + 1])" for a b r
    by (rule ends_then_leads [OF that(1) leads_Jump [OF that(2) fin(2)]])
  show "ends V F row ps a st (a + length ?c) (onto st (short_value V nullOp test cv (gl ps) (gr ps)))"
    unfolding fin
  proof (rule ends_onto_bind [OF doesD(1) [OF l code(1) h(2-5)]])
    fix v
    show "ends V F row ps ?b (st @ [v]) (?short + 1)
        (onto st (if IsNull v then bind (gr ps) (\<lambda>b. fixed_value V nullOp [b]) else if test v then Inr cv else gr ps))"
    proof (cases "IsNull v")
      case True
      have "leads V F ?b (view V row ps (st @ [v])) ?null (view V row ps st)"
        using leads_JumpIfNull3VL [OF code(2), of V row ps st v] fin(2) True by simp
      moreover have "ends V F row ps ?null st (?null + length cr' + 1) (onto st (bind (gr ps) (\<lambda>b. fixed_value V nullOp [b])))"
        using ends_fixed_one [OF null code(7)] d h(5) by (intro ends_onto_bind [OF doesD(1) [OF r' code(6) h(2-5)]]) simp
      ultimately show ?thesis
        using True ends_leads [OF _ J [OF _ code(8)]] by simp
    next
      case False
      have n: "leads V F ?b (view V row ps (st @ [v])) (?b + 3) (view V row ps (st @ [v]))"
        using leads_JumpIfNull3VL [OF code(2), of V row ps st v] fin(2) False by simp
      have j: "leads V F (?b + 3) (view V row ps (st @ [v])) (if test v then ?short else ?b + 6) (view V row ps st)"
        using jumps_onD [OF jump code(3), of ps st v] fin(2) by (cases "test v") (simp_all add: ac_simps)
      have "ends V F row ps ?short st (?short + 1) (onto st (Inr cv))"
        using leads_control [OF code(9), of cv st V row ps] const d h(5) by (auto simp: ends_def)
      then have "ends V F row ps (if test v then ?short else ?b + 6) st (?short + 1) (onto st (if test v then Inr cv else gr ps))"
        using J [OF doesD(1) [OF r code(4) h(2-5)] code(5)] by simp
      then show ?thesis
        using False ends_leads [OF n ends_leads [OF j]] by simp
    qed
  qed
qed

lemma emits_short_circuit:
  assumes l: "emits_value V row k d left gl" and r: "emits_value V row k d right gr"
    and jump: "jumps_on V row jump test" and null: "fixed_arity V nullOp = Some 1"
    and const: "(const, cv) \<in> {(OpConstTrue, BoolValue True), (OpConstFalse, BoolValue False)}" and d: "d < StackSize"
  shows "emits_value V row k d (short_circuit jump nullOp const left right)
     (\<lambda>ps. short_value V nullOp test cv (gl ps) (gr ps))"
  unfolding emits_def
proof (intro allI impI)
  fix p q assume f: "short_circuit jump nullOp const left right p = Inr q"
  have one: "length (Make nullOp []) = 1" "length (Make const []) = 1" "jump \<in> set two_byte_ops"
    using fixed_one [OF null] Make_control [of const] const jump by (auto simp: jumps_on_def)
  obtain p1 c p4 c' p6 cl cr cr' where
    p1: "left p = Inr p1" "pr_Instructions p1 = pr_Instructions p @ cl" and
    p4: "right (p1\<lparr>pr_Instructions := pr_Instructions p1 @ c\<rparr>) = Inr p4" "length c = 6"
      "pr_Instructions p4 = pr_Instructions p1 @ c @ cr" and
    p6: "right (p4\<lparr>pr_Instructions := pr_Instructions p4 @ c'\<rparr>) = Inr p6" "length c' = 3"
      "pr_Instructions p6 = pr_Instructions p4 @ c' @ cr'" and
    q: "q = p6\<lparr>pr_Instructions := pr_Instructions p @ short_code jump nullOp const (Program_Len p) cl cr cr'\<rparr>"
    by (rule short_circuit_code [OF f one(3,1,2) emits_grows [OF l] emits_grows [OF r]])
  let ?b = "Program_Len p + length cl"
  note 1 = emitsD [OF l p1]
  have 4: "pools_ext p1 p4" "does V row k d (?b + 6) cr p4 (Suc d) (\<lambda>ps st. onto st (gr ps))"
    using emitsD [OF r p4(1), of cr] p4(2,3) p1(2) by (simp_all add: Program_Len_def ac_simps)
  have 6: "pools_ext p4 p6" "does V row k d (?b + 9 + length cr) cr' p6 (Suc d) (\<lambda>ps st. onto st (gr ps))"
    using emitsD [OF r p6(1), of cr'] p6(2,3) p4(2,3) p1(2) by (simp_all add: Program_Len_def ac_simps)
  have "does V row k d (Program_Len p) (short_code jump nullOp const (Program_Len p) cl cr cr') p6 (Suc d)
      (\<lambda>ps st. onto st (short_value V nullOp test cv (gl ps) (gr ps)))"
    using 1(2) 4 6 by (intro does_short_code [OF jump null const d]) (auto intro: does_mono pools_ext_trans)
  then show "\<exists>c. pr_Instructions q = pr_Instructions p @ c \<and> pools_ext p q \<and>
      does V row k d (Program_Len p) c q (Suc d) (\<lambda>ps st. onto st (short_value V nullOp test cv (gl ps) (gr ps)))"
    using q 1(1) 4(1) 6(1) by (auto intro: pools_ext_trans)
qed

end
