(* ===== verification/LF_Operators.thy ===== *)
theory LF_Operators
  imports LF_Emit
begin

text \<open>
  The code of operators, names, members, lists and objects computes what the reference evaluator says.
\<close>

subsection \<open>The operations behind the operators\<close>

lemma fixed_unary:
  "map_of (fixed_ops V) OpNot3VL = Some (un_warn not3VL)"
  "map_of (fixed_ops V) OpNegStrict = Some (un_warn negStrict)"
  "map_of (fixed_ops V) OpAnd3VLNull = Some (un and3VLNull)"
  "map_of (fixed_ops V) OpOr3VLNull = Some (un or3VLNull)"
  "map_of (fixed_ops V) OpIsNull = Some (un (\<lambda>a. BoolValue (IsNull a)))"
  "map_of (fixed_ops V) OpIsNotNull = Some (un (\<lambda>a. BoolValue (\<not> IsNull a)))"
  "map_of (fixed_ops V) OpLen = Some (un (lenValue (vl_go V)))"
  by (simp_all add: op_tables opcode_defs)

lemma fixed_binary:
  "map_of (fixed_ops V) OpEqStrict = Some (bin_warn (compare_with (vl_go V) (\<lambda>c. c = 0)))"
  "map_of (fixed_ops V) OpNeqStrict = Some (bin_warn (compare_with (vl_go V) (\<lambda>c. c \<noteq> 0)))"
  "map_of (fixed_ops V) OpLtStrict = Some (bin_warn (compare_with (vl_go V) (\<lambda>c. c < 0)))"
  "map_of (fixed_ops V) OpLteStrict = Some (bin_warn (compare_with (vl_go V) (\<lambda>c. c \<le> 0)))"
  "map_of (fixed_ops V) OpGtStrict = Some (bin_warn (compare_with (vl_go V) (\<lambda>c. c > 0)))"
  "map_of (fixed_ops V) OpGteStrict = Some (bin_warn (compare_with (vl_go V) (\<lambda>c. c \<ge> 0)))"
  "map_of (fixed_ops V) OpAddStrict = Some (bin_warn addStrict)"
  "map_of (fixed_ops V) OpSubStrict = Some (bin_warn subStrict)"
  "map_of (fixed_ops V) OpMulStrict = Some (bin_warn (mulStrict (vl_go V)))"
  "map_of (fixed_ops V) OpDivStrict = Some (bin_warn (divStrict (vl_go V)))"
  "map_of (fixed_ops V) OpModStrict = Some (bin_warn modStrict)"
  "map_of (fixed_ops V) OpIndex = Some (bin (indexValue (vl_go V)))"
  "map_of (fixed_ops V) OpSlice = Some (tern (\<lambda>c s e. Some (sliceValue (vl_go V) c s e)))"
  "fixed_arity V OpSubstr0Based = Some 3" "fixed_arity V OpBin = Some 2" "fixed_arity V OpBinOrigin = Some 3"
  by (simp_all add: op_tables opcode_defs fixed_arity_def bin_def tern_def)

lemmas fixed_lookup = fixed_unary fixed_binary(1-13)

lemma arities [simp]:
  "fixed_arity V OpNot3VL = Some 1" "fixed_arity V OpNegStrict = Some 1" "fixed_arity V OpAnd3VLNull = Some 1"
  "fixed_arity V OpOr3VLNull = Some 1" "fixed_arity V OpIsNull = Some 1" "fixed_arity V OpIsNotNull = Some 1"
  "fixed_arity V OpLen = Some 1" "fixed_arity V OpEqStrict = Some 2" "fixed_arity V OpLteStrict = Some 2"
  "fixed_arity V OpGteStrict = Some 2" "fixed_arity V OpIndex = Some 2" "fixed_arity V OpSlice = Some 3"
  by (simp_all add: fixed_arity_def fixed_lookup un_def un_warn_def bin_warn_def bin_def tern_def)

lemma fixed_values [simp]:
  "fixed_value V OpNot3VL [v] = unary_value Unary_Not v" "fixed_value V OpNegStrict [v] = unary_value Unary_Neg v"
  "fixed_value V OpAnd3VLNull [v] = Inr (and3VLNull v)" "fixed_value V OpOr3VLNull [v] = Inr (or3VLNull v)"
  "fixed_value V OpIsNull [v] = Inr (BoolValue (IsNull v))" "fixed_value V OpIsNotNull [v] = Inr (BoolValue (\<not> IsNull v))"
  "fixed_value V OpLen [v] = Inr (lenValue (vl_go V) v)"
  "fixed_value V OpEqStrict [a, b] = strict_value (vl_go V) Binary_Eq a b"
  "fixed_value V OpLteStrict [a, b] = strict_value (vl_go V) Binary_LtEq a b"
  "fixed_value V OpGteStrict [a, b] = strict_value (vl_go V) Binary_GtEq a b"
  "fixed_value V OpIndex [a, b] = Inr (indexValue (vl_go V) a b)"
  "fixed_value V OpSlice [a, b, c] = Inr (sliceValue (vl_go V) a b c)"
  by (simp_all add: fixed_value_def fixed_lookup un_def un_warn_def bin_warn_def bin_def tern_def op_result_def
        unary_value_def strict_value_def compare_value_def quietly_def case_prod_unfold)

lemma strict_opcode:
  assumes "op \<noteq> Binary_And" "op \<noteq> Binary_Or" "op \<noteq> Binary_Coalesce"
  shows "fixed_arity V (binary_opcode op) = Some 2"
    "fixed_value V (binary_opcode op) [a, b] = strict_value (vl_go V) op a b"
  using assms
  by (cases op; simp add: binary_opcode_def fixed_arity_def fixed_value_def fixed_lookup bin_warn_def op_result_def
        strict_value_def compare_value_def quietly_def case_prod_unfold)+

lemma counted_lookup:
  "map_of (counted_ops V) OpCoalesce = Some (id, (\<lambda>c. True), StackPanic, StackPanic, plain coalesceValue)"
  "map_of (counted_ops V) OpArrayBuild = Some (id, (\<lambda>c. True), ErrInvalidBytecode, ErrStackOverflow, plain ArrayValue)"
  "map_of (counted_ops V) OpObjectBuild = Some ((\<lambda>c. c * 2), (\<lambda>c. True), ErrInvalidBytecode, ErrStackOverflow,
     plain (\<lambda>vs. ObjectValue (object_build (vl_go V) vs [])))"
  "map_of (counted_ops V) OpInStrict = Some ((\<lambda>c. if c = 0 then 2 else Suc c), (\<lambda>c. True), StackPanic,
     StackPanic, in_strict (vl_go V))"
  by (simp_all add: counted_tables opcode_defs)

subsection \<open>Operators\<close>

lemma and3VL_value: "short_value V OpAnd3VLNull (\<lambda>v. \<not> IsTruthy v) (BoolValue False) l r = and_value l r"
  by (auto simp: and_value_def and3VLNull_def bind_def split: sum.splits)

lemma or3VL_value: "short_value V OpOr3VLNull IsTruthy (BoolValue True) l r = or_value l r"
  by (auto simp: or_value_def or3VLNull_def bind_def split: sum.splits)

lemma emits_And:
  assumes "emits_value V row k d f gl" "emits_value V row k d f' gr" "d < StackSize"
  shows "emits_value V row k d (short_circuit OpJumpIfFalse OpAnd3VLNull OpConstFalse f f') (\<lambda>ps. and_value (gl ps) (gr ps))"
  using emits_short_circuit [OF assms(1,2) jumps_on_emitted(1) _ _ assms(3), of OpAnd3VLNull OpConstFalse "BoolValue False"]
  by (simp add: and3VL_value del: fixed_values)

lemma emits_Or:
  assumes "emits_value V row k d f gl" "emits_value V row k d f' gr" "d < StackSize"
  shows "emits_value V row k d (short_circuit OpJumpIfTrue OpOr3VLNull OpConstTrue f f') (\<lambda>ps. or_value (gl ps) (gr ps))"
  using emits_short_circuit [OF assms(1,2) jumps_on_emitted(2) _ _ assms(3), of OpOr3VLNull OpConstTrue "BoolValue True"]
  by (simp add: or3VL_value del: fixed_values)

lemma emits_fixed1:
  assumes "emits_value V row k d f g" "fixed_arity V op = Some 1" "d < StackSize"
  shows "emits_value V row k d (seq [f, emit op []]) (\<lambda>ps. bind (g ps) (\<lambda>v. fixed_value V op [v]))"
  using emits_op1 [OF assms(1), of "emit op []" "\<lambda>ps. fixed_value V op"] emits_fixed [OF assms(2,3), of row k] by simp

lemma emits_fixed2:
  assumes "emits_value V row k d f g" "emits_value V row k (Suc d) f' g'" "fixed_arity V op = Some 2" "d < StackSize"
  shows "emits_value V row k d (seq [f, f', emit op []]) (\<lambda>ps. bind (g ps) (\<lambda>a. bind (g' ps) (\<lambda>b. fixed_value V op [a, b])))"
  using emits_op2 [OF assms(1,2), of "emit op []" "\<lambda>ps. fixed_value V op"] emits_fixed [OF assms(3,4), of row k] by simp

lemma emits_Unary:
  assumes "emits_value V row k d f g" "d < StackSize"
  shows "emits_value V row k d (compileUnary op f) (\<lambda>ps. bind (g ps) (unary_value op))"
  using emits_fixed1 [OF assms(1) _ assms(2), of OpNot3VL] emits_fixed1 [OF assms(1) _ assms(2), of OpNegStrict]
  by (cases op) (simp_all add: compileUnary_def)

lemma coalesce_value: "op_result (plain coalesceValue n) [a, b] = strict_value L Binary_Coalesce a b"
  by (simp add: op_result_def plain_def coalesceValue_def strict_value_def)

lemma emits_Binary:
  assumes "emits_value V row k d f g"
    and "emits_value V row k (if op = Binary_And \<or> op = Binary_Or then d else Suc d) f' g'" "d < StackSize"
  shows "emits_value V row k d (compileBinary op f f') (\<lambda>ps. binary_value (vl_go V) op (g ps) (g' ps))"
proof -
  consider "op = Binary_And" | "op = Binary_Or" | "op = Binary_Coalesce"
    | "op \<noteq> Binary_And" "op \<noteq> Binary_Or" "op \<noteq> Binary_Coalesce" by blast
  then show ?thesis
  proof cases
    case 3
    have "emits V row k (d + 2) (emit OpCoalesce [2]) (Suc d)
        (\<lambda>ps st. onto (take d st) (op_result (plain coalesceValue 2) (drop d st)))"
      using assms(3) by (intro emits_counted [OF counted_lookup(1)]) simp_all
    from emits_op2 [OF assms(1) _ this] assms(2) 3 show ?thesis
      by (simp add: compileBinary_def binary_value_def coalesce_value [where L = "vl_go V"])
  next
    case 4
    then show ?thesis
      using emits_fixed2 [OF assms(1) _ strict_opcode(1) assms(3), of f' g' op] assms(2) strict_opcode(2) [of op V]
      by (simp add: compileBinary_def binary_value_def)
  qed (use assms emits_And emits_Or in \<open>simp_all add: compileBinary_def binary_value_def compileAnd3VL_def compileOr3VL_def\<close>)
qed

lemma emits_Between:
  assumes "emits_value V row k d x gx" "emits_value V row k (Suc d) lo gl" "emits_value V row k (Suc d) hi gh" "d < StackSize"
  shows "emits_value V row k d (compileBetween x lo hi) (\<lambda>ps. between_value (vl_go V) (gx ps) (gl ps) (gh ps))"
  unfolding compileBetween_def
  using emits_And [OF emits_fixed2 [OF assms(1,2) _ assms(4), of OpGteStrict] emits_fixed2 [OF assms(1,3) _ assms(4), of OpLteStrict] assms(4)]
  by (simp add: between_value_def binary_value_def)

subsection \<open>Names and members\<close>

lemma index_of_zip:
  "length xs = length ys \<Longrightarrow> map_of (zip xs ys) x = map_option (\<lambda>i. ys ! i) (index_of x xs)"
proof (induction xs arbitrary: ys)
  case (Cons a xs)
  then show ?case by (cases ys) (auto simp: option.map_comp comp_def)
qed simp

lemma index_of_None: "index_of x xs = None \<longleftrightarrow> x \<notin> set xs"
  by (induction xs) auto

lemma scope_value_depth:
  assumes "length vals = length ps"
  shows "scope_value V row ps vals name =
    (case lambdaParamDepth ps name of Some i \<Rightarrow> rev vals ! i | None \<Rightarrow> load_value V row name)"
  using index_of_zip [of "rev ps" "rev vals" name] assms
  by (auto simp: scope_value_def lambdaParamDepth_def zip_rev [symmetric] split: option.splits)

lemma emits_Ident:
  assumes "d < StackSize" "length ps \<le> 65536"
  shows "emits_value V row (length ps) d (compileIdent ps name) (\<lambda>vals. Inr (scope_value V row ps vals name))"
proof (cases "lambdaParamDepth ps name")
  case None
  then show ?thesis
    using emits_LoadField [OF assms(1), of V row "length ps" name]
    by (auto simp: compileIdent_def scope_value_depth intro: emits_cong)
next
  case (Some i)
  then have "i < length ps" using index_of_nth [of name "rev ps" i] by (simp add: lambdaParamDepth_def)
  then show ?thesis
    using emits_LoadLambdaParam [OF assms(1), of i "length ps" V row] assms(2) Some
    by (auto simp: compileIdent_def scope_value_depth intro: emits_cong)
qed

lemma emits_member:
  assumes "emits_value V row k d f g" "d < StackSize"
  shows "emits_value V row k d (seq [f, emit_const OpMember (StringValue key)]) (\<lambda>ps. bind (g ps) (\<lambda>v. Inr (memberValue v key)))"
  using emits_op1 [where h = "\<lambda>ps vs. Inr (memberValue (vs ! 0) key)", OF assms(1) emits_Member [OF assms(2)]] by simp

lemma emits_cong_value:
  "emits_value V row k d f g \<Longrightarrow> (\<And>ps. length ps = k \<Longrightarrow> g ps = h ps) \<Longrightarrow> emits_value V row k d f h"
  by (erule emits_cong) simp

lemma bind_Inr [simp]: "bind r Inr = r" "bind r (\<lambda>x. Inr x) = r"
  by (cases r; simp)+

lemma op_result_plain [simp]: "op_result (plain f n) = (\<lambda>vs. Inr (f vs))"
  by (simp add: op_result_def plain_def fun_eq_iff)

lemma emits_members:
  assumes "emits_value V row k d f g" "d < StackSize"
  shows "emits_value V row k d (seq (f # map (\<lambda>part. emit_const OpMember (StringValue part)) parts))
           (\<lambda>ps. bind (g ps) (\<lambda>v. Inr (foldl memberValue v parts)))"
  using assms(1)
proof (induction parts arbitrary: f g)
  case Nil
  then show ?case using emits_seq_one [of V row k d f] by (simp del: seq.simps)
next
  case (Cons part parts)
  have eq: "seq (f # map (\<lambda>part. emit_const OpMember (StringValue part)) (part # parts)) =
      seq (seq [f, emit_const OpMember (StringValue part)] # map (\<lambda>part. emit_const OpMember (StringValue part)) parts)"
    by (simp add: seq_Cons_fun)
  show ?case
    unfolding eq by (rule emits_cong_value [OF Cons.IH [OF emits_member [OF Cons.prems assms(2)]]]) simp
qed

lemma lambdaParamDepth_None: "lambdaParamDepth ps x = None \<longleftrightarrow> x \<notin> set ps"
  by (simp add: lambdaParamDepth_def index_of_None)

lemma emits_path:
  assumes "d < StackSize" "length ps \<le> 65536"
  shows "emits_value V row (length ps) d
    (if lambdaParamDepth ps (hd parts) \<noteq> None
     then seq (compileIdent ps (hd parts) # map (\<lambda>part. emit_const OpMember (StringValue part)) (tl parts))
     else emit_const OpLoadPath (StringValue (join_path parts)))
    (\<lambda>vals. Inr (path_value V row ps vals parts))"
  using emits_members [OF emits_Ident [OF assms] assms(1), of V row "hd parts" "tl parts"]
    emits_LoadPath [OF assms(1), of V row "length ps" "join_path parts"]
  by (simp add: path_value_def lambdaParamDepth_None)

subsection \<open>Lists and objects\<close>

lemma emits_Array:
  assumes "emits_args V row k d fs gs" "d < StackSize" "length fs < 65536"
  shows "emits_value V row k d (seq (fs @ [emit OpArrayBuild [length fs]])) (\<lambda>ps. bind (values_of gs ps) (\<lambda>vs. Inr (ArrayValue vs)))"
proof -
  have "emits V row k (d + length fs) (emit OpArrayBuild [length fs]) (Suc d)
      (\<lambda>ps st. onto (take d st) (op_result (plain ArrayValue (length fs)) (drop d st)))"
    using assms by (intro emits_counted [OF counted_lookup(2)]) simp_all
  then show ?thesis
    using emits_op [where h = "\<lambda>ps. op_result (plain ArrayValue (length fs))", OF assms(1)]
    by simp
qed

lemma emits_In:
  assumes "emits_args V row k d (f # fs) (g # gs)" "fs \<noteq> []" "d < StackSize" "length fs < 65536"
  shows "emits_value V row k d (seq (f # fs @ [emit OpInStrict [length fs]]))
    (\<lambda>ps. bind (g ps) (\<lambda>v. bind (values_of gs ps) (\<lambda>items. quietly (inStrict (vl_go V) v items None))))"
proof -
  have "emits V row k (d + length (f # fs)) (emit OpInStrict [length fs]) (Suc d)
      (\<lambda>ps st. onto (take d st) (op_result (in_strict (vl_go V) (length fs)) (drop d st)))"
    using assms by (intro emits_counted [OF counted_lookup(4)]) simp_all
  from emits_op [where h = "\<lambda>ps. op_result (in_strict (vl_go V) (length fs))", OF assms(1) this] assms(2)
  show ?thesis by (simp add: op_result_def in_strict_def quietly_def case_prod_unfold)
qed

lemma in_value_container: "op_result (in_strict L 0) [v, c] = in_value L v c"
  by (cases c) (simp_all add: op_result_def in_strict_def quietly_def case_prod_unfold)

lemma emits_In_container:
  assumes "emits_value V row k d f g" "emits_value V row k (Suc d) f' g'" "d < StackSize"
  shows "emits_value V row k d (seq [f, f', emit OpInStrict [0]]) (\<lambda>ps. bind (g ps) (\<lambda>v. bind (g' ps) (in_value (vl_go V) v)))"
proof -
  have "emits V row k (d + 2) (emit OpInStrict [0]) (Suc d)
      (\<lambda>ps st. onto (take d st) (op_result (in_strict (vl_go V) 0) (drop d st)))"
    using assms by (intro emits_counted [OF counted_lookup(4)]) simp_all
  from emits_op2 [OF assms(1,2) this] show ?thesis by (simp add: in_value_container)
qed

lemma seq_concat: "seq (map seq fss @ gs) = seq (concat fss @ gs)"
proof (induction fss)
  case (Cons fs fss)
  then show ?case by (simp add: seq_append seq_Cons_fun del: seq.simps)
qed simp

fun interleave :: "gostring list \<Rightarrow> Value list \<Rightarrow> Value list" where
  "interleave (k # ks) (v # vs) = StringValue k # v # interleave ks vs"
| "interleave _ _ = []"

lemma object_build_interleave:
  "length ks = length vs \<Longrightarrow> object_build L (interleave ks vs) acc = fold (\<lambda>(k, v). obj_put k v) (zip ks vs) acc"
  by (induction ks vs arbitrary: acc rule: interleave.induct) auto

lemma all_values_interleave:
  "all_values (concat (map (\<lambda>(k, r). [Inr (StringValue k), r]) krs)) =
   bind (all_values (map snd krs)) (\<lambda>vs. Inr (interleave (map fst krs) vs))"
proof (induction krs)
  case (Cons kr krs)
  then show ?case by (cases kr; cases "snd kr"; cases "all_values (map snd krs)") auto
qed simp

lemma emits_args_interleave:
  assumes "\<forall>i < length fs. emits_value V row k (Suc (d + 2 * i)) (fs ! i) (gs ! i)" "length gs = length fs"
    "length ks = length fs" "d + 2 * length fs \<le> StackSize"
  shows "emits_args V row k d (concat (map (\<lambda>(key, f). [emit_const OpConstStr (StringValue key), f]) (zip ks fs)))
           (concat (map (\<lambda>(key, g). [(\<lambda>ps. Inr (StringValue key)), g]) (zip ks gs)))"
  using assms
proof (induction ks arbitrary: d fs gs)
  case (Cons key ks)
  then obtain f fs' g gs' where fg: "fs = f # fs'" "gs = g # gs'" by (cases fs; cases gs) auto
  have "\<forall>i < length fs'. emits_value V row k (Suc (d + 2 + 2 * i)) (fs' ! i) (gs' ! i)"
    using Cons.prems(1) fg by auto
  then have "emits_args V row k (d + 2) (concat (map (\<lambda>(key, f). [emit_const OpConstStr (StringValue key), f]) (zip ks fs')))
           (concat (map (\<lambda>(key, g). [(\<lambda>ps. Inr (StringValue key)), g]) (zip ks gs')))"
    using Cons.prems fg by (intro Cons.IH) auto
  moreover have "emits_value V row k (Suc d) f g" using Cons.prems(1) fg by auto
  ultimately show ?case
    using Cons.prems fg by (simp add: emits_const const_ops_def del: onto_simps)
qed simp

lemma emits_Object:
  assumes "\<forall>i < length fs. emits_value V row k (Suc (d + 2 * i)) (fs ! i) (gs ! i)" "length gs = length fs"
    "length ks = length fs" "d + 2 * length fs \<le> StackSize" "d < StackSize"
  shows "emits_value V row k d
    (seq (map (\<lambda>(key, f). seq [emit_const OpConstStr (StringValue key), f]) (zip ks fs) @ [emit OpObjectBuild [length fs]]))
    (\<lambda>ps. bind (values_of gs ps) (\<lambda>vs. Inr (ObjectValue (fold (\<lambda>(key, v). obj_put key v) (zip ks vs) []))))"
proof -
  let ?fs = "concat (map (\<lambda>(key, f). [emit_const OpConstStr (StringValue key), f]) (zip ks fs))"
  let ?gs = "concat (map (\<lambda>(key, g). [(\<lambda>ps :: Value list. Inr (StringValue key)), g]) (zip ks gs))"
  have eq: "map (\<lambda>(key, f). seq [emit_const OpConstStr (StringValue key), f]) (zip ks fs) =
      map seq (map (\<lambda>(key, f). [emit_const OpConstStr (StringValue key), f]) (zip ks fs))"
    by (simp add: case_prod_unfold comp_def del: seq.simps)
  have "length ?fs = length fs * 2"
    using assms(3) by (simp add: length_concat case_prod_unfold comp_def sum_list_triv)
  then have "emits V row k (d + length ?fs) (emit OpObjectBuild [length fs]) (Suc d)
      (\<lambda>ps st. onto (take d st) (op_result (plain (\<lambda>vs. ObjectValue (object_build (vl_go V) vs [])) (length fs)) (drop d st)))"
    using assms(4,5) by (intro emits_counted [OF counted_lookup(3)]) (simp_all add: StackSize_def)
  from emits_op [where h = "\<lambda>ps. op_result (plain (\<lambda>vs. ObjectValue (object_build (vl_go V) vs [])) (length fs))",
      OF emits_args_interleave [OF assms(1-4)] this]
  show ?thesis
    unfolding eq seq_concat
  proof (rule emits_cong_value)
    fix ps :: "Value list"
    have "map (\<lambda>g. g ps) ?gs = concat (map (\<lambda>(key, r). [Inr (StringValue key), r]) (zip ks (map (\<lambda>g. g ps) gs)))"
      by (simp add: map_concat zip_map2 comp_def case_prod_unfold)
    then have "values_of ?gs ps = bind (values_of gs ps) (\<lambda>vs. Inr (interleave ks vs))"
      using all_values_interleave [of "zip ks (map (\<lambda>g. g ps) gs)"] assms(2,3) by simp
    then show "bind (values_of ?gs ps) (op_result (plain (\<lambda>vs. ObjectValue (object_build (vl_go V) vs [])) (length fs))) =
        bind (values_of gs ps) (\<lambda>vs. Inr (ObjectValue (fold (\<lambda>(key, v). obj_put key v) (zip ks vs) [])))"
      using assms(2,3) by (cases "values_of gs ps") (auto simp: object_build_interleave dest: length_all_values)
  qed
qed

end
