(* ===== verification/LF_Calls.thy ===== *)
theory LF_Calls
  imports LF_Operators
begin

text \<open>
  The code of function calls computes what the reference evaluator says: strict conversions,
  conditionals, null tests and lambdas.
\<close>

subsection \<open>Strict conversions\<close>

lemma emitsI:
  assumes "\<And>p q. f p = Inr q \<Longrightarrow> \<exists>c. pr_Instructions q = pr_Instructions p @ c \<and> pools_ext p q \<and>
      does V row k d (Program_Len p) c q d' \<phi>"
  shows "emits V row k d f d' \<phi>"
  using assms by (simp add: emits_def)

lemma two_byte_calls [simp]:
  "OpStrictCastFail \<in> set two_byte_ops" "OpFieldMissing \<in> set two_byte_ops" "OpLoadField \<in> set two_byte_ops"
  by (simp_all add: two_byte_ops_def)

lemma length_Make_one [simp]:
  "length (Make OpDup []) = 1" "length (Make OpPop []) = 1" "length (Make OpIsNull []) = 1" "length (Make OpNot3VL []) = 1"
  "length (Make OpConstNull []) = 1" "length (Make OpConstFalse []) = 1" "length (Make OpReturn []) = 1"
  using Make_control [of OpDup] Make_control [of OpPop] Make_control [of OpConstNull] Make_control [of OpConstFalse]
    Make_control [of OpReturn] fixed_one [of _ OpIsNull] fixed_one [of _ OpNot3VL] by auto

lemma leads_fixed_one:
  assumes "fixed_value V op [v] = Inr u" "fixed_arity V op = Some 1" "code_at F a (Make op [])" "length st < StackSize"
  shows "leads V F a (view V row ps (st @ [v])) (Suc a) (view V row ps (st @ [u]))"
  using ends_fixed_one [OF assms(2-4), of row ps v] assms(1) by (simp add: ends_def)

definition check_code :: "nat \<Rightarrow> nat \<Rightarrow> bytes" where
  "check_code a i =
     Make OpDup [] @ Make OpIsNull [] @ Make OpJumpIfFalse [a + 9] @ Make OpPop [] @ Make OpStrictCastFail [i]"

lemma strict_check_code:
  "strict_check name p =
   Inr (p\<lparr>pr_Constants := pr_Constants p @ [StringValue (name @ bs ''!'')],
          pr_Instructions := pr_Instructions p @ check_code (Program_Len p) (length (pr_Constants p))\<rparr>)"
proof -
  let ?p = "p\<lparr>pr_Constants := pr_Constants p @ [StringValue (name @ bs ''!'')]\<rparr>"
  let ?xs = "pr_Instructions p @ Make OpDup [] @ Make OpIsNull []"
  let ?ys = "Make OpPop [] @ Make OpStrictCastFail [length (pr_Constants p)]"
  show ?thesis
    using patch_ins [of OpJumpIfFalse "Suc (Suc (Suc (Program_Len p)))" ?xs "Program_Len p + 9" ?ys ?p]
    by (simp add: strict_check_def EmitOp_def AddConstant_def Program_Len_def check_code_def ac_simps)
qed

lemma ends_check:
  assumes code: "code_at F a (check_code a i)" and F: "addressable F" and i: "i < length (pr_Constants F)"
    "pr_Constants F ! i = StringValue (name @ bs ''!'')" and st: "Suc (length st) < StackSize"
  shows "ends V F row ps a (st @ [v]) (a + 9) (onto st (strict_cast_value name v))"
proof -
  have c: "code_at F a (Make OpDup [])" "code_at F (a + 1) (Make OpIsNull [])" "code_at F (a + 2) (Make OpJumpIfFalse [a + 9])"
    "code_at F (a + 5) (Make OpPop [])" "code_at F (a + 6) (Make OpStrictCastFail [i])" "a + 9 < 65536" "i < 65536"
    using code i F code_len_pos [OF code F] by (simp_all add: check_code_def ac_simps addressable_def)
  have 1: "leads V F a (view V row ps (st @ [v])) (Suc a) (view V row ps (st @ [v] @ [v]))"
    using leads_Dup [OF c(1) st, of V row ps v] by simp
  have 2: "leads V F (Suc a) (view V row ps (st @ [v] @ [v])) (a + 2) (view V row ps ((st @ [v]) @ [BoolValue (IsNull v)]))"
    using leads_fixed_one [of V OpIsNull v "BoolValue (IsNull v)" F "Suc a" "st @ [v]" row ps] c(2) st by simp
  have 3: "leads V F (a + 2) (view V row ps ((st @ [v]) @ [BoolValue (IsNull v)])) (if IsNull v then a + 5 else a + 9)
      (view V row ps (st @ [v]))"
    using leads_JumpIfFalse [OF c(3,6), of V row ps "st @ [v]" "BoolValue (IsNull v)"]
    by (cases "IsNull v") (simp_all add: ac_simps)
  note to = leads_trans [OF leads_trans [OF 1 2] 3]
  show ?thesis
  proof (cases "IsNull v")
    case True
    have "halts V F (a + 5) (view V row ps (st @ [v])) (Inl (ErrStrictCast (name @ bs ''!''))) (state_ok V row ps)"
      using leads_halts [OF leads_Pop [OF c(4)] halts_StrictCastFail [of F "Suc (a + 5)" i V row ps st]] c(5,7) i
      by (simp add: ac_simps)
    then show ?thesis
      using leads_halts [OF to] True by (simp add: ends_def strict_cast_value_def)
  next
    case False
    then show ?thesis using to by (simp add: ends_def strict_cast_value_def)
  qed
qed

lemma emits_check:
  assumes "Suc d < StackSize"
  shows "emits V row k (Suc d) (strict_check name) (Suc d) (\<lambda>ps st. onto (take d st) (strict_cast_value name (drop d st ! 0)))"
proof (rule emitsI)
  fix p q assume "strict_check name p = Inr q"
  then have q: "q = p\<lparr>pr_Constants := pr_Constants p @ [StringValue (name @ bs ''!'')],
          pr_Instructions := pr_Instructions p @ check_code (Program_Len p) (length (pr_Constants p))\<rparr>"
    by (simp add: strict_check_code)
  have len: "length (check_code a i) = 9" for a i by (simp add: check_code_def)
  have "does V row k (Suc d) (Program_Len p) (check_code (Program_Len p) (length (pr_Constants p))) q (Suc d)
      (\<lambda>ps st. onto (take d st) (strict_cast_value name (drop d st ! 0)))"
    unfolding does_def
  proof (intro allI impI conjI)
    fix F and ps st st' :: "Value list"
    assume h: "code_at F (Program_Len p) (check_code (Program_Len p) (length (pr_Constants p)))" "pools_ext q F"
      "addressable F" "length ps = k" "length st = Suc d"
    have i: "length (pr_Constants p) < length (pr_Constants F) \<and> pr_Constants F ! length (pr_Constants p) = StringValue (name @ bs ''!'')"
      using h(2) q by (intro prefix_nth) (simp add: pools_ext_def)
    have st: "st = take d st @ [st ! d]" using h(5) by (simp add: take_Suc_conv_app_nth [symmetric])
    show "ends V F row ps (Program_Len p) st (Program_Len p + length (check_code (Program_Len p) (length (pr_Constants p))))
        (onto (take d st) (strict_cast_value name (drop d st ! 0)))"
      using ends_check [OF h(1,3), of name "take d st" V row ps "st ! d"] i st h(5) assms by (simp add: len)
    show "length st' = Suc d" if "onto (take d st) (strict_cast_value name (drop d st ! 0)) = Inr st'"
      using that h(5) by (auto simp: strict_cast_value_def split: if_splits)
  qed
  then show "\<exists>c. pr_Instructions q = pr_Instructions p @ c \<and> pools_ext p q \<and> does V row k (Suc d) (Program_Len p) c q (Suc d)
      (\<lambda>ps st. onto (take d st) (strict_cast_value name (drop d st ! 0)))"
    using q by (auto simp: pools_ext_def)
qed

lemma emits_StrictCast:
  assumes "emits_value V row k d f g" "fixed_arity V op = Some 1" "Suc d < StackSize"
  shows "emits_value V row k d (seq [f, emit op [], strict_check name])
    (\<lambda>ps. bind (bind (g ps) (\<lambda>v. fixed_value V op [v])) (strict_cast_value name))"
proof -
  have eq: "seq [f, emit op [], strict_check name] = seq [seq [f, emit op []], strict_check name]"
    by (simp add: seq_Cons_fun)
  show ?thesis
    unfolding eq
    using emits_op1 [where h = "\<lambda>ps vs. strict_cast_value name (vs ! 0)",
        OF emits_fixed1 [OF assms(1,2)] emits_check [OF assms(3)]] assms(3) by simp
qed

subsection \<open>Null tests\<close>

lemma same_ins: "pr_Instructions p = xs \<Longrightarrow> p\<lparr>pr_Instructions := xs\<rparr> = p"
  by auto

definition nullif_code :: "nat \<Rightarrow> bytes \<Rightarrow> bytes \<Rightarrow> bytes" where
  "nullif_code a c c' =
     (let b = a + length c; elsePos = b + 7; endPos = elsePos + length c' in
      c @ Make OpJumpIfFalse [elsePos] @ Make OpConstNull [] @ Make OpJump [endPos] @ c')"

lemma does_nullif_code:
  assumes c: "does V row k d a c q (Suc d) (\<lambda>ps st. onto st (g ps))"
    and c': "does V row k d (a + length c + 7) c' q (Suc d) (\<lambda>ps st. onto st (g' ps))" and d: "d < StackSize"
  shows "does V row k d a (nullif_code a c c') q (Suc d)
           (\<lambda>ps st. onto st (bind (g ps) (\<lambda>eq. if IsTruthy eq then Inr NullValue else g' ps)))"
proof (rule does_valueI)
  let ?b = "a + length c" and ?fin = "a + length c + 7 + length c'"
  fix F and ps st :: "Value list"
  assume h: "code_at F a (nullif_code a c c')" "pools_ext q F" "addressable F" "length ps = k" "length st = d"
  have fin: "a + length (nullif_code a c c') = ?fin" "?fin < 65536"
    using code_len_pos [OF h(1,3)] by (simp_all add: nullif_code_def Let_def)
  have code: "code_at F a c" "code_at F ?b (Make OpJumpIfFalse [?b + 7])" "code_at F (?b + 3) (Make OpConstNull [])"
    "code_at F (?b + 4) (Make OpJump [?fin])" "code_at F (?b + 7) c'"
    using h(1) by (simp_all add: nullif_code_def Let_def ac_simps)
  show "ends V F row ps a st (a + length (nullif_code a c c')) (onto st (bind (g ps) (\<lambda>eq. if IsTruthy eq then Inr NullValue else g' ps)))"
    unfolding fin
  proof (rule ends_onto_bind [OF doesD(1) [OF c code(1) h(2-5)]])
    fix v
    have j: "leads V F ?b (view V row ps (st @ [v])) (if IsTruthy v then ?b + 3 else ?b + 7) (view V row ps st)"
      using leads_JumpIfFalse [OF code(2), of V row ps st v] fin(2) by simp
    have "leads V F (?b + 3) (view V row ps st) ?fin (view V row ps (st @ [NullValue]))"
      using leads_trans [OF leads_control [OF code(3), of NullValue st V row ps] leads_Jump [of F "Suc (?b + 3)" ?fin]]
        code(4) fin(2) d h(5) by (simp add: ac_simps)
    then show "ends V F row ps ?b (st @ [v]) ?fin (onto st (if IsTruthy v then Inr NullValue else g' ps))"
      using ends_leads [OF j] doesD(1) [OF c' code(5) h(2-5)] by (cases "IsTruthy v") (simp_all add: ends_def [of _ _ _ _ "?b + 3"])
  qed
qed

lemma lfEmitNullIf_code:
  assumes f: "lfEmitNullIf c p = Inr q" and g: "grows (arg c 0)" "grows (seq [arg c 0, arg c 1, emit OpEqStrict []])"
  obtains p1 e p2 ceq c0 where "seq [arg c 0, arg c 1, emit OpEqStrict []] p = Inr p1" "pr_Instructions p1 = pr_Instructions p @ ceq"
    "arg c 0 (p1\<lparr>pr_Instructions := pr_Instructions p1 @ e\<rparr>) = Inr p2" "length e = 7"
    "pr_Instructions p2 = pr_Instructions p1 @ e @ c0"
    "q = p2\<lparr>pr_Instructions := pr_Instructions p @ nullif_code (Program_Len p) ceq c0\<rparr>"
proof -
  let ?e = "Make OpJumpIfFalse [0] @ Make OpConstNull [] @ Make OpJump [0]"
  obtain p1 where p1: "seq [arg c 0, arg c 1, emit OpEqStrict []] p = Inr p1"
    using f by (auto simp: lfEmitNullIf_def simp del: seq.simps elim: bind_InrE)
  obtain ceq where ceq: "pr_Instructions p1 = pr_Instructions p @ ceq" by (rule growsE [OF g(2) p1])
  obtain p2 where p2: "arg c 0 (p1\<lparr>pr_Instructions := pr_Instructions p1 @ ?e\<rparr>) = Inr p2"
    using f p1 by (auto simp: lfEmitNullIf_def EmitOp_def simp del: seq.simps elim: bind_InrE)
  obtain c0 where c0: "pr_Instructions p2 = pr_Instructions p1 @ ?e @ c0" by (rule growsE [OF g(1) p2]) auto
  let ?A = "pr_Instructions p @ ceq"
  let ?els = "length ?A + 7" and ?fin = "length ?A + 7 + length c0"
  have same: "p2\<lparr>pr_Instructions := ?A @ ?e @ c0\<rparr> = p2" by (rule same_ins) (simp add: c0 ceq)
  have "q = PatchUint16 (length ?A + 5) ?fin (PatchUint16 (Suc (length ?A)) ?els (p2\<lparr>pr_Instructions := ?A @ ?e @ c0\<rparr>))"
    using f p1 p2 unfolding same by (simp add: lfEmitNullIf_def EmitOp_def Program_Len_def Let_def ceq c0 ac_simps del: seq.simps)
  also have "\<dots> = p2\<lparr>pr_Instructions := ?A @ Make OpJumpIfFalse [?els] @ Make OpConstNull [] @ Make OpJump [?fin] @ c0\<rparr>"
    using patch_ins [of OpJumpIfFalse _ ?A ?els "Make OpConstNull [] @ Make OpJump [0] @ c0" p2]
      patch_ins [of OpJump _ "?A @ Make OpJumpIfFalse [?els] @ Make OpConstNull []" ?fin c0 p2] by (simp add: ac_simps)
  finally have "q = p2\<lparr>pr_Instructions := pr_Instructions p @ nullif_code (Program_Len p) ceq c0\<rparr>"
    by (simp add: nullif_code_def Let_def Program_Len_def ac_simps)
  then show ?thesis using that [OF p1 ceq p2 _ c0] by simp
qed

lemma emits_NullIf:
  assumes a: "emits_value V row k d (arg c 0) g0" and b: "emits_value V row k (Suc d) (arg c 1) g1" and d: "d < StackSize"
  shows "emits_value V row k d (lfEmitNullIf c)
    (\<lambda>ps. bind (g0 ps) (\<lambda>a. bind (bind (g1 ps) (strict_value (vl_go V) Binary_Eq a))
            (\<lambda>eq. Inr (if IsTruthy eq then NullValue else a))))"
proof (rule emits_cong_value [where g = "\<lambda>ps. bind (bind (g0 ps) (\<lambda>a. bind (g1 ps) (strict_value (vl_go V) Binary_Eq a)))
    (\<lambda>eq. if IsTruthy eq then Inr NullValue else g0 ps)"])
  let ?g = "\<lambda>ps. bind (g0 ps) (\<lambda>a. bind (g1 ps) (strict_value (vl_go V) Binary_Eq a))"
  have eq: "emits_value V row k d (seq [arg c 0, arg c 1, emit OpEqStrict []]) ?g"
    using emits_fixed2 [OF a b _ d, of OpEqStrict] by simp
  show "emits_value V row k d (lfEmitNullIf c) (\<lambda>ps. bind (?g ps) (\<lambda>eq. if IsTruthy eq then Inr NullValue else g0 ps))"
  proof (rule emitsI)
    fix p q assume "lfEmitNullIf c p = Inr q"
    then obtain p1 e p2 ceq c0 where p1: "seq [arg c 0, arg c 1, emit OpEqStrict []] p = Inr p1" "pr_Instructions p1 = pr_Instructions p @ ceq"
      and p2: "arg c 0 (p1\<lparr>pr_Instructions := pr_Instructions p1 @ e\<rparr>) = Inr p2" "length e = 7"
        "pr_Instructions p2 = pr_Instructions p1 @ e @ c0"
      and q: "q = p2\<lparr>pr_Instructions := pr_Instructions p @ nullif_code (Program_Len p) ceq c0\<rparr>"
      by (rule lfEmitNullIf_code [OF _ emits_grows [OF a] emits_grows [OF eq]])
    note 1 = emitsD [OF eq p1]
    have 2: "pools_ext p1 p2" "does V row k d (Program_Len p + length ceq + 7) c0 p2 (Suc d) (\<lambda>ps st. onto st (g0 ps))"
      using emitsD [OF a p2(1), of c0] p2(2,3) p1(2) by (simp_all add: Program_Len_def ac_simps)
    show "\<exists>c. pr_Instructions q = pr_Instructions p @ c \<and> pools_ext p q \<and> does V row k d (Program_Len p) c q (Suc d)
        (\<lambda>ps st. onto st (bind (?g ps) (\<lambda>eq. if IsTruthy eq then Inr NullValue else g0 ps)))"
      using does_nullif_code [OF does_mono [OF 1(2) 2(1)] 2(2) d] q 1(1) 2(1) by (auto intro: pools_ext_trans)
  qed
  show "bind (?g ps) (\<lambda>eq. if IsTruthy eq then Inr NullValue else g0 ps) =
    bind (g0 ps) (\<lambda>a. bind (bind (g1 ps) (strict_value (vl_go V) Binary_Eq a)) (\<lambda>eq. Inr (if IsTruthy eq then NullValue else a)))" for ps
    by (cases "g0 ps") (simp_all add: if_distrib cong: if_cong)
qed

text \<open>The test of a field: missing fields are not null.\<close>

definition is_null_code :: "nat \<Rightarrow> nat \<Rightarrow> bytes" where
  "is_null_code a i =
     Make OpFieldMissing [i] @ Make OpNot3VL [] @ Make OpJumpIfFalse [a + 14] @ Make OpLoadField [i] @ Make OpIsNull []
       @ Make OpJump [a + 15] @ Make OpConstFalse []"

lemma is_null_field_code:
  assumes "AddFieldName name p = (i, p1)"
  shows "is_null_field name p = Inr (p1\<lparr>pr_Instructions := pr_Instructions p @ is_null_code (Program_Len p) i\<rparr>)"
proof -
  let ?a = "Program_Len p"
  let ?xs = "pr_Instructions p @ Make OpFieldMissing [i] @ Make OpNot3VL []"
  let ?ys = "Make OpLoadField [i] @ Make OpIsNull []"
  have i: "pr_Instructions p1 = pr_Instructions p" by (rule AddFieldName_ext [OF assms])
  have 1: "PatchUint16 (?a + 5) (?a + 14) (p1\<lparr>pr_Instructions := ?xs @ Make OpJumpIfFalse [0] @ ?ys @ Make OpJump [0] @ Make OpConstFalse []\<rparr>) =
      p1\<lparr>pr_Instructions := ?xs @ Make OpJumpIfFalse [?a + 14] @ ?ys @ Make OpJump [0] @ Make OpConstFalse []\<rparr>"
    by (rule patch_ins) (simp_all add: Program_Len_def)
  have 2: "PatchUint16 (?a + 12) (?a + 15)
      (p1\<lparr>pr_Instructions := (?xs @ Make OpJumpIfFalse [?a + 14] @ ?ys) @ Make OpJump [0] @ Make OpConstFalse []\<rparr>) =
      p1\<lparr>pr_Instructions := (?xs @ Make OpJumpIfFalse [?a + 14] @ ?ys) @ Make OpJump [?a + 15] @ Make OpConstFalse []\<rparr>"
    by (rule patch_ins) (simp_all add: Program_Len_def)
  show ?thesis
    using 1 2
    by (simp add: is_null_field_def assms EmitOp_def Program_Len_def i is_null_code_def Let_def numeral_eq_Suc)
qed

lemma ends_is_null_code:
  assumes code: "code_at F a (is_null_code a i)" and F: "addressable F" and i: "i < length (pr_FieldNames F)"
    "pr_FieldNames F ! i = name" and st: "length st < StackSize"
  shows "ends V F row ps a st (a + 15) (Inr (st @ [BoolValue (row name = Some NullValue)]))"
proof -
  have c: "code_at F a (Make OpFieldMissing [i])" "code_at F (a + 3) (Make OpNot3VL [])" "code_at F (a + 4) (Make OpJumpIfFalse [a + 14])"
    "code_at F (a + 7) (Make OpLoadField [i])" "code_at F (a + 10) (Make OpIsNull [])" "code_at F (a + 11) (Make OpJump [a + 15])"
    "code_at F (a + 14) (Make OpConstFalse [])" "a + 15 < 65536" "i < 65536"
    using code i F code_len_pos [OF code F] by (simp_all add: is_null_code_def ac_simps addressable_def)
  let ?m = "row name = None"
  have 1: "leads V F a (view V row ps st) (a + 3) (view V row ps (st @ [BoolValue ?m]))"
    using leads_FieldMissing [OF c(1,9) i(1) st, of V row ps] i(2) by simp
  have 2: "leads V F (a + 3) (view V row ps (st @ [BoolValue ?m])) (a + 4) (view V row ps (st @ [BoolValue (\<not> ?m)]))"
    using leads_fixed_one [of V OpNot3VL "BoolValue ?m" "BoolValue (\<not> ?m)" F "a + 3" st row ps] c(2) st
    by (simp add: unary_value_def quietly_def ac_simps)
  have 3: "leads V F (a + 4) (view V row ps (st @ [BoolValue (\<not> ?m)])) (if ?m then a + 14 else a + 7) (view V row ps st)"
    using leads_JumpIfFalse [OF c(3), of V row ps st "BoolValue (\<not> ?m)"] c(8) by (cases "row name") (simp_all add: ac_simps)
  note to = leads_trans [OF leads_trans [OF 1 2] 3]
  show ?thesis
  proof (cases ?m)
    case True
    then show ?thesis
      using leads_trans [OF to] leads_control [OF c(7), of "BoolValue False" st V row ps] st
      by (simp add: ends_def ac_simps)
  next
    case False
    then obtain v where v: "row name = Some v" by auto
    have "leads V F (a + 7) (view V row ps st) (a + 10) (view V row ps (st @ [v]))"
      using leads_LoadField [OF c(4,9) i(1) st, of V row ps] i(2) v by (simp add: load_value_def ac_simps)
    moreover have "leads V F (a + 10) (view V row ps (st @ [v])) (a + 11) (view V row ps (st @ [BoolValue (IsNull v)]))"
      using leads_fixed_one [of V OpIsNull v _ F "a + 10" st row ps] c(5) st by (simp add: ac_simps)
    moreover have "leads V F (a + 11) (view V row ps (st @ [BoolValue (IsNull v)])) (a + 15) (view V row ps (st @ [BoolValue (IsNull v)]))"
      by (rule leads_Jump [OF c(6,8)])
    ultimately show ?thesis
      using to v by (cases v) (auto simp: ends_def intro: leads_trans)
  qed
qed

lemma emits_is_null_field:
  assumes "d < StackSize"
  shows "emits_value V row k d (is_null_field name) (\<lambda>ps. Inr (BoolValue (row name = Some NullValue)))"
proof (rule emitsI)
  fix p q assume f: "is_null_field name p = Inr q"
  obtain i p1 where i: "AddFieldName name p = (i, p1)" by (cases "AddFieldName name p")
  note ext = AddFieldName_ext [OF i]
  have q: "q = p1\<lparr>pr_Instructions := pr_Instructions p @ is_null_code (Program_Len p) i\<rparr>"
    using f is_null_field_code [OF i] by simp
  have "does V row k d (Program_Len p) (is_null_code (Program_Len p) i) p1 (Suc d)
      (\<lambda>ps st. onto st (Inr (BoolValue (row name = Some NullValue))))"
  proof (rule does_valueI)
    fix F and ps st :: "Value list"
    assume h: "code_at F (Program_Len p) (is_null_code (Program_Len p) i)" "pools_ext p1 F" "addressable F" "length st = d"
    then show "ends V F row ps (Program_Len p) st (Program_Len p + length (is_null_code (Program_Len p) i))
        (onto st (Inr (BoolValue (row name = Some NullValue))))"
      using ends_is_null_code [OF h(1,3)] ext(3) [OF h(2)] assms by (simp add: is_null_code_def)
  qed
  then show "\<exists>c. pr_Instructions q = pr_Instructions p @ c \<and> pools_ext p q \<and> does V row k d (Program_Len p) c q (Suc d)
      (\<lambda>ps st. onto st (Inr (BoolValue (row name = Some NullValue))))"
    using q ext(2) by auto
qed

subsection \<open>Case\<close>

text \<open>Code whose jumps to the end, at the positions \<open>js\<close>, are patched when the end is known.\<close>

definition late :: "nat \<Rightarrow> (nat \<Rightarrow> bytes) \<Rightarrow> nat list \<Rightarrow> bool" where
  "late a code js \<longleftrightarrow>
     (\<forall>v. length (code v) = length (code 0)) \<and>
     (\<forall>v xs w r. length xs = a \<longrightarrow>
        foldl (\<lambda>q je. PatchUint16 (je + 1) v q) (r\<lparr>pr_Instructions := xs @ code 0 @ w\<rparr>) js =
        r\<lparr>pr_Instructions := xs @ code v @ w\<rparr>)"

lemma lateD:
  assumes "late a code js" "length xs = a"
  shows "foldl (\<lambda>q je. PatchUint16 (je + 1) v q) (r\<lparr>pr_Instructions := xs @ code 0 @ w\<rparr>) js =
    r\<lparr>pr_Instructions := xs @ code v @ w\<rparr>"
  using assms unfolding late_def by blast

abbreviation arm_code :: "nat \<Rightarrow> bytes \<Rightarrow> bytes \<Rightarrow> nat \<Rightarrow> bytes" where
  "arm_code a c c' v \<equiv> c @ Make OpJumpIfFalse [a + length c + 6 + length c'] @ c' @ Make OpJump [v]"

lemma late_const: "late a (\<lambda>v. c) []"
  by (simp add: late_def)

lemma late_arm:
  assumes "late (a + length c + 6 + length c') code js"
  shows "late a (\<lambda>v. arm_code a c c' v @ code v) ((a + length c + 3 + length c') # js)"
  unfolding late_def
proof (intro conjI allI impI)
  fix v show "length (arm_code a c c' v @ code v) = length (arm_code a c c' 0 @ code 0)"
    using assms by (simp add: late_def)
next
  fix v w and xs :: bytes and r :: Program
  assume xs: "length xs = a"
  let ?x = "c @ Make OpJumpIfFalse [a + length c + 6 + length c'] @ c'"
  have "PatchUint16 (a + length c + 3 + length c' + 1) v (r\<lparr>pr_Instructions := (xs @ ?x) @ Make OpJump [0] @ code 0 @ w\<rparr>) =
      r\<lparr>pr_Instructions := (xs @ ?x) @ Make OpJump [v] @ code 0 @ w\<rparr>"
    by (rule patch_ins) (simp_all add: xs)
  moreover have "foldl (\<lambda>q je. PatchUint16 (je + 1) v q) (r\<lparr>pr_Instructions := (xs @ ?x @ Make OpJump [v]) @ code 0 @ w\<rparr>) js =
      r\<lparr>pr_Instructions := (xs @ ?x @ Make OpJump [v]) @ code v @ w\<rparr>"
    by (rule lateD [OF assms]) (simp add: xs)
  ultimately show "foldl (\<lambda>q je. PatchUint16 (je + 1) v q) (r\<lparr>pr_Instructions := xs @ (arm_code a c c' 0 @ code 0) @ w\<rparr>)
      ((a + length c + 3 + length c') # js) = r\<lparr>pr_Instructions := xs @ (arm_code a c c' v @ code v) @ w\<rparr>"
    by simp
qed

lemma does_arm:
  assumes c: "does V row k d a c q (Suc d) (\<lambda>ps st. onto st (g ps))"
    and c': "does V row k d (a + length c + 3) c' q (Suc d) (\<lambda>ps st. onto st (g' ps))"
    and r: "does V row k d (a + length c + 6 + length c') code q (Suc d) (\<lambda>ps st. onto st (h ps))"
    and v: "v = a + length c + 6 + length c' + length code"
  shows "does V row k d a (arm_code a c c' v @ code) q (Suc d)
           (\<lambda>ps st. onto st (bind (g ps) (\<lambda>x. if IsTruthy x then g' ps else h ps)))"
proof (rule does_valueI)
  let ?b = "a + length c" and ?next = "a + length c + 6 + length c'"
  fix F and ps st :: "Value list"
  assume code: "code_at F a (arm_code a c c' v @ code)" and F: "pools_ext q F" "addressable F" "length ps = k" "length st = d"
  have fin: "a + length (arm_code a c c' v @ code) = v" "v < 65536" "?next < 65536"
    using code_len_pos [OF code F(2)] v by simp_all
  have p: "code_at F a c" "code_at F ?b (Make OpJumpIfFalse [?next])" "code_at F (?b + 3) c'"
    "code_at F (?b + 3 + length c') (Make OpJump [v])" "code_at F ?next code"
    using code by (simp_all add: ac_simps)
  show "ends V F row ps a st (a + length (arm_code a c c' v @ code)) (onto st (bind (g ps) (\<lambda>x. if IsTruthy x then g' ps else h ps)))"
    unfolding fin(1)
  proof (rule ends_onto_bind [OF doesD(1) [OF c p(1) F]])
    fix x
    have j: "leads V F ?b (view V row ps (st @ [x])) (if IsTruthy x then ?b + 3 else ?next) (view V row ps st)"
      by (rule leads_JumpIfFalse [OF p(2) fin(3)])
    have "ends V F row ps (?b + 3) st v (onto st (g' ps))"
      by (rule ends_then_leads [OF doesD(1) [OF c' p(3) F] leads_Jump [OF p(4) fin(2)]])
    moreover have "ends V F row ps ?next st v (onto st (h ps))"
      using doesD(1) [OF r p(5) F] v by simp
    ultimately show "ends V F row ps ?b (st @ [x]) v (onto st (if IsTruthy x then g' ps else h ps))"
      using ends_leads [OF j] by simp
  qed
qed

lemma case_arms_Cons:
  assumes f: "case_arms (cond # val # rest) js p = Inr (js', p')" and g: "grows cond" "grows val"
  obtains p1 p3 c c' where "cond p = Inr p1" "pr_Instructions p1 = pr_Instructions p @ c"
    "val (p1\<lparr>pr_Instructions := pr_Instructions p1 @ Make OpJumpIfFalse [0]\<rparr>) = Inr p3"
    "pr_Instructions p3 = pr_Instructions p1 @ Make OpJumpIfFalse [0] @ c'"
    "case_arms rest (js @ [Program_Len p + length c + 3 + length c'])
       (p3\<lparr>pr_Instructions := pr_Instructions p @ arm_code (Program_Len p) c c' 0\<rparr>) = Inr (js', p')"
proof -
  obtain p1 where p1: "cond p = Inr p1" using f by (auto elim: bind_InrE)
  obtain c where c: "pr_Instructions p1 = pr_Instructions p @ c" by (rule growsE [OF g(1) p1])
  let ?p2 = "p1\<lparr>pr_Instructions := pr_Instructions p1 @ Make OpJumpIfFalse [0]\<rparr>"
  obtain p3 where p3: "val ?p2 = Inr p3" using f p1 by (auto simp: EmitOp_def elim: bind_InrE)
  obtain c' where c': "pr_Instructions p3 = pr_Instructions ?p2 @ c'" by (rule growsE [OF g(2) p3])
  have "PatchUint16 (Suc (length (pr_Instructions p @ c))) (Program_Len p + length c + 6 + length c')
      (p3\<lparr>pr_Instructions := (pr_Instructions p @ c) @ Make OpJumpIfFalse [0] @ c' @ Make OpJump [0]\<rparr>) =
      p3\<lparr>pr_Instructions := (pr_Instructions p @ c) @ Make OpJumpIfFalse [Program_Len p + length c + 6 + length c'] @ c' @ Make OpJump [0]\<rparr>"
    by (rule patch_ins) simp_all
  then have "case_arms rest (js @ [Program_Len p + length c + 3 + length c'])
       (p3\<lparr>pr_Instructions := pr_Instructions p @ arm_code (Program_Len p) c c' 0\<rparr>) = Inr (js', p')"
    using f p1 p3 by (simp add: EmitOp_def Let_def c c' Program_Len_def ac_simps)
  then show ?thesis using that [OF p1 c p3] c' by simp
qed

lemma arm_of_value:
  assumes "emits_value V row k d f g" "f p = Inr q"
  shows "\<exists>code js. [] = js \<and> late (Program_Len p) code js \<and> pools_ext p q \<and> pr_Instructions q = pr_Instructions p @ code 0 \<and>
    does V row k d (Program_Len p) (code (Program_Len q)) q (Suc d) (\<lambda>ps st. onto st (g ps))"
proof -
  obtain c where "pr_Instructions q = pr_Instructions p @ c" "pools_ext p q"
    "does V row k d (Program_Len p) c q (Suc d) (\<lambda>ps st. onto st (g ps))"
    by (rule emitsE [OF assms])
  then show ?thesis by (intro exI [of _ "\<lambda>v. c"] exI [of _ "[]"]) (simp add: late_const)
qed

lemma case_arms_does:
  assumes "case_arms fs js0 p = Inr (js', p')" "length gs = length fs" "\<forall>i < length fs. emits_value V row k d (fs ! i) (gs ! i)"
    "d < StackSize"
  shows "\<exists>code js. js' = js0 @ js \<and> late (Program_Len p) code js \<and> pools_ext p p' \<and>
    pr_Instructions p' = pr_Instructions p @ code 0 \<and>
    does V row k d (Program_Len p) (code (Program_Len p')) p' (Suc d) (\<lambda>ps st. onto st (case_value (map (\<lambda>g. g ps) gs)))"
  using assms
proof (induction fs arbitrary: js0 p gs js' p' rule: induct_list012)
  case 1
  then have "js' = js0" "emit OpConstNull [] p = Inr p'" by (auto elim!: bind_InrE)
  then show ?case
    using arm_of_value [OF emits_control [of OpConstNull NullValue d V row k], of p p'] 1 by simp
next
  case (2 f)
  then obtain g where g: "gs = [g]" by (auto simp: length_Suc_conv)
  have "js' = js0" "f p = Inr p'" using 2(1) by (auto elim!: bind_InrE)
  then show ?case
    using arm_of_value [of V row k d f g p p'] 2 g by simp
next
  case (3 cond val rest)
  obtain g g' gs' where gs: "gs = g # g' # gs'" "length gs' = length rest"
    using "3.prems"(2) by (auto simp: length_Suc_conv)
  have e: "emits_value V row k d cond g" "emits_value V row k d val g'" "\<forall>i < length rest. emits_value V row k d (rest ! i) (gs' ! i)"
    using "3.prems"(3) gs by (auto simp: All_less_Suc2)
  obtain p1 p3 c c' where p1: "cond p = Inr p1" "pr_Instructions p1 = pr_Instructions p @ c"
    and p3: "val (p1\<lparr>pr_Instructions := pr_Instructions p1 @ Make OpJumpIfFalse [0]\<rparr>) = Inr p3"
      "pr_Instructions p3 = pr_Instructions p1 @ Make OpJumpIfFalse [0] @ c'"
    and r: "case_arms rest (js0 @ [Program_Len p + length c + 3 + length c'])
       (p3\<lparr>pr_Instructions := pr_Instructions p @ arm_code (Program_Len p) c c' 0\<rparr>) = Inr (js', p')"
    by (rule case_arms_Cons [OF "3.prems"(1) emits_grows [OF e(1)] emits_grows [OF e(2)]])
  let ?next = "Program_Len p + length c + 6 + length c'"
  have start: "Program_Len (p3\<lparr>pr_Instructions := pr_Instructions p @ arm_code (Program_Len p) c c' 0\<rparr>) = ?next"
    by (simp add: Program_Len_def)
  obtain code js where IH: "js' = (js0 @ [Program_Len p + length c + 3 + length c']) @ js" "late ?next code js" "pools_ext p3 p'"
    "pr_Instructions p' = (pr_Instructions p @ arm_code (Program_Len p) c c' 0) @ code 0"
    "does V row k d ?next (code (Program_Len p')) p' (Suc d) (\<lambda>ps st. onto st (case_value (map (\<lambda>g. g ps) gs')))"
    using "3.IH"(1) [OF r gs(2) e(3) "3.prems"(4)] unfolding start by auto
  note 1 = emitsD [OF e(1) p1]
  have 2: "pools_ext p1 p3" "does V row k d (Program_Len p + length c + 3) c' p3 (Suc d) (\<lambda>ps st. onto st (g' ps))"
    using emitsD [OF e(2) p3(1), of c'] p3(2) p1(2) by (simp_all add: Program_Len_def ac_simps)
  have len: "Program_Len p' = Program_Len p + length c + 6 + length c' + length (code (Program_Len p'))"
  proof -
    have "length (code (Program_Len p')) = length (code 0)" using IH(2) unfolding late_def by blast
    then show ?thesis using IH(4) by (simp add: Program_Len_def)
  qed
  have "does V row k d (Program_Len p) (arm_code (Program_Len p) c c' (Program_Len p') @ code (Program_Len p')) p' (Suc d)
      (\<lambda>ps st. onto st (bind (g ps) (\<lambda>x. if IsTruthy x then g' ps else case_value (map (\<lambda>g. g ps) gs'))))"
    using 1 2 IH(3,5) by (intro does_arm [OF _ _ _ len]) (auto intro: does_mono pools_ext_trans)
  then show ?case
    using IH late_arm [OF IH(2)] 1(1) 2(1) gs
    by (intro exI [of _ "\<lambda>v. arm_code (Program_Len p) c c' v @ code v"] exI [of _ "(Program_Len p + length c + 3 + length c') # js"])
       (auto intro: pools_ext_trans)
qed

lemma emits_Case:
  assumes "length gs = length (ca_emit c)" "\<forall>i < length (ca_emit c). emits_value V row k d (arg c i) (gs ! i)" "d < StackSize"
  shows "emits_value V row k d (lfEmitCase c) (\<lambda>ps. case_value (map (\<lambda>g. g ps) gs))"
proof (rule emitsI)
  fix p q assume "lfEmitCase c p = Inr q"
  then obtain js p' where c: "case_arms (ca_emit c) [] p = Inr (js, p')"
    and q: "q = foldl (\<lambda>q je. PatchUint16 (je + 1) (Program_Len p') q) p' js"
    by (auto simp: lfEmitCase_def elim!: bind_InrE)
  obtain code where code: "late (Program_Len p) code js" "pools_ext p p'" "pr_Instructions p' = pr_Instructions p @ code 0"
    "does V row k d (Program_Len p) (code (Program_Len p')) p' (Suc d) (\<lambda>ps st. onto st (case_value (map (\<lambda>g. g ps) gs)))"
    using case_arms_does [OF c assms] by auto
  have "q = p'\<lparr>pr_Instructions := pr_Instructions p @ code (Program_Len p')\<rparr>"
    using lateD [OF code(1), of "pr_Instructions p" "Program_Len p'" "[]" p'] same_ins [OF code(3)] q
    by (simp add: Program_Len_def)
  then show "\<exists>c. pr_Instructions q = pr_Instructions p @ c \<and> pools_ext p q \<and> does V row k d (Program_Len p) c q (Suc d)
      (\<lambda>ps st. onto st (case_value (map (\<lambda>g. g ps) gs)))"
    using code by auto
qed

end
