(* ===== verification/LF_Lambdas.thy ===== *)
theory LF_Lambdas
  imports LF_Calls
begin

text \<open>
  Code in last position and lambdas: the body of a lambda is a program of its own, the loops over an
  array run it once for every element they need.
\<close>

subsection \<open>Code in last position\<close>

text \<open>What is below the value on top of the stack does not matter.\<close>

definition topped :: "vm_lib \<Rightarrow> row \<Rightarrow> Value list \<Rightarrow> Value \<Rightarrow> VM \<Rightarrow> bool" where
  "topped V row ps v s \<longleftrightarrow> (\<exists>st. view V row ps (st @ [v]) s)"

definition ends_tail :: "vm_lib \<Rightarrow> Program \<Rightarrow> row \<Rightarrow> Value list \<Rightarrow> nat \<Rightarrow> Value list \<Rightarrow> nat \<Rightarrow> denotation \<Rightarrow> bool" where
  "ends_tail V F row ps a st b r =
     (case r of
        Inl e \<Rightarrow> halts V F a (view V row ps st) (Inl e) (state_ok V row ps)
      | Inr v \<Rightarrow> leads V F a (view V row ps st) b (topped V row ps v))"

definition does_tail ::
  "vm_lib \<Rightarrow> row \<Rightarrow> nat \<Rightarrow> nat \<Rightarrow> nat \<Rightarrow> bytes \<Rightarrow> Program \<Rightarrow> (Value list \<Rightarrow> denotation) \<Rightarrow> bool"
where
  "does_tail V row k d a c q g \<longleftrightarrow>
     (\<forall>F ps st. code_at F a c \<longrightarrow> pools_ext q F \<longrightarrow> addressable F \<longrightarrow> length ps = k \<longrightarrow> length st = d \<longrightarrow>
        ends_tail V F row ps a st (a + length c) (g ps))"

definition emits_tail :: "vm_lib \<Rightarrow> row \<Rightarrow> nat \<Rightarrow> nat \<Rightarrow> emitter \<Rightarrow> (Value list \<Rightarrow> denotation) \<Rightarrow> bool" where
  "emits_tail V row k d f g \<longleftrightarrow>
     (\<forall>p q. f p = Inr q \<longrightarrow>
       (\<exists>c. pr_Instructions q = pr_Instructions p @ c \<and> pools_ext p q \<and> does_tail V row k d (Program_Len p) c q g))"

lemma does_tailD:
  "does_tail V row k d a c q g \<Longrightarrow> code_at F a c \<Longrightarrow> pools_ext q F \<Longrightarrow> addressable F \<Longrightarrow> length ps = k \<Longrightarrow> length st = d \<Longrightarrow>
   ends_tail V F row ps a st (a + length c) (g ps)"
  by (simp add: does_tail_def)

lemma does_tail_mono: "does_tail V row k d a c q g \<Longrightarrow> pools_ext q q' \<Longrightarrow> does_tail V row k d a c q' g"
  unfolding does_tail_def by (blast intro: pools_ext_trans)

lemma does_tail_ins [simp]: "does_tail V row k d a c (q\<lparr>pr_Instructions := i\<rparr>) g = does_tail V row k d a c q g"
  by (simp add: does_tail_def)

lemma emits_tailD:
  assumes "emits_tail V row k d f g" "f p = Inr q" "pr_Instructions q = pr_Instructions p @ c"
  shows "pools_ext p q" "does_tail V row k d (Program_Len p) c q g"
  using assms unfolding emits_tail_def by (metis same_append_eq)+

lemma emits_tail_grows: "emits_tail V row k d f g \<Longrightarrow> grows f"
  by (auto simp: emits_tail_def grows_def)

lemma view_topped: "view V row ps (st @ [v]) s \<Longrightarrow> topped V row ps v s"
  by (auto simp: topped_def)

lemma leads_weaken: "leads V F a A b B \<Longrightarrow> (\<And>s. B s \<Longrightarrow> C s) \<Longrightarrow> leads V F a A b C"
  unfolding leads_def by blast

lemma ends_tail_of_ends: "ends V F row ps a st b (onto st r) \<Longrightarrow> ends_tail V F row ps a st b r"
  by (cases r) (auto simp: ends_def ends_tail_def intro: leads_weaken view_topped)

lemma emits_tail_of_value:
  assumes "emits_value V row k d f g"
  shows "emits_tail V row k d f g"
  unfolding emits_tail_def
proof (intro allI impI)
  fix p q assume "f p = Inr q"
  then obtain c where "pr_Instructions q = pr_Instructions p @ c" "pools_ext p q"
    "does V row k d (Program_Len p) c q (Suc d) (\<lambda>ps st. onto st (g ps))"
    by (rule emitsE [OF assms])
  then show "\<exists>c. pr_Instructions q = pr_Instructions p @ c \<and> pools_ext p q \<and> does_tail V row k d (Program_Len p) c q g"
    by (auto simp: does_tail_def intro: ends_tail_of_ends doesD(1))
qed

lemma ends_tail_leads:
  "leads V F a (view V row ps st) b (view V row ps st') \<Longrightarrow> ends_tail V F row ps b st' c r \<Longrightarrow> ends_tail V F row ps a st c r"
  by (cases r) (auto simp: ends_tail_def intro: leads_trans leads_halts)

lemma ends_tail_jump:
  "ends_tail V F row ps a st b r \<Longrightarrow> code_at F b (Make OpJump [t]) \<Longrightarrow> t < 65536 \<Longrightarrow> ends_tail V F row ps a st t r"
  by (cases r) (auto simp: ends_tail_def intro: leads_trans leads_Jump)

lemma ends_tail_bind:
  assumes "ends V F row ps a st b (onto st r)" "\<And>v. r = Inr v \<Longrightarrow> ends_tail V F row ps b (st @ [v]) c (h v)"
  shows "ends_tail V F row ps a st c (bind r h)"
proof (cases r)
  case (Inl e)
  then show ?thesis using assms(1) by (simp add: ends_def ends_tail_def)
next
  case (Inr v)
  then show ?thesis using assms(1) assms(2) [OF Inr] by (auto simp: ends_def intro: ends_tail_leads)
qed

subsection \<open>Conditionals\<close>

definition if_code :: "nat \<Rightarrow> bytes \<Rightarrow> bytes \<Rightarrow> bytes \<Rightarrow> bytes" where
  "if_code a c ct ce =
     (let b = a + length c; falseLabel = b + 10 + length ct; nullLabel = falseLabel + length ce + 3; endLabel = nullLabel + 2 in
      c @ Make OpDup [] @ Make OpJumpIfNull3VL [nullLabel] @ Make OpJumpIfFalse [falseLabel] @ ct @ Make OpJump [endLabel]
        @ ce @ Make OpJump [endLabel] @ Make OpPop [] @ Make OpConstNull [])"

lemma does_if_code:
  assumes c: "does V row k d a c q (Suc d) (\<lambda>ps st. onto st (g ps))"
    and t: "does_tail V row k (Suc d) (a + length c + 7) ct q gt"
    and e: "does_tail V row k (Suc d) (a + length c + 10 + length ct) ce q ge" and d: "Suc d < StackSize"
  shows "does_tail V row k d a (if_code a c ct ce) q (\<lambda>ps. if_value (g ps) (gt ps) (ge ps))"
  unfolding does_tail_def
proof (intro allI impI)
  let ?b = "a + length c"
  let ?false = "?b + 10 + length ct"
  let ?null = "?false + length ce + 3"
  fix F and ps st :: "Value list"
  assume code: "code_at F a (if_code a c ct ce)" and F: "pools_ext q F" "addressable F" "length ps = k" "length st = d"
  have fin: "a + length (if_code a c ct ce) = ?null + 2" "?null + 2 < 65536"
    using code_len_pos [OF code F(2)] by (simp_all add: if_code_def Let_def)
  have p: "code_at F a c" "code_at F ?b (Make OpDup [])" "code_at F (?b + 1) (Make OpJumpIfNull3VL [?null])"
    "code_at F (?b + 4) (Make OpJumpIfFalse [?false])" "code_at F (?b + 7) ct" "code_at F (?b + 7 + length ct) (Make OpJump [?null + 2])"
    "code_at F ?false ce" "code_at F (?false + length ce) (Make OpJump [?null + 2])" "code_at F ?null (Make OpPop [])"
    "code_at F (?null + 1) (Make OpConstNull [])"
    using code by (simp_all add: if_code_def Let_def ac_simps)
  show "ends_tail V F row ps a st (a + length (if_code a c ct ce)) (if_value (g ps) (gt ps) (ge ps))"
    unfolding fin(1) if_value_def
  proof (rule ends_tail_bind [OF doesD(1) [OF c p(1) F]])
    fix v
    have 1: "leads V F ?b (view V row ps (st @ [v])) (?b + 1) (view V row ps ((st @ [v]) @ [v]))"
      using leads_Dup [OF p(2), of st V row ps v] F(4) d by simp
    show "ends_tail V F row ps ?b (st @ [v]) (?null + 2) (if IsNull v then Inr NullValue else if IsTruthy v then gt ps else ge ps)"
    proof (cases "IsNull v")
      case True
      have 2: "leads V F (?b + 1) (view V row ps ((st @ [v]) @ [v])) ?null (view V row ps (st @ [v]))"
        using leads_JumpIfNull3VL [OF p(3), of V row ps "st @ [v]" v] fin(2) True by simp
      have 3: "leads V F ?null (view V row ps (st @ [v])) (?null + 2) (view V row ps (st @ [NullValue]))"
        using leads_trans [OF leads_Pop [OF p(9)] leads_control [of F "Suc ?null" OpConstNull NullValue st V row ps]] p(10) F(4) d
        by (simp add: ac_simps)
      show ?thesis
        using leads_weaken [OF leads_trans [OF leads_trans [OF 1 2] 3] view_topped] True by (simp add: ends_tail_def)
    next
      case False
      have 2: "leads V F (?b + 1) (view V row ps ((st @ [v]) @ [v])) (?b + 4) (view V row ps ((st @ [v]) @ [v]))"
        using leads_JumpIfNull3VL [OF p(3), of V row ps "st @ [v]" v] fin(2) False by (simp add: ac_simps)
      have 3: "leads V F (?b + 4) (view V row ps ((st @ [v]) @ [v])) (if IsTruthy v then ?b + 7 else ?false) (view V row ps (st @ [v]))"
        using leads_JumpIfFalse [OF p(4), of V row ps "st @ [v]" v] fin(2) by (cases "IsTruthy v") (simp_all add: ac_simps)
      have len: "length (st @ [v]) = Suc d" using F(4) by simp
      have "ends_tail V F row ps (if IsTruthy v then ?b + 7 else ?false) (st @ [v]) (?null + 2) (if IsTruthy v then gt ps else ge ps)"
        using ends_tail_jump [OF does_tailD [OF t p(5) F(1-3) len] p(6) fin(2)]
          ends_tail_jump [OF does_tailD [OF e p(7) F(1-3) len] p(8) fin(2)] by simp
      then show ?thesis
        using False ends_tail_leads [OF leads_trans [OF leads_trans [OF 1 2] 3]] by simp
    qed
  qed
qed

lemma lfEmitIf_code:
  assumes f: "lfEmitIf c p = Inr q" and g: "grows (arg c 0)" "grows (arg c 1)" "grows (arg c 2)"
  obtains p1 e p2 e' p3 cc ct ce where
    "arg c 0 p = Inr p1" "pr_Instructions p1 = pr_Instructions p @ cc"
    "arg c 1 (p1\<lparr>pr_Instructions := pr_Instructions p1 @ e\<rparr>) = Inr p2" "length e = 7"
    "pr_Instructions p2 = pr_Instructions p1 @ e @ ct"
    "arg c 2 (p2\<lparr>pr_Instructions := pr_Instructions p2 @ e'\<rparr>) = Inr p3" "length e' = 3"
    "pr_Instructions p3 = pr_Instructions p2 @ e' @ ce"
    "q = p3\<lparr>pr_Instructions := pr_Instructions p @ if_code (Program_Len p) cc ct ce\<rparr>"
proof -
  let ?e = "Make OpDup [] @ Make OpJumpIfNull3VL [0] @ Make OpJumpIfFalse [0]" and ?e' = "Make OpJump [0]"
  obtain p1 where p1: "arg c 0 p = Inr p1" using f by (auto simp: lfEmitIf_def elim: bind_InrE)
  obtain cc where cc: "pr_Instructions p1 = pr_Instructions p @ cc" by (rule growsE [OF g(1) p1])
  obtain p2 where p2: "arg c 1 (p1\<lparr>pr_Instructions := pr_Instructions p1 @ ?e\<rparr>) = Inr p2"
    using f p1 by (auto simp: lfEmitIf_def EmitOp_def elim: bind_InrE)
  obtain ct where ct: "pr_Instructions p2 = pr_Instructions p1 @ ?e @ ct" by (rule growsE [OF g(2) p2]) auto
  obtain p3 where p3: "arg c 2 (p2\<lparr>pr_Instructions := pr_Instructions p2 @ ?e'\<rparr>) = Inr p3"
    using f p1 p2 by (auto simp: lfEmitIf_def EmitOp_def elim: bind_InrE)
  obtain ce where ce: "pr_Instructions p3 = pr_Instructions p2 @ ?e' @ ce" by (rule growsE [OF g(3) p3]) auto
  let ?A = "pr_Instructions p @ cc" and ?E = "Make OpPop [] @ Make OpConstNull []"
  let ?D = "?A @ Make OpDup []"
  let ?false = "length ?A + 10 + length ct" and ?null = "length ?A + 13 + length ct + length ce"
  let ?fin = "?null + 2"
  have "q = PatchUint16 (length ?A + 11 + length ct + length ce) ?fin (PatchUint16 (length ?A + 8 + length ct) ?fin
       (PatchUint16 (length ?A + 5) ?false (PatchUint16 (length ?A + 2) ?null
         (p3\<lparr>pr_Instructions := ?A @ ?e @ ct @ Make OpJump [0] @ ce @ Make OpJump [0] @ ?E\<rparr>))))"
    using f p1 p2 p3 by (simp add: lfEmitIf_def EmitOp_def Program_Len_def Let_def cc ct ce ac_simps)
  also have "\<dots> = p3\<lparr>pr_Instructions := ?D @ Make OpJumpIfNull3VL [?null] @ Make OpJumpIfFalse [?false] @ ct @ Make OpJump [?fin]
      @ ce @ Make OpJump [?fin] @ ?E\<rparr>"
    using patch_ins [of OpJumpIfNull3VL _ ?D ?null "Make OpJumpIfFalse [0] @ ct @ Make OpJump [0] @ ce @ Make OpJump [0] @ ?E" p3]
      patch_ins [of OpJumpIfFalse _ "?D @ Make OpJumpIfNull3VL [?null]" ?false "ct @ Make OpJump [0] @ ce @ Make OpJump [0] @ ?E" p3]
      patch_ins [of OpJump _ "?D @ Make OpJumpIfNull3VL [?null] @ Make OpJumpIfFalse [?false] @ ct" ?fin "ce @ Make OpJump [0] @ ?E" p3]
      patch_ins [of OpJump _ "?D @ Make OpJumpIfNull3VL [?null] @ Make OpJumpIfFalse [?false] @ ct @ Make OpJump [?fin] @ ce" ?fin ?E p3]
    by (simp add: ac_simps)
  finally have "q = p3\<lparr>pr_Instructions := pr_Instructions p @ if_code (Program_Len p) cc ct ce\<rparr>"
    by (simp add: if_code_def Let_def Program_Len_def ac_simps)
  then show ?thesis using that [OF p1 cc p2 _ ct p3 _ ce] by simp
qed

lemma emits_If:
  assumes c: "emits_value V row k d (arg c 0) g" and t: "emits_tail V row k (Suc d) (arg c 1) gt"
    and e: "emits_tail V row k (Suc d) (arg c 2) ge" and d: "Suc d < StackSize"
  shows "emits_tail V row k d (lfEmitIf c) (\<lambda>ps. if_value (g ps) (gt ps) (ge ps))"
  unfolding emits_tail_def
proof (intro allI impI)
  fix p q assume f: "lfEmitIf c p = Inr q"
  obtain p1 x p2 x' p3 cc ct ce where
    p1: "arg c 0 p = Inr p1" "pr_Instructions p1 = pr_Instructions p @ cc" and
    p2: "arg c 1 (p1\<lparr>pr_Instructions := pr_Instructions p1 @ x\<rparr>) = Inr p2" "length x = 7"
      "pr_Instructions p2 = pr_Instructions p1 @ x @ ct" and
    p3: "arg c 2 (p2\<lparr>pr_Instructions := pr_Instructions p2 @ x'\<rparr>) = Inr p3" "length x' = 3"
      "pr_Instructions p3 = pr_Instructions p2 @ x' @ ce" and
    q: "q = p3\<lparr>pr_Instructions := pr_Instructions p @ if_code (Program_Len p) cc ct ce\<rparr>"
    by (rule lfEmitIf_code [OF f emits_grows [OF c] emits_tail_grows [OF t] emits_tail_grows [OF e]])
  note 1 = emitsD [OF c p1]
  have 2: "pools_ext p1 p2" "does_tail V row k (Suc d) (Program_Len p + length cc + 7) ct p2 gt"
    using emits_tailD [OF t p2(1), of ct] p2(2,3) p1(2) by (simp_all add: Program_Len_def ac_simps)
  have 3: "pools_ext p2 p3" "does_tail V row k (Suc d) (Program_Len p + length cc + 10 + length ct) ce p3 ge"
    using emits_tailD [OF e p3(1), of ce] p3(2,3) p2(2,3) p1(2) by (simp_all add: Program_Len_def ac_simps)
  have "does_tail V row k d (Program_Len p) (if_code (Program_Len p) cc ct ce) p3 (\<lambda>ps. if_value (g ps) (gt ps) (ge ps))"
    using 1(2) 2 3 d by (intro does_if_code) (auto intro: does_mono does_tail_mono pools_ext_trans)
  then show "\<exists>c. pr_Instructions q = pr_Instructions p @ c \<and> pools_ext p q \<and>
      does_tail V row k d (Program_Len p) c q (\<lambda>ps. if_value (g ps) (gt ps) (ge ps))"
    using q 1(1) 2(1) 3(1) by (auto intro: pools_ext_trans)
qed

subsection \<open>Loops over an array\<close>

text \<open>A computation with fuel that gives \<open>r\<close> in a state with \<open>ok\<close>, once the fuel is enough.\<close>

definition lasting :: "(nat \<Rightarrow> 'a result) \<Rightarrow> bool" where
  "lasting f \<longleftrightarrow> (\<forall>n x. f n = Some x \<longrightarrow> f (Suc n) = Some x)"

definition yields :: "(VM \<Rightarrow> bool) \<Rightarrow> (nat \<Rightarrow> 'a result) \<Rightarrow> vm_error + 'a \<Rightarrow> bool" where
  "yields ok f r \<longleftrightarrow> (\<exists>n s. f n = Some (r, s) \<and> ok s)"

lemma lastingD: "lasting f \<Longrightarrow> f n = Some x \<Longrightarrow> f (Suc n) = Some x"
  unfolding lasting_def by blast

lemma lasting_more: "lasting f \<Longrightarrow> f n = Some x \<Longrightarrow> n \<le> m \<Longrightarrow> f m = Some x"
  by (induction m) (auto simp: le_Suc_eq intro: lastingD)

lemma yields_and_then:
  assumes f: "lasting f" "yields ok f r" and k: "\<And>a s. lasting (\<lambda>n. k n a s)"
    "\<And>a s. r = Inr a \<Longrightarrow> ok s \<Longrightarrow> yields ok (\<lambda>n. k n a s) (h a)"
  shows "yields ok (\<lambda>n. and_then (f n) (k n)) (bind r h)"
proof -
  obtain n s where n: "f n = Some (r, s)" "ok s" using f(2) by (auto simp: yields_def)
  show ?thesis
  proof (cases r)
    case (Inl e)
    then show ?thesis using n by (auto simp: yields_def and_then_def intro!: exI [of _ n])
  next
    case (Inr a)
    obtain m s' where m: "k m a s = Some (h a, s')" "ok s'" using k(2) [OF Inr n(2)] by (auto simp: yields_def)
    have "f (max n m) = Some (r, s)" "k (max n m) a s = Some (h a, s')"
      using lasting_more [OF f(1) n(1)] lasting_more [OF k(1) m(1)] by simp_all
    then show ?thesis using m(2) Inr by (auto simp: yields_def and_then_def intro!: exI [of _ "max n m"])
  qed
qed

text \<open>A family of bodies that computes \<open>g\<close> on states with \<open>ok\<close>.\<close>

definition computes :: "(VM \<Rightarrow> bool) \<Rightarrow> (nat \<Rightarrow> body) \<Rightarrow> nat \<Rightarrow> (Value list \<Rightarrow> denotation) \<Rightarrow> bool" where
  "computes ok b arity g \<longleftrightarrow>
     (\<forall>n. body_le (b n) (b (Suc n))) \<and> (\<forall>xs s. length xs = arity \<longrightarrow> ok s \<longrightarrow> yields ok (\<lambda>n. b n xs s) (g xs))"

lemma computesD:
  assumes "computes ok b arity g"
  shows "lasting (\<lambda>n. b n xs s)" "length xs = arity \<Longrightarrow> ok s \<Longrightarrow> yields ok (\<lambda>n. b n xs s) (g xs)" "body_le (b n) (b (Suc n))"
  using assms by (auto simp: computes_def lasting_def intro: body_leD)

lemma lasting_loops:
  assumes "computes ok b arity g"
  shows "lasting (\<lambda>n. any_loop (b n) xs h s)" "lasting (\<lambda>n. all_loop (b n) xs h s)" "lasting (\<lambda>n. filter_loop (b n) xs acc s)"
    "lasting (\<lambda>n. map_loop (b n) xs acc s)" "lasting (\<lambda>n. reduce_loop (b n) xs v s)" "lasting (\<lambda>n. lambda_loop op (b n) vs s)"
  using computesD(3) [OF assms] by (auto simp: lasting_def intro: loops_more lambda_loop_more)

lemma lasting_const [simp]: "lasting (\<lambda>n. c)"
  by (simp add: lasting_def)

lemma lasting_if: "lasting f \<Longrightarrow> lasting g \<Longrightarrow> lasting (\<lambda>n. if P then f n else g n)"
  by (cases P) auto

lemma yields_const: "ok s \<Longrightarrow> yields ok (\<lambda>n. Some (r, s)) r"
  by (auto simp: yields_def)

lemma yields_any:
  assumes "computes ok b 1 g" "ok s"
  shows "yields ok (\<lambda>n. any_loop (b n) xs h s) (any_value g xs h)"
  using assms(2)
proof (induction xs arbitrary: h s)
  case (Cons x xs)
  show ?case
    unfolding any_loop.simps any_value.simps
    using Cons lasting_loops(1) [OF assms(1)]
    by (intro yields_and_then computesD [OF assms(1)]) (auto intro: yields_const intro!: lasting_if)
qed (simp add: yields_const)

lemma yields_all:
  assumes "computes ok b 1 g" "ok s"
  shows "yields ok (\<lambda>n. all_loop (b n) xs h s) (all_value g xs h)"
  using assms(2)
proof (induction xs arbitrary: h s)
  case (Cons x xs)
  show ?case
    unfolding all_loop.simps all_value.simps
    using Cons lasting_loops(2) [OF assms(1)]
    by (intro yields_and_then computesD [OF assms(1)]) (auto intro: yields_const intro!: lasting_if)
qed (simp add: yields_const)

lemma yields_filter:
  assumes "computes ok b 1 g" "ok s"
  shows "yields ok (\<lambda>n. filter_loop (b n) xs acc s) (bind (filter_value g xs) (\<lambda>ys. Inr (ArrayValue (acc @ ys))))"
  using assms(2)
proof (induction xs arbitrary: acc s)
  case (Cons x xs)
  have "yields ok (\<lambda>n. filter_loop (b n) (x # xs) acc s)
      (bind (g [x]) (\<lambda>v. bind (filter_value g xs) (\<lambda>ys. Inr (ArrayValue ((if v = BoolValue True then acc @ [x] else acc) @ ys)))))"
    unfolding filter_loop.simps
    using Cons lasting_loops(3) [OF assms(1)] by (intro yields_and_then computesD [OF assms(1)]) auto
  moreover have "bind (filter_value g (x # xs)) (\<lambda>ys. Inr (ArrayValue (acc @ ys))) =
      bind (g [x]) (\<lambda>v. bind (filter_value g xs) (\<lambda>ys. Inr (ArrayValue ((if v = BoolValue True then acc @ [x] else acc) @ ys))))"
    by (cases "g [x]"; cases "filter_value g xs") auto
  ultimately show ?case by simp
qed (simp add: yields_const)

lemma yields_map:
  assumes "computes ok b 1 g" "ok s"
  shows "yields ok (\<lambda>n. map_loop (b n) xs acc s) (bind (all_values (map (\<lambda>x. g [x]) xs)) (\<lambda>ys. Inr (ArrayValue (acc @ ys))))"
  using assms(2)
proof (induction xs arbitrary: acc s)
  case (Cons x xs)
  have "yields ok (\<lambda>n. map_loop (b n) (x # xs) acc s)
      (bind (g [x]) (\<lambda>v. bind (all_values (map (\<lambda>x. g [x]) xs)) (\<lambda>ys. Inr (ArrayValue ((acc @ [v]) @ ys)))))"
    unfolding map_loop.simps
    using Cons lasting_loops(4) [OF assms(1)]
    by (intro yields_and_then computesD [OF assms(1)]) (simp_all del: append_assoc)
  then show ?case by simp
qed (simp add: yields_const)

lemma yields_reduce:
  assumes "computes ok b 2 g" "ok s"
  shows "yields ok (\<lambda>n. reduce_loop (b n) xs acc s) (reduce_value g xs acc)"
  using assms(2)
proof (induction xs arbitrary: acc s)
  case (Cons x xs)
  show ?case
    unfolding reduce_loop.simps reduce_value.simps
    using Cons lasting_loops(5) [OF assms(1)] by (intro yields_and_then computesD [OF assms(1)]) auto
qed (simp add: yields_const)

lemma yields_lambda:
  assumes "computes ok b (lambda_arity op) g" "ok s" "op \<in> set lambda_ops"
  shows "yields ok (\<lambda>n. lambda_loop op (b n) vs s) (lambda_value op g vs)"
proof (cases "vs ! 0")
  case (ArrayValue xs)
  consider "op = OpArrayAny" | "op = OpArrayAll" | "op = OpArrayFilter" | "op = OpArrayMap" | "op = OpArrayReduce"
    using assms(3) by (auto simp: lambda_ops_def)
  then show ?thesis
  proof cases
    case 1
    then show ?thesis using yields_any [of ok b g s xs False] assms ArrayValue
      by (simp add: lambda_loop_def lambda_value_def lambda_arity_def opcode_defs)
  next
    case 2
    then show ?thesis using yields_all [of ok b g s xs False] assms ArrayValue
      by (simp add: lambda_loop_def lambda_value_def lambda_arity_def opcode_defs)
  next
    case 3
    then show ?thesis using yields_filter [of ok b g s xs "[]"] assms ArrayValue
      by (simp add: lambda_loop_def lambda_value_def lambda_arity_def opcode_defs)
  next
    case 4
    then show ?thesis using yields_map [of ok b g s xs "[]"] assms ArrayValue
      by (simp add: lambda_loop_def lambda_value_def lambda_arity_def opcode_defs)
  next
    case 5
    then show ?thesis using yields_reduce [of ok b g s xs "vs ! 1"] assms ArrayValue
      by (simp add: lambda_loop_def lambda_value_def lambda_arity_def opcode_defs)
  qed
qed (use assms in \<open>simp_all add: lambda_loop_def lambda_value_def yields_const\<close>)

subsection \<open>Bodies\<close>

abbreviation sub_program :: "Program \<Rightarrow> nat \<Rightarrow> Program" where
  "sub_program F i \<equiv> F\<lparr>pr_Instructions := pr_SubPrograms F ! i, pr_GlobPatterns := []\<rparr>"

definition body_of :: "vm_lib \<Rightarrow> Program \<Rightarrow> nat \<Rightarrow> nat \<Rightarrow> body" where
  "body_of V F i n = execLambdaWithParams (run n V) F i"

lemma body_of_more: "body_le (body_of V F i n) (body_of V F i (Suc n))"
  unfolding body_of_def body_le_def execLambdaWithParams_def
  by (auto simp del: run.simps split: option.splits dest: run_Suc)

text \<open>The state in which a body leaves the machine: as it was, apart from the values on the stack.\<close>

definition kept :: "vm_lib \<Rightarrow> row \<Rightarrow> Value list \<Rightarrow> nat \<Rightarrow> VM \<Rightarrow> bool" where
  "kept V row ps n s \<longleftrightarrow> state_ok V row ps s \<and> vm_sp s = n"

lemma computes_body:
  assumes "\<And>ps'. length ps' = length ps + arity \<Longrightarrow>
    halts V (sub_program F i) 0 (view V row ps' []) (g ps') (state_ok V row ps')"
  shows "computes (kept V row ps n) (body_of V F i) arity (\<lambda>xs. g (ps @ xs))"
  unfolding computes_def
proof (intro conjI allI impI body_of_more)
  fix xs :: "Value list" and s assume xs: "length xs = arity" and s: "kept V row ps n s"
  let ?s = "s\<lparr>vm_lambdaParams := vm_lambdaParams s @ xs, vm_sp := 0\<rparr>"
  have ps: "vm_lambdaParams s = ps" using s by (simp add: kept_def state_ok_def)
  have "view V row (ps @ xs) [] ?s"
    using s by (simp add: view_def stk_def kept_def state_ok_def cache_ok_def)
  then obtain m s' where m: "run m V (sub_program F i) 0 ?s = Some (g (ps @ xs), s')" "state_ok V row (ps @ xs) s'"
    using assms [of "ps @ xs"] xs unfolding halts_def by auto
  let ?s' = "s'\<lparr>vm_sp := vm_sp s, vm_predicateCtx := None,
      vm_lambdaParams := take (length (vm_lambdaParams s') - length xs) (vm_lambdaParams s')\<rparr>"
  have "body_of V F i m xs s = Some (g (ps @ xs), ?s')"
    using m(1) by (simp add: body_of_def execLambdaWithParams_def)
  moreover have "kept V row ps n ?s'"
    using m(2) s by (simp add: kept_def state_ok_def cache_ok_def)
  ultimately show "yields (kept V row ps n) (\<lambda>n. body_of V F i n xs s) (g (ps @ xs))"
    by (auto simp: yields_def)
qed

text \<open>The instruction of a lambda: over an empty stack it leaves its value and nothing else.\<close>

lemma lambda_two_byte: "op \<in> set lambda_ops \<Longrightarrow> op \<in> set two_byte_ops"
  by (auto simp: lambda_ops_def two_byte_ops_def)

lemma run_lambda_op:
  assumes code: "code_at F a (Make op [i])" and op: "op \<in> set lambda_ops" and i: "i < 65536" "i < length (pr_SubPrograms F)"
    and s: "view V row ps (st @ vs) s" "length vs = lambda_arity op"
  shows "run (Suc n) V F a s =
    and_then (lambda_loop op (body_of V F i n) vs (drop_args (lambda_arity op) s))
      (\<lambda>v s'. if vm_sp s' \<ge> StackSize then Some (Inl ErrStackOverflow, s') else run n V F (a + 3) (put v s'))"
proof -
  note c = two_byte_code [OF code i(1) lambda_two_byte [OF op]]
  have sp: "vm_sp s = length st + lambda_arity op" using view_sp [OF s(1)] s(2) by simp
  have "args (lambda_arity op) s = vs" using s sp by (simp add: args_stk view_def)
  then show ?thesis
    using c code_at_Cons [OF c(1)] op i(2) sp by (simp add: readIndexSafe_def Let_def body_of_def)
qed

lemma lambda_op:
  assumes code: "code_at F a (Make op [i])" and op: "op \<in> set lambda_ops" and i: "i < 65536" "i < length (pr_SubPrograms F)"
    and g: "computes (kept V row ps (length st)) (body_of V F i) (lambda_arity op) g"
    and vs: "length vs = lambda_arity op" "length st < StackSize"
  shows "case lambda_value op g vs of
      Inl e \<Rightarrow> halts V F a (view V row ps (st @ vs)) (Inl e) (state_ok V row ps)
    | Inr v \<Rightarrow> leads V F a (view V row ps (st @ vs)) (a + 3)
        (\<lambda>s. \<exists>ys. length ys = length st \<and> view V row ps (ys @ [v]) s)"
proof -
  have "case lambda_value op g vs of
      Inl e \<Rightarrow> \<exists>n s'. run n V F a s = Some (Inl e, s') \<and> state_ok V row ps s'
    | Inr v \<Rightarrow> \<exists>s'. (\<exists>ys. length ys = length st \<and> view V row ps (ys @ [v]) s') \<and> steps V F a s (a + 3) s'"
    if s: "view V row ps (st @ vs) s" for s
  proof -
    let ?s = "drop_args (lambda_arity op) s"
    have k: "kept V row ps (length st) ?s" using s vs view_sp [OF s] by (simp add: kept_def view_def)
    obtain n s' where n: "lambda_loop op (body_of V F i n) vs ?s = Some (lambda_value op g vs, s')" "kept V row ps (length st) s'"
      using yields_lambda [OF g k op, of vs] by (auto simp: yields_def)
    note run = run_lambda_op [OF code op i s vs(1)]
    show ?thesis
    proof (cases "lambda_value op g vs")
      case (Inl e)
      then show ?thesis using run [of n] n by (auto simp: and_then_def kept_def simp del: run.simps intro!: exI [of _ "Suc n"])
    next
      case (Inr v)
      have "steps V F a s (a + 3) (put v s')"
        unfolding steps_def
      proof (intro allI impI)
        fix m r assume m: "run m V F (a + 3) (put v s') = Some r"
        have "lambda_loop op (body_of V F i (max n m)) vs ?s = Some (Inr v, s')"
          using lasting_more [OF lasting_loops(6) [OF g] n(1)] Inr by simp
        moreover have "run (max n m) V F (a + 3) (put v s') = Some r"
          using vm_fuel.more [of m "(V, F, a + 3, put v s')" r "max n m"] m by simp
        moreover have "vm_sp s' < StackSize" using n(2) vs(2) by (simp add: kept_def)
        ultimately have "run (Suc (max n m)) V F a s = Some r" using run [of "max n m"] by (simp add: and_then_def del: run.simps)
        then show "\<exists>n. run n V F a s = Some r" by blast
      qed
      moreover have "length (stk s') = length st \<and> view V row ps (stk s' @ [v]) (put v s')"
        using n(2) by (simp add: kept_def view_def)
      ultimately show ?thesis using Inr by (simp, blast)
    qed
  qed
  then show ?thesis by (cases "lambda_value op g vs") (auto simp: halts_def leads_def)
qed

lemma compileLambdaBody_halts:
  assumes f: "compileLambdaBody body p = Inr (i, p')" and body: "emits_tail V row k 0 body g"
  shows "pr_Instructions p' = pr_Instructions p" "pools_ext p p'"
    "pools_ext p' F \<Longrightarrow> i < length (pr_SubPrograms F)"
    "pools_ext p' F \<Longrightarrow> addressable F \<Longrightarrow> length ps = k \<Longrightarrow>
     halts V (sub_program F i) 0 (view V row ps []) (g ps) (state_ok V row ps)"
proof -
  obtain q where q: "body (p\<lparr>pr_Instructions := []\<rparr>) = Inr q"
    and p': "i = length (pr_SubPrograms q)" "p' = q\<lparr>pr_Instructions := pr_Instructions p,
      pr_SubPrograms := pr_SubPrograms q @ [pr_Instructions q @ Make OpReturn []]\<rparr>"
    using f by (auto simp: compileLambdaBody_def EmitOp_def AddSubProgram_def elim!: bind_InrE)
  have e: "pools_ext p q" "does_tail V row k 0 0 (pr_Instructions q) q g"
    using emits_tailD [OF body q, of "pr_Instructions q"] by (simp_all add: Program_Len_def)
  have q': "pools_ext q p'" using p'(2) by (simp add: pools_ext_def)
  show "pr_Instructions p' = pr_Instructions p" using p' by simp
  show "pools_ext p p'" using e(1) q' by (rule pools_ext_trans)
  assume F: "pools_ext p' F"
  then have sub: "i < length (pr_SubPrograms F)" "pr_SubPrograms F ! i = pr_Instructions q @ Make OpReturn []"
    using p' prefix_nth [of "pr_SubPrograms q" _ "pr_SubPrograms F"] by (auto simp: pools_ext_def)
  then show "i < length (pr_SubPrograms F)" by simp
  assume h: "addressable F" "length ps = k"
  let ?F = "sub_program F i"
  have "addressable ?F" using h(1) sub(1) by (auto simp: addressable_def)
  moreover have "pools_ext q ?F" using pools_ext_trans [OF q' F] by (simp add: pools_ext_def)
  moreover have code: "code_at ?F 0 (pr_Instructions q)" "code_at ?F (length (pr_Instructions q)) (Make OpReturn [])"
    using sub(2) by (simp_all add: code_at_def)
  ultimately have "ends_tail V ?F row ps 0 [] (length (pr_Instructions q)) (g ps)"
    using does_tailD [OF e(2) code(1) _ _ h(2), of "[]"] by simp
  moreover have "halts V ?F (length (pr_Instructions q)) (topped V row ps v) (Inr v) (state_ok V row ps)" for v
    by (rule halts_Return [OF code(2)]) (simp add: topped_def)
  ultimately show "halts V ?F 0 (view V row ps []) (g ps) (state_ok V row ps)"
    by (cases "g ps") (auto simp: ends_tail_def intro: leads_halts)
qed

text \<open>An instruction that takes \<open>n\<close> values above \<open>d\<close> others, in last position or over an empty stack.\<close>

definition emits_top ::
  "vm_lib \<Rightarrow> row \<Rightarrow> nat \<Rightarrow> nat \<Rightarrow> nat \<Rightarrow> emitter \<Rightarrow> (Value list \<Rightarrow> Value list \<Rightarrow> denotation) \<Rightarrow> bool"
where
  "emits_top V row k d n f h \<longleftrightarrow>
     (\<forall>p q. f p = Inr q \<longrightarrow>
       (\<exists>c. pr_Instructions q = pr_Instructions p @ c \<and> pools_ext p q \<and>
         (\<forall>F ps st vs. code_at F (Program_Len p) c \<longrightarrow> pools_ext q F \<longrightarrow> addressable F \<longrightarrow> length ps = k \<longrightarrow>
            length st = d \<longrightarrow> length vs = n \<longrightarrow>
            ends_tail V F row ps (Program_Len p) (st @ vs) (Program_Len p + length c) (h ps vs) \<and>
            (d = 0 \<longrightarrow> ends V F row ps (Program_Len p) vs (Program_Len p + length c) (onto [] (h ps vs))))))"

lemma emits_lambda_top:
  assumes op: "op \<in> set lambda_ops" and n: "n = lambda_arity op"
    and body: "emits_tail V row (k + n) 0 (ca_body c ! j) g" and d: "d < StackSize"
  shows "emits_top V row k d n (emit_lambda op j n c) (\<lambda>ps. lambda_value op (\<lambda>xs. g (ps @ xs)))"
  unfolding emits_top_def
proof (intro allI impI)
  fix p q assume "emit_lambda op j n c p = Inr q"
  then obtain i p' where l: "compileLambdaBody (ca_body c ! j) p = Inr (i, p')"
    and q: "q = p'\<lparr>pr_Instructions := pr_Instructions p' @ Make op [i]\<rparr>"
    by (auto simp: emit_lambda_def emit_Inr split: option.splits if_splits elim!: bind_InrE)
  note b = compileLambdaBody_halts [OF l body]
  have "ends_tail V F row ps (Program_Len p) (st @ vs) (Program_Len p + 3) (lambda_value op (\<lambda>xs. g (ps @ xs)) vs) \<and>
      (d = 0 \<longrightarrow> ends V F row ps (Program_Len p) vs (Program_Len p + 3) (onto [] (lambda_value op (\<lambda>xs. g (ps @ xs)) vs)))"
    if h: "code_at F (Program_Len p) (Make op [i])" "pools_ext q F" "addressable F" "length ps = k" "length st = d" "length vs = n"
    for F and ps st vs :: "Value list"
  proof -
    have F: "pools_ext p' F" using h(2) q by simp
    note i = b(3) [OF F]
    have "i < 65536" using i h(3) by (simp add: addressable_def)
    moreover have "computes (kept V row ps (length st)) (body_of V F i) (lambda_arity op) (\<lambda>xs. g (ps @ xs))"
      using b(4) [OF F h(3)] h(4) n by (intro computes_body) simp
    ultimately have "case lambda_value op (\<lambda>xs. g (ps @ xs)) vs of
        Inl e \<Rightarrow> halts V F (Program_Len p) (view V row ps (st @ vs)) (Inl e) (state_ok V row ps)
      | Inr v \<Rightarrow> leads V F (Program_Len p) (view V row ps (st @ vs)) (Program_Len p + 3)
          (\<lambda>s. \<exists>ys. length ys = length st \<and> view V row ps (ys @ [v]) s)"
      using lambda_op [OF h(1) op _ i] h(5,6) n d by simp
    then show ?thesis
      using h(5) by (cases "lambda_value op (\<lambda>xs. g (ps @ xs)) vs")
        (auto simp: ends_tail_def ends_def topped_def elim!: leads_weaken)
  qed
  then show "\<exists>c. pr_Instructions q = pr_Instructions p @ c \<and> pools_ext p q \<and>
      (\<forall>F ps st vs. code_at F (Program_Len p) c \<longrightarrow> pools_ext q F \<longrightarrow> addressable F \<longrightarrow> length ps = k \<longrightarrow>
         length st = d \<longrightarrow> length vs = n \<longrightarrow>
         ends_tail V F row ps (Program_Len p) (st @ vs) (Program_Len p + length c) (lambda_value op (\<lambda>xs. g (ps @ xs)) vs) \<and>
         (d = 0 \<longrightarrow> ends V F row ps (Program_Len p) vs (Program_Len p + length c) (onto [] (lambda_value op (\<lambda>xs. g (ps @ xs)) vs))))"
    using q b(1,2) lambda_two_byte [OF op] by (intro exI [of _ "Make op [i]"]) auto
qed

lemma ends_tail_args:
  assumes "ends V F row ps a st b (bind r (\<lambda>vs. Inr (st @ vs)))" "\<And>vs. r = Inr vs \<Longrightarrow> ends_tail V F row ps b (st @ vs) c (h vs)"
  shows "ends_tail V F row ps a st c (bind r h)"
proof (cases r)
  case (Inl e)
  then show ?thesis using assms(1) by (simp add: ends_def ends_tail_def)
next
  case (Inr vs)
  then show ?thesis using assms(1) assms(2) [OF Inr] by (auto simp: ends_def intro: ends_tail_leads)
qed

lemma emits_top_args:
  assumes args: "emits_args V row k d fs gs" and f: "emits_top V row k d (length fs) f h"
  shows "emits_tail V row k d (seq (fs @ [f])) (\<lambda>ps. bind (values_of gs ps) (h ps))"
    "d = 0 \<Longrightarrow> emits_value V row k d (seq (fs @ [f])) (\<lambda>ps. bind (values_of gs ps) (h ps))"
proof -
  have "\<exists>c. pr_Instructions q = pr_Instructions p @ c \<and> pools_ext p q \<and>
      does_tail V row k d (Program_Len p) c q (\<lambda>ps. bind (values_of gs ps) (h ps)) \<and>
      (d = 0 \<longrightarrow> does V row k d (Program_Len p) c q (Suc d) (\<lambda>ps st. onto st (bind (values_of gs ps) (h ps))))"
    if pq: "seq (fs @ [f]) p = Inr q" for p q
  proof -
    obtain p1 where p1: "seq fs p = Inr p1" "f p1 = Inr q"
      using pq by (auto simp: seq_append elim!: bind_InrE)
    obtain c where c: "pr_Instructions p1 = pr_Instructions p @ c" "Program_Len p1 = Program_Len p + length c" "pools_ext p p1"
      "does V row k d (Program_Len p) c p1 (d + length fs) (\<lambda>ps st. bind (values_of gs ps) (\<lambda>vs. Inr (st @ vs)))"
      by (rule emitsE [OF emits_all [OF args] p1(1)])
    obtain c' where c': "pr_Instructions q = pr_Instructions p1 @ c'" "pools_ext p1 q"
      "\<And>F ps st vs. \<lbrakk>code_at F (Program_Len p1) c'; pools_ext q F; addressable F; length ps = k; length st = d; length vs = length fs\<rbrakk> \<Longrightarrow>
        ends_tail V F row ps (Program_Len p1) (st @ vs) (Program_Len p1 + length c') (h ps vs) \<and>
        (d = 0 \<longrightarrow> ends V F row ps (Program_Len p1) vs (Program_Len p1 + length c') (onto [] (h ps vs)))"
      using f p1(2) unfolding emits_top_def by blast
    have vals: "length vs = length fs" if "values_of gs ps = Inr vs" for ps vs
      using length_all_values [OF that] args by (simp add: emits_args_def)
    have "does_tail V row k d (Program_Len p) (c @ c') q (\<lambda>ps. bind (values_of gs ps) (h ps))"
      unfolding does_tail_def
    proof (intro allI impI)
      fix F and ps st :: "Value list"
      assume h: "code_at F (Program_Len p) (c @ c')" "pools_ext q F" "addressable F" "length ps = k" "length st = d"
      show "ends_tail V F row ps (Program_Len p) st (Program_Len p + length (c @ c')) (bind (values_of gs ps) (h ps))"
        using ends_tail_args [OF doesD(1) [OF c(4) _ pools_ext_trans [OF c'(2) h(2)] h(3,4,5)]] c'(3) [OF _ h(2,3,4,5) vals] h(1) c(2)
        by (simp add: ac_simps)
    qed
    moreover have "does V row k d (Program_Len p) (c @ c') q (Suc d) (\<lambda>ps st. onto st (bind (values_of gs ps) (h ps)))" if "d = 0"
    proof (rule does_valueI)
      fix F and ps st :: "Value list"
      assume h: "code_at F (Program_Len p) (c @ c')" "pools_ext q F" "addressable F" "length ps = k" "length st = d"
      have st: "st = []" using h(5) that by simp
      have "ends V F row ps (Program_Len p) st (Program_Len p + length (c @ c')) (bind (bind (values_of gs ps) (\<lambda>vs. Inr (st @ vs))) (\<lambda>vs. onto [] (h ps vs)))"
        using ends_bind [OF doesD(1) [OF c(4) _ pools_ext_trans [OF c'(2) h(2)] h(3,4,5)]] c'(3) [OF _ h(2,3,4,5) vals] h(1) c(2) that st
        by (auto simp: ac_simps elim!: bind_InrE)
      then show "ends V F row ps (Program_Len p) st (Program_Len p + length (c @ c')) (onto st (bind (values_of gs ps) (h ps)))"
        using st by (cases "values_of gs ps") simp_all
    qed
    ultimately show ?thesis using c c' by (intro exI [of _ "c @ c'"]) (auto intro: pools_ext_trans)
  qed
  then show "emits_tail V row k d (seq (fs @ [f])) (\<lambda>ps. bind (values_of gs ps) (h ps))"
    "d = 0 \<Longrightarrow> emits_value V row k d (seq (fs @ [f])) (\<lambda>ps. bind (values_of gs ps) (h ps))"
    unfolding emits_tail_def emits_def by blast+
qed

end
