(* ===== verification/LF_Correct.thy ===== *)
theory LF_Correct
  imports LF_Lambdas
begin

text \<open>
  The compiler is correct: the program of an expression that keeps to the stack, run on any row,
  ends with the value or the error that the reference evaluator gives.
\<close>

subsection \<open>Depths\<close>

lemma stacked_length: "stacked fs d \<Longrightarrow> d + length fs \<le> StackSize"
  by (induction fs arbitrary: d) (fastforce)+

lemma fits_depth: "fits V ps t e d \<Longrightarrow> d < StackSize"
  by (induction V ps t e d rule: fits.induct) (auto simp: fits_call_def Let_def split: option.splits)

abbreviation compiled :: "lf_env \<Rightarrow> vm_lib \<Rightarrow> row \<Rightarrow> gostring list \<Rightarrow> nat \<Rightarrow> Expr \<Rightarrow> bool" where
  "compiled E V row ps d e \<equiv> emits_value V row (length ps) d (compile E ps e) (\<lambda>vals. eval_expr V E row ps vals e)"

abbreviation compiled_tail :: "lf_env \<Rightarrow> vm_lib \<Rightarrow> row \<Rightarrow> gostring list \<Rightarrow> nat \<Rightarrow> Expr \<Rightarrow> bool" where
  "compiled_tail E V row ps d e \<equiv> emits_tail V row (length ps) d (compile E ps e) (\<lambda>vals. eval_expr V E row ps vals e)"

lemma compiled_args:
  assumes "stacked (map (fits V ps False) es) d" "\<And>e d. e \<in> set es \<Longrightarrow> fits V ps False e d \<Longrightarrow> compiled E V row ps d e"
  shows "emits_args V row (length ps) d (map (compile E ps) es) (map (\<lambda>e vals. eval_expr V E row ps vals e) es)"
  using assms by (induction es arbitrary: d) auto

lemma stacked_interleave:
  assumes "stacked (concat (map (\<lambda>(k, e). [\<lambda>n. n < StackSize, fits V ps False e]) kvs)) d" "i < length kvs"
  shows "fits V ps False (snd (kvs ! i)) (Suc (d + 2 * i))"
  using assms
proof (induction kvs arbitrary: d i)
  case (Cons kv kvs)
  then show ?case by (cases kv; cases i) (auto dest: Cons.IH)
qed simp

lemma stacked_interleave_length:
  "stacked (concat (map (\<lambda>(k, e). [\<lambda>n. n < StackSize, fits V ps False e]) kvs)) d \<Longrightarrow> d + 2 * length kvs \<le> StackSize"
  by (induction kvs arbitrary: d) fastforce+

subsection \<open>Calls\<close>

lemma emits_sub: "emits V row k d f d' \<phi> \<Longrightarrow> (\<And>p q. f' p = Inr q \<Longrightarrow> f p = Inr q) \<Longrightarrow> emits V row k d f' d' \<phi>"
  by (simp add: emits_def)

lemma emits_tail_sub: "emits_tail V row k d f g \<Longrightarrow> (\<And>p q. f' p = Inr q \<Longrightarrow> f p = Inr q) \<Longrightarrow> emits_tail V row k d f' g"
  by (simp add: emits_tail_def)

lemma emits_tail_cong:
  "emits_tail V row k d f g \<Longrightarrow> (\<And>ps. length ps = k \<Longrightarrow> g ps = h ps) \<Longrightarrow> emits_tail V row k d f h"
  by (simp add: emits_tail_def does_tail_def cong: imp_cong)

lemma compileCall_kind:
  "call_kind name bang = Some k \<Longrightarrow> compileCall E name bang c p = Inr q \<Longrightarrow> emit_call E k c p = Inr q"
  by (auto simp: call_kind_def compileCall_def split: option.splits if_splits prod.splits)

lemma emits_variadic:
  assumes "emits_args V row k d fs gs" "counted_takes V op (length fs)" "d < StackSize" "length fs < 65536"
  shows "emits_value V row k d (seq (fs @ [emit op [length fs]])) (\<lambda>ps. bind (values_of gs ps) (counted_value V op))"
proof -
  obtain pops ok err over f where f: "map_of (counted_ops V) op = Some (pops, ok, err, over, f)" "pops (length fs) = length fs" "ok (length fs)"
    using assms(2) by (auto simp: counted_takes_def split: option.splits)
  have "emits_value V row k d (seq (fs @ [emit op [length fs]])) (\<lambda>ps. bind (values_of gs ps) (op_result (f (length fs))))"
    using emits_op [where h = "\<lambda>ps. op_result (f (length fs))", OF assms(1) emits_counted [OF f(1,2,3) assms(4,3)]] by simp
  then show ?thesis
  proof (rule emits_cong_value)
    fix ps :: "Value list"
    show "bind (values_of gs ps) (op_result (f (length fs))) = bind (values_of gs ps) (counted_value V op)"
      using f(1) assms(1) length_all_values [of "map (\<lambda>g. g ps) gs"]
      by (cases "values_of gs ps") (auto simp: counted_value_def emits_args_def)
  qed
qed

lemma emits_fixed_args:
  assumes "emits_args V row k d fs gs" "fixed_arity V op = Some (length fs)" "d < StackSize"
  shows "emits_value V row k d (seq (fs @ [emit op []])) (\<lambda>ps. bind (values_of gs ps) (fixed_value V op))"
  using emits_op [where h = "\<lambda>ps. fixed_value V op", OF assms(1) emits_fixed [OF assms(2,3)]] by simp

text \<open>The records of a call in the compiler, in the evaluator and in the test of its depth.\<close>

abbreviation call_code :: "lf_env \<Rightarrow> gostring list \<Rightarrow> Expr list \<Rightarrow> lf_call" where
  "call_code E ps as \<equiv>
     \<lparr>ca_Args = as, ca_emit = map (compile E ps) as,
      ca_body = map (\<lambda>e. case e of Lambda qs body \<Rightarrow> compile E (ps @ qs) body | _ \<Rightarrow> fails NotALambda) as\<rparr>"

abbreviation call_eval :: "vm_lib \<Rightarrow> lf_env \<Rightarrow> row \<Rightarrow> gostring list \<Rightarrow> Expr list \<Rightarrow> Value list \<Rightarrow> call_values" where
  "call_eval V E row ps as vals \<equiv>
     \<lparr>cv_Args = as, cv_values = map (eval_expr V E row ps vals) as,
      cv_bodies = map (\<lambda>e. case e of
          Lambda qs body \<Rightarrow> (\<lambda>xs. eval_expr V E row (ps @ qs) (vals @ xs) body)
        | _ \<Rightarrow> (\<lambda>xs. Inl ErrInvalidBytecode)) as\<rparr>"

abbreviation call_depth :: "vm_lib \<Rightarrow> gostring list \<Rightarrow> Expr list \<Rightarrow> call_fits" where
  "call_depth V ps as \<equiv>
     \<lparr>cf_Args = as, cf_fits = map (fits V ps False) as, cf_tail = map (fits V ps True) as,
      cf_bodies = map (\<lambda>e. case e of Lambda qs body \<Rightarrow> fits V (ps @ qs) True body 0 | _ \<Rightarrow> False) as\<rparr>"

abbreviation call_ok :: "lf_env \<Rightarrow> vm_lib \<Rightarrow> row \<Rightarrow> gostring list \<Rightarrow> nat \<Rightarrow> emit_kind \<Rightarrow> Expr list \<Rightarrow> bool" where
  "call_ok E V row ps d k as \<equiv>
     emits_value V row (length ps) d (emit_call E k (call_code E ps as)) (\<lambda>vals. eval_call V E row k (call_eval V E row ps as vals))"

text \<open>What the induction knows of the arguments.\<close>

definition args_ok :: "lf_env \<Rightarrow> vm_lib \<Rightarrow> row \<Rightarrow> gostring list \<Rightarrow> Expr list \<Rightarrow> bool" where
  "args_ok E V row ps as \<longleftrightarrow>
     (\<forall>e \<in> set as. \<forall>d. (fits V ps False e d \<longrightarrow> compiled E V row ps d e) \<and> (fits V ps True e d \<longrightarrow> compiled_tail E V row ps d e)) \<and>
     (\<forall>qs body. Lambda qs body \<in> set as \<longrightarrow> fits V (ps @ qs) True body 0 \<longrightarrow> compiled_tail E V row (ps @ qs) 0 body)"

lemma args_okD:
  assumes "args_ok E V row ps as"
  shows "e \<in> set as \<Longrightarrow> fits V ps False e d \<Longrightarrow> compiled E V row ps d e"
    "e \<in> set as \<Longrightarrow> fits V ps True e d \<Longrightarrow> compiled_tail E V row ps d e"
    "Lambda qs body \<in> set as \<Longrightarrow> fits V (ps @ qs) True body 0 \<Longrightarrow> compiled_tail E V row (ps @ qs) 0 body"
  using assms unfolding args_ok_def by blast+

lemma args_emit:
  "args_ok E V row ps as \<Longrightarrow> stacked (map (fits V ps False) as) d \<Longrightarrow>
   emits_args V row (length ps) d (map (compile E ps) as) (map (\<lambda>e vals. eval_expr V E row ps vals e) as)"
  by (rule compiled_args) (auto dest: args_okD(1))

lemma emits_fixed_call:
  assumes "args_ok E V row ps as" "stacked (map (fits V ps False) as) d" "fixed_arity V op = Some (length as)" "d < StackSize"
  shows "emits_value V row (length ps) d (seq (map (compile E ps) as @ [emit op []]))
    (\<lambda>vals. bind (all_values (map (eval_expr V E row ps vals) as)) (fixed_value V op))"
  using emits_fixed_args [OF args_emit [OF assms(1,2)], of op] assms(3,4) by (simp add: comp_def)

lemma call_fixed:
  assumes "fits_call V ps t k (call_depth V ps as) d" "args_ok E V row ps as" "k \<in> {EUnary op, EBinary op, ETernary op}"
  shows "call_ok E V row ps d k as"
proof -
  have f: "stacked (map (fits V ps False) as) d" "fixed_arity V op = Some (length as)" "d < StackSize"
    and k: "k = EUnary op \<and> length as = 1 \<or> k = EBinary op \<and> length as = 2 \<or> k = ETernary op \<and> length as = 3"
    using assms(1,3) by (auto simp: fits_call_def Let_def)
  then have "emit_call E k (call_code E ps as) = seq (map (compile E ps) as @ [emit op []])"
    by (auto simp: emit_call_def lfEmitUnary_def lfEmitBinary_def lfEmitTernary_def length_Suc_conv numeral_2_eq_2 numeral_3_eq_3
        simp del: seq.simps)
  then show ?thesis
    using emits_fixed_call [OF assms(2) f] k by (auto simp: eval_call_def Let_def simp del: seq.simps)
qed

lemma call_variadic:
  assumes "fits_call V ps t (EVariadic op) (call_depth V ps as) d" "args_ok E V row ps as"
  shows "call_ok E V row ps d (EVariadic op) as"
proof -
  have f: "stacked (map (fits V ps False) as) d" "counted_takes V op (length (map (compile E ps) as))" "d < StackSize"
    using assms(1) by (auto simp: fits_call_def Let_def)
  have "length (map (compile E ps) as) < 65536" using stacked_length [OF f(1)] by (simp add: StackSize_def)
  from emits_variadic [OF args_emit [OF assms(2) f(1)] f(2,3) this] show ?thesis
    by (simp add: emit_call_def lfEmitVariadicOp_def eval_call_def Let_def comp_def)
qed

text \<open>Functions whose missing third argument is null.\<close>

lemma emits_null_third:
  assumes "args_ok E V row ps as" "stacked (map (fits V ps False) as) d" "fixed_arity V op = Some 3" "d + 2 < StackSize"
    "length as = 2 \<or> length as = 3"
  shows "emits_value V row (length ps) d
    (seq (map (compile E ps) as @ (if length as = 2 then [emit OpConstNull []] else []) @ [emit op []]))
    (\<lambda>vals. bind (all_values (if length as = 2 then map (eval_expr V E row ps vals) as @ [Inr NullValue] else map (eval_expr V E row ps vals) as))
       (fixed_value V op))"
proof (cases "length as = 2")
  case True
  then obtain a b where as: "as = [a, b]" by (auto simp: length_Suc_conv numeral_2_eq_2)
  have "emits_value V row (length ps) (d + 2) (emit OpConstNull []) (\<lambda>vals. Inr NullValue)"
    using assms(4) by (intro emits_control) auto
  then have args: "emits_args V row (length ps) d (map (compile E ps) as @ [emit OpConstNull []])
      (map (\<lambda>e vals. eval_expr V E row ps vals e) as @ [\<lambda>vals. Inr NullValue])"
    using args_emit [OF assms(1,2)] as by (simp add: numeral_2_eq_2)
  show ?thesis
    using emits_fixed_args [OF args, of op] assms(3,4) True by (simp add: comp_def)
next
  case False
  then show ?thesis
    using emits_fixed_call [OF assms(1,2), of op] assms(3-5) by simp
qed

lemma call_optional:
  assumes "fits_call V ps t k (call_depth V ps as) d" "args_ok E V row ps as" "k \<in> {ESubstr, ESlice, EBin}"
  shows "call_ok E V row ps d k as"
proof -
  have f: "stacked (map (fits V ps False) as) d" "d < StackSize" "length as = 2 \<or> length as = 3" "k = EBin \<or> d + 2 < StackSize"
    using assms(1,3) by (auto simp: fits_call_def Let_def)
  consider "k = ESubstr" | "k = ESlice" | "k = EBin" "length as = 3" | "k = EBin" "length as = 2" using assms(3) f(3) by auto
  then show ?thesis
  proof cases
    case 1
    then show ?thesis
      using emits_null_third [OF assms(2) f(1) fixed_binary(14) _ f(3)] f(4)
      by (simp add: emit_call_def lfEmitSubstr_def eval_call_def Let_def del: seq.simps)
  next
    case 2
    then have "emit_call E k (call_code E ps as) =
        seq (map (compile E ps) as @ (if length as = 2 then [emit OpConstNull []] else []) @ [emit OpSlice []])"
      using f(3) by (auto simp: emit_call_def lfEmitSlice_def optional_arg_def length_Suc_conv numeral_2_eq_2 numeral_3_eq_3 simp del: seq.simps)
    then show ?thesis
      using 2 emits_null_third [OF assms(2) f(1) arities(12) _ f(3)] f(4) by (simp add: eval_call_def Let_def del: seq.simps)
  next
    case 3
    then have "emit_call E k (call_code E ps as) = seq (map (compile E ps) as @ [emit OpBinOrigin []])"
      by (auto simp: emit_call_def lfEmitBin_def length_Suc_conv numeral_3_eq_3 simp del: seq.simps)
    then show ?thesis
      using 3 emits_fixed_call [OF assms(2) f(1) _ f(2), of OpBinOrigin] fixed_binary(16) by (simp add: eval_call_def Let_def del: seq.simps)
  next
    case 4
    then have "emit_call E k (call_code E ps as) = seq (map (compile E ps) as @ [emit OpBin []])"
      by (auto simp: emit_call_def lfEmitBin_def length_Suc_conv numeral_2_eq_2 numeral_3_eq_3 simp del: seq.simps)
    then show ?thesis
      using 4 emits_fixed_call [OF assms(2) f(1) _ f(2), of OpBin] fixed_binary(15) by (simp add: eval_call_def Let_def del: seq.simps)
  qed
qed

text \<open>Functions of one argument with code of their own.\<close>

lemma call_one:
  assumes "fits_call V ps t k (call_depth V ps as) d" "args_ok E V row ps as"
    "k \<in> {EStrictCast cast op, EDuration, EExists, EIsNull, EIsMissing}"
  shows "call_ok E V row ps d k as"
proof -
  have "length as = 1" using assms(1,3) by (auto simp: fits_call_def Let_def)
  then obtain a where as: "as = [a]" by (auto simp: length_Suc_conv)
  have d: "d < StackSize" using assms(1) by (simp add: fits_call_def Let_def)
  have a: "compiled E V row ps d a" if "k \<noteq> EIsMissing"
    using assms that args_okD(1) [OF assms(2), of a d] as by (auto simp: fits_call_def Let_def)
  consider "k = EStrictCast cast op" | "k = EDuration" | "k = EExists" | "k = EIsNull" | "k = EIsMissing" using assms(3) by auto
  then show ?thesis
  proof cases
    case 1
    then have "fixed_arity V op = Some 1" "Suc d < StackSize" using assms(1) by (auto simp: fits_call_def Let_def)
    then show ?thesis
      using 1 emits_StrictCast [OF a, of op cast] as by (simp add: emit_call_def lfStrictCast_def eval_call_def Let_def del: seq.simps)
  next
    case 2
    then show ?thesis using a as by (simp add: emit_call_def lfEmitDuration_def eval_call_def Let_def)
  next
    case 3
    then show ?thesis
      using a emits_fixed1 [OF a, of OpIsNotNull] emits_FieldExists [OF d, of V row "length ps"] d as
      by (cases "ident_name a") (simp_all add: emit_call_def lfEmitExists_def eval_call_def Let_def del: seq.simps)
  next
    case 4
    then show ?thesis
      using a emits_fixed1 [OF a, of OpIsNull] emits_is_null_field [OF d, of V row "length ps"] d as
      by (cases "ident_name a") (simp_all add: emit_call_def lfEmitIsNull_def eval_call_def Let_def del: seq.simps)
  next
    case 5
    then show ?thesis
      using emits_FieldMissing [OF d, of V row "length ps"] emits_control [of OpConstFalse "BoolValue False" d V row "length ps"] d as
      by (cases "ident_name a") (simp_all add: emit_call_def lfEmitIsMissing_def eval_call_def Let_def del: seq.simps)
  qed
qed

lemma call_rest:
  assumes "fits_call V ps t k (call_depth V ps as) d" "args_ok E V row ps as" "k \<in> {ECase, ENullIf, ENow}"
  shows "call_ok E V row ps d k as"
proof -
  have d: "d < StackSize" using assms(1) by (simp add: fits_call_def Let_def)
  consider "k = ECase" | "k = ENullIf" | "k = ENow" using assms(3) by auto
  then show ?thesis
  proof cases
    case 1
    then have "\<forall>i < length as. compiled E V row ps d (as ! i)"
      using assms(1) args_okD(1) [OF assms(2)] by (auto simp: fits_call_def Let_def)
    then show ?thesis
      using 1 emits_Case [of "map (\<lambda>e vals. eval_expr V E row ps vals e) as" "call_code E ps as" V row "length ps" d] d
      by (simp add: emit_call_def eval_call_def Let_def comp_def)
  next
    case 2
    then obtain a b where as: "as = [a, b]"
      using assms(1) by (auto simp: fits_call_def Let_def length_Suc_conv numeral_2_eq_2)
    then have "compiled E V row ps d a" "compiled E V row ps (Suc d) b"
      using 2 assms(1) args_okD(1) [OF assms(2)] by (auto simp: fits_call_def Let_def)
    then show ?thesis
      using 2 as emits_NullIf [of V row "length ps" d "call_code E ps as"] d
      by (simp add: emit_call_def eval_call_def Let_def)
  next
    case 3
    then show ?thesis
      using emits_const [of OpConstInt d V row "length ps"] d
      by (simp add: emit_call_def lfEmitNow_def eval_call_def Let_def const_ops_def)
  qed
qed

text \<open>The lambda of a call, compiled as a body and evaluated as a function.\<close>

lemma emit_lambda_arity:
  "ca_Args c ! j = Lambda qs body \<Longrightarrow> length qs \<noteq> n \<Longrightarrow> emits_top V row k d n (emit_lambda op j n c) h"
  by (simp add: emits_top_def emit_lambda_def)

lemma lambda_top:
  assumes "args_ok E V row ps as" "j < length as" "cf_bodies (call_depth V ps as) ! j" "op \<in> set lambda_ops" "n = lambda_arity op" "d < StackSize"
  shows "emits_top V row (length ps) d n (emit_lambda op j n (call_code E ps as))
    (\<lambda>vals. lambda_value op (cv_bodies (call_eval V E row ps as vals) ! j))"
proof -
  obtain qs body where l: "as ! j = Lambda qs body" "fits V (ps @ qs) True body 0"
    using assms(2,3) by (auto split: Expr.splits)
  show ?thesis
  proof (cases "length qs = n")
    case True
    have "compiled_tail E V row (ps @ qs) 0 body"
      using l assms(2) by (intro args_okD(3) [OF assms(1)]) (auto simp: in_set_conv_nth)
    then show ?thesis
      using emits_lambda_top [of op n V row "length ps" "call_code E ps as" j "\<lambda>vals. eval_expr V E row (ps @ qs) vals body" d]
        True assms l by simp
  qed (use l assms(2) in \<open>simp add: emit_lambda_arity\<close>)
qed

lemma call_lambda:
  assumes "fits_call V ps t k (call_depth V ps as) d" "args_ok E V row ps as" "k = ELambda op \<or> k = EArrayReduce"
  shows "emits_tail V row (length ps) d (emit_call E k (call_code E ps as)) (\<lambda>vals. eval_call V E row k (call_eval V E row ps as vals))"
    "d = 0 \<Longrightarrow> call_ok E V row ps d k as"
proof -
  have d: "d < StackSize" using assms(1) by (simp add: fits_call_def Let_def)
  have "emits_tail V row (length ps) d (emit_call E k (call_code E ps as)) (\<lambda>vals. eval_call V E row k (call_eval V E row ps as vals)) \<and>
      (d = 0 \<longrightarrow> call_ok E V row ps d k as)"
    using assms(3)
  proof
    assume k: "k = ELambda op"
    then obtain a b where as: "as = [a, b]"
      using assms(1) by (auto simp: fits_call_def Let_def length_Suc_conv numeral_2_eq_2)
    then have f: "op \<in> set lambda_ops" "lambda_arity op = 1" "cf_bodies (call_depth V ps as) ! 1" "compiled E V row ps d a"
      using k assms(1) args_okD(1) [OF assms(2), of a d] by (auto simp: fits_call_def Let_def lambda_arity_def)
    then have args: "emits_args V row (length ps) d [compile E ps a] [\<lambda>vals. eval_expr V E row ps vals a]" by simp
    have "emits_top V row (length ps) d (length [compile E ps a]) (emit_lambda op 1 1 (call_code E ps as))
        (\<lambda>vals. lambda_value op (cv_bodies (call_eval V E row ps as vals) ! 1))"
      using lambda_top [OF assms(2) _ f(3,1) _ d, of 1] f(2) as by simp
    from emits_top_args [OF args this] show ?thesis
      using k as by (simp add: emit_call_def lfEmitLambdaOp_def eval_call_def Let_def del: seq.simps)
  next
    assume k: "k = EArrayReduce"
    then obtain a b c where as: "as = [a, b, c]"
      using assms(1) by (auto simp: fits_call_def Let_def length_Suc_conv numeral_3_eq_3)
    then have f: "cf_bodies (call_depth V ps as) ! 2" "compiled E V row ps d a" "compiled E V row ps (Suc d) b"
      using k assms(1) args_okD(1) [OF assms(2)] by (auto simp: fits_call_def Let_def)
    then have args: "emits_args V row (length ps) d [compile E ps a, compile E ps b]
        [\<lambda>vals. eval_expr V E row ps vals a, \<lambda>vals. eval_expr V E row ps vals b]" by simp
    have "emits_top V row (length ps) d (length [compile E ps a, compile E ps b]) (emit_lambda OpArrayReduce 2 2 (call_code E ps as))
        (\<lambda>vals. lambda_value OpArrayReduce (cv_bodies (call_eval V E row ps as vals) ! 2))"
      using lambda_top [OF assms(2) _ f(1), of OpArrayReduce 2 d] as d by (simp add: lambda_ops_def lambda_arity_def numeral_2_eq_2)
    from emits_top_args [OF args this] show ?thesis
      using k as by (simp add: emit_call_def lfEmitArrayReduce_def eval_call_def Let_def del: seq.simps)
  qed
  then show "emits_tail V row (length ps) d (emit_call E k (call_code E ps as)) (\<lambda>vals. eval_call V E row k (call_eval V E row ps as vals))"
    "d = 0 \<Longrightarrow> call_ok E V row ps d k as" by blast+
qed

lemma call_count:
  assumes "fits_call V ps t EArrayCount (call_depth V ps as) d" "args_ok E V row ps as"
  shows "call_ok E V row ps d EArrayCount as"
proof -
  have d: "d < StackSize" "d = 0" using assms(1) by (simp_all add: fits_call_def Let_def)
  have "fits_call V ps t (ELambda OpArrayFilter) (call_depth V ps as) d"
    using assms(1) by (auto simp: fits_call_def Let_def lambda_ops_def opcode_defs)
  from call_lambda(2) [OF this assms(2)] d(2) have "call_ok E V row ps d (ELambda OpArrayFilter) as" by simp
  from emits_fixed1 [OF this, of OpLen] show ?thesis
    using d(1) by (simp add: emit_call_def lfEmitArrayCount_def eval_call_def Let_def del: seq.simps)
qed

lemma call_if:
  assumes "fits_call V ps t EIf (call_depth V ps as) d" "args_ok E V row ps as"
  shows "emits_tail V row (length ps) d (emit_call E EIf (call_code E ps as)) (\<lambda>vals. eval_call V E row EIf (call_eval V E row ps as vals))"
proof -
  obtain a b c where as: "as = [a, b, c]"
    using assms(1) by (auto simp: fits_call_def Let_def length_Suc_conv numeral_3_eq_3)
  then have "compiled E V row ps d a" "compiled_tail E V row ps (Suc d) b" "compiled_tail E V row ps (Suc d) c" "Suc d < StackSize"
    using assms(1) args_okD(1,2) [OF assms(2)] by (auto simp: fits_call_def Let_def)
  then show ?thesis
    using emits_If [of V row "length ps" d "call_code E ps as"] as by (simp add: emit_call_def eval_call_def Let_def)
qed

lemma call_correct:
  assumes "fits_call V ps t k (call_depth V ps as) d" "args_ok E V row ps as"
  shows "emits_tail V row (length ps) d (emit_call E k (call_code E ps as)) (\<lambda>vals. eval_call V E row k (call_eval V E row ps as vals))"
    "\<not> t \<Longrightarrow> call_ok E V row ps d k as"
proof -
  consider (val) "call_ok E V row ps d k as" | (lam) op where "k = ELambda op \<or> k = EArrayReduce" "t \<or> d = 0" | (cond) "k = EIf" "t"
    using assms(1) call_fixed [OF assms] call_variadic [OF _ assms(2)] call_optional [OF assms] call_one [OF assms] call_rest [OF assms]
      call_count [OF _ assms(2)]
    by (cases k) (auto simp: fits_call_def Let_def)
  then have "emits_tail V row (length ps) d (emit_call E k (call_code E ps as)) (\<lambda>vals. eval_call V E row k (call_eval V E row ps as vals)) \<and>
      (\<not> t \<longrightarrow> call_ok E V row ps d k as)"
  proof cases
    case val
    then show ?thesis by (simp add: emits_tail_of_value)
  next
    case lam
    then show ?thesis using call_lambda [OF assms lam(1)] by blast
  next
    case cond
    then show ?thesis using call_if [OF _ assms(2)] assms(1) by blast
  qed
  then show "emits_tail V row (length ps) d (emit_call E k (call_code E ps as)) (\<lambda>vals. eval_call V E row k (call_eval V E row ps as vals))"
    "\<not> t \<Longrightarrow> call_ok E V row ps d k as" by blast+
qed

subsection \<open>Expressions\<close>

definition right_code :: "lf_env \<Rightarrow> vm_lib \<Rightarrow> row \<Rightarrow> gostring list \<Rightarrow> bool \<Rightarrow> Expr \<Rightarrow> nat \<Rightarrow> bool" where
  "right_code E V row ps t e d \<longleftrightarrow> compiled_tail E V row ps d e \<and> (\<not> t \<longrightarrow> compiled E V row ps d e)"

lemma right_value: "compiled E V row ps d e \<Longrightarrow> right_code E V row ps t e d"
  by (simp add: right_code_def emits_tail_of_value)

lemma right_codeD: "right_code E V row ps False e d \<Longrightarrow> compiled E V row ps d e"
  by (simp add: right_code_def)

lemma right_call:
  assumes "fits V ps t (Call receiver safeNav callee bang es) d" "args_ok E V row ps (call_args receiver es)"
  shows "right_code E V row ps t (Call receiver safeNav callee bang es) d"
proof -
  let ?as = "call_args receiver es"
  obtain k where k: "call_kind callee bang = Some k" "fits_call V ps t k (call_depth V ps ?as) d" "receiver = None \<or> \<not> safeNav"
    using assms(1) by (auto simp: Let_def split: option.splits)
  have "(case receiver of Some r \<Rightarrow> if safeNav then safe_nav_prefix (compile E ps r) else seq [] | None \<Rightarrow> seq []) = seq []"
    using k(3) by (auto split: option.splits)
  then have c: "compile E ps (Call receiver safeNav callee bang es) p = Inr q \<Longrightarrow> emit_call E k (call_code E ps ?as) p = Inr q" for p q
    using compileCall_kind [OF k(1)] by (auto simp: Let_def elim!: bind_InrE)
  have e: "eval_expr V E row ps vals (Call receiver safeNav callee bang es) = eval_call V E row k (call_eval V E row ps ?as vals)" for vals
    using k(1) by (simp add: Let_def)
  show ?thesis
    unfolding right_code_def e
    using emits_tail_sub [OF call_correct(1) [OF k(2) assms(2)] c] emits_sub [OF call_correct(2) [OF k(2) assms(2)] c] by blast
qed

lemma right_object:
  assumes "fits V ps t (Object kvs) d" "\<And>e d. e \<in> snd ` set kvs \<Longrightarrow> fits V ps False e d \<Longrightarrow> compiled E V row ps d e"
  shows "compiled E V row ps d (Object kvs)"
proof -
  let ?fs = "map (\<lambda>kv. compile E ps (snd kv)) kvs" and ?gs = "map (\<lambda>kv vals. eval_expr V E row ps vals (snd kv)) kvs"
  have "\<forall>i < length ?fs. emits_value V row (length ps) (Suc (d + 2 * i)) (?fs ! i) (?gs ! i)"
    using stacked_interleave [of V ps kvs d] assms by (auto intro!: assms(2))
  moreover have "d + 2 * length ?fs \<le> StackSize" "d < StackSize"
    using stacked_interleave_length [of V ps kvs d] assms(1) by auto
  ultimately show ?thesis
    using emits_Object [of ?fs V row "length ps" d ?gs "map fst kvs"]
    by (simp add: zip_map_map zip_same_conv_map case_prod_unfold comp_def del: seq.simps)
qed

lemma In_other:
  assumes "\<And>es. b \<noteq> Array es"
  shows "compile E ps (In a b) = seq [compile E ps a, compile E ps b, emit OpInStrict [0]]"
    "eval_expr V E row ps vals (In a b) = bind (eval_expr V E row ps vals a) (\<lambda>v. bind (eval_expr V E row ps vals b) (in_value (vl_go V) v))"
    "fits V ps t (In a b) d \<longleftrightarrow> fits V ps False a d \<and> fits V ps False b (Suc d)"
  using assms by (cases b; simp)+

lemma right_in:
  assumes "fits V ps t (In a b) d" "\<And>e d. size e < size (In a b) \<Longrightarrow> fits V ps False e d \<Longrightarrow> compiled E V row ps d e"
  shows "compiled E V row ps d (In a b)"
proof (cases "\<exists>es. b = Array es")
  case True
  then obtain es where b: "b = Array es" by blast
  have d: "d < StackSize" by (rule fits_depth [OF assms(1)])
  show ?thesis
  proof (cases "es = []")
    case True
    then show ?thesis
      using b emits_control [of OpConstFalse "BoolValue False" d V row "length ps"] d by simp
  next
    case False
    have f: "fits V ps False a d" "stacked (map (fits V ps False) es) (Suc d)" using assms(1) b False by simp_all
    have "compiled E V row ps d a" using f(1) by (intro assms(2)) (simp_all add: b)
    moreover have "emits_args V row (length ps) (Suc d) (map (compile E ps) es) (map (\<lambda>e vals. eval_expr V E row ps vals e) es)"
      using f(2) by (rule compiled_args) (auto simp: b intro!: assms(2) dest: member_sizes)
    moreover have "length es < 65536" using stacked_length [OF f(2)] by (simp add: StackSize_def)
    ultimately show ?thesis
      using emits_In [of V row "length ps" d "compile E ps a" "map (compile E ps) es" "\<lambda>vals. eval_expr V E row ps vals a"
        "map (\<lambda>e vals. eval_expr V E row ps vals e) es"] False b d by (simp add: comp_def del: seq.simps)
  qed
next
  case False
  then have b: "\<And>es. b \<noteq> Array es" by blast
  have "compiled E V row ps d a" "compiled E V row ps (Suc d) b"
    using assms(1) by (auto simp: In_other(3) [OF b] intro!: assms(2))
  then show ?thesis
    using emits_In_container fits_depth [OF assms(1)] by (simp add: In_other(1,2) [OF b] del: seq.simps)
qed

lemma right_member:
  assumes "fits V ps t (Member obj f) d" "fits V ps False obj d \<Longrightarrow> compiled E V row ps d obj"
  shows "compiled E V row ps d (Member obj f)"
proof (cases "collectIdentMemberPath (Member obj f)")
  case None
  then show ?thesis using assms emits_member [of V row "length ps" d "compile E ps obj"] by (simp add: compileMember_def del: collectIdentMemberPath.simps)
next
  case (Some parts)
  then show ?thesis using assms emits_path [of d ps V row parts] by (simp add: compileMember_def del: collectIdentMemberPath.simps)
qed

lemma right_safe_member:
  assumes "fits V ps t (SafeMember obj f) d" "fits V ps False obj d \<Longrightarrow> compiled E V row ps d obj"
  shows "compiled E V row ps d (SafeMember obj f)"
proof (cases "collectIdentSafeMemberPath (SafeMember obj f)")
  case None
  then show ?thesis
    using assms emits_member [of V row "length ps" d "compile E ps obj"] fits_depth [of V ps False obj d] by (simp add: compileSafeMember_def del: collectIdentSafeMemberPath.simps)
next
  case (Some parts)
  then show ?thesis
    using assms emits_LoadPath [of d V row "length ps" "join_path parts"] by (simp add: compileSafeMember_def path_value_def del: collectIdentSafeMemberPath.simps)
qed

lemma right_slice:
  assumes "fits V ps t (Slice obj start stop) d"
    "\<And>e d. size e < size (Slice obj start stop) \<Longrightarrow> fits V ps False e d \<Longrightarrow> compiled E V row ps d e"
  shows "compiled E V row ps d (Slice obj start stop)"
proof -
  let ?f = "case start of Some e \<Rightarrow> compile E ps e | None \<Rightarrow> compileLiteral (LitInt 0)"
  let ?g = "\<lambda>vals. case start of Some e \<Rightarrow> eval_expr V E row ps vals e | None \<Rightarrow> Inr (IntValue 0)"
  let ?f' = "case stop of Some e \<Rightarrow> compile E ps e | None \<Rightarrow> emit OpConstNull []"
  let ?g' = "\<lambda>vals. case stop of Some e \<Rightarrow> eval_expr V E row ps vals e | None \<Rightarrow> Inr NullValue"
  have 1: "compiled E V row ps d obj" "d < StackSize" using assms(1) by (auto intro!: assms(2) dest: fits_depth)
  have 2: "emits_value V row (length ps) (Suc d) ?f ?g"
    using assms emits_literal [of "Suc d" V row "length ps" "LitInt 0"] by (cases start) (auto simp: literal_value_def)
  have 3: "emits_value V row (length ps) (d + 2) ?f' ?g'"
    using assms emits_control [of OpConstNull NullValue "d + 2" V row "length ps"] by (cases stop) (auto simp: literal_value_def)
  from emits_op3 [where h = "\<lambda>ps. fixed_value V OpSlice", OF 1(1) 2 3] show ?thesis
    using emits_fixed [OF arities(12) 1(2)] by simp
qed

lemma compile_right: "fits V ps t e d \<Longrightarrow> right_code E V row ps t e d"
proof (induction e arbitrary: ps t d rule: measure_induct_rule [of size])
  case (less e)
  have sub: "compiled E V row qs d e'" if "size e' < size e" "fits V qs False e' d" for e' qs d
    using less.IH [OF that] by (rule right_codeD)
  have tail: "compiled_tail E V row qs d e'" if "size e' < size e" "fits V qs True e' d" for e' qs d
    using less.IH [OF that] by (simp add: right_code_def)
  have d: "d < StackSize" by (rule fits_depth [OF less.prems])
  show ?case
  proof (cases e)
    case (Call receiver safeNav callee bang es)
    have "args_ok E V row ps (call_args receiver es)"
      unfolding args_ok_def using member_sizes Call by (intro conjI ballI allI impI sub tail) auto
    then show ?thesis using right_call less.prems Call by blast
  next
    case (Paren e')
    then show ?thesis using less.IH [of e' ps t d] less.prems by (simp add: right_code_def)
  next
    case (Array es)
    then have "emits_args V row (length ps) d (map (compile E ps) es) (map (\<lambda>e vals. eval_expr V E row ps vals e) es)" "length es < 65536"
      using less.prems sub by (auto intro!: compiled_args dest: member_sizes stacked_length simp: StackSize_def)
    then show ?thesis
      using emits_Array [of V row "length ps" d "map (compile E ps) es" "map (\<lambda>e vals. eval_expr V E row ps vals e) es"] d Array
      by (intro right_value) (simp add: comp_def del: seq.simps)
  next
    case (Literal lit)
    then show ?thesis using emits_literal [OF d, of V row "length ps" lit] by (intro right_value) simp
  next
    case (Ident name)
    then show ?thesis using emits_Ident [OF d, of ps V row name] less.prems by (intro right_value) simp
  next
    case (Unary op a)
    then show ?thesis using emits_Unary [OF sub [of a ps d] d, of op] less.prems by (intro right_value) simp
  next
    case (Binary op a b)
    then show ?thesis
      using emits_Binary [OF sub [of a ps d] sub [of b ps "if op = Binary_And \<or> op = Binary_Or then d else Suc d"] d] less.prems
      by (intro right_value) simp
  next
    case (In a b)
    then show ?thesis using less.prems sub by (intro right_value) (auto intro: right_in)
  next
    case (Between x lo hi)
    then show ?thesis
      using emits_Between [OF sub [of x ps d] sub [of lo ps "Suc d"] sub [of hi ps "Suc d"] d] less.prems by (intro right_value) simp
  next
    case (Member obj f)
    then show ?thesis using right_member [of V ps t obj f d] less.prems sub [of obj ps d] by (intro right_value) simp
  next
    case (SafeMember obj f)
    then show ?thesis using right_safe_member [of V ps t obj f d] less.prems sub [of obj ps d] by (intro right_value) simp
  next
    case (Index obj idx)
    then show ?thesis
      using emits_fixed2 [OF sub [of obj ps d] sub [of idx ps "Suc d"] _ d, of OpIndex] less.prems by (intro right_value) simp
  next
    case (Slice obj start stop)
    have "fits V ps t (Slice obj start stop) d" using less.prems Slice by simp
    from right_slice [OF this sub] show ?thesis unfolding Slice by (intro right_value) (simp add: Slice)
  next
    case (Object kvs)
    then have "compiled E V row ps n v" if "v \<in> snd ` set kvs" "fits V ps False v n" for v n
      using that by (intro sub) (auto dest: member_sizes)
    from right_object [OF _ this] show ?thesis using less.prems unfolding Object by (intro right_value)
  qed (use less.prems in simp_all)
qed

subsection \<open>Programs\<close>

text \<open>The states a run may start from: no lambda is running, and the cache holds what its source parses to.\<close>

definition ready :: "vm_lib \<Rightarrow> VM \<Rightarrow> bool" where
  "ready V s \<longleftrightarrow> vm_lambdaParams s = [] \<and> cache_ok V s"

lemma program_runs:
  assumes P: "CompileLynxFlow E e = Inr P" and e: "fits V [] True e 0" and a: "addressable P" and s: "ready V s"
  shows "\<exists>n s'. run n V P 0 (s\<lparr>vm_sp := 0, vm_predicateCtx := None, vm_fields := row\<rparr>) = Some (eval_expr V E row [] [] e, s') \<and>
    state_ok V row [] s'"
proof -
  obtain q where q: "compile E [] e empty_program = Inr q" "P = q\<lparr>pr_Instructions := pr_Instructions q @ Make OpReturn []\<rparr>"
    using P by (auto simp: CompileLynxFlow_def emit_Inr elim!: bind_InrE)
  have "compiled_tail E V row [] 0 e" using compile_right [OF e] by (simp add: right_code_def)
  from emits_tailD(2) [OF this q(1), of "pr_Instructions q"]
  have d: "does_tail V row 0 0 0 (pr_Instructions q) q (\<lambda>vals. eval_expr V E row [] vals e)"
    by (simp add: empty_program_def Program_Len_def)
  have code: "code_at P 0 (pr_Instructions q)" "code_at P (length (pr_Instructions q)) (Make OpReturn [])"
    using q(2) by (simp_all add: code_at_def)
  have "ends_tail V P row [] 0 [] (length (pr_Instructions q)) (eval_expr V E row [] [] e)"
    using does_tailD [OF d code(1) _ a, of "[]" "[]"] q(2) by simp
  moreover have "halts V P (length (pr_Instructions q)) (topped V row [] v) (Inr v) (state_ok V row [])" for v
    by (rule halts_Return [OF code(2)]) (simp add: topped_def)
  ultimately have h: "halts V P 0 (view V row [] []) (eval_expr V E row [] [] e) (state_ok V row [])"
    by (cases "eval_expr V E row [] [] e") (auto simp: ends_tail_def intro: leads_halts)
  let ?s = "s\<lparr>vm_sp := 0, vm_predicateCtx := None, vm_fields := row\<rparr>"
  have "view V row [] [] ?s" using s by (simp add: ready_def view_def stk_def state_ok_def cache_ok_def)
  then show ?thesis using h unfolding halts_def by blast
qed

end
