(* ===== verification/LF_Program.thy ===== *)
theory LF_Program
  imports LF_Correct
begin

text \<open>
  Compiled programs as a whole: what running one returns, which errors it can return, that it does
  not matter on which machine it runs, and how long its code is.
\<close>

subsection \<open>Errors of the evaluator\<close>

definition value_error :: "vm_error \<Rightarrow> bool" where
  "value_error e \<longleftrightarrow> e = ErrVMTypeMismatch \<or> (\<exists>name. e = ErrStrictCast name)"

definition soft :: "vm_error + 'a \<Rightarrow> bool" where
  "soft r \<longleftrightarrow> (\<forall>e. r = Inl e \<longrightarrow> value_error e)"

named_theorems soft_intros

lemma soft_Inr [simp]: "soft (Inr v)"
  by (simp add: soft_def)

lemma soft_bind [soft_intros]: "soft r \<Longrightarrow> (\<And>v. r = Inr v \<Longrightarrow> soft (f v)) \<Longrightarrow> soft (bind r f)"
  by (cases r) (auto simp: soft_def)

lemma soft_quietly [simp]: "soft (quietly r)"
  by (simp add: quietly_def)

lemma soft_op_result [simp]: "soft (op_result f vs)"
  by (auto simp: op_result_def soft_def value_error_def split: option.splits)

lemma soft_all_values [soft_intros]: "(\<And>r. r \<in> set rs \<Longrightarrow> soft r) \<Longrightarrow> soft (all_values rs)"
  by (induction rs) (auto intro!: soft_bind)

lemma soft_fixed [soft_intros]: "fixed_arity V op = Some n \<Longrightarrow> soft (fixed_value V op vs)"
  by (auto simp: fixed_arity_def fixed_value_def)

lemma soft_counted [soft_intros]: "counted_takes V op n \<Longrightarrow> soft (counted_value V op vs)"
  by (auto simp: counted_takes_def counted_value_def split: option.splits)

lemma soft_strict_value: "op \<noteq> Binary_And \<Longrightarrow> op \<noteq> Binary_Or \<Longrightarrow> soft (strict_value L op a b)"
  by (cases op) (simp_all add: strict_value_def compare_value_def)

lemma soft_binary: "soft l \<Longrightarrow> soft r \<Longrightarrow> soft (binary_value L op l r)"
  by (auto simp: binary_value_def and_value_def or_value_def intro!: soft_bind soft_strict_value)

lemma soft_unary [simp]: "soft (unary_value op v)"
  by (cases op) (simp_all add: unary_value_def)

lemma soft_in [simp]: "soft (in_value L v c)"
  by (cases c) simp_all

lemma soft_case: "(\<And>r. r \<in> set rs \<Longrightarrow> soft r) \<Longrightarrow> soft (case_value rs)"
  by (induction rs rule: case_value.induct) (auto intro!: soft_bind)

lemma soft_loops:
  assumes "\<And>vs. soft (g vs)"
  shows "soft (any_value g xs h)" "soft (all_value g xs h)" "soft (filter_value g xs)" "soft (reduce_value g xs acc)"
proof -
  show "soft (any_value g xs h)" by (induction xs arbitrary: h) (auto intro!: soft_bind assms)
  show "soft (all_value g xs h)" by (induction xs arbitrary: h) (auto intro!: soft_bind assms)
  show "soft (filter_value g xs)" by (induction xs) (auto intro!: soft_bind assms)
  show "soft (reduce_value g xs acc)" by (induction xs arbitrary: acc) (auto intro!: soft_bind assms)
qed

lemma soft_lambda: "(\<And>vs. soft (g vs)) \<Longrightarrow> soft (lambda_value op g vs)"
  by (cases "vs ! 0") (auto simp: lambda_value_def intro!: soft_loops soft_bind soft_all_values)

lemma soft_strict_cast [simp]: "soft (strict_cast_value name v)"
  by (simp add: strict_cast_value_def soft_def value_error_def)

lemma stacked_member: "stacked (map (fits V ps t) es) d \<Longrightarrow> e \<in> set es \<Longrightarrow> \<exists>d'. fits V ps t e d'"
  by (induction es arbitrary: d) auto

lemma soft_call:
  assumes fit: "fits_call V ps t k (call_depth V ps as) d"
    and val: "\<And>e d u. e \<in> set as \<Longrightarrow> fits V ps u e d \<Longrightarrow> soft (eval_expr V E row ps vals e)"
    and body: "\<And>qs b xs. Lambda qs b \<in> set as \<Longrightarrow> fits V (ps @ qs) True b 0 \<Longrightarrow> soft (eval_expr V E row (ps @ qs) (vals @ xs) b)"
  shows "soft (eval_call V E row k (call_eval V E row ps as vals))"
proof -
  let ?rs = "map (eval_expr V E row ps vals) as"
  have all: "soft r" if "stacked (map (fits V ps False) as) d" "r \<in> set ?rs" for r d
    using that val by (auto dest!: stacked_member)
  have args: "soft (all_values ?rs)" "soft (all_values (?rs @ [Inr NullValue]))" if "stacked (map (fits V ps False) as) d" for d
    using all [OF that] by (auto intro!: soft_all_values)
  have nth: "soft (?rs ! i)" if "i < length as" "fits V ps u (as ! i) n" for i u n
    using that val by auto
  have lam: "soft ((cv_bodies (call_eval V E row ps as vals) ! i) xs)" if "i < length as" "cf_bodies (call_depth V ps as) ! i" for i xs
    using that body by (auto split: Expr.splits) (metis nth_mem)
  have cs: "soft (case_value ?rs)" if "\<forall>e \<in> set as. fits V ps False e d"
    using that val by (intro soft_case) auto
  have st: "soft (eval_expr V E row ps vals (as ! i))" if "stacked (map (fits V ps False) as) d" "i < length as" for i d
    using all [OF that(1)] that(2) by auto
  have two: "soft (eval_expr V E row ps vals (as ! i))" if i: "stacked (take 2 (map (fits V ps False) as)) d" "i < 2" "i < length as" for i d
  proof -
    have "as ! i \<in> set (take 2 as)" using i(2,3) by (auto simp: in_set_conv_nth intro!: exI [of _ i])
    then obtain d' where "fits V ps False (as ! i) d'" using stacked_member [of V ps False "take 2 as" d] i(1) by (auto simp: take_map)
    then show ?thesis using val i(3) by auto
  qed
  show ?thesis
    using fit args nth lam fixed_binary(14-16) arities(12) cs st two
    by (cases k)
       (auto simp: fits_call_def eval_call_def Let_def if_value_def
          intro!: soft_bind soft_lambda soft_strict_value split: option.split if_split
          intro: soft_fixed soft_counted)
qed

lemma soft_eval: "fits V ps t e d \<Longrightarrow> soft (eval_expr V E row ps vals e)"
proof (induction e arbitrary: ps t d vals rule: measure_induct_rule [of size])
  case (less e)
  note IH = less.IH
  have elems: "soft r" if r: "stacked (map (fits V ps False) es) n" "r \<in> set (map (eval_expr V E row ps vals) es)" "\<forall>x \<in> set es. size x < size e"
    for r es n
  proof -
    obtain x where x: "x \<in> set es" "r = eval_expr V E row ps vals x" using r(2) by auto
    then obtain d' where "fits V ps False x d'" using stacked_member [OF r(1)] by blast
    then show ?thesis using x r(3) IH by auto
  qed
  show ?case
  proof (cases e)
    case (Call receiver safeNav callee bang es)
    obtain k where "call_kind callee bang = Some k" "fits_call V ps t k (call_depth V ps (call_args receiver es)) d"
      using less.prems Call by (auto simp: Let_def split: option.splits)
    moreover from this(2) have "soft (eval_call V E row k (call_eval V E row ps (call_args receiver es) vals))"
      by (rule soft_call) (use IH Call in \<open>auto dest: member_sizes\<close>)
    ultimately show ?thesis using Call by (simp add: Let_def)
  next
    case (In a b)
    show ?thesis
    proof (cases "\<exists>es. b = Array es")
      case True
      then obtain es where b: "b = Array es" by blast
      have "soft r" if "es \<noteq> []" "r \<in> set (map (eval_expr V E row ps vals) es)" for r
        using that less.prems In b by (intro elems [of es "Suc d"]) (auto dest: member_sizes)
      then show ?thesis
        using less.prems In b IH [of a ps False d vals] by (auto intro!: soft_bind soft_all_values)
    next
      case False
      then have o: "\<And>es. b \<noteq> Array es" by blast
      then show ?thesis
        using less.prems In IH [of a ps False d vals] IH [of b ps False "Suc d" vals] by (auto simp: In_other(2,3) [OF o] intro!: soft_bind)
    qed
  next
    case (Array es)
    then have "soft r" if "r \<in> set (map (eval_expr V E row ps vals) es)" for r
      using that less.prems by (intro elems [of es d]) (auto dest: member_sizes)
    then show ?thesis using Array by (auto intro!: soft_bind soft_all_values)
  next
    case (Object kvs)
    have "size (snd (kvs ! i)) < size e" if "i < length kvs" for i
      using Object nth_mem [OF that] size_entries_member [of "fst (kvs ! i)" "snd (kvs ! i)" kvs] by simp
    then have "soft (eval_expr V E row ps vals (snd (kvs ! i)))" if "i < length kvs" for i
      using that less.prems Object stacked_interleave [of V ps kvs d i] by (intro IH [of _ ps False "Suc (d + 2 * i)"]) auto
    then have "soft (eval_expr V E row ps vals b)" if "(a, b) \<in> set kvs" for a b
      using that by (metis in_set_conv_nth snd_conv)
    then show ?thesis
      using Object by (auto intro!: soft_bind soft_all_values)
  next
    case (Slice obj start stop)
    then show ?thesis
      using less.prems IH [of obj ps False d vals] IH [of "the start" ps False "Suc d" vals] IH [of "the stop" ps False "d + 2" vals]
      by (cases start; cases stop) (auto intro!: soft_bind)
  next
    case (Binary op a b)
    then show ?thesis
      using less.prems IH [of a ps False d vals] IH [of b ps False "if op = Binary_And \<or> op = Binary_Or then d else Suc d" vals]
      by (auto intro!: soft_binary)
  next
    case (Between x lo hi)
    then show ?thesis
      using less.prems IH [of x ps False d vals] IH [of lo ps False "Suc d" vals] IH [of hi ps False "Suc d" vals]
      by (auto simp: between_value_def and_value_def intro!: soft_bind soft_binary)
  qed (use less.prems IH in \<open>auto intro!: soft_bind split: option.splits\<close>)
qed

subsection \<open>Running a program\<close>

lemma run_unique: "run n V P ip s = Some r \<Longrightarrow> run m V P ip s = Some r' \<Longrightarrow> r = r'"
  using vm_fuel.unique [of n "(V, P, ip, s)" r m r'] by simp

lemma recovered_soft: "soft r \<Longrightarrow> recovered r = r"
  by (cases r rule: recovered.cases) (auto simp: soft_def value_error_def)

lemma program_halts:
  assumes "CompileLynxFlow E e = Inr P" "fits V [] True e 0" "addressable P" "ready V s"
  shows "\<exists>n s'. Execute n V P row s = Some (eval_expr V E row [] [] e, s') \<and> ready V s'"
proof -
  obtain n s' where "run n V P 0 (s\<lparr>vm_sp := 0, vm_predicateCtx := None, vm_fields := row\<rparr>) = Some (eval_expr V E row [] [] e, s')"
    "state_ok V row [] s'" using program_runs [OF assms] by blast
  then have "Execute n V P row s = Some (eval_expr V E row [] [] e, s'\<lparr>vm_predicateCtx := None\<rparr>) \<and> ready V (s'\<lparr>vm_predicateCtx := None\<rparr>)"
    by (simp add: Execute_def ExecuteWithContext_def recovered_soft [OF soft_eval [OF assms(2)]] ready_def state_ok_def cache_ok_def)
  then show ?thesis by blast
qed

text \<open>One machine for a batch of rows: it is handed from row to row with its cache and its counters.\<close>

fun Execute_rows :: "nat \<Rightarrow> vm_lib \<Rightarrow> Program \<Rightarrow> row list \<Rightarrow> VM \<Rightarrow> (vm_error + Value) list option" where
  "Execute_rows n V P [] s = Some []"
| "Execute_rows n V P (row # rows) s =
     (case Execute n V P row s of
        None \<Rightarrow> None
      | Some (r, s') \<Rightarrow> map_option (Cons r) (Execute_rows n V P rows s'))"

lemma Execute_more: "Execute n V P row s = Some r \<Longrightarrow> n \<le> m \<Longrightarrow> Execute m V P row s = Some r"
  using vm_fuel.more [of n "(V, P, 0, s\<lparr>vm_sp := 0, vm_predicateCtx := None, vm_fields := row\<rparr>)" _ m]
  by (auto simp: Execute_def ExecuteWithContext_def)

lemma Execute_rows_more: "Execute_rows n V P rows s = Some rs \<Longrightarrow> n \<le> m \<Longrightarrow> Execute_rows m V P rows s = Some rs"
  by (induction rows arbitrary: s rs) (auto split: option.splits dest: Execute_more)

lemma batch_halts:
  assumes "CompileLynxFlow E e = Inr P" "fits V [] True e 0" "addressable P" "ready V s"
  shows "\<exists>n. Execute_rows n V P rows s = Some (map (\<lambda>row. eval_expr V E row [] [] e) rows)"
  using assms(4)
proof (induction rows arbitrary: s)
  case (Cons row rows)
  obtain n t where n: "Execute n V P row s = Some (eval_expr V E row [] [] e, t)" "ready V t"
    using program_halts [OF assms(1-3) Cons.prems] by blast
  obtain m where m: "Execute_rows m V P rows t = Some (map (\<lambda>row. eval_expr V E row [] [] e) rows)"
    using Cons.IH [OF n(2)] by blast
  have "Execute_rows (max n m) V P (row # rows) s = Some (map (\<lambda>row. eval_expr V E row [] [] e) (row # rows))"
    using Execute_more [OF n(1), of "max n m"] Execute_rows_more [OF m, of "max n m"] by simp
  then show ?case by blast
qed simp

subsection \<open>A sample expression\<close>

text \<open>
  \<^verbatim>\<open>if(x > 1 and any(xs, t -> t > x), "big", "small")\<close> over a row with a null in the array, with a
  library in which no string is a number.
\<close>

definition plain_go :: go_lib where
  "plain_go = \<lparr>gl_ParseFloat = \<lambda>_. None, gl_FormatFloat = \<lambda>_. [], gl_FormatTime = \<lambda>_. [], gl_FormatDuration = \<lambda>_. [],
     gl_Quote = \<lambda>s. s, gl_ToLower = \<lambda>s. s, gl_ToUpper = \<lambda>s. s, gl_TrimSpace = \<lambda>s. s, gl_runes = map (\<lambda>b. [b]),
     gl_int64 = \<lambda>_. 0\<rparr>"

definition plain_lib :: vm_lib where
  "plain_lib = \<lparr>vl_go = plain_go, vl_Unmarshal = \<lambda>_. None, vl_fragment = \<lambda>_. NullValue, vl_walk = \<lambda>_ _. NullValue,
     vl_timestamp = \<lambda>_. None, vl_rest = \<lambda>_ _ _ s. Halt (Inl ErrLibrary) s\<rparr>"

definition plain_env :: lf_env where
  "plain_env = \<lparr>le_regexp_ok = \<lambda>_. True, le_glob_ok = \<lambda>_. True, le_ParseCIDR = Some, le_Now = 0, le_ToLower = \<lambda>s. s,
     le_text = \<lambda>_. []\<rparr>"

definition new_vm :: VM where
  "new_vm = \<lparr>vm_stack = \<lambda>_. NullValue, vm_sp = 0, vm_jsonCache = None, vm_predicateCtx = None, vm_lambdaParams = [],
     vm_Warnings = None, vm_fields = \<lambda>_. None\<rparr>"

lemma ready_new_vm [simp]: "ready V new_vm"
  by (simp add: ready_def cache_ok_def new_vm_def)

definition sample_expr :: Expr where
  "sample_expr =
     Call None False (bs ''if'') False
       [Binary Binary_And (Binary Binary_Gt (Ident (bs ''x'')) (Literal (LitInt 1)))
          (Call None False (bs ''any'') False
             [Ident (bs ''xs''), Lambda [bs ''t''] (Binary Binary_Gt (Ident (bs ''t'')) (Ident (bs ''x'')))]),
        Literal (LitString (bs ''big'')), Literal (LitString (bs ''small''))]"

definition cast_expr :: Expr where
  "cast_expr = Call None False (bs ''int'') True [Literal (LitString (bs ''ab''))]"

definition sample_row :: row where
  "sample_row = [bs ''x'' \<mapsto> IntValue 2, bs ''xs'' \<mapsto> ArrayValue [IntValue 1, NullValue, IntValue 3]]"

definition program_of :: "Expr \<Rightarrow> Program" where
  "program_of e = (case CompileLynxFlow plain_env e of Inr P \<Rightarrow> P | Inl _ \<Rightarrow> empty_program)"

lemma program_ofI: "case CompileLynxFlow plain_env e of Inr P \<Rightarrow> addressable P | Inl _ \<Rightarrow> False \<Longrightarrow>
    CompileLynxFlow plain_env e = Inr (program_of e) \<and> addressable (program_of e)"
  by (auto simp: program_of_def split: sum.splits)

lemma sample_functions:
  "lookupLFFunc (bs ''if'') = Some (3, Some 3, EIf, None)"
  "lookupLFFunc (bs ''any'') = Some (2, Some 2, ELambda OpArrayAny, None)"
  "lookupLFFunc (bs ''int'') = Some (1, Some 1, EUnary OpToInt, Some (EStrictCast (bs ''int'') OpToInt))"
  by (simp_all add: lookupLFFunc_def buildLFFuncSpecs_def bs_inject del: bs_simps)

lemma sample_kinds:
  "call_kind (bs ''if'') False = Some EIf" "call_kind (bs ''any'') False = Some (ELambda OpArrayAny)"
  "call_kind (bs ''int'') True = Some (EStrictCast (bs ''int'') OpToInt)"
  by (simp_all add: call_kind_def sample_functions del: bs_simps)

lemma sample_comparisons:
  "strict_value plain_go Binary_Gt (IntValue 2) (IntValue 1) = Inr (BoolValue True)"
  "strict_value plain_go Binary_Gt (IntValue 1) (IntValue 2) = Inr (BoolValue False)"
  "strict_value plain_go Binary_Gt (IntValue 3) (IntValue 2) = Inr (BoolValue True)"
  "strict_value plain_go Binary_Gt NullValue (IntValue 2) = Inr NullValue"
  by code_simp+

lemma Make_sample:
  "Make OpLoadField [n] = OpLoadField # be16 n" "Make OpConstInt [n] = OpConstInt # be16 n" "Make OpConstStr [n] = OpConstStr # be16 n"
  "Make OpJumpIfNull3VL [n] = OpJumpIfNull3VL # be16 n" "Make OpJumpIfFalse [n] = OpJumpIfFalse # be16 n" "Make OpJump [n] = OpJump # be16 n"
  "Make OpLoadLambdaParam [n] = OpLoadLambdaParam # be16 n" "Make OpArrayAny [n] = OpArrayAny # be16 n"
  "Make OpGtStrict [] = [OpGtStrict]" "Make OpAnd3VLNull [] = [OpAnd3VLNull]" "Make OpAddStrict [] = [OpAddStrict]"
  "Make OpToInt [] = [OpToInt]" "Make OpIsNull [] = [OpIsNull]"
  by (simp_all add: Make_def OperandWidths_def two_byte_ops_def opcode_defs)

lemmas emit_defs = emit_field_def emit_const_def emit_def EmitOp_def AddFieldName_def AddConstant_def AddSubProgram_def
  add_unique_def compileLiteral_def compileIdent_def compileBinary_def compileAnd3VL_def short_circuit_def compileCall_def
  emit_call_def lfEmitIf_def lfEmitLambdaOp_def emit_lambda_def compileLambdaBody_def lambdaParamDepth_def binary_opcode_def
  empty_program_def Program_Len_def PatchUint16_def checkArity_def call_args_def

lemma sample_fits: "fits plain_lib [] True sample_expr 0"
  by (simp add: sample_expr_def sample_kinds bs_inject StackSize_def fits_call_def call_args_def lambda_ops_def OpArrayAny_def
        OpArrayReduce_def del: bs_simps)

lemma sample_eval: "eval_expr plain_lib plain_env sample_row [] [] sample_expr = Inr (StringValue (bs ''big''))"
  by (simp add: sample_expr_def sample_row_def sample_kinds sample_comparisons Let_def bs_inject call_args_def eval_call_def lambda_value_def
        binary_value_def and_value_def scope_value_def if_value_def literal_value_def load_value_def plain_lib_def del: bs_simps)

lemma sample_compiles: "CompileLynxFlow plain_env sample_expr = Inr (program_of sample_expr) \<and> addressable (program_of sample_expr)"
  by (rule program_ofI)
     (simp add: CompileLynxFlow_def sample_expr_def emit_defs sample_functions Make_sample Make_control addressable_def be16_def
        bs_inject Let_def del: bs_simps)

lemmas sample = conjunct1 [OF sample_compiles] sample_fits conjunct2 [OF sample_compiles] ready_new_vm

subsection \<open>Correctness of the compiler\<close>

text \<open>
  (C1) Compiler correctness: an expression that compiles, keeps to the stack discipline and whose
  program is small enough for 16-bit addresses, run on a machine between two rows, returns the
  value (or the error) that the reference evaluator gives for the row, after finitely many
  instructions, and leaves the machine fit for the next row.
\<close>

theorem compile_correct:
  assumes "CompileLynxFlow E e = Inr P" "fits V [] True e 0" "addressable P" "ready V s"
  shows "\<exists>n s'. Execute n V P row s = Some (eval_expr V E row [] [] e, s') \<and> ready V s'"
  using assms by (rule program_halts)

theorem compile_correct_witness:
  "\<exists>n s'. Execute n plain_lib (program_of sample_expr) sample_row new_vm = Some (Inr (StringValue (bs ''big'')), s')"
  using compile_correct [OF sample, of sample_row] unfolding sample_eval by blast

text \<open>
  (C8) Type safety: running such a program ends, and the machine never reads or writes outside its stack,
  neither where the code checks the stack pointer nor where it relies on recovering from the panic, never
  meets an invalid operand or opcode and never leaves the code. The statement is about the machine before
  the recovery, where an access outside the stack is an error of its own: the only errors are a
  failed strict conversion and an operation on a value of the wrong type.
\<close>

theorem compiled_program_safe:
  assumes "CompileLynxFlow E e = Inr P" "fits V [] True e 0" "addressable P" "ready V s"
  shows "(\<exists>n r s'. run n V P 0 (s\<lparr>vm_sp := 0, vm_predicateCtx := None, vm_fields := row\<rparr>) = Some (r, s')) \<and>
    (\<forall>n err s'. run n V P 0 (s\<lparr>vm_sp := 0, vm_predicateCtx := None, vm_fields := row\<rparr>) = Some (Inl err, s') \<longrightarrow>
      err = ErrVMTypeMismatch \<or> (\<exists>name. err = ErrStrictCast name))"
proof -
  obtain m t where r: "run m V P 0 (s\<lparr>vm_sp := 0, vm_predicateCtx := None, vm_fields := row\<rparr>) = Some (eval_expr V E row [] [] e, t)"
    using program_runs [OF assms] by blast
  have "value_error err" if "run n V P 0 (s\<lparr>vm_sp := 0, vm_predicateCtx := None, vm_fields := row\<rparr>) = Some (Inl err, s')" for n err s'
    using run_unique [OF r that] soft_eval [OF assms(2), of E row "[]"] by (auto simp: soft_def)
  with r show ?thesis by (auto simp: value_error_def)
qed

lemma fixed_ToInt: "map_of (fixed_ops V) OpToInt = Some (un (toIntValue (vl_go V)))"
  by (simp add: op_tables opcode_defs)

lemma cast_compiles:
  "CompileLynxFlow plain_env cast_expr = Inr (program_of cast_expr) \<and> addressable (program_of cast_expr)"
  by (rule program_ofI)
     (simp add: CompileLynxFlow_def cast_expr_def emit_defs sample_functions Make_sample Make_control addressable_def be16_def
        lfStrictCast_def strict_check_def Let_def del: bs_simps)

lemma cast_fits: "fits plain_lib [] True cast_expr 0"
  by (simp add: cast_expr_def sample_kinds StackSize_def fits_call_def call_args_def fixed_arity_def fixed_ToInt un_def del: bs_simps)

lemma cast_of_text: "toIntValue (vl_go plain_lib) (StringValue (bs ''ab'')) = NullValue"
  by code_simp

lemma cast_eval: "eval_expr plain_lib plain_env row [] [] cast_expr = Inl (ErrStrictCast (bs ''int'' @ bs ''!''))"
  by (simp add: cast_expr_def sample_kinds Let_def call_args_def eval_call_def literal_value_def fixed_value_def fixed_ToInt un_def
        op_result_def strict_cast_value_def cast_of_text del: bs_simps toIntValue.simps)

theorem compiled_program_safe_witness:
  "\<exists>n err s'. run n plain_lib (program_of cast_expr) 0 (new_vm\<lparr>vm_sp := 0, vm_predicateCtx := None, vm_fields := Map.empty\<rparr>) = Some (Inl err, s') \<and>
     (err = ErrVMTypeMismatch \<or> (\<exists>name. err = ErrStrictCast name))"
proof -
  note cast = conjunct1 [OF cast_compiles] cast_fits conjunct2 [OF cast_compiles] ready_new_vm
  obtain n s' where "run n plain_lib (program_of cast_expr) 0 (new_vm\<lparr>vm_sp := 0, vm_predicateCtx := None, vm_fields := Map.empty\<rparr>) =
      Some (Inl (ErrStrictCast (bs ''int'' @ bs ''!'')), s')"
    using program_runs [OF cast, of Map.empty] unfolding cast_eval by blast
  then show ?thesis using compiled_program_safe [OF cast, of Map.empty] by blast
qed

text \<open>
  (C19) A machine that is reused for a batch of rows returns for each row what a new machine returns:
  the cached JSON document, the counters of warnings and the values left on the stack by earlier
  rows have no influence.
\<close>

theorem machine_reuse_invisible:
  assumes "CompileLynxFlow E e = Inr P" "fits V [] True e 0" "addressable P" "ready V s"
  shows "\<exists>n. Execute_rows n V P rows s = Some (map (\<lambda>row. fst (the (Execute n V P row new_vm))) rows)"
proof -
  obtain n where n: "Execute_rows n V P rows s = Some (map (\<lambda>row. eval_expr V E row [] [] e) rows)"
    using batch_halts [OF assms] by blast
  have "\<exists>m. \<forall>row \<in> set rows. \<exists>s'. Execute m V P row new_vm = Some (eval_expr V E row [] [] e, s')"
  proof (induction rows)
    case (Cons row rows)
    then obtain m where m: "\<forall>row \<in> set rows. \<exists>s'. Execute m V P row new_vm = Some (eval_expr V E row [] [] e, s')" by blast
    obtain k s' where k: "Execute k V P row new_vm = Some (eval_expr V E row [] [] e, s')"
      using program_halts [OF assms(1-3) ready_new_vm] by blast
    show ?case
      using m Execute_more [OF k, of "max k m"]
      by (intro exI [of _ "max k m"]) (auto, meson Execute_more max.cobounded2)
  qed simp
  then obtain m where m: "\<And>row. row \<in> set rows \<Longrightarrow> \<exists>s'. Execute m V P row new_vm = Some (eval_expr V E row [] [] e, s')" by blast
  have "fst (the (Execute (max n m) V P row new_vm)) = eval_expr V E row [] [] e" if "row \<in> set rows" for row
    using m [OF that] Execute_more [of m V P row new_vm _ "max n m"] by auto
  then show ?thesis
    using Execute_rows_more [OF n, of "max n m"] by (intro exI [of _ "max n m"]) simp
qed

theorem machine_reuse_invisible_witness:
  "\<exists>n. Execute_rows n plain_lib (program_of sample_expr) [sample_row, Map.empty] new_vm =
     Some (map (\<lambda>row. fst (the (Execute n plain_lib (program_of sample_expr) row new_vm))) [sample_row, Map.empty])"
  by (rule machine_reuse_invisible [OF sample])

end
