(* ===== verification/LF_Logic.thy ===== *)
theory LF_Logic
  imports LF_Program
begin

text \<open>
  Consequences for particular expressions: the connectives compute Kleene's three-valued logic, the
  code of nested connectives doubles with every level, and a conditional that is an operand loses
  the other operand.
\<close>

subsection \<open>Three truth values\<close>

datatype truth = No | Unknown | Yes

instantiation truth :: linorder
begin

fun truth_rank :: "truth \<Rightarrow> nat" where
  "truth_rank No = 0" | "truth_rank Unknown = 1" | "truth_rank Yes = 2"

definition less_eq_truth :: "truth \<Rightarrow> truth \<Rightarrow> bool" where "less_eq_truth a b \<longleftrightarrow> truth_rank a \<le> truth_rank b"

definition less_truth :: "truth \<Rightarrow> truth \<Rightarrow> bool" where "less_truth a b \<longleftrightarrow> truth_rank a < truth_rank b"

instance
proof
  fix x y :: truth
  show "x \<le> y \<Longrightarrow> y \<le> x \<Longrightarrow> x = y" by (cases x; cases y) (simp_all add: less_eq_truth_def)
qed (auto simp: less_eq_truth_def less_truth_def)

end

fun truth_value :: "truth \<Rightarrow> Value" where
  "truth_value No = BoolValue False"
| "truth_value Unknown = NullValue"
| "truth_value Yes = BoolValue True"

fun negated :: "truth \<Rightarrow> truth" where
  "negated No = Yes" | "negated Unknown = Unknown" | "negated Yes = No"

lemma connective_values:
  "and_value (Inr (truth_value x)) (Inr (truth_value y)) = Inr (truth_value (min x y))"
  "or_value (Inr (truth_value x)) (Inr (truth_value y)) = Inr (truth_value (max x y))"
  "unary_value Unary_Not (truth_value x) = Inr (truth_value (negated x))"
  by (cases x; cases y; simp add: and_value_def or_value_def unary_value_def quietly_def min_def max_def less_eq_truth_def)+

text \<open>
  (C20) The compiled connectives are Kleene's: with false below unknown below true, \<^verbatim>\<open>and\<close> is the
  minimum, \<^verbatim>\<open>or\<close> the maximum and \<^verbatim>\<open>not\<close> the reflection, whatever the operands are.
\<close>

theorem connectives_kleene:
  assumes a: "fits V [] False a 0" "eval_expr V E row [] [] a = Inr (truth_value x)"
    and b: "fits V [] False b 0" "eval_expr V E row [] [] b = Inr (truth_value y)"
    and P: "CompileLynxFlow E (Binary Binary_And a b) = Inr P" "addressable P"
    and Q: "CompileLynxFlow E (Binary Binary_Or a b) = Inr Q" "addressable Q"
    and R: "CompileLynxFlow E (Unary Unary_Not a) = Inr R" "addressable R"
    and s: "ready V s"
  shows "(\<exists>n s'. Execute n V P row s = Some (Inr (truth_value (min x y)), s')) \<and>
    (\<exists>n s'. Execute n V Q row s = Some (Inr (truth_value (max x y)), s')) \<and>
    (\<exists>n s'. Execute n V R row s = Some (Inr (truth_value (negated x)), s'))"
proof (intro conjI)
  show "\<exists>n s'. Execute n V P row s = Some (Inr (truth_value (min x y)), s')"
    using program_halts [OF P(1) _ P(2) s, of row] a b by (auto simp: binary_value_def connective_values)
  show "\<exists>n s'. Execute n V Q row s = Some (Inr (truth_value (max x y)), s')"
    using program_halts [OF Q(1) _ Q(2) s, of row] a b by (auto simp: binary_value_def connective_values)
  show "\<exists>n s'. Execute n V R row s = Some (Inr (truth_value (negated x)), s')"
    using program_halts [OF R(1) _ R(2) s, of row] a by (auto simp: connective_values)
qed

abbreviation yes_lit :: Expr where "yes_lit \<equiv> Literal (LitBool True)"

abbreviation null_lit :: Expr where "null_lit \<equiv> Literal LitNull"

lemma Make_Or3VLNull: "Make OpOr3VLNull [] = [OpOr3VLNull]" "Make OpNot3VL [] = [OpNot3VL]" "Make OpJumpIfTrue [n] = OpJumpIfTrue # be16 n"
  by (simp_all add: Make_def OperandWidths_def two_byte_ops_def opcode_defs)

lemma kleene_compiles:
  assumes "e \<in> {Binary Binary_And yes_lit null_lit, Binary Binary_Or yes_lit null_lit, Unary Unary_Not yes_lit}"
  shows "CompileLynxFlow plain_env e = Inr (program_of e) \<and> addressable (program_of e)"
  using assms
  by (intro program_ofI)
     (auto simp: CompileLynxFlow_def emit_defs compileOr3VL_def compileUnary_def Make_sample Make_Or3VLNull Make_control addressable_def
        be16_def Let_def)

theorem connectives_kleene_witness:
  "(\<exists>n s'. Execute n plain_lib (program_of (Binary Binary_And yes_lit null_lit)) Map.empty new_vm = Some (Inr (truth_value (min Yes Unknown)), s')) \<and>
   (\<exists>n s'. Execute n plain_lib (program_of (Binary Binary_Or yes_lit null_lit)) Map.empty new_vm = Some (Inr (truth_value (max Yes Unknown)), s')) \<and>
   (\<exists>n s'. Execute n plain_lib (program_of (Unary Unary_Not yes_lit)) Map.empty new_vm = Some (Inr (truth_value (negated Yes)), s'))"
  by (rule connectives_kleene [where a = yes_lit and b = null_lit and E = plain_env])
     (simp_all add: kleene_compiles StackSize_def literal_value_def)

subsection \<open>The size of nested connectives\<close>

text \<open>\<^verbatim>\<open>true and (true and (... true))\<close> with \<open>n\<close> connectives.\<close>

fun and_chain :: "nat \<Rightarrow> Expr" where
  "and_chain 0 = Literal (LitBool True)"
| "and_chain (Suc n) = Binary Binary_And (Literal (LitBool True)) (and_chain n)"

lemma and_chain_code:
  "\<exists>q. compile E ps (and_chain n) p = Inr q \<and> length (pr_Instructions q) + 15 = length (pr_Instructions p) + 16 * 2 ^ n \<and>
     (\<forall>x. q\<lparr>pr_Instructions := x\<rparr> = p\<lparr>pr_Instructions := x\<rparr>)"
proof (induction n arbitrary: p)
  case 0
  show ?case by (simp add: compileLiteral_def emit_def EmitOp_def Make_control)
next
  case (Suc n)
  let ?p0 = "p\<lparr>pr_Instructions := pr_Instructions p @ OpConstTrue # Make OpJumpIfNull3VL [0] @ Make OpJumpIfFalse [0]\<rparr>"
  obtain q where q: "compile E ps (and_chain n) ?p0 = Inr q"
      "length (pr_Instructions q) + 15 = length (pr_Instructions ?p0) + 16 * 2 ^ n" "\<And>x. q\<lparr>pr_Instructions := x\<rparr> = p\<lparr>pr_Instructions := x\<rparr>"
    using Suc.IH [of ?p0] by auto
  let ?p1 = "q\<lparr>pr_Instructions := pr_Instructions q @ Make OpJump [0]\<rparr>"
  obtain r where r: "compile E ps (and_chain n) ?p1 = Inr r"
      "length (pr_Instructions r) + 15 = length (pr_Instructions ?p1) + 16 * 2 ^ n" "\<And>x. r\<lparr>pr_Instructions := x\<rparr> = q\<lparr>pr_Instructions := x\<rparr>"
    using Suc.IH [of ?p1] by auto
  show ?case
    using q r
    by (simp add: compileBinary_def compileAnd3VL_def short_circuit_def compileLiteral_def emit_def EmitOp_def Make_sample Make_control
          PatchUint16_def Program_Len_def Let_def be16_def)
qed

text \<open>
  The code of a conjunction of literals \<open>true\<close> that is nested to the right doubles with every level,
  because the right operand is emitted twice: \<open>n\<close> connectives take \<open>16 * 2 ^ n - 14\<close> bytes. From
  thirteen levels on the code is longer than two-byte jump targets address, and the compiler still
  reports success.
\<close>

theorem and_chain_size:
  "\<exists>P. CompileLynxFlow E (and_chain n) = Inr P \<and> length (pr_Instructions P) + 14 = 16 * 2 ^ n \<and> (addressable P \<longleftrightarrow> n \<le> 12)"
proof -
  obtain q where q: "compile E [] (and_chain n) empty_program = Inr q" "length (pr_Instructions q) + 15 = 16 * 2 ^ n"
      "q\<lparr>pr_Instructions := []\<rparr> = empty_program\<lparr>pr_Instructions := []\<rparr>"
    using and_chain_code [of E "[]" n empty_program] by (auto simp: empty_program_def)
  have pools: "pr_Constants q = []" "pr_FieldNames q = []" "pr_SubPrograms q = []"
    using arg_cong [OF q(3), of pr_Constants] arg_cong [OF q(3), of pr_FieldNames] arg_cong [OF q(3), of pr_SubPrograms]
    by (simp_all add: empty_program_def)
  have "(16::nat) * 2 ^ n \<le> 65549 \<longleftrightarrow> n \<le> 12"
  proof
    show "(16::nat) * 2 ^ n \<le> 65549" if "n \<le> 12"
      using power_increasing [OF that, of "2::nat"] by simp
    show "n \<le> 12" if "(16::nat) * 2 ^ n \<le> 65549"
      using power_increasing [of 13 n "2::nat"] that by (cases "n \<le> 12") auto
  qed
  then show ?thesis
    using q(1,2) pools by (auto simp: CompileLynxFlow_def emit_def EmitOp_def Make_control addressable_def)
qed

subsection \<open>A conditional as an operand\<close>

text \<open>\<^verbatim>\<open>k + if(true, a, b)\<close>\<close>

definition add_if :: "u64 \<Rightarrow> u64 \<Rightarrow> u64 \<Rightarrow> Expr" where
  "add_if k a b =
     Binary Binary_Add (Literal (LitInt k))
       (Call None False (bs ''if'') False [Literal (LitBool True), Literal (LitInt a), Literal (LitInt b)])"

definition add_if_code :: bytes where
  "add_if_code =
     Make OpConstInt [0] @ if_code 3 (Make OpConstTrue []) (Make OpConstInt [1]) (Make OpConstInt [2]) @ Make OpAddStrict []
       @ Make OpReturn []"

lemma list_update_numeral: "(x # xs)[numeral n := v] = x # xs[pred_numeral n := v]"
  by (simp add: numeral_eq_Suc)

lemma add_if_compiles:
  "CompileLynxFlow E (add_if k a b) =
     Inr (empty_program\<lparr>pr_Instructions := add_if_code, pr_Constants := [IntValue k, IntValue a, IntValue b]\<rparr>)"
  by (simp add: CompileLynxFlow_def add_if_def add_if_code_def if_code_def emit_defs sample_functions Make_sample Make_control be16_def Let_def
        list_update_numeral del: bs_simps)

lemma add_if_runs:
  assumes P: "pr_Instructions P = add_if_code" "pr_Constants P = [IntValue k, IntValue a, IntValue b]"
  shows "halts V P 0 (view V row [] []) (Inr NullValue) (state_ok V row [])"
proof -
  have code: "code_at P 0 (Make OpConstInt [0])" "code_at P 3 (Make OpConstTrue [])" "code_at P 4 (Make OpDup [])"
    "code_at P 5 (Make OpJumpIfNull3VL [23])" "code_at P 8 (Make OpJumpIfFalse [17])" "code_at P 11 (Make OpConstInt [1])"
    "code_at P 14 (Make OpJump [25])" "code_at P 25 (Make OpAddStrict [])" "code_at P 26 (Make OpReturn [])"
    using P(1) by (simp_all add: code_at_def add_if_code_def if_code_def Make_sample Make_control be16_def Let_def)
  let ?v = "view V row []" and ?k = "IntValue k" and ?t = "BoolValue True"
  have 1: "leads V P 0 (?v []) 3 (?v [?k])"
    using leads_const [OF code(1), of "[]" V row "[]"] P(2) by (simp add: const_ops_def StackSize_def)
  have 2: "leads V P 3 (?v [?k]) 4 (?v [?k, ?t])"
    using leads_control [OF code(2), of ?t "[?k]" V row "[]"] by (simp add: StackSize_def)
  have 3: "leads V P 4 (?v [?k, ?t]) 5 (?v [?k, ?t, ?t])"
    using leads_Dup [OF code(3), of "[?k]" V row "[]" ?t] by (simp add: StackSize_def)
  have 4: "leads V P 5 (?v [?k, ?t, ?t]) 8 (?v [?k, ?t, ?t])"
    using leads_JumpIfNull3VL [OF code(4), of V row "[]" "[?k, ?t]" ?t] by simp
  have 5: "leads V P 8 (?v [?k, ?t, ?t]) 11 (?v [?k, ?t])"
    using leads_JumpIfFalse [OF code(5), of V row "[]" "[?k, ?t]" ?t] by simp
  have 6: "leads V P 11 (?v [?k, ?t]) 14 (?v [?k, ?t, IntValue a])"
    using leads_const [OF code(6), of "[?k, ?t]" V row "[]"] P(2) by (simp add: const_ops_def StackSize_def)
  have 7: "leads V P 14 (?v [?k, ?t, IntValue a]) 25 (?v [?k, ?t, IntValue a])"
    by (rule leads_Jump [OF code(7)]) simp
  have 8: "leads V P 25 (?v [?k, ?t, IntValue a]) 26 (?v [?k, NullValue])"
    using ends_fixed [OF code(8), of V "[?t, IntValue a]" _ "[?k]" row "[]"]
    by (simp add: fixed_binary bin_warn_def StackSize_def op_result_def addStrict_def warn_null_def ends_def)
  have 9: "halts V P 26 (?v [?k, NullValue]) (Inr NullValue) (state_ok V row [])"
    by (rule halts_Return [OF code(9)]) (metis append_Cons append_Nil)
  show ?thesis
    using leads_halts [OF leads_trans [OF 1 leads_trans [OF 2 leads_trans [OF 3 leads_trans [OF 4 leads_trans [OF 5
      leads_trans [OF 6 leads_trans [OF 7 8]]]]]]] 9] .
qed

text \<open>
  (C38) A conditional that is the right operand of an operator breaks it: the code of \<^verbatim>\<open>if\<close> leaves its
  condition on the stack below the chosen branch, so that \<^verbatim>\<open>k + if(true, a, b)\<close> adds \<open>a\<close> to the
  condition instead of \<open>k\<close> and returns null, although the reference evaluator gives \<open>k + a\<close>.
\<close>

theorem if_operand_lost:
  assumes "ready V s"
  shows "eval_expr V E row [] [] (add_if k a b) = Inr (IntValue (k + a)) \<and>
    (\<exists>P. CompileLynxFlow E (add_if k a b) = Inr P \<and> (\<exists>n s'. Execute n V P row s = Some (Inr NullValue, s')))"
proof
  show "eval_expr V E row [] [] (add_if k a b) = Inr (IntValue (k + a))"
    by (simp add: add_if_def sample_kinds Let_def call_args_def eval_call_def if_value_def binary_value_def strict_value_def
          literal_value_def quietly_def addStrict_def del: bs_simps)
  let ?P = "empty_program\<lparr>pr_Instructions := add_if_code, pr_Constants := [IntValue k, IntValue a, IntValue b]\<rparr>"
  have "view V row [] [] (s\<lparr>vm_sp := 0, vm_predicateCtx := None, vm_fields := row\<rparr>)"
    using assms by (simp add: view_def state_ok_def ready_def stk_def cache_ok_def)
  then obtain n s' where "run n V ?P 0 (s\<lparr>vm_sp := 0, vm_predicateCtx := None, vm_fields := row\<rparr>) = Some (Inr NullValue, s')"
    using add_if_runs [of ?P k a b V row] unfolding halts_def by auto
  then have "\<exists>n s'. Execute n V ?P row s = Some (Inr NullValue, s')"
    by (intro exI [of _ n]) (simp add: Execute_def ExecuteWithContext_def)
  then show "\<exists>P. CompileLynxFlow E (add_if k a b) = Inr P \<and> (\<exists>n s'. Execute n V P row s = Some (Inr NullValue, s'))"
    using add_if_compiles by blast
qed

theorem if_operand_lost_witness:
  "eval_expr plain_lib plain_env Map.empty [] [] (add_if 1 2 3) = Inr (IntValue 3) \<and>
   (\<exists>P. CompileLynxFlow plain_env (add_if 1 2 3) = Inr P \<and> (\<exists>n s'. Execute n plain_lib P Map.empty new_vm = Some (Inr NullValue, s')))"
  using if_operand_lost [OF ready_new_vm, of plain_lib plain_env Map.empty 1 2 3] by simp

end
