(* ===== verification/HyperLogLog.thy ===== *)
theory HyperLogLog
  imports Event_Value
begin

text \<open>
  The HyperLogLog sketch that counts distinct values: \<^verbatim>\<open>src/pkg/engine/pipeline/hll.go\<close>, with the hash
  FNV-1a of the standard library. The array of registers is a list of length 16384; an index outside
  it is a panic, \<open>None\<close>. The estimate is computed in float64 without fused operations; \<^verbatim>\<open>math.Log\<close> is a
  parameter, \<^verbatim>\<open>math.Pow\<close> is used on powers of two only and is exact there.

  Shown: a sketch is a function of the set of values added to it, in any order and with any
  repetitions, merging sketches is the union of the sets, and a sketch survives its encoding.
\<close>

subsection \<open>Hashes\<close>

definition fnv1a :: "u64 \<Rightarrow> bytes \<Rightarrow> u64" where
  "fnv1a h data = foldl (\<lambda>h b. (h XOR ucast b) * 1099511628211) h data"

definition fnv_offset :: u64 where "fnv_offset = 14695981039346656037"

definition splitmix :: "u64 \<Rightarrow> u64" where
  "splitmix x =
     (let x = x XOR drop_bit 30 x; x = x * 0xbf58476d1ce4e5b9;
          x = x XOR drop_bit 27 x; x = x * 0x94d049bb133111eb
      in x XOR drop_bit 31 x)"

definition hllHash :: "gostring \<Rightarrow> u64" where
  "hllHash value = splitmix (fnv1a fnv_offset value)"

text \<open>\<^verbatim>\<open>bits.LeadingZeros64\<close>.\<close>

definition LeadingZeros64 :: "u64 \<Rightarrow> nat" where
  "LeadingZeros64 x = 64 - floorlog 2 (unat x)"

subsection \<open>The sketch\<close>

record HyperLogLog =
  hll_registers :: "u8 list"
  hll_precision :: u8
  hll_m :: u32

definition NewHyperLogLog :: HyperLogLog where
  "NewHyperLogLog = \<lparr>hll_registers = replicate 16384 0, hll_precision = 14, hll_m = 16384\<rparr>"

text \<open>The register and the rank of a hash.\<close>

definition hll_index :: "u8 \<Rightarrow> u64 \<Rightarrow> nat" where
  "hll_index p x = unat (drop_bit (unat (64 - p)) x)"

definition hll_rank :: "u8 \<Rightarrow> u64 \<Rightarrow> u8" where
  "hll_rank p x = word_of_nat (LeadingZeros64 (push_bit (unat p) x OR 1)) + 1"

definition AddHash :: "u64 \<Rightarrow> HyperLogLog \<Rightarrow> HyperLogLog option" where
  "AddHash x h =
     (let idx = hll_index (hll_precision h) x; rho = hll_rank (hll_precision h) x in
      if length (hll_registers h) \<le> idx then None
      else if hll_registers h ! idx < rho then Some (h\<lparr>hll_registers := (hll_registers h)[idx := rho]\<rparr>)
      else Some h)"

definition HLL_Add :: "gostring \<Rightarrow> HyperLogLog \<Rightarrow> HyperLogLog option" where
  "HLL_Add value h = AddHash (hllHash value) h"

definition AddBytes :: "bytes \<Rightarrow> HyperLogLog \<Rightarrow> HyperLogLog option" where
  "AddBytes b h = AddHash (splitmix (fnv1a fnv_offset b)) h"

definition AddInt64 :: "u64 \<Rightarrow> HyperLogLog \<Rightarrow> HyperLogLog option" where
  "AddInt64 v h = AddBytes (PutUint64 v) h"

definition HLL_Merge :: "HyperLogLog \<Rightarrow> HyperLogLog \<Rightarrow> HyperLogLog" where
  "HLL_Merge h other =
     h\<lparr>hll_registers := map2 (\<lambda>a b. if a < b then b else a) (hll_registers h) (hll_registers other)\<rparr>"

subsection \<open>Estimates\<close>

text \<open>A decimal constant \<open>n / d\<close> of the source, and \<open>2\<^sup>-\<^sup>v\<close>, which is exact.\<close>

definition float_const :: "int \<Rightarrow> nat \<Rightarrow> u64" where
  "float_const n d = float_round False (n * float_unit) d"

definition pow2_neg :: "u8 \<Rightarrow> u64" where
  "pow2_neg v = float_round False (2 ^ (1074 - unat v)) 1"

definition HLL_Count :: "go_lib \<Rightarrow> (u64 \<Rightarrow> u64) \<Rightarrow> HyperLogLog \<Rightarrow> u64" where
  "HLL_Count L math_Log h =
     (let total = foldl (\<lambda>s v. float_add s (pow2_neg v)) 0 (hll_registers h);
          zeros = length (filter (\<lambda>v. v = 0) (hll_registers h));
          m = float_of_int (uint (hll_m h));
          alpha = float_div (float_const 7213 10000) (float_add (float_const 1 1) (float_div (float_const 1079 1000) m));
          estimate = float_div (float_mul (float_mul alpha m) m) total;
          estimate = (if float_le estimate (float_mul (float_const 25 10) m) \<and> 0 < zeros
                      then float_mul m (math_Log (float_div m (float_of_int (int zeros)))) else estimate)
      in int64_of_float L (float_add estimate (float_const 5 10)))"

definition StandardError :: "(u64 \<Rightarrow> u64) \<Rightarrow> HyperLogLog option \<Rightarrow> u64" where
  "StandardError math_Sqrt ho =
     (case ho of
        None \<Rightarrow> 0
      | Some h \<Rightarrow> if hll_m h = 0 then 0
                  else float_div (float_const 104 100) (math_Sqrt (float_of_int (uint (hll_m h)))))"

subsection \<open>Encoding\<close>

definition HLL_MarshalBinary :: "HyperLogLog \<Rightarrow> bytes" where
  "HLL_MarshalBinary h = hll_precision h # hll_registers h"

definition UnmarshalHyperLogLog :: "bytes \<Rightarrow> HyperLogLog option" where
  "UnmarshalHyperLogLog data =
     (if length data < 2 then None
      else let prec = hd data; m = push_bit (unat prec) 1; regs = take 16384 (tl data) in
        if (word_of_nat (length data - 1) :: u32) \<noteq> m then None
        else Some \<lparr>hll_registers = regs @ replicate (16384 - length regs) 0, hll_precision = prec, hll_m = m\<rparr>)"

subsection \<open>Sketches of sets\<close>

text \<open>The sketch of a set of values: every register holds the greatest rank of the hashes it is for.\<close>

definition register_of :: "gostring set \<Rightarrow> nat \<Rightarrow> u8" where
  "register_of S i = Max (insert 0 ((\<lambda>s. hll_rank 14 (hllHash s)) ` {s \<in> S. hll_index 14 (hllHash s) = i}))"

definition sketch :: "gostring set \<Rightarrow> HyperLogLog" where
  "sketch S = NewHyperLogLog\<lparr>hll_registers := map (register_of S) [0..<16384]\<rparr>"

lemma sketch_sel [simp]:
  "hll_registers (sketch S) = map (register_of S) [0..<16384]"
  "hll_precision (sketch S) = 14" "hll_m (sketch S) = 16384"
  by (simp_all add: sketch_def NewHyperLogLog_def)

lemma sketch_empty: "sketch {} = NewHyperLogLog"
proof -
  have "map (register_of {}) [0..<16384] = replicate 16384 0"
    by (rule nth_equalityI) (simp_all add: register_of_def)
  then show ?thesis by (simp add: sketch_def NewHyperLogLog_def)
qed

lemma hll_index_less: "hll_index 14 x < 16384"
proof -
  have "(64 :: u8) - 14 = 50" by simp
  moreover have "unat (50 :: u8) = 50" by simp
  ultimately show ?thesis using unat_drop_bit_less [of 50 x] by (simp only: hll_index_def) simp
qed

lemma register_of_insert:
  assumes "finite S"
  shows "register_of (insert s S) i =
    (if hll_index 14 (hllHash s) = i then max (hll_rank 14 (hllHash s)) (register_of S i) else register_of S i)"
proof -
  have "{t \<in> insert s S. hll_index 14 (hllHash t) = i} =
    (if hll_index 14 (hllHash s) = i then insert s {t \<in> S. hll_index 14 (hllHash t) = i}
     else {t \<in> S. hll_index 14 (hllHash t) = i})" by auto
  with assms show ?thesis by (simp add: register_of_def insert_commute [of 0] max.left_commute)
qed

lemma register_of_Un:
  "finite S \<Longrightarrow> finite T \<Longrightarrow> register_of (S \<union> T) i = max (register_of S i) (register_of T i)"
proof (induction S rule: finite_induct)
  case empty
  then show ?case by (simp add: register_of_def)
next
  case (insert s S)
  then show ?case by (simp add: register_of_insert max.assoc)
qed

lemma HLL_Add_sketch:
  assumes "finite S" shows "HLL_Add s (sketch S) = Some (sketch (insert s S))"
proof -
  let ?i = "hll_index 14 (hllHash s)" and ?r = "hll_rank 14 (hllHash s)"
  have eq: "map (register_of (insert s S)) [0..<16384] = (map (register_of S) [0..<16384])[?i := max ?r (register_of S ?i)]"
    using assms by (intro nth_equalityI) (simp_all add: nth_list_update register_of_insert)
  have "(map (register_of S) [0..<16384])[?i := register_of S ?i] = map (register_of S) [0..<16384]"
    using hll_index_less [of "hllHash s"] by (intro nth_equalityI) (simp_all add: nth_list_update)
  with eq show ?thesis
    using hll_index_less [of "hllHash s"] by (auto simp: HLL_Add_def AddHash_def sketch_def NewHyperLogLog_def max_def not_le Let_def)
qed

lemma HLL_Merge_sketch: "finite S \<Longrightarrow> finite T \<Longrightarrow> HLL_Merge (sketch S) (sketch T) = sketch (S \<union> T)"
  by (auto simp: HLL_Merge_def sketch_def NewHyperLogLog_def register_of_Un map2_map_map max_def not_less)

lemma Unmarshal_Marshal_sketch: "UnmarshalHyperLogLog (HLL_MarshalBinary (sketch S)) = Some (sketch S)"
  by (simp add: UnmarshalHyperLogLog_def HLL_MarshalBinary_def sketch_def NewHyperLogLog_def push_bit_eq_mult)

end
