(* ===== verification/T_Digest.thy ===== *)
theory T_Digest
  imports HyperLogLog
begin

text \<open>
  The t-digest that estimates quantiles: \<^verbatim>\<open>src/pkg/engine/pipeline/tdigest.go\<close>. Weights and means are
  float64 bit patterns with the arithmetic of \<open>Float64\<close>; \<^verbatim>\<open>sort.Slice\<close> is a parameter that gets the
  order the code passes to it.
\<close>

record centroid =
  ce_mean :: u64
  ce_count :: u64

record TDigest =
  td_centroids :: "centroid list"
  td_compression :: u64
  td_count :: u64
  td_maxSize :: int

type_synonym centroid_sort = "(centroid \<Rightarrow> centroid \<Rightarrow> bool) \<Rightarrow> centroid list \<Rightarrow> centroid list"

definition digest_size :: "go_lib \<Rightarrow> u64 \<Rightarrow> int" where
  "digest_size L compression = sint (int64_of_float L compression * 5)"

definition NewTDigest :: "go_lib \<Rightarrow> u64 \<Rightarrow> TDigest" where
  "NewTDigest L compression =
     (let compression = (if float_le compression 0 then float_of_int 100 else compression) in
      \<lparr>td_centroids = [], td_compression = compression, td_count = 0, td_maxSize = digest_size L compression\<rparr>)"

subsection \<open>Compression\<close>

definition centroid_less :: "centroid \<Rightarrow> centroid \<Rightarrow> bool" where
  "centroid_less a b =
     (if \<not> float_eq (ce_mean a) (ce_mean b) then float_lt (ce_mean a) (ce_mean b)
      else float_lt (ce_count a) (ce_count b))"

definition centroid_limit :: "TDigest \<Rightarrow> u64 \<Rightarrow> u64" where
  "centroid_limit td qRight =
     (let maxSize = float_div (float_mul (float_mul (float_mul (float_of_int 4) (td_count td)) qRight)
                                 (float_sub (float_of_int 1) qRight)) (td_compression td)
      in if float_lt maxSize (float_of_int 1) then float_of_int 1 else maxSize)"

fun compress_loop :: "TDigest \<Rightarrow> centroid \<Rightarrow> u64 \<Rightarrow> centroid list \<Rightarrow> centroid list" where
  "compress_loop td cur cumWeight [] = [cur]"
| "compress_loop td cur cumWeight (c # cs) =
     (let proposedCount = float_add (ce_count cur) (ce_count c);
          qRight = float_div (float_add cumWeight proposedCount) (td_count td)
      in if float_le proposedCount (centroid_limit td qRight)
         then compress_loop td
           \<lparr>ce_mean = float_div (float_add (float_mul (ce_mean cur) (ce_count cur))
                                  (float_mul (ce_mean c) (ce_count c))) proposedCount,
            ce_count = proposedCount\<rparr> cumWeight cs
         else cur # compress_loop td c (float_add cumWeight (ce_count cur)) cs)"

text \<open>Sorting keeps the length, so the first case below does not arise.\<close>

definition td_compress :: "centroid_sort \<Rightarrow> TDigest \<Rightarrow> TDigest" where
  "td_compress sort_Slice td =
     (if length (td_centroids td) \<le> 1 then td
      else case sort_Slice centroid_less (td_centroids td) of
             [] \<Rightarrow> td
           | c # cs \<Rightarrow> td\<lparr>td_centroids := compress_loop td c 0 cs\<rparr>)"

subsection \<open>Updates and quantiles\<close>

definition AddWeighted :: "centroid_sort \<Rightarrow> u64 \<Rightarrow> u64 \<Rightarrow> TDigest \<Rightarrow> TDigest" where
  "AddWeighted sort_Slice v weight td =
     (if float_le weight 0 \<or> is_NaN v \<or> is_NaN weight \<or> is_Inf v \<or> is_Inf weight then td
      else let td = td\<lparr>td_centroids := td_centroids td @ [\<lparr>ce_mean = v, ce_count = weight\<rparr>],
                       td_count := float_add (td_count td) weight\<rparr>
        in if td_maxSize td < int (length (td_centroids td)) then td_compress sort_Slice td else td)"

definition TDigest_Add :: "centroid_sort \<Rightarrow> u64 \<Rightarrow> TDigest \<Rightarrow> TDigest" where
  "TDigest_Add sort_Slice v td = AddWeighted sort_Slice v (float_of_int 1) td"

definition TDigest_Merge :: "centroid_sort \<Rightarrow> TDigest \<Rightarrow> TDigest \<Rightarrow> TDigest" where
  "TDigest_Merge sort_Slice td other =
     (let td = td\<lparr>td_centroids := td_centroids td @ td_centroids other,
                  td_count := float_add (td_count td) (td_count other)\<rparr>
      in if td_maxSize td < int (length (td_centroids td)) then td_compress sort_Slice td else td)"

text \<open>The loop over the centroids; \<open>first\<close> holds in its first round, \<open>prevMean\<close> ends as the last mean.\<close>

fun quantile_loop :: "u64 \<Rightarrow> bool \<Rightarrow> u64 \<Rightarrow> u64 \<Rightarrow> u64 \<Rightarrow> centroid list \<Rightarrow> u64" where
  "quantile_loop target first cumulative prevCenter prevMean [] = prevMean"
| "quantile_loop target first cumulative prevCenter prevMean (c # cs) =
     (let center = float_add cumulative (float_div (ce_count c) (float_of_int 2)) in
      if float_lt target center then
        (if first \<or> float_eq center prevCenter then ce_mean c
         else let frac = float_div (float_sub target prevCenter) (float_sub center prevCenter) in
           float_add prevMean (float_mul frac (float_sub (ce_mean c) prevMean)))
      else quantile_loop target False (float_add cumulative (ce_count c)) center (ce_mean c) cs)"

definition TDigest_Quantile :: "centroid_sort \<Rightarrow> u64 \<Rightarrow> TDigest \<Rightarrow> u64 \<times> TDigest" where
  "TDigest_Quantile sort_Slice q td =
     (if td_centroids td = [] then (0, td)
      else let td = td_compress sort_Slice td; cs = td_centroids td in
        if float_le q 0 then (ce_mean (hd cs), td)
        else if float_le (float_of_int 1) q then (ce_mean (last cs), td)
        else (quantile_loop (float_mul q (td_count td)) True 0 0 (ce_mean (hd cs)) cs, td))"

subsection \<open>Encoding\<close>

definition put_centroid :: "centroid \<Rightarrow> bytes" where
  "put_centroid c = PutUint64 (ce_mean c) @ PutUint64 (ce_count c)"

definition TDigest_MarshalBinary :: "TDigest \<Rightarrow> bytes" where
  "TDigest_MarshalBinary td =
     PutUint64 (td_compression td) @ PutUint64 (td_count td) @
     PutUint32 (word_of_nat (length (td_centroids td))) @ concat (map put_centroid (td_centroids td))"

fun get_centroids :: "nat \<Rightarrow> bytes \<Rightarrow> centroid list" where
  "get_centroids 0 data = []"
| "get_centroids (Suc n) data =
     \<lparr>ce_mean = Uint64 data, ce_count = Uint64 (drop 8 data)\<rparr> # get_centroids n (drop 16 data)"

definition UnmarshalTDigest :: "go_lib \<Rightarrow> bytes \<Rightarrow> TDigest option" where
  "UnmarshalTDigest L data =
     (if length data < 20 then None
      else let compression = Uint64 data; count = Uint64 (drop 8 data); n = unat (Uint32 (drop 16 data)) in
        if length data < 20 + n * 16 then None
        else Some \<lparr>td_centroids = get_centroids n (drop 20 data), td_compression = compression,
                   td_count = count, td_maxSize = digest_size L compression\<rparr>)"

lemma get_centroids_put: "get_centroids (length cs) (concat (map put_centroid cs) @ rest) = cs"
  by (induction cs) (simp_all add: put_centroid_def)

lemma length_put_centroids: "length (concat (map put_centroid cs)) = 16 * length cs"
  by (induction cs) (simp_all add: put_centroid_def)

lemma Unmarshal_Marshal_digest:
  assumes "length (td_centroids td) < 2 ^ 32" "td_maxSize td = digest_size L (td_compression td)"
  shows "UnmarshalTDigest L (TDigest_MarshalBinary td) = Some td"
  using assms get_centroids_put [of "td_centroids td" "[]"]
  by (simp add: UnmarshalTDigest_def TDigest_MarshalBinary_def unat_of_nat take_bit_nat_eq_self length_put_centroids Let_def)

end
