(* ===== verification/Partial_Agg.thy ===== *)
theory Partial_Agg
  imports T_Digest Value_Ops Memory_Account "HOL-Library.AList"
begin

text \<open>
  Partial aggregation, which every node and every segment of a query runs on its own events before the
  states are merged: \<^verbatim>\<open>src/pkg/engine/pipeline/partial_agg.go\<close>, the events of \<^verbatim>\<open>src/pkg/event/event.go\<close> and the
  batches of \<^verbatim>\<open>src/pkg/engine/pipeline/batch.go\<close> it reads.

  Maps with string keys are association lists sorted by key (\<open>obj_put\<close>). The map from a hash to the
  chain of its groups is an association list in the order of insertion; Go leaves the order of an
  iteration open, and the theorems are about multisets of rows. A nil map or pointer is \<open>None\<close>. An index
  out of range is a panic: \<open>None\<close> for a state, \<open>IndexPanic\<close> for a computation.

  The record \<open>agg_env\<close> holds what is not part of this program or depends on the process: the library of
  values, two functions of \<^verbatim>\<open>math\<close>, \<^verbatim>\<open>sort.Slice\<close>, the equality \<^verbatim>\<open>==\<close> of Go on value structs, which for arrays and
  objects compares the addresses of their payloads, and the variable \<^verbatim>\<open>dcHLLThreshold\<close>.
\<close>

record agg_env =
  ae_lib :: go_lib
  ae_Log :: "u64 \<Rightarrow> u64"
  ae_Sqrt :: "u64 \<Rightarrow> u64"
  ae_sort :: centroid_sort
  ae_same :: "Value \<Rightarrow> Value \<Rightarrow> bool"
  dcHLLThreshold :: int

definition SetDCHLLThreshold :: "int \<Rightarrow> agg_env \<Rightarrow> agg_env" where
  "SetDCHLLThreshold n A = (if 0 < n then A\<lparr>dcHLLThreshold := n\<rparr> else A)"

subsection \<open>Functions and states\<close>

datatype aggName =
    aggCount | aggSum | aggSumSq | aggAvg | aggMin | aggMax | aggRange | aggMode
  | aggPerSec | aggPerMin | aggPerHr | aggPerDay | aggDC | aggEstDCE
  | aggStdev | aggStdevP | aggVar | aggVarP
  | aggPerc | aggPerc50 | aggPerc75 | aggPerc90 | aggPerc95 | aggPerc99 | aggPercW

definition agg_names :: "(gostring \<times> aggName) list" where
  "agg_names =
     [(bs ''count'', aggCount), (bs ''sum'', aggSum), (bs ''sumsq'', aggSumSq), (bs ''avg'', aggAvg),
      (bs ''min'', aggMin), (bs ''max'', aggMax), (bs ''range'', aggRange), (bs ''mode'', aggMode),
      (bs ''per_second'', aggPerSec), (bs ''per_minute'', aggPerMin), (bs ''per_hour'', aggPerHr),
      (bs ''per_day'', aggPerDay), (bs ''dc'', aggDC), (bs ''estdc_error'', aggEstDCE),
      (bs ''stdev'', aggStdev), (bs ''stdevp'', aggStdevP), (bs ''var'', aggVar), (bs ''varp'', aggVarP),
      (bs ''perc'', aggPerc), (bs ''perc50'', aggPerc50), (bs ''perc75'', aggPerc75), (bs ''perc90'', aggPerc90),
      (bs ''perc95'', aggPerc95), (bs ''perc99'', aggPerc99), (bs ''perc_weighted'', aggPercW)]"

text \<open>The tag of \<^verbatim>\<open>switch strings.ToLower(fn)\<close>.\<close>

definition agg_of :: "agg_env \<Rightarrow> gostring \<Rightarrow> aggName option" where
  "agg_of A fn = map_of agg_names (gl_ToLower (ae_lib A) fn)"

definition IsPushableAgg :: "agg_env \<Rightarrow> gostring \<Rightarrow> bool" where
  "IsPushableAgg A name =
     (case agg_of A name of None \<Rightarrow> False | Some n \<Rightarrow> n \<notin> {aggPerSec, aggPerMin, aggPerHr, aggPerDay})"

record PartialAggFunc =
  fn_Name :: gostring
  fn_Field :: gostring
  fn_WeightField :: gostring
  fn_Alias :: gostring
  fn_Quantile :: u64
  fn_Hidden :: bool

record PartialAggSpec =
  spec_GroupBy :: "gostring list"
  spec_Funcs :: "PartialAggFunc list"

record PartialAggState =
  ps_Count :: u64
  ps_Sum :: u64
  ps_Min :: Value
  ps_Max :: Value
  ps_DistinctSet :: "(gostring \<times> bool) list option"
  ps_DistinctHLL :: "HyperLogLog option"
  ps_ModeCounts :: "(gostring \<times> u64) list option"
  ps_Digest :: "TDigest option"
  ps_StdevMean :: u64
  ps_StdevM2 :: u64

definition zero_state :: PartialAggState where
  "zero_state = \<lparr>ps_Count = 0, ps_Sum = 0, ps_Min = NullValue, ps_Max = NullValue, ps_DistinctSet = None,
     ps_DistinctHLL = None, ps_ModeCounts = None, ps_Digest = None, ps_StdevMean = 0, ps_StdevM2 = 0\<rparr>"

type_synonym key = "(gostring \<times> Value) list"

record PartialAggGroup =
  gr_Key :: key
  gr_States :: "PartialAggState list"

subsection \<open>Events and batches\<close>

text \<open>The time of an event is its nanoseconds, \<open>None\<close> the zero time.\<close>

record Event =
  ev_Time :: "u64 option"
  ev_Raw :: gostring
  ev_Source :: gostring
  ev_SourceType :: gostring
  ev_Host :: gostring
  ev_Index :: gostring
  ev_Fields :: "(gostring \<times> Value) list option"
  ev_ParseError :: bool

definition NewEvent :: "u64 \<Rightarrow> gostring \<Rightarrow> Event" where
  "NewEvent t raw = \<lparr>ev_Time = Some t, ev_Raw = raw, ev_Source = [], ev_SourceType = [], ev_Host = [],
     ev_Index = [], ev_Fields = Some [], ev_ParseError = False\<rparr>"

definition SetField :: "gostring \<Rightarrow> Value \<Rightarrow> Event \<Rightarrow> Event" where
  "SetField name v e =
     e\<lparr>ev_Fields := Some (obj_put name v (case ev_Fields e of None \<Rightarrow> [] | Some kvs \<Rightarrow> kvs))\<rparr>"

definition extractEventValue :: "Event \<Rightarrow> gostring \<Rightarrow> Value" where
  "extractEventValue ev field =
     (let text = (\<lambda>s. if s \<noteq> [] then Some (StringValue s) else None);
          builtin =
            (if field = bs ''_raw'' then text (ev_Raw ev)
             else if field = bs ''host'' then text (ev_Host ev)
             else if field = bs ''_source'' \<or> field = bs ''source'' then text (ev_Source ev)
             else if field = bs ''_sourcetype'' \<or> field = bs ''sourcetype'' then text (ev_SourceType ev)
             else if field = bs ''index'' then text (ev_Index ev)
             else if field = bs ''_time'' then map_option TimestampValue (ev_Time ev)
             else None)
      in if field = [] then IntValue 1
         else case builtin of
           Some v \<Rightarrow> v
         | None \<Rightarrow> (case ev_Fields ev of
               None \<Rightarrow> NullValue
             | Some kvs \<Rightarrow> (case obj_get kvs field of Some v \<Rightarrow> v | None \<Rightarrow> NullValue)))"

record Batch =
  ba_Columns :: "(gostring \<times> Value list) list"
  ba_Len :: nat

definition Batch_Value :: "Batch \<Rightarrow> gostring \<Rightarrow> nat \<Rightarrow> Value" where
  "Batch_Value b column row =
     (case obj_get (ba_Columns b) column of
        None \<Rightarrow> NullValue
      | Some col \<Rightarrow> if length col \<le> row then NullValue else col ! row)"

subsection \<open>Group keys\<close>

definition key_get :: "key \<Rightarrow> gostring \<Rightarrow> Value" where
  "key_get key g = (case obj_get key g of Some v \<Rightarrow> v | None \<Rightarrow> NullValue)"

definition hash_bytes :: "go_lib \<Rightarrow> Value \<Rightarrow> bytes" where
  "hash_bytes L v =
     (case v of
        NullValue \<Rightarrow> [0]
      | StringValue s \<Rightarrow> 1 # s
      | IntValue n \<Rightarrow> 2 # PutUint64 n
      | FloatValue f \<Rightarrow> 3 # PutUint64 f
      | BoolValue b \<Rightarrow> [4, if b then 1 else 0]
      | TimestampValue t \<Rightarrow> 5 # PutUint64 t
      | DurationValue d \<Rightarrow> 6 # PutUint64 d
      | _ \<Rightarrow> 7 # Value_String L v)"

definition hashValue :: "go_lib \<Rightarrow> u64 \<Rightarrow> Value \<Rightarrow> u64" where
  "hashValue L h v = fnv1a h (hash_bytes L v)"

text \<open>
  The hash, the test and the key of a group read the fields of an event, of a row of a batch or of
  another key; \<open>get\<close> is the read.
\<close>

definition group_hash :: "go_lib \<Rightarrow> (gostring \<Rightarrow> Value) \<Rightarrow> gostring list \<Rightarrow> u64" where
  "group_hash L get groupBy =
     (if groupBy = [] then 0 else foldl (\<lambda>h g. hashValue L h (get g)) fnv_offset groupBy)"

definition keys_equal :: "agg_env \<Rightarrow> key \<Rightarrow> (gostring \<Rightarrow> Value) \<Rightarrow> gostring list \<Rightarrow> bool" where
  "keys_equal A key get groupBy = list_all (\<lambda>g. ae_same A (key_get key g) (get g)) groupBy"

definition extract_key :: "(gostring \<Rightarrow> Value) \<Rightarrow> gostring list \<Rightarrow> key" where
  "extract_key get groupBy = foldl (\<lambda>key g. obj_put g (get g) key) [] groupBy"

definition partialGroupKeyHash :: "agg_env \<Rightarrow> Event \<Rightarrow> gostring list \<Rightarrow> u64" where
  "partialGroupKeyHash A ev groupBy = group_hash (ae_lib A) (extractEventValue ev) groupBy"

definition partialGroupKeyHashFromMap :: "agg_env \<Rightarrow> key \<Rightarrow> gostring list \<Rightarrow> u64" where
  "partialGroupKeyHashFromMap A key groupBy = group_hash (ae_lib A) (key_get key) groupBy"

definition partialKeysEqualEvent :: "agg_env \<Rightarrow> key \<Rightarrow> Event \<Rightarrow> gostring list \<Rightarrow> bool" where
  "partialKeysEqualEvent A key ev groupBy = keys_equal A key (extractEventValue ev) groupBy"

definition partialKeysEqual :: "agg_env \<Rightarrow> key \<Rightarrow> key \<Rightarrow> gostring list \<Rightarrow> bool" where
  "partialKeysEqual A a b groupBy = keys_equal A a (key_get b) groupBy"

definition batchKeysEqual :: "agg_env \<Rightarrow> key \<Rightarrow> Batch \<Rightarrow> nat \<Rightarrow> gostring list \<Rightarrow> bool" where
  "batchKeysEqual A key b row groupBy = keys_equal A key (\<lambda>g. Batch_Value b g row) groupBy"

definition extractEventGroupKey :: "Event \<Rightarrow> gostring list \<Rightarrow> key" where
  "extractEventGroupKey ev groupBy = extract_key (extractEventValue ev) groupBy"

definition extractBatchGroupKey :: "Batch \<Rightarrow> nat \<Rightarrow> gostring list \<Rightarrow> key" where
  "extractBatchGroupKey b row groupBy = extract_key (\<lambda>g. Batch_Value b g row) groupBy"

subsection \<open>Updating a state\<close>

definition update_sum :: "agg_env \<Rightarrow> (u64 \<Rightarrow> u64) \<Rightarrow> Value \<Rightarrow> PartialAggState \<Rightarrow> PartialAggState" where
  "update_sum A g val s =
     (case ValueToFloat (ae_lib A) val of
        None \<Rightarrow> s
      | Some f \<Rightarrow> s\<lparr>ps_Sum := float_add (ps_Sum s) (g f), ps_Count := ps_Count s + 1\<rparr>)"

definition less_value :: "agg_env \<Rightarrow> Value \<Rightarrow> Value \<Rightarrow> bool" where
  "less_value A v w \<longleftrightarrow> CompareValues (ae_lib A) v w < 0"

definition greater_value :: "agg_env \<Rightarrow> Value \<Rightarrow> Value \<Rightarrow> bool" where
  "greater_value A v w \<longleftrightarrow> CompareValues (ae_lib A) v w > 0"

definition update_min :: "agg_env \<Rightarrow> Value \<Rightarrow> PartialAggState \<Rightarrow> PartialAggState" where
  "update_min A val s =
     (if \<not> IsNull val \<and> (IsNull (ps_Min s) \<or> less_value A val (ps_Min s)) then s\<lparr>ps_Min := val\<rparr> else s)"

definition update_max :: "agg_env \<Rightarrow> Value \<Rightarrow> PartialAggState \<Rightarrow> PartialAggState" where
  "update_max A val s =
     (if \<not> IsNull val \<and> (IsNull (ps_Max s) \<or> greater_value A val (ps_Max s)) then s\<lparr>ps_Max := val\<rparr> else s)"

definition update_range :: "agg_env \<Rightarrow> Value \<Rightarrow> PartialAggState \<Rightarrow> PartialAggState" where
  "update_range A val s =
     (case ValueToFloat (ae_lib A) val of
        None \<Rightarrow> s
      | Some f \<Rightarrow>
          let v = FloatValue f;
              s = (if ps_Count s = 0 \<or> less_value A v (ps_Min s) then s\<lparr>ps_Min := v\<rparr> else s);
              s = (if ps_Count s = 0 \<or> greater_value A v (ps_Max s) then s\<lparr>ps_Max := v\<rparr> else s)
          in s\<lparr>ps_Count := ps_Count s + 1\<rparr>)"

fun add_all :: "gostring list \<Rightarrow> HyperLogLog \<Rightarrow> HyperLogLog option" where
  "add_all [] h = Some h"
| "add_all (k # ks) h = (case HLL_Add k h of None \<Rightarrow> None | Some h' \<Rightarrow> add_all ks h')"

definition distinct_values :: "PartialAggState \<Rightarrow> gostring list" where
  "distinct_values s = (case ps_DistinctSet s of None \<Rightarrow> [] | Some m \<Rightarrow> map fst m)"

text \<open>The promotion of an exact set to a sketch, which three places of the code repeat.\<close>

definition promote :: "PartialAggState \<Rightarrow> PartialAggState option" where
  "promote s =
     map_option (\<lambda>h. s\<lparr>ps_DistinctHLL := Some h, ps_DistinctSet := None\<rparr>) (add_all (distinct_values s) NewHyperLogLog)"

definition promote_if_large :: "agg_env \<Rightarrow> PartialAggState \<Rightarrow> PartialAggState option" where
  "promote_if_large A s = (if dcHLLThreshold A \<le> int (length (distinct_values s)) then promote s else Some s)"

definition put_all :: "gostring list \<Rightarrow> PartialAggState \<Rightarrow> PartialAggState" where
  "put_all ks s =
     s\<lparr>ps_DistinctSet :=
         Some (foldl (\<lambda>m k. obj_put k True m) (case ps_DistinctSet s of None \<Rightarrow> [] | Some m \<Rightarrow> m) ks)\<rparr>"

definition update_distinct :: "agg_env \<Rightarrow> Value \<Rightarrow> PartialAggState \<Rightarrow> PartialAggState option" where
  "update_distinct A val s =
     (if IsNull val then Some s
      else let str = Value_String (ae_lib A) val in
        case ps_DistinctHLL s of
          Some h \<Rightarrow> map_option (\<lambda>h. s\<lparr>ps_DistinctHLL := Some h\<rparr>) (HLL_Add str h)
        | None \<Rightarrow> promote_if_large A (put_all [str] s))"

definition add_count :: "(gostring \<times> u64) list \<Rightarrow> gostring \<times> u64 \<Rightarrow> (gostring \<times> u64) list" where
  "add_count m kn = obj_put (fst kn) ((case obj_get m (fst kn) of None \<Rightarrow> 0 | Some c \<Rightarrow> c) + snd kn) m"

definition add_counts :: "(gostring \<times> u64) list \<Rightarrow> PartialAggState \<Rightarrow> PartialAggState" where
  "add_counts kns s =
     s\<lparr>ps_ModeCounts := Some (foldl add_count (case ps_ModeCounts s of None \<Rightarrow> [] | Some m \<Rightarrow> m) kns)\<rparr>"

definition update_mode :: "agg_env \<Rightarrow> Value \<Rightarrow> PartialAggState \<Rightarrow> PartialAggState" where
  "update_mode A val s = (if IsNull val then s else add_counts [(Value_String (ae_lib A) val, 1)] s)"

definition defaultTDigestCompression :: u64 where "defaultTDigestCompression = float_of_int 100"

definition on_digest :: "agg_env \<Rightarrow> (TDigest \<Rightarrow> TDigest) \<Rightarrow> PartialAggState \<Rightarrow> PartialAggState" where
  "on_digest A f s =
     s\<lparr>ps_Digest := Some (f (case ps_Digest s of None \<Rightarrow> NewTDigest (ae_lib A) defaultTDigestCompression | Some d \<Rightarrow> d))\<rparr>"

definition update_perc :: "agg_env \<Rightarrow> Value \<Rightarrow> PartialAggState \<Rightarrow> PartialAggState" where
  "update_perc A val s =
     (case ValueToFloat (ae_lib A) val of None \<Rightarrow> s | Some f \<Rightarrow> on_digest A (TDigest_Add (ae_sort A) f) s)"

definition update_perc_weighted :: "agg_env \<Rightarrow> Value \<Rightarrow> Value \<Rightarrow> PartialAggState \<Rightarrow> PartialAggState" where
  "update_perc_weighted A val weightVal s =
     (case (ValueToFloat (ae_lib A) val, ValueToFloat (ae_lib A) weightVal) of
        (Some x, Some weight) \<Rightarrow> on_digest A (AddWeighted (ae_sort A) x weight) s
      | _ \<Rightarrow> s)"

definition update_stdev :: "agg_env \<Rightarrow> Value \<Rightarrow> PartialAggState \<Rightarrow> PartialAggState" where
  "update_stdev A val s =
     (case ValueToFloat (ae_lib A) val of
        None \<Rightarrow> s
      | Some f \<Rightarrow>
          let count = ps_Count s + 1;
              delta = float_sub f (ps_StdevMean s);
              mean = float_add (ps_StdevMean s) (float_div delta (float_of_int (sint count)));
              delta2 = float_sub f mean
          in s\<lparr>ps_Count := count, ps_StdevMean := mean, ps_StdevM2 := float_add (ps_StdevM2 s) (float_mul delta delta2)\<rparr>)"

definition updatePartialStateWithWeight ::
  "agg_env \<Rightarrow> gostring \<Rightarrow> Value \<Rightarrow> Value \<Rightarrow> PartialAggState \<Rightarrow> PartialAggState option" where
  "updatePartialStateWithWeight A fn val weightVal s =
     (case agg_of A fn of
        None \<Rightarrow> Some s
      | Some a \<Rightarrow> (case a of
            aggCount \<Rightarrow> Some (if IsNull val then s else s\<lparr>ps_Count := ps_Count s + 1\<rparr>)
          | aggSum \<Rightarrow> Some (update_sum A (\<lambda>f. f) val s)
          | aggPerSec \<Rightarrow> Some (update_sum A (\<lambda>f. f) val s)
          | aggPerMin \<Rightarrow> Some (update_sum A (\<lambda>f. f) val s)
          | aggPerHr \<Rightarrow> Some (update_sum A (\<lambda>f. f) val s)
          | aggPerDay \<Rightarrow> Some (update_sum A (\<lambda>f. f) val s)
          | aggSumSq \<Rightarrow> Some (update_sum A (\<lambda>f. float_mul f f) val s)
          | aggAvg \<Rightarrow> Some (update_sum A (\<lambda>f. f) val s)
          | aggMin \<Rightarrow> Some (update_min A val s)
          | aggMax \<Rightarrow> Some (update_max A val s)
          | aggRange \<Rightarrow> Some (update_range A val s)
          | aggDC \<Rightarrow> update_distinct A val s
          | aggEstDCE \<Rightarrow> update_distinct A val s
          | aggMode \<Rightarrow> Some (update_mode A val s)
          | aggPercW \<Rightarrow> Some (update_perc_weighted A val weightVal s)
          | aggStdev \<Rightarrow> Some (update_stdev A val s)
          | aggStdevP \<Rightarrow> Some (update_stdev A val s)
          | aggVar \<Rightarrow> Some (update_stdev A val s)
          | aggVarP \<Rightarrow> Some (update_stdev A val s)
          | _ \<Rightarrow> Some (update_perc A val s)))"

definition updatePartialState :: "agg_env \<Rightarrow> gostring \<Rightarrow> Value \<Rightarrow> PartialAggState \<Rightarrow> PartialAggState option" where
  "updatePartialState A fn val s = updatePartialStateWithWeight A fn val NullValue s"

subsection \<open>Merging states\<close>

definition merge_min :: "agg_env \<Rightarrow> PartialAggState \<Rightarrow> PartialAggState \<Rightarrow> PartialAggState" where
  "merge_min A dst src =
     (if \<not> IsNull (ps_Min src) \<and> (IsNull (ps_Min dst) \<or> less_value A (ps_Min src) (ps_Min dst))
      then dst\<lparr>ps_Min := ps_Min src\<rparr> else dst)"

definition merge_max :: "agg_env \<Rightarrow> PartialAggState \<Rightarrow> PartialAggState \<Rightarrow> PartialAggState" where
  "merge_max A dst src =
     (if \<not> IsNull (ps_Max src) \<and> (IsNull (ps_Max dst) \<or> greater_value A (ps_Max src) (ps_Max dst))
      then dst\<lparr>ps_Max := ps_Max src\<rparr> else dst)"

definition merge_range :: "agg_env \<Rightarrow> PartialAggState \<Rightarrow> PartialAggState \<Rightarrow> PartialAggState" where
  "merge_range A dst src =
     (if ps_Count src = 0 then dst
      else let dst = (if ps_Count dst = 0 \<or> less_value A (ps_Min src) (ps_Min dst) then dst\<lparr>ps_Min := ps_Min src\<rparr> else dst);
               dst = (if ps_Count dst = 0 \<or> greater_value A (ps_Max src) (ps_Max dst) then dst\<lparr>ps_Max := ps_Max src\<rparr> else dst)
        in dst\<lparr>ps_Count := ps_Count dst + ps_Count src\<rparr>)"

definition merge_sketch :: "PartialAggState \<Rightarrow> PartialAggState \<Rightarrow> PartialAggState option" where
  "merge_sketch dst src =
     (case ps_DistinctHLL dst of
        None \<Rightarrow> None
      | Some h \<Rightarrow> (case ps_DistinctHLL src of
            Some h' \<Rightarrow> Some (dst\<lparr>ps_DistinctHLL := Some (HLL_Merge h h')\<rparr>)
          | None \<Rightarrow> map_option (\<lambda>h. dst\<lparr>ps_DistinctHLL := Some h\<rparr>) (add_all (distinct_values src) h)))"

definition merge_distinct :: "agg_env \<Rightarrow> PartialAggState \<Rightarrow> PartialAggState \<Rightarrow> PartialAggState option" where
  "merge_distinct A dst src =
     map_option (\<lambda>d. d\<lparr>ps_Count := ps_Count d + ps_Count src\<rparr>)
       (if ps_DistinctHLL src \<noteq> None \<or> ps_DistinctHLL dst \<noteq> None
        then (case (if ps_DistinctHLL dst = None then promote dst else Some dst) of
                None \<Rightarrow> None
              | Some d \<Rightarrow> merge_sketch d src)
        else if ps_DistinctSet src \<noteq> None then promote_if_large A (put_all (distinct_values src) dst)
        else Some dst)"

definition merge_mode :: "PartialAggState \<Rightarrow> PartialAggState \<Rightarrow> PartialAggState" where
  "merge_mode dst src = (case ps_ModeCounts src of None \<Rightarrow> dst | Some m \<Rightarrow> add_counts m dst)"

definition merge_digest :: "agg_env \<Rightarrow> PartialAggState \<Rightarrow> PartialAggState \<Rightarrow> PartialAggState" where
  "merge_digest A dst src =
     (case ps_Digest src of None \<Rightarrow> dst | Some d \<Rightarrow> on_digest A (\<lambda>td. TDigest_Merge (ae_sort A) td d) dst)"

definition merge_stdev :: "PartialAggState \<Rightarrow> PartialAggState \<Rightarrow> PartialAggState" where
  "merge_stdev dst src =
     (if ps_Count src = 0 then dst
      else if ps_Count dst = 0 then
        dst\<lparr>ps_Count := ps_Count src, ps_StdevMean := ps_StdevMean src, ps_StdevM2 := ps_StdevM2 src\<rparr>
      else
        let totalCount = ps_Count dst + ps_Count src;
            delta = float_sub (ps_StdevMean src) (ps_StdevMean dst);
            nd = float_of_int (sint (ps_Count dst)); ns = float_of_int (sint (ps_Count src)); n = float_of_int (sint totalCount)
        in dst\<lparr>ps_StdevM2 := float_add (ps_StdevM2 dst)
                 (float_add (ps_StdevM2 src) (float_div (float_mul (float_mul (float_mul delta delta) nd) ns) n)),
               ps_StdevMean := float_div (float_add (float_mul (ps_StdevMean dst) nd) (float_mul (ps_StdevMean src) ns)) n,
               ps_Count := totalCount\<rparr>)"

definition merge_sum :: "PartialAggState \<Rightarrow> PartialAggState \<Rightarrow> PartialAggState" where
  "merge_sum dst src = dst\<lparr>ps_Sum := float_add (ps_Sum dst) (ps_Sum src), ps_Count := ps_Count dst + ps_Count src\<rparr>"

definition mergePartialState ::
  "agg_env \<Rightarrow> gostring \<Rightarrow> PartialAggState \<Rightarrow> PartialAggState \<Rightarrow> PartialAggState option" where
  "mergePartialState A fn dst src =
     (case agg_of A fn of
        None \<Rightarrow> Some dst
      | Some a \<Rightarrow> (case a of
            aggCount \<Rightarrow> Some (dst\<lparr>ps_Count := ps_Count dst + ps_Count src\<rparr>)
          | aggSum \<Rightarrow> Some (merge_sum dst src)
          | aggSumSq \<Rightarrow> Some (merge_sum dst src)
          | aggPerSec \<Rightarrow> Some (merge_sum dst src)
          | aggPerMin \<Rightarrow> Some (merge_sum dst src)
          | aggPerHr \<Rightarrow> Some (merge_sum dst src)
          | aggPerDay \<Rightarrow> Some (merge_sum dst src)
          | aggAvg \<Rightarrow> Some (merge_sum dst src)
          | aggMin \<Rightarrow> Some (merge_min A dst src)
          | aggMax \<Rightarrow> Some (merge_max A dst src)
          | aggRange \<Rightarrow> Some (merge_range A dst src)
          | aggDC \<Rightarrow> merge_distinct A dst src
          | aggEstDCE \<Rightarrow> merge_distinct A dst src
          | aggMode \<Rightarrow> Some (merge_mode dst src)
          | aggStdev \<Rightarrow> Some (merge_stdev dst src)
          | aggStdevP \<Rightarrow> Some (merge_stdev dst src)
          | aggVar \<Rightarrow> Some (merge_stdev dst src)
          | aggVarP \<Rightarrow> Some (merge_stdev dst src)
          | _ \<Rightarrow> Some (merge_digest A dst src)))"

subsection \<open>Final values\<close>

fun mode_loop :: "(gostring \<times> u64) list \<Rightarrow> (gostring \<times> u64) option \<Rightarrow> (gostring \<times> u64) option" where
  "mode_loop [] best = best"
| "mode_loop ((v, c) # kcs) best =
     (case best of
        None \<Rightarrow> mode_loop kcs (Some (v, c))
      | Some (b, n) \<Rightarrow> mode_loop kcs (if sint n < sint c \<or> c = n \<and> v < b then Some (v, c) else Some (b, n)))"

definition modeFromCounts :: "(gostring \<times> u64) list option \<Rightarrow> Value" where
  "modeFromCounts counts =
     (case mode_loop (case counts of None \<Rightarrow> [] | Some m \<Rightarrow> m) None of
        None \<Rightarrow> NullValue
      | Some (b, n) \<Rightarrow> if n = 0 then NullValue else StringValue b)"

definition finalize_range :: "agg_env \<Rightarrow> PartialAggState \<Rightarrow> Value" where
  "finalize_range A s =
     (if ps_Count s = 0 then NullValue
      else case (ValueToFloat (ae_lib A) (ps_Min s), ValueToFloat (ae_lib A) (ps_Max s)) of
          (Some lo, Some hi) \<Rightarrow> FloatValue (float_sub hi lo)
        | _ \<Rightarrow> NullValue)"

definition finalize_dc :: "agg_env \<Rightarrow> PartialAggState \<Rightarrow> Value" where
  "finalize_dc A s =
     (case ps_DistinctHLL s of
        Some h \<Rightarrow> IntValue (HLL_Count (ae_lib A) (ae_Log A) h)
      | None \<Rightarrow> if 0 < length (distinct_values s) then IntValue (word_of_nat (length (distinct_values s)))
                else if 0 < sint (ps_Count s) then IntValue (ps_Count s)
                else IntValue 0)"

definition finalizePartialVarianceState :: "agg_env \<Rightarrow> PartialAggState \<Rightarrow> bool \<Rightarrow> bool \<Rightarrow> Value" where
  "finalizePartialVarianceState A s population asRoot =
     (if ps_Count s = 0 \<or> \<not> population \<and> sint (ps_Count s) < 2 then NullValue
      else let denom = float_of_int (sint (if population then ps_Count s else ps_Count s - 1));
               variance = float_div (ps_StdevM2 s) denom
        in FloatValue (if asRoot then ae_Sqrt A variance else variance))"

definition finalizeTDigest :: "agg_env \<Rightarrow> PartialAggState \<Rightarrow> u64 \<Rightarrow> Value" where
  "finalizeTDigest A s q =
     (case ps_Digest s of
        None \<Rightarrow> NullValue
      | Some d \<Rightarrow> if float_eq (td_count d) 0 then NullValue else FloatValue (fst (TDigest_Quantile (ae_sort A) q d)))"

definition finalizePartialState :: "agg_env \<Rightarrow> PartialAggState \<Rightarrow> PartialAggFunc \<Rightarrow> Value" where
  "finalizePartialState A s fn =
     (case agg_of A (fn_Name fn) of
        None \<Rightarrow> NullValue
      | Some a \<Rightarrow> (case a of
            aggCount \<Rightarrow> IntValue (ps_Count s)
          | aggSum \<Rightarrow> FloatValue (ps_Sum s)
          | aggPerSec \<Rightarrow> FloatValue (ps_Sum s)
          | aggPerMin \<Rightarrow> FloatValue (ps_Sum s)
          | aggPerHr \<Rightarrow> FloatValue (ps_Sum s)
          | aggPerDay \<Rightarrow> FloatValue (ps_Sum s)
          | aggSumSq \<Rightarrow> FloatValue (ps_Sum s)
          | aggAvg \<Rightarrow> if ps_Count s = 0 then NullValue else FloatValue (float_div (ps_Sum s) (float_of_int (sint (ps_Count s))))
          | aggMin \<Rightarrow> ps_Min s
          | aggMax \<Rightarrow> ps_Max s
          | aggRange \<Rightarrow> finalize_range A s
          | aggDC \<Rightarrow> finalize_dc A s
          | aggEstDCE \<Rightarrow> FloatValue (if ps_DistinctHLL s \<noteq> None then StandardError (ae_Sqrt A) (ps_DistinctHLL s) else 0)
          | aggMode \<Rightarrow> modeFromCounts (ps_ModeCounts s)
          | aggPerc \<Rightarrow> finalizeTDigest A s (fn_Quantile fn)
          | aggPercW \<Rightarrow> finalizeTDigest A s (fn_Quantile fn)
          | aggPerc50 \<Rightarrow> finalizeTDigest A s (float_const 50 100)
          | aggPerc75 \<Rightarrow> finalizeTDigest A s (float_const 75 100)
          | aggPerc90 \<Rightarrow> finalizeTDigest A s (float_const 90 100)
          | aggPerc95 \<Rightarrow> finalizeTDigest A s (float_const 95 100)
          | aggPerc99 \<Rightarrow> finalizeTDigest A s (float_const 99 100)
          | aggStdev \<Rightarrow> finalizePartialVarianceState A s False True
          | aggStdevP \<Rightarrow> finalizePartialVarianceState A s True True
          | aggVar \<Rightarrow> finalizePartialVarianceState A s False False
          | aggVarP \<Rightarrow> finalizePartialVarianceState A s True False))"

subsection \<open>Computing groups\<close>

datatype 'e agg_error = IndexPanic | GrowError 'e

type_synonym groups = "(u64 \<times> PartialAggGroup list) list"

definition chain_of :: "groups \<Rightarrow> u64 \<Rightarrow> PartialAggGroup list" where
  "chain_of groups h = (case map_of groups h of None \<Rightarrow> [] | Some chain \<Rightarrow> chain)"

definition all_groups :: "groups \<Rightarrow> PartialAggGroup list" where
  "all_groups groups = concat (map snd groups)"

fun chain_find :: "(PartialAggGroup \<Rightarrow> bool) \<Rightarrow> PartialAggGroup list \<Rightarrow> nat option" where
  "chain_find P [] = None"
| "chain_find P (g # gs) = (if P g then Some 0 else map_option Suc (chain_find P gs))"

definition new_group :: "PartialAggSpec \<Rightarrow> key \<Rightarrow> PartialAggGroup" where
  "new_group spec key = \<lparr>gr_Key = key, gr_States = replicate (length (spec_Funcs spec)) zero_state\<rparr>"

definition estimatePartialGroupBytes :: "Event \<Rightarrow> PartialAggSpec \<Rightarrow> int" where
  "estimatePartialGroupBytes ev spec =
     foldl (\<lambda>size g. case extractEventValue ev g of
              StringValue s \<Rightarrow> if 8 < length s then size + int (length s) else size
            | _ \<Rightarrow> size)
       (int (length (spec_GroupBy spec)) * 48 + int (length (spec_Funcs spec)) * 64) (spec_GroupBy spec)"

text \<open>The pointer that the code returns is the position of the group in the chain of its hash.\<close>

definition findOrCreatePartialGroupWithBudget ::
  "agg_env \<Rightarrow> (int \<Rightarrow> 's \<Rightarrow> 's \<times> 'e option) \<Rightarrow> groups \<Rightarrow> u64 \<Rightarrow> Event \<Rightarrow> PartialAggSpec \<Rightarrow> 's \<Rightarrow>
   'e agg_error + (groups \<times> nat \<times> 's)" where
  "findOrCreatePartialGroupWithBudget A grow groups h ev spec acct =
     (let chain = chain_of groups h in
      case chain_find (\<lambda>g. partialKeysEqualEvent A (gr_Key g) ev (spec_GroupBy spec)) chain of
        Some i \<Rightarrow> Inr (groups, i, acct)
      | None \<Rightarrow> (case grow (estimatePartialGroupBytes ev spec) acct of
            (acct', Some e) \<Rightarrow> Inl (GrowError e)
          | (acct', None) \<Rightarrow>
              Inr (AList.update h (chain @ [new_group spec (extractEventGroupKey ev (spec_GroupBy spec))]) groups, length chain, acct')))"

definition findOrCreateBatchGroup ::
  "agg_env \<Rightarrow> groups \<Rightarrow> u64 \<Rightarrow> Batch \<Rightarrow> nat \<Rightarrow> PartialAggSpec \<Rightarrow> groups \<times> nat" where
  "findOrCreateBatchGroup A groups h batch row spec =
     (let chain = chain_of groups h in
      case chain_find (\<lambda>g. batchKeysEqual A (gr_Key g) batch row (spec_GroupBy spec)) chain of
        Some i \<Rightarrow> (groups, i)
      | None \<Rightarrow>
          (AList.update h (chain @ [new_group spec (extractBatchGroupKey batch row (spec_GroupBy spec))]) groups, length chain))"

text \<open>The loop over the functions; \<open>val_of\<close> and \<open>weight_of\<close> read the fields a function names.\<close>

fun update_states ::
  "agg_env \<Rightarrow> (PartialAggFunc \<Rightarrow> Value) \<Rightarrow> (PartialAggFunc \<Rightarrow> Value) \<Rightarrow> PartialAggFunc list \<Rightarrow>
   PartialAggState list \<Rightarrow> PartialAggState list option" where
  "update_states A val_of weight_of [] sts = Some sts"
| "update_states A val_of weight_of (fn # fns) [] = None"
| "update_states A val_of weight_of (fn # fns) (s # sts) =
     (case updatePartialStateWithWeight A (fn_Name fn) (val_of fn) (weight_of fn) s of
        None \<Rightarrow> None
      | Some s' \<Rightarrow> map_option ((#) s') (update_states A val_of weight_of fns sts))"

definition update_group ::
  "agg_env \<Rightarrow> (PartialAggFunc \<Rightarrow> Value) \<Rightarrow> (PartialAggFunc \<Rightarrow> Value) \<Rightarrow> PartialAggSpec \<Rightarrow> groups \<Rightarrow> u64 \<Rightarrow> nat \<Rightarrow> groups option" where
  "update_group A val_of weight_of spec groups h i =
     (let chain = chain_of groups h in
      map_option (\<lambda>sts. AList.update h (chain[i := (chain ! i)\<lparr>gr_States := sts\<rparr>]) groups)
        (update_states A val_of weight_of (spec_Funcs spec) (gr_States (chain ! i))))"

fun partial_loop ::
  "agg_env \<Rightarrow> (int \<Rightarrow> 's \<Rightarrow> 's \<times> 'e option) \<Rightarrow> PartialAggSpec \<Rightarrow> Event list \<Rightarrow> groups \<times> 's \<Rightarrow> 'e agg_error + (groups \<times> 's)" where
  "partial_loop A grow spec [] (groups, acct) = Inr (groups, acct)"
| "partial_loop A grow spec (ev # evs) (groups, acct) =
     (let h = partialGroupKeyHash A ev (spec_GroupBy spec) in
      case findOrCreatePartialGroupWithBudget A grow groups h ev spec acct of
        Inl e \<Rightarrow> Inl e
      | Inr (groups', i, acct') \<Rightarrow>
          (case update_group A (\<lambda>fn. extractEventValue ev (fn_Field fn)) (\<lambda>fn. extractEventValue ev (fn_WeightField fn)) spec groups' h i of
             None \<Rightarrow> Inl IndexPanic
           | Some groups'' \<Rightarrow> partial_loop A grow spec evs (groups'', acct')))"

definition ComputePartialAggWithBudget ::
  "agg_env \<Rightarrow> (int \<Rightarrow> 's \<Rightarrow> 's \<times> 'e option) \<Rightarrow> PartialAggSpec \<Rightarrow> Event list \<Rightarrow> 's \<Rightarrow> 'e agg_error + (PartialAggGroup list \<times> 's)" where
  "ComputePartialAggWithBudget A grow spec evs acct =
     (case partial_loop A grow spec evs ([], acct) of
        Inl e \<Rightarrow> Inl e
      | Inr (groups, acct') \<Rightarrow> Inr (all_groups groups, acct'))"

definition ComputePartialAgg :: "agg_env \<Rightarrow> PartialAggSpec \<Rightarrow> Event list \<Rightarrow> gov_error agg_error + PartialAggGroup list" where
  "ComputePartialAgg A spec evs = map_sum id fst (ComputePartialAggWithBudget A nop_Grow spec evs ())"

fun batch_loop :: "agg_env \<Rightarrow> PartialAggSpec \<Rightarrow> (Batch \<times> nat) list \<Rightarrow> groups \<Rightarrow> groups option" where
  "batch_loop A spec [] groups = Some groups"
| "batch_loop A spec ((batch, i) # rows) groups =
     (let hval = group_hash (ae_lib A) (\<lambda>g. Batch_Value batch g i) (spec_GroupBy spec);
          (groups', p) = findOrCreateBatchGroup A groups hval batch i spec;
          val_of = (\<lambda>fn. if fn_Field fn = [] then IntValue 1 else Batch_Value batch (fn_Field fn) i);
          weight_of = (\<lambda>fn. if fn_WeightField fn \<noteq> [] then Batch_Value batch (fn_WeightField fn) i else NullValue)
      in case update_group A val_of weight_of spec groups' hval p of
           None \<Rightarrow> None
         | Some groups'' \<Rightarrow> batch_loop A spec rows groups'')"

definition ComputePartialAggFromBatches :: "agg_env \<Rightarrow> PartialAggSpec \<Rightarrow> Batch list \<Rightarrow> PartialAggGroup list option" where
  "ComputePartialAggFromBatches A spec batches =
     map_option all_groups (batch_loop A spec (concat (map (\<lambda>b. map (Pair b) [0..<ba_Len b]) batches)) [])"

subsection \<open>Merging groups\<close>

definition clone_state :: "agg_env \<Rightarrow> PartialAggState \<Rightarrow> PartialAggState" where
  "clone_state A s =
     s\<lparr>ps_DistinctHLL := (case ps_DistinctHLL s of None \<Rightarrow> None | Some h \<Rightarrow> UnmarshalHyperLogLog (HLL_MarshalBinary h)),
       ps_Digest := (case ps_Digest s of None \<Rightarrow> None | Some d \<Rightarrow> UnmarshalTDigest (ae_lib A) (TDigest_MarshalBinary d))\<rparr>"

definition clone_group :: "agg_env \<Rightarrow> PartialAggGroup \<Rightarrow> PartialAggGroup" where
  "clone_group A pg = pg\<lparr>gr_States := map (clone_state A) (gr_States pg)\<rparr>"

fun merge_states ::
  "agg_env \<Rightarrow> PartialAggFunc list \<Rightarrow> PartialAggState list \<Rightarrow> PartialAggState list \<Rightarrow> PartialAggState list option" where
  "merge_states A [] dsts srcs = Some dsts"
| "merge_states A (fn # fns) (d # dsts) (s # srcs) =
     (case mergePartialState A (fn_Name fn) d s of
        None \<Rightarrow> None
      | Some d' \<Rightarrow> map_option ((#) d') (merge_states A fns dsts srcs))"
| "merge_states A (fn # fns) _ _ = None"

fun merge_chain :: "agg_env \<Rightarrow> PartialAggSpec \<Rightarrow> PartialAggGroup \<Rightarrow> PartialAggGroup list \<Rightarrow> PartialAggGroup list option" where
  "merge_chain A spec pg [] = Some [clone_group A pg]"
| "merge_chain A spec pg (g # gs) =
     (if partialKeysEqual A (gr_Key g) (gr_Key pg) (spec_GroupBy spec)
      then map_option (\<lambda>sts. g\<lparr>gr_States := sts\<rparr> # gs) (merge_states A (spec_Funcs spec) (gr_States g) (gr_States pg))
      else map_option ((#) g) (merge_chain A spec pg gs))"

fun merge_loop :: "agg_env \<Rightarrow> PartialAggSpec \<Rightarrow> PartialAggGroup list \<Rightarrow> groups \<Rightarrow> groups option" where
  "merge_loop A spec [] merged = Some merged"
| "merge_loop A spec (pg # pgs) merged =
     (let h = partialGroupKeyHashFromMap A (gr_Key pg) (spec_GroupBy spec) in
      case merge_chain A spec pg (chain_of merged h) of
        None \<Rightarrow> None
      | Some chain \<Rightarrow> merge_loop A spec pgs (AList.update h chain merged))"

definition MergePartialGroupsNoFinalize :: "agg_env \<Rightarrow> PartialAggSpec \<Rightarrow> PartialAggGroup list \<Rightarrow> PartialAggGroup list option" where
  "MergePartialGroupsNoFinalize A spec groups = map_option all_groups (merge_loop A spec groups [])"

type_synonym agg_row = "(gostring \<times> Value) list"

fun put_results :: "agg_env \<Rightarrow> PartialAggFunc list \<Rightarrow> PartialAggState list \<Rightarrow> agg_row \<Rightarrow> agg_row option" where
  "put_results A [] sts row = Some row"
| "put_results A (fn # fns) sts row =
     (if fn_Hidden fn then put_results A fns (tl sts) row
      else case sts of
          [] \<Rightarrow> None
        | s # sts' \<Rightarrow> put_results A fns sts' (obj_put (fn_Alias fn) (finalizePartialState A s fn) row))"

definition key_row :: "key \<Rightarrow> agg_row" where
  "key_row key = foldl (\<lambda>row (k, v). obj_put k (if IsNull v then StringValue [] else v) row) [] key"

definition group_row :: "agg_env \<Rightarrow> PartialAggSpec \<Rightarrow> PartialAggGroup \<Rightarrow> agg_row option" where
  "group_row A spec g = put_results A (spec_Funcs spec) (gr_States g) (key_row (gr_Key g))"

definition result_rows :: "agg_env \<Rightarrow> PartialAggSpec \<Rightarrow> PartialAggGroup list \<Rightarrow> agg_row list option" where
  "result_rows A spec gs =
     (if gs = [] \<and> spec_GroupBy spec = []
      then map_option (\<lambda>row. [row]) (put_results A (spec_Funcs spec) (map (\<lambda>_. zero_state) (spec_Funcs spec)) [])
      else those (map (group_row A spec) gs))"

definition MergePartialAggs :: "agg_env \<Rightarrow> PartialAggSpec \<Rightarrow> PartialAggGroup list list \<Rightarrow> agg_row list option" where
  "MergePartialAggs A spec partials =
     (case merge_loop A spec (concat partials) [] of
        None \<Rightarrow> None
      | Some merged \<Rightarrow> result_rows A spec (all_groups merged))"

end
