(* ===== verification/Agg_State.thy ===== *)
theory Agg_State
  imports Partial_Agg Value_Laws
begin

text \<open>
  What the states of partial aggregation mean. The locale \<open>partial_aggregate\<close> is the contract of an
  aggregate that may be computed in parts: a function \<open>st\<close> from the values seen to the state, which
  updating follows value by value and merging follows part by part. It is interpreted on the updates and
  merges of count, min, max, range, dc and mode, then on the dispatch over function names and on the
  states of a whole group.
\<close>

subsection \<open>Aggregates in parts\<close>

fun steps :: "('v \<Rightarrow> 's \<Rightarrow> 's option) \<Rightarrow> 'v list \<Rightarrow> 's \<Rightarrow> 's option" where
  "steps f [] s = Some s"
| "steps f (x # xs) s = (case f x s of None \<Rightarrow> None | Some s' \<Rightarrow> steps f xs s')"

locale partial_aggregate =
  fixes upd :: "'v \<Rightarrow> 's \<Rightarrow> 's option" and mrg :: "'s \<Rightarrow> 's \<Rightarrow> 's option"
    and st :: "'v list \<Rightarrow> 's" and ok :: "'v list \<Rightarrow> bool"
  assumes st_snoc: "ok (xs @ [x]) \<Longrightarrow> upd x (st xs) = Some (st (xs @ [x]))"
    and st_merge: "ok (xs @ ys) \<Longrightarrow> mrg (st xs) (st ys) = Some (st (xs @ ys))"
    and ok_append: "ok (xs @ ys) \<Longrightarrow> ok xs \<and> ok ys"
begin

lemma updates: "ok (xs @ ys) \<Longrightarrow> steps upd ys (st xs) = Some (st (xs @ ys))"
proof (induction ys arbitrary: xs)
  case (Cons y ys)
  from Cons.prems have "ok (xs @ [y])" using ok_append [of "xs @ [y]" ys] by simp
  with Cons.IH [of "xs @ [y]"] Cons.prems show ?case by (simp add: st_snoc)
qed simp

lemma merges: "ok (xs @ concat yss) \<Longrightarrow> steps (\<lambda>ys s. mrg s (st ys)) yss (st xs) = Some (st (xs @ concat yss))"
proof (induction yss arbitrary: xs)
  case (Cons ys yss)
  from Cons.prems have "ok (xs @ ys)" using ok_append [of "xs @ ys" "concat yss"] by simp
  with Cons.IH [of "xs @ ys"] Cons.prems show ?case by (simp add: st_merge)
qed simp

end

subsection \<open>Maps as sorted lists\<close>

definition sorted_map :: "(gostring \<times> 'v) list \<Rightarrow> bool" where
  "sorted_map m \<longleftrightarrow> sorted_wrt (<) (map fst m)"

lemma map_of_obj_put [simp]: "map_of (obj_put k v m) = (map_of m)(k \<mapsto> v)"
  by (induction m) (auto simp: fun_eq_iff)

lemma set_obj_put: "fst ` set (obj_put k v m) = insert k (fst ` set m)"
  by (induction m rule: obj_put.induct [of _ k v]) (simp_all add: insert_commute)

lemma sorted_obj_put: "sorted_map m \<Longrightarrow> sorted_map (obj_put k v m)"
proof (induction m)
  case (Cons kv m)
  then show ?case using set_obj_put [of k v m] by (cases kv) (fastforce simp: sorted_map_def)
qed (simp add: sorted_map_def)

lemma map_of_nth: "distinct (map fst x) \<Longrightarrow> i < length x \<Longrightarrow> map_of x (fst (x ! i)) = Some (snd (x ! i))"
  by (rule map_of_is_SomeI) simp_all

lemma map_of_keys: "distinct (map fst x) \<Longrightarrow> x = map (\<lambda>k. (k, the (map_of x k))) (map fst x)"
  by (rule nth_equalityI) (simp_all add: prod_eq_iff map_of_nth)

lemma sorted_map_eqI:
  assumes "sorted_map m" "sorted_map m'" "map_of m = map_of m'" shows "m = m'"
proof -
  have d: "distinct (map fst m)" "distinct (map fst m')"
    using assms(1,2) by (auto simp: sorted_map_def strict_sorted_iff)
  have "dom (map_of m) = dom (map_of m')" using assms(3) by simp
  then have "set (map fst m) = set (map fst m')" by (simp add: dom_map_of_conv_image_fst)
  with assms(1,2) have keys: "map fst m = map fst m'"
    by (intro strict_sorted_equal) (simp_all add: sorted_map_def)
  from map_of_keys [OF d(1)] map_of_keys [OF d(2)] show ?thesis unfolding assms(3) keys by simp
qed

text \<open>The list of a finite map.\<close>

definition map_list :: "(gostring \<rightharpoonup> 'v) \<Rightarrow> (gostring \<times> 'v) list" where
  "map_list f = map (\<lambda>k. (k, the (f k))) (sorted_list_of_set (dom f))"

lemma map_fst_map_list [simp]: "map fst (map_list f) = sorted_list_of_set (dom f)"
  by (simp add: map_list_def comp_def)

lemma map_of_map_list: "finite (dom f) \<Longrightarrow> map_of (map_list f) = f"
  by (rule ext) (auto simp: map_list_def map_of_map_restrict restrict_map_def dom_def)

lemma sorted_map_list: "finite (dom f) \<Longrightarrow> sorted_map (map_list f)"
  by (simp add: sorted_map_def)

lemma obj_put_map_list: "finite (dom f) \<Longrightarrow> obj_put k v (map_list f) = map_list (f(k \<mapsto> v))"
  by (intro sorted_map_eqI) (simp_all add: sorted_obj_put sorted_map_list map_of_map_list)

lemma map_list_empty [simp]: "map_list Map.empty = []"
  by (simp add: map_list_def)

lemma length_map_list: "length (map_list f) = card (dom f)"
  by (simp add: map_list_def)

subsection \<open>Least values\<close>

text \<open>A strict weak order on a set of values: the condition under which a minimum does not depend on the
  way the values are grouped.\<close>

definition weak_order_on :: "('a \<Rightarrow> 'a \<Rightarrow> bool) \<Rightarrow> 'a set \<Rightarrow> bool" where
  "weak_order_on lt V \<longleftrightarrow>
     (\<forall>x \<in> V. \<forall>y \<in> V. lt x y \<longrightarrow> \<not> lt y x \<and> (\<forall>z \<in> V. lt x z \<or> lt z y))"

lemma weak_order_on_subset: "weak_order_on lt V \<Longrightarrow> U \<subseteq> V \<Longrightarrow> weak_order_on lt U"
  unfolding weak_order_on_def by blast

lemma weak_order_onD:
  "weak_order_on lt V \<Longrightarrow> x \<in> V \<Longrightarrow> y \<in> V \<Longrightarrow> z \<in> V \<Longrightarrow> lt x y \<Longrightarrow> \<not> lt y x \<and> (lt x z \<or> lt z y)"
  unfolding weak_order_on_def by blast

definition better :: "(Value \<Rightarrow> Value \<Rightarrow> bool) \<Rightarrow> Value \<Rightarrow> Value \<Rightarrow> Value" where
  "better lt b v = (if \<not> IsNull v \<and> (IsNull b \<or> lt v b) then v else b)"

text \<open>The first of the least values that are not null.\<close>

definition first_least :: "(Value \<Rightarrow> Value \<Rightarrow> bool) \<Rightarrow> Value list \<Rightarrow> Value" where
  "first_least lt vs = foldl (better lt) NullValue vs"

definition non_null :: "Value list \<Rightarrow> Value list" where
  "non_null vs = filter (\<lambda>v. \<not> IsNull v) vs"

lemma non_null_append [simp]: "non_null (xs @ ys) = non_null xs @ non_null ys"
  by (simp add: non_null_def)

lemma first_least_snoc [simp]: "first_least lt (vs @ [v]) = better lt (first_least lt vs) v"
  by (simp add: first_least_def)

lemma first_least_in: "\<not> IsNull (first_least lt vs) \<Longrightarrow> first_least lt vs \<in> set (non_null vs)"
  by (induction vs rule: rev_induct) (auto simp: first_least_def better_def non_null_def split: if_splits)

lemma first_least_append:
  "weak_order_on lt (set (non_null (xs @ ys))) \<Longrightarrow>
   first_least lt (xs @ ys) = better lt (first_least lt xs) (first_least lt ys)"
proof (induction ys rule: rev_induct)
  case Nil
  then show ?case by (simp add: first_least_def better_def)
next
  case (snoc y ys)
  let ?V = "set (non_null (xs @ ys @ [y]))" and ?a = "first_least lt xs" and ?b = "first_least lt ys"
  have w: "weak_order_on lt ?V" using snoc.prems by simp
  have "set (non_null (xs @ ys)) \<subseteq> ?V" by (auto simp: non_null_def)
  with snoc.IH w have IH: "first_least lt (xs @ ys) = better lt ?a ?b" by (blast intro: weak_order_on_subset)
  have V: "IsNull ?a \<or> ?a \<in> ?V" "IsNull ?b \<or> ?b \<in> ?V" "IsNull y \<or> y \<in> ?V"
    using first_least_in [of lt xs] first_least_in [of lt ys] by (auto simp: non_null_def)
  have "better lt (better lt ?a ?b) y = better lt ?a (better lt ?b y)"
    using V weak_order_onD [OF w, of y ?a ?b] weak_order_onD [OF w, of y ?b ?a] weak_order_onD [OF w, of ?b ?a y]
    by (auto simp: better_def)
  with IH show ?case by (metis append_assoc first_least_snoc)
qed

subsection \<open>States of values seen\<close>

definition strings_of :: "agg_env \<Rightarrow> Value list \<Rightarrow> gostring list" where
  "strings_of A vs = map (Value_String (ae_lib A)) (non_null vs)"

definition floats_of :: "agg_env \<Rightarrow> Value list \<Rightarrow> u64 list" where
  "floats_of A vs = List.map_filter (ValueToFloat (ae_lib A)) vs"

definition count_state :: "Value list \<Rightarrow> PartialAggState" where
  "count_state vs = zero_state\<lparr>ps_Count := word_of_nat (length (non_null vs))\<rparr>"

definition min_state :: "agg_env \<Rightarrow> Value list \<Rightarrow> PartialAggState" where
  "min_state A vs = zero_state\<lparr>ps_Min := first_least (less_value A) vs\<rparr>"

definition max_state :: "agg_env \<Rightarrow> Value list \<Rightarrow> PartialAggState" where
  "max_state A vs = zero_state\<lparr>ps_Max := first_least (greater_value A) vs\<rparr>"

definition range_state :: "agg_env \<Rightarrow> Value list \<Rightarrow> PartialAggState" where
  "range_state A vs =
     (let fs = map FloatValue (floats_of A vs) in
      zero_state\<lparr>ps_Count := word_of_nat (length fs), ps_Min := first_least (less_value A) fs,
                 ps_Max := first_least (greater_value A) fs\<rparr>)"

text \<open>An exact set below the threshold, the sketch of the same set from there on.\<close>

definition set_list :: "gostring set \<Rightarrow> (gostring \<times> bool) list" where
  "set_list D = map_list (\<lambda>k. if k \<in> D then Some True else None)"

definition set_state :: "agg_env \<Rightarrow> gostring set \<Rightarrow> PartialAggState" where
  "set_state A D =
     (if D = {} then zero_state
      else if dcHLLThreshold A \<le> int (card D) then zero_state\<lparr>ps_DistinctHLL := Some (sketch D)\<rparr>
      else zero_state\<lparr>ps_DistinctSet := Some (set_list D)\<rparr>)"

definition distinct_state :: "agg_env \<Rightarrow> Value list \<Rightarrow> PartialAggState" where
  "distinct_state A vs = set_state A (set (strings_of A vs))"

definition counts :: "gostring list \<Rightarrow> gostring \<rightharpoonup> u64" where
  "counts ks k = (if k \<in> set ks then Some (word_of_nat (count_list ks k)) else None)"

definition mode_state :: "agg_env \<Rightarrow> Value list \<Rightarrow> PartialAggState" where
  "mode_state A vs =
     (if non_null vs = [] then zero_state
      else zero_state\<lparr>ps_ModeCounts := Some (map_list (counts (strings_of A vs)))\<rparr>)"

subsection \<open>Counts and extrema\<close>

lemma zero_state_sel [simp]:
  "ps_Count zero_state = 0" "ps_Sum zero_state = 0" "ps_Min zero_state = NullValue" "ps_Max zero_state = NullValue"
  "ps_DistinctSet zero_state = None" "ps_DistinctHLL zero_state = None" "ps_ModeCounts zero_state = None"
  "ps_Digest zero_state = None"
  by (simp_all add: zero_state_def)

interpretation count: partial_aggregate "\<lambda>v s. Some (if IsNull v then s else s\<lparr>ps_Count := ps_Count s + 1\<rparr>)"
  "\<lambda>dst src. Some (dst\<lparr>ps_Count := ps_Count dst + ps_Count src\<rparr>)" count_state "\<lambda>_. True"
  by unfold_locales (simp_all add: count_state_def non_null_def)

lemma weak_order_non_null:
  "weak_order_on lt (set (non_null (xs @ ys))) \<Longrightarrow> weak_order_on lt (set (non_null xs)) \<and> weak_order_on lt (set (non_null ys))"
  by (auto simp: weak_order_on_def)

interpretation least: partial_aggregate "\<lambda>v s. Some (update_min A v s)" "\<lambda>dst src. Some (merge_min A dst src)"
  "min_state A" "\<lambda>vs. weak_order_on (less_value A) (set (non_null vs))" for A
proof
  fix xs ys assume ok: "weak_order_on (less_value A) (set (non_null (xs @ ys)))"
  then show "weak_order_on (less_value A) (set (non_null xs)) \<and> weak_order_on (less_value A) (set (non_null ys))"
    by (rule weak_order_non_null)
  show "Some (merge_min A (min_state A xs) (min_state A ys)) = Some (min_state A (xs @ ys))"
    by (simp add: merge_min_def min_state_def first_least_append [OF ok] better_def)
qed (simp add: update_min_def min_state_def better_def)

interpretation greatest: partial_aggregate "\<lambda>v s. Some (update_max A v s)" "\<lambda>dst src. Some (merge_max A dst src)"
  "max_state A" "\<lambda>vs. weak_order_on (greater_value A) (set (non_null vs))" for A
proof
  fix xs ys assume ok: "weak_order_on (greater_value A) (set (non_null (xs @ ys)))"
  then show "weak_order_on (greater_value A) (set (non_null xs)) \<and> weak_order_on (greater_value A) (set (non_null ys))"
    by (rule weak_order_non_null)
  show "Some (merge_max A (max_state A xs) (max_state A ys)) = Some (max_state A (xs @ ys))"
    by (simp add: merge_max_def max_state_def first_least_append [OF ok] better_def)
qed (simp add: update_max_def max_state_def better_def)

subsection \<open>Ranges\<close>

lemma less_value_float [simp]: "less_value A (FloatValue f) (FloatValue g) \<longleftrightarrow> float_lt f g"
  by (simp add: less_value_def CompareValues.simps float_cmp_def)

lemma greater_value_float [simp]: "greater_value A (FloatValue f) (FloatValue g) \<longleftrightarrow> float_lt g f"
  by (auto simp: greater_value_def CompareValues.simps float_cmp_def float_lt_def)

lemma floats_of_append [simp]: "floats_of A (xs @ ys) = floats_of A xs @ floats_of A ys"
  by (simp add: floats_of_def map_filter_def)

lemma floats_of_single: "floats_of A [v] = (case ValueToFloat (ae_lib A) v of None \<Rightarrow> [] | Some f \<Rightarrow> [f])"
  by (simp add: floats_of_def map_filter_def split: option.splits)

lemma length_floats_of: "length (floats_of A vs) \<le> length vs"
  by (simp add: floats_of_def map_filter_def length_filter_le)

lemma weak_order_floats:
  assumes "\<forall>f \<in> set fs. \<not> is_NaN f"
  shows "weak_order_on (less_value A) (set (non_null (map FloatValue fs)))"
    "weak_order_on (greater_value A) (set (non_null (map FloatValue fs)))"
  using assms by (auto simp: weak_order_on_def non_null_def float_lt_def)

lemma first_least_floats_null: "IsNull (first_least lt (map FloatValue fs)) \<longleftrightarrow> fs = []"
proof (induction fs rule: rev_induct)
  case (snoc f fs)
  then show ?case by (auto simp: better_def)
qed (simp add: first_least_def)

lemma word_of_length_0: "length xs < 2 ^ 63 \<Longrightarrow> (word_of_nat (length xs) :: u64) = 0 \<longleftrightarrow> xs = []"
  by (subst word_unat_eq_iff) (simp add: unat_of_nat take_bit_nat_eq_self)

definition range_ok :: "agg_env \<Rightarrow> Value list \<Rightarrow> bool" where
  "range_ok A vs \<longleftrightarrow> (\<forall>f \<in> set (floats_of A vs). \<not> is_NaN f) \<and> length vs < 2 ^ 63"

lemma range_state_empty:
  "range_ok A vs \<Longrightarrow> ps_Count (range_state A vs) = 0 \<longleftrightarrow> floats_of A vs = []"
  using length_floats_of [of A vs] word_of_length_0 [of "floats_of A vs"] by (simp add: range_state_def range_ok_def Let_def)

interpretation range: partial_aggregate "\<lambda>v s. Some (update_range A v s)" "\<lambda>dst src. Some (merge_range A dst src)"
  "range_state A" "range_ok A" for A
proof
  fix xs ys assume ok: "range_ok A (xs @ ys)"
  then show oks: "range_ok A xs \<and> range_ok A ys" by (auto simp: range_ok_def)
  have o: "\<forall>f \<in> set (floats_of A xs @ floats_of A ys). \<not> is_NaN f" using ok by (simp add: range_ok_def)
  note fl = first_least_append [OF weak_order_floats(1) [OF o, of A, unfolded map_append]]
    first_least_append [OF weak_order_floats(2) [OF o, of A, unfolded map_append]]
  show "Some (merge_range A (range_state A xs) (range_state A ys)) = Some (range_state A (xs @ ys))"
    using range_state_empty [of A xs] range_state_empty [of A ys] oks
    by (auto simp: merge_range_def range_state_def fl better_def first_least_floats_null Let_def)
next
  fix xs x assume ok: "range_ok A (xs @ [x])"
  then have ok: "range_ok A xs" by (simp add: range_ok_def)
  show "Some (update_range A x (range_state A xs)) = Some (range_state A (xs @ [x]))"
    using range_state_empty [OF ok]
    by (auto simp: update_range_def range_state_def floats_of_single better_def first_least_floats_null Let_def split: option.splits)
qed

subsection \<open>Distinct values\<close>

lemma dom_set_list: "dom (\<lambda>k. if k \<in> D then Some True else None) = D"
  by (auto split: if_splits)

lemma map_fst_set_list: "map fst (set_list D) = sorted_list_of_set D"
  by (simp add: set_list_def dom_set_list)

lemma set_list_empty [simp]: "set_list {} = []"
  by (simp add: set_list_def)

lemma obj_put_set_list: "finite D \<Longrightarrow> obj_put k True (set_list D) = set_list (insert k D)"
proof -
  assume "finite D"
  moreover have "(\<lambda>x. if x \<in> D then Some True else None)(k \<mapsto> True) = (\<lambda>x. if x \<in> insert k D then Some True else None)"
    by auto
  ultimately show ?thesis by (simp add: set_list_def obj_put_map_list dom_set_list)
qed

lemma put_set_list: "finite D \<Longrightarrow> foldl (\<lambda>m k. obj_put k True m) (set_list D) ks = set_list (D \<union> set ks)"
  by (induction ks arbitrary: D) (simp_all add: obj_put_set_list)

lemma add_all_sketch: "finite D \<Longrightarrow> add_all ks (sketch D) = Some (sketch (D \<union> set ks))"
  by (induction ks arbitrary: D) (simp_all add: HLL_Add_sketch)

definition exact_state :: "gostring set \<Rightarrow> PartialAggState" where
  "exact_state D = zero_state\<lparr>ps_DistinctSet := Some (set_list D)\<rparr>"

lemma exact_state_sel [simp]:
  "distinct_values (exact_state D) = sorted_list_of_set D" "ps_DistinctHLL (exact_state D) = None"
  "ps_DistinctSet (exact_state D) = Some (set_list D)" "ps_Count (exact_state D) = 0"
  by (simp_all add: exact_state_def distinct_values_def map_fst_set_list)

lemma distinct_values_zero [simp]: "distinct_values zero_state = []"
  by (simp add: distinct_values_def)

lemma put_all_exact: "finite D \<Longrightarrow> put_all ks (exact_state D) = exact_state (D \<union> set ks)"
  by (simp add: put_all_def put_set_list exact_state_def)

lemma put_all_zero: "put_all ks zero_state = exact_state (set ks)"
  using put_set_list [of "{}" ks] by (simp add: put_all_def exact_state_def)

lemma promote_exact:
  assumes "finite D" shows "promote (exact_state D) = Some (zero_state\<lparr>ps_DistinctHLL := Some (sketch D)\<rparr>)"
proof -
  have "add_all (sorted_list_of_set D) NewHyperLogLog = Some (sketch D)"
    using assms add_all_sketch [of "{}" "sorted_list_of_set D"] by (simp add: sketch_empty)
  then show ?thesis by (simp add: promote_def) (simp add: exact_state_def zero_state_def)
qed

lemma promote_zero: "promote zero_state = Some (zero_state\<lparr>ps_DistinctHLL := Some (sketch {})\<rparr>)"
  by (simp add: promote_def sketch_empty)

lemma promote_large_exact: "finite D \<Longrightarrow> D \<noteq> {} \<Longrightarrow> promote_if_large A (exact_state D) = Some (set_state A D)"
  by (simp add: promote_if_large_def promote_exact set_state_def exact_state_def [symmetric])

lemma set_state_cases:
  assumes "finite D"
  obtains (empty) "D = {}" "set_state A D = zero_state"
  | (exact) "D \<noteq> {}" "int (card D) < dcHLLThreshold A" "set_state A D = exact_state D"
  | (large) "dcHLLThreshold A \<le> int (card D)" "set_state A D = zero_state\<lparr>ps_DistinctHLL := Some (sketch D)\<rparr>"
  by (cases "D = {}"; cases "dcHLLThreshold A \<le> int (card D)") (simp_all add: set_state_def exact_state_def)

lemma set_state_large:
  "0 < dcHLLThreshold A \<Longrightarrow> finite E \<Longrightarrow> D \<subseteq> E \<Longrightarrow> dcHLLThreshold A \<le> int (card D) \<Longrightarrow>
   set_state A E = zero_state\<lparr>ps_DistinctHLL := Some (sketch E)\<rparr>"
  using card_mono [of E D] by (auto simp: set_state_def)

lemma update_set_state:
  assumes "finite D" "0 < dcHLLThreshold A" "\<not> IsNull v"
  shows "update_distinct A v (set_state A D) = Some (set_state A (insert (Value_String (ae_lib A) v) D))"
  using assms(1)
proof (cases rule: set_state_cases [where A = A])
  case large
  with assms show ?thesis
    using set_state_large [of A "insert (Value_String (ae_lib A) v) D" D]
    by (simp add: update_distinct_def HLL_Add_sketch Let_def subset_insertI)
qed (use assms in \<open>simp_all add: update_distinct_def put_all_exact put_all_zero promote_large_exact Let_def\<close>)

lemma merge_set_state:
  assumes "finite D" "finite E" "0 < dcHLLThreshold A"
  shows "merge_distinct A (set_state A D) (set_state A E) = Some (set_state A (D \<union> E))"
  using assms(1)
proof (cases rule: set_state_cases [where A = A])
  case D: empty
  from assms(2) show ?thesis
    by (cases rule: set_state_cases [where A = A])
      (use D in \<open>simp_all add: merge_distinct_def put_all_zero promote_large_exact promote_zero merge_sketch_def HLL_Merge_sketch assms\<close>)
next
  case D: exact
  from assms(2) show ?thesis
  proof (cases rule: set_state_cases [where A = A])
    case large
    with D assms show ?thesis using set_state_large [of A "D \<union> E" E]
      by (simp add: merge_distinct_def promote_exact merge_sketch_def HLL_Merge_sketch)
  qed (use D in \<open>simp_all add: merge_distinct_def put_all_exact promote_large_exact assms\<close>)
next
  case D: large
  from assms(2) show ?thesis
    by (cases rule: set_state_cases [where A = A])
      (use D set_state_large [of A "D \<union> E" D] in
        \<open>simp_all add: merge_distinct_def merge_sketch_def HLL_Merge_sketch add_all_sketch assms\<close>)
qed

interpretation distinct: partial_aggregate "update_distinct A" "merge_distinct A" "distinct_state A" "\<lambda>_. 0 < dcHLLThreshold A" for A
proof
  fix xs x assume "0 < dcHLLThreshold A"
  then show "update_distinct A x (distinct_state A xs) = Some (distinct_state A (xs @ [x]))"
  proof (cases "IsNull x")
    case True
    then show ?thesis by (simp add: update_distinct_def distinct_state_def strings_of_def non_null_def)
  qed (simp add: update_set_state distinct_state_def strings_of_def non_null_def)
qed (simp_all add: distinct_state_def merge_set_state strings_of_def)

subsection \<open>Modes\<close>

lemma dom_counts: "dom (counts ks) = set ks"
  by (auto simp: counts_def split: if_splits)

lemma add_count_map_list:
  "finite (dom f) \<Longrightarrow> add_count (map_list f) (k, n) = map_list (f(k \<mapsto> (case f k of None \<Rightarrow> 0 | Some c \<Rightarrow> c) + n))"
  by (simp add: add_count_def obj_put_map_list map_of_map_list)

lemma add_counts_map_list:
  "finite (dom f) \<Longrightarrow> distinct (map fst kns) \<Longrightarrow>
   foldl add_count (map_list f) kns =
   map_list (\<lambda>k. case map_of kns k of None \<Rightarrow> f k | Some n \<Rightarrow> Some ((case f k of None \<Rightarrow> 0 | Some c \<Rightarrow> c) + n))"
proof (induction kns arbitrary: f)
  case (Cons kn kns)
  obtain k n where kn: "kn = (k, n)" by force
  let ?f = "f(k \<mapsto> (case f k of None \<Rightarrow> 0 | Some c \<Rightarrow> c) + n)"
  have "map_of kns k = None" using Cons.prems by (auto simp: kn map_of_eq_None_iff)
  then have "(\<lambda>j. case map_of kns j of None \<Rightarrow> ?f j | Some n \<Rightarrow> Some ((case ?f j of None \<Rightarrow> 0 | Some c \<Rightarrow> c) + n)) =
    (\<lambda>j. case map_of (kn # kns) j of None \<Rightarrow> f j | Some n \<Rightarrow> Some ((case f j of None \<Rightarrow> 0 | Some c \<Rightarrow> c) + n))"
    by (auto simp: kn fun_eq_iff split: option.splits)
  moreover have "foldl add_count (map_list f) (kn # kns) = foldl add_count (map_list ?f) kns"
    using Cons.prems by (simp add: kn add_count_map_list)
  moreover have "finite (dom ?f)" "distinct (map fst kns)" using Cons.prems by simp_all
  ultimately show ?case by (simp only: Cons.IH)
qed simp

lemma add_counts_counts: "foldl add_count (map_list (counts xs)) (map_list (counts ys)) = map_list (counts (xs @ ys))"
proof -
  have "(\<lambda>k. case counts ys k of None \<Rightarrow> counts xs k | Some n \<Rightarrow> Some ((case counts xs k of None \<Rightarrow> 0 | Some c \<Rightarrow> c) + n)) =
    counts (xs @ ys)" by (auto simp: counts_def fun_eq_iff)
  then show ?thesis
    by (subst add_counts_map_list) (simp_all add: dom_counts map_of_map_list)
qed

lemma counts_Nil [simp]: "map_list (counts []) = []"
  by (simp add: counts_def [abs_def])

lemma map_list_single: "map_list (counts [k]) = [(k, 1)]"
  by (simp add: map_list_def dom_counts) (simp add: counts_def)

definition counted :: "gostring list \<Rightarrow> PartialAggState" where
  "counted ks = (if ks = [] then zero_state else zero_state\<lparr>ps_ModeCounts := Some (map_list (counts ks))\<rparr>)"

lemma add_counts_counted: "ys \<noteq> [] \<Longrightarrow> add_counts (map_list (counts ys)) (counted xs) = counted (xs @ ys)"
  using add_counts_counts [of xs ys] by (auto simp: add_counts_def counted_def)

lemma mode_state_counted: "mode_state A vs = counted (strings_of A vs)"
  by (simp add: mode_state_def counted_def strings_of_def)

interpretation mode: partial_aggregate "\<lambda>v s. Some (update_mode A v s)" "\<lambda>dst src. Some (merge_mode dst src)"
  "mode_state A" "\<lambda>_. True" for A
proof
  fix xs x
  show "Some (update_mode A x (mode_state A xs)) = Some (mode_state A (xs @ [x]))"
    using add_counts_counted [of "[Value_String (ae_lib A) x]" "strings_of A xs"]
    by (auto simp: update_mode_def mode_state_counted map_list_single strings_of_def non_null_def)
next
  fix xs ys
  show "Some (merge_mode (mode_state A xs) (mode_state A ys)) = Some (mode_state A (xs @ ys))"
    using add_counts_counted [of "strings_of A ys" "strings_of A xs"]
    by (auto simp: merge_mode_def mode_state_counted strings_of_def) (simp_all add: counted_def)
qed simp

subsection \<open>All functions\<close>

text \<open>
  The functions whose partial results merge exactly, with the condition on the values: none for count, dc,
  estdc_error and mode, a consistent order for min and max, numbers for range. Sums of floats round
  differently in parts and are not among them.
\<close>

definition merges_exactly :: "agg_env \<Rightarrow> gostring \<Rightarrow> Value list \<Rightarrow> bool" where
  "merges_exactly A fn vs =
     (case agg_of A fn of
        Some aggCount \<Rightarrow> True
      | Some aggMin \<Rightarrow> weak_order_on (less_value A) (set (non_null vs))
      | Some aggMax \<Rightarrow> weak_order_on (greater_value A) (set (non_null vs))
      | Some aggRange \<Rightarrow> range_ok A vs
      | Some aggDC \<Rightarrow> 0 < dcHLLThreshold A
      | Some aggEstDCE \<Rightarrow> 0 < dcHLLThreshold A
      | Some aggMode \<Rightarrow> True
      | _ \<Rightarrow> False)"

definition state_of :: "agg_env \<Rightarrow> gostring \<Rightarrow> Value list \<Rightarrow> PartialAggState" where
  "state_of A fn vs =
     (case agg_of A fn of
        Some aggCount \<Rightarrow> count_state vs
      | Some aggMin \<Rightarrow> min_state A vs
      | Some aggMax \<Rightarrow> max_state A vs
      | Some aggRange \<Rightarrow> range_state A vs
      | Some aggDC \<Rightarrow> distinct_state A vs
      | Some aggEstDCE \<Rightarrow> distinct_state A vs
      | Some aggMode \<Rightarrow> mode_state A vs
      | _ \<Rightarrow> zero_state)"

interpretation named: partial_aggregate "\<lambda>(v, w). updatePartialStateWithWeight A fn v w" "mergePartialState A fn"
  "\<lambda>vws. state_of A fn (map fst vws)" "\<lambda>vws. merges_exactly A fn (map fst vws)" for A fn
proof
  fix xs ys :: "(Value \<times> Value) list"
  assume ok: "merges_exactly A fn (map fst (xs @ ys))"
  then show "merges_exactly A fn (map fst xs) \<and> merges_exactly A fn (map fst ys)"
    using range.ok_append [of A "map fst xs" "map fst ys"] weak_order_non_null [of "less_value A" "map fst xs" "map fst ys"]
      weak_order_non_null [of "greater_value A" "map fst xs" "map fst ys"]
    by (cases "agg_of A fn"; cases "the (agg_of A fn)") (simp_all add: merges_exactly_def del: non_null_append)
  from ok show "mergePartialState A fn (state_of A fn (map fst xs)) (state_of A fn (map fst ys)) = Some (state_of A fn (map fst (xs @ ys)))"
    using count.st_merge [of "map fst xs" "map fst ys"] least.st_merge [of A "map fst xs" "map fst ys"]
      greatest.st_merge [of A "map fst xs" "map fst ys"] range.st_merge [of A "map fst xs" "map fst ys"]
      distinct.st_merge [of A "map fst xs" "map fst ys"] mode.st_merge [of A "map fst xs" "map fst ys"]
    by (cases "agg_of A fn"; cases "the (agg_of A fn)") (simp_all add: merges_exactly_def mergePartialState_def state_of_def del: non_null_append)
next
  fix xs :: "(Value \<times> Value) list" and x :: "Value \<times> Value"
  obtain v w where x: "x = (v, w)" by force
  assume "merges_exactly A fn (map fst (xs @ [x]))"
  then show "(case x of (v, w) \<Rightarrow> updatePartialStateWithWeight A fn v w) (state_of A fn (map fst xs)) = Some (state_of A fn (map fst (xs @ [x])))"
    using count.st_snoc [where xs = "map fst xs" and x = v] least.st_snoc [where A = A and xs = "map fst xs" and x = v] greatest.st_snoc [where A = A and xs = "map fst xs" and x = v]
      range.st_snoc [where A = A and xs = "map fst xs" and x = v] distinct.st_snoc [where A = A and xs = "map fst xs" and x = v] mode.st_snoc [where A = A and xs = "map fst xs" and x = v]
    by (cases "agg_of A fn"; cases "the (agg_of A fn)")
      (simp_all add: x merges_exactly_def updatePartialStateWithWeight_def state_of_def del: non_null_append)
qed

lemma merges_exactly_subset:
  "merges_exactly A fn vs \<Longrightarrow> set us \<subseteq> set vs \<Longrightarrow> length us \<le> length vs \<Longrightarrow> merges_exactly A fn us"
proof -
  assume a: "merges_exactly A fn vs" "set us \<subseteq> set vs" "length us \<le> length vs"
  then have "set (non_null us) \<subseteq> set (non_null vs)" "set (floats_of A us) \<subseteq> set (floats_of A vs)"
    by (auto simp: non_null_def floats_of_def map_filter_def)
  with a show ?thesis
    by (cases "agg_of A fn"; cases "the (agg_of A fn)")
      (auto simp: merges_exactly_def range_ok_def intro: weak_order_on_subset)
qed

text \<open>The states of a group, over rows of any kind from which the fields of a function are read.\<close>

definition states_of :: "agg_env \<Rightarrow> ('i \<Rightarrow> PartialAggFunc \<Rightarrow> Value) \<Rightarrow> PartialAggFunc list \<Rightarrow> 'i list \<Rightarrow> PartialAggState list" where
  "states_of A val fns is = map (\<lambda>fn. state_of A (fn_Name fn) (map (\<lambda>i. val i fn) is)) fns"

definition all_exact :: "agg_env \<Rightarrow> ('i \<Rightarrow> PartialAggFunc \<Rightarrow> Value) \<Rightarrow> PartialAggFunc list \<Rightarrow> 'i list \<Rightarrow> bool" where
  "all_exact A val fns is \<longleftrightarrow> (\<forall>fn \<in> set fns. merges_exactly A (fn_Name fn) (map (\<lambda>i. val i fn) is))"

interpretation group: partial_aggregate "\<lambda>i. update_states A (val i) (wt i) fns" "merge_states A fns"
  "states_of A val fns" "all_exact A val fns" for A val wt fns
proof
  fix xs ys assume ok: "all_exact A val fns (xs @ ys)"
  then show "all_exact A val fns xs \<and> all_exact A val fns ys"
    using named.ok_append [of A _ "map (\<lambda>i. (val i _, wt i _)) xs" "map (\<lambda>i. (val i _, wt i _)) ys"]
    by (auto simp: all_exact_def comp_def)
  from ok show "merge_states A fns (states_of A val fns xs) (states_of A val fns ys) = Some (states_of A val fns (xs @ ys))"
  proof (induction fns)
    case (Cons fn fns)
    then show ?case
      using named.st_merge [of A "fn_Name fn" "map (\<lambda>i. (val i fn, wt i fn)) xs" "map (\<lambda>i. (val i fn, wt i fn)) ys"]
      by (simp add: states_of_def all_exact_def comp_def)
  qed (simp add: states_of_def)
next
  fix xs x assume "all_exact A val fns (xs @ [x])"
  then show "update_states A (val x) (wt x) fns (states_of A val fns xs) = Some (states_of A val fns (xs @ [x]))"
  proof (induction fns)
    case (Cons fn fns)
    then show ?case
      using named.st_snoc [of A "fn_Name fn" "map (\<lambda>i. (val i fn, wt i fn)) xs" "(val x fn, wt x fn)"]
      by (simp add: states_of_def all_exact_def comp_def)
  qed (simp add: states_of_def)
qed

subsection \<open>Final values\<close>

text \<open>What a function promises of the values it has seen, without states.\<close>

definition most_frequent :: "gostring list \<Rightarrow> gostring" where
  "most_frequent ks = Min {k \<in> set ks. \<forall>k' \<in> set ks. count_list ks k' \<le> count_list ks k}"

definition value_of :: "agg_env \<Rightarrow> gostring \<Rightarrow> Value list \<Rightarrow> Value" where
  "value_of A fn vs =
     (let D = set (strings_of A vs); large = (dcHLLThreshold A \<le> int (card D));
          lo = AsFloat (first_least (less_value A) (map FloatValue (floats_of A vs)));
          hi = AsFloat (first_least (greater_value A) (map FloatValue (floats_of A vs)))
      in case agg_of A fn of
        Some aggCount \<Rightarrow> IntValue (word_of_nat (length (non_null vs)))
      | Some aggMin \<Rightarrow> first_least (less_value A) vs
      | Some aggMax \<Rightarrow> first_least (greater_value A) vs
      | Some aggRange \<Rightarrow> if floats_of A vs = [] then NullValue else FloatValue (float_sub hi lo)
      | Some aggDC \<Rightarrow> IntValue (if large then HLL_Count (ae_lib A) (ae_Log A) (sketch D) else word_of_nat (card D))
      | Some aggEstDCE \<Rightarrow> FloatValue (if large then StandardError (ae_Sqrt A) (Some (sketch D)) else 0)
      | Some aggMode \<Rightarrow> if strings_of A vs = [] then NullValue else StringValue (most_frequent (strings_of A vs))
      | _ \<Rightarrow> NullValue)"

text \<open>The loop over the counts finds the same value in whatever order it visits them.\<close>

lemma mode_loop_best:
  "\<exists>b' n'. mode_loop kcs (Some (b, n)) = Some (b', n') \<and> (b', n') \<in> insert (b, n) (set kcs) \<and>
     (\<forall>(k, c) \<in> insert (b, n) (set kcs). sint c < sint n' \<or> c = n' \<and> b' \<le> k)"
proof (induction kcs arbitrary: b n)
  case (Cons vc kcs)
  obtain v c where vc: "vc = (v, c)" by force
  have tri: "sint n < sint c \<or> sint c < sint n \<or> c = n" by (metis linorder_less_linear signed_word_eqI)
  show ?case
  proof (cases "sint n < sint c \<or> c = n \<and> v < b")
    case True
    with Cons.IH [of v c] show ?thesis by (force simp: vc)
  next
    case False
    with Cons.IH [of b n] tri show ?thesis by (force simp: vc)
  qed
qed auto

lemma modeFromCounts_counts:
  assumes "ks \<noteq> []" "length ks < 2 ^ 63"
  shows "modeFromCounts (Some (map_list (counts ks))) = StringValue (most_frequent ks)"
proof -
  let ?m = "map_list (counts ks)"
  have small: "count_list ks k < 2 ^ 63" for k using count_le_length [of ks k] assms(2) by simp
  have s: "sint (word_of_nat (count_list ks k) :: u64) = int (count_list ks k)" for k
    using sint_word_of_int [of "int (count_list ks k)"] small [of k] by simp
  have set_m: "set ?m = (\<lambda>k. (k, word_of_nat (count_list ks k))) ` set ks"
    by (auto simp: map_list_def dom_counts counts_def)
  obtain k0 c0 m where m: "?m = (k0, c0) # m" using assms(1) set_m by (cases ?m) auto
  from mode_loop_best [of m k0 c0] obtain b n where
    r: "mode_loop ?m None = Some (b, n)" "(b, n) \<in> set ?m" "\<forall>(k, c) \<in> set ?m. sint c < sint n \<or> c = n \<and> b \<le> k"
    by (auto simp: m)
  from r(2) have b: "b \<in> set ks" "n = word_of_nat (count_list ks b)" by (auto simp: set_m)
  have best: "count_list ks k < count_list ks b \<or> count_list ks k = count_list ks b \<and> b \<le> k" if "k \<in> set ks" for k
  proof -
    have "(k, word_of_nat (count_list ks k)) \<in> set ?m" using that by (simp add: set_m)
    from bspec [OF r(3) this] have "sint (word_of_nat (count_list ks k) :: u64) < sint n \<or> word_of_nat (count_list ks k) = n \<and> b \<le> k"
      by simp
    moreover have "count_list ks k = count_list ks b" if "word_of_nat (count_list ks k) = n"
      by (metis of_nat_eq_iff s that b(2))
    ultimately show ?thesis by (metis of_nat_less_iff s b(2))
  qed
  have "most_frequent ks = b"
    unfolding most_frequent_def
  proof (rule Min_eqI)
    show "b \<in> {k \<in> set ks. \<forall>k' \<in> set ks. count_list ks k' \<le> count_list ks k}" 
    proof -
      have "count_list ks k \<le> count_list ks b" if "k \<in> set ks" for k using best [OF that] by linarith
      with b(1) show ?thesis by simp
    qed
    show "b \<le> k" if "k \<in> {k \<in> set ks. \<forall>k' \<in> set ks. count_list ks k' \<le> count_list ks k}" for k
    proof -
      have "k \<in> set ks" "count_list ks b \<le> count_list ks k" using that b(1) by auto
      then show ?thesis using best [of k] by linarith
    qed
  qed simp
  moreover have "n \<noteq> 0"
  proof
    assume "n = 0"
    then have "count_list ks b = 0" by (metis b(2) of_nat_eq_0_iff s signed_0)
    with b(1) show False by (simp add: count_list_0_iff)
  qed
  ultimately show ?thesis by (simp add: modeFromCounts_def r(1))
qed

lemma finalize_state:
  assumes "merges_exactly A (fn_Name fn) vs" "length vs < 2 ^ 63"
  shows "finalizePartialState A (state_of A (fn_Name fn) vs) fn = value_of A (fn_Name fn) vs"
proof -
  have len: "length (strings_of A vs) < 2 ^ 63"
    using le_less_trans [OF length_filter_le assms(2)] by (simp add: strings_of_def non_null_def)
  have mode: "modeFromCounts (ps_ModeCounts (mode_state A vs)) =
    (if strings_of A vs = [] then NullValue else StringValue (most_frequent (strings_of A vs)))"
    using modeFromCounts_counts [OF _ len] by (simp add: mode_state_counted counted_def modeFromCounts_def)
  have range: "finalize_range A (range_state A vs) = value_of A (fn_Name fn) vs" if "agg_of A (fn_Name fn) = Some aggRange"
  proof -
    have "range_ok A vs" using assms(1) that by (simp add: merges_exactly_def)
    note e = range_state_empty [OF this]
    have fl: "\<exists>f. first_least lt (map FloatValue fs) = FloatValue f" if "fs \<noteq> []" for lt fs
      using that first_least_in [of lt "map FloatValue fs"] by (auto simp: first_least_floats_null non_null_def)
    show ?thesis
      using that e fl [of "floats_of A vs" "less_value A"] fl [of "floats_of A vs" "greater_value A"]
      by (auto simp: finalize_range_def value_of_def Let_def range_state_def)
  qed
  have dc: "finalize_dc A (distinct_state A vs) = value_of A (fn_Name fn) vs" if "agg_of A (fn_Name fn) = Some aggDC"
    using that assms(1) by (auto simp: finalize_dc_def value_of_def merges_exactly_def distinct_state_def set_state_def
        exact_state_def [symmetric] Let_def)
  show ?thesis
    using assms(1) mode range dc
    by (cases "agg_of A (fn_Name fn)"; cases "the (agg_of A (fn_Name fn))")
      (auto simp: merges_exactly_def finalizePartialState_def state_of_def value_of_def Let_def
        count_state_def min_state_def max_state_def distinct_state_def set_state_def StandardError_def)
qed

subsection \<open>Copies\<close>

lemma clone_state_of: "merges_exactly A fn vs \<Longrightarrow> clone_state A (state_of A fn vs) = state_of A fn vs"
  by (cases "agg_of A fn"; cases "the (agg_of A fn)")
    (simp_all add: merges_exactly_def state_of_def clone_state_def count_state_def min_state_def max_state_def
      range_state_def distinct_state_def set_state_def mode_state_def Unmarshal_Marshal_sketch Let_def)

end
