(* ===== verification/Agg_Groups.thy ===== *)
theory Agg_Groups
  imports Agg_State "HOL-Library.Multiset"
begin

text \<open>
  Groups of partial aggregation. A group is identified by the list of its key values; \<open>found\<close> reads the
  states of a key from the map of chains, whatever chain its hash leads to. One step of a computation or of a
  merge changes \<open>found\<close> at one key, and the two loops follow from that.
\<close>

subsection \<open>Keys as lists of values\<close>

fun scalar :: "Value \<Rightarrow> bool" where
  "scalar (ArrayValue vs) \<longleftrightarrow> False"
| "scalar (ObjectValue kvs) \<longleftrightarrow> False"
| "scalar _ \<longleftrightarrow> True"

text \<open>What \<^verbatim>\<open>==\<close> does on the structs of scalar values: their payload pointer is nil.\<close>

definition same_scalar :: "agg_env \<Rightarrow> bool" where
  "same_scalar A \<longleftrightarrow> (\<forall>v w. scalar v \<longrightarrow> ae_same A v w \<longleftrightarrow> v = w)"

definition group_key :: "gostring list \<Rightarrow> PartialAggGroup \<Rightarrow> Value list" where
  "group_key gb g = map (key_get (gr_Key g)) gb"

definition hash_key :: "agg_env \<Rightarrow> gostring list \<Rightarrow> Value list \<Rightarrow> u64" where
  "hash_key A gb k = (if gb = [] then 0 else foldl (hashValue (ae_lib A)) fnv_offset k)"

definition key_map :: "gostring list \<Rightarrow> Value list \<Rightarrow> key" where
  "key_map gb k = foldl (\<lambda>key (g, v). obj_put g v key) [] (zip gb k)"

lemma group_hash_key: "group_hash (ae_lib A) get gb = hash_key A gb (map get gb)"
  by (simp add: group_hash_def hash_key_def foldl_map)

lemma extract_key_map: "extract_key get gb = key_map gb (map get gb)"
proof -
  have "foldl (\<lambda>key g. obj_put g (get g) key) key gb = foldl (\<lambda>key (g, v). obj_put g v key) key (zip gb (map get gb))" for key
    by (induction gb arbitrary: key) simp_all
  then show ?thesis by (simp add: extract_key_def key_map_def)
qed

lemma map_of_extract: "map_of (foldl (\<lambda>key g. obj_put g (get g) key) key gb) g = (if g \<in> set gb then Some (get g) else map_of key g)"
  by (induction gb arbitrary: key) auto

lemma key_get_extract: "g \<in> set gb \<Longrightarrow> key_get (extract_key get gb) g = get g"
  by (simp add: key_get_def extract_key_def map_of_extract)

lemma keys_equal_key:
  "same_scalar A \<Longrightarrow> \<forall>v \<in> set (group_key gb g). scalar v \<Longrightarrow> keys_equal A (gr_Key g) get gb \<longleftrightarrow> group_key gb g = map get gb"
  by (auto simp: keys_equal_def same_scalar_def group_key_def list_all_iff)

subsection \<open>Chains\<close>

definition good_group :: "agg_env \<Rightarrow> gostring list \<Rightarrow> PartialAggGroup \<Rightarrow> bool" where
  "good_group A gb g \<longleftrightarrow> (\<forall>v \<in> set (group_key gb g). scalar v) \<and> gr_Key g = key_map gb (group_key gb g)"

definition good_chain :: "agg_env \<Rightarrow> gostring list \<Rightarrow> u64 \<Rightarrow> PartialAggGroup list \<Rightarrow> bool" where
  "good_chain A gb h chain \<longleftrightarrow>
     distinct (map (group_key gb) chain) \<and> (\<forall>g \<in> set chain. good_group A gb g \<and> hash_key A gb (group_key gb g) = h)"

definition good_groups :: "agg_env \<Rightarrow> gostring list \<Rightarrow> groups \<Rightarrow> bool" where
  "good_groups A gb groups \<longleftrightarrow>
     distinct (map fst groups) \<and> (\<forall>(h, chain) \<in> set groups. good_chain A gb h chain)"

definition entries :: "gostring list \<Rightarrow> PartialAggGroup list \<Rightarrow> (Value list \<times> PartialAggState list) list" where
  "entries gb gs = map (\<lambda>g. (group_key gb g, gr_States g)) gs"

definition found :: "agg_env \<Rightarrow> gostring list \<Rightarrow> groups \<Rightarrow> Value list \<Rightarrow> PartialAggState list option" where
  "found A gb groups k = map_of (entries gb (chain_of groups (hash_key A gb k))) k"

lemma group_key_update [simp]: "group_key gb (g\<lparr>gr_States := sts\<rparr>) = group_key gb g"
  by (simp add: group_key_def)

lemma good_group_update [simp]: "good_group A gb (g\<lparr>gr_States := sts\<rparr>) = good_group A gb g"
  by (simp add: good_group_def)

lemma map_fst_entries [simp]: "map fst (entries gb gs) = map (group_key gb) gs"
  by (simp add: entries_def comp_def)

lemma fst_entries [simp]: "fst ` set (entries gb gs) = group_key gb ` set gs"
  by (simp add: entries_def image_image)

lemma set_entries: "(k, s) \<in> set (entries gb gs) \<longleftrightarrow> (\<exists>g \<in> set gs. group_key gb g = k \<and> gr_States g = s)"
  by (auto simp: entries_def)

lemma good_chain_of: "good_groups A gb groups \<Longrightarrow> good_chain A gb h (chain_of groups h)"
  by (auto simp: chain_of_def good_groups_def good_chain_def dest!: map_of_SomeD split: option.splits)

lemma chain_of_update: "chain_of (AList.update h chain groups) h' = (if h' = h then chain else chain_of groups h')"
  by (simp add: chain_of_def update_conv')

lemma good_groups_update:
  assumes "good_groups A gb groups" "good_chain A gb h chain"
  shows "good_groups A gb (AList.update h chain groups)"
proof -
  have "distinct (map fst (AList.update h chain groups))" using assms(1) by (simp add: good_groups_def distinct_update)
  moreover have "good_chain A gb h' c" if "(h', c) \<in> set (AList.update h chain groups)" for h' c
  proof -
    have "map_of (AList.update h chain groups) h' = Some c" using that calculation by (rule map_of_is_SomeI [rotated])
    then show ?thesis
      using assms by (auto simp: update_conv' good_groups_def dest!: map_of_SomeD split: if_splits)
  qed
  ultimately show ?thesis by (auto simp: good_groups_def)
qed

text \<open>Replacing the chain of a key by one that differs at that key only.\<close>

lemma found_update:
  assumes "good_groups A gb groups" "good_chain A gb (hash_key A gb k) chain"
    "map_of (entries gb chain) = (map_of (entries gb (chain_of groups (hash_key A gb k))))(k \<mapsto> sts)"
  shows "good_groups A gb (AList.update (hash_key A gb k) chain groups)"
    "found A gb (AList.update (hash_key A gb k) chain groups) = (found A gb groups)(k \<mapsto> sts)"
  using assms by (auto simp: good_groups_update found_def chain_of_update)

lemma found_all_groups:
  assumes "good_groups A gb groups"
  shows "distinct (map (group_key gb) (all_groups groups))" "map_of (entries gb (all_groups groups)) = found A gb groups"
    "\<forall>g \<in> set (all_groups groups). good_group A gb g"
proof -
  have g: "distinct (map fst groups)" "\<And>h c. (h, c) \<in> set groups \<Longrightarrow> good_chain A gb h c"
    using assms by (auto simp: good_groups_def)
  show d: "distinct (map (group_key gb) (all_groups groups))"
    using g
  proof (induction groups)
    case (Cons hc groups)
    obtain h c where hc: "hc = (h, c)" by force
    have IH: "distinct (map (group_key gb) (all_groups groups))" using Cons by (simp add: hc)
    have "group_key gb ` set c \<inter> group_key gb ` set (all_groups groups) = {}"
    proof (rule ccontr)
      assume "\<not> ?thesis"
      then obtain g g' h' c' where x: "g \<in> set c" "(h', c') \<in> set groups" "g' \<in> set c'" "group_key gb g = group_key gb g'"
        by (auto simp: all_groups_def)
      then have "h = h'" using Cons.prems(2) [of h c] Cons.prems(2) [of h' c'] by (auto simp: hc good_chain_def)
      with x(2) Cons.prems(1) show False by (force simp: hc)
    qed
    with IH Cons.prems(2) [of h c] show ?case by (simp add: hc all_groups_def good_chain_def)
  qed (simp add: all_groups_def)
  show "\<forall>g \<in> set (all_groups groups). good_group A gb g"
    using g(2) by (auto simp: all_groups_def good_chain_def)
  have "map_of (entries gb (all_groups groups)) k = Some s \<longleftrightarrow> found A gb groups k = Some s" for k s
  proof -
    have c: "distinct (map (group_key gb) (chain_of groups (hash_key A gb k)))"
      using good_chain_of [OF assms] by (simp add: good_chain_def)
    have "(k, s) \<in> set (entries gb (all_groups groups)) \<longleftrightarrow> (k, s) \<in> set (entries gb (chain_of groups (hash_key A gb k)))"
    proof
      assume "(k, s) \<in> set (entries gb (all_groups groups))"
      then obtain h c x where x: "(h, c) \<in> set groups" "x \<in> set c" "group_key gb x = k" "gr_States x = s"
        by (auto simp: set_entries all_groups_def)
      then have "h = hash_key A gb k" using g(2) by (auto simp: good_chain_def)
      with x g(1) have "chain_of groups (hash_key A gb k) = c" by (simp add: chain_of_def)
      with x show "(k, s) \<in> set (entries gb (chain_of groups (hash_key A gb k)))" by (auto simp: set_entries)
    next
      assume "(k, s) \<in> set (entries gb (chain_of groups (hash_key A gb k)))"
      then obtain x where x: "x \<in> set (chain_of groups (hash_key A gb k))" "group_key gb x = k" "gr_States x = s"
        by (auto simp: set_entries)
      then obtain c where "map_of groups (hash_key A gb k) = Some c" "x \<in> set c"
        by (cases "map_of groups (hash_key A gb k)") (simp_all add: chain_of_def)
      then have "x \<in> set (all_groups groups)" by (force simp: all_groups_def dest: map_of_SomeD)
      with x show "(k, s) \<in> set (entries gb (all_groups groups))" by (auto simp: set_entries)
    qed
    with d c show ?thesis by (simp add: found_def map_of_eq_Some_iff)
  qed
  then show "map_of (entries gb (all_groups groups)) = found A gb groups" by (metis ext not_Some_eq)
qed

subsection \<open>A step of a computation\<close>

lemma chain_find_Some: "chain_find P chain = Some i \<Longrightarrow> i < length chain \<and> P (chain ! i)"
  by (induction chain arbitrary: i) (auto split: if_splits)

lemma chain_find_None: "chain_find P chain = None \<longleftrightarrow> (\<forall>g \<in> set chain. \<not> P g)"
  by (induction chain) auto

lemma entries_update:
  assumes "distinct (map (group_key gb) chain)" "i < length chain"
  shows "map_of (entries gb (chain[i := (chain ! i)\<lparr>gr_States := sts\<rparr>])) = (map_of (entries gb chain))(group_key gb (chain ! i) \<mapsto> sts)"
    "map_of (entries gb chain) (group_key gb (chain ! i)) = Some (gr_States (chain ! i))"
  using assms
proof (induction chain arbitrary: i)
  case (Cons g chain)
  have ne: "group_key gb (chain ! j) \<noteq> group_key gb g" if "j < length chain" "distinct (map (group_key gb) (g # chain))" for j
  proof -
    have "group_key gb (chain ! j) \<in> group_key gb ` set chain" using that(1) by (intro imageI nth_mem)
    with that(2) show ?thesis by auto
  qed
  {
    case 1
    with Cons.IH ne show ?case by (cases i) (auto simp: entries_def fun_eq_iff)
  next
    case 2
    with Cons.IH ne show ?case by (cases i) (auto simp: entries_def)
  }
qed simp_all

lemma good_chain_states:
  assumes "good_chain A gb h chain" "i < length chain"
  shows "good_chain A gb h (chain[i := (chain ! i)\<lparr>gr_States := sts\<rparr>])"
proof -
  have "map (group_key gb) (chain[i := (chain ! i)\<lparr>gr_States := sts\<rparr>]) = map (group_key gb) chain"
    using assms(2) by (intro nth_equalityI) (simp_all add: nth_list_update)
  moreover have "\<forall>g \<in> set (chain[i := (chain ! i)\<lparr>gr_States := sts\<rparr>]). \<exists>g' \<in> set chain. good_group A gb g = good_group A gb g' \<and> group_key gb g = group_key gb g'"
    using assms(2) by (auto simp: set_conv_nth nth_list_update split: if_splits)
  ultimately show ?thesis using assms(1) unfolding good_chain_def by metis
qed

lemma good_chain_snoc:
  assumes "good_chain A gb (hash_key A gb (group_key gb g)) chain" "good_group A gb g" "group_key gb g \<notin> group_key gb ` set chain"
  shows "good_chain A gb (hash_key A gb (group_key gb g)) (chain @ [g])"
    "map_of (entries gb (chain @ [g])) = (map_of (entries gb chain))(group_key gb g \<mapsto> gr_States g)"
proof -
  have "map_of (entries gb chain) (group_key gb g) = None"
    using assms(3) by (simp add: map_of_eq_None_iff fst_entries)
  moreover have "entries gb (chain @ [g]) = entries gb chain @ [(group_key gb g, gr_States g)]" by (simp add: entries_def)
  ultimately show "map_of (entries gb (chain @ [g])) = (map_of (entries gb chain))(group_key gb g \<mapsto> gr_States g)"
    by (auto simp: fun_eq_iff map_add_def split: option.splits)
qed (use assms in \<open>auto simp: good_chain_def\<close>)

text \<open>Finding or creating the group of a row, of an event or of a batch alike.\<close>

definition place :: "agg_env \<Rightarrow> PartialAggSpec \<Rightarrow> (gostring \<Rightarrow> Value) \<Rightarrow> groups \<Rightarrow> groups \<times> nat" where
  "place A spec get groups =
     (let h = group_hash (ae_lib A) get (spec_GroupBy spec); chain = chain_of groups h in
      case chain_find (\<lambda>g. keys_equal A (gr_Key g) get (spec_GroupBy spec)) chain of
        Some i \<Rightarrow> (groups, i)
      | None \<Rightarrow> (AList.update h (chain @ [new_group spec (extract_key get (spec_GroupBy spec))]) groups, length chain))"

lemma new_group_key:
  assumes "\<forall>v \<in> set (map get gb). scalar v"
  shows "group_key gb (new_group spec (extract_key get gb)) = map get gb" "good_group A gb (new_group spec (extract_key get gb))"
proof -
  show k: "group_key gb (new_group spec (extract_key get gb)) = map get gb"
    by (simp add: group_key_def new_group_def key_get_extract)
  show "good_group A gb (new_group spec (extract_key get gb))"
    unfolding good_group_def k using assms by (simp add: new_group_def extract_key_map)
qed

lemma place_step:
  fixes A spec get groups
  defines "gb \<equiv> spec_GroupBy spec" and "k \<equiv> map get (spec_GroupBy spec)"
  assumes same: "same_scalar A" and good: "good_groups A gb groups" and sc: "\<forall>v \<in> set k. scalar v"
    and upd: "update_states A val wt (spec_Funcs spec)
      (case found A gb groups k of None \<Rightarrow> map (\<lambda>_. zero_state) (spec_Funcs spec) | Some s \<Rightarrow> s) = Some sts"
    and pl: "place A spec get groups = (groups1, i)"
  shows "\<exists>groups'. update_group A val wt spec groups1 (group_hash (ae_lib A) get gb) i = Some groups' \<and>
    good_groups A gb groups' \<and> found A gb groups' = (found A gb groups)(k \<mapsto> sts)"
proof -
  define h where "h = hash_key A gb k"
  define chain where "chain = chain_of groups h"
  have gh: "group_hash (ae_lib A) get gb = h" by (simp add: group_hash_key h_def gb_def k_def)
  have gc: "good_chain A gb h chain" unfolding chain_def by (rule good_chain_of [OF good])
  have P: "keys_equal A (gr_Key g) get gb \<longleftrightarrow> group_key gb g = k" if "g \<in> set chain" for g
    using that gc keys_equal_key [OF same, of gb g get] by (simp add: good_chain_def good_group_def k_def gb_def)
  have d: "distinct (map (group_key gb) chain)" using gc by (simp add: good_chain_def)
  show ?thesis
  proof (cases "chain_find (\<lambda>g. keys_equal A (gr_Key g) get gb) chain")
    case (Some j)
    then have j: "j < length chain" "group_key gb (chain ! j) = k" using chain_find_Some [OF Some] P by auto
    from pl Some have "groups1 = groups" "i = j" by (simp_all add: place_def gh chain_def Let_def flip: gb_def)
    moreover have "found A gb groups k = Some (gr_States (chain ! j))"
      using entries_update(2) [OF d j(1)] by (simp add: found_def j(2) flip: h_def chain_def)
    ultimately show ?thesis
      using upd found_update [OF good, of k "chain[j := (chain ! j)\<lparr>gr_States := sts\<rparr>]" sts] gc j
        entries_update(1) [OF d j(1), of sts] good_chain_states [OF gc j(1), of sts]
      by (simp add: update_group_def gh Let_def flip: h_def chain_def)
  next
    case None
    define g where "g = new_group spec (extract_key get gb)"
    have g: "group_key gb g = k" "good_group A gb g"
      using new_group_key(1) [of get gb spec] new_group_key(2) [of get gb A spec] sc by (simp_all add: g_def k_def gb_def)
    from pl None have pl': "groups1 = AList.update h (chain @ [g]) groups" "i = length chain"
      by (simp_all add: place_def gh chain_def Let_def g_def flip: gb_def)
    have new: "k \<notin> group_key gb ` set chain" using None P by (auto simp: chain_find_None)
    have "map_of (entries gb chain) k = None" using new by (simp add: map_of_eq_None_iff)
    then have "found A gb groups k = None" by (simp add: found_def flip: h_def chain_def)
    with upd have "update_states A val wt (spec_Funcs spec) (gr_States g) = Some sts"
      by (simp add: g_def new_group_def map_replicate_const)
    moreover have "found A gb (AList.update h (chain @ [g\<lparr>gr_States := sts\<rparr>]) groups) = (found A gb groups)(k \<mapsto> sts)"
      "good_groups A gb (AList.update h (chain @ [g\<lparr>gr_States := sts\<rparr>]) groups)"
      using found_update [OF good, of k "chain @ [g\<lparr>gr_States := sts\<rparr>]" sts] good_chain_snoc [of A gb "g\<lparr>gr_States := sts\<rparr>" chain] gc g new
      by (simp_all flip: h_def chain_def)
    ultimately show ?thesis
      by (simp add: update_group_def gh Let_def pl' chain_of_update)
  qed
qed

subsection \<open>What the groups of some rows are\<close>

definition rows_of :: "('i \<Rightarrow> gostring \<Rightarrow> Value) \<Rightarrow> gostring list \<Rightarrow> 'i list \<Rightarrow> Value list \<Rightarrow> 'i list" where
  "rows_of get gb is k = filter (\<lambda>i. map (get i) gb = k) is"

definition seen ::
  "agg_env \<Rightarrow> PartialAggSpec \<Rightarrow> ('i \<Rightarrow> gostring \<Rightarrow> Value) \<Rightarrow> ('i \<Rightarrow> PartialAggFunc \<Rightarrow> Value) \<Rightarrow> 'i list \<Rightarrow>
   Value list \<Rightarrow> PartialAggState list option" where
  "seen A spec get val is k =
     (let js = rows_of get (spec_GroupBy spec) is k in
      if js = [] then None else Some (states_of A val (spec_Funcs spec) js))"

definition represents ::
  "agg_env \<Rightarrow> PartialAggSpec \<Rightarrow> ('i \<Rightarrow> gostring \<Rightarrow> Value) \<Rightarrow> ('i \<Rightarrow> PartialAggFunc \<Rightarrow> Value) \<Rightarrow> groups \<Rightarrow> 'i list \<Rightarrow> bool" where
  "represents A spec get val groups is \<longleftrightarrow>
     good_groups A (spec_GroupBy spec) groups \<and> found A (spec_GroupBy spec) groups = seen A spec get val is"

lemma rows_of_append [simp]: "rows_of get gb (xs @ ys) k = rows_of get gb xs k @ rows_of get gb ys k"
  by (simp add: rows_of_def)

lemma seen_None: "seen A spec get val is k = None \<longleftrightarrow> rows_of get (spec_GroupBy spec) is k = []"
  by (simp add: seen_def Let_def)

lemma represents_Nil: "represents A spec get val [] []"
  by (simp add: represents_def good_groups_def found_def chain_of_def entries_def seen_def rows_of_def fun_eq_iff)

lemma state_of_Nil: "state_of A fn [] = zero_state"
  by (cases "agg_of A fn"; cases "the (agg_of A fn)")
    (simp_all add: state_of_def count_state_def min_state_def max_state_def range_state_def distinct_state_def set_state_def
      mode_state_def first_least_def non_null_def strings_of_def floats_of_def map_filter_def zero_state_def)

lemma states_of_Nil: "states_of A val fns [] = map (\<lambda>_. zero_state) fns"
  by (simp add: states_of_def state_of_Nil)

lemma all_exact_rows:
  assumes "all_exact A val fns is" shows "all_exact A val fns (rows_of get gb is k)"
  unfolding all_exact_def
proof
  fix fn assume "fn \<in> set fns"
  with assms have "merges_exactly A (fn_Name fn) (map (\<lambda>i. val i fn) is)" by (simp add: all_exact_def)
  then show "merges_exactly A (fn_Name fn) (map (\<lambda>i. val i fn) (rows_of get gb is k))"
    by (rule merges_exactly_subset) (auto simp: rows_of_def length_filter_le)
qed

lemma represents_step:
  assumes same: "same_scalar A" and rep: "represents A spec get val groups is"
    and exact: "all_exact A val (spec_Funcs spec) (is @ [i])" and sc: "\<forall>v \<in> set (map (get i) (spec_GroupBy spec)). scalar v"
    and pl: "place A spec (get i) groups = (groups1, p)"
  shows "\<exists>groups'. update_group A (val i) (wt i) spec groups1 (group_hash (ae_lib A) (get i) (spec_GroupBy spec)) p = Some groups' \<and>
    represents A spec get val groups' (is @ [i])"
proof -
  let ?gb = "spec_GroupBy spec" and ?k = "map (get i) (spec_GroupBy spec)"
  let ?js = "rows_of get ?gb is ?k"
  have f: "found A ?gb groups = seen A spec get val is" and g: "good_groups A ?gb groups"
    using rep by (simp_all add: represents_def)
  have "(case found A ?gb groups ?k of None \<Rightarrow> map (\<lambda>_. zero_state) (spec_Funcs spec) | Some s \<Rightarrow> s) = states_of A val (spec_Funcs spec) ?js"
    by (simp add: f seen_def Let_def states_of_Nil)
  moreover have "all_exact A val (spec_Funcs spec) (?js @ [i])"
    using all_exact_rows [OF exact, of get ?gb ?k] by (simp add: rows_of_def)
  ultimately have upd: "update_states A (val i) (wt i) (spec_Funcs spec)
      (case found A ?gb groups ?k of None \<Rightarrow> map (\<lambda>_. zero_state) (spec_Funcs spec) | Some s \<Rightarrow> s) =
    Some (states_of A val (spec_Funcs spec) (?js @ [i]))"
    using group.st_snoc [of A val "spec_Funcs spec" ?js i wt] by simp
  have "(seen A spec get val is)(?k \<mapsto> states_of A val (spec_Funcs spec) (?js @ [i])) = seen A spec get val (is @ [i])"
    by (auto simp: seen_def rows_of_def fun_eq_iff)
  with place_step [OF same g sc upd pl] show ?thesis by (auto simp: represents_def f)
qed

subsection \<open>The loops over events and batches\<close>

abbreviation event_val :: "Event \<Rightarrow> PartialAggFunc \<Rightarrow> Value" where
  "event_val ev fn \<equiv> extractEventValue ev (fn_Field fn)"

definition scalar_keys :: "PartialAggSpec \<Rightarrow> ('i \<Rightarrow> gostring \<Rightarrow> Value) \<Rightarrow> 'i list \<Rightarrow> bool" where
  "scalar_keys spec get is \<longleftrightarrow> (\<forall>i \<in> set is. \<forall>g \<in> set (spec_GroupBy spec). scalar (get i g))"

lemma partial_loop_represents:
  assumes same: "same_scalar A" and grow: "\<And>n s. snd (grow n s) = None"
  shows "represents A spec extractEventValue event_val groups done \<Longrightarrow> all_exact A event_val (spec_Funcs spec) (done @ evs) \<Longrightarrow>
    scalar_keys spec extractEventValue evs \<Longrightarrow>
    \<exists>groups' acct'. partial_loop A grow spec evs (groups, acct) = Inr (groups', acct') \<and>
      represents A spec extractEventValue event_val groups' (done @ evs)"
proof (induction evs arbitrary: groups acct "done")
  case (Cons ev evs)
  let ?h = "group_hash (ae_lib A) (extractEventValue ev) (spec_GroupBy spec)"
  obtain groups1 i where pl: "place A spec (extractEventValue ev) groups = (groups1, i)" by force
  obtain acct1 where fc: "findOrCreatePartialGroupWithBudget A grow groups ?h ev spec acct = Inr (groups1, i, acct1)"
    using pl grow [of "estimatePartialGroupBytes ev spec" acct]
    by (cases "grow (estimatePartialGroupBytes ev spec) acct")
      (auto simp: findOrCreatePartialGroupWithBudget_def place_def Let_def partialKeysEqualEvent_def extractEventGroupKey_def
        split: option.splits)
  have "all_exact A event_val (spec_Funcs spec) (done @ [ev])"
    using Cons.prems(2) group.ok_append [of A event_val "spec_Funcs spec" "done @ [ev]" evs] by simp
  from represents_step [OF same Cons.prems(1) this _ pl, of "\<lambda>ev fn. extractEventValue ev (fn_WeightField fn)"] Cons.prems(3)
  obtain groups2 where
    "update_group A (\<lambda>fn. extractEventValue ev (fn_Field fn)) (\<lambda>fn. extractEventValue ev (fn_WeightField fn)) spec groups1 ?h i = Some groups2"
    "represents A spec extractEventValue event_val groups2 (done @ [ev])"
    by (auto simp: scalar_keys_def)
  with fc Cons.IH [of groups2 "done @ [ev]" acct1] Cons.prems show ?case
    by (auto simp: partialGroupKeyHash_def Let_def scalar_keys_def)
qed simp

definition batch_get :: "Batch \<times> nat \<Rightarrow> gostring \<Rightarrow> Value" where
  "batch_get bi g = Batch_Value (fst bi) g (snd bi)"

definition batch_val :: "Batch \<times> nat \<Rightarrow> PartialAggFunc \<Rightarrow> Value" where
  "batch_val bi fn = (if fn_Field fn = [] then IntValue 1 else Batch_Value (fst bi) (fn_Field fn) (snd bi))"

lemma batch_loop_represents:
  assumes same: "same_scalar A"
  shows "represents A spec batch_get batch_val groups done \<Longrightarrow> all_exact A batch_val (spec_Funcs spec) (done @ rows) \<Longrightarrow>
    scalar_keys spec batch_get rows \<Longrightarrow>
    \<exists>groups'. batch_loop A spec rows groups = Some groups' \<and> represents A spec batch_get batch_val groups' (done @ rows)"
proof (induction rows arbitrary: groups "done")
  case (Cons row rows)
  obtain b i where row: "row = (b, i)" by force
  obtain groups1 p where pl: "place A spec (batch_get row) groups = (groups1, p)" by force
  have get: "batch_get row = (\<lambda>g. Batch_Value b g i)" by (simp add: batch_get_def row fun_eq_iff)
  have fc: "findOrCreateBatchGroup A groups (group_hash (ae_lib A) (\<lambda>g. Batch_Value b g i) (spec_GroupBy spec)) b i spec = (groups1, p)"
    using pl by (auto simp: findOrCreateBatchGroup_def place_def Let_def batchKeysEqual_def extractBatchGroupKey_def get split: option.splits)
  have "all_exact A batch_val (spec_Funcs spec) (done @ [row])"
    using Cons.prems(2) group.ok_append [of A batch_val "spec_Funcs spec" "done @ [row]" rows] by simp
  from represents_step [OF same Cons.prems(1) this _ pl, of "\<lambda>bi fn. if fn_WeightField fn \<noteq> [] then Batch_Value (fst bi) (fn_WeightField fn) (snd bi) else NullValue"] Cons.prems(3)
  obtain groups2 where
    "update_group A (batch_val row) (\<lambda>fn. if fn_WeightField fn \<noteq> [] then Batch_Value b (fn_WeightField fn) i else NullValue) spec groups1
       (group_hash (ae_lib A) (\<lambda>g. Batch_Value b g i) (spec_GroupBy spec)) p = Some groups2"
    "represents A spec batch_get batch_val groups2 (done @ [row])"
    by (auto simp: scalar_keys_def row get [unfolded row] cong: if_cong)
  moreover have "batch_val row = (\<lambda>fn. if fn_Field fn = [] then IntValue 1 else Batch_Value b (fn_Field fn) i)"
    by (simp add: batch_val_def row fun_eq_iff)
  ultimately show ?case
    using fc Cons.IH [of groups2 "done @ [row]"] Cons.prems by (simp add: row scalar_keys_def Let_def)
qed simp

subsection \<open>A step of a merge\<close>

definition combine ::
  "agg_env \<Rightarrow> PartialAggFunc list \<Rightarrow> PartialAggState list option \<Rightarrow> PartialAggState list \<Rightarrow> PartialAggState list option" where
  "combine A fns old s = (case old of None \<Rightarrow> Some (map (clone_state A) s) | Some d \<Rightarrow> merge_states A fns d s)"

lemma merge_chain_key:
  assumes same: "same_scalar A" and pg: "good_group A gb pg"
  shows "good_chain A gb (hash_key A gb (group_key gb pg)) chain \<Longrightarrow> gb = spec_GroupBy spec \<Longrightarrow>
    combine A (spec_Funcs spec) (map_of (entries gb chain) (group_key gb pg)) (gr_States pg) = Some sts \<Longrightarrow>
    \<exists>chain'. merge_chain A spec pg chain = Some chain' \<and> map (group_key gb) chain' = (if group_key gb pg \<in> group_key gb ` set chain then map (group_key gb) chain else map (group_key gb) chain @ [group_key gb pg]) \<and>
      (\<forall>g \<in> set chain'. good_group A gb g) \<and>
      map_of (entries gb chain') = (map_of (entries gb chain))(group_key gb pg \<mapsto> sts)"
proof (induction chain)
  case Nil
  have "group_key gb (clone_group A pg) = group_key gb pg" by (simp add: clone_group_def)
  with Nil pg show ?case by (auto simp: combine_def entries_def clone_group_def fun_eq_iff)
next
  case (Cons g chain)
  have g: "good_group A gb g" "good_chain A gb (hash_key A gb (group_key gb pg)) chain"
    using Cons.prems(1) by (simp_all add: good_chain_def)
  have eq: "partialKeysEqual A (gr_Key g) (gr_Key pg) (spec_GroupBy spec) \<longleftrightarrow> group_key gb g = group_key gb pg"
    using g(1) keys_equal_key [OF same, of gb g "key_get (gr_Key pg)"] Cons.prems(2)
    by (simp add: partialKeysEqual_def good_group_def group_key_def)
  show ?case
  proof (cases "group_key gb g = group_key gb pg")
    case True
    with Cons.prems(3) have "merge_states A (spec_Funcs spec) (gr_States g) (gr_States pg) = Some sts"
      by (simp add: combine_def entries_def)
    with True eq Cons.prems(1) show ?thesis
      by (auto simp: good_chain_def entries_def fun_eq_iff)
  next
    case False
    with Cons.prems(3) have "combine A (spec_Funcs spec) (map_of (entries gb chain) (group_key gb pg)) (gr_States pg) = Some sts"
      by (simp add: entries_def)
    from Cons.IH [OF g(2) Cons.prems(2) this] obtain chain' where
      c: "merge_chain A spec pg chain = Some chain'" "map (group_key gb) chain' = (if group_key gb pg \<in> group_key gb ` set chain then map (group_key gb) chain else map (group_key gb) chain @ [group_key gb pg])"
      "\<forall>g \<in> set chain'. good_group A gb g" "map_of (entries gb chain') = (map_of (entries gb chain))(group_key gb pg \<mapsto> sts)"
      by blast
    have "entries gb (g # chain'') = (group_key gb g, gr_States g) # entries gb chain''" for chain'' by (simp add: entries_def)
    with c False eq g(1) show ?thesis by (auto simp: fun_eq_iff)
  qed
qed

lemma merge_step:
  assumes same: "same_scalar A" and pg: "good_group A gb pg" and good: "good_groups A gb merged" and gb: "gb = spec_GroupBy spec"
    and cmb: "combine A (spec_Funcs spec) (found A gb merged (group_key gb pg)) (gr_States pg) = Some sts"
  shows "\<exists>chain. merge_chain A spec pg (chain_of merged (partialGroupKeyHashFromMap A (gr_Key pg) gb)) = Some chain \<and>
    good_groups A gb (AList.update (partialGroupKeyHashFromMap A (gr_Key pg) gb) chain merged) \<and>
    found A gb (AList.update (partialGroupKeyHashFromMap A (gr_Key pg) gb) chain merged) = (found A gb merged)(group_key gb pg \<mapsto> sts)"
proof -
  let ?k = "group_key gb pg"
  have h: "partialGroupKeyHashFromMap A (gr_Key pg) gb = hash_key A gb ?k"
    by (simp add: partialGroupKeyHashFromMap_def group_hash_key group_key_def)
  note gc = good_chain_of [OF good, of "hash_key A gb ?k"]
  from merge_chain_key [OF same pg gc gb] cmb obtain chain where
    c: "merge_chain A spec pg (chain_of merged (hash_key A gb ?k)) = Some chain"
      "map (group_key gb) chain = (if ?k \<in> group_key gb ` set (chain_of merged (hash_key A gb ?k)) then map (group_key gb) (chain_of merged (hash_key A gb ?k)) else map (group_key gb) (chain_of merged (hash_key A gb ?k)) @ [?k])"
      "\<forall>g \<in> set chain. good_group A gb g" "map_of (entries gb chain) = (map_of (entries gb (chain_of merged (hash_key A gb ?k))))(?k \<mapsto> sts)"
    by (auto simp: found_def)
  have keys: "set (map (group_key gb) chain) \<subseteq> insert ?k (group_key gb ` set (chain_of merged (hash_key A gb ?k)))" by (auto simp: c(2))
  have "hash_key A gb (group_key gb g) = hash_key A gb ?k" if "g \<in> set chain" for g
  proof -
    have "group_key gb g \<in> set (map (group_key gb) chain)" using that by simp
    with keys consider "group_key gb g = ?k" | g' where "g' \<in> set (chain_of merged (hash_key A gb ?k))" "group_key gb g = group_key gb g'"
      by blast
    then show ?thesis using gc by cases (simp_all add: good_chain_def)
  qed
  moreover have "distinct (map (group_key gb) chain)" using gc by (simp add: c(2) good_chain_def)
  ultimately have "good_chain A gb (hash_key A gb ?k) chain" using c(3) by (simp add: good_chain_def)
  from found_update [OF good this c(4)] c(1) show ?thesis by (simp add: h)
qed

lemma merge_loop_found:
  assumes same: "same_scalar A" and gb: "gb = spec_GroupBy spec"
  shows "good_groups A gb merged \<Longrightarrow> distinct (map (group_key gb) pgs) \<Longrightarrow> \<forall>pg \<in> set pgs. good_group A gb pg \<Longrightarrow>
    \<forall>pg \<in> set pgs. combine A (spec_Funcs spec) (found A gb merged (group_key gb pg)) (gr_States pg) = Some (new (group_key gb pg)) \<Longrightarrow>
    \<exists>merged'. merge_loop A spec pgs merged = Some merged' \<and> good_groups A gb merged' \<and>
      found A gb merged' = (\<lambda>k. if k \<in> group_key gb ` set pgs then Some (new k) else found A gb merged k)"
proof (induction pgs arbitrary: merged)
  case (Cons pg pgs)
  let ?k = "group_key gb pg"
  from merge_step [OF same _ Cons.prems(1) gb, of pg "new ?k"] Cons.prems(3,4) obtain chain where
    c: "merge_chain A spec pg (chain_of merged (partialGroupKeyHashFromMap A (gr_Key pg) gb)) = Some chain"
    "good_groups A gb (AList.update (partialGroupKeyHashFromMap A (gr_Key pg) gb) chain merged)"
    "found A gb (AList.update (partialGroupKeyHashFromMap A (gr_Key pg) gb) chain merged) = (found A gb merged)(?k \<mapsto> new ?k)"
    by auto
  have ne: "group_key gb g \<noteq> ?k" if "g \<in> set pgs" for g
    using imageI [OF that, of "group_key gb"] Cons.prems(2) by auto
  from Cons.IH [OF c(2)] Cons.prems obtain merged' where
    "merge_loop A spec pgs (AList.update (partialGroupKeyHashFromMap A (gr_Key pg) gb) chain merged) = Some merged'"
    "good_groups A gb merged'"
    "found A gb merged' = (\<lambda>k. if k \<in> group_key gb ` set pgs then Some (new k) else ((found A gb merged)(?k \<mapsto> new ?k)) k)"
    unfolding c(3) by (auto simp: ne)
  with c(1) show ?case by (auto simp: gb fun_eq_iff)
qed simp

end
