(* ===== verification/Agg_Merge.thy ===== *)
theory Agg_Merge
  imports Agg_Groups
begin

text \<open>
  Aggregation in parts is aggregation of the whole: the rows that \<open>MergePartialAggs\<close> makes of the partial
  results of any division of the events are the rows of the specification \<open>expected_rows\<close>, in which there is
  a row for each key and every function is applied to all values of the key. Shown for the functions that merge
  exactly, and for min that the condition on the order of the values cannot be dropped.
\<close>

subsection \<open>Merging the groups of a part\<close>

text \<open>A list of groups that holds, for every key of some rows, the states of the rows with that key.\<close>

definition groups_of ::
  "agg_env \<Rightarrow> PartialAggSpec \<Rightarrow> ('i \<Rightarrow> gostring \<Rightarrow> Value) \<Rightarrow> ('i \<Rightarrow> PartialAggFunc \<Rightarrow> Value) \<Rightarrow> 'i list \<Rightarrow> PartialAggGroup list \<Rightarrow> bool" where
  "groups_of A spec get val is gs \<longleftrightarrow>
     distinct (map (group_key (spec_GroupBy spec)) gs) \<and> (\<forall>g \<in> set gs. good_group A (spec_GroupBy spec) g) \<and>
     map_of (entries (spec_GroupBy spec) gs) = seen A spec get val is"

lemma groups_of_represents: "represents A spec get val groups is \<Longrightarrow> groups_of A spec get val is (all_groups groups)"
  using found_all_groups [of A "spec_GroupBy spec" groups] by (simp add: represents_def groups_of_def)

lemma represents_merge:
  assumes same: "same_scalar A" and rep: "represents A spec get val merged done"
    and groups: "groups_of A spec get val part pgs"
    and exact: "all_exact A val (spec_Funcs spec) (done @ part)"
  shows "\<exists>merged'. merge_loop A spec pgs merged = Some merged' \<and> represents A spec get val merged' (done @ part)"
proof -
  let ?gb = "spec_GroupBy spec" and ?fns = "spec_Funcs spec"
  note pgs = groups [unfolded groups_of_def, THEN conjunct1] groups [unfolded groups_of_def, THEN conjunct2, THEN conjunct1]
    groups [unfolded groups_of_def, THEN conjunct2, THEN conjunct2]
  let ?new = "\<lambda>k. states_of A val ?fns (rows_of get ?gb (done @ part) k)"
  have f: "found A ?gb merged = seen A spec get val done" and g: "good_groups A ?gb merged"
    using rep by (simp_all add: represents_def)
  have exk: "all_exact A val ?fns (rows_of get ?gb done k @ rows_of get ?gb part k)" for k
    using all_exact_rows [OF exact, of get ?gb k] by simp
  have "combine A ?fns (found A ?gb merged (group_key ?gb pg)) (gr_States pg) = Some (?new (group_key ?gb pg))" if "pg \<in> set pgs" for pg
  proof -
    let ?k = "group_key ?gb pg"
    have "map_of (entries ?gb pgs) ?k = Some (gr_States pg)"
      using that pgs(1) by (simp add: set_entries map_of_eq_Some_iff) blast
    then have part: "rows_of get ?gb part ?k \<noteq> []" "gr_States pg = states_of A val ?fns (rows_of get ?gb part ?k)"
      by (auto simp: pgs(3) seen_def Let_def split: if_splits)
    have "map (clone_state A) (states_of A val ?fns js) = states_of A val ?fns js" if "all_exact A val ?fns js" for js
      using that by (simp add: states_of_def all_exact_def clone_state_of)
    then show ?thesis
      using exk [of ?k] part group.st_merge [OF exk [of ?k]] by (auto simp: combine_def f seen_def Let_def)
  qed
  with merge_loop_found [OF same refl g pgs(1,2), of ?new] obtain merged' where
    m: "merge_loop A spec pgs merged = Some merged'" "good_groups A ?gb merged'"
      "found A ?gb merged' = (\<lambda>k. if k \<in> group_key ?gb ` set pgs then Some (?new k) else found A ?gb merged k)"
    by blast
  have "seen A spec get val part k = None \<longleftrightarrow> k \<notin> group_key ?gb ` set pgs" for k
    by (simp add: map_of_eq_None_iff flip: pgs(3))
  then have empty: "rows_of get ?gb part k = [] \<longleftrightarrow> k \<notin> group_key ?gb ` set pgs" for k
    by (simp add: seen_None)
  have "found A ?gb merged' k = seen A spec get val (done @ part) k" for k
  proof (cases "k \<in> group_key ?gb ` set pgs")
    case True
    then show ?thesis using empty [of k] by (simp add: m(3) seen_def Let_def)
  next
    case False
    then have "rows_of get ?gb part k = []" using empty [of k] by simp
    with False show ?thesis by (simp add: m(3) f seen_def Let_def)
  qed
  then have "found A ?gb merged' = seen A spec get val (done @ part)" ..
  with m(1,2) show ?thesis by (auto simp: represents_def)
qed

lemma groups_of_mset:
  assumes "groups_of A spec get val is gs'" "mset gs = mset gs'"
  shows "groups_of A spec get val is gs"
proof -
  let ?gb = "spec_GroupBy spec"
  have s: "set gs = set gs'" using assms(2) by (rule mset_eq_setD)
  have d': "distinct (map (group_key ?gb) gs')" using assms(1) by (simp add: groups_of_def)
  have "mset (map (group_key ?gb) gs) = mset (map (group_key ?gb) gs')" using assms(2) by simp
  then have d: "distinct (map (group_key ?gb) gs)" using d' mset_eq_imp_distinct_iff by blast
  have "map_of (entries ?gb gs) k = Some x \<longleftrightarrow> map_of (entries ?gb gs') k = Some x" for k x
    using d d' by (simp add: map_of_eq_Some_iff set_entries s)
  then have "map_of (entries ?gb gs) = map_of (entries ?gb gs')" by (metis ext not_Some_eq)
  with assms(1) d s show ?thesis by (simp add: groups_of_def)
qed

lemma merge_loop_append: "merge_loop A spec (xs @ ys) m = (case merge_loop A spec xs m of None \<Rightarrow> None | Some m' \<Rightarrow> merge_loop A spec ys m')"
  by (induction xs arbitrary: m) (simp_all add: Let_def split: option.split)

lemma merge_parts:
  assumes same: "same_scalar A"
  shows "list_all2 (groups_of A spec get val) parts partials \<Longrightarrow> represents A spec get val merged done \<Longrightarrow>
    all_exact A val (spec_Funcs spec) (done @ concat parts) \<Longrightarrow>
    \<exists>merged'. merge_loop A spec (concat partials) merged = Some merged' \<and> represents A spec get val merged' (done @ concat parts)"
proof (induction parts partials arbitrary: merged "done" rule: list_all2_induct)
  case (Cons part parts gs partials)
  have "all_exact A val (spec_Funcs spec) (done @ part)"
    using Cons.prems(2) group.ok_append [of A val "spec_Funcs spec" "done @ part" "concat parts"] by simp
  from represents_merge [OF same Cons.prems(1) Cons.hyps(1) this] obtain merged1 where
    "merge_loop A spec gs merged = Some merged1" "represents A spec get val merged1 (done @ part)" by blast
  then show ?case using Cons.IH [of merged1 "done @ part"] Cons.prems(2) by (simp add: merge_loop_append)
qed simp

subsection \<open>Expected rows\<close>

definition expected_row ::
  "agg_env \<Rightarrow> PartialAggSpec \<Rightarrow> ('i \<Rightarrow> PartialAggFunc \<Rightarrow> Value) \<Rightarrow> Value list \<Rightarrow> 'i list \<Rightarrow> agg_row" where
  "expected_row A spec val k is =
     foldl (\<lambda>row fn. if fn_Hidden fn then row
                     else obj_put (fn_Alias fn) (value_of A (fn_Name fn) (map (\<lambda>i. val i fn) is)) row)
       (key_row (key_map (spec_GroupBy spec) k)) (spec_Funcs spec)"

definition expected_rows ::
  "agg_env \<Rightarrow> PartialAggSpec \<Rightarrow> ('i \<Rightarrow> gostring \<Rightarrow> Value) \<Rightarrow> ('i \<Rightarrow> PartialAggFunc \<Rightarrow> Value) \<Rightarrow> 'i list \<Rightarrow> agg_row list" where
  "expected_rows A spec get val is =
     (if is = [] \<and> spec_GroupBy spec = [] then [expected_row A spec val [] []]
      else map (\<lambda>k. expected_row A spec val k (rows_of get (spec_GroupBy spec) is k))
        (remdups (map (\<lambda>i. map (get i) (spec_GroupBy spec)) is)))"

lemma put_results_states:
  assumes "length is < 2 ^ 63"
  shows "all_exact A val fns is \<Longrightarrow> put_results A fns (states_of A val fns is) row =
    Some (foldl (\<lambda>row fn. if fn_Hidden fn then row
                     else obj_put (fn_Alias fn) (value_of A (fn_Name fn) (map (\<lambda>i. val i fn) is)) row) row fns)"
proof (induction fns arbitrary: row)
  case (Cons fn fns)
  then show ?case using finalize_state [of A fn "map (\<lambda>i. val i fn) is"] assms
    by (simp add: states_of_def all_exact_def)
qed (simp add: states_of_def)

lemma those_map_Some: "(\<And>x. x \<in> set xs \<Longrightarrow> f x = Some (g x)) \<Longrightarrow> those (map f xs) = Some (map g xs)"
  by (induction xs) simp_all

lemma result_rows_represented:
  assumes rep: "represents A spec get val merged is"
    and exact: "all_exact A val (spec_Funcs spec) is" and len: "length is < 2 ^ 63"
  shows "\<exists>rows. result_rows A spec (all_groups merged) = Some rows \<and> mset rows = mset (expected_rows A spec get val is)"
proof -
  let ?gb = "spec_GroupBy spec" and ?gs = "all_groups merged"
  let ?es = "rows_of get (spec_GroupBy spec) is"
  have g: "good_groups A ?gb merged" and f: "found A ?gb merged = seen A spec get val is"
    using rep by (simp_all add: represents_def)
  note all = found_all_groups [OF g, unfolded f]
  have states: "gr_States x = states_of A val (spec_Funcs spec) (?es (group_key ?gb x))" if "x \<in> set ?gs" for x
  proof -
    have "map_of (entries ?gb ?gs) (group_key ?gb x) = Some (gr_States x)"
      using that all(1) by (simp add: set_entries map_of_eq_Some_iff) blast
    then show ?thesis by (auto simp: all(2) seen_def Let_def split: if_splits)
  qed
  have exact_k: "all_exact A val (spec_Funcs spec) (?es k)" "length (?es k) < 2 ^ 63" for k
    using all_exact_rows [OF exact] le_less_trans [OF length_filter_le len] by (simp_all add: rows_of_def)
  have row: "group_row A spec x = Some (expected_row A spec val (group_key ?gb x) (?es (group_key ?gb x)))" if "x \<in> set ?gs" for x
    using states [OF that] all(3) that put_results_states [OF exact_k(2) exact_k(1)]
    by (auto simp: group_row_def expected_row_def good_group_def)
  have keys: "group_key ?gb ` set ?gs = set (map ((\<lambda>i. map (get i) (spec_GroupBy spec))) is)"
  proof -
    have "k \<in> group_key ?gb ` set ?gs \<longleftrightarrow> ?es k \<noteq> []" for k
    proof -
      have "k \<in> group_key ?gb ` set ?gs \<longleftrightarrow> map_of (entries ?gb ?gs) k \<noteq> None" by (simp add: map_of_eq_None_iff)
      then show ?thesis by (simp add: all(2) seen_def Let_def)
    qed
    then show ?thesis by (intro set_eqI) (auto simp: rows_of_def filter_empty_conv)
  qed
  show ?thesis
  proof (cases "is = [] \<and> ?gb = []")
    case True
    with keys have "?gs = []" by simp
    then show ?thesis
      using True put_results_states [of "[]" A val "spec_Funcs spec" "[]"] exact
      by (simp add: result_rows_def expected_rows_def expected_row_def states_of_Nil key_map_def key_row_def)
  next
    case False
    then have "result_rows A spec ?gs = those (map (group_row A spec) ?gs)" using keys by (auto simp: result_rows_def)
    moreover have "those (map (group_row A spec) ?gs) = Some (map (\<lambda>x. expected_row A spec val (group_key ?gb x) (?es (group_key ?gb x))) ?gs)"
      by (rule those_map_Some) (rule row)
    moreover have "mset (map (group_key ?gb) ?gs) = mset (remdups (map ((\<lambda>i. map (get i) (spec_GroupBy spec))) is))"
      using all(1) keys by (intro set_eq_iff_mset_eq_distinct [THEN iffD1]) simp_all
    then have "image_mset (\<lambda>k. expected_row A spec val k (?es k)) (mset (map (group_key ?gb) ?gs)) =
        image_mset (\<lambda>k. expected_row A spec val k (?es k)) (mset (remdups (map ((\<lambda>i. map (get i) (spec_GroupBy spec))) is)))" by simp
    ultimately show ?thesis using False by (simp add: expected_rows_def multiset.map_comp comp_def)
  qed
qed

lemma merged_rows:
  assumes "same_scalar A" "list_all2 (groups_of A spec get val) parts partials"
    "all_exact A val (spec_Funcs spec) (concat parts)" "length (concat parts) < 2 ^ 63"
  shows "\<exists>rows. MergePartialAggs A spec partials = Some rows \<and> mset rows = mset (expected_rows A spec get val (concat parts))"
proof -
  from merge_parts [OF assms(1,2) represents_Nil] assms(3) obtain merged where
    "merge_loop A spec (concat partials) [] = Some merged" "represents A spec get val merged (concat parts)"
    by auto
  with result_rows_represented [OF this(2) assms(3,4)] show ?thesis by (simp add: MergePartialAggs_def)
qed

lemma all_exact_part:
  "all_exact A val fns (concat parts) \<Longrightarrow> part \<in> set parts \<Longrightarrow> all_exact A val fns part"
proof -
  assume e: "all_exact A val fns (concat parts)" and "part \<in> set parts"
  then obtain xs ys where "concat parts = xs @ part @ ys" by (metis concat.simps(2) concat_append split_list)
  with e show ?thesis using group.ok_append [of A val fns] by metis
qed

subsection \<open>Aggregation in parts\<close>

text \<open>
  A partial result of some events: the groups of \<open>ComputePartialAgg\<close>, in whatever order the iteration
  over the map of Go returns them.
\<close>

definition partial_result :: "agg_env \<Rightarrow> PartialAggSpec \<Rightarrow> Event list \<Rightarrow> PartialAggGroup list \<Rightarrow> bool" where
  "partial_result A spec part gs \<longleftrightarrow> (\<exists>gs'. ComputePartialAgg A spec part = Inr gs' \<and> mset gs = mset gs')"

text \<open>The values of the fields that a specification aggregates merge exactly, and its keys are scalars.\<close>

definition agg_ok :: "agg_env \<Rightarrow> PartialAggSpec \<Rightarrow> Event list \<Rightarrow> bool" where
  "agg_ok A spec evs \<longleftrightarrow>
     (\<forall>fn \<in> set (spec_Funcs spec). merges_exactly A (fn_Name fn) (map (\<lambda>ev. extractEventValue ev (fn_Field fn)) evs)) \<and>
     (\<forall>ev \<in> set evs. \<forall>g \<in> set (spec_GroupBy spec). scalar (extractEventValue ev g)) \<and> length evs < 2 ^ 63"

lemma agg_ok_exact: "agg_ok A spec evs \<Longrightarrow> all_exact A event_val (spec_Funcs spec) evs"
  by (simp add: agg_ok_def all_exact_def)

lemma agg_ok_append: "agg_ok A spec (xs @ ys) \<Longrightarrow> agg_ok A spec xs \<and> agg_ok A spec ys"
  using group.ok_append [of A event_val "spec_Funcs spec" xs ys] unfolding agg_ok_def all_exact_def by auto

lemma ComputePartialAgg_groups:
  assumes "same_scalar A" "all_exact A event_val (spec_Funcs spec) part" "scalar_keys spec extractEventValue part"
  shows "\<exists>gs. ComputePartialAgg A spec part = Inr gs \<and> groups_of A spec extractEventValue event_val part gs"
proof -
  from partial_loop_represents [OF assms(1) _ represents_Nil, of nop_Grow spec part "()"] assms(2,3)
  obtain groups where "partial_loop A nop_Grow spec part ([], ()) = Inr (groups, ())"
    "represents A spec extractEventValue event_val groups part"
    by (auto simp: nop_Grow_def)
  then show ?thesis
    by (auto simp: ComputePartialAgg_def ComputePartialAggWithBudget_def dest: groups_of_represents)
qed

lemma partial_results_groups:
  assumes "same_scalar A" "agg_ok A spec (concat parts)"
  shows "part \<in> set parts \<Longrightarrow> \<exists>gs. ComputePartialAgg A spec part = Inr gs \<and> groups_of A spec extractEventValue event_val part gs"
    "list_all2 (partial_result A spec) parts partials \<Longrightarrow> list_all2 (groups_of A spec extractEventValue event_val) parts partials"
proof -
  show *: "\<exists>gs. ComputePartialAgg A spec part = Inr gs \<and> groups_of A spec extractEventValue event_val part gs" if "part \<in> set parts" for part
    using assms that by (intro ComputePartialAgg_groups)
      (auto simp: agg_ok_def scalar_keys_def intro: all_exact_part [OF _ that] simp flip: all_exact_def)
  assume "list_all2 (partial_result A spec) parts partials"
  then show "list_all2 (groups_of A spec extractEventValue event_val) parts partials"
    by (rule list.rel_mono_strong) (use * in \<open>fastforce simp: partial_result_def intro: groups_of_mset\<close>)
qed

text \<open>
  (C9) Aggregation over any division of the events into parts is aggregation over all of them. Every part is
  aggregated by \<open>ComputePartialAgg\<close> on its own, its groups arrive in any order, and
  \<open>MergePartialAggs\<close> gives, without an index out of range, exactly the rows of the specification: one for each
  distinct key, with count, min, max, range, dc, estdc_error and mode of all values of that key, and one row of
  initial values when there are neither events nor keys. The keys are scalars, fewer than $2^{63}$ events are
  aggregated, and the values of min, max and range are ordered consistently. In particular the number of distinct
  values is exact below the threshold and from there on the estimate of one sketch, wherever the parts were cut.
\<close>

theorem partial_aggregation_exact:
  assumes "same_scalar A" "agg_ok A spec (concat parts)"
  shows "(\<forall>part \<in> set parts. \<exists>gs. ComputePartialAgg A spec part = Inr gs) \<and>
    (\<forall>partials. list_all2 (partial_result A spec) parts partials \<longrightarrow>
      (\<exists>rows. MergePartialAggs A spec partials = Some rows \<and>
        mset rows = mset (expected_rows A spec extractEventValue (\<lambda>ev fn. extractEventValue ev (fn_Field fn)) (concat parts))))"
proof (intro conjI ballI allI impI)
  show "\<exists>gs. ComputePartialAgg A spec part = Inr gs" if "part \<in> set parts" for part
    using partial_results_groups(1) [OF assms that] by blast
  show "\<exists>rows. MergePartialAggs A spec partials = Some rows \<and>
      mset rows = mset (expected_rows A spec extractEventValue event_val (concat parts))"
    if "list_all2 (partial_result A spec) parts partials" for partials
    using merged_rows [OF assms(1) partial_results_groups(2) [OF assms that] agg_ok_exact [OF assms(2)]] assms(2)
    by (simp add: agg_ok_def)
qed

text \<open>
  Compaction of a materialized view is invisible to its queries: replacing the partial results of old parts by
  the groups that \<open>MergePartialGroupsNoFinalize\<close> makes of them, and merging these with later parts, gives the
  rows of all the events.
\<close>

theorem view_compaction_invisible:
  assumes "same_scalar A" "agg_ok A spec (concat (old @ new))"
    "list_all2 (partial_result A spec) old olds" "list_all2 (partial_result A spec) new news"
  shows "\<exists>gs. MergePartialGroupsNoFinalize A spec (concat olds) = Some gs \<and>
    (\<forall>gs'. mset gs' = mset gs \<longrightarrow> (\<exists>rows. MergePartialAggs A spec (gs' # news) = Some rows \<and>
      mset rows = mset (expected_rows A spec extractEventValue (\<lambda>ev fn. extractEventValue ev (fn_Field fn)) (concat (old @ new)))))"
proof -
  have ok: "agg_ok A spec (concat old)" "agg_ok A spec (concat new)"
    using assms(2) agg_ok_append [of A spec "concat old" "concat new"] by simp_all
  note exact = agg_ok_exact [OF assms(2)]
  from merge_parts [OF assms(1) partial_results_groups(2) [OF assms(1) ok(1) assms(3)] represents_Nil] agg_ok_exact [OF ok(1)]
  obtain merged where m: "merge_loop A spec (concat olds) [] = Some merged"
    "represents A spec extractEventValue event_val merged (concat old)"
    by auto
  note g = groups_of_represents [OF m(2)]
  have "\<exists>rows. MergePartialAggs A spec (gs' # news) = Some rows \<and> mset rows = mset (expected_rows A spec extractEventValue event_val (concat (old @ new)))"
    if "mset gs' = mset (all_groups merged)" for gs'
    using merged_rows [OF assms(1), of spec extractEventValue event_val "concat old # new" "gs' # news"] exact assms(2)
      groups_of_mset [OF g that] partial_results_groups(2) [OF assms(1) ok(2) assms(4)] by (simp add: agg_ok_def)
  with m(1) show ?thesis by (simp add: MergePartialGroupsNoFinalize_def)
qed

text \<open>Rows of two kinds that hold the same values.\<close>

definition agree_on ::
  "PartialAggSpec \<Rightarrow> ('i \<Rightarrow> gostring \<Rightarrow> Value) \<Rightarrow> ('i \<Rightarrow> PartialAggFunc \<Rightarrow> Value) \<Rightarrow>
   ('j \<Rightarrow> gostring \<Rightarrow> Value) \<Rightarrow> ('j \<Rightarrow> PartialAggFunc \<Rightarrow> Value) \<Rightarrow> 'i \<Rightarrow> 'j \<Rightarrow> bool" where
  "agree_on spec get val get' val' i j \<longleftrightarrow>
     (\<forall>g \<in> set (spec_GroupBy spec). get i g = get' j g) \<and> (\<forall>fn \<in> set (spec_Funcs spec). val i fn = val' j fn)"

lemma values_agree:
  assumes "list_all2 (agree_on spec get val get' val') is js" "fn \<in> set (spec_Funcs spec)"
  shows "map (\<lambda>i. val i fn) is = map (\<lambda>j. val' j fn) js"
proof -
  have "list_all2 (\<lambda>i j. val i fn = val' j fn) is js"
    using assms(1) by (rule list.rel_mono_strong) (use assms(2) in \<open>simp add: agree_on_def\<close>)
  then show ?thesis by (simp add: list_all2_map1 list_all2_map2 flip: list.rel_eq)
qed

lemma keys_agree:
  assumes "list_all2 (agree_on spec get val get' val') is js"
  shows "map (\<lambda>i. map (get i) (spec_GroupBy spec)) is = map (\<lambda>j. map (get' j) (spec_GroupBy spec)) js"
proof -
  have "list_all2 (\<lambda>i j. map (get i) (spec_GroupBy spec) = map (get' j) (spec_GroupBy spec)) is js"
    using assms by (rule list.rel_mono_strong) (simp add: agree_on_def)
  then show ?thesis by (simp add: list_all2_map1 list_all2_map2 flip: list.rel_eq)
qed

lemma rows_agree:
  "list_all2 (agree_on spec get val get' val') is js \<Longrightarrow>
   list_all2 (agree_on spec get val get' val') (rows_of get (spec_GroupBy spec) is k) (rows_of get' (spec_GroupBy spec) js k)"
proof (induction rule: list_all2_induct)
  case (Cons i xs j ys)
  from Cons.hyps(1) have "map (get i) (spec_GroupBy spec) = map (get' j) (spec_GroupBy spec)" by (simp add: agree_on_def)
  with Cons show ?case by (simp add: rows_of_def del: map_eq_conv)
qed (simp add: rows_of_def)

lemma scalar_keys_agree:
  "list_all2 (agree_on spec get val get' val') is js \<Longrightarrow> scalar_keys spec get' js \<Longrightarrow> scalar_keys spec get is"
  by (induction rule: list_all2_induct) (auto simp: scalar_keys_def agree_on_def)

lemma expected_rows_agree:
  assumes "list_all2 (agree_on spec get val get' val') is js"
  shows "expected_rows A spec get val is = expected_rows A spec get' val' js"
proof -
  have "expected_row A spec val k xs = expected_row A spec val' k ys"
    if "list_all2 (agree_on spec get val get' val') xs ys" for k xs ys
    unfolding expected_row_def by (rule foldl_cong) (simp_all add: values_agree [OF that])
  from this [OF rows_agree [OF assms]] this [of "[]" "[]"] list_all2_lengthD [OF assms] keys_agree [OF assms] show ?thesis
    by (auto simp: expected_rows_def)
qed

lemma extractEventValue_no_field: "extractEventValue ev [] = IntValue 1"
  by (simp add: extractEventValue_def)

text \<open>
  The path over batches agrees with the path over events: batches whose columns hold, row by row, what the events
  hold in every field that the specification names, with no key that is the empty name, give the same rows.
\<close>

theorem batches_agree_with_events:
  assumes "same_scalar A" "agg_ok A spec evs" "[] \<notin> set (spec_GroupBy spec)"
    and "list_all2 (\<lambda>(b, i) ev. \<forall>f \<in> set (spec_GroupBy spec) \<union> fn_Field ` set (spec_Funcs spec).
        f \<noteq> [] \<longrightarrow> Batch_Value b f i = extractEventValue ev f)
      (concat (map (\<lambda>b. map (Pair b) [0..<ba_Len b]) batches)) evs"
  shows "\<exists>gs rows. ComputePartialAggFromBatches A spec batches = Some gs \<and> MergePartialAggs A spec [gs] = Some rows \<and>
    mset rows = mset (expected_rows A spec extractEventValue (\<lambda>ev fn. extractEventValue ev (fn_Field fn)) evs)"
proof -
  let ?rows = "concat (map (\<lambda>b. map (Pair b) [0..<ba_Len b]) batches)"
  have "agree_on spec batch_get batch_val extractEventValue event_val (b, i) ev"
    if f: "\<forall>f \<in> set (spec_GroupBy spec) \<union> fn_Field ` set (spec_Funcs spec). f \<noteq> [] \<longrightarrow> Batch_Value b f i = extractEventValue ev f" for b i ev
    unfolding agree_on_def
  proof (intro conjI ballI)
    fix g assume g: "g \<in> set (spec_GroupBy spec)"
    then have "g \<noteq> []" using assms(3) by auto
    with f g show "batch_get (b, i) g = extractEventValue ev g" by (simp add: batch_get_def)
  next
    fix fn assume "fn \<in> set (spec_Funcs spec)"
    with f show "batch_val (b, i) fn = event_val ev fn" by (simp add: batch_val_def extractEventValue_no_field)
  qed
  with assms(4) have agree: "list_all2 (agree_on spec batch_get batch_val extractEventValue event_val) ?rows evs"
    by (elim list.rel_mono_strong) auto
  have exact: "all_exact A batch_val (spec_Funcs spec) ?rows"
    using agg_ok_exact [OF assms(2)] values_agree [OF agree] by (simp add: all_exact_def)
  have "scalar_keys spec batch_get ?rows"
    using scalar_keys_agree [OF agree] assms(2) by (simp add: scalar_keys_def agg_ok_def)
  with batch_loop_represents [OF assms(1) represents_Nil, of spec ?rows] exact obtain groups where
    b: "batch_loop A spec ?rows [] = Some groups" "represents A spec batch_get batch_val groups ?rows"
    by auto
  have "length ?rows < 2 ^ 63" using list_all2_lengthD [OF agree] assms(2) by (simp only: agg_ok_def)
  with merged_rows [OF assms(1), of spec batch_get batch_val "[?rows]" "[all_groups groups]"] groups_of_represents [OF b(2)] exact
  obtain rows where "MergePartialAggs A spec [all_groups groups] = Some rows"
    "mset rows = mset (expected_rows A spec batch_get batch_val ?rows)"
    by auto
  with b(1) expected_rows_agree [OF agree] show ?thesis by (auto simp: ComputePartialAggFromBatches_def)
qed

subsection \<open>Examples\<close>

definition insert_by :: "('a \<Rightarrow> 'a \<Rightarrow> bool) \<Rightarrow> 'a \<Rightarrow> 'a list \<Rightarrow> 'a list" where
  "insert_by lt x xs = takeWhile (\<lambda>y. lt y x) xs @ x # dropWhile (\<lambda>y. lt y x) xs"

definition sample_env :: agg_env where
  "sample_env = \<lparr>ae_lib = digit_lib, ae_Log = \<lambda>f. f, ae_Sqrt = \<lambda>f. f, ae_sort = \<lambda>lt cs. foldr (insert_by lt) cs [],
     ae_same = (=), dcHLLThreshold = 2\<rparr>"

definition agg_func :: "gostring \<Rightarrow> gostring \<Rightarrow> gostring \<Rightarrow> PartialAggFunc" where
  "agg_func name field alias =
     \<lparr>fn_Name = name, fn_Field = field, fn_WeightField = [], fn_Alias = alias, fn_Quantile = 0, fn_Hidden = False\<rparr>"

definition sample_spec :: PartialAggSpec where
  "sample_spec = \<lparr>spec_GroupBy = [bs ''app''],
     spec_Funcs = [agg_func (bs ''count'') [] (bs ''n''), agg_func (bs ''min'') (bs ''x'') (bs ''lo''), agg_func (bs ''dc'') (bs ''x'') (bs ''d'')]\<rparr>"

definition sample_event :: "gostring \<Rightarrow> Value \<Rightarrow> Event" where
  "sample_event app x = SetField (bs ''x'') x (SetField (bs ''app'') (StringValue app) (NewEvent 0 []))"

definition sample_parts :: "Event list list" where
  "sample_parts = [[sample_event (bs ''a'') (IntValue 3), sample_event (bs ''b'') (IntValue 5)],
     [sample_event (bs ''a'') (IntValue 2), sample_event (bs ''a'') (IntValue 3)]]"

lemma sample_event_fields:
  "extractEventValue (sample_event app x) (bs ''x'') = x" "extractEventValue (sample_event app x) (bs ''app'') = StringValue app"
proof -
  have "bs ''app'' \<noteq> bs ''x''" by (simp add: bs_inject del: bs_simps)
  moreover have "bs ''x'' \<noteq> []" "bs ''app'' \<noteq> []" by simp_all
  ultimately show "extractEventValue (sample_event app x) (bs ''x'') = x"
    "extractEventValue (sample_event app x) (bs ''app'') = StringValue app"
    by (simp_all add: extractEventValue_def sample_event_def SetField_def NewEvent_def bs_inject del: bs_simps)
qed

lemma sample_names:
  "agg_of sample_env (bs ''count'') = Some aggCount" "agg_of sample_env (bs ''min'') = Some aggMin" "agg_of sample_env (bs ''dc'') = Some aggDC"
  by (simp_all add: agg_of_def sample_env_def digit_lib_def agg_names_def bs_inject del: bs_simps)

lemma less_value_int: "less_value A (IntValue m) (IntValue n) \<longleftrightarrow> sint m < sint n"
  by (simp add: less_value_def CompareValues.simps int_cmp_def)

lemma sample_ok: "same_scalar sample_env" "agg_ok sample_env sample_spec (concat sample_parts)"
proof -
  show "same_scalar sample_env" by (simp add: same_scalar_def sample_env_def)
  have "dcHLLThreshold sample_env = 2" by (simp add: sample_env_def)
  moreover have "weak_order_on (less_value sample_env) {IntValue 2, IntValue 3, IntValue 5}"
    by (auto simp: weak_order_on_def less_value_int)
  ultimately show "agg_ok sample_env sample_spec (concat sample_parts)"
    by (simp add: agg_ok_def sample_spec_def sample_parts_def agg_func_def sample_event_fields sample_names merges_exactly_def
        non_null_def insert_commute del: bs_simps)
qed

theorem partial_aggregation_exact_witness:
  "\<exists>partials rows. list_all2 (partial_result sample_env sample_spec) sample_parts partials \<and>
    MergePartialAggs sample_env sample_spec partials = Some rows \<and>
    mset rows = mset (expected_rows sample_env sample_spec extractEventValue (\<lambda>ev fn. extractEventValue ev (fn_Field fn)) (concat sample_parts))"
proof -
  note * = partial_aggregation_exact [OF sample_ok]
  let ?r = "\<lambda>part. projr (ComputePartialAgg sample_env sample_spec part)"
  have "list_all2 (partial_result sample_env sample_spec) sample_parts (map ?r sample_parts)"
    using conjunct1 [OF *] by (auto simp: list_all2_map2 partial_result_def list_all2_same)
  with conjunct2 [OF *] show ?thesis by blast
qed

subsection \<open>Minima of strings\<close>

definition min_spec :: PartialAggSpec where
  "min_spec = \<lparr>spec_GroupBy = [], spec_Funcs = [agg_func (bs ''min'') (bs ''x'') (bs ''lo'')]\<rparr>"

definition min_group :: "PartialAggState \<Rightarrow> PartialAggGroup" where
  "min_group s = \<lparr>gr_Key = [], gr_States = [s]\<rparr>"

lemma update_min_group:
  assumes "agg_of A (bs ''min'') = Some aggMin"
  shows "update_group A (\<lambda>fn. extractEventValue ev (fn_Field fn)) wt min_spec [(0, [min_group s])] 0 0 =
    Some [(0, [min_group (update_min A (extractEventValue ev (bs ''x'')) s)])]"
  using assms by (simp add: update_group_def chain_of_def min_spec_def agg_func_def min_group_def
      updatePartialStateWithWeight_def Let_def del: bs_simps)

lemma place_min_group:
  "findOrCreatePartialGroupWithBudget A nop_Grow [] 0 ev min_spec u = Inr ([(0, [min_group zero_state])], 0, u)"
  "findOrCreatePartialGroupWithBudget A nop_Grow [(0, [min_group s])] 0 ev min_spec u = Inr ([(0, [min_group s])], 0, u)"
  by (simp_all add: findOrCreatePartialGroupWithBudget_def chain_of_def min_spec_def min_group_def new_group_def
      partialKeysEqualEvent_def keys_equal_def extractEventGroupKey_def extract_key_def nop_Grow_def)

lemma min_loop:
  assumes "agg_of A (bs ''min'') = Some aggMin"
  shows "partial_loop A nop_Grow min_spec evs ([(0, [min_group s])], u) =
    Inr ([(0, [min_group (foldl (\<lambda>s ev. update_min A (extractEventValue ev (bs ''x'')) s) s evs)])], u)"
proof (induction evs arbitrary: s)
  case (Cons ev evs)
  have "partialGroupKeyHash A ev (spec_GroupBy min_spec) = 0" by (simp add: partialGroupKeyHash_def group_hash_def min_spec_def)
  with Cons show ?case by (simp add: place_min_group update_min_group [OF assms] del: bs_simps)
qed simp

lemma compute_min:
  assumes "agg_of A (bs ''min'') = Some aggMin" "evs \<noteq> []"
  shows "ComputePartialAgg A min_spec evs = Inr [min_group (foldl (\<lambda>s ev. update_min A (extractEventValue ev (bs ''x'')) s) zero_state evs)]"
proof -
  obtain ev evs' where evs: "evs = ev # evs'" using assms(2) by (cases evs) auto
  have "partialGroupKeyHash A ev (spec_GroupBy min_spec) = 0" by (simp add: partialGroupKeyHash_def group_hash_def min_spec_def)
  then show ?thesis
    by (simp add: evs ComputePartialAgg_def ComputePartialAggWithBudget_def place_min_group update_min_group [OF assms(1)] min_loop [OF assms(1)]
        all_groups_def del: bs_simps)
qed

lemma clone_min: "ps_DistinctHLL s = None \<Longrightarrow> ps_Digest s = None \<Longrightarrow> clone_group A (min_group s) = min_group s"
  by (simp add: clone_group_def clone_state_def min_group_def)

lemma merge_min_groups:
  assumes "agg_of A (bs ''min'') = Some aggMin" "ps_DistinctHLL s = None" "ps_Digest s = None"
  shows "MergePartialAggs A min_spec [[min_group s]] = Some [[(bs ''lo'', ps_Min s)]]"
    "MergePartialAggs A min_spec [[min_group s], [min_group t]] = Some [[(bs ''lo'', ps_Min (merge_min A s t))]]"
  using assms clone_min [of s A]
  by (simp_all add: MergePartialAggs_def partialGroupKeyHashFromMap_def group_hash_def min_spec_def chain_of_def all_groups_def
      result_rows_def group_row_def key_row_def finalizePartialState_def partialKeysEqual_def keys_equal_def Let_def del: bs_simps)
     (simp_all add: min_group_def key_row_def finalizePartialState_def mergePartialState_def agg_func_def result_rows_def group_row_def
      all_groups_def del: bs_simps)

text \<open>
  The order of values has a cycle, and a minimum over it depends on the division of the events. The minimum of the
  texts 10, 1x and 9 is 9 when one node sees them all in this order, and 10 when one node sees 10 and another 1x and 9.
\<close>

theorem min_depends_on_division:
  assumes "gl_ParseFloat (ae_lib A) (bs ''9'') = Some f" "gl_ParseFloat (ae_lib A) (bs ''10'') = Some g" "float_lt f g"
    "gl_ParseFloat (ae_lib A) (bs ''1x'') = None" "gl_ToLower (ae_lib A) (bs ''min'') = bs ''min''"
  defines "ev \<equiv> \<lambda>s. sample_event [] (StringValue (bs s))"
  shows "\<exists>whole one two. ComputePartialAgg A min_spec [ev ''10'', ev ''1x'', ev ''9''] = Inr whole \<and>
    ComputePartialAgg A min_spec [ev ''10''] = Inr one \<and> ComputePartialAgg A min_spec [ev ''1x'', ev ''9''] = Inr two \<and>
    MergePartialAggs A min_spec [whole] = Some [[(bs ''lo'', StringValue (bs ''9''))]] \<and>
    MergePartialAggs A min_spec [one, two] = Some [[(bs ''lo'', StringValue (bs ''10''))]]"
proof -
  have n: "agg_of A (bs ''min'') = Some aggMin" using assms(5) by (simp add: agg_of_def agg_names_def bs_inject del: bs_simps)
  have "strings_Compare (bs ''1x'') (bs ''10'') > 0" "strings_Compare (bs ''9'') (bs ''1x'') > 0" by code_simp+
  with assms(1-4) have c: "\<not> less_value A (StringValue (bs ''1x'')) (StringValue (bs ''10''))"
    "less_value A (StringValue (bs ''9'')) (StringValue (bs ''10''))" "\<not> less_value A (StringValue (bs ''9'')) (StringValue (bs ''1x''))"
    by (simp_all add: less_value_def CompareValues.simps float_cmp_def del: bs_simps)
  show ?thesis
    by (simp add: compute_min [OF n] merge_min_groups [OF n] ev_def sample_event_fields update_min_def merge_min_def c del: bs_simps)
qed

theorem min_depends_on_division_witness:
  "\<exists>whole one two. ComputePartialAgg sample_env min_spec (map (\<lambda>s. sample_event [] (StringValue (bs s))) [''10'', ''1x'', ''9'']) = Inr whole \<and>
    ComputePartialAgg sample_env min_spec [sample_event [] (StringValue (bs ''10''))] = Inr one \<and>
    ComputePartialAgg sample_env min_spec (map (\<lambda>s. sample_event [] (StringValue (bs s))) [''1x'', ''9'']) = Inr two \<and>
    MergePartialAggs sample_env min_spec [whole] = Some [[(bs ''lo'', StringValue (bs ''9''))]] \<and>
    MergePartialAggs sample_env min_spec [one, two] = Some [[(bs ''lo'', StringValue (bs ''10''))]]"
  using min_depends_on_division [OF _ _ nine_below_ten, of sample_env]
  by (simp add: sample_env_def digit_lib_def nine_or_ten_def bs_inject del: bs_simps)

lemma sample_partials:
  "\<exists>olds news. list_all2 (partial_result sample_env sample_spec) [hd sample_parts] olds \<and>
     list_all2 (partial_result sample_env sample_spec) (tl sample_parts) news"
proof -
  have "\<exists>gs. partial_result sample_env sample_spec part gs" if "part \<in> set sample_parts" for part
    using partial_results_groups(1) [OF sample_ok that] by (auto simp: partial_result_def)
  then obtain g1 g2 where "partial_result sample_env sample_spec (sample_parts ! 0) g1" "partial_result sample_env sample_spec (sample_parts ! 1) g2"
    by (metis One_nat_def length_Cons lessI list.size(3) nth_mem sample_parts_def zero_less_Suc)
  then have "list_all2 (partial_result sample_env sample_spec) [hd sample_parts] [g1]"
    "list_all2 (partial_result sample_env sample_spec) (tl sample_parts) [g2]" by (simp_all add: sample_parts_def)
  then show ?thesis by blast
qed

theorem view_compaction_invisible_witness:
  "\<exists>olds news gs rows. list_all2 (partial_result sample_env sample_spec) [hd sample_parts] olds \<and>
    list_all2 (partial_result sample_env sample_spec) (tl sample_parts) news \<and>
    MergePartialGroupsNoFinalize sample_env sample_spec (concat olds) = Some gs \<and> MergePartialAggs sample_env sample_spec (gs # news) = Some rows \<and>
    mset rows = mset (expected_rows sample_env sample_spec extractEventValue (\<lambda>ev fn. extractEventValue ev (fn_Field fn)) (concat sample_parts))"
proof -
  have p: "[hd sample_parts] @ tl sample_parts = sample_parts" by (simp add: sample_parts_def)
  from sample_partials obtain olds news where
    on: "list_all2 (partial_result sample_env sample_spec) [hd sample_parts] olds"
      "list_all2 (partial_result sample_env sample_spec) (tl sample_parts) news" by blast
  from view_compaction_invisible [OF sample_ok(1) _ on, unfolded p, OF sample_ok(2)] on show ?thesis by blast
qed

definition sample_batch :: Batch where
  "sample_batch = \<lparr>ba_Columns = [(bs ''app'', map (\<lambda>s. StringValue (bs s)) [''a'', ''b'', ''a'', ''a'']),
     (bs ''x'', map IntValue [3, 5, 2, 3])], ba_Len = 4\<rparr>"

theorem batches_agree_with_events_witness:
  "\<exists>gs rows. ComputePartialAggFromBatches sample_env sample_spec [sample_batch] = Some gs \<and>
    MergePartialAggs sample_env sample_spec [gs] = Some rows \<and>
    mset rows = mset (expected_rows sample_env sample_spec extractEventValue (\<lambda>ev fn. extractEventValue ev (fn_Field fn)) (concat sample_parts))"
proof (rule batches_agree_with_events [OF sample_ok])
  show "[] \<notin> set (spec_GroupBy sample_spec)" by (simp add: sample_spec_def)
  have u: "[0..<4] = [0, 1, 2, 3 :: nat]" by (simp add: upt_rec)
  show "list_all2 (\<lambda>(b, i) ev. \<forall>f \<in> set (spec_GroupBy sample_spec) \<union> fn_Field ` set (spec_Funcs sample_spec).
        f \<noteq> [] \<longrightarrow> Batch_Value b f i = extractEventValue ev f)
      (concat (map (\<lambda>b. map (Pair b) [0..<ba_Len b]) [sample_batch])) (concat sample_parts)"
    by (simp add: sample_batch_def u sample_parts_def sample_spec_def agg_func_def Batch_Value_def sample_event_fields bs_inject del: bs_simps)
qed

subsection \<open>Sketches\<close>

text \<open>
  A sketch depends on the set of the values only. Sketches of two lists of values exist, without an index out of range, and
  merging them gives the sketch of every list with the values of both, in any order and number; the merged sketch survives encoding.
\<close>

theorem sketch_of_union:
  "\<exists>h h'. add_all xs NewHyperLogLog = Some h \<and> add_all ys NewHyperLogLog = Some h' \<and>
    (\<forall>zs. set zs = set xs \<union> set ys \<longrightarrow> add_all zs NewHyperLogLog = Some (HLL_Merge h h')) \<and>
    UnmarshalHyperLogLog (HLL_MarshalBinary (HLL_Merge h h')) = Some (HLL_Merge h h')"
proof (intro exI conjI allI impI)
  show "add_all xs NewHyperLogLog = Some (sketch (set xs))" "add_all ys NewHyperLogLog = Some (sketch (set ys))"
    using add_all_sketch [of "{}"] by (simp_all add: sketch_empty)
  show "add_all zs NewHyperLogLog = Some (HLL_Merge (sketch (set xs)) (sketch (set ys)))" if "set zs = set xs \<union> set ys" for zs
    using add_all_sketch [of "{}" zs] that by (simp add: sketch_empty HLL_Merge_sketch)
  show "UnmarshalHyperLogLog (HLL_MarshalBinary (HLL_Merge (sketch (set xs)) (sketch (set ys)))) = Some (HLL_Merge (sketch (set xs)) (sketch (set ys)))"
    by (simp add: HLL_Merge_sketch Unmarshal_Marshal_sketch)
qed

theorem sketch_of_union_witness:
  "\<exists>h h'. add_all [bs ''a'', bs ''b''] NewHyperLogLog = Some h \<and> add_all [bs ''b''] NewHyperLogLog = Some h' \<and>
    add_all [bs ''b'', bs ''a''] NewHyperLogLog = Some (HLL_Merge h h')"
proof -
  have "set [bs ''b'', bs ''a''] = set [bs ''a'', bs ''b''] \<union> set [bs ''b'']" by auto
  with sketch_of_union [of "[bs ''a'', bs ''b'']" "[bs ''b'']"] show ?thesis by blast
qed

text \<open>
  A sketch of the wrong precision is not refused, although the comment on \<open>UnmarshalHyperLogLog\<close> says so: bytes of precision 15
  decode to a sketch with the 16384 registers of every sketch, and adding a hash with the top bit set is an index out of range.
\<close>

theorem sketch_precision_unchecked:
  "\<exists>h. UnmarshalHyperLogLog (15 # replicate 32768 0) = Some h \<and> AddHash (push_bit 63 1) h = None"
proof -
  let ?h = "\<lparr>hll_registers = replicate 16384 0, hll_precision = 15, hll_m = 32768\<rparr>"
  have "UnmarshalHyperLogLog (15 # replicate 32768 0) = Some ?h"
    by (simp add: UnmarshalHyperLogLog_def push_bit_eq_mult)
  moreover have "hll_index 15 (push_bit 63 1) = 16384" by (simp add: hll_index_def drop_bit_push_bit)
  then have "AddHash (push_bit 63 1) ?h = None" by (simp add: AddHash_def)
  ultimately show ?thesis by blast
qed

end
