(* ===== verification/Top_K.thy ===== *)
theory Top_K
  imports Agg_Merge
begin

text \<open>
  The selection of the best \<open>k\<close> merged rows with a heap: \<^verbatim>\<open>MergePartialAggsTopK\<close> and \<^verbatim>\<open>partialTopKHeap\<close> of
  \<^verbatim>\<open>src/pkg/engine/pipeline/partial_agg.go\<close>, on the functions of \<^verbatim>\<open>container/heap\<close>. The heap is a list; the worst row
  is its first element. Shown: the result holds the best rows, best first, when the sort fields order the rows
  consistently; and when there are no more than \<open>k\<close> rows they are returned as they come.
\<close>

subsection \<open>The package container/heap\<close>

definition swap :: "nat \<Rightarrow> nat \<Rightarrow> 'a list \<Rightarrow> 'a list" where
  "swap i j xs = xs[i := xs ! j, j := xs ! i]"

function up :: "('a \<Rightarrow> 'a \<Rightarrow> bool) \<Rightarrow> nat \<Rightarrow> 'a list \<Rightarrow> 'a list" where
  "up lt j xs =
     (let i = (j - 1) div 2 in
      if i = j \<or> \<not> lt (xs ! j) (xs ! i) then xs else up lt i (swap i j xs))"
  by pat_completeness auto
termination by (relation "measure (\<lambda>(lt, j, xs). j)") auto

definition least_child :: "('a \<Rightarrow> 'a \<Rightarrow> bool) \<Rightarrow> nat \<Rightarrow> nat \<Rightarrow> 'a list \<Rightarrow> nat" where
  "least_child lt i n xs =
     (let j1 = 2 * i + 1; j2 = j1 + 1 in if j2 < n \<and> lt (xs ! j2) (xs ! j1) then j2 else j1)"

function down :: "('a \<Rightarrow> 'a \<Rightarrow> bool) \<Rightarrow> nat \<Rightarrow> nat \<Rightarrow> 'a list \<Rightarrow> 'a list" where
  "down lt i n xs =
     (if n \<le> 2 * i + 1 then xs
      else let j = least_child lt i n xs in
        if \<not> lt (xs ! j) (xs ! i) then xs else down lt j n (swap i j xs))"
  by pat_completeness auto
termination by (relation "measure (\<lambda>(lt, i, n, xs). n - i)") (auto simp: least_child_def Let_def)

declare up.simps [simp del] down.simps [simp del]

definition heap_Push :: "('a \<Rightarrow> 'a \<Rightarrow> bool) \<Rightarrow> 'a \<Rightarrow> 'a list \<Rightarrow> 'a list" where
  "heap_Push lt x xs = up lt (length xs) (xs @ [x])"

definition heap_Pop :: "('a \<Rightarrow> 'a \<Rightarrow> bool) \<Rightarrow> 'a list \<Rightarrow> 'a \<times> 'a list" where
  "heap_Pop lt xs =
     (let n = length xs - 1; ys = down lt 0 n (swap 0 n xs) in (ys ! n, take n ys))"

text \<open>\<^verbatim>\<open>heap.Fix(h, 0)\<close>: the element at the root can only go down.\<close>

definition heap_Fix0 :: "('a \<Rightarrow> 'a \<Rightarrow> bool) \<Rightarrow> 'a list \<Rightarrow> 'a list" where
  "heap_Fix0 lt xs = up lt 0 (down lt 0 (length xs) xs)"

subsection \<open>Selection\<close>

record SortField =
  sf_Name :: gostring
  sf_Desc :: bool

fun row_Less :: "go_lib \<Rightarrow> SortField list \<Rightarrow> agg_row \<Rightarrow> agg_row \<Rightarrow> bool" where
  "row_Less L [] a b = False"
| "row_Less L (sf # sfs) a b =
     (let cmp = CompareValues L (key_get a (sf_Name sf)) (key_get b (sf_Name sf)) in
      if cmp = 0 then row_Less L sfs a b else if sf_Desc sf then cmp < 0 else cmp > 0)"

fun row_isBetter :: "go_lib \<Rightarrow> SortField list \<Rightarrow> agg_row \<Rightarrow> agg_row \<Rightarrow> bool" where
  "row_isBetter L [] a b = False"
| "row_isBetter L (sf # sfs) a b =
     (let cmp = CompareValues L (key_get a (sf_Name sf)) (key_get b (sf_Name sf)) in
      if cmp = 0 then row_isBetter L sfs a b else if sf_Desc sf then cmp > 0 else cmp < 0)"

fun select_loop :: "('a \<Rightarrow> 'a \<Rightarrow> bool) \<Rightarrow> ('a \<Rightarrow> 'a \<Rightarrow> bool) \<Rightarrow> nat \<Rightarrow> 'a list \<Rightarrow> 'a list \<Rightarrow> 'a list" where
  "select_loop lt better_row k [] h = h"
| "select_loop lt better_row k (row # rows) h =
     select_loop lt better_row k rows
       (if length h < k then heap_Push lt row h
        else if 0 < length h \<and> better_row row (h ! 0) then heap_Fix0 lt (h[0 := row])
        else h)"

text \<open>The result is filled from its end.\<close>

fun pop_loop :: "('a \<Rightarrow> 'a \<Rightarrow> bool) \<Rightarrow> nat \<Rightarrow> 'a list \<Rightarrow> 'a list \<Rightarrow> 'a list" where
  "pop_loop lt 0 h result = result"
| "pop_loop lt (Suc i) h result = (case heap_Pop lt h of (x, h') \<Rightarrow> pop_loop lt i h' (x # result))"

definition top_rows :: "go_lib \<Rightarrow> int \<Rightarrow> SortField list \<Rightarrow> agg_row list \<Rightarrow> agg_row list" where
  "top_rows L k sortFields allRows =
     (if k \<le> 0 \<or> int (length allRows) \<le> k then allRows
      else let h = select_loop (row_Less L sortFields) (row_isBetter L sortFields) (nat k) allRows [] in
        pop_loop (row_Less L sortFields) (length h) h [])"

definition MergePartialAggsTopK ::
  "agg_env \<Rightarrow> PartialAggSpec \<Rightarrow> int \<Rightarrow> SortField list \<Rightarrow> PartialAggGroup list list \<Rightarrow> agg_row list option" where
  "MergePartialAggsTopK A spec k sortFields partials =
     map_option (top_rows (ae_lib A) k sortFields) (MergePartialAggs A spec partials)"

subsection \<open>Heaps\<close>

definition parent :: "nat \<Rightarrow> nat" where "parent i = (i - 1) div 2"

definition heap_at :: "('a \<Rightarrow> 'a \<Rightarrow> bool) \<Rightarrow> 'a list \<Rightarrow> nat \<Rightarrow> bool" where
  "heap_at lt xs i \<longleftrightarrow> \<not> lt (xs ! i) (xs ! parent i)"

definition heap :: "('a \<Rightarrow> 'a \<Rightarrow> bool) \<Rightarrow> nat \<Rightarrow> 'a list \<Rightarrow> bool" where
  "heap lt n xs \<longleftrightarrow> (\<forall>i. 0 < i \<longrightarrow> i < n \<longrightarrow> heap_at lt xs i)"

lemma parent_less: "0 < i \<Longrightarrow> parent i < i"
  by (simp add: parent_def)

lemma length_swap [simp]: "length (swap i j xs) = length xs"
  by (simp add: swap_def)

lemma nth_swap: "i < length xs \<Longrightarrow> j < length xs \<Longrightarrow> swap i j xs ! k = (if k = i then xs ! j else if k = j then xs ! i else xs ! k)"
  by (auto simp: swap_def nth_list_update)

lemma mset_swap [simp]: "i < length xs \<Longrightarrow> j < length xs \<Longrightarrow> mset (swap i j xs) = mset xs"
  unfolding swap_def by (rule mset_swap)

lemma set_swap [simp]: "i < length xs \<Longrightarrow> j < length xs \<Longrightarrow> set (swap i j xs) = set xs"
  by (metis mset_swap set_mset_mset)

text \<open>Not being less is a preorder.\<close>

lemma not_less_trans:
  "weak_order_on lt V \<Longrightarrow> \<not> lt b a \<Longrightarrow> \<not> lt c b \<Longrightarrow> a \<in> V \<Longrightarrow> b \<in> V \<Longrightarrow> c \<in> V \<Longrightarrow> \<not> lt c a"
  unfolding weak_order_on_def by blast

lemma heap_root:
  assumes "weak_order_on lt (set xs)" "heap lt n xs" "n \<le> length xs" "i < n"
  shows "\<not> lt (xs ! i) (xs ! 0)"
  using assms(4)
proof (induction i rule: less_induct)
  case (less i)
  show ?case
  proof (cases "i = 0")
    case True
    with assms(1) less.prems assms(3) show ?thesis unfolding weak_order_on_def by (metis nth_mem order_less_le_trans)
  next
    case False
    then have p: "parent i < i" by (simp add: parent_less)
    have "\<not> lt (xs ! i) (xs ! parent i)" using assms(2) less.prems False by (simp add: heap_def heap_at_def)
    moreover have "\<not> lt (xs ! parent i) (xs ! 0)" using less.IH [OF p] p less.prems by simp
    moreover have "xs ! 0 \<in> set xs" using less.prems assms(3) by (intro nth_mem) linarith
    ultimately show ?thesis
      using not_less_trans [OF assms(1), of "xs ! parent i" "xs ! 0" "xs ! i"] less.prems assms(3) p by simp
  qed
qed

lemma not_less_nth:
  "weak_order_on lt (set xs) \<Longrightarrow> \<not> lt (xs ! b) (xs ! a) \<Longrightarrow> \<not> lt (xs ! c) (xs ! b) \<Longrightarrow> a < length xs \<Longrightarrow> b < length xs \<Longrightarrow> c < length xs \<Longrightarrow>
   \<not> lt (xs ! c) (xs ! a)"
  by (rule not_less_trans [of lt "set xs" "xs ! b"]) simp_all

lemma less_asym_nth:
  "weak_order_on lt (set xs) \<Longrightarrow> lt (xs ! a) (xs ! b) \<Longrightarrow> a < length xs \<Longrightarrow> b < length xs \<Longrightarrow> \<not> lt (xs ! b) (xs ! a)"
  unfolding weak_order_on_def by (metis nth_mem)

lemma mset_up: "j < length xs \<Longrightarrow> mset (up lt j xs) = mset xs"
proof (induction lt j xs rule: up.induct)
  case (1 lt j xs)
  then show ?case by (subst up.simps) (auto simp: Let_def)
qed

lemma heap_up:
  assumes "weak_order_on lt (set xs)" "j < n" "n \<le> length xs"
    and "\<And>i. 0 < i \<Longrightarrow> i < n \<Longrightarrow> i \<noteq> j \<Longrightarrow> heap_at lt xs i"
    and "\<And>c. 0 < j \<Longrightarrow> c < n \<Longrightarrow> 0 < c \<Longrightarrow> parent c = j \<Longrightarrow> \<not> lt (xs ! c) (xs ! parent j)"
  shows "heap lt n (up lt j xs)"
  using assms
proof (induction lt j xs rule: up.induct)
  case (1 lt j xs)
  define i where "i = parent j"
  show ?case
  proof (cases "i = j \<or> \<not> lt (xs ! j) (xs ! i)")
    case True
    have "heap_at lt xs j" if "0 < j" using True that parent_less [OF that] by (auto simp: i_def heap_at_def)
    with "1.prems"(4) have "heap lt n xs" unfolding heap_def by metis
    with True show ?thesis by (subst up.simps) (simp add: i_def parent_def)
  next
    case False
    then have lt: "lt (xs ! j) (xs ! i)" and ij: "i \<noteq> j" by simp_all
    from ij have j: "0 < j" "i < j" using parent_less [of j] by (auto simp: i_def parent_def intro: ccontr)
    have len: "i < length xs" "j < length xs" using j "1.prems"(2,3) by simp_all
    note sw = nth_swap [OF len]
    have not_less: "\<not> lt (xs ! i) (xs ! j)" by (rule less_asym_nth [OF "1.prems"(1) lt]) (use len in simp_all)
    have up: "up lt j xs = up lt i (swap i j xs)" using False by (subst up.simps) (simp add: i_def parent_def Let_def)
    have h: "heap_at lt (swap i j xs) l" if "0 < l" "l < n" "l \<noteq> i" for l
    proof (cases "l = j")
      case True
      then show ?thesis using not_less ij by (simp add: heap_at_def sw flip: i_def)
    next
      case False
      have l: "heap_at lt xs l" "l < length xs" using "1.prems"(3,4) that False by simp_all
      consider "parent l = j" | "parent l = i" | "parent l \<noteq> i" "parent l \<noteq> j" by blast
      then show ?thesis
      proof cases
        case 1
        then show ?thesis using "1.prems"(5) [of l] j that False by (simp add: heap_at_def sw flip: i_def)
      next
        case 2
        then have "\<not> lt (xs ! l) (xs ! i)" using l by (simp add: heap_at_def)
        from not_less_nth [OF "1.prems"(1) not_less this] len l 2 that False show ?thesis by (simp add: heap_at_def sw)
      qed (use l that False in \<open>simp add: heap_at_def sw\<close>)
    qed
    have c: "\<not> lt (swap i j xs ! c) (swap i j xs ! parent i)" if "0 < i" "c < n" "0 < c" "parent c = i" for c
    proof -
      have p: "parent i < i" using that(1) by (rule parent_less)
      have i: "\<not> lt (xs ! i) (xs ! parent i)" using "1.prems"(2,4) that(1) j by (simp add: heap_at_def)
      show ?thesis
      proof (cases "c = j")
        case True
        then show ?thesis using i p j by (simp add: sw)
      next
        case False
        have "c \<noteq> i" using parent_less [OF that(3)] that(4) by auto
        have "\<not> lt (xs ! c) (xs ! i)" using "1.prems"(4) [of c] that False by (simp add: heap_at_def)
        from not_less_nth [OF "1.prems"(1) i this] len p that(2) "1.prems"(3) False \<open>c \<noteq> i\<close> j show ?thesis by (simp add: sw)
      qed
    qed
    have "heap lt n (up lt i (swap i j xs))"
      using "1.IH" [OF i_def [unfolded parent_def]] False "1.prems"(1-3) len j h c by simp
    then show ?thesis by (simp add: up)
  qed
qed

lemma least_child_cases:
  assumes "weak_order_on lt (set xs)" "2 * i + 1 < n" "n \<le> length xs"
  shows "parent (least_child lt i n xs) = i" "i < least_child lt i n xs" "least_child lt i n xs < n"
    "\<And>c. 0 < c \<Longrightarrow> c < n \<Longrightarrow> parent c = i \<Longrightarrow> \<not> lt (xs ! c) (xs ! least_child lt i n xs)"
proof -
  let ?j = "least_child lt i n xs"
  show "parent ?j = i" "i < ?j" "?j < n" using assms(2) by (auto simp: least_child_def Let_def parent_def)
  fix c assume c: "0 < c" "c < n" "parent c = i"
  then have "c = 2 * i + 1 \<or> c = 2 * i + 2" unfolding parent_def by presburger
  moreover have "\<not> lt (xs ! a) (xs ! a)" if "a < n" for a
    using less_asym_nth [OF assms(1), of a a] that assms(3) by auto
  ultimately show "\<not> lt (xs ! c) (xs ! ?j)"
    using c(2) less_asym_nth [OF assms(1), of "2 * i + 2" "2 * i + 1"] assms(2,3)
    by (auto simp: least_child_def Let_def)
qed

lemma down_other:
  "n \<le> length xs \<Longrightarrow> mset (down lt i n xs) = mset xs \<and> (\<forall>m \<ge> n. m < length xs \<longrightarrow> down lt i n xs ! m = xs ! m)"
proof (induction lt i n xs rule: down.induct)
  case (1 lt i n xs)
  show ?case
  proof (cases "n \<le> 2 * i + 1 \<or> \<not> lt (xs ! least_child lt i n xs) (xs ! i)")
    case True
    then show ?thesis by (subst (1 2) down.simps) (auto simp: Let_def)
  next
    case False
    let ?j = "least_child lt i n xs"
    have j: "?j < n" "i < n" using False by (auto simp: least_child_def Let_def)
    then have len: "?j < length xs" "i < length xs" using "1.prems" by simp_all
    have "down lt i n xs = down lt ?j n (swap i ?j xs)" using False by (subst down.simps) (simp add: Let_def)
    with "1.IH" [OF _ refl] False "1.prems" j len show ?thesis by (auto simp: nth_swap)
  qed
qed

lemma heap_down:
  assumes "weak_order_on lt (set xs)" "i < n" "n \<le> length xs"
    and "\<And>l. 0 < l \<Longrightarrow> l < n \<Longrightarrow> parent l \<noteq> i \<Longrightarrow> heap_at lt xs l"
    and "\<And>c. 0 < i \<Longrightarrow> c < n \<Longrightarrow> 0 < c \<Longrightarrow> parent c = i \<Longrightarrow> \<not> lt (xs ! c) (xs ! parent i)"
  shows "heap lt n (down lt i n xs)"
  using assms
proof (induction lt i n xs rule: down.induct)
  case (1 lt i n xs)
  show ?case
  proof (cases "n \<le> 2 * i + 1")
    case True
    have "parent l \<noteq> i" if "l < n" "0 < l" for l using that True unfolding parent_def by presburger
    with "1.prems"(4) True show ?thesis by (subst down.simps) (simp add: heap_def)
  next
    case children: False
    define j where "j = least_child lt i n xs"
    have "2 * i + 1 < n" using children by simp
    note lc = least_child_cases [OF "1.prems"(1) this "1.prems"(3), folded j_def]
    have len: "i < length xs" "j < length xs" using "1.prems"(2,3) lc(3) by simp_all
    show ?thesis
    proof (cases "lt (xs ! j) (xs ! i)")
      case False
      have "heap_at lt xs l" if "0 < l" "l < n" for l
      proof (cases "parent l = i")
        case True
        from not_less_nth [OF "1.prems"(1) False lc(4) [OF that True]] len that "1.prems"(3) True show ?thesis by (simp add: heap_at_def)
      qed (use "1.prems"(4) that in simp)
      then show ?thesis using False children by (subst down.simps) (simp add: heap_def j_def Let_def)
    next
      case True
      note sw = nth_swap [OF len]
      have not_less: "\<not> lt (xs ! i) (xs ! j)" by (rule less_asym_nth [OF "1.prems"(1) True]) (use len in simp_all)
      have dn: "down lt i n xs = down lt j n (swap i j xs)" using children True by (subst down.simps) (simp add: j_def Let_def)
      have h: "heap_at lt (swap i j xs) l" if "0 < l" "l < n" "parent l \<noteq> j" for l
      proof -
        have pl: "parent l < l" using that(1) by (rule parent_less)
        consider "l = j" | "l \<noteq> j" "parent l = i" | "l = i" | "l \<noteq> i" "l \<noteq> j" "parent l \<noteq> i" by blast
        then show ?thesis
        proof cases
          case 1
          then show ?thesis using not_less lc(1,2) by (simp add: heap_at_def sw)
        next
          case 2
          then show ?thesis using lc(4) [OF that(1,2)] pl by (auto simp: heap_at_def sw)
        next
          case 3
          then show ?thesis using "1.prems"(5) [of j] lc that pl by (auto simp: heap_at_def sw)
        next
          case 4
          then show ?thesis using "1.prems"(4) [OF that(1,2)] that by (simp add: heap_at_def sw)
        qed
      qed
      have c: "\<not> lt (swap i j xs ! c) (swap i j xs ! parent j)" if "c < n" "0 < c" "parent c = j" for c
      proof -
        have "c \<noteq> i" "c \<noteq> j" using parent_less [OF that(2)] that(3) lc(2) by auto
        moreover have "heap_at lt xs c" using "1.prems"(4) [OF that(2,1)] that(3) lc(2) by simp
        ultimately show ?thesis using that(3) lc(1) by (simp add: heap_at_def sw)
      qed
      have "heap lt n (down lt j n (swap i j xs))"
        using "1.IH" [OF _ j_def] children True "1.prems"(1,3) lc(3) len h c by simp
      then show ?thesis by (simp add: dn)
    qed
  qed
qed

subsection \<open>Heap operations\<close>

abbreviation is_heap :: "('a \<Rightarrow> 'a \<Rightarrow> bool) \<Rightarrow> 'a list \<Rightarrow> bool" where
  "is_heap lt xs \<equiv> heap lt (length xs) xs"

lemma length_down [simp]: "n \<le> length xs \<Longrightarrow> length (down lt i n xs) = length xs"
  using down_other [of n xs lt i] by (metis size_mset)

lemma up_root [simp]: "up lt 0 xs = xs"
  by (subst up.simps) simp

lemma heap_Push:
  assumes "weak_order_on lt (insert x (set xs))" "is_heap lt xs"
  shows "is_heap lt (heap_Push lt x xs)" "mset (heap_Push lt x xs) = add_mset x (mset xs)"
proof -
  show m: "mset (heap_Push lt x xs) = add_mset x (mset xs)" by (simp add: heap_Push_def mset_up)
  have "heap lt (Suc (length xs)) (up lt (length xs) (xs @ [x]))"
  proof (rule heap_up)
    show "heap_at lt (xs @ [x]) i" if "0 < i" "i < Suc (length xs)" "i \<noteq> length xs" for i
      using that assms(2) parent_less [OF that(1)] by (simp add: heap_def heap_at_def nth_append)
    show "\<not> lt ((xs @ [x]) ! c) ((xs @ [x]) ! parent (length xs))" if "c < Suc (length xs)" "0 < c" "parent c = length xs" for c
      using that parent_less [OF that(2)] by simp
  qed (use assms in simp_all)
  moreover have "length (heap_Push lt x xs) = Suc (length xs)" using arg_cong [OF m, of size] by simp
  ultimately show "is_heap lt (heap_Push lt x xs)" by (simp add: heap_Push_def)
qed

lemma heap_Fix0:
  assumes "weak_order_on lt (insert x (set xs))" "is_heap lt xs" "xs \<noteq> []"
  shows "is_heap lt (heap_Fix0 lt (xs[0 := x]))" "add_mset (xs ! 0) (mset (heap_Fix0 lt (xs[0 := x]))) = add_mset x (mset xs)"
proof -
  let ?ys = "xs[0 := x]"
  have w: "weak_order_on lt (set ?ys)" by (rule weak_order_on_subset [OF assms(1)]) (rule set_update_subset_insert)
  have "heap lt (length xs) (down lt 0 (length xs) ?ys)"
  proof (rule heap_down [OF w])
    show "heap_at lt ?ys l" if "0 < l" "l < length xs" "parent l \<noteq> 0" for l
      using that assms(2) by (simp add: heap_def heap_at_def)
  qed (use assms(3) in simp_all)
  then show "is_heap lt (heap_Fix0 lt ?ys)" by (simp add: heap_Fix0_def)
  have "mset (down lt 0 (length xs) ?ys) = mset ?ys" using down_other [of "length xs" ?ys lt 0] by simp
  with assms(3) show "add_mset (xs ! 0) (mset (heap_Fix0 lt ?ys)) = add_mset x (mset xs)"
    by (cases xs) (simp_all add: heap_Fix0_def)
qed

lemma heap_Pop:
  assumes "weak_order_on lt (set xs)" "is_heap lt xs" "xs \<noteq> []"
  shows "\<exists>ys. heap_Pop lt xs = (xs ! 0, ys) \<and> is_heap lt ys \<and> mset xs = add_mset (xs ! 0) (mset ys)"
proof -
  define n where "n = length xs - 1"
  define zs where "zs = swap 0 n xs"
  define ys where "ys = down lt 0 n zs"
  have n: "n < length xs" "length xs = Suc n" using assms(3) by (simp_all add: n_def)
  have zs: "length zs = length xs" "mset zs = mset xs" "zs ! n = xs ! 0" "set zs = set xs"
    using n assms(3) by (simp_all add: zs_def nth_swap)
  have ys: "length ys = length xs" "mset ys = mset xs" "ys ! n = xs ! 0"
    using down_other [of n zs lt 0] n zs by (simp_all add: ys_def)
  have "heap lt n ys"
  proof (cases "n = 0")
    case False
    show ?thesis unfolding ys_def
    proof (rule heap_down)
      show "heap_at lt zs l" if "0 < l" "l < n" "parent l \<noteq> 0" for l
        using that assms(2) n parent_less [OF that(1)] by (simp add: heap_def heap_at_def zs_def nth_swap)
    qed (use False n zs assms(1) in simp_all)
  qed (simp add: heap_def)
  then have "heap lt n (take n ys)"
  proof (unfold heap_def, intro allI impI)
    fix l assume a: "\<forall>i. 0 < i \<longrightarrow> i < n \<longrightarrow> heap_at lt ys i" "0 < l" "l < n"
    then show "heap_at lt (take n ys) l" using parent_less [OF a(2)] by (simp add: heap_at_def)
  qed
  moreover have "mset xs = add_mset (xs ! 0) (mset (take n ys))"
  proof -
    have "ys = take n ys @ [ys ! n]" using n ys(1) take_Suc_conv_app_nth [of n ys] by simp
    from arg_cong [OF this, of mset] show ?thesis by (simp add: ys)
  qed
  ultimately show ?thesis using n ys(1) ys(3) by (simp add: heap_Pop_def Let_def n_def [symmetric] zs_def [symmetric] ys_def [symmetric] min_def)
qed

subsection \<open>The best rows\<close>

lemma pop_loop_sorted:
  assumes "weak_order_on lt V"
  shows "is_heap lt h \<Longrightarrow> set h \<subseteq> V \<Longrightarrow> set result \<subseteq> V \<Longrightarrow> sorted_wrt (\<lambda>a b. \<not> lt a b) result \<Longrightarrow>
    \<forall>x \<in> set h. \<forall>r \<in> set result. \<not> lt x r \<Longrightarrow>
    sorted_wrt (\<lambda>a b. \<not> lt a b) (pop_loop lt (length h) h result) \<and> mset (pop_loop lt (length h) h result) = mset h + mset result"
proof (induction "length h" arbitrary: h result)
  case (Suc n)
  have w: "weak_order_on lt (set h)" using assms Suc.prems(2) by (rule weak_order_on_subset)
  from heap_Pop [OF w Suc.prems(1)] Suc.hyps(2) obtain h' where
    h': "heap_Pop lt h = (h ! 0, h')" "is_heap lt h'" "mset h = add_mset (h ! 0) (mset h')" by fastforce
  have len: "length h' = n" using arg_cong [OF h'(3), of size] Suc.hyps(2) by simp
  have sub: "set h' \<subseteq> set h" "h ! 0 \<in> set h" using arg_cong [OF h'(3), of set_mset] by auto
  have least: "\<not> lt x (h ! 0)" if "x \<in> set h" for x
    using heap_root [OF w Suc.prems(1)] that by (auto simp: in_set_conv_nth)
  have "sorted_wrt (\<lambda>a b. \<not> lt a b) (pop_loop lt (length h') h' (h ! 0 # result)) \<and>
    mset (pop_loop lt (length h') h' (h ! 0 # result)) = mset h' + mset (h ! 0 # result)"
    by (rule Suc.hyps(1)) (use len h'(2) sub Suc.prems least in auto)
  then show ?case using h' len by (simp flip: Suc.hyps(2))
qed simp

lemma select_loop_best:
  assumes w: "weak_order_on lt V" and better: "\<And>a b. a \<in> V \<Longrightarrow> b \<in> V \<Longrightarrow> better_row a b \<longleftrightarrow> lt b a" and k: "0 < k"
  shows "is_heap lt h \<Longrightarrow> length h \<le> k \<Longrightarrow> set rows \<union> set h \<union> set_mset D \<subseteq> V \<Longrightarrow> D \<noteq> {#} \<longrightarrow> length h = k \<Longrightarrow>
    \<forall>d \<in># D. \<forall>x \<in> set h. \<not> lt x d \<Longrightarrow>
    \<exists>D'. is_heap lt (select_loop lt better_row k rows h) \<and> length (select_loop lt better_row k rows h) = min k (length h + length rows) \<and>
      mset (select_loop lt better_row k rows h) + D' = mset h + mset rows + D \<and>
      (\<forall>d \<in># D'. \<forall>x \<in> set (select_loop lt better_row k rows h). \<not> lt x d)"
proof (induction rows arbitrary: h D)
  case Nil
  then show ?case by (intro exI [of _ D]) (simp add: min_def)
next
  case (Cons row rows)
  have wr: "weak_order_on lt (insert row (set h))" using w Cons.prems(3) by (auto intro: weak_order_on_subset)
  have wh: "weak_order_on lt (set h)" using w Cons.prems(3) by (auto intro: weak_order_on_subset)
  consider (push) "length h < k" | (replace) "length h = k" "better_row row (h ! 0)" | (drop) "length h = k" "\<not> better_row row (h ! 0)"
    using Cons.prems(2) by linarith
  then show ?case
  proof cases
    case push
    note p = heap_Push [OF wr Cons.prems(1)]
    have "length (heap_Push lt row h) = Suc (length h)" using arg_cong [OF p(2), of size] by simp
    moreover have "set (heap_Push lt row h) = insert row (set h)" using arg_cong [OF p(2), of set_mset] by simp
    moreover have "D = {#}" using push Cons.prems(4) by auto
    ultimately show ?thesis
      using Cons.IH [of "heap_Push lt row h" "{#}"] p push Cons.prems(3) by auto
  next
    case replace
    have ne: "h \<noteq> []" using replace(1) k by auto
    define h' where "h' = heap_Fix0 lt (h[0 := row])"
    have p: "is_heap lt h'" "add_mset (h ! 0) (mset h') = add_mset row (mset h)" using heap_Fix0 [OF wr Cons.prems(1) ne] by (simp_all add: h'_def)
    have root: "h ! 0 \<in> set h" using ne by simp
    have in_h': "x \<in> set h' \<Longrightarrow> x = row \<or> x \<in> set h" for x using arg_cong [OF p(2), of set_mset] by auto
    have better: "lt (h ! 0) row" using replace(2) better Cons.prems(3) root by auto
    have above: "\<not> lt x (h ! 0)" if "x \<in> set h'" for x
      using in_h' [OF that]
    proof
      assume "x = row"
      then show ?thesis using weak_order_onD [OF w, of "h ! 0" row row] better Cons.prems(3) root by auto
    next
      assume "x \<in> set h"
      then show ?thesis using heap_root [OF wh Cons.prems(1)] by (auto simp: in_set_conv_nth)
    qed
    have disc: "\<forall>d \<in># add_mset (h ! 0) D. \<forall>x \<in> set h'. \<not> lt x d"
    proof (intro ballI)
      fix d x assume d: "d \<in># add_mset (h ! 0) D" and x: "x \<in> set h'"
      have V: "d \<in> V" "x \<in> V" "h ! 0 \<in> V" using d in_h' [OF x] Cons.prems(3) root by auto
      show "\<not> lt x d"
      proof (cases "d = h ! 0")
        case False
        then have "\<not> lt (h ! 0) d" using d Cons.prems(5) root by auto
        from not_less_trans [OF w this above [OF x]] V show ?thesis by simp
      qed (use above x in simp)
    qed
    have len: "length h' = length h" using arg_cong [OF p(2), of size] by simp
    have "set h' \<subseteq> V" "h ! 0 \<in> V" using in_h' Cons.prems(3) root by auto
    with Cons.IH [of h' "add_mset (h ! 0) D"] p(1) len replace(1) Cons.prems(3) disc root obtain D' where
      r: "is_heap lt (select_loop lt better_row k rows h')" "length (select_loop lt better_row k rows h') = min k (length h' + length rows)"
        "mset (select_loop lt better_row k rows h') + D' = mset h' + mset rows + add_mset (h ! 0) D"
        "\<forall>d \<in># D'. \<forall>x \<in> set (select_loop lt better_row k rows h'). \<not> lt x d"
      by auto
    have "mset h' + mset rows + add_mset (h ! 0) D = mset h + mset (row # rows) + D"
      using p(2) by (simp add: ac_simps)
    moreover have "select_loop lt better_row k (row # rows) h = select_loop lt better_row k rows h'"
      using replace ne k by (simp add: h'_def)
    moreover have "min k (length h' + length rows) = min k (length h + length (row # rows))" using len replace(1) by simp
    ultimately show ?thesis using r by metis
  next
    case drop
    have root: "h ! 0 \<in> set h" using drop(1) k by (intro nth_mem) simp
    have "\<not> lt (h ! 0) row" using drop(2) better Cons.prems(3) root by auto
    moreover have "\<not> lt x (h ! 0)" if "x \<in> set h" for x
      using heap_root [OF wh Cons.prems(1)] that by (auto simp: in_set_conv_nth)
    moreover have "row \<in> V" "h ! 0 \<in> V" "set h \<subseteq> V" using Cons.prems(3) root by auto
    ultimately have "\<not> lt x row" if "x \<in> set h" for x
      using not_less_trans [OF w, of "h ! 0" row x] that by auto
    then show ?thesis
      using Cons.IH [of h "add_mset row D"] Cons.prems drop by (auto simp: min_def)
  qed
qed

text \<open>The sort fields order some rows consistently: being worse is a weak order, and being better its converse.\<close>

definition rows_ordered :: "go_lib \<Rightarrow> SortField list \<Rightarrow> agg_row set \<Rightarrow> bool" where
  "rows_ordered L sfs V \<longleftrightarrow>
     weak_order_on (row_Less L sfs) V \<and> (\<forall>a \<in> V. \<forall>b \<in> V. row_isBetter L sfs a b \<longleftrightarrow> row_Less L sfs b a)"

text \<open>
  (C25) Selecting the top rows: of more than \<open>k\<close> merged rows, \<open>MergePartialAggsTopK\<close> returns \<open>k\<close>, best first, and no row that it
  leaves out is better than one that it returns. The rows must be ordered consistently by the sort fields.
\<close>

theorem top_rows_best:
  assumes "MergePartialAggs A spec partials = Some rows" "0 < k" "k < int (length rows)"
    "rows_ordered (ae_lib A) sfs (set rows)"
  shows "\<exists>top rest. MergePartialAggsTopK A spec k sfs partials = Some top \<and> int (length top) = k \<and> mset top + rest = mset rows \<and>
    sorted_wrt (\<lambda>a b. \<not> row_isBetter (ae_lib A) sfs b a) top \<and> (\<forall>r \<in># rest. \<forall>t \<in> set top. \<not> row_isBetter (ae_lib A) sfs r t)"
proof -
  let ?lt = "row_Less (ae_lib A) sfs" and ?better = "row_isBetter (ae_lib A) sfs"
  define h where "h = select_loop ?lt ?better (nat k) rows []"
  define top where "top = pop_loop ?lt (length h) h []"
  have w: "weak_order_on ?lt (set rows)" and b: "\<And>a b. a \<in> set rows \<Longrightarrow> b \<in> set rows \<Longrightarrow> ?better a b \<longleftrightarrow> ?lt b a"
    using assms(4) by (auto simp: rows_ordered_def)
  have "is_heap ?lt []" "min (nat k) (length rows) = nat k" using assms(3) by (simp_all add: heap_def)
  with select_loop_best [OF w b, of "nat k" "[]" rows "{#}"] assms(2) obtain rest where
    r: "is_heap ?lt h" "length h = nat k" "mset h + rest = mset rows" "\<forall>d \<in># rest. \<forall>x \<in> set h. \<not> ?lt x d"
    by (auto simp: h_def)
  have sub: "set h \<subseteq> set rows" "set_mset rest \<subseteq> set rows" using arg_cong [OF r(3), of set_mset] by auto
  have t: "sorted_wrt (\<lambda>a b. \<not> ?lt a b) top" "mset top = mset h"
    using pop_loop_sorted [OF w r(1) sub(1), of "[]"] by (simp_all add: top_def)
  have st: "set top = set h" using t(2) by (rule mset_eq_setD)
  have len: "length top = length h" using arg_cong [OF t(2), of size] by simp
  have "sorted_wrt (\<lambda>a b. \<not> ?better b a) top"
    by (rule sorted_wrt_mono_rel [OF _ t(1)]) (use b sub st in auto)
  moreover have "\<not> ?better d x" if "d \<in># rest" "x \<in> set top" for d x
    using r(4) that b [of d x] sub st by auto
  moreover have "MergePartialAggsTopK A spec k sfs partials = Some top"
    using assms(1-3) by (simp add: MergePartialAggsTopK_def top_rows_def Let_def top_def h_def)
  ultimately show ?thesis using len r(2,3) t(2) assms(2) by auto
qed

definition count_spec :: PartialAggSpec where
  "count_spec = \<lparr>spec_GroupBy = [bs ''app''], spec_Funcs = [agg_func (bs ''count'') [] (bs ''n'')]\<rparr>"

definition by_count :: "SortField list" where "by_count = [\<lparr>sf_Name = bs ''n'', sf_Desc = True\<rparr>]"

definition count_row :: "string \<Rightarrow> u64 \<Rightarrow> agg_row" where
  "count_row app n = [(bs ''app'', StringValue (bs app)), (bs ''n'', IntValue n)]"

lemma count_row_n: "key_get (count_row app n) (bs ''n'') = IntValue n"
proof -
  have "bs ''n'' \<noteq> bs ''app''" by (simp add: bs_inject del: bs_simps)
  then show ?thesis by (simp add: key_get_def count_row_def del: bs_simps)
qed

lemma count_row_order:
  "row_Less L by_count (count_row a m) (count_row b n) \<longleftrightarrow> sint m < sint n"
  "row_isBetter L by_count (count_row a m) (count_row b n) \<longleftrightarrow> sint n < sint m"
  by (auto simp: by_count_def count_row_n CompareValues.simps int_cmp_def Let_def simp del: bs_simps)

lemma count_rows_expected:
  "expected_rows sample_env count_spec extractEventValue event_val (concat sample_parts) = [count_row ''b'' 1, count_row ''a'' 3]"
proof -
  have o: "\<not> bs ''n'' < bs ''app''" "bs ''n'' \<noteq> bs ''app''" by code_simp+
  show ?thesis
    by (simp add: expected_rows_def sample_parts_def count_spec_def agg_func_def sample_event_fields bs_inject expected_row_def rows_of_def
        key_map_def key_row_def value_of_def sample_names extractEventValue_no_field non_null_def count_row_def o Let_def del: bs_simps)
qed

lemma count_rows:
  "\<exists>partials rows. MergePartialAggs sample_env count_spec partials = Some rows \<and> mset rows = {# count_row ''b'' 1, count_row ''a'' 3 #}"
proof -
  have ok: "agg_ok sample_env count_spec (concat sample_parts)"
    by (simp add: agg_ok_def count_spec_def sample_parts_def agg_func_def sample_event_fields sample_names merges_exactly_def del: bs_simps)
  have "\<exists>gs. groups_of sample_env count_spec extractEventValue event_val part gs" if "part \<in> set sample_parts" for part
    using partial_results_groups(1) [OF sample_ok(1) ok that] by blast
  then obtain f where "\<And>part. part \<in> set sample_parts \<Longrightarrow> groups_of sample_env count_spec extractEventValue event_val part (f part)" by metis
  then have "list_all2 (groups_of sample_env count_spec extractEventValue event_val) sample_parts (map f sample_parts)"
    by (auto simp: list_all2_map2 list_all2_same)
  from merged_rows [OF sample_ok(1) this agg_ok_exact [OF ok]] ok count_rows_expected show ?thesis
    by (auto simp: agg_ok_def)
qed

theorem top_rows_best_witness:
  "\<exists>partials. MergePartialAggsTopK sample_env count_spec 1 by_count partials = Some [count_row ''a'' 3]"
proof -
  from count_rows obtain partials rows where
    r: "MergePartialAggs sample_env count_spec partials = Some rows" "mset rows = {# count_row ''b'' 1, count_row ''a'' 3 #}" by blast
  have rows: "set rows = {count_row ''b'' 1, count_row ''a'' 3}" "length rows = 2"
    using arg_cong [OF r(2), of set_mset] arg_cong [OF r(2), of size] by simp_all
  have "rows_ordered (ae_lib sample_env) by_count (set rows)"
    by (simp add: rows_ordered_def rows weak_order_on_def count_row_order)
  from top_rows_best [OF r(1) _ _ this, of 1] rows(2) obtain top rest where
    t: "MergePartialAggsTopK sample_env count_spec 1 by_count partials = Some top" "length top = 1" "mset top + rest = mset rows"
      "\<forall>r \<in># rest. \<forall>t \<in> set top. \<not> row_isBetter (ae_lib sample_env) by_count r t" by auto
  from t(2) obtain x where x: "top = [x]" by (cases top) auto
  have "x \<in> set rows" using arg_cong [OF t(3), of set_mset] x by auto
  moreover have "x \<noteq> count_row ''b'' 1"
  proof
    assume "x = count_row ''b'' 1"
    with t(3) x r(2) have "rest = {# count_row ''a'' 3 #}" by simp
    with t(4) x \<open>x = count_row ''b'' 1\<close> show False by (simp add: count_row_order)
  qed
  ultimately show ?thesis using t(1) x rows(1) by auto
qed

text \<open>
  When there are at most \<open>k\<close> rows they are returned in the order of the merged groups, whatever the sort fields say. A
  coordinator that has dropped the sort from its plan, because the selection is to sort, returns them unsorted.
\<close>

theorem few_rows_unsorted:
  assumes "MergePartialAggs A spec partials = Some rows" "int (length rows) \<le> k"
  shows "MergePartialAggsTopK A spec k sfs partials = Some rows"
  using assms by (simp add: MergePartialAggsTopK_def top_rows_def)

definition count_group :: "string \<Rightarrow> u64 \<Rightarrow> PartialAggGroup" where
  "count_group app n = \<lparr>gr_Key = [(bs ''app'', StringValue (bs app))], gr_States = [zero_state\<lparr>ps_Count := n\<rparr>]\<rparr>"

lemma merge_count_groups:
  "MergePartialAggs sample_env count_spec [[count_group ''b'' 1], [count_group ''a'' 3]] = Some [count_row ''b'' 1, count_row ''a'' 3]"
proof -
  have o: "\<not> bs ''n'' < bs ''app''" "bs ''n'' \<noteq> bs ''app''" by code_simp+
  let ?h = "\<lambda>app n. partialGroupKeyHashFromMap sample_env (gr_Key (count_group app n)) [bs ''app'']"
  have clone: "clone_group A (count_group app n) = count_group app n" for A app n
    by (simp add: clone_group_def count_group_def clone_state_def)
  have row: "group_row sample_env count_spec (count_group app n) = Some (count_row app n)" for app n
    by (simp add: group_row_def count_spec_def count_group_def key_row_def agg_func_def finalizePartialState_def sample_names count_row_def o del: bs_simps)
  have ne: "\<not> partialKeysEqual sample_env (gr_Key (count_group ''b'' 1)) (gr_Key (count_group ''a'' 3)) [bs ''app'']"
    by (simp add: partialKeysEqual_def keys_equal_def sample_env_def key_get_def count_group_def bs_inject del: bs_simps)
  have "map_option all_groups (merge_loop sample_env count_spec [count_group ''b'' 1, count_group ''a'' 3] []) = Some [count_group ''b'' 1, count_group ''a'' 3]"
    using ne by (cases "?h ''b'' 1 = ?h ''a'' 3") (simp_all add: count_spec_def chain_of_def clone all_groups_def Let_def del: bs_simps)
  then show ?thesis
    by (auto simp: MergePartialAggs_def result_rows_def row)
qed

theorem few_rows_unsorted_witness:
  "MergePartialAggsTopK sample_env count_spec 10 by_count [[count_group ''b'' 1], [count_group ''a'' 3]] =
      Some [count_row ''b'' 1, count_row ''a'' 3] \<and>
    row_isBetter (ae_lib sample_env) by_count (count_row ''a'' 3) (count_row ''b'' 1)"
  using few_rows_unsorted [OF merge_count_groups, of 10 by_count] by (simp add: count_row_order)

end
