(* ===== verification/Cluster_Plan.thy ===== *)
theory Cluster_Plan
  imports Top_K LF_Compiler
begin

text \<open>
  The division of a query between the shards of a cluster and its coordinator: \<^verbatim>\<open>src/pkg/cluster/query/ir_planner.go\<close>,
  the choice of a join strategy in \<^verbatim>\<open>join_planner.go\<close>, and the nodes of \<^verbatim>\<open>src/pkg/logical/node.go\<close> they look at. A node is an
  operator with its inputs; the operators that the planner does not distinguish are \<open>OtherOp\<close>. The text that is sent to
  the shards is rendered elsewhere and left out of the plan.

  Shown: a plan keeps every node of the query, in order, except the sort and limit that the selection of the top rows
  replaces; and the specification of the partial aggregation forgets conditions, time bins and arguments that are not fields.
\<close>

subsection \<open>Logical plans\<close>

datatype SourceAtomKind = SourceName | SourceGlob | SourceNegated | SourceStar | SourceCTE | SourceInline

datatype ProjectAction = ProjectKeep | ProjectDrop | ProjectRename

record Agg =
  ag_Func :: Expr
  ag_WhereCond :: "Expr option"
  ag_Alias :: gostring

record Key =
  ky_Expr :: Expr
  ky_Name :: gostring

record Aggregate =
  agn_Aggs :: "Agg list"
  agn_Keys :: "Key list"
  agn_TimeBin :: "(Expr \<times> Expr option) option"
  agn_Window :: bool

type_synonym SortKey = "Expr \<times> bool"

datatype Node =
    Scan "SourceAtomKind list"
  | Filter Expr Node
  | Extend Node
  | ParseNode Node
  | ProjectNode "ProjectAction list" Node
  | AggregateNode Aggregate Node
  | TopKNode int "SortKey list" Node
  | SortNode "SortKey list" Node
  | LimitNode int bool Node
  | JoinNode "Node option" Node
  | OtherOp nat "Node list"

fun Children :: "Node \<Rightarrow> Node list" where
  "Children (Scan _) = []"
| "Children (Filter _ n) = [n]"
| "Children (Extend n) = [n]"
| "Children (ParseNode n) = [n]"
| "Children (ProjectNode _ n) = [n]"
| "Children (AggregateNode _ n) = [n]"
| "Children (TopKNode _ _ n) = [n]"
| "Children (SortNode _ n) = [n]"
| "Children (LimitNode _ _ n) = [n]"
| "Children (JoinNode _ n) = [n]"
| "Children (OtherOp _ ns) = ns"

lemma size_Children: "c \<in> set (Children n) \<Longrightarrow> size c < size n"
  by (cases n) (auto dest: size_list_estimation' [OF _ order_refl] simp: less_Suc_eq_le)

text \<open>From the root to the leaf, then reversed.\<close>

function chain_IR :: "Node \<Rightarrow> Node list" where
  "chain_IR n = n # (case Children n of [] \<Rightarrow> [] | c # _ \<Rightarrow> chain_IR c)"
  by pat_completeness auto
termination by (relation "measure size") (auto intro: size_Children)

declare chain_IR.simps [simp del]

definition linearizeIR :: "Node \<Rightarrow> Node list" where
  "linearizeIR rootNode = rev (chain_IR rootNode)"

fun isPushableIR :: "Node \<Rightarrow> bool" where
  "isPushableIR (Scan _) = True"
| "isPushableIR (Filter _ _) = True"
| "isPushableIR (Extend _) = True"
| "isPushableIR (ParseNode _) = True"
| "isPushableIR (AggregateNode a _) = (\<not> agn_Window a)"
| "isPushableIR (ProjectNode acts _) = (ProjectDrop \<notin> set acts)"
| "isPushableIR _ = False"

fun findSplitPointIR :: "Node list \<Rightarrow> nat" where
  "findSplitPointIR [] = 0"
| "findSplitPointIR (n # ns) = (if isPushableIR n then Suc (findSplitPointIR ns) else 0)"

subsection \<open>The partial aggregation\<close>

datatype plan_error = PercValueNotField | PercWeightNotField | PercMissing gostring | PercNotNumeric gostring | PercOutOfRange gostring

fun astNumericLiteral :: "Expr \<Rightarrow> u64 option" where
  "astNumericLiteral (Literal (LitInt n)) = Some (float_of_int (sint n))"
| "astNumericLiteral (Literal (LitFloat f)) = Some f"
| "astNumericLiteral _ = None"

definition partialAggQuantile :: "gostring \<Rightarrow> Expr list \<Rightarrow> plan_error + u64" where
  "partialAggQuantile name args =
     (let check_arg = (\<lambda>argIndex.
            if length args \<le> argIndex then Inl (PercMissing name)
            else case astNumericLiteral (args ! argIndex) of
                None \<Rightarrow> Inl (PercNotNumeric name)
              | Some p \<Rightarrow> if float_lt p 0 \<or> float_lt (float_of_int 100) p then Inl (PercOutOfRange name)
                          else Inr (float_div p (float_of_int 100)))
      in if name = bs ''perc'' then check_arg 1
         else if name = bs ''perc_weighted'' then check_arg 2
         else Inr 0)"

definition arg_field :: "Expr list \<Rightarrow> gostring" where
  "arg_field args = (case args of [] \<Rightarrow> [] | a # _ \<Rightarrow> (case ident_name a of Some x \<Rightarrow> x | None \<Rightarrow> []))"

definition weight_field :: "gostring \<Rightarrow> Expr list \<Rightarrow> plan_error + gostring" where
  "weight_field funcName args =
     (if funcName \<noteq> bs ''perc_weighted'' then Inr []
      else if arg_field args = [] then Inl PercValueNotField
      else if length args \<le> 1 then Inr []
      else case ident_name (args ! 1) of Some x \<Rightarrow> Inr x | None \<Rightarrow> Inl PercWeightNotField)"

definition named_func :: "gostring \<Rightarrow> gostring \<Rightarrow> gostring \<Rightarrow> u64 \<Rightarrow> gostring \<Rightarrow> PartialAggFunc" where
  "named_func funcName field weightField quantile alias =
     \<lparr>fn_Name = funcName, fn_Field = field, fn_WeightField = weightField,
      fn_Alias = (if alias \<noteq> [] then alias else if field \<noteq> [] then funcName @ bs ''('' @ field @ bs '')'' else funcName),
      fn_Quantile = quantile, fn_Hidden = False\<rparr>"

definition agg_spec_func :: "go_lib \<Rightarrow> Agg \<Rightarrow> plan_error + PartialAggFunc" where
  "agg_spec_func L a =
     (case ag_Func a of
        Call _ _ callee _ args \<Rightarrow>
          (let funcName = gl_ToLower L callee in
           case weight_field funcName args of
             Inl e \<Rightarrow> Inl e
           | Inr weightField \<Rightarrow>
               (case partialAggQuantile funcName args of
                  Inl e \<Rightarrow> Inl e
                | Inr q \<Rightarrow> Inr (named_func funcName (arg_field args) weightField q (ag_Alias a))))
      | _ \<Rightarrow> Inr (named_func [] [] [] 0 (ag_Alias a)))"

fun agg_spec_funcs :: "go_lib \<Rightarrow> Agg list \<Rightarrow> plan_error + PartialAggFunc list" where
  "agg_spec_funcs L [] = Inr []"
| "agg_spec_funcs L (a # as) =
     (case agg_spec_func L a of
        Inl e \<Rightarrow> Inl e
      | Inr f \<Rightarrow> (case agg_spec_funcs L as of Inl e \<Rightarrow> Inl e | Inr fs \<Rightarrow> Inr (f # fs)))"

definition extractPartialAggSpecFromAggregate :: "go_lib \<Rightarrow> Aggregate \<Rightarrow> plan_error + PartialAggSpec" where
  "extractPartialAggSpecFromAggregate L agg =
     map_sum id (\<lambda>funcs. \<lparr>spec_GroupBy = map ky_Name (agn_Keys agg), spec_Funcs = funcs\<rparr>) (agg_spec_funcs L (agn_Aggs agg))"

definition allPushable :: "PartialAggSpec \<Rightarrow> bool" where "allPushable spec = True"

subsection \<open>The plan\<close>

definition sort_fields :: "(Expr \<Rightarrow> gostring) \<Rightarrow> SortKey list \<Rightarrow> SortField list" where
  "sort_fields expr_String keys =
     map (\<lambda>(e, desc). \<lparr>sf_Name = (case ident_name e of Some x \<Rightarrow> x | None \<Rightarrow> expr_String e), sf_Desc = desc\<rparr>) keys"

definition detectTopKIR :: "(Expr \<Rightarrow> gostring) \<Rightarrow> Node list \<Rightarrow> int \<times> SortField list" where
  "detectTopKIR expr_String coordNodes =
     (case coordNodes of TopKNode k keys _ # _ \<Rightarrow> (k, sort_fields expr_String keys) | _ \<Rightarrow> (0, []))"

definition detectSortHeadIR :: "(Expr \<Rightarrow> gostring) \<Rightarrow> Node list \<Rightarrow> int \<times> SortField list" where
  "detectSortHeadIR expr_String coordNodes =
     (case coordNodes of
        SortNode keys _ # LimitNode n tail _ # _ \<Rightarrow> (if tail then (0, []) else (n, sort_fields expr_String keys))
      | _ \<Rightarrow> (0, []))"

datatype MergeStrategy = MergeConcat | MergePartialAgg | MergeTopK

datatype JoinStrategy = BroadcastJoin | ShuffleJoin

function findLeafNode :: "Node \<Rightarrow> Node" where
  "findLeafNode n = (case Children n of [] \<Rightarrow> n | c # _ \<Rightarrow> findLeafNode c)"
  by pat_completeness auto
termination by (relation "measure size") (auto intro: size_Children)

declare findLeafNode.simps [simp del]

definition PlanDistributedJoin :: "Node option \<Rightarrow> JoinStrategy" where
  "PlanDistributedJoin right =
     (case right of
        None \<Rightarrow> BroadcastJoin
      | Some n \<Rightarrow> (case findLeafNode n of
            Scan kinds \<Rightarrow> if SourceCTE \<in> set kinds then BroadcastJoin else ShuffleJoin
          | _ \<Rightarrow> BroadcastJoin))"

fun first_join :: "Node list \<Rightarrow> JoinStrategy option" where
  "first_join [] = None"
| "first_join (JoinNode right _ # ns) = Some (PlanDistributedJoin right)"
| "first_join (_ # ns) = first_join ns"

record IRDistributedPlan =
  ip_ShardNodes :: "Node list"
  ip_CoordNodes :: "Node list"
  ip_Strategy :: MergeStrategy
  ip_PartialAggSpec :: "PartialAggSpec option"
  ip_TopK :: int
  ip_TopKSortFields :: "SortField list"
  ip_SplitIndex :: nat
  ip_JoinStrategy :: "JoinStrategy option"

definition empty_plan :: IRDistributedPlan where
  "empty_plan = \<lparr>ip_ShardNodes = [], ip_CoordNodes = [], ip_Strategy = MergeConcat, ip_PartialAggSpec = None, ip_TopK = 0,
     ip_TopKSortFields = [], ip_SplitIndex = 0, ip_JoinStrategy = None\<rparr>"

definition plan_top_rows :: "(Expr \<Rightarrow> gostring) \<Rightarrow> IRDistributedPlan \<Rightarrow> IRDistributedPlan" where
  "plan_top_rows expr_String r =
     (case detectTopKIR expr_String (ip_CoordNodes r) of
        (topK, sortFields) \<Rightarrow>
          if 0 < topK then r\<lparr>ip_Strategy := MergeTopK, ip_TopK := topK, ip_TopKSortFields := sortFields, ip_CoordNodes := drop 1 (ip_CoordNodes r)\<rparr>
          else (case detectSortHeadIR expr_String (ip_CoordNodes r) of
              (topK, sortFields) \<Rightarrow>
                if 0 < topK then r\<lparr>ip_Strategy := MergeTopK, ip_TopK := topK, ip_TopKSortFields := sortFields, ip_CoordNodes := drop 2 (ip_CoordNodes r)\<rparr>
                else r))"

definition PlanDistributedQueryIR :: "go_lib \<Rightarrow> (Expr \<Rightarrow> gostring) \<Rightarrow> Node option \<Rightarrow> plan_error + IRDistributedPlan" where
  "PlanDistributedQueryIR L expr_String rootNode =
     (case rootNode of
        None \<Rightarrow> Inr empty_plan
      | Some rootNode \<Rightarrow>
          let nodes = linearizeIR rootNode; splitIdx = findSplitPointIR nodes; r = empty_plan\<lparr>ip_SplitIndex := splitIdx\<rparr> in
          if splitIdx = 0 then Inr (r\<lparr>ip_CoordNodes := nodes\<rparr>)
          else
            let r = r\<lparr>ip_ShardNodes := take splitIdx nodes, ip_CoordNodes := drop splitIdx nodes\<rparr>;
                with_join = (\<lambda>r. r\<lparr>ip_JoinStrategy := first_join (ip_CoordNodes r)\<rparr>)
            in case last (ip_ShardNodes r) of
                 AggregateNode agg _ \<Rightarrow>
                   (case extractPartialAggSpecFromAggregate L agg of
                      Inl e \<Rightarrow> Inl e
                    | Inr spec \<Rightarrow>
                        if allPushable spec
                        then Inr (with_join (plan_top_rows expr_String (r\<lparr>ip_PartialAggSpec := Some spec, ip_Strategy := MergePartialAgg\<rparr>)))
                        else Inr (with_join r))
               | _ \<Rightarrow> Inr (with_join r))"

subsection \<open>Nothing is lost\<close>

lemma split_pushable: "\<forall>n \<in> set (take (findSplitPointIR ns) ns). isPushableIR n"
  by (induction ns) auto

lemma split_first: "drop (findSplitPointIR ns) ns = n # rest \<Longrightarrow> \<not> isPushableIR n"
  by (induction ns) (auto split: if_splits)

lemma detectTopKIR_pos:
  assumes "detectTopKIR str c = (k, fs)" and "0 < k"
  obtains keys i rest where "c = TopKNode k keys i # rest" and "fs = sort_fields str keys"
  using assms by (cases c; cases "hd c") (auto simp: detectTopKIR_def)

lemma sort_limit_pair:
  assumes "detectSortHeadIR str c = (k, fs)" and "0 < k"
  obtains keys i j rest where "c = SortNode keys i # LimitNode k False j # rest" and "fs = sort_fields str keys"
proof (cases c)
  case (Cons s c')
  show ?thesis
  proof (cases c')
    case Nil
    with Cons assms show ?thesis by (cases s) (auto simp: detectSortHeadIR_def)
  next
    case (Cons l rest)
    with \<open>c = s # c'\<close> assms that show ?thesis by (cases s; cases l) (auto simp: detectSortHeadIR_def split: if_splits)
  qed
qed (use assms in \<open>simp add: detectSortHeadIR_def\<close>)

lemma plan_top_rows_cases:
  obtains (same) "plan_top_rows str r = r"
  | (topk) k keys i where "ip_CoordNodes r = TopKNode k keys i # ip_CoordNodes (plan_top_rows str r)"
      "plan_top_rows str r = r\<lparr>ip_Strategy := MergeTopK, ip_TopK := k, ip_TopKSortFields := sort_fields str keys, ip_CoordNodes := drop 1 (ip_CoordNodes r)\<rparr>"
  | (sort) k keys i j where "ip_CoordNodes r = SortNode keys i # LimitNode k False j # ip_CoordNodes (plan_top_rows str r)"
      "plan_top_rows str r = r\<lparr>ip_Strategy := MergeTopK, ip_TopK := k, ip_TopKSortFields := sort_fields str keys, ip_CoordNodes := drop 2 (ip_CoordNodes r)\<rparr>"
proof -
  obtain k1 f1 where d1: "detectTopKIR str (ip_CoordNodes r) = (k1, f1)" by fastforce
  obtain k2 f2 where d2: "detectSortHeadIR str (ip_CoordNodes r) = (k2, f2)" by fastforce
  show ?thesis
  proof (cases "0 < k1")
    case True
    then obtain keys i rest where "ip_CoordNodes r = TopKNode k1 keys i # rest" "f1 = sort_fields str keys"
      using detectTopKIR_pos [OF d1] by metis
    with True d1 show ?thesis by (intro topk) (simp_all add: plan_top_rows_def)
  next
    case F1: False
    show ?thesis
    proof (cases "0 < k2")
      case True
      then obtain keys i j rest where "ip_CoordNodes r = SortNode keys i # LimitNode k2 False j # rest" "f2 = sort_fields str keys"
        using sort_limit_pair [OF d2] by metis
      with True F1 d1 d2 show ?thesis by (intro sort) (simp_all add: plan_top_rows_def)
    next
      case False
      with F1 d1 d2 show ?thesis by (intro same) (simp add: plan_top_rows_def)
    qed
  qed
qed

text \<open>
  A distributed plan executes every node of the query, in order: the nodes of the shards, which can all run there, then the node
  or the pair of nodes that the selection of the top rows stands for, then the nodes of the coordinator. Only a
  selection drops nodes, and it takes their number of rows and sort keys; the first node kept from the shards is one that cannot run there.
\<close>

theorem plan_keeps_nodes:
  assumes "PlanDistributedQueryIR L str (Some rootNode) = Inr r"
  shows "\<exists>dropped. linearizeIR rootNode = ip_ShardNodes r @ dropped @ ip_CoordNodes r \<and>
    list_all isPushableIR (ip_ShardNodes r) \<and> (case dropped @ ip_CoordNodes r of [] \<Rightarrow> True | n # _ \<Rightarrow> \<not> isPushableIR n) \<and>
    (case dropped of
       [] \<Rightarrow> ip_Strategy r \<noteq> MergeTopK
     | [TopKNode k keys _] \<Rightarrow> ip_Strategy r = MergeTopK \<and> ip_TopK r = k \<and> ip_TopKSortFields r = sort_fields str keys
     | [SortNode keys _, LimitNode k False _] \<Rightarrow> ip_Strategy r = MergeTopK \<and> ip_TopK r = k \<and> ip_TopKSortFields r = sort_fields str keys
     | _ \<Rightarrow> False)"
proof -
  define ns where "ns = linearizeIR rootNode"
  define i where "i = findSplitPointIR ns"
  have push: "list_all isPushableIR (take i ns)" using split_pushable [of ns] by (simp add: i_def list_all_iff)
  have first: "case drop i ns of [] \<Rightarrow> True | n # _ \<Rightarrow> \<not> isPushableIR n"
    using split_first [of ns] by (simp add: i_def split: list.split)
  define b where "b = empty_plan\<lparr>ip_SplitIndex := i, ip_ShardNodes := take i ns, ip_CoordNodes := drop i ns\<rparr>"
  have b: "ip_ShardNodes b = take i ns" "ip_CoordNodes b = drop i ns" "ip_Strategy b = MergeConcat" by (simp_all add: b_def empty_plan_def)
  consider (zero) "i = 0" "r = empty_plan\<lparr>ip_SplitIndex := i, ip_CoordNodes := ns\<rparr>"
    | (concat) j where "r = b\<lparr>ip_JoinStrategy := j\<rparr>"
    | (agg) spec j where "r = plan_top_rows str (b\<lparr>ip_PartialAggSpec := Some spec, ip_Strategy := MergePartialAgg\<rparr>)\<lparr>ip_JoinStrategy := j\<rparr>"
    using assms
    by (auto simp: PlanDistributedQueryIR_def Let_def allPushable_def b_def [symmetric] ns_def [symmetric] i_def [symmetric]
        split: if_splits Node.splits sum.splits)
  then show ?thesis
  proof cases
    case zero
    then show ?thesis using first by (intro exI [of _ "[]"]) (simp add: empty_plan_def ns_def split: list.splits)
  next
    case concat
    then show ?thesis using first push b by (intro exI [of _ "[]"]) (simp add: ns_def)
  next
    case agg
    let ?a = "b\<lparr>ip_PartialAggSpec := Some spec, ip_Strategy := MergePartialAgg\<rparr>"
    have ns: "ns = take i ns @ ip_CoordNodes ?a" by (simp add: b)
    show ?thesis
    proof (cases rule: plan_top_rows_cases [where str = str and r = ?a])
      case same
      then show ?thesis using first push b agg by (intro exI [of _ "[]"]) (simp add: ns_def)
    next
      case (topk k keys n)
      then show ?thesis using first push b agg ns by (intro exI [of _ "[TopKNode k keys n]"]) (simp add: ns_def)
    next
      case (sort k keys n m)
      then show ?thesis using first push b agg ns by (intro exI [of _ "[SortNode keys n, LimitNode k False m]"]) (simp add: ns_def)
    qed
  qed
qed

end
