(* ===== verification/Spec2Isabelle.thy ===== *)
theory Spec2Isabelle
  imports Range_Value Range_Section Memory_Account Meta_FSM Segment_Skip Primary_Index Value_Laws LF_Logic
    Cluster_Plan Shard_Pruner
begin

text \<open>
  A verification of the storage, expression evaluation, memory and cluster metadata core of LynxDB, a
  columnar log database written in Go.

  \<^bold>\<open>The program.\<close> Events are ingested into immutable segment files. A segment is cut into row
  groups; in a row group every column is encoded by type (dictionary, delta, Gorilla, LZ4), optionally
  block compressed, and described in the footer together with zone maps, bloom filters, range
  indexes and a sparse primary index. A query skips segments, then row groups, then rows, using
  ever more detailed metadata, before it decodes columns and runs its operators. The expressions of a
  query are compiled to bytecode, which a stack machine runs for every row. Query operators
  account for their memory with a process-wide governor. In a cluster, nodes replicate a metadata
  state machine through Raft: node registry, shard map, leases, compaction tasks, catalogs; shards
  are placed by a consistent hash ring. A query over a cluster is divided into a part that every shard
  runs, up to partial aggregates, and a part that the coordinator runs on the merged results.

  \<^bold>\<open>Shared theories.\<close> \<open>Prelude\<close> has the types (bytes, machine words, the slices of Go), fixed width and
  variable width integers, decimal formatting and generic lemmas on lists, folds and words.
  \<open>Column_Encoding\<close> has the encoding tags, the errors of the column package and the locale of column
  codecs. \<open>Bit_Stream\<close>, \<open>CRC32\<close> and \<open>Roaring\<close> hold the bit stream of Gorilla, the IEEE checksum
  and the interface of the bitmap library. The locales state interfaces and are interpreted on the
  model's own definitions: column codecs on the four codecs, item codecs on the entries of
  the footer and of the primary index, memory accounts on the governed and the empty account, interpreters
  with fuel on the machine, partial aggregates on the aggregation functions.

  \<^bold>\<open>Column codecs\<close> (\<^verbatim>\<open>src/pkg/storage/segment/column\<close>). \<open>Delta_Codec\<close>, \<open>Dict_Codec\<close>,
  \<open>Gorilla_Codec\<close>, \<open>LZ4_Codec\<close> translate the encoders and decoders byte by byte, with every error
  branch and the panics of slice expressions as values. Shown: each codec reads back what it wrote;
  filtering a dictionary column by its codes is filtering its values; decoders are bounded.

  \<^bold>\<open>Range indexes\<close> (\<^verbatim>\<open>src/pkg/storage/segment/index\<close>). \<open>Range_Value\<close> maps floats to ordered
  integers, \<open>Packed_Range\<close> packs offsets into bits, \<open>Range_Section\<close> frames the columns of a row group.
  Slice and index expressions of the readers have a panic outcome. Shown: round trips, exact comparison on
  the packed form, detection of corrupted bytes, no panic on arbitrary bytes.

  \<^bold>\<open>Segment files\<close> (\<^verbatim>\<open>src/pkg/storage/segment\<close>). \<open>Segment_Footer\<close> is \<^verbatim>\<open>format.go\<close>, \<^verbatim>\<open>rowgroup.go\<close>,
  \<^verbatim>\<open>version.go\<close>, \<^verbatim>\<open>capabilities.go\<close> and the opening of a file; \<open>Column_Chunk\<close> is the writing and reading of
  a column chunk with compression, checksum and statistics; \<open>Primary_Index\<close> is the sparse index over
  sort keys. Shown: a footer and a chunk survive the file, a written file opens, a seek returns the
  rows it should up to duplicates of the key, which it can miss.

  \<^bold>\<open>Skipping data.\<close> \<open>Row_Predicate\<close> is the evaluation of predicates on encoded columns
  (\<^verbatim>\<open>reader.go\<close>, \<^verbatim>\<open>int_predicate.go\<close>): the bitmap of selected rows is exactly the set of
  rows that satisfy the predicates. \<open>RG_Filter\<close> is the row group filter (\<^verbatim>\<open>rgfilter.go\<close>) with the tree built
  from the hints of a query (\<^verbatim>\<open>src/pkg/engine/pipeline/segment_stream.go\<close>): a row that satisfies the query
  is never pruned, neither by the verdict nor by a row mask, with zone maps, bloom filters and range
  indexes of all value kinds, under conditions on the literals that the theory names (\<open>prunable\<close>); the conditions are needed, and an integer equality that prunes a matching
  row is proved. \<open>Segment_Skip\<close> is the decision to skip a segment (\<^verbatim>\<open>src/pkg/server/store.go\<close>) and time
  pruning: sound for text columns, exact for times, and wrong for numbers, which is proved on an
  example.

  \<^bold>\<open>Values\<close> (\<^verbatim>\<open>src/pkg/event/value.go\<close>, \<^verbatim>\<open>src/pkg/vm\<close>). \<open>Float64\<close> is the arithmetic of float64 on bit patterns, rounded
  exactly; \<open>Event_Value\<close> the dynamic value; \<open>Value_Ops\<close> equality, order and arithmetic, coercing and strict;
  \<open>Value_Functions\<close> the functions behind the opcodes. \<open>Value_Laws\<close> shows that bins of numbers round down, that bins
  of time stamps before 1970 do not, that the entries of an object rebuild it, and a cycle in the order that
  sorting uses.

  \<^bold>\<open>Expressions\<close> (\<^verbatim>\<open>src/pkg/vm\<close>, \<^verbatim>\<open>src/pkg/lynxflow/ast/ast.go\<close>). \<open>VM_Program\<close> has the opcodes, their encoding and the pools
  of a program; \<open>VM_Exec\<close> the machine: stack, cache of parsed JSON, lambda parameters, warning counters, one
  instruction, the loops over arrays, and the run of a program; \<open>LF_Compiler\<close> the tree of expressions, the compiler, the
  registry of functions and their emitters. \<open>LF_Eval\<close> is the specification: an evaluator over the tree without
  stack, jumps or cache, and the test \<open>fits\<close> for expressions whose code keeps to the stack. The proof goes
  bottom up: \<open>VM_Run\<close> (fuel, warnings and cache do not change values, what code at an address does),
  \<open>VM_Rules\<close> (a rule per instruction), \<open>LF_Emit\<close>, \<open>LF_Operators\<close>, \<open>LF_Calls\<close> and \<open>LF_Lambdas\<close> (a rule per construct
  of the compiler), \<open>LF_Correct\<close> (all expressions). \<open>LF_Program\<close> draws the conclusions: a compiled expression
  returns what the evaluator gives, with no other errors and no access outside the stack (which is an outcome of its own
  before the machine recovers from it), on a new or a reused machine. \<open>LF_Logic\<close> applies
  them: the connectives are Kleene's; the code of nested connectives doubles per level; a conditional
  that is an operand is wrong, which is why \<open>fits\<close> admits it only where its value is the last one.

  \<^bold>\<open>Memory\<close> (\<^verbatim>\<open>src/pkg/memgov\<close>). \<open>Memory_Governor\<close> has the governor's state, reservations, revocation and
  pressure callbacks; \<open>Memory_Budget\<close> the query budgets, leases and operator memory; \<open>Memory_Account\<close>
  the accounts of operators over a budget. Concurrent calls are interleavings of the critical sections
  and atomic operations. Shown: the counters are the sums of what is held, a query stays within its limit
  in sequential use and how far concurrent growth can exceed it, closing returns everything.

  \<^bold>\<open>Cluster metadata\<close> (\<^verbatim>\<open>src/pkg/cluster/meta\<close>, \<^verbatim>\<open>sharding\<close>, \<^verbatim>\<open>rebalance\<close>). \<open>Sharding\<close> has the hash ring, shard
  identifiers, routing and splits; \<open>Meta_State\<close> one function per apply method; \<open>Meta_FSM\<close> the
  dispatch of log entries, snapshots and the properties over whole logs. Shown: replicas are distinct and a
  membership change moves only what it must; a primary changes only through a drain; lease epochs fence;
  a restored snapshot is the saved state; a rebalance plan settles; and the defects found: an
  assignment that lookup never finds, a migration that nothing completes, splits that divide nothing.

  \<^bold>\<open>Partial aggregation\<close> (\<^verbatim>\<open>src/pkg/engine/pipeline/partial_agg.go\<close>, \<^verbatim>\<open>hll.go\<close>, \<^verbatim>\<open>tdigest.go\<close>). \<open>HyperLogLog\<close> and
  \<open>T_Digest\<close> are the sketches, \<open>Partial_Agg\<close> the groups, the update, merge and final value of every
  aggregate, on events and on batches. \<open>Agg_State\<close> shows with the locale \<open>partial_aggregate\<close> that merging states is
  aggregating the concatenation, \<open>Agg_Groups\<close> lifts it to groups and \<open>Agg_Merge\<close> to result rows: any division of
  the events gives the rows of the specification; compaction of views and the path over batches agree; a
  minimum over strings can depend on the division. \<open>Top_K\<close> is the selection of the best rows with a heap.

  \<^bold>\<open>Cluster queries\<close> (\<^verbatim>\<open>src/pkg/cluster/query\<close>, \<^verbatim>\<open>src/pkg/storage/sources\<close>). \<open>Cluster_Plan\<close> divides a logical plan between
  shards and coordinator: every node is run once, in order. \<open>Shard_Pruner\<close> is the source registry and the choice of
  shards and nodes: shards that an event was routed to are read; and the defects found: long queries
  drop the newest buckets, the children of a split are never read, and under the keys of the
  metadata service no shard is.

  \<^bold>\<open>Parameters and hypotheses.\<close> Code outside the repository is an argument: the roaring bitmap and
  bit-sliced index libraries (records \<open>roaring\<close>, \<open>bsi\<close> with laws on membership and stored values), LZ4 and
  ZSTD (decompression inverts compression), the bloom filter (no false negatives), \<^verbatim>\<open>strconv.ParseFloat\<close>
  and \<^verbatim>\<open>FormatFloat\<close>, the hash of the ring, \<^verbatim>\<open>sort.Slice\<close> (some sorted permutation), the clock, the
  iteration order of maps, glob matching; for expressions the records \<open>go_lib\<close> (parsing and printing of
  numbers and times, case mapping, decoding of characters), \<open>vm_lib\<close> (JSON, and the opcodes listed in \<open>rest_ops\<close>) and
  \<open>lf_env\<close> (validity of patterns, the time), for aggregation \<open>agg_env\<close> (logarithm and square root, sorting, the equality of value structs, the threshold of sketches).
  Every law has an instance, and every property with a hypothesis has a witness that applies it at
  concrete values.

  \<^bold>\<open>Bounds.\<close> Machine integers keep their width where the code can overflow (offsets, sizes and counts of the
  file format, memory counters as int64, checksums); sizes that Go holds in memory are assumed below 2^63.
  All loops are total functions, by structural recursion or a measure; the resolution of shard splits,
  which can diverge, is a partial function into option, and the theorem about it says exactly when it returns. The machine runs with fuel; the theorems say that enough fuel gives
  the result. Programs are below 65536 bytes (\<open>addressable\<close>), the range of a jump target.

  \<^bold>\<open>Not modelled.\<close> The assembly of events from columns and of row groups from events, the inverted index, the
  buffer manager, compaction, the operators of the query pipeline, the query language front end and
  optimizer, the functions of expressions on regular expressions, time zones, hashes, URLs and JSON, cluster ingest and the transport of cluster queries, the server, API, receivers, configuration and command line; the
  manifest lists each with its reason. Caches of decoded data, locks, logging and metrics are left out of the
  modelled functions. In the cluster metadata a \<open>nil\<close> map is not told apart from an empty one.
\<close>

end
